(* ===== verification/Prelude.thy ===== *)
theory Prelude
  imports Main "HOL-Library.Word" "HOL-Library.Monad_Syntax"
begin

text \<open>Shared vocabulary of the development.

  Machine types: \<^verbatim>\<open>byte\<close> is an 8-bit word, \<^verbatim>\<open>u16\<close> and \<^verbatim>\<open>u32\<close> are the unsigned C
  types, which wrap.  A signed C variable is an \<^typ>\<open>int\<close> (its overflow is
  undefined in C, and the ranges are stated where they matter).

  Memory: a pointer argument into memory the callee does not own is an
  address into \<^verbatim>\<open>mem\<close>, a total map, so a write beyond the caller's buffer is
  visible in the model.  An array with a declared bound is a list that is read
  and written through \<^verbatim>\<open>rd\<close> and \<^verbatim>\<open>wr\<close>, which give \<^const>\<open>None\<close> on an index out of
  bounds: that is what C leaves undefined.

  The collections \<^verbatim>\<open>mem_simps\<close> and \<^verbatim>\<open>arr_simps\<close> hold the facts about both that the
  component theories hand to the simplifier.\<close>

unbundle bit_operations_syntax

type_synonym byte = "8 word"
type_synonym u16 = "16 word"
type_synonym u32 = "32 word"
type_synonym mem = "nat \<Rightarrow> byte"

text \<open>One \<^verbatim>\<open>outb\<close>: the port and the byte sent to it.\<close>
type_synonym port_write = "u16 \<times> byte"

text \<open>A string literal with its newline.\<close>

abbreviation nl :: "string \<Rightarrow> string" where "nl t \<equiv> t @ [CHR 0x0A]"

named_theorems mem_simps
named_theorems arr_simps

section \<open>Checked arrays\<close>

definition rd :: "'a list \<Rightarrow> nat \<Rightarrow> 'a option" where
  "rd xs i = (if i < length xs then Some (xs ! i) else None)"

definition wr :: "'a list \<Rightarrow> nat \<Rightarrow> 'a \<Rightarrow> 'a list option" where
  "wr xs i v = (if i < length xs then Some (xs[i := v]) else None)"

lemma rd_in [arr_simps]: "i < length xs \<Longrightarrow> rd xs i = Some (xs ! i)"
  by (simp add: rd_def)

lemma rd_out [arr_simps]: "length xs \<le> i \<Longrightarrow> rd xs i = None"
  by (simp add: rd_def)

lemma wr_in [arr_simps]: "i < length xs \<Longrightarrow> wr xs i v = Some (xs[i := v])"
  by (simp add: wr_def)

lemma wr_out [arr_simps]: "length xs \<le> i \<Longrightarrow> wr xs i v = None"
  by (simp add: wr_def)

lemma rd_Some_iff: "rd xs i = Some v \<longleftrightarrow> i < length xs \<and> v = xs ! i"
  by (auto simp: rd_def)

lemma wr_Some_iff: "wr xs i v = Some ys \<longleftrightarrow> i < length xs \<and> ys = xs[i := v]"
  by (auto simp: wr_def)

section \<open>Byte memory\<close>

text \<open>The \<^verbatim>\<open>n\<close> bytes from address \<^verbatim>\<open>a\<close>, and memory with a list stored at \<^verbatim>\<open>a\<close>.\<close>

definition bytes_of :: "mem \<Rightarrow> nat \<Rightarrow> nat \<Rightarrow> byte list" where
  "bytes_of m a n = map (\<lambda>i. m (a + i)) [0..<n]"

definition put_bytes :: "mem \<Rightarrow> nat \<Rightarrow> byte list \<Rightarrow> mem" where
  "put_bytes m a bs = (\<lambda>p. if a \<le> p \<and> p < a + length bs then bs ! (p - a) else m p)"

text \<open>The simplifier may leave an update in the form of its definition.\<close>

lemma upd_fold [mem_simps]: "(\<lambda>a. if a = d then v else m a) = m(d := v)"
  by (rule ext) simp

lemma length_bytes_of [simp]: "length (bytes_of m a n) = n"
  by (simp add: bytes_of_def)

lemma nth_bytes_of [simp]: "i < n \<Longrightarrow> bytes_of m a n ! i = m (a + i)"
  by (simp add: bytes_of_def)

lemma bytes_of_0 [simp]: "bytes_of m a 0 = []"
  by (simp add: bytes_of_def)

lemma bytes_of_Suc: "bytes_of m a (Suc n) = m a # bytes_of m (Suc a) n"
  by (rule nth_equalityI) (auto simp: nth_Cons split: nat.splits)

lemma bytes_of_add: "bytes_of m a (n + k) = bytes_of m a n @ bytes_of m (a + n) k"
  by (rule nth_equalityI) (auto simp: nth_append)

lemma bytes_of_snoc: "bytes_of m a (Suc n) = bytes_of m a n @ [m (a + n)]"
  using bytes_of_add[of m a n 1] by (simp add: bytes_of_Suc)

lemma bytes_of_cong:
  assumes "\<And>i. i < n \<Longrightarrow> m (a + i) = m' (a' + i)"
  shows "bytes_of m a n = bytes_of m' a' n"
  using assms by (auto intro: nth_equalityI)

lemma put_bytes_Nil [simp]: "put_bytes m a [] = m"
  by (rule ext) (auto simp: put_bytes_def)

lemma put_bytes_Cons: "put_bytes m a (b # bs) = put_bytes (m(a := b)) (Suc a) bs"
proof
  fix p show "put_bytes m a (b # bs) p = put_bytes (m(a := b)) (Suc a) bs p"
    by (cases "p = a") (auto simp: put_bytes_def nth_Cons')
qed

lemma put_bytes_append:
  "put_bytes m a (bs @ cs) = put_bytes (put_bytes m a bs) (a + length bs) cs"
  by (rule ext) (auto simp: put_bytes_def nth_append)

lemma put_bytes_in [mem_simps]: "i < length bs \<Longrightarrow> put_bytes m a bs (a + i) = bs ! i"
  by (simp add: put_bytes_def)

lemma put_bytes_out [mem_simps]:
  "p < a \<or> a + length bs \<le> p \<Longrightarrow> put_bytes m a bs p = m p"
  by (auto simp: put_bytes_def)

lemma bytes_of_put_bytes [simp]: "length bs = n \<Longrightarrow> bytes_of (put_bytes m a bs) a n = bs"
  by (rule nth_equalityI) (auto simp: put_bytes_def)

lemma put_bytes_snoc:
  "put_bytes m a (bs @ [b]) = (put_bytes m a bs)(a + length bs := b)"
  by (simp add: put_bytes_append put_bytes_Cons)

section \<open>C strings in memory\<close>

text \<open>\<^verbatim>\<open>cstr m s xs\<close>: the characters \<^verbatim>\<open>xs\<close>, none of them NUL, stand at \<^verbatim>\<open>s\<close> and a NUL
  follows them.\<close>

definition cstr :: "mem \<Rightarrow> nat \<Rightarrow> byte list \<Rightarrow> bool" where
  "cstr m s xs \<longleftrightarrow> bytes_of m s (length xs) = xs \<and> 0 \<notin> set xs \<and> m (s + length xs) = 0"

lemma cstr_Nil [simp]: "cstr m s [] \<longleftrightarrow> m s = 0"
  by (simp add: cstr_def)

lemma cstr_Cons: "cstr m s (x # xs) \<longleftrightarrow> m s = x \<and> x \<noteq> 0 \<and> cstr m (Suc s) xs"
  by (auto simp: cstr_def bytes_of_Suc)

lemma cstr_nth: "cstr m s xs \<Longrightarrow> i < length xs \<Longrightarrow> m (s + i) = xs ! i"
  unfolding cstr_def by (metis nth_bytes_of)

lemma cstr_nth_nonzero: "cstr m s xs \<Longrightarrow> i < length xs \<Longrightarrow> m (s + i) \<noteq> 0"
  by (metis cstr_def cstr_nth nth_mem)

lemma cstr_end: "cstr m s xs \<Longrightarrow> m (s + length xs) = 0"
  by (simp add: cstr_def)

lemma cstr_drop: "cstr m s xs \<Longrightarrow> n \<le> length xs \<Longrightarrow> cstr m (s + n) (drop n xs)"
proof (induction n arbitrary: s xs)
  case (Suc n)
  then show ?case by (cases xs) (fastforce simp: cstr_Cons)+
qed simp

lemma cstr_put: "0 \<notin> set xs \<Longrightarrow> cstr (put_bytes m s (xs @ [0])) s xs"
  by (induction xs arbitrary: m s)
     (auto simp: cstr_Cons put_bytes_Cons put_bytes_out)

lemma cstr_unique: "cstr m s xs \<Longrightarrow> cstr m s ys \<Longrightarrow> xs = ys"
proof (induction xs arbitrary: s ys)
  case Nil then show ?case by (cases ys) (auto simp: cstr_Cons)
next
  case (Cons x xs) then show ?case by (cases ys) (auto simp: cstr_Cons)
qed

section \<open>Counting with words\<close>

lemma unat_inc: "a < b \<Longrightarrow> unat (a + 1) = unat a + 1" for a b :: "'a::len word"
proof -
  assume "a < b"
  then have "unat a < unat b" by (simp add: word_less_nat_alt)
  moreover have "unat b < 2 ^ LENGTH('a)" by (rule unsigned_less)
  ultimately have "unat a + 1 < 2 ^ LENGTH('a)" by linarith
  then show ?thesis by (simp add: unat_word_ariths)
qed

lemma unat_diff_less: "a < b \<Longrightarrow> unat (b - (a + 1)) < unat (b - a)" for a b :: "'a::len word"
proof -
  assume "a < b"
  moreover from this have "a + 1 \<le> b" by (simp add: word_le_nat_alt word_less_nat_alt unat_inc)
  ultimately show ?thesis
    using unat_inc[of a b] by (simp add: unat_sub word_less_nat_alt less_imp_le word_le_nat_alt)
qed

lemma unat_of_nat_small: "n < 2 ^ LENGTH('a) \<Longrightarrow> unat (of_nat n :: 'a::len word) = n"
  by (simp add: unsigned_of_nat take_bit_nat_eq_self)

lemma unat_of_nat_below: "n < unat w \<Longrightarrow> unat (of_nat n :: 'a word) = n" for w :: "'a::len word"
proof -
  assume "n < unat w"
  moreover have "unat w < 2 ^ LENGTH('a)" by (rule unsigned_less)
  ultimately show ?thesis by (intro unat_of_nat_small) linarith
qed

lemma sint_unat_small: "unat w < 0x80000000 \<Longrightarrow> sint w = int (unat w)" for w :: u32
proof -
  assume "unat w < 0x80000000"
  then have "int (unat w) < 0x80000000" by linarith
  moreover have "sint w = sint (word_of_int (int (unat w)) :: u32)" by simp
  ultimately show ?thesis unfolding int_word_sint by simp
qed

lemma unat_le_diff: "a \<le> b \<Longrightarrow> unat (b - a) = unat b - unat a" for a b :: "'a::len word"
  by (simp add: unat_sub)

section \<open>Little helpers\<close>

lemma option_bind_Some_iff:
  "Option.bind x f = Some y \<longleftrightarrow> (\<exists>z. x = Some z \<and> f z = Some y)"
  by (cases x) auto

lemma nth_default_ub: "(\<And>i. i < length xs \<Longrightarrow> P (xs ! i)) \<Longrightarrow> x \<in> set xs \<Longrightarrow> P x"
  by (auto simp: in_set_conv_nth)

end
