(* ===== verification/Lib.thy ===== *)
theory Lib
  imports Prelude
begin

text \<open>The kernel's C library, \<^verbatim>\<open>student-distrib/lib.c\<close>: string and memory
  routines over byte memory.  The string loops run until they meet a NUL, so
  they are partial functions (\<^const>\<open>None\<close>: the loop does not end); the three
  inline-assembly copies are modelled register by register.  Results:
  \<^verbatim>\<open>itoa\<close> writes the positional numeral, the assembly \<^verbatim>\<open>memcpy\<close>/\<^verbatim>\<open>memset\<close>/\<^verbatim>\<open>memmove\<close>
  equal the byte-wise reference \<^const>\<open>put_bytes\<close>.\<close>

section \<open>strlen, strrev, itoa\<close>

partial_function (option) strlen_loop :: "mem \<Rightarrow> nat \<Rightarrow> nat \<Rightarrow> nat option" where
  "strlen_loop m s len = (if m (s + len) \<noteq> 0 then strlen_loop m s (len + 1) else Some len)"

definition strlen :: "mem \<Rightarrow> nat \<Rightarrow> nat option" where
  "strlen m s = strlen_loop m s 0"

text \<open>The indices \<^verbatim>\<open>beg\<close> and \<^verbatim>\<open>end\<close> are signed: \<^verbatim>\<open>end\<close> is -1 on an empty string.\<close>

function strrev_loop :: "mem \<Rightarrow> nat \<Rightarrow> int \<Rightarrow> int \<Rightarrow> mem" where
  "strrev_loop m s beg fin =
     (if beg < fin
      then let tmp = m (nat (int s + fin));
               m1 = m(nat (int s + fin) := m (nat (int s + beg)));
               m2 = m1(nat (int s + beg) := tmp)
           in strrev_loop m2 s (beg + 1) (fin - 1)
      else m)"
  by auto
termination by (relation "measure (\<lambda>(m, s, b, e). nat (e - b))") auto

declare strrev_loop.simps [simp del]

definition strrev :: "mem \<Rightarrow> nat \<Rightarrow> mem option" where
  "strrev m s = do { n \<leftarrow> strlen m s; Some (strrev_loop m s 0 (int n - 1)) }"

text \<open>\<^verbatim>\<open>static int8_t lookup[]\<close>: the 36 digits and the terminating NUL.\<close>

definition itoa_lookup :: "byte list" where
  "itoa_lookup =
    [0x30, 0x31, 0x32, 0x33, 0x34, 0x35, 0x36, 0x37, 0x38, 0x39,
     0x41, 0x42, 0x43, 0x44, 0x45, 0x46, 0x47, 0x48, 0x49, 0x4A, 0x4B, 0x4C, 0x4D,
     0x4E, 0x4F, 0x50, 0x51, 0x52, 0x53, 0x54, 0x55, 0x56, 0x57, 0x58, 0x59, 0x5A, 0]"

text \<open>The digit loop: \<^verbatim>\<open>newval % radix\<close> traps for radix 0, never ends for radix 1,
  and reads past \<^verbatim>\<open>lookup\<close> for a digit of 37 or more.\<close>

partial_function (option) itoa_loop :: "mem \<Rightarrow> nat \<Rightarrow> u32 \<Rightarrow> u32 \<Rightarrow> (mem \<times> nat) option" where
  "itoa_loop m newbuf newval radix =
     (if 0 < newval then
        if radix = 0 then None
        else do {
          d \<leftarrow> rd itoa_lookup (unat (newval mod radix));
          itoa_loop (m(newbuf := d)) (newbuf + 1) (newval div radix) radix }
      else Some (m, newbuf))"

definition itoa :: "mem \<Rightarrow> u32 \<Rightarrow> nat \<Rightarrow> u32 \<Rightarrow> mem option" where
  "itoa m v buf radix =
     (if v = 0 then Some (m(buf := 0x30, buf + 1 := 0))
      else do {
        (m1, newbuf) \<leftarrow> itoa_loop m buf v radix;
        strrev (m1(newbuf := 0)) buf })"

section \<open>strncmp, strcpy, strncpy\<close>

function strncmp_loop :: "mem \<Rightarrow> nat \<Rightarrow> nat \<Rightarrow> nat \<Rightarrow> nat \<Rightarrow> int" where
  "strncmp_loop m s1 s2 n i =
     (if i < n then
        if m (s1 + i) \<noteq> m (s2 + i) \<or> m (s1 + i) = 0
        then sint (m (s1 + i)) - sint (m (s2 + i))
        else strncmp_loop m s1 s2 n (i + 1)
      else 0)"
  by auto
termination by (relation "measure (\<lambda>(m, s1, s2, n, i). n - i)") auto

declare strncmp_loop.simps [simp del]

definition strncmp :: "mem \<Rightarrow> nat \<Rightarrow> nat \<Rightarrow> nat \<Rightarrow> int" where
  "strncmp m s1 s2 n = strncmp_loop m s1 s2 n 0"

partial_function (option) strcpy_loop :: "mem \<Rightarrow> nat \<Rightarrow> nat \<Rightarrow> nat \<Rightarrow> mem option" where
  "strcpy_loop m dest src i =
     (if m (src + i) \<noteq> 0
      then strcpy_loop (m(dest + i := m (src + i))) dest src (i + 1)
      else Some (m(dest + i := 0)))"

definition strcpy :: "mem \<Rightarrow> nat \<Rightarrow> nat \<Rightarrow> mem option" where
  "strcpy m dest src = strcpy_loop m dest src 0"

text \<open>\<^verbatim>\<open>strncpy\<close>: the copying loop gives the index where it stops, the second loop
  fills with NUL up to \<^verbatim>\<open>n\<close>.\<close>

function strncpy_copy :: "mem \<Rightarrow> nat \<Rightarrow> nat \<Rightarrow> nat \<Rightarrow> nat \<Rightarrow> mem \<times> nat" where
  "strncpy_copy m dest src n i =
     (if m (src + i) \<noteq> 0 \<and> i < n
      then strncpy_copy (m(dest + i := m (src + i))) dest src n (i + 1)
      else (m, i))"
  by auto
termination by (relation "measure (\<lambda>(m, dest, src, n, i). n - i)") auto

function strncpy_pad :: "mem \<Rightarrow> nat \<Rightarrow> nat \<Rightarrow> nat \<Rightarrow> mem" where
  "strncpy_pad m dest n i =
     (if i < n then strncpy_pad (m(dest + i := 0)) dest n (i + 1) else m)"
  by auto
termination by (relation "measure (\<lambda>(m, dest, n, i). n - i)") auto

declare strncpy_copy.simps [simp del] strncpy_pad.simps [simp del]

definition strncpy :: "mem \<Rightarrow> nat \<Rightarrow> nat \<Rightarrow> nat \<Rightarrow> mem" where
  "strncpy m dest src n =
     (let (m1, i) = strncpy_copy m dest src n 0 in strncpy_pad m1 dest n i)"

section \<open>The assembly copies\<close>

text \<open>\<^verbatim>\<open>rep stosl\<close>, \<^verbatim>\<open>rep movsl\<close>, \<^verbatim>\<open>rep movsb\<close> with the direction flag clear, and
  \<^verbatim>\<open>rep movsb\<close> with it set.  \<^verbatim>\<open>movsl\<close> reads its four bytes before it writes them.\<close>

fun rep_stosl :: "mem \<Rightarrow> byte \<Rightarrow> nat \<Rightarrow> nat \<Rightarrow> mem \<times> nat" where
  "rep_stosl m al edi 0 = (m, edi)"
| "rep_stosl m al edi (Suc ecx) = rep_stosl (put_bytes m edi [al, al, al, al]) al (edi + 4) ecx"

fun rep_movsl :: "mem \<Rightarrow> nat \<Rightarrow> nat \<Rightarrow> nat \<Rightarrow> mem \<times> nat \<times> nat" where
  "rep_movsl m edi esi 0 = (m, edi, esi)"
| "rep_movsl m edi esi (Suc ecx) =
     rep_movsl (put_bytes m edi (bytes_of m esi 4)) (edi + 4) (esi + 4) ecx"

fun rep_movsb :: "mem \<Rightarrow> nat \<Rightarrow> nat \<Rightarrow> nat \<Rightarrow> mem" where
  "rep_movsb m edi esi 0 = m"
| "rep_movsb m edi esi (Suc ecx) = rep_movsb (m(edi := m esi)) (edi + 1) (esi + 1) ecx"

fun rep_movsb_down :: "mem \<Rightarrow> int \<Rightarrow> int \<Rightarrow> nat \<Rightarrow> mem" where
  "rep_movsb_down m edi esi 0 = m"
| "rep_movsb_down m edi esi (Suc ecx) =
     rep_movsb_down (m(nat edi := m (nat esi))) (edi - 1) (esi - 1) ecx"

text \<open>\<^verbatim>\<open>memset\<close>: bytes until the destination is 4-aligned, then double words
  (\<^verbatim>\<open>c << 24 | c << 16 | c << 8 | c\<close> is four times the byte \<^verbatim>\<open>c & 0xFF\<close>), then the
  last \<^verbatim>\<open>ecx & 3\<close> bytes.\<close>

fun memset_bottom :: "mem \<Rightarrow> byte \<Rightarrow> nat \<Rightarrow> nat \<Rightarrow> mem" where
  "memset_bottom m al edi 0 = m"
| "memset_bottom m al edi (Suc edx) = memset_bottom (m(edi := al)) al (edi + 1) edx"

fun memset_top :: "mem \<Rightarrow> byte \<Rightarrow> nat \<Rightarrow> nat \<Rightarrow> mem" where
  "memset_top m al edi 0 = m"
| "memset_top m al edi (Suc ecx) =
     (if edi mod 4 = 0
      then let edx = Suc ecx mod 4; (m1, edi1) = rep_stosl m al edi (Suc ecx div 4)
           in memset_bottom m1 al edi1 edx
      else memset_top (m(edi := al)) al (edi + 1) ecx)"

definition memset :: "mem \<Rightarrow> nat \<Rightarrow> int \<Rightarrow> nat \<Rightarrow> mem" where
  "memset m s c n = memset_top m (word_of_int c AND 0xFF) s n"

fun memcpy_bottom :: "mem \<Rightarrow> nat \<Rightarrow> nat \<Rightarrow> nat \<Rightarrow> mem" where
  "memcpy_bottom m edi esi 0 = m"
| "memcpy_bottom m edi esi (Suc edx) = memcpy_bottom (m(edi := m esi)) (edi + 1) (esi + 1) edx"

fun memcpy_top :: "mem \<Rightarrow> nat \<Rightarrow> nat \<Rightarrow> nat \<Rightarrow> mem" where
  "memcpy_top m edi esi 0 = m"
| "memcpy_top m edi esi (Suc ecx) =
     (if edi mod 4 = 0
      then let edx = Suc ecx mod 4; (m1, edi1, esi1) = rep_movsl m edi esi (Suc ecx div 4)
           in memcpy_bottom m1 edi1 esi1 edx
      else memcpy_top (m(edi := m esi)) (edi + 1) (esi + 1) ecx)"

definition memcpy :: "mem \<Rightarrow> nat \<Rightarrow> nat \<Rightarrow> nat \<Rightarrow> mem" where
  "memcpy m dest src n = memcpy_top m dest src n"

text \<open>\<^verbatim>\<open>memmove\<close> also gives the direction flag it leaves behind: the descending
  branch executes \<^verbatim>\<open>std\<close> and no \<^verbatim>\<open>cld\<close> follows.\<close>

definition memmove :: "mem \<Rightarrow> nat \<Rightarrow> nat \<Rightarrow> nat \<Rightarrow> mem \<times> bool" where
  "memmove m dest src n =
     (if dest \<le> src then (rep_movsb m dest src n, False)
      else (rep_movsb_down m (int dest + int n - 1) (int src + int n - 1) n, True))"

text \<open>\<^verbatim>\<open>memset_word\<close> and \<^verbatim>\<open>memset_dword\<close>: \<^verbatim>\<open>rep stosw\<close> and \<^verbatim>\<open>rep stosl\<close>, little endian.\<close>

fun memset_word :: "mem \<Rightarrow> nat \<Rightarrow> u32 \<Rightarrow> nat \<Rightarrow> mem" where
  "memset_word m s c 0 = m"
| "memset_word m s c (Suc n) =
     memset_word (put_bytes m s [ucast c, ucast (drop_bit 8 c)]) (s + 2) c n"

fun memset_dword :: "mem \<Rightarrow> nat \<Rightarrow> u32 \<Rightarrow> nat \<Rightarrow> mem" where
  "memset_dword m s c 0 = m"
| "memset_dword m s c (Suc n) =
     memset_dword (put_bytes m s [ucast c, ucast (drop_bit 8 c), ucast (drop_bit 16 c),
                                  ucast (drop_bit 24 c)]) (s + 4) c n"

section \<open>Facts: strings\<close>

lemma strlen_loop_cstr: "cstr m (s + k) xs \<Longrightarrow> strlen_loop m s k = Some (k + length xs)"
proof (induction xs arbitrary: k)
  case Nil then show ?case by (simp add: strlen_loop.simps)
next
  case (Cons x xs)
  then have "strlen_loop m s (k + 1) = Some (k + 1 + length xs)" by (simp add: cstr_Cons)
  with Cons.prems show ?case by (subst strlen_loop.simps) (simp add: cstr_Cons)
qed

lemma strlen_cstr [mem_simps]: "cstr m s xs \<Longrightarrow> strlen m s = Some (length xs)"
  using strlen_loop_cstr[of m s 0 xs] by (simp add: strlen_def)

lemma strlen_loop_Some:
  "strlen_loop m s k = Some n \<Longrightarrow> k \<le> n \<and> cstr m (s + k) (bytes_of m (s + k) (n - k))"
proof (erule strlen_loop.raw_induct[rotated])
  fix rec :: "mem \<Rightarrow> nat \<Rightarrow> nat \<Rightarrow> nat option" and m s k n
  assume IH: "\<And>m s k n. rec m s k = Some n \<Longrightarrow>
      k \<le> n \<and> cstr m (s + k) (bytes_of m (s + k) (n - k))"
    and step: "(if m (s + k) \<noteq> 0 then rec m s (k + 1) else Some k) = Some n"
  show "k \<le> n \<and> cstr m (s + k) (bytes_of m (s + k) (n - k))"
  proof (cases "m (s + k) = 0")
    case True with step show ?thesis by simp
  next
    case False
    with step IH[of m s "k + 1" n] have *: "k + 1 \<le> n"
      "cstr m (s + (k + 1)) (bytes_of m (s + (k + 1)) (n - (k + 1)))" by simp_all
    then have "n - k = Suc (n - (k + 1))" by simp
    with * False show ?thesis by (simp add: bytes_of_Suc cstr_Cons)
  qed
qed

lemma strlen_Some: "strlen m s = Some n \<Longrightarrow> cstr m s (bytes_of m s n)"
  using strlen_loop_Some[of m s 0 n] by (simp add: strlen_def)

text \<open>The swap loop reverses the segment between its two indices.\<close>

lemma strrev_loop_put:
  "strrev_loop (put_bytes m (s + b) xs) s (int b) (int b + int (length xs) - 1) =
     put_bytes m (s + b) (rev xs)"
proof (induction "length xs" arbitrary: xs b m rule: less_induct)
  case less
  show ?case
  proof (cases "length xs < 2")
    case True
    then consider "xs = []" | x where "xs = [x]"
      by (cases xs; cases "tl xs") auto
    then show ?thesis by cases (simp_all add: strrev_loop.simps)
  next
    case False
    then obtain x ys y where xs: "xs = x # ys @ [y]"
      by (cases xs; cases "tl xs" rule: rev_cases) auto
    let ?f = "s + b" and ?l = "s + b + length ys + 1"
    have addr: "nat (int s + (int b + int (length xs) - 1)) = ?l" "nat (int s + int b) = ?f"
      by (simp_all add: xs)
    have swap: "(put_bytes m ?f xs)(?l := x, ?f := y) =
        put_bytes (m(?f := y, ?l := x)) (s + Suc b) ys"
      by (rule ext) (auto simp: xs put_bytes_def nth_append nth_Cons' )
    have ends: "put_bytes m ?f xs ?l = y" "put_bytes m ?f xs ?f = x"
      by (simp_all add: xs put_bytes_def nth_append)
    have idx: "int b < int b + int (length xs) - 1"
      "int b + int (length xs) - 1 - 1 = int (Suc b) + int (length ys) - 1"
      "int b + 1 = int (Suc b)"
      by (simp_all add: xs)
    have "strrev_loop (put_bytes m ?f xs) s (int b) (int b + int (length xs) - 1) =
       strrev_loop (put_bytes (m(?f := y, ?l := x)) (s + Suc b) ys) s (int (Suc b))
         (int (Suc b) + int (length ys) - 1)"
      by (subst strrev_loop.simps) (simp only: addr swap[symmetric] ends idx Let_def if_True)
    also have "\<dots> = put_bytes (m(?f := y, ?l := x)) (s + Suc b) (rev ys)"
      by (rule less.hyps) (simp add: xs)
    also have "\<dots> = put_bytes m ?f (rev xs)"
      by (rule ext) (auto simp: xs put_bytes_def nth_append nth_Cons')
    finally show ?thesis .
  qed
qed

lemma put_bytes_same: "bytes_of m a (length xs) = xs \<Longrightarrow> put_bytes m a xs = m"
proof (rule ext)
  fix p assume xs: "bytes_of m a (length xs) = xs"
  show "put_bytes m a xs p = m p"
  proof (cases "a \<le> p \<and> p < a + length xs")
    case True
    then have "xs ! (p - a) = m (a + (p - a))" using nth_bytes_of[of "p - a" "length xs" m a] xs by simp linarith
    with True show ?thesis by (simp add: put_bytes_def)
  qed (auto simp: put_bytes_def)
qed

lemma strrev_cstr:
  assumes "cstr m s xs"
  shows "strrev m s = Some (put_bytes m s (rev xs))"
proof -
  have "put_bytes m s xs = m" using assms by (intro put_bytes_same) (simp add: cstr_def)
  then show ?thesis
    using strrev_loop_put[of m s 0 xs] assms by (simp add: strrev_def strlen_cstr)
qed

section \<open>Facts: itoa\<close>

text \<open>The reference numeral: digits of \<^verbatim>\<open>v\<close> in base \<^verbatim>\<open>r\<close>, least significant first,
  and the number a string of digits denotes.\<close>

fun numeral_lsd :: "nat \<Rightarrow> nat \<Rightarrow> byte list" where
  "numeral_lsd r v =
     (if v = 0 \<or> r < 2 then [] else itoa_lookup ! (v mod r) # numeral_lsd r (v div r))"

declare numeral_lsd.simps [simp del]

definition digit_val :: "byte \<Rightarrow> nat" where
  "digit_val d = (if d \<le> 0x39 then unat d - 48 else unat d - 55)"

definition parse_num :: "nat \<Rightarrow> byte list \<Rightarrow> nat" where
  "parse_num r ds = foldl (\<lambda>a d. a * r + digit_val d) 0 ds"

lemma itoa_lookup_digit:
  assumes "d < 36"
  shows "itoa_lookup ! d \<noteq> 0 \<and> digit_val (itoa_lookup ! d) = d"
proof -
  have "list_all (\<lambda>d. itoa_lookup ! d \<noteq> 0 \<and> digit_val (itoa_lookup ! d) = d) [0..<36]"
    by code_simp
  with assms show ?thesis by (simp add: list_all_iff)
qed

lemma length_itoa_lookup [simp]: "length itoa_lookup = 37"
  by (simp add: itoa_lookup_def)

lemma numeral_lsd_nonzero: "r \<le> 36 \<Longrightarrow> 0 \<notin> set (numeral_lsd r v)"
proof (induction r v rule: numeral_lsd.induct)
  case (1 r v)
  show ?case
  proof (cases "v = 0 \<or> r < 2")
    case False
    then have "v mod r < r" by simp
    with 1(2) have "v mod r < 36" by simp
    then have "itoa_lookup ! (v mod r) \<noteq> 0" using itoa_lookup_digit by blast
    with 1 False show ?thesis by (subst numeral_lsd.simps) auto
  qed (simp add: numeral_lsd.simps)
qed

lemma parse_num_rev_Cons:
  "parse_num r (rev (d # ds)) = parse_num r (rev ds) * r + digit_val d"
  by (simp add: parse_num_def)

lemma parse_numeral_lsd: "2 \<le> r \<Longrightarrow> r \<le> 36 \<Longrightarrow> parse_num r (rev (numeral_lsd r v)) = v"
proof (induction r v rule: numeral_lsd.induct)
  case (1 r v)
  show ?case
  proof (cases "v = 0")
    case True then show ?thesis by (simp add: numeral_lsd.simps parse_num_def)
  next
    case False
    from 1(2) have "v mod r < r" by simp
    with 1(3) have "v mod r < 36" by simp
    then have d: "digit_val (itoa_lookup ! (v mod r)) = v mod r" using itoa_lookup_digit by blast
    have "numeral_lsd r v = itoa_lookup ! (v mod r) # numeral_lsd r (v div r)"
      using False 1(2) by (subst numeral_lsd.simps) simp
    then show ?thesis
      using 1 False d by (simp add: parse_num_rev_Cons del: rev.simps)
  qed
qed

lemma itoa_loop_put:
  assumes "2 \<le> unat radix" "unat radix \<le> 36"
  shows "itoa_loop m buf v radix =
     (let ds = numeral_lsd (unat radix) (unat v) in Some (put_bytes m buf ds, buf + length ds))"
  using assms
proof (induction "unat v" arbitrary: m buf v rule: less_induct)
  case less
  show ?case
  proof (cases "v = 0")
    case True then show ?thesis by (simp add: itoa_loop.simps numeral_lsd.simps)
  next
    case False
    have r0: "radix \<noteq> 0" using less.prems by auto
    have pos: "0 < unat v" using False by (simp add: unat_gt_0)
    have md: "unat (v mod radix) = unat v mod unat radix" "unat (v div radix) = unat v div unat radix"
      by (simp_all add: unat_mod unat_div)
    have "unat v mod unat radix < unat radix" using less.prems by simp
    then have idx: "unat (v mod radix) < 37" using less.prems(2) unfolding md by linarith
    have sm: "unat (v div radix) < unat v" unfolding md using pos less.prems by simp
    have "numeral_lsd (unat radix) (unat v) =
      itoa_lookup ! unat (v mod radix) # numeral_lsd (unat radix) (unat (v div radix))"
      using pos less.prems md by (subst numeral_lsd.simps) simp
    moreover have "0 < v" using False by (simp add: word_gt_0)
    ultimately show ?thesis
      using less.hyps[OF sm less.prems] r0 idx
      by (subst itoa_loop.simps) (simp add: rd_in put_bytes_Cons Let_def)
  qed
qed

text \<open>The numeral \<^verbatim>\<open>itoa\<close> writes, most significant digit first.\<close>

definition itoa_text :: "u32 \<Rightarrow> u32 \<Rightarrow> byte list" where
  "itoa_text v radix = (if v = 0 then [0x30] else rev (numeral_lsd (unat radix) (unat v)))"

lemma itoa_put:
  assumes "2 \<le> unat radix" "unat radix \<le> 36"
  shows "itoa m v buf radix = Some (put_bytes m buf (itoa_text v radix @ [0]))"
proof (cases "v = 0")
  case True then show ?thesis by (simp add: itoa_def itoa_text_def put_bytes_Cons)
next
  case False
  let ?ds = "numeral_lsd (unat radix) (unat v)"
  let ?m = "(put_bytes m buf ?ds)(buf + length ?ds := 0)"
  have m: "?m = put_bytes m buf (?ds @ [0])" by (simp add: put_bytes_snoc)
  have "cstr ?m buf ?ds" unfolding m using assms numeral_lsd_nonzero by (intro cstr_put) blast
  then have "strrev ?m buf = Some (put_bytes ?m buf (rev ?ds))" by (rule strrev_cstr)
  moreover have "put_bytes ?m buf (rev ?ds) = put_bytes m buf (rev ?ds @ [0])"
    by (rule ext) (auto simp: put_bytes_def nth_append)
  ultimately show ?thesis
    using False assms by (simp add: itoa_def itoa_text_def itoa_loop_put Let_def)
qed

lemma itoa_text_nonzero:
  assumes "unat radix \<le> 36" shows "0 \<notin> set (itoa_text v radix)"
  using numeral_lsd_nonzero[OF assms] by (auto simp: itoa_text_def)

lemma parse_itoa_text:
  assumes "2 \<le> unat radix" "unat radix \<le> 36"
  shows "parse_num (unat radix) (itoa_text v radix) = unat v"
  using parse_numeral_lsd[OF assms, of "unat v"]
  by (simp add: itoa_text_def) (simp add: parse_num_def digit_val_def)

section \<open>Facts: copies\<close>

text \<open>An ascending copy is safe when the destination lies below the source or the
  regions do not overlap.\<close>

definition fwd_safe :: "nat \<Rightarrow> nat \<Rightarrow> nat \<Rightarrow> bool" where
  "fwd_safe d s n \<longleftrightarrow> d \<le> s \<or> s + n \<le> d"

lemma fwd_split:
  assumes "fwd_safe d s (n + k)"
  shows "put_bytes m d (bytes_of m s (n + k)) =
    (let m1 = put_bytes m d (bytes_of m s n) in put_bytes m1 (d + n) (bytes_of m1 (s + n) k))"
proof -
  have "bytes_of (put_bytes m d (bytes_of m s n)) (s + n) k = bytes_of m (s + n) k"
    using assms by (intro bytes_of_cong) (auto simp: put_bytes_def fwd_safe_def)
  then show ?thesis by (simp add: Let_def bytes_of_add put_bytes_append)
qed

lemma fwd_step:
  assumes "fwd_safe d s (Suc k)"
  shows "put_bytes m d (bytes_of m s (Suc k)) =
    put_bytes (m(d := m s)) (Suc d) (bytes_of (m(d := m s)) (Suc s) k)"
  using fwd_split[of d s 1 k m] assms by (simp add: Let_def bytes_of_Suc put_bytes_Cons)

lemma fwd_safe_less: "fwd_safe d s (n + k) \<Longrightarrow> fwd_safe (d + n) (s + n) k"
  by (auto simp: fwd_safe_def)

lemma fwd_safe_Suc: "fwd_safe d s (Suc k) \<Longrightarrow> fwd_safe (Suc d) (Suc s) k"
  by (auto simp: fwd_safe_def)

lemma rep_movsb_put: "fwd_safe d s n \<Longrightarrow> rep_movsb m d s n = put_bytes m d (bytes_of m s n)"
  by (induction n arbitrary: m d s) (auto simp: fwd_step dest: fwd_safe_Suc)

lemma memcpy_bottom_put:
  "fwd_safe d s n \<Longrightarrow> memcpy_bottom m d s n = put_bytes m d (bytes_of m s n)"
  by (induction n arbitrary: m d s) (auto simp: fwd_step dest: fwd_safe_Suc)

lemma rep_movsl_put:
  "fwd_safe d s (4 * k) \<Longrightarrow>
   rep_movsl m d s k = (put_bytes m d (bytes_of m s (4 * k)), d + 4 * k, s + 4 * k)"
proof (induction m d s k rule: rep_movsl.induct)
  case (2 m d s k)
  then have "fwd_safe (d + 4) (s + 4) (4 * k)" by (intro fwd_safe_less) (simp add: algebra_simps)
  with 2 show ?case using fwd_split[of d s 4 "4 * k" m] by (simp add: Let_def algebra_simps)
qed simp

lemma memcpy_top_put:
  "fwd_safe d s n \<Longrightarrow> memcpy_top m d s n = put_bytes m d (bytes_of m s n)"
proof (induction n arbitrary: m d s)
  case (Suc n)
  show ?case
  proof (cases "d mod 4 = 0")
    case False with Suc show ?thesis by (auto simp: fwd_step dest: fwd_safe_Suc)
  next
    case True
    define q r where "q = 4 * (Suc n div 4)" and "r = Suc n mod 4"
    have n: "Suc n = q + r" by (simp add: q_def r_def)
    have s1: "fwd_safe d s q" and s2: "fwd_safe (d + q) (s + q) r"
      using Suc.prems unfolding n by (auto simp: fwd_safe_def)
    have "memcpy_top m d s (Suc n) =
        memcpy_bottom (put_bytes m d (bytes_of m s q)) (d + q) (s + q) r"
      using True s1 by (simp add: rep_movsl_put q_def r_def)
    also have "\<dots> = put_bytes m d (bytes_of m s (q + r))"
      using Suc.prems s2 unfolding n by (subst fwd_split) (simp_all add: memcpy_bottom_put Let_def)
    finally show ?thesis by (simp only: n)
  qed
qed simp

lemma rep_stosl_put:
  "rep_stosl m al d k = (put_bytes m d (replicate (4 * k) al), d + 4 * k)"
proof (induction m al d k rule: rep_stosl.induct)
  case (2 m al d k)
  have "replicate (4 * Suc k) al = [al, al, al, al] @ replicate (4 * k) al"
    by (simp add: numeral_eq_Suc)
  then have "put_bytes m d (replicate (4 * Suc k) al) =
      put_bytes (put_bytes m d [al, al, al, al]) (d + 4) (replicate (4 * k) al)"
    by (simp only: put_bytes_append) (simp add: numeral_eq_Suc)
  with 2 show ?case by simp
qed simp

lemma memset_bottom_put: "memset_bottom m al d n = put_bytes m d (replicate n al)"
  by (induction n arbitrary: m d) (auto simp: put_bytes_Cons)

lemma memset_top_put: "memset_top m al d n = put_bytes m d (replicate n al)"
proof (induction n arbitrary: m d)
  case (Suc n)
  show ?case
  proof (cases "d mod 4 = 0")
    case False with Suc show ?thesis by (auto simp: put_bytes_Cons upd_fold)
  next
    case True
    define q r where "q = 4 * (Suc n div 4)" and "r = Suc n mod 4"
    have n: "Suc n = q + r" by (simp add: q_def r_def)
    have "memset_top m al d (Suc n) = memset_bottom (put_bytes m d (replicate q al)) al (d + q) r"
      using True by (simp add: rep_stosl_put q_def r_def)
    also have "\<dots> = put_bytes m d (replicate (q + r) al)"
      by (simp add: memset_bottom_put replicate_add put_bytes_append)
    finally show ?thesis by (simp only: n)
  qed
qed simp

lemma rep_movsb_down_put:
  "s \<le> d \<Longrightarrow> rep_movsb_down m (int d + int n - 1) (int s + int n - 1) n =
     put_bytes m d (bytes_of m s n)"
proof (induction n arbitrary: m)
  case (Suc n)
  let ?m = "m(d + n := m (s + n))"
  have "bytes_of ?m s n = bytes_of m s n" using Suc.prems by (intro bytes_of_cong) auto
  moreover have "put_bytes ?m d (bytes_of m s n) = put_bytes m d (bytes_of m s n @ [m (s + n)])"
    by (rule ext) (auto simp: put_bytes_def nth_append less_Suc_eq)
  moreover have "nat (int d + int n) = d + n" "nat (int s + int n) = s + n" by simp_all
  ultimately show ?case using Suc.IH[OF Suc.prems, of ?m]
    by (simp add: bytes_of_snoc upd_fold)
qed simp

section \<open>Facts: strncmp, strcpy, strncpy\<close>

text \<open>\<^verbatim>\<open>cname m a n\<close>: the characters at \<^verbatim>\<open>a\<close> up to a NUL, at most \<^verbatim>\<open>n\<close> of them.  \<^verbatim>\<open>strncmp\<close> is 0
  exactly when they agree.\<close>

definition cname :: "mem \<Rightarrow> nat \<Rightarrow> nat \<Rightarrow> byte list" where
  "cname m a n = takeWhile (\<lambda>b. b \<noteq> 0) (bytes_of m a n)"

lemma cname_0 [simp]: "cname m a 0 = []"
  by (simp add: cname_def)

lemma cname_Suc: "cname m a (Suc n) = (if m a = 0 then [] else m a # cname m (Suc a) n)"
  by (simp add: cname_def bytes_of_Suc)

lemma cname_cstr: "cstr m s xs \<Longrightarrow> cname m s n = take n xs"
proof (induction n arbitrary: s xs)
  case (Suc n)
  then show ?case by (cases xs) (auto simp: cname_Suc cstr_Cons)
qed simp

lemma signed_eq: "sint a = sint b \<longleftrightarrow> a = b" for a b :: byte
  by (rule word_eq_iff_signed[symmetric])

lemma signed_eq0: "sint a = 0 \<longleftrightarrow> a = 0" for a :: byte
  using signed_eq[of a 0] by simp

lemma strncmp_loop_zero:
  "i \<le> n \<Longrightarrow> strncmp_loop m s1 s2 n i = 0 \<longleftrightarrow> cname m (s1 + i) (n - i) = cname m (s2 + i) (n - i)"
proof (induction "n - i" arbitrary: i)
  case 0 then show ?case by (subst strncmp_loop.simps) simp
next
  case (Suc k)
  then have lt: "i < n" and k: "n - i = Suc (n - Suc i)" by simp_all
  have "strncmp_loop m s1 s2 n (Suc i) = 0 \<longleftrightarrow>
      cname m (s1 + Suc i) (n - Suc i) = cname m (s2 + Suc i) (n - Suc i)"
    using Suc.hyps(1)[of "Suc i"] Suc.hyps(2) lt by simp
  with lt show ?case
    by (subst strncmp_loop.simps) (auto simp: k cname_Suc signed_eq signed_eq0)
qed

lemma strncmp_zero: "strncmp m s1 s2 n = 0 \<longleftrightarrow> cname m s1 n = cname m s2 n"
  using strncmp_loop_zero[of 0 n m s1 s2] by (simp add: strncmp_def)

lemma strcpy_loop_put:
  assumes "cstr m (src + i) xs" "\<And>p. dest + i \<le> p \<Longrightarrow> p \<le> dest + i + length xs \<Longrightarrow>
     p < src + i \<or> src + i + length xs < p"
  shows "strcpy_loop m dest src i = Some (put_bytes m (dest + i) (xs @ [0]))"
  using assms
proof (induction xs arbitrary: m i)
  case Nil then show ?case by (subst strcpy_loop.simps) (simp add: put_bytes_Cons)
next
  case (Cons x xs)
  let ?m = "m(dest + i := x)"
  have c: "cstr m (src + Suc i) xs" and x: "m (src + i) = x" "x \<noteq> 0"
    using Cons.prems(1) by (simp_all add: cstr_Cons)
  have c': "cstr ?m (src + Suc i) xs"
  proof -
    have "bytes_of ?m (src + Suc i) (length xs) = bytes_of m (src + Suc i) (length xs)"
      using Cons.prems(2)[of "dest + i"] by (intro bytes_of_cong) auto
    moreover have "?m (src + Suc i + length xs) = m (src + Suc i + length xs)"
      using Cons.prems(2)[of "dest + i"] by auto
    ultimately show ?thesis using c by (simp add: cstr_def)
  qed
  have sep: "p < src + Suc i \<or> src + Suc i + length xs < p"
    if "dest + Suc i \<le> p" "p \<le> dest + Suc i + length xs" for p
    using Cons.prems(2)[of p] Cons.prems(2)[of "dest + i"] that by auto
  have "strcpy_loop ?m dest src (Suc i) = Some (put_bytes ?m (dest + Suc i) (xs @ [0]))"
    by (rule Cons.IH[OF c' sep]) simp_all
  with x show ?case by (subst strcpy_loop.simps) (simp add: put_bytes_Cons)
qed

lemma strncpy_pad_put: "i \<le> n \<Longrightarrow> strncpy_pad m dest n i = put_bytes m (dest + i) (replicate (n - i) 0)"
proof (induction "n - i" arbitrary: i m)
  case 0 then show ?case by (subst strncpy_pad.simps) simp
next
  case (Suc k)
  then have lt: "i < n" and k: "n - i = Suc (n - Suc i)" by simp_all
  have "strncpy_pad (m(dest + i := 0)) dest n (Suc i) =
      put_bytes (m(dest + i := 0)) (dest + Suc i) (replicate (n - Suc i) 0)"
    by (rule Suc.hyps(1)) (use Suc.hyps(2) lt in simp_all)
  with lt show ?case by (subst strncpy_pad.simps) (simp add: k put_bytes_Cons)
qed

lemma length_cname: "length (cname m a n) \<le> n"
  by (metis cname_def length_bytes_of length_takeWhile_le)

lemma cname_upd: "p < a \<or> a + n \<le> p \<Longrightarrow> cname (m(p := b)) a n = cname m a n"
  unfolding cname_def by (rule arg_cong[where f = "takeWhile _"]) (auto intro: bytes_of_cong)

lemma strncpy_copy_put:
  assumes "dest + n \<le> src \<or> src + n \<le> dest" "i \<le> n"
  shows "strncpy_copy m dest src n i =
    (put_bytes m (dest + i) (cname m (src + i) (n - i)), i + length (cname m (src + i) (n - i)))"
  using assms
proof (induction "n - i" arbitrary: m i)
  case 0 then show ?case by (subst strncpy_copy.simps) simp
next
  case (Suc k)
  then have lt: "i < n" and ni: "n - i = Suc (n - Suc i)" by simp_all
  show ?case
  proof (cases "m (src + i) = 0")
    case True then show ?thesis by (subst strncpy_copy.simps) (simp add: ni cname_Suc)
  next
    case False
    let ?m = "m(dest + i := m (src + i))"
    have cn: "cname ?m (src + Suc i) (n - Suc i) = cname m (src + Suc i) (n - Suc i)"
      using Suc.prems(1) lt by (intro cname_upd) auto
    have "strncpy_copy ?m dest src n (Suc i) = (put_bytes ?m (dest + Suc i) (cname ?m (src + Suc i) (n - Suc i)),
        Suc i + length (cname ?m (src + Suc i) (n - Suc i)))"
      by (rule Suc.hyps(1)) (use Suc.hyps(2) Suc.prems lt in auto)
    then have "strncpy_copy ?m dest src n (Suc i) = (put_bytes ?m (dest + Suc i) (cname m (src + Suc i) (n - Suc i)),
        Suc i + length (cname m (src + Suc i) (n - Suc i)))" by (simp only: cn)
    with False lt show ?thesis
      by (subst strncpy_copy.simps) (simp add: ni cname_Suc put_bytes_Cons)
  qed
qed

text \<open>\<^verbatim>\<open>strncpy\<close> in closed form: the name, then NULs up to \<^verbatim>\<open>n\<close>.\<close>

definition padded_name :: "nat \<Rightarrow> byte list \<Rightarrow> byte list" where
  "padded_name n src =
    (let t = takeWhile (\<lambda>b. b \<noteq> 0) (take n src) in t @ replicate (n - length t) 0)"

lemma strncpy_padded:
  assumes "dest + n \<le> src \<or> src + n \<le> dest"
  shows "strncpy m dest src n = put_bytes m dest (padded_name n (bytes_of m src n))"
proof -
  have "padded_name n (bytes_of m src n) =
      cname m src n @ replicate (n - length (cname m src n)) 0"
    by (simp add: padded_name_def cname_def Let_def)
  moreover have "strncpy_copy m dest src n 0 = (put_bytes m dest (cname m src n), length (cname m src n))"
    using strncpy_copy_put[OF assms, of 0 m] by simp
  ultimately show ?thesis
    using length_cname[of m src n] by (simp add: strncpy_def strncpy_pad_put put_bytes_append)
qed

lemma strncpy_put:
  assumes "cstr m src xs" "dest + n \<le> src \<or> src + n \<le> dest"
  shows "strncpy m dest src n = put_bytes m dest (take n xs @ replicate (n - length xs) 0)"
proof -
  have "cname m src n = take n xs" using assms(1) by (rule cname_cstr)
  then show ?thesis unfolding strncpy_padded[OF assms(2)]
    by (simp add: padded_name_def cname_def Let_def min_def)
qed

section \<open>Properties\<close>

text \<open>C38: The assembly memcpy, with its alignment loop, double-word copy and tail, copies the n bytes
  of the source when the regions do not overlap.\<close>
theorem memcpy_copies:
  assumes "dest \<le> src \<or> src + n \<le> dest"
  shows "memcpy m dest src n = put_bytes m dest (bytes_of m src n)"
  using assms memcpy_top_put[of dest src n m] by (simp add: memcpy_def fwd_safe_def)

theorem memcpy_copies_witness:
  "memcpy (\<lambda>p. of_nat p) 102 7 9 =
     put_bytes (\<lambda>p. of_nat p) 102 [7, 8, 9, 10, 11, 12, 13, 14, 15]"
  using memcpy_copies[of 102 7 9 "\<lambda>p. of_nat p"] by (simp add: bytes_of_def upt_rec)

text \<open>A further fact about the same definitions.\<close>
lemma memset_fills: "memset m s c n = put_bytes m s (replicate n (word_of_int c))"
proof -
  have "(0xFF :: byte) = - 1" by simp
  then have "word_of_int c AND 0xFF = (word_of_int c :: byte)" by (simp only: and.right_neutral)
  then show ?thesis by (simp add: memset_def memset_top_put)
qed

text \<open>C39: memmove copies the n source bytes as they were before, also for overlapping regions, and
  leaves the direction flag set exactly when the source lies below the destination.\<close>
theorem memmove_copies:
  "memmove m dest src n = (put_bytes m dest (bytes_of m src n), src < dest)"
proof (cases "dest \<le> src")
  case True
  then show ?thesis using rep_movsb_put[of dest src n m] by (simp add: memmove_def fwd_safe_def)
next
  case False
  then show ?thesis using rep_movsb_down_put[of src dest m n] by (simp add: memmove_def)
qed

text \<open>A further fact about the same definitions.\<close>
lemma itoa_roundtrip:
  assumes "2 \<le> unat radix" "unat radix \<le> 36"
  shows "\<exists>ds. itoa m v buf radix = Some (put_bytes m buf (ds @ [0])) \<and> 0 \<notin> set ds \<and>
     parse_num (unat radix) ds = unat v"
  using itoa_put[OF assms] itoa_text_nonzero[OF assms(2)] parse_itoa_text[OF assms] by blast

theorem itoa_roundtrip_witness:
  "\<exists>ds. itoa (\<lambda>_. 0xEE) 48879 8 16 = Some (put_bytes (\<lambda>_. 0xEE) 8 (ds @ [0])) \<and> 0 \<notin> set ds \<and>
     parse_num 16 ds = 48879"
  using itoa_roundtrip[of 16 "\<lambda>_. 0xEE" 48879 8] by simp

text \<open>A further fact about the same definitions.\<close>
lemma strncpy_truncates:
  assumes "cstr m src xs" "dest + n \<le> src \<or> src + n \<le> dest"
  shows "strncpy m dest src n = put_bytes m dest (take n xs @ replicate (n - length xs) 0) \<and>
    (0 \<in> set (bytes_of (strncpy m dest src n) dest n) \<longleftrightarrow> length xs < n)"
proof -
  have "0 \<notin> set (take n xs)" using assms(1) by (auto simp: cstr_def dest: in_set_takeD)
  then show ?thesis using strncpy_put[OF assms] by auto
qed

theorem strncpy_truncates_witness:
  "strncpy (put_bytes (\<lambda>_. 0xEE) 40 [0x6C, 0x73, 0]) 8 40 2 =
     put_bytes (put_bytes (\<lambda>_. 0xEE) 40 [0x6C, 0x73, 0]) 8 [0x6C, 0x73]"
  using strncpy_truncates[of "put_bytes (\<lambda>_. 0xEE) 40 [0x6C, 0x73, 0]" 40 "[0x6C, 0x73]" 8 2]
  by (simp add: cstr_def bytes_of_def put_bytes_def)

end
