(* ===== verification/Console.thy ===== *)
theory Console
  imports Lib "HOL-Library.Signed_Division"
begin

text \<open>The text console of \<^verbatim>\<open>student-distrib/lib.c\<close>: video memory, the cursor
  \<^verbatim>\<open>screen_x\<close>/\<^verbatim>\<open>screen_y\<close>, \<^verbatim>\<open>clear\<close>, \<^verbatim>\<open>scrolling\<close>, \<^verbatim>\<open>putc\<close>, \<^verbatim>\<open>puts\<close> and \<^verbatim>\<open>printf\<close>, with the
  CRT controller ports as a log of \<^verbatim>\<open>outb\<close>.  Video memory is a total map from
  offsets (of \<^verbatim>\<open>video_mem\<close>) to bytes, so writes outside the 80 by 25 page would
  show.  The locale \<^verbatim>\<open>char_device\<close> is the contract of one-character output.\<close>

section \<open>State\<close>

definition NUM_COLS :: int where "NUM_COLS = 80"
definition NUM_ROWS :: int where "NUM_ROWS = 25"
definition ATTRIB :: byte where "ATTRIB = 0x7"

record console =
  vid :: "int \<Rightarrow> byte"
  screen_x :: int
  screen_y :: int
  outs :: "port_write list"

abbreviation blank_con :: console where
  "blank_con \<equiv> \<lparr>vid = (\<lambda>_. 0), screen_x = 0, screen_y = 0, outs = []\<rparr>"

definition outb :: "byte \<Rightarrow> u16 \<Rightarrow> console \<Rightarrow> console" where
  "outb data port c = c\<lparr>outs := outs c @ [(port, data)]\<rparr>"

section \<open>Clearing, the cursor, scrolling\<close>

text \<open>One iteration of the loops of \<^verbatim>\<open>clear\<close> and \<^verbatim>\<open>clear_terminal_vidmem\<close>; the latter
  takes the address of the page it clears.\<close>

definition clear_cell :: "int \<Rightarrow> int \<Rightarrow> (int \<Rightarrow> byte) \<Rightarrow> (int \<Rightarrow> byte)" where
  "clear_cell base i v = v(base + 2 * i := 0x20, base + 2 * i + 1 := ATTRIB)"

definition clear :: "console \<Rightarrow> console" where
  "clear c = c\<lparr>vid := fold (\<lambda>i. clear_cell 0 (int i)) [0..<nat (NUM_ROWS * NUM_COLS)] (vid c)\<rparr>"

definition clear_terminal_vidmem :: "int \<Rightarrow> (int \<Rightarrow> byte) \<Rightarrow> (int \<Rightarrow> byte)" where
  "clear_terminal_vidmem addr v =
     fold (\<lambda>i. clear_cell addr (int i)) [0..<nat (NUM_ROWS * NUM_COLS)] v"

text \<open>The cursor position goes to the CRT controller as a 16-bit cell number.\<close>

definition set_cursor :: "u32 \<Rightarrow> u32 \<Rightarrow> console \<Rightarrow> console" where
  "set_cursor x y c =
    (let pos = ucast (80 * y + x) :: u16;
         c1 = outb 0x0F 0x3D4 c;
         c2 = outb (ucast (pos AND 0xFF)) 0x3D5 c1;
         c3 = outb 0x0E 0x3D4 c2;
         c4 = outb (ucast (drop_bit 8 pos AND 0xFF)) 0x3D5 c3
     in c4\<lparr>screen_x := sint x, screen_y := sint y\<rparr>)"

definition get_screen_x :: "console \<Rightarrow> u32" where "get_screen_x c = word_of_int (screen_x c)"
definition get_screen_y :: "console \<Rightarrow> u32" where "get_screen_y c = word_of_int (screen_y c)"

text \<open>The body of the nested loops of \<^verbatim>\<open>scrolling\<close> for row \<^verbatim>\<open>j\<close> and column \<^verbatim>\<open>i\<close>.\<close>

definition scroll_cell :: "int \<Rightarrow> int \<Rightarrow> (int \<Rightarrow> byte) \<Rightarrow> (int \<Rightarrow> byte)" where
  "scroll_cell j i v =
    (let up = 2 * (NUM_COLS * (j - 1) + i); here = 2 * (NUM_COLS * j + i);
         v1 = v(up := v here);
         v2 = v1(up + 1 := ATTRIB)
     in if j = NUM_ROWS - 1 then v2(here := 0x20, here + 1 := ATTRIB) else v2)"

definition scroll_row :: "int \<Rightarrow> (int \<Rightarrow> byte) \<Rightarrow> (int \<Rightarrow> byte)" where
  "scroll_row j v = fold (\<lambda>i. scroll_cell j (int i)) [0..<nat NUM_COLS] v"

definition scrolling :: "console \<Rightarrow> console" where
  "scrolling c =
     set_cursor 0 (word_of_int (NUM_ROWS - 1))
       (c\<lparr>vid := fold (\<lambda>j. scroll_row (int j)) [1..<nat NUM_ROWS] (vid c)\<rparr>)"

section \<open>putc, puts, printf\<close>

text \<open>In the last branch \<^verbatim>\<open>set_cursor(screen_x++, screen_y++)\<close> passes the values before
  the increments, and \<^verbatim>\<open>set_cursor\<close> then stores them back.\<close>

definition putc :: "byte \<Rightarrow> console \<Rightarrow> console" where
  "putc ch c =
    (let newline = (ch = 0x0A \<or> ch = 0x0D) in
     if screen_x c = NUM_COLS - 1 \<and> screen_y c = NUM_ROWS - 1 then scrolling c
     else if screen_y c = NUM_ROWS - 1 \<and> newline then scrolling c
     else if screen_x c = NUM_COLS - 1 \<or> newline then
       (let y = screen_y c + 1 in
        set_cursor 0 (word_of_int y) (c\<lparr>screen_y := y, screen_x := 0\<rparr>))
     else
       (let cell = 2 * (NUM_COLS * screen_y c + screen_x c);
            x = (screen_x c + 1) smod NUM_COLS;
            y = (screen_y c + x sdiv NUM_COLS) smod NUM_ROWS;
            c1 = c\<lparr>vid := (vid c)(cell := ch, cell + 1 := ATTRIB)\<rparr>;
            c2 = c1\<lparr>screen_x := x + 1, screen_y := y + 1\<rparr>
        in set_cursor (word_of_int x) (word_of_int y) c2))"

partial_function (option) puts_loop ::
    "mem \<Rightarrow> nat \<Rightarrow> nat \<Rightarrow> console \<Rightarrow> (nat \<times> console) option" where
  "puts_loop m s index c =
     (if m (s + index) \<noteq> 0 then puts_loop m s (index + 1) (putc (m (s + index)) c)
      else Some (index, c))"

definition puts :: "mem \<Rightarrow> nat \<Rightarrow> console \<Rightarrow> (nat \<times> console) option" where
  "puts m s c = puts_loop m s 0 c"

text \<open>\<^verbatim>\<open>printf\<close>: the variadic arguments are the list \<^verbatim>\<open>args\<close> of the words on the stack;
  \<^const>\<open>None\<close> when a conversion reads beyond it.  \<^verbatim>\<open>g\<close> is the uninitialised content of
  the local \<^verbatim>\<open>conv_buf\<close>, which starts at address 0 of its own memory.\<close>

fun next_arg :: "u32 list \<Rightarrow> (u32 \<times> u32 list) option" where
  "next_arg [] = None"
| "next_arg (a # as) = Some (a, as)"

definition printf_x :: "mem \<Rightarrow> bool \<Rightarrow> u32 \<Rightarrow> console \<Rightarrow> console option" where
  "printf_x g alternate v c =
    (if \<not> alternate then do {
       conv_buf \<leftarrow> itoa g v 0 16;
       (n, c1) \<leftarrow> puts conv_buf 0 c;
       Some c1 }
     else do {
       conv_buf \<leftarrow> itoa g v 8 16;
       starting_index \<leftarrow> strlen conv_buf 8;
       let conv_buf = fold (\<lambda>i b. b(i := 0x30)) [starting_index..<8] conv_buf;
       (n, c1) \<leftarrow> puts conv_buf starting_index c;
       Some c1 })"

definition printf_u :: "mem \<Rightarrow> u32 \<Rightarrow> console \<Rightarrow> console option" where
  "printf_u g v c = do {
     conv_buf \<leftarrow> itoa g v 0 10;
     (n, c1) \<leftarrow> puts conv_buf 0 c;
     Some c1 }"

definition printf_d :: "mem \<Rightarrow> u32 \<Rightarrow> console \<Rightarrow> console option" where
  "printf_d g v c = do {
     conv_buf \<leftarrow> (if sint v < 0 then itoa (g(0 := 0x2D)) (- v) 1 10 else itoa g v 0 10);
     (n, c1) \<leftarrow> puts conv_buf 0 c;
     Some c1 }"

text \<open>The inner switch, entered after a percent sign; \<^verbatim>\<open>#\<close> jumps back to its start.\<close>

partial_function (option) printf_conv ::
    "mem \<Rightarrow> mem \<Rightarrow> bool \<Rightarrow> nat \<Rightarrow> u32 list \<Rightarrow> console \<Rightarrow> (nat \<times> u32 list \<times> console) option" where
  "printf_conv m g alternate buf args c =
    (if m buf = 0x25 then Some (buf, args, putc 0x25 c)
     else if m buf = 0x23 then printf_conv m g True (buf + 1) args c
     else if m buf = 0x78 then do {
       (v, args1) \<leftarrow> next_arg args; c1 \<leftarrow> printf_x g alternate v c; Some (buf, args1, c1) }
     else if m buf = 0x75 then do {
       (v, args1) \<leftarrow> next_arg args; c1 \<leftarrow> printf_u g v c; Some (buf, args1, c1) }
     else if m buf = 0x64 then do {
       (v, args1) \<leftarrow> next_arg args; c1 \<leftarrow> printf_d g v c; Some (buf, args1, c1) }
     else if m buf = 0x63 then do {
       (v, args1) \<leftarrow> next_arg args; Some (buf, args1, putc (ucast v) c) }
     else if m buf = 0x73 then do {
       (v, args1) \<leftarrow> next_arg args; (n, c1) \<leftarrow> puts m (unat v) c; Some (buf, args1, c1) }
     else Some (buf, args, c))"

partial_function (option) printf_loop ::
    "mem \<Rightarrow> mem \<Rightarrow> nat \<Rightarrow> u32 list \<Rightarrow> console \<Rightarrow> (nat \<times> console) option" where
  "printf_loop m g buf args c =
    (if m buf \<noteq> 0 then
       if m buf = 0x25 then do {
         (buf1, args1, c1) \<leftarrow> printf_conv m g False (buf + 1) args c;
         printf_loop m g (buf1 + 1) args1 c1 }
       else printf_loop m g (buf + 1) args (putc (m buf) c)
     else Some (buf, c))"

definition printf :: "mem \<Rightarrow> mem \<Rightarrow> nat \<Rightarrow> u32 list \<Rightarrow> console \<Rightarrow> (nat \<times> console) option" where
  "printf m g format args c = do {
     (buf, c1) \<leftarrow> printf_loop m g format args c;
     Some (buf - format, c1) }"

definition test_interrupts :: "console \<Rightarrow> console" where
  "test_interrupts c =
     c\<lparr>vid := fold (\<lambda>i v. v(2 * int i := v (2 * int i) + 1)) [0..<nat (NUM_ROWS * NUM_COLS)] (vid c)\<rparr>"

text \<open>A call \<^verbatim>\<open>printf("...")\<close> whose format is a literal without a percent sign sends its
  characters (lemma \<^verbatim>\<open>printf_literal\<close> below); the other theories write it \<^verbatim>\<open>kprint\<close>.\<close>

definition kprint :: "string \<Rightarrow> console \<Rightarrow> console" where
  "kprint s c = fold (\<lambda>ch. putc (of_char ch)) s c"

section \<open>Facts: clear and scrolling\<close>

lemmas geometry = NUM_COLS_def NUM_ROWS_def ATTRIB_def

text \<open>The offsets of the visible page, and the invariant: the cursor is inside it.\<close>

definition page :: "int set" where "page = {0..<4000}"

definition con_ok :: "console \<Rightarrow> bool" where
  "con_ok c \<longleftrightarrow> 0 \<le> screen_x c \<and> screen_x c < NUM_COLS \<and> 0 \<le> screen_y c \<and> screen_y c < NUM_ROWS"

definition char_at :: "console \<Rightarrow> int \<Rightarrow> int \<Rightarrow> byte" where
  "char_at c x y = vid c (2 * (NUM_COLS * y + x))"

definition attr_at :: "console \<Rightarrow> int \<Rightarrow> int \<Rightarrow> byte" where
  "attr_at c x y = vid c (2 * (NUM_COLS * y + x) + 1)"

lemma fold_clear_cell:
  "fold (\<lambda>i. clear_cell b (int i)) [0..<n] v p =
     (if b \<le> p \<and> p < b + 2 * int n then if even (p - b) then 0x20 else ATTRIB else v p)"
proof (induction n)
  case (Suc n)
  then show ?case
    by (auto simp: clear_cell_def dest!: zless_imp_add1_zle)
qed auto


text \<open>Closed forms: row \<^verbatim>\<open>j\<close> moved up for its first \<^verbatim>\<open>n\<close> columns, and the rows below
  \<^verbatim>\<open>k\<close> moved up.\<close>

definition row_moved :: "int \<Rightarrow> nat \<Rightarrow> (int \<Rightarrow> byte) \<Rightarrow> (int \<Rightarrow> byte)" where
  "row_moved j n v = (\<lambda>p.
     if 160 * (j - 1) \<le> p \<and> p < 160 * (j - 1) + 2 * int n then if even p then v (p + 160) else 7
     else if j = 24 \<and> 160 * j \<le> p \<and> p < 160 * j + 2 * int n then if even p then 0x20 else 7
     else v p)"

definition rows_moved :: "nat \<Rightarrow> (int \<Rightarrow> byte) \<Rightarrow> (int \<Rightarrow> byte)" where
  "rows_moved k v = (\<lambda>p.
     if 0 \<le> p \<and> p < 160 * (int k - 1) then if even p then v (p + 160) else 7
     else if k = 25 \<and> 3840 \<le> p \<and> p < 4000 then if even p then 0x20 else 7
     else v p)"

lemma row_moved_0: "row_moved j 0 v = v"
  by (rule ext) (auto simp: row_moved_def)

lemma row_moved_Suc:
  assumes "n < 80"
  shows "row_moved j (Suc n) v = scroll_cell j (int n) (row_moved j n v)"
proof (rule ext)
  fix p
  let ?up = "160 * (j - 1) + 2 * int n" and ?here = "160 * j + 2 * int n"
  have rdv: "row_moved j n v ?here = v ?here" using assms by (auto simp: row_moved_def)
  have eqs: "2 * (NUM_COLS * (j - 1) + int n) = ?up" "2 * (NUM_COLS * j + int n) = ?here"
    by (simp_all add: geometry)
  have sc: "scroll_cell j (int n) (row_moved j n v) p =
    (if j = 24 \<and> p = ?here + 1 then 7 else if j = 24 \<and> p = ?here then 0x20
     else if p = ?up + 1 then 7 else if p = ?up then v ?here else row_moved j n v p)"
    unfolding scroll_cell_def Let_def eqs rdv by (simp add: geometry)
  show "row_moved j (Suc n) v p = scroll_cell j (int n) (row_moved j n v) p"
  proof (cases "p \<in> {?up, ?up + 1, ?here, ?here + 1}")
    case True
    then show ?thesis unfolding sc using assms by (auto simp: row_moved_def)
  next
    case False
    then have "160 * (j - 1) \<le> p \<and> p < 160 * (j - 1) + 2 * int (Suc n) \<longleftrightarrow>
        160 * (j - 1) \<le> p \<and> p < ?up"
      and "160 * j \<le> p \<and> p < 160 * j + 2 * int (Suc n) \<longleftrightarrow> 160 * j \<le> p \<and> p < ?here"
      by auto
    with False show ?thesis unfolding sc by (simp add: row_moved_def)
  qed
qed

lemma scroll_row_moved: "scroll_row j v = row_moved j 80 v"
proof -
  have "n \<le> 80 \<Longrightarrow> fold (\<lambda>i. scroll_cell j (int i)) [0..<n] v = row_moved j n v" for n
    by (induction n) (simp_all add: row_moved_0 row_moved_Suc)
  then show ?thesis by (simp add: scroll_row_def geometry)
qed

lemma rows_moved_1: "rows_moved 1 v = v"
  by (rule ext) (auto simp: rows_moved_def)

lemma rows_moved_Suc:
  assumes "1 \<le> k" "k < 25"
  shows "rows_moved (Suc k) v = row_moved (int k) 80 (rows_moved k v)"
proof (rule ext)
  fix p
  consider "p < 0" | "0 \<le> p" "p < 160 * (int k - 1)"
    | "160 * (int k - 1) \<le> p" "p < 160 * int k" "0 \<le> p"
    | "160 * int k \<le> p" "p < 160 * int k + 160" | "160 * int k + 160 \<le> p"
    by linarith
  then show "rows_moved (Suc k) v p = row_moved (int k) 80 (rows_moved k v) p"
    using assms by cases (auto simp: rows_moved_def row_moved_def)
qed

lemma fold_scroll_rows:
  "k < 25 \<Longrightarrow> fold (\<lambda>j. scroll_row (int j)) [1..<Suc k] v = rows_moved (Suc k) v"
proof (induction k)
  case 0 then show ?case using rows_moved_1 by simp
next
  case (Suc k) then show ?case by (simp add: rows_moved_Suc scroll_row_moved)
qed

lemma set_cursor_fields [simp]:
  "vid (set_cursor x y c) = vid c" "screen_x (set_cursor x y c) = sint x"
  "screen_y (set_cursor x y c) = sint y"
  by (simp_all add: set_cursor_def outb_def Let_def)

lemma scrolling_fields:
  "vid (scrolling c) = rows_moved 25 (vid c)"
  "screen_x (scrolling c) = 0" "screen_y (scrolling c) = 24"
  using fold_scroll_rows[of 24 "vid c"] by (simp_all add: scrolling_def geometry)

section \<open>Facts: putc\<close>

lemma sint_small: "0 \<le> i \<Longrightarrow> i < 0x80000000 \<Longrightarrow> sint (word_of_int i :: u32) = i"
  by (simp add: int_word_sint)

lemma sint_small_Suc: "0 \<le> i \<Longrightarrow> i < 0x7FFFFFFF \<Longrightarrow> sint (word_of_int i + 1 :: u32) = i + 1"
  using sint_small[of "i + 1"] by simp

lemma putc_newline:
  assumes "con_ok c" "ch = 0x0A \<or> ch = 0x0D" "screen_y c < 24"
  shows "screen_x (putc ch c) = 0 \<and> screen_y (putc ch c) = screen_y c + 1 \<and> vid (putc ch c) = vid c"
  using assms by (auto simp: putc_def con_ok_def geometry Let_def sint_small sint_small_Suc)

lemma putc_scroll:
  assumes "con_ok c" "screen_y c = 24" "ch = 0x0A \<or> ch = 0x0D \<or> screen_x c = 79"
  shows "putc ch c = scrolling c"
  using assms by (auto simp: putc_def con_ok_def geometry Let_def)

lemma putc_right_edge:
  assumes "con_ok c" "screen_x c = 79" "screen_y c < 24"
  shows "screen_x (putc ch c) = 0 \<and> screen_y (putc ch c) = screen_y c + 1 \<and> vid (putc ch c) = vid c"
  using assms by (auto simp: putc_def con_ok_def geometry Let_def sint_small sint_small_Suc)

lemma putc_plain:
  assumes "con_ok c" "ch \<noteq> 0x0A" "ch \<noteq> 0x0D" "screen_x c < 79"
  shows "screen_x (putc ch c) = screen_x c + 1 \<and> screen_y (putc ch c) = screen_y c \<and>
    vid (putc ch c) = (vid c)(2 * (80 * screen_y c + screen_x c) := ch,
                              2 * (80 * screen_y c + screen_x c) + 1 := 7)"
proof -
  have "(screen_x c + 1) smod 80 = screen_x c + 1" "(screen_x c + 1) sdiv 80 = 0"
    "screen_y c smod 25 = screen_y c"
    using assms by (auto simp: con_ok_def geometry signed_modulo_int_def signed_divide_int_def sgn_if)
  then show ?thesis
    using assms by (auto simp: putc_def con_ok_def geometry Let_def sint_small sint_small_Suc)
qed

lemmas putc_cases = putc_newline putc_scroll putc_right_edge putc_plain

text \<open>The four behaviours of \<^verbatim>\<open>putc\<close>.\<close>

lemma putc_branches:
  assumes "con_ok c"
  obtains "ch = 0x0A \<or> ch = 0x0D" "screen_y c < 24"
    | "screen_y c = 24" "ch = 0x0A \<or> ch = 0x0D \<or> screen_x c = 79"
    | "screen_x c = 79" "screen_y c < 24"
    | "ch \<noteq> 0x0A" "ch \<noteq> 0x0D" "screen_x c < 79"
proof -
  have "screen_x c = 79 \<or> screen_x c < 79" "screen_y c = 24 \<or> screen_y c < 24"
    using assms by (auto simp: con_ok_def geometry)
  with that show thesis by blast
qed

lemma putc_ok: "con_ok c \<Longrightarrow> con_ok (putc ch c)"
proof -
  assume ok: "con_ok c"
  show ?thesis
  proof (cases rule: putc_branches[OF ok, of ch])
    case 1 with putc_newline[OF ok, of ch] ok show ?thesis by (simp add: con_ok_def geometry)
  next
    case 2 with putc_scroll[OF ok, of ch] show ?thesis
      by (simp add: con_ok_def geometry scrolling_fields)
  next
    case 3 with putc_right_edge[OF ok, of ch] ok show ?thesis by (simp add: con_ok_def geometry)
  next
    case 4 with putc_plain[OF ok, of ch] ok show ?thesis by (simp add: con_ok_def geometry)
  qed
qed

lemma putc_frame:
  assumes ok: "con_ok c" and p: "p \<notin> page"
  shows "vid (putc ch c) p = vid c p"
proof (cases rule: putc_branches[OF ok, of ch])
  case 4
  have "2 * (80 * screen_y c + screen_x c) \<in> page" "2 * (80 * screen_y c + screen_x c) + 1 \<in> page"
    using ok by (auto simp: con_ok_def geometry page_def)
  with 4 putc_plain[OF ok, of ch] p show ?thesis by auto
next
  case 2
  with putc_scroll[OF ok, of ch] p show ?thesis
    by (auto simp: scrolling_fields rows_moved_def page_def)
qed (use putc_newline[OF ok, of ch] putc_right_edge[OF ok, of ch] in simp_all)

section \<open>The contract of character output\<close>

text \<open>A device takes one character at a time, keeps its invariant and changes
  only its own region of what can be looked at.  A client that sends a text
  keeps both.\<close>

locale char_device =
  fixes put :: "'b \<Rightarrow> 's \<Rightarrow> 's"
    and inv :: "'s \<Rightarrow> bool"
    and look :: "'s \<Rightarrow> 'p \<Rightarrow> 'v"
    and region :: "'p set"
  assumes put_inv: "inv s \<Longrightarrow> inv (put b s)"
    and put_frame: "inv s \<Longrightarrow> p \<notin> region \<Longrightarrow> look (put b s) p = look s p"
begin

lemma text_inv: "inv s \<Longrightarrow> inv (fold put bs s)"
  by (induction bs arbitrary: s) (auto intro: put_inv)

lemma text_frame: "inv s \<Longrightarrow> p \<notin> region \<Longrightarrow> look (fold put bs s) p = look s p"
proof (induction bs arbitrary: s)
  case (Cons b bs)
  then have "look (fold put bs (put b s)) p = look (put b s) p" by (intro Cons.IH put_inv)
  with Cons.prems show ?case by (simp add: put_frame)
qed simp

end

interpretation con_dev: char_device putc con_ok vid page
  by unfold_locales (simp_all add: putc_ok putc_frame)

lemma puts_loop_cstr:
  "cstr m (s + i) xs \<Longrightarrow> puts_loop m s i c = Some (i + length xs, fold putc xs c)"
proof (induction xs arbitrary: i c)
  case Nil then show ?case by (simp add: puts_loop.simps)
next
  case (Cons x xs)
  then have "puts_loop m s (i + 1) (putc x c) = Some (i + 1 + length xs, fold putc xs (putc x c))"
    by (simp add: cstr_Cons)
  with Cons.prems show ?case by (subst puts_loop.simps) (simp add: cstr_Cons)
qed

lemma puts_cstr: "cstr m s xs \<Longrightarrow> puts m s c = Some (length xs, fold putc xs c)"
  using puts_loop_cstr[of m s 0 xs c] by (simp add: puts_def)

section \<open>Facts: printf conversions\<close>

lemma printf_loop_plain:
  "cstr m buf xs \<Longrightarrow> 0x25 \<notin> set xs \<Longrightarrow>
   printf_loop m g buf args c = Some (buf + length xs, fold putc xs c)"
proof (induction xs arbitrary: buf c)
  case Nil then show ?case by (simp add: printf_loop.simps)
next
  case (Cons x xs)
  then have "printf_loop m g (Suc buf) args (putc x c) =
      Some (Suc buf + length xs, fold putc xs (putc x c))" by (simp add: cstr_Cons)
  with Cons.prems show ?case by (subst printf_loop.simps) (auto simp: cstr_Cons)
qed

lemma printf_literal:
  assumes "cstr m fmt (map of_char s)" "0x25 \<notin> set (map of_char s :: byte list)"
  shows "printf m g fmt args c = Some (length s, kprint s c)"
proof -
  have "kprint s c = fold putc (map of_char s) c"
    by (simp add: kprint_def fold_map comp_def)
  then show ?thesis
    using printf_loop_plain[OF assms] by (simp add: printf_def)
qed

lemma length_numeral_lsd: "v < r ^ k \<Longrightarrow> length (numeral_lsd r v) \<le> k"
proof (induction k arbitrary: v)
  case 0 then show ?case by (simp add: numeral_lsd.simps)
next
  case (Suc k)
  then have "v div r < r ^ k" by (simp add: less_mult_imp_div_less mult.commute)
  with Suc.IH show ?case by (subst numeral_lsd.simps) auto
qed

lemma length_itoa_hex: "length (itoa_text v 16) \<le> 8"
proof -
  have "unat v < 16 ^ 8" using unsigned_less[of v] by simp
  then show ?thesis using length_numeral_lsd[of "unat v" 16 8] by (simp add: itoa_text_def)
qed

lemma fold_fill: "fold (\<lambda>i b. b(i := z)) [n..<n + k] m = put_bytes m n (replicate k z)"
proof (induction k)
  case (Suc k)
  have "replicate (Suc k) z = replicate k z @ [z]" by (simp add: replicate_append_same)
  with Suc show ?case by (simp only: put_bytes_snoc) (simp add: upd_fold)
qed simp

lemma printf_x_alternate:
  "printf_x g True v c = Some (fold putc (replicate (8 - length (itoa_text v 16)) 0x30 @ itoa_text v 16) c)"
proof -
  let ?ds = "itoa_text v 16" and ?n = "length (itoa_text v 16)"
  let ?b = "put_bytes g 8 (?ds @ [0])"
  have i: "itoa g v 8 16 = Some ?b" by (rule itoa_put) simp_all
  have nz: "0 \<notin> set ?ds" by (rule itoa_text_nonzero) simp
  have n8: "?n \<le> 8" by (rule length_itoa_hex)
  have sl: "strlen ?b 8 = Some ?n" using nz by (intro strlen_cstr cstr_put)
  have fl: "fold (\<lambda>i b. b(i := 0x30)) [?n..<8] ?b = put_bytes ?b ?n (replicate (8 - ?n) 0x30)"
    using fold_fill[of "0x30" ?n "8 - ?n" ?b] n8 by simp
  have eq: "put_bytes ?b ?n (replicate (8 - ?n) 0x30) =
      put_bytes g ?n ((replicate (8 - ?n) 0x30 @ ?ds) @ [0])" (is "?l = ?r")
    using n8 by (intro ext) (auto simp: put_bytes_def nth_append)
  have "cstr ?r ?n (replicate (8 - ?n) 0x30 @ ?ds)"
    using nz by (intro cstr_put) auto
  then have "puts ?r ?n c = Some (length (replicate (8 - ?n) 0x30 @ ?ds), fold putc (replicate (8 - ?n) 0x30 @ ?ds) c)"
    by (rule puts_cstr)
  then show ?thesis by (simp add: printf_x_def i sl Let_def fl eq del: append_assoc fold_append)
qed

lemma parse_num_zeros: "parse_num 16 (replicate k 0x30 @ ds) = parse_num 16 ds"
proof (induction k)
  case (Suc k) then show ?case by (simp add: parse_num_def digit_val_def)
qed simp

section \<open>Properties\<close>

text \<open>A further fact about the same definitions.\<close>
lemma scrolling_moves_up:
  assumes "0 \<le> x" "x < 80" "0 \<le> y" "y < 25"
  shows "char_at (scrolling c) x y = (if y = 24 then 0x20 else char_at c x (y + 1)) \<and>
    attr_at (scrolling c) x y = ATTRIB \<and> screen_x (scrolling c) = 0 \<and> screen_y (scrolling c) = 24"
proof (cases "y = 24")
  case True
  then show ?thesis using assms
    by (simp add: char_at_def attr_at_def scrolling_fields rows_moved_def geometry)
next
  case False
  then have "80 * y + x < 1920" using assms by linarith
  then show ?thesis using assms False
    by (simp add: add.commute add.left_commute char_at_def attr_at_def scrolling_fields rows_moved_def geometry)
qed

theorem scrolling_moves_up_witness:
  "char_at (scrolling \<lparr>vid = (\<lambda>p. word_of_int p), screen_x = 79, screen_y = 24, outs = []\<rparr>) 3 1 = 0x46"
  using scrolling_moves_up[of 3 1 "\<lparr>vid = (\<lambda>p. word_of_int p), screen_x = 79, screen_y = 24, outs = []\<rparr>"]
  by (simp add: char_at_def geometry)

text \<open>A further fact about the same definitions.\<close>
lemma puts_confined:
  assumes "cstr m s xs" "con_ok c"
  shows "\<exists>c'. puts m s c = Some (length xs, c') \<and> con_ok c' \<and> (\<forall>p. p \<notin> page \<longrightarrow> vid c' p = vid c p)"
  using puts_cstr[OF assms(1), of c] con_dev.text_inv[OF assms(2)] con_dev.text_frame[OF assms(2)]
  by blast

theorem puts_confined_witness:
  "\<exists>c'. puts (put_bytes (\<lambda>_. 0) 5 [0x68, 0x69, 0x0A]) 5
     \<lparr>vid = (\<lambda>_. 0), screen_x = 78, screen_y = 24, outs = []\<rparr> = Some (3, c') \<and> con_ok c' \<and> vid c' 4000 = 0"
  using puts_confined[of "put_bytes (\<lambda>_. 0) 5 [0x68, 0x69, 0x0A]" 5 "[0x68, 0x69, 0x0A]"
      "\<lparr>vid = (\<lambda>_. 0), screen_x = 78, screen_y = 24, outs = []\<rparr>"]
  by (auto simp: cstr_def bytes_of_def put_bytes_def con_ok_def geometry page_def)

text \<open>A further fact about the same definitions.\<close>
lemma putc_text_on_line:
  assumes "con_ok c" "0x0A \<notin> set xs" "0x0D \<notin> set xs" "screen_x c + int (length xs) \<le> 79"
  shows "screen_x (fold putc xs c) = screen_x c + int (length xs) \<and>
    screen_y (fold putc xs c) = screen_y c \<and>
    map (\<lambda>i. char_at (fold putc xs c) (screen_x c + int i) (screen_y c)) [0..<length xs] = xs"
  using assms
proof (induction xs rule: rev_induct)
  case (snoc x xs)
  let ?c = "fold putc xs c"
  have ok: "con_ok ?c" using snoc.prems(1) by (rule con_dev.text_inv)
  have IH: "screen_x ?c = screen_x c + int (length xs)" "screen_y ?c = screen_y c"
    "map (\<lambda>i. char_at ?c (screen_x c + int i) (screen_y c)) [0..<length xs] = xs"
    using snoc by auto
  have p: "screen_x (putc x ?c) = screen_x ?c + 1 \<and> screen_y (putc x ?c) = screen_y ?c \<and>
    vid (putc x ?c) = (vid ?c)(2 * (80 * screen_y ?c + screen_x ?c) := x,
                              2 * (80 * screen_y ?c + screen_x ?c) + 1 := 7)"
    using snoc.prems IH(1) by (intro putc_plain[OF ok]) auto
  have "map (\<lambda>i. char_at (putc x ?c) (screen_x c + int i) (screen_y c)) [0..<length xs] =
      map (\<lambda>i. char_at ?c (screen_x c + int i) (screen_y c)) [0..<length xs]"
    using p IH(1,2) by (intro map_cong refl) (auto simp: char_at_def geometry; presburger)
  moreover have "char_at (putc x ?c) (screen_x c + int (length xs)) (screen_y c) = x"
    using p IH(1,2) by (simp add: char_at_def geometry)
  ultimately show ?case using p IH by simp
qed simp

theorem putc_text_on_line_witness:
  "map (\<lambda>i. char_at (fold putc [0x6F, 0x6B] \<lparr>vid = (\<lambda>_. 0), screen_x = 70, screen_y = 3, outs = []\<rparr>) (70 + int i) 3)
     [0..<2] = [0x6F, 0x6B]"
  using putc_text_on_line[of "\<lparr>vid = (\<lambda>_. 0), screen_x = 70, screen_y = 3, outs = []\<rparr>" "[0x6F, 0x6B]"]
  by (simp add: con_ok_def geometry upt_rec)

text \<open>A further fact about the same definitions.\<close>
lemma putc_drops_at_edge:
  assumes "con_ok c" "screen_x c = 79" "screen_y c < 24"
  shows "vid (putc ch c) = vid c \<and> screen_x (putc ch c) = 0 \<and> screen_y (putc ch c) = screen_y c + 1"
  using putc_right_edge[OF assms] by simp

theorem putc_drops_at_edge_witness:
  "vid (putc 0x41 \<lparr>vid = (\<lambda>_. 0), screen_x = 79, screen_y = 3, outs = []\<rparr>) 638 = 0"
  using putc_drops_at_edge[of "\<lparr>vid = (\<lambda>_. 0), screen_x = 79, screen_y = 3, outs = []\<rparr>" "0x41"]
  by (simp add: con_ok_def geometry)

text \<open>A further fact about the same definitions.\<close>
lemma printf_hex8:
  assumes "cstr m fmt [0x25, 0x23, 0x78]"
  shows "\<exists>ds. printf m g fmt [v] c = Some (3, fold putc ds c) \<and> length ds = 8 \<and> parse_num 16 ds = unat v"
proof -
  let ?ds = "replicate (8 - length (itoa_text v 16)) 0x30 @ itoa_text v 16"
  have m: "m fmt = 0x25" "m (Suc fmt) = 0x23" "m (Suc (Suc fmt)) = 0x78" "m (Suc (Suc (Suc fmt))) = 0"
    using assms by (simp_all add: cstr_Cons)
  have "printf m g fmt [v] c = Some (3, fold putc ?ds c)"
    by (simp add: printf_def printf_loop.simps printf_conv.simps m printf_x_alternate del: fold_append)
  moreover have "length ?ds = 8" using length_itoa_hex[of v] by simp
  moreover have "parse_num 16 ?ds = unat v"
    using parse_itoa_text[of 16 v] by (simp add: parse_num_zeros)
  ultimately show ?thesis by blast
qed

theorem printf_hex8_witness:
  "\<exists>ds. printf (put_bytes (\<lambda>_. 0) 0 [0x25, 0x23, 0x78]) (\<lambda>_. 0xEE) 0 [0xBEEF]
      \<lparr>vid = (\<lambda>_. 0), screen_x = 0, screen_y = 0, outs = []\<rparr> =
     Some (3, fold putc ds \<lparr>vid = (\<lambda>_. 0), screen_x = 0, screen_y = 0, outs = []\<rparr>) \<and>
     length ds = 8 \<and> parse_num 16 ds = 0xBEEF"
  using printf_hex8[of "put_bytes (\<lambda>_. 0) 0 [0x25, 0x23, 0x78]" 0 "\<lambda>_. 0xEE" "0xBEEF"
     "\<lparr>vid = (\<lambda>_. 0), screen_x = 0, screen_y = 0, outs = []\<rparr>"]
  by (simp add: cstr_def bytes_of_def put_bytes_def)

end
