(* ===== verification/Filesystem.thy ===== *)
theory Filesystem
  imports Console
begin

text \<open>The read-only file system, \<^verbatim>\<open>student-distrib/filesystem.c\<close> and the structures of
  \<^verbatim>\<open>filesystem.h\<close>.  The image is raw memory: a boot block of 4096 bytes with 63
  directory entries of 64 bytes, then the inodes and the data blocks of 4096
  bytes each, addressed exactly as the C pointers are, so an index beyond a table
  reads the bytes that follow it.  Abstract contract: an inode denotes the list
  \<^verbatim>\<open>file_content\<close> of its bytes, and \<^verbatim>\<open>read_data\<close> copies a slice of that list.\<close>

section \<open>The image\<close>

definition NUM_MAX_FILES :: nat where "NUM_MAX_FILES = 63"

text \<open>The three global pointers.\<close>

record fsys =
  boot_block :: nat
  inodes :: nat
  data_blocks :: nat

text \<open>A little-endian 32-bit word in memory.\<close>

definition le32 :: "mem \<Rightarrow> nat \<Rightarrow> u32" where
  "le32 m a = ucast (m a) OR push_bit 8 (ucast (m (a + 1))) OR
     push_bit 16 (ucast (m (a + 2))) OR push_bit 24 (ucast (m (a + 3)))"

text \<open>Fields of the structures: \<^verbatim>\<open>bootblock_t\<close> (\<^verbatim>\<open>dir_count\<close>, \<^verbatim>\<open>inode_count\<close>, \<^verbatim>\<open>data_count\<close>, 52
  reserved bytes, the entries), \<^verbatim>\<open>dentry_t\<close> (32 characters, type, inode number, 24
  reserved bytes), \<^verbatim>\<open>inode_t\<close> (length and 1023 block numbers).\<close>

definition dir_count :: "mem \<Rightarrow> fsys \<Rightarrow> u32" where "dir_count m f = le32 m (boot_block f)"
definition inode_count :: "mem \<Rightarrow> fsys \<Rightarrow> u32" where "inode_count m f = le32 m (boot_block f + 4)"
definition data_count :: "mem \<Rightarrow> fsys \<Rightarrow> u32" where "data_count m f = le32 m (boot_block f + 8)"

definition direntry :: "fsys \<Rightarrow> nat \<Rightarrow> nat" where
  "direntry f index = boot_block f + 64 + 64 * index"

definition inode_length :: "mem \<Rightarrow> fsys \<Rightarrow> u32 \<Rightarrow> u32" where
  "inode_length m f ino = le32 m (inodes f + 4096 * unat ino)"

definition data_block_num :: "mem \<Rightarrow> fsys \<Rightarrow> u32 \<Rightarrow> u32 \<Rightarrow> u32" where
  "data_block_num m f ino k = le32 m (inodes f + 4096 * unat ino + 4 + 4 * unat k)"

definition block_byte :: "mem \<Rightarrow> fsys \<Rightarrow> u32 \<Rightarrow> u32 \<Rightarrow> byte" where
  "block_byte m f b off = m (data_blocks f + 4096 * unat b + unat off)"

record dentry =
  file_name :: "byte list"
  file_type :: u32
  inode_num :: u32

definition filesystem_initialize :: "mem \<Rightarrow> nat \<Rightarrow> fsys" where
  "filesystem_initialize m start =
    (let bb = start; ino = bb + 4096
     in \<lparr>boot_block = bb, inodes = ino, data_blocks = ino + 4096 * nat (sint (le32 m (bb + 4)))\<rparr>)"

section \<open>Directory lookup\<close>

text \<open>The guard compares with \<^verbatim>\<open>>\<close>, so it lets through the index \<^verbatim>\<open>dir_count\<close> and the index
  63, one past the last entry of the table.  \<^const>\<open>None\<close> is the return value -1.\<close>

definition read_dentry_by_index :: "mem \<Rightarrow> fsys \<Rightarrow> byte \<Rightarrow> dentry option" where
  "read_dentry_by_index m f index =
    (if sint (dir_count m f) < int (unat index) \<or> NUM_MAX_FILES < unat index then None
     else Some \<lparr>file_name = bytes_of m (direntry f (unat index)) 32,
                file_type = le32 m (direntry f (unat index) + 32),
                inode_num = le32 m (direntry f (unat index) + 36)\<rparr>)"

text \<open>The counter \<^verbatim>\<open>i\<close> has eight bits; with more than 255 entries it would wrap and the
  loop never end (\<^const>\<open>None\<close>).  A hit is \<^verbatim>\<open>Some (Some d)\<close> with what
  \<^verbatim>\<open>read_dentry_by_index\<close> stored; the code does not look at that call's result, so when
  it refuses the index the caller's \<^verbatim>\<open>dentry\<close> stays uninitialised (\<^const>\<open>None\<close> again).
  A miss is \<^verbatim>\<open>Some None\<close>, the return value -1.\<close>

partial_function (option) dentry_scan ::
    "mem \<Rightarrow> fsys \<Rightarrow> nat \<Rightarrow> int \<Rightarrow> byte \<Rightarrow> dentry option option" where
  "dentry_scan m f fname num_indices i =
    (if int (unat i) < num_indices then
       if strncmp m fname (direntry f (unat i)) 32 = 0
       then do { d \<leftarrow> read_dentry_by_index m f i; Some (Some d) }
       else dentry_scan m f fname num_indices (i + 1)
     else Some None)"

definition read_dentry_by_name :: "mem \<Rightarrow> fsys \<Rightarrow> nat \<Rightarrow> dentry option option" where
  "read_dentry_by_name m f fname = dentry_scan m f fname (sint (dir_count m f)) 0"

section \<open>read_data\<close>

text \<open>The copying loop: \<^verbatim>\<open>fin\<close> is \<^verbatim>\<open>offset + length\<close> in 32-bit arithmetic, \<^verbatim>\<open>len\<close> the length in
  the copy of the inode made on entry, while the block numbers are read from
  memory in every round.\<close>

function read_data_loop ::
    "fsys \<Rightarrow> u32 \<Rightarrow> u32 \<Rightarrow> u32 \<Rightarrow> nat \<Rightarrow> u32 \<Rightarrow> u32 \<Rightarrow> nat \<Rightarrow> u32 \<Rightarrow> mem \<Rightarrow> int \<times> mem" where
  "read_data_loop f ino len offset buf fin cur i copied m =
    (if cur < fin then
       if cur = len then (sint (cur - offset), m)
       else
         (let blk = data_block_num m f ino (cur div 4096);
              b = block_byte m f blk (cur mod 4096)
          in read_data_loop f ino len offset buf fin (cur + 1) (i + 1) (copied + 1) (m(buf + i := b)))
     else (sint copied, m))"
  by auto
termination
proof (relation "measure (\<lambda>(f, ino, len, offset, buf, fin, cur, i, copied, m). unat (fin - cur))", goal_cases)
  case (2 f ino len offset buf fin cur i copied m)
  have "unat (fin - (cur + 1)) < unat (fin - cur)" by (rule unat_diff_less) (rule 2(1))
  then show ?case by simp
qed simp

declare read_data_loop.simps [simp del]

definition read_data ::
    "fsys \<Rightarrow> u32 \<Rightarrow> u32 \<Rightarrow> nat \<Rightarrow> u32 \<Rightarrow> mem \<times> console \<Rightarrow> int \<times> mem \<times> console" where
  "read_data f ino offset buf len = (\<lambda>(m, con).
    (let curr_len = inode_length m f ino in
     if ino > inode_count m f - 1 then
       (- 1, m, kprint (''read_data: Inode out of range '' @ [CHR 0x0A]) con)
     else if offset \<ge> curr_len then (0, m, con)
     else (let (r, m1) = read_data_loop f ino curr_len offset buf (offset + len) offset 0 0 m
           in (r, m1, con))))"

section \<open>Processes' open files\<close>

text \<open>The six jump tables of \<^verbatim>\<open>syscall.h\<close>; a null \<^verbatim>\<open>fop\<close> pointer is \<^const>\<open>None\<close>.\<close>

datatype fop_table = Null_ops | Stdin_ops | Stdout_ops | Rtc_ops | Files_ops | Directories_ops

record file_descriptor =
  fop :: "fop_table option"
  inode_idx :: u32
  file_position :: u32
  flags :: u32
  fd_type :: u32

record pcb =
  active :: u32
  pcb_pid :: int
  pcb_parent :: int
  fda :: "file_descriptor list"
  eip_val :: u32
  esp_val :: u32
  ebp_val :: u32
  tss_esp0 :: u32
  pargs :: "byte list"

definition MAX_OPEN_FILES :: nat where "MAX_OPEN_FILES = 8"

definition fd_get :: "pcb \<Rightarrow> int \<Rightarrow> file_descriptor option" where
  "fd_get p i = (if i < 0 then None else rd (fda p) (nat i))"

definition fd_put :: "pcb \<Rightarrow> int \<Rightarrow> file_descriptor \<Rightarrow> pcb option" where
  "fd_put p i d = (if i < 0 then None else do { l \<leftarrow> wr (fda p) (nat i) d; Some (p\<lparr>fda := l\<rparr>) })"

section \<open>File and directory operations\<close>

type_synonym fenv = "pcb \<times> mem \<times> console"

definition file_read :: "fsys \<Rightarrow> int \<Rightarrow> nat \<Rightarrow> int \<Rightarrow> fenv \<Rightarrow> (int \<times> fenv) option" where
  "file_read f file_index buff num_bytes = (\<lambda>(p, m, con).
    if num_bytes \<le> 0 then
      Some (- 1, p, m, kprint (''file_read: Number of bytes is out of range '' @ [CHR 0x0A]) con)
    else do {
      d \<leftarrow> fd_get p file_index;
      let (n, m1, con1) = read_data f (inode_idx d) (file_position d) buff (word_of_int num_bytes) (m, con);
      if n = - 1 then Some (- 1, p, m1, con1)
      else do {
        p1 \<leftarrow> fd_put p file_index (d\<lparr>file_position := file_position d + word_of_int n\<rparr>);
        Some (n, p1, m1, con1) } })"

definition file_write :: "fenv \<Rightarrow> int \<times> fenv" where "file_write s = (- 1, s)"
definition file_open :: "fenv \<Rightarrow> int \<times> fenv" where "file_open s = (0, s)"
definition file_close :: "fenv \<Rightarrow> int \<times> fenv" where "file_close s = (0, s)"

text \<open>The local \<^verbatim>\<open>dentry\<close> of \<^verbatim>\<open>directory_read\<close> is on the stack at address \<^verbatim>\<open>loc\<close>; these are
  the bytes \<^verbatim>\<open>read_dentry_by_index\<close> fills in.\<close>

definition le_bytes :: "u32 \<Rightarrow> byte list" where
  "le_bytes w = [ucast w, ucast (drop_bit 8 w), ucast (drop_bit 16 w), ucast (drop_bit 24 w)]"

definition dentry_bytes :: "dentry \<Rightarrow> byte list" where
  "dentry_bytes d = file_name d @ le_bytes (file_type d) @ le_bytes (inode_num d)"

definition directory_read :: "fsys \<Rightarrow> nat \<Rightarrow> int \<Rightarrow> nat \<Rightarrow> int \<Rightarrow> fenv \<Rightarrow> (int \<times> fenv) option" where
  "directory_read f loc file_index buff num_bytes = (\<lambda>(p, m, con). do {
     d \<leftarrow> fd_get p file_index;
     case read_dentry_by_index m f (ucast (file_position d)) of
       None \<Rightarrow> Some (- 1, p, m, con)
     | Some de \<Rightarrow>
        (let m1 = put_bytes m loc (dentry_bytes de);
             m2 = strncpy m1 buff loc 32
         in if buff = 0 then Some (- 1, p, m2, con)
            else do {
              p1 \<leftarrow> fd_put p file_index (d\<lparr>file_position := file_position d + 1\<rparr>);
              strlen_ret \<leftarrow> strlen m2 buff;
              Some (if strlen_ret > 32 then 32 else int strlen_ret, p1, m2, con) }) })"

definition directory_write :: "fenv \<Rightarrow> int \<times> fenv" where "directory_write s = (- 1, s)"
definition directory_open :: "fenv \<Rightarrow> int \<times> fenv" where "directory_open s = (0, s)"
definition directory_close :: "fenv \<Rightarrow> int \<times> fenv" where "directory_close s = (0, s)"

definition no_operation_read :: "fenv \<Rightarrow> int \<times> fenv" where "no_operation_read s = (- 1, s)"
definition no_operation_write :: "fenv \<Rightarrow> int \<times> fenv" where "no_operation_write s = (- 1, s)"
definition no_operation_open :: "fenv \<Rightarrow> int \<times> fenv" where "no_operation_open s = (- 1, s)"
definition no_operation_close :: "fenv \<Rightarrow> int \<times> fenv" where "no_operation_close s = (- 1, s)"

section \<open>The abstract file\<close>

definition file_byte :: "mem \<Rightarrow> fsys \<Rightarrow> u32 \<Rightarrow> u32 \<Rightarrow> byte" where
  "file_byte m f ino k = block_byte m f (data_block_num m f ino (k div 4096)) (k mod 4096)"

definition file_content :: "mem \<Rightarrow> fsys \<Rightarrow> u32 \<Rightarrow> byte list" where
  "file_content m f ino = map (\<lambda>k. file_byte m f ino (of_nat k)) [0..<unat (inode_length m f ino)]"

text \<open>The image ends after its data blocks.  A well-formed image lies where
  \<^verbatim>\<open>filesystem_initialize\<close> puts it; a well-formed inode has a number below
  \<^verbatim>\<open>inode_count\<close>, at most 1023 blocks, and uses block numbers below \<^verbatim>\<open>data_count\<close>.\<close>

definition fs_end :: "mem \<Rightarrow> fsys \<Rightarrow> nat" where
  "fs_end m f = data_blocks f + 4096 * unat (data_count m f)"

definition wf_fs :: "mem \<Rightarrow> fsys \<Rightarrow> bool" where
  "wf_fs m f \<longleftrightarrow> inodes f = boot_block f + 4096 \<and>
     data_blocks f = inodes f + 4096 * unat (inode_count m f)"

definition wf_inode :: "mem \<Rightarrow> fsys \<Rightarrow> u32 \<Rightarrow> bool" where
  "wf_inode m f ino \<longleftrightarrow> unat ino < unat (inode_count m f) \<and>
     unat (inode_length m f ino) \<le> 1023 * 4096 \<and>
     list_all (\<lambda>k. unat (data_block_num m f ino (of_nat k div 4096)) < unat (data_count m f))
       [0..<unat (inode_length m f ino)]"

text \<open>Memory that agrees with \<^verbatim>\<open>m\<close> on the image, and a buffer outside the image.\<close>

definition same_image :: "mem \<Rightarrow> fsys \<Rightarrow> mem \<Rightarrow> bool" where
  "same_image m f m' \<longleftrightarrow> (\<forall>a. boot_block f \<le> a \<and> a < fs_end m f \<longrightarrow> m' a = m a)"

definition outside_image :: "mem \<Rightarrow> fsys \<Rightarrow> nat \<Rightarrow> nat \<Rightarrow> bool" where
  "outside_image m f buf n \<longleftrightarrow> buf + n \<le> boot_block f \<or> fs_end m f \<le> buf"

section \<open>Facts: images\<close>

lemma same_image_refl [simp]: "same_image m f m"
  by (simp add: same_image_def)

lemma same_image_put:
  "same_image m f m' \<Longrightarrow> outside_image m f buf (length bs) \<Longrightarrow> same_image m f (put_bytes m' buf bs)"
  by (auto simp: same_image_def outside_image_def put_bytes_def)

lemma same_image_le32:
  "same_image m f m' \<Longrightarrow> boot_block f \<le> a \<Longrightarrow> a + 4 \<le> fs_end m f \<Longrightarrow> le32 m' a = le32 m a"
  by (simp add: same_image_def le32_def)

lemma same_image_block_num:
  assumes "wf_fs m f" "same_image m f m'" "unat ino < unat (inode_count m f)" "unat k \<le> 1022"
  shows "data_block_num m' f ino k = data_block_num m f ino k"
  unfolding data_block_num_def
  by (rule same_image_le32[OF assms(2)]) (use assms in \<open>auto simp: wf_fs_def fs_end_def\<close>)

lemma same_image_length:
  assumes "wf_fs m f" "same_image m f m'" "unat ino < unat (inode_count m f)"
  shows "inode_length m' f ino = inode_length m f ino"
  unfolding inode_length_def
  by (rule same_image_le32[OF assms(2)]) (use assms in \<open>auto simp: wf_fs_def fs_end_def\<close>)

lemma same_image_inode_count:
  assumes "wf_fs m f" "same_image m f m'"
  shows "inode_count m' f = inode_count m f" "dir_count m' f = dir_count m f"
    "data_count m' f = data_count m f"
proof -
  have "boot_block f + 4096 \<le> fs_end m f" using assms(1) by (simp add: wf_fs_def fs_end_def)
  then show "inode_count m' f = inode_count m f" "dir_count m' f = dir_count m f"
    "data_count m' f = data_count m f"
    unfolding inode_count_def dir_count_def data_count_def
    by (auto intro!: same_image_le32[OF assms(2)])
qed

lemma same_image_block_byte:
  assumes "wf_fs m f" "same_image m f m'" "unat b < unat (data_count m f)" "unat off < 4096"
  shows "block_byte m' f b off = block_byte m f b off"
proof -
  have "4096 * unat b + 4096 \<le> 4096 * unat (data_count m f)" using assms(3) by linarith
  then have "boot_block f \<le> data_blocks f + 4096 * unat b + unat off"
    "data_blocks f + 4096 * unat b + unat off < fs_end m f"
    using assms(1,4) by (auto simp: wf_fs_def fs_end_def)
  with assms(2) show ?thesis by (simp add: block_byte_def same_image_def)
qed

lemma wf_inode_block:
  "wf_inode m f ino \<Longrightarrow> k < unat (inode_length m f ino) \<Longrightarrow>
   unat (data_block_num m f ino (of_nat k div 4096)) < unat (data_count m f)"
  by (simp add: wf_inode_def list_all_iff)

lemma same_image_file_byte:
  assumes "wf_fs m f" "same_image m f m'" "wf_inode m f ino" "k < inode_length m f ino"
  shows "file_byte m' f ino k = file_byte m f ino k"
proof -
  have k: "unat k < unat (inode_length m f ino)" using assms(4) by (simp add: word_less_nat_alt)
  then have "unat k < 1023 * 4096" using assms(3) by (simp add: wf_inode_def)
  then have "unat (k div 4096) \<le> 1022" by (simp add: unat_div)
  then have num: "data_block_num m' f ino (k div 4096) = data_block_num m f ino (k div 4096)"
    using assms by (intro same_image_block_num) (auto simp: wf_inode_def)
  have "unat (data_block_num m f ino (of_nat (unat k) div 4096)) < unat (data_count m f)"
    using assms(3) k by (rule wf_inode_block)
  then have "unat (data_block_num m f ino (k div 4096)) < unat (data_count m f)" by simp
  moreover have "unat (k mod 4096) < 4096" by (simp add: unat_mod)
  ultimately show ?thesis unfolding file_byte_def num
    by (intro same_image_block_byte[OF assms(1,2)])
qed

lemma same_image_content:
  assumes "wf_fs m f" "same_image m f m'" "wf_inode m f ino"
  shows "file_content m' f ino = file_content m f ino"
proof -
  have len: "inode_length m' f ino = inode_length m f ino"
    using assms by (intro same_image_length) (auto simp: wf_inode_def)
  have "file_byte m' f ino (of_nat k) = file_byte m f ino (of_nat k)"
    if "k < unat (inode_length m f ino)" for k
    using that by (intro same_image_file_byte[OF assms]) (simp add: word_less_nat_alt unat_of_nat_below)
  then show ?thesis by (simp add: file_content_def len)
qed

lemma same_image_wf: "wf_fs m f \<Longrightarrow> same_image m f m' \<Longrightarrow> wf_fs m' f"
  using same_image_inode_count[of m f m'] by (simp add: wf_fs_def)

lemma same_image_end: "wf_fs m f \<Longrightarrow> same_image m f m' \<Longrightarrow> fs_end m' f = fs_end m f"
  using same_image_inode_count[of m f m'] by (simp add: fs_end_def)

lemma same_image_wf_inode:
  assumes wf: "wf_fs m f" and img: "same_image m f m'" and wi: "wf_inode m f ino"
  shows "wf_inode m' f ino"
proof -
  have ino: "unat ino < unat (inode_count m f)" using wi by (simp add: wf_inode_def)
  have "data_block_num m' f ino (of_nat k div 4096) = data_block_num m f ino (of_nat k div 4096)"
    if k: "k < unat (inode_length m f ino)" for k
  proof (rule same_image_block_num[OF wf img ino])
    have "k div 4096 \<le> 1022" using k wi unfolding wf_inode_def by linarith
    then show "unat (of_nat k div 4096 :: u32) \<le> 1022" using k by (simp add: unat_div unat_of_nat_below)
  qed
  then show ?thesis
    using wi same_image_inode_count[OF wf img] same_image_length[OF wf img ino]
    by (simp add: wf_inode_def list_all_iff)
qed

lemma length_file_content [simp]: "length (file_content m f ino) = unat (inode_length m f ino)"
  by (simp add: file_content_def)

section \<open>Facts: read_data\<close>

lemma slice_Cons:
  "a < b \<Longrightarrow> map g [a..<b] = g a # map g [Suc a..<b]"
  by (simp add: upt_conv_Cons)

text \<open>The loop copies the bytes from \<^verbatim>\<open>cur\<close> up to \<^verbatim>\<open>fin\<close> or the end of the file.\<close>

lemma read_data_loop_copies:
  assumes "wf_fs m0 f" "wf_inode m0 f ino" "same_image m0 f m"
    and "len = inode_length m0 f ino" "unat offset \<le> unat cur" "unat cur \<le> unat len"
    and "cur \<le> fin" "copied = cur - offset"
    and "outside_image m0 f (buf + i) (min (unat fin) (unat len) - unat cur)"
  shows "read_data_loop f ino len offset buf fin cur i copied m =
    (int (min (unat fin) (unat len) - unat offset),
     put_bytes m (buf + i)
       (map (\<lambda>k. file_byte m0 f ino (of_nat k)) [unat cur..<min (unat fin) (unat len)]))"
  using assms
proof (induction "unat fin - unat cur" arbitrary: cur i copied m)
  case 0
  then have fin: "fin = cur" by (simp add: word_le_nat_alt word_unat_eq_iff)
  have "unat (cur - offset) = unat cur - unat offset"
    using 0 by (intro unat_le_diff) (simp add: word_le_nat_alt)
  moreover have "unat cur < 0x80000000" using 0 by (simp add: wf_inode_def)
  ultimately have "sint (cur - offset) = int (unat cur - unat offset)"
    by (subst sint_unat_small) auto
  then show ?case using 0 fin by (subst read_data_loop.simps) simp
next
  case (Suc n)
  have cf: "cur < fin" using Suc(2) by (simp add: word_less_nat_alt)
  have len: "unat len \<le> 1023 * 4096" using Suc.prems by (simp add: wf_inode_def)
  show ?case
  proof (cases "cur = len")
    case True
    have "unat (cur - offset) = unat cur - unat offset"
      using Suc.prems by (intro unat_le_diff) (simp add: word_le_nat_alt)
    then have "sint (cur - offset) = int (unat cur - unat offset)"
      using len True by (subst sint_unat_small) auto
    moreover have "unat len \<le> unat fin" using cf True by (simp add: word_less_nat_alt)
    ultimately show ?thesis using cf True by (subst read_data_loop.simps) (simp add: min_def)
  next
    case False
    then have cl: "cur < len" using Suc.prems(6) by (simp add: word_less_nat_alt word_unat_eq_iff)
    have inc: "unat (cur + 1) = unat cur + 1" using cf by (rule unat_inc)
    let ?b = "file_byte m0 f ino cur" and ?e = "min (unat fin) (unat len)"
    have ce: "unat cur < ?e" using cf cl by (simp add: word_less_nat_alt)
    have b: "file_byte m f ino cur = ?b"
      using Suc.prems(1-4) cl by (intro same_image_file_byte) auto
    have out: "outside_image m0 f (buf + i) 1" "outside_image m0 f (buf + (i + 1)) (?e - unat (cur + 1))"
      using Suc.prems(9) ce inc by (auto simp: outside_image_def)
    have m': "same_image m0 f (m(buf + i := ?b))"
      using same_image_put[OF Suc.prems(3), of "buf + i" "[?b]"] out(1) by (simp add: put_bytes_Cons)
    have IH: "read_data_loop f ino len offset buf fin (cur + 1) (i + 1) (copied + 1) (m(buf + i := ?b)) =
      (int (?e - unat offset), put_bytes (m(buf + i := ?b)) (buf + (i + 1))
       (map (\<lambda>k. file_byte m0 f ino (of_nat k)) [unat (cur + 1)..<?e]))"
    proof (rule Suc.hyps(1))
      show "n = unat fin - unat (cur + 1)" using Suc(2) inc by simp
      show "unat offset \<le> unat (cur + 1)" "unat (cur + 1) \<le> unat len"
        "cur + 1 \<le> fin" "copied + 1 = cur + 1 - offset"
        using Suc.prems cl cf inc by (auto simp: word_less_nat_alt word_le_nat_alt)
    qed (use Suc.prems m' out in auto)
    have step: "read_data_loop f ino len offset buf fin cur i copied m =
      read_data_loop f ino len offset buf fin (cur + 1) (i + 1) (copied + 1) (m(buf + i := ?b))"
      using cf False b by (subst read_data_loop.simps) (simp add: Let_def file_byte_def)
    show ?thesis
      unfolding step IH using slice_Cons[OF ce, of "\<lambda>k. file_byte m0 f ino (of_nat k)"] inc
      by (simp add: put_bytes_Cons)
  qed
qed

text \<open>The functional contract of \<^verbatim>\<open>read_data\<close>.\<close>

lemma read_data_contract:
  assumes "wf_fs m f" "wf_inode m f ino" "unat offset + unat len < 2 ^ 32"
    and "outside_image m f buf (unat len)"
  shows "read_data f ino offset buf len (m, con) =
    (let bs = take (unat len) (drop (unat offset) (file_content m f ino))
     in (int (length bs), put_bytes m buf bs, con))"
proof -
  let ?L = "inode_length m f ino"
  have ino: "\<not> ino > inode_count m f - 1"
  proof -
    have "unat ino < unat (inode_count m f)" using assms(2) by (simp add: wf_inode_def)
    moreover from this have "unat (inode_count m f - 1) = unat (inode_count m f) - 1"
      by (intro unat_minus_one) auto
    ultimately show ?thesis by (simp add: word_less_nat_alt)
  qed
  show ?thesis
  proof (cases "offset \<ge> ?L")
    case True
    then have "drop (unat offset) (file_content m f ino) = []" by (simp add: word_le_nat_alt)
    with True ino show ?thesis by (simp add: read_data_def Let_def)
  next
    case False
    have fin: "unat (offset + len) = unat offset + unat len"
      using assms(3) by (simp add: unat_word_ariths)
    have less: "unat offset < unat ?L" using False by (simp add: word_le_nat_alt)
    let ?e = "min (unat (offset + len)) (unat ?L)"
    let ?bs = "map (\<lambda>k. file_byte m f ino (of_nat k)) [unat offset..<?e]"
    have "read_data_loop f ino ?L offset buf (offset + len) offset 0 0 m =
      (int (?e - unat offset), put_bytes m (buf + 0) ?bs)"
      using assms less fin by (intro read_data_loop_copies) (auto simp: word_le_nat_alt outside_image_def)
    moreover have "take (unat len) (drop (unat offset) (file_content m f ino)) = ?bs"
      by (rule nth_equalityI) (use fin less in \<open>auto simp: file_content_def\<close>)
    moreover have "length ?bs = ?e - unat offset" by simp
    ultimately show ?thesis using ino False by (simp add: read_data_def Let_def)
  qed
qed

section \<open>The contract of a readable source\<close>

text \<open>A source hands out its content in order: a read of up to \<^verbatim>\<open>n\<close> items gives the
  next ones and moves the position by as many.  What a client reads, in chunks of
  any size or until the end, is the rest of the content.\<close>

locale readable_source =
  fixes rd_op :: "nat \<Rightarrow> 's \<Rightarrow> 'b list \<times> 's"
    and content :: "'s \<Rightarrow> 'b list"
    and pos :: "'s \<Rightarrow> nat"
    and inv :: "'s \<Rightarrow> bool"
    and maxn :: nat
  assumes rd_data: "inv s \<Longrightarrow> 0 < n \<Longrightarrow> n \<le> maxn \<Longrightarrow> fst (rd_op n s) = take n (drop (pos s) (content s))"
    and rd_pos: "inv s \<Longrightarrow> 0 < n \<Longrightarrow> n \<le> maxn \<Longrightarrow> pos (snd (rd_op n s)) = pos s + length (fst (rd_op n s))"
    and rd_content: "inv s \<Longrightarrow> 0 < n \<Longrightarrow> n \<le> maxn \<Longrightarrow> content (snd (rd_op n s)) = content s"
    and rd_inv: "inv s \<Longrightarrow> 0 < n \<Longrightarrow> n \<le> maxn \<Longrightarrow> inv (snd (rd_op n s))"

fun read_chunks :: "(nat \<Rightarrow> 's \<Rightarrow> 'b list \<times> 's) \<Rightarrow> nat list \<Rightarrow> 's \<Rightarrow> 'b list \<times> 's" where
  "read_chunks rdo [] s = ([], s)"
| "read_chunks rdo (n # ns) s =
    (let (bs, s1) = rdo n s; (cs, s2) = read_chunks rdo ns s1 in (bs @ cs, s2))"

partial_function (option) read_all ::
    "(nat \<Rightarrow> 's \<Rightarrow> 'b list \<times> 's) \<Rightarrow> nat \<Rightarrow> 's \<Rightarrow> ('b list \<times> 's) option" where
  "read_all rdo n s =
    (let (bs, s1) = rdo n s
     in if bs = [] then Some ([], s1)
        else do { (cs, s2) \<leftarrow> read_all rdo n s1; Some (bs @ cs, s2) })"

context readable_source begin

lemma chunks_spec:
  assumes "inv s" "\<And>n. n \<in> set ns \<Longrightarrow> 0 < n \<and> n \<le> maxn"
  shows "fst (read_chunks rd_op ns s) = take (sum_list ns) (drop (pos s) (content s)) \<and>
    inv (snd (read_chunks rd_op ns s)) \<and> content (snd (read_chunks rd_op ns s)) = content s"
  using assms
proof (induction ns arbitrary: s)
  case (Cons n ns)
  obtain bs s1 where r: "rd_op n s = (bs, s1)" by (cases "rd_op n s")
  have n: "0 < n" "n \<le> maxn" using Cons.prems(2) by auto
  have bs: "bs = take n (drop (pos s) (content s))" and c1: "content s1 = content s"
    and i1: "inv s1" and p1: "pos s1 = pos s + length bs"
    using rd_data[OF Cons.prems(1) n] rd_content[OF Cons.prems(1) n] rd_inv[OF Cons.prems(1) n]
      rd_pos[OF Cons.prems(1) n] r by auto
  have IH: "fst (read_chunks rd_op ns s1) = take (sum_list ns) (drop (pos s1) (content s))"
    "inv (snd (read_chunks rd_op ns s1))" "content (snd (read_chunks rd_op ns s1)) = content s"
    using Cons.IH[OF i1] Cons.prems(2) c1 by auto
  have "bs @ take (sum_list ns) (drop (pos s1) (content s)) =
      take (n + sum_list ns) (drop (pos s) (content s))"
    unfolding bs p1 by (simp add: take_add add.commute min_def)
  with IH r show ?case by (simp add: Let_def case_prod_unfold)
qed simp

lemma read_all_spec:
  assumes "inv s" "0 < n" "n \<le> maxn"
  shows "\<exists>s'. read_all rd_op n s = Some (drop (pos s) (content s), s') \<and> inv s' \<and> content s' = content s"
  using assms(1)
proof (induction "length (content s) - pos s" arbitrary: s rule: less_induct)
  case less
  obtain bs s1 where r: "rd_op n s = (bs, s1)" by (cases "rd_op n s")
  have bs: "bs = take n (drop (pos s) (content s))" and c1: "content s1 = content s"
    and i1: "inv s1" and p1: "pos s1 = pos s + length bs"
    using rd_data[OF less.prems assms(2,3)] rd_content[OF less.prems assms(2,3)]
      rd_inv[OF less.prems assms(2,3)] rd_pos[OF less.prems assms(2,3)] r by auto
  show ?case
  proof (cases "bs = []")
    case True
    then have "drop (pos s) (content s) = []" using bs assms(2) by simp
    with True r i1 c1 show ?thesis by (subst read_all.simps) simp
  next
    case False
    then have "pos s < length (content s)" using bs by auto
    then have "length (content s1) - pos s1 < length (content s) - pos s"
      using False p1 c1 by (cases bs) auto
    from less.hyps[OF this i1] obtain s2 where
      s2: "read_all rd_op n s1 = Some (drop (pos s1) (content s), s2)" "inv s2" "content s2 = content s"
      using c1 by auto
    have "bs @ drop (pos s1) (content s) = drop (pos s) (content s)"
      using bs p1 by (metis append_take_drop_id drop_drop add.commute length_take min.commute
          append_eq_conv_conj)
    with False r s2 show ?thesis by (subst read_all.simps) simp
  qed
qed

end

section \<open>file_read implements the contract\<close>

text \<open>\<^verbatim>\<open>file_read\<close> as a source: the bytes it puts into the buffer.\<close>

definition file_rd :: "fsys \<Rightarrow> int \<Rightarrow> nat \<Rightarrow> nat \<Rightarrow> fenv \<Rightarrow> byte list \<times> fenv" where
  "file_rd f fd buf n s =
    (case file_read f fd buf (int n) s of
       Some (r, p, m, con) \<Rightarrow> (bytes_of m buf (nat r), p, m, con)
     | None \<Rightarrow> ([], s))"

definition open_content :: "fsys \<Rightarrow> int \<Rightarrow> fenv \<Rightarrow> byte list" where
  "open_content f fd = (\<lambda>(p, m, con).
     case fd_get p fd of Some d \<Rightarrow> file_content m f (inode_idx d) | None \<Rightarrow> [])"

definition open_pos :: "int \<Rightarrow> fenv \<Rightarrow> nat" where
  "open_pos fd = (\<lambda>(p, m, con). case fd_get p fd of Some d \<Rightarrow> unat (file_position d) | None \<Rightarrow> 0)"

text \<open>An open regular file: a well-formed image and inode, a position inside the
  file, and a buffer of \<^verbatim>\<open>maxn\<close> bytes outside the image.\<close>

definition open_ok :: "fsys \<Rightarrow> int \<Rightarrow> nat \<Rightarrow> nat \<Rightarrow> fenv \<Rightarrow> bool" where
  "open_ok f fd buf maxn = (\<lambda>(p, m, con). wf_fs m f \<and> maxn < 0x80000000 \<and> outside_image m f buf maxn \<and>
     (case fd_get p fd of
        Some d \<Rightarrow> wf_inode m f (inode_idx d) \<and> unat (file_position d) \<le> unat (inode_length m f (inode_idx d))
      | None \<Rightarrow> False))"

lemma fd_get_put:
  "fd_get p fd = Some d \<Longrightarrow> \<exists>p'. fd_put p fd d' = Some p' \<and> fd_get p' fd = Some d' \<and>
     (\<forall>j. j \<noteq> fd \<longrightarrow> fd_get p' j = fd_get p j)"
  by (auto simp: fd_get_def fd_put_def rd_def wr_def nth_list_update split: if_splits)

lemma file_read_contract:
  assumes "open_ok f fd buf maxn (p, m, con)" "0 < n" "n \<le> maxn"
  shows "\<exists>p' d. fd_get p fd = Some d \<and>
    (let bs = take n (drop (unat (file_position d)) (file_content m f (inode_idx d)))
     in file_read f fd buf (int n) (p, m, con) = Some (int (length bs), p', put_bytes m buf bs, con) \<and>
        fd_get p' fd = Some (d\<lparr>file_position := file_position d + of_nat (length bs)\<rparr>) \<and>
        unat (file_position d + of_nat (length bs)) = unat (file_position d) + length bs)"
proof -
  from assms(1) obtain d where d: "fd_get p fd = Some d" and wf: "wf_fs m f" "wf_inode m f (inode_idx d)"
    and max: "maxn < 0x80000000" and out: "outside_image m f buf maxn"
    and pos: "unat (file_position d) \<le> unat (inode_length m f (inode_idx d))"
    by (auto simp: open_ok_def split: option.splits)
  let ?bs = "take n (drop (unat (file_position d)) (file_content m f (inode_idx d)))"
  have size: "unat (inode_length m f (inode_idx d)) \<le> 1023 * 4096" using wf by (simp add: wf_inode_def)
  have un: "unat (word_of_int (int n) :: u32) = n" using assms(3) max by (simp add: unat_of_nat_small)
  have "read_data f (inode_idx d) (file_position d) buf (word_of_int (int n)) (m, con) =
      (int (length ?bs), put_bytes m buf ?bs, con)"
    using wf size pos max assms(3) out un
    by (subst read_data_contract) (auto simp: Let_def outside_image_def)
  moreover obtain p' where "fd_put p fd (d\<lparr>file_position := file_position d + of_nat (length ?bs)\<rparr>) = Some p'"
    "fd_get p' fd = Some (d\<lparr>file_position := file_position d + of_nat (length ?bs)\<rparr>)"
    using fd_get_put[OF d] by metis
  moreover have "unat (file_position d + of_nat (length ?bs)) = unat (file_position d) + length ?bs"
  proof -
    have "length ?bs \<le> 1023 * 4096" using size by simp
    then have "unat (of_nat (length ?bs) :: u32) = length ?bs" by (intro unat_of_nat_small) simp
    moreover have "unat (file_position d) + length ?bs < 2 ^ 32" using size pos by simp
    ultimately show ?thesis by (simp add: unat_word_ariths)
  qed
  ultimately show ?thesis using d assms(2)
    by (intro exI[of _ p'] exI[of _ d]) (simp add: file_read_def Let_def)
qed

text \<open>One step of \<^verbatim>\<open>file_rd\<close> on a state that satisfies \<^verbatim>\<open>open_ok\<close>.\<close>

lemma file_rd_step:
  assumes "open_ok f fd buf maxn s" "0 < n" "n \<le> maxn"
  shows "fst (file_rd f fd buf n s) = take n (drop (open_pos fd s) (open_content f fd s)) \<and>
    open_pos fd (snd (file_rd f fd buf n s)) = open_pos fd s + length (fst (file_rd f fd buf n s)) \<and>
    open_content f fd (snd (file_rd f fd buf n s)) = open_content f fd s \<and>
    open_ok f fd buf maxn (snd (file_rd f fd buf n s))"
proof -
  obtain p m con where s: "s = (p, m, con)" by (cases s) auto
  from assms(1) obtain d where d: "fd_get p fd = Some d" and wf: "wf_fs m f" "wf_inode m f (inode_idx d)"
    and max: "maxn < 0x80000000" and out: "outside_image m f buf maxn"
    and pos: "unat (file_position d) \<le> unat (inode_length m f (inode_idx d))"
    by (auto simp: s open_ok_def split: option.splits)
  let ?bs = "take n (drop (unat (file_position d)) (file_content m f (inode_idx d)))"
  let ?m = "put_bytes m buf ?bs"
  obtain p' where r: "file_read f fd buf (int n) (p, m, con) = Some (int (length ?bs), p', ?m, con)"
    and d': "fd_get p' fd = Some (d\<lparr>file_position := file_position d + of_nat (length ?bs)\<rparr>)"
    and q: "unat (file_position d + of_nat (length ?bs)) = unat (file_position d) + length ?bs"
    using file_read_contract[OF assms(1)[unfolded s] assms(2,3)] d by (auto simp: Let_def)
  have rd: "file_rd f fd buf n s = (?bs, p', ?m, con)" by (simp add: file_rd_def s r)
  have img: "same_image m f ?m"
    using out assms(3) by (intro same_image_put) (auto simp: outside_image_def)
  have cnt: "file_content ?m f (inode_idx d) = file_content m f (inode_idx d)"
    by (rule same_image_content[OF wf(1) img wf(2)])
  have ino: "unat (inode_idx d) < unat (inode_count m f)" using wf(2) by (simp add: wf_inode_def)
  have len: "inode_length ?m f (inode_idx d) = inode_length m f (inode_idx d)"
    by (rule same_image_length[OF wf(1) img ino])
  note wf' = same_image_wf[OF wf(1) img] same_image_wf_inode[OF wf(1) img wf(2)]
  have e: "fs_end ?m f = fs_end m f" by (rule same_image_end[OF wf(1) img])
  have "unat (file_position d) + length ?bs \<le> unat (inode_length m f (inode_idx d))"
    using pos by simp
  then have "open_ok f fd buf maxn (p', ?m, con)"
    using wf' max out d' q len e by (simp add: open_ok_def outside_image_def)
  then show ?thesis
    using rd d d' q cnt by (simp add: s open_pos_def open_content_def)
qed

interpretation file_src: readable_source "file_rd f fd buf" "open_content f fd" "open_pos fd"
    "open_ok f fd buf maxn" maxn for f fd buf maxn
  by unfold_locales (simp_all add: file_rd_step)

section \<open>Facts: directories\<close>

text \<open>The directory as a table from names (up to 32 characters) to entries.\<close>

definition dir_table :: "mem \<Rightarrow> fsys \<Rightarrow> nat \<Rightarrow> (byte list \<times> dentry option) list" where
  "dir_table m f n = map (\<lambda>i. (cname m (direntry f i) 32, read_dentry_by_index m f (of_nat i))) [0..<n]"

lemma dentry_scan_finds:
  assumes "0 \<le> num" "num \<le> 64" "num = sint (dir_count m f)" "int i \<le> num"
  shows "dentry_scan m f fname num (of_nat i) =
    Some (case map_of (drop i (dir_table m f (nat num))) (cname m fname 32) of
            None \<Rightarrow> None | Some d \<Rightarrow> d)"
  using assms
proof (induction "nat num - i" arbitrary: i)
  case 0
  then have "unat (of_nat i :: byte) = i" "int i = num" by (auto intro!: unat_of_nat_small)
  then show ?case by (subst dentry_scan.simps) (simp add: dir_table_def)
next
  case (Suc n)
  then have i: "i < nat num" and u: "unat (of_nat i :: byte) = i"
    by (auto intro!: unat_of_nat_small)
  have tab: "drop i (dir_table m f (nat num)) =
      (cname m (direntry f i) 32, read_dentry_by_index m f (of_nat i)) # drop (Suc i) (dir_table m f (nat num))"
    using i by (subst Cons_nth_drop_Suc[symmetric]) (simp_all add: dir_table_def)
  have "dentry_scan m f fname num (of_nat (Suc i)) =
    Some (case map_of (drop (Suc i) (dir_table m f (nat num))) (cname m fname 32) of
            None \<Rightarrow> None | Some d \<Rightarrow> d)"
    using Suc i by (intro Suc.hyps(1)) auto
  moreover have "(of_nat (Suc i) :: byte) = of_nat i + 1" by (simp add: add.commute)
  moreover have "\<exists>d. read_dentry_by_index m f (of_nat i) = Some d"
    using i u Suc.prems by (auto simp: read_dentry_by_index_def NUM_MAX_FILES_def)
  ultimately show ?case
    using i u by (subst dentry_scan.simps) (auto simp: tab strncmp_zero add.commute)
qed

text \<open>A small image for the witnesses: one entry, one inode of five bytes, one block.\<close>

definition demo_image :: mem where
  "demo_image = (\<lambda>_. 0)(4096 := 1, 4100 := 1, 4104 := 1, 4160 := 0x61, 4192 := 2, 8192 := 5,
     12288 := 0x68, 12289 := 0x65, 12290 := 0x6C, 12291 := 0x6C, 12292 := 0x6F)"

definition demo_fs :: fsys where
  "demo_fs = \<lparr>boot_block = 4096, inodes = 8192, data_blocks = 12288\<rparr>"

lemma demo_counts:
  "dir_count demo_image demo_fs = 1" "inode_count demo_image demo_fs = 1"
  "data_count demo_image demo_fs = 1" "inode_length demo_image demo_fs 0 = 5"
  "data_block_num demo_image demo_fs 0 0 = 0"
  by (simp_all add: dir_count_def inode_count_def data_count_def inode_length_def data_block_num_def
      le32_def demo_image_def demo_fs_def)

lemma demo_wf: "wf_fs demo_image demo_fs" "wf_inode demo_image demo_fs 0"
  "fs_end demo_image demo_fs = 16384"
  by (simp_all add: wf_fs_def wf_inode_def fs_end_def demo_counts upt_rec) (simp_all add: demo_fs_def)

lemma demo_content: "file_content demo_image demo_fs 0 = [0x68, 0x65, 0x6C, 0x6C, 0x6F]"
  by (simp add: file_content_def demo_counts upt_rec file_byte_def)
     (simp add: block_byte_def demo_fs_def demo_image_def)

text \<open>A directory read in detail: the entry is copied to the local, its name padded to 32 bytes to the
  buffer.\<close>

lemma directory_read_step:
  assumes "fd_get p fd = Some d" "read_dentry_by_index m f (ucast (file_position d)) = Some de"
    and "takeWhile (\<lambda>b. b \<noteq> 0) (file_name de) = name" "length name < 32"
    and "buff \<noteq> 0" "buff + 32 \<le> loc \<or> loc + 40 \<le> buff"
  shows "\<exists>p'. directory_read f loc fd buff nbytes (p, m, con) = Some (int (length name), p',
      put_bytes (put_bytes m loc (dentry_bytes de)) buff (name @ replicate (32 - length name) 0), con) \<and>
    fd_put p fd (d\<lparr>file_position := file_position d + 1\<rparr>) = Some p'"
proof -
  let ?m1 = "put_bytes m loc (dentry_bytes de)"
  let ?txt = "name @ replicate (32 - length name) 0"
  have l32: "length (file_name de) = 32" using assms(2)
    by (auto simp: read_dentry_by_index_def split: if_splits)
  then have fb: "bytes_of ?m1 loc 32 = file_name de"
    by (intro nth_equalityI) (auto simp: dentry_bytes_def put_bytes_def nth_append)
  have c: "cstr ?m1 loc name"
    unfolding cstr_def
  proof (intro conjI)
    have "bytes_of ?m1 loc (length name) = take (length name) (bytes_of ?m1 loc 32)"
      using assms(4) by (intro nth_equalityI) auto
    also have "\<dots> = name" unfolding fb using assms(3) by (metis takeWhile_eq_take length_takeWhile_le min.absorb1 take_take)
    finally show "bytes_of ?m1 loc (length name) = name" .
    show "0 \<notin> set name" using assms(3) by (auto dest: set_takeWhileD)
    have "file_name de ! length name = 0"
      using nth_length_takeWhile[of "\<lambda>b. b \<noteq> 0" "file_name de"] assms(3,4) l32 by simp
    then show "?m1 (loc + length name) = 0"
      using nth_bytes_of[of "length name" 32 ?m1 loc] assms(4) by (simp add: fb)
  qed
  have m2: "strncpy ?m1 buff loc 32 = put_bytes ?m1 buff ?txt"
    using strncpy_put[OF c, of buff 32] assms(4,6) by auto
  have c2: "cstr (put_bytes ?m1 buff ?txt) buff name"
  proof -
    have "?txt = (name @ [0]) @ replicate (31 - length name) 0"
      using assms(4) by (simp add: replicate_Suc[symmetric] Suc_diff_le del: replicate_Suc)
    moreover have "0 \<notin> set name" using c by (simp add: cstr_def)
    ultimately show ?thesis
      by (simp add: cstr_def) (auto simp: put_bytes_def nth_append intro!: nth_equalityI)
  qed
  obtain p' where p': "fd_put p fd (d\<lparr>file_position := file_position d + 1\<rparr>) = Some p'"
    "fd_get p' fd = Some (d\<lparr>file_position := file_position d + 1\<rparr>)"
    using fd_get_put[OF assms(1)] by metis
  have "directory_read f loc fd buff nbytes (p, m, con) =
      Some (int (length name), p', put_bytes ?m1 buff ?txt, con)"
    using assms p' strlen_cstr[OF c2] by (simp add: directory_read_def Let_def m2)
  then show ?thesis using p'(1) by auto
qed

section \<open>Properties\<close>

text \<open>C1: On a well-formed file system image, read_data copies to the buffer exactly the bytes of the
  abstract file (its blocks in order, cut at its length) from the offset on, at most the
  requested number, changes nothing else in memory, and returns how many bytes it copied.\<close>
theorem read_data_refines:
  assumes "wf_fs m f" "wf_inode m f ino" "unat offset + unat len < 2 ^ 32"
    and "outside_image m f buf (unat len)"
  shows "read_data f ino offset buf len (m, con) =
    (let bs = take (unat len) (drop (unat offset) (file_content m f ino))
     in (int (length bs), put_bytes m buf bs, con))"
  by (rule read_data_contract[OF assms])

theorem read_data_refines_witness:
  "read_data demo_fs 0 3 20000 9 (demo_image, blank_con) = (2, put_bytes demo_image 20000 [0x6C, 0x6F], blank_con)"
  using read_data_refines[of demo_image demo_fs 0 3 9 20000 blank_con]
  by (simp add: demo_wf demo_content outside_image_def)

text \<open>A further fact about the same definitions.\<close>
lemma file_read_sequential:
  assumes "open_ok f fd buf maxn s" "list_all (\<lambda>n. 0 < n \<and> n \<le> maxn) ns"
  shows "fst (read_chunks (file_rd f fd buf) ns s) =
    take (sum_list ns) (drop (open_pos fd s) (open_content f fd s))"
  using file_src.chunks_spec[OF assms(1), of ns] assms(2) by (simp add: list_all_iff)

definition demo_pcb :: pcb where
  "demo_pcb = \<lparr>active = 1, pcb_pid = 0, pcb_parent = - 1,
     fda = replicate 8 \<lparr>fop = Some Files_ops, inode_idx = 0, file_position = 0, flags = 1, fd_type = 2\<rparr>,
     eip_val = 0, esp_val = 0, ebp_val = 0, tss_esp0 = 0, pargs = replicate 32 0\<rparr>"

theorem file_read_sequential_witness:
  "fst (read_chunks (file_rd demo_fs 2 20000) [2, 1, 8]
     (demo_pcb, demo_image, \<lparr>vid = (\<lambda>_. 0), screen_x = 0, screen_y = 0, outs = []\<rparr>)) =
   [0x68, 0x65, 0x6C, 0x6C, 0x6F]"
proof -
  let ?c = "\<lparr>vid = (\<lambda>_. 0), screen_x = 0, screen_y = 0, outs = []\<rparr>"
  have d: "fd_get demo_pcb 2 =
      Some \<lparr>fop = Some Files_ops, inode_idx = 0, file_position = 0, flags = 1, fd_type = 2\<rparr>"
    by (simp add: fd_get_def rd_def demo_pcb_def)
  show ?thesis
    using file_read_sequential[of demo_fs 2 20000 8 "(demo_pcb, demo_image, ?c)" "[2, 1, 8]"]
    by (simp add: open_ok_def open_pos_def open_content_def d demo_wf demo_content demo_counts
        outside_image_def del: read_chunks.simps)
qed

text \<open>A further fact about the same definitions.\<close>
lemma read_dentry_by_name_refines:
  assumes "0 \<le> sint (dir_count m f)" "sint (dir_count m f) \<le> 64"
  shows "read_dentry_by_name m f fname =
    Some (case map_of (dir_table m f (nat (sint (dir_count m f)))) (cname m fname 32) of
            None \<Rightarrow> None | Some d \<Rightarrow> d)"
  using dentry_scan_finds[of "sint (dir_count m f)" m f 0 fname] assms
  by (simp add: read_dentry_by_name_def)

theorem read_dentry_by_name_refines_witness:
  "read_dentry_by_name demo_image demo_fs 4160 = Some (read_dentry_by_index demo_image demo_fs 0)"
  using read_dentry_by_name_refines[of demo_image demo_fs 4160]
  by (simp add: demo_counts dir_table_def) (simp add: direntry_def demo_fs_def)

text \<open>A further fact about the same definitions.\<close>
lemma dentry_index_overrun:
  assumes "wf_fs m f" "63 \<le> sint (dir_count m f)"
  shows "read_dentry_by_index m f 63 = Some \<lparr>file_name = bytes_of m (inodes f) 32,
     file_type = le32 m (inodes f + 32), inode_num = le32 m (inodes f + 36)\<rparr>"
proof -
  have "direntry f 63 = inodes f" using assms(1) by (simp add: direntry_def wf_fs_def)
  then show ?thesis using assms(2) by (simp add: read_dentry_by_index_def NUM_MAX_FILES_def)
qed

theorem dentry_index_overrun_witness:
  "map_option file_type (read_dentry_by_index ((\<lambda>_. 0x11)(4096 := 63, 4097 := 0, 4098 := 0, 4099 := 0,
      4100 := 1, 4101 := 0, 4102 := 0, 4103 := 0)) demo_fs 63) = Some 0x11111111"
  using dentry_index_overrun[of "(\<lambda>_. 0x11)(4096 := 63, 4097 := 0, 4098 := 0, 4099 := 0,
      4100 := 1, 4101 := 0, 4102 := 0, 4103 := 0)" demo_fs]
  by (simp add: wf_fs_def dir_count_def inode_count_def le32_def demo_fs_def)

text \<open>A further fact about the same definitions.\<close>
lemma directory_read_name:
  assumes "fd_get p fd = Some d" "read_dentry_by_index m f (ucast (file_position d)) = Some de"
    and "takeWhile (\<lambda>b. b \<noteq> 0) (file_name de) = name" "length name < 32"
    and "buff \<noteq> 0" "buff + 32 \<le> loc \<or> loc + 40 \<le> buff"
  shows "\<exists>p' m'. directory_read f loc fd buff nbytes (p, m, con) = Some (int (length name), p', m', con) \<and>
    bytes_of m' buff 32 = name @ replicate (32 - length name) 0 \<and>
    fd_get p' fd = Some (d\<lparr>file_position := file_position d + 1\<rparr>)"
proof -
  have "fd_get p' fd = Some d'" if "fd_put p fd d' = Some p'" for p' d'
    using fd_get_put[OF assms(1), of d'] that by auto
  then show ?thesis using directory_read_step[OF assms, of nbytes con] assms(4) by fastforce
qed

theorem directory_read_name_witness:
  "\<exists>p' m'. directory_read demo_fs 30000 2 20000 32 (demo_pcb, demo_image, blank_con) = Some (1, p', m', blank_con) \<and>
     bytes_of m' 20000 32 = 0x61 # replicate 31 0"
proof -
  have d: "fd_get demo_pcb 2 =
      Some \<lparr>fop = Some Files_ops, inode_idx = 0, file_position = 0, flags = 1, fd_type = 2\<rparr>"
    by (simp add: fd_get_def rd_def demo_pcb_def)
  have e: "read_dentry_by_index demo_image demo_fs 0 =
      Some \<lparr>file_name = 0x61 # replicate 31 0, file_type = 2, inode_num = 0\<rparr>"
  proof -
    have "bytes_of demo_image 4160 32 = 0x61 # replicate 31 0"
      by (rule nth_equalityI) (auto simp: demo_image_def nth_Cons')
    moreover have "le32 demo_image 4192 = 2" "le32 demo_image 4196 = 0" "direntry demo_fs 0 = 4160"
      by (simp_all add: le32_def demo_image_def direntry_def demo_fs_def)
    ultimately show ?thesis
      by (simp add: read_dentry_by_index_def demo_counts NUM_MAX_FILES_def)
  qed
  show ?thesis
    using directory_read_name[OF d, of demo_image demo_fs _ "[0x61]" 20000 30000 32 blank_con] e by auto
qed

end
