(* ===== verification/Pic.thy ===== *)
theory Pic
  imports Prelude
begin

text \<open>The 8259 interrupt controllers, \<^verbatim>\<open>student-distrib/i8259.c\<close>: the two shadow masks
  and the bytes sent to the four ports.  The invariant is that the controllers
  hold what the shadow masks say.\<close>

definition IRQ_NUM :: u32 where "IRQ_NUM = 15"
definition IRQ_PRIM_NUM :: u32 where "IRQ_PRIM_NUM = 8"
definition NUM_PIC :: u32 where "NUM_PIC = 2"
definition MS_MASK :: byte where "MS_MASK = 0xFF"
definition MASTER_8259_PORT :: u16 where "MASTER_8259_PORT = 0x20"
definition SLAVE_8259_PORT :: u16 where "SLAVE_8259_PORT = 0xA0"
definition MASTER_DATA :: u16 where "MASTER_DATA = 0x21"
definition SLAVE_DATA :: u16 where "SLAVE_DATA = 0xA1"
definition IRQ_SECONDARY :: byte where "IRQ_SECONDARY = 0x02"
definition ICW1 :: byte where "ICW1 = 0x11"
definition ICW2_MASTER :: byte where "ICW2_MASTER = 0x20"
definition ICW2_SLAVE :: byte where "ICW2_SLAVE = 0x28"
definition ICW3_MASTER :: byte where "ICW3_MASTER = 0x04"
definition ICW3_SLAVE :: byte where "ICW3_SLAVE = 0x02"
definition ICW4 :: byte where "ICW4 = 0x01"
definition EOI :: byte where "EOI = 0x60"

lemmas pic_consts = IRQ_NUM_def IRQ_PRIM_NUM_def NUM_PIC_def MS_MASK_def MASTER_8259_PORT_def
  SLAVE_8259_PORT_def MASTER_DATA_def SLAVE_DATA_def IRQ_SECONDARY_def ICW1_def ICW2_MASTER_def
  ICW2_SLAVE_def ICW3_MASTER_def ICW3_SLAVE_def ICW4_def EOI_def

record pic =
  master_mask :: byte
  slave_mask :: byte
  pic_log :: "port_write list"

definition pic_boot :: pic where
  "pic_boot = \<lparr>master_mask = MS_MASK, slave_mask = MS_MASK, pic_log = []\<rparr>"

definition pic_out :: "byte \<Rightarrow> u16 \<Rightarrow> pic \<Rightarrow> pic" where
  "pic_out data port p = p\<lparr>pic_log := pic_log p @ [(port, data)]\<rparr>"

definition enable_irq :: "u32 \<Rightarrow> pic \<Rightarrow> pic" where
  "enable_irq irq_num p =
    (let offset = irq_num - IRQ_PRIM_NUM in
     if irq_num < IRQ_PRIM_NUM then
       (let m = master_mask p AND NOT (push_bit (unat irq_num) 1)
        in pic_out m MASTER_DATA (p\<lparr>master_mask := m\<rparr>))
     else if IRQ_PRIM_NUM \<le> irq_num \<and> irq_num \<le> IRQ_NUM then
       (let m = slave_mask p AND NOT (push_bit (unat offset) 1)
        in pic_out m SLAVE_DATA (p\<lparr>slave_mask := m\<rparr>))
     else p)"

definition disable_irq :: "u32 \<Rightarrow> pic \<Rightarrow> pic" where
  "disable_irq irq_num p =
    (let offset = irq_num - IRQ_PRIM_NUM in
     if irq_num < IRQ_PRIM_NUM then
       (let m = master_mask p OR push_bit (unat irq_num) 1
        in pic_out m MASTER_DATA (p\<lparr>master_mask := m\<rparr>))
     else if IRQ_PRIM_NUM \<le> irq_num \<and> irq_num \<le> IRQ_NUM then
       (let m = slave_mask p OR push_bit (unat offset) 1
        in pic_out m SLAVE_DATA (p\<lparr>slave_mask := m\<rparr>))
     else p)"

definition send_eoi :: "u32 \<Rightarrow> pic \<Rightarrow> pic" where
  "send_eoi irq_num p =
    (if irq_num < IRQ_PRIM_NUM then pic_out (ucast irq_num OR EOI) MASTER_8259_PORT p
     else if IRQ_PRIM_NUM \<le> irq_num \<and> irq_num \<le> IRQ_NUM then
       pic_out (IRQ_SECONDARY OR EOI) MASTER_8259_PORT
         (pic_out (ucast (irq_num - IRQ_PRIM_NUM) OR EOI) SLAVE_8259_PORT p)
     else p)"

definition i8259_init :: "pic \<Rightarrow> pic" where
  "i8259_init p0 =
    (let p1 = pic_out (master_mask p0) MASTER_DATA p0;
         p2 = pic_out (slave_mask p1) SLAVE_DATA p1;
         p3 = pic_out ICW1 MASTER_8259_PORT p2;
         p4 = pic_out ICW1 SLAVE_8259_PORT p3;
         p5 = pic_out ICW2_MASTER MASTER_DATA p4;
         p6 = pic_out ICW2_SLAVE SLAVE_DATA p5;
         p7 = pic_out ICW3_MASTER MASTER_DATA p6;
         p8 = pic_out ICW2_SLAVE SLAVE_DATA p7;
         p9 = pic_out ICW4 MASTER_DATA p8;
         p10 = pic_out ICW4 SLAVE_DATA p9;
         p11 = pic_out (master_mask p10) MASTER_DATA p10;
         p12 = pic_out (slave_mask p11) SLAVE_DATA p11
     in enable_irq NUM_PIC p12)"

section \<open>Facts\<close>

text \<open>What the shadow masks say of a line, and the last byte sent to a port.\<close>

definition irq_masked :: "pic \<Rightarrow> nat \<Rightarrow> bool" where
  "irq_masked p irq = (if irq < 8 then bit (master_mask p) irq else bit (slave_mask p) (irq - 8))"

fun last_out :: "u16 \<Rightarrow> port_write list \<Rightarrow> byte option" where
  "last_out port [] = None"
| "last_out port ((q, d) # ws) =
     (case last_out port ws of Some d' \<Rightarrow> Some d' | None \<Rightarrow> if q = port then Some d else None)"

definition sent_to :: "u16 \<Rightarrow> port_write list \<Rightarrow> byte list" where
  "sent_to port ws = map snd (filter (\<lambda>w. fst w = port) ws)"

definition pic_synced :: "pic \<Rightarrow> bool" where
  "pic_synced p \<longleftrightarrow> last_out MASTER_DATA (pic_log p) = Some (master_mask p) \<and>
     last_out SLAVE_DATA (pic_log p) = Some (slave_mask p)"

lemma last_out_append [simp]:
  "last_out port (ws @ vs) = (case last_out port vs of Some d \<Rightarrow> Some d | None \<Rightarrow> last_out port ws)"
  by (induction port ws rule: last_out.induct) (auto split: option.splits)

lemma pic_out_fields [simp]:
  "master_mask (pic_out d q p) = master_mask p" "slave_mask (pic_out d q p) = slave_mask p"
  "pic_log (pic_out d q p) = pic_log p @ [(q, d)]"
  by (simp_all add: pic_out_def)

lemma irq_range_cases:
  fixes irq :: u32
  obtains "unat irq < 8" | "8 \<le> unat irq" "unat irq \<le> 15" | "15 < unat irq"
  by linarith

lemma irq_le_conv:
  "irq < IRQ_PRIM_NUM \<longleftrightarrow> unat irq < 8" "irq \<le> IRQ_NUM \<longleftrightarrow> unat irq \<le> 15"
  "IRQ_PRIM_NUM \<le> irq \<longleftrightarrow> 8 \<le> unat irq"
  by (simp_all add: pic_consts word_less_nat_alt word_le_nat_alt)

lemma unat_irq_offset: "8 \<le> unat irq \<Longrightarrow> unat (irq - IRQ_PRIM_NUM) = unat irq - 8"
  by (simp add: pic_consts unat_sub word_le_nat_alt)

lemma bit_one_shift: "bit (2 ^ n :: byte) k \<longleftrightarrow> k = n \<and> n < 8"
  by (auto simp: bit_simps)

lemmas irq_ops = enable_irq_def disable_irq_def send_eoi_def irq_le_conv unat_irq_offset Let_def

lemma enable_irq_synced: "pic_synced p \<Longrightarrow> pic_synced (enable_irq irq p)"
  by (auto simp: enable_irq_def pic_synced_def Let_def MASTER_DATA_def SLAVE_DATA_def)

lemma disable_irq_synced: "pic_synced p \<Longrightarrow> pic_synced (disable_irq irq p)"
  by (auto simp: disable_irq_def pic_synced_def Let_def MASTER_DATA_def SLAVE_DATA_def)

lemma send_eoi_synced: "pic_synced p \<Longrightarrow> pic_synced (send_eoi irq p)"
  by (auto simp: send_eoi_def pic_synced_def pic_consts)

lemma i8259_init_synced: "pic_synced (i8259_init p)"
  unfolding i8259_init_def Let_def
  by (rule enable_irq_synced) (simp add: pic_synced_def MASTER_DATA_def SLAVE_DATA_def)

section \<open>Properties\<close>

text \<open>A further fact about the same definitions.\<close>
lemma irq_masking:
  assumes "j \<le> 15"
  shows "irq_masked (enable_irq irq p) j = (irq_masked p j \<and> unat irq \<noteq> j) \<and>
    irq_masked (disable_irq irq p) j = (irq_masked p j \<or> unat irq = j)"
proof (cases rule: irq_range_cases[of irq])
  case 1 with assms show ?thesis
    by (auto simp: irq_ops irq_masked_def bit_one_shift bit_and_iff bit_or_iff bit_not_iff)
next
  case 2 with assms show ?thesis
    by (auto simp: irq_ops irq_masked_def bit_one_shift bit_and_iff bit_or_iff bit_not_iff)
next
  case 3 with assms show ?thesis by (auto simp: irq_ops)
qed

theorem irq_masking_witness:
  "irq_masked (enable_irq 8 pic_boot) 8 = False \<and> irq_masked (enable_irq 8 pic_boot) 9 = True"
  using irq_masking[of 8 8 pic_boot] irq_masking[of 9 8 pic_boot]
  by (simp add: irq_masked_def pic_boot_def pic_consts)

text \<open>A further fact about the same definitions.\<close>
lemma pic_stays_synced:
  "pic_synced (i8259_init p) \<and>
   (pic_synced p \<longrightarrow> pic_synced (enable_irq irq p) \<and> pic_synced (disable_irq irq p) \<and>
      pic_synced (send_eoi irq p))"
  by (simp add: i8259_init_synced enable_irq_synced disable_irq_synced send_eoi_synced)

theorem pic_stays_synced_witness:
  "pic_synced (disable_irq 1 (i8259_init pic_boot))"
  using pic_stays_synced[of pic_boot 1] pic_stays_synced[of "i8259_init pic_boot" 1] by blast

text \<open>A further fact about the same definitions.\<close>
lemma i8259_init_slave_words:
  "sent_to SLAVE_DATA (pic_log (i8259_init pic_boot)) = [MS_MASK, ICW2_SLAVE, ICW2_SLAVE, ICW4, MS_MASK] \<and>
   sent_to MASTER_DATA (pic_log (i8259_init pic_boot)) =
     [MS_MASK, ICW2_MASTER, ICW3_MASTER, ICW4, MS_MASK, 0xFB]"
  by (simp add: i8259_init_def pic_boot_def sent_to_def pic_out_def enable_irq_def pic_consts Let_def)

end
