(* ===== verification/Keyboard.thy ===== *)
theory Keyboard
  imports Console Pic
begin

text \<open>The keyboard of \<^verbatim>\<open>student-distrib/keyboard.c\<close>: scan code tables, the line buffer
  and the modifier flags, together with the terminals' state that the interrupt
  handler shares with \<^verbatim>\<open>terminal_driver.c\<close>.  The buffer is an array of 128 bytes with
  checked access: a write beyond it is \<^const>\<open>None\<close>.  (The handler itself, which calls
  the terminal driver, is in theory \<^verbatim>\<open>Terminal\<close>.)\<close>

definition NUM_CHARS_KB :: nat where "NUM_CHARS_KB = 128"
definition NUM_KB_CODES :: byte where "NUM_KB_CODES = 0x3A"
definition KEYBOARD_IRQ_NUM :: u32 where "KEYBOARD_IRQ_NUM = 1"
definition SPACE_KEY :: byte where "SPACE_KEY = 0x20"

definition ascii_lookup_table :: "byte list" where
  "ascii_lookup_table =
    [0x00, 0x00, 0x31, 0x32, 0x33, 0x34, 0x35, 0x36, 0x37, 0x38, 0x39, 0x30,
     0x2D, 0x3D, 0x08, 0x09, 0x71, 0x77, 0x65, 0x72, 0x74, 0x79, 0x75, 0x69,
     0x6F, 0x70, 0x5B, 0x5D, 0x00, 0x00, 0x61, 0x73, 0x64, 0x66, 0x67, 0x68,
     0x6A, 0x6B, 0x6C, 0x3B, 0x27, 0x60, 0x0F, 0x5C, 0x7A, 0x78, 0x63, 0x76,
     0x62, 0x6E, 0x6D, 0x2C, 0x2E, 0x2F, 0x0F, 0x00, 0x00, 0x20, 0x00]"

definition ascii_caps_lookup_table :: "byte list" where
  "ascii_caps_lookup_table =
    [0x00, 0x00, 0x21, 0x40, 0x23, 0x24, 0x25, 0x5E, 0x26, 0x2A, 0x28, 0x29,
     0x5F, 0x2B, 0x08, 0x09, 0x51, 0x57, 0x45, 0x52, 0x54, 0x59, 0x55, 0x49,
     0x4F, 0x50, 0x7B, 0x7D, 0x00, 0x00, 0x41, 0x53, 0x44, 0x46, 0x47, 0x48,
     0x4A, 0x4B, 0x4C, 0x3A, 0x22, 0x7E, 0x0F, 0x7C, 0x5A, 0x58, 0x43, 0x56,
     0x42, 0x4E, 0x4D, 0x3C, 0x3E, 0x3F, 0x0F, 0x00, 0x00, 0x20, 0x00]"

section \<open>State\<close>

text \<open>\<^verbatim>\<open>terminal_t\<close> of \<^verbatim>\<open>terminal_driver.h\<close>.\<close>

record terminal =
  video_mem_addr :: u32
  term_active :: u32
  term_keyboard_buffer :: "byte list"
  screen_X :: u32
  screen_Y :: u32

text \<open>The keyboard globals, the terminal globals, the console and the interrupt
  controller.  The record is extended by the kernel's process state later.\<close>

record tstate =
  con :: console
  kpic :: pic
  keyboard_buffer :: "byte list"
  num_chars_typed :: int
  ctrl_pressed :: int
  shift_pressed :: int
  capslock_pressed :: int
  alt_pressed :: int
  enter_pressed_flag :: int
  curr_terminal_id :: int
  terminals :: "terminal list"

definition tputc :: "byte \<Rightarrow> 'a tstate_scheme \<Rightarrow> 'a tstate_scheme" where
  "tputc ch s = s\<lparr>con := putc ch (con s)\<rparr>"

section \<open>Operations\<close>

definition clear_keyboard_buff :: "'a tstate_scheme \<Rightarrow> 'a tstate_scheme" where
  "clear_keyboard_buff s =
     s\<lparr>keyboard_buffer := fold (\<lambda>i b. b[i := 0]) [0..<NUM_CHARS_KB] (keyboard_buffer s),
       num_chars_typed := 0\<rparr>"

text \<open>\<^verbatim>\<open>keyboard_buffer[num_chars_typed] = c\<close>.\<close>

definition kb_store :: "byte \<Rightarrow> 'a tstate_scheme \<Rightarrow> 'a tstate_scheme option" where
  "kb_store c s =
    (if num_chars_typed s < 0 then None
     else do { b \<leftarrow> wr (keyboard_buffer s) (nat (num_chars_typed s)) c;
               Some (s\<lparr>keyboard_buffer := b\<rparr>) })"

definition non_alphabetic :: "byte \<Rightarrow> bool" where
  "non_alphabetic k \<longleftrightarrow> (k \<ge> 0x02 \<and> k \<le> 0x0F) \<or> (k \<ge> 0x1A \<and> k \<le> 0x1D) \<or>
     (k \<ge> 0x27 \<and> k \<le> 0x2B) \<or> (k \<ge> 0x33 \<and> k \<le> 0x3A)"

text \<open>The choice of the table by the shift and caps-lock flags.\<close>

definition key_table :: "int \<Rightarrow> int \<Rightarrow> byte \<Rightarrow> byte list" where
  "key_table shift caps key_code =
    (if shift = 1 \<and> caps = 0 then ascii_caps_lookup_table
     else if shift = 1 \<and> caps = 1 then
       if non_alphabetic key_code then ascii_caps_lookup_table else ascii_lookup_table
     else if shift = 0 \<and> caps = 1 then
       if non_alphabetic key_code then ascii_lookup_table else ascii_caps_lookup_table
     else ascii_lookup_table)"

definition print_to_screen :: "byte \<Rightarrow> 'a tstate_scheme \<Rightarrow> 'a tstate_scheme option" where
  "print_to_screen key_code s =
    (if key_code \<le> NUM_KB_CODES then do {
       key_char \<leftarrow> rd (key_table (shift_pressed s) (capslock_pressed s) key_code) (unat key_code);
       s1 \<leftarrow> kb_store key_char s;
       let s2 = s1\<lparr>num_chars_typed := num_chars_typed s1 + 1\<rparr>;
       Some (tputc key_char s2) }
     else Some s)"

definition keyboard_initialize :: "'a tstate_scheme \<Rightarrow> 'a tstate_scheme" where
  "keyboard_initialize s =
    (let s1 = s\<lparr>kpic := enable_irq KEYBOARD_IRQ_NUM (kpic s)\<rparr>;
         s2 = s1\<lparr>num_chars_typed := 0\<rparr>
     in (clear_keyboard_buff s2)\<lparr>enter_pressed_flag := 0\<rparr>)"

section \<open>Facts\<close>

lemma tables_length [simp]:
  "length ascii_lookup_table = 59" "length ascii_caps_lookup_table = 59"
  by (simp_all add: ascii_lookup_table_def ascii_caps_lookup_table_def)

lemma key_table_length [simp]: "length (key_table sh caps k) = 59"
  by (simp add: key_table_def)

lemma key_code_index: "k \<le> NUM_KB_CODES \<Longrightarrow> unat k < 59"
  by (simp add: NUM_KB_CODES_def word_le_nat_alt)

text \<open>The line typed so far.\<close>

definition typed :: "'a tstate_scheme \<Rightarrow> byte list" where
  "typed s = take (nat (num_chars_typed s)) (keyboard_buffer s)"

text \<open>The buffer has its declared size and the count is within it.\<close>

definition kb_ok :: "'a tstate_scheme \<Rightarrow> bool" where
  "kb_ok s \<longleftrightarrow> length (keyboard_buffer s) = NUM_CHARS_KB \<and> 0 \<le> num_chars_typed s \<and>
     num_chars_typed s \<le> int NUM_CHARS_KB"

lemma length_typed: "kb_ok s \<Longrightarrow> length (typed s) = nat (num_chars_typed s)"
  by (auto simp: kb_ok_def typed_def min_def)

lemma kb_store_typed:
  assumes "kb_ok s" "num_chars_typed s < int NUM_CHARS_KB"
  shows "kb_store c s = Some (s\<lparr>keyboard_buffer := (keyboard_buffer s)[nat (num_chars_typed s) := c]\<rparr>)"
  using assms by (auto simp: kb_store_def kb_ok_def wr_def)

lemma kb_store_full:
  assumes "kb_ok s" "num_chars_typed s = int NUM_CHARS_KB"
  shows "kb_store c s = None"
  using assms by (auto simp: kb_store_def kb_ok_def wr_def)

lemma typed_store:
  assumes "kb_ok s" "num_chars_typed s < int NUM_CHARS_KB"
  shows "take (Suc (nat (num_chars_typed s))) ((keyboard_buffer s)[nat (num_chars_typed s) := c]) =
    typed s @ [c]"
  using assms by (subst take_Suc_conv_app_nth) (auto simp: typed_def kb_ok_def)

lemma print_to_screen_appends:
  assumes "kb_ok s" "num_chars_typed s < int NUM_CHARS_KB" "k \<le> NUM_KB_CODES"
  defines "c \<equiv> key_table (shift_pressed s) (capslock_pressed s) k ! unat k"
  shows "\<exists>s'. print_to_screen k s = Some s' \<and> kb_ok s' \<and> typed s' = typed s @ [c] \<and>
    con s' = putc c (con s) \<and> enter_pressed_flag s' = enter_pressed_flag s"
proof -
  let ?n = "nat (num_chars_typed s)"
  have "nat (num_chars_typed s + 1) = Suc ?n" using assms(1) by (simp add: kb_ok_def Suc_nat_eq_nat_zadd1)
  then show ?thesis
    using assms(1-3) key_code_index[OF assms(3)] typed_store[OF assms(1,2), of c]
    by (auto simp: print_to_screen_def c_def rd_in kb_store_typed Let_def tputc_def typed_def kb_ok_def)
qed

lemma fold_zero: "n \<le> length b \<Longrightarrow> fold (\<lambda>i b. b[i := z]) [0..<n] b = replicate n z @ drop n b"
proof (induction n)
  case (Suc n)
  then have "fold (\<lambda>i b. b[i := z]) [0..<Suc n] b = (replicate n z @ drop n b)[n := z]" by simp
  also have "\<dots> = replicate n z @ (drop n b)[0 := z]" by (simp add: list_update_append)
  also have "drop n b = b ! n # drop (Suc n) b" using Suc.prems by (simp add: Cons_nth_drop_Suc)
  finally show ?case by (simp add: replicate_app_Cons_same)
qed simp

lemma clear_keyboard_buff_spec:
  assumes "length (keyboard_buffer s) = NUM_CHARS_KB"
  shows "clear_keyboard_buff s =
     s\<lparr>keyboard_buffer := replicate NUM_CHARS_KB 0, num_chars_typed := 0\<rparr>"
  using assms by (simp add: clear_keyboard_buff_def fold_zero)

end
