(* ===== verification/Terminal.thy ===== *)
theory Terminal
  imports Keyboard
begin

text \<open>The terminal driver, \<^verbatim>\<open>student-distrib/terminal_driver.c\<close>, and the keyboard
  interrupt handler of \<^verbatim>\<open>keyboard.c\<close>, which calls it.  The call
  \<^verbatim>\<open>system_execute("shell")\<close> at the end of \<^verbatim>\<open>terminal_init\<close> is the argument \<^verbatim>\<open>exec_shell\<close>
  here; theory \<^verbatim>\<open>Syscall\<close> supplies the model of it.  Contract: the handler is a
  line editor, \<^verbatim>\<open>terminal_read\<close> delivers the line it edited.\<close>

definition VIDEO :: nat where "VIDEO = 0xB8000"
definition NUM_TERMINALS :: u32 where "NUM_TERMINALS = 3"
definition MAX_CHARS_LINE :: int where "MAX_CHARS_LINE = 80"

text \<open>Physical memory around the text page, for the copies between \<^verbatim>\<open>VIDEO\<close> and the
  terminals' pages: the console's map is indexed by the offset from \<^verbatim>\<open>VIDEO\<close>.\<close>

definition on_phys :: "(mem \<Rightarrow> mem) \<Rightarrow> (int \<Rightarrow> byte) \<Rightarrow> (int \<Rightarrow> byte)" where
  "on_phys g v = (\<lambda>p. if p + int VIDEO < 0 then v p
     else g (\<lambda>a. v (int a - int VIDEO)) (nat (p + int VIDEO)))"

definition tvid :: "((int \<Rightarrow> byte) \<Rightarrow> (int \<Rightarrow> byte)) \<Rightarrow> 'a tstate_scheme \<Rightarrow> 'a tstate_scheme" where
  "tvid g s = s\<lparr>con := (con s)\<lparr>vid := g (vid (con s))\<rparr>\<rparr>"

definition tcursor :: "u32 \<Rightarrow> u32 \<Rightarrow> 'a tstate_scheme \<Rightarrow> 'a tstate_scheme" where
  "tcursor x y s = s\<lparr>con := set_cursor x y (con s)\<rparr>"

section \<open>Switching terminals\<close>

text \<open>\<^verbatim>\<open>terminals[i]\<close>, checked.\<close>

definition term_get :: "'a tstate_scheme \<Rightarrow> int \<Rightarrow> terminal option" where
  "term_get s i = (if i < 0 then None else rd (terminals s) (nat i))"

definition term_put :: "'a tstate_scheme \<Rightarrow> int \<Rightarrow> terminal \<Rightarrow> 'a tstate_scheme option" where
  "term_put s i t = (if i < 0 then None
     else do { ts \<leftarrow> wr (terminals s) (nat i) t; Some (s\<lparr>terminals := ts\<rparr>) })"

definition terminal_init ::
    "('a tstate_scheme \<Rightarrow> 'a tstate_scheme option) \<Rightarrow> u32 \<Rightarrow> 'a tstate_scheme \<Rightarrow> (int \<times> 'a tstate_scheme) option" where
  "terminal_init exec_shell terminal_id s =
    (if terminal_id > NUM_TERMINALS - 1 \<or> terminal_id < 0 then Some (- 1, s)
     else do {
       let s1 = s\<lparr>curr_terminal_id := sint terminal_id\<rparr>;
       t \<leftarrow> term_get s1 (int (unat terminal_id));
       let addr = 0xB8000 + (terminal_id + 1) * 4096;
       s2 \<leftarrow> term_put s1 (int (unat terminal_id))
               (t\<lparr>term_active := 1, screen_X := 0, screen_Y := 0,
                  term_keyboard_buffer := keyboard_buffer s1\<rparr>);
       let s3 = tvid (clear_terminal_vidmem (int (unat addr) - int VIDEO)) s2;
       t3 \<leftarrow> term_get s3 (int (unat terminal_id));
       s4 \<leftarrow> term_put s3 (int (unat terminal_id)) (t3\<lparr>video_mem_addr := addr\<rparr>);
       let s5 = s4\<lparr>kpic := send_eoi KEYBOARD_IRQ_NUM (kpic s4)\<rparr>;
       s6 \<leftarrow> exec_shell s5;
       Some (0, s6) })"

definition terminal_switch ::
    "('a tstate_scheme \<Rightarrow> 'a tstate_scheme option) \<Rightarrow> u32 \<Rightarrow> 'a tstate_scheme \<Rightarrow> (int \<times> 'a tstate_scheme) option" where
  "terminal_switch exec_shell terminal_id s =
    (if terminal_id = word_of_int (curr_terminal_id s) then Some (0, s)
     else do {
       let cur = curr_terminal_id s;
       t \<leftarrow> term_get s cur;
       let t1 = t\<lparr>screen_X := get_screen_x (con s), screen_Y := get_screen_y (con s),
                   term_keyboard_buffer := keyboard_buffer s\<rparr>;
       s1 \<leftarrow> term_put s cur t1;
       let s2 = clear_keyboard_buff s1;
       let s3 = tvid (on_phys (\<lambda>m. memcpy m (unat (video_mem_addr t1)) VIDEO 4096)) s2;
       let s4 = tcursor 0 0 (s3\<lparr>con := clear (con s3)\<rparr>);
       n \<leftarrow> term_get s4 (int (unat terminal_id));
       if term_active n = 0 then do {
         (r, s5) \<leftarrow> terminal_init exec_shell terminal_id s4;
         Some (0, s5) }
       else
         (let s5 = tvid (on_phys (\<lambda>m. memcpy m VIDEO (unat (video_mem_addr n)) 4096)) s4;
              s6 = tcursor (screen_X n) (screen_Y n) s5;
              s7 = s6\<lparr>keyboard_buffer := term_keyboard_buffer n\<rparr>
          in Some (0, s7\<lparr>curr_terminal_id := sint terminal_id\<rparr>)) })"

section \<open>The keyboard interrupt\<close>

definition kb_backspace :: "'a tstate_scheme \<Rightarrow> 'a tstate_scheme" where
  "kb_backspace s =
    (if num_chars_typed s > 0 then
       (let s1 = s\<lparr>num_chars_typed := num_chars_typed s - 1\<rparr>;
            s2 = tcursor (get_screen_x (con s1) - 1) (get_screen_y (con s1)) s1;
            s3 = tputc SPACE_KEY s2
        in tcursor (get_screen_x (con s3) - 1) (get_screen_y (con s3)) s3)
     else s)"

definition kb_tab :: "'a tstate_scheme \<Rightarrow> 'a tstate_scheme option" where
  "kb_tab s = kb_store 0x09 (s\<lparr>num_chars_typed := num_chars_typed s + 1\<rparr>)"

definition kb_enter :: "'a tstate_scheme \<Rightarrow> 'a tstate_scheme option" where
  "kb_enter s = do {
     let s1 = s\<lparr>enter_pressed_flag := 1\<rparr>;
     s2 \<leftarrow> kb_store 0x0A s1;
     Some (tputc 0x0A (s2\<lparr>num_chars_typed := num_chars_typed s2 + 1\<rparr>)) }"

text \<open>Ctrl-L shows the buffer up to and including the index \<^verbatim>\<open>num_chars_typed\<close>.\<close>

fun kb_redisplay :: "nat \<Rightarrow> nat \<Rightarrow> 'a tstate_scheme \<Rightarrow> 'a tstate_scheme option" where
  "kb_redisplay i 0 s = Some s"
| "kb_redisplay i (Suc n) s =
     do { ch \<leftarrow> rd (keyboard_buffer s) i; kb_redisplay (i + 1) n (tputc ch s) }"

definition kb_ctrl_l :: "'a tstate_scheme \<Rightarrow> 'a tstate_scheme option" where
  "kb_ctrl_l s = do {
     let s1 = tcursor 0 0 (s\<lparr>con := clear (con s)\<rparr>);
     s2 \<leftarrow> kb_redisplay 0 (nat (num_chars_typed s1 + 1)) s1;
     Some (if num_chars_typed s2 > MAX_CHARS_LINE
           then tcursor (word_of_int (num_chars_typed s2 - MAX_CHARS_LINE)) 1 s2
           else tcursor (word_of_int (num_chars_typed s2)) 0 s2) }"

definition kb_function_key ::
    "('a tstate_scheme \<Rightarrow> 'a tstate_scheme option) \<Rightarrow> u32 \<Rightarrow> 'a tstate_scheme \<Rightarrow> 'a tstate_scheme option" where
  "kb_function_key exec_shell t s =
    (if alt_pressed s \<noteq> 0 then do { (r, s1) \<leftarrow> terminal_switch exec_shell t s; Some s1 } else Some s)"

definition keyboard_switch ::
    "('a tstate_scheme \<Rightarrow> 'a tstate_scheme option) \<Rightarrow> byte \<Rightarrow> 'a tstate_scheme \<Rightarrow> 'a tstate_scheme option" where
  "keyboard_switch exec_shell key_code s =
    (if key_code = 0x0E then Some (kb_backspace s)
     else if key_code = 0x0F then kb_tab s
     else if key_code = 0x1D then Some (s\<lparr>ctrl_pressed := 1\<rparr>)
     else if key_code = 0x9D then Some (s\<lparr>ctrl_pressed := 0\<rparr>)
     else if key_code = 0x26 then
       if ctrl_pressed s = 1 then kb_ctrl_l s else print_to_screen key_code s
     else if key_code = 0x2A then Some (s\<lparr>shift_pressed := 1\<rparr>)
     else if key_code = 0x36 then Some (s\<lparr>shift_pressed := 1\<rparr>)
     else if key_code = 0xAA then Some (s\<lparr>shift_pressed := 0\<rparr>)
     else if key_code = 0xB6 then Some (s\<lparr>shift_pressed := 0\<rparr>)
     else if key_code = 0x38 then Some (s\<lparr>alt_pressed := 1\<rparr>)
     else if key_code = 0xB8 then Some (s\<lparr>alt_pressed := 0\<rparr>)
     else if key_code = 0x3B then kb_function_key exec_shell 0 s
     else if key_code = 0x3C then kb_function_key exec_shell 1 s
     else if key_code = 0x3D then kb_function_key exec_shell 2 s
     else if key_code = 0x3A then
       Some (s\<lparr>capslock_pressed := (if capslock_pressed s = 0 then 1 else 0)\<rparr>)
     else if key_code = 0x1C then kb_enter s
     else print_to_screen key_code s)"

definition keyboard_handler ::
    "('a tstate_scheme \<Rightarrow> 'a tstate_scheme option) \<Rightarrow> byte \<Rightarrow> 'a tstate_scheme \<Rightarrow> 'a tstate_scheme option" where
  "keyboard_handler exec_shell key_code s = do {
     s1 \<leftarrow> keyboard_switch exec_shell key_code s;
     Some (s1\<lparr>kpic := send_eoi KEYBOARD_IRQ_NUM (kpic s1)\<rparr>) }"

section \<open>terminal_read, terminal_write\<close>

text \<open>The spin on \<^verbatim>\<open>enter_pressed_flag\<close>: keyboard interrupts arrive with the scan codes of
  the list; \<^const>\<open>None\<close> when they are used up and the loop still spins.\<close>

fun wait_enter ::
    "('a tstate_scheme \<Rightarrow> 'a tstate_scheme option) \<Rightarrow> byte list \<Rightarrow> 'a tstate_scheme \<Rightarrow> ('a tstate_scheme \<times> byte list) option" where
  "wait_enter ex keys s =
    (if enter_pressed_flag s = 1 then Some (s, keys)
     else case keys of [] \<Rightarrow> None | k # ks \<Rightarrow> do { s1 \<leftarrow> keyboard_handler ex k s; wait_enter ex ks s1 })"

declare wait_enter.simps [simp del]

text \<open>The loop for \<^verbatim>\<open>nbytes < 128\<close>.  It stops at a NUL; the test \<^verbatim>\<open>i == num_chars_typed\<close>
  inside the loop never holds.  The result is the memory and \<^verbatim>\<open>num_bytes_copied\<close>.\<close>

fun read_short :: "byte list \<Rightarrow> int \<Rightarrow> nat \<Rightarrow> nat \<Rightarrow> nat \<Rightarrow> mem \<Rightarrow> (mem \<times> int) option" where
  "read_short kb num buf i 0 m = Some (m, 0)"
| "read_short kb num buf i (Suc n) m = do {
     c \<leftarrow> rd kb i;
     let m1 = m(buf + i := c);
     if m1 (buf + i) = 0 then Some (m1, int i + 1)
     else if int i = num then Some (m1(buf + i := 0), int i + 1)
     else read_short kb num buf (i + 1) n m1 }"

fun read_long :: "byte list \<Rightarrow> nat \<Rightarrow> nat \<Rightarrow> nat \<Rightarrow> mem \<Rightarrow> int \<Rightarrow> (mem \<times> int) option" where
  "read_long kb buf i 0 m copied = Some (m, copied)"
| "read_long kb buf i (Suc n) m copied = do {
     c \<leftarrow> rd kb i;
     read_long kb buf (i + 1) n (m(buf + i := c)) (copied + 1) }"

definition terminal_read ::
    "('a tstate_scheme \<Rightarrow> 'a tstate_scheme option) \<Rightarrow> byte list \<Rightarrow> nat \<Rightarrow> int \<Rightarrow>
     'a tstate_scheme \<times> mem \<Rightarrow> (int \<times> byte list \<times> 'a tstate_scheme \<times> mem) option" where
  "terminal_read exec_shell keys buf nbytes = (\<lambda>(s, m).
    (if nbytes = 0 \<or> buf = 0 then Some (nbytes, keys, s, m)
     else do {
       (s1, keys1) \<leftarrow> wait_enter exec_shell keys s;
       let n = num_chars_typed s1;
       (m2, copied) \<leftarrow>
         (if nbytes < int NUM_CHARS_KB then read_short (keyboard_buffer s1) n buf 0 (nat n) m
          else do {
            (m1, c) \<leftarrow> read_long (keyboard_buffer s1) buf 0 (nat n) m 0;
            Some (m1(nat (int buf + n) := 0), c) });
       let s2 = s1\<lparr>num_chars_typed := 0\<rparr>;
       let s3 = s2\<lparr>enter_pressed_flag := 0\<rparr>;
       Some (copied, keys1, clear_keyboard_buff s3, m2) }))"

text \<open>The printing loop of \<^verbatim>\<open>terminal_write\<close>: it stops at a NUL (first component).\<close>

fun write_chars :: "byte list \<Rightarrow> console \<Rightarrow> bool \<times> console" where
  "write_chars [] c = (False, c)"
| "write_chars (ch # chs) c = (if ch = 0 then (True, c) else write_chars chs (putc ch c))"

definition terminal_write :: "mem \<Rightarrow> nat \<Rightarrow> int \<Rightarrow> console \<Rightarrow> (int \<times> console) option" where
  "terminal_write m buf nbytes c =
    (if nbytes = 0 \<or> buf = 0 then Some (0, c)
     else if nbytes \<le> 80 then
       (if nbytes < 0 then None
        else
         (let temp0 = (replicate 80 0)[79 := 0x0A];
              temp = bytes_of m buf (nat nbytes) @ drop (nat nbytes) temp0;
              (stopped, c1) = write_chars temp c
          in Some (if stopped then 0 else nbytes, c1)))
     else
       (let (stopped, c1) = write_chars (bytes_of m buf (nat nbytes)) c
        in Some (if stopped then 0 else nbytes, c1)))"

definition terminal_open :: int where "terminal_open = 0"
definition terminal_close :: int where "terminal_close = 0"

section \<open>Facts: the line editor\<close>

text \<open>What a key does to the line: insert a character, delete the last one, end the
  line, or nothing.\<close>

datatype edit = Ins byte | Del | Line | Keep

fun edit_line :: "edit \<Rightarrow> byte list \<Rightarrow> byte list" where
  "edit_line (Ins c) l = l @ [c]"
| "edit_line Del l = butlast l"
| "edit_line Line l = l @ [0x0A]"
| "edit_line Keep l = l"

text \<open>Keys that do not edit: modifiers and their releases, and codes above the table.\<close>

definition modifier_keys :: "byte set" where
  "modifier_keys = {0x1D, 0x9D, 0x2A, 0x36, 0xAA, 0xB6, 0x38, 0xB8, 0x3A}"

text \<open>Tab counts a character before it stores the tab behind it: the line gets the byte that was left at
  its end.  Control with L shows the line again.\<close>

definition key_edit :: "'a tstate_scheme \<Rightarrow> byte \<Rightarrow> edit" where
  "key_edit s k =
    (if k = 0x0E then Del else if k = 0x1C then Line
     else if k = 0x0F then Ins (keyboard_buffer s ! length (typed s))
     else if k \<in> modifier_keys \<or> k > NUM_KB_CODES \<or> (k = 0x26 \<and> ctrl_pressed s = 1) then Keep
     else Ins (key_table (shift_pressed s) (capslock_pressed s) k ! unat k))"

text \<open>The keys that show another terminal.\<close>

definition terminal_key :: "'a tstate_scheme \<Rightarrow> byte \<Rightarrow> bool" where
  "terminal_key s k \<longleftrightarrow> alt_pressed s \<noteq> 0 \<and> k \<in> {0x3B, 0x3C, 0x3D}"

lemma backspace_line:
  assumes "kb_ok s"
  shows "kb_ok (kb_backspace s) \<and> typed (kb_backspace s) = butlast (typed s) \<and>
    enter_pressed_flag (kb_backspace s) = enter_pressed_flag s"
proof (cases "num_chars_typed s > 0")
  case True
  then have "nat (num_chars_typed s) = Suc (nat (num_chars_typed s - 1))" by simp
  moreover have "nat (num_chars_typed s) \<le> length (keyboard_buffer s)"
    using assms by (auto simp: kb_ok_def)
  ultimately have "take (nat (num_chars_typed s - 1)) (keyboard_buffer s) = butlast (typed s)"
    unfolding typed_def by (metis Suc_le_eq butlast_take diff_Suc_1)
  with True assms show ?thesis
    by (simp add: kb_backspace_def Let_def tcursor_def tputc_def typed_def kb_ok_def)
next
  case False
  with assms show ?thesis by (simp add: kb_backspace_def typed_def kb_ok_def)
qed

lemma enter_line:
  assumes "kb_ok s" "num_chars_typed s < int NUM_CHARS_KB"
  shows "\<exists>s'. kb_enter s = Some s' \<and> kb_ok s' \<and> typed s' = typed s @ [0x0A] \<and> enter_pressed_flag s' = 1"
proof -
  have n: "nat (num_chars_typed s + 1) = Suc (nat (num_chars_typed s))"
    using assms(1) by (simp add: kb_ok_def Suc_nat_eq_nat_zadd1)
  have "kb_store 0x0A (s\<lparr>enter_pressed_flag := 1\<rparr>) =
     Some (s\<lparr>enter_pressed_flag := 1, keyboard_buffer := (keyboard_buffer s)[nat (num_chars_typed s) := 0x0A]\<rparr>)"
    using assms kb_store_typed[of "s\<lparr>enter_pressed_flag := 1\<rparr>" "0x0A"] by (simp add: kb_ok_def)
  then show ?thesis
    using assms typed_store[OF assms, of "0x0A"] n
    by (simp add: kb_enter_def tputc_def typed_def kb_ok_def Let_def)
qed

lemma tab_line:
  assumes "kb_ok s" "num_chars_typed s + 1 < int NUM_CHARS_KB"
  shows "\<exists>s'. kb_tab s = Some s' \<and> kb_ok s' \<and> typed s' = typed s @ [keyboard_buffer s ! length (typed s)] \<and>
    enter_pressed_flag s' = enter_pressed_flag s"
proof -
  let ?s = "s\<lparr>num_chars_typed := num_chars_typed s + 1\<rparr>" and ?n = "nat (num_chars_typed s)"
  have n: "nat (num_chars_typed s + 1) = Suc ?n" "?n < length (keyboard_buffer s)" "0 \<le> num_chars_typed s"
    using assms by (auto simp: kb_ok_def)
  have "kb_store 0x09 ?s = Some (?s\<lparr>keyboard_buffer := (keyboard_buffer s)[Suc ?n := 0x09]\<rparr>)"
    using assms n kb_store_typed[of ?s "0x09"] by (simp add: kb_ok_def)
  moreover have "take (Suc ?n) ((keyboard_buffer s)[Suc ?n := 0x09]) = typed s @ [keyboard_buffer s ! ?n]"
    using n(2) by (simp add: take_Suc_conv_app_nth typed_def)
  moreover have "length (typed s) = ?n" by (rule length_typed[OF assms(1)])
  ultimately show ?thesis using assms n by (simp add: kb_tab_def typed_def kb_ok_def)
qed

lemma kb_redisplay_con:
  "i + n \<le> length (keyboard_buffer s) \<Longrightarrow> \<exists>c. kb_redisplay i n s = Some (s\<lparr>con := c\<rparr>)"
proof (induction n arbitrary: i s)
  case 0
  then show ?case by (intro exI[of _ "con s"]) simp
next
  case (Suc n)
  have "\<exists>c. kb_redisplay (Suc i) n (tputc ch s) = Some ((tputc ch s)\<lparr>con := c\<rparr>)" for ch
    using Suc.IH[of "Suc i" "tputc ch s"] Suc.prems by (simp add: tputc_def)
  then show ?case using Suc.prems by (simp add: rd_in tputc_def)
qed

lemma ctrl_l_line:
  assumes "kb_ok s" "num_chars_typed s < int NUM_CHARS_KB"
  shows "\<exists>s'. kb_ctrl_l s = Some s' \<and> kb_ok s' \<and> typed s' = typed s \<and> enter_pressed_flag s' = enter_pressed_flag s"
proof -
  define s1 where "s1 = tcursor 0 0 (s\<lparr>con := clear (con s)\<rparr>)"
  have s1: "num_chars_typed s1 = num_chars_typed s" "keyboard_buffer s1 = keyboard_buffer s"
    "enter_pressed_flag s1 = enter_pressed_flag s" by (simp_all add: s1_def tcursor_def)
  have "0 + nat (num_chars_typed s1 + 1) \<le> length (keyboard_buffer s1)" using assms by (auto simp: kb_ok_def s1)
  then obtain c where "kb_redisplay 0 (nat (num_chars_typed s1 + 1)) s1 = Some (s1\<lparr>con := c\<rparr>)" using kb_redisplay_con by blast
  then show ?thesis
    using assms(1) s1 unfolding kb_ctrl_l_def Let_def s1_def[symmetric] by (simp add: tcursor_def kb_ok_def typed_def)
qed

lemma keyboard_step:
  assumes "kb_ok s" "\<not> terminal_key s k" "num_chars_typed s < int NUM_CHARS_KB"
    and "k = 0x0F \<Longrightarrow> num_chars_typed s + 1 < int NUM_CHARS_KB"
  shows "\<exists>s'. keyboard_switch ex k s = Some s' \<and> kb_ok s' \<and> typed s' = edit_line (key_edit s k) (typed s) \<and>
    enter_pressed_flag s' = (if k = 0x1C then 1 else enter_pressed_flag s)"
proof -
  consider "k = 0x0E" | "k = 0x1C" | "k = 0x0F" | "k = 0x26" "ctrl_pressed s = 1" | "k \<in> modifier_keys"
    | "k \<in> {0x3B, 0x3C, 0x3D}" | "k \<notin> {0x0E, 0x1C, 0x0F, 0x3B, 0x3C, 0x3D} \<union> modifier_keys" "\<not> (k = 0x26 \<and> ctrl_pressed s = 1)"
    by blast
  then show ?thesis
  proof cases
    case 1 with backspace_line[OF assms(1)] show ?thesis by (simp add: keyboard_switch_def key_edit_def)
  next
    case 2 with enter_line[OF assms(1,3)] show ?thesis by (simp add: keyboard_switch_def key_edit_def)
  next
    case 3 with tab_line[OF assms(1) assms(4)] show ?thesis by (simp add: keyboard_switch_def key_edit_def)
  next
    case 4 with ctrl_l_line[OF assms(1,3)] show ?thesis by (simp add: keyboard_switch_def key_edit_def modifier_keys_def)
  next
    case 5
    show ?thesis
      using 5[unfolded modifier_keys_def] assms(1)
      by (elim insertE emptyE)
        (simp_all add: modifier_keys_def keyboard_switch_def key_edit_def kb_ok_def typed_def)
  next
    case 6
    then have "alt_pressed s = 0" using assms(2) by (simp add: terminal_key_def)
    with 6 show ?thesis
      using assms(1)
      by (elim insertE emptyE)
        (simp_all add: keyboard_switch_def kb_function_key_def key_edit_def NUM_KB_CODES_def)
  next
    case 7
    then have p: "keyboard_switch ex k s = print_to_screen k s"
      unfolding keyboard_switch_def modifier_keys_def by simp
    show ?thesis
    proof (cases "k > NUM_KB_CODES")
      case True
      then show ?thesis using p assms(1) 7 by (auto simp: print_to_screen_def key_edit_def)
    next
      case False
      then have "key_edit s k = Ins (key_table (shift_pressed s) (capslock_pressed s) k ! unat k)"
        using 7 by (auto simp: key_edit_def)
      moreover have "k \<le> NUM_KB_CODES" using False by simp
      ultimately show ?thesis using p print_to_screen_appends[OF assms(1,3)] 7(1) by auto
    qed
  qed
qed

lemma handler_of_switch:
  "keyboard_switch ex k s = Some s1 \<Longrightarrow>
   keyboard_handler ex k s = Some (s1\<lparr>kpic := send_eoi KEYBOARD_IRQ_NUM (kpic s1)\<rparr>)"
  by (simp add: keyboard_handler_def)

section \<open>Facts: reading a line\<close>

lemma read_long_copies:
  "i + n \<le> length kb \<Longrightarrow> read_long kb buf i n m c =
     Some (put_bytes m (buf + i) (take n (drop i kb)), c + int n)"
proof (induction n arbitrary: i m c)
  case (Suc n)
  then have "drop i kb = kb ! i # drop (Suc i) kb" by (simp add: Cons_nth_drop_Suc)
  with Suc show ?case by (simp add: rd_in put_bytes_Cons upd_fold)
qed simp

lemma read_short_copies:
  "i + n \<le> length kb \<Longrightarrow> int (i + n) = num \<Longrightarrow> 0 \<notin> set (take n (drop i kb)) \<Longrightarrow>
   read_short kb num buf i n m = Some (put_bytes m (buf + i) (take n (drop i kb)), 0)"
proof (induction n arbitrary: i m)
  case (Suc n)
  then have d: "drop i kb = kb ! i # drop (Suc i) kb" by (simp add: Cons_nth_drop_Suc)
  then have "kb ! i \<noteq> 0" using Suc.prems(3) by auto
  moreover have "read_short kb num buf (Suc i) n (m(buf + i := kb ! i)) =
      Some (put_bytes (m(buf + i := kb ! i)) (buf + Suc i) (take n (drop (Suc i) kb)), 0)"
    using Suc.prems d by (intro Suc.IH) auto
  ultimately show ?case using Suc.prems d by (simp add: rd_in put_bytes_Cons)
qed simp

text \<open>A NUL, which the keys without a character store, ends the copy.\<close>

lemma read_short_stops:
  "i + n \<le> length kb \<Longrightarrow> int (i + n) = num \<Longrightarrow> 0 \<in> set (take n (drop i kb)) \<Longrightarrow>
   read_short kb num buf i n m = (let d = takeWhile (\<lambda>c. c \<noteq> 0) (take n (drop i kb)) in
     Some (put_bytes m (buf + i) (d @ [0]), int i + int (length d) + 1))"
proof (induction n arbitrary: i m)
  case (Suc n)
  then have d: "drop i kb = kb ! i # drop (Suc i) kb" by (simp add: Cons_nth_drop_Suc)
  show ?case
  proof (cases "kb ! i = 0")
    case True
    then show ?thesis using Suc.prems d by (simp add: rd_in put_bytes_Cons)
  next
    case False
    have "read_short kb num buf (Suc i) n (m(buf + i := kb ! i)) = (let d = takeWhile (\<lambda>c. c \<noteq> 0) (take n (drop (Suc i) kb)) in
        Some (put_bytes (m(buf + i := kb ! i)) (buf + Suc i) (d @ [0]), int (Suc i) + int (length d) + 1))"
      using Suc.prems d False by (intro Suc.IH) auto
    then show ?thesis using Suc.prems d False by (simp add: rd_in put_bytes_Cons Let_def)
  qed
qed simp

lemma wait_enter_line:
  assumes "kb_ok s" "enter_pressed_flag s = 0" "num_chars_typed s < int NUM_CHARS_KB"
  shows "\<exists>s'. wait_enter ex (0x1C # ks) s = Some (s', ks) \<and> kb_ok s' \<and> typed s' = typed s @ [0x0A]"
proof -
  obtain s1 where s1: "kb_enter s = Some s1" "kb_ok s1" "typed s1 = typed s @ [0x0A]"
    "enter_pressed_flag s1 = 1" using enter_line[OF assms(1,3)] by blast
  then have "keyboard_handler ex 0x1C s = Some (s1\<lparr>kpic := send_eoi KEYBOARD_IRQ_NUM (kpic s1)\<rparr>)"
    by (simp add: keyboard_handler_def keyboard_switch_def)
  then show ?thesis using s1 assms(2)
    by (simp add: wait_enter.simps[of ex "0x1C # ks"] wait_enter.simps[of ex ks] kb_ok_def typed_def)
qed

section \<open>Facts: writing\<close>

lemma write_chars_append:
  "write_chars (xs @ ys) c =
     (let (st, c1) = write_chars xs c in if st then (True, c1) else write_chars ys c1)"
  by (induction xs arbitrary: c) auto

lemma write_chars_plain: "0 \<notin> set xs \<Longrightarrow> write_chars xs c = (False, fold putc xs c)"
  by (induction xs arbitrary: c) auto

section \<open>Facts: copying pages\<close>

lemma on_phys_memcpy:
  assumes "s + n \<le> d \<or> d \<le> s"
  shows "on_phys (\<lambda>m. memcpy m (VIDEO + d) (VIDEO + s) n) v =
    (\<lambda>p. if int d \<le> p \<and> p < int d + int n then v (int s + (p - int d)) else v p)"
proof (rule ext)
  fix p
  have mc: "memcpy m (VIDEO + d) (VIDEO + s) n = put_bytes m (VIDEO + d) (bytes_of m (VIDEO + s) n)" for m
    using memcpy_top_put[of "VIDEO + d" "VIDEO + s" n m] assms by (auto simp: memcpy_def fwd_safe_def)
  show "on_phys (\<lambda>m. memcpy m (VIDEO + d) (VIDEO + s) n) v p =
    (if int d \<le> p \<and> p < int d + int n then v (int s + (p - int d)) else v p)"
  proof (cases "int d \<le> p \<and> p < int d + int n")
    case True
    then obtain k where k: "p = int d + int k" "k < n"
      by (metis add.commute add_less_cancel_left le_iff_add nat_int_comparison(2) zero_le_imp_eq_int
          diff_ge_0_iff_ge add_diff_cancel_left' diff_add_cancel)
    then have "nat (p + int VIDEO) = VIDEO + d + k" by simp
    with k show ?thesis by (simp add: on_phys_def mc put_bytes_def algebra_simps)
  next
    case False
    then show ?thesis by (auto simp: on_phys_def mc put_bytes_def)
  qed
qed

text \<open>The three terminals with their pages behind the display page.\<close>

definition terms_ok :: "'a tstate_scheme \<Rightarrow> bool" where
  "terms_ok s \<longleftrightarrow> length (terminals s) = 3 \<and>
     (\<forall>k < 3. unat (video_mem_addr (terminals s ! k)) = VIDEO + (4096 * k + 4096))"

lemma all_less_3: "(\<forall>k < (3::nat). P k) \<longleftrightarrow> P 0 \<and> P 1 \<and> P 2"
  by (auto simp: less_Suc_eq numeral_eq_Suc)

lemma terms_ok_addr:
  "terms_ok s \<Longrightarrow> k < 3 \<Longrightarrow> unat (video_mem_addr (terminals s ! k)) = VIDEO + (4096 * k + 4096)"
  by (simp add: terms_ok_def)

lemma clear_vid: "vid (clear c) p = (if 0 \<le> p \<and> p < 4000 then if even p then 0x20 else ATTRIB else vid c p)"
  by (simp add: clear_def fold_clear_cell geometry)

text \<open>Video memory after a switch from terminal \<^verbatim>\<open>i\<close> to \<^verbatim>\<open>j\<close>: the display page is saved
  in page \<^verbatim>\<open>i\<close> and page \<^verbatim>\<open>j\<close> is shown.\<close>

definition switched :: "nat \<Rightarrow> nat \<Rightarrow> (int \<Rightarrow> byte) \<Rightarrow> (int \<Rightarrow> byte)" where
  "switched i j v = (\<lambda>p.
     if 0 \<le> p \<and> p < 4096 then v (p + 4096 * int j + 4096)
     else if 4096 * int i + 4096 \<le> p \<and> p < 4096 * int i + 8192 then v (p - 4096 * int i - 4096)
     else v p)"

lemma terminal_switch_active:
  assumes ok: "terms_ok s" and i: "curr_terminal_id s = int i" "i < 3"
    and j: "j < 3" "j \<noteq> i" "term_active (terminals s ! j) \<noteq> 0"
  shows "\<exists>s1. terminal_switch exec_shell (of_nat j) s = Some (0, s1) \<and> curr_terminal_id s1 = int j \<and>
    vid (con s1) = switched i j (vid (con s)) \<and>
    keyboard_buffer s1 = term_keyboard_buffer (terminals s ! j) \<and> num_chars_typed s1 = 0 \<and>
    screen_x (con s1) = sint (screen_X (terminals s ! j)) \<and>
    screen_y (con s1) = sint (screen_Y (terminals s ! j)) \<and>
    terminals s1 = (terminals s)[i := (terminals s ! i)\<lparr>screen_X := get_screen_x (con s),
       screen_Y := get_screen_y (con s), term_keyboard_buffer := keyboard_buffer s\<rparr>]"
proof -
  have l: "length (terminals s) = 3" using ok by (simp add: terms_ok_def)
  have uj: "unat (of_nat j :: u32) = j" using j(1) by (intro unat_of_nat_small) simp
  have "(of_nat j :: u32) \<noteq> of_nat i"
  proof
    assume "(of_nat j :: u32) = of_nat i"
    then have "unat (of_nat j :: u32) = unat (of_nat i :: u32)" by simp
    then show False using uj j(2) i(2) unat_of_nat_small[of i, where 'a = 32] by simp
  qed
  then have ne: "(of_nat j :: u32) \<noteq> word_of_int (curr_terminal_id s)" by (simp add: i)
  have sj: "sint (of_nat j :: u32) = int j" using uj j(1) by (subst sint_unat_small) simp_all
  have ai: "unat (video_mem_addr (terminals s ! i)) = VIDEO + (4096 * i + 4096)"
    using terms_ok_addr[OF ok i(2)] .
  have aj: "unat (video_mem_addr (terminals s ! j)) = VIDEO + (4096 * j + 4096)"
    using terms_ok_addr[OF ok j(1)] .
  have nj: "(terminals s)[i := t] ! j = terminals s ! j" for t using j(2) by simp
  have save: "on_phys (\<lambda>m. memcpy m (VIDEO + (4096 * i + 4096)) VIDEO 4096) v =
     (\<lambda>p. if 4096 * int i + 4096 \<le> p \<and> p < 4096 * int i + 8192 then v (p - 4096 * int i - 4096) else v p)" for v
    using on_phys_memcpy[of 0 4096 "4096 * i + 4096" v] by (auto simp: algebra_simps)
  have restore: "on_phys (\<lambda>m. memcpy m VIDEO (VIDEO + (4096 * j + 4096)) 4096) v =
     (\<lambda>p. if 0 \<le> p \<and> p < 4096 then v (p + 4096 * int j + 4096) else v p)" for v
    using on_phys_memcpy[of "4096 * j + 4096" 4096 0 v] by (auto simp: algebra_simps)
  define v1 where "v1 = vid (clear ((con s)\<lparr>vid := (\<lambda>p. if 4096 * int i + 4096 \<le> p \<and> p < 4096 * int i + 8192
      then vid (con s) (p - 4096 * int i - 4096) else vid (con s) p)\<rparr>))"
  have v: "(\<lambda>p. if 0 \<le> p \<and> p < 4096 then v1 (p + 4096 * int j + 4096) else v1 p) = switched i j (vid (con s))"
  proof (rule ext)
    fix p
    have "\<not> (4096 * int i + 4096 \<le> p + 4096 * int j + 4096 \<and> p + 4096 * int j + 4096 < 4096 * int i + 8192)"
      if "0 \<le> p" "p < 4096"
    proof -
      from j(2) have "int i + 1 \<le> int j \<or> int j + 1 \<le> int i" by linarith
      then show ?thesis using that by (elim disjE) linarith+
    qed
    then show "(if 0 \<le> p \<and> p < 4096 then v1 (p + 4096 * int j + 4096) else v1 p) = switched i j (vid (con s)) p"
      by (auto simp: v1_def clear_vid switched_def)
  qed
  have vm: "(if 0 \<le> p \<and> p < 4096
     then vid (clear (c\<lparr>vid := on_phys (\<lambda>m. memcpy m (VIDEO + (4096 * i + 4096)) VIDEO 4096) (vid c)\<rparr>)) q
     else vid (clear (c\<lparr>vid := on_phys (\<lambda>m. memcpy m (VIDEO + (4096 * i + 4096)) VIDEO 4096) (vid c)\<rparr>)) p) =
    (if 0 \<le> p \<and> p < 4096 then v1 q else v1 p)" if "c = con s" for c p q
    unfolding save v1_def that by simp
  show ?thesis
    using ne i j l uj sj vm v
    by (simp add: terminal_switch_def term_get_def term_put_def rd_in wr_in Let_def clear_keyboard_buff_def
        tcursor_def tvid_def ai aj nj restore cong: if_cong)
qed

section \<open>Properties\<close>

text \<open>A state for the witnesses: an empty line, two terminals in use.\<close>

definition demo_term :: "u32 \<Rightarrow> byte \<Rightarrow> terminal" where
  "demo_term i b = \<lparr>video_mem_addr = 0xB8000 + (i + 1) * 4096, term_active = 1,
     term_keyboard_buffer = replicate 128 b, screen_X = 5, screen_Y = 6\<rparr>"

definition demo_tstate :: tstate where
  "demo_tstate = \<lparr>con = \<lparr>vid = (\<lambda>p. word_of_int p), screen_x = 2, screen_y = 3, outs = []\<rparr>,
     kpic = pic_boot, keyboard_buffer = replicate 128 0, num_chars_typed = 0, ctrl_pressed = 0,
     shift_pressed = 1, capslock_pressed = 0, alt_pressed = 1, enter_pressed_flag = 0,
     curr_terminal_id = 0, terminals = [demo_term 0 1, demo_term 1 2, demo_term 2 3]\<rparr>"

text \<open>C8: While fewer than 128 characters are typed, one keyboard interrupt with any scan code, except
  F1 to F3 while Alt is held, changes the typed line exactly as the line editor does for that
  key in the present shift, caps and control state: insert the character, delete the last one,
  end the line (which sets the enter flag), insert the stale byte behind the line for Tab (this
  needs room for two, fewer than 127 typed), or keep the line (modifiers, releases, Ctrl-L,
  function keys); the invariant of the keyboard state is kept. F1 to F3 with Alt switch the
  terminal and are treated elsewhere.\<close>
theorem keyboard_refines_editor:
  assumes "kb_ok s" "length (typed s) < 128" "k = 0x0F \<Longrightarrow> length (typed s) < 127"
    and "k \<in> {0x3B, 0x3C, 0x3D} \<Longrightarrow> alt_pressed s = 0"
  shows "\<exists>s'. keyboard_handler exec_shell k s = Some s' \<and> kb_ok s' \<and>
    typed s' = edit_line (key_edit s k) (typed s) \<and>
    enter_pressed_flag s' = (if k = 0x1C then 1 else enter_pressed_flag s)"
proof -
  have n: "num_chars_typed s < int NUM_CHARS_KB" "k = 0x0F \<Longrightarrow> num_chars_typed s + 1 < int NUM_CHARS_KB"
    using assms(1-3) length_typed[OF assms(1)] by (auto simp: kb_ok_def NUM_CHARS_KB_def)
  have "\<not> terminal_key s k" using assms(4) by (auto simp: terminal_key_def)
  then obtain s1 where "keyboard_switch exec_shell k s = Some s1" "kb_ok s1"
    "typed s1 = edit_line (key_edit s k) (typed s)"
    "enter_pressed_flag s1 = (if k = 0x1C then 1 else enter_pressed_flag s)"
    using keyboard_step[OF assms(1) _ n] by blast
  then show ?thesis by (simp add: handler_of_switch kb_ok_def typed_def)
qed

theorem keyboard_refines_editor_witness:
  "\<exists>s'. keyboard_handler (\<lambda>_. None) 0x1E demo_tstate = Some s' \<and> kb_ok s' \<and> typed s' = [0x41]"
proof -
  have "kb_ok demo_tstate" "typed demo_tstate = []"
    by (simp_all add: kb_ok_def demo_tstate_def NUM_CHARS_KB_def typed_def)
  moreover have "key_edit demo_tstate 0x1E = Ins 0x41"
    by (simp add: key_edit_def modifier_keys_def demo_tstate_def NUM_KB_CODES_def key_table_def
        ascii_caps_lookup_table_def)
  ultimately show ?thesis
    using keyboard_refines_editor[of demo_tstate "0x1E" "\<lambda>_. None"] by auto
qed

text \<open>A further fact about the same definitions: beyond the buffer the handler has no value.\<close>
lemma keyboard_buffer_overflow:
  assumes "kb_ok s" "length (typed s) = 128" "key_edit s k = Ins c \<or> key_edit s k = Line" "\<not> terminal_key s k"
  shows "keyboard_handler exec_shell k s = None"
proof -
  have n: "num_chars_typed s = int NUM_CHARS_KB"
    using assms(1,2) length_typed[OF assms(1)] by (auto simp: kb_ok_def NUM_CHARS_KB_def)
  have "keyboard_switch exec_shell k s = None"
  proof (cases "k = 0x1C")
    case True
    have "kb_store 0x0A (s\<lparr>enter_pressed_flag := 1\<rparr>) = None"
      using assms(1) n by (intro kb_store_full) (simp_all add: kb_ok_def)
    with True show ?thesis by (simp add: keyboard_switch_def kb_enter_def)
  next
    case enter: False
    show ?thesis
    proof (cases "k = 0x0F")
      case True
      then show ?thesis
        using assms(1) n by (simp add: keyboard_switch_def kb_tab_def kb_store_def kb_ok_def wr_def NUM_CHARS_KB_def)
    next
      case False
      then have k: "k \<noteq> 0x0E" "k \<notin> modifier_keys" "k \<le> NUM_KB_CODES" "\<not> (k = 0x26 \<and> ctrl_pressed s = 1)"
        using assms(3) enter by (auto simp: key_edit_def split: if_splits)
      then have "keyboard_switch exec_shell k s = print_to_screen k s"
        using enter False by (auto simp: keyboard_switch_def modifier_keys_def NUM_KB_CODES_def)
      also have "\<dots> = None"
        using key_code_index[OF k(3)] k(3) kb_store_full[OF assms(1) n] by (simp add: print_to_screen_def rd_in)
      finally show ?thesis .
    qed
  qed
  then show ?thesis by (simp add: keyboard_handler_def)
qed

text \<open>C36: A read from the terminal, with fewer than 128 characters typed, that ends with the enter
  key empties the line and clears the flag. A request of 128 bytes or more delivers the typed
  line with its newline and a NUL and returns its length with the newline. A shorter request
  ignores its size: it delivers the whole line with its newline and returns 0, or, when a NUL
  has been typed (the escape key stores one), only the part up to the first NUL and the number
  of those bytes.\<close>
theorem terminal_read_line:
  assumes "kb_ok s" "enter_pressed_flag s = 0" "length (typed s) < 128" "buf \<noteq> 0" "nbytes \<noteq> 0"
  shows "\<exists>s'. terminal_read exec_shell (0x1C # ks) buf nbytes (s, m) =
      (let d = takeWhile (\<lambda>c. c \<noteq> 0) (typed s) in
       if nbytes \<ge> 128 then Some (int (length (typed s) + 1), ks, s', put_bytes m buf (typed s @ [0x0A, 0]))
       else if 0 \<in> set (typed s) then Some (int (length d) + 1, ks, s', put_bytes m buf (d @ [0]))
       else Some (0, ks, s', put_bytes m buf (typed s @ [0x0A]))) \<and>
    typed s' = [] \<and> enter_pressed_flag s' = 0"
proof -
  have n: "num_chars_typed s < int NUM_CHARS_KB"
    using assms(1,3) length_typed[OF assms(1)] by (auto simp: kb_ok_def NUM_CHARS_KB_def)
  obtain s1 where s1: "wait_enter exec_shell (0x1C # ks) s = Some (s1, ks)" "kb_ok s1"
    "typed s1 = typed s @ [0x0A]" using wait_enter_line[OF assms(1,2) n] by blast
  let ?n = "nat (num_chars_typed s1)" and ?d = "takeWhile (\<lambda>c. c \<noteq> 0) (typed s)"
  have len: "?n = length (typed s) + 1" "?n \<le> length (keyboard_buffer s1)" "0 \<le> num_chars_typed s1"
    using length_typed[OF s1(2)] s1(2,3) by (auto simp: kb_ok_def)
  have tk: "take ?n (keyboard_buffer s1) = typed s @ [0x0A]" using s1(3) by (simp add: typed_def)
  have clr: "clear_keyboard_buff (s1\<lparr>num_chars_typed := 0, enter_pressed_flag := 0\<rparr>) =
      s1\<lparr>num_chars_typed := 0, enter_pressed_flag := 0, keyboard_buffer := replicate NUM_CHARS_KB 0\<rparr>"
    using s1(2) by (subst clear_keyboard_buff_spec) (simp_all add: kb_ok_def)
  have short: "read_short (keyboard_buffer s1) (num_chars_typed s1) buf 0 ?n m =
      (if 0 \<in> set (typed s) then Some (put_bytes m buf (?d @ [0]), int (length ?d) + 1)
       else Some (put_bytes m buf (typed s @ [0x0A]), 0))"
  proof (cases "0 \<in> set (typed s)")
    case True
    then have "takeWhile (\<lambda>c. c \<noteq> 0) (typed s @ [0x0A]) = ?d" by (auto simp: takeWhile_append)
    then show ?thesis
      using read_short_stops[of 0 ?n "keyboard_buffer s1" "num_chars_typed s1" buf m] len(2,3) True
      unfolding drop_0 tk by (simp add: Let_def)
  next
    case False
    then show ?thesis
      using read_short_copies[of 0 ?n "keyboard_buffer s1" "num_chars_typed s1" buf m] len(2,3)
      unfolding drop_0 tk by simp
  qed
  have long: "read_long (keyboard_buffer s1) buf 0 ?n m 0 =
      Some (put_bytes m buf (typed s @ [0x0A]), int (length (typed s) + 1))"
    using read_long_copies[of 0 ?n "keyboard_buffer s1" buf m 0] len unfolding drop_0 tk by simp
  have fin: "nat (int buf + num_chars_typed s1) = buf + length (typed s @ [0x0A])"
    using len by simp
  have nul: "(put_bytes m buf (typed s @ [0x0A]))(buf + length (typed s @ [0x0A]) := 0) =
      put_bytes m buf (typed s @ [0x0A, 0])"
    using put_bytes_snoc[of m buf "typed s @ [0x0A]" 0] by simp
  show ?thesis
    using assms(4,5) s1(1) short long clr nul
    by (simp add: terminal_read_def Let_def fin NUM_CHARS_KB_def typed_def not_le del: length_append)
qed

theorem terminal_read_line_witness:
  "\<exists>s'. terminal_read (\<lambda>_. None) [0x1C] 500 4
      (demo_tstate\<lparr>keyboard_buffer := replicate 2 0x61 @ [0] @ replicate 125 0x62, num_chars_typed := 7\<rparr>, \<lambda>_. 9) =
     Some (3, [], s', put_bytes (\<lambda>_. 9) 500 [0x61, 0x61, 0])"
proof -
  let ?s = "demo_tstate\<lparr>keyboard_buffer := replicate 2 0x61 @ [0] @ replicate 125 0x62, num_chars_typed := 7\<rparr>"
  have "kb_ok ?s" "enter_pressed_flag ?s = 0" and t: "typed ?s = [0x61, 0x61, 0, 0x62, 0x62, 0x62, 0x62]"
    by (simp_all add: kb_ok_def NUM_CHARS_KB_def typed_def demo_tstate_def numeral_eq_Suc)
  then show ?thesis
    using terminal_read_line[of ?s 500 4 "\<lambda>_. None" "[]" "\<lambda>_. 9"] by (auto simp: Let_def)
qed

text \<open>A further fact about the same definitions.\<close>
lemma terminal_write_text:
  assumes "bytes_of m buf n = xs" "0 \<notin> set xs" "buf \<noteq> 0" "0 < n"
  shows "terminal_write m buf (int n) c =
    Some (if n < 79 then 0 else int n, fold putc (if n = 79 then xs @ [0x0A] else xs) c)"
proof -
  have l: "length xs = n" using assms(1) by auto
  consider "n < 79" | "n = 79" | "n = 80" | "80 < n" by linarith
  then show ?thesis
  proof cases
    case 1
    have "drop n ((replicate 80 (0::byte))[79 := 0x0A]) = 0 # drop (Suc n) ((replicate 80 0)[79 := 0x0A])"
      using 1 by (subst Cons_nth_drop_Suc[symmetric]) auto
    then show ?thesis using 1 assms l
      by (simp add: terminal_write_def write_chars_append write_chars_plain Let_def)
  next
    case 2
    have "drop 79 ((replicate 80 (0::byte))[79 := 0x0A]) = [0x0A]"
      by (simp add: drop_update_swap)
    then show ?thesis using 2 assms l
      by (simp add: terminal_write_def write_chars_append write_chars_plain Let_def)
  next
    case 3 then show ?thesis using assms l
      by (simp add: terminal_write_def write_chars_append write_chars_plain Let_def)
  next
    case 4 then show ?thesis using assms l
      by (simp add: terminal_write_def write_chars_plain Let_def)
  qed
qed

theorem terminal_write_text_witness:
  "terminal_write (put_bytes (\<lambda>_. 0) 500 [0x68, 0x69]) 500 2 blank_con = Some (0, putc 0x69 (putc 0x68 blank_con))"
  using terminal_write_text[of "put_bytes (\<lambda>_. 0) 500 [0x68, 0x69]" 500 2 "[0x68, 0x69]" blank_con] by simp

text \<open>C40: Switching to another active terminal and back restores the screen, the cursor and the
  keyboard buffer, but loses the number of characters typed.\<close>
theorem terminal_switch_roundtrip:
  assumes "terms_ok s" "con_ok (con s)" "curr_terminal_id s = int i" "i < 3" "j < 3" "j \<noteq> i"
    and "term_active (terminals s ! i) \<noteq> 0" "term_active (terminals s ! j) \<noteq> 0"
  shows "\<exists>s1 s2. terminal_switch exec_shell (of_nat j) s = Some (0, s1) \<and>
     terminal_switch exec_shell (of_nat i) s1 = Some (0, s2) \<and>
     curr_terminal_id s2 = int i \<and> keyboard_buffer s2 = keyboard_buffer s \<and>
     screen_x (con s2) = screen_x (con s) \<and> screen_y (con s2) = screen_y (con s) \<and>
     (\<forall>p. 0 \<le> p \<and> p < 4096 \<longrightarrow> vid (con s2) p = vid (con s) p) \<and> num_chars_typed s2 = 0"
proof -
  define ti where "ti = (terminals s ! i)\<lparr>screen_X := get_screen_x (con s),
       screen_Y := get_screen_y (con s), term_keyboard_buffer := keyboard_buffer s\<rparr>"
  obtain s1 where s1: "terminal_switch exec_shell (of_nat j) s = Some (0, s1)"
    "curr_terminal_id s1 = int j" "vid (con s1) = switched i j (vid (con s))"
    "terminals s1 = (terminals s)[i := ti]"
    using terminal_switch_active[OF assms(1,3,4,5,6,8), of exec_shell] unfolding ti_def by blast
  have l: "length (terminals s) = 3" using assms(1) by (simp add: terms_ok_def)
  have ni: "terminals s1 ! i = ti" using l assms(4) s1(4) by simp
  have ok1: "terms_ok s1"
    using assms(1,4) s1(4) by (auto simp: terms_ok_def ti_def nth_list_update)
  have act: "term_active (terminals s1 ! i) \<noteq> 0" using assms(7) ni by (simp add: ti_def)
  obtain s2 where s2: "terminal_switch exec_shell (of_nat i) s1 = Some (0, s2)"
    "curr_terminal_id s2 = int i" "vid (con s2) = switched j i (vid (con s1))"
    "keyboard_buffer s2 = term_keyboard_buffer ti" "num_chars_typed s2 = 0"
    "screen_x (con s2) = sint (screen_X ti)" "screen_y (con s2) = sint (screen_Y ti)"
    using terminal_switch_active[OF ok1 s1(2) assms(5,4) assms(6)[symmetric] act, of exec_shell]
    unfolding ni by blast
  have cur: "sint (screen_X ti) = screen_x (con s)" "sint (screen_Y ti) = screen_y (con s)"
    using assms(2) by (simp_all add: ti_def get_screen_x_def get_screen_y_def con_ok_def geometry sint_small)
  have "vid (con s2) p = vid (con s) p" if "0 \<le> p" "p < 4096" for p
    using that by (simp add: s2(3) s1(3) switched_def)
  with s1(1) s2 cur show ?thesis by (intro exI conjI) (auto simp: ti_def)
qed

theorem terminal_switch_roundtrip_witness:
  "\<exists>s1 s2. terminal_switch (\<lambda>_. None) 2 demo_tstate = Some (0, s1) \<and>
     terminal_switch (\<lambda>_. None) 0 s1 = Some (0, s2) \<and> screen_y (con s2) = 3 \<and> vid (con s2) 7 = 7"
proof -
  have "terms_ok demo_tstate" "con_ok (con demo_tstate)"
    by (simp_all add: terms_ok_def demo_tstate_def demo_term_def VIDEO_def con_ok_def geometry all_less_3)
  then obtain s1 s2 where "terminal_switch (\<lambda>_. None) (of_nat 2) demo_tstate = Some (0, s1)"
    "terminal_switch (\<lambda>_. None) (of_nat 0) s1 = Some (0, s2)"
    "screen_y (con s2) = screen_y (con demo_tstate)"
    "\<forall>p. 0 \<le> p \<and> p < 4096 \<longrightarrow> vid (con s2) p = vid (con demo_tstate) p"
    using terminal_switch_roundtrip[of demo_tstate 0 2 "\<lambda>_. None"]
    by (auto simp: demo_tstate_def demo_term_def)
  then show ?thesis
    by (intro exI[of _ s1] exI[of _ s2]) (simp add: demo_tstate_def)
qed

end
