(* ===== verification/Paging.thy ===== *)
theory Paging
  imports Prelude "HOL-Library.Signed_Division"
begin

text \<open>Paging, \<^verbatim>\<open>student-distrib/paging.c\<close>: the page directory, the kernel's page table
  and the table of the user's video page, with the bit fields of \<^verbatim>\<open>paging.h\<close>.  The
  addresses of the two tables are fixed by the linker and are arguments.  The
  processor's walk \<^verbatim>\<open>translate\<close> states what the tables mean.\<close>

definition VIDEO_ADDR :: nat where "VIDEO_ADDR = 0xB8"
definition PROGRAM_IMG_PDE_INDEX :: nat where "PROGRAM_IMG_PDE_INDEX = 32"
definition VMEM_PDE_INDEX :: nat where "VMEM_PDE_INDEX = 40"
definition SPACE :: nat where "SPACE = 1024"
definition SIZE_4MB :: u32 where "SIZE_4MB = 0x400000"
definition SIZE_8MB :: u32 where "SIZE_8MB = 0x800000"

lemmas paging_consts = VIDEO_ADDR_def PROGRAM_IMG_PDE_INDEX_def VMEM_PDE_INDEX_def SPACE_def
  SIZE_4MB_def SIZE_8MB_def

section \<open>Entries\<close>

record pde =
  pd_present :: bool
  pd_read_write :: bool
  pd_user :: bool
  pd_write_through :: bool
  pd_cache_disable :: bool
  pd_accessed :: bool
  pd_reserved :: bool
  pd_size :: bool
  pd_ignored :: bool
  pd_avail :: "3 word"
  table_addr :: "20 word"

record pte =
  pt_present :: bool
  pt_read_write :: bool
  pt_user :: bool
  pt_write_through :: bool
  pt_cache_disable :: bool
  pt_accessed :: bool
  pt_dirty :: bool
  pt_reserved :: bool
  pt_global :: bool
  pt_avail :: "3 word"
  page_addr :: "20 word"

text \<open>The three arrays, the number of TLB flushes, and whether \<^verbatim>\<open>enable\<close> has run.\<close>

record paging =
  kernel_page_directory :: "pde list"
  kernel_page_table :: "pte list"
  pagetable_video :: "pte list"
  tlb_flushes :: nat
  paging_enabled :: bool

definition set_pde :: "nat \<Rightarrow> pde \<Rightarrow> paging \<Rightarrow> paging" where
  "set_pde i e p = p\<lparr>kernel_page_directory := (kernel_page_directory p)[i := e]\<rparr>"

definition set_kpte :: "nat \<Rightarrow> pte \<Rightarrow> paging \<Rightarrow> paging" where
  "set_kpte i e p = p\<lparr>kernel_page_table := (kernel_page_table p)[i := e]\<rparr>"

definition flush_tlb :: "paging \<Rightarrow> paging" where
  "flush_tlb p = p\<lparr>tlb_flushes := tlb_flushes p + 1\<rparr>"

section \<open>Operations\<close>

definition kernel_pde :: "bool \<Rightarrow> bool \<Rightarrow> 20 word \<Rightarrow> pde" where
  "kernel_pde present big addr =
    \<lparr>pd_present = present, pd_read_write = True, pd_user = False, pd_write_through = False,
     pd_cache_disable = False, pd_accessed = False, pd_reserved = False, pd_size = big,
     pd_ignored = False, pd_avail = 0, table_addr = addr\<rparr>"

definition kernel_pte :: "bool \<Rightarrow> nat \<Rightarrow> pte" where
  "kernel_pte present i =
    \<lparr>pt_present = present, pt_read_write = True, pt_user = False, pt_write_through = False,
     pt_cache_disable = False, pt_accessed = False, pt_dirty = False, pt_reserved = False,
     pt_global = False, pt_avail = 0, page_addr = of_nat i\<rparr>"

text \<open>\<^verbatim>\<open>kpt\<close> is the address of \<^verbatim>\<open>kernel_page_table\<close>.\<close>

definition paging_init :: "u32 \<Rightarrow> paging \<Rightarrow> paging" where
  "paging_init kpt p0 =
    (let p1 = set_pde 0 (kernel_pde True False (ucast (drop_bit 12 kpt))) p0;
         p2 = set_pde 1 (kernel_pde True True (ucast (drop_bit 12 SIZE_4MB))) p1;
         p3 = fold (\<lambda>i. set_pde i (kernel_pde False True (of_nat i))) [2..<SPACE] p2;
         p4 = fold (\<lambda>i. if i = VIDEO_ADDR then set_kpte i (kernel_pte True VIDEO_ADDR)
                         else set_kpte i (kernel_pte False i)) [0..<SPACE] p3
     in p4\<lparr>paging_enabled := True\<rparr>)"

definition execute_paging_init :: "u32 \<Rightarrow> paging \<Rightarrow> paging" where
  "execute_paging_init pid p =
    (let phy_addr = sint (SIZE_8MB + SIZE_4MB * (pid - 1));
         e = kernel_page_directory p ! PROGRAM_IMG_PDE_INDEX;
         e1 = e\<lparr>pd_present := True\<rparr>;
         e2 = e1\<lparr>pd_user := True\<rparr>;
         e3 = e2\<lparr>table_addr := word_of_int (push_bit 10 ((phy_addr sdiv 4096) sdiv 1024))\<rparr>
     in flush_tlb (set_pde PROGRAM_IMG_PDE_INDEX e3 p))"

text \<open>\<^verbatim>\<open>vpt\<close> is the address of \<^verbatim>\<open>pagetable_video\<close>.\<close>

definition map_vidmem :: "u32 \<Rightarrow> paging \<Rightarrow> paging" where
  "map_vidmem vpt p =
    (let e = kernel_page_directory p ! VMEM_PDE_INDEX;
         e1 = e\<lparr>pd_present := True, pd_user := True, pd_size := False, pd_read_write := True,
                 table_addr := ucast (drop_bit 12 vpt)\<rparr>;
         p1 = set_pde VMEM_PDE_INDEX e1 p;
         t = pagetable_video p1 ! 0;
         t1 = t\<lparr>pt_present := True, pt_user := True, pt_read_write := True, page_addr := of_nat VIDEO_ADDR\<rparr>
     in flush_tlb (p1\<lparr>pagetable_video := (pagetable_video p1)[0 := t1]\<rparr>))"

definition terminal_videopage_init :: "paging \<Rightarrow> paging" where
  "terminal_videopage_init p =
    (let t1 = VIDEO_ADDR + 1; t2 = VIDEO_ADDR + 2; t3 = VIDEO_ADDR + 3
     in set_kpte t3 (kernel_pte True t3) (set_kpte t2 (kernel_pte True t2)
          (set_kpte t1 (kernel_pte True t1) p)))"

section \<open>The processor's walk\<close>

text \<open>A virtual address gives the physical address and whether user code may use
  it; a large page takes the upper ten bits of \<^verbatim>\<open>table_addr\<close> as its frame.\<close>

definition pte_lookup :: "pte list \<Rightarrow> bool \<Rightarrow> nat \<Rightarrow> (nat \<times> bool) option" where
  "pte_lookup tab user va =
    (let e = tab ! ((va div 4096) mod 1024)
     in if pt_present e then Some (unat (page_addr e) * 4096 + va mod 4096, user \<and> pt_user e) else None)"

definition translate :: "u32 \<Rightarrow> u32 \<Rightarrow> paging \<Rightarrow> nat \<Rightarrow> (nat \<times> bool) option" where
  "translate kpt vpt p va =
    (let e = kernel_page_directory p ! (va div 0x400000)
     in if \<not> pd_present e then None
        else if pd_size e then Some (unat (table_addr e) div 1024 * 0x400000 + va mod 0x400000, pd_user e)
        else if table_addr e = ucast (drop_bit 12 kpt) then pte_lookup (kernel_page_table p) (pd_user e) va
        else if table_addr e = ucast (drop_bit 12 vpt) then pte_lookup (pagetable_video p) (pd_user e) va
        else None)"

section \<open>Facts\<close>

definition paging_sized :: "paging \<Rightarrow> bool" where
  "paging_sized p \<longleftrightarrow> length (kernel_page_directory p) = SPACE \<and>
     length (kernel_page_table p) = SPACE \<and> length (pagetable_video p) = SPACE"

lemma small_SPACE: "0 < SPACE" "1 < SPACE" "Suc 0 < SPACE" "2 \<le> SPACE" "32 < SPACE" "40 < SPACE"
  by (simp_all add: SPACE_def)

lemma fold_set_pde:
  "kernel_page_directory (fold (\<lambda>i. set_pde i (g i)) is p) =
     fold (\<lambda>i l. l[i := g i]) is (kernel_page_directory p) \<and>
   kernel_page_table (fold (\<lambda>i. set_pde i (g i)) is p) = kernel_page_table p \<and>
   pagetable_video (fold (\<lambda>i. set_pde i (g i)) is p) = pagetable_video p"
  by (induction "is" arbitrary: p) (simp_all add: set_pde_def)

lemma fold_set_kpte:
  "kernel_page_table (fold (\<lambda>i. set_kpte i (g i)) is p) =
     fold (\<lambda>i l. l[i := g i]) is (kernel_page_table p) \<and>
   kernel_page_directory (fold (\<lambda>i. set_kpte i (g i)) is p) = kernel_page_directory p \<and>
   pagetable_video (fold (\<lambda>i. set_kpte i (g i)) is p) = pagetable_video p"
  by (induction "is" arbitrary: p) (simp_all add: set_kpte_def)

lemma fold_update_nth:
  "length l = n \<Longrightarrow> k < n \<Longrightarrow> m \<le> n \<Longrightarrow>
   fold (\<lambda>i l. l[i := g i]) [a..<m] l ! k = (if a \<le> k \<and> k < m then g k else l ! k)"
proof (induction m)
  case (Suc m)
  have len: "length (fold (\<lambda>i l. l[i := g i]) js l) = length l" for js
    by (induction js arbitrary: l) simp_all
  show ?case
  proof (cases "a \<le> m")
    case True with Suc len show ?thesis by (auto simp: nth_list_update)
  next
    case False with Suc show ?thesis by auto
  qed
qed simp

lemma length_fold_update [simp]: "length (fold (\<lambda>i l. l[i := g i]) is l) = length l"
  by (induction "is" arbitrary: l) simp_all

text \<open>The directory and table after \<^verbatim>\<open>paging_init\<close>.\<close>

lemma paging_init_dir:
  assumes "paging_sized p" "k < SPACE"
  shows "kernel_page_directory (paging_init kpt p) ! k =
    (if k = 0 then kernel_pde True False (ucast (drop_bit 12 kpt))
     else if k = 1 then kernel_pde True True (ucast (drop_bit 12 SIZE_4MB))
     else kernel_pde False True (of_nat k))"
proof -
  have if_fold: "(\<lambda>i. if i = VIDEO_ADDR then set_kpte i (kernel_pte True VIDEO_ADDR) else set_kpte i (kernel_pte False i))
      = (\<lambda>i. set_kpte i (if i = VIDEO_ADDR then kernel_pte True VIDEO_ADDR else kernel_pte False i))" by auto
  show ?thesis
    using assms unfolding paging_init_def Let_def if_fold
    by (simp add: fold_set_pde fold_set_kpte fold_update_nth[where n = SPACE] set_pde_def paging_sized_def small_SPACE
        nth_list_update)
qed

lemma paging_init_table:
  assumes "paging_sized p" "k < SPACE"
  shows "kernel_page_table (paging_init kpt p) ! k = kernel_pte (k = VIDEO_ADDR) k"
proof -
  have if_fold: "(\<lambda>i. if i = VIDEO_ADDR then set_kpte i (kernel_pte True VIDEO_ADDR) else set_kpte i (kernel_pte False i))
      = (\<lambda>i. set_kpte i (if i = VIDEO_ADDR then kernel_pte True VIDEO_ADDR else kernel_pte False i))" by auto
  show ?thesis
    using assms unfolding paging_init_def Let_def if_fold
    by (simp add: fold_set_pde fold_set_kpte fold_update_nth[where n = SPACE] set_pde_def paging_sized_def small_SPACE)
qed

lemma paging_init_sized: "paging_sized p \<Longrightarrow> paging_sized (paging_init kpt p)"
proof -
  have if_fold: "(\<lambda>i. if i = VIDEO_ADDR then set_kpte i (kernel_pte True VIDEO_ADDR) else set_kpte i (kernel_pte False i))
      = (\<lambda>i. set_kpte i (if i = VIDEO_ADDR then kernel_pte True VIDEO_ADDR else kernel_pte False i))" by auto
  show "paging_sized p \<Longrightarrow> paging_sized (paging_init kpt p)"
    unfolding paging_init_def Let_def if_fold
    by (simp add: paging_sized_def fold_set_pde fold_set_kpte set_pde_def)
qed

text \<open>The frame of process \<^verbatim>\<open>pid\<close>.\<close>

lemma frame_sdiv:
  assumes "(0::int) \<le> n"
  shows "(0x800000 + 0x400000 * n) sdiv 4096 = 0x800 + 0x400 * n"
    "(0x800 + 0x400 * n) sdiv 1024 = 2 + n"
proof -
  have "0 < 0x800000 + 0x400000 * n" "0 < 0x800 + 0x400 * n" using assms by linarith+
  then show "(0x800000 + 0x400000 * n) sdiv 4096 = 0x800 + 0x400 * n"
    "(0x800 + 0x400 * n) sdiv 1024 = 2 + n"
    by (simp_all add: signed_divide_int_def sgn_if)
qed

lemma program_frame:
  assumes "unat pid \<le> 400"
  shows "unat (word_of_int (push_bit 10 ((sint (SIZE_8MB + SIZE_4MB * ((pid + 1) - 1)) sdiv 4096) sdiv 1024)) :: 20 word)
    = 1024 * (2 + unat pid)"
proof -
  have "unat (SIZE_8MB + SIZE_4MB * pid) = 0x800000 + 0x400000 * unat pid"
    using assms by (simp add: paging_consts unat_word_ariths)
  then have "sint (SIZE_8MB + SIZE_4MB * pid) = 0x800000 + 0x400000 * int (unat pid)"
    using assms by (subst sint_unat_small) simp_all
  moreover have "(0x800000 + 0x400000 * int (unat pid)) sdiv 4096 = 0x800 + 0x400 * int (unat pid)"
    by (rule frame_sdiv) simp
  moreover have "(0x800 + 0x400 * int (unat pid)) sdiv 1024 = 2 + int (unat pid)"
    by (rule frame_sdiv) simp
  moreover have "unat (word_of_int (1024 * (2 + int (unat pid))) :: 20 word) = 1024 * (2 + unat pid)"
  proof -
    have "1024 * (2 + int (unat pid)) = int (1024 * (2 + unat pid))" by simp
    moreover have "1024 * (2 + unat pid) < 2 ^ LENGTH(20)" using assms by simp
    ultimately show ?thesis by (metis of_int_of_nat_eq unat_of_nat_small)
  qed
  ultimately show ?thesis by (simp add: push_bit_eq_mult mult.commute)
qed

text \<open>The invariant: user access is possible at most through the program's large
  page and the user's video table, and the latter has only the text page.\<close>

definition video_table_ok :: "paging \<Rightarrow> bool" where
  "video_table_ok p \<longleftrightarrow> (\<forall>k < SPACE. pt_present (pagetable_video p ! k) \<longrightarrow>
     k = 0 \<and> page_addr (pagetable_video p ! k) = 0xB8)"

definition paging_inv :: "u32 \<Rightarrow> paging \<Rightarrow> bool" where
  "paging_inv vpt p \<longleftrightarrow> paging_sized p \<and> video_table_ok p \<and>
     (\<forall>k < SPACE. pd_user (kernel_page_directory p ! k) \<longrightarrow>
        k = 32 \<or> k = 40 \<and> \<not> pd_size (kernel_page_directory p ! k) \<and>
          table_addr (kernel_page_directory p ! k) = ucast (drop_bit 12 vpt)) \<and>
     pd_size (kernel_page_directory p ! 32)"

lemma paging_init_video [simp]: "pagetable_video (paging_init kpt p) = pagetable_video p"
proof -
  have if_fold: "(\<lambda>i. if i = VIDEO_ADDR then set_kpte i (kernel_pte True VIDEO_ADDR) else set_kpte i (kernel_pte False i))
      = (\<lambda>i. set_kpte i (if i = VIDEO_ADDR then kernel_pte True VIDEO_ADDR else kernel_pte False i))" by auto
  show ?thesis
    unfolding paging_init_def Let_def if_fold by (simp add: fold_set_pde fold_set_kpte set_pde_def)
qed

lemma paging_init_inv: "paging_sized p \<Longrightarrow> video_table_ok p \<Longrightarrow> paging_inv vpt (paging_init kpt p)"
  by (simp add: paging_inv_def paging_init_sized video_table_ok_def paging_init_dir kernel_pde_def small_SPACE)

lemma execute_paging_inv:
  assumes "paging_inv vpt p" shows "paging_inv vpt (execute_paging_init pid p)"
  using assms small_SPACE
  by (auto simp: paging_inv_def execute_paging_init_def Let_def flush_tlb_def set_pde_def paging_sized_def
      video_table_ok_def nth_list_update PROGRAM_IMG_PDE_INDEX_def)

lemma map_vidmem_inv:
  assumes "paging_inv vpt p" shows "paging_inv vpt (map_vidmem vpt p)"
  using assms small_SPACE
  by (auto simp: paging_inv_def map_vidmem_def Let_def flush_tlb_def set_pde_def paging_sized_def
      video_table_ok_def nth_list_update VMEM_PDE_INDEX_def VIDEO_ADDR_def)

lemma terminal_videopage_inv:
  assumes "paging_inv vpt p" shows "paging_inv vpt (terminal_videopage_init p)"
  using assms by (simp add: paging_inv_def terminal_videopage_init_def Let_def set_kpte_def paging_sized_def
      video_table_ok_def)

lemma execute_paging_entry:
  assumes "paging_sized p"
  shows "kernel_page_directory (execute_paging_init pid p) ! 32 = (kernel_page_directory p ! 32)\<lparr>pd_present := True,
      pd_user := True, table_addr := word_of_int (push_bit 10 ((sint (SIZE_8MB + SIZE_4MB * (pid - 1)) sdiv 4096) sdiv 1024))\<rparr>"
  using assms small_SPACE
  by (simp add: execute_paging_init_def Let_def flush_tlb_def set_pde_def paging_sized_def PROGRAM_IMG_PDE_INDEX_def)

section \<open>Properties\<close>

text \<open>All zero, as the kernel's uninitialised data is.\<close>

definition zero_pde :: pde where
  "zero_pde = (kernel_pde False False 0)\<lparr>pd_read_write := False\<rparr>"
definition zero_pte :: pte where
  "zero_pte = (kernel_pte False 0)\<lparr>pt_read_write := False\<rparr>"
definition paging_boot :: paging where
  "paging_boot = \<lparr>kernel_page_directory = replicate SPACE zero_pde, kernel_page_table = replicate SPACE zero_pte,
     pagetable_video = replicate SPACE zero_pte, tlb_flushes = 0, paging_enabled = False\<rparr>"

lemma paging_boot_ok: "paging_sized paging_boot" "video_table_ok paging_boot"
  by (simp_all add: paging_sized_def video_table_ok_def paging_boot_def zero_pte_def kernel_pte_def)

text \<open>A further fact about the same definitions.\<close>
lemma paging_keeps_inv:
  "(paging_sized p \<and> video_table_ok p \<longrightarrow> paging_inv vpt (paging_init kpt p)) \<and>
   (paging_inv vpt p \<longrightarrow> paging_inv vpt (execute_paging_init pid p) \<and> paging_inv vpt (map_vidmem vpt p) \<and>
      paging_inv vpt (terminal_videopage_init p))"
  by (simp add: paging_init_inv execute_paging_inv map_vidmem_inv terminal_videopage_inv)

theorem paging_keeps_inv_witness:
  "paging_inv 0x500000 (map_vidmem 0x500000 (execute_paging_init 1 (terminal_videopage_init (paging_init 0x400000 paging_boot))))"
  using paging_keeps_inv[of paging_boot "0x500000" "0x400000" 1]
    paging_keeps_inv[of "paging_init 0x400000 paging_boot" "0x500000" "0x400000" 1]
    paging_keeps_inv[of "terminal_videopage_init (paging_init 0x400000 paging_boot)" "0x500000" "0x400000" 1]
    paging_keeps_inv[of "execute_paging_init 1 (terminal_videopage_init (paging_init 0x400000 paging_boot))"
       "0x500000" "0x400000" 1]
    paging_boot_ok by blast

text \<open>The memory map after the initialisation and any sequence of the two operations that follow it:
  \<^verbatim>\<open>Program n\<close> is \<^verbatim>\<open>execute_paging_init(n)\<close>, called with the process number and one (or 0, while the
  base shell starts again), \<^verbatim>\<open>Vidmem\<close> is \<^verbatim>\<open>map_vidmem\<close>.\<close>

datatype paging_op = Program u32 | Vidmem

primrec paging_do :: "u32 \<Rightarrow> paging_op \<Rightarrow> paging \<Rightarrow> paging" where
  "paging_do vpt (Program n) p = execute_paging_init n p"
| "paging_do vpt Vidmem p = map_vidmem vpt p"

fun last_program :: "paging_op list \<Rightarrow> u32 option" where
  "last_program [] = None"
| "last_program (Program n # ops) = (case last_program ops of None \<Rightarrow> Some n | q \<Rightarrow> q)"
| "last_program (Vidmem # ops) = last_program ops"

text \<open>A virtual address by its region, with the physical address and the user's right.\<close>

definition memory_map :: "u32 option \<Rightarrow> bool \<Rightarrow> nat \<Rightarrow> (nat \<times> bool) option" where
  "memory_map prog video va =
    (if va < 0x400000 then if 0xB8000 \<le> va \<and> va < 0xBC000 then Some (va, False) else None
     else if va < 0x800000 then Some (va, False)
     else if 0x8000000 \<le> va \<and> va < 0x8400000 then
       map_option (\<lambda>n. (0x400000 * (unat n + 1) + (va - 0x8000000), True)) prog
     else if 0xA000000 \<le> va \<and> va < 0xA001000 \<and> video then Some (0xB8000 + (va - 0xA000000), True)
     else None)"

text \<open>The contents of the tables that give this map.\<close>

definition tables_for :: "u32 \<Rightarrow> u32 \<Rightarrow> u32 option \<Rightarrow> bool \<Rightarrow> paging \<Rightarrow> bool" where
  "tables_for kpt vpt prog video p \<longleftrightarrow> paging_sized p \<and>
     kernel_page_directory p ! 0 = kernel_pde True False (ucast (drop_bit 12 kpt)) \<and>
     kernel_page_directory p ! 1 = kernel_pde True True (ucast (drop_bit 12 SIZE_4MB)) \<and>
     pd_size (kernel_page_directory p ! 32) \<and>
     (case prog of None \<Rightarrow> \<not> pd_present (kernel_page_directory p ! 32)
      | Some n \<Rightarrow> pd_present (kernel_page_directory p ! 32) \<and> pd_user (kernel_page_directory p ! 32) \<and>
          unat (table_addr (kernel_page_directory p ! 32)) = 1024 * (1 + unat n)) \<and>
     (if video then pd_present (kernel_page_directory p ! 40) \<and> pd_user (kernel_page_directory p ! 40) \<and>
        \<not> pd_size (kernel_page_directory p ! 40) \<and> table_addr (kernel_page_directory p ! 40) = ucast (drop_bit 12 vpt) \<and>
        pt_present (pagetable_video p ! 0) \<and> pt_user (pagetable_video p ! 0) \<and> page_addr (pagetable_video p ! 0) = 0xB8
      else \<not> pd_present (kernel_page_directory p ! 40)) \<and>
     (\<forall>k. k < SPACE \<longrightarrow> k \<notin> {0, 1, 32, 40} \<longrightarrow> \<not> pd_present (kernel_page_directory p ! k)) \<and>
     (\<forall>k. k < SPACE \<longrightarrow> kernel_page_table p ! k = kernel_pte (k \<in> {0xB8, 0xB9, 0xBA, 0xBB}) k) \<and>
     (\<forall>k. 0 < k \<longrightarrow> k < SPACE \<longrightarrow> \<not> pt_present (pagetable_video p ! k))"

lemma tables_init:
  assumes "paging_sized p" "\<forall>k < SPACE. \<not> pt_present (pagetable_video p ! k)"
  shows "tables_for kpt vpt None False (terminal_videopage_init (paging_init kpt p))"
proof -
  let ?q = "terminal_videopage_init (paging_init kpt p)"
  have d: "kernel_page_directory ?q = kernel_page_directory (paging_init kpt p)" "pagetable_video ?q = pagetable_video p"
    by (simp_all add: terminal_videopage_init_def set_kpte_def Let_def)
  have "kernel_page_table ?q ! k = kernel_pte (k \<in> {0xB8, 0xB9, 0xBA, 0xBB}) k" if "k < SPACE" for k
    using that paging_init_table[OF assms(1) that, of kpt] paging_init_sized[OF assms(1), of kpt]
    by (simp add: terminal_videopage_init_def set_kpte_def Let_def paging_sized_def VIDEO_ADDR_def nth_list_update SPACE_def)
  moreover have "paging_sized ?q"
    using paging_init_sized[OF assms(1), of kpt] by (simp add: terminal_videopage_init_def set_kpte_def Let_def paging_sized_def)
  ultimately show ?thesis
    using assms by (simp add: tables_for_def d paging_init_dir small_SPACE kernel_pde_def)
qed

lemma program_frame_any:
  assumes "unat n \<le> 401"
  shows "unat (word_of_int (push_bit 10 ((sint (SIZE_8MB + SIZE_4MB * (n - 1)) sdiv 4096) sdiv 1024)) :: 20 word) = 1024 * (1 + unat n)"
proof (cases "n = 0")
  case True
  have "sint (SIZE_8MB + SIZE_4MB * (0 - 1)) = 0x400000" by (simp add: paging_consts)
  moreover have "((0x400000 :: int) sdiv 4096) sdiv 1024 = 1" by (simp add: signed_divide_int_def)
  ultimately show ?thesis using True by simp
next
  case False
  then have u: "unat (n - 1) = unat n - 1" "0 < unat n" by (simp_all add: unat_minus_one unat_gt_0)
  then have "unat (n - 1) \<le> 400" using assms by simp
  then show ?thesis using program_frame[of "n - 1"] u by simp
qed

lemma tables_program:
  assumes "tables_for kpt vpt prog video p" "unat n \<le> 401"
  shows "tables_for kpt vpt (Some n) video (execute_paging_init n p)"
proof -
  have sz: "paging_sized p" using assms(1) by (simp add: tables_for_def)
  have e: "kernel_page_directory (execute_paging_init n p) ! k = (if k = 32 then (kernel_page_directory p ! 32)\<lparr>pd_present := True,
      pd_user := True, table_addr := word_of_int (push_bit 10 ((sint (SIZE_8MB + SIZE_4MB * (n - 1)) sdiv 4096) sdiv 1024))\<rparr>
      else kernel_page_directory p ! k)" if "k < SPACE" for k
    using sz that small_SPACE
    by (simp add: execute_paging_init_def Let_def flush_tlb_def set_pde_def paging_sized_def PROGRAM_IMG_PDE_INDEX_def nth_list_update)
  have t: "kernel_page_table (execute_paging_init n p) = kernel_page_table p" "pagetable_video (execute_paging_init n p) = pagetable_video p"
    "paging_sized (execute_paging_init n p)"
    using sz by (simp_all add: execute_paging_init_def Let_def flush_tlb_def set_pde_def paging_sized_def)
  show ?thesis
    using assms(1) program_frame_any[OF assms(2)] unfolding tables_for_def t
    by (simp add: e small_SPACE t(3))
qed

lemma tables_vidmem:
  assumes "tables_for kpt vpt prog video p"
  shows "tables_for kpt vpt prog True (map_vidmem vpt p)"
proof -
  have sz: "paging_sized p" using assms by (simp add: tables_for_def)
  have e: "kernel_page_directory (map_vidmem vpt p) ! k = (if k = 40 then (kernel_page_directory p ! 40)\<lparr>pd_present := True,
      pd_user := True, pd_size := False, pd_read_write := True, table_addr := ucast (drop_bit 12 vpt)\<rparr>
      else kernel_page_directory p ! k)" if "k < SPACE" for k
    using sz that small_SPACE
    by (simp add: map_vidmem_def Let_def flush_tlb_def set_pde_def paging_sized_def VMEM_PDE_INDEX_def nth_list_update)
  have v: "pagetable_video (map_vidmem vpt p) ! k = (if k = 0 then (pagetable_video p ! 0)\<lparr>pt_present := True,
      pt_user := True, pt_read_write := True, page_addr := 0xB8\<rparr> else pagetable_video p ! k)" if "k < SPACE" for k
    using sz that small_SPACE
    by (simp add: map_vidmem_def Let_def flush_tlb_def set_pde_def paging_sized_def VIDEO_ADDR_def nth_list_update)
  have t: "kernel_page_table (map_vidmem vpt p) = kernel_page_table p" "paging_sized (map_vidmem vpt p)"
    using sz by (simp_all add: map_vidmem_def Let_def flush_tlb_def set_pde_def paging_sized_def)
  show ?thesis
    using assms unfolding tables_for_def t(1) by (cases prog) (simp_all add: e v small_SPACE t(2))
qed

lemma tables_run:
  assumes "tables_for kpt vpt prog video p" "\<forall>n. Program n \<in> set ops \<longrightarrow> unat n \<le> 401"
  shows "tables_for kpt vpt (case last_program ops of None \<Rightarrow> prog | q \<Rightarrow> q) (video \<or> Vidmem \<in> set ops) (fold (paging_do vpt) ops p)"
  using assms
proof (induction ops arbitrary: p prog video)
  case (Cons a ops)
  have rest: "\<forall>n. Program n \<in> set ops \<longrightarrow> unat n \<le> 401" using Cons.prems(2) by simp
  show ?case
  proof (cases a)
    case (Program n)
    then have n: "unat n \<le> 401" using Cons.prems(2) by simp
    show ?thesis
      using Cons.IH[OF tables_program[OF Cons.prems(1) n] rest] by (cases "last_program ops") (simp_all add: Program)
  next
    case Vidmem
    then show ?thesis using Cons.IH[OF tables_vidmem[OF Cons.prems(1)] rest] by simp
  qed
qed simp

text \<open>An address by its directory and table index.\<close>

lemma address_parts:
  "va div 4096 = va div 0x400000 * 1024 + (va div 4096) mod 1024" "va = va div 4096 * 4096 + va mod 4096"
  for va :: nat
  using div_mult_mod_eq[of "va div 4096" 1024] by (simp_all add: div_mult2_eq[symmetric])

lemma tables_translate:
  assumes "tables_for kpt vpt prog video p" "ucast (drop_bit 12 kpt) \<noteq> (ucast (drop_bit 12 vpt) :: 20 word)" "va < 0x100000000"
  shows "translate kpt vpt p va = memory_map prog video va"
proof -
  let ?k = "va div 0x400000" and ?j = "(va div 4096) mod 1024"
  have k: "?k < SPACE" "?j < SPACE" using assms(3) by (simp_all add: SPACE_def)
  have parts: "va = (?k * 1024 + ?j) * 4096 + va mod 4096" using address_parts[of va] by simp
  have r: "va mod 4096 < 4096" "va = ?k * 0x400000 + va mod 0x400000" "va mod 0x400000 < 0x400000" by simp_all
  consider "?k = 0" | "?k = 1" | "?k = 32" | "?k = 40" | "?k \<notin> {0, 1, 32, 40}" by (metis insertE empty_iff)
  then show ?thesis
  proof cases
    case 1
    have "kernel_page_table p ! ?j = kernel_pte (?j \<in> {0xB8, 0xB9, 0xBA, 0xBB}) ?j"
      using assms(1) k(2) by (simp add: tables_for_def)
    moreover have "kernel_page_directory p ! ?k = kernel_pde True False (ucast (drop_bit 12 kpt))"
      using assms(1) unfolding 1 by (simp add: tables_for_def)
    moreover have "unat (of_nat ?j :: 20 word) = ?j" using k(2) by (intro unat_of_nat_small) (simp add: SPACE_def)
    moreover have va: "va = ?j * 4096 + va mod 4096" using parts 1 by simp
    moreover have "va < 0x400000" using 1 r by linarith
    moreover have "?j \<in> {0xB8, 0xB9, 0xBA, 0xBB} \<longleftrightarrow> 0xB8000 \<le> va \<and> va < 0xBC000"
    proof -
      obtain j q where jq: "va = j * 4096 + q" "q < 4096" "j = ?j" using va r(1) by blast
      have "j \<in> {0xB8, 0xB9, 0xBA, 0xBB} \<longleftrightarrow> 0xB8 \<le> j \<and> j < 0xBC" by auto
      then show ?thesis unfolding jq(3)[symmetric] using jq(1,2) by linarith
    qed
    ultimately show ?thesis
      by (simp add: translate_def Let_def pte_lookup_def memory_map_def kernel_pde_def kernel_pte_def)
  next
    case 2
    have "kernel_page_directory p ! ?k = kernel_pde True True (ucast (drop_bit 12 SIZE_4MB))"
      using assms(1) unfolding 2 by (simp add: tables_for_def)
    moreover have "unat (ucast (drop_bit 12 SIZE_4MB) :: 20 word) = 1024" by (simp add: SIZE_4MB_def)
    moreover have "va = 0x400000 + va mod 0x400000" using r(2) 2 by simp
    moreover have "\<not> va < 0x400000" "va < 0x800000" using 2 r by linarith+
    ultimately show ?thesis by (simp add: translate_def Let_def memory_map_def kernel_pde_def)
  next
    case 3
    have va: "va = 0x8000000 + va mod 0x400000" using r(2) 3 by simp
    then have "\<not> va < 0x800000" "0x8000000 \<le> va" "va < 0x8400000" "va - 0x8000000 = va mod 0x400000" using r(3) by linarith+
    then show ?thesis
      using assms(1) unfolding tables_for_def by (cases prog) (simp_all add: translate_def 3 Let_def memory_map_def)
  next
    case 4
    have va: "va = 0xA000000 + (?j * 4096 + va mod 4096)" using parts 4 by simp
    then have b: "\<not> va < 0x800000" "\<not> va < 0x8400000" "0xA000000 \<le> va" by linarith+
    have j: "va < 0xA001000 \<longleftrightarrow> ?j = 0"
    proof -
      obtain j q where jq: "va = 0xA000000 + (j * 4096 + q)" "q < 4096" "j = ?j" using va r(1) by blast
      then show ?thesis unfolding jq(3)[symmetric] using jq(1,2) by (cases j) simp_all
    qed
    have "va - 0xA000000 = va mod 4096" if "?j = 0" using va that by simp
    moreover have "\<not> pt_present (pagetable_video p ! ?j)" if "?j \<noteq> 0" using assms(1) k(2) that by (simp add: tables_for_def)
    ultimately show ?thesis
      using assms(1,2) b j unfolding tables_for_def
      by (cases video; cases "?j = 0") (simp_all add: translate_def 4 Let_def memory_map_def pte_lookup_def)
  next
    case 5
    then have "\<not> pd_present (kernel_page_directory p ! ?k)" using assms(1) k(1) by (simp add: tables_for_def)
    moreover have "\<not> va < 0x800000" "\<not> (0x8000000 \<le> va \<and> va < 0x8400000)" "\<not> (0xA000000 \<le> va \<and> va < 0xA001000)"
    proof -
      obtain i q where iq: "va = i * 0x400000 + q" "q < 0x400000" "i = ?k" using r(2,3) by blast
      then have "i \<notin> {0, 1, 32, 40}" using 5 by simp
      then have "2 \<le> i" "i < 32 \<or> 33 \<le> i" "i < 40 \<or> 41 \<le> i" by auto
      then show "\<not> va < 0x800000" "\<not> (0x8000000 \<le> va \<and> va < 0x8400000)" "\<not> (0xA000000 \<le> va \<and> va < 0xA001000)"
        using iq(1,2) by linarith+
    qed
    ultimately show ?thesis by (auto simp: translate_def Let_def memory_map_def)
  qed
qed

text \<open>C7: After paging_init, terminal_videopage_init and then any sequence of set-ups of a program
  page (execute_paging_init with an argument up to 401) and of vidmap, the walk of the processor
  over the tables gives, for every address that user code may try, exactly the memory map: the
  page at 128 MB goes to the frame at 4 MB * (n + 1) of the last n set up, the page at 160 MB
  goes to the text screen once vidmap has been called, and every other address faults (the map
  also gives the pages of the supervisor, closed to user code). For n = process number + 1 the
  frame is the one of the process; n = 0, which halt passes while the base shell restarts, is
  the frame of the kernel at 4 MB. The tables start sized and with no video page present, and
  the two page tables lie in different frames.\<close>
theorem user_access_confined:
  assumes "paging_sized p0" "\<forall>k < SPACE. \<not> pt_present (pagetable_video p0 ! k)"
    and "ucast (drop_bit 12 kpt) \<noteq> (ucast (drop_bit 12 vpt) :: 20 word)" "va < 0x100000000"
    and "\<forall>n. Program n \<in> set ops \<longrightarrow> unat n \<le> 401"
  shows "translate kpt vpt (fold (paging_do vpt) ops (terminal_videopage_init (paging_init kpt p0))) va =
    memory_map (last_program ops) (Vidmem \<in> set ops) va"
  using tables_translate[OF tables_run[OF tables_init[OF assms(1,2)] assms(5)] assms(3,4)]
  by (cases "last_program ops") simp_all

theorem user_access_confined_witness:
  "translate 0x400000 0x500000 (execute_paging_init 2 (map_vidmem 0x500000 (execute_paging_init 1
     (terminal_videopage_init (paging_init 0x400000 paging_boot))))) 0x8048000 = Some (0xC48000, True)"
  using user_access_confined[of paging_boot "0x400000" "0x500000" "0x8048000" "[Program 1, Vidmem, Program 2]"] paging_boot_ok(1)
  by (auto simp: memory_map_def paging_boot_def zero_pte_def kernel_pte_def)

text \<open>A further fact about the same definitions.\<close>
lemma program_page_mapped:
  assumes "paging_inv vpt p" "unat pid \<le> 400" "off < 0x400000"
  shows "translate kpt vpt (execute_paging_init (pid + 1) p) (0x8000000 + off) =
    Some (0x800000 + 0x400000 * unat pid + off, True)"
proof -
  have "(0x8000000 + off) div 0x400000 = 32" "(0x8000000 + off) mod 0x400000 = off"
    using assms(3) mod_mult_self3[of 32 "0x400000" off] by auto
  then show ?thesis
    using assms program_frame[OF assms(2)]
    by (simp add: translate_def Let_def execute_paging_entry paging_inv_def)
qed

theorem program_page_mapped_witness:
  "translate 0x400000 0x500000 (execute_paging_init (4 + 1) (paging_init 0x400000 paging_boot)) (0x8000000 + 0x48000) =
     Some (0x1848000, True)"
  using program_page_mapped[OF paging_init_inv[OF paging_boot_ok], of 4 "0x48000" "0x400000" "0x500000" "0x400000"]
  by simp

end
