(* ===== verification/Rtc.thy ===== *)
theory Rtc
  imports Console Pic
begin

text \<open>The real-time clock driver, \<^verbatim>\<open>student-distrib/rtc.c\<close>: programming the rate in
  register A, the interrupt handler and the wait of \<^verbatim>\<open>rtc_read\<close>.  A read of the CMOS
  data port is a byte the caller of the model supplies (\<^verbatim>\<open>prev\<close>); the interrupts that
  arrive while \<^verbatim>\<open>rtc_read\<close> spins are an explicit list.\<close>

definition RTC_IRQ :: u32 where "RTC_IRQ = 0x08"
definition RTC_PORT :: u16 where "RTC_PORT = 0x70"
definition CMOS_PORT :: u16 where "CMOS_PORT = 0x71"
definition RTC_REGA :: byte where "RTC_REGA = 0x8A"
definition RTC_REGB :: byte where "RTC_REGB = 0x8B"
definition RTC_REGC :: byte where "RTC_REGC = 0x0C"
definition SECONDARY_PIC_IRQ :: u32 where "SECONDARY_PIC_IRQ = 0x02"
definition TOP_4_BITS :: byte where "TOP_4_BITS = 0xF0"

lemmas rtc_consts = RTC_IRQ_def RTC_PORT_def CMOS_PORT_def RTC_REGA_def RTC_REGB_def RTC_REGC_def
  SECONDARY_PIC_IRQ_def TOP_4_BITS_def

text \<open>\<^verbatim>\<open>rtc_if\<close> is the processor's interrupt flag, \<^verbatim>\<open>rtc_log\<close> the bytes sent to the two
  CMOS ports, \<^verbatim>\<open>rtc_con\<close> the console the error messages go to.\<close>

record rtc =
  in_count :: u32
  rtc_if :: bool
  rtc_log :: "port_write list"
  rtc_pic :: pic
  rtc_con :: console

definition rtc_out :: "byte \<Rightarrow> u16 \<Rightarrow> rtc \<Rightarrow> rtc" where
  "rtc_out data port s = s\<lparr>rtc_log := rtc_log s @ [(port, data)]\<rparr>"

definition rtc_msg :: "string \<Rightarrow> rtc \<Rightarrow> rtc" where
  "rtc_msg t s = s\<lparr>rtc_con := kprint t (rtc_con s)\<rparr>"

definition rtc_init :: "byte \<Rightarrow> rtc \<Rightarrow> rtc" where
  "rtc_init prev s =
    (let s1 = s\<lparr>rtc_if := False\<rparr>;
         s2 = rtc_out RTC_REGB RTC_PORT s1;
         s3 = rtc_out RTC_REGB RTC_PORT s2;
         s4 = rtc_out (prev OR 0x40) CMOS_PORT s3;
         s5 = s4\<lparr>rtc_pic := enable_irq SECONDARY_PIC_IRQ (enable_irq RTC_IRQ (rtc_pic s4))\<rparr>
     in s5\<lparr>rtc_if := True\<rparr>)"

definition rtc_handler :: "rtc \<Rightarrow> rtc" where
  "rtc_handler s =
    (let s1 = s\<lparr>rtc_if := False\<rparr>;
         s2 = rtc_out RTC_REGC RTC_PORT s1;
         s3 = s2\<lparr>in_count := 1\<rparr>;
         s4 = s3\<lparr>rtc_pic := send_eoi RTC_IRQ (rtc_pic s3)\<rparr>
     in s4\<lparr>rtc_if := True\<rparr>)"

text \<open>The chain of comparisons that turns a frequency into a rate.\<close>

definition hex_rate :: "int \<Rightarrow> byte option" where
  "hex_rate freq =
    (if freq = 2 then Some 0x0F else if freq = 4 then Some 0x0E
     else if freq = 8 then Some 0x0D else if freq = 16 then Some 0x0C
     else if freq = 32 then Some 0x0B else if freq = 64 then Some 0x0A
     else if freq = 128 then Some 0x09 else if freq = 256 then Some 0x08
     else if freq = 512 then Some 0x07 else if freq = 1024 then Some 0x06
     else None)"

definition rtc_set_freq :: "byte \<Rightarrow> int \<Rightarrow> rtc \<Rightarrow> int \<times> rtc" where
  "rtc_set_freq prev freq s =
    (if freq smod 2 \<noteq> 0 then
       (- 1, rtc_msg (''Error, input frequency not divisible by 2'' @ [CHR 0x0A]) s)
     else case hex_rate freq of
       None \<Rightarrow> (- 1, s)
     | Some rate \<Rightarrow>
        (let s1 = s\<lparr>rtc_if := False\<rparr>;
             s2 = rtc_out RTC_REGA RTC_PORT s1;
             s3 = rtc_out RTC_REGA RTC_PORT s2;
             s4 = rtc_out ((prev AND TOP_4_BITS) OR rate) CMOS_PORT s3
         in (1, s4\<lparr>rtc_if := True\<rparr>)))"

text \<open>\<^verbatim>\<open>buf\<close> is \<^const>\<open>None\<close> for a null pointer and the 32-bit word it points at otherwise.\<close>

definition rtc_write :: "byte \<Rightarrow> u32 option \<Rightarrow> rtc \<Rightarrow> int \<times> rtc" where
  "rtc_write prev buf s =
    (case buf of
       None \<Rightarrow> (- 1, rtc_msg (''Null buffer passed into rtc_write!'' @ [CHR 0x0A]) s)
     | Some w \<Rightarrow>
        (let (set_freq_return, s1) = rtc_set_freq prev (sint w) s
         in if set_freq_return \<noteq> 0 then (- 1, s1) else (0, s1)))"

text \<open>The spin \<^verbatim>\<open>while (in_count == 0)\<close>: before each test of the flag an RTC interrupt
  may arrive, and is taken when the interrupt flag is set.  \<^const>\<open>None\<close>: the interrupts
  of the list are used up and the loop still spins.\<close>

fun rtc_wait :: "bool list \<Rightarrow> rtc \<Rightarrow> (rtc \<times> bool list) option" where
  "rtc_wait [] s = None"
| "rtc_wait (irq # irqs) s =
    (let s1 = (if irq \<and> rtc_if s then rtc_handler s else s)
     in if in_count s1 = 0 then rtc_wait irqs s1 else Some (s1, irqs))"

definition rtc_read :: "bool list \<Rightarrow> rtc \<Rightarrow> (int \<times> rtc \<times> bool list) option" where
  "rtc_read irqs s =
    (let saved_flags = rtc_if s;
         s1 = s\<lparr>rtc_if := False\<rparr>;
         s2 = s1\<lparr>in_count := 0\<rparr>;
         s3 = s2\<lparr>rtc_if := True\<rparr>
     in do {
       (s4, rest) \<leftarrow> rtc_wait irqs s3;
       Some (0, s4\<lparr>rtc_if := saved_flags\<rparr>, rest) })"

definition rtc_open :: "byte \<Rightarrow> rtc \<Rightarrow> int \<times> rtc" where
  "rtc_open prev s =
    (let initial_freq = 2; (open_ret, s1) = rtc_set_freq prev initial_freq s
     in if open_ret \<noteq> 0 then (- 1, rtc_msg (''RTC Open failure!'' @ [CHR 0x0A]) s1) else (0, s1))"

definition rtc_close :: "rtc \<Rightarrow> int \<times> rtc" where
  "rtc_close s = (0, s)"

section \<open>Facts\<close>

lemma hex_rate_Some:
  "hex_rate freq = Some r \<longleftrightarrow>
     (freq, r) \<in> {(2, 0x0F), (4, 0x0E), (8, 0x0D), (16, 0x0C), (32, 0x0B), (64, 0x0A),
                 (128, 0x09), (256, 0x08), (512, 0x07), (1024, 0x06)}"
  by (auto simp: hex_rate_def)

lemma hex_rate_even: "hex_rate freq = Some r \<Longrightarrow> freq smod 2 = 0"
  by (auto simp: hex_rate_Some)

lemma hex_rate_fields:
  "hex_rate freq = Some r \<Longrightarrow> r AND 0xF0 = 0 \<and> r AND 0x0F = r \<and> freq * 2 ^ (unat r - 1) = 32768"
  by (auto simp: hex_rate_Some)

text \<open>A wait that starts with the flag low ends with the first interrupt.\<close>

lemma rtc_wait_first:
  assumes "in_count s = 0" "rtc_if s"
  shows "rtc_wait (replicate n False @ True # irqs) s = Some (rtc_handler s, irqs)"
  using assms by (induction n) (simp_all add: rtc_handler_def rtc_out_def)

lemma rtc_wait_none:
  assumes "in_count s = 0"
  shows "rtc_wait (replicate n False) s = None"
  using assms by (induction n) simp_all

section \<open>Properties\<close>

text \<open>A further fact about the same definitions.\<close>
lemma rtc_set_freq_programs:
  assumes "hex_rate freq = Some r"
  shows "\<exists>b. rtc_set_freq prev freq s = (1, s\<lparr>rtc_if := True, rtc_log := rtc_log s @
            [(RTC_PORT, RTC_REGA), (RTC_PORT, RTC_REGA), (CMOS_PORT, b)]\<rparr>) \<and>
         b AND 0xF0 = prev AND 0xF0 \<and> freq * 2 ^ (unat (b AND 0x0F) - 1) = 32768"
proof (intro exI conjI)
  let ?b = "(prev AND 0xF0) OR r"
  have r: "r AND 0xF0 = 0" "r AND 0x0F = r" "freq * 2 ^ (unat r - 1) = 32768"
    using hex_rate_fields[OF assms] by simp_all
  show "rtc_set_freq prev freq s = (1, s\<lparr>rtc_if := True, rtc_log := rtc_log s @
            [(RTC_PORT, RTC_REGA), (RTC_PORT, RTC_REGA), (CMOS_PORT, ?b)]\<rparr>)"
    using hex_rate_even[OF assms] assms
    by (simp add: rtc_set_freq_def rtc_out_def rtc_consts Let_def)
  show "?b AND 0xF0 = prev AND 0xF0"
    using r(1) by (simp add: bit.conj_disj_distrib2 and.assoc)
  have "(prev AND 0xF0) AND 0x0F = 0" by (simp add: and.assoc)
  then have "?b AND 0x0F = r" using r(2) by (simp add: bit.conj_disj_distrib2)
  then show "freq * 2 ^ (unat (?b AND 0x0F) - 1) = 32768" using r(3) by simp
qed

theorem rtc_set_freq_programs_witness:
  "\<exists>b. rtc_set_freq 0x26 1024 \<lparr>in_count = 0, rtc_if = True, rtc_log = [], rtc_pic = pic_boot,
        rtc_con = \<lparr>vid = (\<lambda>_. 0), screen_x = 0, screen_y = 0, outs = []\<rparr>\<rparr> =
      (1, \<lparr>in_count = 0, rtc_if = True,
        rtc_log = [(RTC_PORT, RTC_REGA), (RTC_PORT, RTC_REGA), (CMOS_PORT, b)], rtc_pic = pic_boot,
        rtc_con = \<lparr>vid = (\<lambda>_. 0), screen_x = 0, screen_y = 0, outs = []\<rparr>\<rparr>) \<and> b AND 0xF0 = 0x20"
  using rtc_set_freq_programs[of 1024 "0x06" "0x26" "\<lparr>in_count = 0, rtc_if = True, rtc_log = [],
    rtc_pic = pic_boot, rtc_con = \<lparr>vid = (\<lambda>_. 0), screen_x = 0, screen_y = 0, outs = []\<rparr>\<rparr>"]
  by (auto simp: hex_rate_def)

text \<open>A further fact about the same definitions.\<close>
lemma rtc_set_freq_domain:
  "fst (rtc_set_freq prev freq s) = (if freq \<in> (\<lambda>k. 2 ^ k) ` {1..10} then 1 else - 1) \<and>
   (freq \<in> (\<lambda>k. 2 ^ k) ` {1..10} \<or> rtc_log (snd (rtc_set_freq prev freq s)) = rtc_log s)"
proof -
  have "{1..10::nat} = {1, 2, 3, 4, 5, 6, 7, 8, 9, 10}"
    by (simp add: atLeastAtMost_upt flip: set_upt) (simp add: upt_rec numeral_eq_Suc)
  then have dom: "freq \<in> (\<lambda>k. 2 ^ k) ` {1..10::nat} \<longleftrightarrow> (\<exists>r. hex_rate freq = Some r)"
    by (simp add: hex_rate_def)
  show ?thesis
  proof (cases "hex_rate freq")
    case None
    then have "\<not> (\<exists>r. hex_rate freq = Some r)" by simp
    then show ?thesis unfolding dom using None by (simp add: rtc_set_freq_def rtc_msg_def)
  next
    case (Some r)
    then show ?thesis unfolding dom
      using hex_rate_even[OF Some] by (simp add: rtc_set_freq_def Let_def)
  qed
qed

text \<open>A further fact about the same definitions.\<close>
lemma rtc_write_open_fail:
  "fst (rtc_write prev buf s) = - 1 \<and> fst (rtc_open prev s) = - 1"
proof -
  have "fst (rtc_set_freq prev f s) \<noteq> 0" for f
    by (simp add: rtc_set_freq_def Let_def split: option.split)
  then show ?thesis
    by (simp add: rtc_write_def rtc_open_def case_prod_unfold Let_def split: option.split)
qed

text \<open>A further fact about the same definitions.\<close>
lemma rtc_read_waits_for_tick:
  "rtc_read (replicate n False @ True # irqs) s =
     Some (0, (rtc_handler (s\<lparr>in_count := 0, rtc_if := True\<rparr>))\<lparr>rtc_if := rtc_if s\<rparr>, irqs) \<and>
   rtc_read (replicate n False) s = None"
  by (simp add: rtc_read_def Let_def rtc_wait_first rtc_wait_none)

end
