(* ===== verification/Idt.thy ===== *)
theory Idt
  imports Console
begin

text \<open>The interrupt descriptor table, \<^verbatim>\<open>student-distrib/IDT.c\<close>, with the gate layout of
  \<^verbatim>\<open>x86_desc.h\<close>.  The addresses of the assembly stubs are the argument \<^verbatim>\<open>stub\<close>.  The
  exception handlers print their name and halt the process; the call of
  \<^verbatim>\<open>system_halt\<close> is made by theory \<^verbatim>\<open>Syscall\<close>.\<close>

definition VECTOR_NUM :: nat where "VECTOR_NUM = 256"
definition SYSCALL :: nat where "SYSCALL = 0x80"
definition EXCEPTIONS_NUM :: nat where "EXCEPTIONS_NUM = 21"
definition KEYBOARD_IRQ :: nat where "KEYBOARD_IRQ = 0x21"
definition RTC_IRQ_VECTOR :: nat where "RTC_IRQ_VECTOR = 0x28"
definition KERNEL_CS :: u16 where "KERNEL_CS = 0x0010"

lemmas idt_consts = SYSCALL_def EXCEPTIONS_NUM_def KEYBOARD_IRQ_def RTC_IRQ_VECTOR_def

record idt_desc =
  offset_15_00 :: u16
  seg_selector :: u16
  reserved4 :: byte
  reserved3 :: bool
  reserved2 :: bool
  reserved1 :: bool
  gate_size :: bool
  reserved0 :: bool
  dpl :: "2 word"
  idt_present :: bool
  offset_31_16 :: u16

definition SET_IDT_ENTRY :: "nat \<Rightarrow> u32 \<Rightarrow> idt_desc list \<Rightarrow> idt_desc list" where
  "SET_IDT_ENTRY i handler t =
     t[i := (t ! i)\<lparr>offset_31_16 := ucast (drop_bit 16 (handler AND 0xFFFF0000)),
                    offset_15_00 := ucast (handler AND 0xFFFF)\<rparr>]"

text \<open>The body of the loop over all vectors.\<close>

definition init_vector :: "nat \<Rightarrow> idt_desc \<Rightarrow> idt_desc" where
  "init_vector i e0 =
    (let e1 = e0\<lparr>idt_present := False\<rparr>;
         e2 = (if i < EXCEPTIONS_NUM \<and> i \<noteq> 0x15 then e1\<lparr>idt_present := True, dpl := 0\<rparr> else e1);
         e3 = (if i = SYSCALL then e2\<lparr>dpl := 3, idt_present := True\<rparr> else e2)
     in e3\<lparr>seg_selector := KERNEL_CS, reserved0 := False, reserved1 := True, reserved2 := True,
           reserved3 := False, reserved4 := 0, gate_size := True\<rparr>)"

datatype stub =
    Divide_Error_link | RESERVED_link | NMI_Interrupt_link | Breakpoint_link | Overflow_link
  | BOUND_Range_Exceeded_link | Invalid_Opcode_link | Device_Not_Available_link | Double_Fault_link
  | Coprocessor_Segment_Overrun_link | Invalid_TSS_link | Segment_Not_Present_link
  | Stack_Segment_Fault_link | General_Protection_link | Page_Fault_link | Intel_Reserved_link
  | x87_FPU_Floating_Point_Error_link | Alignment_Check_link | Machine_Check_link
  | SIMD_Floating_Point_Exception_link | keyboard_handler_link | rtc_handler_link | syscall_handler

text \<open>The stubs set for the vectors, in the order of the calls.\<close>

definition idt_entries :: "(nat \<times> stub) list" where
  "idt_entries =
    [(0, Divide_Error_link), (1, RESERVED_link), (2, NMI_Interrupt_link), (3, Breakpoint_link),
     (4, Overflow_link), (5, BOUND_Range_Exceeded_link), (6, Invalid_Opcode_link),
     (7, Device_Not_Available_link), (8, Double_Fault_link), (9, Coprocessor_Segment_Overrun_link),
     (10, Invalid_TSS_link), (11, Segment_Not_Present_link), (12, Stack_Segment_Fault_link),
     (13, General_Protection_link), (14, Page_Fault_link), (15, Intel_Reserved_link),
     (16, x87_FPU_Floating_Point_Error_link), (17, Alignment_Check_link), (18, Machine_Check_link),
     (19, SIMD_Floating_Point_Exception_link), (20, Intel_Reserved_link)]"

definition init_IDT :: "(stub \<Rightarrow> u32) \<Rightarrow> idt_desc list \<Rightarrow> idt_desc list" where
  "init_IDT stub_addr t0 =
    (let t1 = fold (\<lambda>i t. t[i := init_vector i (t ! i)]) [0..<VECTOR_NUM] t0;
         t2 = fold (\<lambda>(i, h) t. SET_IDT_ENTRY i (stub_addr h) t) idt_entries t1;
         t3 = t2[KEYBOARD_IRQ := (t2 ! KEYBOARD_IRQ)\<lparr>idt_present := True, dpl := 0\<rparr>];
         t4 = SET_IDT_ENTRY KEYBOARD_IRQ (stub_addr keyboard_handler_link) t3;
         t5 = t4[RTC_IRQ_VECTOR := (t4 ! RTC_IRQ_VECTOR)\<lparr>idt_present := True, dpl := 0\<rparr>];
         t6 = SET_IDT_ENTRY RTC_IRQ_VECTOR (stub_addr rtc_handler_link) t5
     in SET_IDT_ENTRY SYSCALL (stub_addr syscall_handler) t6)"

text \<open>The text each exception handler prints after \<^verbatim>\<open>"Error: "\<close>.\<close>

fun exception_text :: "stub \<Rightarrow> string" where
  "exception_text Divide_Error_link = ''Divide_Error''"
| "exception_text RESERVED_link = ''RESERVED''"
| "exception_text NMI_Interrupt_link = ''NMI_Interrupt''"
| "exception_text Breakpoint_link = ''Breakpoint''"
| "exception_text Overflow_link = ''Overflow''"
| "exception_text BOUND_Range_Exceeded_link = ''BOUND_Range_Exceeded''"
| "exception_text Invalid_Opcode_link = ''Invalid_Opcode''"
| "exception_text Device_Not_Available_link = ''Device_Not_Available''"
| "exception_text Double_Fault_link = ''Double_Fault''"
| "exception_text Coprocessor_Segment_Overrun_link = ''Coprocessor_Segment_Overrun''"
| "exception_text Invalid_TSS_link = ''Invalid_TSS''"
| "exception_text Segment_Not_Present_link = ''Segment_Not_Present''"
| "exception_text Stack_Segment_Fault_link = ''Stack_Segment_Fault''"
| "exception_text General_Protection_link = ''General_Protection''"
| "exception_text Page_Fault_link = ''Page_Fault''"
| "exception_text Intel_Reserved_link = ''Intel_Reserved''"
| "exception_text x87_FPU_Floating_Point_Error_link = ''x87_FPU_Floating_Point_Error''"
| "exception_text Alignment_Check_link = ''Alignment_Check''"
| "exception_text Machine_Check_link = ''Machine_Check''"
| "exception_text SIMD_Floating_Point_Exception_link = ''SIMD_Floating_Point_Exception''"
| "exception_text _ = ''''"

definition print_exception :: "stub \<Rightarrow> console \<Rightarrow> console" where
  "print_exception h c = kprint (''Error: '' @ exception_text h @ [CHR 0x0A]) c"

section \<open>Facts\<close>

definition handler_of :: "idt_desc \<Rightarrow> u32" where
  "handler_of e = push_bit 16 (ucast (offset_31_16 e)) OR ucast (offset_15_00 e)"

text \<open>A vector user code may raise with \<^verbatim>\<open>int\<close>.\<close>

definition user_callable :: "idt_desc \<Rightarrow> bool" where
  "user_callable e \<longleftrightarrow> idt_present e \<and> dpl e = 3"

lemma halves: "push_bit 16 (ucast (ucast (drop_bit 16 (h AND 0xFFFF0000)) :: u16)) OR
    ucast (ucast (h AND 0xFFFF) :: u16) = h" for h :: u32
proof (rule bit_word_eqI)
  fix n assume n: "n < LENGTH(32)"
  have m: "0xFFFF = (mask 16 :: u32)" "0xFFFF0000 = (push_bit 16 (mask 16) :: u32)"
    by (simp_all add: mask_eq_exp_minus_1 push_bit_eq_mult)
  show "bit (push_bit 16 (ucast (ucast (drop_bit 16 (h AND 0xFFFF0000)) :: u16)) OR
    ucast (ucast (h AND 0xFFFF) :: u16) :: u32) n = bit h n"
    unfolding m using n by (auto simp: bit_simps)
qed

lemma handler_of_set:
  "i < length t \<Longrightarrow> handler_of (SET_IDT_ENTRY i h t ! i) = h"
proof -
  assume "i < length t"
  then have "handler_of (SET_IDT_ENTRY i h t ! i) =
      push_bit 16 (ucast (ucast (drop_bit 16 (h AND 0xFFFF0000)) :: u16)) OR ucast (ucast (h AND 0xFFFF) :: u16)"
    unfolding SET_IDT_ENTRY_def handler_of_def nth_list_update_eq by simp
  then show ?thesis by (simp only: halves)
qed

lemma SET_IDT_ENTRY_other [simp]: "i \<noteq> k \<Longrightarrow> SET_IDT_ENTRY i h t ! k = t ! k"
  by (simp add: SET_IDT_ENTRY_def)

lemma SET_IDT_ENTRY_flags [simp]:
  "length (SET_IDT_ENTRY i h t) = length t"
  "k < length t \<Longrightarrow> idt_present (SET_IDT_ENTRY i h t ! k) = idt_present (t ! k)"
  "k < length t \<Longrightarrow> dpl (SET_IDT_ENTRY i h t ! k) = dpl (t ! k)"
  "k < length t \<Longrightarrow> reserved3 (SET_IDT_ENTRY i h t ! k) = reserved3 (t ! k)"
  "k < length t \<Longrightarrow> seg_selector (SET_IDT_ENTRY i h t ! k) = seg_selector (t ! k)"
  by (cases "i = k"; simp add: SET_IDT_ENTRY_def)+

lemma fold_set_entries:
  "length (fold (\<lambda>(i, h) t. SET_IDT_ENTRY i (g h) t) es t) = length t \<and>
   (k < length t \<longrightarrow>
     idt_present (fold (\<lambda>(i, h) t. SET_IDT_ENTRY i (g h) t) es t ! k) = idt_present (t ! k) \<and>
     dpl (fold (\<lambda>(i, h) t. SET_IDT_ENTRY i (g h) t) es t ! k) = dpl (t ! k) \<and>
     reserved3 (fold (\<lambda>(i, h) t. SET_IDT_ENTRY i (g h) t) es t ! k) = reserved3 (t ! k) \<and>
     seg_selector (fold (\<lambda>(i, h) t. SET_IDT_ENTRY i (g h) t) es t ! k) = seg_selector (t ! k))"
  by (induction es arbitrary: t) (auto split: prod.splits)

lemma fold_set_handler:
  "k < length t \<Longrightarrow> distinct (map fst es) \<Longrightarrow> (k, h) \<in> set es \<Longrightarrow>
   handler_of (fold (\<lambda>(i, h) t. SET_IDT_ENTRY i (g h) t) es t ! k) = g h"
proof (induction es arbitrary: t)
  case (Cons e es)
  have keep: "k \<notin> fst ` set es' \<Longrightarrow> fold (\<lambda>(i, h) t. SET_IDT_ENTRY i (g h) t) es' t' ! k = t' ! k" for es' t'
    by (induction es' arbitrary: t') auto
  show ?case
  proof (cases "e = (k, h)")
    case True
    with Cons.prems have "k \<notin> fst ` set es" by auto
    with True Cons.prems keep show ?thesis by (simp add: handler_of_set)
  next
    case False
    with Cons.prems have "(k, h) \<in> set es" by auto
    with Cons.IH Cons.prems show ?thesis by (auto split: prod.splits)
  qed
qed simp

lemma fold_init_vector:
  "m \<le> length t \<Longrightarrow> length (fold (\<lambda>i t. t[i := init_vector i (t ! i)]) [0..<m] t) = length t \<and>
   (k < length t \<longrightarrow> fold (\<lambda>i t. t[i := init_vector i (t ! i)]) [0..<m] t ! k =
      (if k < m then init_vector k (t ! k) else t ! k))"
  by (induction m) (auto simp: nth_list_update less_Suc_eq)

text \<open>What every vector of the initialised table is.\<close>

definition handler_for :: "nat \<Rightarrow> stub option" where
  "handler_for k = (if k = KEYBOARD_IRQ then Some keyboard_handler_link
     else if k = RTC_IRQ_VECTOR then Some rtc_handler_link
     else if k = SYSCALL then Some syscall_handler else map_of idt_entries k)"

lemma idt_entries_keys: "distinct (map fst idt_entries)" "set (map fst idt_entries) = {0..20}"
proof -
  show "distinct (map fst idt_entries)" by (simp add: idt_entries_def)
  have "map fst idt_entries = [0..<21]" by (simp add: idt_entries_def upt_rec)
  then show "set (map fst idt_entries) = {0..20}" by (simp only: set_upt) auto
qed

lemma init_IDT_entry:
  assumes "length t = VECTOR_NUM" "k < VECTOR_NUM"
  shows "idt_present (init_IDT g t ! k) = (handler_for k \<noteq> None) \<and>
    (handler_for k \<noteq> None \<longrightarrow> dpl (init_IDT g t ! k) = (if k = SYSCALL then 3 else 0)) \<and>
    seg_selector (init_IDT g t ! k) = KERNEL_CS \<and> reserved3 (init_IDT g t ! k) = False"
proof -
  define t1 where "t1 = fold (\<lambda>i t. t[i := init_vector i (t ! i)]) [0..<VECTOR_NUM] t"
  define t2 where "t2 = fold (\<lambda>(i, h) t. SET_IDT_ENTRY i (g h) t) idt_entries t1"
  have l1: "length t1 = VECTOR_NUM" and t1: "t1 ! k = init_vector k (t ! k)"
    using fold_init_vector[of VECTOR_NUM t k] assms by (simp_all add: t1_def)
  have l2: "length t2 = VECTOR_NUM"
    and t2: "idt_present (t2 ! k) = idt_present (t1 ! k)" "dpl (t2 ! k) = dpl (t1 ! k)"
      "reserved3 (t2 ! k) = reserved3 (t1 ! k)" "seg_selector (t2 ! k) = seg_selector (t1 ! k)"
    using fold_set_entries[where es = idt_entries and g = g and t = t1 and k = k] l1 assms by (simp_all add: t2_def)
  have small: "SYSCALL < VECTOR_NUM" "KEYBOARD_IRQ < VECTOR_NUM" "RTC_IRQ_VECTOR < VECTOR_NUM"
    by (simp_all add: idt_consts VECTOR_NUM_def)
  have keys: "map_of idt_entries k = None \<longleftrightarrow> 21 \<le> k"
    using idt_entries_keys(2) by (auto simp: map_of_eq_None_iff)
  have IDT: "init_IDT g t = SET_IDT_ENTRY SYSCALL (g syscall_handler) (SET_IDT_ENTRY RTC_IRQ_VECTOR (g rtc_handler_link)
    ((SET_IDT_ENTRY KEYBOARD_IRQ (g keyboard_handler_link) (t2[KEYBOARD_IRQ := (t2 ! KEYBOARD_IRQ)\<lparr>idt_present := True, dpl := 0\<rparr>]))
     [RTC_IRQ_VECTOR := (SET_IDT_ENTRY KEYBOARD_IRQ (g keyboard_handler_link)
        (t2[KEYBOARD_IRQ := (t2 ! KEYBOARD_IRQ)\<lparr>idt_present := True, dpl := 0\<rparr>]) ! RTC_IRQ_VECTOR)
        \<lparr>idt_present := True, dpl := 0\<rparr>]))"
    by (simp add: init_IDT_def Let_def t1_def t2_def)
  consider "k = KEYBOARD_IRQ" | "k = RTC_IRQ_VECTOR" | "k \<noteq> KEYBOARD_IRQ" "k \<noteq> RTC_IRQ_VECTOR" by blast
  then show ?thesis
  proof cases
    case 1 then show ?thesis using l2 small t2 t1
      by (simp add: IDT idt_consts handler_for_def init_vector_def)
  next
    case 2 then show ?thesis using l2 small t2 t1
      by (simp add: IDT idt_consts handler_for_def init_vector_def)
  next
    case 3 then show ?thesis using l2 small t2 t1 assms(2) keys
      by (auto simp: IDT idt_consts handler_for_def init_vector_def)
  qed
qed

lemma init_IDT_handler:
  assumes "length t = VECTOR_NUM" "k < VECTOR_NUM" "handler_for k = Some h"
  shows "handler_of (init_IDT g t ! k) = g h"
proof -
  define t1 where "t1 = fold (\<lambda>i t. t[i := init_vector i (t ! i)]) [0..<VECTOR_NUM] t"
  define t2 where "t2 = fold (\<lambda>(i, h) t. SET_IDT_ENTRY i (g h) t) idt_entries t1"
  have l1: "length t1 = VECTOR_NUM" using fold_init_vector[of VECTOR_NUM t] assms by (simp add: t1_def)
  have l2: "length t2 = VECTOR_NUM"
    using fold_set_entries[where es = idt_entries and g = g and t = t1] l1 by (simp add: t2_def)
  have upd: "handler_of (t'[i := (t' ! i)\<lparr>idt_present := True, dpl := 0\<rparr>] ! k) = handler_of (t' ! k)" for t' i
    by (cases "i = k"; cases "i < length t'") (simp_all add: handler_of_def list_update_beyond)
  have cases: "handler_of (init_IDT g t ! k) =
    (if k = SYSCALL then g syscall_handler else if k = RTC_IRQ_VECTOR then g rtc_handler_link
     else if k = KEYBOARD_IRQ then g keyboard_handler_link else handler_of (t2 ! k))"
    using assms(2) l2 by (simp add: init_IDT_def Let_def t1_def[symmetric] t2_def[symmetric] handler_of_set upd)
  consider "k \<in> {KEYBOARD_IRQ, RTC_IRQ_VECTOR, SYSCALL}" | "k \<notin> {KEYBOARD_IRQ, RTC_IRQ_VECTOR, SYSCALL}" by blast
  then show ?thesis
  proof cases
    case 1 with assms(3) show ?thesis by (auto simp: cases handler_for_def idt_consts)
  next
    case 2
    with assms(3) have "map_of idt_entries k = Some h" by (auto simp: handler_for_def)
    then have "(k, h) \<in> set idt_entries" by (rule map_of_SomeD)
    then have "handler_of (t2 ! k) = g h"
      unfolding t2_def using l1 assms(2) idt_entries_keys(1) by (intro fold_set_handler) auto
    with 2 show ?thesis by (simp add: cases)
  qed
qed

section \<open>Properties\<close>

text \<open>A further fact about the same definitions.\<close>
lemma init_IDT_gates:
  assumes "length t = 256" "k < 256"
  shows "idt_present (init_IDT g t ! k) = (handler_for k \<noteq> None) \<and>
    user_callable (init_IDT g t ! k) = (k = 0x80) \<and>
    (\<forall>h. handler_for k = Some h \<longrightarrow> handler_of (init_IDT g t ! k) = g h)"
proof -
  have a: "length t = VECTOR_NUM" "k < VECTOR_NUM" using assms by (simp_all add: VECTOR_NUM_def)
  have "handler_for 0x80 = Some syscall_handler" by (simp add: handler_for_def idt_consts)
  then show ?thesis
    using init_IDT_entry[OF a, of g] init_IDT_handler[OF a]
    by (auto simp: user_callable_def SYSCALL_def split: if_splits)
qed

theorem init_IDT_gates_witness:
  "handler_of (init_IDT (\<lambda>h. if h = Page_Fault_link then 0xDEADBEEF else 0)
     (replicate 256 \<lparr>offset_15_00 = 0, seg_selector = 0, reserved4 = 0, reserved3 = False, reserved2 = False,
        reserved1 = False, gate_size = False, reserved0 = False, dpl = 0, idt_present = False, offset_31_16 = 0\<rparr>) ! 14)
   = 0xDEADBEEF"
proof -
  have "handler_for 14 = Some Page_Fault_link"
    by (simp add: handler_for_def idt_consts idt_entries_def)
  then show ?thesis
    using init_IDT_gates[of "replicate 256 \<lparr>offset_15_00 = 0, seg_selector = 0, reserved4 = 0, reserved3 = False,
        reserved2 = False, reserved1 = False, gate_size = False, reserved0 = False, dpl = 0, idt_present = False,
        offset_31_16 = 0\<rparr>" 14 "\<lambda>h. if h = Page_Fault_link then 0xDEADBEEF else 0"] by simp
qed

end
