(* ===== verification/Syscall.thy ===== *)
theory Syscall
  imports Filesystem Terminal Paging Rtc Idt
begin

text \<open>The system calls, \<^verbatim>\<open>student-distrib/syscall.c\<close>.  The kernel state extends the
  terminals' state by the processes.  Process control blocks live at the addresses
  \<^verbatim>\<open>find_PCB\<close> computes, so \<^verbatim>\<open>pcbs\<close> is a map from addresses.  Memory is split as paging
  splits it: the program page at 128 MB shows the frame its directory entry names
  (\<^verbatim>\<open>frames\<close>), everything else is \<^verbatim>\<open>kmem\<close>.  A call that leaves the kernel by \<^verbatim>\<open>iret\<close> or
  by unwinding to another process' frame is a value of \<^verbatim>\<open>control\<close>.\<close>

definition END_OF_KERNEL_PAGE :: int where "END_OF_KERNEL_PAGE = 0x800000"
definition KERNEL_STACK_SIZE :: int where "KERNEL_STACK_SIZE = 0x2000"
definition MAX_PROCESSES :: nat where "MAX_PROCESSES = 5"
definition ASSIGN_PID_ERROR :: int where "ASSIGN_PID_ERROR = - 99"
definition PROGRAM_IMG_VIRT_ADDR :: nat where "PROGRAM_IMG_VIRT_ADDR = 0x08048000"
definition IMG_BIG_START :: nat where "IMG_BIG_START = 0x8000000"
definition PAGESIZE_4MB :: nat where "PAGESIZE_4MB = 0x400000"
definition USER_VMEM_ADDR :: u32 where "USER_VMEM_ADDR = 0x0a000000"
definition KERNEL_DS :: u16 where "KERNEL_DS = 0x0018"
definition FILE_DESC_START_IDX :: int where "FILE_DESC_START_IDX = 2"
definition MAX_FILE_DESC_IDX :: int where "MAX_FILE_DESC_IDX = 8"

lemmas sys_consts = END_OF_KERNEL_PAGE_def KERNEL_STACK_SIZE_def MAX_PROCESSES_def
  ASSIGN_PID_ERROR_def FILE_DESC_START_IDX_def MAX_FILE_DESC_IDX_def

section \<open>State\<close>

text \<open>Besides the globals of the C code: what the world will supply (scan codes, clock
  interrupts, the byte read from the CMOS) and the fixed addresses of the program.\<close>

record kernel = tstate +
  kmem :: mem
  frames :: "20 word \<Rightarrow> mem"
  kfs :: fsys
  kpaging :: paging
  pcbs :: "int \<Rightarrow> pcb"
  pcb_obj :: int
  pid :: int
  parent_pid :: int
  tss_ss0 :: u16
  tss_esp0_reg :: u32
  clock_count :: u32
  int_flag :: bool
  cmos_log :: "port_write list"
  keys_in :: "byte list"
  ticks_in :: "bool list"
  cmos_byte :: byte

datatype control =
    Ret int                 \<comment> \<open>the C function returns\<close>
  | Iret u32 u32            \<comment> \<open>to user code: instruction and stack pointer\<close>
  | Unwind u32 u32 u32      \<comment> \<open>to a saved kernel frame: ebp, esp, eax\<close>

text \<open>Virtual memory as the kernel sees it now, and writing it back.\<close>

definition cur_frame :: "kernel \<Rightarrow> 20 word" where
  "cur_frame k = table_addr (kernel_page_directory (kpaging k) ! PROGRAM_IMG_PDE_INDEX)"

definition in_program_page :: "nat \<Rightarrow> bool" where
  "in_program_page a \<longleftrightarrow> 0x8000000 \<le> a \<and> a < 0x8400000"

definition view :: "kernel \<Rightarrow> mem" where
  "view k = (\<lambda>a. if in_program_page a then frames k (cur_frame k) (a - 0x8000000) else kmem k a)"

definition set_view :: "mem \<Rightarrow> kernel \<Rightarrow> kernel" where
  "set_view m k =
    k\<lparr>kmem := (\<lambda>a. if in_program_page a then kmem k a else m a),
      frames := (frames k)(cur_frame k := (\<lambda>o'. if o' < 0x400000 then m (o' + 0x8000000) else frames k (cur_frame k) o'))\<rparr>"

definition kprintk :: "string \<Rightarrow> kernel \<Rightarrow> kernel" where
  "kprintk t k = k\<lparr>con := kprint t (con k)\<rparr>"

text \<open>The block \<^verbatim>\<open>pcb_obj\<close> points at, and \<^verbatim>\<open>read_data\<close> on the kernel state.\<close>

definition cur_pcb :: "kernel \<Rightarrow> pcb" where "cur_pcb k = pcbs k (pcb_obj k)"

definition upd_pcb :: "(pcb \<Rightarrow> pcb) \<Rightarrow> kernel \<Rightarrow> kernel" where
  "upd_pcb g k = k\<lparr>pcbs := (pcbs k)(pcb_obj k := g (pcbs k (pcb_obj k)))\<rparr>"

definition k_read_data :: "u32 \<Rightarrow> u32 \<Rightarrow> nat \<Rightarrow> u32 \<Rightarrow> kernel \<Rightarrow> int \<times> kernel" where
  "k_read_data ino offset buf len k =
    (let (r, m, c) = read_data (kfs k) ino offset buf len (view k, con k)
     in (r, set_view m (k\<lparr>con := c\<rparr>)))"

section \<open>Helpers\<close>

definition find_PCB :: "int \<Rightarrow> int" where
  "find_PCB p = END_OF_KERNEL_PAGE - KERNEL_STACK_SIZE * (p + 1)"

fun assign_scan :: "(int \<Rightarrow> pcb) \<Rightarrow> nat \<Rightarrow> nat \<Rightarrow> int option" where
  "assign_scan ps i 0 = None"
| "assign_scan ps i (Suc n) =
     (if active (ps (find_PCB (int i))) = 0 then Some (int i) else assign_scan ps (i + 1) n)"

definition assign_PID :: "kernel \<Rightarrow> int \<times> kernel" where
  "assign_PID k =
    (case assign_scan (pcbs k) 0 MAX_PROCESSES of
       Some i \<Rightarrow> (i, k)
     | None \<Rightarrow> (ASSIGN_PID_ERROR, kprintk (''assign_PID: Maximum processes running!'' @ [CHR 0x0A]) k))"

section \<open>system_execute\<close>

text \<open>Splitting the command: characters other than a space keep their position in
  \<^verbatim>\<open>fname\<close>; every space moves the start of the arguments behind it.  Without a space
  \<^verbatim>\<open>arg_starting_index\<close> keeps its uninitialised value, the argument \<^verbatim>\<open>start\<close>.\<close>

fun split_loop :: "byte list \<Rightarrow> nat \<Rightarrow> byte list \<Rightarrow> int \<Rightarrow> byte list \<times> int" where
  "split_loop [] i fname start = (fname, start)"
| "split_loop (c # cs) i fname start =
     (if c \<noteq> 0x20 then split_loop cs (i + 1) (fname[i := c]) start
      else split_loop cs (i + 1) fname (int i + 1))"

text \<open>Copying the arguments: \<^verbatim>\<open>n\<close> rounds are left, \<^verbatim>\<open>it\<close> is \<^verbatim>\<open>argument_iterator\<close>.\<close>

fun arg_loop :: "mem \<Rightarrow> nat \<Rightarrow> int \<Rightarrow> nat \<Rightarrow> int \<Rightarrow> nat \<Rightarrow> byte list \<Rightarrow> byte list option" where
  "arg_loop m command len i it 0 args = Some args"
| "arg_loop m command len i it (Suc n) args =
     (if it < len then do {
        args1 \<leftarrow> wr args i (m (nat (int command + it)));
        arg_loop m command len (i + 1) (it + 1) n args1 }
      else Some args)"

text \<open>The result: \<^const>\<open>None\<close> inside for the early \<^verbatim>\<open>return -1\<close>.\<close>

definition exec_parse :: "int \<Rightarrow> mem \<Rightarrow> nat \<Rightarrow> (byte list \<times> byte list) option option" where
  "exec_parse garbage m command =
    (if command = 0 then Some None
     else do {
       cmd_strlen \<leftarrow> strlen m command;
       if cmd_strlen > NUM_CHARS_KB then Some None
       else do {
         let (fname, start) = split_loop (bytes_of m command cmd_strlen) 0 (replicate NUM_CHARS_KB 0) garbage;
         args \<leftarrow> arg_loop m command (int cmd_strlen) 0 start (nat (int cmd_strlen - start)) (replicate NUM_CHARS_KB 0);
         Some (Some (fname, args)) } })"

text \<open>The locals live on the kernel stack from address \<^verbatim>\<open>stk\<close>: \<^verbatim>\<open>fname\<close>, \<^verbatim>\<open>args\<close>, \<^verbatim>\<open>file_bytes\<close>
  and \<^verbatim>\<open>program_img_starting_addr\<close>.\<close>

definition exec_locals :: "nat \<Rightarrow> byte list \<Rightarrow> byte list \<Rightarrow> kernel \<Rightarrow> kernel" where
  "exec_locals stk fname args k = set_view (put_bytes (view k) stk (fname @ args)) k"

text \<open>The ELF check reads four bytes and compares them with the magic number.\<close>

definition exec_is_elf :: "nat \<Rightarrow> u32 \<Rightarrow> kernel \<Rightarrow> bool \<times> kernel" where
  "exec_is_elf stk file_inode k =
    (let (r, k1) = k_read_data file_inode 0 (stk + 256) 4 k
     in (r = 4 \<and> bytes_of (view k1) (stk + 256) 4 = [0x7f, 0x45, 0x4c, 0x46], k1))"

text \<open>Assigning the process number and filling its control block up to the arguments.
  \<^verbatim>\<open>parent\<close> is the local \<^verbatim>\<open>parent_pid\<close>, which hides the global of the same name.  The
  arguments are copied by \<^verbatim>\<open>strncpy\<close> (lemma \<^verbatim>\<open>strncpy_padded\<close>).\<close>

definition exec_new_pcb :: "nat \<Rightarrow> int \<Rightarrow> kernel \<Rightarrow> kernel" where
  "exec_new_pcb stk parent k =
    (let k1 = k\<lparr>pcb_obj := find_PCB (pid k)\<rparr>;
         k2 = upd_pcb (\<lambda>p. p\<lparr>pcb_pid := pid k\<rparr>) k1;
         k3 = upd_pcb (\<lambda>p. p\<lparr>pcb_parent := (if pid k = 0 then - 1 else parent)\<rparr>) k2;
         k4 = upd_pcb (\<lambda>p. p\<lparr>active := 1\<rparr>) k3
     in upd_pcb (\<lambda>p. p\<lparr>pargs := padded_name 32 (bytes_of (view k4) (stk + 128) 32)\<rparr>) k4)"

definition k_execute_paging :: "int \<Rightarrow> kernel \<Rightarrow> kernel" where
  "k_execute_paging n k = k\<lparr>kpaging := execute_paging_init (word_of_int n) (kpaging k)\<rparr>"

definition closed_fd :: "file_descriptor \<Rightarrow> file_descriptor" where
  "closed_fd d = d\<lparr>fop := Some Null_ops, inode_idx := 0, file_position := 0, flags := 0\<rparr>"

text \<open>The descriptor table of a new process: everything closed, then the two streams.\<close>

definition exec_fda :: "file_descriptor list \<Rightarrow> file_descriptor list" where
  "exec_fda l =
    (let l1 = map closed_fd l;
         l2 = l1[0 := (l1 ! 0)\<lparr>fop := Some Stdin_ops, fd_type := 3, flags := 1\<rparr>]
     in l2[1 := (l2 ! 1)\<lparr>fop := Some Stdout_ops, fd_type := 3, flags := 1\<rparr>])"

definition exec_context :: "u32 \<Rightarrow> u32 \<Rightarrow> kernel \<Rightarrow> kernel" where
  "exec_context esp ebp k =
    (let k1 = upd_pcb (\<lambda>p. p\<lparr>fda := exec_fda (fda p)\<rparr>) k;
         k2 = k1\<lparr>tss_ss0 := KERNEL_DS, tss_esp0_reg := word_of_int (find_PCB (pid k1 - 1) - 4)\<rparr>;
         k3 = upd_pcb (\<lambda>p. p\<lparr>tss_esp0 := tss_esp0_reg k2\<rparr>) k2
     in upd_pcb (\<lambda>p. p\<lparr>ebp_val := ebp, esp_val := esp\<rparr>) k3)"

definition exec_enter :: "nat \<Rightarrow> u32 \<Rightarrow> kernel \<Rightarrow> control \<times> kernel" where
  "exec_enter stk file_inode k =
    (let user_esp = 0x8000000 + 0x400000 - 4;
         (r, k1) = k_read_data file_inode 24 (stk + 260) 4 k;
         user_eip = le32 (view k1) (stk + 260)
     in (Iret user_eip user_esp, k1\<lparr>int_flag := True\<rparr>))"

text \<open>From the file found to the context switch.\<close>

definition exec_load :: "nat \<Rightarrow> u32 \<Rightarrow> u32 \<Rightarrow> int \<Rightarrow> u32 \<Rightarrow> u32 \<Rightarrow> kernel \<Rightarrow> control \<times> kernel" where
  "exec_load stk esp ebp parent file_inode file_length k =
    (let (is_elf, k1) = exec_is_elf stk file_inode k
     in if \<not> is_elf then (Ret (- 1), k1)
        else
         (let (p, k2) = assign_PID k1; k3 = k2\<lparr>pid := p\<rparr>
          in if p = ASSIGN_PID_ERROR then (Ret (- 1), kprintk ''Maximum number of processes running!'' k3)
             else
              (let k4 = k_execute_paging (pid k3 + 1) (exec_new_pcb stk parent k3);
                   (r, k5) = k_read_data file_inode 0 PROGRAM_IMG_VIRT_ADDR file_length k4
               in if (word_of_int r :: u32) \<noteq> file_length then (Ret (- 1), k5)
                  else exec_enter stk file_inode (exec_context esp ebp k5))))"

definition system_execute ::
    "int \<Rightarrow> nat \<Rightarrow> u32 \<Rightarrow> u32 \<Rightarrow> nat \<Rightarrow> kernel \<Rightarrow> (control \<times> kernel) option" where
  "system_execute garbage stk esp ebp command k = do {
     let parent = pid k;
     parsed \<leftarrow> exec_parse garbage (view k) command;
     case parsed of
       None \<Rightarrow> Some (Ret (- 1), k)
     | Some (fname, args) \<Rightarrow> do {
         let k1 = exec_locals stk fname args k;
         found \<leftarrow> read_dentry_by_name (view k1) (kfs k1) stk;
         case found of
           None \<Rightarrow> Some (Ret (- 1), k1)
         | Some d \<Rightarrow>
             Some (exec_load stk esp ebp parent (inode_num d)
                     (inode_length (view k1) (kfs k1) (inode_num d)) k1) } }"

section \<open>system_halt\<close>

text \<open>Clearing the current block, in both branches of \<^verbatim>\<open>system_halt\<close>.\<close>

definition halt_clear_pcb :: "kernel \<Rightarrow> kernel" where
  "halt_clear_pcb = upd_pcb (\<lambda>p. p\<lparr>active := 0, ebp_val := 0, esp_val := 0, tss_esp0 := 0,
     pargs := replicate 32 0\<rparr>)"

text \<open>Restarting the base shell; \<^verbatim>\<open>shell\<close> is the address of the string \<^verbatim>\<open>"shell"\<close>.\<close>

definition halt_restart ::
    "int \<Rightarrow> nat \<Rightarrow> u32 \<Rightarrow> u32 \<Rightarrow> nat \<Rightarrow> kernel \<Rightarrow> (control \<times> kernel) option" where
  "halt_restart garbage stk esp ebp shell k =
    (let k1 = halt_clear_pcb k;
         k2 = k1\<lparr>tss_ss0 := KERNEL_DS, tss_esp0_reg := 0x800000 - 4\<rparr>;
         k3 = k_execute_paging 0 k2;
         k4 = upd_pcb (\<lambda>p. p\<lparr>fda := map (\<lambda>d. d\<lparr>flags := 0\<rparr>) (fda p)\<rparr>) k3
     in system_execute garbage stk esp ebp shell k4)"

definition halt_status :: "byte \<Rightarrow> u32" where
  "halt_status status = (if status = 255 then ucast status + 1 else ucast status)"

text \<open>Back to the parent: \<^verbatim>\<open>ebp\<close> and \<^verbatim>\<open>esp\<close> were read from the block before it was cleared.\<close>

definition halt_to_parent :: "byte \<Rightarrow> u32 \<Rightarrow> u32 \<Rightarrow> kernel \<Rightarrow> control \<times> kernel" where
  "halt_to_parent status ebp esp k =
    (let parent_process = find_PCB (pcb_parent (cur_pcb k));
         k1 = halt_clear_pcb k;
         par = pcb_parent (cur_pcb k1);
         k2 = k1\<lparr>tss_ss0 := KERNEL_DS, tss_esp0_reg := word_of_int (0x800000 - 0x2000 * par - 4)\<rparr>;
         k3 = k_execute_paging (par + 1) k2;
         k4 = upd_pcb (\<lambda>p. p\<lparr>fda := map closed_fd (fda p)\<rparr>) k3;
         k5 = k4\<lparr>pid := pcb_parent (cur_pcb k4)\<rparr>;
         k6 = k5\<lparr>parent_pid := pcb_parent (pcbs k5 parent_process)\<rparr>;
         k7 = k6\<lparr>pcb_obj := parent_process\<rparr>
     in (Unwind ebp esp (halt_status status), k7\<lparr>int_flag := True\<rparr>))"

definition system_halt ::
    "int \<Rightarrow> nat \<Rightarrow> u32 \<Rightarrow> u32 \<Rightarrow> nat \<Rightarrow> byte \<Rightarrow> kernel \<Rightarrow> (control \<times> kernel) option" where
  "system_halt garbage stk esp ebp shell status k0 =
    (let k = k0\<lparr>int_flag := False\<rparr>;
         ebp_saved = ebp_val (cur_pcb k); esp_saved = esp_val (cur_pcb k)
     in if pid k = 0 \<and> pcb_parent (cur_pcb k) = - 1 then
          do {
            (c, k1) \<leftarrow> halt_restart garbage stk esp ebp shell k;
            case c of Ret r \<Rightarrow> Some (halt_to_parent status ebp_saved esp_saved k1) | _ \<Rightarrow> Some (c, k1) }
        else Some (halt_to_parent status ebp_saved esp_saved k))"

text \<open>An exception handler of \<^verbatim>\<open>IDT.c\<close>.\<close>

definition handle_exception ::
    "int \<Rightarrow> nat \<Rightarrow> u32 \<Rightarrow> u32 \<Rightarrow> nat \<Rightarrow> stub \<Rightarrow> kernel \<Rightarrow> (control \<times> kernel) option" where
  "handle_exception garbage stk esp ebp shell h k =
     system_halt garbage stk esp ebp shell 255 (k\<lparr>con := print_exception h (con k)\<rparr>)"

section \<open>Files: open, close, read, write\<close>

text \<open>The three loops of \<^verbatim>\<open>system_open\<close> differ in the table and type they store.\<close>

fun open_scan :: "file_descriptor list \<Rightarrow> int \<Rightarrow> nat \<Rightarrow> int option" where
  "open_scan l fd 0 = None"
| "open_scan l fd (Suc n) = (if flags (l ! nat fd) = 0 then Some fd else open_scan l (fd + 1) n)"

definition open_fd :: "fop_table \<Rightarrow> u32 \<Rightarrow> u32 \<Rightarrow> kernel \<Rightarrow> int option \<times> kernel" where
  "open_fd tab ty ino k =
    (case open_scan (fda (cur_pcb k)) FILE_DESC_START_IDX (nat (MAX_FILE_DESC_IDX - FILE_DESC_START_IDX)) of
       None \<Rightarrow> (None, k)
     | Some fd \<Rightarrow>
        (Some fd, upd_pcb (\<lambda>p. p\<lparr>fda := (fda p)[nat fd := \<lparr>fop = Some tab, inode_idx = ino, file_position = 0,
            flags = 1, fd_type = ty\<rparr>]\<rparr>) k))"

definition system_open :: "nat \<Rightarrow> kernel \<Rightarrow> (int \<times> kernel) option" where
  "system_open filename k = do {
     found \<leftarrow> read_dentry_by_name (view k) (kfs k) filename;
     case found of
       None \<Rightarrow> Some (- 1, k)
     | Some d \<Rightarrow>
        (let (r, k1) =
           (if file_type d = 0 then open_fd Rtc_ops 0 (inode_num d) k
            else if file_type d = 1 then open_fd Directories_ops 1 (inode_num d) k
            else if file_type d = 2 then open_fd Files_ops 2 (inode_num d) k
            else (None, k))
         in case r of Some fd \<Rightarrow> Some (fd, k1) | None \<Rightarrow> Some (- 1, k1)) }"

text \<open>The kernel state as the environment of the file operations, and back.\<close>

definition k_fenv :: "kernel \<Rightarrow> fenv" where "k_fenv k = (cur_pcb k, view k, con k)"

definition from_fenv :: "fenv \<Rightarrow> kernel \<Rightarrow> kernel" where
  "from_fenv e k = (case e of (p, m, c) \<Rightarrow> set_view m (upd_pcb (\<lambda>_. p) (k\<lparr>con := c\<rparr>)))"

definition k_rtc :: "kernel \<Rightarrow> rtc" where
  "k_rtc k = \<lparr>in_count = clock_count k, rtc_if = int_flag k, rtc_log = cmos_log k, rtc_pic = kpic k, rtc_con = con k\<rparr>"

definition from_rtc :: "rtc \<Rightarrow> kernel \<Rightarrow> kernel" where
  "from_rtc r k = k\<lparr>clock_count := in_count r, int_flag := rtc_if r, cmos_log := rtc_log r, kpic := rtc_pic r, con := rtc_con r\<rparr>"

text \<open>The jump tables set up by \<^verbatim>\<open>file_operations_initialize\<close>.  \<^verbatim>\<open>loc\<close> is the address of the
  local of \<^verbatim>\<open>directory_read\<close>; \<^verbatim>\<open>ex\<close> is what an Alt-F key does while a read waits.\<close>

definition fop_read ::
    "(kernel \<Rightarrow> kernel option) \<Rightarrow> nat \<Rightarrow> fop_table \<Rightarrow> int \<Rightarrow> nat \<Rightarrow> int \<Rightarrow> kernel \<Rightarrow> (int \<times> kernel) option" where
  "fop_read ex loc t fd buf nbytes k =
    (case t of
       Null_ops \<Rightarrow> (let (r, e) = no_operation_read (k_fenv k) in Some (r, from_fenv e k))
     | Stdin_ops \<Rightarrow> do {
         (r, keys, k1, m) \<leftarrow> terminal_read ex (keys_in k) buf nbytes (k, view k);
         Some (r, set_view m (k1\<lparr>keys_in := keys\<rparr>)) }
     | Stdout_ops \<Rightarrow> (let (r, e) = no_operation_read (k_fenv k) in Some (r, from_fenv e k))
     | Rtc_ops \<Rightarrow> do {
         (r, s, rest) \<leftarrow> rtc_read (ticks_in k) (k_rtc k);
         Some (r, (from_rtc s k)\<lparr>ticks_in := rest\<rparr>) }
     | Files_ops \<Rightarrow> do { (r, e) \<leftarrow> file_read (kfs k) fd buf nbytes (k_fenv k); Some (r, from_fenv e k) }
     | Directories_ops \<Rightarrow>
         do { (r, e) \<leftarrow> directory_read (kfs k) loc fd buf nbytes (k_fenv k); Some (r, from_fenv e k) })"

definition fop_write :: "fop_table \<Rightarrow> int \<Rightarrow> nat \<Rightarrow> int \<Rightarrow> kernel \<Rightarrow> (int \<times> kernel) option" where
  "fop_write t fd buf nbytes k =
    (case t of
       Null_ops \<Rightarrow> (let (r, e) = no_operation_write (k_fenv k) in Some (r, from_fenv e k))
     | Stdin_ops \<Rightarrow> (let (r, e) = no_operation_write (k_fenv k) in Some (r, from_fenv e k))
     | Stdout_ops \<Rightarrow> do { (r, c) \<leftarrow> terminal_write (view k) buf nbytes (con k); Some (r, k\<lparr>con := c\<rparr>) }
     | Rtc_ops \<Rightarrow>
         (let (r, s) = rtc_write (cmos_byte k) (if buf = 0 then None else Some (le32 (view k) buf)) (k_rtc k)
          in Some (r, from_rtc s k))
     | Files_ops \<Rightarrow> (let (r, e) = file_write (k_fenv k) in Some (r, from_fenv e k))
     | Directories_ops \<Rightarrow> (let (r, e) = directory_write (k_fenv k) in Some (r, from_fenv e k)))"

definition fop_close :: "fop_table \<Rightarrow> kernel \<Rightarrow> int \<times> kernel" where
  "fop_close t k =
    (case t of
       Null_ops \<Rightarrow> (let (r, e) = no_operation_close (k_fenv k) in (r, from_fenv e k))
     | Stdin_ops \<Rightarrow> (terminal_close, k)
     | Stdout_ops \<Rightarrow> (terminal_close, k)
     | Rtc_ops \<Rightarrow> (let (r, s) = rtc_close (k_rtc k) in (r, from_rtc s k))
     | Files_ops \<Rightarrow> (let (r, e) = file_close (k_fenv k) in (r, from_fenv e k))
     | Directories_ops \<Rightarrow> (let (r, e) = directory_close (k_fenv k) in (r, from_fenv e k)))"

definition fop_open :: "fop_table \<Rightarrow> kernel \<Rightarrow> int \<times> kernel" where
  "fop_open t k =
    (case t of
       Null_ops \<Rightarrow> (let (r, e) = no_operation_open (k_fenv k) in (r, from_fenv e k))
     | Stdin_ops \<Rightarrow> (terminal_open, k)
     | Stdout_ops \<Rightarrow> (terminal_open, k)
     | Rtc_ops \<Rightarrow> (let (r, s) = rtc_open (cmos_byte k) (k_rtc k) in (r, from_rtc s k))
     | Files_ops \<Rightarrow> (let (r, e) = file_open (k_fenv k) in (r, from_fenv e k))
     | Directories_ops \<Rightarrow> (let (r, e) = directory_open (k_fenv k) in (r, from_fenv e k)))"

definition system_close :: "int \<Rightarrow> kernel \<Rightarrow> int \<times> kernel" where
  "system_close fd k =
    (if fd < FILE_DESC_START_IDX \<or> fd > MAX_FILE_DESC_IDX - 1 then (- 1, k)
     else if flags (fda (cur_pcb k) ! nat fd) = 0 then (- 1, k)
     else
      (let k1 = upd_pcb (\<lambda>p. p\<lparr>fda := (fda p)[nat fd := closed_fd (fda p ! nat fd)]\<rparr>) k;
           (r, k2) = fop_close Null_ops k1
       in (0, k2)))"

definition system_read ::
    "(kernel \<Rightarrow> kernel option) \<Rightarrow> nat \<Rightarrow> int \<Rightarrow> nat \<Rightarrow> int \<Rightarrow> kernel \<Rightarrow> (int \<times> kernel) option" where
  "system_read ex loc fd buf nbytes k =
    (if buf = 0 then Some (- 1, k)
     else if fd < 0 \<or> fd > MAX_FILE_DESC_IDX - 1 then Some (- 1, k)
     else case fop (fda (cur_pcb k) ! nat fd) of
       None \<Rightarrow> Some (- 1, k)
     | Some t \<Rightarrow> if flags (fda (cur_pcb k) ! nat fd) = 0 then Some (- 1, k) else fop_read ex loc t fd buf nbytes k)"

definition system_write :: "int \<Rightarrow> nat \<Rightarrow> int \<Rightarrow> kernel \<Rightarrow> (int \<times> kernel) option" where
  "system_write fd buf nbytes k =
    (if buf = 0 then Some (- 1, k)
     else if fd < 0 \<or> fd > MAX_FILE_DESC_IDX - 1 then Some (- 1, k)
     else case fop (fda (cur_pcb k) ! nat fd) of
       None \<Rightarrow> Some (- 1, k)
     | Some t \<Rightarrow> fop_write t fd buf nbytes k)"

section \<open>getargs, vidmap\<close>

text \<open>The source of the copy is the block's \<^verbatim>\<open>args\<close> array; \<^verbatim>\<open>past\<close> are the bytes that follow
  it in memory, which a full array lets \<^verbatim>\<open>strncpy\<close> read.\<close>

definition system_getargs :: "(nat \<Rightarrow> byte) \<Rightarrow> nat \<Rightarrow> int \<Rightarrow> kernel \<Rightarrow> int \<times> kernel" where
  "system_getargs past buf nbytes k =
    (if buf = 0 then (- 1, k)
     else if pargs (cur_pcb k) ! 0 = 0 then (- 1, k)
     else
      (let n = unat (word_of_int nbytes :: u32);
           src = take n (pargs (cur_pcb k) @ map past [0..<n])
       in (0, set_view (put_bytes (view k) buf (padded_name n src)) k)))"

definition system_vidmap :: "u32 \<Rightarrow> nat \<Rightarrow> kernel \<Rightarrow> int \<times> kernel" where
  "system_vidmap vpt screen_start k =
    (if screen_start = 0 then (- 1, k)
     else if screen_start < IMG_BIG_START \<or> screen_start > IMG_BIG_START + PAGESIZE_4MB then (- 1, k)
     else
      (let k1 = set_view (put_bytes (view k) screen_start (le_bytes USER_VMEM_ADDR)) k
       in (0, k1\<lparr>kpaging := map_vidmem vpt (kpaging k1)\<rparr>)))"

section \<open>Facts: the memory view\<close>

named_theorems kernel_simps

lemma set_view_fields [kernel_simps]:
  "pcbs (set_view m k) = pcbs k" "pcb_obj (set_view m k) = pcb_obj k" "pid (set_view m k) = pid k"
  "kpaging (set_view m k) = kpaging k" "kfs (set_view m k) = kfs k" "con (set_view m k) = con k"
  "parent_pid (set_view m k) = parent_pid k" "tss_esp0_reg (set_view m k) = tss_esp0_reg k"
  by (simp_all add: set_view_def)

lemma set_view_frame [kernel_simps]: "cur_frame (set_view m k) = cur_frame k"
  by (simp add: cur_frame_def set_view_def)

lemma set_view_cur [kernel_simps]: "cur_pcb (set_view m k) = cur_pcb k"
  by (simp add: cur_pcb_def set_view_def)

lemma view_set_view [kernel_simps]: "view (set_view m k) = m"
proof (rule ext)
  fix a show "view (set_view m k) a = m a"
    by (auto simp: view_def kernel_simps) (auto simp: set_view_def in_program_page_def)
qed

lemma set_view_view [kernel_simps]: "set_view (view k) k = k"
proof -
  have "kmem (set_view (view k) k) = kmem k" by (rule ext) (simp add: set_view_def view_def)
  moreover have "frames (set_view (view k) k) = frames k"
    by (rule ext, rule ext) (simp add: set_view_def view_def in_program_page_def)
  ultimately show ?thesis by (simp add: set_view_def)
qed

lemma upd_pcb_fields [kernel_simps]:
  "pcb_obj (upd_pcb g k) = pcb_obj k" "pid (upd_pcb g k) = pid k" "kpaging (upd_pcb g k) = kpaging k"
  "kfs (upd_pcb g k) = kfs k" "con (upd_pcb g k) = con k" "frames (upd_pcb g k) = frames k"
  "tss_esp0_reg (upd_pcb g k) = tss_esp0_reg k" "parent_pid (upd_pcb g k) = parent_pid k"
  "pcbs (upd_pcb g k) = (pcbs k)(pcb_obj k := g (cur_pcb k))"
  by (simp_all add: upd_pcb_def cur_pcb_def)

lemma upd_pcb_cur [kernel_simps]: "cur_pcb (upd_pcb g k) = g (cur_pcb k)"
  by (simp add: upd_pcb_def cur_pcb_def)

lemma upd_pcb_view [kernel_simps]: "view (upd_pcb g k) = view k" "cur_frame (upd_pcb g k) = cur_frame k"
proof -
  show f: "cur_frame (upd_pcb g k) = cur_frame k" by (simp add: upd_pcb_def cur_frame_def)
  have "frames (upd_pcb g k) = frames k" "kmem (upd_pcb g k) = kmem k" by (simp_all add: upd_pcb_def)
  then show "view (upd_pcb g k) = view k" by (simp only: view_def f)
qed

lemma view_con [kernel_simps]: "view (k\<lparr>con := c\<rparr>) = view k"
proof -
  have "cur_frame (k\<lparr>con := c\<rparr>) = cur_frame k" by (simp add: cur_frame_def)
  moreover have "frames (k\<lparr>con := c\<rparr>) = frames k" "kmem (k\<lparr>con := c\<rparr>) = kmem k" by simp_all
  ultimately show ?thesis by (simp only: view_def)
qed

lemma view_int_flag [kernel_simps]: "view (k\<lparr>int_flag := b\<rparr>) = view k"
proof -
  have "cur_frame (k\<lparr>int_flag := b\<rparr>) = cur_frame k" by (simp add: cur_frame_def)
  moreover have "frames (k\<lparr>int_flag := b\<rparr>) = frames k" "kmem (k\<lparr>int_flag := b\<rparr>) = kmem k" by simp_all
  ultimately show ?thesis by (simp only: view_def)
qed

lemma upd_pcb_same: "upd_pcb (\<lambda>_. cur_pcb k) k = k"
  by (simp add: upd_pcb_def cur_pcb_def)

lemma k_read_data_fields [kernel_simps]:
  "pcbs (snd (k_read_data i off b n k)) = pcbs k" "pcb_obj (snd (k_read_data i off b n k)) = pcb_obj k"
  "pid (snd (k_read_data i off b n k)) = pid k" "kpaging (snd (k_read_data i off b n k)) = kpaging k"
  "kfs (snd (k_read_data i off b n k)) = kfs k" "cur_frame (snd (k_read_data i off b n k)) = cur_frame k"
  "tss_esp0_reg (snd (k_read_data i off b n k)) = tss_esp0_reg k"
  by (simp_all add: k_read_data_def case_prod_unfold Let_def kernel_simps cur_frame_def)

lemma fenv_roundtrip [kernel_simps]: "from_fenv (k_fenv k) k = k"
  using upd_pcb_same[of k] set_view_view[of k] by (simp add: from_fenv_def k_fenv_def)

text \<open>Bytes of the program page change only when the written region meets it.\<close>

lemma frames_set_view:
  assumes "\<And>a. in_program_page a \<Longrightarrow> m a = view k a"
  shows "frames (set_view m k) = frames k"
proof (rule ext, rule ext)
  fix f o'
  show "frames (set_view m k) f o' = frames k f o'"
    using assms[of "o' + 0x8000000"] by (auto simp: set_view_def view_def in_program_page_def)
qed

lemma frames_set_view_other: "f \<noteq> cur_frame k \<Longrightarrow> frames (set_view m k) f = frames k f"
  by (simp add: set_view_def)

lemma read_data_loop_frame_above:
  "buf + i + unat (fin - cur) \<le> a \<Longrightarrow> snd (read_data_loop f ino len off buf fin cur i c m) a = m a"
proof (induction "unat (fin - cur)" arbitrary: cur i c m rule: less_induct)
  case less
  show ?case
  proof (cases "cur < fin \<and> cur \<noteq> len")
    case False then show ?thesis by (subst read_data_loop.simps) auto
  next
    case True
    have lt: "unat (fin - (cur + 1)) < unat (fin - cur)" using True by (intro unat_diff_less) simp
    then have "snd (read_data_loop f ino len off buf fin (cur + 1) (i + 1) (c + 1)
        (m(buf + i := block_byte m f (data_block_num m f ino (cur div 4096)) (cur mod 4096)))) a =
      (m(buf + i := block_byte m f (data_block_num m f ino (cur div 4096)) (cur mod 4096))) a"
      using less.prems by (intro less.hyps) auto
    moreover have "buf + i \<noteq> a" using less.prems lt by linarith
    ultimately show ?thesis using True by (subst read_data_loop.simps) (simp add: Let_def)
  qed
qed

lemma read_data_frame_above:
  "buf + unat len \<le> a \<Longrightarrow> fst (snd (read_data f ino off buf len (m, c))) a = m a"
  by (simp add: read_data_def Let_def case_prod_unfold read_data_loop_frame_above)

text \<open>Writing to the kernel stack below the program page leaves all frames alone.\<close>

lemma k_read_data_frames:
  assumes "buf + unat len \<le> 0x8000000"
  shows "frames (snd (k_read_data ino off buf len k)) = frames k"
proof -
  have "frames (set_view (fst (snd (read_data (kfs k) ino off buf len (view k, con k)))) (k\<lparr>con := c\<rparr>)) = frames (k\<lparr>con := c\<rparr>)" for c
  proof (rule frames_set_view)
    fix a assume "in_program_page a"
    then have "buf + unat len \<le> a" using assms by (simp add: in_program_page_def)
    then show "fst (snd (read_data (kfs k) ino off buf len (view k, con k))) a = view (k\<lparr>con := c\<rparr>) a"
      by (simp add: read_data_frame_above view_con)
  qed
  then show ?thesis by (simp add: k_read_data_def case_prod_unfold Let_def)
qed

end
