(* ===== verification/Processes.thy ===== *)
theory Processes
  imports Syscall
begin

text \<open>What the system calls guarantee: the invariant of the descriptor table and the
  behaviour of open, close, read and write on it; the assignment of process
  numbers; the parsing of a command; the round trip of execute and halt.\<close>

section \<open>Facts: descriptors\<close>

text \<open>A closed descriptor has the null table, an open one the table of its type.\<close>

definition fd_ok :: "nat \<Rightarrow> file_descriptor \<Rightarrow> bool" where
  "fd_ok i d \<longleftrightarrow> (if flags d = 0 then fop d = Some Null_ops
     else if i = 0 then fop d = Some Stdin_ops else if i = 1 then fop d = Some Stdout_ops
     else (fop d, fd_type d) \<in> {(Some Rtc_ops, 0), (Some Directories_ops, 1), (Some Files_ops, 2)})"

definition fds_ok :: "file_descriptor list \<Rightarrow> bool" where
  "fds_ok l \<longleftrightarrow> length l = MAX_OPEN_FILES \<and> (\<forall>i < length l. fd_ok i (l ! i))"

lemma exec_fda_ok: "length l = MAX_OPEN_FILES \<Longrightarrow> fds_ok (exec_fda l)"
  by (auto simp: fds_ok_def exec_fda_def Let_def nth_list_update fd_ok_def closed_fd_def MAX_OPEN_FILES_def)

lemma fds_ok_update: "fds_ok l \<Longrightarrow> fd_ok i d \<Longrightarrow> fds_ok (l[i := d])"
  by (cases "i < length l") (auto simp: fds_ok_def nth_list_update list_update_beyond)

lemma open_scan_Some:
  "open_scan l fd n = Some r \<Longrightarrow> 0 \<le> fd \<Longrightarrow>
   fd \<le> r \<and> r < fd + int n \<and> flags (l ! nat r) = 0 \<and> (\<forall>j. fd \<le> j \<and> j < r \<longrightarrow> flags (l ! nat j) \<noteq> 0)"
proof (induction n arbitrary: fd)
  case (Suc n)
  show ?case
  proof (cases "flags (l ! nat fd) = 0")
    case False
    with Suc have "fd + 1 \<le> r \<and> r < fd + 1 + int n \<and> flags (l ! nat r) = 0 \<and>
        (\<forall>j. fd + 1 \<le> j \<and> j < r \<longrightarrow> flags (l ! nat j) \<noteq> 0)" by simp
    moreover from this have "flags (l ! nat j) \<noteq> 0" if "fd \<le> j" "j < r" for j
      using that False by (cases "j = fd") auto
    ultimately show ?thesis by auto
  qed (use Suc.prems in auto)
qed simp

lemma open_fd_cases:
  assumes "open_fd tab ty ino k = (r, k1)"
  obtains "r = None" "k1 = k"
  | fd where "r = Some fd" "2 \<le> fd" "fd < 8" "flags (fda (cur_pcb k) ! nat fd) = 0"
      "\<forall>j. 2 \<le> j \<and> j < fd \<longrightarrow> flags (fda (cur_pcb k) ! nat j) \<noteq> 0"
      "k1 = upd_pcb (\<lambda>p. p\<lparr>fda := (fda p)[nat fd := \<lparr>fop = Some tab, inode_idx = ino, file_position = 0,
            flags = 1, fd_type = ty\<rparr>]\<rparr>) k"
proof (cases "open_scan (fda (cur_pcb k)) FILE_DESC_START_IDX (nat (MAX_FILE_DESC_IDX - FILE_DESC_START_IDX))")
  case None with assms that(1) show ?thesis by (simp add: open_fd_def)
next
  case (Some fd)
  have fd: "2 \<le> fd" "fd < 8" "flags (fda (cur_pcb k) ! nat fd) = 0"
    "\<forall>j. 2 \<le> j \<and> j < fd \<longrightarrow> flags (fda (cur_pcb k) ! nat j) \<noteq> 0"
    using open_scan_Some[OF Some] by (simp_all add: sys_consts)
  show ?thesis
    by (rule that(2)[OF _ fd]) (use assms Some in \<open>simp_all add: open_fd_def\<close>)
qed

lemma fd_ok_opened:
  "i \<ge> 2 \<Longrightarrow> (tab, ty) \<in> {(Rtc_ops, 0), (Directories_ops, 1), (Files_ops, 2)} \<Longrightarrow>
   fd_ok i \<lparr>fop = Some tab, inode_idx = ino, file_position = p, flags = 1, fd_type = ty\<rparr>"
  by (auto simp: fd_ok_def)

lemma open_fd_ok:
  assumes "open_fd tab ty ino k = (r, k1)" "fds_ok (fda (cur_pcb k))"
    and "(tab, ty) \<in> {(Rtc_ops, 0), (Directories_ops, 1), (Files_ops, 2)}"
  shows "fds_ok (fda (cur_pcb k1))"
proof (cases rule: open_fd_cases[OF assms(1)])
  case 1 with assms show ?thesis by simp
next
  case (2 fd)
  then have "nat fd \<ge> 2" by simp
  with 2 assms(2,3) show ?thesis
    by (simp add: kernel_simps fds_ok_update fd_ok_opened)
qed

text \<open>The three cases of \<^verbatim>\<open>system_open\<close> as one.\<close>

definition type_table :: "u32 \<Rightarrow> fop_table option" where
  "type_table ty = (if ty = 0 then Some Rtc_ops else if ty = 1 then Some Directories_ops
     else if ty = 2 then Some Files_ops else None)"

lemma system_open_cases:
  assumes "system_open name k = Some (r, k1)"
  obtains "r = - 1" "k1 = k"
  | d tab where "read_dentry_by_name (view k) (kfs k) name = Some (Some d)" "type_table (file_type d) = Some tab"
      "open_fd tab (file_type d) (inode_num d) k = (Some r, k1)"
proof -
  from assms obtain found where f: "read_dentry_by_name (view k) (kfs k) name = Some found"
    by (auto simp: system_open_def option_bind_Some_iff)
  show ?thesis
  proof (cases found)
    case None with assms f that(1) show ?thesis by (simp add: system_open_def)
  next
    case (Some d)
    show ?thesis
    proof (cases "type_table (file_type d)")
      case None with assms f Some that(1) show ?thesis
        by (auto simp: system_open_def type_table_def split: if_splits)
    next
      case (Some tab)
      obtain ro k2 where o: "open_fd tab (file_type d) (inode_num d) k = (ro, k2)" by fastforce
      have so: "system_open name k = (case ro of Some fd \<Rightarrow> Some (fd, k2) | None \<Rightarrow> Some (- 1, k2))"
        using f \<open>found = Some d\<close> Some o by (auto simp: system_open_def type_table_def split: if_splits)
      show ?thesis
      proof (cases ro)
        case None
        with o have "k2 = k" by (auto simp: open_fd_def split: option.splits)
        with None so assms that(1) show ?thesis by simp
      next
        case (Some fd)
        with so assms have "fd = r" "k2 = k1" by simp_all
        with Some o f \<open>found = Some d\<close> \<open>type_table (file_type d) = Some tab\<close> that(2) show ?thesis by blast
      qed
    qed
  qed
qed

lemma type_table_pairs:
  "type_table ty = Some tab \<Longrightarrow> (tab, ty) \<in> {(Rtc_ops, 0), (Directories_ops, 1), (Files_ops, 2)}"
  by (auto simp: type_table_def split: if_splits)

lemma system_open_ok:
  "system_open name k = Some (r, k1) \<Longrightarrow> fds_ok (fda (cur_pcb k)) \<Longrightarrow> fds_ok (fda (cur_pcb k1))"
  by (erule system_open_cases) (auto dest: open_fd_ok type_table_pairs)

lemma fop_close_null [simp]: "fop_close Null_ops k = (- 1, k)"
  by (simp add: fop_close_def no_operation_close_def kernel_simps)

lemma system_close_eq:
  "system_close fd k =
    (if 2 \<le> fd \<and> fd < 8 \<and> flags (fda (cur_pcb k) ! nat fd) \<noteq> 0
     then (0, upd_pcb (\<lambda>p. p\<lparr>fda := (fda p)[nat fd := closed_fd (fda p ! nat fd)]\<rparr>) k)
     else (- 1, k))"
  by (auto simp: system_close_def sys_consts)

lemma closed_fd_ok: "fd_ok i (closed_fd d)"
  by (simp add: fd_ok_def closed_fd_def)

lemma system_close_ok:
  "fds_ok (fda (cur_pcb k)) \<Longrightarrow> fds_ok (fda (cur_pcb (snd (system_close fd k))))"
  by (auto simp: system_close_eq kernel_simps intro: fds_ok_update closed_fd_ok)

section \<open>Facts: commands\<close>

text \<open>A word without spaces and NULs keeps its place in \<^verbatim>\<open>fname\<close>.\<close>

lemma split_loop_word:
  "0x20 \<notin> set w \<Longrightarrow> i + length w \<le> length fn \<Longrightarrow>
   split_loop (w @ cs) i fn st = split_loop cs (i + length w) (take i fn @ w @ drop (i + length w) fn) st"
proof (induction w arbitrary: i fn)
  case (Cons c w)
  have "take (Suc i) (fn[i := c]) @ w @ drop (Suc i + length w) (fn[i := c]) =
      take i fn @ (c # w) @ drop (i + length (c # w)) fn"
    using Cons.prems(2) by (simp add: take_Suc_conv_app_nth)
  moreover have "split_loop (w @ cs) (Suc i) (fn[i := c]) st = split_loop cs (Suc i + length w)
      (take (Suc i) (fn[i := c]) @ w @ drop (Suc i + length w) (fn[i := c])) st"
    using Cons.prems by (intro Cons.IH) auto
  ultimately show ?case using Cons.prems(1) by auto
qed simp

lemma arg_loop_copies:
  assumes "int i + int n \<le> int (length args)" "it + int n = len" "0 \<le> int cmd + it"
  shows "arg_loop m cmd len i it n args =
    Some (take i args @ bytes_of m (nat (int cmd + it)) n @ drop (i + n) args)"
  using assms
proof (induction n arbitrary: i it args)
  case (Suc n)
  let ?b = "m (nat (int cmd + it))"
  have "arg_loop m cmd len (i + 1) (it + 1) n (args[i := ?b]) =
    Some (take (i + 1) (args[i := ?b]) @ bytes_of m (nat (int cmd + (it + 1))) n @ drop (i + 1 + n) (args[i := ?b]))"
    using Suc.prems by (intro Suc.IH) auto
  moreover have "nat (int cmd + (it + 1)) = Suc (nat (int cmd + it))" using Suc.prems by simp
  ultimately show ?case using Suc.prems
    by (simp add: wr_in bytes_of_Suc take_Suc_conv_app_nth)
qed simp

text \<open>What follows the last space.\<close>

definition last_word :: "byte list \<Rightarrow> byte list" where
  "last_word cs = rev (takeWhile (\<lambda>c. c \<noteq> 0x20) (rev cs))"

lemma last_word_Cons:
  "last_word (c # cs) = (if 0x20 \<in> set cs then last_word cs else if c = 0x20 then cs else c # cs)"
proof (cases "0x20 \<in> set cs")
  case True then show ?thesis by (simp add: last_word_def takeWhile_append1[of "0x20"])
next
  case False
  then have "takeWhile (\<lambda>c. c \<noteq> 0x20) (rev cs @ [c]) = rev cs @ takeWhile (\<lambda>c. c \<noteq> 0x20) [c]"
    by (intro takeWhile_append2) auto
  with False show ?thesis by (auto simp: last_word_def)
qed

lemma length_last_word: "length (last_word cs) \<le> length cs"
  by (metis last_word_def length_rev length_takeWhile_le)

lemma last_word_suffix: "last_word cs = drop (length cs - length (last_word cs)) cs"
proof (induction cs)
  case (Cons c cs)
  show ?case
  proof (cases "0x20 \<in> set cs")
    case True
    have "length (c # cs) - length (last_word cs) = Suc (length cs - length (last_word cs))"
      using length_last_word[of cs] by (simp add: Suc_diff_le)
    with True Cons show ?thesis by (simp add: last_word_Cons)
  qed (auto simp: last_word_Cons)
qed (simp add: last_word_def)

lemma split_loop_all:
  "i + length cs \<le> length fn \<Longrightarrow> take (length cs) (drop i fn) = replicate (length cs) 0 \<Longrightarrow>
   split_loop cs i fn st =
     (take i fn @ map (\<lambda>c. if c = 0x20 then 0 else c) cs @ drop (i + length cs) fn,
      if 0x20 \<in> set cs then int (i + length cs) - int (length (last_word cs)) else st)"
proof (induction cs arbitrary: i fn st)
  case (Cons c cs)
  have d: "drop i fn = fn ! i # drop (Suc i) fn" using Cons.prems(1) by (simp add: Cons_nth_drop_Suc)
  with Cons.prems(2) have z: "fn ! i = 0" "take (length cs) (drop (Suc i) fn) = replicate (length cs) 0"
    by simp_all
  let ?fn = "if c \<noteq> 0x20 then fn[i := c] else fn"
  have fn: "take (Suc i) ?fn = take i fn @ [if c = 0x20 then 0 else c]"
    using Cons.prems(1) z(1) by (simp add: take_Suc_conv_app_nth)
  have dr: "drop (Suc i + n) ?fn = drop (Suc i + n) fn" for n by simp
  have IH: "split_loop cs (Suc i) ?fn st' =
     (take (Suc i) ?fn @ map (\<lambda>c. if c = 0x20 then 0 else c) cs @ drop (Suc i + length cs) ?fn,
      if 0x20 \<in> set cs then int (Suc i + length cs) - int (length (last_word cs)) else st')" for st'
    using Cons.prems(1) z(2) dr[of 0] by (intro Cons.IH) auto
  have "split_loop (c # cs) i fn st = split_loop cs (Suc i) ?fn (if c = 0x20 then int i + 1 else st)"
    by simp
  also have "\<dots> = (take (Suc i) ?fn @ map (\<lambda>c. if c = 0x20 then 0 else c) cs @ drop (Suc i + length cs) ?fn,
      if 0x20 \<in> set cs then int (Suc i + length cs) - int (length (last_word cs))
      else if c = 0x20 then int i + 1 else st)"
    by (rule IH)
  finally show ?case unfolding fn dr using length_last_word[of cs] by (auto simp: last_word_Cons)
qed simp

lemma exec_parse_spec:
  assumes "cstr m cmd cs" "cmd \<noteq> 0" "length cs \<le> 128" "0x20 \<in> set cs"
  shows "exec_parse g m cmd =
    Some (Some (map (\<lambda>c. if c = 0x20 then 0 else c) cs @ replicate (128 - length cs) 0,
                last_word cs @ replicate (128 - length (last_word cs)) 0))"
proof -
  let ?l = "length (last_word cs)"
  have b: "bytes_of m cmd (length cs) = cs" using assms(1) by (simp add: cstr_def)
  have sp: "split_loop cs 0 (replicate NUM_CHARS_KB 0) g =
      (map (\<lambda>c. if c = 0x20 then 0 else c) cs @ replicate (128 - length cs) 0, int (length cs) - int ?l)"
    using split_loop_all[of 0 cs "replicate NUM_CHARS_KB 0" g] assms(3,4) by (simp add: NUM_CHARS_KB_def)
  have addr: "nat (int cmd + (int (length cs) - int ?l)) = cmd + (length cs - ?l)"
    using length_last_word[of cs] by simp
  have lw: "bytes_of m (cmd + (length cs - ?l)) ?l = last_word cs"
  proof -
    have "bytes_of m cmd (length cs) = bytes_of m cmd (length cs - ?l) @ bytes_of m (cmd + (length cs - ?l)) ?l"
      using length_last_word[of cs] by (subst bytes_of_add[symmetric]) simp
    then have "drop (length cs - ?l) cs = bytes_of m (cmd + (length cs - ?l)) ?l"
      unfolding b by (metis append_eq_conv_conj length_bytes_of)
    then show ?thesis using last_word_suffix[of cs] by simp
  qed
  have ar: "arg_loop m cmd (int (length cs)) 0 (int (length cs) - int ?l) ?l (replicate NUM_CHARS_KB 0) =
      Some (last_word cs @ replicate (128 - ?l) 0)"
    using assms(3) length_last_word[of cs]
    using lw by (subst arg_loop_copies) (simp_all add: addr NUM_CHARS_KB_def)
  have n: "nat (int (length cs) - (int (length cs) - int ?l)) = ?l" by simp
  show ?thesis
    using assms(2,3) strlen_cstr[OF assms(1)]
    by (simp add: exec_parse_def NUM_CHARS_KB_def[symmetric] b sp n ar)
qed

section \<open>Facts: execute\<close>

lemma assign_scan_spec:
  "assign_scan ps i n = Some r \<Longrightarrow>
     int i \<le> r \<and> r < int i + int n \<and> active (ps (find_PCB r)) = 0 \<and>
     (\<forall>j. int i \<le> j \<and> j < r \<longrightarrow> active (ps (find_PCB j)) \<noteq> 0)"
proof (induction n arbitrary: i)
  case (Suc n)
  show ?case
  proof (cases "active (ps (find_PCB (int i))) = 0")
    case False
    with Suc.prems have "assign_scan ps (i + 1) n = Some r" by simp
    from Suc.IH[OF this] have IH: "int (i + 1) \<le> r \<and> r < int (i + 1) + int n \<and> active (ps (find_PCB r)) = 0 \<and>
      (\<forall>j. int (i + 1) \<le> j \<and> j < r \<longrightarrow> active (ps (find_PCB j)) \<noteq> 0)" .
    moreover have "active (ps (find_PCB j)) \<noteq> 0" if "int i \<le> j" "j < r" for j
      using that False IH by (cases "j = int i") auto
    ultimately show ?thesis by auto
  qed (use Suc.prems in auto)
qed simp

lemma assign_scan_None:
  "assign_scan ps i n = None \<longleftrightarrow> (\<forall>j. i \<le> j \<and> j < i + n \<longrightarrow> active (ps (find_PCB (int j))) \<noteq> 0)"
proof (induction n arbitrary: i)
  case (Suc n)
  have "(\<forall>j. i \<le> j \<and> j < i + Suc n \<longrightarrow> P j) \<longleftrightarrow> P i \<and> (\<forall>j. i + 1 \<le> j \<and> j < i + 1 + n \<longrightarrow> P j)" for P
    by (metis Suc_eq_plus1 Suc_leD add_Suc_right add_Suc not_less_eq_eq le_antisym le_refl
        less_add_Suc1 linorder_not_le)
  with Suc show ?case by simp
qed auto

lemma assign_PID_fields [kernel_simps]:
  "pcbs (snd (assign_PID k)) = pcbs k" "pcb_obj (snd (assign_PID k)) = pcb_obj k"
  "kpaging (snd (assign_PID k)) = kpaging k" "frames (snd (assign_PID k)) = frames k"
  "kfs (snd (assign_PID k)) = kfs k" "cur_frame (snd (assign_PID k)) = cur_frame k"
  by (simp_all add: assign_PID_def kprintk_def cur_frame_def split: option.split)

lemma num_typed [kernel_simps]:
  "num_chars_typed (set_view m k) = num_chars_typed k" "num_chars_typed (upd_pcb g k) = num_chars_typed k"
  by (simp_all add: set_view_def upd_pcb_def)

lemma exec_new_pcb_fields:
  "num_chars_typed (exec_new_pcb stk par k) = num_chars_typed k"
  "pid (exec_new_pcb stk par k) = pid k" "pcb_obj (exec_new_pcb stk par k) = find_PCB (pid k)"
  "kpaging (exec_new_pcb stk par k) = kpaging k" "frames (exec_new_pcb stk par k) = frames k"
  "cur_frame (exec_new_pcb stk par k) = cur_frame k"
  "a \<noteq> find_PCB (pid k) \<Longrightarrow> pcbs (exec_new_pcb stk par k) a = pcbs k a"
  "pcb_parent (cur_pcb (exec_new_pcb stk par k)) = (if pid k = 0 then - 1 else par)"
  "active (cur_pcb (exec_new_pcb stk par k)) = 1"
  by (simp_all add: exec_new_pcb_def Let_def kernel_simps) (simp_all add: cur_frame_def)

lemma exec_context_fields:
  "num_chars_typed (exec_context esp ebp k) = num_chars_typed k"
  "pid (exec_context esp ebp k) = pid k" "pcb_obj (exec_context esp ebp k) = pcb_obj k"
  "kpaging (exec_context esp ebp k) = kpaging k" "frames (exec_context esp ebp k) = frames k"
  "cur_frame (exec_context esp ebp k) = cur_frame k"
  "a \<noteq> pcb_obj k \<Longrightarrow> pcbs (exec_context esp ebp k) a = pcbs k a"
  "pcb_parent (cur_pcb (exec_context esp ebp k)) = pcb_parent (cur_pcb k)"
  "active (cur_pcb (exec_context esp ebp k)) = active (cur_pcb k)"
  "ebp_val (cur_pcb (exec_context esp ebp k)) = ebp" "esp_val (cur_pcb (exec_context esp ebp k)) = esp"
  "fda (cur_pcb (exec_context esp ebp k)) = exec_fda (fda (cur_pcb k))"
  "tss_esp0_reg (exec_context esp ebp k) = word_of_int (find_PCB (pid k - 1) - 4)"
  by (simp_all add: exec_context_def Let_def kernel_simps) (simp_all add: cur_frame_def cur_pcb_def upd_pcb_def)

section \<open>Facts: reading on the kernel state\<close>

lemma k_read_data_eq:
  assumes "wf_fs (view k) (kfs k)" "wf_inode (view k) (kfs k) ino" "unat off + unat len < 2 ^ 32"
    and "outside_image (view k) (kfs k) buf (unat len)"
  shows "k_read_data ino off buf len k =
    (let bs = take (unat len) (drop (unat off) (file_content (view k) (kfs k) ino))
     in (int (length bs), set_view (put_bytes (view k) buf bs) k))"
  using read_data_contract[OF assms, of "con k"] by (simp add: k_read_data_def Let_def)

lemma con_upd_fields [kernel_simps]:
  "cur_pcb (k\<lparr>con := c\<rparr>) = cur_pcb k" "kfs (k\<lparr>con := c\<rparr>) = kfs k"
  by (simp_all add: cur_pcb_def)

lemma from_fenv_fields [kernel_simps]:
  "cur_pcb (from_fenv (p, m, c) k) = p" "view (from_fenv (p, m, c) k) = m" "con (from_fenv (p, m, c) k) = c"
  "kfs (from_fenv (p, m, c) k) = kfs k"
  by (simp_all add: from_fenv_def kernel_simps)

lemma fd_get_nth: "fd_get p i = Some d \<Longrightarrow> 0 \<le> i \<and> fda p ! nat i = d"
  by (auto simp: fd_get_def rd_Some_iff split: if_splits)

lemma file_read_fda:
  assumes "file_read f fd buf n (p, m, c) = Some (r, p', m', c')" "j \<noteq> nat fd"
  shows "fda p' ! j = fda p ! j"
proof (cases "n \<le> 0")
  case True
  then show ?thesis using assms by (simp add: file_read_def)
next
  case False
  then obtain d where d: "fd_get p fd = Some d" using assms(1) by (cases "fd_get p fd") (auto simp: file_read_def)
  obtain q m1 c1 where q: "read_data f (inode_idx d) (file_position d) buf (word_of_int n) (m, c) = (q, m1, c1)"
    by (metis prod_cases3)
  show ?thesis
  proof (cases "q = - 1")
    case True
    then show ?thesis using assms(1) False d q by (simp add: file_read_def)
  next
    case nq: False
    then have "fd_put p fd (d\<lparr>file_position := file_position d + word_of_int q\<rparr>) = Some p'"
      using assms(1) False d q by (auto simp: file_read_def option_bind_Some_iff)
    then show ?thesis using assms(2)
      by (auto simp: fd_put_def wr_Some_iff option_bind_Some_iff split: if_splits)
  qed
qed

text \<open>The image seen from a later state: the part of memory below the program page.\<close>

definition image_kept :: "kernel \<Rightarrow> kernel \<Rightarrow> bool" where
  "image_kept k k' \<longleftrightarrow> kfs k' = kfs k \<and> same_image (view k) (kfs k) (view k')"

definition image_ok :: "kernel \<Rightarrow> bool" where
  "image_ok k \<longleftrightarrow> wf_fs (view k) (kfs k) \<and> fs_end (view k) (kfs k) \<le> 0x8000000"

lemma image_kept_facts:
  assumes "image_ok k" "image_kept k k'"
  shows "wf_fs (view k') (kfs k')" "fs_end (view k') (kfs k') = fs_end (view k) (kfs k)"
    "wf_inode (view k) (kfs k) i \<Longrightarrow> wf_inode (view k') (kfs k') i"
    "wf_inode (view k) (kfs k) i \<Longrightarrow> file_content (view k') (kfs k') i = file_content (view k) (kfs k) i"
    "wf_inode (view k) (kfs k) i \<Longrightarrow> inode_length (view k') (kfs k') i = inode_length (view k) (kfs k) i"
proof -
  have a: "wf_fs (view k) (kfs k)" "same_image (view k) (kfs k) (view k')" "kfs k' = kfs k"
    using assms by (simp_all add: image_ok_def image_kept_def)
  show "wf_fs (view k') (kfs k')" "fs_end (view k') (kfs k') = fs_end (view k) (kfs k)"
    using same_image_wf[OF a(1,2)] same_image_end[OF a(1,2)] a(3) by simp_all
  show "wf_inode (view k) (kfs k) i \<Longrightarrow> wf_inode (view k') (kfs k') i"
    using same_image_wf_inode[OF a(1,2)] a(3) by simp
  show "wf_inode (view k) (kfs k) i \<Longrightarrow> file_content (view k') (kfs k') i = file_content (view k) (kfs k) i"
    using same_image_content[OF a(1,2)] a(3) by simp
  show "wf_inode (view k) (kfs k) i \<Longrightarrow> inode_length (view k') (kfs k') i = inode_length (view k) (kfs k) i"
    using same_image_length[OF a(1,2)] a(3) by (simp add: wf_inode_def)
qed

lemma image_kept_put:
  assumes "image_ok k" "image_kept k k'" "fs_end (view k) (kfs k) \<le> buf"
  shows "image_kept k (set_view (put_bytes (view k') buf bs) k')"
  using assms same_image_put[of "view k" "kfs k" "view k'" buf bs]
  by (simp add: image_kept_def kernel_simps outside_image_def)

lemma image_kept_view:
  assumes "image_kept k k'" "kfs k'' = kfs k'" "\<And>a. \<not> in_program_page a \<Longrightarrow> view k'' a = view k' a" "image_ok k"
  shows "image_kept k k''"
proof -
  have "view k'' a = view k a" if "boot_block (kfs k) \<le> a" "a < fs_end (view k) (kfs k)" for a
  proof -
    have "\<not> in_program_page a" using that assms(4) by (simp add: image_ok_def in_program_page_def)
    with assms(1,3) that show ?thesis by (simp add: image_kept_def same_image_def)
  qed
  with assms(1,2) show ?thesis by (simp add: image_kept_def same_image_def)
qed

lemma view_outside_page: "\<not> in_program_page a \<Longrightarrow> view k a = kmem k a"
  by (simp add: view_def)

lemma kmem_execute_paging [kernel_simps]:
  "kmem (k_execute_paging n k) = kmem k" "kfs (k_execute_paging n k) = kfs k" "pcbs (k_execute_paging n k) = pcbs k"
  "pid (k_execute_paging n k) = pid k" "pcb_obj (k_execute_paging n k) = pcb_obj k"
  "frames (k_execute_paging n k) = frames k" "cur_pcb (k_execute_paging n k) = cur_pcb k"
  "tss_esp0_reg (k_execute_paging n k) = tss_esp0_reg k"
  "num_chars_typed (k_execute_paging n k) = num_chars_typed k"
  by (simp_all add: k_execute_paging_def cur_pcb_def)

lemma kmem_exec_pcb [kernel_simps]:
  "kmem (exec_new_pcb stk par k) = kmem k" "kfs (exec_new_pcb stk par k) = kfs k"
  "kmem (exec_context esp ebp k) = kmem k" "kfs (exec_context esp ebp k) = kfs k"
  by (simp_all add: exec_new_pcb_def exec_context_def Let_def upd_pcb_def)

lemma view_exec_context: "view (exec_context esp ebp k) = view k"
  by (simp only: view_def kernel_simps exec_context_fields)

lemma execute_paging_sized: "paging_sized p \<Longrightarrow> paging_sized (execute_paging_init n p)"
  by (simp add: execute_paging_init_def Let_def set_pde_def flush_tlb_def paging_sized_def)

text \<open>The directory entry of the program page after \<^verbatim>\<open>execute_paging_init(n)\<close>.\<close>

lemma cur_frame_execute_paging:
  assumes "paging_sized (kpaging k)" "0 \<le> p" "p \<le> 400"
  shows "unat (cur_frame (k_execute_paging (p + 1) k)) = 1024 * (2 + nat p)"
proof -
  have u: "unat (word_of_int p :: u32) = nat p"
    using assms(2,3) unat_of_nat_small[of "nat p", where 'a = 32] by simp
  then have "unat (word_of_int p :: u32) \<le> 400" using assms(3) by simp
  from program_frame[OF this] show ?thesis
    using execute_paging_entry[OF assms(1), of "word_of_int (p + 1)"] u
    by (simp add: cur_frame_def k_execute_paging_def PROGRAM_IMG_PDE_INDEX_def)
qed

lemma le32_put: "le32 (put_bytes m a (take 4 (drop n xs))) a = le32 (\<lambda>i. xs ! i) n" if "n + 4 \<le> length xs"
proof -
  have nth: "put_bytes m a (take 4 (drop n xs)) (a + i) = xs ! (n + i)" if "i < 4" for i
    using that \<open>n + 4 \<le> length xs\<close> by (subst put_bytes_in) auto
  show ?thesis using nth[of 0] nth[of 1] nth[of 2] nth[of 3] by (simp add: le32_def)
qed

lemma exec_load_spec:
  assumes img: "image_ok k0" "image_kept k0 k" "fs_end (view k0) (kfs k0) \<le> stk" "stk + 264 \<le> 0x8000000"
    and wi: "wf_inode (view k0) (kfs k0) ino" and cont: "content = file_content (view k0) (kfs k0) ino"
    and elf: "take 4 content = [0x7f, 0x45, 0x4c, 0x46]" "28 \<le> length content" "length content \<le> 0x3B8000"
    and free: "assign_scan (pcbs k) 0 5 = Some c" and sz: "paging_sized (kpaging k)"
  shows "\<exists>k'. exec_load stk esp ebp parent ino (inode_length (view k0) (kfs k0) ino) k =
      (Iret (le32 (\<lambda>i. content ! i) 24) 0x83FFFFC, k') \<and>
    pid k' = c \<and> pcb_obj k' = find_PCB c \<and> bytes_of (view k') 0x8048000 (length content) = content \<and>
    unat (cur_frame k') = 1024 * (2 + nat c) \<and> (\<forall>f. f \<noteq> cur_frame k' \<longrightarrow> frames k' f = frames k f) \<and>
    active (cur_pcb k') = 1 \<and> pcb_parent (cur_pcb k') = (if c = 0 then - 1 else parent) \<and>
    ebp_val (cur_pcb k') = ebp \<and> esp_val (cur_pcb k') = esp \<and>
    tss_esp0_reg k' = word_of_int (find_PCB (c - 1) - 4) \<and>
    (\<forall>a. a \<noteq> find_PCB c \<longrightarrow> pcbs k' a = pcbs k a) \<and>
    fda (cur_pcb k') = exec_fda (fda (pcbs k (find_PCB c))) \<and>
    image_kept k0 k' \<and> paging_sized (kpaging k') \<and> num_chars_typed k' = num_chars_typed k"
proof -
  have c: "0 \<le> c" "c < 5" using assign_scan_spec[OF free] by simp_all
  have len: "length content = unat (inode_length (view k0) (kfs k0) ino)" by (simp add: cont)
  define k1 where "k1 = set_view (put_bytes (view k) (stk + 256) (take 4 content)) k"
  have i1: "image_kept k0 k1"
    unfolding k1_def by (rule image_kept_put[OF img(1,2)]) (use img(3) in simp)
  have rd1: "k_read_data ino 0 (stk + 256) 4 k = (4, k1)"
    using image_kept_facts[OF img(1,2)] wi img(3) elf(2)
    by (subst k_read_data_eq) (simp_all add: outside_image_def Let_def cont[symmetric] k1_def fs_end_def[symmetric])
  have is_elf: "exec_is_elf stk ino k = (True, k1)"
    using elf(1,2) by (simp add: exec_is_elf_def rd1) (simp add: k1_def kernel_simps)
  have f1: "frames k1 = frames k"
    unfolding k1_def using img(4) elf(2)
    by (intro frames_set_view) (auto simp: put_bytes_def in_program_page_def)
  have p1: "pcbs k1 = pcbs k" "kpaging k1 = kpaging k" by (simp_all add: k1_def kernel_simps)
  have asg: "assign_PID k1 = (c, k1)" using free by (simp add: assign_PID_def p1 MAX_PROCESSES_def)
  define k3 where "k3 = exec_new_pcb stk parent (k1\<lparr>pid := c\<rparr>)"
  define k4 where "k4 = k_execute_paging (c + 1) k3"
  have i4: "image_kept k0 k4"
    by (rule image_kept_view[OF i1 _ _ img(1)])
      (simp_all add: k4_def k3_def kernel_simps view_outside_page)
  have cf4: "unat (cur_frame k4) = 1024 * (2 + nat c)"
    unfolding k4_def using c sz by (intro cur_frame_execute_paging) (simp_all add: k3_def exec_new_pcb_fields p1)
  have f4: "frames k4 = frames k" by (simp add: k4_def k3_def kernel_simps exec_new_pcb_fields f1)
  define k5 where "k5 = set_view (put_bytes (view k4) 0x8048000 content) k4"
  have i5: "image_kept k0 k5"
    unfolding k5_def by (rule image_kept_put[OF img(1) i4]) (use img(1) in \<open>simp add: image_ok_def\<close>)
  have rd5: "k_read_data ino 0 PROGRAM_IMG_VIRT_ADDR (inode_length (view k0) (kfs k0) ino) k4 = (int (length content), k5)"
    using image_kept_facts[OF img(1) i4] wi img(1) elf(3) unfolding image_ok_def
    by (subst k_read_data_eq)
      (simp_all add: outside_image_def Let_def cont[symmetric] k5_def fs_end_def[symmetric] PROGRAM_IMG_VIRT_ADDR_def len[symmetric])
  have size: "(word_of_int (int (length content)) :: u32) = inode_length (view k0) (kfs k0) ino"
    unfolding len by simp
  define k6 where "k6 = exec_context esp ebp k5"
  have i6: "image_kept k0 k6"
    by (rule image_kept_view[OF i5 _ _ img(1)]) (simp_all add: k6_def kernel_simps view_exec_context)
  define k7 where "k7 = set_view (put_bytes (view k6) (stk + 260) (take 4 (drop 24 content))) k6"
  have rd7: "k_read_data ino 24 (stk + 260) 4 k6 = (4, k7)"
    using image_kept_facts[OF img(1) i6] wi img(3) elf(2)
    by (subst k_read_data_eq) (simp_all add: outside_image_def Let_def cont[symmetric] k7_def fs_end_def[symmetric])
  have i7: "image_kept k0 k7"
    unfolding k7_def by (rule image_kept_put[OF img(1) i6]) (use img(3) in simp)
  have eip: "le32 (view k7) (stk + 260) = le32 (\<lambda>i. content ! i) 24"
    using elf(2) by (simp add: k7_def kernel_simps le32_put)
  have f7: "frames k7 = frames k6"
    unfolding k7_def using img(4) elf(2)
    by (intro frames_set_view) (auto simp: put_bytes_def in_program_page_def)
  have res: "exec_load stk esp ebp parent ino (inode_length (view k0) (kfs k0) ino) k =
      (Iret (le32 (\<lambda>i. content ! i) 24) 0x83FFFFC, k7\<lparr>int_flag := True\<rparr>)"
  proof -
    have "c \<noteq> ASSIGN_PID_ERROR" using c by (simp add: ASSIGN_PID_ERROR_def)
    moreover have "k_execute_paging (pid (k1\<lparr>pid := c\<rparr>) + 1) (exec_new_pcb stk parent (k1\<lparr>pid := c\<rparr>)) = k4"
      by (simp add: k4_def k3_def)
    ultimately show ?thesis
      unfolding exec_load_def is_elf asg Let_def case_prod_conv
      using rd5 size rd7 eip by (simp add: exec_enter_def k6_def[symmetric] Let_def)
  qed
  let ?k = "k7\<lparr>int_flag := True\<rparr>"
  have v: "view ?k = view k7" "cur_frame ?k = cur_frame k7" "cur_pcb ?k = cur_pcb k7"
    by (simp_all add: kernel_simps) (simp_all add: cur_frame_def cur_pcb_def)
  have po: "pcb_obj k4 = find_PCB c" "pid k4 = c" by (simp_all add: k4_def k3_def kernel_simps exec_new_pcb_fields)
  have cp: "cur_pcb k5 = cur_pcb k3" by (simp add: k5_def k4_def kernel_simps)
  have cf: "cur_frame k7 = cur_frame k4" by (simp add: k7_def k6_def k5_def kernel_simps exec_context_fields)
  have img7: "bytes_of (view k7) 0x8048000 (length content) = content"
  proof -
    have "view k7 a = put_bytes (view k4) 0x8048000 content a" if "0x8048000 \<le> a" for a
      using that img(4) elf(2) by (simp add: k7_def k6_def k5_def kernel_simps view_exec_context put_bytes_out)
    then have "bytes_of (view k7) 0x8048000 (length content) =
        bytes_of (put_bytes (view k4) 0x8048000 content) 0x8048000 (length content)"
      by (intro bytes_of_cong) simp
    then show ?thesis by simp
  qed
  have fr: "frames k7 f = frames k f" if "f \<noteq> cur_frame k7" for f
    using that f4 frames_set_view_other[of f k4] cf
    by (simp add: f7 k6_def exec_context_fields k5_def)
  have par: "pcb_parent (cur_pcb k3) = (if c = 0 then - 1 else parent)" "active (cur_pcb k3) = 1"
    by (simp_all add: k3_def exec_new_pcb_fields)
  have oth: "pcbs k7 a = pcbs k a" if "a \<noteq> find_PCB c" for a
    using that po by (simp add: k7_def k6_def k5_def kernel_simps exec_context_fields k4_def k3_def exec_new_pcb_fields p1)
  have fd: "fda (cur_pcb k3) = fda (pcbs k (find_PCB c))"
    by (simp add: k3_def exec_new_pcb_def Let_def kernel_simps cur_pcb_def p1)
  have i: "image_kept k0 ?k" by (rule image_kept_view[OF i7 _ _ img(1)]) (simp_all add: v)
  have sz7: "paging_sized (kpaging ?k)"
    using sz execute_paging_sized by (simp add: k7_def k6_def k5_def k4_def k3_def kernel_simps exec_context_fields
        exec_new_pcb_fields p1 k_execute_paging_def)
  have num: "num_chars_typed ?k = num_chars_typed k"
    by (simp add: k7_def k6_def k5_def k4_def k3_def kernel_simps exec_context_fields exec_new_pcb_fields k1_def)
  show ?thesis
    using res v cf cf4 img7 fr par oth po cp fd i sz7 num
    by (intro exI[of _ ?k]) (simp add: k7_def k6_def kernel_simps exec_context_fields k5_def)
qed

section \<open>Facts: halt\<close>

lemma halt_to_parent_spec:
  assumes "pcb_parent (cur_pcb k) = p" "0 \<le> p" "p \<le> 400" "pcb_obj k = find_PCB c" "c \<noteq> p"
    and sz: "paging_sized (kpaging k)"
  shows "\<exists>k'. halt_to_parent st ebp esp k = (Unwind ebp esp (halt_status st), k') \<and>
    pid k' = p \<and> pcb_obj k' = find_PCB p \<and> cur_pcb k' = pcbs k (find_PCB p) \<and>
    parent_pid k' = pcb_parent (pcbs k (find_PCB p)) \<and>
    active (pcbs k' (find_PCB c)) = 0 \<and> fda (pcbs k' (find_PCB c)) = map closed_fd (fda (cur_pcb k)) \<and>
    unat (cur_frame k') = 1024 * (2 + nat p) \<and> frames k' = frames k \<and> int_flag k' \<and>
    tss_esp0_reg k' = word_of_int (find_PCB (p - 1) - 4) \<and> kmem k' = kmem k \<and> kfs k' = kfs k \<and>
    paging_sized (kpaging k') \<and> num_chars_typed k' = num_chars_typed k \<and> (\<forall>a. a \<noteq> find_PCB c \<longrightarrow> pcbs k' a = pcbs k a)"
proof -
  have ne: "find_PCB p \<noteq> find_PCB c" using assms(5) by (simp add: find_PCB_def KERNEL_STACK_SIZE_def)
  let ?k1 = "halt_clear_pcb k"
  have k1: "pcb_parent (cur_pcb ?k1) = p" "pcb_obj ?k1 = find_PCB c" "frames ?k1 = frames k" "kpaging ?k1 = kpaging k"
    "pcbs ?k1 (find_PCB p) = pcbs k (find_PCB p)" "active (cur_pcb ?k1) = 0" "fda (cur_pcb ?k1) = fda (cur_pcb k)"
    using assms(1,4) ne by (simp_all add: halt_clear_pcb_def kernel_simps)
  define k2 where "k2 = ?k1\<lparr>tss_ss0 := KERNEL_DS, tss_esp0_reg := word_of_int (0x800000 - 0x2000 * p - 4)\<rparr>"
  define k3 where "k3 = k_execute_paging (p + 1) k2"
  define k4 where "k4 = upd_pcb (\<lambda>p. p\<lparr>fda := map closed_fd (fda p)\<rparr>) k3"
  have cur2: "cur_pcb k2 = cur_pcb ?k1" "pcb_obj k2 = find_PCB c" by (simp_all add: k2_def cur_pcb_def k1)
  have cf: "unat (cur_frame k4) = 1024 * (2 + nat p)"
    unfolding k4_def kernel_simps k3_def using assms(2,3) sz k1
    by (intro cur_frame_execute_paging) (simp_all add: k2_def)
  have k4: "pcb_parent (cur_pcb k4) = p" "pcb_obj k4 = find_PCB c" "frames k4 = frames k"
    "pcbs k4 (find_PCB p) = pcbs k (find_PCB p)" "active (pcbs k4 (find_PCB c)) = 0"
    "fda (pcbs k4 (find_PCB c)) = map closed_fd (fda (cur_pcb k))"
    "tss_esp0_reg k4 = word_of_int (0x800000 - 0x2000 * p - 4)"
    using k1 cur2 ne by (simp_all add: k4_def k3_def kernel_simps) (simp_all add: k2_def k1)
  have esp0: "0x800000 - 0x2000 * p - 4 = find_PCB (p - 1) - 4"
    by (simp add: find_PCB_def END_OF_KERNEL_PAGE_def KERNEL_STACK_SIZE_def)
  have res: "halt_to_parent st ebp esp k = (Unwind ebp esp (halt_status st),
      k4\<lparr>pid := p, parent_pid := pcb_parent (pcbs k4 (find_PCB p)), pcb_obj := find_PCB p, int_flag := True\<rparr>)"
    unfolding halt_to_parent_def Let_def assms(1) k1(1) k2_def[symmetric] k3_def[symmetric] k4_def[symmetric] k4(1)
    by simp
  have rest: "kmem k4 = kmem k" "kfs k4 = kfs k" "paging_sized (kpaging k4)" "num_chars_typed k4 = num_chars_typed k"
    "\<And>a. a \<noteq> find_PCB c \<Longrightarrow> pcbs k4 a = pcbs k a"
    using sz execute_paging_sized assms(4)
    by (simp_all add: k4_def k3_def k2_def halt_clear_pcb_def kernel_simps k_execute_paging_def) (simp_all add: upd_pcb_def)
  show ?thesis
    unfolding res using k4(1-6) k4(7)[unfolded esp0] cf rest
    by (intro exI[of _ "k4\<lparr>pid := p, parent_pid := pcb_parent (pcbs k4 (find_PCB p)),
        pcb_obj := find_PCB p, int_flag := True\<rparr>"]) (simp add: cur_pcb_def cur_frame_def)
qed

section \<open>Properties\<close>

text \<open>A kernel for the witnesses: the program \<^verbatim>\<open>a\<close> of 28 bytes with entry point
  0x08048094, and the command \<^verbatim>\<open>a x\<close> at address 100.\<close>

definition elf_image :: mem where
  "elf_image = demo_image(8192 := 28, 12288 := 0x7f, 12289 := 0x45, 12290 := 0x4c, 12291 := 0x46, 12292 := 0,
     12312 := 0x94, 12313 := 0x80, 12314 := 0x04, 12315 := 0x08, 100 := 0x61, 101 := 0x20, 102 := 0x78, 103 := 0)"

definition closed_desc :: file_descriptor where
  "closed_desc = \<lparr>fop = Some Null_ops, inode_idx = 0, file_position = 0, flags = 0, fd_type = 0\<rparr>"

definition demo_block :: "u32 \<Rightarrow> int \<Rightarrow> pcb" where
  "demo_block a par = \<lparr>active = a, pcb_pid = 0, pcb_parent = par, fda = exec_fda (replicate 8 closed_desc),
     eip_val = 0, esp_val = 0x700, ebp_val = 0x704, tss_esp0 = 0, pargs = replicate 32 0\<rparr>"

definition demo_kernel :: "(int \<Rightarrow> pcb) \<Rightarrow> int \<Rightarrow> kernel" where
  "demo_kernel ps p =
     \<lparr>con = \<lparr>vid = (\<lambda>_. 0), screen_x = 0, screen_y = 0, outs = []\<rparr>,
      kpic = pic_boot, keyboard_buffer = replicate 128 0, num_chars_typed = 0, ctrl_pressed = 0,
      shift_pressed = 0, capslock_pressed = 0, alt_pressed = 0, enter_pressed_flag = 0,
      curr_terminal_id = 0, terminals = [], kmem = elf_image, frames = (\<lambda>_ _. 0), kfs = demo_fs,
      kpaging = paging_boot, pcbs = ps, pcb_obj = find_PCB p, pid = p, parent_pid = 0, tss_ss0 = 0,
      tss_esp0_reg = 0, clock_count = 0, int_flag = True, cmos_log = [], keys_in = [], ticks_in = [],
      cmos_byte = 0\<rparr>"

lemma demo_kernel_fields:
  "kfs (demo_kernel ps p) = demo_fs" "kpaging (demo_kernel ps p) = paging_boot" "pcbs (demo_kernel ps p) = ps"
  "pid (demo_kernel ps p) = p" "pcb_obj (demo_kernel ps p) = find_PCB p" "cur_pcb (demo_kernel ps p) = ps (find_PCB p)"
  by (simp_all add: demo_kernel_def cur_pcb_def)

lemma demo_kernel_view: "\<not> in_program_page a \<Longrightarrow> view (demo_kernel ps p) a = elf_image a"
  by (simp add: view_outside_page demo_kernel_def)

lemma elf_counts:
  assumes "m = view (demo_kernel ps p)"
  shows "dir_count m demo_fs = 1" "inode_count m demo_fs = 1" "data_count m demo_fs = 1"
    "inode_length m demo_fs 0 = 28" "data_block_num m demo_fs 0 0 = 0"
  unfolding assms
  by (simp_all add: dir_count_def inode_count_def data_count_def inode_length_def data_block_num_def
      le32_def demo_fs_def demo_kernel_view in_program_page_def) (simp_all add: elf_image_def demo_image_def)

lemma elf_ok:
  "image_ok (demo_kernel ps p)" "fs_end (view (demo_kernel ps p)) demo_fs = 16384"
  "wf_inode (view (demo_kernel ps p)) demo_fs 0"
proof -
  show e: "fs_end (view (demo_kernel ps p)) demo_fs = 16384"
    by (simp add: fs_end_def elf_counts) (simp add: demo_fs_def)
  show "image_ok (demo_kernel ps p)"
    unfolding image_ok_def wf_fs_def using e
    by (simp add: demo_kernel_fields elf_counts) (simp add: demo_fs_def)
  show "wf_inode (view (demo_kernel ps p)) demo_fs 0"
    by (simp add: wf_inode_def elf_counts upt_rec)
qed

text \<open>C35: The descriptor table stays well-formed: a new process starts with such a table, and open
  and close keep it, so a closed descriptor always has the null operations and an open one those
  of its type.\<close>
theorem descriptors_stay_ok:
  "(length l = MAX_OPEN_FILES \<longrightarrow> fds_ok (exec_fda l)) \<and>
   (fds_ok (fda (cur_pcb k)) \<longrightarrow>
      (\<forall>r k1. system_open name k = Some (r, k1) \<longrightarrow> fds_ok (fda (cur_pcb k1))) \<and>
      fds_ok (fda (cur_pcb (snd (system_close fd k)))))"
  using exec_fda_ok system_open_ok system_close_ok by blast

text \<open>A further fact about the same definitions.\<close>
lemma closed_descriptor_inert:
  assumes "fds_ok (fda (cur_pcb k))" "0 \<le> fd" "fd < 8" "flags (fda (cur_pcb k) ! nat fd) = 0" "buf \<noteq> 0"
  shows "system_read ex loc fd buf n k = Some (- 1, k) \<and> system_write fd buf n k = Some (- 1, k)"
proof -
  have "fop (fda (cur_pcb k) ! nat fd) = Some Null_ops"
    using assms(1-4) by (auto simp: fds_ok_def fd_ok_def MAX_OPEN_FILES_def dest!: spec[of _ "nat fd"])
  then show ?thesis
    using assms by (simp add: system_read_def system_write_def sys_consts fop_write_def
        no_operation_write_def kernel_simps)
qed

text \<open>A further fact about the same definitions.\<close>
lemma open_then_close:
  assumes "system_open name k = Some (fd, k1)" "fd \<noteq> - 1" "fds_ok (fda (cur_pcb k))"
  shows "2 \<le> fd \<and> fd < 8 \<and> flags (fda (cur_pcb k) ! nat fd) = 0 \<and>
    (\<forall>j. 2 \<le> j \<and> j < fd \<longrightarrow> flags (fda (cur_pcb k) ! nat j) \<noteq> 0) \<and>
    flags (fda (cur_pcb k1) ! nat fd) = 1 \<and> file_position (fda (cur_pcb k1) ! nat fd) = 0 \<and>
    (\<exists>k2. system_close fd k1 = (0, k2) \<and> view k2 = view k \<and>
       fda (cur_pcb k2) = (fda (cur_pcb k))[nat fd := closed_fd (fda (cur_pcb k1) ! nat fd)])"
proof -
  obtain d :: dentry and tab where o: "type_table (file_type d) = Some tab"
    "open_fd tab (file_type d) (inode_num d) k = (Some fd, k1)"
    by (rule system_open_cases[OF assms(1)]) (use assms(2) in auto)
  have len: "length (fda (cur_pcb k)) = 8" using assms(3) by (simp add: fds_ok_def MAX_OPEN_FILES_def)
  show ?thesis
  proof (cases rule: open_fd_cases[OF o(2)])
    case 1 then show ?thesis by simp
  next
    case (2 fd')
    have n: "nat fd < 8" using 2 by simp
    show ?thesis using 2 len n by (simp add: system_close_eq kernel_simps)
  qed
qed

text \<open>A further fact about the same definitions.\<close>
lemma command_arguments:
  assumes "cstr m cmd (w @ 0x20 # rest)" "cmd \<noteq> 0" "length w + length rest < 128" "0x20 \<notin> set w"
  shows "\<exists>fname. exec_parse g m cmd = Some (Some (fname, last_word (w @ 0x20 # rest) @
      replicate (128 - length (last_word (w @ 0x20 # rest))) 0)) \<and> takeWhile (\<lambda>b. b \<noteq> 0) fname = w"
proof -
  have "0 \<notin> set w" using assms(1) by (simp add: cstr_def)
  then have "map (\<lambda>c. if c = 0x20 then 0 else c) w = w" "takeWhile (\<lambda>b. b \<noteq> 0) (w @ 0 # ys) = w" for ys
    using assms(4) by (induction w) auto
  then show ?thesis
    using exec_parse_spec[OF assms(1,2), of g] assms(3) by simp
qed

theorem command_arguments_witness:
  "\<exists>fname. exec_parse 7 (put_bytes (\<lambda>_. 0) 100 [0x67, 0x20, 0x61, 0x20, 0x62]) 100 =
     Some (Some (fname, 0x62 # replicate 127 0)) \<and> takeWhile (\<lambda>b. b \<noteq> 0) fname = [0x67]"
  using command_arguments[of "put_bytes (\<lambda>_. 0) 100 [0x67, 0x20, 0x61, 0x20, 0x62]" 100 "[0x67]" "[0x61, 0x20, 0x62]" 7]
  by (simp add: cstr_def bytes_of_def put_bytes_def last_word_def)

text \<open>A further fact about the same definitions.\<close>
lemma vidmap_range:
  "(fst (system_vidmap vpt a k) = 0) = (0x8000000 \<le> a \<and> a \<le> 0x8400000) \<and>
   (fst (system_vidmap vpt a k) = 0 \<or> system_vidmap vpt a k = (- 1, k))"
  by (auto simp: system_vidmap_def IMG_BIG_START_def PAGESIZE_4MB_def Let_def)

text \<open>A further fact about the same definitions.\<close>
lemma assign_PID_least:
  "(\<exists>i. 0 \<le> i \<and> i < 5 \<and> active (pcbs k (find_PCB i)) = 0 \<and>
      (\<forall>j. 0 \<le> j \<and> j < i \<longrightarrow> active (pcbs k (find_PCB j)) \<noteq> 0) \<and> assign_PID k = (i, k)) \<or>
   (fst (assign_PID k) = - 99 \<and> (\<forall>i. 0 \<le> i \<and> i < 5 \<longrightarrow> active (pcbs k (find_PCB i)) \<noteq> 0))"
proof (cases "assign_scan (pcbs k) 0 MAX_PROCESSES")
  case (Some i)
  then show ?thesis
    using assign_scan_spec[OF Some] by (auto simp: assign_PID_def MAX_PROCESSES_def)
next
  case None
  have "active (pcbs k (find_PCB i)) \<noteq> 0" if "0 \<le> i" "i < 5" for i
    using None[unfolded assign_scan_None, rule_format, of "nat i"] that by (simp add: MAX_PROCESSES_def)
  with None show ?thesis by (simp add: assign_PID_def ASSIGN_PID_ERROR_def)
qed

theorem descriptors_stay_ok_witness:
  "fds_ok (exec_fda (replicate 8 closed_desc)) \<and>
   fds_ok (fda (cur_pcb (snd (system_close 2 (demo_kernel (\<lambda>_. demo_block 1 0) 1)))))"
proof -
  have "fds_ok (exec_fda (replicate 8 closed_desc))"
    using descriptors_stay_ok[of "replicate 8 closed_desc"] by (simp add: MAX_OPEN_FILES_def)
  moreover from this have "fds_ok (fda (cur_pcb (demo_kernel (\<lambda>_. demo_block 1 0) 1)))"
    by (simp add: cur_pcb_def demo_kernel_def demo_block_def)
  ultimately show ?thesis using descriptors_stay_ok by blast
qed

theorem closed_descriptor_inert_witness:
  "system_write 5 100 1 (demo_kernel (\<lambda>_. demo_block 1 0) 1) = Some (- 1, demo_kernel (\<lambda>_. demo_block 1 0) 1)"
proof -
  have "fds_ok (fda (cur_pcb (demo_kernel (\<lambda>_. demo_block 1 0) 1)))"
    by (simp add: cur_pcb_def demo_kernel_def demo_block_def exec_fda_ok MAX_OPEN_FILES_def)
  then show ?thesis
    using closed_descriptor_inert[of "demo_kernel (\<lambda>_. demo_block 1 0) 1" 5 100 "\<lambda>_. None" 0 1]
    by (simp add: cur_pcb_def demo_kernel_def demo_block_def exec_fda_def Let_def closed_fd_def closed_desc_def
        numeral_eq_Suc)
qed

theorem open_then_close_witness:
  "\<exists>k2. system_close 2 (snd (the (system_open 4160 (demo_kernel (\<lambda>_. demo_block 1 0) 1)))) = (0, k2) \<and>
     view k2 = view (demo_kernel (\<lambda>_. demo_block 1 0) 1)"
proof -
  let ?k = "demo_kernel (\<lambda>_. demo_block 1 0) 1"
  have ok: "fds_ok (fda (cur_pcb ?k))"
    by (simp add: demo_kernel_fields demo_block_def exec_fda_ok MAX_OPEN_FILES_def)
  have nm: "read_dentry_by_name (view ?k) (kfs ?k) 4160 = Some (read_dentry_by_index (view ?k) demo_fs 0)"
    using dentry_scan_finds[of 1 "view ?k" demo_fs 0 4160]
    by (simp add: read_dentry_by_name_def demo_kernel_fields elf_counts dir_table_def)
       (simp add: direntry_def demo_fs_def read_dentry_by_index_def NUM_MAX_FILES_def)
  have ty: "\<exists>d. read_dentry_by_index (view ?k) demo_fs 0 = Some d \<and> file_type d = 2"
    by (simp add: read_dentry_by_index_def elf_counts NUM_MAX_FILES_def)
       (simp add: le32_def demo_kernel_view in_program_page_def direntry_def demo_fs_def elf_image_def demo_image_def)
  have sc: "open_scan (fda (cur_pcb ?k)) 2 6 = Some 2"
    by (simp add: demo_kernel_fields demo_block_def exec_fda_def Let_def closed_fd_def closed_desc_def numeral_eq_Suc)
  obtain k1 where o: "system_open 4160 ?k = Some (2, k1)"
    using ty sc by (auto simp: system_open_def nm open_fd_def sys_consts)
  then show ?thesis using open_then_close[OF o _ ok] by auto
qed

lemma execute_loads:
  assumes "image_ok k" "fs_end (view k) (kfs k) \<le> stk" "stk + 264 \<le> 0x8000000"
    and "exec_parse g (view k) cmd = Some (Some (fname, args))"
    and "read_dentry_by_name (put_bytes (view k) stk (fname @ args)) (kfs k) stk = Some (Some d)"
    and "wf_inode (view k) (kfs k) (inode_num d)" "content = file_content (view k) (kfs k) (inode_num d)"
    and "take 4 content = [0x7f, 0x45, 0x4c, 0x46]" "28 \<le> length content" "length content \<le> 0x3B8000"
    and "assign_PID k = (c, k)" "c \<noteq> - 99" "paging_sized (kpaging k)" "length (fname @ args) = 256"
  shows "\<exists>k'. system_execute g stk esp ebp cmd k = Some (Iret (le32 (\<lambda>i. content ! i) 24) 0x83FFFFC, k') \<and>
    pid k' = c \<and> pcb_obj k' = find_PCB c \<and> bytes_of (view k') 0x8048000 (length content) = content \<and>
    unat (cur_frame k') = 1024 * (2 + nat c) \<and> (\<forall>f. f \<noteq> cur_frame k' \<longrightarrow> frames k' f = frames k f) \<and>
    active (cur_pcb k') = 1 \<and> pcb_parent (cur_pcb k') = (if c = 0 then - 1 else pid k) \<and>
    ebp_val (cur_pcb k') = ebp \<and> esp_val (cur_pcb k') = esp \<and>
    tss_esp0_reg k' = word_of_int (find_PCB (c - 1) - 4) \<and>
    (\<forall>a. a \<noteq> find_PCB c \<longrightarrow> pcbs k' a = pcbs k a) \<and>
    fda (cur_pcb k') = exec_fda (fda (pcbs k (find_PCB c)))"
proof -
  define k1 where "k1 = exec_locals stk fname args k"
  have v1: "view k1 = put_bytes (view k) stk (fname @ args)" by (simp add: k1_def exec_locals_def kernel_simps)
  have kept0: "image_kept k k" by (simp add: image_kept_def)
  have kept: "image_kept k k1"
    unfolding k1_def exec_locals_def by (rule image_kept_put[OF assms(1) kept0 assms(2)])
  have f1: "frames k1 = frames k"
    unfolding k1_def exec_locals_def using assms(3,14)
    by (intro frames_set_view) (auto simp: put_bytes_def in_program_page_def)
  have p1: "pcbs k1 = pcbs k" "kpaging k1 = kpaging k" "kfs k1 = kfs k" "pid k1 = pid k"
    by (simp_all add: k1_def exec_locals_def kernel_simps)
  have free: "assign_scan (pcbs k1) 0 5 = Some c"
    using assms(11,12) by (auto simp: p1 assign_PID_def MAX_PROCESSES_def ASSIGN_PID_ERROR_def split: option.splits)
  have len: "inode_length (view k1) (kfs k1) (inode_num d) = inode_length (view k) (kfs k) (inode_num d)"
    by (rule image_kept_facts(5)[OF assms(1) kept assms(6)])
  have sz1: "paging_sized (kpaging k1)" using assms(13) by (simp add: p1)
  note load = exec_load_spec[OF assms(1) kept assms(2,3,6,7,8,9,10) free sz1, of esp ebp "pid k"]
  have "system_execute g stk esp ebp cmd k =
      Some (exec_load stk esp ebp (pid k) (inode_num d) (inode_length (view k) (kfs k) (inode_num d)) k1)"
    using assms(4,5) len by (simp add: system_execute_def Let_def k1_def[symmetric] v1 p1)
  with load show ?thesis by (auto simp: f1 p1)
qed

text \<open>C3: Executing a command that names an ELF file of the image, with a process number free, enters
  user code at the address stored in bytes 24 to 27 of the file with the stack pointer at the
  end of the program page: the file stands at 0x8048000 in the frame of the new process, no
  other frame changes, and the new control block is active, has its parent, the saved stack
  frame, a fresh descriptor table and its kernel stack in the task state, while the other
  control blocks are unchanged.\<close>
theorem execute_loads_program:
  assumes "image_ok k" "fs_end (view k) (kfs k) \<le> stk" "stk + 264 \<le> 0x8000000"
    and "exec_parse g (view k) cmd = Some (Some (fname, args))"
    and "read_dentry_by_name (put_bytes (view k) stk (fname @ args)) (kfs k) stk = Some (Some d)"
    and "wf_inode (view k) (kfs k) (inode_num d)" "content = file_content (view k) (kfs k) (inode_num d)"
    and "take 4 content = [0x7f, 0x45, 0x4c, 0x46]" "28 \<le> length content" "length content \<le> 0x3B8000"
    and "assign_PID k = (c, k)" "c \<noteq> - 99" "paging_sized (kpaging k)" "length (fname @ args) = 256"
  shows "\<exists>k'. system_execute g stk esp ebp cmd k = Some (Iret (le32 (\<lambda>i. content ! i) 24) 0x83FFFFC, k') \<and>
    pid k' = c \<and> pcb_obj k' = find_PCB c \<and> bytes_of (view k') 0x8048000 (length content) = content \<and>
    unat (cur_frame k') = 1024 * (2 + nat c) \<and> (\<forall>f. f \<noteq> cur_frame k' \<longrightarrow> frames k' f = frames k f) \<and>
    active (cur_pcb k') = 1 \<and> pcb_parent (cur_pcb k') = (if c = 0 then - 1 else pid k) \<and>
    ebp_val (cur_pcb k') = ebp \<and> esp_val (cur_pcb k') = esp \<and>
    tss_esp0_reg k' = word_of_int (find_PCB (c - 1) - 4) \<and>
    (\<forall>a. a \<noteq> find_PCB c \<longrightarrow> pcbs k' a = pcbs k a) \<and>
    fda (cur_pcb k') = exec_fda (fda (pcbs k (find_PCB c)))"
  by (rule execute_loads[OF assms])

lemma halt_returns:
  assumes "pcb_parent (cur_pcb k) = p" "0 \<le> p" "p \<le> 4" "pcb_obj k = find_PCB c" "pid k = c" "c \<noteq> p"
    and "paging_sized (kpaging k)"
  shows "\<exists>k'. system_halt g stk esp ebp shell st k =
      Some (Unwind (ebp_val (cur_pcb k)) (esp_val (cur_pcb k)) (if st = 255 then 256 else ucast st), k') \<and>
    pid k' = p \<and> pcb_obj k' = find_PCB p \<and> cur_pcb k' = pcbs k (find_PCB p) \<and>
    active (pcbs k' (find_PCB c)) = 0 \<and> fda (pcbs k' (find_PCB c)) = map closed_fd (fda (cur_pcb k)) \<and>
    unat (cur_frame k') = 1024 * (2 + nat p) \<and> frames k' = frames k \<and>
    tss_esp0_reg k' = word_of_int (find_PCB (p - 1) - 4)"
proof -
  let ?k = "k\<lparr>int_flag := False\<rparr>"
  have cur: "cur_pcb ?k = cur_pcb k" by (simp add: cur_pcb_def)
  have "system_halt g stk esp ebp shell st k =
      Some (halt_to_parent st (ebp_val (cur_pcb k)) (esp_val (cur_pcb k)) ?k)"
    using assms(1,2) by (simp add: system_halt_def Let_def cur)
  moreover have "halt_status st = (if st = 255 then 256 else ucast st)" by (simp add: halt_status_def)
  ultimately show ?thesis
    using halt_to_parent_spec[of ?k p c st "ebp_val (cur_pcb k)" "esp_val (cur_pcb k)"] assms
    by (auto simp: cur)
qed

text \<open>C5: Halting a process with a parent returns to the frame the parent saved in execute with the
  status as result (256 for an exception), makes the parent current again with its page mapped
  and its kernel stack in the task state, frees the process number, closes all descriptors and
  leaves every frame as it was.\<close>
theorem halt_returns_to_parent:
  assumes "pcb_parent (cur_pcb k) = p" "0 \<le> p" "p \<le> 4" "pcb_obj k = find_PCB c" "pid k = c" "c \<noteq> p"
    and "paging_sized (kpaging k)"
  shows "\<exists>k'. system_halt g stk esp ebp shell st k =
      Some (Unwind (ebp_val (cur_pcb k)) (esp_val (cur_pcb k)) (if st = 255 then 256 else ucast st), k') \<and>
    pid k' = p \<and> pcb_obj k' = find_PCB p \<and> cur_pcb k' = pcbs k (find_PCB p) \<and>
    active (pcbs k' (find_PCB c)) = 0 \<and> fda (pcbs k' (find_PCB c)) = map closed_fd (fda (cur_pcb k)) \<and>
    unat (cur_frame k') = 1024 * (2 + nat p) \<and> frames k' = frames k \<and>
    tss_esp0_reg k' = word_of_int (find_PCB (p - 1) - 4)"
  by (rule halt_returns[OF assms])

text \<open>The command \<^verbatim>\<open>a x\<close> of the demonstration kernel, entry by entry.\<close>

definition demo_fname :: "byte list" where "demo_fname = [0x61, 0, 0x78] @ replicate 125 0"
definition demo_args :: "byte list" where "demo_args = [0x78] @ replicate 127 0"

lemma demo_locals_facts:
  "length demo_fname = 128" "length demo_args = 128" "(demo_fname @ demo_args) ! 0 = 0x61"
  "(demo_fname @ demo_args) ! Suc 0 = 0"
  by (simp_all add: demo_fname_def demo_args_def)

lemma demo_parse:
  "exec_parse 0 (view (demo_kernel ps p)) 100 =
Some (Some (demo_fname, demo_args))"
proof -
  have "cstr (view (demo_kernel ps p)) 100 [0x61, 0x20, 0x78]"
    by (simp add: cstr_Cons demo_kernel_view in_program_page_def elf_image_def)
  then show ?thesis by (simp add: exec_parse_spec last_word_def demo_fname_def demo_args_def)
qed

lemma demo_content_elf:
  "file_content (view (demo_kernel ps p)) demo_fs 0 =
     [0x7f, 0x45, 0x4c, 0x46, 0, 0, 0, 0, 0, 0, 0, 0, 0, 0, 0, 0, 0, 0, 0, 0, 0, 0, 0, 0, 0x94, 0x80, 0x04, 0x08]"
  by (simp add: file_content_def elf_counts upt_rec file_byte_def)
     (simp add: block_byte_def demo_fs_def demo_kernel_view in_program_page_def elf_image_def demo_image_def)

theorem halt_returns_to_parent_witness:
  "\<exists>k'. system_halt 0 20000 0 0 500 255 (demo_kernel (\<lambda>_. demo_block 1 2) 3) =
     Some (Unwind 0x704 0x700 256, k') \<and> pid k' = 2"
  using halt_returns_to_parent[of "demo_kernel (\<lambda>_. demo_block 1 2) 3" 2 3 0 20000 0 0 500 255] paging_boot_ok
  by (auto simp: demo_kernel_fields demo_block_def)

theorem execute_loads_program_witness:
  "\<exists>k'. system_execute 0 20000 7 9 100 (demo_kernel (\<lambda>_. demo_block 0 0) 3) = Some (Iret 0x08048094 0x83FFFFC, k') \<and>
     pid k' = 0 \<and> pcb_parent (cur_pcb k') = - 1"
proof -
  let ?k = "demo_kernel (\<lambda>_. demo_block 0 0) 3"
  have ok: "image_ok ?k" "fs_end (view ?k) (kfs ?k) \<le> 20000" "wf_inode (view ?k) (kfs ?k) 0"
    using elf_ok by (simp_all add: demo_kernel_fields)
  let ?m = "put_bytes (view ?k) 20000 (demo_fname @ demo_args)"
  have at: "?m a = elf_image a" if "a < 20000" for a
    using that by (simp add: put_bytes_out demo_kernel_view in_program_page_def)
  have c: "dir_count ?m demo_fs = 1"
    by (simp add: dir_count_def le32_def demo_fs_def at) (simp add: elf_image_def demo_image_def)
  have "cstr ?m 20000 [0x61]"
    using put_bytes_in[of 0 "demo_fname @ demo_args" "view ?k" 20000] put_bytes_in[of 1 "demo_fname @ demo_args" "view ?k" 20000]
    by (simp add: cstr_Cons demo_locals_facts)
  moreover have "cstr ?m (direntry demo_fs 0) [0x61]"
    by (simp add: cstr_Cons direntry_def demo_fs_def at) (simp add: elf_image_def demo_image_def)
  ultimately have nm: "cname ?m 20000 32 = [0x61]" "cname ?m (direntry demo_fs 0) 32 = [0x61]"
    by (simp_all add: cname_cstr)
  have "le32 ?m (direntry demo_fs 0 + 36) = 0"
    by (simp add: le32_def direntry_def demo_fs_def at) (simp add: elf_image_def demo_image_def)
  then obtain d :: dentry where d: "read_dentry_by_index ?m demo_fs 0 = Some d" "inode_num d = 0"
    by (simp add: read_dentry_by_index_def c)
  have "read_dentry_by_name ?m demo_fs 20000 = Some (Some d)"
    using dentry_scan_finds[of 1 ?m demo_fs 0 20000] d nm
    by (simp add: read_dentry_by_name_def c dir_table_def)
  moreover have "assign_PID ?k = (0, ?k)" by (simp add: assign_PID_def demo_kernel_fields demo_block_def sys_consts numeral_eq_Suc)
  ultimately show ?thesis
    using execute_loads_program[OF ok(1,2) _ demo_parse, of d "file_content (view ?k) demo_fs 0" 0 7 9]
      ok(3) d(2) paging_boot_ok
    by (auto simp: demo_kernel_fields demo_locals_facts demo_content_elf le32_def)
qed

theorem assign_PID_least_witness:
  "assign_PID (demo_kernel (\<lambda>_. demo_block 0 0) 3) = (0, demo_kernel (\<lambda>_. demo_block 0 0) 3)"
  using assign_PID_least[of "demo_kernel (\<lambda>_. demo_block 0 0) 3"]
  by (auto simp: demo_kernel_fields demo_block_def)

text \<open>A further fact about the same definitions.\<close>
lemma execute_without_free_pid:
  assumes "\<forall>i. 0 \<le> i \<and> i < 5 \<longrightarrow> active (pcbs k (find_PCB i)) \<noteq> 0"
    and "fst (exec_is_elf stk ino k)"
  shows "\<exists>k'. exec_load stk esp ebp parent ino len k = (Ret (- 1), k') \<and> pid k' = - 99 \<and>
    pcbs k' = pcbs k \<and> pcb_obj k' = pcb_obj k \<and> kpaging k' = kpaging k"
proof -
  obtain k1 where e: "exec_is_elf stk ino k = (True, k1)" using assms(2) by (cases "exec_is_elf stk ino k") auto
  have k1: "k1 = snd (k_read_data ino 0 (stk + 256) 4 k)"
    using e by (simp add: exec_is_elf_def case_prod_unfold Let_def)
  have "assign_scan (pcbs k1) 0 MAX_PROCESSES = None"
    unfolding assign_scan_None using assms(1) by (simp add: k1 kernel_simps MAX_PROCESSES_def)
  then have "assign_PID k1 = (- 99, kprintk (''assign_PID: Maximum processes running!'' @ [CHR 0x0A]) k1)"
    by (simp add: assign_PID_def ASSIGN_PID_ERROR_def)
  then show ?thesis
    by (simp add: exec_load_def e ASSIGN_PID_ERROR_def kprintk_def) (simp add: k1 kernel_simps)
qed

theorem execute_without_free_pid_witness:
  "\<exists>k'. exec_load 20000 7 9 0 0 28 (demo_kernel (\<lambda>_. demo_block 1 0) 1) = (Ret (- 1), k') \<and> pid k' = - 99"
proof -
  let ?k = "demo_kernel (\<lambda>_. demo_block 1 0) 1"
  have "wf_fs (view ?k) (kfs ?k)" using elf_ok(1)[of "\<lambda>_. demo_block 1 0" 1] by (simp add: image_ok_def)
  moreover have "outside_image (view ?k) (kfs ?k) 20256 4" by (simp add: outside_image_def demo_kernel_fields elf_ok fs_end_def[symmetric])
  ultimately have "k_read_data 0 0 20256 4 ?k = (4, set_view (put_bytes (view ?k) 20256 [0x7f, 0x45, 0x4c, 0x46]) ?k)"
    using elf_ok(3)[of "\<lambda>_. demo_block 1 0" 1]
    by (simp add: k_read_data_eq demo_kernel_fields demo_content_elf)
  then have "fst (exec_is_elf 20000 0 ?k)" by (simp add: exec_is_elf_def kernel_simps)
  then show ?thesis
    using execute_without_free_pid[of ?k 20000 0 7 9 0 28] by (auto simp: demo_kernel_fields demo_block_def)
qed

end
