(* ===== verification/UserLib.thy ===== *)
theory UserLib
  imports Processes
begin

text \<open>The support library of the user programs, \<^verbatim>\<open>syscalls/ece391support.c\<close>, and what a program
  needs to run: its memory is the view of the current process, its system calls are those of the
  kernel.  \<^verbatim>\<open>uenv\<close> holds what the C text leaves to the tool chain and the machine: what an Alt-F
  key does while a read waits, the address of the local of \<^verbatim>\<open>directory_read\<close>, the bytes behind
  the argument array and the addresses of the string literals.\<close>

record uenv =
  u_ex :: "kernel \<Rightarrow> kernel option"
  u_loc :: nat
  u_past :: "nat \<Rightarrow> byte"
  u_lit :: "string \<Rightarrow> nat"

text \<open>A program stores a byte.\<close>

definition poke :: "nat \<Rightarrow> byte \<Rightarrow> kernel \<Rightarrow> kernel" where
  "poke a b k = set_view ((view k)(a := b)) k"

section \<open>Strings\<close>

partial_function (option) ece391_strlen_loop :: "mem \<Rightarrow> nat \<Rightarrow> u32 \<Rightarrow> u32 option" where
  "ece391_strlen_loop m s len = (if m s \<noteq> 0 then ece391_strlen_loop m (s + 1) (len + 1) else Some len)"

definition ece391_strlen :: "mem \<Rightarrow> nat \<Rightarrow> u32 option" where
  "ece391_strlen m s = ece391_strlen_loop m s 0"

partial_function (option) ece391_strcpy :: "mem \<Rightarrow> nat \<Rightarrow> nat \<Rightarrow> mem option" where
  "ece391_strcpy m dst src =
    (let m1 = m(dst := m src) in if m src \<noteq> 0 then ece391_strcpy m1 (dst + 1) (src + 1) else Some m1)"

partial_function (option) ece391_strcmp :: "mem \<Rightarrow> nat \<Rightarrow> nat \<Rightarrow> int option" where
  "ece391_strcmp m s1 s2 =
    (if m s1 = m s2 then (if m s1 = 0 then Some 0 else ece391_strcmp m (s1 + 1) (s2 + 1))
     else Some (uint (m s1) - uint (m s2)))"

fun ece391_strncmp :: "mem \<Rightarrow> nat \<Rightarrow> nat \<Rightarrow> nat \<Rightarrow> int" where
  "ece391_strncmp m s1 s2 0 = 0"
| "ece391_strncmp m s1 s2 (Suc n) =
    (if m s1 = m s2 then (if m s1 = 0 \<or> n = 0 then 0 else ece391_strncmp m (s1 + 1) (s2 + 1) n)
     else uint (m s1) - uint (m s2))"

function ece391_strrev_loop :: "mem \<Rightarrow> nat \<Rightarrow> int \<Rightarrow> int \<Rightarrow> mem" where
  "ece391_strrev_loop m s beg fin =
    (if beg < fin then
       (let tmp = m (nat (int s + fin));
            m1 = m(nat (int s + fin) := m (nat (int s + beg)));
            m2 = m1(nat (int s + beg) := tmp)
        in ece391_strrev_loop m2 s (beg + 1) (fin - 1))
     else m)"
  by pat_completeness auto
termination by (relation "measure (\<lambda>(m, s, b, e). nat (e - b))") auto

declare ece391_strrev_loop.simps [simp del]

definition ece391_strrev :: "mem \<Rightarrow> nat \<Rightarrow> mem option" where
  "ece391_strrev m s = do {
     n \<leftarrow> ece391_strlen m s;
     let fin = sint (n - 1);
     if fin \<le> 0 then Some m else Some (ece391_strrev_loop m s 0 fin) }"

definition ece391_lookup :: "byte list" where
  "ece391_lookup = map (of_char :: char \<Rightarrow> byte) ''0123456789ABCDEFGHIJKLMNOPQRSTUVWXYZ'' @ [0]"

partial_function (option) ece391_itoa_loop :: "mem \<Rightarrow> nat \<Rightarrow> u32 \<Rightarrow> u32 \<Rightarrow> (mem \<times> nat) option" where
  "ece391_itoa_loop m newbuf newval radix =
    (if 0 < newval then
       (if radix = 0 then None
        else do {
          d \<leftarrow> rd ece391_lookup (unat (newval mod radix));
          ece391_itoa_loop (m(newbuf := d)) (newbuf + 1) (newval div radix) radix })
     else Some (m, newbuf))"

definition ece391_itoa :: "mem \<Rightarrow> u32 \<Rightarrow> nat \<Rightarrow> u32 \<Rightarrow> mem option" where
  "ece391_itoa m v buf radix =
    (if v = 0 then Some (m(buf := 0x30, buf + 1 := 0))
     else do {
       (m1, newbuf) \<leftarrow> ece391_itoa_loop m buf v radix;
       ece391_strrev (m1(newbuf := 0)) buf })"

definition ece391_fdputs :: "int \<Rightarrow> nat \<Rightarrow> kernel \<Rightarrow> kernel option" where
  "ece391_fdputs fd s k = do {
     n \<leftarrow> ece391_strlen (view k) s;
     (r, k1) \<leftarrow> system_write fd s (sint n) k;
     Some k1 }"

section \<open>Facts\<close>

lemma ece391_strlen_loop_cstr:
  "cstr m s xs \<Longrightarrow> ece391_strlen_loop m s len = Some (len + of_nat (length xs))"
proof (induction xs arbitrary: s len)
  case Nil
  then show ?case by (subst ece391_strlen_loop.simps) simp
next
  case (Cons x xs)
  then have "m s \<noteq> 0" "cstr m (Suc s) xs" by (auto simp: cstr_Cons)
  then show ?case
    using Cons.IH[of "Suc s" "len + 1"] by (subst ece391_strlen_loop.simps) (simp add: algebra_simps)
qed

lemma ece391_strlen_cstr: "cstr m s xs \<Longrightarrow> ece391_strlen m s = Some (of_nat (length xs))"
  by (simp add: ece391_strlen_def ece391_strlen_loop_cstr)

lemma ece391_strcmp_equal: "cstr m a xs \<Longrightarrow> cstr m b xs \<Longrightarrow> ece391_strcmp m a b = Some 0"
proof (induction xs arbitrary: a b)
  case Nil
  then show ?case by (subst ece391_strcmp.simps) simp
next
  case (Cons x xs)
  then show ?case using Cons.IH[of "Suc a" "Suc b"] by (subst ece391_strcmp.simps) (simp add: cstr_Cons)
qed

lemma ece391_strcmp_differ:
  "cstr m a xs \<Longrightarrow> cstr m b ys \<Longrightarrow> xs \<noteq> ys \<Longrightarrow> \<exists>d. ece391_strcmp m a b = Some d \<and> d \<noteq> 0"
proof (induction xs arbitrary: a b ys)
  case Nil
  then obtain y ys' where "ys = y # ys'" by (cases ys) auto
  then show ?case using Nil by (subst ece391_strcmp.simps) (simp add: cstr_Cons unsigned_eq_0_iff)
next
  case (Cons x xs)
  show ?case
  proof (cases ys)
    case Nil
    then show ?thesis using Cons.prems by (subst ece391_strcmp.simps) (simp add: cstr_Cons unsigned_eq_0_iff)
  next
    case (Cons y ys')
    then show ?thesis
      using Cons.prems Cons.IH[of "Suc a" "Suc b" ys']
      by (subst ece391_strcmp.simps) (auto simp: cstr_Cons simp flip: word_uint_eq_iff)
  qed
qed

lemma view_poke [kernel_simps]: "view (poke a b k) = (view k)(a := b)"
  by (simp add: poke_def kernel_simps)

lemma poke_fields [kernel_simps]:
  "cur_pcb (poke a b k) = cur_pcb k" "con (poke a b k) = con k" "kfs (poke a b k) = kfs k"
  by (simp_all add: poke_def kernel_simps)

end
