(* ===== verification/UserProgs.thy ===== *)
theory UserProgs
  imports UserLib
begin

text \<open>User programs, \<^verbatim>\<open>mp3_group_59/syscalls\<close>: cat, ls, grep, hello, the shell and
  testprint.  A program is a function on the kernel state; its result is the exit code it
  passes to halt.  A program that does not end is \<^const>\<open>None\<close>.\<close>

section \<open>Programs\<close>

definition say :: "uenv \<Rightarrow> string \<Rightarrow> kernel \<Rightarrow> kernel option" where
  "say U t k = ece391_fdputs 1 (u_lit U t) k"

subsection \<open>cat\<close>

partial_function (option) cat_loop :: "uenv \<Rightarrow> nat \<Rightarrow> int \<Rightarrow> kernel \<Rightarrow> (int \<times> kernel) option" where
  "cat_loop U buf fd k = do {
     (cnt, k1) \<leftarrow> system_read (u_ex U) (u_loc U) fd buf 1024 k;
     if cnt = 0 then Some (0, k1)
     else if cnt = - 1 then do { k2 \<leftarrow> say U (nl ''file read failed'') k1; Some (3, k2) }
     else do {
       (r, k2) \<leftarrow> system_write 1 buf cnt k1;
       if r = - 1 then Some (3, k2) else cat_loop U buf fd k2 } }"

definition cat_main :: "uenv \<Rightarrow> nat \<Rightarrow> kernel \<Rightarrow> (int \<times> kernel) option" where
  "cat_main U buf k =
    (let (r, k1) = system_getargs (u_past U) buf 1024 k in
     if r \<noteq> 0 then do { k2 \<leftarrow> say U (nl ''could not read arguments'') k1; Some (3, k2) }
     else do {
       (fd, k2) \<leftarrow> system_open buf k1;
       if fd = - 1 then do { k3 \<leftarrow> say U (nl ''file not found'') k2; Some (2, k3) }
       else cat_loop U buf fd k2 })"

subsection \<open>ls\<close>

partial_function (option) ls_loop :: "uenv \<Rightarrow> nat \<Rightarrow> int \<Rightarrow> kernel \<Rightarrow> (int \<times> kernel) option" where
  "ls_loop U buf fd k = do {
     (cnt, k1) \<leftarrow> system_read (u_ex U) (u_loc U) fd buf 32 k;
     if cnt = 0 then Some (0, k1)
     else if cnt = - 1 then do { k2 \<leftarrow> say U (nl ''directory entry read failed'') k1; Some (3, k2) }
     else do {
       let k2 = poke (buf + nat cnt) 0x0A k1;
       (r, k3) \<leftarrow> system_write 1 buf (cnt + 1) k2;
       if r = - 1 then Some (3, k3) else ls_loop U buf fd k3 } }"

definition ls_main :: "uenv \<Rightarrow> nat \<Rightarrow> kernel \<Rightarrow> (int \<times> kernel) option" where
  "ls_main U buf k = do {
     (fd, k1) \<leftarrow> system_open (u_lit U ''.'') k;
     if fd = - 1 then do { k2 \<leftarrow> say U (nl ''directory open failed'') k1; Some (2, k2) }
     else ls_loop U buf fd k1 }"

subsection \<open>grep\<close>

text \<open>The end of the line that starts at \<^verbatim>\<open>i\<close>, and the search in it: the line is printed when the
  pattern occurs at one of its positions.\<close>

function find_line_end :: "mem \<Rightarrow> nat \<Rightarrow> nat \<Rightarrow> nat \<Rightarrow> nat" where
  "find_line_end m dat fill_to i = (if i < fill_to \<and> m (dat + i) \<noteq> 0x0A then find_line_end m dat fill_to (i + 1) else i)"
  by pat_completeness auto
termination by (relation "measure (\<lambda>(m, d, fill_to, i). fill_to - i)") auto

function find_match :: "mem \<Rightarrow> nat \<Rightarrow> nat \<Rightarrow> nat \<Rightarrow> nat \<Rightarrow> nat \<Rightarrow> bool" where
  "find_match m dat s s_len line_end check =
    (if check < line_end then
       (if m s = m (dat + check) \<and> ece391_strncmp m (dat + check) s s_len = 0 then True
        else find_match m dat s s_len line_end (check + 1))
     else False)"
  by pat_completeness auto
termination by (relation "measure (\<lambda>(m, d, s, n, e, c). e - c)") auto

declare find_line_end.simps [simp del] find_match.simps [simp del]

definition print_match :: "uenv \<Rightarrow> nat \<Rightarrow> nat \<Rightarrow> kernel \<Rightarrow> kernel option" where
  "print_match U fname line k = do {
     k1 \<leftarrow> ece391_fdputs 1 fname k;
     k2 \<leftarrow> say U '':'' k1;
     k3 \<leftarrow> ece391_fdputs 1 line k2;
     say U [CHR 0x0A] k3 }"

text \<open>All lines of the buffer; the result is the new value of \<^verbatim>\<open>last\<close>.\<close>

partial_function (option) grep_lines ::
    "uenv \<Rightarrow> nat \<Rightarrow> nat \<Rightarrow> nat \<Rightarrow> nat \<Rightarrow> int \<Rightarrow> nat \<Rightarrow> nat \<Rightarrow> kernel \<Rightarrow> (nat \<times> kernel) option" where
  "grep_lines U dat s s_len fname cnt fill_to line_start k =
    (let line_end = find_line_end (view k) dat fill_to line_start;
         k1 = poke (dat + line_end) 0 k
     in if view k (dat + line_end) \<noteq> 0x0A \<and> cnt \<noteq> 0 \<and> line_start \<noteq> 0 then do {
          m \<leftarrow> ece391_strcpy (view k1) dat (dat + line_start);
          Some (fill_to - line_start, set_view m k1) }
        else do {
          k2 \<leftarrow> (if find_match (view k1) dat s s_len line_end line_start
                then print_match U fname (dat + line_start) k1 else Some k1);
          if line_end + 1 \<ge> fill_to then Some (0, k2)
          else grep_lines U dat s s_len fname cnt fill_to (line_end + 1) k2 })"

partial_function (option) grep_reads ::
    "uenv \<Rightarrow> nat \<Rightarrow> nat \<Rightarrow> nat \<Rightarrow> nat \<Rightarrow> int \<Rightarrow> nat \<Rightarrow> kernel \<Rightarrow> (bool \<times> kernel) option" where
  "grep_reads U dat s s_len fname fd fill_to k = do {
     (cnt, k1) \<leftarrow> system_read (u_ex U) (u_loc U) fd (dat + fill_to) (1024 - int fill_to) k;
     if cnt = - 1 then do { k2 \<leftarrow> say U (nl ''file read failed'') k1; Some (False, k2) }
     else do {
       (fill_to1, k2) \<leftarrow> grep_lines U dat s s_len fname cnt (fill_to + nat cnt) 0 k1;
       if cnt = 0 then Some (True, k2) else grep_reads U dat s s_len fname fd fill_to1 k2 } }"

definition do_one_file :: "uenv \<Rightarrow> nat \<Rightarrow> nat \<Rightarrow> nat \<Rightarrow> kernel \<Rightarrow> (int \<times> kernel) option" where
  "do_one_file U dat s fname k = do {
     n \<leftarrow> ece391_strlen (view k) s;
     (fd, k1) \<leftarrow> system_open fname k;
     if fd = - 1 then do { k2 \<leftarrow> say U (nl ''file open failed'') k1; Some (- 1, k2) }
     else do {
       (ok, k2) \<leftarrow> grep_reads U dat s (unat n) fname fd 0 k1;
       if \<not> ok then Some (- 1, k2)
       else
        (let (r, k3) = system_close fd k2 in
         if r = - 1 then do { k4 \<leftarrow> say U (nl ''file close failed'') k3; Some (- 1, k4) } else Some (0, k3)) } }"

partial_function (option) grep_loop :: "uenv \<Rightarrow> nat \<Rightarrow> nat \<Rightarrow> nat \<Rightarrow> int \<Rightarrow> kernel \<Rightarrow> (int \<times> kernel) option" where
  "grep_loop U buf search dat fd k = do {
     (cnt, k1) \<leftarrow> system_read (u_ex U) (u_loc U) fd buf 32 k;
     if cnt = 0 then Some (0, k1)
     else if cnt = - 1 then do { k2 \<leftarrow> say U (nl ''directory entry read failed'') k1; Some (3, k2) }
     else if view k1 buf = 0x2E then grep_loop U buf search dat fd k1
     else do {
       (r, k2) \<leftarrow> do_one_file U dat search buf (poke (buf + nat cnt) 0 k1);
       if r \<noteq> 0 then Some (3, k2) else grep_loop U buf search dat fd k2 } }"

definition grep_main :: "uenv \<Rightarrow> nat \<Rightarrow> nat \<Rightarrow> nat \<Rightarrow> kernel \<Rightarrow> (int \<times> kernel) option" where
  "grep_main U buf search dat k =
    (let (r, k1) = system_getargs (u_past U) search 1024 k in
     if r \<noteq> 0 then do { k2 \<leftarrow> say U (nl ''could not read argument'') k1; Some (3, k2) }
     else do {
       (fd, k2) \<leftarrow> system_open (u_lit U ''.'') k1;
       if fd = - 1 then do { k3 \<leftarrow> say U (nl ''directory open failed'') k2; Some (2, k3) }
       else grep_loop U buf search dat fd k2 })"

subsection \<open>hello, testprint\<close>

definition hello_main :: "uenv \<Rightarrow> nat \<Rightarrow> kernel \<Rightarrow> (int \<times> kernel) option" where
  "hello_main U buf k = do {
     k1 \<leftarrow> say U ''Hi, what's your name? '' k;
     (cnt, k2) \<leftarrow> system_read (u_ex U) (u_loc U) 0 buf 1023 k1;
     if cnt = - 1 then do { k3 \<leftarrow> say U (nl ''Can't read name from keyboard.'') k2; Some (3, k3) }
     else do {
       k3 \<leftarrow> say U ''Hello, '' (poke (buf + nat cnt) 0 k2);
       k4 \<leftarrow> ece391_fdputs 1 buf k3;
       Some (0, k4) } }"

definition testprint_main :: "uenv \<Rightarrow> kernel \<Rightarrow> (int \<times> kernel) option" where
  "testprint_main U k = do {
     k1 \<leftarrow> say U (nl ''Hello, if this ran, the program was correct. Yay!'') k;
     Some (0, k1) }"

subsection \<open>The shell\<close>

text \<open>\<^verbatim>\<open>run\<close> is the execute system call as the shell sees it: the started program runs to its end,
  and the call returns its status.\<close>

definition shell_report :: "uenv \<Rightarrow> int \<Rightarrow> kernel \<Rightarrow> kernel option" where
  "shell_report U rval k =
    (if rval = - 1 then say U (nl ''no such command'') k
     else if rval = 256 then say U (nl ''program terminated by exception'') k
     else if rval \<noteq> 0 then say U (nl ''program terminated abnormally'') k
     else Some k)"

partial_function (option) shell_loop ::
    "uenv \<Rightarrow> (nat \<Rightarrow> kernel \<Rightarrow> (int \<times> kernel) option) \<Rightarrow> nat \<Rightarrow> kernel \<Rightarrow> (int \<times> kernel) option" where
  "shell_loop U run buf k = do {
     k1 \<leftarrow> say U ''391OS> '' k;
     (cnt, k2) \<leftarrow> system_read (u_ex U) (u_loc U) 0 buf 1023 k1;
     if cnt = - 1 then do { k3 \<leftarrow> say U (nl ''read from keyboard failed'') k2; Some (3, k3) }
     else do {
       let c = (if cnt > 0 \<and> view k2 (buf + nat (cnt - 1)) = 0x0A then cnt - 1 else cnt);
       let k3 = poke (buf + nat c) 0 k2;
       d \<leftarrow> ece391_strcmp (view k3) buf (u_lit U ''exit'');
       if d = 0 then Some (0, k3)
       else if view k3 buf = 0 then shell_loop U run buf k3
       else do {
         (rval, k4) \<leftarrow> run buf k3;
         k5 \<leftarrow> shell_report U rval k4;
         shell_loop U run buf k5 } } }"

definition shell_main ::
    "uenv \<Rightarrow> (nat \<Rightarrow> kernel \<Rightarrow> (int \<times> kernel) option) \<Rightarrow> nat \<Rightarrow> kernel \<Rightarrow> (int \<times> kernel) option" where
  "shell_main U run buf k = do { k1 \<leftarrow> say U (nl ''Starting 391 Shell'') k; shell_loop U run buf k1 }"

section \<open>Facts: system calls as the programs see them\<close>

text \<open>Standard output is the terminal, and what it shows for a text.\<close>

definition stdout_ok :: "kernel \<Rightarrow> bool" where
  "stdout_ok k \<longleftrightarrow> fop (fda (cur_pcb k) ! 1) = Some Stdout_ops"

definition shown :: "byte list \<Rightarrow> byte list" where
  "shown t = (if length t = 79 then t @ [0x0A] else t)"

lemma write_stdout:
  assumes "stdout_ok k" "bytes_of (view k) buf n = t" "0 \<notin> set t" "buf \<noteq> 0" "0 < n"
  shows "\<exists>r. system_write 1 buf (int n) k = Some (r, k\<lparr>con := fold putc (shown t) (con k)\<rparr>) \<and> 0 \<le> r"
proof -
  have "length t = n" using assms(2) by auto
  then show ?thesis
    using assms terminal_write_text[OF assms(2-5), of "con k"]
    by (simp add: system_write_def stdout_ok_def sys_consts fop_write_def shown_def)
qed

lemma fdputs_text:
  assumes "stdout_ok k" "cstr (view k) a t" "a \<noteq> 0" "t \<noteq> []" "length t < 79"
  shows "ece391_fdputs 1 a k = Some (k\<lparr>con := fold putc t (con k)\<rparr>)"
proof -
  have b: "bytes_of (view k) a (length t) = t" "0 \<notin> set t" using assms(2) by (simp_all add: cstr_def)
  have n: "0 < length t" using assms(4) by simp
  have "sint (of_nat (length t) :: u32) = int (length t)" using assms(5) by (subst sint_unat_small) (simp_all add: unat_of_nat_small)
  then show ?thesis
    using write_stdout[OF assms(1) b assms(3) n] ece391_strlen_cstr[OF assms(2)] assms(5)
    by (auto simp: ece391_fdputs_def shown_def)
qed

text \<open>A descriptor open for reading the inode \<^verbatim>\<open>ino\<close> into \<^verbatim>\<open>buf\<close>, other descriptors in order.\<close>

definition reading :: "nat \<Rightarrow> int \<Rightarrow> kernel \<Rightarrow> bool" where
  "reading buf fd k \<longleftrightarrow> 2 \<le> fd \<and> fd < 8 \<and> buf \<noteq> 0 \<and> open_ok (kfs k) fd buf 1024 (k_fenv k) \<and> stdout_ok k \<and>
     fop (fda (cur_pcb k) ! nat fd) = Some Files_ops \<and> flags (fda (cur_pcb k) ! nat fd) \<noteq> 0"

definition rest_of :: "int \<Rightarrow> kernel \<Rightarrow> byte list" where
  "rest_of fd k = drop (open_pos fd (k_fenv k)) (open_content (kfs k) fd (k_fenv k))"

lemma drop_taken: "drop (p + length (take n (drop p xs))) xs = drop n (drop p xs)"
  by (simp add: min_def add.commute)

text \<open>One read of a file by a user program.\<close>

lemma user_read_step:
  assumes "reading buf fd k"
  shows "\<exists>k1. system_read ex loc fd buf 1024 k = Some (int (length (take 1024 (rest_of fd k))), k1) \<and>
    bytes_of (view k1) buf (length (take 1024 (rest_of fd k))) = take 1024 (rest_of fd k) \<and>
    con k1 = con k \<and> kfs k1 = kfs k \<and> reading buf fd k1 \<and> rest_of fd k1 = drop 1024 (rest_of fd k)"
proof -
  let ?f = "kfs k"
  have ok: "open_ok ?f fd buf 1024 (cur_pcb k, view k, con k)" using assms by (simp add: reading_def k_fenv_def)
  obtain p' d where d: "fd_get (cur_pcb k) fd = Some d"
    and r: "file_read ?f fd buf (int 1024) (cur_pcb k, view k, con k) =
        Some (int (length (take 1024 (drop (unat (file_position d)) (file_content (view k) ?f (inode_idx d))))), p',
          put_bytes (view k) buf (take 1024 (drop (unat (file_position d)) (file_content (view k) ?f (inode_idx d)))), con k)"
    and p': "fd_get p' fd = Some (d\<lparr>file_position := file_position d + of_nat (length
        (take 1024 (drop (unat (file_position d)) (file_content (view k) ?f (inode_idx d)))))\<rparr>)"
    using file_read_contract[OF ok, of 1024] by (auto simp: Let_def)
  define bs where "bs = take 1024 (rest_of fd k)"
  have bs: "take 1024 (drop (unat (file_position d)) (file_content (view k) ?f (inode_idx d))) = bs"
    by (simp add: bs_def rest_of_def open_pos_def open_content_def k_fenv_def d)
  define e where "e = (p', put_bytes (view k) buf bs, con k)"
  have rd: "file_rd ?f fd buf 1024 (k_fenv k) = (bs, e)"
    using r[unfolded bs] by (simp add: file_rd_def k_fenv_def e_def)
  note step = file_rd_step[OF ok[folded k_fenv_def], of 1024, unfolded rd, simplified]
  have p'fd: "fop (fda p' ! nat fd) = fop (fda (cur_pcb k) ! nat fd)" "flags (fda p' ! nat fd) = flags (fda (cur_pcb k) ! nat fd)"
    using fd_get_nth[OF p'] fd_get_nth[OF d] by simp_all
  have p'1: "fda p' ! 1 = fda (cur_pcb k) ! 1"
  proof (rule file_read_fda[OF r])
    show "1 \<noteq> nat fd" using assms by (auto simp: reading_def)
  qed
  have kf: "k_fenv (from_fenv e k) = e" by (simp add: k_fenv_def e_def kernel_simps)
  have st: "open_pos fd e = open_pos fd (k_fenv k) + length bs" "open_content ?f fd e = open_content ?f fd (k_fenv k)"
    "open_ok ?f fd buf 1024 e"
    using step by blast+
  have kfe: "kfs (from_fenv e k) = ?f" by (simp add: e_def kernel_simps)
  have "rest_of fd (from_fenv e k) = drop 1024 (rest_of fd k)"
  proof -
    have "rest_of fd (from_fenv e k) = drop (open_pos fd (k_fenv k) + length bs) (open_content ?f fd (k_fenv k))"
      unfolding rest_of_def kf by (simp only: st kfe)
    then show ?thesis by (simp only: bs_def rest_of_def drop_taken)
  qed
  moreover have "reading buf fd (from_fenv e k)"
    using assms st(3) p'fd p'1 by (simp add: reading_def kf kfe stdout_ok_def) (simp add: e_def kernel_simps)
  moreover have "system_read ex loc fd buf 1024 k = Some (int (length bs), from_fenv e k)"
    using assms r[unfolded bs]
    by (simp add: system_read_def reading_def sys_consts fop_read_def k_fenv_def e_def)
  ultimately show ?thesis by (auto simp: bs_def[symmetric] e_def kernel_simps)
qed

section \<open>cat\<close>

lemma reading_con [simp]: "reading buf fd (k\<lparr>con := c\<rparr>) = reading buf fd k" "rest_of fd (k\<lparr>con := c\<rparr>) = rest_of fd k"
proof -
  have "open_ok f fd b n (p, m, c) = open_ok f fd b n (p, m, con k)" for f b n p m by (simp add: open_ok_def)
  then show "reading buf fd (k\<lparr>con := c\<rparr>) = reading buf fd k"
    by (simp add: reading_def k_fenv_def kernel_simps stdout_ok_def)
  show "rest_of fd (k\<lparr>con := c\<rparr>) = rest_of fd k"
    by (simp add: rest_of_def k_fenv_def kernel_simps open_pos_def open_content_def)
qed

text \<open>What cat shows for a file: chunks of 1024 bytes, so only the last one can have 79.\<close>

definition cat_text :: "byte list \<Rightarrow> byte list" where
  "cat_text t = (if length t mod 1024 = 79 then t @ [0x0A] else t)"

lemma cat_text_step: "t \<noteq> [] \<Longrightarrow> shown (take 1024 t) @ cat_text (drop 1024 t) = cat_text t"
proof (cases "length t \<le> 1024")
  case True
  then show ?thesis by (cases "length t = 1024") (simp_all add: cat_text_def shown_def)
next
  case False
  then have "length t mod 1024 = (length t - 1024) mod 1024" by (simp add: le_mod_geq)
  with False show ?thesis by (simp add: cat_text_def shown_def min_def)
qed

lemma cat_loop_prints:
  assumes "reading buf fd k" "0 \<notin> set (rest_of fd k)"
  shows "\<exists>k'. cat_loop U buf fd k = Some (0, k') \<and> con k' = fold putc (cat_text (rest_of fd k)) (con k)"
  using assms
proof (induction "length (rest_of fd k)" arbitrary: k rule: less_induct)
  case less
  let ?t = "take 1024 (rest_of fd k)"
  obtain k1 where k1: "system_read (u_ex U) (u_loc U) fd buf 1024 k = Some (int (length ?t), k1)"
    "bytes_of (view k1) buf (length ?t) = ?t" "con k1 = con k" "reading buf fd k1"
    "rest_of fd k1 = drop 1024 (rest_of fd k)"
    using user_read_step[OF less.prems(1)] by blast
  show ?case
  proof (cases "rest_of fd k = []")
    case True
    then show ?thesis using k1 by (subst cat_loop.simps) (simp add: cat_text_def)
  next
    case False
    have "stdout_ok k1" "buf \<noteq> 0" using k1(4) by (simp_all add: reading_def)
    moreover have "0 \<notin> set ?t" using less.prems(2) by (meson in_set_takeD)
    ultimately obtain r where w: "system_write 1 buf (int (length ?t)) k1 =
        Some (r, k1\<lparr>con := fold putc (shown ?t) (con k1)\<rparr>)" "0 \<le> r"
      using write_stdout[OF _ k1(2)] False by auto
    define k2 where "k2 = k1\<lparr>con := fold putc (shown ?t) (con k1)\<rparr>"
    have k2: "reading buf fd k2" "rest_of fd k2 = drop 1024 (rest_of fd k)" "con k2 = fold putc (shown ?t) (con k)"
      using k1 by (simp_all add: k2_def)
    have "length (rest_of fd k2) < length (rest_of fd k)" using False k2(2) by simp
    moreover have "0 \<notin> set (rest_of fd k2)" using less.prems(2) k2(2) by (metis in_set_dropD)
    ultimately obtain k' where "cat_loop U buf fd k2 = Some (0, k')"
      "con k' = fold putc (cat_text (rest_of fd k2)) (con k2)"
      using less.hyps k2(1) by blast
    moreover have "cat_loop U buf fd k = cat_loop U buf fd k2"
    proof -
      have "int (length ?t) \<noteq> 0" "int (length ?t) \<noteq> - 1" "r \<noteq> - 1" using False w(2) by simp_all
      then show ?thesis using k1(1) w(1)
        by (subst cat_loop.simps) (simp add: k2_def del: length_take)
    qed
    moreover have "fold putc (cat_text (rest_of fd k2)) (con k2) = fold putc (cat_text (rest_of fd k)) (con k)"
      using cat_text_step[OF False] k2 by (metis fold_append comp_apply)
    ultimately show ?thesis by auto
  qed
qed

text \<open>The memory after getargs, and a file opened by name.\<close>

definition args_at :: "uenv \<Rightarrow> nat \<Rightarrow> kernel \<Rightarrow> mem" where
  "args_at U buf k = put_bytes (view k) buf (padded_name 1024 (take 1024 (pargs (cur_pcb k) @ map (u_past U) [0..<1024])))"

lemma getargs_copies:
  "buf \<noteq> 0 \<Longrightarrow> pargs (cur_pcb k) ! 0 \<noteq> 0 \<Longrightarrow> system_getargs (u_past U) buf 1024 k = (0, set_view (args_at U buf k) k)"
  by (simp add: system_getargs_def args_at_def)

lemma length_padded_name: "length (padded_name n src) = n"
proof -
  have "length (takeWhile (\<lambda>b. b \<noteq> 0) (take n src)) \<le> n"
    by (rule order_trans[OF length_takeWhile_le]) simp
  then show ?thesis by (simp add: padded_name_def Let_def)
qed

lemma open_fd_free:
  assumes "2 \<le> j" "j < 8" "flags (fda (cur_pcb k) ! nat j) = 0"
  shows "\<exists>fd. 2 \<le> fd \<and> fd < 8 \<and> open_fd tab ty ino k =
    (Some fd, upd_pcb (\<lambda>p. p\<lparr>fda := (fda p)[nat fd := \<lparr>fop = Some tab, inode_idx = ino, file_position = 0,
            flags = 1, fd_type = ty\<rparr>]\<rparr>) k)"
proof -
  have *: "open_scan l fd n \<noteq> None" if "flags (l ! nat j) = 0" "fd \<le> j" "j < fd + int n" for l fd n
    using that
  proof (induction n arbitrary: fd)
    case (Suc n)
    then show ?case using Suc.IH[of "fd + 1"] by (cases "fd = j") auto
  qed simp
  from *[of "fda (cur_pcb k)" 2 6] assms obtain fd where "open_scan (fda (cur_pcb k)) 2 6 = Some fd" by auto
  then show ?thesis
    using open_scan_Some[of "fda (cur_pcb k)" 2 6 fd] by (simp add: open_fd_def sys_consts)
qed

text \<open>C20: Run with the name of a file without NUL bytes, the program cat ends with exit code 0 and
  prints the content of the file, through getargs, open, the reads of 1024 bytes and the writes
  of the kernel; only a last chunk of 79 bytes is followed by an extra newline.\<close>
theorem cat_prints_file:
  assumes "buf \<noteq> 0" "pargs (cur_pcb k) ! 0 \<noteq> 0"
    and "read_dentry_by_name (args_at U buf k) (kfs k) buf = Some (Some d)" "file_type d = 2"
    and "wf_fs (view k) (kfs k)" "wf_inode (view k) (kfs k) (inode_num d)" "outside_image (view k) (kfs k) buf 1024"
    and "length (fda (cur_pcb k)) = 8" "stdout_ok k" "2 \<le> j" "j < 8" "flags (fda (cur_pcb k) ! nat j) = 0"
    and "content = file_content (view k) (kfs k) (inode_num d)" "0 \<notin> set content"
  shows "\<exists>k'. cat_main U buf k = Some (0, k') \<and> con k' = fold putc (cat_text content) (con k)"
proof -
  define k1 where "k1 = set_view (args_at U buf k) k"
  have same: "same_image (view k) (kfs k) (args_at U buf k)"
    unfolding args_at_def using assms(7) by (intro same_image_put) (simp_all add: length_padded_name)
  have k1: "view k1 = args_at U buf k" "kfs k1 = kfs k" "cur_pcb k1 = cur_pcb k" "con k1 = con k"
    by (simp_all add: k1_def kernel_simps)
  obtain fd where fd: "2 \<le> fd" "fd < 8" and o: "open_fd Files_ops 2 (inode_num d) k1 =
      (Some fd, upd_pcb (\<lambda>p. p\<lparr>fda := (fda p)[nat fd := \<lparr>fop = Some Files_ops, inode_idx = inode_num d,
          file_position = 0, flags = 1, fd_type = 2\<rparr>]\<rparr>) k1)" (is "_ = (_, ?k2)")
    using open_fd_free[of j k1 Files_ops 2 "inode_num d", unfolded k1(3), OF assms(10-12)] by blast
  define k2 where "k2 = ?k2"
  have opened: "system_open buf k1 = Some (fd, k2)"
    using assms(3,4) o k1 by (simp add: system_open_def k2_def)
  have len: "nat fd < length (fda (cur_pcb k))" using fd assms(8) by simp
  have k2: "view k2 = args_at U buf k" "kfs k2 = kfs k" "con k2 = con k"
    "cur_pcb k2 = (cur_pcb k)\<lparr>fda := (fda (cur_pcb k))[nat fd := \<lparr>fop = Some Files_ops, inode_idx = inode_num d,
          file_position = 0, flags = 1, fd_type = 2\<rparr>]\<rparr>"
    by (simp_all add: k2_def kernel_simps k1)
  have get: "fd_get (cur_pcb k2) fd = Some \<lparr>fop = Some Files_ops, inode_idx = inode_num d, file_position = 0,
      flags = 1, fd_type = 2\<rparr>"
    using fd len by (simp add: fd_get_def rd_def k2)
  note img = same_image_wf[OF assms(5) same] same_image_wf_inode[OF assms(5) same assms(6)]
    same_image_end[OF assms(5) same] same_image_content[OF assms(5) same assms(6)]
  have "nat fd \<noteq> 1" using fd by simp
  then have "reading buf fd k2"
    using assms(1,7,9) fd img get len by (simp add: reading_def k_fenv_def open_ok_def k2 outside_image_def stdout_ok_def)
  moreover have "rest_of fd k2 = content"
    using img get assms(13) by (simp add: rest_of_def k_fenv_def open_pos_def open_content_def k2(1,2))
  ultimately obtain k' where "cat_loop U buf fd k2 = Some (0, k')" "con k' = fold putc (cat_text content) (con k)"
    using cat_loop_prints[of buf fd k2 U] assms(14) k2(3) by auto
  moreover have "cat_main U buf k = cat_loop U buf fd k2"
    using getargs_copies[OF assms(1,2)] opened fd by (simp add: cat_main_def k1_def)
  ultimately show ?thesis by simp
qed

text \<open>A process with the argument \<^verbatim>\<open>a\<close> for the witness.\<close>

definition demo_user :: kernel where
  "demo_user = (demo_kernel (\<lambda>_. (demo_block 1 0)\<lparr>pargs := 0x61 # 0 # replicate 30 0\<rparr>) 1)\<lparr>kmem := demo_image\<rparr>"

definition demo_env :: uenv where
  "demo_env = \<lparr>u_ex = (\<lambda>_. None), u_loc = 30000, u_past = (\<lambda>_. 0), u_lit = (\<lambda>_. 40000)\<rparr>"

lemma demo_user_fields:
  "view demo_user = demo_image" "kfs demo_user = demo_fs" "con demo_user = blank_con"
  "cur_pcb demo_user = (demo_block 1 0)\<lparr>pargs := 0x61 # 0 # replicate 30 0\<rparr>"
proof -
  show "view demo_user = demo_image"
    by (rule ext) (simp add: view_def demo_user_def demo_kernel_def in_program_page_def demo_image_def)
qed (simp_all add: demo_user_def demo_kernel_def cur_pcb_def)

theorem cat_prints_file_witness:
  "\<exists>k'. cat_main demo_env 20000 demo_user = Some (0, k') \<and>
     con k' = fold putc [0x68, 0x65, 0x6C, 0x6C, 0x6F] blank_con"
proof -
  let ?m = "args_at demo_env 20000 demo_user"
  have m: "?m = put_bytes demo_image 20000 (0x61 # replicate 1023 0)"
    by (simp add: args_at_def demo_user_fields padded_name_def)
  have at: "?m a = demo_image a" if "a < 20000" for a
    using that by (simp add: m put_bytes_out)
  have arg: "cstr ?m 20000 [0x61]"
    using put_bytes_in[of 0 "0x61 # replicate 1023 0" demo_image 20000] put_bytes_in[of 1 "0x61 # replicate 1023 0" demo_image 20000]
    by (simp add: m cstr_Cons)
  have cnt: "dir_count ?m demo_fs = 1" by (simp add: dir_count_def le32_def at demo_fs_def demo_image_def)
  have nm: "cstr ?m 4160 [0x61]" by (simp add: cstr_Cons at demo_image_def)
  have de: "direntry demo_fs 0 = 4160" by (simp add: direntry_def demo_fs_def)
  obtain d where d: "read_dentry_by_index ?m demo_fs 0 = Some d" "file_type d = 2" "inode_num d = 0"
    by (simp add: read_dentry_by_index_def cnt de NUM_MAX_FILES_def le32_def at) (simp add: demo_image_def)
  have "read_dentry_by_name ?m demo_fs 20000 = Some (Some d)"
    using dentry_scan_finds[of 1 ?m demo_fs 0 20000] cname_cstr[OF arg, of 32] cname_cstr[OF nm, of 32]
    by (simp add: read_dentry_by_name_def cnt dir_table_def de d)
  moreover have "length (fda (cur_pcb demo_user)) = 8" "stdout_ok demo_user" "flags (fda (cur_pcb demo_user) ! nat 2) = 0"
    by (simp_all add: demo_user_fields demo_block_def stdout_ok_def exec_fda_def closed_fd_def closed_desc_def Let_def)
  moreover have "pargs (cur_pcb demo_user) ! 0 \<noteq> 0" by (simp add: demo_user_fields)
  moreover have "outside_image demo_image demo_fs 20000 1024" by (simp add: outside_image_def demo_wf)
  moreover have "cat_text [0x68, 0x65, 0x6C, 0x6C, 0x6F] = [0x68, 0x65, 0x6C, 0x6C, 0x6F]" by (simp add: cat_text_def)
  ultimately show ?thesis
    using cat_prints_file[of 20000 demo_user demo_env d 2 "[0x68, 0x65, 0x6C, 0x6C, 0x6F]"] d(2,3) demo_wf(1,2) demo_content
    unfolding demo_user_fields(1-3) by simp
qed

end
