(* ===== verification/ListProg.thy ===== *)
theory ListProg
  imports UserProgs
begin

text \<open>The program ls: it prints the names of the directory, one per line, and ends with exit code 0.
  That it ends at all rests on the guard of \<^verbatim>\<open>read_dentry_by_index\<close>, which lets through the index
  one past the last entry: the empty entry there has a name of length 0, the end of the listing.\<close>

section \<open>Specification\<close>

text \<open>A directory of \<^verbatim>\<open>n\<close> entries with names of 1 to 32 characters, followed by an empty entry.  A name
  of 32 characters fills its field, which then has no NUL.\<close>

definition dir_ok :: "mem \<Rightarrow> fsys \<Rightarrow> nat \<Rightarrow> bool" where
  "dir_ok m f n \<longleftrightarrow> n < 63 \<and> sint (dir_count m f) = int n \<and>
     (\<forall>i < n. cname m (direntry f i) 32 \<noteq> []) \<and>
     cname m (direntry f n) 32 = []"

definition listing_text :: "mem \<Rightarrow> fsys \<Rightarrow> nat \<Rightarrow> nat \<Rightarrow> byte list" where
  "listing_text m f i n = concat (map (\<lambda>j. cname m (direntry f j) 32 @ [0x0A]) [i..<n])"

text \<open>Some byte behind the buffer is 0: there \<^verbatim>\<open>strlen\<close> ends when a name fills the buffer.\<close>

definition nul_behind :: "mem \<Rightarrow> nat \<Rightarrow> nat \<Rightarrow> bool" where
  "nul_behind m buf loc \<longleftrightarrow> (\<exists>q \<ge> buf + 33. m q = 0 \<and> (q < loc \<or> loc + 40 \<le> q))"

text \<open>A descriptor open for the directory at entry \<^verbatim>\<open>i\<close>, and the buffers outside the image.\<close>

definition listing :: "nat \<Rightarrow> nat \<Rightarrow> int \<Rightarrow> nat \<Rightarrow> nat \<Rightarrow> kernel \<Rightarrow> bool" where
  "listing loc buf fd i n k \<longleftrightarrow> 2 \<le> fd \<and> fd < 8 \<and> buf \<noteq> 0 \<and> stdout_ok k \<and>
     fop (fda (cur_pcb k) ! nat fd) = Some Directories_ops \<and> flags (fda (cur_pcb k) ! nat fd) \<noteq> 0 \<and>
     (\<exists>d. fd_get (cur_pcb k) fd = Some d \<and> unat (file_position d) = i) \<and> i \<le> n \<and>
     wf_fs (view k) (kfs k) \<and> dir_ok (view k) (kfs k) n \<and>
     outside_image (view k) (kfs k) buf 33 \<and> outside_image (view k) (kfs k) loc 40 \<and>
     (buf + 33 \<le> loc \<or> loc + 40 \<le> buf) \<and> nul_behind (view k) buf loc"

section \<open>Facts\<close>

lemma in_boot_block:
  assumes "wf_fs m f" "i < 63" "j < 36"
  shows "boot_block f \<le> direntry f i + j" "direntry f i + j < fs_end m f"
  using assms by (simp_all add: wf_fs_def direntry_def fs_end_def)

lemma dir_ok_same:
  assumes "wf_fs m f" "same_image m f m'" "dir_ok m f n"
  shows "dir_ok m' f n" "\<And>i. i \<le> n \<Longrightarrow> cname m' (direntry f i) 32 = cname m (direntry f i) 32"
proof -
  have n: "n < 63" using assms(3) by (simp add: dir_ok_def)
  have c: "cname m' (direntry f i) 32 = cname m (direntry f i) 32" if "i \<le> n" for i
  proof -
    have "m' (direntry f i + j) = m (direntry f i + j)" if "j < 32" for j
      using in_boot_block[OF assms(1), of i j] that \<open>i \<le> n\<close> n assms(2) by (simp add: same_image_def)
    then have "bytes_of m' (direntry f i) 32 = bytes_of m (direntry f i) 32" by (intro nth_equalityI) simp_all
    then show ?thesis by (simp add: cname_def)
  qed
  then show "\<And>i. i \<le> n \<Longrightarrow> cname m' (direntry f i) 32 = cname m (direntry f i) 32" .
  have "dir_count m' f = dir_count m f"
    unfolding dir_count_def using assms(1) by (intro same_image_le32[OF assms(2)]) (simp_all add: wf_fs_def fs_end_def)
  then show "dir_ok m' f n" using assms(3) c by (simp add: dir_ok_def)
qed

lemma outside_same: "wf_fs m f \<Longrightarrow> same_image m f m' \<Longrightarrow> outside_image m' f b k = outside_image m f b k"
  using same_image_end[of m f m'] by (simp add: outside_image_def)

lemma same_image_trans: "wf_fs m f \<Longrightarrow> same_image m f m1 \<Longrightarrow> same_image m1 f m2 \<Longrightarrow> same_image m f m2"
  using same_image_end[of m f m1] by (simp add: same_image_def)

text \<open>\<^verbatim>\<open>strlen\<close> on 32 bytes without a NUL goes on to the first NUL behind them.\<close>

lemma strlen_beyond:
  assumes "m q = 0" "buf + 32 \<le> q" "0 \<notin> set (bytes_of m buf 32)"
  shows "\<exists>r. strlen m buf = Some r \<and> 32 \<le> r"
proof -
  define q' where "q' = (LEAST j. m (buf + j) = 0)"
  have z: "m (buf + q') = 0" unfolding q'_def by (rule LeastI[of _ "q - buf"]) (use assms(1,2) in simp)
  have nz: "m (buf + j) \<noteq> 0" if "j < q'" for j using that not_less_Least unfolding q'_def by blast
  have "cstr m buf (bytes_of m buf q')" using z nz by (auto simp: cstr_def in_set_conv_nth)
  then have "strlen m buf = Some q'" using strlen_cstr by fastforce
  moreover have "32 \<le> q'"
  proof (rule ccontr)
    assume "\<not> 32 \<le> q'"
    then have "bytes_of m buf 32 ! q' = 0" "q' < length (bytes_of m buf 32)" using z by simp_all
    then show False using assms(3) nth_mem by metis
  qed
  ultimately show ?thesis by blast
qed

lemma directory_read_field:
  assumes "fd_get p fd = Some d" "read_dentry_by_index m f (ucast (file_position d)) = Some de"
    and "takeWhile (\<lambda>b. b \<noteq> 0) (file_name de) = name"
    and "buff \<noteq> 0" "buff + 32 \<le> loc \<or> loc + 40 \<le> buff" "nul_behind m buff loc"
  shows "\<exists>p'. directory_read f loc fd buff nbytes (p, m, c) = Some (int (length name), p',
      put_bytes (put_bytes m loc (dentry_bytes de)) buff (name @ replicate (32 - length name) 0), c) \<and>
    fd_put p fd (d\<lparr>file_position := file_position d + 1\<rparr>) = Some p'"
proof -
  let ?m1 = "put_bytes m loc (dentry_bytes de)"
  have l32: "length (file_name de) = 32" using assms(2) by (auto simp: read_dentry_by_index_def split: if_splits)
  then have "length name \<le> 32" using assms(3) length_takeWhile_le by metis
  then consider "length name < 32" | "length name = 32" by linarith
  then show ?thesis
  proof cases
    case 1
    then show ?thesis using directory_read_step[OF assms(1-3) 1 assms(4,5)] by blast
  next
    case 2
    have name: "name = file_name de"
      using 2 l32 assms(3) takeWhile_eq_take[of "\<lambda>b. b \<noteq> 0" "file_name de"] by simp
    have nz: "0 \<notin> set name" using assms(3) by (auto dest: set_takeWhileD)
    have fb: "bytes_of ?m1 loc 32 = name"
      using l32 name by (intro nth_equalityI) (auto simp: dentry_bytes_def put_bytes_def nth_append)
    have m2: "strncpy ?m1 buff loc 32 = put_bytes ?m1 buff name"
    proof -
      have tw: "takeWhile (\<lambda>b. b \<noteq> 0) name = name" using nz by (auto simp: takeWhile_eq_all_conv)
      have "padded_name 32 name = name" by (simp add: padded_name_def Let_def tw 2)
      then show ?thesis using assms(5) by (subst strncpy_padded) (auto simp: fb)
    qed
    obtain q where q: "buff + 33 \<le> q" "m q = 0" "q < loc \<or> loc + 40 \<le> q" using assms(6) by (auto simp: nul_behind_def)
    have len: "length (dentry_bytes de) = 40" by (simp add: dentry_bytes_def le_bytes_def l32)
    have "put_bytes ?m1 buff name q = 0" using q 2 len by (simp add: put_bytes_out)
    moreover have "bytes_of (put_bytes ?m1 buff name) buff 32 = name" using bytes_of_put_bytes[of name 32] 2 by simp
    ultimately obtain r where r: "strlen (put_bytes ?m1 buff name) buff = Some r" "32 \<le> r"
      using strlen_beyond[of "put_bytes ?m1 buff name" q buff] q(1) nz by auto
    obtain p' where p': "fd_put p fd (d\<lparr>file_position := file_position d + 1\<rparr>) = Some p'"
      using fd_get_put[OF assms(1)] by metis
    have "directory_read f loc fd buff nbytes (p, m, c) = Some (32, p', put_bytes ?m1 buff name, c)"
      using assms(1,2,4) p' r by (simp add: directory_read_def Let_def m2)
    then show ?thesis using p' 2 by simp
  qed
qed

lemma listing_same:
  assumes "listing loc buf fd i n k" "cur_pcb k' = cur_pcb k" "kfs k' = kfs k" "same_image (view k) (kfs k) (view k')"
    and "nul_behind (view k') buf loc"
  shows "listing loc buf fd i n k'"
  using assms(1) dir_ok_same(1)[OF _ assms(4)] same_image_wf[OF _ assms(4)] outside_same[OF _ assms(4)]
  by (simp add: listing_def assms(2,3,5) stdout_ok_def)

lemma listing_text_step: "i < n \<Longrightarrow> listing_text m f i n = (cname m (direntry f i) 32 @ [0x0A]) @ listing_text m f (Suc i) n"
  by (simp add: listing_text_def upt_conv_Cons)

lemma dentry_at:
  assumes "dir_ok m f n" "i \<le> n" "unat pos = i"
  shows "\<exists>d. read_dentry_by_index m f (ucast pos) = Some d \<and> file_name d = bytes_of m (direntry f i) 32"
proof -
  have i: "unat (ucast pos :: byte) = i" using assms by (simp add: dir_ok_def unsigned_ucast_eq take_bit_nat_eq_self_iff)
  then show ?thesis using assms by (simp add: read_dentry_by_index_def dir_ok_def NUM_MAX_FILES_def)
qed

text \<open>One read of the directory.\<close>

lemma list_step:
  assumes "listing loc buf fd i n k"
  shows "\<exists>k1. system_read ex loc fd buf 32 k = Some (int (length (cname (view k) (direntry (kfs k) i) 32)), k1) \<and>
    con k1 = con k \<and> kfs k1 = kfs k \<and> same_image (view k) (kfs k) (view k1) \<and>
    bytes_of (view k1) buf (length (cname (view k) (direntry (kfs k) i) 32)) = cname (view k) (direntry (kfs k) i) 32 \<and>
    (i < n \<longrightarrow> listing loc buf fd (Suc i) n k1)"
proof -
  let ?f = "kfs k" and ?m = "view k"
  define nm where "nm = cname ?m (direntry ?f i) 32"
  obtain d where d: "fd_get (cur_pcb k) fd = Some d" "unat (file_position d) = i"
    using assms by (auto simp: listing_def)
  have ok: "dir_ok ?m ?f n" "i \<le> n" "wf_fs ?m ?f" "outside_image ?m ?f buf 33" "outside_image ?m ?f loc 40"
    "buf + 33 \<le> loc \<or> loc + 40 \<le> buf" "buf \<noteq> 0" "2 \<le> fd" "fd < 8" "nul_behind ?m buf loc"
    using assms by (simp_all add: listing_def)
  obtain de where de: "read_dentry_by_index ?m ?f (ucast (file_position d)) = Some de"
    "file_name de = bytes_of ?m (direntry ?f i) 32"
    using dentry_at[OF ok(1,2) d(2)] by blast
  have name: "takeWhile (\<lambda>b. b \<noteq> 0) (file_name de) = nm" by (simp add: nm_def cname_def de(2))
  have short: "length nm \<le> 32" unfolding nm_def cname_def using length_takeWhile_le[of _ "bytes_of ?m (direntry ?f i) 32"] by simp
  let ?txt = "nm @ replicate (32 - length nm) 0"
  define m' where "m' = put_bytes (put_bytes ?m loc (dentry_bytes de)) buf ?txt"
  obtain p' where r: "directory_read ?f loc fd buf 32 (cur_pcb k, ?m, con k) = Some (int (length nm), p', m', con k)"
    and p': "fd_put (cur_pcb k) fd (d\<lparr>file_position := file_position d + 1\<rparr>) = Some p'"
    using directory_read_field[OF d(1) de(1) name ok(7) _ ok(10), of 32 "con k"] ok(6) by (auto simp: m'_def)
  have len: "length (dentry_bytes de) = 40" by (simp add: dentry_bytes_def le_bytes_def de(2))
  have img: "same_image ?m ?f m'"
    unfolding m'_def using ok(4,5) short
    by (intro same_image_put) (auto simp: len outside_image_def)
  have nul: "nul_behind m' buf loc"
    using ok(10) len short unfolding nul_behind_def m'_def by (elim exE) (force simp: put_bytes_out)
  have tx: "bytes_of m' buf (length nm) = nm"
    unfolding m'_def put_bytes_append using short
    by (intro nth_equalityI) (auto simp: put_bytes_def)
  define k1 where "k1 = from_fenv (p', m', con k) k"
  have k1: "cur_pcb k1 = p'" "view k1 = m'" "con k1 = con k" "kfs k1 = ?f" by (simp_all add: k1_def kernel_simps)
  have run: "system_read ex loc fd buf 32 k = Some (int (length nm), k1)"
    using assms r by (simp add: system_read_def listing_def sys_consts fop_read_def k_fenv_def k1_def)
  have nx: "listing loc buf fd (Suc i) n k1" if "i < n"
  proof -
    have l: "fda p' = (fda (cur_pcb k))[nat fd := d\<lparr>file_position := file_position d + 1\<rparr>]" "nat fd < length (fda (cur_pcb k))"
      using p' ok(8) by (auto simp: fd_put_def wr_Some_iff option_bind_Some_iff)
    have "fda p' ! 1 = fda (cur_pcb k) ! 1" using l ok(8) by simp
    moreover have "fda p' ! nat fd = d\<lparr>file_position := file_position d + 1\<rparr>" using l by simp
    moreover have "fd_get p' fd = Some (d\<lparr>file_position := file_position d + 1\<rparr>)"
      using l ok(8) by (simp add: fd_get_def rd_def)
    moreover have "unat (file_position d + 1) = Suc i"
      using d(2) that ok(1) by (simp add: dir_ok_def unat_word_ariths)
    ultimately show ?thesis
      using assms that d fd_get_nth[OF d(1)] dir_ok_same(1)[OF ok(3) img ok(1)] same_image_wf[OF ok(3) img] outside_same[OF ok(3) img]
      by (simp add: listing_def stdout_ok_def k1 nul)
  qed
  show ?thesis using run k1 img tx nx by (auto simp: nm_def[symmetric])
qed

lemma ls_loop_lists:
  assumes "listing (u_loc U) buf fd i n k"
  shows "\<exists>k'. ls_loop U buf fd k = Some (0, k') \<and> con k' = fold putc (listing_text (view k) (kfs k) i n) (con k)"
  using assms
proof (induction "n - i" arbitrary: i k)
  case 0
  then have "i = n" "cname (view k) (direntry (kfs k) n) 32 = []" by (simp_all add: listing_def dir_ok_def)
  moreover obtain k1 where "system_read (u_ex U) (u_loc U) fd buf 32 k =
      Some (int (length (cname (view k) (direntry (kfs k) i) 32)), k1)" "con k1 = con k"
    using list_step[OF "0.prems"] by blast
  ultimately show ?case by (subst ls_loop.simps) (simp add: listing_text_def)
next
  case (Suc j)
  let ?f = "kfs k"
  define nm where "nm = cname (view k) (direntry ?f i) 32"
  have i: "i < n" "j = n - Suc i" using Suc.hyps(2) by auto
  obtain k1 where k1: "system_read (u_ex U) (u_loc U) fd buf 32 k = Some (int (length nm), k1)"
    "con k1 = con k" "kfs k1 = ?f" "same_image (view k) ?f (view k1)" "bytes_of (view k1) buf (length nm) = nm"
    "listing (u_loc U) buf fd (Suc i) n k1"
    using list_step[OF Suc.prems] i(1) by (auto simp: nm_def)
  have ok: "dir_ok (view k) ?f n" "wf_fs (view k) ?f" "buf \<noteq> 0"
    using Suc.prems by (simp_all add: listing_def)
  have nm: "nm \<noteq> []" "length nm \<le> 32" "0 \<notin> set nm"
    using ok(1) i(1) length_takeWhile_le[of "\<lambda>b. b \<noteq> 0" "bytes_of (view k) (direntry ?f i) 32"]
    by (auto simp: dir_ok_def nm_def) (auto simp: cname_def dest: set_takeWhileD)
  define k2 where "k2 = poke (buf + length nm) 0x0A k1"
  have k2: "view k2 = (view k1)(buf + length nm := 0x0A)" "con k2 = con k" "cur_pcb k2 = cur_pcb k1" "kfs k2 = ?f"
    using k1 by (simp_all add: k2_def kernel_simps)
  have line: "bytes_of (view k2) buf (length nm + 1) = nm @ [0x0A]"
    using k1(5) by (simp add: bytes_of_snoc k2(1)) (metis bytes_of_cong fun_upd_apply less_irrefl add_left_cancel)
  have out: "outside_image (view k1) ?f buf 33" using k1(6) k1(3) by (simp add: listing_def)
  have img2: "same_image (view k1) ?f (view k2)"
    using out nm(2) unfolding k2(1) by (auto simp: same_image_def outside_image_def)
  have st: "stdout_ok k2" using k1(6) by (simp add: listing_def stdout_ok_def k2(3))
  obtain r where w: "system_write 1 buf (int (length nm + 1)) k2 =
      Some (r, k2\<lparr>con := fold putc (shown (nm @ [0x0A])) (con k2)\<rparr>)" "0 \<le> r"
    using write_stdout[OF st line] nm ok(3) by auto
  define k3 where "k3 = k2\<lparr>con := fold putc (nm @ [0x0A]) (con k)\<rparr>"
  have k3: "view k3 = view k2" "kfs k3 = ?f" "cur_pcb k3 = cur_pcb k1" "con k3 = fold putc (nm @ [0x0A]) (con k)"
    by (simp_all add: k3_def kernel_simps k2)
  have step: "ls_loop U buf fd k = ls_loop U buf fd k3"
    using k1(1) w nm by (subst ls_loop.simps) (simp add: k2_def[symmetric] k2(2) shown_def k3_def add.commute)
  have "nul_behind (view k1) buf (u_loc U)" using k1(6) by (simp add: listing_def)
  then have "nul_behind (view k2) buf (u_loc U)"
    using nm(2) unfolding nul_behind_def k2(1) by (elim exE) (force simp: fun_upd_def)
  then have l3: "listing (u_loc U) buf fd (Suc i) n k3"
    using listing_same[OF k1(6), of k3] img2 k1(3) by (simp add: k3)
  obtain k' where k': "ls_loop U buf fd k3 = Some (0, k')"
    "con k' = fold putc (listing_text (view k3) ?f (Suc i) n) (con k3)"
    using Suc.hyps(1)[OF i(2) l3] k3(2) by auto
  have img3: "same_image (view k) ?f (view k3)"
    using same_image_trans[OF ok(2) k1(4) img2] by (simp add: k3(1))
  have "map (\<lambda>j. cname (view k3) (direntry ?f j) 32 @ [0x0A]) [Suc i..<n] =
      map (\<lambda>j. cname (view k) (direntry ?f j) 32 @ [0x0A]) [Suc i..<n]"
    by (rule map_cong) (simp_all add: dir_ok_same(2)[OF ok(2) img3 ok(1)])
  then have "listing_text (view k3) ?f (Suc i) n = listing_text (view k) ?f (Suc i) n"
    by (simp only: listing_text_def)
  then show ?case
    using step k' listing_text_step[OF i(1), of "view k" ?f] by (simp add: nm_def k3(4))
qed

section \<open>Properties\<close>

text \<open>C34: For a directory of fewer than 63 entries with names of 1 to 32 characters, followed by an
  empty entry, the program ls prints the names one per line and ends with exit code 0: a name of
  32 characters fills the buffer without a NUL, strlen runs past it to the first NUL behind and
  the clamp cuts the length to 32; and the guard of read_dentry_by_index lets the program read
  the entry after the last one, whose empty name ends the loop. The buffer of ls and the locals
  of the kernel lie apart and outside the image, some byte behind the buffer is NUL, and a
  descriptor is free.\<close>
theorem ls_lists_directory:
  assumes "read_dentry_by_name (view k) (kfs k) (u_lit U ''.'') = Some (Some d)" "file_type d = 1"
    and "wf_fs (view k) (kfs k)" "dir_ok (view k) (kfs k) n"
    and "outside_image (view k) (kfs k) buf 33" "outside_image (view k) (kfs k) (u_loc U) 40"
    and "buf \<noteq> 0" "buf + 33 \<le> u_loc U \<or> u_loc U + 40 \<le> buf"
    and "buf + 33 \<le> q" "view k q = 0" "q < u_loc U \<or> u_loc U + 40 \<le> q"
    and "length (fda (cur_pcb k)) = 8" "stdout_ok k" "2 \<le> j" "j < 8" "flags (fda (cur_pcb k) ! nat j) = 0"
  shows "\<exists>k'. ls_main U buf k = Some (0, k') \<and>
    con k' = fold putc (concat (map (\<lambda>i. cname (view k) (direntry (kfs k) i) 32 @ [0x0A]) [0..<n])) (con k)"
proof -
  obtain fd where fd: "2 \<le> fd" "fd < 8" and o: "open_fd Directories_ops 1 (inode_num d) k =
      (Some fd, upd_pcb (\<lambda>p. p\<lparr>fda := (fda p)[nat fd := \<lparr>fop = Some Directories_ops, inode_idx = inode_num d,
          file_position = 0, flags = 1, fd_type = 1\<rparr>]\<rparr>) k)" (is "_ = (_, ?k1)")
    using open_fd_free[of j k Directories_ops 1 "inode_num d", OF assms(14-16)] by blast
  define k1 where "k1 = ?k1"
  have opened: "system_open (u_lit U ''.'') k = Some (fd, k1)"
    using assms(1,2) o by (simp add: system_open_def k1_def)
  have k1: "view k1 = view k" "kfs k1 = kfs k" "con k1 = con k"
    "cur_pcb k1 = (cur_pcb k)\<lparr>fda := (fda (cur_pcb k))[nat fd := \<lparr>fop = Some Directories_ops, inode_idx = inode_num d,
          file_position = 0, flags = 1, fd_type = 1\<rparr>]\<rparr>"
    by (simp_all add: k1_def kernel_simps)
  have len: "nat fd < length (fda (cur_pcb k))" "nat fd \<noteq> 1" using fd assms(12) by simp_all
  moreover have "nul_behind (view k) buf (u_loc U)" using assms(9-11) by (auto simp: nul_behind_def)
  ultimately have "listing (u_loc U) buf fd 0 n k1"
    using assms fd by (simp add: listing_def k1 fd_get_def rd_def stdout_ok_def)
  then obtain k' where "ls_loop U buf fd k1 = Some (0, k')"
    "con k' = fold putc (listing_text (view k) (kfs k) 0 n) (con k)"
    using ls_loop_lists[of U buf fd 0 n k1] by (auto simp: k1)
  then show ?thesis
    using opened fd by (simp add: ls_main_def listing_text_def)
qed

theorem ls_lists_directory_witness:
  "\<exists>k'. ls_main (demo_env\<lparr>u_lit := (\<lambda>_. 4160)\<rparr>) 20000
       (demo_user\<lparr>kmem := put_bytes (demo_image(4096 := 2, 4160 := 0x2E, 4192 := 1)) 4224 (replicate 32 0x76)\<rparr>) = Some (0, k') \<and>
     con k' = fold putc ([0x2E, 0x0A] @ replicate 32 0x76 @ [0x0A]) blank_con"
proof -
  let ?d = "demo_image(4096 := 2, 4160 := 0x2E, 4192 := 1)"
  let ?m = "put_bytes ?d 4224 (replicate 32 0x76)"
  let ?k = "demo_user\<lparr>kmem := ?m\<rparr>" and ?U = "demo_env\<lparr>u_lit := (\<lambda>_. 4160)\<rparr>"
  have out: "?m a = ?d a" if "a < 4224 \<or> 4256 \<le> a" for a using that by (auto simp: put_bytes_def)
  have k: "view ?k = ?m" "kfs ?k = demo_fs" "con ?k = blank_con" "cur_pcb ?k = cur_pcb demo_user"
    by (rule ext) (simp_all add: view_def demo_user_def demo_kernel_def in_program_page_def demo_image_def cur_pcb_def put_bytes_def)
  have cnt: "dir_count ?m demo_fs = 2" "data_count ?m demo_fs = 1" "inode_count ?m demo_fs = 1"
    by (simp_all add: dir_count_def data_count_def inode_count_def le32_def demo_fs_def out) (simp_all add: demo_image_def)
  have en: "fs_end ?m demo_fs = 16384" "wf_fs ?m demo_fs"
    by (simp_all add: fs_end_def wf_fs_def cnt) (simp_all add: demo_fs_def)
  have at: "direntry demo_fs 0 = 4160" "direntry demo_fs (Suc 0) = 4224" "direntry demo_fs (Suc (Suc 0)) = 4288"
    by (simp_all add: direntry_def demo_fs_def)
  have full: "bytes_of ?m 4224 32 = replicate 32 0x76" using bytes_of_put_bytes[of "replicate 32 0x76" 32 ?d 4224] by simp
  have nm: "cname ?m 4160 32 = [0x2E]" "cname ?m 4224 32 = replicate 32 0x76" "cname ?m 4288 32 = []"
    using cname_cstr[of ?m 4160 "[0x2E]" 32] cname_cstr[of ?m 4288 "[]" 32]
    by (simp_all add: cstr_Cons out cname_def[of ?m 4224] full) (simp_all add: demo_image_def)
  have dir: "dir_ok ?m demo_fs 2" using nm by (auto simp: dir_ok_def cnt at less_Suc_eq numeral_2_eq_2)
  obtain d where d: "read_dentry_by_index ?m demo_fs 0 = Some d" "file_type d = 1"
    by (simp add: read_dentry_by_index_def cnt at NUM_MAX_FILES_def le32_def out) (simp add: demo_image_def)
  have two: "[0..<nat 2] = [0, Suc 0]" "[0..<2] = [0, Suc 0]" by (simp_all add: upt_rec)
  have "map_of (dir_table ?m demo_fs (nat 2)) [0x2E] = Some (Some d)"
    unfolding dir_table_def two list.map at nm(1) by (simp only: map_of.simps fst_conv snd_conv fun_upd_same semiring_1_class.of_nat_0 d(1))
  moreover have "dentry_scan ?m demo_fs 4160 2 (of_nat 0) =
      Some (case map_of (drop 0 (dir_table ?m demo_fs (nat 2))) (cname ?m 4160 32) of None \<Rightarrow> None | Some d \<Rightarrow> d)"
    by (rule dentry_scan_finds) (simp_all add: cnt)
  ultimately have "dentry_scan ?m demo_fs 4160 2 (of_nat 0) = Some (Some d)" unfolding nm(1) drop_0 by (simp only: option.case)
  then have "read_dentry_by_name ?m demo_fs 4160 = Some (Some d)" by (simp add: read_dentry_by_name_def cnt)
  moreover have "length (fda (cur_pcb demo_user)) = 8" "stdout_ok demo_user" "flags (fda (cur_pcb demo_user) ! nat 2) = 0"
    by (simp_all add: demo_user_fields demo_block_def stdout_ok_def exec_fda_def closed_fd_def closed_desc_def Let_def)
  moreover have "?m 50000 = 0" by (simp add: out) (simp add: demo_image_def)
  moreover have "concat (map (\<lambda>i. cname ?m (direntry demo_fs i) 32 @ [0x0A]) [0..<2]) = [0x2E, 0x0A] @ replicate 32 0x76 @ [0x0A]"
    unfolding two by (simp add: at nm)
  ultimately show ?thesis
    using ls_lists_directory[of ?k ?U d 2 20000 50000 2] d(2) en dir
    by (simp add: k stdout_ok_def outside_image_def demo_env_def)
qed

end
