(* ===== verification/CountProg.thy ===== *)
theory CountProg
  imports UserProgs
begin

text \<open>The program counter, \<^verbatim>\<open>syscalls/ece391counter.c\<close>, and the conversion of numbers in the support
  library that it prints with, which agrees with the one of the kernel's library.\<close>

section \<open>The program\<close>

fun counter_loop :: "uenv \<Rightarrow> nat \<Rightarrow> u32 \<Rightarrow> nat \<Rightarrow> kernel \<Rightarrow> kernel option" where
  "counter_loop U buf i 0 k = Some k"
| "counter_loop U buf i (Suc n) k = do {
     m \<leftarrow> ece391_itoa (view k) (i + 1) buf 10;
     k1 \<leftarrow> ece391_fdputs 1 buf (set_view m k);
     k2 \<leftarrow> say U (nl '''') k1;
     counter_loop U buf (i + 1) n k2 }"

text \<open>The choice of the line in \<^verbatim>\<open>buf\<close>; \<^verbatim>\<open>max\<close> stays 0 for a line that starts with another character.\<close>

definition counter_max :: "byte \<Rightarrow> nat" where
  "counter_max c = (if c = 0x30 then 100 else if c = 0x31 then 10000 else if c = 0x32 then 100000 else 0)"

definition counter_main :: "uenv \<Rightarrow> nat \<Rightarrow> kernel \<Rightarrow> (int \<times> kernel) option" where
  "counter_main U buf k = do {
     k1 \<leftarrow> say U (nl ''Enter the Test Number: (0): 100, (1): 10000, (2): 100000'') k;
     (cnt, k2) \<leftarrow> system_read (u_ex U) (u_loc U) 0 buf 1023 k1;
     if cnt = - 1 then do { k3 \<leftarrow> say U (nl ''Can't read the number from keyboard.'') k2; Some (3, k3) }
     else do {
       let k3 = poke (buf + nat cnt) 0 k2;
       n \<leftarrow> ece391_strlen (view k3) buf;
       if n > 2 \<or> n = 2 \<and> (view k3 buf < 0x30 \<or> view k3 buf > 0x32) then do { k4 \<leftarrow> say U (nl ''Wrong Choice!'') k3; Some (0, k4) }
       else do { k4 \<leftarrow> counter_loop U buf 0 (counter_max (view k3 buf)) k3; Some (0, k4) } } }"

section \<open>Facts: the conversion of numbers\<close>

lemma strrev_loops: "ece391_strrev_loop m s b e = strrev_loop m s b e"
  by (induction m s b e rule: ece391_strrev_loop.induct)
    (subst ece391_strrev_loop.simps, subst strrev_loop.simps, simp add: Let_def fun_upd_def)

lemma lookups: "ece391_lookup = itoa_lookup"
  by (simp add: ece391_lookup_def itoa_lookup_def)

lemma itoa_loops:
  assumes "2 \<le> unat radix" "unat radix \<le> 36"
  shows "ece391_itoa_loop m buf v radix = itoa_loop m buf v radix"
proof (induction "unat v" arbitrary: m buf v rule: less_induct)
  case less
  show ?case
  proof (cases "v = 0")
    case True
    then show ?thesis by (simp add: ece391_itoa_loop.simps itoa_loop.simps)
  next
    case False
    then have "unat (v div radix) < unat v" using assms(1) by (simp add: unat_div unat_gt_0)
    then show ?thesis
      using less.hyps by (subst ece391_itoa_loop.simps, subst itoa_loop.simps) (simp add: lookups cong: if_cong)
  qed
qed

text \<open>A numeral of 32 bits has at most 32 digits, so the signed length of the support library does not matter.\<close>

lemma numeral_short:
  assumes "2 \<le> unat radix"
  shows "length (numeral_lsd (unat radix) (unat (v :: u32))) \<le> 32"
proof (rule length_numeral_lsd)
  have "unat v < 2 ^ 32" using unsigned_less[of v] by simp
  also have "(2 :: nat) ^ 32 \<le> unat radix ^ 32" using assms by (rule power_mono) simp
  finally show "unat v < unat radix ^ 32" .
qed

lemma strrevs:
  assumes "cstr m s xs" "length xs \<le> 32"
  shows "ece391_strrev m s = strrev m s"
proof -
  have "sint (of_nat (length xs) - 1 :: u32) = int (length xs) - 1"
  proof (cases xs)
    case (Cons x ys)
    have "of_nat (length xs) - 1 = (of_nat (length ys) :: u32)" by (simp add: Cons)
    then show ?thesis using assms(2) by (simp add: Cons) (subst sint_unat_small, simp_all add: unat_of_nat_small)
  qed simp
  then show ?thesis
    using strlen_cstr[OF assms(1)] ece391_strlen_cstr[OF assms(1)]
    by (cases "1 < length xs") (auto simp: ece391_strrev_def strrev_def strrev_loops Let_def strrev_loop.simps[of m s 0])
qed

lemma ece391_itoa_same:
  assumes "2 \<le> unat radix" "unat radix \<le> 36"
  shows "ece391_itoa m v buf radix = itoa m v buf radix"
proof -
  let ?ds = "numeral_lsd (unat radix) (unat v)"
  have "(put_bytes m buf ?ds)(buf + length ?ds := 0) = put_bytes m buf (?ds @ [0])" by (simp add: put_bytes_snoc)
  moreover have "cstr (put_bytes m buf (?ds @ [0])) buf ?ds" using assms numeral_lsd_nonzero by (intro cstr_put) blast
  ultimately show ?thesis
    using strrevs numeral_short[OF assms(1), of v] by (simp add: ece391_itoa_def itoa_def itoa_loops[OF assms] itoa_loop_put[OF assms] Let_def)
qed

section \<open>Facts: counting\<close>

definition count_line :: "u32 \<Rightarrow> byte list" where
  "count_line v = itoa_text v 10 @ [0x0A]"

lemma count_digits: "itoa_text v 10 \<noteq> []" "length (itoa_text v 10) \<le> 10"
proof -
  have "unat v < 4294967296" using unsigned_less[of v, where ?'a = nat] by simp
  then have v: "unat v < 10 ^ 10" by simp
  show "length (itoa_text v 10) \<le> 10" using length_numeral_lsd[OF v] by (simp add: itoa_text_def)
  show "itoa_text v 10 \<noteq> []" by (simp add: itoa_text_def numeral_lsd.simps[of 10] unat_eq_zero)
qed

text \<open>The buffer of 1024 bytes and the literal with the newline lie apart.\<close>

definition counter_env :: "uenv \<Rightarrow> nat \<Rightarrow> kernel \<Rightarrow> bool" where
  "counter_env U buf k \<longleftrightarrow> stdout_ok k \<and> buf \<noteq> 0 \<and> u_lit U (nl '''') \<noteq> 0 \<and> cstr (view k) (u_lit U (nl '''')) [0x0A] \<and>
     (u_lit U (nl '''') + 2 \<le> buf \<or> buf + 1024 \<le> u_lit U (nl ''''))"

lemma counter_line:
  assumes "counter_env U buf k"
  shows "\<exists>k1. counter_loop U buf i 1 k = Some k1 \<and> counter_env U buf k1 \<and> con k1 = fold putc (count_line (i + 1)) (con k)"
proof -
  let ?t = "itoa_text (i + 1) 10" and ?l = "u_lit U (nl '''')"
  let ?m = "put_bytes (view k) buf (?t @ [0])"
  have e: "stdout_ok k" "buf \<noteq> 0" "?l \<noteq> 0" "cstr (view k) ?l [0x0A]" "?l + 2 \<le> buf \<or> buf + 1024 \<le> ?l"
    using assms by (simp_all add: counter_env_def)
  have i: "ece391_itoa (view k) (i + 1) buf 10 = Some ?m" by (simp add: ece391_itoa_same itoa_put)
  have c: "cstr ?m buf ?t" by (intro cstr_put itoa_text_nonzero) simp
  have l: "cstr ?m ?l [0x0A]"
    using e(4,5) count_digits(2)[of "i + 1"] by (auto simp: cstr_Cons put_bytes_def)
  define k1 where "k1 = set_view ?m k"
  have k1: "stdout_ok k1" "view k1 = ?m" "con k1 = con k" using e(1) by (simp_all add: k1_def kernel_simps stdout_ok_def)
  define k2 where "k2 = k1\<lparr>con := fold putc ?t (con k)\<rparr>"
  have f: "ece391_fdputs 1 buf k1 = Some k2"
    using fdputs_text[OF k1(1), of buf ?t] c e(2) count_digits[of "i + 1"] by (simp add: k1(2,3) k2_def)
  have k2: "stdout_ok k2" "view k2 = ?m" "con k2 = fold putc ?t (con k)" using k1 by (simp_all add: k2_def kernel_simps stdout_ok_def)
  have n: "say U (nl '''') k2 = Some (k2\<lparr>con := putc 0x0A (con k2)\<rparr>)"
    using fdputs_text[OF k2(1), of ?l "[0x0A]"] l e(3) by (simp add: say_def k2(2))
  let ?k3 = "k2\<lparr>con := putc 0x0A (con k2)\<rparr>"
  have "counter_env U buf ?k3"
    using e l k2 by (simp add: counter_env_def kernel_simps stdout_ok_def)
  moreover have "counter_loop U buf i 1 k = Some ?k3" using i f n by (simp add: k1_def)
  ultimately show ?thesis by (simp add: k2(3) count_line_def)
qed

lemma counter_lines:
  assumes "counter_env U buf k"
  shows "\<exists>k1. counter_loop U buf i n k = Some k1 \<and>
    con k1 = fold putc (concat (map (\<lambda>j. count_line (i + of_nat j)) [1..<n + 1])) (con k)"
  using assms
proof (induction n arbitrary: i k)
  case (Suc n)
  obtain k1 where k1: "counter_loop U buf i 1 k = Some k1" "counter_env U buf k1" "con k1 = fold putc (count_line (i + 1)) (con k)"
    using counter_line[OF Suc.prems] by blast
  obtain k2 where k2: "counter_loop U buf (i + 1) n k1 = Some k2"
    "con k2 = fold putc (concat (map (\<lambda>j. count_line (i + 1 + of_nat j)) [1..<n + 1])) (con k1)"
    using Suc.IH[OF k1(2)] by blast
  have "counter_loop U buf i (Suc n) k = Some k2" using k1(1) k2(1) by (auto split: bind_splits)
  moreover have "map (\<lambda>j. count_line (i + 1 + of_nat j)) [1..<n + 1] = map (\<lambda>j. count_line (i + of_nat j)) [2..<n + 2]"
    by (simp add: map_Suc_upt[symmetric] numeral_2_eq_2 algebra_simps del: upt_Suc)
  moreover have "[1..<Suc n + 1] = 1 # [2..<n + 2]" by (simp add: upt_conv_Cons numeral_2_eq_2 del: upt_Suc)
  ultimately show ?case using k1(3) k2(2) by (simp del: upt_Suc)
qed simp

section \<open>Properties\<close>

text \<open>C21: The program counter ends with exit code 0 for any line its user has typed: for 0 it prints
  the numbers from 1 to 100, for 1 to 10000, for 2 to 100000, one per line and each as a decimal
  numeral that reads back as the number; for any other single character, and for a line longer
  than one character, it prints Wrong Choice!; for the empty line it prints nothing. The
  messages are in memory and the standard output is open.\<close>
theorem counter_counts:
  assumes "say U (nl ''Enter the Test Number: (0): 100, (1): 10000, (2): 100000'') k = Some k1"
    and "system_read (u_ex U) (u_loc U) 0 buf 1023 k1 = Some (cnt, k2)" "cnt \<noteq> - 1" "k3 = poke (buf + nat cnt) 0 k2"
    and "cstr (view k3) buf line" "length line < 1024" "counter_env U buf k3"
    and "u_lit U (nl ''Wrong Choice!'') \<noteq> 0" "cstr (view k3) (u_lit U (nl ''Wrong Choice!'')) (map of_char (nl ''Wrong Choice!''))"
  shows "(\<exists>k'. counter_main U buf k = Some (0, k') \<and>
      con k' = fold putc
        (if length line > 2 \<or> length line = 2 \<and> line ! 0 \<notin> {0x30, 0x31, 0x32} then map of_char (nl ''Wrong Choice!'')
         else let n = (case map_of [(0x30, 100), (0x31, 10000), (0x32, 100000)] (view k3 buf) of None \<Rightarrow> 0 | Some b \<Rightarrow> b)
              in concat (map (\<lambda>j. itoa_text (of_nat j) 10 @ [0x0A]) [1..<n + 1])) (con k2)) \<and>
    (\<forall>j \<le> 100000. parse_num 10 (itoa_text (of_nat j) 10) = j)"
proof -
  let ?c = "view k3 buf" and ?w = "map of_char (nl ''Wrong Choice!'')"
  have n: "ece391_strlen (view k3) buf = Some (of_nat (length line))" by (rule ece391_strlen_cstr[OF assms(5)])
  have u: "unat (of_nat (length line) :: u32) = length line" using assms(6) by (intro unat_of_nat_small) simp
  have len: "of_nat (length line) > (2 :: u32) \<longleftrightarrow> length line > 2" "of_nat (length line) = (2 :: u32) \<longleftrightarrow> length line = 2"
    using u by (simp_all add: word_less_nat_alt word_unat_eq_iff)
  have c0: "line ! 0 = ?c" if "line \<noteq> []" using cstr_nth[OF assms(5), of 0] that by simp
  have dig: "?c \<in> {0x30, 0x31, 0x32} \<longleftrightarrow> \<not> (?c < 0x30 \<or> ?c > 0x32)"
  proof -
    have "unat ?c = 48 \<or> unat ?c = 49 \<or> unat ?c = 50 \<longleftrightarrow> \<not> (unat ?c < 48 \<or> 50 < unat ?c)" by linarith
    then show ?thesis by (simp add: word_less_nat_alt word_unat_eq_iff)
  qed
  have cond: "length line = 2 \<and> line ! 0 \<notin> {0x30, 0x31, 0x32} \<longleftrightarrow> length line = 2 \<and> \<not> (0x30 \<le> ?c \<and> ?c \<le> 0x32)"
  proof (cases "length line = 2")
    case True
    then have "line \<noteq> []" by auto
    then have "line ! 0 = ?c" by (rule c0)
    then show ?thesis using dig by (metis not_le)
  qed simp
  have mx: "counter_max ?c = (case map_of [(0x30, 100), (0x31, 10000), (0x32, 100000)] ?c of None \<Rightarrow> 0 | Some b \<Rightarrow> b)"
    by (simp add: counter_max_def)
  have k3: "con k3 = con k2" "stdout_ok k3" using assms(7) by (simp_all add: assms(4) kernel_simps counter_env_def)
  have main: "counter_main U buf k = (if length line > 2 \<or> length line = 2 \<and> \<not> (0x30 \<le> ?c \<and> ?c \<le> 0x32)
      then do { k4 \<leftarrow> say U (nl ''Wrong Choice!'') k3; Some (0, k4) }
      else do { k4 \<leftarrow> counter_loop U buf 0 (counter_max ?c) k3; Some (0, k4) })"
    unfolding counter_main_def using assms(1-4) n by (simp add: len not_le Let_def cong: if_cong)
  have wrong: "say U (nl ''Wrong Choice!'') k3 = Some (k3\<lparr>con := fold putc ?w (con k3)\<rparr>)"
    using fdputs_text[OF k3(2) assms(9,8)] by (simp add: say_def)
  obtain k4 where k4: "counter_loop U buf 0 (counter_max ?c) k3 = Some k4"
    "con k4 = fold putc (concat (map (\<lambda>j. count_line (0 + of_nat j)) [1..<counter_max ?c + 1])) (con k3)"
    using counter_lines[OF assms(7)] by blast
  have "parse_num 10 (itoa_text (of_nat j) 10) = j" if "j \<le> 100000" for j
    using that parse_itoa_text[of 10 "of_nat j"] by (simp add: unat_of_nat_small)
  moreover have "\<exists>k'. counter_main U buf k = Some (0, k') \<and>
      con k' = fold putc (if length line > 2 \<or> length line = 2 \<and> line ! 0 \<notin> {0x30, 0x31, 0x32} then ?w
         else concat (map (\<lambda>j. itoa_text (of_nat j) 10 @ [0x0A]) [1..<counter_max ?c + 1])) (con k2)"
  proof (cases "length line > 2 \<or> length line = 2 \<and> \<not> (0x30 \<le> ?c \<and> ?c \<le> 0x32)")
    case True
    show ?thesis
      unfolding cond main if_P[OF True] wrong k3(1)
      by (rule exI[of _ "k3\<lparr>con := fold putc ?w (con k2)\<rparr>"]) simp
  next
    case False
    then show ?thesis unfolding cond main if_not_P[OF False] using k4 by (simp add: k3(1) count_line_def)
  qed
  ultimately show ?thesis unfolding mx Let_def by blast
qed

text \<open>A process whose user has typed the line \<^verbatim>\<open>0\<close>.\<close>

definition count_text :: "byte list" where
  "count_text = map of_char (nl ''Enter the Test Number: (0): 100, (1): 10000, (2): 100000'')"

definition wrong_text :: "byte list" where "wrong_text = map of_char (nl ''Wrong Choice!'')"

definition count_mem :: mem where
  "count_mem = (put_bytes (put_bytes demo_image 42000 (wrong_text @ [0])) 40000 (count_text @ [0]))(41000 := 0x0A, 41001 := 0)"

definition demo_count :: kernel where
  "demo_count = demo_user\<lparr>kmem := count_mem, enter_pressed_flag := 1, num_chars_typed := 2,
     keyboard_buffer := 0x30 # 0x0A # replicate 126 0\<rparr>"

abbreviation count_env :: uenv where
  "count_env \<equiv> demo_env\<lparr>u_lit := (\<lambda>t. if t = nl '''' then 41000 else if t = nl ''Wrong Choice!'' then 42000 else 40000)\<rparr>"

lemma count_text_ok: "0 \<notin> set count_text" "length count_text = 57" "0 \<notin> set wrong_text" "length wrong_text = 14"
  by (simp_all add: count_text_def wrong_text_def)

lemma demo_count_fields:
  "view demo_count = count_mem" "con demo_count = blank_con" "cur_pcb demo_count = cur_pcb demo_user"
  "keyboard_buffer demo_count = 0x30 # 0x0A # replicate 126 0" "num_chars_typed demo_count = 2"
  "enter_pressed_flag demo_count = 1" "keys_in demo_count = []"
proof -
  have "count_mem a = 0" if "in_program_page a" for a
    using that count_text_ok(2,4) by (simp add: count_mem_def in_program_page_def put_bytes_def demo_image_def)
  then show "view demo_count = count_mem"
    by (intro ext) (simp add: view_def demo_count_def demo_user_def demo_kernel_def)
qed (simp_all add: demo_count_def demo_user_def demo_kernel_def cur_pcb_def)

theorem counter_counts_witness:
  "\<exists>k'. counter_main count_env 20000 demo_count = Some (0, k') \<and>
     con k' = fold putc (count_text @ concat (map (\<lambda>j. itoa_text (of_nat j) 10 @ [0x0A]) [1..<101])) blank_con"
proof -
  let ?p = "nl ''Enter the Test Number: (0): 100, (1): 10000, (2): 100000''" and ?l = "fda (cur_pcb demo_user)"
  have op: "flags (?l ! 0) = 1" "fop (?l ! 0) = Some Stdin_ops" "fop (?l ! 1) = Some Stdout_ops"
    by (simp_all add: demo_user_fields demo_block_def exec_fda_def Let_def)
  have so: "stdout_ok demo_count" using op by (simp add: stdout_ok_def demo_count_fields)
  let ?i = "put_bytes demo_image 42000 (wrong_text @ [0])"
  have c: "cstr (put_bytes ?i 40000 (count_text @ [0])) 40000 count_text" by (intro cstr_put) (rule count_text_ok)
  have lit: "cstr count_mem 40000 count_text"
  proof -
    have "bytes_of count_mem 40000 57 = bytes_of (put_bytes ?i 40000 (count_text @ [0])) 40000 57"
      by (rule bytes_of_cong) (simp add: count_mem_def)
    with c show ?thesis by (simp add: cstr_def count_text_ok(2)) (simp add: count_mem_def)
  qed
  have ne: "count_text \<noteq> []" using count_text_ok(2) by force
  define k1 where "k1 = demo_count\<lparr>con := fold putc count_text blank_con\<rparr>"
  have k1: "view k1 = count_mem" "cur_pcb k1 = cur_pcb demo_user" "con k1 = fold putc count_text blank_con"
    "keyboard_buffer k1 = 0x30 # 0x0A # replicate 126 0" "num_chars_typed k1 = 2" "enter_pressed_flag k1 = 1" "keys_in k1 = []"
    by (simp_all add: k1_def demo_count_fields kernel_simps)
  have say: "say count_env ?p demo_count = Some k1"
    using fdputs_text[OF so, of 40000 count_text] lit count_text_ok(2) ne by (simp add: say_def demo_count_fields k1_def)
  let ?m = "count_mem(20000 := 0x30, 20001 := 0x0A, 20002 := 0)"
  have rd: "rd (keyboard_buffer k1) 0 = Some 0x30" "rd (keyboard_buffer k1) 1 = Some 0x0A" by (simp_all add: k1 rd_def)
  have "read_long (keyboard_buffer k1) 20000 0 (Suc (Suc 0)) count_mem 0 = Some (count_mem(20000 := 0x30, 20001 := 0x0A), 2)"
    using rd by simp
  note rl = this[folded numeral_2_eq_2]
  define k2 where "k2 = set_view ?m (clear_keyboard_buff (k1\<lparr>num_chars_typed := 0, enter_pressed_flag := 0\<rparr>)\<lparr>keys_in := []\<rparr>)"
  have read: "system_read (u_ex count_env) (u_loc count_env) 0 20000 1023 k1 = Some (2, k2)"
    using op k1 rl by (simp add: system_read_def sys_consts fop_read_def terminal_read_def wait_enter.simps NUM_CHARS_KB_def Let_def k2_def
        del: read_long.simps)
  have k2: "view k2 = ?m" "con k2 = fold putc count_text blank_con" "cur_pcb k2 = cur_pcb demo_user"
    using k1(2,3) by (simp_all add: k2_def kernel_simps clear_keyboard_buff_def del: upt_rec_numeral) (simp add: cur_pcb_def)
  define k3 where "k3 = poke (20000 + nat 2) 0 k2"
  have k3: "view k3 = ?m" "cur_pcb k3 = cur_pcb demo_user" by (simp_all add: k3_def kernel_simps k2)
  have line: "cstr (view k3) 20000 [0x30, 0x0A]" by (simp add: k3 cstr_Cons)
  have env: "counter_env count_env 20000 k3"
    using op(3) by (simp add: counter_env_def stdout_ok_def k3 cstr_Cons count_mem_def)
  have wrong: "cstr (view k3) 42000 wrong_text"
  proof -
    have "cstr ?i 42000 wrong_text" by (intro cstr_put) (rule count_text_ok)
    moreover have same: "view k3 (42000 + j) = ?i (42000 + j)" if "j \<le> 14" for j
      using that count_text_ok(2) by (simp add: k3(1) count_mem_def put_bytes_def)
    ultimately show ?thesis
      using bytes_of_cong[of 14 "view k3" 42000 ?i 42000] same[of 14] by (simp add: cstr_def count_text_ok(4))
  qed
  have lit: "u_lit count_env (nl ''Wrong Choice!'') = 42000" by simp
  have none: "(2 :: int) \<noteq> - 1" "length [0x30 :: byte, 0x0A] < 1024" "(42000 :: nat) \<noteq> 0" by simp_all
  have chosen: "\<not> (length [0x30 :: byte, 0x0A] > 2 \<or> length [0x30 :: byte, 0x0A] = 2 \<and> [0x30 :: byte, 0x0A] ! 0 \<notin> {0x30, 0x31, 0x32})"
    "view k3 20000 = 0x30" by (simp_all add: k3)
  have bound: "(case map_of [(0x30 :: byte, 100), (0x31, 10000), (0x32, 100000)] 0x30 of None \<Rightarrow> 0 | Some b \<Rightarrow> b) + 1 = (101 :: nat)"
    by simp
  note run = counter_counts[OF say read none(1) k3_def line none(2) env, unfolded lit, OF none(3) wrong[unfolded wrong_text_def],
      THEN conjunct1, unfolded if_not_P[OF chosen(1)] Let_def chosen(2) bound k2(2)]
  show ?thesis using run unfolding fold_append o_apply by blast
qed

end
