(* ===== verification/Syserr.thy ===== *)
theory Syserr
  imports UserProgs
begin

text \<open>The program syserr, \<^verbatim>\<open>syscalls/ece391syserr.c\<close>, which tries the error cases of the system calls,
  and the entry of the kernel that it probes with invalid numbers, \<^verbatim>\<open>systemcall_handler.S\<close>.  The
  kernel passes its tests.\<close>

section \<open>The entry of the system calls\<close>

datatype syscall = Sys_halt | Sys_execute | Sys_read | Sys_write | Sys_open | Sys_close | Sys_getargs | Sys_vidmap

text \<open>The jump table has nine entries but the test lets through the numbers 9 and 10: \<^verbatim>\<open>Behind\<close>.\<close>

datatype target = Invalid | Handler syscall | Behind

definition system_table :: "syscall option list" where
  "system_table = [None, Some Sys_halt, Some Sys_execute, Some Sys_read, Some Sys_write, Some Sys_open, Some Sys_close,
     Some Sys_getargs, Some Sys_vidmap]"

definition syscall_entry :: "u32 \<Rightarrow> target" where
  "syscall_entry eax =
    (if sint eax \<le> 0 then Invalid
     else if sint eax > 10 then Invalid
     else if nat (sint eax) < length system_table then
       (case system_table ! nat (sint eax) of None \<Rightarrow> Behind | Some c \<Rightarrow> Handler c)
     else Behind)"

section \<open>The program\<close>

definition NEG_FD :: int where "NEG_FD = - 1073741823"
definition BIG_FD :: int where "BIG_FD = 1073741823"
definition BIG_NUM :: int where "BIG_NUM = 1073741823"
definition NEG_NUM :: int where "NEG_NUM = - 1073741823"

text \<open>A call by number alone; a number the kernel accepts would start a call with arbitrary arguments.\<close>

definition call_sys :: "int \<Rightarrow> kernel \<Rightarrow> (int \<times> kernel) option" where
  "call_sys num k = (case syscall_entry (word_of_int num) of Invalid \<Rightarrow> Some (- 1, k) | _ \<Rightarrow> None)"

text \<open>A call that should fail, and the verdict at the end of a test.\<close>

definition check :: "uenv \<Rightarrow> string \<Rightarrow> int \<times> kernel \<Rightarrow> int \<Rightarrow> (int \<times> kernel) option" where
  "check U msg = (\<lambda>(r, k) fail. if r \<noteq> - 1 then do { k1 \<leftarrow> say U (nl msg) k; Some (2, k1) } else Some (fail, k))"

definition verdict :: "uenv \<Rightarrow> string \<Rightarrow> int \<Rightarrow> kernel \<Rightarrow> (int \<times> kernel) option" where
  "verdict U name fail k = do {
     k1 \<leftarrow> say U (nl (name @ (if fail \<noteq> 0 then '': FAIL'' else '': PASS''))) k;
     Some (fail, k1) }"

definition err_fd :: "uenv \<Rightarrow> string \<Rightarrow> int \<Rightarrow> nat \<Rightarrow> kernel \<Rightarrow> (int \<times> kernel) option" where
  "err_fd U name fd buf k = do {
     rk1 \<leftarrow> system_read (u_ex U) (u_loc U) fd buf 31 k;
     (fail1, k1) \<leftarrow> check U ''read fail'' rk1 0;
     rk2 \<leftarrow> system_write fd buf 31 k1;
     (fail2, k2) \<leftarrow> check U ''write fail'' rk2 fail1;
     (fail3, k3) \<leftarrow> check U ''close fail'' (system_close fd k2) fail2;
     verdict U name fail3 k3 }"

definition err_neg_fd :: "uenv \<Rightarrow> nat \<Rightarrow> kernel \<Rightarrow> (int \<times> kernel) option" where
  "err_neg_fd U = err_fd U ''err_neg_fd'' NEG_FD"

definition err_big_fd :: "uenv \<Rightarrow> nat \<Rightarrow> kernel \<Rightarrow> (int \<times> kernel) option" where
  "err_big_fd U = err_fd U ''err_big_fd'' BIG_FD"

text \<open>Opening \<^verbatim>\<open>n\<close> times, counting the failures, and closing the descriptors of a list.\<close>

fun open_lots :: "uenv \<Rightarrow> nat \<Rightarrow> int \<Rightarrow> kernel \<Rightarrow> (int \<times> kernel) option" where
  "open_lots U 0 cnt k = Some (cnt, k)"
| "open_lots U (Suc n) cnt k = do {
     (r, k1) \<leftarrow> system_open (u_lit U ''.'') k;
     open_lots U n (if r = - 1 then cnt + 1 else cnt) k1 }"

fun close_all :: "int list \<Rightarrow> kernel \<Rightarrow> kernel" where
  "close_all [] k = k"
| "close_all (i # is) k = close_all is (snd (system_close i k))"

definition err_open_lots :: "uenv \<Rightarrow> kernel \<Rightarrow> (int \<times> kernel) option" where
  "err_open_lots U k = do {
     (cnt, k1) \<leftarrow> open_lots U 7 0 k;
     verdict U ''err_open_lots'' (if cnt = 1 then 0 else 2) (close_all [2..7] k1) }"

definition err_open :: "uenv \<Rightarrow> kernel \<Rightarrow> (int \<times> kernel) option" where
  "err_open U k = do {
     rk1 \<leftarrow> system_open (u_lit U ''helloo'') k;
     (fail1, k1) \<leftarrow> check U (CHR 0x27 # ''helloo'' @ CHR 0x27 # '' fail'') rk1 0;
     rk2 \<leftarrow> system_open (u_lit U ''shel'') k1;
     (fail2, k2) \<leftarrow> check U (CHR 0x27 # ''shel'' @ CHR 0x27 # '' fail'') rk2 fail1;
     rk3 \<leftarrow> system_open (u_lit U '''') k2;
     (fail3, k3) \<leftarrow> check U ''empty string fail'' rk3 fail2;
     verdict U ''err_open'' fail3 k3 }"

text \<open>A test on each descriptor of a list.\<close>

fun each_fails :: "uenv \<Rightarrow> string \<Rightarrow> (int \<Rightarrow> kernel \<Rightarrow> (int \<times> kernel) option) \<Rightarrow> int list \<Rightarrow> int \<Rightarrow> kernel \<Rightarrow> (int \<times> kernel) option" where
  "each_fails U msg f [] fail k = Some (fail, k)"
| "each_fails U msg f (i # is) fail k = do {
     rk \<leftarrow> f i k;
     (fail1, k1) \<leftarrow> check U msg rk fail;
     each_fails U msg f is fail1 k1 }"

definition err_unopened :: "uenv \<Rightarrow> nat \<Rightarrow> kernel \<Rightarrow> (int \<times> kernel) option" where
  "err_unopened U buf k = do {
     (fail1, k1) \<leftarrow> each_fails U ''close unopened or invalid fd fail'' (\<lambda>i k. Some (system_close i k)) [0..7] 0 k;
     (fail2, k2) \<leftarrow> each_fails U ''read from unopened fd fail''
       (\<lambda>i k. system_read (u_ex U) (u_loc U) i buf 31 k) [2..7] fail1 k1;
     (fail3, k3) \<leftarrow> each_fails U ''write to unopened fd fail'' (\<lambda>i k. system_write i buf 31 k) [2..7] fail2 k2;
     verdict U ''err_unopened'' fail3 k3 }"

text \<open>\<^verbatim>\<open>vpt\<close> is the address of the page table for the video page.\<close>

definition err_vidmap :: "uenv \<Rightarrow> u32 \<Rightarrow> kernel \<Rightarrow> (int \<times> kernel) option" where
  "err_vidmap U vpt k = do {
     (fail1, k1) \<leftarrow> check U ''Null pointer fail'' (system_vidmap vpt 0 k) 0;
     (fail2, k2) \<leftarrow> check U ''Kernel pointer fail fail'' (system_vidmap vpt 0x400000 k1) fail1;
     verdict U ''err_vidmap'' fail2 k2 }"

definition err_stdin_out :: "uenv \<Rightarrow> nat \<Rightarrow> kernel \<Rightarrow> (int \<times> kernel) option" where
  "err_stdin_out U buf k = do {
     rk1 \<leftarrow> system_write 0 buf 31 k;
     (fail1, k1) \<leftarrow> check U ''write to stdin fail'' rk1 0;
     rk2 \<leftarrow> system_read (u_ex U) (u_loc U) 1 buf 31 k1;
     (fail2, k2) \<leftarrow> check U ''read from stdout fail'' rk2 fail1;
     verdict U ''err_stdin_out'' fail2 k2 }"

definition err_syscall_num :: "uenv \<Rightarrow> kernel \<Rightarrow> (int \<times> kernel) option" where
  "err_syscall_num U k = do {
     rk1 \<leftarrow> call_sys BIG_NUM k;
     (fail1, k1) \<leftarrow> check U ''syscall 0 fail'' rk1 0;
     rk2 \<leftarrow> call_sys NEG_NUM k1;
     (fail2, k2) \<leftarrow> check U ''big num syscall fail'' rk2 fail1;
     rk3 \<leftarrow> call_sys 0 k2;
     (fail3, k3) \<leftarrow> check U ''neg num syscall fail'' rk3 fail2;
     verdict U ''err_syscall_num'' fail3 k3 }"

text \<open>All tests: \<^verbatim>\<open>buf\<close> is the local buffer of each of them, \<^verbatim>\<open>line\<close> the one of \<^verbatim>\<open>main\<close>.\<close>

definition all_tests :: "uenv \<Rightarrow> u32 \<Rightarrow> nat \<Rightarrow> kernel \<Rightarrow> (int \<times> kernel) option" where
  "all_tests U vpt buf k = do {
     (f1, k1) \<leftarrow> err_neg_fd U buf k;
     (f2, k2) \<leftarrow> err_big_fd U buf k1;
     (f3, k3) \<leftarrow> err_open_lots U k2;
     (f4, k4) \<leftarrow> err_open U k3;
     (f5, k5) \<leftarrow> err_unopened U buf k4;
     (f6, k6) \<leftarrow> err_vidmap U vpt k5;
     (f7, k7) \<leftarrow> err_stdin_out U buf k6;
     (f8, k8) \<leftarrow> err_syscall_num U k7;
     let fail = f1 + f2 + f3 + f4 + f5 + f6 + f7 + f8;
     k9 \<leftarrow> say U (nl ([CHR 0x0A] @ (if fail \<noteq> 0 then ''Overall Tests: FAIL'' else ''Overall Tests: PASS''))) k8;
     Some (fail, k9) }"

definition syserr_main :: "uenv \<Rightarrow> u32 \<Rightarrow> nat \<Rightarrow> nat \<Rightarrow> kernel \<Rightarrow> (int \<times> kernel) option" where
  "syserr_main U vpt buf line k = do {
     k1 \<leftarrow> say U ''Choose from tests 1-8. 0 to run all: '' k;
     (cnt, k2) \<leftarrow> system_read (u_ex U) (u_loc U) 0 line 127 k1;
     if cnt = - 1 then do { k3 \<leftarrow> say U (nl (''Can'' @ CHR 0x27 # ''t read test #'')) k2; Some (2, k3) }
     else do {
       let select = uint (view k2 line) - 48;
       if select = 0 then all_tests U vpt buf k2
       else if select = 1 then err_neg_fd U buf k2
       else if select = 2 then err_big_fd U buf k2
       else if select = 3 then err_open_lots U k2
       else if select = 4 then err_open U k2
       else if select = 5 then err_unopened U buf k2
       else if select = 6 then err_vidmap U vpt k2
       else if select = 7 then err_stdin_out U buf k2
       else if select = 8 then err_syscall_num U k2
       else do { k3 \<leftarrow> say U ''Invalid test number. Choose from tests 1-8 or 0'' k2; Some (0, k3) } } }"

section \<open>Facts\<close>

definition letters :: "string \<Rightarrow> byte list" where "letters t = map of_char t"

text \<open>The descriptors of a fresh process.\<close>

definition fresh_table :: "file_descriptor list \<Rightarrow> bool" where
  "fresh_table l \<longleftrightarrow> length l = 8 \<and> fop (l ! 0) = Some Stdin_ops \<and> fop (l ! 1) = Some Stdout_ops \<and>
     (\<forall>i. 2 \<le> i \<and> i < 8 \<longrightarrow> flags (l ! i) = 0 \<and> fop (l ! i) = Some Null_ops)"

lemma fresh_exec_fda: "length l = 8 \<Longrightarrow> fresh_table (exec_fda l)"
  by (auto simp: fresh_table_def exec_fda_def Let_def closed_fd_def nth_list_update)

text \<open>The messages of a run without failures, each in place in memory.\<close>

definition pass_names :: "string list" where
  "pass_names = [''err_neg_fd'', ''err_big_fd'', ''err_open_lots'', ''err_open'', ''err_unopened'', ''err_vidmap'',
     ''err_stdin_out'', ''err_syscall_num'']"

definition messages :: "string list" where
  "messages = map (\<lambda>t. nl (t @ '': PASS'')) pass_names @ [nl ([CHR 0x0A] @ ''Overall Tests: PASS'')]"

definition literal_at :: "uenv \<Rightarrow> mem \<Rightarrow> string \<Rightarrow> bool" where
  "literal_at U m t \<longleftrightarrow> u_lit U t \<noteq> 0 \<and> cstr m (u_lit U t) (letters t)"

text \<open>A directory with an entry for itself, and without the misspelt names.\<close>

definition names_ok :: "uenv \<Rightarrow> mem \<Rightarrow> fsys \<Rightarrow> bool" where
  "names_ok U m f \<longleftrightarrow> (\<exists>d. read_dentry_by_name m f (u_lit U ''.'') = Some (Some d) \<and> file_type d = 1) \<and>
     (\<forall>t \<in> {''helloo'', ''shel'', ''''}. read_dentry_by_name m f (u_lit U t) = Some None)"

definition env_ok :: "uenv \<Rightarrow> kernel \<Rightarrow> bool" where
  "env_ok U k \<longleftrightarrow> fresh_table (fda (cur_pcb k)) \<and> (\<forall>t \<in> set messages. literal_at U (view k) t) \<and> names_ok U (view k) (kfs k)"

lemma env_ok_con [simp]: "env_ok U (k\<lparr>con := c\<rparr>) = env_ok U k"
  by (simp add: env_ok_def kernel_simps)

lemma say_literal:
  assumes "stdout_ok k" "literal_at U (view k) t" "t \<noteq> []" "length t < 79"
  shows "say U t k = Some (k\<lparr>con := fold putc (letters t) (con k)\<rparr>)"
  using assms by (simp add: say_def fdputs_text literal_at_def letters_def)

lemma verdict_passes:
  assumes "env_ok U k" "name \<in> set pass_names"
  shows "\<exists>k'. verdict U name 0 k = Some (0, k') \<and> env_ok U k' \<and> con k' = fold putc (letters (nl (name @ '': PASS''))) (con k)"
proof -
  have "length (nl (name @ '': PASS'')) < 79" using assms(2) by (auto simp: pass_names_def)
  moreover have "literal_at U (view k) (nl (name @ '': PASS''))" using assms by (auto simp: env_ok_def messages_def)
  moreover have "stdout_ok k" using assms(1) by (simp add: env_ok_def fresh_table_def stdout_ok_def)
  ultimately have "say U (nl (name @ '': PASS'')) k = Some (k\<lparr>con := fold putc (letters (nl (name @ '': PASS''))) (con k)\<rparr>)"
    by (intro say_literal) simp_all
  then show ?thesis using assms(1) by (simp add: verdict_def)
qed

lemma check_expected [simp]: "check U msg (- 1, k) fail = Some (fail, k)"
  by (simp add: check_def)

lemma each_fails_expected:
  "(\<And>i. i \<in> set is \<Longrightarrow> f i k = Some (- 1, k)) \<Longrightarrow> each_fails U msg f is fail k = Some (fail, k)"
  by (induction "is") simp_all

lemma bad_descriptor:
  assumes "fd < 0 \<or> 7 < fd" "buf \<noteq> 0"
  shows "system_read ex loc fd buf n k = Some (- 1, k)" "system_write fd buf n k = Some (- 1, k)" "system_close fd k = (- 1, k)"
  using assms by (auto simp: system_read_def system_write_def system_close_def sys_consts)

lemma err_fd_passes:
  assumes "fd < 0 \<or> 7 < fd" "buf \<noteq> 0"
  shows "err_fd U name fd buf k = verdict U name 0 k"
  by (simp add: err_fd_def bad_descriptor[OF assms])

text \<open>Opening until the table is full.\<close>

definition opened_upto :: "nat \<Rightarrow> file_descriptor list \<Rightarrow> bool" where
  "opened_upto j l \<longleftrightarrow> length l = 8 \<and> (\<forall>i. 2 \<le> i \<and> i < 8 \<longrightarrow> (flags (l ! i) \<noteq> 0 \<longleftrightarrow> i < 2 + j))"

lemma open_scan_none: "(\<And>i. fd \<le> i \<Longrightarrow> i < fd + int n \<Longrightarrow> flags (l ! nat i) \<noteq> 0) \<Longrightarrow> open_scan l fd n = None"
  by (induction n arbitrary: fd) auto

lemma open_scan_first:
  "flags (l ! nat j) = 0 \<Longrightarrow> fd \<le> j \<Longrightarrow> j < fd + int n \<Longrightarrow> (\<And>i. fd \<le> i \<Longrightarrow> i < j \<Longrightarrow> flags (l ! nat i) \<noteq> 0) \<Longrightarrow>
   open_scan l fd n = Some j"
proof (induction n arbitrary: fd)
  case (Suc n)
  then show ?case by (cases "fd = j") auto
qed simp

lemma open_next:
  assumes "opened_upto j (fda (cur_pcb k))" "j < 6" "read_dentry_by_name (view k) (kfs k) name = Some (Some d)" "file_type d = 1"
  shows "\<exists>k1 e. system_open name k = Some (2 + int j, k1) \<and> opened_upto (j + 1) (fda (cur_pcb k1)) \<and>
    view k1 = view k \<and> kfs k1 = kfs k \<and> con k1 = con k \<and> fda (cur_pcb k1) = (fda (cur_pcb k))[2 + j := e]"
proof -
  let ?l = "fda (cur_pcb k)"
  have f: "i \<in> {2..<8} \<Longrightarrow> flags (?l ! i) \<noteq> 0 \<longleftrightarrow> i < 2 + j" for i using assms(1) by (simp add: opened_upto_def)
  have "open_scan ?l 2 6 = Some (2 + int j)"
  proof (rule open_scan_first)
    show "flags (?l ! nat (2 + int j)) = 0" using assms(2) f[of "2 + j"] by (simp add: nat_add_distrib)
    show "flags (?l ! nat i) \<noteq> 0" if "2 \<le> i" "i < 2 + int j" for i using that assms(2) f[of "nat i"] by (simp add: nat_less_iff)
  qed (use assms(2) in simp_all)
  then obtain e where o: "system_open name k = Some (2 + int j, upd_pcb (\<lambda>p. p\<lparr>fda := (fda p)[2 + j := e]\<rparr>) k)" "flags e \<noteq> 0"
    using assms(3,4) by (force simp: system_open_def open_fd_def sys_consts nat_add_distrib)
  have "opened_upto (j + 1) (?l[2 + j := e])"
    using assms(1,2) o(2) f by (auto simp: opened_upto_def nth_list_update)
  then show ?thesis using o(1) by (auto simp: kernel_simps)
qed

lemma open_full:
  assumes "opened_upto 6 (fda (cur_pcb k))" "read_dentry_by_name (view k) (kfs k) name = Some (Some d)" "file_type d = 1"
  shows "system_open name k = Some (- 1, k)"
proof -
  have "open_scan (fda (cur_pcb k)) 2 6 = None"
  proof (rule open_scan_none)
    show "flags (fda (cur_pcb k) ! nat i) \<noteq> 0" if "2 \<le> i" "i < 2 + int 6" for i
      using that assms(1) by (simp add: opened_upto_def nat_less_iff le_nat_iff)
  qed
  then show ?thesis using assms(2,3) by (simp add: system_open_def open_fd_def sys_consts)
qed

lemma open_lots_fills:
  assumes "opened_upto j (fda (cur_pcb k))" "j + n = 6"
    and "read_dentry_by_name (view k) (kfs k) (u_lit U ''.'') = Some (Some d)" "file_type d = 1"
  shows "\<exists>k1. open_lots U (n + 1) cnt k = Some (cnt + 1, k1) \<and> opened_upto 6 (fda (cur_pcb k1)) \<and>
    view k1 = view k \<and> kfs k1 = kfs k \<and> con k1 = con k \<and>
    fda (cur_pcb k1) ! 0 = fda (cur_pcb k) ! 0 \<and> fda (cur_pcb k1) ! 1 = fda (cur_pcb k) ! 1"
  using assms
proof (induction n arbitrary: j k)
  case 0
  then show ?case using open_full[of k "u_lit U ''.''" d] by simp
next
  case (Suc n)
  obtain k1 e where k1: "system_open (u_lit U ''.'') k = Some (2 + int j, k1)" "opened_upto (j + 1) (fda (cur_pcb k1))"
    "view k1 = view k" "kfs k1 = kfs k" "con k1 = con k" "fda (cur_pcb k1) = (fda (cur_pcb k))[2 + j := e]"
    using open_next[OF Suc.prems(1) _ Suc.prems(3,4)] Suc.prems(2) by auto
  then show ?case using Suc.IH[of "j + 1" k1] Suc.prems by auto
qed

lemma close_all_spec:
  "(\<And>i. i \<in> set is \<Longrightarrow> 2 \<le> i \<and> i < 8) \<Longrightarrow> length (fda (cur_pcb k)) = 8 \<Longrightarrow>
   view (close_all is k) = view k \<and> kfs (close_all is k) = kfs k \<and> con (close_all is k) = con k \<and>
   length (fda (cur_pcb (close_all is k))) = 8 \<and>
   (\<forall>j < 8. fda (cur_pcb (close_all is k)) ! j =
      (if int j \<in> set is \<and> flags (fda (cur_pcb k) ! j) \<noteq> 0 then closed_fd (fda (cur_pcb k) ! j) else fda (cur_pcb k) ! j))"
proof (induction "is" arbitrary: k)
  case (Cons i "is")
  let ?k1 = "snd (system_close i k)" and ?l = "fda (cur_pcb k)"
  have i: "2 \<le> i" "i < 8" using Cons.prems(1)[of i] by simp_all
  have k1: "view ?k1 = view k" "kfs ?k1 = kfs k" "con ?k1 = con k" "length (fda (cur_pcb ?k1)) = 8"
    using Cons.prems(2) by (auto simp: system_close_eq kernel_simps)
  have l1: "fda (cur_pcb ?k1) ! j = (if int j = i \<and> flags (?l ! j) \<noteq> 0 then closed_fd (?l ! j) else ?l ! j)" if "j < 8" for j
    using that i Cons.prems(2) by (auto simp: system_close_eq kernel_simps nth_list_update)
  have "flags (closed_fd d) = 0" for d by (simp add: closed_fd_def)
  then show ?case using Cons.IH[of ?k1] Cons.prems k1 l1 by auto
qed simp

lemma err_open_lots_passes:
  assumes "env_ok U k"
  shows "\<exists>k1. err_open_lots U k = verdict U ''err_open_lots'' 0 k1 \<and> env_ok U k1 \<and> con k1 = con k"
proof -
  have l: "fresh_table (fda (cur_pcb k))" using assms by (simp add: env_ok_def)
  obtain d where d: "read_dentry_by_name (view k) (kfs k) (u_lit U ''.'') = Some (Some d)" "file_type d = 1"
    using assms by (auto simp: env_ok_def names_ok_def)
  have "opened_upto 0 (fda (cur_pcb k))" using l by (auto simp: fresh_table_def opened_upto_def)
  then obtain k1 where k1: "open_lots U 7 0 k = Some (1, k1)" "opened_upto 6 (fda (cur_pcb k1))" "view k1 = view k"
    "kfs k1 = kfs k" "con k1 = con k" "fda (cur_pcb k1) ! 0 = fda (cur_pcb k) ! 0" "fda (cur_pcb k1) ! 1 = fda (cur_pcb k) ! 1"
    using open_lots_fills[of 0 k 6 U d 0] d by auto
  define cl :: "int list" where "cl = [2..7]"
  have cl: "set cl = {2..7}" by (simp only: cl_def set_upto)
  let ?k2 = "close_all cl k1"
  have len: "length (fda (cur_pcb k1)) = 8" using k1(2) by (simp add: opened_upto_def)
  have c: "view ?k2 = view k" "kfs ?k2 = kfs k" "con ?k2 = con k" "length (fda (cur_pcb ?k2)) = 8"
    "\<And>j. j < 8 \<Longrightarrow> fda (cur_pcb ?k2) ! j = (if int j \<in> {2..7} \<and> flags (fda (cur_pcb k1) ! j) \<noteq> 0
       then closed_fd (fda (cur_pcb k1) ! j) else fda (cur_pcb k1) ! j)"
    using close_all_spec[of cl k1] len k1 by (simp_all add: cl)
  have "fresh_table (fda (cur_pcb ?k2))"
    using l c(4,5) k1(2,6,7) by (auto simp: fresh_table_def opened_upto_def closed_fd_def)
  then have "env_ok U ?k2" using assms c by (simp add: env_ok_def)
  then show ?thesis using k1(1) c(3) by (intro exI[of _ ?k2]) (simp add: err_open_lots_def cl_def)
qed

lemma err_open_passes: "env_ok U k \<Longrightarrow> err_open U k = verdict U ''err_open'' 0 k"
  by (simp add: err_open_def env_ok_def names_ok_def system_open_def)

lemma null_descriptor:
  assumes "fresh_table (fda (cur_pcb k))" "2 \<le> i" "i < 8" "buf \<noteq> 0"
  shows "system_read ex loc i buf n k = Some (- 1, k)" "system_write i buf n k = Some (- 1, k)" "system_close i k = (- 1, k)"
proof -
  have "flags (fda (cur_pcb k) ! nat i) = 0" "fop (fda (cur_pcb k) ! nat i) = Some Null_ops"
    using assms(1-3) by (simp_all add: fresh_table_def le_nat_iff nat_less_iff)
  then show "system_read ex loc i buf n k = Some (- 1, k)" "system_write i buf n k = Some (- 1, k)" "system_close i k = (- 1, k)"
    using assms(2-4) by (simp_all add: system_read_def system_write_def system_close_def sys_consts fop_write_def
        no_operation_write_def kernel_simps)
qed

lemma err_unopened_passes:
  assumes "env_ok U k" "buf \<noteq> 0"
  shows "err_unopened U buf k = verdict U ''err_unopened'' 0 k"
proof -
  have l: "fresh_table (fda (cur_pcb k))" using assms(1) by (simp add: env_ok_def)
  have low: "system_close i k = (- 1, k)" if "i < 8" for i
    using that null_descriptor(3)[OF l _ _ assms(2)] by (cases "2 \<le> i") (auto simp: system_close_def sys_consts)
  have c: "each_fails U msg (\<lambda>i k. Some (system_close i k)) [0..7] 0 k = Some (0, k)" for msg
    by (rule each_fails_expected) (simp only: set_upto, simp add: low)
  have r: "each_fails U msg (\<lambda>i k. system_read (u_ex U) (u_loc U) i buf 31 k) [2..7] 0 k = Some (0, k)" for msg
    by (rule each_fails_expected) (simp only: set_upto, simp add: null_descriptor(1)[OF l _ _ assms(2)])
  have w: "each_fails U msg (\<lambda>i k. system_write i buf 31 k) [2..7] 0 k = Some (0, k)" for msg
    by (rule each_fails_expected) (simp only: set_upto, simp add: null_descriptor(2)[OF l _ _ assms(2)])
  show ?thesis
    unfolding err_unopened_def c Option.bind.bind_lunit prod.case r w ..
qed

lemma err_vidmap_passes: "err_vidmap U vpt k = verdict U ''err_vidmap'' 0 k"
  by (simp add: err_vidmap_def system_vidmap_def IMG_BIG_START_def)

lemma err_stdin_out_passes:
  assumes "env_ok U k" "buf \<noteq> 0"
  shows "err_stdin_out U buf k = verdict U ''err_stdin_out'' 0 k"
proof -
  have "fop (fda (cur_pcb k) ! 0) = Some Stdin_ops" "fop (fda (cur_pcb k) ! 1) = Some Stdout_ops"
    using assms(1) by (simp_all add: env_ok_def fresh_table_def)
  then have "system_write 0 buf 31 k = Some (- 1, k)" "system_read (u_ex U) (u_loc U) 1 buf 31 k = Some (- 1, k)"
    using assms(2) by (simp_all add: system_write_def system_read_def sys_consts fop_write_def fop_read_def
        no_operation_write_def no_operation_read_def kernel_simps)
  then show ?thesis by (simp add: err_stdin_out_def)
qed

lemma err_syscall_num_passes: "err_syscall_num U k = verdict U ''err_syscall_num'' 0 k"
  by (simp add: err_syscall_num_def call_sys_def syscall_entry_def BIG_NUM_def NEG_NUM_def)

text \<open>What a run without failures prints.\<close>

definition report :: "byte list" where
  "report = letters (concat messages)"

lemma fold_letters: "fold putc (letters b) (fold putc (letters a) c) = fold putc (letters (a @ b)) c"
  by (simp add: letters_def)

lemma all_tests_pass:
  assumes "env_ok U k" "buf \<noteq> 0"
  shows "\<exists>k'. all_tests U vpt buf k = Some (0, k') \<and> con k' = fold putc report (con k)"
proof -
  note ok = verdict_passes[unfolded pass_names_def]
  obtain k1 where k1: "err_neg_fd U buf k = Some (0, k1)" "env_ok U k1"
    "con k1 = fold putc (letters (nl (''err_neg_fd'' @ '': PASS''))) (con k)"
    using ok[OF assms(1), of "''err_neg_fd''"] assms(2) by (auto simp: err_neg_fd_def err_fd_passes NEG_FD_def)
  obtain k2 where k2: "err_big_fd U buf k1 = Some (0, k2)" "env_ok U k2"
    "con k2 = fold putc (letters (nl (''err_big_fd'' @ '': PASS''))) (con k1)"
    using ok[OF k1(2), of "''err_big_fd''"] assms(2) by (auto simp: err_big_fd_def err_fd_passes BIG_FD_def)
  obtain k3 where k3: "err_open_lots U k2 = Some (0, k3)" "env_ok U k3"
    "con k3 = fold putc (letters (nl (''err_open_lots'' @ '': PASS''))) (con k2)"
    using err_open_lots_passes[OF k2(2)] ok[of U _ "''err_open_lots''"] by fastforce
  obtain k4 where k4: "err_open U k3 = Some (0, k4)" "env_ok U k4"
    "con k4 = fold putc (letters (nl (''err_open'' @ '': PASS''))) (con k3)"
    using ok[OF k3(2), of "''err_open''"] by (auto simp: err_open_passes[OF k3(2)])
  obtain k5 where k5: "err_unopened U buf k4 = Some (0, k5)" "env_ok U k5"
    "con k5 = fold putc (letters (nl (''err_unopened'' @ '': PASS''))) (con k4)"
    using ok[OF k4(2), of "''err_unopened''"] by (auto simp: err_unopened_passes[OF k4(2) assms(2)])
  obtain k6 where k6: "err_vidmap U vpt k5 = Some (0, k6)" "env_ok U k6"
    "con k6 = fold putc (letters (nl (''err_vidmap'' @ '': PASS''))) (con k5)"
    using ok[OF k5(2), of "''err_vidmap''"] by (auto simp: err_vidmap_passes)
  obtain k7 where k7: "err_stdin_out U buf k6 = Some (0, k7)" "env_ok U k7"
    "con k7 = fold putc (letters (nl (''err_stdin_out'' @ '': PASS''))) (con k6)"
    using ok[OF k6(2), of "''err_stdin_out''"] by (auto simp: err_stdin_out_passes[OF k6(2) assms(2)])
  obtain k8 where k8: "err_syscall_num U k7 = Some (0, k8)" "env_ok U k8"
    "con k8 = fold putc (letters (nl (''err_syscall_num'' @ '': PASS''))) (con k7)"
    using ok[OF k7(2), of "''err_syscall_num''"] by (auto simp: err_syscall_num_passes)
  let ?t = "nl ([CHR 0x0A] @ ''Overall Tests: PASS'')"
  have "say U ?t k8 = Some (k8\<lparr>con := fold putc (letters ?t) (con k8)\<rparr>)"
    using k8(2) by (intro say_literal) (auto simp: env_ok_def messages_def fresh_table_def stdout_ok_def)
  then have "all_tests U vpt buf k = Some (0, k8\<lparr>con := fold putc (letters ?t) (con k8)\<rparr>)"
    using k1(1) k2(1) k3(1) k4(1) k5(1) k6(1) k7(1) k8(1) by (simp add: all_tests_def)
  moreover have "fold putc (letters ?t) (con k8) = fold putc report (con k)"
    unfolding k8(3) k7(3) k6(3) k5(3) k4(3) k3(3) k2(3) k1(3) fold_letters
    by (simp add: report_def messages_def pass_names_def)
  ultimately show ?thesis by simp
qed

text \<open>Choosing the test 0.\<close>

lemma syserr_all:
  assumes "say U ''Choose from tests 1-8. 0 to run all: '' k = Some k1"
    and "system_read (u_ex U) (u_loc U) 0 line 127 k1 = Some (cnt, k2)" "cnt \<noteq> - 1" "view k2 line = 0x30"
  shows "syserr_main U vpt buf line k = all_tests U vpt buf k2"
  using assms by (simp add: syserr_main_def)

text \<open>C30: Started with a fresh descriptor table in a directory that lists itself but not the misspelt
  names, the program syserr finds no failure: every error case of the system calls returns -1,
  the seventh open fails, and the kernel prints exactly the lines of a run that passes.\<close>
theorem syserr_passes:
  assumes "say U ''Choose from tests 1-8. 0 to run all: '' k = Some k1"
    and "system_read (u_ex U) (u_loc U) 0 line 127 k1 = Some (cnt, k2)" "cnt \<noteq> - 1" "view k2 line = 0x30"
    and "env_ok U k2" "buf \<noteq> 0"
  shows "\<exists>k'. syserr_main U vpt buf line k = Some (0, k') \<and> con k' = fold putc report (con k2)"
  unfolding syserr_all[OF assms(1-4)] by (rule all_tests_pass[OF assms(5,6)])

text \<open>For the witness: the texts of the program in cells of 64 bytes, a directory with an entry for itself,
  and a line that has been typed.\<close>

definition demo_texts :: "string list" where
  "demo_texts = [''Choose from tests 1-8. 0 to run all: '', ''.'', ''helloo'', ''shel'', ''''] @ messages"

definition cell_of :: "string \<Rightarrow> nat" where
  "cell_of t = 30000 + 64 * length (takeWhile (\<lambda>x. x \<noteq> t) demo_texts)"

definition text_mem :: mem where
  "text_mem = (\<lambda>a. if a < 30000 then (demo_image(4160 := 0x2E, 4192 := 1)) a
     else let i = (a - 30000) div 64; j = (a - 30000) mod 64 in
       if i < length demo_texts \<and> j < length (demo_texts ! i) then of_char (demo_texts ! i ! j) else 0)"

lemma demo_texts_short: "t \<in> set demo_texts \<Longrightarrow> length t < 64 \<and> 0 \<notin> set (letters t)"
  by (auto simp: demo_texts_def messages_def pass_names_def letters_def)

lemma cell_text:
  assumes "t \<in> set demo_texts"
  shows "cstr text_mem (cell_of t) (letters t)"
proof -
  define i where "i = length (takeWhile (\<lambda>x. x \<noteq> t) demo_texts)"
  have i: "i < length demo_texts" "demo_texts ! i = t"
    using assms nth_length_takeWhile[of "\<lambda>x. x \<noteq> t" demo_texts] takeWhile_eq_all_conv[of "\<lambda>x. x \<noteq> t" demo_texts]
      length_takeWhile_le[of "\<lambda>x. x \<noteq> t" demo_texts] takeWhile_eq_take[of "\<lambda>x. x \<noteq> t" demo_texts]
    by (auto simp: i_def le_less)
  have "text_mem (30000 + 64 * i + j) = (if j < length t then of_char (t ! j) else 0)" if "j < 64" for j
    using that i by (simp add: text_mem_def Let_def)
  then show ?thesis
    using demo_texts_short[OF assms]
    by (auto simp: cell_of_def i_def[symmetric] cstr_def bytes_of_def letters_def intro!: nth_equalityI)
qed

definition demo_line :: kernel where
  "demo_line = demo_user\<lparr>kmem := text_mem, enter_pressed_flag := 1, num_chars_typed := 2,
     keyboard_buffer := 0x30 # 0x0A # replicate 126 0\<rparr>"

abbreviation syserr_env :: uenv where "syserr_env \<equiv> demo_env\<lparr>u_lit := cell_of\<rparr>"

lemma demo_line_fields:
  "view demo_line = text_mem" "kfs demo_line = demo_fs" "con demo_line = blank_con" "cur_pcb demo_line = cur_pcb demo_user"
proof -
  have "text_mem a = 0" if "in_program_page a" for a
  proof -
    have "1280 \<le> a - 30000" using that unfolding in_program_page_def by linarith
    then have "20 \<le> (a - 30000) div 64" "length demo_texts \<le> 20"
      by (simp_all add: less_eq_div_iff_mult_less_eq demo_texts_def messages_def pass_names_def)
    then show ?thesis using that by (simp add: text_mem_def Let_def in_program_page_def)
  qed
  then show "view demo_line = text_mem"
    by (intro ext) (simp add: view_def demo_line_def demo_user_def demo_kernel_def)
qed (simp_all add: demo_line_def demo_user_def demo_kernel_def cur_pcb_def)

lemma demo_line_typed:
  "keyboard_buffer demo_line = 0x30 # 0x0A # replicate 126 0" "num_chars_typed demo_line = 2"
  "enter_pressed_flag demo_line = 1" "keys_in demo_line = []"
  by (simp_all add: demo_line_def demo_user_def demo_kernel_def)

lemma demo_line_cur: "cur_pcb (demo_line\<lparr>con := c, enter_pressed_flag := e, keyboard_buffer := b, num_chars_typed := n, keys_in := ks\<rparr>) = cur_pcb demo_user"
  using demo_line_fields(4) by (simp add: cur_pcb_def)

theorem syserr_passes_witness:
  "\<exists>k'. syserr_main syserr_env 0 20000 25000 demo_line = Some (0, k') \<and>
     con k' = fold putc report (fold putc (letters ''Choose from tests 1-8. 0 to run all: '') blank_con)"
proof -
  let ?p = "''Choose from tests 1-8. 0 to run all: ''" and ?l = "fda (cur_pcb demo_user)"
  let ?m = "text_mem(25000 := 0x30, 25001 := 0x0A)"
  have fr: "fresh_table ?l"
    by (simp add: demo_user_fields demo_block_def fresh_exec_fda)
  have so: "stdout_ok demo_line" using fr by (simp add: stdout_ok_def fresh_table_def demo_line_fields)
  have lit: "literal_at syserr_env text_mem t" if "t \<in> set demo_texts" for t
    using cell_text[OF that] by (simp add: literal_at_def cell_of_def)
  let ?k1 = "demo_line\<lparr>con := fold putc (letters ?p) blank_con\<rparr>"
  have k1: "say syserr_env ?p demo_line = Some ?k1"
    using say_literal[OF so, of syserr_env ?p] lit[of ?p] by (simp add: demo_line_fields demo_texts_def)
  obtain k2 where k2: "system_read (u_ex syserr_env) (u_loc syserr_env) 0 25000 127 ?k1 = Some (0, k2)" "view k2 = ?m"
    "kfs k2 = demo_fs" "cur_pcb k2 = cur_pcb demo_user" "con k2 = fold putc (letters ?p) blank_con"
  proof -
    let ?k2 = "set_view ?m (clear_keyboard_buff (?k1\<lparr>num_chars_typed := 0, enter_pressed_flag := 0\<rparr>)\<lparr>keys_in := []\<rparr>)"
    have kb: "rd (keyboard_buffer ?k1) 0 = Some 0x30" "rd (keyboard_buffer ?k1) 1 = Some 0x0A" "num_chars_typed ?k1 = 2" "enter_pressed_flag ?k1 = 1" "keys_in ?k1 = []" "view ?k1 = text_mem" "cur_pcb ?k1 = cur_pcb demo_user"
      using demo_line_fields(1,4) demo_line_typed by (simp_all add: rd_def kernel_simps)
    have op: "flags (?l ! 0) = 1" "fop (?l ! 0) = Some Stdin_ops"
      using fr by (simp_all add: fresh_table_def demo_user_fields demo_block_def exec_fda_def Let_def)
    have rs: "read_short (keyboard_buffer ?k1) 2 25000 0 (Suc (Suc 0)) text_mem = Some (?m, 0)"
      using kb(1,2) by (simp add: Let_def)
    show ?thesis
    proof (rule that)
      show "system_read (u_ex syserr_env) (u_loc syserr_env) 0 25000 127 ?k1 = Some (0, ?k2)"
        using op kb(3-) rs[folded numeral_2_eq_2]
        by (simp add: system_read_def sys_consts fop_read_def terminal_read_def wait_enter.simps NUM_CHARS_KB_def Let_def del: read_short.simps)
    qed (simp_all add: clear_keyboard_buff_def kernel_simps demo_line_fields demo_line_cur del: upt_rec_numeral)
  qed
  have at: "text_mem a = (demo_image(4160 := 0x2E, 4192 := 1)) a" if "a < 20000" for a
    using that by (simp add: text_mem_def)
  have lit2: "cstr ?m (cell_of t) (letters t)" if "t \<in> set demo_texts" for t
    using cell_text[OF that] by (simp add: cstr_def bytes_of_def cell_of_def)
  have cnt: "dir_count ?m demo_fs = 1" by (simp add: dir_count_def le32_def at demo_fs_def) (simp add: demo_image_def)
  have en: "direntry demo_fs 0 = 4160" by (simp add: direntry_def demo_fs_def)
  obtain d where d: "read_dentry_by_index ?m demo_fs 0 = Some d" "file_type d = 1"
    by (simp add: read_dentry_by_index_def cnt en NUM_MAX_FILES_def le32_def at) (simp add: demo_image_def)
  have nm: "cname ?m 4160 32 = [0x2E]" using cname_cstr[of ?m 4160 "[0x2E]" 32] by (simp add: cstr_Cons at) (simp add: demo_image_def)
  have find: "read_dentry_by_name ?m demo_fs (cell_of t) = Some (if take 32 (letters t) = [0x2E] then Some d else None)"
    if "t \<in> set demo_texts" for t
    using dentry_scan_finds[of 1 ?m demo_fs 0 "cell_of t"] cname_cstr[OF lit2[OF that], of 32]
    by (simp add: read_dentry_by_name_def cnt dir_table_def en d(1) nm)
  have "names_ok syserr_env ?m demo_fs"
    using d(2) by (simp add: names_ok_def find demo_texts_def letters_def)
  then have "env_ok syserr_env k2"
    using fr lit2 k2(2-4) by (simp add: env_ok_def literal_at_def demo_texts_def cell_of_def)
  then show ?thesis
    using syserr_passes[OF k1 k2(1) _ _ , of 20000 0] k2(2,5) by simp
qed

end
