(* ===== verification/Emulate.thy ===== *)
theory Emulate
  imports UserLib
begin

text \<open>The emulation of the system calls on Linux, \<^verbatim>\<open>syscalls/ece391emulate.c\<close>, that the user programs
  are linked with to try them out: splitting a command for \<^verbatim>\<open>execv\<close>, putting the arguments together
  again, and the directory as a file of names.  Linux is a parameter: \<^verbatim>\<open>spawn\<close> runs a program on a list
  of arguments and says how it ended, and the calls on files other than the directory go to it.\<close>

section \<open>Executing a command\<close>

datatype wait_status = Exited int | Signalled int

definition wait_result :: "wait_status \<Rightarrow> int" where
  "wait_result st = (case st of Exited c \<Rightarrow> c | Signalled n \<Rightarrow> if n = 9 then - 1 else 256)"

definition stops :: "byte \<Rightarrow> bool" where
  "stops c \<longleftrightarrow> c = 0 \<or> c = 0x20 \<or> c = 0x0A"

partial_function (option) find_stop :: "mem \<Rightarrow> nat \<Rightarrow> nat option" where
  "find_stop m scan = (if stops (m scan) then Some scan else find_stop m (scan + 1))"

partial_function (option) skip_blanks :: "mem \<Rightarrow> nat \<Rightarrow> nat option" where
  "skip_blanks m scan = (if m scan = 0x20 then skip_blanks m (scan + 1) else Some scan)"

text \<open>\<^verbatim>\<open>args\<close> has 1024 places, the last for the null pointer.\<close>

partial_function (option) parse_args :: "mem \<Rightarrow> nat \<Rightarrow> nat list \<Rightarrow> (mem \<times> nat list) option" where
  "parse_args m scan args = do {
     p \<leftarrow> skip_blanks m scan;
     if m p = 0 \<or> m p = 0x0A then Some (m(p := 0), args)
     else if 1024 \<le> length args then None
     else do {
       q \<leftarrow> find_stop m p;
       if m q \<noteq> 0 then parse_args (m(q := 0)) (q + 1) (args @ [p]) else parse_args m q (args @ [p]) } }"

definition str_at :: "mem \<Rightarrow> nat \<Rightarrow> byte list option" where
  "str_at m p = do { n \<leftarrow> strlen m p; Some (bytes_of m p n) }"

fun strs_at :: "mem \<Rightarrow> nat list \<Rightarrow> byte list list option" where
  "strs_at m [] = Some []"
| "strs_at m (p # ps) = do { t \<leftarrow> str_at m p; ts \<leftarrow> strs_at m ps; Some (t # ts) }"

definition emu_execute :: "(byte list \<Rightarrow> byte list list \<Rightarrow> wait_status) \<Rightarrow> nat \<Rightarrow> mem \<Rightarrow> nat \<Rightarrow> int option" where
  "emu_execute spawn buf m command = do {
     n \<leftarrow> ece391_strlen m command;
     if 1023 < n then Some (- 1)
     else do {
       let m1 = m(buf := 0x2E, buf + 1 := 0x2F);
       m2 \<leftarrow> ece391_strcpy m1 (buf + 2) command;
       scan \<leftarrow> find_stop m2 (buf + 2);
       (m3, args) \<leftarrow> (if m2 scan \<noteq> 0 then parse_args (m2(scan := 0)) (scan + 1) [buf] else Some (m2, [buf]));
       if 1024 \<le> length args then None
       else do {
         path \<leftarrow> str_at m3 buf;
         argv \<leftarrow> strs_at m3 args;
         Some (wait_result (spawn path argv)) } } }"

section \<open>The arguments\<close>

definition getargs_end :: "mem \<Rightarrow> nat \<Rightarrow> int \<Rightarrow> int \<times> mem" where
  "getargs_end m buf nbytes = (if nbytes < 1 then (- 1, m) else (0, m(buf := 0)))"

fun getargs_loop :: "mem \<Rightarrow> nat list \<Rightarrow> nat \<Rightarrow> int \<Rightarrow> (int \<times> mem) option" where
  "getargs_loop m [] buf nbytes = Some (getargs_end m buf nbytes)"
| "getargs_loop m (p # ps) buf nbytes = do {
     n \<leftarrow> ece391_strlen m p;
     let len = sint n;
     if len > nbytes then Some (- 1, m)
     else do {
       m1 \<leftarrow> ece391_strcpy m buf p;
       let buf1 = buf + nat len;
       let nbytes1 = nbytes - len;
       if ps = [] then Some (getargs_end m1 buf1 nbytes1)
       else if nbytes1 < 1 then Some (- 1, m1)
       else getargs_loop (m1(buf1 := 0x20)) ps (buf1 + 1) (nbytes1 - 1) } }"

text \<open>\<^verbatim>\<open>argv\<close> are the pointers that Linux puts on the stack; the first one is the name of the program.\<close>

definition emu_getargs :: "mem \<Rightarrow> nat list \<Rightarrow> nat \<Rightarrow> int \<Rightarrow> (int \<times> mem) option" where
  "emu_getargs m argv buf nbytes = getargs_loop m (drop 1 argv) buf nbytes"

section \<open>The directory\<close>

text \<open>The statics \<^verbatim>\<open>dir\<close> (the names that \<^verbatim>\<open>readdir\<close> still has to give) and \<^verbatim>\<open>dir_fd\<close>, and the memory.\<close>

record emu =
  em_mem :: mem
  em_dir :: "byte list list option"
  em_dir_fd :: int

record linux =
  lx_open :: "byte list \<Rightarrow> int"
  lx_names :: "byte list list"
  lx_null_fd :: int
  lx_read :: "int \<Rightarrow> nat \<Rightarrow> int \<Rightarrow> mem \<Rightarrow> int \<times> mem"
  lx_write :: "int \<Rightarrow> nat \<Rightarrow> int \<Rightarrow> mem \<Rightarrow> int"
  lx_close :: "int \<Rightarrow> int"

definition emu_open :: "linux \<Rightarrow> nat \<Rightarrow> nat \<Rightarrow> emu \<Rightarrow> (int \<times> emu) option" where
  "emu_open L dot filename s = do {
     r \<leftarrow> ece391_strcmp (em_mem s) filename dot;
     if r = 0 then Some (lx_null_fd L, s\<lparr>em_dir := Some (lx_names L), em_dir_fd := lx_null_fd L\<rparr>)
     else do { t \<leftarrow> str_at (em_mem s) filename; Some (if lx_open L t < 0 then - 1 else lx_open L t, s) } }"

function pad_name :: "int \<Rightarrow> nat \<Rightarrow> int \<Rightarrow> mem \<Rightarrow> int \<times> mem" where
  "pad_name nbytes to copied m =
    (if nbytes > copied \<and> 32 > copied then pad_name nbytes (to + 1) (copied + 1) (m(to := 0)) else (copied, m))"
  by pat_completeness auto
termination by (relation "measure (\<lambda>(nbytes, to, copied, m). nat (32 - copied))") auto

declare pad_name.simps [simp del]

fun copy_name :: "int \<Rightarrow> byte list \<Rightarrow> nat \<Rightarrow> int \<Rightarrow> mem \<Rightarrow> int \<times> mem" where
  "copy_name nbytes [] to copied m = pad_name nbytes to copied m"
| "copy_name nbytes (c # cs) to copied m =
    (let m1 = m(to := c); copied1 = copied + 1
     in if copied1 = nbytes then (nbytes, m1) else if copied1 = 32 then (32, m1)
        else copy_name nbytes cs (to + 1) copied1 m1)"

definition emu_read :: "linux \<Rightarrow> int \<Rightarrow> nat \<Rightarrow> int \<Rightarrow> emu \<Rightarrow> int \<times> emu" where
  "emu_read L fd buf nbytes s =
    (if em_dir s = None \<or> em_dir_fd s \<noteq> fd
     then (let (r, m) = lx_read L fd buf nbytes (em_mem s) in (if r < 0 then - 1 else r, s\<lparr>em_mem := m\<rparr>))
     else
       (case the (em_dir s) of
          [] \<Rightarrow> (0, s)
        | de # rest \<Rightarrow>
            (let (r, m) = copy_name nbytes de buf 0 (em_mem s) in (r, s\<lparr>em_mem := m, em_dir := Some rest\<rparr>))))"

definition emu_write :: "linux \<Rightarrow> int \<Rightarrow> nat \<Rightarrow> int \<Rightarrow> emu \<Rightarrow> int" where
  "emu_write L fd buf nbytes s =
    (if em_dir s = None \<or> em_dir_fd s \<noteq> fd
     then (let r = lx_write L fd buf nbytes (em_mem s) in if r < 0 then - 1 else r)
     else - 1)"

definition emu_close :: "linux \<Rightarrow> int \<Rightarrow> emu \<Rightarrow> int \<times> emu" where
  "emu_close L fd s =
    (if em_dir s = None \<or> em_dir_fd s \<noteq> fd then (if lx_close L fd < 0 then - 1 else lx_close L fd, s)
     else (0, s\<lparr>em_dir := None, em_dir_fd := - 1\<rparr>))"

section \<open>Facts: the words of a command\<close>

text \<open>The specification on what follows the program name: a newline ends the words only behind blanks,
  since the character behind a word is skipped whatever it is.\<close>

function args_of :: "byte list \<Rightarrow> byte list list" where
  "args_of xs =
    (let ys = dropWhile (\<lambda>c. c = 0x20) xs
     in if ys = [] \<or> hd ys = 0x0A then []
        else takeWhile (\<lambda>c. \<not> stops c) ys # args_of (drop 1 (dropWhile (\<lambda>c. \<not> stops c) ys)))"
  by pat_completeness auto
termination
proof (relation "measure length")
  fix xs ys :: "byte list"
  assume ys: "ys = dropWhile (\<lambda>c. c = 0x20) xs" "\<not> (ys = [] \<or> hd ys = 0x0A)"
  have "length (dropWhile (\<lambda>c. \<not> stops c) ys) \<le> length ys" "length ys \<le> length xs"
    unfolding ys(1) by (rule length_dropWhile_le)+
  then show "(drop 1 (dropWhile (\<lambda>c. \<not> stops c) ys), xs) \<in> measure length" using ys(2) by (cases ys) auto
qed simp

declare args_of.simps [simp del]

lemma find_stop_spec:
  "cstr m p xs \<Longrightarrow> find_stop m p = Some (p + length (takeWhile (\<lambda>c. \<not> stops c) xs))"
proof (induction xs arbitrary: p)
  case Nil
  then show ?case by (subst find_stop.simps) (simp add: stops_def)
next
  case (Cons x xs)
  then show ?case by (subst find_stop.simps) (simp add: cstr_Cons)
qed

lemma skip_blanks_spec:
  "cstr m p xs \<Longrightarrow> skip_blanks m p = Some (p + length (takeWhile (\<lambda>c. c = 0x20) xs))"
proof (induction xs arbitrary: p)
  case Nil
  then show ?case by (subst skip_blanks.simps) simp
next
  case (Cons x xs)
  then show ?case by (subst skip_blanks.simps) (simp add: cstr_Cons)
qed

lemma cstr_split: "cstr m p (xs @ ys) \<Longrightarrow> bytes_of m p (length xs) = xs \<and> 0 \<notin> set xs \<and> cstr m (p + length xs) ys"
proof (induction xs arbitrary: p)
  case (Cons x xs)
  then show ?case using Cons.IH[of "Suc p"] by (simp add: cstr_Cons bytes_of_Suc)
qed simp

lemma cstr_same: "(\<And>i. i \<le> length xs \<Longrightarrow> m' (p + i) = m (p + i)) \<Longrightarrow> cstr m p xs \<Longrightarrow> cstr m' p xs"
  by (induction xs arbitrary: p) (force simp: cstr_Cons)+

text \<open>Cutting a string with a NUL.\<close>

lemma cstr_cut:
  assumes "cstr m p (xs @ c # ys)"
  shows "cstr (m(p + length xs := 0)) p xs" "cstr (m(p + length xs := 0)) (p + length xs + 1) ys"
proof -
  note s = cstr_split[OF assms]
  have "bytes_of (m(p + length xs := 0)) p (length xs) = bytes_of m p (length xs)" by (rule bytes_of_cong) simp
  then show "cstr (m(p + length xs := 0)) p xs" using s by (simp add: cstr_def)
  have "cstr m (p + length xs + 1) ys" using s by (simp add: cstr_Cons)
  then show "cstr (m(p + length xs := 0)) (p + length xs + 1) ys" by (rule cstr_same[rotated]) simp
qed

lemma parse_args_spec:
  assumes "cstr m p xs" "length args + length xs < 1024"
  shows "\<exists>m' as. parse_args m p args = Some (m', args @ as) \<and> list_all2 (cstr m') as (args_of xs) \<and>
    length as \<le> length xs \<and> (\<forall>a. a < p \<or> p + length xs < a \<longrightarrow> m' a = m a)"
  using assms
proof (induction "length xs" arbitrary: m p xs args rule: less_induct)
  case less
  let ?k = "length (takeWhile (\<lambda>c. c = 0x20) xs)" and ?ys = "dropWhile (\<lambda>c. c = 0x20) xs"
  have xs: "xs = takeWhile (\<lambda>c. c = 0x20) xs @ ?ys" by simp
  have ys: "cstr m (p + ?k) ?ys" using cstr_split[of m p "takeWhile (\<lambda>c. c = 0x20) xs" ?ys] less.prems(1) by simp
  have kl: "?k + length ?ys = length xs" by (metis xs length_append)
  have b: "skip_blanks m p = Some (p + ?k)" by (rule skip_blanks_spec[OF less.prems(1)])
  show ?case
  proof (cases "?ys = [] \<or> hd ?ys = 0x0A")
    case True
    then have "m (p + ?k) = 0 \<or> m (p + ?k) = 0x0A" using ys by (cases ?ys) (auto simp: cstr_Cons)
    then have "parse_args m p args = Some (m(p + ?k := 0), args @ [])" by (subst parse_args.simps) (simp add: b)
    moreover have "args_of xs = []" using True by (simp add: args_of.simps[of xs] Let_def)
    ultimately show ?thesis using kl by (intro exI[of _ "m(p + ?k := 0)"] exI[of _ "[]"]) simp
  next
    case False
    let ?p = "p + ?k" and ?w = "takeWhile (\<lambda>c. \<not> stops c) ?ys" and ?r = "dropWhile (\<lambda>c. \<not> stops c) ?ys"
    have c: "m ?p \<noteq> 0" "m ?p \<noteq> 0x0A" using False ys by (cases ?ys; simp add: cstr_Cons)+
    have q: "find_stop m ?p = Some (?p + length ?w)" by (rule find_stop_spec[OF ys])
    have yr: "?ys = ?w @ ?r" by simp
    have wl: "length ?w + length ?r = length ?ys" by (metis yr length_append)
    have ne: "?ys \<noteq> []" using False by blast
    have al: "length args < 1024" using less.prems(2) by simp
    have ao: "args_of xs = ?w # args_of (drop 1 ?r)" using False by (simp add: args_of.simps[of xs] Let_def)
    show ?thesis
    proof (cases ?r)
      case Nil
      have w: "cstr m ?p ?w" using ys yr Nil by simp
      then have e: "m (?p + length ?w) = 0" by (rule cstr_end)
      have "cstr m (?p + length ?w) []" using e by simp
      have lw: "length ?w = length ?ys" using wl[unfolded Nil] by simp
      have "skip_blanks m (?p + length ?w) = Some (?p + length ?w)" using e by (subst skip_blanks.simps) simp
      then have "parse_args m (?p + length ?w) (args @ [?p]) = Some (m(?p + length ?w := 0), args @ [?p])"
        using e by (subst parse_args.simps) simp
      then have "parse_args m p args = Some (m(?p + length ?w := 0), args @ [?p])"
        using c al q e by (subst parse_args.simps) (simp add: b)
      moreover have "m(?p + length ?w := 0) = m" using e by (simp add: fun_upd_idem)
      ultimately have run: "parse_args m p args = Some (m, args @ [?p])" by metis
      have "args_of xs = [?w]" using ao[unfolded Nil] by (simp add: args_of.simps[of "[]"])
      then have "list_all2 (cstr m) [?p] (args_of xs)" using w by (simp del: takeWhile_eq_Nil_iff)
      moreover have "length [?p] \<le> length xs" using kl ne by (cases ?ys) simp_all
      ultimately show ?thesis using run by blast
    next
      case (Cons d r)
      let ?m = "m(?p + length ?w := 0)"
      have dr: "cstr m ?p (?w @ d # r)" using ys yr Cons by simp
      have w: "cstr ?m ?p ?w" "cstr ?m (?p + length ?w + 1) r" by (rule cstr_cut[OF dr])+
      have d: "m (?p + length ?w) \<noteq> 0" using cstr_split[OF dr] by (simp add: cstr_Cons)
      have rl: "?k + (length ?w + (1 + length r)) = length xs" using kl wl Cons by simp
      have "length r < length xs" "length (args @ [?p]) + length r < 1024" using rl less.prems(2) by simp_all
      from less.hyps[OF this(1) w(2) this(2)] obtain m' as where i: "parse_args ?m (?p + length ?w + 1) (args @ [?p]) = Some (m', (args @ [?p]) @ as)"
        "list_all2 (cstr m') as (args_of r)" "length as \<le> length r"
        "\<forall>a. a < ?p + length ?w + 1 \<or> ?p + length ?w + 1 + length r < a \<longrightarrow> m' a = ?m a" by blast
      have "cstr m' ?p ?w" by (rule cstr_same[OF _ w(1)]) (use i(4) in simp)
      then have "list_all2 (cstr m') (?p # as) (args_of xs)" using i(2) ao Cons by simp
      moreover have "parse_args m p args = Some (m', args @ ?p # as)"
        using c al q d i(1) by (subst parse_args.simps) (simp add: b)
      moreover have "length (?p # as) \<le> length xs" using i(3) rl by simp
      moreover have "\<forall>a. a < p \<or> p + length xs < a \<longrightarrow> m' a = m a" using i(4) rl by auto
      ultimately show ?thesis by blast
    qed
  qed
qed

text \<open>A string copy that does not overlap writes the string and its NUL.\<close>

lemma ece391_strcpy_put:
  "cstr m src xs \<Longrightarrow> dst + length xs < src \<or> src + length xs < dst \<Longrightarrow>
    ece391_strcpy m dst src = Some (put_bytes m dst (xs @ [0]))"
proof (induction xs arbitrary: m dst src)
  case Nil
  then show ?case by (subst ece391_strcpy.simps) (simp add: put_bytes_Cons)
next
  case (Cons x xs)
  have "cstr m (src + 1) xs" using Cons.prems(1) by (simp add: cstr_Cons)
  then have "cstr (m(dst := x)) (src + 1) xs" by (rule cstr_same[rotated]) (use Cons.prems(2) in auto)
  then have "ece391_strcpy (m(dst := x)) (dst + 1) (src + 1) = Some (put_bytes (m(dst := x)) (dst + 1) (xs @ [0]))"
    by (rule Cons.IH) (use Cons.prems(2) in auto)
  then show ?case using Cons.prems(1) by (subst ece391_strcpy.simps) (simp add: cstr_Cons put_bytes_Cons)
qed

lemma str_at_cstr: "cstr m p xs \<Longrightarrow> str_at m p = Some xs"
  by (simp add: str_at_def strlen_cstr) (simp add: cstr_def)

lemma strs_at_cstr: "list_all2 (cstr m) ps ws \<Longrightarrow> strs_at m ps = Some ws"
  by (induction rule: list_all2_induct) (simp_all add: str_at_cstr)

abbreviation prog_path :: "byte list \<Rightarrow> byte list" where "prog_path w \<equiv> 0x2E # 0x2F # w"

lemma emu_execute_spec:
  assumes "cstr m command xs" "length xs \<le> 1023" "command + length xs < buf \<or> buf + 1026 \<le> command"
    and "w = takeWhile (\<lambda>c. \<not> stops c) xs" "ws = args_of (drop 1 (dropWhile (\<lambda>c. \<not> stops c) xs))"
  shows "emu_execute spawn buf m command = Some (wait_result (spawn (prog_path w) (prog_path w # ws)))"
proof -
  let ?m1 = "m(buf := 0x2E, buf + 1 := 0x2F)"
  let ?m2 = "put_bytes ?m1 (buf + 2) (xs @ [0])"
  let ?scan = "buf + 2 + length w"
  have n: "ece391_strlen m command = Some (of_nat (length xs))" by (rule ece391_strlen_cstr[OF assms(1)])
  have short: "\<not> (1023 :: u32) < of_nat (length xs)" using assms(2) by (simp add: word_less_nat_alt unat_of_nat_small)
  have "cstr ?m1 command xs" by (rule cstr_same[OF _ assms(1)]) (use assms(3) in auto)
  then have cp: "ece391_strcpy ?m1 (buf + 2) command = Some ?m2" by (rule ece391_strcpy_put) (use assms(2,3) in auto)
  have nz: "0 \<notin> set xs" using assms(1) by (simp add: cstr_def)
  have c2: "cstr ?m2 (buf + 2) xs" by (rule cstr_put[OF nz])
  have f: "find_stop ?m2 (buf + 2) = Some ?scan" unfolding assms(4) by (rule find_stop_spec[OF c2])
  have whole: "cstr ?m2 buf (prog_path xs)" using c2 by (simp add: cstr_Cons put_bytes_out)
  have x: "xs = w @ dropWhile (\<lambda>c. \<not> stops c) xs" by (simp add: assms(4))
  show ?thesis
  proof (cases "dropWhile (\<lambda>c. \<not> stops c) xs")
    case Nil
    have w: "xs = w" using x unfolding Nil by simp
    have "?m2 ?scan = 0" using cstr_end[OF c2] w by simp
    moreover have "ws = []" using assms(5) unfolding Nil by (simp add: args_of.simps)
    moreover have "cstr ?m2 buf (prog_path w)" using whole w by simp
    ultimately show ?thesis
      using cp f short by (simp add: emu_execute_def n Let_def str_at_cstr)
  next
    case (Cons d r)
    have xd: "xs = w @ d # r" using x unfolding Cons .
    have sc: "buf + length (prog_path w) = ?scan" by simp
    have "cstr ?m2 buf (prog_path w @ d # r)" using whole xd by simp
    note cut = cstr_cut[OF this, unfolded sc]
    have d: "?m2 ?scan \<noteq> 0" using cstr_split[of ?m2 "buf + 2" w "d # r"] c2 xd by (simp add: cstr_Cons)
    have "length r \<le> 1022" using assms(2) xd by simp
    then obtain m' as where i: "parse_args (?m2(?scan := 0)) (?scan + 1) [buf] = Some (m', [buf] @ as)"
      "list_all2 (cstr m') as (args_of r)" "length as \<le> length r" "\<forall>a. a < ?scan + 1 \<or> ?scan + 1 + length r < a \<longrightarrow> m' a = (?m2(?scan := 0)) a"
      using parse_args_spec[OF cut(2), of "[buf]"] by auto
    have p: "cstr m' buf (prog_path w)" by (rule cstr_same[OF _ cut(1)]) (use i(4) in simp)
    have "ws = args_of r" using assms(5) unfolding Cons by simp
    then have "strs_at m' (buf # as) = Some (prog_path w # ws)" using p i(2) by (intro strs_at_cstr) simp
    moreover have "\<not> 1024 \<le> length (buf # as)" using i(3) \<open>length r \<le> 1022\<close> by simp
    ultimately show ?thesis
      using cp f d i(1) str_at_cstr[OF p] short by (simp add: emu_execute_def n Let_def del: strs_at.simps)
  qed
qed

section \<open>Facts: the arguments\<close>

fun unwords :: "byte list list \<Rightarrow> byte list" where
  "unwords [] = []"
| "unwords (w # ws) = (if ws = [] then w else w @ 0x20 # unwords ws)"

lemma length_unwords: "ws \<noteq> [] \<Longrightarrow> length (unwords (w # ws)) = length w + 1 + length (unwords ws)"
  by simp

definition is_word :: "byte list \<Rightarrow> bool" where
  "is_word w \<longleftrightarrow> w \<noteq> [] \<and> (\<forall>c \<in> set w. \<not> stops c)"

lemma word_split:
  assumes "\<forall>c \<in> set w. \<not> stops c" "stops d"
  shows "takeWhile (\<lambda>c. \<not> stops c) (w @ d # r) = w" "dropWhile (\<lambda>c. \<not> stops c) (w @ d # r) = d # r"
  using assms by (simp_all add: takeWhile_append2 dropWhile_append2)

lemma args_of_unwords: "(\<And>w. w \<in> set ws \<Longrightarrow> is_word w) \<Longrightarrow> args_of (unwords ws) = ws"
proof (induction ws)
  case Nil
  then show ?case by (simp add: args_of.simps)
next
  case (Cons w ws)
  have w: "w \<noteq> []" "\<forall>c \<in> set w. \<not> stops c" using Cons.prems[of w] by (simp_all add: is_word_def)
  then obtain c w' where c: "w = c # w'" "\<not> stops c" by (cases w) auto
  then have "c \<noteq> 0x20" "c \<noteq> 0x0A" by (auto simp: stops_def)
  then have b: "dropWhile (\<lambda>c. c = 0x20) (w @ r) = w @ r" "hd (w @ r) \<noteq> 0x0A" "w @ r \<noteq> []" for r by (simp_all add: c(1))
  show ?case
  proof (cases "ws = []")
    case True
    have "takeWhile (\<lambda>c. \<not> stops c) w = w" "dropWhile (\<lambda>c. \<not> stops c) w = []" using w(2) by simp_all
    moreover have "args_of w = takeWhile (\<lambda>c. \<not> stops c) w # args_of (drop 1 (dropWhile (\<lambda>c. \<not> stops c) w))"
      using b[of "[]"] by (subst args_of.simps) (simp add: Let_def)
    ultimately have "args_of w = w # args_of (drop 1 [])" by (simp only:)
    then show ?thesis using True by (simp add: args_of.simps[of "[]"])
  next
    case False
    have "stops 0x20" by (simp add: stops_def)
    note s = word_split[OF w(2) this, of "unwords ws"]
    have "args_of (w @ 0x20 # unwords ws) = w # args_of (unwords ws)"
      unfolding args_of.simps[of "w @ 0x20 # unwords ws"] b(1) Let_def s using b(2,3) by simp
    then show ?thesis using Cons False by simp
  qed
qed

text \<open>The strings lie outside the buffer and one byte behind it.\<close>

definition apart :: "nat list \<Rightarrow> byte list list \<Rightarrow> nat \<Rightarrow> int \<Rightarrow> bool" where
  "apart ps ws buf nbytes \<longleftrightarrow>
     list_all2 (\<lambda>p w. int (p + length w) < int buf \<or> int buf + nbytes < int p) ps ws"

lemma apart_keeps:
  assumes "list_all2 (cstr m) ps ws" "apart ps ws buf nbytes" "\<And>a. int a < int buf \<or> int buf + nbytes < int a \<Longrightarrow> m' a = m a"
  shows "list_all2 (cstr m') ps ws"
  using assms(1,2) unfolding apart_def
proof (induction rule: list_all2_induct)
  case (Cons p ps w ws)
  have "cstr m' p w" by (rule cstr_same[OF _ Cons(1)]) (use Cons assms(3) in auto)
  then show ?case using Cons by simp
qed simp

lemma apart_inside:
  assumes "apart ps ws buf nbytes" "buf \<le> b" "int b + n \<le> int buf + nbytes"
  shows "apart ps ws b n"
  using assms(1) unfolding apart_def by (rule list_all2_mono) (use assms(2,3) in auto)

lemma getargs_spec:
  assumes "list_all2 (cstr m) ps ws" "apart ps ws buf nbytes" "nbytes < 2147483648" "\<And>w. w \<in> set ws \<Longrightarrow> length w < 2147483648" "0 \<le> nbytes"
  shows "\<exists>r m'. getargs_loop m ps buf nbytes = Some (r, m') \<and>
    (if int (length (unwords ws)) < nbytes then r = 0 \<and> m' = put_bytes m buf (unwords ws @ [0])
     else r = - 1 \<and> (\<forall>a. int a < int buf \<or> int buf + nbytes < int a \<longrightarrow> m' a = m a))"
  using assms
proof (induction ws arbitrary: m ps buf nbytes rule: list.induct)
  case Nil
  have "ps = []" using Nil.prems by (cases ps) (simp_all add: apart_def)
  then show ?case using Nil by (cases "nbytes < 1") (auto simp: getargs_end_def put_bytes_Cons)
next
  case (Cons w ws)
  obtain p qs where ps: "ps = p # qs" "cstr m p w" "list_all2 (cstr m) qs ws" using Cons.prems(1) by (auto simp: list_all2_Cons2)
  have ap: "int (p + length w) < int buf \<or> int buf + nbytes < int p" "apart qs ws buf nbytes"
    using Cons.prems(2) by (simp_all add: apart_def ps(1))
  have n: "ece391_strlen m p = Some (of_nat (length w))" by (rule ece391_strlen_cstr[OF ps(2)])
  have len: "sint (of_nat (length w) :: u32) = int (length w)"
    using Cons.prems(4)[of w] by (subst sint_unat_small) (simp_all add: unat_of_nat_small)
  have qn: "(qs = []) = (ws = [])" using ps(3) by auto
  show ?case
  proof (cases "int (length w) > nbytes")
    case True
    then have "getargs_loop m ps buf nbytes = Some (- 1, m)" by (simp add: ps(1) n len)
    then show ?thesis using True by auto
  next
    case False
    let ?m1 = "put_bytes m buf (w @ [0])" and ?b1 = "buf + length w" and ?n1 = "nbytes - int (length w)"
    have cp: "ece391_strcpy m buf p = Some ?m1" by (rule ece391_strcpy_put[OF ps(2)]) (use ap(1) False in auto)
    have out: "?m1 a = m a" if "int a < int buf \<or> int buf + nbytes < int a" for a
      using that False by (intro put_bytes_out) auto
    have run: "getargs_loop m ps buf nbytes =
        (if ws = [] then Some (getargs_end ?m1 ?b1 ?n1) else if ?n1 < 1 then Some (- 1, ?m1)
         else getargs_loop (?m1(?b1 := 0x20)) qs (?b1 + 1) (?n1 - 1))"
      using False by (simp add: ps(1) n len cp qn Let_def)
    have last: "?m1 = (put_bytes m buf w)(?b1 := 0)" by (rule put_bytes_snoc)
    show ?thesis
    proof (cases "ws = [] \<or> ?n1 < 1")
      case True
      have "?m1(?b1 := 0) = ?m1" unfolding last by simp
      moreover have "\<not> int (length (unwords (w # ws))) < nbytes" if "?n1 < 1" using that by simp
      ultimately show ?thesis using True out by (cases "ws = []") (auto simp: run getargs_end_def)
    next
      case more: False
      let ?m2 = "?m1(?b1 := 0x20)"
      have m2: "?m2 = put_bytes m buf (w @ [0x20])" unfolding last by (simp add: put_bytes_snoc)
      have ap2: "apart qs ws (?b1 + 1) (?n1 - 1)" by (rule apart_inside[OF ap(2)]) simp_all
      have out2: "?m2 a = m a" if "int a < int buf \<or> int buf + nbytes < int a" for a
        unfolding m2 using that more by (intro put_bytes_out) auto
      have l2: "list_all2 (cstr ?m2) qs ws" by (rule apart_keeps[OF ps(3) ap(2) out2])
      have h: "?n1 - 1 < 2147483648" "0 \<le> ?n1 - 1" using Cons.prems(3) more by simp_all
      have lw: "\<And>v. v \<in> set ws \<Longrightarrow> length v < 2147483648" using Cons.prems(4) by simp
      from Cons.IH[OF l2 ap2 h(1) lw h(2)] obtain r m' where i: "getargs_loop ?m2 qs (?b1 + 1) (?n1 - 1) = Some (r, m')"
        "if int (length (unwords ws)) < ?n1 - 1 then r = 0 \<and> m' = put_bytes ?m2 (?b1 + 1) (unwords ws @ [0])
         else r = - 1 \<and> (\<forall>a. int a < int (?b1 + 1) \<or> int (?b1 + 1) + (?n1 - 1) < int a \<longrightarrow> m' a = ?m2 a)"
        by blast
      have e: "getargs_loop m ps buf nbytes = Some (r, m')" using run more i(1) by simp
      have l: "(int (length (unwords ws)) < ?n1 - 1) = (int (length (unwords (w # ws))) < nbytes)" using more by auto
      have pw: "put_bytes m buf (unwords (w # ws) @ [0]) = put_bytes ?m2 (?b1 + 1) (unwords ws @ [0])"
        using more put_bytes_append[of m buf "w @ [0x20]" "unwords ws @ [0]"] unfolding m2 by simp
      show ?thesis
      proof (cases "int (length (unwords (w # ws))) < nbytes")
        case True
        then show ?thesis using e i(2) unfolding l pw by (intro exI[of _ r] exI[of _ m']) (simp only: if_True)
      next
        case False
        then have i2: "r = - 1" "\<forall>a. int a < int (?b1 + 1) \<or> int (?b1 + 1) + (?n1 - 1) < int a \<longrightarrow> m' a = ?m2 a"
          using i(2) unfolding l by simp_all
        have "m' a = m a" if "int a < int buf \<or> int buf + nbytes < int a" for a
          using i2(2) out2[OF that] that by auto
        then show ?thesis using e i2(1) False by (intro exI[of _ r] exI[of _ m']) (simp only: if_False simp_thms, blast)
      qed
    qed
  qed
qed

section \<open>Facts: the directory\<close>

lemma pad_name_put:
  "0 \<le> copied \<Longrightarrow> copied \<le> 32 \<Longrightarrow> copied \<le> nbytes \<Longrightarrow>
    pad_name nbytes to copied m = (min nbytes 32, put_bytes m to (replicate (nat (min nbytes 32 - copied)) 0))"
proof (induction nbytes to copied m rule: pad_name.induct)
  case (1 nbytes to copied m)
  show ?case
  proof (cases "nbytes > copied \<and> 32 > copied")
    case True
    then have "nat (min nbytes 32 - copied) = Suc (nat (min nbytes 32 - (copied + 1)))" by auto
    then show ?thesis using 1 True by (simp add: pad_name.simps[of nbytes to copied] put_bytes_Cons upd_fold)
  next
    case False
    then show ?thesis using 1(2-4) by (auto simp: pad_name.simps[of nbytes to copied])
  qed
qed

lemma copy_name_put:
  "0 \<le> copied \<Longrightarrow> copied < 32 \<Longrightarrow> copied < nbytes \<Longrightarrow>
    copy_name nbytes name to copied m =
      (min nbytes 32, put_bytes m to (take (nat (min nbytes 32 - copied)) (name @ replicate 32 0)))"
proof (induction name arbitrary: to copied m)
  case Nil
  have "nat (min nbytes 32 - copied) \<le> 32" using Nil by linarith
  then have "take (nat (min nbytes 32 - copied)) (replicate 32 0 :: byte list) = replicate (nat (min nbytes 32 - copied)) 0"
    by (simp only: take_replicate min_absorb1)
  then show ?case using Nil pad_name_put[of copied nbytes to m] by simp
next
  case (Cons c cs)
  have s: "nat (min nbytes 32 - copied) = Suc (nat (min nbytes 32 - (copied + 1)))" using Cons.prems by auto
  have t: "take (nat (min nbytes 32 - copied)) ((c # cs) @ replicate 32 0) =
      c # take (nat (min nbytes 32 - (copied + 1))) (cs @ replicate 32 0)" unfolding s by simp
  show ?case
  proof (cases "copied + 1 = nbytes \<or> copied + 1 = 32")
    case True
    then have "nat (min nbytes 32 - (copied + 1)) = 0" using Cons.prems by auto
    then show ?thesis using True Cons.prems unfolding t by (auto simp: Let_def put_bytes_Cons)
  next
    case False
    then show ?thesis using Cons.IH[of "copied + 1" "to + 1" "m(to := c)"] Cons.prems unfolding t
      by (simp add: Let_def put_bytes_Cons upd_fold)
  qed
qed

section \<open>Properties\<close>

text \<open>C22: Under the emulation, executing a command of a name and words between single blanks runs the
  program of that name in the current directory on exactly these words, and in that program
  getargs gives back the text behind the name when it fits with its NUL; otherwise getargs fails
  and writes at most one byte behind the buffer.\<close>
theorem emulated_arguments:
  assumes "cstr m command (w @ 0x20 # unwords ws)" "length (w @ 0x20 # unwords ws) \<le> 1023"
    and "command + 1023 < buf \<or> buf + 1026 \<le> command" "\<forall>c \<in> set w. \<not> stops c" "\<And>v. v \<in> set ws \<Longrightarrow> is_word v"
    and "list_all2 (cstr m') argv (prog_path w # ws)" "apart (tl argv) ws dest nbytes" "0 \<le> nbytes" "nbytes < 2147483648"
  shows "emu_execute spawn buf m command = Some (wait_result (spawn (prog_path w) (prog_path w # ws))) \<and>
    (if int (length (unwords ws)) < nbytes
     then emu_getargs m' argv dest nbytes = Some (0, put_bytes m' dest (unwords ws @ [0]))
     else \<exists>m2. emu_getargs m' argv dest nbytes = Some (- 1, m2) \<and>
       (\<forall>a. int a < int dest \<or> int dest + nbytes < int a \<longrightarrow> m2 a = m' a))"
proof -
  have sp: "stops 0x20" by (simp add: stops_def)
  note s = word_split[OF assms(4) sp, of "unwords ws"]
  have "ws = args_of (drop 1 (dropWhile (\<lambda>c. \<not> stops c) (w @ 0x20 # unwords ws)))"
    unfolding s using args_of_unwords[of ws] assms(5) by simp
  then have e: "emu_execute spawn buf m command = Some (wait_result (spawn (prog_path w) (prog_path w # ws)))"
    by (intro emu_execute_spec[OF assms(1,2)]) (use assms(2,3) s in auto)
  have d: "drop 1 argv = tl argv" by (simp add: drop_Suc)
  have l: "list_all2 (cstr m') (tl argv) ws" using assms(6) by (cases argv) simp_all
  have len: "length v < 2147483648" if "v \<in> set ws" for v
  proof -
    have "length v \<le> length (unwords ws)" using that
    proof (induction ws)
      case (Cons u us)
      then show ?case by (cases "us = []") auto
    qed simp
    then show ?thesis using assms(2) by simp
  qed
  show ?thesis using e getargs_spec[OF l assms(7,9) len assms(8)] unfolding emu_getargs_def d by (auto split: if_splits)
qed

theorem emulated_arguments_witness:
  "emu_execute (\<lambda>path argv. if argv = [prog_path [0x61], [0x62], [0x63]] then Exited 7 else Signalled 9) 2000
      (put_bytes (\<lambda>a. 0) 100 [0x61, 0x20, 0x62, 0x20, 0x63, 0]) 100 = Some 7 \<and>
   emu_getargs (put_bytes (\<lambda>a. 0) 200 [0x2E, 0x2F, 0x61, 0, 0x62, 0, 0x63, 0]) [200, 204, 206] 300 10 =
     Some (0, put_bytes (put_bytes (\<lambda>a. 0) 200 [0x2E, 0x2F, 0x61, 0, 0x62, 0, 0x63, 0]) 300 [0x62, 0x20, 0x63, 0])"
proof -
  let ?m = "put_bytes (\<lambda>a. 0) 100 ([0x61, 0x20, 0x62, 0x20, 0x63] @ [0])" and ?sp = "\<lambda>path argv. if argv = [prog_path [0x61], [0x62], [0x63]] then Exited 7 else Signalled 9"
  let ?m' = "put_bytes (\<lambda>a. 0) 200 [0x2E, 0x2F, 0x61, 0, 0x62, 0, 0x63, 0]" and ?ws = "[[0x62], [0x63]] :: byte list list"
  have c: "cstr ?m 100 ([0x61] @ 0x20 # unwords ?ws)" using cstr_put[of "[0x61, 0x20, 0x62, 0x20, 0x63]"] by simp
  have w: "is_word v" if "v \<in> set ?ws" for v using that by (auto simp: is_word_def stops_def)
  have a: "list_all2 (cstr ?m') [200, 204, 206] (prog_path [0x61] # ?ws)" by (simp add: cstr_Cons put_bytes_def)
  have p: "apart (tl [200, 204, 206]) ?ws 300 10" by (simp add: apart_def)
  show ?thesis
    using emulated_arguments[OF c _ _ _ w a p, of 2000 ?sp] by (simp add: stops_def wait_result_def)
qed

text \<open>A further fact about the same definitions.\<close>
lemma emulated_directory:
  assumes "ece391_strcmp (em_mem s) filename dot = Some 0" "1 \<le> nbytes"
  shows "\<exists>s1. emu_open L dot filename s = Some (lx_null_fd L, s1) \<and> em_dir s1 = Some (lx_names L) \<and>
    (\<forall>s2 rest. em_dir s2 = Some rest \<and> em_dir_fd s2 = lx_null_fd L \<longrightarrow>
      emu_write L (lx_null_fd L) buf nbytes s2 = - 1 \<and>
      emu_read L (lx_null_fd L) buf nbytes s2 =
        (case rest of [] \<Rightarrow> (0, s2)
         | name # names \<Rightarrow> (min nbytes 32, s2\<lparr>em_mem := put_bytes (em_mem s2) buf (take (nat (min nbytes 32)) (name @ replicate 32 0)),
             em_dir := Some names\<rparr>)))"
  using assms copy_name_put[of 0 nbytes]
  by (auto simp: emu_open_def emu_write_def emu_read_def Let_def split: list.splits)

end
