(* ===== verification/ProcessStack.thy ===== *)
theory ProcessStack
  imports Processes
begin

text \<open>The processes as a stack.  Execute starts a child and waits for it, so at any moment the active
  processes form a chain from the current one to the base shell.  The specification is a machine on
  a list of processes, which a call extends, a return shortens and everything else changes only at
  its head; the kernel refines it.  Steps of the kernel are the system calls with any arguments that
  lie in the program page, the interrupts, and stores of the user program into its page.\<close>

section \<open>Steps of one process\<close>

text \<open>What every step other than a successful execute and halt keeps.  An execute that finds all five
  process numbers taken leaves -99 in \<^verbatim>\<open>pid\<close>.\<close>

definition all_taken :: "kernel \<Rightarrow> bool" where
  "all_taken k \<longleftrightarrow> assign_scan (pcbs k) 0 MAX_PROCESSES = None"

definition ran :: "kernel \<Rightarrow> kernel \<Rightarrow> bool" where
  "ran k k' \<longleftrightarrow> (pid k' = pid k \<or> pid k' = ASSIGN_PID_ERROR \<and> all_taken k) \<and> pcb_obj k' = pcb_obj k \<and> cur_frame k' = cur_frame k \<and>
     tss_esp0_reg k' = tss_esp0_reg k \<and> (paging_sized (kpaging k) \<longrightarrow> paging_sized (kpaging k')) \<and>
     image_kept k k' \<and> (\<forall>a. a \<noteq> pcb_obj k \<longrightarrow> pcbs k' a = pcbs k a) \<and>
     (\<forall>f. f \<noteq> cur_frame k \<longrightarrow> frames k' f = frames k f) \<and>
     (\<exists>l. cur_pcb k' = (cur_pcb k)\<lparr>fda := l\<rparr>) \<and> (fds_ok (fda (cur_pcb k)) \<longrightarrow> fds_ok (fda (cur_pcb k'))) \<and>
     (0 \<le> num_chars_typed k \<longrightarrow> 0 \<le> num_chars_typed k')"

lemma ran_same:
  assumes "pid k' = pid k" "pcb_obj k' = pcb_obj k" "kpaging k' = kpaging k" "tss_esp0_reg k' = tss_esp0_reg k"
    and "pcbs k' = pcbs k" "frames k' = frames k" "kmem k' = kmem k" "kfs k' = kfs k"
    and "0 \<le> num_chars_typed k \<Longrightarrow> 0 \<le> num_chars_typed k'"
  shows "ran k k'"
proof -
  have f: "cur_frame k' = cur_frame k" "cur_pcb k' = cur_pcb k" by (simp_all add: cur_frame_def cur_pcb_def assms)
  then have "view k' = view k" by (simp add: view_def assms cong: if_cong)
  then show ?thesis unfolding ran_def using assms f by (auto simp: image_kept_def intro: exI[of _ "fda (cur_pcb k)"])
qed

lemma ran_refl [simp]: "ran k k" by (rule ran_same) simp_all

lemma ran_image_ok: "image_ok k \<Longrightarrow> ran k k' \<Longrightarrow> image_ok k'"
  using image_kept_facts(1,2)[of k k'] by (simp add: image_ok_def ran_def)

lemma image_kept_trans: "image_ok k \<Longrightarrow> image_kept k k1 \<Longrightarrow> image_kept k1 k2 \<Longrightarrow> image_kept k k2"
  using image_kept_facts(2)[of k k1] by (simp add: image_kept_def same_image_def)

lemma assign_scan_cong:
  "(\<And>a. active (ps' a) = 0 \<longleftrightarrow> active (ps a) = 0) \<Longrightarrow> assign_scan ps' i n = assign_scan ps i n"
  by (induction ps i n rule: assign_scan.induct) simp_all

lemma ran_all_taken: "ran k k' \<Longrightarrow> all_taken k' = all_taken k"
proof -
  assume r: "ran k k'"
  then have "active (pcbs k' a) = active (pcbs k a)" for a
    by (cases "a = pcb_obj k") (auto simp: ran_def cur_pcb_def)
  then show ?thesis using assign_scan_cong[of "pcbs k'" "pcbs k"] by (simp add: all_taken_def)
qed

lemma ran_trans:
  assumes "image_ok k" "ran k k1" "ran k1 k2"
  shows "ran k k2"
proof -
  have "pid k2 = pid k \<or> pid k2 = ASSIGN_PID_ERROR \<and> all_taken k"
    using assms(2,3) ran_all_taken[OF assms(2)] by (auto simp: ran_def)
  moreover
  have "image_kept k k2" using assms image_kept_trans[of k k1 k2] by (simp add: ran_def)
  moreover have "\<exists>l. cur_pcb k2 = (cur_pcb k)\<lparr>fda := l\<rparr>" using assms(2,3) by (auto simp: ran_def)
  ultimately show ?thesis using assms(2,3) by (simp add: ran_def)
qed

lemma ex_same_block: "\<exists>l. p = p\<lparr>fda := l\<rparr>" by (rule exI[of _ "fda p"]) simp

text \<open>A change of memory above the image.\<close>

lemma ran_set_view:
  assumes "\<And>a. a < fs_end (view k) (kfs k) \<Longrightarrow> m a = view k a"
  shows "ran k (set_view m k)"
  using assms frames_set_view_other[of _ k m]
  by (simp add: ran_def kernel_simps image_kept_def same_image_def ex_same_block)

lemma ran_fda:
  assumes "fds_ok (fda (cur_pcb k)) \<Longrightarrow> fds_ok l"
  shows "ran k (upd_pcb (\<lambda>p. p\<lparr>fda := l\<rparr>) k)"
  using assms by (auto simp: ran_def kernel_simps image_kept_def)

lemma ran_fenv:
  assumes "p' = (cur_pcb k)\<lparr>fda := l\<rparr>" "fds_ok (fda (cur_pcb k)) \<Longrightarrow> fds_ok l" "image_ok k"
    and "\<And>a. a < fs_end (view k) (kfs k) \<Longrightarrow> m a = view k a"
  shows "ran k (from_fenv (p', m, c) k)"
proof -
  let ?k1 = "upd_pcb (\<lambda>p. p\<lparr>fda := l\<rparr>) k"
  have c: "ran ?k1 (?k1\<lparr>con := c\<rparr>)" by (rule ran_same) simp_all
  have e: "upd_pcb (\<lambda>_. p') (k\<lparr>con := c\<rparr>) = ?k1\<lparr>con := c\<rparr>"
    by (simp add: upd_pcb_def assms(1) cur_pcb_def)
  have r1: "ran k ?k1" by (rule ran_fda[OF assms(2)])
  then have r2: "ran k (?k1\<lparr>con := c\<rparr>)" by (rule ran_trans[OF assms(3) _ c])
  have "ran (?k1\<lparr>con := c\<rparr>) (set_view m (?k1\<lparr>con := c\<rparr>))"
    by (rule ran_set_view) (simp add: kernel_simps assms(4))
  then show ?thesis using ran_trans[OF assms(3) r2] by (simp add: from_fenv_def e)
qed

text \<open>Changes of the terminals' state only.\<close>

definition kb_kept :: "'a tstate_scheme \<Rightarrow> 'a tstate_scheme \<Rightarrow> bool" where
  "kb_kept s s' \<longleftrightarrow> tstate.more s' = tstate.more s \<and> (0 \<le> num_chars_typed s \<longrightarrow> 0 \<le> num_chars_typed s')"

lemma ran_kb: "kb_kept k k' \<Longrightarrow> ran k k'"
proof -
  assume k: "kb_kept k k'"
  then have "tstate.more k' = tstate.more k" by (simp add: kb_kept_def)
  then show ?thesis using k by (intro ran_same) (cases k; cases k'; simp add: kb_kept_def)+
qed

text \<open>The argument that stands for starting the shell of a new terminal is assumed to keep the processes:
  the runs considered here do not start one in the middle of a read.\<close>

definition kb_keeps :: "('a tstate_scheme \<Rightarrow> 'a tstate_scheme option) \<Rightarrow> bool" where
  "kb_keeps ex \<longleftrightarrow> (\<forall>s s'. ex s = Some s' \<longrightarrow> kb_kept s s')"

lemma kb_kept_trans: "kb_kept s s1 \<Longrightarrow> kb_kept s1 s2 \<Longrightarrow> kb_kept s s2"
  by (simp add: kb_kept_def)

lemma kb_kept_simps [simp]:
  "kb_kept s s" "kb_kept s (tputc c s)" "kb_kept s (tvid g s)" "kb_kept s (tcursor x y s)"
  "kb_kept s (clear_keyboard_buff s)" "kb_kept s (kb_backspace s)"
  by (simp_all add: kb_kept_def tputc_def tvid_def tcursor_def clear_keyboard_buff_def kb_backspace_def Let_def)

lemma kb_store_kept: "kb_store c s = Some s' \<Longrightarrow> kb_kept s s'"
  by (auto simp: kb_store_def option_bind_Some_iff kb_kept_def split: if_splits)

lemma term_put_kept: "term_put s i t = Some s' \<Longrightarrow> kb_kept s s'"
  by (auto simp: term_put_def option_bind_Some_iff kb_kept_def split: if_splits)

lemma kb_redisplay_kept: "kb_redisplay i n s = Some s' \<Longrightarrow> kb_kept s s'"
proof (induction i n s rule: kb_redisplay.induct)
  case (2 i n s)
  then obtain ch where "kb_redisplay (i + 1) n (tputc ch s) = Some s'" "kb_kept (tputc ch s) s'"
    by (auto simp: option_bind_Some_iff)
  then show ?case using kb_kept_trans kb_kept_simps(2) by blast
qed simp

lemma print_to_screen_kept: "print_to_screen c s = Some s' \<Longrightarrow> kb_kept s s'"
  by (auto simp: print_to_screen_def option_bind_Some_iff Let_def kb_kept_def tputc_def dest!: kb_store_kept split: if_splits)

lemma terminal_init_kept:
  assumes "terminal_init ex t s = Some (r, s')" "kb_keeps ex"
  shows "kb_kept s s'"
  using assms
  by (auto simp: terminal_init_def option_bind_Some_iff Let_def kb_keeps_def kb_kept_def tvid_def dest!: term_put_kept split: if_splits)

lemma terminal_switch_kept:
  assumes "terminal_switch ex t s = Some (r, s')" "kb_keeps ex"
  shows "kb_kept s s'"
  using assms
  by (auto simp: terminal_switch_def option_bind_Some_iff Let_def kb_kept_def tvid_def tcursor_def clear_keyboard_buff_def
      dest!: term_put_kept terminal_init_kept split: if_splits)

lemma keyboard_handler_kept:
  assumes "keyboard_handler ex c s = Some s'" "kb_keeps ex"
  shows "kb_kept s s'"
proof -
  obtain s1 where s1: "keyboard_switch ex c s = Some s1" "kb_kept s1 s'"
    using assms(1) by (auto simp: keyboard_handler_def option_bind_Some_iff kb_kept_def)
  have "kb_kept s s1"
    using s1(1) assms(2) print_to_screen_kept[of c s s1]
    by (auto simp: keyboard_switch_def kb_tab_def kb_enter_def kb_ctrl_l_def kb_function_key_def option_bind_Some_iff Let_def
        kb_kept_def tcursor_def tputc_def kb_backspace_def
        dest!: kb_store_kept kb_redisplay_kept terminal_switch_kept split: if_splits)
  then show ?thesis using s1(2) kb_kept_trans by blast
qed

lemma wait_enter_kept:
  assumes "kb_keeps ex"
  shows "wait_enter ex keys s = Some (s', rest) \<Longrightarrow> kb_kept s s'"
proof (induction keys arbitrary: s)
  case Nil
  then show ?case by (subst (asm) wait_enter.simps) (auto split: if_splits)
next
  case (Cons c keys)
  show ?case
  proof (cases "enter_pressed_flag s = 1")
    case True
    then show ?thesis using Cons.prems by (subst (asm) wait_enter.simps) simp
  next
    case False
    then obtain s1 where "keyboard_handler ex c s = Some s1" "wait_enter ex keys s1 = Some (s', rest)"
      using Cons.prems by (subst (asm) wait_enter.simps) (auto simp: option_bind_Some_iff)
    then show ?thesis using Cons.IH keyboard_handler_kept[OF _ assms] kb_kept_trans by blast
  qed
qed

lemma read_short_low: "read_short kb num buf i n m = Some (m', c) \<Longrightarrow> a < buf \<Longrightarrow> m' a = m a"
  by (induction kb num buf i n m rule: read_short.induct) (auto simp: option_bind_Some_iff Let_def split: if_splits)

lemma read_long_low: "read_long kb buf i n m c = Some (m', c') \<Longrightarrow> a < buf \<Longrightarrow> m' a = m a"
  by (induction kb buf i n m c rule: read_long.induct) (auto simp: option_bind_Some_iff)

lemma terminal_read_kept:
  assumes "terminal_read ex keys buf n (s, m) = Some (r, keys', s', m')" "kb_keeps ex" "0 \<le> num_chars_typed s"
  shows "kb_kept s s' \<and> (\<forall>a < buf. m' a = m a)"
proof (cases "n = 0 \<or> buf = 0")
  case True
  then show ?thesis using assms(1) by (auto simp: terminal_read_def)
next
  case False
  then obtain s1 where w: "wait_enter ex keys s = Some (s1, keys')"
    and s': "s' = clear_keyboard_buff (s1\<lparr>num_chars_typed := 0, enter_pressed_flag := 0\<rparr>)"
    and m': "(if n < int NUM_CHARS_KB then read_short (keyboard_buffer s1) (num_chars_typed s1) buf 0 (nat (num_chars_typed s1)) m
      else do { (m1, c) \<leftarrow> read_long (keyboard_buffer s1) buf 0 (nat (num_chars_typed s1)) m 0;
                Some (m1(nat (int buf + num_chars_typed s1) := 0), c) }) = Some (m', r)"
    using assms(1) by (auto simp: terminal_read_def option_bind_Some_iff Let_def split: if_splits)
  have k1: "kb_kept s s1" by (rule wait_enter_kept[OF assms(2) w])
  then have "0 \<le> num_chars_typed s1" using assms(3) by (simp add: kb_kept_def)
  then have "m' a = m a" if "a < buf" for a
    using m' that by (auto simp: option_bind_Some_iff dest: read_short_low read_long_low split: if_splits)
  then show ?thesis using k1 by (simp add: s' kb_kept_def clear_keyboard_buff_def)
qed

section \<open>The system calls of one process\<close>

lemma upd_fda: "upd_pcb (\<lambda>p. p\<lparr>fda := g (fda p)\<rparr>) k = upd_pcb (\<lambda>p. p\<lparr>fda := g (fda (cur_pcb k))\<rparr>) k"
  by (simp add: upd_pcb_def cur_pcb_def)

lemma system_open_ran:
  assumes "system_open name k = Some (r, k')"
  shows "ran k k'"
proof (cases rule: system_open_cases[OF assms])
  case (2 d tab)
  then have ok: "fds_ok (fda (cur_pcb k)) \<Longrightarrow> fds_ok (fda (cur_pcb k'))"
    by (auto dest: open_fd_ok type_table_pairs)
  show ?thesis
  proof (cases rule: open_fd_cases[OF 2(3)])
    case (2 fd)
    then show ?thesis using ok by (subst 2(6), subst upd_fda, intro ran_fda) (simp add: kernel_simps)
  qed simp
qed simp

lemma system_close_ran: "ran k (snd (system_close fd k))"
proof -
  have "ran k (upd_pcb (\<lambda>p. p\<lparr>fda := (fda p)[nat fd := closed_fd (fda p ! nat fd)]\<rparr>) k)"
    by (subst upd_fda) (intro ran_fda fds_ok_update closed_fd_ok)
  then show ?thesis by (simp add: system_close_eq)
qed

lemma read_data_loop_frame_below: "a < buf \<Longrightarrow> snd (read_data_loop f ino len off buf fin cur i c m) a = m a"
proof (induction "unat (fin - cur)" arbitrary: cur i c m rule: less_induct)
  case less
  show ?case
  proof (cases "cur < fin \<and> cur \<noteq> len")
    case False then show ?thesis by (subst read_data_loop.simps) auto
  next
    case True
    then have "unat (fin - (cur + 1)) < unat (fin - cur)" by (intro unat_diff_less) simp
    then show ?thesis using True less by (subst read_data_loop.simps) (simp add: Let_def)
  qed
qed

lemma read_data_frame_below: "a < buf \<Longrightarrow> fst (snd (read_data f ino off buf len (m, c))) a = m a"
  by (simp add: read_data_def Let_def case_prod_unfold read_data_loop_frame_below)

lemma fd_put_block:
  assumes "fd_get p i = Some d" "fd_put p i (d\<lparr>file_position := x\<rparr>) = Some p'"
  shows "\<exists>l. p' = p\<lparr>fda := l\<rparr> \<and> (fds_ok (fda p) \<longrightarrow> fds_ok l)"
proof -
  have i: "\<not> i < 0" "nat i < length (fda p)" "fda p ! nat i = d"
    using assms(1) by (auto simp: fd_get_def rd_Some_iff split: if_splits)
  then have "p' = p\<lparr>fda := (fda p)[nat i := d\<lparr>file_position := x\<rparr>]\<rparr>"
    using assms(2) by (auto simp: fd_put_def wr_Some_iff option_bind_Some_iff)
  moreover have "fd_ok (nat i) (d\<lparr>file_position := x\<rparr>)" if "fds_ok (fda p)"
    using that i by (auto simp: fds_ok_def fd_ok_def)
  ultimately show ?thesis using fds_ok_update by blast
qed

lemma file_read_block:
  assumes "file_read f fd buf n (p, m, c) = Some (r, p', m', c')"
  shows "(\<exists>l. p' = p\<lparr>fda := l\<rparr> \<and> (fds_ok (fda p) \<longrightarrow> fds_ok l)) \<and> (\<forall>a < buf. m' a = m a)"
proof (cases "n \<le> 0")
  case True
  then show ?thesis using assms by (auto simp: file_read_def intro: exI[of _ "fda p"])
next
  case False
  then obtain d where d: "fd_get p fd = Some d" using assms by (cases "fd_get p fd") (auto simp: file_read_def)
  obtain q m1 c1 where q: "read_data f (inode_idx d) (file_position d) buf (word_of_int n) (m, c) = (q, m1, c1)"
    by (metis prod_cases3)
  have m1: "\<forall>a < buf. m1 a = m a"
    using read_data_frame_below[of _ buf f "inode_idx d" "file_position d" "word_of_int n" m c] q by simp
  show ?thesis
  proof (cases "q = - 1")
    case True
    then show ?thesis using assms False d q m1 by (auto simp: file_read_def intro: exI[of _ "fda p"])
  next
    case nq: False
    then have "fd_put p fd (d\<lparr>file_position := file_position d + word_of_int q\<rparr>) = Some p'" "m' = m1"
      using assms False d q by (auto simp: file_read_def option_bind_Some_iff)
    then show ?thesis using fd_put_block[OF d] m1 by blast
  qed
qed

lemma directory_read_block:
  assumes "directory_read f loc fd buf n (p, m, c) = Some (r, p', m', c')" "b \<le> buf" "b \<le> loc" "loc + 32 \<le> buf"
  shows "(\<exists>l. p' = p\<lparr>fda := l\<rparr> \<and> (fds_ok (fda p) \<longrightarrow> fds_ok l)) \<and> (\<forall>a < b. m' a = m a)"
proof -
  obtain d where d: "fd_get p fd = Some d" using assms(1) by (cases "fd_get p fd") (auto simp: directory_read_def)
  show ?thesis
  proof (cases "read_dentry_by_index m f (ucast (file_position d))")
    case None
    then show ?thesis using assms(1) d by (auto simp: directory_read_def intro: exI[of _ "fda p"])
  next
    case (Some de)
    let ?m2 = "strncpy (put_bytes m loc (dentry_bytes de)) buf loc 32"
    have low: "?m2 a = m a" if "a < b" for a
      using that assms(2-4) by (subst strncpy_padded) (simp_all add: put_bytes_out)
    have "buf \<noteq> 0" using assms(4) by simp
    then obtain p1 where "fd_put p fd (d\<lparr>file_position := file_position d + 1\<rparr>) = Some p1" "p' = p1" "m' = ?m2"
      using assms(1) d Some by (auto simp: directory_read_def option_bind_Some_iff Let_def)
    then show ?thesis using fd_put_block[OF d] low by blast
  qed
qed

text \<open>Buffers lie in the program page, the locals of the kernel between the image and that page.\<close>

definition user_buf :: "nat \<Rightarrow> bool" where
  "user_buf buf \<longleftrightarrow> 0x8000000 \<le> buf"

definition kernel_stack :: "kernel \<Rightarrow> nat \<Rightarrow> bool" where
  "kernel_stack k a \<longleftrightarrow> fs_end (view k) (kfs k) \<le> a \<and> a + 264 \<le> 0x8000000"

lemma ran_rtc: "ran k (from_rtc s k)"
  by (rule ran_same) (simp_all add: from_rtc_def)

lemma image_below: "image_ok k \<Longrightarrow> user_buf buf \<Longrightarrow> a < fs_end (view k) (kfs k) \<Longrightarrow> a < buf"
  by (simp add: image_ok_def user_buf_def)

lemma fop_read_ran:
  assumes "fop_read ex loc t fd buf n k = Some (r, k')" "kb_keeps ex" "image_ok k" "0 \<le> num_chars_typed k"
    and "user_buf buf" "kernel_stack k loc"
  shows "ran k k'"
proof -
  have e: "from_fenv (k_fenv k) k = k" by (rule fenv_roundtrip)
  show ?thesis
  proof (cases t)
    case Null_ops
    then show ?thesis using assms(1) by (simp add: fop_read_def no_operation_read_def e)
  next
    case Stdout_ops
    then show ?thesis using assms(1) by (simp add: fop_read_def no_operation_read_def e)
  next
    case Stdin_ops
    then obtain keys k1 m where t: "terminal_read ex (keys_in k) buf n (k, view k) = Some (r, keys, k1, m)"
      and k': "k' = set_view m (k1\<lparr>keys_in := keys\<rparr>)"
      using assms(1) by (auto simp: fop_read_def option_bind_Some_iff)
    note kept = terminal_read_kept[OF t assms(2,4)]
    then have k1: "ran k k1" by (simp add: ran_kb)
    moreover have "ran k1 (k1\<lparr>keys_in := keys\<rparr>)" by (rule ran_same) simp_all
    ultimately have k2: "ran k (k1\<lparr>keys_in := keys\<rparr>)" using ran_trans[OF assms(3)] by blast
    moreover have "ran (k1\<lparr>keys_in := keys\<rparr>) k'"
      unfolding k'
    proof (rule ran_set_view)
      fix a assume a: "a < fs_end (view (k1\<lparr>keys_in := keys\<rparr>)) (kfs (k1\<lparr>keys_in := keys\<rparr>))"
      have "tstate.more k1 = tstate.more k" using kept by (simp add: kb_kept_def)
      then have "view (k1\<lparr>keys_in := keys\<rparr>) = view k" "kfs k1 = kfs k"
        by (cases k; cases k1; simp add: view_def cur_frame_def cong: if_cong)+
      then show "m a = view (k1\<lparr>keys_in := keys\<rparr>) a" using a kept image_below[OF assms(3,5), of a] by simp
    qed
    ultimately show ?thesis using ran_trans[OF assms(3)] by blast
  next
    case Rtc_ops
    then obtain s rest where "k' = (from_rtc s k)\<lparr>ticks_in := rest\<rparr>"
      using assms(1) by (auto simp: fop_read_def option_bind_Some_iff)
    then show ?thesis by (auto intro!: ran_same simp: from_rtc_def)
  next
    case Files_ops
    then obtain p' m' c' where f: "file_read (kfs k) fd buf n (cur_pcb k, view k, con k) = Some (r, p', m', c')"
      and k': "k' = from_fenv (p', m', c') k"
      using assms(1) by (auto simp: fop_read_def option_bind_Some_iff k_fenv_def)
    obtain l where l: "p' = (cur_pcb k)\<lparr>fda := l\<rparr>" "fds_ok (fda (cur_pcb k)) \<longrightarrow> fds_ok l" "\<forall>a < buf. m' a = view k a"
      using file_read_block[OF f] by blast
    show ?thesis unfolding k' by (rule ran_fenv[OF l(1)]) (use l assms image_below in auto)
  next
    case Directories_ops
    then obtain p' m' c' where f: "directory_read (kfs k) loc fd buf n (cur_pcb k, view k, con k) = Some (r, p', m', c')"
      and k': "k' = from_fenv (p', m', c') k"
      using assms(1) by (auto simp: fop_read_def option_bind_Some_iff k_fenv_def)
    have "fs_end (view k) (kfs k) \<le> buf" "fs_end (view k) (kfs k) \<le> loc" "loc + 32 \<le> buf"
      using assms(3,5,6) by (simp_all add: image_ok_def user_buf_def kernel_stack_def)
    from directory_read_block[OF f this] obtain l where l: "p' = (cur_pcb k)\<lparr>fda := l\<rparr>"
      "fds_ok (fda (cur_pcb k)) \<longrightarrow> fds_ok l" "\<forall>a < fs_end (view k) (kfs k). m' a = view k a" by blast
    show ?thesis unfolding k' by (rule ran_fenv[OF l(1)]) (use l assms in auto)
  qed
qed

lemma system_read_ran:
  assumes "system_read ex loc fd buf n k = Some (r, k')" "kb_keeps ex" "image_ok k" "0 \<le> num_chars_typed k"
    and "user_buf buf" "kernel_stack k loc"
  shows "ran k k'"
  using assms(1) fop_read_ran[OF _ assms(2-6)] by (auto simp: system_read_def split: if_splits option.splits)

lemma ran_con: "ran k (k\<lparr>con := c\<rparr>)"
  by (rule ran_same) simp_all

lemma system_write_ran:
  assumes "system_write fd buf n k = Some (r, k')"
  shows "ran k k'"
proof -
  have e: "from_fenv (k_fenv k) k = k" by (rule fenv_roundtrip)
  have "ran k k'" if "fop_write t fd buf n k = Some (r, k')" for t
    using that by (cases t) (auto simp: fop_write_def e no_operation_write_def file_write_def directory_write_def
        option_bind_Some_iff ran_con ran_rtc Let_def split: prod.splits)
  then show ?thesis using assms by (auto simp: system_write_def split: if_splits option.splits)
qed

lemma put_bytes_low: "a < buf \<Longrightarrow> put_bytes m buf bs a = m a"
  by (simp add: put_bytes_out)

lemma system_getargs_ran:
  assumes "image_ok k" "user_buf buf"
  shows "ran k (snd (system_getargs past buf n k))"
  using ran_set_view[of k "put_bytes (view k) buf bs" for bs] image_below[OF assms] put_bytes_low
  by (simp add: system_getargs_def Let_def)

lemma cur_frame_map_vidmem: "cur_frame (k\<lparr>kpaging := map_vidmem vpt (kpaging k)\<rparr>) = cur_frame k"
  by (simp add: cur_frame_def map_vidmem_def Let_def set_pde_def flush_tlb_def VMEM_PDE_INDEX_def PROGRAM_IMG_PDE_INDEX_def)

lemma ran_map_vidmem: "ran k (k\<lparr>kpaging := map_vidmem vpt (kpaging k)\<rparr>)"
proof -
  let ?k = "k\<lparr>kpaging := map_vidmem vpt (kpaging k)\<rparr>"
  have "view ?k = view k" unfolding view_def cur_frame_map_vidmem by (simp cong: if_cong)
  moreover have "cur_pcb ?k = cur_pcb k" by (simp add: cur_pcb_def)
  moreover have "paging_sized (kpaging k) \<Longrightarrow> paging_sized (map_vidmem vpt (kpaging k))"
    by (simp add: map_vidmem_def Let_def set_pde_def flush_tlb_def paging_sized_def)
  ultimately show ?thesis by (simp add: ran_def cur_frame_map_vidmem image_kept_def ex_same_block)
qed

lemma system_vidmap_ran:
  assumes "image_ok k"
  shows "ran k (snd (system_vidmap vpt start k))"
proof (cases "start = 0 \<or> start < IMG_BIG_START \<or> start > IMG_BIG_START + PAGESIZE_4MB")
  case False
  then have "user_buf start" by (simp add: user_buf_def IMG_BIG_START_def)
  then have "ran k (set_view (put_bytes (view k) start (le_bytes USER_VMEM_ADDR)) k)"
    using ran_set_view[of k "put_bytes (view k) start (le_bytes USER_VMEM_ADDR)"] image_below[OF assms] put_bytes_low by simp
  then show ?thesis using False ran_trans[OF assms _ ran_map_vidmem] by (simp add: system_vidmap_def Let_def)
qed (auto simp: system_vidmap_def)

lemma interrupts_ran:
  "keyboard_handler ex c k = Some k' \<Longrightarrow> kb_keeps ex \<Longrightarrow> ran k k'"
  "ran k (from_rtc (rtc_handler (k_rtc k)) k)"
  by (auto intro: ran_kb keyboard_handler_kept ran_rtc)

text \<open>The user program stores into its page or into the video page.\<close>

lemma store_ran:
  assumes "image_ok k" "\<And>a. \<not> in_program_page a \<Longrightarrow> m a = view k a"
  shows "ran k (set_view m k)"
  using assms by (intro ran_set_view) (auto simp: image_ok_def in_program_page_def)

section \<open>Execute\<close>

text \<open>The directory of an image of programs: no more entries than fit into the boot block, and every
  file that starts like a program is one, with its entry point and no larger than the program page.\<close>

definition programs_ok :: "kernel \<Rightarrow> bool" where
  "programs_ok k \<longleftrightarrow> 0 \<le> sint (dir_count (view k) (kfs k)) \<and> sint (dir_count (view k) (kfs k)) \<le> 63 \<and>
     (\<forall>i d. i < nat (sint (dir_count (view k) (kfs k))) \<longrightarrow> read_dentry_by_index (view k) (kfs k) (of_nat i) = Some d \<longrightarrow>
        wf_inode (view k) (kfs k) (inode_num d) \<and>
        (let c = file_content (view k) (kfs k) (inode_num d)
         in take 4 c = [0x7f, 0x45, 0x4c, 0x46] \<longrightarrow> 28 \<le> length c \<and> length c \<le> 0x3B8000))"

lemma same_image_dentry:
  assumes "wf_fs m f" "same_image m f m'" "i < 63"
  shows "read_dentry_by_index m' f (of_nat i) = read_dentry_by_index m f (of_nat i)"
proof -
  have u: "unat (of_nat i :: byte) = i" using assms(3) by (simp add: unat_of_nat_small)
  have e: "boot_block f + 4096 \<le> fs_end m f" using assms(1) by (simp add: wf_fs_def fs_end_def)
  have "bytes_of m' (direntry f i) 32 = bytes_of m (direntry f i) 32"
    using assms(2,3) e by (intro bytes_of_cong) (simp add: same_image_def direntry_def)
  moreover have "le32 m' (direntry f i + 32) = le32 m (direntry f i + 32)" "le32 m' (direntry f i + 36) = le32 m (direntry f i + 36)"
    using assms(3) e by (auto intro!: same_image_le32[OF assms(2)] simp: direntry_def)
  ultimately show ?thesis
    by (simp add: read_dentry_by_index_def u same_image_inode_count(2)[OF assms(1,2)])
qed

lemma programs_ok_kept:
  assumes "image_ok k" "programs_ok k" "image_kept k k'"
  shows "programs_ok k'"
proof -
  have i: "wf_fs (view k) (kfs k)" "same_image (view k) (kfs k) (view k')" "kfs k' = kfs k"
    using assms(1,3) by (simp_all add: image_ok_def image_kept_def)
  note n = same_image_inode_count(2)[OF i(1,2)]
  have "wf_inode (view k') (kfs k') (inode_num d) \<and> (let c = file_content (view k') (kfs k') (inode_num d)
         in take 4 c = [0x7f, 0x45, 0x4c, 0x46] \<longrightarrow> 28 \<le> length c \<and> length c \<le> 0x3B8000)"
    if "j < nat (sint (dir_count (view k) (kfs k)))" "read_dentry_by_index (view k') (kfs k) (of_nat j) = Some d" for j d
  proof -
    have "j < 63" using that(1) assms(2) unfolding programs_ok_def by linarith
    then have "read_dentry_by_index (view k) (kfs k) (of_nat j) = Some d" using that(2) same_image_dentry[OF i(1,2)] by simp
    then have "wf_inode (view k) (kfs k) (inode_num d)" "let c = file_content (view k) (kfs k) (inode_num d)
         in take 4 c = [0x7f, 0x45, 0x4c, 0x46] \<longrightarrow> 28 \<le> length c \<and> length c \<le> 0x3B8000"
      using assms(2) that(1) unfolding programs_ok_def by blast+
    then show ?thesis using image_kept_facts(3,4)[OF assms(1,3)] by simp
  qed
  then show ?thesis using assms(2) n i(3) by (simp add: programs_ok_def)
qed

lemma found_program:
  assumes "programs_ok k" "read_dentry_by_name (view k) (kfs k) name = Some (Some d)"
  shows "wf_inode (view k) (kfs k) (inode_num d)"
    "take 4 (file_content (view k) (kfs k) (inode_num d)) = [0x7f, 0x45, 0x4c, 0x46] \<Longrightarrow>
     28 \<le> length (file_content (view k) (kfs k) (inode_num d)) \<and> length (file_content (view k) (kfs k) (inode_num d)) \<le> 0x3B8000"
proof -
  let ?n = "nat (sint (dir_count (view k) (kfs k)))"
  have "map_of (dir_table (view k) (kfs k) ?n) (cname (view k) name 32) = Some (Some d)"
    using dentry_scan_finds[of "sint (dir_count (view k) (kfs k))" "view k" "kfs k" 0 name] assms
    by (auto simp: read_dentry_by_name_def programs_ok_def split: option.splits)
  then obtain i where "i < ?n" "read_dentry_by_index (view k) (kfs k) (of_nat i) = Some d"
    by (auto dest!: map_of_SomeD simp: dir_table_def)
  then have "wf_inode (view k) (kfs k) (inode_num d)" "let c = file_content (view k) (kfs k) (inode_num d)
       in take 4 c = [0x7f, 0x45, 0x4c, 0x46] \<longrightarrow> 28 \<le> length c \<and> length c \<le> 0x3B8000"
    using assms(1) unfolding programs_ok_def by blast+
  then show "wf_inode (view k) (kfs k) (inode_num d)"
    "take 4 (file_content (view k) (kfs k) (inode_num d)) = [0x7f, 0x45, 0x4c, 0x46] \<Longrightarrow>
     28 \<le> length (file_content (view k) (kfs k) (inode_num d)) \<and> length (file_content (view k) (kfs k) (inode_num d)) \<le> 0x3B8000"
    by (simp_all add: Let_def)
qed

lemma split_loop_length: "length (fst (split_loop cs i fname start)) = length fname"
  by (induction cs i fname start rule: split_loop.induct) simp_all

lemma arg_loop_length: "arg_loop m c len i it n args = Some args' \<Longrightarrow> length args' = length args"
  by (induction m c len i it n args rule: arg_loop.induct) (auto simp: option_bind_Some_iff wr_Some_iff split: if_splits)

lemma exec_parse_length:
  assumes "exec_parse g m cmd = Some (Some (fname, args))"
  shows "length fname = 128" "length args = 128"
  using assms split_loop_length[of "bytes_of m cmd n" 0 "replicate NUM_CHARS_KB 0" g for n]
  by (auto simp: exec_parse_def option_bind_Some_iff NUM_CHARS_KB_def case_prod_unfold Let_def dest: arg_loop_length split: if_splits)

lemma k_read_data_ran:
  assumes "image_ok k" "fs_end (view k) (kfs k) \<le> buf"
  shows "ran k (snd (k_read_data ino off buf len k))"
proof -
  let ?m = "fst (snd (read_data (kfs k) ino off buf len (view k, con k)))"
  have "ran (k\<lparr>con := c\<rparr>) (set_view ?m (k\<lparr>con := c\<rparr>))" for c
    using assms(2) read_data_frame_below[of _ buf "kfs k" ino off len "view k" "con k"]
    by (intro ran_set_view) (simp add: kernel_simps)
  then have "ran k (set_view ?m (k\<lparr>con := c\<rparr>))" for c using ran_trans[OF assms(1) ran_con] by blast
  then show ?thesis by (simp add: k_read_data_def case_prod_unfold Let_def)
qed

text \<open>What a successful execute has done when it enters the child \<^verbatim>\<open>p\<close>.\<close>

definition entered :: "int \<Rightarrow> u32 \<Rightarrow> u32 \<Rightarrow> kernel \<Rightarrow> kernel \<Rightarrow> bool" where
  "entered p esp ebp k k' \<longleftrightarrow> pid k' = p \<and> pcb_obj k' = find_PCB p \<and> unat (cur_frame k') = 1024 * (2 + nat p) \<and>
     (\<forall>f. f \<noteq> cur_frame k' \<longrightarrow> frames k' f = frames k f) \<and> active (cur_pcb k') = 1 \<and>
     pcb_parent (cur_pcb k') = (if p = 0 then - 1 else pid k) \<and> ebp_val (cur_pcb k') = ebp \<and> esp_val (cur_pcb k') = esp \<and>
     tss_esp0_reg k' = word_of_int (find_PCB (p - 1) - 4) \<and> (\<forall>a. a \<noteq> find_PCB p \<longrightarrow> pcbs k' a = pcbs k a) \<and>
     fda (cur_pcb k') = exec_fda (fda (pcbs k (find_PCB p))) \<and>
     image_kept k k' \<and> paging_sized (kpaging k') \<and> num_chars_typed k' = num_chars_typed k"

lemma exec_load_outcome:
  assumes "image_ok k" "programs_ok k" "paging_sized (kpaging k)" "kernel_stack k stk" "assign_scan (pcbs k) 0 5 = Some p"
    and "read_dentry_by_name (view k) (kfs k) stk = Some (Some d)"
    and "exec_load stk esp ebp (pid k) (inode_num d) (inode_length (view k) (kfs k) (inode_num d)) k = (c, k')"
  shows "(c = Ret (- 1) \<and> ran k k') \<or> (\<exists>eip. c = Iret eip 0x83FFFFC \<and> entered p esp ebp k k')"
proof -
  let ?ino = "inode_num d" and ?c = "file_content (view k) (kfs k) (inode_num d)"
  note prog = found_program[OF assms(2,6)]
  have stk: "fs_end (view k) (kfs k) \<le> stk" "stk + 264 \<le> 0x8000000" using assms(4) by (simp_all add: kernel_stack_def)
  have kept: "image_kept k k" by (simp add: image_kept_def)
  show ?thesis
  proof (cases "take 4 ?c = [0x7f, 0x45, 0x4c, 0x46]")
    case True
    note load = exec_load_spec[OF assms(1) kept stk prog(1) refl True _ _ assms(5,3), of esp ebp "pid k"]
    show ?thesis using load prog(2)[OF True] assms(7) by (auto simp: entered_def)
  next
    case False
    let ?k1 = "snd (k_read_data ?ino 0 (stk + 256) 4 k)"
    have rd: "k_read_data ?ino 0 (stk + 256) 4 k = (int (length (take 4 ?c)), set_view (put_bytes (view k) (stk + 256) (take 4 ?c)) k)"
      using assms(1) prog(1) stk(1)
      by (subst k_read_data_eq) (simp_all add: image_ok_def outside_image_def fs_end_def[symmetric])
    have bs: "bytes_of (put_bytes (view k) (stk + 256) (take 4 ?c)) (stk + 256) 4 = take 4 ?c" if "length (take 4 ?c) = 4"
      using that by (rule bytes_of_put_bytes)
    have "int (length (take 4 ?c)) = 4 \<longleftrightarrow> length (take 4 ?c) = 4" by linarith
    then have "exec_is_elf stk ?ino k = (False, ?k1)"
      using False bs by (simp add: exec_is_elf_def rd kernel_simps del: length_take)
    then have "c = Ret (- 1)" "k' = ?k1" using assms(7) by (simp_all add: exec_load_def)
    moreover have "ran k ?k1" by (rule k_read_data_ran) (use assms(1) stk(1) in simp_all)
    ultimately show ?thesis by simp
  qed
qed

text \<open>Up to the file found nothing but the locals are written.\<close>

lemma execute_until_load:
  assumes "image_ok k" "kernel_stack k stk" "system_execute g stk esp ebp cmd k = Some (c, k')"
  shows "(c = Ret (- 1) \<and> ran k k') \<or>
    (\<exists>k1 d. ran k k1 \<and> kernel_stack k1 stk \<and> frames k1 = frames k \<and> pcbs k1 = pcbs k \<and> pid k1 = pid k \<and>
       kpaging k1 = kpaging k \<and> num_chars_typed k1 = num_chars_typed k \<and>
       read_dentry_by_name (view k1) (kfs k1) stk = Some (Some d) \<and>
       exec_load stk esp ebp (pid k1) (inode_num d) (inode_length (view k1) (kfs k1) (inode_num d)) k1 = (c, k'))"
proof -
  obtain parsed where parse: "exec_parse g (view k) cmd = Some parsed"
    using assms(3) by (auto simp: system_execute_def option_bind_Some_iff)
  show ?thesis
  proof (cases parsed)
    case None
    then show ?thesis using assms(3) parse by (simp add: system_execute_def)
  next
    case (Some fa)
    then obtain fname args where fa: "parsed = Some (fname, args)" by (cases fa) auto
    define k1 where "k1 = exec_locals stk fname args k"
    have stk: "fs_end (view k) (kfs k) \<le> stk" "stk + 264 \<le> 0x8000000" using assms(2) by (simp_all add: kernel_stack_def)
    have len: "length (fname @ args) = 256" using exec_parse_length[OF parse[unfolded fa]] by simp
    have r1: "ran k k1"
      unfolding k1_def exec_locals_def using stk(1) by (intro ran_set_view) (simp add: put_bytes_low)
    have f1: "frames k1 = frames k"
      unfolding k1_def exec_locals_def using stk(2) len
      by (intro frames_set_view) (auto simp: put_bytes_def in_program_page_def)
    have p1: "pcbs k1 = pcbs k" "pid k1 = pid k" "kpaging k1 = kpaging k" "num_chars_typed k1 = num_chars_typed k"
      by (simp_all add: k1_def exec_locals_def kernel_simps)
    have stack1: "kernel_stack k1 stk"
      using stk image_kept_facts(2)[OF assms(1), of k1] r1 by (simp add: kernel_stack_def ran_def)
    obtain found where found: "read_dentry_by_name (view k1) (kfs k1) stk = Some found"
      using assms(3) parse fa by (auto simp: system_execute_def option_bind_Some_iff k1_def[symmetric] Let_def)
    show ?thesis
    proof (cases found)
      case None
      then have "c = Ret (- 1)" "k' = k1" using assms(3) parse fa found by (simp_all add: system_execute_def k1_def[symmetric])
      then show ?thesis using r1 by simp
    next
      case (Some d)
      then have "exec_load stk esp ebp (pid k1) (inode_num d) (inode_length (view k1) (kfs k1) (inode_num d)) k1 = (c, k')"
        using assms(3) parse fa found by (simp add: system_execute_def k1_def[symmetric] p1)
      then show ?thesis using r1 f1 p1 stack1 found Some by blast
    qed
  qed
qed

lemma execute_outcome:
  assumes "image_ok k" "programs_ok k" "paging_sized (kpaging k)" "kernel_stack k stk" "assign_scan (pcbs k) 0 5 = Some p"
    and "system_execute g stk esp ebp cmd k = Some (c, k')"
  shows "(c = Ret (- 1) \<and> ran k k') \<or> (\<exists>eip. c = Iret eip 0x83FFFFC \<and> entered p esp ebp k k')"
  using execute_until_load[OF assms(1,4,6)]
proof (elim disjE exE conjE)
  fix k1 d
  assume r1: "ran k k1" and stack1: "kernel_stack k1 stk" and found: "read_dentry_by_name (view k1) (kfs k1) stk = Some (Some d)"
    and p1: "frames k1 = frames k" "pcbs k1 = pcbs k" "pid k1 = pid k" "kpaging k1 = kpaging k" "num_chars_typed k1 = num_chars_typed k"
    and load: "exec_load stk esp ebp (pid k1) (inode_num d) (inode_length (view k1) (kfs k1) (inode_num d)) k1 = (c, k')"
  have kept: "image_kept k k1" using r1 by (simp add: ran_def)
  from exec_load_outcome[OF ran_image_ok[OF assms(1) r1] programs_ok_kept[OF assms(1,2) kept] _ stack1 _ found load] assms(3,5) p1
  consider "c = Ret (- 1)" "ran k1 k'" | eip where "c = Iret eip 0x83FFFFC" "entered p esp ebp k1 k'" by auto
  then show ?thesis
  proof cases
    case 1
    then show ?thesis using ran_trans[OF assms(1) r1] by simp
  next
    case 2
    then have "entered p esp ebp k k'"
      using image_kept_trans[OF assms(1) kept] by (simp add: entered_def p1)
    then show ?thesis using 2(1) by simp
  qed
qed simp

text \<open>With all numbers taken an execute fails, and leaves -99 behind when the file is a program.\<close>

lemma execute_all_taken:
  assumes "image_ok k" "kernel_stack k stk" "all_taken k" "system_execute g stk esp ebp cmd k = Some (c, k')"
  shows "c = Ret (- 1) \<and> ran k k'"
  using execute_until_load[OF assms(1,2,4)]
proof (elim disjE exE conjE)
  fix k1 d
  assume r1: "ran k k1" and stack1: "kernel_stack k1 stk" and p1: "pcbs k1 = pcbs k"
    and load: "exec_load stk esp ebp (pid k1) (inode_num d) (inode_length (view k1) (kfs k1) (inode_num d)) k1 = (c, k')"
  obtain e k2 where e: "exec_is_elf stk (inode_num d) k1 = (e, k2)" by fastforce
  have i1: "image_ok k1" by (rule ran_image_ok[OF assms(1) r1])
  have r2: "ran k1 k2"
    using k_read_data_ran[OF i1, of "stk + 256" "inode_num d" 0 4] stack1 e
    by (auto simp: exec_is_elf_def kernel_stack_def case_prod_unfold Let_def)
  have t2: "all_taken k2" using assms(3) ran_all_taken[OF r1] ran_all_taken[OF r2] by simp
  have r3: "ran k2 (kprintk t (kprintk u k2\<lparr>pid := ASSIGN_PID_ERROR\<rparr>))" for t u
  proof -
    let ?k = "kprintk t (kprintk u k2\<lparr>pid := ASSIGN_PID_ERROR\<rparr>)"
    have "ran (k2\<lparr>pid := ASSIGN_PID_ERROR\<rparr>) ?k" by (rule ran_same) (simp_all add: kprintk_def)
    then have "ran k2 (?k\<lparr>pid := pid k2\<rparr>)" by (intro ran_same) (simp_all add: kprintk_def)
    then show ?thesis using t2 by (simp add: ran_def kprintk_def cur_frame_def image_kept_def same_image_def view_def cur_pcb_def cong: if_cong)
  qed
  have "c = Ret (- 1) \<and> ran k2 k'"
    using load t2 r3
    by (simp add: exec_load_def e assign_PID_def all_taken_def[symmetric] Let_def split: if_splits option.splits)
       (auto simp: all_taken_def)
  then show ?thesis using ran_trans[OF assms(1) ran_trans[OF assms(1) r1 r2]] by blast
qed simp

section \<open>The specification\<close>

record proc =
  p_pid :: int
  p_mem :: mem
  p_files :: "file_descriptor list"
  p_args :: "byte list"
  p_ebp :: u32
  p_esp :: u32

text \<open>A call saves the stack frame of the caller, a return hands it back.  The last two are what the
  specification has no step for: \<^verbatim>\<open>Stray\<close> is a read or getargs that the program gives a buffer outside
  its page, which the code does not check, and \<^verbatim>\<open>Lost\<close> is a base shell that halts and cannot be started
  again.\<close>

datatype proc_event = Run | Call u32 u32 | Return u32 u32 | Restart | Stray | Lost

inductive stack_step :: "proc_event \<Rightarrow> proc list \<Rightarrow> proc list \<Rightarrow> bool" where
  step_run: "p_pid x' = p_pid x \<Longrightarrow> p_args x' = p_args x \<Longrightarrow> p_ebp x' = p_ebp x \<Longrightarrow> p_esp x' = p_esp x \<Longrightarrow>
    stack_step Run (x # xs) (x' # xs)"
| step_call: "p_pid c \<notin> p_pid ` set xs \<Longrightarrow> p_ebp c = b \<Longrightarrow> p_esp c = s \<Longrightarrow> xs \<noteq> [] \<Longrightarrow>
    stack_step (Call b s) xs (c # xs)"
| step_return: "p_ebp c = b \<Longrightarrow> p_esp c = s \<Longrightarrow> xs \<noteq> [] \<Longrightarrow> stack_step (Return b s) (c # xs) xs"
| step_restart: "p_pid x' = p_pid x \<Longrightarrow> stack_step Restart [x] [x']"

inductive_cases stack_step_cases:
  "stack_step Run xs ys" "stack_step (Call b s) xs ys" "stack_step (Return b s) xs ys" "stack_step Restart xs ys"
  "stack_step Stray xs ys" "stack_step Lost xs ys"

section \<open>The kernel\<close>

text \<open>Alt with one of F1 to F3 for a terminal that was not shown before runs the shell in the middle of
  the keyboard handler.\<close>

definition new_terminal :: "u32 \<Rightarrow> 'a tstate_scheme \<Rightarrow> bool" where
  "new_terminal t s \<longleftrightarrow> t \<noteq> word_of_int (curr_terminal_id s) \<and> term_active (terminals s ! unat t) = 0"

definition shell_key :: "byte \<Rightarrow> 'a tstate_scheme \<Rightarrow> bool" where
  "shell_key c s \<longleftrightarrow> alt_pressed s \<noteq> 0 \<and>
     (c = 0x3B \<and> new_terminal 0 s \<or> c = 0x3C \<and> new_terminal 1 s \<or> c = 0x3D \<and> new_terminal 2 s)"

text \<open>That execute when it returns to the handler, which it does with -1 only.\<close>

definition shell_returns :: "int \<Rightarrow> nat \<Rightarrow> u32 \<Rightarrow> u32 \<Rightarrow> nat \<Rightarrow> kernel \<Rightarrow> kernel option" where
  "shell_returns g stk esp ebp shell s =
    (case system_execute g stk esp ebp shell s of Some (Ret r, s') \<Rightarrow> Some s' | _ \<Rightarrow> None)"

text \<open>A step of the kernel: a store of the program, a system call with any arguments, an exception or
  an interrupt.  The locals of a call are on the kernel stack.  A key that starts a shell is a call,
  from the state in which the handler is when it executes the shell; the end of the handler comes
  after that shell has returned.  While a read waits the keys that do so are steps of their own
  (lemma \<^verbatim>\<open>read_after_key\<close>: the read goes on from the state they leave).\<close>

inductive kernel_step :: "proc_event \<Rightarrow> kernel \<Rightarrow> kernel \<Rightarrow> bool" where
  k_store: "(\<And>a. \<not> in_program_page a \<Longrightarrow> m a = view k a) \<Longrightarrow> kernel_step Run k (set_view m k)"
| k_video: "kernel_step Run k (k\<lparr>con := (con k)\<lparr>vid := v\<rparr>\<rparr>)"
| k_open: "system_open name k = Some (r, k') \<Longrightarrow> kernel_step Run k k'"
| k_close: "kernel_step Run k (snd (system_close fd k))"
| k_read: "system_read (\<lambda>_. None) loc fd buf n k = Some (r, k') \<Longrightarrow> kernel_stack k loc \<Longrightarrow>
    kernel_step (if user_buf buf then Run else Stray) k k'"
| k_write: "system_write fd buf n k = Some (r, k') \<Longrightarrow> kernel_step Run k k'"
| k_getargs: "kernel_step (if user_buf buf then Run else Stray) k (snd (system_getargs past buf n k))"
| k_vidmap: "kernel_step Run k (snd (system_vidmap vpt start k))"
| k_key: "keyboard_handler (shell_returns g stk esp ebp shell) c k = Some k' \<Longrightarrow> kernel_stack k stk \<Longrightarrow>
    kernel_step Run k k'"
| k_shell_key: "shell_key c k \<Longrightarrow> keyboard_switch Some c k = Some ka \<Longrightarrow>
    system_execute g stk esp ebp shell ka = Some (Iret eip usp, k') \<Longrightarrow> kernel_stack k stk \<Longrightarrow>
    kernel_step (Call ebp esp) k k'"
| k_key_ends: "kernel_step Run k (k\<lparr>kpic := send_eoi KEYBOARD_IRQ_NUM (kpic k)\<rparr>)"
| k_tick: "kernel_step Run k (from_rtc (rtc_handler (k_rtc k)) k)"
| k_execute_fails: "system_execute g stk esp ebp cmd k = Some (Ret r, k') \<Longrightarrow> kernel_stack k stk \<Longrightarrow>
    kernel_step Run k k'"
| k_execute: "system_execute g stk esp ebp cmd k = Some (Iret eip usp, k') \<Longrightarrow> kernel_stack k stk \<Longrightarrow>
    kernel_step (Call ebp esp) k k'"
| k_halt: "system_halt g stk esp ebp shell st k = Some (Unwind b s r, k') \<Longrightarrow>
    kernel_step (if pid k = 0 then Lost else Return b s) k k'"
| k_exception: "handle_exception g stk esp ebp shell h k = Some (Unwind b s r, k') \<Longrightarrow>
    kernel_step (if pid k = 0 then Lost else Return b s) k k'"
| k_restart: "system_halt g stk esp ebp shell st k = Some (Iret eip usp, k') \<Longrightarrow> kernel_stack k stk \<Longrightarrow>
    kernel_step Restart k k'"
| k_exception_restart: "handle_exception g stk esp ebp shell h k = Some (Iret eip usp, k') \<Longrightarrow> kernel_stack k stk \<Longrightarrow>
    kernel_step Restart k k'"

text \<open>The relation between the two: the list of the process numbers from the current one to the base.\<close>

fun chain :: "(int \<Rightarrow> pcb) \<Rightarrow> int list \<Rightarrow> bool" where
  "chain ps [] \<longleftrightarrow> False"
| "chain ps [p] \<longleftrightarrow> p = 0 \<and> pcb_parent (ps (find_PCB 0)) = - 1"
| "chain ps (p # q # l) \<longleftrightarrow> p \<noteq> 0 \<and> pcb_parent (ps (find_PCB p)) = q \<and> chain ps (q # l)"

definition frame_of :: "int \<Rightarrow> 20 word" where "frame_of p = of_nat (1024 * (2 + nat p))"

definition proc_of :: "kernel \<Rightarrow> int \<Rightarrow> proc" where
  "proc_of k p = (let b = pcbs k (find_PCB p) in
     \<lparr>p_pid = p, p_mem = frames k (frame_of p), p_files = fda b, p_args = pargs b, p_ebp = ebp_val b, p_esp = esp_val b\<rparr>)"

definition running :: "kernel \<Rightarrow> int \<Rightarrow> bool" where
  "running k p \<longleftrightarrow> (pid k = p \<or> pid k = ASSIGN_PID_ERROR \<and> all_taken k) \<and> pcb_obj k = find_PCB p \<and> cur_frame k = frame_of p \<and>
     tss_esp0_reg k = word_of_int (find_PCB (p - 1) - 4)"

definition blocks_ok :: "kernel \<Rightarrow> int list \<Rightarrow> bool" where
  "blocks_ok k l \<longleftrightarrow> image_ok k \<and> programs_ok k \<and> set l \<subseteq> {0..4} \<and>
     (\<forall>i \<in> {0..4}. active (pcbs k (find_PCB i)) \<noteq> 0 \<longleftrightarrow> i \<in> set l) \<and>
     (\<forall>i \<in> set l. fds_ok (fda (pcbs k (find_PCB i)))) \<and>
     (\<forall>i \<in> {0..4}. length (fda (pcbs k (find_PCB i))) = MAX_OPEN_FILES)"

definition kernel_ok :: "kernel \<Rightarrow> int list \<Rightarrow> bool" where
  "kernel_ok k l \<longleftrightarrow> blocks_ok k l \<and> paging_sized (kpaging k) \<and> 0 \<le> num_chars_typed k \<and>
     chain (pcbs k) l \<and> distinct l \<and> running k (hd l)"

lemmas ok_defs = kernel_ok_def blocks_ok_def

section \<open>Facts: the refinement\<close>

lemma find_PCB_inj [simp]: "find_PCB p = find_PCB q \<longleftrightarrow> p = q"
  by (simp add: find_PCB_def KERNEL_STACK_SIZE_def)

lemma unat_frame_of: "p \<in> {0..4} \<Longrightarrow> unat (frame_of p) = 1024 * (2 + nat p)"
  unfolding frame_of_def by (rule unat_of_nat_small) auto

lemma frame_of_inj: "p \<in> {0..4} \<Longrightarrow> q \<in> {0..4} \<Longrightarrow> frame_of p = frame_of q \<longleftrightarrow> p = q"
  using unat_frame_of[of p] unat_frame_of[of q] by auto

lemma frame_of_unat: "p \<in> {0..4} \<Longrightarrow> unat w = 1024 * (2 + nat p) \<Longrightarrow> w = frame_of p"
  using unat_frame_of[of p] by (simp add: word_unat_eq_iff)

lemma chain_cong:
  "(\<And>p. p \<in> set l \<Longrightarrow> pcb_parent (ps' (find_PCB p)) = pcb_parent (ps (find_PCB p))) \<Longrightarrow> chain ps' l = chain ps l"
  by (induction ps l rule: chain.induct) auto

lemma chain_nonempty: "chain ps l \<Longrightarrow> l \<noteq> []" by (cases l) auto

lemma chain_base: "chain ps l \<Longrightarrow> 0 \<in> set l"
  by (induction ps l rule: chain.induct) auto

text \<open>The processes other than the current one are untouched.\<close>

lemma proc_of_other:
  assumes "running k p" "p \<in> {0..4}" "q \<in> {0..4}" "q \<noteq> p"
    and "\<And>a. a \<noteq> find_PCB p \<Longrightarrow> pcbs k' a = pcbs k a" "\<And>f. f \<noteq> frame_of p \<Longrightarrow> frames k' f = frames k f"
  shows "proc_of k' q = proc_of k q"
  using assms frame_of_inj[of q p] by (simp add: proc_of_def)

lemma image_ok_kept: "image_ok k \<Longrightarrow> image_kept k k' \<Longrightarrow> image_ok k'"
  using image_kept_facts(1,2)[of k k'] by (simp add: image_ok_def)

text \<open>A step changes at most the block of one process \<^verbatim>\<open>c\<close>.\<close>

lemma kernel_ok_change:
  assumes "blocks_ok k l" "image_kept k k'" "paging_sized (kpaging k')" "0 \<le> num_chars_typed k'"
    and "\<And>a. a \<noteq> find_PCB c \<Longrightarrow> pcbs k' a = pcbs k a" "c \<in> {0..4}"
    and "running k' (hd l')" "chain (pcbs k') l'" "distinct l'" "\<And>i. i \<noteq> c \<Longrightarrow> i \<in> set l' \<longleftrightarrow> i \<in> set l"
    and "active (pcbs k' (find_PCB c)) \<noteq> 0 \<longleftrightarrow> c \<in> set l'" "c \<in> set l' \<Longrightarrow> fds_ok (fda (pcbs k' (find_PCB c)))"
    and "length (fda (pcbs k' (find_PCB c))) = MAX_OPEN_FILES"
  shows "kernel_ok k' l'"
proof -
  have k: "image_ok k" "programs_ok k" "set l \<subseteq> {0..4}"
    and blocks: "\<And>i. i \<in> {0..4} \<Longrightarrow> (active (pcbs k (find_PCB i)) \<noteq> 0 \<longleftrightarrow> i \<in> set l) \<and>
      length (fda (pcbs k (find_PCB i))) = MAX_OPEN_FILES"
    and fds: "\<And>i. i \<in> set l \<Longrightarrow> fds_ok (fda (pcbs k (find_PCB i)))"
    using assms(1) by (auto simp: ok_defs)
  have keep: "pcbs k' (find_PCB i) = pcbs k (find_PCB i)" if "i \<noteq> c" for i using assms(5) that by (metis find_PCB_inj)
  have sub: "set l' \<subseteq> {0..4}"
  proof
    fix i assume "i \<in> set l'"
    then show "i \<in> {0..4}" using assms(6) assms(10)[of i] k(3) by (cases "i = c") auto
  qed
  have "(active (pcbs k' (find_PCB i)) \<noteq> 0 \<longleftrightarrow> i \<in> set l') \<and> length (fda (pcbs k' (find_PCB i))) = MAX_OPEN_FILES"
    if "i \<in> {0..4}" for i
    using blocks[OF that] assms(10)[of i] assms(11,13) keep[of i] by (cases "i = c") auto
  moreover have "fds_ok (fda (pcbs k' (find_PCB i)))" if "i \<in> set l'" for i
    using that fds[of i] assms(10)[of i] assms(12) keep[of i] by (cases "i = c") auto
  ultimately show ?thesis
    using assms image_ok_kept[OF k(1) assms(2)] programs_ok_kept[OF k(1,2) assms(2)] sub by (simp add: ok_defs)
qed

lemma blocks_of: "kernel_ok k l \<Longrightarrow> blocks_ok k l" by (simp add: kernel_ok_def)

lemma kernel_ok_length: "kernel_ok k l \<Longrightarrow> i \<in> {0..4} \<Longrightarrow> length (fda (pcbs k (find_PCB i))) = MAX_OPEN_FILES"
  by (simp add: ok_defs)

text \<open>All numbers taken means five processes on the stack.\<close>

lemma all_taken_active: "all_taken k \<longleftrightarrow> (\<forall>i \<in> {0..4}. active (pcbs k (find_PCB i)) \<noteq> 0)"
proof -
  have "{0..4 :: int} = {0, 1, 2, 3, 4}" by auto
  then show ?thesis by (simp add: all_taken_def MAX_PROCESSES_def numeral_eq_Suc)
qed

lemma all_taken_set: "blocks_ok k l \<Longrightarrow> all_taken k \<longleftrightarrow> set l = {0..4}"
  by (auto simp: all_taken_active blocks_ok_def)

lemma free_not_taken: "assign_scan (pcbs k) 0 5 = Some p \<Longrightarrow> \<not> all_taken k"
  by (simp add: all_taken_def MAX_PROCESSES_def)

lemma running_free: "running k p \<Longrightarrow> \<not> all_taken k \<Longrightarrow> pid k = p" by (simp add: running_def)

lemma ran_running:
  assumes "running k p" "ran k k'"
  shows "running k' p"
  using assms ran_all_taken[OF assms(2)] by (auto simp: ran_def running_def)

lemma ran_kernel_ok:
  assumes "kernel_ok k l" "ran k k'"
  shows "kernel_ok k' l \<and> stack_step Run (map (proc_of k) l) (map (proc_of k') l)"
proof -
  obtain p ps where l: "l = p # ps"
    using assms(1) chain_nonempty by (metis ok_defs neq_Nil_conv)
  have k: "running k p" "p \<in> {0..4}" "set ps \<subseteq> {0..4}" "p \<notin> set ps" "chain (pcbs k) l" "distinct l"
    using assms(1) by (auto simp: ok_defs l)
  obtain fl where blk: "pcbs k' (find_PCB p) = (pcbs k (find_PCB p))\<lparr>fda := fl\<rparr>"
    using assms(2) k(1) by (auto simp: ran_def cur_pcb_def running_def)
  have oth: "\<And>a. a \<noteq> find_PCB p \<Longrightarrow> pcbs k' a = pcbs k a" "\<And>f. f \<noteq> frame_of p \<Longrightarrow> frames k' f = frames k f"
    using assms(2) k(1) by (auto simp: ran_def running_def)
  have par: "pcb_parent (pcbs k' a) = pcb_parent (pcbs k a)" for a
    using oth(1)[of a] blk by (cases "a = find_PCB p"; simp)
  have fds: "fds_ok (fda (pcbs k' (find_PCB p)))"
    using assms k(1) by (auto simp: ran_def cur_pcb_def running_def ok_defs l)
  have "kernel_ok k' l"
  proof (rule kernel_ok_change[OF blocks_of[OF assms(1)] _ _ _ oth(1) k(2)])
    show "chain (pcbs k') l" using k(5) chain_cong[of l "pcbs k'" "pcbs k"] par by simp
    show "active (pcbs k' (find_PCB p)) \<noteq> 0 \<longleftrightarrow> p \<in> set l" using assms(1) k(2) blk by (simp add: ok_defs)
    show "running k' (hd l)" using ran_running[OF k(1) assms(2)] by (simp add: l)
  qed (use assms fds k in \<open>auto simp: ran_def ok_defs fds_ok_def\<close>)
  moreover have tail: "map (proc_of k') ps = map (proc_of k) ps"
    by (rule map_cong[OF refl]) (use proc_of_other[OF k(1,2) _ _ oth] k(3,4) in \<open>metis subsetD\<close>)
  have "stack_step Run (map (proc_of k) l) (map (proc_of k') l)"
    unfolding l list.map tail by (rule step_run) (simp_all add: proc_of_def blk Let_def)
  ultimately show ?thesis by simp
qed

lemma entered_kernel_ok:
  assumes "kernel_ok k l" "entered p esp ebp k k'" "assign_scan (pcbs k) 0 5 = Some p"
  shows "kernel_ok k' (p # l) \<and> stack_step (Call ebp esp) (map (proc_of k) l) (map (proc_of k') (p # l))"
proof -
  obtain q ps where l: "l = q # ps" using assms(1) chain_nonempty by (metis ok_defs neq_Nil_conv)
  have p: "p \<in> {0..4}" "active (pcbs k (find_PCB p)) = 0" using assign_scan_spec[OF assms(3)] by simp_all
  have k: "chain (pcbs k) l" "running k q" "set l \<subseteq> {0..4}" using assms(1) by (auto simp: ok_defs l)
  have new: "p \<notin> set l" using assms(1) p by (auto simp: ok_defs)
  then have p0: "p \<noteq> 0" using chain_base[OF k(1)] by auto
  have e: "running k' p" using assms(2) p(1) by (auto simp: entered_def frame_of_unat running_def)
  have "pid k = q" using running_free[OF k(2)] free_not_taken[OF assms(3)] by simp
  then have b: "pcb_parent (pcbs k' (find_PCB p)) = q" "ebp_val (pcbs k' (find_PCB p)) = ebp"
    "esp_val (pcbs k' (find_PCB p)) = esp" "fda (pcbs k' (find_PCB p)) = exec_fda (fda (pcbs k (find_PCB p)))"
    using assms(2) p0 k(2) by (auto simp: entered_def cur_pcb_def running_def)
  have oth: "\<And>a. a \<noteq> find_PCB p \<Longrightarrow> pcbs k' a = pcbs k a" "\<And>f. f \<noteq> frame_of p \<Longrightarrow> frames k' f = frames k f"
    using assms(2) e by (auto simp: entered_def running_def)
  have keep: "pcbs k' (find_PCB i) = pcbs k (find_PCB i)" if "i \<in> set l" for i using oth(1) that new by (metis find_PCB_inj)
  have fds: "fds_ok (fda (pcbs k' (find_PCB p)))" using exec_fda_ok kernel_ok_length[OF assms(1) p(1)] b(4) by simp
  have "kernel_ok k' (p # l)"
  proof (rule kernel_ok_change[OF blocks_of[OF assms(1)] _ _ _ oth(1) p(1)])
    show "chain (pcbs k') (p # l)" using k(1) chain_cong[of l "pcbs k'" "pcbs k"] keep p0 b(1) by (simp add: l)
    show "active (pcbs k' (find_PCB p)) \<noteq> 0 \<longleftrightarrow> p \<in> set (p # l)" using assms(2) by (auto simp: entered_def cur_pcb_def)
  qed (use assms fds e new in \<open>auto simp: entered_def ok_defs fds_ok_def\<close>)
  moreover have "proc_of k' i = proc_of k i" if "i \<in> set l" for i
  proof -
    have "i \<in> {0..4}" "i \<noteq> p" using that k(3) new by auto
    then show ?thesis using keep[OF that] oth(2)[of "frame_of i"] frame_of_inj[OF _ p(1), of i] by (simp add: proc_of_def)
  qed
  then have same: "map (proc_of k') l = map (proc_of k) l" by simp
  have "p_pid (proc_of k' p) \<notin> p_pid ` set (map (proc_of k) l)" using new by (auto simp: proc_of_def Let_def)
  then have "stack_step (Call ebp esp) (map (proc_of k) l) (map (proc_of k') (p # l))"
    unfolding list.map same by (rule step_call) (simp_all add: proc_of_def Let_def b l)
  ultimately show ?thesis by simp
qed

lemma halt_outcome:
  assumes "kernel_ok k l" "pid k \<noteq> 0" "system_halt g stk esp ebp shell st k = Some (Unwind b s r, k')"
  shows "kernel_ok k' (tl l) \<and> stack_step (Return b s) (map (proc_of k) l) (map (proc_of k') (tl l))"
proof -
  have ch: "chain (pcbs k) l" "running k (hd l)" using assms(1) by (simp_all add: ok_defs)
  have taken: "set l = {0..4}" if "all_taken k" using all_taken_set[OF blocks_of[OF assms(1)]] that by simp
  have "l \<noteq> [q]" for q
  proof
    assume "l = [q]"
    moreover have "{0 :: int} \<noteq> {0..4}" by (rule notI, drule arg_cong[of _ _ "\<lambda>S. 1 \<in> S"]) simp
    ultimately have "q = 0" "\<not> all_taken k" using ch(1) taken by (auto simp del: atLeastAtMost_iff)
    then show False using ch(2) assms(2) \<open>l = [q]\<close> by (auto simp: running_def)
  qed
  then obtain c p ps where l: "l = c # p # ps" using ch(1) by (cases "(pcbs k, l)" rule: chain.cases) auto
  have k: "c \<in> {0..4}" "p \<in> {0..4}" "c \<noteq> p" "running k c" "image_ok k" "c \<notin> set (p # ps)" "distinct (p # ps)"
    using assms(1) by (auto simp: ok_defs l)
  let ?k = "k\<lparr>int_flag := False\<rparr>"
  have cur: "cur_pcb ?k = pcbs k (find_PCB c)" "cur_pcb k = pcbs k (find_PCB c)" "pcb_parent (pcbs k (find_PCB c)) = p"
    "pcb_obj ?k = find_PCB c" using ch k(4) by (simp_all add: cur_pcb_def l running_def)
  have "system_halt g stk esp ebp shell st k = Some (halt_to_parent st (ebp_val (cur_pcb k)) (esp_val (cur_pcb k)) ?k)"
    using assms(2) by (simp add: system_halt_def Let_def cur)
  then have h: "halt_to_parent st (ebp_val (cur_pcb k)) (esp_val (cur_pcb k)) ?k = (Unwind b s r, k')" using assms(3) by simp
  have sz: "paging_sized (kpaging ?k)" using assms(1) by (simp add: ok_defs)
  from halt_to_parent_spec[of ?k p c st "ebp_val (cur_pcb k)" "esp_val (cur_pcb k)"] h k(1,2,3) cur sz
  have spec: "b = ebp_val (cur_pcb k)" "s = esp_val (cur_pcb k)" "running k' p" "frames k' = frames k"
    "active (pcbs k' (find_PCB c)) = 0" "fda (pcbs k' (find_PCB c)) = map closed_fd (fda (cur_pcb k))"
    "kmem k' = kmem k" "kfs k' = kfs k" "paging_sized (kpaging k')" "num_chars_typed k' = num_chars_typed k"
    and oth: "\<And>a. a \<noteq> find_PCB c \<Longrightarrow> pcbs k' a = pcbs k a"
    by (auto simp: frame_of_unat running_def)
  have kept: "image_kept k k'"
    by (rule image_kept_view[of k k]) (simp_all add: image_kept_def spec view_outside_page k(5))
  have keep: "pcbs k' (find_PCB i) = pcbs k (find_PCB i)" if "i \<in> set (p # ps)" for i using oth that k(6) by (metis find_PCB_inj)
  have "kernel_ok k' (p # ps)"
  proof (rule kernel_ok_change[OF blocks_of[OF assms(1)] kept spec(9) _ oth k(1)])
    show "chain (pcbs k') (p # ps)" using ch(1) chain_cong[of "p # ps" "pcbs k'" "pcbs k"] keep by (simp add: l)
  qed (use assms(1) spec k kernel_ok_length[OF assms(1) k(1)] cur in \<open>auto simp: l ok_defs\<close>)
  moreover have same: "map (proc_of k') (p # ps) = map (proc_of k) (p # ps)"
    by (rule map_cong[OF refl]) (simp add: proc_of_def keep spec(4))
  have "stack_step (Return b s) (map (proc_of k) l) (map (proc_of k') (p # ps))"
    unfolding same unfolding l list.map by (rule step_return) (simp_all add: proc_of_def Let_def spec(1,2) cur)
  ultimately show ?thesis by (simp add: l)
qed

text \<open>The base shell starts again when it halts.\<close>

definition cleared :: "kernel \<Rightarrow> kernel" where
  "cleared k = upd_pcb (\<lambda>p. p\<lparr>fda := map (\<lambda>d. d\<lparr>flags := 0\<rparr>) (fda p)\<rparr>)
     (k_execute_paging 0 ((halt_clear_pcb k)\<lparr>tss_ss0 := KERNEL_DS, tss_esp0_reg := 0x800000 - 4\<rparr>))"

lemma halt_restart_cleared: "halt_restart g stk esp ebp shell k = system_execute g stk esp ebp shell (cleared k)"
  by (simp add: halt_restart_def cleared_def Let_def)

lemma cleared_fields:
  "kmem (cleared k) = kmem k" "kfs (cleared k) = kfs k" "num_chars_typed (cleared k) = num_chars_typed k"
  "a \<noteq> pcb_obj k \<Longrightarrow> pcbs (cleared k) a = pcbs k a" "active (pcbs (cleared k) (pcb_obj k)) = 0"
  "length (fda (pcbs (cleared k) (pcb_obj k))) = length (fda (pcbs k (pcb_obj k)))"
  "paging_sized (kpaging k) \<Longrightarrow> paging_sized (kpaging (cleared k))"
  by (simp_all add: cleared_def halt_clear_pcb_def k_execute_paging_def upd_pcb_def execute_paging_sized)

lemma restart_outcome:
  assumes "kernel_ok k l" "kernel_stack k stk" "system_halt g stk esp ebp shell st k = Some (Iret eip usp, k')"
  shows "l = [0] \<and> kernel_ok k' [0] \<and> stack_step Restart (map (proc_of k) l) (map (proc_of k') [0])"
proof -
  let ?k = "k\<lparr>int_flag := False\<rparr>"
  have k: "chain (pcbs k) l" "running k (hd l)" "image_ok k" "programs_ok k" "paging_sized (kpaging k)"
    using assms(1) by (simp_all add: ok_defs)
  have base: "pid k = 0"
    using assms(3) by (auto simp: system_halt_def Let_def halt_to_parent_def split: if_splits)
  then have l: "l = [0]"
    using k(1,2) by (cases "(pcbs k, l)" rule: chain.cases) (auto simp: running_def ASSIGN_PID_ERROR_def)
  let ?c = "cleared ?k"
  have obj: "pcb_obj ?k = find_PCB 0" using k(2) by (simp add: l running_def)
  note f = cleared_fields[where k = ?k, unfolded obj]
  have kept: "image_kept k ?c"
    by (rule image_kept_view[of k k]) (simp_all add: image_kept_def f view_outside_page k(3))
  have exec: "system_execute g stk esp ebp shell ?c = Some (Iret eip usp, k')"
  proof -
    obtain c k1 where ck: "system_execute g stk esp ebp shell ?c = Some (c, k1)"
      "(case c of Ret r \<Rightarrow> Some (halt_to_parent st (ebp_val (cur_pcb ?k)) (esp_val (cur_pcb ?k)) k1) | _ \<Rightarrow> Some (c, k1)) = Some (Iret eip usp, k')"
      using assms(3) base
      by (auto simp: system_halt_def halt_restart_cleared Let_def option_bind_Some_iff halt_to_parent_def split: if_splits)
    then show ?thesis by (cases c) (simp_all add: halt_to_parent_def Let_def)
  qed
  have free: "assign_scan (pcbs ?c) 0 5 = Some 0" using f(5) by (simp add: numeral_eq_Suc)
  have stack: "kernel_stack ?c stk" using assms(2) image_kept_facts(2)[OF k(3) kept] by (simp add: kernel_stack_def)
  from execute_outcome[OF image_ok_kept[OF k(3) kept] programs_ok_kept[OF k(3,4) kept] _ stack free exec] f(7) k(5)
  have e: "entered 0 esp ebp ?c k'" by auto
  then have r: "running k' 0" by (auto simp: entered_def running_def frame_of_unat)
  have b: "pcb_parent (pcbs k' (find_PCB 0)) = - 1" "active (pcbs k' (find_PCB 0)) = 1"
    "fda (pcbs k' (find_PCB 0)) = exec_fda (fda (pcbs ?c (find_PCB 0)))"
    using e by (auto simp: entered_def cur_pcb_def)
  have fds: "fds_ok (fda (pcbs k' (find_PCB 0)))"
    using exec_fda_ok kernel_ok_length[OF assms(1), of 0] f(6) b(3) by simp
  have "kernel_ok k' [0]"
  proof (rule kernel_ok_change[OF blocks_of[OF assms(1)], of k' 0])
    show "image_kept k k'" using image_kept_trans[OF k(3) kept] e by (simp add: entered_def)
    show "\<And>a. a \<noteq> find_PCB 0 \<Longrightarrow> pcbs k' a = pcbs k a" using e f(4) by (simp add: entered_def)
  qed (use assms(1) e r b fds l f(3) in \<open>auto simp: entered_def ok_defs fds_ok_def\<close>)
  moreover have "stack_step Restart [proc_of k 0] [proc_of k' 0]" by (rule step_restart) (simp add: proc_of_def Let_def)
  ultimately show ?thesis by (simp add: l)
qed

lemma execute_needs_free:
  assumes "system_execute g stk esp ebp cmd k = Some (Iret eip usp, k')"
  shows "assign_scan (pcbs k) 0 MAX_PROCESSES \<noteq> None"
proof
  assume none: "assign_scan (pcbs k) 0 MAX_PROCESSES = None"
  have "exec_load stk esp ebp par ino len k1 \<noteq> (Iret eip usp, k')" if "pcbs k1 = pcbs k" for par ino len k1
  proof -
    obtain e k2 where e: "exec_is_elf stk ino k1 = (e, k2)" by fastforce
    then have "pcbs k2 = pcbs k1" by (auto simp: exec_is_elf_def case_prod_unfold Let_def kernel_simps)
    then have "fst (assign_PID k2) = ASSIGN_PID_ERROR" using none that by (simp add: assign_PID_def)
    then show ?thesis by (simp add: exec_load_def e case_prod_unfold Let_def)
  qed
  then show False
    using assms by (auto simp: system_execute_def option_bind_Some_iff Let_def exec_locals_def kernel_simps split: option.splits)
qed

text \<open>The first program.\<close>

lemma entered_first:
  assumes "blocks_ok k []" "0 \<le> num_chars_typed k" "entered 0 esp ebp k k'"
  shows "kernel_ok k' [0]"
proof -
  have r: "running k' 0" using assms(3) by (auto simp: entered_def running_def frame_of_unat)
  have b: "pcb_parent (pcbs k' (find_PCB 0)) = - 1" "active (pcbs k' (find_PCB 0)) = 1"
    "fda (pcbs k' (find_PCB 0)) = exec_fda (fda (pcbs k (find_PCB 0)))"
    using assms(3) by (auto simp: entered_def cur_pcb_def)
  have "fds_ok (fda (pcbs k' (find_PCB 0)))" using assms(1) b(3) exec_fda_ok by (simp add: blocks_ok_def)
  then show ?thesis
    using assms r b by (intro kernel_ok_change[OF assms(1), of k' 0]) (auto simp: entered_def fds_ok_def)
qed

lemma first_program:
  assumes "blocks_ok k []" "paging_sized (kpaging k)" "0 \<le> num_chars_typed k" "kernel_stack k stk"
    and "system_execute g stk esp ebp cmd k = Some (Iret eip usp, k')"
  shows "kernel_ok k' [0]"
proof -
  have free: "assign_scan (pcbs k) 0 5 = Some 0" using assms(1) by (auto simp: blocks_ok_def numeral_eq_Suc)
  have "image_ok k" "programs_ok k" using assms(1) by (simp_all add: blocks_ok_def)
  from execute_outcome[OF this assms(2,4) free assms(5)] show ?thesis
    using entered_first[OF assms(1,3)] by auto
qed

text \<open>What the keyboard handler does apart from the shell it may start.\<close>

lemma term_put_active:
  assumes "term_get s i = Some t" "term_put s i t1 = Some s1" "term_active t1 = term_active t" "terminals s2 = terminals s1"
    and "term_get s2 j = Some n"
  shows "term_active n = term_active (terminals s ! nat j)"
  using assms by (auto simp: term_get_def term_put_def rd_Some_iff wr_Some_iff option_bind_Some_iff nth_list_update split: if_splits)

lemma terminal_switch_new:
  fixes s :: "'a tstate_scheme"
  assumes "t \<le> 2"
  shows "terminal_switch ex t s = (if new_terminal t s then do { (r, ka) \<leftarrow> terminal_switch Some t s; s6 \<leftarrow> ex ka; Some (0, s6) }
     else terminal_switch Some t s)"
proof (cases "t = word_of_int (curr_terminal_id s)")
  case True
  then show ?thesis by (simp add: terminal_switch_def new_terminal_def)
next
  case ne: False
  have i: "\<not> NUM_TERMINALS - 1 < t" using assms by (simp add: NUM_TERMINALS_def not_less)
  define pre where "pre = do {
       t0 \<leftarrow> term_get s (curr_terminal_id s);
       let t1 = t0\<lparr>screen_X := get_screen_x (con s), screen_Y := get_screen_y (con s), term_keyboard_buffer := keyboard_buffer s\<rparr>;
       s1 \<leftarrow> term_put s (curr_terminal_id s) t1;
       let s2 = clear_keyboard_buff s1;
       let s3 = tvid (on_phys (\<lambda>m. memcpy m (unat (video_mem_addr t1)) VIDEO 4096)) s2;
       let s4 = tcursor 0 0 (s3\<lparr>con := clear (con s3)\<rparr>);
       n \<leftarrow> term_get s4 (int (unat t));
       Some (n, s4) }"
  define ini where "ini = (\<lambda>s4 :: 'a tstate_scheme. do {
       let s1 = s4\<lparr>curr_terminal_id := sint t\<rparr>;
       t0 \<leftarrow> term_get s1 (int (unat t));
       let addr = 0xB8000 + (t + 1) * 4096;
       s2 \<leftarrow> term_put s1 (int (unat t))
               (t0\<lparr>term_active := 1, screen_X := 0, screen_Y := 0, term_keyboard_buffer := keyboard_buffer s1\<rparr>);
       let s3 = tvid (clear_terminal_vidmem (int (unat addr) - int VIDEO)) s2;
       t3 \<leftarrow> term_get s3 (int (unat t));
       s4 \<leftarrow> term_put s3 (int (unat t)) (t3\<lparr>video_mem_addr := addr\<rparr>);
       Some (s4\<lparr>kpic := send_eoi KEYBOARD_IRQ_NUM (kpic s4)\<rparr>) })"
  define fin where "fin = (\<lambda>(n :: terminal) (s4 :: 'a tstate_scheme).
         (let s5 = tvid (on_phys (\<lambda>m. memcpy m VIDEO (unat (video_mem_addr n)) 4096)) s4;
              s6 = tcursor (screen_X n) (screen_Y n) s5;
              s7 = s6\<lparr>keyboard_buffer := term_keyboard_buffer n\<rparr>
          in (0 :: int, s7\<lparr>curr_terminal_id := sint t\<rparr>)))"
  have init: "terminal_init e t s4 = do { s5 \<leftarrow> ini s4; s6 \<leftarrow> e s5; Some (0, s6) }" for e s4
    by (simp add: terminal_init_def ini_def i Let_def)
  have sw: "terminal_switch e t s = do { (n, s4) \<leftarrow> pre;
      if term_active n = 0 then do { (r, s5) \<leftarrow> terminal_init e t s4; Some (0, s5) } else Some (fin n s4) }" for e
    unfolding terminal_switch_def if_not_P[OF ne] pre_def fin_def Let_def by (simp cong: if_cong)
  have act: "(term_active n = 0) = new_terminal t s" if "pre = Some (n, s4)" for n s4
  proof -
    have "term_active n = term_active (terminals s ! unat t)"
      using that
      by (auto simp: pre_def option_bind_Some_iff Let_def tvid_def tcursor_def clear_keyboard_buff_def term_get_def term_put_def
          rd_Some_iff wr_Some_iff nth_list_update split: if_splits)
    then show ?thesis using ne by (simp add: new_terminal_def)
  qed
  show ?thesis
    unfolding sw init using act by (cases pre) (auto simp: case_prod_unfold)
qed

text \<open>The handler runs the shell for a \<^const>\<open>shell_key\<close> and for no other.\<close>

lemma keyboard_switch_shell:
  "keyboard_switch ex c s = (if shell_key c s then do { ka \<leftarrow> keyboard_switch Some c s; ex ka } else keyboard_switch Some c s)"
proof -
  have sw: "kb_function_key ex t s = (if alt_pressed s \<noteq> 0 \<and> new_terminal t s then do { ka \<leftarrow> kb_function_key Some t s; ex ka }
      else kb_function_key Some t s)" if "t \<le> 2" for t
    unfolding kb_function_key_def terminal_switch_new[OF that, of ex] by (simp add: case_prod_unfold)
  have "c \<notin> {0x3B, 0x3C, 0x3D} \<Longrightarrow> keyboard_switch ex c s = keyboard_switch Some c s" by (simp add: keyboard_switch_def)
  then show ?thesis using sw[of 0] sw[of 1] sw[of 2] by (auto simp: shell_key_def keyboard_switch_def)
qed

lemma ran_pic: "ran k (k\<lparr>kpic := p\<rparr>)" by (rule ran_same) simp_all

lemma keyboard_switch_kept: "keyboard_switch Some c k = Some ka \<Longrightarrow> kb_kept k ka"
proof -
  assume "keyboard_switch Some c k = Some ka"
  then have "keyboard_handler Some c k = Some (ka\<lparr>kpic := send_eoi KEYBOARD_IRQ_NUM (kpic ka)\<rparr>)" by (rule handler_of_switch)
  from keyboard_handler_kept[OF this] show ?thesis by (simp add: kb_keeps_def kb_kept_def)
qed

lemma keyboard_switch_ran: "keyboard_switch Some c k = Some ka \<Longrightarrow> ran k ka"
  using keyboard_switch_kept ran_kb by blast

text \<open>A key that arrives while a read waits: the read goes on from the state the handler leaves.\<close>

lemma read_after_key:
  assumes "enter_pressed_flag s \<noteq> 1" "keyboard_handler ex c s = Some s1" "n \<noteq> 0" "buf \<noteq> 0"
  shows "terminal_read ex (c # keys) buf n (s, m) = terminal_read ex keys buf n (s1, m)"
  using assms wait_enter.simps[of ex "c # keys" s] by (simp add: terminal_read_def)

text \<open>An execute that returns to its caller.\<close>

lemma failed_execute_ran:
  assumes "kernel_ok k l" "kernel_stack k stk" "system_execute g stk esp ebp cmd k = Some (Ret r, k')"
  shows "ran k k'"
proof (cases "assign_scan (pcbs k) 0 5")
  case None
  then have "all_taken k" by (simp add: all_taken_def MAX_PROCESSES_def)
  then show ?thesis using execute_all_taken[OF _ assms(2) _ assms(3)] assms(1) by (simp add: ok_defs)
next
  case (Some p)
  have "image_ok k" "programs_ok k" "paging_sized (kpaging k)" using assms(1) by (simp_all add: ok_defs)
  from execute_outcome[OF this assms(2) Some assms(3)] show ?thesis by auto
qed

lemma execute_step:
  assumes "kernel_ok k l" "kernel_stack k stk" "system_execute g stk esp ebp cmd k = Some (Iret eip usp, k')"
  shows "\<exists>l'. kernel_ok k' l' \<and> stack_step (Call ebp esp) (map (proc_of k) l) (map (proc_of k') l')"
proof -
  obtain p where p: "assign_scan (pcbs k) 0 5 = Some p"
    using execute_needs_free[OF assms(3)] by (auto simp: MAX_PROCESSES_def)
  have "image_ok k" "programs_ok k" "paging_sized (kpaging k)" using assms(1) by (simp_all add: ok_defs)
  from execute_outcome[OF this assms(2) p assms(3)] show ?thesis using entered_kernel_ok[OF assms(1) _ p] by blast
qed

lemma kernel_stack_ran: "image_ok k \<Longrightarrow> ran k k' \<Longrightarrow> kernel_stack k stk \<Longrightarrow> kernel_stack k' stk"
  using image_kept_facts(2)[of k k'] by (simp add: kernel_stack_def ran_def)

lemma key_ran:
  assumes "kernel_ok k l" "kernel_stack k stk" "keyboard_handler (shell_returns g stk esp ebp shell) c k = Some k'"
  shows "ran k k'"
proof -
  have i: "image_ok k" using assms(1) by (simp add: ok_defs)
  obtain k1 where k1: "keyboard_switch (shell_returns g stk esp ebp shell) c k = Some k1"
    "k' = k1\<lparr>kpic := send_eoi KEYBOARD_IRQ_NUM (kpic k1)\<rparr>"
    using assms(3) by (auto simp: keyboard_handler_def option_bind_Some_iff)
  have "ran k k1"
  proof (cases "shell_key c k")
    case True
    then obtain ka where ka: "keyboard_switch Some c k = Some ka" "shell_returns g stk esp ebp shell ka = Some k1"
      using k1(1) keyboard_switch_shell[of "shell_returns g stk esp ebp shell" c k] by (auto simp: option_bind_Some_iff)
    then have r: "ran k ka" by (simp add: keyboard_switch_ran)
    obtain v where "system_execute g stk esp ebp shell ka = Some (Ret v, k1)"
      using ka(2) by (auto simp: shell_returns_def split: option.splits control.splits)
    then have "ran ka k1"
      using failed_execute_ran ran_kernel_ok[OF assms(1) r] kernel_stack_ran[OF i r assms(2)] by blast
    then show ?thesis by (rule ran_trans[OF i r])
  next
    case False
    then show ?thesis
      using k1(1) keyboard_switch_shell[of "shell_returns g stk esp ebp shell" c k] keyboard_switch_ran by simp
  qed
  then show ?thesis using ran_trans[OF i _ ran_pic] k1(2) by blast
qed

text \<open>A step of which the specification has no step is a \<^const>\<open>Stray\<close> or a \<^const>\<open>Lost\<close>.\<close>

definition regular :: "proc_event \<Rightarrow> bool" where
  "regular e \<longleftrightarrow> e \<noteq> Stray \<and> e \<noteq> Lost"

lemma all_regular: "list_all regular es \<longleftrightarrow> Stray \<notin> set es \<and> Lost \<notin> set es"
  by (auto simp: list_all_iff regular_def)

lemma base_alone:
  assumes "kernel_ok k l" "pid k = 0"
  shows "l = [0]"
proof -
  have "chain (pcbs k) l" "running k (hd l)" using assms(1) by (simp_all add: ok_defs)
  then show ?thesis
    using assms(2) by (cases "(pcbs k, l)" rule: chain.cases) (auto simp: running_def ASSIGN_PID_ERROR_def)
qed

lemma lost_base: "kernel_step Lost k k' \<Longrightarrow> kernel_ok k l \<Longrightarrow> l = [0]"
  using base_alone by (auto elim!: kernel_step.cases split: if_splits)

lemma kernel_step_refines:
  assumes "kernel_ok k l" "kernel_step e k k'" "regular e"
  shows "\<exists>l'. kernel_ok k' l' \<and> stack_step e (map (proc_of k) l) (map (proc_of k') l')"
proof -
  have k: "image_ok k" "0 \<le> num_chars_typed k" using assms(1) by (simp_all add: ok_defs)
  have ran: "\<exists>l'. kernel_ok k' l' \<and> stack_step Run (map (proc_of k) l) (map (proc_of k') l')" if "ran k k'"
    using ran_kernel_ok[OF assms(1) that] by blast
  have same: "map (proc_of (k\<lparr>con := c\<rparr>)) l = map (proc_of k) l" for c by (simp add: proc_of_def)
  have keeps: "kb_keeps (\<lambda>_ :: kernel. None)" by (simp add: kb_keeps_def)
  from assms(2) show ?thesis
  proof cases
    case (k_store m) then show ?thesis using ran store_ran[OF k(1)] by blast
  next
    case (k_video v) then show ?thesis using ran ran_con by blast
  next
    case (k_open name r) then show ?thesis using ran system_open_ran by blast
  next
    case (k_close fd) then show ?thesis using ran system_close_ran by blast
  next
    case (k_read loc fd buf n r)
    then show ?thesis using ran system_read_ran[OF _ keeps k] assms(3) by (auto simp: regular_def split: if_splits)
  next
    case (k_write fd buf n r) then show ?thesis using ran system_write_ran by blast
  next
    case (k_getargs buf past n)
    then show ?thesis using ran system_getargs_ran[OF k(1)] assms(3) by (auto simp: regular_def split: if_splits)
  next
    case (k_vidmap vpt st) then show ?thesis using ran system_vidmap_ran[OF k(1)] by blast
  next
    case (k_key g stk esp ebp shell c) then show ?thesis using ran key_ran[OF assms(1)] by blast
  next
    case (k_shell_key c ka g stk esp ebp shell eip usp)
    have r: "ran k ka" by (rule keyboard_switch_ran[OF k_shell_key(3)])
    have p: "kernel_ok ka l" "kernel_stack ka stk"
      using ran_kernel_ok[OF assms(1) r] kernel_stack_ran[OF k(1) r k_shell_key(5)] by blast+
    have "map (proc_of ka) l = map (proc_of k) l"
      using keyboard_switch_kept[OF k_shell_key(3)] by (cases k; cases ka; simp add: kb_kept_def proc_of_def)
    then show ?thesis using execute_step[OF p k_shell_key(4)] unfolding k_shell_key(1) by metis
  next
    case k_key_ends then show ?thesis using ran ran_pic by blast
  next
    case k_tick then show ?thesis using ran interrupts_ran(2) by blast
  next
    case (k_execute_fails g stk esp ebp cmd r) then show ?thesis using ran failed_execute_ran[OF assms(1)] by blast
  next
    case (k_execute g stk esp ebp cmd eip usp) then show ?thesis using execute_step[OF assms(1)] by blast
  next
    case (k_halt g stk esp ebp shell st b s r)
    have "pid k \<noteq> 0" "e = Return b s" using k_halt(1) assms(3) by (auto simp: regular_def split: if_splits)
    then show ?thesis using halt_outcome[OF assms(1) _ k_halt(2)] by blast
  next
    case (k_exception g stk esp ebp shell h b s r)
    let ?k = "k\<lparr>con := print_exception h (con k)\<rparr>"
    have ok: "kernel_ok ?k l" using ran_kernel_ok[OF assms(1) ran_con] by blast
    have "pid k \<noteq> 0" "e = Return b s" using k_exception(1) assms(3) by (auto simp: regular_def split: if_splits)
    then show ?thesis
      using halt_outcome[OF ok] k_exception(2) same unfolding handle_exception_def by fastforce
  next
    case (k_restart g stk esp ebp shell st eip usp)
    then show ?thesis using restart_outcome[OF assms(1)] by blast
  next
    case (k_exception_restart g stk esp ebp shell h eip usp)
    let ?k = "k\<lparr>con := print_exception h (con k)\<rparr>"
    have "kernel_ok ?k l" using ran_kernel_ok[OF assms(1) ran_con] by blast
    moreover have "kernel_stack ?k stk" using kernel_stack_ran[OF k(1) ran_con k_exception_restart(3)] .
    ultimately show ?thesis
      using restart_outcome k_exception_restart(1,2) same unfolding handle_exception_def by metis
  qed
qed

section \<open>Runs\<close>

inductive kernel_run :: "proc_event list \<Rightarrow> kernel \<Rightarrow> kernel \<Rightarrow> bool" where
  krun_nil: "kernel_run [] k k"
| krun_step: "kernel_step e k k1 \<Longrightarrow> kernel_run es k1 k2 \<Longrightarrow> kernel_run (e # es) k k2"

inductive stack_run :: "proc_event list \<Rightarrow> proc list \<Rightarrow> proc list \<Rightarrow> bool" where
  srun_nil: "stack_run [] xs xs"
| srun_step: "stack_step e xs ys \<Longrightarrow> stack_run es ys zs \<Longrightarrow> stack_run (e # es) xs zs"

inductive_cases stack_run_cases: "stack_run [] xs ys" "stack_run (e # es) xs ys"

lemma kernel_run_refines:
  "kernel_run es k k' \<Longrightarrow> kernel_ok k l \<Longrightarrow> list_all regular es \<Longrightarrow> \<exists>l'. kernel_ok k' l' \<and> stack_run es (map (proc_of k) l) (map (proc_of k') l')"
proof (induction arbitrary: l rule: kernel_run.induct)
  case (krun_nil k) then show ?case by (blast intro: srun_nil)
next
  case (krun_step e k k1 es k2)
  obtain l1 where l1: "kernel_ok k1 l1" "stack_step e (map (proc_of k) l) (map (proc_of k1) l1)"
    using kernel_step_refines[OF krun_step.prems(1) krun_step.hyps(1)] krun_step.prems(2) by auto
  then show ?case using krun_step.IH[OF l1(1)] krun_step.prems(2) by (auto intro: srun_step)
qed

text \<open>The children that are open after a sequence of events, starting with \<^verbatim>\<open>n\<close>; a return beyond that is
  the return of the process itself.\<close>

fun open_calls :: "nat \<Rightarrow> proc_event list \<Rightarrow> nat option" where
  "open_calls n [] = Some n"
| "open_calls n (Call b s # es) = open_calls (n + 1) es"
| "open_calls n (Return b s # es) = (if n = 0 then None else open_calls (n - 1) es)"
| "open_calls n (e # es) = open_calls n es"

text \<open>The body of a process leaves the processes below it alone, and its own saved frame.\<close>

lemma body_keeps_below:
  assumes "stack_run es (ws @ x # xs) ys" "open_calls (length ws) es = Some m" "xs \<noteq> []"
  shows "\<exists>ws' x'. ys = ws' @ x' # xs \<and> length ws' = m \<and> p_pid x' = p_pid x \<and> p_ebp x' = p_ebp x \<and> p_esp x' = p_esp x"
  using assms(1,2)
proof (induction es arbitrary: ws x)
  case Nil
  then show ?case using stack_run_cases(1) by fastforce
next
  case (Cons e es)
  then obtain zs where zs: "stack_step e (ws @ x # xs) zs" "stack_run es zs ys" by (auto elim: stack_run_cases)
  show ?case
  proof (cases e)
    case Run
    then obtain y y' where y: "ws @ x # xs = y # tl (ws @ x # xs)" "zs = y' # tl (ws @ x # xs)"
      "p_pid y' = p_pid y" "p_ebp y' = p_ebp y" "p_esp y' = p_esp y"
      using zs(1) by (auto elim!: stack_step_cases)
    show ?thesis
    proof (cases ws)
      case Nil
      then show ?thesis using Cons.IH[of "[]" y'] Cons.prems y zs(2) Run by auto
    next
      case (Cons w ws1)
      then show ?thesis using Cons.IH[of "y' # ws1" x] Cons.prems y zs(2) Run by auto
    qed
  next
    case (Call b s)
    then obtain c where "zs = (c # ws) @ x # xs" using zs(1) by (auto elim: stack_step_cases)
    then show ?thesis using Cons.IH[of "c # ws" x] Cons.prems zs(2) Call by simp
  next
    case (Return b s)
    then obtain c ws1 where ws: "ws = c # ws1" using Cons.prems(2) by (cases ws) auto
    then have "zs = ws1 @ x # xs" using zs(1) Return by (auto elim: stack_step_cases)
    then show ?thesis using Cons.IH[of ws1 x] Cons.prems zs(2) Return ws by simp
  next
    case Restart
    then show ?thesis using zs(1) assms(3) by (auto elim!: stack_step_cases simp: append_eq_Cons_conv)
  qed (use zs(1) in \<open>auto elim: stack_step_cases\<close>)
qed

text \<open>In the body of a process the base shell is not the one that halts.\<close>

lemma body_not_lost:
  assumes "kernel_run es k k'" "kernel_ok k l" "map (proc_of k) l = ws @ x # xs" "xs \<noteq> []"
    and "open_calls (length ws) es = Some m" "Stray \<notin> set es"
  shows "Lost \<notin> set es"
  using assms
proof (induction arbitrary: l ws x m rule: kernel_run.induct)
  case (krun_step e k k1 es k2)
  have "e \<noteq> Lost"
  proof
    assume "e = Lost"
    then have "l = [0]" using lost_base krun_step.hyps(1) krun_step.prems(1) by blast
    then show False using krun_step.prems(2,3) by (cases ws) auto
  qed
  then have reg: "regular e" using krun_step.prems(5) by (auto simp: regular_def)
  obtain l1 where l1: "kernel_ok k1 l1" "stack_step e (map (proc_of k) l) (map (proc_of k1) l1)"
    using kernel_step_refines[OF krun_step.prems(1) krun_step.hyps(1) reg] by blast
  obtain m1 where m1: "open_calls (length ws) [e] = Some m1" "open_calls m1 es = Some m"
    using krun_step.prems(4) by (cases e) (auto split: if_splits)
  have "stack_run [e] (ws @ x # xs) (map (proc_of k1) l1)"
    using l1(2) krun_step.prems(2) by (auto intro: srun_step srun_nil)
  from body_keeps_below[OF this m1(1) krun_step.prems(3)] obtain ws' x' where
    "map (proc_of k1) l1 = ws' @ x' # xs" "length ws' = m1" by blast
  then have "Lost \<notin> set es"
    using krun_step.IH[OF l1(1), of ws' x' m] krun_step.prems(3,5) m1(2) by simp
  then show ?case using \<open>e \<noteq> Lost\<close> by simp
qed simp

section \<open>Instances\<close>

text \<open>On any kernel with the demonstration image, the command \<^verbatim>\<open>a\<close> (the name in the directory entry)
  starts the program.\<close>

lemma demo_image_at:
  assumes "image_kept (demo_kernel ps q) k" "4096 \<le> a" "a < 16384"
  shows "view k a = elf_image a"
  using assms demo_kernel_view[of a ps q]
  by (simp add: image_kept_def same_image_def elf_ok demo_kernel_fields in_program_page_def) (simp add: demo_fs_def)

lemma demo_execute:
  assumes "image_kept (demo_kernel ps q) k" "assign_PID k = (c, k)" "c \<noteq> - 99" "paging_sized (kpaging k)"
  shows "\<exists>k'. system_execute 1 20000 7 9 4160 k = Some (Iret 0x08048094 0x83FFFFC, k')"
proof -
  let ?d = "demo_kernel ps q"
  have fs: "kfs k = demo_fs" using assms(1) by (simp add: image_kept_def demo_kernel_fields)
  note f = image_kept_facts[OF elf_ok(1) assms(1)]
  have ok: "image_ok k" "fs_end (view k) (kfs k) \<le> 20000" "wf_inode (view k) (kfs k) 0"
    "file_content (view k) (kfs k) 0 = file_content (view ?d) demo_fs 0"
    using image_ok_kept[OF elf_ok(1) assms(1)] f(2) f(3)[of 0] f(4)[of 0] elf_ok(2,3)[of ps q] by (simp_all add: demo_kernel_fields)
  have name: "cstr (view k) 4160 [0x61]" by (simp add: cstr_Cons demo_image_at[OF assms(1)]) (simp add: elf_image_def demo_image_def)
  then have "strlen (view k) 4160 = Some 1" "view k 4160 = 0x61" using strlen_cstr[OF name] by (simp_all add: cstr_Cons)
  moreover have "(replicate 128 (0 :: byte))[0 := 0x61] = 0x61 # replicate 127 0"
    using replicate_Suc[of 127 "0 :: byte"] by simp
  ultimately have parse: "exec_parse 1 (view k) 4160 = Some (Some (0x61 # replicate 127 0, replicate 128 0))"
    by (simp add: exec_parse_def NUM_CHARS_KB_def bytes_of_Suc)
  define m where "m = put_bytes (view k) 20000 ((0x61 # replicate 127 0) @ replicate 128 0)"
  have at: "m a = elf_image a" if "4096 \<le> a" "a < 16384" for a
    using that demo_image_at[OF assms(1) that] by (simp add: m_def put_bytes_out)
  have c: "dir_count m demo_fs = 1" by (simp add: dir_count_def le32_def demo_fs_def at) (simp add: elf_image_def demo_image_def)
  have "cstr m 20000 [0x61]"
    using put_bytes_in[of 0 "(0x61 # replicate 127 0) @ replicate 128 0" "view k" 20000]
      put_bytes_in[of 1 "(0x61 # replicate 127 0) @ replicate 128 0" "view k" 20000] by (simp add: m_def cstr_Cons nth_append)
  moreover have "cstr m (direntry demo_fs 0) [0x61]"
    by (simp add: cstr_Cons direntry_def demo_fs_def at) (simp add: elf_image_def demo_image_def)
  ultimately have nm: "cname m 20000 32 = [0x61]" "cname m (direntry demo_fs 0) 32 = [0x61]" by (simp_all add: cname_cstr)
  have "le32 m (direntry demo_fs 0 + 36) = 0"
    by (simp add: le32_def direntry_def demo_fs_def at) (simp add: elf_image_def demo_image_def)
  then obtain d :: dentry where d: "read_dentry_by_index m demo_fs 0 = Some d" "inode_num d = 0"
    by (simp add: read_dentry_by_index_def c)
  have "read_dentry_by_name m (kfs k) 20000 = Some (Some d)"
    using dentry_scan_finds[of 1 m demo_fs 0 20000] d nm by (simp add: fs read_dentry_by_name_def c dir_table_def)
  note rd = this[unfolded m_def]
  have cont: "file_content (view k) (kfs k) 0 =
     [0x7f, 0x45, 0x4c, 0x46, 0, 0, 0, 0, 0, 0, 0, 0, 0, 0, 0, 0, 0, 0, 0, 0, 0, 0, 0, 0, 0x94, 0x80, 0x04, 0x08]"
    using ok(4) demo_content_elf by simp
  have "\<exists>k'. system_execute 1 20000 7 9 4160 k = Some (Iret (le32 (\<lambda>i. file_content (view k) (kfs k) 0 ! i) 24) 0x83FFFFC, k')"
    using execute_loads[OF ok(1,2) _ parse rd _ refl _ _ _ assms(2-4), of 7 9] ok(3) d(2)
      arg_cong[OF cont, of length] cont
    by auto
  then show ?thesis by (simp add: cont le32_def)
qed

abbreviation demo_boot :: kernel where "demo_boot \<equiv> demo_kernel (\<lambda>_. demo_block 0 0) 3"

lemma demo_blocks: "blocks_ok demo_boot []"
proof -
  have n: "dir_count (view demo_boot) demo_fs = 1" by (rule elf_counts(1)) simp
  have "inode_num d = 0" if "read_dentry_by_index (view demo_boot) demo_fs 0 = Some d" for d
  proof -
    have "le32 (view demo_boot) (direntry demo_fs 0 + 36) = 0"
      by (simp add: direntry_def demo_fs_def le32_def demo_kernel_view in_program_page_def) (simp add: elf_image_def demo_image_def)
    then show ?thesis using that by (auto simp: read_dentry_by_index_def n)
  qed
  then have "programs_ok demo_boot"
    using elf_ok(3) demo_content_elf[of "\<lambda>_. demo_block 0 0" 3] arg_cong[OF demo_content_elf[of "\<lambda>_. demo_block 0 0" 3], of length]
    by (auto simp: programs_ok_def demo_kernel_fields n)
  then show ?thesis
    by (simp add: blocks_ok_def elf_ok demo_kernel_fields demo_block_def MAX_OPEN_FILES_def exec_fda_def Let_def)
qed

lemma demo_stack: "image_kept demo_boot k \<Longrightarrow> kernel_stack k 20000"
  using image_kept_facts(2)[OF elf_ok(1), of "\<lambda>_. demo_block 0 0" 3 k] elf_ok(2)[of "\<lambda>_. demo_block 0 0" 3]
  by (simp add: kernel_stack_def demo_kernel_fields)

lemma demo_kept: "image_kept demo_boot demo_boot" by (simp add: image_kept_def)

lemma demo_first:
  "\<exists>k. system_execute 1 20000 7 9 4160 demo_boot = Some (Iret 0x08048094 0x83FFFFC, k) \<and> kernel_ok k [0] \<and> image_kept demo_boot k"
proof -
  have asg: "assign_PID demo_boot = (0, demo_boot)" "assign_scan (pcbs demo_boot) 0 5 = Some 0"
    by (simp_all add: assign_PID_def demo_kernel_fields demo_block_def MAX_PROCESSES_def numeral_eq_Suc)
  have b: "paging_sized (kpaging demo_boot)" "0 \<le> num_chars_typed demo_boot" "image_ok demo_boot" "programs_ok demo_boot"
    using paging_boot_ok demo_blocks by (simp_all add: demo_kernel_fields blocks_ok_def) (simp add: demo_kernel_def)
  obtain k where k: "system_execute 1 20000 7 9 4160 demo_boot = Some (Iret 0x08048094 0x83FFFFC, k)"
    using demo_execute[OF demo_kept asg(1) _ b(1)] by auto
  have "kernel_ok k [0]" by (rule first_program[OF demo_blocks b(1,2) demo_stack[OF demo_kept] k])
  moreover have "image_kept demo_boot k"
    using execute_outcome[OF b(3,4,1) demo_stack[OF demo_kept] asg(2) k] by (auto simp: entered_def)
  ultimately show ?thesis using k by blast
qed

lemma demo_call:
  assumes "kernel_ok k [0]" "image_kept demo_boot k"
  shows "\<exists>k' k2. kernel_step (Call 9 7) k k' \<and> kernel_step (Return 9 7) k' k2"
proof -
  have k: "image_ok k" "programs_ok k" "paging_sized (kpaging k)" using assms(1) by (simp_all add: ok_defs)
  have blk: "active (pcbs k (find_PCB 0)) \<noteq> 0" "active (pcbs k (find_PCB 1)) = 0"
    using blocks_of[OF assms(1)] unfolding blocks_ok_def by (auto dest: bspec[where x = 1] bspec[where x = 0])
  have asg: "assign_PID k = (1, k)" "assign_scan (pcbs k) 0 5 = Some 1"
    using blk by (simp_all add: assign_PID_def MAX_PROCESSES_def numeral_eq_Suc)
  obtain k1 where k1: "system_execute 1 20000 7 9 4160 k = Some (Iret 0x08048094 0x83FFFFC, k1)"
    using demo_execute[OF assms(2) asg(1) _ k(3)] by auto
  have call: "kernel_step (Call 9 7) k k1" by (rule k_execute[OF k1 demo_stack[OF assms(2)]])
  have e: "entered 1 7 9 k k1" using execute_outcome[OF k demo_stack[OF assms(2)] asg(2) k1] by auto
  have "pid k = 0" using assms(1) blk(2) by (simp add: kernel_ok_def running_def all_taken_active) (metis atLeastAtMost_iff blk(2) zero_le_one one_le_numeral)
  then have p: "pcb_parent (cur_pcb k1) = 0" "ebp_val (cur_pcb k1) = 9" "esp_val (cur_pcb k1) = 7" "pcb_obj k1 = find_PCB 1"
    "pid k1 = 1" "paging_sized (kpaging k1)" using e by (auto simp: entered_def)
  obtain k2 where "system_halt 0 20000 0 0 500 3 k1 = Some (Unwind 9 7 3, k2)"
    using halt_returns[of k1 0 1 0 20000 0 0 500 3] p by auto
  from k_halt[OF this] have "kernel_step (Return 9 7) k1 k2" by (simp add: p(5))
  then show ?thesis using call by blast
qed

section \<open>Properties\<close>

text \<open>C2: On an image of well-formed programs, once a first program runs, a run of system calls,
  exceptions, clock and keyboard interrupts and stores of the user programs refines the machine
  on a stack of processes: a successful execute, by a call or by an Alt-F key that shows a
  terminal for the first time, pushes a process with the caller as its parent; a halt or
  exception pops it or restarts the base shell; everything else, a failing execute with all five
  numbers taken (which leaves the pid -99) included, changes only the top of the stack; the
  chain of active control blocks, the frame mapped, the kernel stack in the task state and the
  image stay consistent. Two kinds of steps are excluded by hypothesis: Stray, a read or getargs
  into a buffer below 128 MB, which the code does not refuse and which may overwrite kernel
  data, and Lost, a halt or exception of the base shell whose restart fails. Each operation is
  one step, which exists where the operation returns without an access outside its arrays (a
  129th typed character, stored past the line buffer, has no step), with the locals of a call on
  a kernel stack between the image and 128 MB.\<close>
theorem kernel_refines_stack:
  assumes "blocks_ok k0 []" "paging_sized (kpaging k0)" "0 \<le> num_chars_typed k0" "kernel_stack k0 stk"
    and "system_execute g stk esp ebp cmd k0 = Some (Iret eip usp, k)" "kernel_run es k k'"
    and "Stray \<notin> set es" "Lost \<notin> set es"
  shows "\<exists>l. kernel_ok k' l \<and> stack_run es [proc_of k 0] (map (proc_of k') l)"
  using kernel_run_refines[OF assms(6) first_program[OF assms(1-5)]] assms(7,8) by (simp add: all_regular)

theorem kernel_refines_stack_witness:
  "\<exists>k k' l. system_execute 1 20000 7 9 4160 demo_boot = Some (Iret 0x08048094 0x83FFFFC, k) \<and>
     kernel_run [Run, Call 9 7, Return 9 7] k k' \<and> stack_run [Run, Call 9 7, Return 9 7] [proc_of k 0] (map (proc_of k') l)"
proof -
  obtain k where k: "system_execute 1 20000 7 9 4160 demo_boot = Some (Iret 0x08048094 0x83FFFFC, k)" "kernel_ok k [0]"
    "image_kept demo_boot k" using demo_first by blast
  let ?k1 = "k\<lparr>con := (con k)\<lparr>vid := (\<lambda>_. 0x41)\<rparr>\<rparr>"
  have r: "ran k ?k1" by (rule ran_con)
  have "kernel_ok ?k1 [0]" "image_kept demo_boot ?k1"
    using ran_kernel_ok[OF k(2) r] image_kept_trans[OF elf_ok(1) k(3)] r by (auto simp: ran_def)
  then obtain k2 k3 where "kernel_step (Call 9 7) ?k1 k2" "kernel_step (Return 9 7) k2 k3" using demo_call by blast
  then have run: "kernel_run [Run, Call 9 7, Return 9 7] k k3" by (blast intro: krun_step[OF k_video[where v = "\<lambda>_. 0x41"]] krun_step krun_nil)
  have b: "paging_sized (kpaging demo_boot)" "0 \<le> num_chars_typed demo_boot"
    using paging_boot_ok by (simp_all add: demo_kernel_fields) (simp add: demo_kernel_def)
  show ?thesis using kernel_refines_stack[OF demo_blocks b demo_stack[OF demo_kept] k(1) run] k(1) run by auto
qed

text \<open>C6: Between the execute (by a call or by an Alt-F key) that starts a program and the return that
  ends it, whatever steps are taken, programs started by the program itself and failing executes
  included, but none of them a read or getargs into a buffer below 128 MB, which the code does
  not refuse: the return goes to the stack frame the caller saved, and all callers find their
  memory, descriptors and control blocks as they left them. The steps are those of the model of
  the kernel, one operation at a time, on an image of well-formed programs and from a state in
  which no line longer than the buffer is being typed.\<close>
theorem call_returns:
  assumes "kernel_ok k l" "kernel_step (Call b s) k k1" "kernel_run es k1 k2" "open_calls 0 es = Some 0" "Stray \<notin> set es"
    and "kernel_step (Return b' s') k2 k3"
  shows "b' = b \<and> s' = s \<and> kernel_ok k3 l \<and> (\<forall>p \<in> set l. proc_of k3 p = proc_of k p)"
proof -
  have reg: "regular (Call b s)" "regular (Return b' s')" by (simp_all add: regular_def)
  obtain l1 where l1: "kernel_ok k1 l1" "stack_step (Call b s) (map (proc_of k) l) (map (proc_of k1) l1)"
    using kernel_step_refines[OF assms(1,2) reg(1)] by blast
  obtain c where c: "map (proc_of k1) l1 = c # map (proc_of k) l" "p_ebp c = b" "p_esp c = s" "l \<noteq> []"
    using l1(2) by (cases rule: stack_step.cases) auto
  have "Lost \<notin> set es"
    using body_not_lost[OF assms(3) l1(1), of "[]" c "map (proc_of k) l" 0] c assms(4,5) by simp
  then obtain l2 where l2: "kernel_ok k2 l2" "stack_run es (map (proc_of k1) l1) (map (proc_of k2) l2)"
    using kernel_run_refines[OF assms(3) l1(1)] assms(5) by (auto simp: all_regular)
  then obtain c' where c': "map (proc_of k2) l2 = c' # map (proc_of k) l" "p_ebp c' = b" "p_esp c' = s"
    using body_keeps_below[of es "[]" c "map (proc_of k) l" "map (proc_of k2) l2" 0] assms(4) c by auto
  obtain l3 where l3: "kernel_ok k3 l3" "stack_step (Return b' s') (map (proc_of k2) l2) (map (proc_of k3) l3)"
    using kernel_step_refines[OF l2(1) assms(6) reg(2)] by blast
  then have r: "b' = b" "s' = s" "map (proc_of k3) l3 = map (proc_of k) l" using c' by (auto elim!: stack_step_cases)
  have "map p_pid (map (proc_of k3) l3) = map p_pid (map (proc_of k) l)" using r(3) by simp
  moreover have "map p_pid (map (proc_of q) xs) = xs" for q xs by (induction xs) (simp_all add: proc_of_def Let_def)
  ultimately have "l3 = l" by simp
  then show ?thesis using r l3(1) by auto
qed

theorem call_returns_witness:
  "\<exists>k k1 k3. kernel_step (Call 9 7) k k1 \<and> kernel_step (Return 9 7) k1 k3 \<and> proc_of k3 0 = proc_of k 0 \<and> kernel_ok k3 [0]"
proof -
  obtain k where k: "kernel_ok k [0]" "image_kept demo_boot k" using demo_first by blast
  then obtain k1 k3 where s: "kernel_step (Call 9 7) k k1" "kernel_step (Return 9 7) k1 k3" using demo_call by blast
  show ?thesis using call_returns[OF k(1) s(1) krun_nil _ _ s(2)] s by auto
qed

end
