(* ===== verification/Boot.thy ===== *)
theory Boot
  imports ProcessStack
begin

text \<open>The entry of the kernel, \<^verbatim>\<open>kernel.c\<close>: what it prints of the loader's information, the descriptors
  of the processor, and the initialisation of all components in order.  It ends in the halt loop with
  the state that the process stack starts from.\<close>

section \<open>State\<close>

text \<open>\<^verbatim>\<open>seg_desc_t\<close> of \<^verbatim>\<open>x86_desc.h\<close>, and the macros that set its base and limit.\<close>

record seg_desc =
  seg_lim_15_00 :: u16
  seg_base_15_00 :: u16
  seg_base_23_16 :: byte
  seg_type :: "4 word"
  seg_sys :: bool
  seg_dpl :: "2 word"
  seg_present :: bool
  seg_lim_19_16 :: "4 word"
  seg_avail :: bool
  seg_reserved :: bool
  seg_opsize :: bool
  seg_granularity :: bool
  seg_base_31_24 :: byte

definition SET_SEG_PARAMS :: "u32 \<Rightarrow> u32 \<Rightarrow> seg_desc \<Rightarrow> seg_desc" where
  "SET_SEG_PARAMS addr lim d =
    d\<lparr>seg_base_31_24 := ucast (drop_bit 24 (addr AND 0xFF000000)),
      seg_base_23_16 := ucast (drop_bit 16 (addr AND 0x00FF0000)),
      seg_base_15_00 := ucast (addr AND 0x0000FFFF),
      seg_lim_19_16 := ucast (drop_bit 16 (lim AND 0x000F0000)),
      seg_lim_15_00 := ucast (lim AND 0x0000FFFF)\<rparr>"

text \<open>The kernel with the processor's tables and the address of the file system image.\<close>

record boot =
  kern :: kernel
  idt :: "idt_desc list"
  ldt_desc_ptr :: seg_desc
  tss_desc_ptr :: seg_desc
  ldt_segment_selector :: u16
  ldt_register :: u16
  task_register :: u16
  filesystem_img_addr :: u32

text \<open>Addresses the linker chooses, sizes of \<^verbatim>\<open>x86_desc.S\<close>, and the uninitialised buffer of \<^verbatim>\<open>printf\<close>.\<close>

record layout =
  lit :: "string \<Rightarrow> nat"
  junk :: mem
  stub_addr :: "stub \<Rightarrow> u32"
  table_at :: u32
  ldt_at :: u32
  ldt_size :: u32
  tss_at :: u32
  tss_size :: u32

definition MULTIBOOT_BOOTLOADER_MAGIC :: u32 where "MULTIBOOT_BOOTLOADER_MAGIC = 0x2BADB002"
definition KERNEL_TSS :: u16 where "KERNEL_TSS = 0x0030"
definition KERNEL_LDT :: u16 where "KERNEL_LDT = 0x0038"
definition TSS_SIZE :: u32 where "TSS_SIZE = 104"

definition CHECK_FLAG :: "u32 \<Rightarrow> nat \<Rightarrow> bool" where
  "CHECK_FLAG fl b \<longleftrightarrow> fl AND push_bit b 1 \<noteq> 0"

definition bootmem :: "boot \<Rightarrow> mem" where "bootmem s = kmem (kern s)"

definition upd_kern :: "(kernel \<Rightarrow> kernel) \<Rightarrow> boot \<Rightarrow> boot" where
  "upd_kern f s = s\<lparr>kern := f (kern s)\<rparr>"

definition bprint :: "layout \<Rightarrow> string \<Rightarrow> u32 list \<Rightarrow> boot \<Rightarrow> boot option" where
  "bprint L t args s = do {
     (n, c) \<leftarrow> printf (bootmem s) (junk L) (lit L t) args (con (kern s));
     Some (upd_kern (con_update (\<lambda>_. c)) s) }"

section \<open>The loader's information\<close>

text \<open>\<^verbatim>\<open>multiboot_info_t\<close>, \<^verbatim>\<open>module_t\<close> and \<^verbatim>\<open>memory_map_t\<close> by the offsets of their fields.\<close>

fun boot_bytes :: "layout \<Rightarrow> u32 \<Rightarrow> nat \<Rightarrow> nat \<Rightarrow> boot \<Rightarrow> boot option" where
  "boot_bytes L start i 0 s = Some s"
| "boot_bytes L start i (Suc n) s = do {
     s1 \<leftarrow> bprint L ''0x%x '' [scast (bootmem s (unat (start + of_nat i)))] s;
     boot_bytes L start (i + 1) n s1 }"

fun boot_modules :: "layout \<Rightarrow> nat \<Rightarrow> nat \<Rightarrow> u32 \<Rightarrow> boot \<Rightarrow> boot option" where
  "boot_modules L mod_count 0 md s = Some s"
| "boot_modules L mod_count (Suc n) md s = do {
     let mod_start = le32 (bootmem s) (unat md);
     let mod_end = le32 (bootmem s) (unat md + 4);
     s1 \<leftarrow> bprint L (nl ''Module %d loaded at address: 0x%#x'') [of_nat mod_count, mod_start] s;
     s2 \<leftarrow> bprint L (nl ''Module %d ends at address: 0x%#x'') [of_nat mod_count, mod_end] s1;
     s3 \<leftarrow> bprint L (nl ''First few bytes of module:'') [] s2;
     s4 \<leftarrow> boot_bytes L mod_start 0 16 s3;
     s5 \<leftarrow> bprint L (nl '''') [] (s4\<lparr>filesystem_img_addr := mod_start\<rparr>);
     boot_modules L (mod_count + 1) n (md + 16) s5 }"

partial_function (option) boot_mmap :: "layout \<Rightarrow> u32 \<Rightarrow> u32 \<Rightarrow> boot \<Rightarrow> boot option" where
  "boot_mmap L mmap end_at s =
    (if mmap < end_at then do {
       let f = (\<lambda>off. le32 (bootmem s) (unat mmap + off));
       s1 \<leftarrow> bprint L (nl (''    size = 0x%x, base_addr = 0x%#x%#x'' @ CHR 0x0A # ''    type = 0x%x,  length    = 0x%#x%#x''))
               [f 0, f 8, f 4, f 20, f 16, f 12] s;
       boot_mmap L (mmap + f 0 + 4) end_at s1 }
     else Some s)"

text \<open>The first half of \<^verbatim>\<open>entry\<close>; the flag is False after one of the early returns.\<close>

definition entry_info :: "layout \<Rightarrow> u32 \<Rightarrow> u32 \<Rightarrow> boot \<Rightarrow> (bool \<times> boot) option" where
  "entry_info L magic mbi s0 = do {
     let s1 = upd_kern (con_update clear) s0;
     if magic \<noteq> MULTIBOOT_BOOTLOADER_MAGIC then do {
       s2 \<leftarrow> bprint L (nl ''Invalid magic number: 0x%#x'') [magic] s1;
       Some (False, s2) }
     else do {
       let f = (\<lambda>off. le32 (bootmem s1) (unat mbi + off));
       let fl = f 0;
       s2 \<leftarrow> bprint L (nl ''flags = 0x%#x'') [fl] s1;
       s3 \<leftarrow> (if CHECK_FLAG fl 0 then bprint L (nl ''mem_lower = %uKB, mem_upper = %uKB'') [f 4, f 8] s2 else Some s2);
       s4 \<leftarrow> (if CHECK_FLAG fl 1 then bprint L (nl ''boot_device = 0x%#x'') [f 12] s3 else Some s3);
       s5 \<leftarrow> (if CHECK_FLAG fl 2 then bprint L (nl ''cmdline = %s'') [f 16] s4 else Some s4);
       s6 \<leftarrow> (if CHECK_FLAG fl 3 then boot_modules L 0 (unat (f 20)) (f 24) s5 else Some s5);
       if CHECK_FLAG fl 4 \<and> CHECK_FLAG fl 5 then do {
         s7 \<leftarrow> bprint L (nl ''Both bits 4 and 5 are set.'') [] s6;
         Some (False, s7) }
       else do {
         s7 \<leftarrow> (if CHECK_FLAG fl 5 then
                  bprint L (nl ''elf_sec: num = %u, size = 0x%#x, addr = 0x%#x, shndx = 0x%#x'') [f 28, f 32, f 36, f 40] s6
                else Some s6);
         s8 \<leftarrow> (if CHECK_FLAG fl 6 then do {
                  s \<leftarrow> bprint L (nl ''mmap_addr = 0x%#x, mmap_length = 0x%x'') [f 48, f 44] s7;
                  boot_mmap L (f 48) (f 48 + f 44) s }
                else Some s7);
         Some (True, s8) } } }"

section \<open>The rest of the entry\<close>

text \<open>The local descriptors are filled completely before they are stored; \<^verbatim>\<open>lldt\<close> and \<^verbatim>\<open>ltr\<close> load the
  two registers.\<close>

definition the_ldt_desc :: "layout \<Rightarrow> seg_desc" where
  "the_ldt_desc L = SET_SEG_PARAMS (ldt_at L) (ldt_size L)
    \<lparr>seg_lim_15_00 = 0, seg_base_15_00 = 0, seg_base_23_16 = 0, seg_type = 0x2, seg_sys = False, seg_dpl = 0,
     seg_present = True, seg_lim_19_16 = 0, seg_avail = False, seg_reserved = False, seg_opsize = True,
     seg_granularity = False, seg_base_31_24 = 0\<rparr>"

definition the_tss_desc :: "layout \<Rightarrow> seg_desc" where
  "the_tss_desc L = SET_SEG_PARAMS (tss_at L) (tss_size L)
    \<lparr>seg_lim_15_00 = ucast (TSS_SIZE AND 0x0000FFFF), seg_base_15_00 = 0, seg_base_23_16 = 0, seg_type = 0x9,
     seg_sys = False, seg_dpl = 0, seg_present = True, seg_lim_19_16 = ucast (TSS_SIZE AND 0x000F0000),
     seg_avail = False, seg_reserved = False, seg_opsize = False, seg_granularity = False, seg_base_31_24 = 0\<rparr>"

definition entry_descriptors :: "layout \<Rightarrow> boot \<Rightarrow> boot" where
  "entry_descriptors L s0 =
    (let s1 = s0\<lparr>ldt_desc_ptr := the_ldt_desc L\<rparr>;
         s2 = s1\<lparr>ldt_register := KERNEL_LDT\<rparr>;
         s3 = s2\<lparr>tss_desc_ptr := the_tss_desc L\<rparr>;
         s4 = s3\<lparr>ldt_segment_selector := KERNEL_LDT\<rparr>;
         s5 = upd_kern (\<lambda>k. k\<lparr>tss_ss0 := KERNEL_DS, tss_esp0_reg := 0x800000\<rparr>) s4
     in s5\<lparr>task_register := KERNEL_TSS\<rparr>)"

text \<open>The test suite, with every test commented out.\<close>

definition launch_tests :: "boot \<Rightarrow> boot" where "launch_tests s = s"

text \<open>From \<^verbatim>\<open>init_IDT\<close> to the halt loop.  \<^verbatim>\<open>file_operations_initialize\<close> fills the constant jump tables.\<close>

definition entry_devices :: "layout \<Rightarrow> boot \<Rightarrow> boot option" where
  "entry_devices L s0 = do {
     let s1 = s0\<lparr>idt := init_IDT (stub_addr L) (idt s0)\<rparr>;
     let s2 = upd_kern (\<lambda>k. k\<lparr>kpic := i8259_init (kpic k)\<rparr>) s1;
     let s3 = upd_kern (\<lambda>k. from_rtc (rtc_init (cmos_byte k) (k_rtc k)) k) s2;
     let s4 = upd_kern keyboard_initialize s3;
     let s5 = upd_kern (\<lambda>k. k\<lparr>kfs := filesystem_initialize (kmem k) (unat (filesystem_img_addr s4))\<rparr>) s4;
     let s6 = upd_kern (\<lambda>k. k\<lparr>kpaging := paging_init (table_at L) (kpaging k)\<rparr>) s5;
     let s7 = upd_kern (con_update (\<lambda>c. set_cursor 0 0 (clear c))) s6;
     let s8 = upd_kern (\<lambda>k. k\<lparr>kpaging := terminal_videopage_init (kpaging k)\<rparr>) s7;
     s9 \<leftarrow> bprint L (nl ''Enabling Interrupts'') [] s8;
     Some (launch_tests (upd_kern (\<lambda>k. k\<lparr>int_flag := True\<rparr>) s9)) }"

text \<open>The result says whether the kernel spins in the halt loop or has returned to the boot code.\<close>

definition entry :: "layout \<Rightarrow> u32 \<Rightarrow> u32 \<Rightarrow> boot \<Rightarrow> (bool \<times> boot) option" where
  "entry L magic addr s0 = do {
     (go, s1) \<leftarrow> entry_info L magic addr s0;
     if \<not> go then Some (False, s1)
     else do {
       s2 \<leftarrow> entry_devices L (entry_descriptors L s1);
       Some (True, s2) } }"

section \<open>printf returns\<close>

text \<open>The format's conversions find their arguments, and those of \<^verbatim>\<open>%s\<close> are strings.\<close>

fun fits :: "mem \<Rightarrow> bool \<Rightarrow> byte list \<Rightarrow> u32 list \<Rightarrow> bool" where
  "fits m conv [] as = (\<not> conv)"
| "fits m False (x # xs) as = fits m (x = 0x25) xs as"
| "fits m True (x # xs) as =
    (if x = 0x23 then fits m True xs as
     else if x = 0x78 \<or> x = 0x75 \<or> x = 0x64 \<or> x = 0x63 then as \<noteq> [] \<and> fits m False xs (tl as)
     else if x = 0x73 then as \<noteq> [] \<and> (\<exists>ys. cstr m (unat (hd as)) ys) \<and> fits m False xs (tl as)
     else fits m False xs as)"

lemma itoa_puts: "unat r \<le> 36 \<Longrightarrow> 2 \<le> unat r \<Longrightarrow> itoa g v b r = Some (put_bytes g b (itoa_text v r @ [0])) \<and>
    puts (put_bytes g b (itoa_text v r @ [0])) b c = Some (length (itoa_text v r), fold putc (itoa_text v r) c)"
  using itoa_text_nonzero[of r v] by (auto intro!: itoa_put puts_cstr cstr_put)

lemma printf_x_returns: "\<exists>c1. printf_x g alt v c = Some c1"
proof (cases alt)
  case True
  then show ?thesis using printf_x_alternate[of g v c] by simp
next
  case False
  then show ?thesis using itoa_puts[of 16 g v 0 c] by (auto simp: printf_x_def)
qed

lemma printf_u_returns: "\<exists>c1. printf_u g v c = Some c1"
  using itoa_puts[of 10 g v 0 c] by (auto simp: printf_u_def)

lemma printf_d_returns: "\<exists>c1. printf_d g v c = Some c1"
proof (cases "sint v < 0")
  case True
  let ?g = "g(0 := 0x2D)" and ?t = "itoa_text (- v) 10"
  have i: "itoa ?g (- v) 1 10 = Some (put_bytes ?g 1 (?t @ [0]))" using itoa_puts[of 10 ?g "- v" 1 c] by simp
  have "put_bytes ?g 1 (?t @ [0]) = put_bytes g 0 ((0x2D # ?t) @ [0])"
    by (rule ext) (simp add: put_bytes_def nth_Cons' nth_append)
  moreover have "cstr (put_bytes g 0 ((0x2D # ?t) @ [0])) 0 (0x2D # ?t)"
    using itoa_text_nonzero[of 10 "- v"] by (intro cstr_put) simp
  ultimately show ?thesis using puts_cstr True i by (fastforce simp: printf_d_def)
next
  case False
  then show ?thesis using itoa_puts[of 10 g v 0 c] by (auto simp: printf_d_def)
qed

lemmas conversions_return = printf_x_returns printf_u_returns printf_d_returns

lemma printf_loop_returns:
  assumes "fits m conv xs as" "cstr m buf xs"
  shows "(\<not> conv \<longrightarrow> (\<exists>n c1. printf_loop m g buf as c = Some (n, c1))) \<and>
    (conv \<longrightarrow> (\<exists>n c1. do { (b, a, c') \<leftarrow> printf_conv m g alt buf as c; printf_loop m g (b + 1) a c' } = Some (n, c1)))"
  using assms
proof (induction xs arbitrary: conv as buf c alt)
  case Nil
  then show ?case by (subst printf_loop.simps) simp
next
  case (Cons x xs)
  have x: "m buf = x" "x \<noteq> 0" "cstr m (Suc buf) xs" using Cons.prems(2) by (simp_all add: cstr_Cons)
  have next_loop: "\<exists>n c1. printf_loop m g (Suc buf) as' c' = Some (n, c1)" if "fits m False xs as'" for as' c'
    using Cons.IH[OF that x(3)] by auto
  have next_conv: "\<exists>n c1. do { (b, a, c') \<leftarrow> printf_conv m g alt' (Suc buf) as' c'; printf_loop m g (b + 1) a c' } = Some (n, c1)"
    if "fits m True xs as'" for as' c' alt'
    using Cons.IH[OF that x(3)] by auto
  show ?case
  proof (cases conv)
    case False
    then show ?thesis
      using Cons.prems(1) next_loop[of as "putc x c"] next_conv[of as False c] x
      by (subst printf_loop.simps) (auto split: prod.splits)
  next
    case True
    have "\<exists>n c1. do { (b, a, c') \<leftarrow> printf_conv m g alt buf as c; printf_loop m g (b + 1) a c' } = Some (n, c1)"
    proof (cases "x = 0x23")
      case hash: True
      then show ?thesis
        using Cons.prems(1) True x next_conv[of as True c] by (subst printf_conv.simps) simp
    next
      case hash: False
      have args: "as = hd as # tl as" if "as \<noteq> []" using that by simp
      have "\<forall>v. \<exists>c1. printf_x g alt v c = Some c1" using printf_x_returns by blast
      then obtain cx where cx: "\<And>v. printf_x g alt v c = Some (cx v)" unfolding choice_iff by blast
      have "\<forall>v. \<exists>c1. printf_u g v c = Some c1" using printf_u_returns by blast
      then obtain cu where cu: "\<And>v. printf_u g v c = Some (cu v)" unfolding choice_iff by blast
      have "\<forall>v. \<exists>c1. printf_d g v c = Some c1" using printf_d_returns by blast
      then obtain cd where cd: "\<And>v. printf_d g v c = Some (cd v)" unfolding choice_iff by blast
      show ?thesis
        using Cons.prems(1) True hash x next_loop puts_cstr
        by (subst printf_conv.simps) (cases as; force simp: cx cu cd)
    qed
    then show ?thesis using True by simp
  qed
qed

lemma printf_returns:
  assumes "cstr m fmt xs" "fits m False xs as"
  shows "\<exists>n c1. printf m g fmt as c = Some (n, c1)"
  using printf_loop_returns[OF assms(2,1), of g c False] by (auto simp: printf_def)

section \<open>The loader's information is printed\<close>

definition formats :: "string list" where
  "formats = [''0x%x '', nl ''Module %d loaded at address: 0x%#x'', nl ''Module %d ends at address: 0x%#x'',
     nl ''First few bytes of module:'', nl '''', nl (''    size = 0x%x, base_addr = 0x%#x%#x'' @ CHR 0x0A # ''    type = 0x%x,  length    = 0x%#x%#x''),
     nl ''Invalid magic number: 0x%#x'', nl ''flags = 0x%#x'', nl ''mem_lower = %uKB, mem_upper = %uKB'',
     nl ''boot_device = 0x%#x'', nl ''cmdline = %s'', nl ''Both bits 4 and 5 are set.'',
     nl ''elf_sec: num = %u, size = 0x%#x, addr = 0x%#x, shndx = 0x%#x'', nl ''mmap_addr = 0x%#x, mmap_length = 0x%x'',
     nl ''Enabling Interrupts'']"

definition formats_at :: "layout \<Rightarrow> mem \<Rightarrow> bool" where
  "formats_at L m \<longleftrightarrow> (\<forall>t \<in> set formats. cstr m (lit L t) (map of_char t))"

text \<open>A state that differs in the console only.\<close>

definition recon :: "console \<Rightarrow> boot \<Rightarrow> boot" where "recon c s = upd_kern (con_update (\<lambda>_. c)) s"

lemma recon_simps [simp]:
  "bootmem (recon c s) = bootmem s" "recon c (recon c' s) = recon c s" "kern (recon c s) = con_update (\<lambda>_. c) (kern s)"
  "filesystem_img_addr (recon c s) = filesystem_img_addr s" "bootmem (filesystem_img_addr_update f s) = bootmem s"
  "filesystem_img_addr_update f (recon c s) = recon c (filesystem_img_addr_update f s)" "idt (recon c s) = idt s"
  by (simp_all add: recon_def upd_kern_def bootmem_def)

lemma recon_con: "recon (con (kern s)) s = s"
  by (cases s, cases "kern s") (simp add: recon_def upd_kern_def)

lemma bprint_returns:
  assumes "formats_at L (bootmem s)" "t \<in> set formats" "fits (bootmem s) False (map of_char t) as"
  shows "\<exists>c. bprint L t as s = Some (recon c s)"
proof -
  have "cstr (bootmem s) (lit L t) (map of_char t)" using assms(1,2) by (simp add: formats_at_def)
  then obtain n c where "printf (bootmem s) (junk L) (lit L t) as (con (kern s)) = Some (n, c)"
    using printf_returns[OF _ assms(3)] by blast
  then show ?thesis by (auto simp: bprint_def recon_def)
qed

text \<open>Every format of the entry fits its number of arguments.\<close>

lemma format_fits:
  "fits m False (map of_char ''0x%x '') [v]"
  "fits m False (map of_char (nl ''Module %d loaded at address: 0x%#x'')) [v, w]"
  "fits m False (map of_char (nl ''Module %d ends at address: 0x%#x'')) [v, w]"
  "fits m False (map of_char (nl ''First few bytes of module:'')) []"
  "fits m False (map of_char (nl '''')) []"
  "fits m False (map of_char (nl (''    size = 0x%x, base_addr = 0x%#x%#x'' @ CHR 0x0A # ''    type = 0x%x,  length    = 0x%#x%#x''))) [a1, a2, a3, a4, a5, a6]"
  "fits m False (map of_char (nl ''flags = 0x%#x'')) [v]"
  "fits m False (map of_char (nl ''mem_lower = %uKB, mem_upper = %uKB'')) [v, w]"
  "fits m False (map of_char (nl ''boot_device = 0x%#x'')) [v]"
  "cstr m (unat v) ys \<Longrightarrow> fits m False (map of_char (nl ''cmdline = %s'')) [v]"
  "fits m False (map of_char (nl ''elf_sec: num = %u, size = 0x%#x, addr = 0x%#x, shndx = 0x%#x'')) [a1, a2, a3, a4]"
  "fits m False (map of_char (nl ''mmap_addr = 0x%#x, mmap_length = 0x%x'')) [v, w]"
  "fits m False (map of_char (nl ''Enabling Interrupts'')) []"
  by (simp_all) auto

lemma boot_bytes_returns:
  assumes "formats_at L (bootmem s)"
  shows "\<exists>c. boot_bytes L start i n s = Some (recon c s)"
  using assms
proof (induction n arbitrary: i s)
  case 0
  then show ?case using recon_con by (intro exI[of _ "con (kern s)"]) simp
next
  case (Suc n)
  obtain c where "bprint L ''0x%x '' [scast (bootmem s (unat (start + of_nat i)))] s = Some (recon c s)"
    using bprint_returns[OF Suc.prems _ format_fits(1)] by (auto simp: formats_def)
  then show ?case using Suc.IH[of "recon c s" "i + 1"] Suc.prems by simp
qed

text \<open>The address of the last of \<^verbatim>\<open>n\<close> modules.\<close>

fun last_module :: "mem \<Rightarrow> nat \<Rightarrow> u32 \<Rightarrow> u32 \<Rightarrow> u32" where
  "last_module m 0 md start = start"
| "last_module m (Suc n) md start = last_module m n (md + 16) (le32 m (unat md))"

lemma boot_modules_returns:
  assumes "formats_at L (bootmem s)"
  shows "\<exists>c. boot_modules L k n md s =
    Some (recon c (s\<lparr>filesystem_img_addr := last_module (bootmem s) n md (filesystem_img_addr s)\<rparr>))"
  using assms
proof (induction n arbitrary: k md s)
  case 0
  then show ?case using recon_con by (intro exI[of _ "con (kern s)"]) simp
next
  case (Suc n)
  let ?st = "le32 (bootmem s) (unat md)" and ?en = "le32 (bootmem s) (unat md + 4)"
  note p = bprint_returns[OF Suc.prems]
  have at: "formats_at L (bootmem (recon c s))" for c using Suc.prems by simp
  obtain c1 where c1: "bprint L (nl ''Module %d loaded at address: 0x%#x'') [of_nat k, ?st] s = Some (recon c1 s)"
    using p[OF _ format_fits(2)] by (auto simp: formats_def)
  obtain c2 where c2: "bprint L (nl ''Module %d ends at address: 0x%#x'') [of_nat k, ?en] (recon c1 s) = Some (recon c2 s)"
    using bprint_returns[OF at _ format_fits(3)] by (fastforce simp: formats_def)
  obtain c3 where c3: "bprint L (nl ''First few bytes of module:'') [] (recon c2 s) = Some (recon c3 s)"
    using bprint_returns[OF at _ format_fits(4)] by (fastforce simp: formats_def)
  obtain c4 where c4: "boot_bytes L ?st 0 16 (recon c3 s) = Some (recon c4 s)"
    using boot_bytes_returns[OF at] by fastforce
  let ?s = "s\<lparr>filesystem_img_addr := ?st\<rparr>"
  obtain c5 where c5: "bprint L (nl '''') [] (recon c4 ?s) = Some (recon c5 ?s)"
    using bprint_returns[OF _ _ format_fits(5), of L "recon c4 ?s"] Suc.prems by (auto simp: formats_def)
  obtain c where "boot_modules L (k + 1) n (md + 16) (recon c5 ?s) =
      Some (recon c (?s\<lparr>filesystem_img_addr := last_module (bootmem s) n (md + 16) ?st\<rparr>))"
    using Suc.IH[of "recon c5 ?s" "k + 1" "md + 16"] Suc.prems by auto
  then show ?case using c1 c2 c3 c4 c5 by (auto simp: Let_def)
qed

text \<open>The memory map ends.\<close>

inductive mmap_ends :: "mem \<Rightarrow> u32 \<Rightarrow> u32 \<Rightarrow> bool" where
  mmap_done: "\<not> a < e \<Longrightarrow> mmap_ends m a e"
| mmap_more: "a < e \<Longrightarrow> mmap_ends m (a + le32 m (unat a) + 4) e \<Longrightarrow> mmap_ends m a e"

lemma boot_mmap_returns:
  assumes "mmap_ends m a e" "formats_at L m" "bootmem s = m"
  shows "\<exists>c. boot_mmap L a e s = Some (recon c s)"
  using assms
proof (induction arbitrary: s rule: mmap_ends.induct)
  case (mmap_done a e m)
  then show ?case using recon_con by (subst boot_mmap.simps) (metis (mono_tags))
next
  case (mmap_more a e m)
  let ?f = "\<lambda>off. le32 (bootmem s) (unat a + off)"
  obtain c1 where c1: "bprint L (nl (''    size = 0x%x, base_addr = 0x%#x%#x'' @ CHR 0x0A # ''    type = 0x%x,  length    = 0x%#x%#x''))
      [?f 0, ?f 8, ?f 4, ?f 20, ?f 16, ?f 12] s = Some (recon c1 s)"
    using bprint_returns[OF _ _ format_fits(6), of L s] mmap_more.prems by (simp add: formats_def) blast
  obtain c where "boot_mmap L (a + ?f 0 + 4) e (recon c1 s) = Some (recon c s)"
    using mmap_more.IH[of "recon c1 s"] mmap_more.prems by auto
  then show ?case using c1 mmap_more.hyps(1) by (subst boot_mmap.simps) (auto simp: Let_def)
qed

text \<open>What the entry needs of the loader, and the image it selects.\<close>

definition info_ok :: "mem \<Rightarrow> u32 \<Rightarrow> bool" where
  "info_ok m mbi \<longleftrightarrow> (let f = (\<lambda>off. le32 m (unat mbi + off)); fl = f 0 in
     (CHECK_FLAG fl 2 \<longrightarrow> (\<exists>ys. cstr m (unat (f 16)) ys)) \<and>
     (CHECK_FLAG fl 6 \<longrightarrow> mmap_ends m (f 48) (f 48 + f 44)) \<and>
     \<not> (CHECK_FLAG fl 4 \<and> CHECK_FLAG fl 5))"

definition image_of :: "mem \<Rightarrow> u32 \<Rightarrow> u32 \<Rightarrow> u32" where
  "image_of m mbi old = (let f = (\<lambda>off. le32 m (unat mbi + off)) in
     if CHECK_FLAG (f 0) 3 then last_module m (unat (f 20)) (f 24) old else old)"

lemma opt_print:
  assumes "formats_at L (bootmem s)" "t \<in> set formats" "b \<Longrightarrow> fits (bootmem s) False (map of_char t) as"
  shows "\<exists>c'. (if b then bprint L t as (recon c s) else Some (recon c s)) = Some (recon c' s)"
  using bprint_returns[of L "recon c s" t as] assms by (cases b) auto

lemma in_formats:
  "nl ''flags = 0x%#x'' \<in> set formats" "nl ''mem_lower = %uKB, mem_upper = %uKB'' \<in> set formats"
  "nl ''boot_device = 0x%#x'' \<in> set formats" "nl ''cmdline = %s'' \<in> set formats"
  "nl ''elf_sec: num = %u, size = 0x%#x, addr = 0x%#x, shndx = 0x%#x'' \<in> set formats"
  "nl ''mmap_addr = 0x%#x, mmap_length = 0x%x'' \<in> set formats" "nl ''Enabling Interrupts'' \<in> set formats"
  "nl ''Invalid magic number: 0x%#x'' \<in> set formats"
  by (simp_all add: formats_def)

lemma entry_info_goes:
  assumes "formats_at L (bootmem s0)" "info_ok (bootmem s0) mbi"
  shows "\<exists>c. entry_info L MULTIBOOT_BOOTLOADER_MAGIC mbi s0 =
    Some (True, recon c (s0\<lparr>filesystem_img_addr := image_of (bootmem s0) mbi (filesystem_img_addr s0)\<rparr>))"
proof -
  define m where "m = bootmem s0"
  define f where "f = (\<lambda>off. le32 m (unat mbi + off))"
  define fl where "fl = f 0"
  define s1 where "s1 = s0\<lparr>filesystem_img_addr := image_of m mbi (filesystem_img_addr s0)\<rparr>"
  have fm: "formats_at L (bootmem s0)" "formats_at L (bootmem s1)" using assms(1) by (simp_all add: s1_def)
  have ok: "CHECK_FLAG fl 2 \<longrightarrow> (\<exists>ys. cstr m (unat (f 16)) ys)" "CHECK_FLAG fl 6 \<longrightarrow> mmap_ends m (f 48) (f 48 + f 44)"
    "\<not> (CHECK_FLAG fl 4 \<and> CHECK_FLAG fl 5)"
    using assms(2) by (simp_all add: info_ok_def Let_def m_def f_def fl_def)
  have fits16: "CHECK_FLAG fl 2 \<Longrightarrow> fits (bootmem s0) False (map of_char (nl ''cmdline = %s'')) [f 16]"
    using ok(1) format_fits(10) unfolding m_def by blast
  have fo: "le32 m (unat mbi + n) = f n" for n by (simp add: f_def)
  have c1: "upd_kern (con_update clear) s0 = recon (clear (con (kern s0))) s0" by (simp add: recon_def upd_kern_def)
  obtain c2 where c2: "bprint L (nl ''flags = 0x%#x'') [fl] (recon (clear (con (kern s0))) s0) = Some (recon c2 s0)"
    using opt_print[OF fm(1) in_formats(1) format_fits(7), of True] by auto
  obtain c3 where c3: "(if CHECK_FLAG fl 0 then bprint L (nl ''mem_lower = %uKB, mem_upper = %uKB'') [f 4, f 8] (recon c2 s0)
      else Some (recon c2 s0)) = Some (recon c3 s0)"
    using opt_print[OF fm(1) in_formats(2) format_fits(8)] by blast
  obtain c4 where c4: "(if CHECK_FLAG fl 1 then bprint L (nl ''boot_device = 0x%#x'') [f 12] (recon c3 s0)
      else Some (recon c3 s0)) = Some (recon c4 s0)"
    using opt_print[OF fm(1) in_formats(3) format_fits(9)] by blast
  obtain c5 where c5: "(if CHECK_FLAG fl 2 then bprint L (nl ''cmdline = %s'') [f 16] (recon c4 s0)
      else Some (recon c4 s0)) = Some (recon c5 s0)"
    using opt_print[OF fm(1) in_formats(4) fits16] by blast
  obtain c6 where c6: "(if CHECK_FLAG fl 3 then boot_modules L 0 (unat (f 20)) (f 24) (recon c5 s0)
      else Some (recon c5 s0)) = Some (recon c6 s1)"
  proof (cases "CHECK_FLAG fl 3")
    case True
    then show ?thesis
      using that boot_modules_returns[of L "recon c5 s0" 0 "unat (f 20)" "f 24"] fm(1)
      by (auto simp: s1_def image_of_def Let_def m_def f_def fl_def)
  next
    case False
    then show ?thesis using that by (auto simp: s1_def image_of_def Let_def m_def f_def fl_def)
  qed
  obtain c7 where c7: "(if CHECK_FLAG fl 5 then
      bprint L (nl ''elf_sec: num = %u, size = 0x%#x, addr = 0x%#x, shndx = 0x%#x'') [f 28, f 32, f 36, f 40] (recon c6 s1)
      else Some (recon c6 s1)) = Some (recon c7 s1)"
    using opt_print[OF fm(2) in_formats(5) format_fits(11)] by blast
  obtain c8 where c8: "(if CHECK_FLAG fl 6 then do {
        s \<leftarrow> bprint L (nl ''mmap_addr = 0x%#x, mmap_length = 0x%x'') [f 48, f 44] (recon c7 s1);
        boot_mmap L (f 48) (f 48 + f 44) s } else Some (recon c7 s1)) = Some (recon c8 s1)"
  proof (cases "CHECK_FLAG fl 6")
    case True
    obtain c where c: "bprint L (nl ''mmap_addr = 0x%#x, mmap_length = 0x%x'') [f 48, f 44] (recon c7 s1) = Some (recon c s1)"
      using opt_print[OF fm(2) in_formats(6) format_fits(12), of True] unfolding if_True by blast
    have "bootmem (recon c s1) = m" by (simp add: s1_def m_def)
    then obtain c' where "boot_mmap L (f 48) (f 48 + f 44) (recon c s1) = Some (recon c' s1)"
      using boot_mmap_returns[of m "f 48" "f 48 + f 44" L "recon c s1"] ok(2) True fm(2) by (auto simp: s1_def m_def)
    then show ?thesis using that c True by simp
  qed (use that in auto)
  have "entry_info L MULTIBOOT_BOOTLOADER_MAGIC mbi s0 = Some (True, recon c8 s1)"
    unfolding entry_info_def Let_def c1 recon_simps(1) m_def[symmetric] fo fl_def[symmetric]
    using c2 c3 c4 c5 c6 c7 c8 ok(3) by simp blast
  then show ?thesis by (auto simp: s1_def m_def)
qed

section \<open>The state at the halt loop\<close>

text \<open>The kernel after the entry, from the kernel the loader starts.\<close>

definition booted :: "layout \<Rightarrow> u32 \<Rightarrow> console \<Rightarrow> kernel \<Rightarrow> kernel" where
  "booted L img c k =
    (let k1 = k\<lparr>tss_ss0 := KERNEL_DS, tss_esp0_reg := 0x800000, kpic := i8259_init (kpic k)\<rparr>;
         k2 = keyboard_initialize (from_rtc (rtc_init (cmos_byte k1) (k_rtc k1)) k1)
     in k2\<lparr>con := c, kfs := filesystem_initialize (kmem k) (unat img),
           kpaging := terminal_videopage_init (paging_init (table_at L) (kpaging k)), int_flag := True\<rparr>)"

lemma upd_kern_simps [simp]:
  "kern (upd_kern g s) = g (kern s)" "idt (upd_kern g s) = idt s" "filesystem_img_addr (upd_kern g s) = filesystem_img_addr s"
  by (simp_all add: upd_kern_def)

lemma entry_goes:
  assumes "formats_at L (bootmem s0)" "info_ok (bootmem s0) mbi"
  shows "\<exists>s c. entry L MULTIBOOT_BOOTLOADER_MAGIC mbi s0 = Some (True, s) \<and> idt s = init_IDT (stub_addr L) (idt s0) \<and>
    filesystem_img_addr s = image_of (bootmem s0) mbi (filesystem_img_addr s0) \<and>
    kern s = booted L (image_of (bootmem s0) mbi (filesystem_img_addr s0)) c (kern s0)"
proof -
  let ?img = "image_of (bootmem s0) mbi (filesystem_img_addr s0)"
  obtain c where c: "entry_info L MULTIBOOT_BOOTLOADER_MAGIC mbi s0 = Some (True, recon c (s0\<lparr>filesystem_img_addr := ?img\<rparr>))"
    using entry_info_goes[OF assms] by blast
  let ?s1 = "entry_descriptors L (recon c (s0\<lparr>filesystem_img_addr := ?img\<rparr>))"
  define s8 where "s8 = (let s1 = ?s1\<lparr>idt := init_IDT (stub_addr L) (idt ?s1)\<rparr>;
     s2 = upd_kern (\<lambda>k. k\<lparr>kpic := i8259_init (kpic k)\<rparr>) s1;
     s3 = upd_kern (\<lambda>k. from_rtc (rtc_init (cmos_byte k) (k_rtc k)) k) s2;
     s4 = upd_kern keyboard_initialize s3;
     s5 = upd_kern (\<lambda>k. k\<lparr>kfs := filesystem_initialize (kmem k) (unat (filesystem_img_addr s4))\<rparr>) s4;
     s6 = upd_kern (\<lambda>k. k\<lparr>kpaging := paging_init (table_at L) (kpaging k)\<rparr>) s5;
     s7 = upd_kern (con_update (\<lambda>c. set_cursor 0 0 (clear c))) s6
     in upd_kern (\<lambda>k. k\<lparr>kpaging := terminal_videopage_init (kpaging k)\<rparr>) s7)"
  note parts = entry_descriptors_def keyboard_initialize_def clear_keyboard_buff_def from_rtc_def k_rtc_def rtc_init_def
    rtc_out_def upd_kern_def recon_def
  have i8: "idt s8 = init_IDT (stub_addr L) (idt s0)" "filesystem_img_addr s8 = ?img" "bootmem s8 = bootmem s0"
    by (simp_all add: s8_def Let_def parts bootmem_def del: upt_rec_numeral)
  have k8: "(kern s8)\<lparr>con := c', int_flag := True\<rparr> = booted L ?img c' (kern s0)" for c'
    by (cases "kern s0") (simp add: s8_def Let_def parts bootmem_def booted_def del: upt_rec_numeral)
  obtain c' where c': "bprint L (nl ''Enabling Interrupts'') [] s8 = Some (recon c' s8)"
    using bprint_returns[OF _ in_formats(7) format_fits(13), of L s8] assms(1) i8(3) by auto
  have "entry_devices L ?s1 = Some (upd_kern (\<lambda>k. k\<lparr>int_flag := True\<rparr>) (recon c' s8))"
    using c' by (simp add: entry_devices_def launch_tests_def s8_def Let_def)
  then have d: "\<exists>s c'. entry_devices L ?s1 = Some s \<and> idt s = init_IDT (stub_addr L) (idt s0) \<and> filesystem_img_addr s = ?img \<and>
    kern s = booted L ?img c' (kern s0)"
    using i8 k8 by (auto intro!: exI[of _ c'])
  then show ?thesis using c by (auto simp: entry_def)
qed

lemma booted_fields:
  "kmem (booted L img c k) = kmem k" "pcbs (booted L img c k) = pcbs k" "frames (booted L img c k) = frames k"
  "kfs (booted L img c k) = filesystem_initialize (kmem k) (unat img)" "int_flag (booted L img c k)"
  "kpaging (booted L img c k) = terminal_videopage_init (paging_init (table_at L) (kpaging k))"
  "num_chars_typed (booted L img c k) = 0" "enter_pressed_flag (booted L img c k) = 0"
  "tss_ss0 (booted L img c k) = KERNEL_DS" "tss_esp0_reg (booted L img c k) = 0x800000"
  "terminals (booted L img c k) = terminals k" "curr_terminal_id (booted L img c k) = curr_terminal_id k"
  "kpic (booted L img c k) = enable_irq 1 (enable_irq 2 (enable_irq 8 (i8259_init (kpic k))))"
  by (simp_all add: booted_def Let_def keyboard_initialize_def clear_keyboard_buff_def from_rtc_def k_rtc_def rtc_init_def
      rtc_out_def KEYBOARD_IRQ_NUM_def RTC_IRQ_def SECONDARY_PIC_IRQ_def del: upt_rec_numeral)

text \<open>The lines that are open: the keyboard, the second controller and the clock.\<close>

lemma i8259_init_masks: "master_mask (i8259_init p) = master_mask p AND NOT 4" "slave_mask (i8259_init p) = slave_mask p"
  by (simp_all add: i8259_init_def Let_def enable_irq_def pic_consts)

lemma booted_irqs:
  assumes "kpic k = pic_boot" "j \<le> 15"
  shows "irq_masked (kpic (booted L img c k)) j \<longleftrightarrow> j \<notin> {1, 2, 8}"
proof -
  have "irq_masked (i8259_init pic_boot) j \<longleftrightarrow> j \<noteq> 2"
  proof (cases "j < 8")
    case True
    then consider "j = 0" | "j = 1" | "j = 2" | "j = 3" | "j = 4" | "j = 5" | "j = 6" | "j = 7" by linarith
    then show ?thesis by cases (simp_all add: irq_masked_def i8259_init_masks pic_boot_def MS_MASK_def)
  next
    case False
    then have "j - 8 < 8" using assms(2) by simp
    then consider "j - 8 = 0" | "j - 8 = 1" | "j - 8 = 2" | "j - 8 = 3" | "j - 8 = 4" | "j - 8 = 5" | "j - 8 = 6" | "j - 8 = 7"
      by linarith
    then show ?thesis using False by cases (simp_all add: irq_masked_def i8259_init_masks pic_boot_def MS_MASK_def)
  qed
  then show ?thesis using assms by (auto simp: booted_fields irq_masking)
qed

lemma booted_synced: "pic_synced (kpic (booted L img c k))"
  by (simp add: booted_fields enable_irq_synced i8259_init_synced)

lemma booted_paging:
  assumes "paging_sized (kpaging k)" "video_table_ok (kpaging k)"
  shows "paging_inv vpt (kpaging (booted L img c k))"
  by (simp add: booted_fields terminal_videopage_inv paging_init_inv assms)


text \<open>The image and the blocks are the ones the loader left.\<close>

lemma blocks_kept:
  assumes "blocks_ok k l" "image_kept k k'" "pcbs k' = pcbs k"
  shows "blocks_ok k' l"
proof -
  have k: "image_ok k" "programs_ok k" using assms(1) by (simp_all add: blocks_ok_def)
  then show ?thesis
    using assms(1,3) image_ok_kept[OF k(1) assms(2)] programs_ok_kept[OF k assms(2)] by (simp add: blocks_ok_def)
qed

lemma booted_kept:
  assumes "blocks_ok (k\<lparr>kfs := filesystem_initialize (kmem k) (unat img)\<rparr>) []"
  shows "image_kept (k\<lparr>kfs := filesystem_initialize (kmem k) (unat img)\<rparr>) (booted L img c k)"
proof -
  let ?k = "k\<lparr>kfs := filesystem_initialize (kmem k) (unat img)\<rparr>"
  have "fs_end (view ?k) (kfs ?k) \<le> 0x8000000" using assms by (simp add: blocks_ok_def image_ok_def)
  then show ?thesis
    by (auto simp: image_kept_def same_image_def booted_fields view_outside_page in_program_page_def)
qed

lemma booted_blocks:
  assumes "blocks_ok (k\<lparr>kfs := filesystem_initialize (kmem k) (unat img)\<rparr>) []"
  shows "blocks_ok (booted L img c k) []"
  by (rule blocks_kept[OF assms booted_kept[OF assms]]) (simp add: booted_fields)

section \<open>Keys after the entry\<close>










section \<open>Instances\<close>

text \<open>A loader that passes the demonstration image as the only module, with the literals in cells of
  128 bytes.\<close>

definition boot_cell :: "string \<Rightarrow> nat" where
  "boot_cell t = 100000 + 128 * length (takeWhile (\<lambda>x. x \<noteq> t) formats)"

definition boot_mem :: mem where
  "boot_mem = (\<lambda>a. if a < 80000 then elf_image a else if a = 90000 then 8 else if a = 90020 then 1
     else if a = 90024 then 0xF4 else if a = 90025 then 0x5F else if a = 90026 then 1 else if a = 90101 then 0x10
     else if a < 100000 then 0
     else let i = (a - 100000) div 128; j = (a - 100000) mod 128 in
       if i < length formats \<and> j < length (formats ! i) then of_char (formats ! i ! j) else 0)"

lemma formats_short: "t \<in> set formats \<Longrightarrow> length t < 128 \<and> 0 \<notin> set (map of_char t :: byte list)"
  by (auto simp: formats_def)

lemma boot_cell_text:
  assumes "t \<in> set formats"
  shows "cstr boot_mem (boot_cell t) (map of_char t)"
proof -
  define i where "i = length (takeWhile (\<lambda>x. x \<noteq> t) formats)"
  have i: "i < length formats" "formats ! i = t"
    using assms nth_length_takeWhile[of "\<lambda>x. x \<noteq> t" formats] takeWhile_eq_all_conv[of "\<lambda>x. x \<noteq> t" formats]
      length_takeWhile_le[of "\<lambda>x. x \<noteq> t" formats] takeWhile_eq_take[of "\<lambda>x. x \<noteq> t" formats]
    by (auto simp: i_def le_less)
  have "boot_mem (100000 + 128 * i + j) = (if j < length t then of_char (t ! j) else 0)" if "j < 128" for j
    using that i by (simp add: boot_mem_def Let_def)
  then show ?thesis
    using formats_short[OF assms]
    by (auto simp: boot_cell_def i_def[symmetric] cstr_def bytes_of_def intro!: nth_equalityI)
qed

definition zero_seg :: seg_desc where
  "zero_seg = \<lparr>seg_lim_15_00 = 0, seg_base_15_00 = 0, seg_base_23_16 = 0, seg_type = 0, seg_sys = False, seg_dpl = 0,
     seg_present = False, seg_lim_19_16 = 0, seg_avail = False, seg_reserved = False, seg_opsize = False,
     seg_granularity = False, seg_base_31_24 = 0\<rparr>"

definition demo_loaded :: boot where
  "demo_loaded = \<lparr>kern = demo_boot\<lparr>kmem := boot_mem, terminals := replicate 3 ((demo_term 0 0)\<lparr>video_mem_addr := 0, term_active := 0\<rparr>)\<rparr>,
     idt = replicate 256 \<lparr>offset_15_00 = 0, seg_selector = 0, reserved4 = 0, reserved3 = False, reserved2 = False,
        reserved1 = False, gate_size = False, reserved0 = False, dpl = 0, idt_present = False, offset_31_16 = 0\<rparr>,
     ldt_desc_ptr = zero_seg, tss_desc_ptr = zero_seg, ldt_segment_selector = 0, ldt_register = 0, task_register = 0,
     filesystem_img_addr = 0\<rparr>"

definition demo_layout :: layout where
  "demo_layout = \<lparr>lit = boot_cell, junk = (\<lambda>_. 0xEE), stub_addr = (\<lambda>h. if h = Page_Fault_link then 0xDEADBEEF else 0),
     table_at = 0x400000, ldt_at = 0x401000, ldt_size = 24, tss_at = 0x402000, tss_size = 104\<rparr>"

lemma demo_loaded_ok:
  "formats_at demo_layout (bootmem demo_loaded)" "info_ok (bootmem demo_loaded) 90000" "length (idt demo_loaded) = 256"
  "paging_sized (kpaging (kern demo_loaded))" "video_table_ok (kpaging (kern demo_loaded))" "kpic (kern demo_loaded) = pic_boot"
  "image_of (bootmem demo_loaded) 90000 (filesystem_img_addr demo_loaded) = 4096" "bootmem demo_loaded = boot_mem"
proof -
  show m: "bootmem demo_loaded = boot_mem" by (simp add: demo_loaded_def bootmem_def)
  show "formats_at demo_layout (bootmem demo_loaded)"
    using boot_cell_text by (simp add: formats_at_def m demo_layout_def)
  have f: "le32 boot_mem 90000 = 8" "le32 boot_mem 90020 = 1" "le32 boot_mem 90024 = 90100" "le32 boot_mem 90100 = 4096"
    by (simp_all add: le32_def boot_mem_def)
  show "info_ok (bootmem demo_loaded) 90000" by (simp add: m info_ok_def Let_def f CHECK_FLAG_def)
  show "image_of (bootmem demo_loaded) 90000 (filesystem_img_addr demo_loaded) = 4096"
    by (simp add: m image_of_def Let_def f CHECK_FLAG_def)
qed (use paging_boot_ok in \<open>simp_all add: demo_loaded_def demo_kernel_def\<close>)

lemma demo_loaded_kept:
  "image_kept demo_boot ((kern demo_loaded)\<lparr>kfs := filesystem_initialize (bootmem demo_loaded) (unat (4096 :: u32))\<rparr>)"
proof -
  have fs: "filesystem_initialize boot_mem 4096 = demo_fs"
  proof -
    have low: "boot_mem a = elf_image a" if "a < 80000" for a using that by (simp add: boot_mem_def)
    have "le32 boot_mem 4100 = 1" by (simp add: le32_def low) (simp add: elf_image_def demo_image_def)
    then show ?thesis by (simp add: filesystem_initialize_def demo_fs_def Let_def)
  qed
  have "view ((kern demo_loaded)\<lparr>kfs := demo_fs\<rparr>) a = view demo_boot a" if "a < 16384" for a
  proof -
    have "\<not> in_program_page a" using that by (simp add: in_program_page_def)
    moreover have "kmem (kern demo_loaded) = boot_mem" using demo_loaded_ok(8) by (simp add: bootmem_def)
    moreover have "boot_mem a = elf_image a" "kmem demo_boot = elf_image" using that by (simp_all add: boot_mem_def demo_kernel_def)
    ultimately show ?thesis by (simp add: view_outside_page)
  qed
  then show ?thesis
    using elf_ok(2)[of "\<lambda>_. demo_block 0 0" 3] by (simp add: image_kept_def same_image_def demo_loaded_ok(8) fs demo_kernel_fields)
qed

lemma demo_loaded_blocks:
  "blocks_ok ((kern demo_loaded)\<lparr>kfs := filesystem_initialize (bootmem demo_loaded) (unat (4096 :: u32))\<rparr>) []"
  by (rule blocks_kept[OF demo_blocks demo_loaded_kept]) (simp add: demo_loaded_def)

section \<open>Properties\<close>

text \<open>C28: When the loader passes its magic number and well-formed information, all printing ends and
  entry reaches the halt loop with the file system at the last module, the paging invariant,
  exactly the lines of the keyboard, the clock and the second controller open and both masks
  written out, a gate for each vector that has a handler and only that of the system calls open
  to user code, an empty line and interrupts enabled.\<close>
theorem entry_initialises:
  assumes "formats_at L (bootmem s0)" "info_ok (bootmem s0) mbi" "length (idt s0) = 256"
    and "paging_sized (kpaging (kern s0))" "video_table_ok (kpaging (kern s0))" "kpic (kern s0) = pic_boot"
  shows "\<exists>s. entry L MULTIBOOT_BOOTLOADER_MAGIC mbi s0 = Some (True, s) \<and> int_flag (kern s) \<and>
    kfs (kern s) = filesystem_initialize (bootmem s0) (unat (image_of (bootmem s0) mbi (filesystem_img_addr s0))) \<and>
    paging_inv vpt (kpaging (kern s)) \<and>
    pic_synced (kpic (kern s)) \<and> (\<forall>j \<le> 15. irq_masked (kpic (kern s)) j \<longleftrightarrow> j \<notin> {1, 2, 8}) \<and>
    (\<forall>j < 256. idt_present (idt s ! j) = (handler_for j \<noteq> None) \<and> user_callable (idt s ! j) = (j = 0x80) \<and>
       (\<forall>h. handler_for j = Some h \<longrightarrow> handler_of (idt s ! j) = stub_addr L h)) \<and>
    typed (kern s) = [] \<and> tss_esp0_reg (kern s) = 0x800000 \<and> pcbs (kern s) = pcbs (kern s0)"
proof -
  let ?img = "image_of (bootmem s0) mbi (filesystem_img_addr s0)"
  obtain s c where s: "entry L MULTIBOOT_BOOTLOADER_MAGIC mbi s0 = Some (True, s)" "idt s = init_IDT (stub_addr L) (idt s0)"
    "kern s = booted L ?img c (kern s0)"
    using entry_goes[OF assms(1,2)] by blast
  then show ?thesis
    using init_IDT_gates[OF assms(3)] booted_irqs[OF assms(6)] booted_synced booted_paging[OF assms(4,5)]
    by (intro exI[of _ s]) (simp add: booted_fields typed_def bootmem_def)
qed

theorem entry_initialises_witness:
  "\<exists>s. entry demo_layout MULTIBOOT_BOOTLOADER_MAGIC 90000 demo_loaded = Some (True, s) \<and> \<not> irq_masked (kpic (kern s)) 1 \<and>
     handler_of (idt s ! 14) = 0xDEADBEEF \<and> boot_block (kfs (kern s)) = 4096"
proof -
  have "handler_for 14 = Some Page_Fault_link" by (simp add: handler_for_def idt_consts idt_entries_def)
  moreover have "stub_addr demo_layout Page_Fault_link = 0xDEADBEEF" by (simp add: demo_layout_def)
  ultimately show ?thesis
    using entry_initialises[OF demo_loaded_ok(1-6), of 0] by (auto simp: demo_loaded_ok(7) filesystem_initialize_def Let_def)
qed

text \<open>C27: From the state the loader leaves, with an image of well-formed programs and no process
  active, entry reaches the halt loop, and any first program and any further run of kernel steps
  from there without a read or getargs into a buffer below 128 MB (Stray) and without the end of
  the base shell that cannot restart (Lost) refines the machine on a stack of processes; failing
  executes and Alt-F keys that start a shell are among the steps.\<close>
theorem entry_then_stack:
  assumes "formats_at L (bootmem s0)" "info_ok (bootmem s0) mbi" "paging_sized (kpaging (kern s0))"
    and "img = image_of (bootmem s0) mbi (filesystem_img_addr s0)"
    and "blocks_ok ((kern s0)\<lparr>kfs := filesystem_initialize (bootmem s0) (unat img)\<rparr>) []"
  shows "\<exists>s. entry L MULTIBOOT_BOOTLOADER_MAGIC mbi s0 = Some (True, s) \<and>
    (\<forall>stk g esp ebp cmd eip usp k es k'. kernel_stack (kern s) stk \<longrightarrow>
       system_execute g stk esp ebp cmd (kern s) = Some (Iret eip usp, k) \<longrightarrow> kernel_run es k k' \<longrightarrow>
       Stray \<notin> set es \<longrightarrow> Lost \<notin> set es \<longrightarrow>
       (\<exists>l. kernel_ok k' l \<and> stack_run es [proc_of k 0] (map (proc_of k') l)))"
proof -
  obtain s c where s: "entry L MULTIBOOT_BOOTLOADER_MAGIC mbi s0 = Some (True, s)" "kern s = booted L img c (kern s0)"
    using entry_goes[OF assms(1,2)] assms(4) by blast
  have b: "blocks_ok (kern s) []" using booted_blocks[of "kern s0" img L c] assms(5) s(2) by (simp add: bootmem_def)
  have p: "paging_sized (kpaging (kern s))"
    using paging_init_sized[OF assms(3), of "table_at L"]
    by (simp add: s(2) booted_fields terminal_videopage_init_def set_kpte_def Let_def paging_sized_def)
  have n: "0 \<le> num_chars_typed (kern s)" by (simp add: s(2) booted_fields)
  have "\<exists>l. kernel_ok k' l \<and> stack_run es [proc_of k 0] (map (proc_of k') l)"
    if "kernel_stack (kern s) stk" "system_execute g stk esp ebp cmd (kern s) = Some (Iret eip usp, k)" "kernel_run es k k'"
      "Stray \<notin> set es" "Lost \<notin> set es" for stk g esp ebp cmd eip usp k es k'
    using kernel_run_refines[OF that(3) first_program[OF b p n that(1,2)]] that(4,5) by (simp add: all_regular)
  then show ?thesis using s(1) by blast
qed

theorem entry_then_stack_witness:
  "\<exists>s k k' l. entry demo_layout MULTIBOOT_BOOTLOADER_MAGIC 90000 demo_loaded = Some (True, s) \<and>
     system_execute 1 20000 7 9 4160 (kern s) = Some (Iret 0x08048094 0x83FFFFC, k) \<and>
     kernel_run [Run] k k' \<and> kernel_ok k' l \<and> stack_run [Run] [proc_of k 0] (map (proc_of k') l)"
proof -
  obtain s where s: "entry demo_layout MULTIBOOT_BOOTLOADER_MAGIC 90000 demo_loaded = Some (True, s)"
    "\<And>stk g esp ebp cmd eip usp k es k'. kernel_stack (kern s) stk \<Longrightarrow>
       system_execute g stk esp ebp cmd (kern s) = Some (Iret eip usp, k) \<Longrightarrow> kernel_run es k k' \<Longrightarrow>
       Stray \<notin> set es \<Longrightarrow> Lost \<notin> set es \<Longrightarrow> \<exists>l. kernel_ok k' l \<and> stack_run es [proc_of k 0] (map (proc_of k') l)"
    using entry_then_stack[OF demo_loaded_ok(1,2,4) demo_loaded_ok(7)[symmetric] demo_loaded_blocks] by blast
  obtain c where c: "kern s = booted demo_layout 4096 c (kern demo_loaded)"
    using entry_goes[OF demo_loaded_ok(1,2)] s(1) by (auto simp: demo_loaded_ok(7))
  have kept: "image_kept demo_boot (kern s)"
    using booted_kept[OF demo_loaded_blocks[unfolded bootmem_def], of demo_layout c] image_kept_trans[OF elf_ok(1) demo_loaded_kept]
    by (simp add: c bootmem_def)
  have b: "pcbs (kern s) = (\<lambda>_. demo_block 0 0)"
    by (simp add: c booted_fields demo_loaded_def demo_kernel_def)
  then have asg: "assign_PID (kern s) = (0, kern s)"
    by (simp add: assign_PID_def demo_block_def MAX_PROCESSES_def numeral_eq_Suc)
  have "paging_sized (kpaging (kern s))"
    using paging_init_sized[OF demo_loaded_ok(4), of "table_at demo_layout"]
    by (simp add: c booted_fields terminal_videopage_init_def set_kpte_def Let_def paging_sized_def)
  then obtain k where k: "system_execute 1 20000 7 9 4160 (kern s) = Some (Iret 0x08048094 0x83FFFFC, k)"
    using demo_execute[OF kept asg] by auto
  have "kernel_run [Run] k (k\<lparr>con := (con k)\<lparr>vid := (\<lambda>_. 0x41)\<rparr>\<rparr>)" by (blast intro: krun_step[OF k_video] krun_nil)
  moreover from this have "\<exists>l. kernel_ok (k\<lparr>con := (con k)\<lparr>vid := (\<lambda>_. 0x41)\<rparr>\<rparr>) l \<and>
      stack_run [Run] [proc_of k 0] (map (proc_of (k\<lparr>con := (con k)\<lparr>vid := (\<lambda>_. 0x41)\<rparr>\<rparr>)) l)"
    by (rule s(2)[OF demo_stack[OF kept] k]) simp_all
  ultimately show ?thesis using s(1) k by blast
qed



end
