(* ===== verification/Cleanup.thy ===== *)
theory Cleanup
  imports Prelude
begin

text \<open>The cleanup stack of \<^verbatim>\<open>mp2_rthakk21/assert.c\<close>: a linked list of functions that are to run when the
  program dies.  The cells live in a heap; the functions themselves are a parameter \<^verbatim>\<open>call\<close>, which
  gets the whole state and so may push and pop.  The program is compiled without \<^verbatim>\<open>NDEBUG\<close>.\<close>

section \<open>State\<close>

record cleanup_t =
  cl_fn :: nat
  cl_arg :: nat
  cl_next :: nat

datatype disposition = Default | Ignore | Catch_once

text \<open>\<^verbatim>\<open>outside\<close> is all that the cleanup functions work on; \<^verbatim>\<open>pending\<close> is a signal that waits for the
  end of a handler.\<close>

record 'w program =
  cl_heap :: "nat \<Rightarrow> cleanup_t option"
  cleanup_stack :: nat
  outside :: 'w
  sigs :: "int \<Rightarrow> disposition"
  pending :: "int option"

text \<open>How a function ends: it returns, \<^verbatim>\<open>abort()\<close> or \<^verbatim>\<open>exit(3)\<close>, or a signal kills the program.\<close>

datatype 'a outcome = Returns (final: 'a) | Aborts (final: 'a) | Exits (final: 'a) | Killed (final: 'a)

type_synonym 'w calls = "nat \<Rightarrow> nat \<Rightarrow> 'w program \<Rightarrow> 'w program option"

definition SIGINT :: int where "SIGINT = 2"
definition SIGQUIT :: int where "SIGQUIT = 3"
definition SIGBUS :: int where "SIGBUS = 7"
definition SIGSEGV :: int where "SIGSEGV = 11"
definition SIGTSTP :: int where "SIGTSTP = 20"

lemmas signal_numbers = SIGINT_def SIGQUIT_def SIGBUS_def SIGSEGV_def SIGTSTP_def

section \<open>Operations\<close>

text \<open>The assertion fails on an empty stack, where its own cleanups have nothing to do.\<close>

definition pop_cleanup :: "'w calls \<Rightarrow> bool \<Rightarrow> 'w program \<Rightarrow> 'w program outcome option" where
  "pop_cleanup call execute s =
    (if cleanup_stack s = 0 then Some (Aborts s)
     else do {
       c \<leftarrow> cl_heap s (cleanup_stack s);
       let s1 = s\<lparr>cleanup_stack := cl_next c\<rparr>;
       s2 \<leftarrow> (if execute then call (cl_fn c) (cl_arg c) s1 else Some s1);
       Some (Returns (s2\<lparr>cl_heap := (cl_heap s2)(cleanup_stack s := None)\<rparr>)) })"

partial_function (option) do_cleanups :: "'w calls \<Rightarrow> 'w program \<Rightarrow> 'w program outcome option" where
  "do_cleanups call s =
    (if cleanup_stack s \<noteq> 0 then do {
       r \<leftarrow> pop_cleanup call True s;
       if is_Returns r then do_cleanups call (final r) else Some r }
     else Some (Returns s))"

text \<open>\<^verbatim>\<open>ASSERT\<close> and \<^verbatim>\<open>ABORT\<close> end in \<^verbatim>\<open>Aborts\<close>, \<^verbatim>\<open>PANIC\<close> in \<^verbatim>\<open>Exits\<close>, both after the cleanups.\<close>

definition fatal :: "('w program \<Rightarrow> 'w program outcome) \<Rightarrow> 'w calls \<Rightarrow> 'w program \<Rightarrow> 'w program outcome option" where
  "fatal how call s = do { r \<leftarrow> do_cleanups call s; Some (if is_Returns r then how (final r) else r) }"

text \<open>\<^verbatim>\<open>alloc\<close> is the address \<^verbatim>\<open>malloc\<close> returns, 0 when there is no memory.\<close>

definition push_cleanup ::
    "'w calls \<Rightarrow> ('w program \<Rightarrow> nat) \<Rightarrow> nat \<Rightarrow> nat \<Rightarrow> 'w program \<Rightarrow> 'w program outcome option" where
  "push_cleanup call alloc fn arg s =
    (if fn = 0 then fatal Aborts call s
     else if alloc s = 0 then fatal Aborts call s
     else
       (let c = alloc s;
            s1 = s\<lparr>cl_heap := (cl_heap s)(c \<mapsto> \<lparr>cl_fn = fn, cl_arg = arg, cl_next = cleanup_stack s\<rparr>)\<rparr>
        in Some (Returns (s1\<lparr>cleanup_stack := c\<rparr>))))"

text \<open>\<^verbatim>\<open>kill(getpid(), sig)\<close> inside the handler: the signal waits until the handler returns.\<close>

definition catch_signal :: "'w calls \<Rightarrow> int \<Rightarrow> 'w program \<Rightarrow> 'w program outcome option" where
  "catch_signal call sig s = do {
     r \<leftarrow> do_cleanups call s;
     Some (if is_Returns r then Returns ((final r)\<lparr>pending := Some sig\<rparr>) else r) }"

text \<open>\<^verbatim>\<open>rd_ok\<close> and \<^verbatim>\<open>wr_ok\<close> say which calls of \<^verbatim>\<open>sigaction\<close> succeed.\<close>

definition set_signal_behavior ::
    "'w calls \<Rightarrow> (int \<Rightarrow> bool) \<Rightarrow> (int \<Rightarrow> bool) \<Rightarrow> int \<Rightarrow> 'w program \<Rightarrow> 'w program outcome option" where
  "set_signal_behavior call rd_ok wr_ok num s =
    (if \<not> rd_ok num then fatal Exits call s
     else if \<not> wr_ok num then fatal Exits call s
     else Some (Returns (s\<lparr>sigs := (sigs s)(num := Catch_once)\<rparr>)))"

definition clean_on_signals ::
    "'w calls \<Rightarrow> (int \<Rightarrow> bool) \<Rightarrow> (int \<Rightarrow> bool) \<Rightarrow> 'w program \<Rightarrow> 'w program outcome option" where
  "clean_on_signals call rd_ok wr_ok s0 = do {
     let next = (\<lambda>num r. if is_Returns r then set_signal_behavior call rd_ok wr_ok num (final r) else Some r);
     r1 \<leftarrow> set_signal_behavior call rd_ok wr_ok SIGINT s0;
     r2 \<leftarrow> next SIGSEGV r1;
     r3 \<leftarrow> next SIGBUS r2;
     r4 \<leftarrow> next SIGQUIT r3;
     if \<not> is_Returns r4 then Some r4
     else if \<not> wr_ok SIGTSTP then fatal Exits call (final r4)
     else Some (Returns ((final r4)\<lparr>sigs := (sigs (final r4))(SIGTSTP := Ignore)\<rparr>)) }"

section \<open>What the system does with a signal\<close>

text \<open>A handler that was installed with \<^verbatim>\<open>SA_ONESHOT\<close> is taken away before it runs; the signal it sends
  itself is delivered when it returns.\<close>

definition default_action :: "'w program \<Rightarrow> 'w program outcome" where "default_action s = Killed s"

definition deliver :: "'w calls \<Rightarrow> int \<Rightarrow> 'w program \<Rightarrow> 'w program outcome option" where
  "deliver call sig s =
    (case sigs s sig of
       Default \<Rightarrow> Some (default_action s)
     | Ignore \<Rightarrow> Some (Returns s)
     | Catch_once \<Rightarrow> do {
         r \<leftarrow> catch_signal call sig (s\<lparr>sigs := (sigs s)(sig := Default)\<rparr>);
         Some (if is_Returns r \<and> pending (final r) = Some sig \<and> sigs (final r) sig = Default
               then default_action (final r) else r) })"

section \<open>Facts\<close>

text \<open>The stack as a list of the addresses, functions and arguments of its cells.\<close>

fun cells :: "(nat \<Rightarrow> cleanup_t option) \<Rightarrow> nat \<Rightarrow> (nat \<times> nat \<times> nat) list \<Rightarrow> bool" where
  "cells h p [] \<longleftrightarrow> p = 0"
| "cells h p ((a, f, x) # l) \<longleftrightarrow> p = a \<and> a \<noteq> 0 \<and> a \<notin> fst ` set l \<and>
     (\<exists>n. h a = Some \<lparr>cl_fn = f, cl_arg = x, cl_next = n\<rparr> \<and> cells h n l)"

definition stack_of :: "'w program \<Rightarrow> (nat \<times> nat \<times> nat) list \<Rightarrow> bool" where
  "stack_of s l \<longleftrightarrow> cells (cl_heap s) (cleanup_stack s) l"

lemma cells_cong: "(\<And>a. a \<in> fst ` set l \<Longrightarrow> h' a = h a) \<Longrightarrow> cells h' p l = cells h p l"
  by (induction l arbitrary: p) auto

lemma cells_upd: "a \<notin> fst ` set l \<Longrightarrow> cells (h(a := v)) p l = cells h p l"
  by (rule cells_cong) auto

lemma cells_dom: "cells h p l \<Longrightarrow> a \<in> fst ` set l \<Longrightarrow> h a \<noteq> None"
proof (induction l arbitrary: p)
  case (Cons c l)
  then show ?case by (cases c) auto
qed simp

lemma push_refines:
  assumes "stack_of s l" "fn \<noteq> 0" "alloc s \<noteq> 0" "cl_heap s (alloc s) = None"
  shows "\<exists>s'. push_cleanup call alloc fn arg s = Some (Returns s') \<and> stack_of s' ((alloc s, fn, arg) # l) \<and>
    pop_cleanup call False s' = Some (Returns s)"
proof -
  have new: "alloc s \<notin> fst ` set l" using assms(1,4) cells_dom[of "cl_heap s" "cleanup_stack s" l "alloc s"] unfolding stack_of_def by blast
  have upd: "(cl_heap s)(alloc s := None) = cl_heap s" using assms(4) by (simp add: fun_upd_idem)
  show ?thesis
    using assms(1-3) new upd by (simp add: push_cleanup_def stack_of_def cells_upd pop_cleanup_def Let_def)
qed

text \<open>Cleanups that work on the outside only.\<close>

definition runs :: "(nat \<Rightarrow> nat \<Rightarrow> 'w \<Rightarrow> 'w) \<Rightarrow> 'w calls" where
  "runs g = (\<lambda>f x s. Some (s\<lparr>outside := g f x (outside s)\<rparr>))"

definition cleaned :: "(nat \<Rightarrow> nat \<Rightarrow> 'w \<Rightarrow> 'w) \<Rightarrow> (nat \<times> nat \<times> nat) list \<Rightarrow> 'w program \<Rightarrow> 'w program" where
  "cleaned g l s = s\<lparr>cleanup_stack := 0, cl_heap := fold (\<lambda>(a, f, x) h. h(a := None)) l (cl_heap s),
     outside := fold (\<lambda>(a, f, x). g f x) l (outside s)\<rparr>"

lemma do_cleanups_lifo:
  "stack_of s l \<Longrightarrow> do_cleanups (runs g) s = Some (Returns (cleaned g l s))"
proof (induction l arbitrary: s)
  case Nil
  then have "cleaned g [] s = s" by (simp add: stack_of_def cleaned_def)
  then show ?case using Nil by (subst do_cleanups.simps) (simp add: stack_of_def)
next
  case (Cons c l)
  obtain a f x where c: "c = (a, f, x)" by (cases c)
  obtain n where n: "cleanup_stack s = a" "a \<noteq> 0" "a \<notin> fst ` set l" "cl_heap s a = Some \<lparr>cl_fn = f, cl_arg = x, cl_next = n\<rparr>"
    "cells (cl_heap s) n l" using Cons.prems by (auto simp: stack_of_def c)
  let ?s1 = "s\<lparr>cleanup_stack := n, outside := g f x (outside s), cl_heap := (cl_heap s)(a := None)\<rparr>"
  have "pop_cleanup (runs g) True s = Some (Returns ?s1)" using n by (simp add: pop_cleanup_def runs_def)
  moreover have "stack_of ?s1 l" using n(3,5) by (simp add: stack_of_def cells_upd)
  then have "do_cleanups (runs g) ?s1 = Some (Returns (cleaned g l ?s1))" by (rule Cons.IH)
  ultimately show ?case using n(1,2) by (subst do_cleanups.simps) (simp add: cleaned_def c)
qed

lemma signals_installed:
  assumes "\<And>n. rd_ok n" "\<And>n. wr_ok n"
  shows "clean_on_signals call rd_ok wr_ok s = Some (Returns (s\<lparr>sigs := (sigs s)(SIGINT := Catch_once, SIGSEGV := Catch_once,
    SIGBUS := Catch_once, SIGQUIT := Catch_once, SIGTSTP := Ignore)\<rparr>))"
  using assms by (simp add: clean_on_signals_def set_signal_behavior_def Let_def)

lemma deliver_cleans:
  assumes "stack_of s l" "sigs s sig = Catch_once"
  shows "deliver (runs g) sig s =
    Some (Killed ((cleaned g l (s\<lparr>sigs := (sigs s)(sig := Default)\<rparr>))\<lparr>pending := Some sig\<rparr>))"
proof -
  let ?s = "s\<lparr>sigs := (sigs s)(sig := Default)\<rparr>"
  have "stack_of ?s l" using assms(1) by (simp add: stack_of_def)
  then have "catch_signal (runs g) sig ?s = Some (Returns ((cleaned g l ?s)\<lparr>pending := Some sig\<rparr>))"
    by (simp add: catch_signal_def do_cleanups_lifo)
  then show ?thesis using assms(2) by (simp add: deliver_def default_action_def cleaned_def)
qed

text \<open>The cells are all freed.\<close>

lemma freed: "fold (\<lambda>(a, f, x) h. h(a := None)) l h a = (if a \<in> fst ` set l then None else h a)"
  by (induction l arbitrary: h) auto

section \<open>Properties\<close>

text \<open>C32: After clean_on_signals, each of the four signals runs every cleanup on the stack once, the
  latest first, frees all the cells and then kills the program, and a stop from the keyboard
  does nothing.\<close>
theorem signal_runs_cleanups:
  assumes "stack_of s l" "\<And>n. rd_ok n" "\<And>n. wr_ok n" "sig \<in> {SIGINT, SIGSEGV, SIGBUS, SIGQUIT}"
  shows "\<exists>s1 s2. clean_on_signals (runs g) rd_ok wr_ok s = Some (Returns s1) \<and> deliver (runs g) SIGTSTP s1 = Some (Returns s1) \<and>
    deliver (runs g) sig s1 = Some (Killed s2) \<and> outside s2 = fold (\<lambda>(a, f, x). g f x) l (outside s) \<and>
    stack_of s2 [] \<and> (\<forall>a. cl_heap s2 a = (if a \<in> fst ` set l then None else cl_heap s a))"
proof -
  let ?s1 = "s\<lparr>sigs := (sigs s)(SIGINT := Catch_once, SIGSEGV := Catch_once, SIGBUS := Catch_once, SIGQUIT := Catch_once,
      SIGTSTP := Ignore)\<rparr>"
  have c: "clean_on_signals (runs g) rd_ok wr_ok s = Some (Returns ?s1)" by (rule signals_installed[OF assms(2,3)])
  have "stack_of ?s1 l" using assms(1) by (simp add: stack_of_def)
  moreover have "sigs ?s1 sig = Catch_once" using assms(4) by (auto simp: signal_numbers)
  ultimately have "deliver (runs g) sig ?s1 =
      Some (Killed ((cleaned g l (?s1\<lparr>sigs := (sigs ?s1)(sig := Default)\<rparr>))\<lparr>pending := Some sig\<rparr>))"
    by (rule deliver_cleans)
  moreover have "deliver (runs g) SIGTSTP ?s1 = Some (Returns ?s1)" by (simp add: deliver_def)
  ultimately show ?thesis using c by (auto simp: cleaned_def stack_of_def freed)
qed

theorem signal_runs_cleanups_witness:
  "\<exists>s1 s2 :: nat list program. clean_on_signals (runs (\<lambda>f x w. w @ [f, x])) (\<lambda>_. True) (\<lambda>_. True)
       \<lparr>cl_heap = [8 \<mapsto> \<lparr>cl_fn = 1, cl_arg = 5, cl_next = 4\<rparr>, 4 \<mapsto> \<lparr>cl_fn = 2, cl_arg = 6, cl_next = 0\<rparr>], cleanup_stack = 8,
         outside = [], sigs = (\<lambda>_. Default), pending = None\<rparr> = Some (Returns s1) \<and>
     deliver (runs (\<lambda>f x w. w @ [f, x])) SIGSEGV s1 = Some (Killed s2) \<and> outside s2 = [1, 5, 2, 6] \<and> cl_heap s2 8 = None"
proof -
  let ?s = "\<lparr>cl_heap = [8 \<mapsto> \<lparr>cl_fn = 1, cl_arg = 5, cl_next = 4\<rparr>, 4 \<mapsto> \<lparr>cl_fn = 2, cl_arg = 6, cl_next = 0\<rparr>], cleanup_stack = 8,
         outside = [], sigs = (\<lambda>_. Default), pending = None\<rparr> :: nat list program"
  have "stack_of ?s [(8, 1, 5), (4, 2, 6)]" by (simp add: stack_of_def)
  then show ?thesis
    using signal_runs_cleanups[of ?s "[(8, 1, 5), (4, 2, 6)]" "\<lambda>_. True" "\<lambda>_. True" SIGSEGV "\<lambda>f x w. w @ [f, x]"] by auto
qed

end
