(* ===== verification/Maze.thy ===== *)
theory Maze
  imports Prelude "HOL-Library.Signed_Division"
begin

text \<open>The maze of the game, \<^verbatim>\<open>mp2_rthakk21/maze.c\<close>: generation, the breadth-first marking of
  connected areas, fruits, and the blocks drawn for a lattice point.

  The file-level variables form \<^verbatim>\<open>maze_state\<close>.  The library's \<^verbatim>\<open>random\<close> is a supply of
  numbers, \<^verbatim>\<open>rands\<close>; a computation that asks for more than the supply holds is \<^const>\<open>None\<close>,
  as is one that leaves an array.  Calls of \<^verbatim>\<open>draw_full_block\<close> (\<^verbatim>\<open>modex.c\<close>) are collected in
  \<^verbatim>\<open>drawn\<close> with the number of the block image.\<close>

section \<open>Constants and state\<close>

definition MAZE_MIN_X_DIM :: int where "MAZE_MIN_X_DIM = (320 + (12 - 1) + 2 * 6) div (2 * 12)"
definition MAZE_MAX_X_DIM :: int where "MAZE_MAX_X_DIM = 50"
definition MAZE_MIN_Y_DIM :: int where "MAZE_MIN_Y_DIM = (182 + (12 - 1) + 2 * 6) div (2 * 12)"
definition MAZE_MAX_Y_DIM :: int where "MAZE_MAX_Y_DIM = 30"
definition MAZE_SIZE :: nat where "MAZE_SIZE = 2 * 50 * (2 * 30 + 3) + 1"
definition QUEUE_SIZE :: nat where "QUEUE_SIZE = 50 * 30"

definition MAZE_NONE :: byte where "MAZE_NONE = 0"
definition MAZE_WALL :: byte where "MAZE_WALL = 1"
definition MAZE_FRUIT_1 :: byte where "MAZE_FRUIT_1 = 2"
definition MAZE_FRUIT :: byte where "MAZE_FRUIT = 14"
definition MAZE_EXIT :: byte where "MAZE_EXIT = 16"
definition MAZE_REACH :: byte where "MAZE_REACH = 128"

lemmas maze_bits = MAZE_NONE_def MAZE_WALL_def MAZE_FRUIT_1_def MAZE_FRUIT_def MAZE_EXIT_def MAZE_REACH_def

definition NUM_FRUIT_TYPES :: nat where "NUM_FRUIT_TYPES = 7"
definition BLOCK_X_DIM :: int where "BLOCK_X_DIM = 12"
definition BLOCK_Y_DIM :: int where "BLOCK_Y_DIM = 12"
definition BLOCK_EMPTY :: nat where "BLOCK_EMPTY = 16"
definition BLOCK_SHADOW :: nat where "BLOCK_SHADOW = 17"
definition BLOCK_PLAYER_UP :: nat where "BLOCK_PLAYER_UP = 18"
definition BLOCK_PLAYER_MASK_UP :: nat where "BLOCK_PLAYER_MASK_UP = 22"
definition BLOCK_FRUIT_1 :: nat where "BLOCK_FRUIT_1 = 26"
definition BLOCK_FRUIT_SHADOW :: nat where "BLOCK_FRUIT_SHADOW = 33"
definition BLOCK_EXIT :: nat where "BLOCK_EXIT = 34"

lemmas block_numbers = BLOCK_EMPTY_def BLOCK_SHADOW_def BLOCK_PLAYER_UP_def BLOCK_PLAYER_MASK_UP_def
  BLOCK_FRUIT_1_def BLOCK_FRUIT_SHADOW_def BLOCK_EXIT_def

datatype dir_t = DIR_UP | DIR_RIGHT | DIR_DOWN | DIR_LEFT

fun dir_num :: "dir_t \<Rightarrow> nat" where
  "dir_num DIR_UP = 0" | "dir_num DIR_RIGHT = 1" | "dir_num DIR_DOWN = 2" | "dir_num DIR_LEFT = 3"

record maze_state =
  maze :: "byte list"
  maze_x_dim :: int
  maze_y_dim :: int
  n_fruits :: int
  exit_x :: int
  exit_y :: int
  rands :: "nat list"
  drawn :: "(int \<times> int \<times> nat) list"

definition MAZE_INDEX :: "maze_state \<Rightarrow> int \<Rightarrow> int \<Rightarrow> int" where
  "MAZE_INDEX s a b = a + (b + 1) * maze_x_dim s * 2"

text \<open>Array accesses with an index that C does not check.\<close>

definition ird :: "'a list \<Rightarrow> int \<Rightarrow> 'a option" where
  "ird xs i = (if i < 0 then None else rd xs (nat i))"

definition iwr :: "'a list \<Rightarrow> int \<Rightarrow> 'a \<Rightarrow> 'a list option" where
  "iwr xs i v = (if i < 0 then None else wr xs (nat i) v)"

definition mget :: "maze_state \<Rightarrow> int \<Rightarrow> int \<Rightarrow> byte option" where
  "mget s x y = ird (maze s) (MAZE_INDEX s x y)"

definition mput :: "int \<Rightarrow> int \<Rightarrow> byte \<Rightarrow> maze_state \<Rightarrow> maze_state option" where
  "mput x y v s = do { m \<leftarrow> iwr (maze s) (MAZE_INDEX s x y) v; Some (s\<lparr>maze := m\<rparr>) }"

text \<open>\<^verbatim>\<open>random() % n\<close>.\<close>

definition rnd :: "int \<Rightarrow> maze_state \<Rightarrow> (int \<times> maze_state) option" where
  "rnd n s =
    (case rands s of [] \<Rightarrow> None | r # rs \<Rightarrow> if n = 0 then None else Some (int r mod n, s\<lparr>rands := rs\<rparr>))"

section \<open>Marking a connected area\<close>

text \<open>Exploring one direction from index \<^verbatim>\<open>cur\<close>: \<^verbatim>\<open>w\<close> and \<^verbatim>\<open>c\<close> are the offsets of the wall and
  of the location behind it.  The queue is the list of everything put into \<^verbatim>\<open>q\<close> so far.\<close>

definition explore :: "int \<Rightarrow> int \<Rightarrow> int \<Rightarrow> byte list \<times> int list \<Rightarrow> (byte list \<times> int list) option" where
  "explore cur w c mq =
    (case mq of (m, q) \<Rightarrow> do {
       wall \<leftarrow> ird m (cur + w);
       if wall AND MAZE_WALL \<noteq> 0 then Some (m, q)
       else do {
         b \<leftarrow> ird m (cur + c);
         if b AND MAZE_REACH \<noteq> 0 then Some (m, q)
         else do {
           m1 \<leftarrow> iwr m (cur + c) (b OR MAZE_REACH);
           if length q < QUEUE_SIZE then Some (m1, q @ [cur + c]) else None } } })"

definition explore_all :: "int \<Rightarrow> int \<Rightarrow> byte list \<times> int list \<Rightarrow> (byte list \<times> int list) option" where
  "explore_all xd cur mq = do {
     mq1 \<leftarrow> explore cur (- 2 * xd) (- 4 * xd) mq;
     mq2 \<leftarrow> explore cur 1 2 mq1;
     mq3 \<leftarrow> explore cur (2 * xd) (4 * xd) mq2;
     explore cur (- 1) (- 2) mq3 }"

partial_function (option) mark_loop :: "int \<Rightarrow> nat \<Rightarrow> byte list \<Rightarrow> int list \<Rightarrow> (byte list \<times> int list) option" where
  "mark_loop xd q_start m q =
    (if q_start = length q then Some (m, q)
     else do {
       (m1, q1) \<leftarrow> explore_all xd (q ! q_start) (m, q);
       mark_loop xd (q_start + 1) m1 q1 })"

definition mark_maze_area :: "int \<Rightarrow> int \<Rightarrow> maze_state \<Rightarrow> (int \<times> maze_state) option" where
  "mark_maze_area x y s = do {
     b \<leftarrow> mget s x y;
     s1 \<leftarrow> mput x y (b OR MAZE_REACH) s;
     (m, q) \<leftarrow> mark_loop (maze_x_dim s) 0 (maze s1) [MAZE_INDEX s x y];
     Some (int (length q), s1\<lparr>maze := m\<rparr>) }"

section \<open>Blocks and drawing\<close>

definition fruit_number :: "byte \<Rightarrow> nat" where
  "fruit_number b = unat (b AND MAZE_FRUIT) div 2"

definition find_block :: "int \<Rightarrow> int \<Rightarrow> maze_state \<Rightarrow> nat option" where
  "find_block x y s = do {
     b \<leftarrow> mget s x y;
     let fnum = fruit_number b;
     if n_fruits s = 0 \<and> b AND MAZE_EXIT \<noteq> 0 then Some BLOCK_EXIT
     else if b AND MAZE_REACH = 0 then Some (if fnum \<noteq> 0 then BLOCK_FRUIT_SHADOW else BLOCK_SHADOW)
     else if fnum \<noteq> 0 then Some (BLOCK_FRUIT_1 + fnum - 1)
     else if b AND MAZE_WALL = 0 then Some BLOCK_EMPTY
     else do {
       n \<leftarrow> mget s x (y - 1);
       e \<leftarrow> mget s (x + 1) y;
       d \<leftarrow> mget s x (y + 1);
       w \<leftarrow> mget s (x - 1) y;
       Some ((if n AND MAZE_WALL \<noteq> 0 then 1 else 0) + (if e AND MAZE_WALL \<noteq> 0 then 2 else 0) +
             (if d AND MAZE_WALL \<noteq> 0 then 4 else 0) + (if w AND MAZE_WALL \<noteq> 0 then 8 else 0)) } }"

definition record_block :: "int \<Rightarrow> int \<Rightarrow> nat \<Rightarrow> maze_state \<Rightarrow> maze_state" where
  "record_block px py blk s = s\<lparr>drawn := drawn s @ [(px, py, blk)]\<rparr>"

text \<open>Redrawing the block at a lattice point.\<close>

definition redraw :: "int \<Rightarrow> int \<Rightarrow> maze_state \<Rightarrow> maze_state option" where
  "redraw x y s = do {
     blk \<leftarrow> find_block x y s;
     Some (record_block (x * BLOCK_X_DIM) (y * BLOCK_Y_DIM) blk s) }"

text \<open>The line buffers.  \<^verbatim>\<open>blocks\<close> are the images of \<^verbatim>\<open>blocks.s\<close>: number, row, column.  The
  inner loops copy the rest of the current block, at most to the end of the line.\<close>

function horiz_loop ::
    "(nat \<Rightarrow> int \<Rightarrow> int \<Rightarrow> byte) \<Rightarrow> maze_state \<Rightarrow> nat \<Rightarrow> int \<Rightarrow> int \<Rightarrow> int \<Rightarrow> int \<Rightarrow> nat \<Rightarrow> byte list option" where
  "horiz_loop blocks s dim map_x map_y sub_x sub_y idx =
    (if idx < dim then do {
       blk \<leftarrow> find_block map_x map_y s;
       let n = min (dim - idx) (nat (BLOCK_X_DIM - sub_x));
       rest \<leftarrow> horiz_loop blocks s dim (map_x + 1) map_y 0 sub_y (idx + n);
       Some (map (\<lambda>i. blocks blk sub_y (sub_x + int i)) [0..<n] @ rest) }
     else Some [])"
  by pat_completeness auto
termination
  by (relation "measure (\<lambda>(blocks, s, dim, mx, my, sx, sy, idx). 2 * (dim - idx) + (if sx < BLOCK_X_DIM then 0 else 1))")
    (auto simp: BLOCK_X_DIM_def split: if_splits)

declare horiz_loop.simps [simp del]

definition fill_horiz_buffer ::
    "(nat \<Rightarrow> int \<Rightarrow> int \<Rightarrow> byte) \<Rightarrow> int \<Rightarrow> int \<Rightarrow> maze_state \<Rightarrow> byte list option" where
  "fill_horiz_buffer blocks x y s =
    (let map_x = x sdiv BLOCK_X_DIM; map_y = y sdiv BLOCK_Y_DIM
     in horiz_loop blocks s 320 map_x map_y (x - map_x * BLOCK_X_DIM) (y - map_y * BLOCK_Y_DIM) 0)"

function vert_loop ::
    "(nat \<Rightarrow> int \<Rightarrow> int \<Rightarrow> byte) \<Rightarrow> maze_state \<Rightarrow> nat \<Rightarrow> int \<Rightarrow> int \<Rightarrow> int \<Rightarrow> int \<Rightarrow> nat \<Rightarrow> byte list option" where
  "vert_loop blocks s dim map_x map_y sub_x sub_y idx =
    (if idx < dim then do {
       blk \<leftarrow> find_block map_x map_y s;
       let n = min (dim - idx) (nat (BLOCK_Y_DIM - sub_y));
       rest \<leftarrow> vert_loop blocks s dim map_x (map_y + 1) sub_x 0 (idx + n);
       Some (map (\<lambda>i. blocks blk (sub_y + int i) sub_x) [0..<n] @ rest) }
     else Some [])"
  by pat_completeness auto
termination
  by (relation "measure (\<lambda>(blocks, s, dim, mx, my, sx, sy, idx). 2 * (dim - idx) + (if sy < BLOCK_Y_DIM then 0 else 1))")
    (auto simp: BLOCK_Y_DIM_def split: if_splits)

declare vert_loop.simps [simp del]

definition fill_vert_buffer ::
    "(nat \<Rightarrow> int \<Rightarrow> int \<Rightarrow> byte) \<Rightarrow> int \<Rightarrow> int \<Rightarrow> maze_state \<Rightarrow> byte list option" where
  "fill_vert_buffer blocks x y s =
    (let map_x = x sdiv BLOCK_X_DIM; map_y = y sdiv BLOCK_Y_DIM
     in vert_loop blocks s 182 map_x map_y (x - map_x * BLOCK_X_DIM) (y - map_y * BLOCK_Y_DIM) 0)"

section \<open>Playing: unveiling, fruits, winning\<close>

definition unveil_space :: "int \<Rightarrow> int \<Rightarrow> maze_state \<Rightarrow> maze_state option" where
  "unveil_space x y s =
    (if x < 0 \<or> x > 2 * maze_x_dim s \<or> y < 0 \<or> y > 2 * maze_y_dim s then Some s
     else do {
       b \<leftarrow> mget s x y;
       if b AND MAZE_REACH \<noteq> 0 then Some s
       else do { s1 \<leftarrow> mput x y (b OR MAZE_REACH) s; redraw x y s1 } })"

definition check_for_fruit :: "int \<Rightarrow> int \<Rightarrow> maze_state \<Rightarrow> (nat \<times> maze_state) option" where
  "check_for_fruit x y s =
    (if x < 0 \<or> x \<ge> 2 * maze_x_dim s \<or> y < 0 \<or> y \<ge> 2 * maze_y_dim s then Some (0, s)
     else do {
       b \<leftarrow> mget s x y;
       let fnum = fruit_number b;
       if fnum = 0 then Some (0, s)
       else do {
         s1 \<leftarrow> mput x y (b AND NOT MAZE_FRUIT) s;
         let s2 = s1\<lparr>n_fruits := n_fruits s1 - 1\<rparr>;
         s3 \<leftarrow> (if n_fruits s2 = 0 then redraw (exit_x s2) (exit_y s2) s2 else Some s2);
         s4 \<leftarrow> redraw x y s3;
         Some (fnum, s4) } })"

definition GET_FRUITS :: "maze_state \<Rightarrow> int" where
  "GET_FRUITS s = n_fruits s"

definition check_for_win :: "int \<Rightarrow> int \<Rightarrow> maze_state \<Rightarrow> bool option" where
  "check_for_win x y s =
    (if x < 0 \<or> x \<ge> 2 * maze_x_dim s \<or> y < 0 \<or> y \<ge> 2 * maze_y_dim s then Some False
     else do { b \<leftarrow> mget s x y; Some (n_fruits s = 0 \<and> b AND MAZE_EXIT \<noteq> 0) })"

text \<open>Picking a random lattice point with odd coordinates while the byte there satisfies
  \<^verbatim>\<open>again\<close>; the loop of four places of the file.\<close>

partial_function (option) pick_point :: "(byte \<Rightarrow> bool) \<Rightarrow> maze_state \<Rightarrow> (int \<times> int \<times> maze_state) option" where
  "pick_point again s = do {
     (r1, s1) \<leftarrow> rnd (maze_x_dim s) s;
     (r2, s2) \<leftarrow> rnd (maze_y_dim s1) s1;
     let x = r1 * 2 + 1;
     let y = r2 * 2 + 1;
     b \<leftarrow> mget s2 x y;
     if again b then pick_point again s2 else Some (x, y, s2) }"

definition add_a_fruit_at :: "bool \<Rightarrow> maze_state \<Rightarrow> maze_state option" where
  "add_a_fruit_at show' s = do {
     (x, y, s1) \<leftarrow> pick_point (\<lambda>b. b AND MAZE_FRUIT \<noteq> 0) s;
     (r, s2) \<leftarrow> rnd (int NUM_FRUIT_TYPES) s1;
     b \<leftarrow> mget s2 x y;
     s3 \<leftarrow> mput x y (b OR (word_of_int (r + 1) * MAZE_FRUIT_1)) s2;
     let s4 = s3\<lparr>n_fruits := n_fruits s3 + 1\<rparr>;
     if show' then redraw x y s4 else Some s4 }"

definition add_a_fruit :: "maze_state \<Rightarrow> (int \<times> maze_state) option" where
  "add_a_fruit s = do {
     s1 \<leftarrow> add_a_fruit_at True s;
     s2 \<leftarrow> (if n_fruits s1 = 1 then redraw (exit_x s1) (exit_y s1) s1 else Some s1);
     Some (n_fruits s2, s2) }"

definition add_a_fruit_internal :: "maze_state \<Rightarrow> maze_state option" where
  "add_a_fruit_internal s = add_a_fruit_at False s"

definition get_player_block :: "dir_t \<Rightarrow> nat" where
  "get_player_block cur_dir = BLOCK_PLAYER_UP + dir_num cur_dir"

definition get_player_mask :: "dir_t \<Rightarrow> nat" where
  "get_player_mask cur_dir = BLOCK_PLAYER_MASK_UP + dir_num cur_dir"

definition find_open_directions :: "int \<Rightarrow> int \<Rightarrow> maze_state \<Rightarrow> bool list option" where
  "find_open_directions x y s = do {
     u \<leftarrow> mget s x (y - 1);
     r \<leftarrow> mget s (x + 1) y;
     d \<leftarrow> mget s x (y + 1);
     l \<leftarrow> mget s (x - 1) y;
     Some [u AND MAZE_WALL = 0, r AND MAZE_WALL = 0, d AND MAZE_WALL = 0, l AND MAZE_WALL = 0] }"

section \<open>Generation\<close>

definition turn_wt :: "nat list list" where
  "turn_wt = [[1, 84], [1, 9], [3, 3], [1, 9]]"

text \<open>The cumulative weights \<^verbatim>\<open>wt\<close> of the four directions.\<close>

definition add_weight :: "bool \<Rightarrow> nat \<Rightarrow> int \<Rightarrow> int \<Rightarrow> maze_state \<Rightarrow> nat \<Rightarrow> nat option" where
  "add_weight inside turn x y s acc =
    (if inside then do {
       b \<leftarrow> mget s x y;
       Some (acc + turn_wt ! (turn mod 4) ! (if b = MAZE_WALL then 1 else 0)) }
     else Some acc)"

definition worm_weights :: "int \<Rightarrow> int \<Rightarrow> nat \<Rightarrow> maze_state \<Rightarrow> nat list option" where
  "worm_weights x y pref_dir s = do {
     w0 \<leftarrow> add_weight (y > 1) pref_dir x (y - 2) s 0;
     w1 \<leftarrow> add_weight (x < maze_x_dim s * 2 - 1) (pref_dir + 3) (x + 2) y s w0;
     w2 \<leftarrow> add_weight (y < maze_y_dim s * 2 - 1) (pref_dir + 2) x (y + 2) s w1;
     w3 \<leftarrow> add_weight (x > 1) (pref_dir + 1) (x - 2) y s w2;
     Some [w0, w1, w2, w3] }"

fun pick_dir :: "nat \<Rightarrow> nat list \<Rightarrow> nat" where
  "pick_dir pick [] = 0"
| "pick_dir pick (w # ws) = (if w \<le> pick then Suc (pick_dir pick ws) else 0)"

text \<open>One move: dig the space between, then eat the wall at the new point if there is one.\<close>

definition worm_move :: "nat \<Rightarrow> int \<Rightarrow> int \<Rightarrow> int \<Rightarrow> maze_state \<Rightarrow> (int \<times> int \<times> int \<times> maze_state) option" where
  "worm_move dir x y remaining s =
    (let (dx, dy) = (if dir = 0 then (0, - 1) else if dir = 1 then (1, 0) else if dir = 2 then (0, 1) else (- 1, 0))
     in do {
       s1 \<leftarrow> mput (x + dx) (y + dy) MAZE_NONE s;
       let x1 = x + 2 * dx;
       let y1 = y + 2 * dy;
       b \<leftarrow> mget s1 x1 y1;
       s2 \<leftarrow> mput x1 y1 MAZE_NONE s1;
       Some (x1, y1, if b = MAZE_WALL then remaining - 1 else remaining, s2) })"

partial_function (option) worm_loop ::
    "int \<Rightarrow> int \<Rightarrow> nat \<Rightarrow> int \<Rightarrow> maze_state \<Rightarrow> (int \<times> int \<times> int \<times> maze_state) option" where
  "worm_loop x y pref_dir remaining s = do {
     wt \<leftarrow> worm_weights x y pref_dir s;
     (pick, s1) \<leftarrow> rnd (int (wt ! 3)) s;
     let dir = pick_dir (nat pick) wt;
     if (dir + 4 - pref_dir) mod 4 = 2 then Some (x, y, remaining, s1)
     else do {
       (x1, y1, rem1, s2) \<leftarrow> worm_move dir x y remaining s1;
       worm_loop x1 y1 dir rem1 s2 } }"

partial_function (option) worm_phase :: "int \<Rightarrow> maze_state \<Rightarrow> (int \<times> int \<times> maze_state) option" where
  "worm_phase remaining s = do {
     (x, y, s1) \<leftarrow> pick_point (\<lambda>b. b AND MAZE_WALL = 0) s;
     s2 \<leftarrow> mput x y MAZE_NONE s1;
     (pref_dir, s3) \<leftarrow> rnd 4 s2;
     (x1, y1, rem1, s4) \<leftarrow> worm_loop x y (nat pref_dir) (remaining - 1) s3;
     if rem1 > 0 then worm_phase rem1 s4 else Some (x1, y1, s4) }"

text \<open>Choosing the next point of the second phase: \<^verbatim>\<open>Inl\<close> for the \<^verbatim>\<open>continue\<close> of the scan.\<close>

definition next_point ::
    "int \<Rightarrow> int \<Rightarrow> int \<Rightarrow> int \<Rightarrow> maze_state \<Rightarrow> (bool \<times> int \<times> int \<times> int \<times> maze_state) option" where
  "next_point x y remaining trials s =
    (let trials1 = (if remaining < 20 then trials else trials + 1)
     in if remaining < 20 \<or> trials1 > 100 then
       (let x1 = (if x + 2 > maze_x_dim s * 2 then x + 2 - maze_x_dim s * 2 else x + 2);
            y1 = (if x + 2 > maze_x_dim s * 2
                  then (if y + 2 > 2 * maze_y_dim s then y + 2 - 2 * maze_y_dim s else y + 2) else y)
        in do { b \<leftarrow> mget s x1 y1; Some (b AND MAZE_REACH = 0, x1, y1, trials1, s) })
     else do {
       (x1, y1, s1) \<leftarrow> pick_point (\<lambda>b. b AND MAZE_REACH \<noteq> 0) s;
       Some (True, x1, y1, trials1, s1) })"

text \<open>Knocking down a wall towards a reached neighbour; the flag says whether there was one.\<close>

definition reached :: "int \<Rightarrow> maze_state \<Rightarrow> bool option" where
  "reached i s = do { b \<leftarrow> ird (maze s) i; Some (b AND MAZE_REACH \<noteq> 0) }"

definition try_open :: "bool \<Rightarrow> int \<Rightarrow> int \<Rightarrow> int \<Rightarrow> maze_state \<Rightarrow> (bool \<times> maze_state) option" where
  "try_open inside cur c w s =
    (if \<not> inside then Some (False, s)
     else do {
       r \<leftarrow> reached (cur + c) s;
       if r then do { m \<leftarrow> iwr (maze s) (cur + w) MAZE_NONE; Some (True, s\<lparr>maze := m\<rparr>) }
       else Some (False, s) })"

definition connect_point :: "int \<Rightarrow> int \<Rightarrow> maze_state \<Rightarrow> (bool \<times> maze_state) option" where
  "connect_point x y s =
    (let cur = MAZE_INDEX s x y; xd = maze_x_dim s; yd = maze_y_dim s
     in do {
       (d0, s0) \<leftarrow> try_open (y > 1) cur (- 4 * xd) (- 2 * xd) s;
       if d0 then Some (True, s0) else do {
       (d1, s1) \<leftarrow> try_open (x > 1) cur (- 2) (- 1) s0;
       if d1 then Some (True, s1) else do {
       (d2, s2) \<leftarrow> try_open (x < 2 * xd - 1) cur 2 1 s1;
       if d2 then Some (True, s2) else try_open (y < 2 * yd - 1) cur (4 * xd) (2 * xd) s2 } } })"

partial_function (option) connect_loop ::
    "int \<Rightarrow> int \<Rightarrow> int \<Rightarrow> int \<Rightarrow> maze_state \<Rightarrow> maze_state option" where
  "connect_loop x y remaining trials s = do {
     (fresh, x1, y1, trials1, s1) \<leftarrow> next_point x y remaining trials s;
     (rem2, s2) \<leftarrow>
       (if \<not> fresh then Some (remaining, s1)
        else do {
          (opened, s') \<leftarrow> connect_point x1 y1 s1;
          if opened then do { (n, s'') \<leftarrow> mark_maze_area x1 y1 s'; Some (remaining - n, s'') }
          else Some (remaining, s') });
     if rem2 > 0 then connect_loop x1 y1 rem2 trials1 s2 else Some s2 }"

text \<open>Applying an update to the byte at each of a list of points: the two nested loops at
  the end.\<close>

fun update_points :: "(byte \<Rightarrow> byte) \<Rightarrow> (int \<times> int) list \<Rightarrow> maze_state \<Rightarrow> maze_state option" where
  "update_points f [] s = Some s"
| "update_points f ((x, y) # ps) s = do {
     b \<leftarrow> mget s x y;
     s1 \<leftarrow> mput x y (f b) s;
     update_points f ps s1 }"

definition odd_points :: "maze_state \<Rightarrow> (int \<times> int) list" where
  "odd_points s = [(2 * i + 1, 2 * j + 1). i \<leftarrow> [0..maze_x_dim s - 1], j \<leftarrow> [0..maze_y_dim s - 1]]"

definition inner_points :: "maze_state \<Rightarrow> (int \<times> int) list" where
  "inner_points s = [(x, y). x \<leftarrow> [1..2 * maze_x_dim s - 1], y \<leftarrow> [1..2 * maze_y_dim s - 1]]"

fun add_fruits :: "nat \<Rightarrow> maze_state \<Rightarrow> maze_state option" where
  "add_fruits 0 s = Some s"
| "add_fruits (Suc n) s = do { s1 \<leftarrow> add_a_fruit_internal s; add_fruits n s1 }"

definition place_exit :: "maze_state \<Rightarrow> maze_state option" where
  "place_exit s = do {
     (x, y, s1) \<leftarrow> pick_point (\<lambda>b. b AND MAZE_FRUIT \<noteq> 0) s;
     b \<leftarrow> mget s1 x y;
     s2 \<leftarrow> mput x y (b OR MAZE_EXIT) s1;
     Some (s2\<lparr>exit_x := x, exit_y := y\<rparr>) }"

text \<open>\<^verbatim>\<open>GOD_MODE\<close> is 1 in the source, so the walls inside are removed at the end.\<close>

definition make_maze :: "int \<Rightarrow> int \<Rightarrow> int \<Rightarrow> maze_state \<Rightarrow> (int \<times> maze_state) option" where
  "make_maze x_dim y_dim start_fruits s =
    (if x_dim < MAZE_MIN_X_DIM \<or> x_dim > MAZE_MAX_X_DIM \<or> y_dim < MAZE_MIN_Y_DIM \<or> y_dim > MAZE_MAX_Y_DIM
     then Some (- 1, s)
     else do {
       let s0 = s\<lparr>maze_x_dim := x_dim, maze_y_dim := y_dim, maze := replicate MAZE_SIZE MAZE_WALL\<rparr>;
       (x, y, s1) \<leftarrow> worm_phase (x_dim * y_dim) s0;
       (n, s2) \<leftarrow> mark_maze_area 1 1 s1;
       s3 \<leftarrow> connect_loop x y (x_dim * y_dim - n) 0 s2;
       s4 \<leftarrow> update_points (\<lambda>b. b AND NOT MAZE_REACH) (odd_points s3) s3;
       s5 \<leftarrow> update_points (\<lambda>b. MAZE_NONE) (inner_points s4) s4;
       s6 \<leftarrow> add_fruits (nat start_fruits) (s5\<lparr>n_fruits := 0\<rparr>);
       s7 \<leftarrow> place_exit s6;
       Some (0, s7) })"

end
