(* ===== verification/MazeReach.thy ===== *)
theory MazeReach
  imports Maze
begin

text \<open>\<^verbatim>\<open>mark_maze_area\<close> computes connectivity: it marks exactly the locations connected to
  the start through open spaces and unmarked locations, returns their number, and
  its queue of 1500 entries never overflows.\<close>

section \<open>Specification\<close>

definition offsets :: "int \<Rightarrow> (int \<times> int) list" where
  "offsets xd = [(- 2 * xd, - 4 * xd), (1, 2), (2 * xd, 4 * xd), (- 1, - 2)]"

definition is_open :: "byte list \<Rightarrow> int \<Rightarrow> bool" where
  "is_open m i \<longleftrightarrow> m ! nat i AND MAZE_WALL = 0"

definition is_marked :: "byte list \<Rightarrow> int \<Rightarrow> bool" where
  "is_marked m i \<longleftrightarrow> m ! nat i AND MAZE_REACH \<noteq> 0"

inductive connected :: "int \<Rightarrow> byte list \<Rightarrow> int \<Rightarrow> int \<Rightarrow> bool" for xd m a where
  start: "connected xd m a a"
| step: "connected xd m a b \<Longrightarrow> (w, c) \<in> set (offsets xd) \<Longrightarrow> is_open m (b + w) \<Longrightarrow> \<not> is_marked m (b + c) \<Longrightarrow>
    connected xd m a (b + c)"

text \<open>The maze with the locations of a set marked.\<close>

definition marked_at :: "byte list \<Rightarrow> int set \<Rightarrow> byte list" where
  "marked_at m Q = map (\<lambda>i. if int i \<in> Q then m ! i OR MAZE_REACH else m ! i) [0..<length m]"

text \<open>A set of locations the search cannot leave.\<close>

definition closed_area :: "int \<Rightarrow> byte list \<Rightarrow> int set \<Rightarrow> bool" where
  "closed_area xd m C \<longleftrightarrow> finite C \<and> card C \<le> QUEUE_SIZE \<and>
     (\<forall>p \<in> C. 0 \<le> p \<and> p < int (length m) \<and>
        (\<forall>(w, c) \<in> set (offsets xd). 0 \<le> p + w \<and> p + w < int (length m) \<and> (is_open m (p + w) \<longrightarrow> p + c \<in> C)))"

section \<open>Facts\<close>

lemma length_marked_at [simp]: "length (marked_at m Q) = length m"
  by (simp add: marked_at_def)

lemma nth_marked_at:
  "0 \<le> i \<Longrightarrow> i < int (length m) \<Longrightarrow>
   marked_at m Q ! nat i = (if i \<in> Q then m ! nat i OR MAZE_REACH else m ! nat i)"
  by (simp add: marked_at_def)

lemma reach_bits:
  "(b OR MAZE_REACH) AND MAZE_WALL = b AND MAZE_WALL" "(b OR MAZE_REACH) AND MAZE_REACH = MAZE_REACH"
  "MAZE_REACH \<noteq> 0" "(b OR MAZE_REACH) OR MAZE_REACH = b OR MAZE_REACH"
proof -
  show "(b OR MAZE_REACH) AND MAZE_WALL = b AND MAZE_WALL"
    unfolding maze_bits by (simp add: bit.conj_disj_distrib2)
  show "(b OR MAZE_REACH) AND MAZE_REACH = MAZE_REACH" by (simp add: bit.conj_disj_distrib2 and.commute)
  show "MAZE_REACH \<noteq> 0" by (simp add: maze_bits)
  show "(b OR MAZE_REACH) OR MAZE_REACH = b OR MAZE_REACH" by (simp add: or.assoc)
qed

lemma marked_at_bits:
  assumes "0 \<le> i" "i < int (length m)"
  shows "marked_at m Q ! nat i AND MAZE_WALL = m ! nat i AND MAZE_WALL"
    "(marked_at m Q ! nat i AND MAZE_REACH \<noteq> 0) = (i \<in> Q \<or> is_marked m i)"
  using assms by (auto simp: nth_marked_at reach_bits is_marked_def)

lemma marked_at_insert:
  assumes "0 \<le> i" "i < int (length m)"
  shows "(marked_at m Q)[nat i := marked_at m Q ! nat i OR MAZE_REACH] = marked_at m (insert i Q)"
  using assms by (intro nth_equalityI) (auto simp: nth_list_update marked_at_def reach_bits)

lemma ird_in: "0 \<le> i \<Longrightarrow> i < int (length xs) \<Longrightarrow> ird xs i = Some (xs ! nat i)"
  by (simp add: ird_def rd_in nat_less_iff)

lemma iwr_in: "0 \<le> i \<Longrightarrow> i < int (length xs) \<Longrightarrow> iwr xs i v = Some (xs[nat i := v])"
  by (simp add: iwr_def wr_in nat_less_iff)

text \<open>What exploring one direction adds to the queue.\<close>

definition fresh :: "byte list \<Rightarrow> int list \<Rightarrow> int \<Rightarrow> int \<Rightarrow> int \<Rightarrow> int list" where
  "fresh m q cur w c =
    (if is_open m (cur + w) \<and> \<not> is_marked m (cur + c) \<and> cur + c \<notin> set q then [cur + c] else [])"

lemma explore_spec:
  assumes "closed_area xd m C" "cur \<in> C" "(w, c) \<in> set (offsets xd)" "set q \<subseteq> C" "distinct q"
  shows "explore cur w c (marked_at m (set q), q) =
      Some (marked_at m (set (q @ fresh m q cur w c)), q @ fresh m q cur w c)"
    "set (q @ fresh m q cur w c) \<subseteq> C" "distinct (q @ fresh m q cur w c)"
proof -
  have w: "0 \<le> cur + w" "cur + w < int (length m)" "is_open m (cur + w) \<Longrightarrow> cur + c \<in> C"
    using assms(1-3) by (fastforce simp: closed_area_def)+
  show "set (q @ fresh m q cur w c) \<subseteq> C" "distinct (q @ fresh m q cur w c)"
    using assms(4,5) w(3) by (auto simp: fresh_def)
  show "explore cur w c (marked_at m (set q), q) =
      Some (marked_at m (set (q @ fresh m q cur w c)), q @ fresh m q cur w c)"
  proof (cases "is_open m (cur + w)")
    case False
    then show ?thesis
      using w marked_at_bits(1)[OF w(1,2), of "set q"] by (simp add: explore_def ird_in fresh_def is_open_def)
  next
    case True
    then have c: "0 \<le> cur + c" "cur + c < int (length m)" "cur + c \<in> C"
      using assms(1) w(3) by (auto simp: closed_area_def)
    have open_w: "marked_at m (set q) ! nat (cur + w) AND MAZE_WALL = 0"
      using marked_at_bits(1)[OF w(1,2), of "set q"] True by (simp add: is_open_def)
    show ?thesis
    proof (cases "cur + c \<in> set q \<or> is_marked m (cur + c)")
      case True
      then have "marked_at m (set q) ! nat (cur + c) AND MAZE_REACH \<noteq> 0"
        using marked_at_bits(2)[OF c(1,2), of "set q"] by simp
      then show ?thesis using w c True open_w by (auto simp: explore_def ird_in fresh_def)
    next
      case False
      then have un: "marked_at m (set q) ! nat (cur + c) AND MAZE_REACH = 0"
        using marked_at_bits(2)[OF c(1,2), of "set q"] by simp
      have "distinct ((cur + c) # q)" "set ((cur + c) # q) \<subseteq> C" using False assms(4,5) c(3) by auto
      then have "Suc (length q) \<le> card C"
        using assms(1) by (metis card_mono closed_area_def distinct_card length_Cons)
      then have "length q < QUEUE_SIZE" using assms(1) by (simp add: closed_area_def)
      then show ?thesis
        using w c False True open_w un
        by (simp add: explore_def ird_in iwr_in fresh_def marked_at_insert)
    qed
  qed
qed

text \<open>All four directions: the queue grows by locations reached in one step, and all of
  those end up in it.\<close>

lemma explore_all_spec:
  assumes "closed_area xd m C" "cur \<in> C" "set q \<subseteq> C" "distinct q"
  shows "\<exists>ps. explore_all xd cur (marked_at m (set q), q) = Some (marked_at m (set (q @ ps)), q @ ps) \<and>
    set (q @ ps) \<subseteq> C \<and> distinct (q @ ps) \<and>
    (\<forall>p \<in> set ps. \<exists>(w, c) \<in> set (offsets xd). is_open m (cur + w) \<and> \<not> is_marked m (cur + c) \<and> p = cur + c) \<and>
    (\<forall>(w, c) \<in> set (offsets xd). is_open m (cur + w) \<and> \<not> is_marked m (cur + c) \<longrightarrow> cur + c \<in> set (q @ ps))"
proof -
  define q1 where "q1 = q @ fresh m q cur (- 2 * xd) (- 4 * xd)"
  define q2 where "q2 = q1 @ fresh m q1 cur 1 2"
  define q3 where "q3 = q2 @ fresh m q2 cur (2 * xd) (4 * xd)"
  define q4 where "q4 = q3 @ fresh m q3 cur (- 1) (- 2)"
  have o: "(- 2 * xd, - 4 * xd) \<in> set (offsets xd)" "(1, 2) \<in> set (offsets xd)"
    "(2 * xd, 4 * xd) \<in> set (offsets xd)" "(- 1, - 2) \<in> set (offsets xd)"
    by (simp_all add: offsets_def)
  note e1 = explore_spec[OF assms(1,2) o(1) assms(3,4), folded q1_def]
  note e2 = explore_spec[OF assms(1,2) o(2) e1(2,3), folded q2_def]
  note e3 = explore_spec[OF assms(1,2) o(3) e2(2,3), folded q3_def]
  note e4 = explore_spec[OF assms(1,2) o(4) e3(2,3), folded q4_def]
  define ps where "ps = drop (length q) q4"
  have q4: "q4 = q @ ps" by (simp add: ps_def q4_def q3_def q2_def q1_def)
  have ps: "ps = fresh m q cur (- 2 * xd) (- 4 * xd) @ fresh m q1 cur 1 2 @
      fresh m q2 cur (2 * xd) (4 * xd) @ fresh m q3 cur (- 1) (- 2)"
    by (simp add: ps_def q4_def q3_def q2_def q1_def)
  have run: "explore_all xd cur (marked_at m (set q), q) = Some (marked_at m (set q4), q4)"
    by (simp only: explore_all_def e1(1) e2(1) e3(1) e4(1) bind.bind_lunit)
  have sub: "set q \<subseteq> set q1" "set q1 \<subseteq> set q2" "set q2 \<subseteq> set q3" "set q3 \<subseteq> set q4"
    by (auto simp: q4_def q3_def q2_def q1_def)
  have add: "cur + c \<in> set (l @ fresh m l cur w c)" if "is_open m (cur + w)" "\<not> is_marked m (cur + c)" for l w c
    using that by (auto simp: fresh_def)
  have all: "cur + c \<in> set q4" if "(w, c) \<in> set (offsets xd)" "is_open m (cur + w)" "\<not> is_marked m (cur + c)" for w c
  proof -
    have "(w = - 2 * xd \<and> c = - 4 * xd) \<or> (w = 1 \<and> c = 2) \<or> (w = 2 * xd \<and> c = 4 * xd) \<or> (w = - 1 \<and> c = - 2)"
      using that(1) by (auto simp: offsets_def)
    then consider "w = - 2 * xd" "c = - 4 * xd" | "w = 1" "c = 2" | "w = 2 * xd" "c = 4 * xd" | "w = - 1" "c = - 2"
      by blast
    then show ?thesis
    proof cases
      case 1 then show ?thesis using add[OF that(2,3), of q] sub unfolding 1 q1_def[symmetric] by blast
    next
      case 2 then show ?thesis using add[OF that(2,3), of q1] sub unfolding 2 q2_def[symmetric] by blast
    next
      case 3 then show ?thesis using add[OF that(2,3), of q2] sub unfolding 3 q3_def[symmetric] by blast
    next
      case 4 then show ?thesis using add[OF that(2,3), of q3] unfolding 4 q4_def[symmetric] by blast
    qed
  qed
  have "\<exists>(w, c) \<in> set (offsets xd). is_open m (cur + w) \<and> \<not> is_marked m (cur + c) \<and> p = cur + c"
    if "p \<in> set (fresh m l cur w c)" "(w, c) \<in> set (offsets xd)" for p l w c
    using that by (auto simp: fresh_def split: if_splits)
  then have "\<forall>p \<in> set ps. \<exists>(w, c) \<in> set (offsets xd). is_open m (cur + w) \<and> \<not> is_marked m (cur + c) \<and> p = cur + c"
    unfolding ps using o by (simp only: set_append Un_iff) blast
  with run e4(2,3) all show ?thesis unfolding q4 by (intro exI[of _ ps]) auto
qed

lemma connected_in_area:
  assumes "closed_area xd m C" "a \<in> C" "connected xd m a b"
  shows "b \<in> C"
  using assms(3,1,2) by (induction) (auto simp: closed_area_def)

text \<open>The search: everything in the queue is connected to the start, and what has been
  taken from the queue has all its successors in it.\<close>

lemma mark_loop_spec:
  assumes "closed_area xd m C" "a \<in> C"
    and "distinct q" "a \<in> set q" "\<forall>p \<in> set q. connected xd m a p" "k \<le> length q"
    and "\<forall>p \<in> set (take k q). \<forall>(w, c) \<in> set (offsets xd). is_open m (p + w) \<and> \<not> is_marked m (p + c) \<longrightarrow> p + c \<in> set q"
  shows "\<exists>q'. mark_loop xd k (marked_at m (set q)) q = Some (marked_at m (set q'), q') \<and> distinct q' \<and>
    set q' = {p. connected xd m a p}"
  using assms(3-7)
proof (induction "card C - k" arbitrary: q k rule: less_induct)
  case less
  have inC: "set q \<subseteq> C" using less.prems(3) connected_in_area[OF assms(1,2)] by blast
  have fin: "finite C" using assms(1) by (simp add: closed_area_def)
  show ?case
  proof (cases "k = length q")
    case True
    have "p \<in> set q" if "connected xd m a p" for p
      using that
    proof induction
      case (step b w c) then show ?case using less.prems(5) True by fastforce
    qed (rule less.prems(2))
    then have "set q = {p. connected xd m a p}" using less.prems(3) by blast
    with True less.prems(1) show ?thesis by (subst mark_loop.simps) auto
  next
    case False
    then have k: "k < length q" using less.prems(4) by simp
    let ?cur = "q ! k"
    have cur: "?cur \<in> C" "connected xd m a ?cur" using k inC less.prems(3) by auto
    obtain ps where e: "explore_all xd ?cur (marked_at m (set q), q) = Some (marked_at m (set (q @ ps)), q @ ps)"
      "distinct (q @ ps)" "set (q @ ps) \<subseteq> C"
      and new: "\<forall>p \<in> set ps. \<exists>(w, c) \<in> set (offsets xd). is_open m (?cur + w) \<and> \<not> is_marked m (?cur + c) \<and> p = ?cur + c"
      and all: "\<forall>(w, c) \<in> set (offsets xd). is_open m (?cur + w) \<and> \<not> is_marked m (?cur + c) \<longrightarrow> ?cur + c \<in> set (q @ ps)"
      using explore_all_spec[OF assms(1) cur(1) inC less.prems(1)] by blast
    have "length q \<le> card C" using inC less.prems(1) fin by (metis card_mono distinct_card)
    then have lt: "card C - (k + 1) < card C - k" using k by simp
    have conn: "\<forall>p \<in> set (q @ ps). connected xd m a p"
      using less.prems(3) new connected.step[OF cur(2)] by fastforce
    have tk: "take (k + 1) (q @ ps) = take k q @ [?cur]" using k by (simp add: take_Suc_conv_app_nth)
    have "\<exists>q'. mark_loop xd (k + 1) (marked_at m (set (q @ ps))) (q @ ps) = Some (marked_at m (set q'), q') \<and>
        distinct q' \<and> set q' = {p. connected xd m a p}"
    proof (rule less.hyps[OF lt e(2) _ conn])
      show "a \<in> set (q @ ps)" "k + 1 \<le> length (q @ ps)" using less.prems(2) k by auto
      show "\<forall>p \<in> set (take (k + 1) (q @ ps)). \<forall>(w, c) \<in> set (offsets xd).
          is_open m (p + w) \<and> \<not> is_marked m (p + c) \<longrightarrow> p + c \<in> set (q @ ps)"
        unfolding tk using less.prems(5) all by auto
    qed
    then show ?thesis using False e(1) by (subst mark_loop.simps) simp
  qed
qed

section \<open>Facts: the lattice is a closed area\<close>

definition lattice :: "maze_state \<Rightarrow> int set" where
  "lattice s = (\<lambda>(i, j). MAZE_INDEX s (2 * i + 1) (2 * j + 1)) ` ({0..<maze_x_dim s} \<times> {0..<maze_y_dim s})"

text \<open>The boundary around the points with odd coordinates is a wall.\<close>

definition walled :: "maze_state \<Rightarrow> bool" where
  "walled s \<longleftrightarrow>
     (\<forall>i \<in> {0..<maze_x_dim s}. \<not> is_open (maze s) (MAZE_INDEX s (2 * i + 1) 0) \<and>
        \<not> is_open (maze s) (MAZE_INDEX s (2 * i + 1) (2 * maze_y_dim s))) \<and>
     (\<forall>j \<in> {0..<maze_y_dim s}. \<not> is_open (maze s) (MAZE_INDEX s 0 (2 * j + 1)) \<and>
        \<not> is_open (maze s) (MAZE_INDEX s (2 * maze_x_dim s) (2 * j + 1)))"

definition dims_ok :: "maze_state \<Rightarrow> bool" where
  "dims_ok s \<longleftrightarrow> 1 \<le> maze_x_dim s \<and> maze_x_dim s \<le> 50 \<and> 1 \<le> maze_y_dim s \<and> maze_y_dim s \<le> 30 \<and>
     length (maze s) = MAZE_SIZE"

lemma index_bounds:
  assumes "dims_ok s" "0 \<le> x" "x \<le> 2 * maze_x_dim s" "0 \<le> y" "y \<le> 2 * maze_y_dim s"
  shows "0 \<le> MAZE_INDEX s x y" "MAZE_INDEX s x y < int (length (maze s))"
proof -
  have "(y + 1) * maze_x_dim s \<le> 61 * 50" using assms by (intro mult_mono) (auto simp: dims_ok_def)
  then show "MAZE_INDEX s x y < int (length (maze s))"
    using assms by (simp add: MAZE_INDEX_def dims_ok_def MAZE_SIZE_def)
  show "0 \<le> MAZE_INDEX s x y" using assms by (simp add: MAZE_INDEX_def dims_ok_def)
qed

lemma in_lattice:
  "0 \<le> i \<Longrightarrow> i < maze_x_dim s \<Longrightarrow> 0 \<le> j \<Longrightarrow> j < maze_y_dim s \<Longrightarrow> MAZE_INDEX s (2 * i + 1) (2 * j + 1) \<in> lattice s"
  by (auto simp: lattice_def)

lemma card_lattice:
  assumes "dims_ok s"
  shows "finite (lattice s)" "card (lattice s) \<le> QUEUE_SIZE"
proof -
  let ?P = "{0..<maze_x_dim s} \<times> {0..<maze_y_dim s}"
  show "finite (lattice s)" by (simp add: lattice_def)
  have "card (lattice s) \<le> card ?P" unfolding lattice_def by (rule card_image_le) simp
  also have "card ?P = nat (maze_x_dim s) * nat (maze_y_dim s)" by (simp add: card_cartesian_product)
  also have "\<dots> \<le> 50 * 30" using assms by (intro mult_mono) (auto simp: dims_ok_def)
  finally show "card (lattice s) \<le> QUEUE_SIZE" by (simp add: QUEUE_SIZE_def)
qed

lemma lattice_closed:
  assumes "dims_ok s" "walled s"
  shows "closed_area (maze_x_dim s) (maze s) (lattice s)"
proof -
  have "0 \<le> p \<and> p < int (length (maze s)) \<and>
      (\<forall>(w, c) \<in> set (offsets (maze_x_dim s)). 0 \<le> p + w \<and> p + w < int (length (maze s)) \<and>
         (is_open (maze s) (p + w) \<longrightarrow> p + c \<in> lattice s))" if "p \<in> lattice s" for p
  proof -
    obtain i j where ij: "0 \<le> i" "i < maze_x_dim s" "0 \<le> j" "j < maze_y_dim s"
      and p: "p = MAZE_INDEX s (2 * i + 1) (2 * j + 1)"
      using \<open>p \<in> lattice s\<close> by (auto simp: lattice_def)
    note b = index_bounds[OF assms(1)]
    have up: "is_open (maze s) (MAZE_INDEX s (2 * i + 1) (2 * j)) \<Longrightarrow> MAZE_INDEX s (2 * i + 1) (2 * j - 1) \<in> lattice s"
      using assms(2) ij in_lattice[of i s "j - 1"] by (cases "j = 0") (auto simp: walled_def)
    have down: "is_open (maze s) (MAZE_INDEX s (2 * i + 1) (2 * j + 2)) \<Longrightarrow> MAZE_INDEX s (2 * i + 1) (2 * j + 3) \<in> lattice s"
    proof -
      assume o: "is_open (maze s) (MAZE_INDEX s (2 * i + 1) (2 * j + 2))"
      have "maze_y_dim s \<noteq> j + 1" using assms(2) ij o by (auto simp: walled_def algebra_simps)
      then show ?thesis using ij in_lattice[of i s "j + 1"] by (simp add: algebra_simps)
    qed
    have left: "is_open (maze s) (MAZE_INDEX s (2 * i) (2 * j + 1)) \<Longrightarrow> MAZE_INDEX s (2 * i - 1) (2 * j + 1) \<in> lattice s"
      using assms(2) ij in_lattice[of "i - 1" s j] by (cases "i = 0") (auto simp: walled_def)
    have right: "is_open (maze s) (MAZE_INDEX s (2 * i + 2) (2 * j + 1)) \<Longrightarrow> MAZE_INDEX s (2 * i + 3) (2 * j + 1) \<in> lattice s"
    proof -
      assume o: "is_open (maze s) (MAZE_INDEX s (2 * i + 2) (2 * j + 1))"
      have "maze_x_dim s \<noteq> i + 1" using assms(2) ij o by (auto simp: walled_def algebra_simps)
      then show ?thesis using ij in_lattice[of "i + 1" s j] by (simp add: algebra_simps)
    qed
    have mv: "p + - 2 * maze_x_dim s = MAZE_INDEX s (2 * i + 1) (2 * j)"
      "p + - 4 * maze_x_dim s = MAZE_INDEX s (2 * i + 1) (2 * j - 1)"
      "p + 2 * maze_x_dim s = MAZE_INDEX s (2 * i + 1) (2 * j + 2)"
      "p + 4 * maze_x_dim s = MAZE_INDEX s (2 * i + 1) (2 * j + 3)"
      "p + 1 = MAZE_INDEX s (2 * i + 2) (2 * j + 1)" "p + 2 = MAZE_INDEX s (2 * i + 3) (2 * j + 1)"
      "p + - 1 = MAZE_INDEX s (2 * i) (2 * j + 1)" "p + - 2 = MAZE_INDEX s (2 * i - 1) (2 * j + 1)"
      by (simp_all add: p MAZE_INDEX_def algebra_simps)
    show ?thesis
      using b[of "2 * i + 1" "2 * j + 1"] b[of "2 * i + 1" "2 * j"] b[of "2 * i + 1" "2 * j + 2"]
        b[of "2 * i" "2 * j + 1"] b[of "2 * i + 2" "2 * j + 1"] ij up down left right
      by (simp only: offsets_def list.set ball_simps prod.case mv p[symmetric]) simp
  qed
  then show ?thesis using card_lattice[OF assms(1)] by (simp add: closed_area_def)
qed

section \<open>Properties\<close>

lemma mark_area_spec:
  assumes "dims_ok s" "walled s" "0 \<le> i" "i < maze_x_dim s" "0 \<le> j" "j < maze_y_dim s"
    and "R = {p. connected (maze_x_dim s) (maze s) (MAZE_INDEX s (2 * i + 1) (2 * j + 1)) p}"
  shows "mark_maze_area (2 * i + 1) (2 * j + 1) s = Some (int (card R), s\<lparr>maze := marked_at (maze s) R\<rparr>) \<and>
    R \<subseteq> lattice s"
proof -
  define a where "a = MAZE_INDEX s (2 * i + 1) (2 * j + 1)"
  have a: "a \<in> lattice s" "0 \<le> a" "a < int (length (maze s))"
    using in_lattice[OF assms(3-6)] index_bounds[OF assms(1), of "2 * i + 1" "2 * j + 1"] assms(3-6)
    by (auto simp: a_def)
  note cl = lattice_closed[OF assms(1,2)]
  have m0: "marked_at (maze s) {} = maze s" by (rule nth_equalityI) (simp_all add: marked_at_def)
  have m1: "(maze s)[nat a := maze s ! nat a OR MAZE_REACH] = marked_at (maze s) {a}"
    using marked_at_insert[OF a(2,3), of "{}"] by (simp add: m0)
  obtain q where q: "mark_loop (maze_x_dim s) 0 (marked_at (maze s) {a}) [a] = Some (marked_at (maze s) (set q), q)"
    "distinct q" "set q = {p. connected (maze_x_dim s) (maze s) a p}"
    using mark_loop_spec[OF cl a(1), of "[a]" 0] connected.start by auto
  have R: "R = set q" using q(3) assms(7) by (simp add: a_def)
  have "mark_maze_area (2 * i + 1) (2 * j + 1) s = Some (int (card R), s\<lparr>maze := marked_at (maze s) R\<rparr>)"
    using a q(1) distinct_card[OF q(2)] by (simp add: mark_maze_area_def mget_def mput_def a_def[symmetric] ird_in iwr_in m1 R)
  moreover have "R \<subseteq> lattice s" using connected_in_area[OF cl a(1)] assms(7) by (auto simp: a_def)
  ultimately show ?thesis by blast
qed

text \<open>C12: In a maze with a closed boundary, mark_maze_area returns (its queue of 1500 entries never
  overflows), marks exactly the locations connected to the start through open spaces and
  unmarked locations, and returns their number.\<close>
theorem mark_maze_area_marks:
  assumes "dims_ok s" "walled s" "0 \<le> i" "i < maze_x_dim s" "0 \<le> j" "j < maze_y_dim s"
    and "R = {p. connected (maze_x_dim s) (maze s) (MAZE_INDEX s (2 * i + 1) (2 * j + 1)) p}"
  shows "mark_maze_area (2 * i + 1) (2 * j + 1) s = Some (int (card R), s\<lparr>maze := marked_at (maze s) R\<rparr>) \<and>
    R \<subseteq> lattice s"
  by (rule mark_area_spec[OF assms])

text \<open>A maze of one point for the witness.\<close>

definition tiny_maze :: maze_state where
  "tiny_maze = \<lparr>maze = replicate MAZE_SIZE MAZE_WALL, maze_x_dim = 1, maze_y_dim = 1, n_fruits = 0,
     exit_x = 0, exit_y = 0, rands = [], drawn = []\<rparr>"

lemma tiny_maze_ok: "dims_ok tiny_maze" "walled tiny_maze" "lattice tiny_maze = {5}"
proof -
  have one: "{0..<1} = {0 :: int}" by auto
  show "dims_ok tiny_maze" "walled tiny_maze" "lattice tiny_maze = {5}"
    by (simp_all add: dims_ok_def tiny_maze_def walled_def lattice_def MAZE_INDEX_def is_open_def MAZE_SIZE_def
        maze_bits one)
qed

theorem mark_maze_area_marks_witness:
  "\<exists>m. mark_maze_area 1 1 tiny_maze = Some (1, tiny_maze\<lparr>maze := m\<rparr>)"
proof -
  let ?R = "{p. connected (maze_x_dim tiny_maze) (maze tiny_maze) (MAZE_INDEX tiny_maze (2 * 0 + 1) (2 * 0 + 1)) p}"
  have 1: "mark_maze_area (2 * 0 + 1) (2 * 0 + 1) tiny_maze =
      Some (int (card ?R), tiny_maze\<lparr>maze := marked_at (maze tiny_maze) ?R\<rparr>)" "?R \<subseteq> lattice tiny_maze"
    using mark_maze_area_marks[OF tiny_maze_ok(1,2), of 0 0 ?R] by (simp_all add: tiny_maze_def)
  have "MAZE_INDEX tiny_maze (2 * 0 + 1) (2 * 0 + 1) = 5" by (simp add: MAZE_INDEX_def tiny_maze_def)
  then have "5 \<in> ?R" using connected.start by simp
  with 1(2) have "card ?R = 1" unfolding tiny_maze_ok(3) by (metis card.empty card_insert_disjoint empty_iff finite.emptyI One_nat_def subset_singletonD)
  with 1(1) show ?thesis by auto
qed

end
