(* ===== verification/MazePlay.thy ===== *)
theory MazePlay
  imports MazeReach
begin

text \<open>Playing in the maze: the fruit counter, eating and adding fruits, winning, and the lines of
  pixels drawn while the view scrolls.\<close>

section \<open>Specification\<close>

definition has_fruit :: "byte \<Rightarrow> bool" where
  "has_fruit b \<longleftrightarrow> b AND MAZE_FRUIT \<noteq> 0"

definition fruit_cells :: "maze_state \<Rightarrow> nat" where
  "fruit_cells s = length (filter has_fruit (maze s))"

text \<open>The invariant of the game: the counter is the number of cells that hold a fruit, and the exit
  lies in the maze.\<close>

definition fruits_ok :: "maze_state \<Rightarrow> bool" where
  "fruits_ok s \<longleftrightarrow> dims_ok s \<and> n_fruits s = int (fruit_cells s) \<and>
     0 \<le> exit_x s \<and> exit_x s \<le> 2 * maze_x_dim s \<and> 0 \<le> exit_y s \<and> exit_y s \<le> 2 * maze_y_dim s"

text \<open>The byte at a lattice point.\<close>

definition cell :: "maze_state \<Rightarrow> int \<Rightarrow> int \<Rightarrow> byte" where
  "cell s x y = maze s ! nat (MAZE_INDEX s x y)"

definition set_cell :: "int \<Rightarrow> int \<Rightarrow> byte \<Rightarrow> maze_state \<Rightarrow> maze_state" where
  "set_cell x y b s = s\<lparr>maze := (maze s)[nat (MAZE_INDEX s x y) := b]\<rparr>"

text \<open>Lattice points that can be shown: the boundary included.\<close>

definition in_view :: "maze_state \<Rightarrow> int \<Rightarrow> int \<Rightarrow> bool" where
  "in_view s x y \<longleftrightarrow> 0 \<le> x \<and> x \<le> 2 * maze_x_dim s \<and> 0 \<le> y \<and> y \<le> 2 * maze_y_dim s"

section \<open>Cells\<close>

lemma mget_cell: "dims_ok s \<Longrightarrow> in_view s x y \<Longrightarrow> mget s x y = Some (cell s x y)"
  using index_bounds[of s x y] by (simp add: mget_def cell_def ird_in in_view_def)

lemma mput_cell: "dims_ok s \<Longrightarrow> in_view s x y \<Longrightarrow> mput x y b s = Some (set_cell x y b s)"
  using index_bounds[of s x y] by (simp add: mput_def set_cell_def iwr_in in_view_def)

lemma set_cell_fields [simp]:
  "maze_x_dim (set_cell x y b s) = maze_x_dim s" "maze_y_dim (set_cell x y b s) = maze_y_dim s"
  "n_fruits (set_cell x y b s) = n_fruits s" "exit_x (set_cell x y b s) = exit_x s"
  "exit_y (set_cell x y b s) = exit_y s" "rands (set_cell x y b s) = rands s"
  "drawn (set_cell x y b s) = drawn s" "length (maze (set_cell x y b s)) = length (maze s)"
  by (simp_all add: set_cell_def)

lemma cell_upd [simp]:
  "cell (s\<lparr>n_fruits := k\<rparr>) x y = cell s x y" "cell (s\<lparr>rands := rs\<rparr>) x y = cell s x y"
  "cell (s\<lparr>drawn := l\<rparr>) x y = cell s x y"
  by (simp_all add: cell_def MAZE_INDEX_def)

lemma dims_ok_cong:
  "maze_x_dim s' = maze_x_dim s \<Longrightarrow> maze_y_dim s' = maze_y_dim s \<Longrightarrow> length (maze s') = length (maze s) \<Longrightarrow>
   dims_ok s' = dims_ok s"
  by (simp add: dims_ok_def)

lemma dims_ok_set_cell [simp]: "dims_ok (set_cell x y b s) = dims_ok s"
  by (rule dims_ok_cong) simp_all

lemma MAZE_INDEX_cong: "maze_x_dim s' = maze_x_dim s \<Longrightarrow> MAZE_INDEX s' x y = MAZE_INDEX s x y"
  by (simp add: MAZE_INDEX_def)

lemma cell_set_cell: "dims_ok s \<Longrightarrow> in_view s x y \<Longrightarrow> cell (set_cell x y b s) x y = b"
  using index_bounds[of s x y] MAZE_INDEX_cong[of "set_cell x y b s" s x y]
  by (simp add: cell_def in_view_def) (simp add: set_cell_def nat_less_iff)

text \<open>Changing one element of a list changes the number of elements with a property by at most one.\<close>

lemma length_filter_update:
  assumes "i < length xs"
  shows "length (filter P (xs[i := v])) + (if P (xs ! i) then 1 else 0) =
    length (filter P xs) + (if P v then 1 else 0)"
proof -
  have "length (filter P xs) = length (filter P (take i xs @ xs ! i # drop (Suc i) xs))"
    using id_take_nth_drop[OF assms] by (rule arg_cong)
  moreover have "xs[i := v] = take i xs @ v # drop (Suc i) xs" using assms by (rule upd_conv_take_nth_drop)
  ultimately show ?thesis by simp
qed

lemma fruit_cells_set_cell:
  assumes "dims_ok s" "in_view s x y"
  shows "fruit_cells (set_cell x y b s) + (if has_fruit (cell s x y) then 1 else 0) =
    fruit_cells s + (if has_fruit b then 1 else 0)"
  using length_filter_update[of "nat (MAZE_INDEX s x y)" "maze s" has_fruit b] index_bounds[of s x y] assms
  by (simp add: fruit_cells_def set_cell_def cell_def in_view_def nat_less_iff)

lemma fruit_number_0: "fruit_number b = 0 \<longleftrightarrow> \<not> has_fruit b"
proof -
  have "\<not> bit (unat (b AND MAZE_FRUIT)) 0" by (simp add: bit_unsigned_iff bit_and_iff MAZE_FRUIT_def)
  then have "even (unat (b AND MAZE_FRUIT))" by (simp add: bit_0)
  then have "fruit_number b = 0 \<longleftrightarrow> unat (b AND MAZE_FRUIT) = 0" unfolding fruit_number_def by (auto elim: evenE)
  then show ?thesis by (simp add: has_fruit_def unat_eq_zero)
qed

section \<open>Blocks\<close>

lemma cell_bounds:
  assumes "dims_ok s" "in_view s x y"
  shows "\<exists>b. mget s x (y - 1) = Some b" "\<exists>b. mget s (x + 1) y = Some b" "\<exists>b. mget s x (y + 1) = Some b"
    "\<exists>b. mget s (x - 1) y = Some b"
proof -
  have len: "int (length (maze s)) = 6301" using assms(1) by (simp add: dims_ok_def MAZE_SIZE_def)
  have xd: "1 \<le> maze_x_dim s" "maze_x_dim s \<le> 50" "1 \<le> maze_y_dim s" "maze_y_dim s \<le> 30"
    using assms(1) by (simp_all add: dims_ok_def)
  have xy: "0 \<le> x" "x \<le> 2 * maze_x_dim s" "0 \<le> y" "y \<le> 2 * maze_y_dim s"
    using assms(2) by (simp_all add: in_view_def)
  have m: "0 \<le> y * maze_x_dim s" using xy xd by simp
  have "y * maze_x_dim s \<le> 60 * 50" using xy xd by (intro mult_mono) simp_all
  note m = m this
  define p where "p = y * maze_x_dim s"
  have *: "\<exists>b. mget s x' y' = Some b" if "0 \<le> MAZE_INDEX s x' y'" "MAZE_INDEX s x' y' < 6301" for x' y'
    using that len by (simp add: mget_def ird_in)
  have i: "MAZE_INDEX s x (y - 1) = x + 2 * p" "MAZE_INDEX s (x + 1) y = x + 1 + 2 * p + 2 * maze_x_dim s"
    "MAZE_INDEX s x (y + 1) = x + 2 * p + 4 * maze_x_dim s" "MAZE_INDEX s (x - 1) y = x - 1 + 2 * p + 2 * maze_x_dim s"
    by (simp_all add: MAZE_INDEX_def p_def algebra_simps)
  note f = i m[folded p_def] xy xd
  show "\<exists>b. mget s x (y - 1) = Some b" using f by (intro *) linarith+
  show "\<exists>b. mget s (x + 1) y = Some b" using f by (intro *) linarith+
  show "\<exists>b. mget s x (y + 1) = Some b" using f by (intro *) linarith+
  show "\<exists>b. mget s (x - 1) y = Some b" using f by (intro *) linarith+
qed

lemma find_block_Some:
  assumes "dims_ok s" "in_view s x y"
  shows "\<exists>n. find_block x y s = Some n"
  using cell_bounds[OF assms] mget_cell[OF assms] by (auto simp: find_block_def Let_def)

lemma redraw_Some:
  assumes "dims_ok s" "in_view s x y"
  obtains n where "find_block x y s = Some n"
    "redraw x y s = Some (s\<lparr>drawn := drawn s @ [(x * 12, y * 12, n)]\<rparr>)"
  using find_block_Some[OF assms] by (auto simp: redraw_def record_block_def BLOCK_X_DIM_def BLOCK_Y_DIM_def)

section \<open>Lines of pixels\<close>

text \<open>The pixels of a line that starts at pixel \<^verbatim>\<open>sub\<close> of its first block: \<^verbatim>\<open>g k p\<close> is pixel \<^verbatim>\<open>p\<close> of
  the block \<^verbatim>\<open>k\<close> blocks further on.\<close>

definition line_of :: "(int \<Rightarrow> int \<Rightarrow> byte) \<Rightarrow> int \<Rightarrow> nat \<Rightarrow> byte list" where
  "line_of g sub n = map (\<lambda>i. g ((sub + int i) div 12) ((sub + int i) mod 12)) [0..<n]"

lemma line_of_step:
  assumes "0 \<le> sub" "sub < 12" "0 < n" and k: "k = min n (nat (12 - sub))"
  shows "line_of g sub n = map (\<lambda>i. g 0 (sub + int i)) [0..<k] @ line_of (\<lambda>a. g (1 + a)) 0 (n - k)"
proof (rule nth_equalityI)
  show "length (line_of g sub n) = length (map (\<lambda>i. g 0 (sub + int i)) [0..<k] @ line_of (\<lambda>a. g (1 + a)) 0 (n - k))"
    using k by (simp add: line_of_def)
next
  fix i assume "i < length (line_of g sub n)"
  then have i: "i < n" by (simp add: line_of_def)
  show "line_of g sub n ! i = (map (\<lambda>i. g 0 (sub + int i)) [0..<k] @ line_of (\<lambda>a. g (1 + a)) 0 (n - k)) ! i"
  proof (cases "i < k")
    case True
    then have "0 \<le> sub + int i" "sub + int i < 12" using assms by auto
    then have "(sub + int i) div 12 = 0" "(sub + int i) mod 12 = sub + int i" by simp_all
    then show ?thesis using i True by (simp add: line_of_def nth_append)
  next
    case False
    then have "sub + int i = 12 + int (i - k)" using assms i by auto
    then have "(sub + int i) div 12 = 1 + int (i - k) div 12" "(sub + int i) mod 12 = int (i - k) mod 12" by simp_all
    moreover have "[0..<n - k] ! (i - k) = i - k" using i False by (subst nth_upt) auto
    ultimately show ?thesis using i False by (simp add: line_of_def nth_append del: of_nat_diff)
  qed
qed

lemma length_line_of [simp]: "length (line_of g sub n) = n"
  by (simp add: line_of_def)

lemma nth_line_of [simp]: "i < n \<Longrightarrow> line_of g sub n ! i = g ((sub + int i) div 12) ((sub + int i) mod 12)"
  by (simp add: line_of_def)

text \<open>The points under a line that starts at pixel \<^verbatim>\<open>sub\<close> of block \<^verbatim>\<open>a\<close> stay below \<^verbatim>\<open>hi\<close>.\<close>

lemma next_block_bound:
  assumes "0 \<le> sub" "sub < 12" "0 < n" "12 * a + sub + int n \<le> 12 * (hi + 1)" "k = min n (nat (12 - sub))"
  shows "a \<le> hi" "k < n \<Longrightarrow> 12 * (a + 1) + 0 + int (n - k) \<le> 12 * (hi + 1)"
  using assms by auto

lemma horiz_loop_line:
  assumes "dims_ok s" "0 \<le> my" "my \<le> 2 * maze_y_dim s" "0 \<le> mx" "0 \<le> sx" "sx < 12" "idx < dim"
    and "12 * mx + sx + int (dim - idx) \<le> 12 * (2 * maze_x_dim s + 1)"
  shows "horiz_loop blocks s dim mx my sx sy idx =
    Some (line_of (\<lambda>k p. blocks (the (find_block (mx + k) my s)) sy p) sx (dim - idx))"
  using assms(4-8)
proof (induction "dim - idx" arbitrary: mx sx idx rule: less_induct)
  case less
  define k where "k = min (dim - idx) (nat (12 - sx))"
  note nb = next_block_bound[OF less.prems(2,3) _ less.prems(5) k_def]
  have k: "0 < k" "idx + k \<le> dim" using less.prems by (auto simp: k_def)
  have "in_view s mx my" using nb(1) less.prems assms(2,3) by (auto simp: in_view_def)
  then obtain blk where blk: "find_block mx my s = Some blk" using find_block_Some[OF assms(1)] by blast
  have rest: "horiz_loop blocks s dim (mx + 1) my 0 sy (idx + k) =
      Some (line_of (\<lambda>a p. blocks (the (find_block (mx + (1 + a)) my s)) sy p) 0 (dim - idx - k))"
  proof (cases "idx + k < dim")
    case True
    then show ?thesis using less.hyps[of "idx + k" "mx + 1" 0] k nb(2) less.prems by (simp add: add.assoc)
  next
    case False
    then show ?thesis using k by (subst horiz_loop.simps) (simp add: line_of_def)
  qed
  show ?case
    using less.prems rest blk line_of_step[OF less.prems(2,3) _ k_def, of "\<lambda>k p. blocks (the (find_block (mx + k) my s)) sy p"]
    by (subst horiz_loop.simps) (simp add: BLOCK_X_DIM_def k_def[symmetric])
qed

lemma vert_loop_line:
  assumes "dims_ok s" "0 \<le> mx" "mx \<le> 2 * maze_x_dim s" "0 \<le> my" "0 \<le> sy" "sy < 12" "idx < dim"
    and "12 * my + sy + int (dim - idx) \<le> 12 * (2 * maze_y_dim s + 1)"
  shows "vert_loop blocks s dim mx my sx sy idx =
    Some (line_of (\<lambda>k p. blocks (the (find_block mx (my + k) s)) p sx) sy (dim - idx))"
  using assms(4-8)
proof (induction "dim - idx" arbitrary: my sy idx rule: less_induct)
  case less
  define k where "k = min (dim - idx) (nat (12 - sy))"
  note nb = next_block_bound[OF less.prems(2,3) _ less.prems(5) k_def]
  have k: "0 < k" "idx + k \<le> dim" using less.prems by (auto simp: k_def)
  have "in_view s mx my" using nb(1) less.prems assms(2,3) by (auto simp: in_view_def)
  then obtain blk where blk: "find_block mx my s = Some blk" using find_block_Some[OF assms(1)] by blast
  have rest: "vert_loop blocks s dim mx (my + 1) sx 0 (idx + k) =
      Some (line_of (\<lambda>a p. blocks (the (find_block mx (my + (1 + a)) s)) p sx) 0 (dim - idx - k))"
  proof (cases "idx + k < dim")
    case True
    then show ?thesis using less.hyps[of "idx + k" "my + 1" 0] k nb(2) less.prems by (simp add: add.assoc)
  next
    case False
    then show ?thesis using k by (subst vert_loop.simps) (simp add: line_of_def)
  qed
  show ?case
    using less.prems rest blk line_of_step[OF less.prems(2,3) _ k_def, of "\<lambda>k p. blocks (the (find_block mx (my + k) s)) p sx"]
    by (subst vert_loop.simps) (simp add: BLOCK_Y_DIM_def k_def[symmetric])
qed

lemma block_le: "a < 12 * (hi + 1) \<Longrightarrow> a div 12 \<le> (hi :: int)"
  using zdiv_mono1[of a "12 * hi + 11" 12] by simp

lemma pixel_block: "0 \<le> x \<Longrightarrow> x sdiv 12 = x div 12 \<and> x - x div 12 * 12 = x mod (12 :: int)"
  by (simp add: signed_divide_int_def minus_div_mult_eq_mod sgn_if)

lemma line_buffers_spec:
  assumes "dims_ok s" "0 \<le> x" "0 \<le> y"
    and "x + 320 \<le> 12 * (2 * maze_x_dim s + 1)" "y + 182 \<le> 12 * (2 * maze_y_dim s + 1)"
  shows "\<exists>h v. fill_horiz_buffer blocks x y s = Some h \<and> length h = 320 \<and>
    fill_vert_buffer blocks x y s = Some v \<and> length v = 182 \<and>
    (\<forall>i < 320. \<exists>n. find_block ((x + int i) div 12) (y div 12) s = Some n \<and>
       h ! i = blocks n (y mod 12) ((x + int i) mod 12)) \<and>
    (\<forall>i < 182. \<exists>n. find_block (x div 12) ((y + int i) div 12) s = Some n \<and>
       v ! i = blocks n ((y + int i) mod 12) (x mod 12))"
proof -
  have split: "x = 12 * (x div 12) + x mod 12" "y = 12 * (y div 12) + y mod 12" by simp_all
  have shift: "(a + b) div 12 = a div 12 + (a mod 12 + b) div 12" for a b :: int
    by (subst div_mult_mod_eq[of a 12, symmetric]) (simp only: add.assoc div_mult_self3 zero_neq_numeral simp_thms)
  have sums: "(x + int i) div 12 = x div 12 + (x mod 12 + int i) div 12" "(x mod 12 + int i) mod 12 = (x + int i) mod 12"
    "(y + int i) div 12 = y div 12 + (y mod 12 + int i) div 12" "(y mod 12 + int i) mod 12 = (y + int i) mod 12" for i
    by (rule shift, rule mod_add_left_eq, rule shift, rule mod_add_left_eq)
  have xb: "x div 12 \<le> 2 * maze_x_dim s" "y div 12 \<le> 2 * maze_y_dim s"
    using assms(4,5) by (simp_all add: block_le)
  have h: "horiz_loop blocks s 320 (x div 12) (y div 12) (x mod 12) (y mod 12) 0 =
      Some (line_of (\<lambda>k p. blocks (the (find_block (x div 12 + k) (y div 12) s)) (y mod 12) p) (x mod 12) 320)"
    using horiz_loop_line[of s "y div 12" "x div 12" "x mod 12" 0 320 blocks "y mod 12"] assms xb split by simp
  have v: "vert_loop blocks s 182 (x div 12) (y div 12) (x mod 12) (y mod 12) 0 =
      Some (line_of (\<lambda>k p. blocks (the (find_block (x div 12) (y div 12 + k) s)) p (x mod 12)) (y mod 12) 182)"
    using vert_loop_line[of s "x div 12" "y div 12" "y mod 12" 0 182 blocks "x mod 12"] assms xb split by simp
  have hb: "\<exists>n. find_block ((x + int i) div 12) (y div 12) s = Some n" if "i < 320" for i
    using that assms xb by (intro find_block_Some) (auto simp: in_view_def intro!: block_le)
  have vb: "\<exists>n. find_block (x div 12) ((y + int i) div 12) s = Some n" if "i < 182" for i
    using that assms xb by (intro find_block_Some) (auto simp: in_view_def intro!: block_le)
  have "fill_horiz_buffer blocks x y s =
      Some (line_of (\<lambda>k p. blocks (the (find_block (x div 12 + k) (y div 12) s)) (y mod 12) p) (x mod 12) 320)"
    "fill_vert_buffer blocks x y s =
      Some (line_of (\<lambda>k p. blocks (the (find_block (x div 12) (y div 12 + k) s)) p (x mod 12)) (y mod 12) 182)"
    using h v pixel_block assms(2,3)
    by (simp_all add: fill_horiz_buffer_def fill_vert_buffer_def BLOCK_X_DIM_def BLOCK_Y_DIM_def Let_def)
  moreover have "\<exists>n. find_block ((x + int i) div 12) (y div 12) s = Some n \<and>
      line_of (\<lambda>k p. blocks (the (find_block (x div 12 + k) (y div 12) s)) (y mod 12) p) (x mod 12) 320 ! i =
      blocks n (y mod 12) ((x + int i) mod 12)" if "i < 320" for i
    using hb[OF that] that by (auto simp: sums)
  moreover have "\<exists>n. find_block (x div 12) ((y + int i) div 12) s = Some n \<and>
      line_of (\<lambda>k p. blocks (the (find_block (x div 12) (y div 12 + k) s)) p (x mod 12)) (y mod 12) 182 ! i =
      blocks n ((y + int i) mod 12) (x mod 12)" if "i < 182" for i
    using vb[OF that] that by (auto simp: sums)
  ultimately show ?thesis by (simp del: nth_line_of)
qed

text \<open>A further fact about the same definitions.\<close>
lemma line_buffers_show_maze:
  assumes "dims_ok s" "0 \<le> x" "0 \<le> y"
    and "x + 320 \<le> 12 * (2 * maze_x_dim s + 1)" "y + 182 \<le> 12 * (2 * maze_y_dim s + 1)"
  shows "\<exists>h v. fill_horiz_buffer blocks x y s = Some h \<and> length h = 320 \<and>
    fill_vert_buffer blocks x y s = Some v \<and> length v = 182 \<and>
    (\<forall>i < 320. \<exists>n. find_block ((x + int i) div 12) (y div 12) s = Some n \<and>
       h ! i = blocks n (y mod 12) ((x + int i) mod 12)) \<and>
    (\<forall>i < 182. \<exists>n. find_block (x div 12) ((y + int i) div 12) s = Some n \<and>
       v ! i = blocks n ((y + int i) mod 12) (x mod 12))"
  by (rule line_buffers_spec[OF assms])

theorem line_buffers_show_maze_witness:
  "\<exists>h. fill_horiz_buffer (\<lambda>n r c. of_nat n) 7 20 (tiny_maze\<lparr>maze_x_dim := 20, maze_y_dim := 10\<rparr>) = Some h \<and>
     h ! 319 = of_nat BLOCK_SHADOW"
proof -
  let ?s = "tiny_maze\<lparr>maze_x_dim := 20, maze_y_dim := 10\<rparr>"
  have ok: "dims_ok ?s" by (simp add: dims_ok_def tiny_maze_def)
  have c: "cell ?s x y = MAZE_WALL" if "in_view ?s x y" for x y
    using index_bounds[OF ok, of x y] that by (simp add: cell_def in_view_def tiny_maze_def nat_less_iff)
  have "find_block 27 1 ?s = Some BLOCK_SHADOW"
    using mget_cell[OF ok, of 27 1] c[of 27 1]
    by (simp add: in_view_def find_block_def fruit_number_def maze_bits)
  moreover obtain h where "fill_horiz_buffer (\<lambda>n r c. of_nat n) 7 20 ?s = Some h"
    "\<forall>i < 320. \<exists>n. find_block ((7 + int i) div 12) (20 div 12) ?s = Some n \<and> h ! i = of_nat n"
    using line_buffers_show_maze[OF ok, of 7 20 "\<lambda>n r c. of_nat n"] by auto
  moreover from this(2) have "\<exists>n. find_block 27 1 ?s = Some n \<and> h ! 319 = of_nat n"
    by (auto dest!: spec[of _ 319])
  ultimately show ?thesis by auto
qed

section \<open>Fruits\<close>

lemma redraw_fields:
  assumes "dims_ok s" "in_view s x y"
  shows "\<exists>n. redraw x y s = Some (s\<lparr>drawn := drawn s @ [(x * 12, y * 12, n)]\<rparr>) \<and> find_block x y s = Some n"
  using redraw_Some[OF assms] by metis

lemma find_block_exit:
  "dims_ok s \<Longrightarrow> in_view s x y \<Longrightarrow> n_fruits s = 0 \<Longrightarrow> cell s x y AND MAZE_EXIT \<noteq> 0 \<Longrightarrow> find_block x y s = Some BLOCK_EXIT"
  by (simp add: find_block_def mget_cell Let_def)

lemma eaten_bits:
  "\<not> has_fruit (b AND NOT MAZE_FRUIT)" "(b AND NOT MAZE_FRUIT) AND MAZE_EXIT = b AND MAZE_EXIT"
  by (simp_all add: has_fruit_def maze_bits and.assoc)

lemma no_fruit_eaten: "\<not> has_fruit b \<Longrightarrow> b AND NOT MAZE_FRUIT = b"
proof -
  assume "\<not> has_fruit b"
  then have "b AND MAZE_FRUIT = 0" by (simp add: has_fruit_def)
  from arg_cong[OF this, of "\<lambda>w. bit w n" for n] have "\<not> (bit b n \<and> bit MAZE_FRUIT n)" for n
    by (simp add: bit_and_iff)
  then show "b AND NOT MAZE_FRUIT = b" by (auto intro!: bit_word_eqI simp: bit_and_iff bit_not_iff)
qed

lemma set_same_cell [simp]: "set_cell x y (cell s x y) s = s"
  by (simp add: set_cell_def cell_def)

lemma cell_set_cell_exit:
  assumes "dims_ok s" "in_view s x y" "cell s x' y' AND MAZE_EXIT \<noteq> 0"
  shows "cell (set_cell x y (cell s x y AND NOT MAZE_FRUIT) s) x' y' AND MAZE_EXIT \<noteq> 0"
  using assms(3) index_bounds[OF assms(1), of x y] assms(2)
  by (cases "nat (MAZE_INDEX s x' y') = nat (MAZE_INDEX s x y)")
    (simp_all add: cell_def set_cell_def eaten_bits in_view_def nat_less_iff MAZE_INDEX_cong[of "s\<lparr>maze := _\<rparr>" s])

text \<open>The points drawn when a fruit is eaten.\<close>

definition eaten_drawn :: "maze_state \<Rightarrow> int \<Rightarrow> int \<Rightarrow> nat \<Rightarrow> nat \<Rightarrow> (int \<times> int \<times> nat) list" where
  "eaten_drawn s x y e n =
    (if \<not> has_fruit (cell s x y) then []
     else (if n_fruits s = 1 then [(exit_x s * 12, exit_y s * 12, e)] else []) @ [(x * 12, y * 12, n)])"

lemma check_for_fruit_spec:
  assumes "fruits_ok s" "0 \<le> x" "x < 2 * maze_x_dim s" "0 \<le> y" "y < 2 * maze_y_dim s"
  shows "\<exists>s' e n. check_for_fruit x y s = Some (fruit_number (cell s x y), s') \<and> fruits_ok s' \<and>
    maze s' = maze (set_cell x y (cell s x y AND NOT MAZE_FRUIT) s) \<and>
    n_fruits s' = n_fruits s - (if has_fruit (cell s x y) then 1 else 0) \<and>
    drawn s' = drawn s @ eaten_drawn s x y e n \<and>
    (n_fruits s = 1 \<and> cell s (exit_x s) (exit_y s) AND MAZE_EXIT \<noteq> 0 \<longrightarrow> e = BLOCK_EXIT)"
proof -
  have ok: "dims_ok s" "in_view s (exit_x s) (exit_y s)" "n_fruits s = int (fruit_cells s)"
    using assms(1) by (simp_all add: fruits_ok_def in_view_def)
  have v: "in_view s x y" using assms(2-5) by (simp add: in_view_def)
  define c where "c = cell s x y"
  define s1 where "s1 = set_cell x y (c AND NOT MAZE_FRUIT) s"
  define s2 where "s2 = s1\<lparr>n_fruits := n_fruits s1 - 1\<rparr>"
  have cells: "fruit_cells s1 + (if has_fruit c then 1 else 0) = fruit_cells s"
    using fruit_cells_set_cell[OF ok(1) v, of "c AND NOT MAZE_FRUIT"] by (simp add: s1_def c_def eaten_bits)
  show ?thesis
  proof (cases "has_fruit c")
    case False
    have "maze (set_cell x y (c AND NOT MAZE_FRUIT) s) = maze s"
      using no_fruit_eaten[OF False] by (simp add: c_def)
    then show ?thesis
      using False assms mget_cell[OF ok(1) v] fruit_number_0[of c]
      by (auto simp: check_for_fruit_def eaten_drawn_def c_def[symmetric])
  next
    case True
    have d2: "dims_ok s2" "in_view s2 x y" "in_view s2 (exit_x s2) (exit_y s2)" "n_fruits s2 = n_fruits s - 1"
      using ok v by (simp_all add: s2_def s1_def in_view_def dims_ok_def)
    obtain e where e: "redraw (exit_x s2) (exit_y s2) s2 =
        Some (s2\<lparr>drawn := drawn s2 @ [(exit_x s2 * 12, exit_y s2 * 12, e)]\<rparr>)" "find_block (exit_x s2) (exit_y s2) s2 = Some e"
      using redraw_fields[OF d2(1,3)] by blast
    define s3 where "s3 = (if n_fruits s2 = 0 then s2\<lparr>drawn := drawn s2 @ [(exit_x s2 * 12, exit_y s2 * 12, e)]\<rparr> else s2)"
    have d3: "dims_ok s3" "in_view s3 x y" using d2 by (simp_all add: s3_def in_view_def dims_ok_def)
    obtain n where n: "redraw x y s3 = Some (s3\<lparr>drawn := drawn s3 @ [(x * 12, y * 12, n)]\<rparr>)"
      using redraw_fields[OF d3] by blast
    have z: "n_fruits s1 = 1 \<longleftrightarrow> n_fruits s2 = 0" by (simp add: s2_def)
    have run: "check_for_fruit x y s = Some (fruit_number c, s3\<lparr>drawn := drawn s3 @ [(x * 12, y * 12, n)]\<rparr>)"
      using True assms(2-5) mget_cell[OF ok(1) v] mput_cell[OF ok(1) v] fruit_number_0[of c] e(1) n z
      by (auto simp: check_for_fruit_def c_def[symmetric] s1_def[symmetric] s2_def[symmetric] s3_def)
    have "e = BLOCK_EXIT" if x: "cell s (exit_x s) (exit_y s) AND MAZE_EXIT \<noteq> 0" and last: "n_fruits s = 1"
    proof -
      have "cell s2 (exit_x s2) (exit_y s2) AND MAZE_EXIT \<noteq> 0"
        using x cell_set_cell_exit[OF ok(1) v] by (simp add: s2_def s1_def c_def)
      then show ?thesis using find_block_exit[OF d2(1,3)] d2(4) last e(2) by simp
    qed
    moreover have "drawn s2 = drawn s" "exit_x s2 = exit_x s" "exit_y s2 = exit_y s" by (simp_all add: s2_def s1_def)
    moreover have "fruits_ok (s3\<lparr>drawn := l\<rparr>)" "maze s3 = maze s1" "n_fruits s3 = n_fruits s - 1" for l
      using assms(1) cells True by (auto simp: s3_def s2_def s1_def fruits_ok_def fruit_cells_def dims_ok_def)
    ultimately show ?thesis
      using True d2(4) by (auto simp: run s1_def c_def eaten_drawn_def s3_def) 
  qed
qed

text \<open>C31: Eating at a lattice point returns the number of the fruit there, removes it, keeps the
  counter equal to the number of cells with a fruit, redraws the point, and shows the exit when
  the last fruit is gone.\<close>
theorem check_for_fruit_counts:
  assumes "fruits_ok s" "0 \<le> x" "x < 2 * maze_x_dim s" "0 \<le> y" "y < 2 * maze_y_dim s"
  shows "\<exists>s' e n. check_for_fruit x y s = Some (fruit_number (cell s x y), s') \<and> fruits_ok s' \<and>
    maze s' = maze (set_cell x y (cell s x y AND NOT MAZE_FRUIT) s) \<and>
    n_fruits s' = n_fruits s - (if has_fruit (cell s x y) then 1 else 0) \<and>
    drawn s' = drawn s @ eaten_drawn s x y e n \<and>
    (n_fruits s = 1 \<and> cell s (exit_x s) (exit_y s) AND MAZE_EXIT \<noteq> 0 \<longrightarrow> e = BLOCK_EXIT)"
  by (rule check_for_fruit_spec[OF assms])

theorem check_for_fruit_counts_witness:
  "\<exists>s'. check_for_fruit 1 1 (tiny_maze\<lparr>maze := (maze tiny_maze)[5 := 0x16], n_fruits := 1, exit_x := 1, exit_y := 1\<rparr>) =
      Some (3, s') \<and> n_fruits s' = 0 \<and> hd (drawn s') = (12, 12, BLOCK_EXIT)"
proof -
  let ?s = "tiny_maze\<lparr>maze := (maze tiny_maze)[5 := 0x16], n_fruits := 1, exit_x := 1, exit_y := 1\<rparr>"
  have "fruit_cells ?s + (if has_fruit (maze tiny_maze ! 5) then 1 else 0) =
      length (filter has_fruit (maze tiny_maze)) + (if has_fruit 0x16 then 1 else 0)"
    unfolding fruit_cells_def using length_filter_update[of 5 "maze tiny_maze" has_fruit "0x16"]
    by (simp add: tiny_maze_def MAZE_SIZE_def)
  then have "fruit_cells ?s = 1" by (simp add: tiny_maze_def MAZE_SIZE_def has_fruit_def maze_bits)
  then have "fruits_ok ?s" by (simp add: fruits_ok_def dims_ok_def tiny_maze_def)
  moreover have "cell ?s 1 1 = 0x16" by (simp add: cell_def MAZE_INDEX_def tiny_maze_def MAZE_SIZE_def)
  ultimately show ?thesis
    using check_for_fruit_counts[of ?s 1 1]
    by (auto simp: tiny_maze_def fruit_number_def has_fruit_def maze_bits eaten_drawn_def)
qed

section \<open>Random points\<close>

text \<open>The supply for \<^verbatim>\<open>pick_point\<close>: pairs of numbers for points that are rejected, then one for the
  point that is taken.\<close>

definition point_of :: "maze_state \<Rightarrow> nat \<times> nat \<Rightarrow> int \<times> int" where
  "point_of s p = (int (fst p) mod maze_x_dim s * 2 + 1, int (snd p) mod maze_y_dim s * 2 + 1)"

definition byte_at :: "maze_state \<Rightarrow> nat \<times> nat \<Rightarrow> byte" where
  "byte_at s p = cell s (fst (point_of s p)) (snd (point_of s p))"

definition rands_of :: "(nat \<times> nat) list \<Rightarrow> nat list" where
  "rands_of ps = concat (map (\<lambda>(a, b). [a, b]) ps)"

lemma point_of_view: "dims_ok s \<Longrightarrow> in_view s (fst (point_of s p)) (snd (point_of s p))"
proof -
  assume ok: "dims_ok s"
  have "0 \<le> int (fst p) mod maze_x_dim s" "int (fst p) mod maze_x_dim s < maze_x_dim s"
    "0 \<le> int (snd p) mod maze_y_dim s" "int (snd p) mod maze_y_dim s < maze_y_dim s"
    using ok by (simp_all add: dims_ok_def)
  then show ?thesis by (simp add: in_view_def point_of_def)
qed

lemma pick_point_step:
  assumes "dims_ok s" "rands s = a # b # rs"
  shows "pick_point again s =
    (if again (byte_at s (a, b)) then pick_point again (s\<lparr>rands := rs\<rparr>)
     else Some (fst (point_of s (a, b)), snd (point_of s (a, b)), s\<lparr>rands := rs\<rparr>))"
proof -
  have "mget (s\<lparr>rands := rs\<rparr>) (fst (point_of s (a, b))) (snd (point_of s (a, b))) = Some (byte_at s (a, b))"
    using mget_cell[of "s\<lparr>rands := rs\<rparr>"] point_of_view[OF assms(1), of "(a, b)"] assms(1)
    by (simp add: byte_at_def in_view_def dims_ok_def)
  moreover have "maze_x_dim s \<noteq> 0" "maze_y_dim s \<noteq> 0" using assms(1) by (auto simp: dims_ok_def)
  ultimately show ?thesis
    using assms(2) by (subst pick_point.simps) (simp add: rnd_def point_of_def Let_def)
qed

lemma pick_point_supply:
  assumes "dims_ok s" "rands s = rands_of ps @ a # b # rs" "\<forall>p \<in> set ps. again (byte_at s p)" "\<not> again (byte_at s (a, b))"
  shows "pick_point again s = Some (fst (point_of s (a, b)), snd (point_of s (a, b)), s\<lparr>rands := rs\<rparr>)"
  using assms
proof (induction ps arbitrary: s)
  case Nil
  then show ?case using pick_point_step[of s a b rs] by (simp add: rands_of_def)
next
  case (Cons p ps)
  let ?s = "s\<lparr>rands := rands_of ps @ a # b # rs\<rparr>"
  have same: "byte_at ?s q = byte_at s q" "point_of ?s q = point_of s q" for q
    by (simp_all add: byte_at_def point_of_def)
  have "rands s = fst p # snd p # rands_of ps @ a # b # rs" using Cons.prems(2) by (simp add: rands_of_def split_beta)
  then have "pick_point again s = pick_point again ?s"
    using pick_point_step[OF Cons.prems(1)] Cons.prems(3) by simp
  also have "\<dots> = Some (fst (point_of s (a, b)), snd (point_of s (a, b)), s\<lparr>rands := rs\<rparr>)"
    using Cons.IH[of ?s] Cons.prems same by (simp add: dims_ok_def)
  finally show ?case .
qed

lemma mput_rands: "mput x y b (s\<lparr>rands := rs\<rparr>) = map_option (\<lambda>t. t\<lparr>rands := rs\<rparr>) (mput x y b s)"
  by (cases "iwr (maze s) (MAZE_INDEX s x y) b") (simp_all add: mput_def MAZE_INDEX_def)

lemma new_fruit:
  assumes "0 \<le> k" "k < 7" "\<not> has_fruit b"
  shows "has_fruit (b OR (word_of_int (k + 1) * MAZE_FRUIT_1))"
    "fruit_number (b OR (word_of_int (k + 1) * MAZE_FRUIT_1)) = nat k + 1"
proof -
  have "k \<in> {0, 1, 2, 3, 4, 5, 6}" using assms(1,2) by auto
  then have v: "(word_of_int (k + 1) * MAZE_FRUIT_1) AND MAZE_FRUIT = word_of_int (2 * (k + 1))"
    "unat (word_of_int (2 * (k + 1)) :: byte) = 2 * (nat k + 1)"
    by (auto simp: maze_bits)
  have "(b OR (word_of_int (k + 1) * MAZE_FRUIT_1)) AND MAZE_FRUIT = word_of_int (2 * (k + 1))"
    using assms(3) v(1) by (simp add: has_fruit_def bit.conj_disj_distrib2)
  then show "fruit_number (b OR (word_of_int (k + 1) * MAZE_FRUIT_1)) = nat k + 1"
    using v(2) by (simp add: fruit_number_def)
  then show "has_fruit (b OR (word_of_int (k + 1) * MAZE_FRUIT_1))" 
    using fruit_number_0[of "b OR (word_of_int (k + 1) * MAZE_FRUIT_1)"] by simp
qed

lemma redraw_if:
  assumes "dims_ok s" "in_view s x y"
  shows "\<exists>l. (if p then redraw x y s else Some s) = Some (s\<lparr>drawn := drawn s @ l\<rparr>)"
proof (cases p)
  case True
  then show ?thesis using redraw_Some[OF assms] by (metis (full_types))
next
  case False
  then have "(if p then redraw x y s else Some s) = Some (s\<lparr>drawn := drawn s @ []\<rparr>)" by simp
  then show ?thesis by blast
qed

text \<open>A further fact about the same definitions.\<close>
lemma add_a_fruit_counts:
  assumes "fruits_ok s" "rands s = rands_of ps @ a # b # r # rs" "\<forall>p \<in> set ps. has_fruit (byte_at s p)"
    and "\<not> has_fruit (byte_at s (a, b))" "(x, y) = point_of s (a, b)"
  shows "\<exists>s'. add_a_fruit s = Some (n_fruits s + 1, s') \<and> fruits_ok s' \<and> n_fruits s' = n_fruits s + 1 \<and>
    maze s' = maze (set_cell x y (cell s' x y) s) \<and> fruit_number (cell s' x y) = r mod 7 + 1"
proof -
  have ok: "dims_ok s" "in_view s (exit_x s) (exit_y s)" using assms(1) by (simp_all add: fruits_ok_def in_view_def)
  have v: "in_view s x y" using point_of_view[OF ok(1), of "(a, b)"] assms(5) by (metis fst_conv snd_conv)
  have c: "byte_at s (a, b) = cell s x y" using assms(5) by (metis byte_at_def fst_conv snd_conv)
  define b' where "b' = cell s x y OR (word_of_int (int r mod 7 + 1) * MAZE_FRUIT_1)"
  have b': "cell s x y OR (word_of_int (int r mod 7) + 1) * MAZE_FRUIT_1 = b'" by (simp add: b'_def)
  have new: "has_fruit b'" "fruit_number b' = r mod 7 + 1"
    using new_fruit[of "int r mod 7" "cell s x y"] assms(4) c by (simp_all add: b'_def nat_mod_distrib)
  define s4 where "s4 = (set_cell x y b' s)\<lparr>rands := rs, n_fruits := n_fruits s + 1\<rparr>"
  have s4: "dims_ok s4" "in_view s4 x y" "in_view s4 (exit_x s4) (exit_y s4)"
    using ok v by (simp_all add: s4_def in_view_def dims_ok_def)
  have pick: "pick_point (\<lambda>b. b AND MAZE_FRUIT \<noteq> 0) s = Some (x, y, s\<lparr>rands := r # rs\<rparr>)"
    using pick_point_supply[OF ok(1) assms(2), of "\<lambda>b. b AND MAZE_FRUIT \<noteq> 0"] assms(3-5)
    by (metis fst_conv snd_conv has_fruit_def)
  have get: "mget (s\<lparr>rands := rs\<rparr>) x y = Some (cell s x y)"
    using mget_cell[of "s\<lparr>rands := rs\<rparr>" x y] ok(1) v by (simp add: dims_ok_def in_view_def)
  have put: "mput x y b' (s\<lparr>rands := rs\<rparr>) = Some ((set_cell x y b' s)\<lparr>rands := rs\<rparr>)"
    using mput_cell[OF ok(1) v, of b'] by (simp add: mput_rands)
  obtain l where l: "redraw x y s4 = Some (s4\<lparr>drawn := drawn s4 @ l\<rparr>)"
    using redraw_if[OF s4(1,2), of True] by auto
  have internal: "add_a_fruit_at True s = Some (s4\<lparr>drawn := drawn s4 @ l\<rparr>)"
    using pick get put l
    by (simp add: add_a_fruit_at_def rnd_def NUM_FRUIT_TYPES_def b' s4_def[symmetric])
  define s5 where "s5 = s4\<lparr>drawn := drawn s4 @ l\<rparr>"
  have s5: "dims_ok s5" "in_view s5 (exit_x s5) (exit_y s5)" using s4 by (simp_all add: s5_def dims_ok_def in_view_def)
  obtain l' where "(if n_fruits s5 = 1 then redraw (exit_x s5) (exit_y s5) s5 else Some s5) =
      Some (s5\<lparr>drawn := drawn s5 @ l'\<rparr>)"
    using redraw_if[OF s5] by metis
  then have run: "add_a_fruit s = Some (n_fruits s + 1, s5\<lparr>drawn := drawn s5 @ l'\<rparr>)"
    using internal by (simp add: add_a_fruit_def s5_def[symmetric]) (simp add: s5_def s4_def)
  have "fruit_cells (set_cell x y b' s) = fruit_cells s + 1"
    using fruit_cells_set_cell[OF ok(1) v, of b'] new assms(4) c by simp
  then have "fruits_ok (s5\<lparr>drawn := drawn s5 @ l'\<rparr>)"
    using assms(1) by (auto simp: fruits_ok_def fruit_cells_def s5_def s4_def dims_ok_def)
  moreover have "cell (s5\<lparr>drawn := drawn s5 @ l'\<rparr>) x y = b'"
    using cell_set_cell[OF ok(1) v, of b'] by (simp add: s5_def s4_def)
  ultimately show ?thesis using run new(2) by (simp add: s5_def s4_def)
qed

theorem add_a_fruit_counts_witness:
  "\<exists>s'. add_a_fruit (tiny_maze\<lparr>rands := [3, 4, 12]\<rparr>) = Some (1, s') \<and> n_fruits s' = 1"
proof -
  let ?s = "tiny_maze\<lparr>rands := [3, 4, 12]\<rparr>"
  have "fruits_ok ?s"
    by (simp add: fruits_ok_def dims_ok_def fruit_cells_def tiny_maze_def has_fruit_def maze_bits)
  moreover have p: "point_of ?s (3, 4) = (1, 1)" by (simp add: point_of_def tiny_maze_def)
  moreover have "\<not> has_fruit (byte_at ?s (3, 4))"
    unfolding byte_at_def p by (simp add: cell_def MAZE_INDEX_def tiny_maze_def MAZE_SIZE_def has_fruit_def maze_bits)
  moreover have "n_fruits ?s = 0" by (simp add: tiny_maze_def)
  ultimately show ?thesis
    using add_a_fruit_counts[of ?s "[]" 3 4 12 "[]" 1 1] by (auto simp: rands_of_def)
qed

end
