(* ===== verification/ModeX.thy ===== *)
theory ModeX
  imports Prelude
begin

text \<open>Mode X graphics, \<^verbatim>\<open>mp2_rthakk21/modex.c\<close>: the build buffer with its four planes, the logical
  view window in it, blocks and lines, and the copy to video memory.

  \<^verbatim>\<open>build\<close> is the array with its fences; an access outside it is \<^const>\<open>None\<close>.  \<^verbatim>\<open>img3\<close> and the
  addresses into the buffer are indices of that array.  Video memory has four planes; a byte
  written goes to the planes the write mask enables.  The text screens, \<^verbatim>\<open>mem_image + 0x18000\<close> in
  text mode, are the array \<^verbatim>\<open>txt_img\<close>.\<close>

section \<open>Constants and state\<close>

definition SCROLL_X_DIM :: int where "SCROLL_X_DIM = 320"
definition SCROLL_Y_DIM :: int where "SCROLL_Y_DIM = 182"
definition SCROLL_X_WIDTH :: int where "SCROLL_X_WIDTH = 320 div 4"
definition SCROLL_SIZE :: int where "SCROLL_SIZE = SCROLL_X_WIDTH * SCROLL_Y_DIM"
definition SCREEN_SIZE :: int where "SCREEN_SIZE = SCROLL_SIZE * 4 + 1"
definition BUILD_BUF_SIZE :: int where "BUILD_BUF_SIZE = SCREEN_SIZE + 20000"
definition BUILD_BASE_INIT :: int where "BUILD_BASE_INIT = (BUILD_BUF_SIZE - SCREEN_SIZE) div 2"
definition MEM_FENCE_WIDTH :: int where "MEM_FENCE_WIDTH = 256"
definition MEM_FENCE_MAGIC :: byte where "MEM_FENCE_MAGIC = 0xF3"
definition MODE_X_MEM_SIZE :: nat where "MODE_X_MEM_SIZE = 65536"
definition BLOCK_DIM :: int where "BLOCK_DIM = 12"
definition PLANE_SIZE_STATUS :: nat where "PLANE_SIZE_STATUS = 5760 div 4"

lemma modex_consts:
  "SCROLL_X_DIM = 320" "SCROLL_Y_DIM = 182" "SCROLL_X_WIDTH = 80" "SCROLL_SIZE = 14560" "SCREEN_SIZE = 58241"
  "BUILD_BUF_SIZE = 78241" "BUILD_BASE_INIT = 10000" "MEM_FENCE_WIDTH = 256" "BLOCK_DIM = 12" "PLANE_SIZE_STATUS = 1440"
  by (simp_all add: SCROLL_X_DIM_def SCROLL_Y_DIM_def SCROLL_X_WIDTH_def SCROLL_SIZE_def SCREEN_SIZE_def
      BUILD_BUF_SIZE_def BUILD_BASE_INIT_def MEM_FENCE_WIDTH_def BLOCK_DIM_def PLANE_SIZE_STATUS_def)

datatype port_io = OutB u16 byte | OutW u16 u16 | InB u16

record modex =
  build :: "int \<Rightarrow> byte"
  img3_off :: int
  img3 :: int
  show_x :: int
  show_y :: int
  target_img :: u16
  wmask :: nat
  vplanes :: "nat \<Rightarrow> int \<Rightarrow> byte"
  txt_img :: "nat \<Rightarrow> byte"
  ports :: "port_io list"

text \<open>Accesses to the build buffer.\<close>

definition bget :: "int \<Rightarrow> modex \<Rightarrow> byte option" where
  "bget a s = (if 0 \<le> a \<and> a < BUILD_BUF_SIZE + 2 * MEM_FENCE_WIDTH then Some (build s a) else None)"

definition bput :: "int \<Rightarrow> byte \<Rightarrow> modex \<Rightarrow> modex option" where
  "bput a b s = (if 0 \<le> a \<and> a < BUILD_BUF_SIZE + 2 * MEM_FENCE_WIDTH then Some (s\<lparr>build := (build s)(a := b)\<rparr>) else None)"

text \<open>Ports.  A word written to the sequencer port carries the index in its low byte; index 2 is
  the map mask.\<close>

definition OUTB :: "u16 \<Rightarrow> byte \<Rightarrow> modex \<Rightarrow> modex" where
  "OUTB port val s = s\<lparr>ports := ports s @ [OutB port val]\<rparr>"

definition OUTW :: "u16 \<Rightarrow> u16 \<Rightarrow> modex \<Rightarrow> modex" where
  "OUTW port val s = s\<lparr>ports := ports s @ [OutW port val],
     wmask := (if port = 0x03C4 \<and> val AND 0xFF = 0x02 then unat (drop_bit 8 val) mod 16 else wmask s)\<rparr>"

definition INB :: "u16 \<Rightarrow> modex \<Rightarrow> modex" where
  "INB port s = s\<lparr>ports := ports s @ [InB port]\<rparr>"

definition REP_OUTSW :: "u16 \<Rightarrow> u16 list \<Rightarrow> modex \<Rightarrow> modex" where
  "REP_OUTSW port source s = fold (OUTW port) source s"

definition REP_OUTSB :: "u16 \<Rightarrow> byte list \<Rightarrow> modex \<Rightarrow> modex" where
  "REP_OUTSB port source s = fold (OUTB port) source s"

definition SET_WRITE_MASK :: "u16 \<Rightarrow> modex \<Rightarrow> modex" where
  "SET_WRITE_MASK mask_hi_bits s = OUTW 0x03C4 ((mask_hi_bits AND 0xFF00) OR 0x02) s"

definition vput :: "int \<Rightarrow> byte \<Rightarrow> modex \<Rightarrow> modex" where
  "vput a b s = s\<lparr>vplanes := (\<lambda>p q. if q = a \<and> odd (wmask s div 2 ^ p) then b else vplanes s p q)\<rparr>"

section \<open>The view window\<close>

fun copy_down :: "int \<Rightarrow> int \<Rightarrow> nat \<Rightarrow> modex \<Rightarrow> modex option" where
  "copy_down target start 0 s = Some s"
| "copy_down target start (Suc i) s = do {
     b \<leftarrow> bget (start + int i) s;
     s1 \<leftarrow> bput (target + int i) b s;
     copy_down target start i s1 }"

fun copy_up :: "int \<Rightarrow> int \<Rightarrow> nat \<Rightarrow> modex \<Rightarrow> modex option" where
  "copy_up target start 0 s = Some s"
| "copy_up target start (Suc n) s = do {
     b \<leftarrow> bget start s;
     s1 \<leftarrow> bput target b s;
     copy_up (target + 1) (start + 1) n s1 }"

definition set_view_window :: "int \<Rightarrow> int \<Rightarrow> modex \<Rightarrow> modex option" where
  "set_view_window scr_x scr_y s0 =
    (let old_x = show_x s0; old_y = show_y s0;
         s = s0\<lparr>show_x := scr_x, show_y := scr_y\<rparr>
     in if img3_off s + drop_bit 2 scr_x + scr_y * SCROLL_X_WIDTH \<ge> 0 \<and>
           img3_off s + 3 * SCROLL_SIZE + drop_bit 2 (scr_x + SCROLL_X_DIM - 1) +
             (scr_y + SCROLL_Y_DIM - 1) * SCROLL_X_WIDTH < BUILD_BUF_SIZE
        then Some s
        else
         (let off1 = BUILD_BASE_INIT - drop_bit 2 scr_x - scr_y * SCROLL_X_WIDTH;
              s1 = s\<lparr>img3_off := off1, img3 := off1 + MEM_FENCE_WIDTH\<rparr>
          in if scr_x \<le> old_x - SCROLL_X_DIM \<or> scr_x \<ge> old_x + SCROLL_X_DIM \<or>
                scr_y \<le> old_y - SCROLL_Y_DIM \<or> scr_y \<ge> old_y + SCROLL_Y_DIM
             then Some s1
             else
              (let (start_x, end_x0) = (if scr_x > old_x then (scr_x, old_x) else (old_x, scr_x));
                   end_x = end_x0 + SCROLL_X_DIM - 1;
                   (start_y, end_y0) = (if scr_y > old_y then (scr_y, old_y) else (old_y, scr_y));
                   end_y = end_y0 + SCROLL_Y_DIM - 1;
                   start_off = drop_bit 2 start_x + start_y * SCROLL_X_WIDTH;
                   start_addr = img3 s + start_off;
                   len = drop_bit 2 end_x + end_y * SCROLL_X_WIDTH + 1 - start_off + 3 * SCROLL_SIZE;
                   target_addr = img3 s1 + start_off
               in if start_addr < target_addr then copy_down target_addr start_addr (nat len) s1
                  else copy_up target_addr start_addr (nat len) s1)))"

section \<open>Blocks\<close>

text \<open>The address of a pixel.\<close>

definition pix_addr :: "modex \<Rightarrow> int \<Rightarrow> int \<Rightarrow> int" where
  "pix_addr s px py = img3 s + drop_bit 2 px + py * SCROLL_X_WIDTH + (3 - (px AND 3)) * SCROLL_SIZE"

text \<open>Clipping one dimension: the number of pixels skipped and of pixels drawn, for a block at
  \<^verbatim>\<open>pos\<close> and a window of size \<^verbatim>\<open>dim\<close> at \<^verbatim>\<open>show\<close>.\<close>

definition clip :: "int \<Rightarrow> int \<Rightarrow> int \<Rightarrow> int \<times> int" where
  "clip pos shw dim =
    (let left = (if shw - pos < 0 then 0 else shw - pos);
         right = (if shw + dim - pos > BLOCK_DIM then BLOCK_DIM else shw + dim - pos)
     in (left, right - left))"

definition off_screen :: "int \<Rightarrow> int \<Rightarrow> modex \<Rightarrow> bool" where
  "off_screen pos_x pos_y s \<longleftrightarrow>
     pos_x + BLOCK_DIM \<le> show_x s \<or> pos_x \<ge> show_x s + SCROLL_X_DIM \<or>
     pos_y + BLOCK_DIM \<le> show_y s \<or> pos_y \<ge> show_y s + SCROLL_Y_DIM"

fun block_row :: "(int \<Rightarrow> byte) \<Rightarrow> nat \<Rightarrow> int \<Rightarrow> int \<Rightarrow> int \<Rightarrow> modex \<Rightarrow> modex option" where
  "block_row blk 0 px py b s = Some s"
| "block_row blk (Suc n) px py b s = do {
     s1 \<leftarrow> bput (pix_addr s px py) (blk b) s;
     block_row blk n (px + 1) py (b + 1) s1 }"

fun block_rows :: "(int \<Rightarrow> byte) \<Rightarrow> nat \<Rightarrow> nat \<Rightarrow> int \<Rightarrow> int \<Rightarrow> int \<Rightarrow> int \<Rightarrow> modex \<Rightarrow> modex option" where
  "block_rows blk 0 n skip px py b s = Some s"
| "block_rows blk (Suc m) n skip px py b s = do {
     s1 \<leftarrow> block_row blk n px py b s;
     block_rows blk m n skip px (py + 1) (b + int n + skip) s1 }"

definition draw_full_block :: "int \<Rightarrow> int \<Rightarrow> (int \<Rightarrow> byte) \<Rightarrow> modex \<Rightarrow> modex option" where
  "draw_full_block pos_x pos_y blk s =
    (if off_screen pos_x pos_y s then Some s
     else
      (let (x_left, x_num) = clip pos_x (show_x s) SCROLL_X_DIM;
           (y_top, y_num) = clip pos_y (show_y s) SCROLL_Y_DIM
       in block_rows blk (nat y_num) (nat x_num) (BLOCK_DIM - x_num) (pos_x + x_left) (pos_y + y_top)
            (x_left + y_top * BLOCK_DIM) s))"

text \<open>With a mask: \<^verbatim>\<open>q\<close> counts the pixels drawn, the common index of the mask and of the buffer for
  the old values, which the clipping does not move.\<close>

fun mask_row ::
    "(int \<Rightarrow> byte) \<Rightarrow> (int \<Rightarrow> byte) \<Rightarrow> nat \<Rightarrow> int \<Rightarrow> int \<Rightarrow> int \<Rightarrow> int \<Rightarrow> modex \<times> (int \<Rightarrow> byte) \<Rightarrow> (modex \<times> (int \<Rightarrow> byte)) option" where
  "mask_row blk msk 0 px py b q so = Some so"
| "mask_row blk msk (Suc n) px py b q so = do {
     v \<leftarrow> bget (pix_addr (fst so) px py) (fst so);
     s1 \<leftarrow> (if msk q = 1 then bput (pix_addr (fst so) px py) (blk b) (fst so) else Some (fst so));
     mask_row blk msk n (px + 1) py (b + 1) (q + 1) (s1, (snd so)(q := v)) }"

fun mask_rows ::
    "(int \<Rightarrow> byte) \<Rightarrow> (int \<Rightarrow> byte) \<Rightarrow> nat \<Rightarrow> nat \<Rightarrow> int \<Rightarrow> int \<Rightarrow> int \<Rightarrow> int \<Rightarrow> int \<Rightarrow> modex \<times> (int \<Rightarrow> byte) \<Rightarrow>
     (modex \<times> (int \<Rightarrow> byte)) option" where
  "mask_rows blk msk 0 n skip px py b q so = Some so"
| "mask_rows blk msk (Suc m) n skip px py b q so = do {
     so1 \<leftarrow> mask_row blk msk n px py b q so;
     mask_rows blk msk m n skip px (py + 1) (b + int n + skip) (q + int n) so1 }"

definition draw_mask_block ::
    "int \<Rightarrow> int \<Rightarrow> (int \<Rightarrow> byte) \<Rightarrow> (int \<Rightarrow> byte) \<Rightarrow> modex \<times> (int \<Rightarrow> byte) \<Rightarrow> (modex \<times> (int \<Rightarrow> byte)) option" where
  "draw_mask_block pos_x pos_y blk msk so =
    (if off_screen pos_x pos_y (fst so) then Some so
     else
      (let (x_left, x_num) = clip pos_x (show_x (fst so)) SCROLL_X_DIM;
           (y_top, y_num) = clip pos_y (show_y (fst so)) SCROLL_Y_DIM
       in mask_rows blk msk (nat y_num) (nat x_num) (BLOCK_DIM - x_num) (pos_x + x_left) (pos_y + y_top)
            (x_left + y_top * BLOCK_DIM) 0 so))"

section \<open>Lines\<close>

text \<open>The callback that fills the line is \<^verbatim>\<open>fn\<close>; it gives the bytes of the buffer.\<close>

fun vert_line_loop :: "byte list \<Rightarrow> int \<Rightarrow> int \<Rightarrow> modex \<Rightarrow> modex option" where
  "vert_line_loop [] p_off addr s = Some s"
| "vert_line_loop (b # bs) p_off addr s = do {
     s1 \<leftarrow> bput (addr + p_off * SCROLL_SIZE) b s;
     vert_line_loop bs p_off (addr + SCROLL_X_WIDTH) s1 }"

definition draw_vert_line :: "(int \<Rightarrow> int \<Rightarrow> byte list option) \<Rightarrow> int \<Rightarrow> modex \<Rightarrow> (int \<times> modex) option" where
  "draw_vert_line fn x0 s =
    (if x0 < 0 \<or> x0 \<ge> SCROLL_X_DIM then Some (- 1, s)
     else do {
       let x = x0 + show_x s;
       buf \<leftarrow> fn x (show_y s);
       s1 \<leftarrow> vert_line_loop buf (3 - (x AND 3)) (img3 s + drop_bit 2 x + show_y s * SCROLL_X_WIDTH) s;
       Some (0, s1) })"

fun horiz_line_loop :: "byte list \<Rightarrow> int \<Rightarrow> int \<Rightarrow> modex \<Rightarrow> modex option" where
  "horiz_line_loop [] p_off addr s = Some s"
| "horiz_line_loop (b # bs) p_off addr s = do {
     s1 \<leftarrow> bput (addr + p_off * SCROLL_SIZE) b s;
     if p_off - 1 < 0 then horiz_line_loop bs 3 (addr + 1) s1
     else horiz_line_loop bs (p_off - 1) addr s1 }"

definition draw_horiz_line :: "(int \<Rightarrow> int \<Rightarrow> byte list option) \<Rightarrow> int \<Rightarrow> modex \<Rightarrow> (int \<times> modex) option" where
  "draw_horiz_line fn y0 s =
    (if y0 < 0 \<or> y0 \<ge> SCROLL_Y_DIM then Some (- 1, s)
     else do {
       let y = y0 + show_y s;
       buf \<leftarrow> fn (show_x s) y;
       s1 \<leftarrow> horiz_line_loop buf (3 - (show_x s AND 3)) (img3 s + drop_bit 2 (show_x s) + y * SCROLL_X_WIDTH) s;
       Some (0, s1) })"

end
