(* ===== verification/ModeXView.thy ===== *)
theory ModeXView
  imports ModeX
begin

text \<open>The build buffer as a window on a plane of pixels: the addresses of the pixels in the window
  lie in the buffer and are different, moving the window keeps the pixels that stay visible, and
  blocks and lines change exactly the pixels they cover.\<close>

section \<open>Specification\<close>

definition in_win :: "modex \<Rightarrow> int \<Rightarrow> int \<Rightarrow> bool" where
  "in_win s x y \<longleftrightarrow> show_x s \<le> x \<and> x < show_x s + 320 \<and> show_y s \<le> y \<and> y < show_y s + 182"

definition pixel :: "modex \<Rightarrow> int \<Rightarrow> int \<Rightarrow> byte" where
  "pixel s x y = build s (pix_addr s x y)"

text \<open>The invariant: the window lies inside the build buffer.\<close>

definition view_ok :: "modex \<Rightarrow> bool" where
  "view_ok s \<longleftrightarrow> img3 s = img3_off s + 256 \<and> 0 \<le> img3_off s + show_x s div 4 + 80 * show_y s \<and>
     img3_off s + 43680 + (show_x s + 319) div 4 + 80 * show_y s + 14480 < 78241"

text \<open>The bytes of the two memory fences are the same.\<close>

definition same_fence :: "modex \<Rightarrow> modex \<Rightarrow> bool" where
  "same_fence s s' \<longleftrightarrow> (\<forall>a. a < 256 \<or> 78497 \<le> a \<longrightarrow> build s' a = build s a)"

lemma same_fence_refl [simp]: "same_fence s s"
  by (simp add: same_fence_def)

lemma same_fence_trans: "same_fence s s1 \<Longrightarrow> same_fence s1 s2 \<Longrightarrow> same_fence s s2"
  by (simp add: same_fence_def)

section \<open>Facts: addresses\<close>

lemma shift_2: "drop_bit 2 x = x div (4 :: int)"
  by (simp add: drop_bit_eq_div)

lemma and_3: "x AND 3 = x mod (4 :: int)"
proof -
  have "take_bit 2 x = x AND mask 2" by (rule take_bit_eq_mask)
  then show ?thesis by (simp add: take_bit_eq_mod mask_eq_exp_minus_1)
qed

lemma pix_addr_eq: "pix_addr s x y = img3 s + x div 4 + 80 * y + 43680 - 14560 * (x mod 4)"
  by (simp add: pix_addr_def shift_2 and_3 modex_consts)

lemma quarter:
  obtains q r where "(x :: int) = 4 * q + r" "x div 4 = q" "x mod 4 = r" "0 \<le> r" "r \<le> 3"
proof -
  have "x = 4 * (x div 4) + x mod 4" "0 \<le> x mod 4" "x mod 4 < 4" by simp_all
  then show ?thesis by (intro that[of "x div 4" "x mod 4"]) simp_all
qed

lemma addr_bounds:
  assumes "view_ok s" "in_win s x y"
  shows "256 \<le> pix_addr s x y" "pix_addr s x y < 78497"
proof -
  have m: "show_x s div 4 \<le> x div 4" "x div 4 \<le> (show_x s + 319) div 4"
    using assms(2) by (auto simp: in_win_def intro: zdiv_mono1)
  have y: "show_y s \<le> y" "y \<le> show_y s + 181" using assms(2) by (simp_all add: in_win_def)
  have v: "img3 s = img3_off s + 256" "0 \<le> img3_off s + show_x s div 4 + 80 * show_y s"
    "img3_off s + 43680 + (show_x s + 319) div 4 + 80 * show_y s + 14480 < 78241"
    using assms(1) by (simp_all add: view_ok_def)
  obtain q r where r: "x div 4 = q" "x mod 4 = r" "0 \<le> r" "r \<le> 3" using quarter[of x] by metis
  define A where "A = show_x s div 4"
  define B where "B = (show_x s + 319) div 4"
  show "256 \<le> pix_addr s x y" "pix_addr s x y < 78497"
    unfolding pix_addr_eq r using m[unfolded r, folded A_def B_def] y v[folded A_def B_def] r(3,4) by - linarith+
qed

lemma bget_pix: "view_ok s \<Longrightarrow> in_win s x y \<Longrightarrow> bget (pix_addr s x y) s = Some (pixel s x y)"
  using addr_bounds[of s x y] by (simp add: bget_def modex_consts pixel_def)

lemma bput_pix:
  "view_ok s \<Longrightarrow> in_win s x y \<Longrightarrow> bput (pix_addr s x y) b s = Some (s\<lparr>build := (build s)(pix_addr s x y := b)\<rparr>)"
  using addr_bounds[of s x y] by (simp add: bput_def modex_consts)

text \<open>Different pixels of the window have different addresses.\<close>

lemma addr_inj:
  assumes "in_win s x1 y1" "in_win s x2 y2" "pix_addr s x1 y1 = pix_addr s x2 y2"
  shows "x1 = x2 \<and> y1 = y2"
proof -
  obtain q1 r1 where x1: "x1 = 4 * q1 + r1" "x1 div 4 = q1" "x1 mod 4 = r1" "0 \<le> r1" "r1 \<le> 3" using quarter by metis
  obtain q2 r2 where x2: "x2 = 4 * q2 + r2" "x2 div 4 = q2" "x2 mod 4 = r2" "0 \<le> r2" "r2 \<le> 3" using quarter by metis
  obtain q r where x0: "show_x s = 4 * q + r" "0 \<le> r" "r \<le> 3" using quarter by metis
  define y0 where "y0 = show_y s"
  have y: "y0 \<le> y1" "y1 \<le> y0 + 181" "y0 \<le> y2" "y2 \<le> y0 + 181" using assms(1,2) by (simp_all add: in_win_def y0_def)
  have w1: "4 * q + r \<le> 4 * q1 + r1" "4 * q1 + r1 \<le> 4 * q + r + 319"
    and w2: "4 * q + r \<le> 4 * q2 + r2" "4 * q2 + r2 \<le> 4 * q + r + 319"
    using assms(1,2) x0 x1(1) x2(1) by (simp_all add: in_win_def)
  have eq: "q1 + 80 * y1 - 14560 * r1 = q2 + 80 * y2 - 14560 * r2"
    using assms(3) by (simp add: pix_addr_eq x1(2,3) x2(2,3))
  have q12: "q \<le> q1" "q1 \<le> q + 80" "q \<le> q2" "q2 \<le> q + 80" using w1 w2 x0 x1 x2 by linarith+
  have e1: "q1 = q \<Longrightarrow> r \<le> r1" "q1 = q + 80 \<Longrightarrow> r1 < r" and e2: "q2 = q \<Longrightarrow> r \<le> r2" "q2 = q + 80 \<Longrightarrow> r2 < r"
    using w1 w2 by simp_all
  have rr: "r1 = r2"
  proof (rule ccontr)
    assume "r1 \<noteq> r2"
    then consider "r1 < r2" | "r2 < r1" by linarith
    then show False
    proof cases
      case 1
      then have "q2 + 80 * y2 \<ge> q1 + 80 * y1 + 14560" using eq by linarith
      then have "q2 = q + 80" "q1 = q" using q12 y by linarith+
      then show False using e1(1) e2(2) 1 by linarith
    next
      case 2
      then have "q1 + 80 * y1 \<ge> q2 + 80 * y2 + 14560" using eq by linarith
      then have "q1 = q + 80" "q2 = q" using q12 y by linarith+
      then show False using e1(2) e2(1) 2 by linarith
    qed
  qed
  have qq: "q1 + 80 * y1 = q2 + 80 * y2" using eq rr by simp
  have "y1 = y2"
  proof (rule ccontr)
    assume "y1 \<noteq> y2"
    then consider "y1 < y2" | "y2 < y1" by linarith
    then show False
    proof cases
      case 1
      then have "q1 = q + 80" "q2 = q" using qq q12 by linarith+
      then show False using e1(2) e2(1) rr by linarith
    next
      case 2
      then have "q2 = q + 80" "q1 = q" using qq q12 by linarith+
      then show False using e1(1) e2(2) rr by linarith
    qed
  qed
  then show ?thesis using qq rr x1(1) x2(1) by simp
qed

section \<open>Moving the window\<close>

text \<open>A region copied within the buffer, as if read first.\<close>

definition moved :: "int \<Rightarrow> int \<Rightarrow> nat \<Rightarrow> (int \<Rightarrow> byte) \<Rightarrow> int \<Rightarrow> byte" where
  "moved t st n f = (\<lambda>a. if t \<le> a \<and> a < t + int n then f (a - t + st) else f a)"

lemma copy_down_moved:
  assumes "st < t" "0 \<le> st" "t + int n \<le> 78753"
  shows "copy_down t st n s = Some (s\<lparr>build := moved t st n (build s)\<rparr>)"
  using assms(3)
proof (induction n arbitrary: s)
  case 0
  have "moved t st 0 (build s) = build s" by (rule ext) (auto simp: moved_def)
  then show ?case by simp
next
  case (Suc n)
  let ?f = "(build s)(t + int n := build s (st + int n))"
  have "moved t st n ?f = moved t st (Suc n) (build s)"
    using assms(1) by (intro ext) (auto simp: moved_def algebra_simps)
  then show ?case
    using Suc assms(1,2) by (simp add: bget_def bput_def modex_consts)
qed

lemma copy_up_moved:
  assumes "t \<le> st" "0 \<le> t" "st + int n \<le> 78753"
  shows "copy_up t st n s = Some (s\<lparr>build := moved t st n (build s)\<rparr>)"
  using assms
proof (induction n arbitrary: t st s)
  case 0
  have "moved t st 0 (build s) = build s" by (rule ext) (auto simp: moved_def)
  then show ?case by simp
next
  case (Suc n)
  let ?f = "(build s)(t := build s st)"
  have m: "moved (t + 1) (st + 1) n ?f = moved t st (Suc n) (build s)"
    using Suc.prems(1) by (intro ext) (auto simp: moved_def algebra_simps)
  have "copy_up t st (Suc n) s = copy_up (t + 1) (st + 1) n (s\<lparr>build := ?f\<rparr>)"
    using Suc.prems by (simp add: bget_def bput_def modex_consts)
  also have "\<dots> = Some (s\<lparr>build := moved (t + 1) (st + 1) n ?f\<rparr>)"
    by (subst Suc.IH) (use Suc.prems in simp_all)
  finally show ?case unfolding m .
qed

text \<open>The address of a pixel relative to the pointer, and the window at the place it gets when it is
  put in the middle of the buffer.\<close>

definition pix_off :: "int \<Rightarrow> int \<Rightarrow> int" where
  "pix_off x y = x div 4 + 80 * y + 43680 - 14560 * (x mod 4)"

lemma pix_addr_off: "pix_addr s x y = img3 s + pix_off x y"
  by (simp add: pix_addr_eq pix_off_def)

lemma width_319: "(x + 319) div 4 \<le> x div 4 + (80 :: int)" "x div 4 + 79 \<le> (x + 319) div 4"
proof -
  obtain q r where "x = 4 * q + r" "0 \<le> r" "r \<le> 3" using quarter[of x] by metis
  then show "(x + 319) div 4 \<le> x div 4 + (80 :: int)" "x div 4 + 79 \<le> (x + 319) div 4" by auto
qed

lemma view_ok_middle:
  "img3_off s = 10000 - show_x s div 4 - 80 * show_y s \<Longrightarrow> img3 s = img3_off s + 256 \<Longrightarrow> view_ok s"
  using width_319(1)[of "show_x s"] by (simp add: view_ok_def)

lemma max_min_window:
  fixes a b d :: int
  shows "(if a > b then (a, b) else (b, a)) = (max a b, min a b)"
  by (simp add: max_def min_def)

text \<open>The region that set_view_window copies: it lies in the old window and covers what stays visible.\<close>

lemma copied_region:
  assumes "view_ok s" "sx > show_x s - 320" "sx < show_x s + 320" "sy > show_y s - 182" "sy < show_y s + 182"
  defines "so \<equiv> max sx (show_x s) div 4 + 80 * max sy (show_y s)"
    and "eo \<equiv> (min sx (show_x s) + 319) div 4 + 80 * (min sy (show_y s) + 181) + 43681"
  shows "so \<le> eo" "0 \<le> img3_off s + so" "img3_off s + eo \<le> 78241"
    "sx div 4 + 80 * sy \<le> so" "eo \<le> sx div 4 + 80 * sy + 58241"
    "show_x s \<le> x \<Longrightarrow> x < show_x s + 320 \<Longrightarrow> show_y s \<le> y \<Longrightarrow> y < show_y s + 182 \<Longrightarrow>
     sx \<le> x \<Longrightarrow> x < sx + 320 \<Longrightarrow> sy \<le> y \<Longrightarrow> y < sy + 182 \<Longrightarrow> so \<le> pix_off x y \<and> pix_off x y < eo"
proof -
  define ox oy where "ox = show_x s" and "oy = show_y s"
  have v: "0 \<le> img3_off s + ox div 4 + 80 * oy" "img3_off s + 43680 + (ox + 319) div 4 + 80 * oy + 14480 < 78241"
    using assms(1) by (simp_all add: view_ok_def ox_def oy_def)
  define A B C D where "A = max sx ox div 4" and "B = (min sx ox + 319) div 4" and "C = max sy oy" and "D = min sy oy"
  have seo: "so = A + 80 * C" "eo = B + 80 * D + 58161"
    by (simp_all add: so_def eo_def A_def B_def C_def D_def ox_def oy_def)
  have AB: "A \<le> B" using assms(2,3) unfolding A_def B_def by (intro zdiv_mono1) (auto simp: ox_def)
  have CD: "C \<le> D + 181" using assms(4,5) by (auto simp: C_def D_def oy_def)
  have A: "ox div 4 \<le> A" "sx div 4 \<le> A" unfolding A_def by (rule zdiv_mono1; simp)+
  have B: "B \<le> (ox + 319) div 4" "B \<le> (sx + 319) div 4" unfolding B_def by (rule zdiv_mono1; simp)+
  have C: "oy \<le> C" "sy \<le> C" and D: "D \<le> oy" "D \<le> sy" by (simp_all add: C_def D_def)
  show "so \<le> eo" "0 \<le> img3_off s + so" "img3_off s + eo \<le> 78241"
    "sx div 4 + 80 * sy \<le> so" "eo \<le> sx div 4 + 80 * sy + 58241"
    unfolding seo using AB CD A B C D v width_319(1)[of sx] by - linarith+
  assume "show_x s \<le> x" "x < show_x s + 320" "show_y s \<le> y" "y < show_y s + 182"
    "sx \<le> x" "x < sx + 320" "sy \<le> y" "y < sy + 182"
  then have xy: "max sx ox \<le> x" "x \<le> min sx ox + 319" "C \<le> y" "y \<le> D + 181"
    by (simp_all add: ox_def oy_def C_def D_def)
  have x4: "A \<le> x div 4" "x div 4 \<le> B" unfolding A_def B_def by (rule zdiv_mono1; use xy in simp)+
  obtain q r where r: "x div 4 = q" "x mod 4 = r" "0 \<le> r" "r \<le> 3" using quarter[of x] by metis
  show "so \<le> pix_off x y \<and> pix_off x y < eo"
    unfolding seo pix_off_def r(1,2) using x4[unfolded r(1)] xy(3,4) r(3,4) by linarith
qed

lemma copied_pixel:
  assumes "view_ok s" "sx > show_x s - 320" "sx < show_x s + 320" "sy > show_y s - 182" "sy < show_y s + 182"
    and "s' = s\<lparr>show_x := sx, show_y := sy, img3_off := off, img3 := off + 256\<rparr>" "off = 10000 - sx div 4 - 80 * sy"
    and "so = max sx (show_x s) div 4 + 80 * max sy (show_y s)"
    and "eo = (min sx (show_x s) + 319) div 4 + 80 * (min sy (show_y s) + 181) + 43681"
    and "in_win s x y" "in_win s' x y"
  shows "pixel (s'\<lparr>build := moved (img3 s' + so) (img3 s + so) (nat (eo - so)) (build s')\<rparr>) x y = pixel s x y"
proof -
  note r = copied_region[OF assms(1-5), folded assms(8,9)]
  have p: "so \<le> pix_off x y" "pix_off x y < eo" using r(6)[of x y] assms(6,10,11) by (simp_all add: in_win_def)
  then show ?thesis by (simp add: pixel_def pix_addr_off moved_def assms(6) algebra_simps)
qed

lemma set_view_window_eq:
  "set_view_window sx sy s =
    (let s1 = s\<lparr>show_x := sx, show_y := sy\<rparr>;
         off = 10000 - sx div 4 - 80 * sy;
         s2 = s1\<lparr>img3_off := off, img3 := off + 256\<rparr>;
         so = max sx (show_x s) div 4 + 80 * max sy (show_y s);
         eo = (min sx (show_x s) + 319) div 4 + 80 * (min sy (show_y s) + 181) + 43681
     in if 0 \<le> img3_off s + sx div 4 + 80 * sy \<and> img3_off s + 43680 + (sx + 319) div 4 + 80 * sy + 14480 < 78241
        then Some s1
        else if sx \<le> show_x s - 320 \<or> sx \<ge> show_x s + 320 \<or> sy \<le> show_y s - 182 \<or> sy \<ge> show_y s + 182 then Some s2
        else if img3 s + so < img3 s2 + so then copy_down (img3 s2 + so) (img3 s + so) (nat (eo - so)) s2
        else copy_up (img3 s2 + so) (img3 s + so) (nat (eo - so)) s2)"
  unfolding set_view_window_def Let_def shift_2 modex_consts
  by (cases "sx > show_x s"; cases "sy > show_y s") (simp_all add: max_def min_def algebra_simps)

lemma set_view_window_spec:
  assumes "view_ok s"
  shows "\<exists>s'. set_view_window sx sy s = Some s' \<and> view_ok s' \<and> show_x s' = sx \<and> show_y s' = sy \<and>
    vplanes s' = vplanes s \<and> target_img s' = target_img s \<and> same_fence s s' \<and>
    (\<forall>x y. in_win s x y \<and> in_win s' x y \<longrightarrow> pixel s' x y = pixel s x y)"
proof -
  define s1 where "s1 = s\<lparr>show_x := sx, show_y := sy\<rparr>"
  define off where "off = 10000 - sx div 4 - 80 * sy"
  define s2 where "s2 = s1\<lparr>img3_off := off, img3 := off + 256\<rparr>"
  have same: "view_ok s2" by (rule view_ok_middle) (simp_all add: s2_def s1_def off_def)
  define fits where "fits \<longleftrightarrow> 0 \<le> img3_off s + sx div 4 + 80 * sy \<and>
      img3_off s + 43680 + (sx + 319) div 4 + 80 * sy + 14480 < 78241"
  define so where "so = max sx (show_x s) div 4 + 80 * max sy (show_y s)"
  define eo where "eo = (min sx (show_x s) + 319) div 4 + 80 * (min sy (show_y s) + 181) + 43681"
  note eq = set_view_window_eq[of sx sy s, unfolded Let_def, folded s1_def off_def, folded s2_def so_def eo_def fits_def]
  consider (fits) fits
    | (apart) "\<not> fits" "sx \<le> show_x s - 320 \<or> sx \<ge> show_x s + 320 \<or> sy \<le> show_y s - 182 \<or> sy \<ge> show_y s + 182"
    | (overlap) "\<not> fits" "sx > show_x s - 320" "sx < show_x s + 320" "sy > show_y s - 182" "sy < show_y s + 182"
    by linarith
  then show ?thesis
  proof cases
    case fits
    then have "set_view_window sx sy s = Some s1" by (simp add: eq)
    moreover have "view_ok s1" using fits assms by (simp add: view_ok_def s1_def fits_def)
    moreover have "pixel s1 x y = pixel s x y" for x y by (simp add: s1_def pixel_def pix_addr_def)
    ultimately show ?thesis by (auto simp: s1_def same_fence_def)
  next
    case apart
    then have "set_view_window sx sy s = Some s2" by (simp add: eq)
    moreover have "\<not> (in_win s x y \<and> in_win s2 x y)" for x y
      using apart(2) by (auto simp: in_win_def s2_def s1_def)
    ultimately show ?thesis using same by (auto simp: s1_def s2_def same_fence_def)
  next
    case overlap
    define s3 where "s3 = s2\<lparr>build := moved (img3 s2 + so) (img3 s + so) (nat (eo - so)) (build s2)\<rparr>"
    note r = copied_region[OF assms overlap(2-5), folded so_def eo_def]
    have i: "img3 s = img3_off s + 256" "img3 s2 = off + 256" using assms by (simp_all add: view_ok_def s2_def)
    have bounds: "0 \<le> img3 s + so" "img3 s + so + int (nat (eo - so)) \<le> 78753"
      "0 \<le> img3 s2 + so" "img3 s2 + so + int (nat (eo - so)) \<le> 78753"
      using r(1-5) i off_def by simp_all
    have run: "set_view_window sx sy s = Some s3"
      using overlap bounds copy_down_moved copy_up_moved by (simp add: eq s3_def)
    have "view_ok s3" using same by (simp add: view_ok_def s3_def)
    moreover have "pixel s3 x y = pixel s x y" if "in_win s x y" "in_win s3 x y" for x y
      unfolding s3_def
      by (rule copied_pixel[OF assms overlap(2-5) _ off_def so_def eo_def that(1)])
        (use that(2) in \<open>simp_all add: s3_def s2_def s1_def in_win_def\<close>)
    moreover have "same_fence s s3"
      using r(1,4,5) i(2) off_def by (auto simp: same_fence_def s3_def s2_def s1_def moved_def)
    ultimately show ?thesis using run by (auto simp: s3_def s2_def s1_def)
  qed
qed

text \<open>C15: Moving the logical view window always succeeds, keeps the window inside the build buffer,
  and keeps every pixel that is in the old and in the new window, although the planes may be
  copied to another place of the buffer over themselves; the memory fences stay as they are.\<close>
theorem set_view_window_keeps:
  assumes "view_ok s"
  shows "\<exists>s'. set_view_window sx sy s = Some s' \<and> view_ok s' \<and> show_x s' = sx \<and> show_y s' = sy \<and>
    vplanes s' = vplanes s \<and> target_img s' = target_img s \<and> same_fence s s' \<and>
    (\<forall>x y. in_win s x y \<and> in_win s' x y \<longrightarrow> pixel s' x y = pixel s x y)"
  by (rule set_view_window_spec[OF assms])

section \<open>Painting pixels\<close>

text \<open>A state that differs in the buffer only, and the pixels of a region painted.\<close>

definition painted :: "(int \<Rightarrow> int \<Rightarrow> byte option) \<Rightarrow> modex \<Rightarrow> modex \<Rightarrow> bool" where
  "painted g s s' \<longleftrightarrow> (\<exists>f. s' = s\<lparr>build := f\<rparr>) \<and> same_fence s s' \<and>
     (\<forall>x y. in_win s x y \<longrightarrow> pixel s' x y = (case g x y of Some b \<Rightarrow> b | None \<Rightarrow> pixel s x y))"

lemma painted_refl: "painted (\<lambda>_ _. None) s s"
  unfolding painted_def by (auto intro: exI[of _ "build s"])

lemma painted_fields:
  assumes "painted g s s'"
  shows "show_x s' = show_x s" "show_y s' = show_y s" "img3 s' = img3 s" "img3_off s' = img3_off s"
    "view_ok s' = view_ok s" "in_win s' x y = in_win s x y" "pix_addr s' x y = pix_addr s x y" "vplanes s' = vplanes s"
    "target_img s' = target_img s" "same_fence s s'"
  using assms by (auto simp: painted_def view_ok_def in_win_def pix_addr_def)

lemma painted_trans:
  assumes "painted g s s1" "painted h s1 s2"
  shows "painted (\<lambda>x y. case h x y of Some b \<Rightarrow> Some b | None \<Rightarrow> g x y) s s2"
proof -
  obtain f f' where "s1 = s\<lparr>build := f\<rparr>" "s2 = s1\<lparr>build := f'\<rparr>" using assms by (auto simp: painted_def)
  then have "\<exists>f. s2 = s\<lparr>build := f\<rparr>" by auto
  then show ?thesis
    using assms painted_fields(6)[OF assms(1)] same_fence_trans[of s s1 s2] by (auto simp: painted_def split: option.splits)
qed

lemma painted_cong:
  "painted g s s' \<Longrightarrow> (\<And>x y. in_win s x y \<Longrightarrow> g x y = h x y) \<Longrightarrow> painted h s s'"
  by (simp add: painted_def)

lemma put_painted:
  assumes "view_ok s" "in_win s px py"
  shows "\<exists>s'. bput (pix_addr s px py) b s = Some s' \<and> painted (\<lambda>x y. if x = px \<and> y = py then Some b else None) s s'"
proof -
  let ?s = "s\<lparr>build := (build s)(pix_addr s px py := b)\<rparr>"
  have "pixel ?s x y = (if x = px \<and> y = py then b else pixel s x y)" if "in_win s x y" for x y
    using addr_inj[OF that assms(2)] by (auto simp: pixel_def pix_addr_def)
  then have "painted (\<lambda>x y. if x = px \<and> y = py then Some b else None) s ?s"
    using addr_bounds[OF assms] unfolding painted_def same_fence_def by auto
  then show ?thesis using bput_pix[OF assms] by blast
qed

text \<open>A rectangle painted from an array with rows of \<^verbatim>\<open>w\<close> bytes, its first pixel at index \<^verbatim>\<open>b\<close>.\<close>

definition rect :: "(int \<Rightarrow> byte) \<Rightarrow> int \<Rightarrow> int \<Rightarrow> int \<Rightarrow> int \<Rightarrow> int \<Rightarrow> int \<Rightarrow> int \<Rightarrow> int \<Rightarrow> byte option" where
  "rect blk b w px py n m x y =
    (if px \<le> x \<and> x < px + n \<and> py \<le> y \<and> y < py + m then Some (blk (b + (y - py) * w + (x - px))) else None)"

lemma block_row_painted:
  assumes "view_ok s" "\<And>i. 0 \<le> i \<Longrightarrow> i < int n \<Longrightarrow> in_win s (px + i) py"
  shows "\<exists>s'. block_row blk n px py b s = Some s' \<and> painted (rect blk b w px py (int n) 1) s s'"
  using assms
proof (induction n arbitrary: px b s)
  case 0
  have "rect blk b w px py 0 1 = (\<lambda>_ _. None)" by (intro ext) (simp add: rect_def)
  then show ?case using painted_refl by simp
next
  case (Suc n)
  obtain s1 where s1: "bput (pix_addr s px py) (blk b) s = Some s1"
    and p1: "painted (\<lambda>x y. if x = px \<and> y = py then Some (blk b) else None) s s1"
    using put_painted[OF Suc.prems(1)] Suc.prems(2)[of 0] by fastforce
  have "in_win s1 (px + 1 + i) py" if "0 \<le> i" "i < int n" for i
    using Suc.prems(2)[of "1 + i"] that painted_fields(6)[OF p1] by (simp add: add.assoc)
  then obtain s2 where s2: "block_row blk n (px + 1) py (b + 1) s1 = Some s2"
    and p2: "painted (rect blk (b + 1) w (px + 1) py (int n) 1) s1 s2"
    using Suc.IH[of s1 "px + 1" "b + 1"] Suc.prems(1) painted_fields(5)[OF p1] by blast
  have "painted (rect blk b w px py (int (Suc n)) 1) s s2"
    by (rule painted_cong[OF painted_trans[OF p1 p2]]) (auto simp: rect_def)
  then show ?case using s1 s2 by simp
qed

lemma block_rows_painted:
  assumes "view_ok s" "\<And>i j. 0 \<le> i \<Longrightarrow> i < int n \<Longrightarrow> 0 \<le> j \<Longrightarrow> j < int m \<Longrightarrow> in_win s (px + i) (py + j)"
  shows "\<exists>s'. block_rows blk m n skip px py b s = Some s' \<and> painted (rect blk b (int n + skip) px py (int n) (int m)) s s'"
  using assms
proof (induction m arbitrary: py b s)
  case 0
  have "rect blk b (int n + skip) px py (int n) 0 = (\<lambda>_ _. None)" by (intro ext) (simp add: rect_def)
  then show ?case using painted_refl by simp
next
  case (Suc m)
  have "in_win s (px + i) py" if "0 \<le> i" "i < int n" for i using Suc.prems(2)[of i 0] that by simp
  then obtain s1 where s1: "block_row blk n px py b s = Some s1"
    and p1: "painted (rect blk b (int n + skip) px py (int n) 1) s s1"
    using block_row_painted[OF Suc.prems(1), of n px py blk b "int n + skip"] by blast
  have "in_win s1 (px + i) (py + 1 + j)" if "0 \<le> i" "i < int n" "0 \<le> j" "j < int m" for i j
    using Suc.prems(2)[of i "1 + j"] that painted_fields(6)[OF p1] by (simp add: add.assoc)
  then obtain s2 where s2: "block_rows blk m n skip px (py + 1) (b + int n + skip) s1 = Some s2"
    and p2: "painted (rect blk (b + int n + skip) (int n + skip) px (py + 1) (int n) (int m)) s1 s2"
    using Suc.IH[of s1 "py + 1" "b + int n + skip"] Suc.prems(1) painted_fields(5)[OF p1] by blast
  have "painted (rect blk b (int n + skip) px py (int n) (int (Suc m))) s s2"
    by (rule painted_cong[OF painted_trans[OF p1 p2]])
      (auto simp: rect_def algebra_simps intro!: arg_cong[of _ _ blk])
  then show ?case using s1 s2 by simp
qed

section \<open>Blocks\<close>

lemma clip_spec:
  assumes "pos + 12 > shw" "pos < shw + dim" "12 \<le> dim"
  obtains l c where "clip pos shw dim = (l, c)" "0 \<le> l" "0 < c" "l + c \<le> 12" "shw \<le> pos + l" "pos + l + c \<le> shw + dim"
    "\<And>x. shw \<le> x \<Longrightarrow> x < shw + dim \<Longrightarrow> (pos \<le> x \<and> x < pos + 12) = (pos + l \<le> x \<and> x < pos + l + c)"
    "shw \<le> pos \<Longrightarrow> pos + 12 \<le> shw + dim \<Longrightarrow> l = 0 \<and> c = 12"
proof -
  define l where "l = (if shw - pos < 0 then 0 else shw - pos)"
  define c where "c = (if shw + dim - pos > 12 then 12 else shw + dim - pos) - l"
  have "clip pos shw dim = (l, c)" by (simp add: clip_def l_def c_def modex_consts Let_def)
  moreover have "0 \<le> l" "0 < c" "l + c \<le> 12" "shw \<le> pos + l" "pos + l + c \<le> shw + dim"
    using assms by (simp_all add: l_def c_def)
  moreover have "(pos \<le> x \<and> x < pos + 12) = (pos + l \<le> x \<and> x < pos + l + c)" if "shw \<le> x" "x < shw + dim" for x
    using that by (auto simp: l_def c_def)
  moreover have "l = 0 \<and> c = 12" if "shw \<le> pos" "pos + 12 \<le> shw + dim" using that by (simp add: l_def c_def)
  ultimately show ?thesis by (rule that)
qed

text \<open>A further fact about the same definitions.\<close>
lemma draw_full_block_paints:
  assumes "view_ok s"
  shows "\<exists>s'. draw_full_block pos_x pos_y blk s = Some s' \<and>
    painted (\<lambda>x y. if pos_x \<le> x \<and> x < pos_x + 12 \<and> pos_y \<le> y \<and> y < pos_y + 12
      then Some (blk (12 * (y - pos_y) + (x - pos_x))) else None) s s'"
    (is "\<exists>s'. _ \<and> painted ?g s s'")
proof (cases "off_screen pos_x pos_y s")
  case True
  then have "painted ?g s s"
    by (intro painted_cong[OF painted_refl]) (auto simp: off_screen_def in_win_def modex_consts)
  then show ?thesis using True by (auto simp: draw_full_block_def)
next
  case False
  then have on: "pos_x + 12 > show_x s" "pos_x < show_x s + 320" "pos_y + 12 > show_y s" "pos_y < show_y s + 182"
    by (simp_all add: off_screen_def modex_consts)
  obtain l c where x: "clip pos_x (show_x s) 320 = (l, c)" "0 \<le> l" "0 < c" "l + c \<le> 12" "show_x s \<le> pos_x + l"
    "pos_x + l + c \<le> show_x s + 320"
    "\<And>x. show_x s \<le> x \<Longrightarrow> x < show_x s + 320 \<Longrightarrow> (pos_x \<le> x \<and> x < pos_x + 12) = (pos_x + l \<le> x \<and> x < pos_x + l + c)"
    by (rule clip_spec[OF on(1,2)]) auto
  obtain t h where y: "clip pos_y (show_y s) 182 = (t, h)" "0 \<le> t" "0 < h" "t + h \<le> 12" "show_y s \<le> pos_y + t"
    "pos_y + t + h \<le> show_y s + 182"
    "\<And>y. show_y s \<le> y \<Longrightarrow> y < show_y s + 182 \<Longrightarrow> (pos_y \<le> y \<and> y < pos_y + 12) = (pos_y + t \<le> y \<and> y < pos_y + t + h)"
    by (rule clip_spec[OF on(3,4)]) auto
  have "in_win s (pos_x + l + i) (pos_y + t + j)" if "0 \<le> i" "i < int (nat c)" "0 \<le> j" "j < int (nat h)" for i j
    using that x(3,5,6) y(3,5,6) by (simp add: in_win_def)
  then obtain s' where s': "block_rows blk (nat h) (nat c) (12 - c) (pos_x + l) (pos_y + t) (l + 12 * t) s = Some s'"
    and p: "painted (rect blk (l + 12 * t) 12 (pos_x + l) (pos_y + t) c h) s s'"
    using block_rows_painted[OF assms, of "nat c" "nat h" "pos_x + l" "pos_y + t" blk "12 - c" "l + 12 * t"] x(3) y(3)
    by auto
  have "rect blk (l + 12 * t) 12 (pos_x + l) (pos_y + t) c h a b = ?g a b" if "in_win s a b" for a b
    using x(7)[of a] y(7)[of b] that
    by (auto simp: rect_def in_win_def intro!: arg_cong[of _ _ blk])
  then have "painted ?g s s'" by (rule painted_cong[OF p])
  then show ?thesis using s' False x(1) y(1)
    by (simp add: draw_full_block_def modex_consts mult.commute)
qed

text \<open>With a mask: what is painted, and the old values.\<close>

definition mask_rect ::
    "(int \<Rightarrow> byte) \<Rightarrow> (int \<Rightarrow> byte) \<Rightarrow> int \<Rightarrow> int \<Rightarrow> int \<Rightarrow> int \<Rightarrow> int \<Rightarrow> int \<Rightarrow> int \<Rightarrow> int \<Rightarrow> int \<Rightarrow> byte option" where
  "mask_rect blk msk b w q px py n m x y =
    (if px \<le> x \<and> x < px + n \<and> py \<le> y \<and> y < py + m \<and> msk (q + (y - py) * n + (x - px)) = 1
     then Some (blk (b + (y - py) * w + (x - px))) else None)"

lemma mask_row_painted:
  assumes "view_ok s" "\<And>i. 0 \<le> i \<Longrightarrow> i < int n \<Longrightarrow> in_win s (px + i) py"
  shows "\<exists>s'. mask_row blk msk n px py b q (s, u) =
      Some (s', \<lambda>i. if q \<le> i \<and> i < q + int n then pixel s (px + (i - q)) py else u i) \<and>
    painted (mask_rect blk msk b w q px py (int n) 1) s s'"
  using assms
proof (induction n arbitrary: px b q s u)
  case 0
  have "mask_rect blk msk b w q px py 0 1 = (\<lambda>_ _. None)" by (intro ext) (simp add: mask_rect_def)
  moreover have "(\<lambda>i. if q \<le> i \<and> i < q then pixel s (px + (i - q)) py else u i) = u" by (rule ext) auto
  ultimately show ?case using painted_refl by simp
next
  case (Suc n)
  have w0: "in_win s px py" using Suc.prems(2)[of 0] by simp
  obtain s1 where s1: "(if msk q = 1 then bput (pix_addr s px py) (blk b) s else Some s) = Some s1"
    and p1: "painted (\<lambda>x y. if x = px \<and> y = py \<and> msk q = 1 then Some (blk b) else None) s s1"
  proof (cases "msk q = 1")
    case True
    then show ?thesis using put_painted[OF Suc.prems(1) w0, of "blk b"] that by auto
  next
    case False
    then show ?thesis using painted_refl[of s] that[of s] by simp
  qed
  have w: "in_win s1 (px + 1 + i) py" if "0 \<le> i" "i < int n" for i
    using Suc.prems(2)[of "1 + i"] that painted_fields(6)[OF p1] by (simp add: add.assoc)
  define u1 where "u1 = u(q := pixel s px py)"
  obtain s2 where s2: "mask_row blk msk n (px + 1) py (b + 1) (q + 1) (s1, u1) =
      Some (s2, \<lambda>i. if q + 1 \<le> i \<and> i < q + 1 + int n then pixel s1 (px + 1 + (i - (q + 1))) py else u1 i)"
    and p2: "painted (mask_rect blk msk (b + 1) w (q + 1) (px + 1) py (int n) 1) s1 s2"
    using Suc.IH[of s1 "px + 1" "b + 1" "q + 1" u1] Suc.prems(1) painted_fields(5)[OF p1] w by blast
  have "painted (mask_rect blk msk b w q px py (int (Suc n)) 1) s s2"
  proof (rule painted_cong[OF painted_trans[OF p1 p2]])
    fix x y
    show "(case mask_rect blk msk (b + 1) w (q + 1) (px + 1) py (int n) 1 x y of Some b \<Rightarrow> Some b
        | None \<Rightarrow> if x = px \<and> y = py \<and> msk q = 1 then Some (blk b) else None) =
      mask_rect blk msk b w q px py (int (Suc n)) 1 x y"
      by (cases "x = px") (auto simp: mask_rect_def)
  qed
  moreover have "pixel s1 (px + 1 + (i - (q + 1))) py = pixel s (px + (i - q)) py" if "q + 1 \<le> i" "i < q + 1 + int n" for i
  proof -
    have "in_win s (px + (i - q)) py" using Suc.prems(2)[of "i - q"] that by simp
    then show ?thesis using p1 that by (simp add: painted_def)
  qed
  then have "(\<lambda>i. if q + 1 \<le> i \<and> i < q + 1 + int n then pixel s1 (px + 1 + (i - (q + 1))) py else u1 i) =
      (\<lambda>i. if q \<le> i \<and> i < q + int (Suc n) then pixel s (px + (i - q)) py else u i)"
    by (intro ext) (auto simp: u1_def)
  ultimately show ?case
    using s1 s2 bget_pix[OF Suc.prems(1) w0] by (auto simp: u1_def[symmetric])
qed

lemma mask_rows_painted:
  assumes "view_ok s" "0 < n" "\<And>i j. 0 \<le> i \<Longrightarrow> i < int n \<Longrightarrow> 0 \<le> j \<Longrightarrow> j < int m \<Longrightarrow> in_win s (px + i) (py + j)"
  shows "\<exists>s'. mask_rows blk msk m n skip px py b q (s, u) =
      Some (s', \<lambda>i. if q \<le> i \<and> i < q + int m * int n
        then pixel s (px + (i - q) mod int n) (py + (i - q) div int n) else u i) \<and>
    painted (mask_rect blk msk b (int n + skip) q px py (int n) (int m)) s s'"
  using assms(1,3)
proof (induction m arbitrary: py b q s u)
  case 0
  have "mask_rect blk msk b (int n + skip) q px py (int n) 0 = (\<lambda>_ _. None)" by (intro ext) (simp add: mask_rect_def)
  moreover have "(\<lambda>i. if q \<le> i \<and> i < q then pixel s (px + (i - q) mod int n) (py + (i - q) div int n) else u i) = u"
    by (rule ext) auto
  ultimately show ?case using painted_refl by simp
next
  case (Suc m)
  have r0: "in_win s (px + i) py" if "0 \<le> i" "i < int n" for i using Suc.prems(2)[of i 0] that by simp
  define u1 where "u1 = (\<lambda>i. if q \<le> i \<and> i < q + int n then pixel s (px + (i - q)) py else u i)"
  obtain s1 where s1: "mask_row blk msk n px py b q (s, u) = Some (s1, u1)"
    and p1: "painted (mask_rect blk msk b (int n + skip) q px py (int n) 1) s s1"
    using mask_row_painted[OF Suc.prems(1), of n px py blk msk b q u "int n + skip"] r0 by (auto simp: u1_def)
  have r1: "in_win s1 (px + i) (py + 1 + j)" if "0 \<le> i" "i < int n" "0 \<le> j" "j < int m" for i j
    using Suc.prems(2)[of i "1 + j"] that painted_fields(6)[OF p1] by (simp add: add.assoc)
  obtain s2 where s2: "mask_rows blk msk m n skip px (py + 1) (b + int n + skip) (q + int n) (s1, u1) =
      Some (s2, \<lambda>i. if q + int n \<le> i \<and> i < q + int n + int m * int n
        then pixel s1 (px + (i - (q + int n)) mod int n) (py + 1 + (i - (q + int n)) div int n) else u1 i)"
    and p2: "painted (mask_rect blk msk (b + int n + skip) (int n + skip) (q + int n) px (py + 1) (int n) (int m)) s1 s2"
    using Suc.IH[of s1 "py + 1" "b + int n + skip" "q + int n" u1] Suc.prems(1) painted_fields(5)[OF p1] r1 by blast
  have P: "painted (mask_rect blk msk b (int n + skip) q px py (int n) (int (Suc m))) s s2"
  proof (rule painted_cong[OF painted_trans[OF p1 p2]])
    fix x y
    show "(case mask_rect blk msk (b + int n + skip) (int n + skip) (q + int n) px (py + 1) (int n) (int m) x y of
        Some b \<Rightarrow> Some b | None \<Rightarrow> mask_rect blk msk b (int n + skip) q px py (int n) 1 x y) =
      mask_rect blk msk b (int n + skip) q px py (int n) (int (Suc m)) x y"
      by (cases "y = py") (auto simp: mask_rect_def algebra_simps)
  qed
  have U: "(if q + int n \<le> i \<and> i < q + int n + int m * int n
        then pixel s1 (px + (i - (q + int n)) mod int n) (py + 1 + (i - (q + int n)) div int n) else u1 i) =
      (if q \<le> i \<and> i < q + int (Suc m) * int n
        then pixel s (px + (i - q) mod int n) (py + (i - q) div int n) else u i)" for i
  proof (cases "q + int n \<le> i \<and> i < q + int n + int m * int n")
    case True
    define k where "k = i - (q + int n)"
    have k: "0 \<le> k" "k < int m * int n" "i - q = k + int n" using True by (auto simp: k_def)
    have d: "(i - q) div int n = 1 + k div int n" "(i - q) mod int n = k mod int n"
      using assms(2) by (simp_all add: k(3) div_add_self2)
    have "int n * (k div int n) \<le> k"
      using mult_div_mod_eq[of "int n" k] pos_mod_sign[of "int n" k] assms(2) by linarith
    then have "int n * (k div int n) < int n * int m" using k(2) by (simp add: mult.commute)
    then have "k div int n < int m" using assms(2) by simp
    then have kd: "0 \<le> k mod int n" "k mod int n < int n" "0 \<le> k div int n" "k div int n < int m"
      using assms(2) k by (simp_all add: pos_imp_zdiv_nonneg_iff)
    have "pixel s1 (px + k mod int n) (py + (1 + k div int n)) = pixel s (px + k mod int n) (py + (1 + k div int n))"
      using p1 Suc.prems(2)[of "k mod int n" "1 + k div int n"] kd by (simp add: painted_def mask_rect_def)
    moreover have "q \<le> i" "i < q + int (Suc m) * int n" using True by (simp_all add: algebra_simps)
    ultimately show ?thesis using True d by (simp add: k_def[symmetric] add.assoc)
  next
    case False
    define mn where "mn = int m * int n"
    have mn: "0 \<le> mn" "int (Suc m) * int n = int n + mn" by (simp_all add: mn_def algebra_simps)
    show ?thesis unfolding mn(2) mn_def[symmetric] using False[folded mn_def] mn(1) assms(2) by (auto simp: u1_def)
  qed
  show ?case using s1 s2 P U by simp
qed

lemma grid_index:
  fixes a b :: int
  assumes "0 \<le> a" "a < 12"
  shows "(12 * b + a) mod 12 = a" "(12 * b + a) div 12 = b" "0 \<le> b \<Longrightarrow> 0 \<le> 12 * b + a" "b < 12 \<Longrightarrow> 12 * b + a < 144"
  using assms by simp_all

lemma mask_block_old:
  assumes "view_ok s" "show_x s \<le> pos_x" "pos_x + 12 \<le> show_x s + 320" "show_y s \<le> pos_y" "pos_y + 12 \<le> show_y s + 182"
  shows "\<exists>s1 old. draw_mask_block pos_x pos_y blk msk (s, u) = Some (s1, old) \<and>
    painted (\<lambda>x y. if pos_x \<le> x \<and> x < pos_x + 12 \<and> pos_y \<le> y \<and> y < pos_y + 12 \<and>
        msk (12 * (y - pos_y) + (x - pos_x)) = 1
      then Some (blk (12 * (y - pos_y) + (x - pos_x))) else None) s s1 \<and>
    (\<forall>x y. pos_x \<le> x \<and> x < pos_x + 12 \<and> pos_y \<le> y \<and> y < pos_y + 12 \<longrightarrow> old (12 * (y - pos_y) + (x - pos_x)) = pixel s x y)"
    (is "\<exists>s1 old. _ \<and> painted ?g s s1 \<and> _")
proof -
  have on: "pos_x + 12 > show_x s" "pos_x < show_x s + 320" "pos_y + 12 > show_y s" "pos_y < show_y s + 182"
    "\<not> off_screen pos_x pos_y s"
    using assms(2-5) by (simp_all add: off_screen_def modex_consts)
  have cx: "clip pos_x (show_x s) 320 = (0, 12)" and cy: "clip pos_y (show_y s) 182 = (0, 12)"
    using assms(2-5) by (auto simp: clip_def modex_consts Let_def)
  have win: "in_win s (pos_x + i) (pos_y + j)" if "0 \<le> i" "i < int 12" "0 \<le> j" "j < int 12" for i j
    using that assms(2-5) by (simp add: in_win_def)
  define old where "old = (\<lambda>i. if 0 \<le> i \<and> i < 144 then pixel s (pos_x + i mod 12) (pos_y + i div 12) else u i)"
  have old_eq: "old = (\<lambda>i. if 0 \<le> i \<and> i < 0 + int 12 * int 12
      then pixel s (pos_x + (i - 0) mod int 12) (pos_y + (i - 0) div int 12) else u i)"
    by (simp add: old_def cong: if_cong)
  obtain s1 where s1: "mask_rows blk msk 12 12 0 pos_x pos_y 0 0 (s, u) = Some (s1, old)"
    and p1: "painted (mask_rect blk msk 0 12 0 pos_x pos_y 12 12) s s1"
    using mask_rows_painted[OF assms(1) _ win, of 12 12 blk msk 0 0 0 u, folded old_eq] by auto
  have m: "draw_mask_block pos_x pos_y blk msk (s, u) = Some (s1, old)"
    using on(5) s1 by (simp add: draw_mask_block_def modex_consts cx cy)
  have p: "painted ?g s s1"
    by (rule painted_cong[OF p1]) (simp add: mask_rect_def mult.commute)
  have o: "old (12 * (y - pos_y) + (x - pos_x)) = pixel s x y"
    if "pos_x \<le> x" "x < pos_x + 12" "pos_y \<le> y" "y < pos_y + 12" for x y
  proof -
    note g = grid_index[of "x - pos_x" "y - pos_y"]
    show ?thesis unfolding old_def using that g by simp
  qed
  then show ?thesis using m p by blast
qed

lemma mask_block_spec:
  assumes "view_ok s" "show_x s \<le> pos_x" "pos_x + 12 \<le> show_x s + 320" "show_y s \<le> pos_y" "pos_y + 12 \<le> show_y s + 182"
  shows "\<exists>s1 old s2. draw_mask_block pos_x pos_y blk msk (s, u) = Some (s1, old) \<and>
    painted (\<lambda>x y. if pos_x \<le> x \<and> x < pos_x + 12 \<and> pos_y \<le> y \<and> y < pos_y + 12 \<and>
        msk (12 * (y - pos_y) + (x - pos_x)) = 1
      then Some (blk (12 * (y - pos_y) + (x - pos_x))) else None) s s1 \<and>
    draw_full_block pos_x pos_y old s1 = Some s2 \<and> painted (\<lambda>_ _. None) s s2"
    (is "\<exists>s1 old s2. _ \<and> painted ?g s s1 \<and> _ \<and> _")
proof -
  obtain s1 old where m: "draw_mask_block pos_x pos_y blk msk (s, u) = Some (s1, old)" and p: "painted ?g s s1"
    and o: "\<And>x y. pos_x \<le> x \<Longrightarrow> x < pos_x + 12 \<Longrightarrow> pos_y \<le> y \<Longrightarrow> y < pos_y + 12 \<Longrightarrow>
      old (12 * (y - pos_y) + (x - pos_x)) = pixel s x y"
    using mask_block_old[OF assms, of blk msk u] by blast
  obtain s2 where s2: "draw_full_block pos_x pos_y old s1 = Some s2"
    and p2: "painted (\<lambda>x y. if pos_x \<le> x \<and> x < pos_x + 12 \<and> pos_y \<le> y \<and> y < pos_y + 12
      then Some (old (12 * (y - pos_y) + (x - pos_x))) else None) s1 s2"
    using draw_full_block_paints[of s1 pos_x pos_y old] assms(1) painted_fields(5)[OF p] by auto
  obtain f f' where "s1 = s\<lparr>build := f\<rparr>" "s2 = s1\<lparr>build := f'\<rparr>" using p p2 by (auto simp: painted_def)
  then have "\<exists>f. s2 = s\<lparr>build := f\<rparr>" by auto
  moreover have "pixel s2 x y = pixel s x y" if "in_win s x y" for x y
  proof (cases "pos_x \<le> x \<and> x < pos_x + 12 \<and> pos_y \<le> y \<and> y < pos_y + 12")
    case True
    then show ?thesis using p2 o[of x y] that painted_fields(6)[OF p] by (simp add: painted_def)
  next
    case False
    then have "pixel s1 x y = pixel s x y" using p that by (auto simp: painted_def)
    then show ?thesis using p2 that painted_fields(6)[OF p] False by (auto simp: painted_def)
  qed
  moreover have "same_fence s s2" using same_fence_trans[OF painted_fields(10)[OF p] painted_fields(10)[OF p2]] .
  ultimately have "painted (\<lambda>_ _. None) s s2" by (simp add: painted_def)
  then show ?thesis using m p s2 by blast
qed

text \<open>C18: Drawing a masked block that lies in the window paints exactly the pixels whose mask byte is
  1, and drawing the saved old values over it gives back the picture as it was.\<close>
theorem mask_block_roundtrip:
  assumes "view_ok s" "show_x s \<le> pos_x" "pos_x + 12 \<le> show_x s + 320" "show_y s \<le> pos_y" "pos_y + 12 \<le> show_y s + 182"
  shows "\<exists>s1 old s2. draw_mask_block pos_x pos_y blk msk (s, u) = Some (s1, old) \<and>
    painted (\<lambda>x y. if pos_x \<le> x \<and> x < pos_x + 12 \<and> pos_y \<le> y \<and> y < pos_y + 12 \<and>
        msk (12 * (y - pos_y) + (x - pos_x)) = 1
      then Some (blk (12 * (y - pos_y) + (x - pos_x))) else None) s s1 \<and>
    draw_full_block pos_x pos_y old s1 = Some s2 \<and> painted (\<lambda>_ _. None) s s2"
  by (rule mask_block_spec[OF assms])

section \<open>Lines\<close>

text \<open>A line of pixels painted downwards or to the right.\<close>

definition col :: "byte list \<Rightarrow> int \<Rightarrow> int \<Rightarrow> int \<Rightarrow> int \<Rightarrow> byte option" where
  "col bs x y a b = (if a = x \<and> y \<le> b \<and> b < y + int (length bs) then Some (bs ! nat (b - y)) else None)"

definition row :: "byte list \<Rightarrow> int \<Rightarrow> int \<Rightarrow> int \<Rightarrow> int \<Rightarrow> byte option" where
  "row bs x y a b = (if b = y \<and> x \<le> a \<and> a < x + int (length bs) then Some (bs ! nat (a - x)) else None)"

lemma pix_addr_plane: "img3 s + drop_bit 2 x + y * 80 + (3 - (x AND 3)) * 14560 = pix_addr s x y"
  by (simp add: pix_addr_def modex_consts)

lemma vert_line_painted:
  assumes "view_ok s" "\<And>j. 0 \<le> j \<Longrightarrow> j < int (length bs) \<Longrightarrow> in_win s x (y + j)"
  shows "\<exists>s'. vert_line_loop bs (3 - (x AND 3)) (img3 s + drop_bit 2 x + y * 80) s = Some s' \<and> painted (col bs x y) s s'"
  using assms
proof (induction bs arbitrary: y s)
  case Nil
  have "col [] x y = (\<lambda>_ _. None)" by (intro ext) (simp add: col_def)
  then show ?case using painted_refl by simp
next
  case (Cons b bs)
  obtain s1 where s1: "bput (pix_addr s x y) b s = Some s1"
    and p1: "painted (\<lambda>a c. if a = x \<and> c = y then Some b else None) s s1"
    using put_painted[OF Cons.prems(1), of x y b] Cons.prems(2)[of 0] by auto
  have "in_win s1 x (y + 1 + j)" if "0 \<le> j" "j < int (length bs)" for j
    using Cons.prems(2)[of "1 + j"] that painted_fields(6)[OF p1] by (simp add: add.assoc)
  then obtain s2 where s2: "vert_line_loop bs (3 - (x AND 3)) (img3 s1 + drop_bit 2 x + (y + 1) * 80) s1 = Some s2"
    and p2: "painted (col bs x (y + 1)) s1 s2"
    using Cons.IH[of s1 "y + 1"] Cons.prems(1) painted_fields(5)[OF p1] by blast
  have "painted (col (b # bs) x y) s s2"
  proof (rule painted_cong[OF painted_trans[OF p1 p2]])
    fix a c
    have "nat (c - y) = Suc (nat (c - (y + 1)))" if "y + 1 \<le> c" using that by simp
    then show "(case col bs x (y + 1) a c of Some b \<Rightarrow> Some b | None \<Rightarrow> if a = x \<and> c = y then Some b else None) =
      col (b # bs) x y a c"
      by (cases "c = y") (auto simp: col_def)
  qed
  moreover have "vert_line_loop (b # bs) (3 - (x AND 3)) (img3 s + drop_bit 2 x + y * 80) s = Some s2"
  proof -
    have e: "img3 s + drop_bit 2 x + y * 80 + 80 = img3 s + drop_bit 2 x + (y + 1) * 80" by simp
    show ?thesis
      using s1 s2 painted_fields(3)[OF p1]
      by (simp only: vert_line_loop.simps modex_consts pix_addr_plane e Option.bind.bind_lunit)
  qed
  ultimately show ?case by blast
qed

lemma consider_rem: "0 \<le> r \<Longrightarrow> r \<le> 3 \<Longrightarrow> r = 0 \<or> r = 1 \<or> r = 2 \<or> r = (3 :: int)"
  by auto

lemma next_plane:
  "(x + 1) div 4 = (if x mod 4 = 3 then x div 4 + 1 else x div 4)"
  "(x + 1) mod 4 = (if x mod 4 = 3 then 0 else x mod 4 + (1 :: int))"
proof -
  obtain q r where x: "x = 4 * q + r" "x div 4 = q" "x mod 4 = r" "0 \<le> r" "r \<le> 3" using quarter by metis
  show "(x + 1) div 4 = (if x mod 4 = 3 then x div 4 + 1 else x div 4)"
    "(x + 1) mod 4 = (if x mod 4 = 3 then 0 else x mod 4 + (1 :: int))"
    unfolding x(2,3) using x(1) consider_rem[OF x(4,5)] by auto
qed

lemma horiz_line_painted:
  assumes "view_ok s" "\<And>i. 0 \<le> i \<Longrightarrow> i < int (length bs) \<Longrightarrow> in_win s (x + i) y"
  shows "\<exists>s'. horiz_line_loop bs (3 - x mod 4) (img3 s + x div 4 + y * 80) s = Some s' \<and> painted (row bs x y) s s'"
  using assms
proof (induction bs arbitrary: x s)
  case Nil
  have "row [] x y = (\<lambda>_ _. None)" by (intro ext) (simp add: row_def)
  then show ?case using painted_refl by simp
next
  case (Cons b bs)
  obtain s1 where s1: "bput (pix_addr s x y) b s = Some s1"
    and p1: "painted (\<lambda>a c. if a = x \<and> c = y then Some b else None) s s1"
    using put_painted[OF Cons.prems(1), of x y b] Cons.prems(2)[of 0] by auto
  have "in_win s1 (x + 1 + i) y" if "0 \<le> i" "i < int (length bs)" for i
    using Cons.prems(2)[of "1 + i"] that painted_fields(6)[OF p1] by (simp add: add.assoc)
  then obtain s2 where s2: "horiz_line_loop bs (3 - (x + 1) mod 4) (img3 s1 + (x + 1) div 4 + y * 80) s1 = Some s2"
    and p2: "painted (row bs (x + 1) y) s1 s2"
    using Cons.IH[of s1 "x + 1"] Cons.prems(1) painted_fields(5)[OF p1] by blast
  have "painted (row (b # bs) x y) s s2"
  proof (rule painted_cong[OF painted_trans[OF p1 p2]])
    fix a c
    have "nat (a - x) = Suc (nat (a - (x + 1)))" if "x + 1 \<le> a" using that by simp
    then show "(case row bs (x + 1) y a c of Some b \<Rightarrow> Some b | None \<Rightarrow> if a = x \<and> c = y then Some b else None) =
      row (b # bs) x y a c"
      by (cases "a = x") (auto simp: row_def)
  qed
  moreover have "horiz_line_loop (b # bs) (3 - x mod 4) (img3 s + x div 4 + y * 80) s = Some s2"
  proof -
    have a: "img3 s + x div 4 + y * 80 + (3 - x mod 4) * 14560 = pix_addr s x y"
      by (simp add: pix_addr_eq algebra_simps)
    have c: "(3 - x mod 4 - 1 < 0) = (x mod 4 = 3)" using pos_mod_bound[of 4 x] by auto
    have e: "img3 s + x div 4 + y * 80 + 1 = img3 s + (x div 4 + 1) + y * 80"
      "3 - (x mod 4 + 1) = 3 - x mod 4 - 1" "3 - 0 = (3 :: int)" by simp_all
    note s2' = s2[unfolded painted_fields(3)[OF p1] next_plane]
    show ?thesis
    proof (cases "x mod 4 = 3")
      case True
      show ?thesis
        using s2' unfolding horiz_line_loop.simps modex_consts a s1 c Option.bind.bind_lunit e
        by (simp only: True if_True e simp_thms)
    next
      case False
      show ?thesis
        using s2' unfolding horiz_line_loop.simps modex_consts a s1 c Option.bind.bind_lunit e
        by (simp only: False if_False e simp_thms)
    qed
  qed
  ultimately show ?case by blast
qed

text \<open>A further fact about the same definitions.\<close>
lemma draw_lines_paint:
  assumes "view_ok s"
  shows "(0 \<le> j \<and> j < 182 \<and> hfn (show_x s) (j + show_y s) = Some h \<and> length h = 320 \<longrightarrow>
      (\<exists>s'. draw_horiz_line hfn j s = Some (0, s') \<and> painted (row h (show_x s) (j + show_y s)) s s')) \<and>
    (0 \<le> i \<and> i < 320 \<and> vfn (i + show_x s) (show_y s) = Some v \<and> length v = 182 \<longrightarrow>
      (\<exists>s'. draw_vert_line vfn i s = Some (0, s') \<and> painted (col v (i + show_x s) (show_y s)) s s')) \<and>
    (\<not> (0 \<le> j \<and> j < 182) \<longrightarrow> draw_horiz_line hfn j s = Some (- 1, s)) \<and>
    (\<not> (0 \<le> i \<and> i < 320) \<longrightarrow> draw_vert_line vfn i s = Some (- 1, s))"
proof (intro conjI impI)
  assume a: "0 \<le> j \<and> j < 182 \<and> hfn (show_x s) (j + show_y s) = Some h \<and> length h = 320"
  then have "in_win s (show_x s + k) (j + show_y s)" if "0 \<le> k" "k < int (length h)" for k
    using that by (simp add: in_win_def)
  then show "\<exists>s'. draw_horiz_line hfn j s = Some (0, s') \<and> painted (row h (show_x s) (j + show_y s)) s s'"
    using horiz_line_painted[OF assms, of h "show_x s" "j + show_y s"] a
    by (auto simp: draw_horiz_line_def modex_consts and_3 shift_2)
next
  assume a: "0 \<le> i \<and> i < 320 \<and> vfn (i + show_x s) (show_y s) = Some v \<and> length v = 182"
  then have "in_win s (i + show_x s) (show_y s + k)" if "0 \<le> k" "k < int (length v)" for k
    using that by (simp add: in_win_def)
  then show "\<exists>s'. draw_vert_line vfn i s = Some (0, s') \<and> painted (col v (i + show_x s) (show_y s)) s s'"
    using vert_line_painted[OF assms, of v "i + show_x s" "show_y s"] a
    by (auto simp: draw_vert_line_def modex_consts)
qed (auto simp: draw_horiz_line_def draw_vert_line_def modex_consts)

section \<open>Instances\<close>

definition demo_modex :: modex where
  "demo_modex = \<lparr>build = (\<lambda>a. MEM_FENCE_MAGIC), img3_off = 10000, img3 = 10256, show_x = 0, show_y = 0,
     target_img = 1440, wmask = 15, vplanes = (\<lambda>p a. 0), txt_img = (\<lambda>a. 0), ports = []\<rparr>"

lemma demo_modex_ok:
  "view_ok demo_modex" "show_x demo_modex = 0" "show_y demo_modex = 0" "target_img demo_modex = 1440"
  "pixel demo_modex x y = MEM_FENCE_MAGIC" "build demo_modex a = MEM_FENCE_MAGIC"
  by (simp_all add: demo_modex_def view_ok_def pixel_def)

theorem set_view_window_keeps_witness:
  "\<exists>s'. set_view_window 200 90 demo_modex = Some s' \<and> view_ok s' \<and> pixel s' 250 100 = MEM_FENCE_MAGIC"
proof -
  obtain s' where s': "set_view_window 200 90 demo_modex = Some s'" "view_ok s'" "show_x s' = 200" "show_y s' = 90"
    "\<forall>x y. in_win demo_modex x y \<and> in_win s' x y \<longrightarrow> pixel s' x y = pixel demo_modex x y"
    using set_view_window_keeps[OF demo_modex_ok(1), of 200 90] by auto
  then show ?thesis using s'(5)[rule_format, of 250 100] by (auto simp: in_win_def demo_modex_ok)
qed

theorem mask_block_roundtrip_witness:
  "\<exists>s1 old s2. draw_mask_block 30 40 (\<lambda>i. 7) (\<lambda>i. if even i then 1 else 0) (demo_modex, \<lambda>i. 0) = Some (s1, old) \<and>
     pixel s1 32 40 = 7 \<and> pixel s1 33 40 = MEM_FENCE_MAGIC \<and>
     draw_full_block 30 40 old s1 = Some s2 \<and> pixel s2 32 40 = MEM_FENCE_MAGIC"
proof -
  have w: "in_win demo_modex 32 40" "in_win demo_modex 33 40" by (simp_all add: in_win_def demo_modex_ok)
  show ?thesis
    using mask_block_roundtrip[OF demo_modex_ok(1), of 30 40 "\<lambda>i. 7" "\<lambda>i. if even i then 1 else 0" "\<lambda>i. 0"] w
    by (fastforce simp: demo_modex_ok painted_def)
qed

end
