(* ===== verification/TextGraphics.thy ===== *)
theory TextGraphics
  imports TextFont
begin

text \<open>Drawing a text into the status bar, \<^verbatim>\<open>text_to_graphics\<close> of \<^verbatim>\<open>mp2_rthakk21/text.c\<close>.  The
  buffer is laid out in four planes as the VGA wants it; the specification is the
  image of 320 by 18 pixels it stands for.\<close>

section \<open>The code\<close>

definition FONT_WIDTH :: nat where "FONT_WIDTH = 8"
definition FONT_HEIGHT :: nat where "FONT_HEIGHT = 16"
definition SCREEN_X_DIM :: nat where "SCREEN_X_DIM = 320"
definition SCREEN_X_WIDTH :: nat where "SCREEN_X_WIDTH = 80"
definition STATUS_BAR_SIZE :: nat where "STATUS_BAR_SIZE = (FONT_HEIGHT + 2) * SCREEN_X_DIM"
definition PLANE_SIZE :: nat where "PLANE_SIZE = STATUS_BAR_SIZE div 4"
definition WHITE :: byte where "WHITE = 0x0F"

lemmas text_consts = FONT_WIDTH_def FONT_HEIGHT_def SCREEN_X_DIM_def SCREEN_X_WIDTH_def STATUS_BAR_SIZE_def
  PLANE_SIZE_def

text \<open>The pixels of one row of a character: \<^verbatim>\<open>m\<close> is the loop counter, \<^verbatim>\<open>line\<close> the shifted
  row, \<^verbatim>\<open>t\<close> the rounds left.  \<^verbatim>\<open>center\<close> is unsigned, so the index is computed modulo 2^32.\<close>

fun row_loop :: "u32 \<Rightarrow> nat \<Rightarrow> nat \<Rightarrow> nat \<Rightarrow> nat \<Rightarrow> byte \<Rightarrow> byte list \<Rightarrow> byte list option" where
  "row_loop center j k m 0 line buf = Some buf"
| "row_loop center j k m (Suc t) line buf =
    (let line1 = (if m > 0 then drop_bit 1 line else line);
         n = (if m < 4 then m + 4 else m - 4);
         p_off = 3 - ((k * SCREEN_X_DIM + m + j * FONT_WIDTH) mod 4)
     in do {
       buf1 \<leftarrow>
         (if line1 AND 0x01 = 1
          then wr buf (unat (of_nat (SCREEN_X_WIDTH + SCREEN_X_WIDTH * k + n div 4 + j * FONT_WIDTH div 4 +
                 p_off * PLANE_SIZE) + center div 4 :: u32)) WHITE
          else Some buf);
       row_loop center j k (m + 1) t line1 buf1 })"

fun glyph_loop :: "u32 \<Rightarrow> nat \<Rightarrow> nat \<Rightarrow> byte list \<Rightarrow> byte list \<Rightarrow> byte list option" where
  "glyph_loop center j k [] buf = Some buf"
| "glyph_loop center j k (line # ls) buf = do {
     buf1 \<leftarrow> row_loop center j k 0 FONT_WIDTH line buf;
     glyph_loop center j (k + 1) ls buf1 }"

text \<open>A character is a signed \<^verbatim>\<open>char\<close>: from 128 on the index into the font is negative and
  nothing is defined (\<^const>\<open>None\<close>).\<close>

fun text_loop :: "u32 \<Rightarrow> nat \<Rightarrow> byte list \<Rightarrow> byte list \<Rightarrow> byte list option" where
  "text_loop center j [] buf = Some buf"
| "text_loop center j (c # cs) buf =
    (if unat c < 128 then do {
       buf1 \<leftarrow> glyph_loop center j 0 (font_data ! unat c) buf;
       text_loop center (j + 1) cs buf1 }
     else None)"

text \<open>\<^verbatim>\<open>str\<close> holds the characters up to the NUL.  The division by 2 is of a signed int,
  which C rounds towards zero.\<close>

definition text_to_graphics :: "byte \<Rightarrow> byte list \<Rightarrow> byte list option" where
  "text_to_graphics bground_color str =
    (let d = 320 - int FONT_WIDTH * int (length str);
         center = word_of_int (sgn d * (\<bar>d\<bar> div 2))
     in text_loop center 0 str (replicate STATUS_BAR_SIZE bground_color))"

section \<open>Specification: the image\<close>

type_synonym image = "nat \<Rightarrow> nat \<Rightarrow> byte"

text \<open>Where pixel (x, y) lies in the four planes, and the buffer of an image.\<close>

definition pix :: "nat \<Rightarrow> nat \<Rightarrow> nat" where
  "pix x y = (x mod 4) * 1440 + 80 * y + x div 4"

definition planar :: "image \<Rightarrow> byte list" where
  "planar im = map (\<lambda>a. im (4 * (a mod 80) + a div 1440) (a mod 1440 div 80)) [0..<5760]"

definition set_pix :: "image \<Rightarrow> nat \<Rightarrow> nat \<Rightarrow> byte \<Rightarrow> image" where
  "set_pix im x y v = (\<lambda>x' y'. if x' = x \<and> y' = y then v else im x' y')"

text \<open>The picture of a text: character \<^verbatim>\<open>j\<close> occupies the eight columns from
  \<^verbatim>\<open>160 - 4 L + 8 j\<close>, rows 1 to 16; bit 7 of a row is its leftmost pixel.\<close>

definition text_pixel :: "byte list \<Rightarrow> nat \<Rightarrow> nat \<Rightarrow> bool" where
  "text_pixel str x y =
    (let x0 = 160 - 4 * length str
     in x0 \<le> x \<and> x < x0 + 8 * length str \<and> 1 \<le> y \<and> y \<le> 16 \<and>
        bit (font_data ! unat (str ! ((x - x0) div 8)) ! (y - 1)) (7 - (x - x0) mod 8))"

section \<open>Facts\<close>

lemma pix_decode:
  assumes "x < 320" "y < 18"
  shows "pix x y < 5760" "4 * (pix x y mod 80) + pix x y div 1440 = x" "pix x y mod 1440 div 80 = y"
proof -
  have q: "x div 4 < 80" using assms(1) by auto
  have r: "80 * y + x div 4 < 1440" using q assms(2) by simp
  have "x mod 4 < 4" by simp
  with r show "pix x y < 5760" unfolding pix_def by linarith
  have d: "pix x y div 1440 = x mod 4" "pix x y mod 1440 = 80 * y + x div 4"
    using r by (simp_all add: pix_def add.assoc)
  have "pix x y = x div 4 + 80 * (18 * (x mod 4) + y)" by (simp add: pix_def)
  then have "pix x y mod 80 = x div 4" using q by (simp only: mod_mult_self2 mod_less)
  with d show "4 * (pix x y mod 80) + pix x y div 1440 = x" by simp
  show "pix x y mod 1440 div 80 = y" using d q by simp
qed

lemma length_planar [simp]: "length (planar im) = 5760"
  by (simp add: planar_def)

lemma planar_at: "x < 320 \<Longrightarrow> y < 18 \<Longrightarrow> planar im ! pix x y = im x y"
  using pix_decode[of x y] by (simp add: planar_def)

lemma pix_encode:
  assumes "a < 5760"
  shows "pix (4 * (a mod 80) + a div 1440) (a mod 1440 div 80) = a"
proof -
  have h: "a div 1440 < 4" using assms by auto
  have m: "a mod 80 = a mod 1440 mod 80" by (simp add: mod_mod_cancel)
  have "1440 * (a div 1440) + a mod 1440 = a" by simp
  moreover have "80 * (a mod 1440 div 80) + a mod 1440 mod 80 = a mod 1440" by simp
  ultimately show ?thesis using h by (simp add: pix_def m)
qed

lemma planar_set:
  assumes "x < 320" "y < 18"
  shows "(planar im)[pix x y := v] = planar (set_pix im x y v)"
proof (rule nth_equalityI)
  fix a assume "a < length ((planar im)[pix x y := v])"
  then have a: "a < 5760" by simp
  have "a = pix x y \<longleftrightarrow> 4 * (a mod 80) + a div 1440 = x \<and> a mod 1440 div 80 = y"
    using pix_decode[OF assms] pix_encode[OF a] by metis
  then show "(planar im)[pix x y := v] ! a = planar (set_pix im x y v) ! a"
    using a by (auto simp: nth_list_update planar_def set_pix_def)
qed simp

text \<open>One row of one character.  \<^verbatim>\<open>X\<close> is the column of its left edge.\<close>

definition row_img :: "nat \<Rightarrow> nat \<Rightarrow> nat \<Rightarrow> byte \<Rightarrow> image \<Rightarrow> image" where
  "row_img X y m l im =
    (\<lambda>x' y'. if y' = y \<and> X \<le> x' \<and> x' + m < X + 8 \<and> bit l (7 - (x' - X)) then WHITE else im x' y')"

lemma row_index:
  assumes "L \<le> 40" "j < L" "k < 16" "m < 8" "X = 160 - 4 * L + 8 * j"
    and "center = (of_nat (160 - 4 * L) :: u32)"
  shows "unat (of_nat (SCREEN_X_WIDTH + SCREEN_X_WIDTH * k + (if m < 4 then m + 4 else m - 4) div 4 +
      j * FONT_WIDTH div 4 + (3 - ((k * SCREEN_X_DIM + m + j * FONT_WIDTH) mod 4)) * PLANE_SIZE) + center div 4 :: u32) =
    pix (X + (7 - m)) (k + 1)"
proof -
  have c: "center div 4 = of_nat (40 - L)"
  proof -
    have "unat center = 4 * (40 - L)" unfolding assms(6) using assms(1) by (subst unat_of_nat_small) simp_all
    then have "unat (center div 4) = 40 - L" by (simp add: unat_div)
    moreover have "center div 4 = of_nat (unat (center div 4))" by simp
    ultimately show ?thesis by simp
  qed
  have p: "(k * SCREEN_X_DIM + m + j * FONT_WIDTH) mod 4 = m mod 4"
    by (simp add: text_consts) presburger
  have j: "j * FONT_WIDTH div 4 = 2 * j" by (simp add: text_consts)
  define a where "a = 40 - L + 2 * j"
  have x: "X = 4 * a" using assms(1,5) by (simp add: a_def)
  have px: "pix (X + q) (k + 1) = (q mod 4) * 1440 + 80 * (k + 1) + a + q div 4" for q
    unfolding pix_def x by simp
  consider "m = 0" | "m = 1" | "m = 2" | "m = 3" | "m = 4" | "m = 5" | "m = 6" | "m = 7" using assms(4) by linarith
  then have eq: "SCREEN_X_WIDTH + SCREEN_X_WIDTH * k + (if m < 4 then m + 4 else m - 4) div 4 + 2 * j +
      (3 - m mod 4) * PLANE_SIZE + (40 - L) = pix (X + (7 - m)) (k + 1)"
    unfolding px by cases (simp_all add: text_consts a_def)
  have "pix (X + (7 - m)) (k + 1) < 5760" using assms by (intro pix_decode(1)) auto
  then show ?thesis unfolding c p j of_nat_add[symmetric] eq by (simp add: unat_of_nat_small)
qed

lemma row_loop_spec:
  assumes "L \<le> 40" "j < L" "k < 16" "m + t = 8" "X = 160 - 4 * L + 8 * j"
    and "center = (of_nat (160 - 4 * L) :: u32)"
  shows "row_loop center j k m t (drop_bit (m - 1) l) (planar im) = Some (planar (row_img X (k + 1) m l im))"
  using assms(4)
proof (induction t arbitrary: m im)
  case 0
  then have "row_img X (k + 1) m l im = im" by (auto simp: row_img_def fun_eq_iff)
  then show ?case by simp
next
  case (Suc t)
  let ?im = "if bit l m then set_pix im (X + (7 - m)) (k + 1) WHITE else im"
  have m: "m < 8" using Suc.prems by simp
  have line: "(if m > 0 then drop_bit 1 (drop_bit (m - 1) l) else drop_bit (m - 1) l) = drop_bit m l"
    by (cases m) (simp_all add: drop_bit_drop_bit)
  have lsb: "drop_bit m l AND 0x01 = 1 \<longleftrightarrow> bit l m"
    by (simp add: and_one_eq bit_iff_odd_drop_bit mod_2_eq_odd)
  have xy: "X + (7 - m) < 320" "k + 1 < 18" using assms(1-3,5) by auto
  have step: "(if drop_bit m l AND 0x01 = 1
      then wr (planar im) (unat (of_nat (SCREEN_X_WIDTH + SCREEN_X_WIDTH * k + (if m < 4 then m + 4 else m - 4) div 4 +
        j * FONT_WIDTH div 4 + (3 - ((k * SCREEN_X_DIM + m + j * FONT_WIDTH) mod 4)) * PLANE_SIZE) + center div 4 :: u32)) WHITE
      else Some (planar im)) = Some (planar ?im)"
    unfolding row_index[OF assms(1-3) m assms(5,6)] lsb
    using pix_decode(1)[OF xy] planar_set[OF xy, of im WHITE] by (simp add: wr_in)
  have "row_img X (k + 1) (m + 1) l ?im = row_img X (k + 1) m l im"
  proof (rule ext, rule ext)
    fix x' y'
    have "m = 7 - (x' - X) \<and> X \<le> x'" if "X \<le> x'" "x' + m < X + 8" "\<not> x' + (m + 1) < X + 8" using that by linarith
    moreover have "x' = X + (7 - m) \<longleftrightarrow> X \<le> x' \<and> x' + m = X + 7" using m by linarith
    ultimately show "row_img X (k + 1) (m + 1) l ?im x' y' = row_img X (k + 1) m l im x' y'"
      using m by (auto simp: row_img_def set_pix_def)
  qed
  moreover have "row_loop center j k (m + 1) t (drop_bit m l) (planar ?im) =
      Some (planar (row_img X (k + 1) (m + 1) l ?im))"
    using Suc.IH[of "m + 1" ?im] Suc.prems by simp
  ultimately show ?case unfolding row_loop.simps Let_def line step by simp
qed

definition glyph_img :: "nat \<Rightarrow> nat \<Rightarrow> byte list \<Rightarrow> image \<Rightarrow> image" where
  "glyph_img X k ls im =
    (\<lambda>x' y'. if k < y' \<and> y' \<le> k + length ls \<and> X \<le> x' \<and> x' < X + 8 \<and> bit (ls ! (y' - 1 - k)) (7 - (x' - X))
       then WHITE else im x' y')"

lemma glyph_loop_spec:
  assumes "L \<le> 40" "j < L" "k + length ls \<le> 16" "X = 160 - 4 * L + 8 * j"
    and "center = (of_nat (160 - 4 * L) :: u32)"
  shows "glyph_loop center j k ls (planar im) = Some (planar (glyph_img X k ls im))"
  using assms(3)
proof (induction ls arbitrary: k im)
  case Nil
  have "glyph_img X k [] im = im" by (auto simp: glyph_img_def fun_eq_iff)
  then show ?case by simp
next
  case (Cons l ls)
  have "glyph_img X (k + 1) ls (row_img X (k + 1) 0 l im) = glyph_img X k (l # ls) im"
    by (auto simp: glyph_img_def row_img_def fun_eq_iff nth_Cons' Suc_le_eq)
  moreover have "row_loop center j k 0 FONT_WIDTH l (planar im) = Some (planar (row_img X (k + 1) 0 l im))"
    using row_loop_spec[OF assms(1,2) _ _ assms(4,5), of k 0 8 l im] Cons.prems by (simp add: FONT_WIDTH_def)
  ultimately show ?case using Cons by simp
qed

definition text_img :: "nat \<Rightarrow> byte list \<Rightarrow> image \<Rightarrow> image" where
  "text_img X cs im =
    (\<lambda>x' y'. if X \<le> x' \<and> x' < X + 8 * length cs \<and> 1 \<le> y' \<and> y' \<le> 16 \<and>
          bit (font_data ! unat (cs ! ((x' - X) div 8)) ! (y' - 1)) (7 - (x' - X) mod 8)
       then WHITE else im x' y')"

lemma text_img_Cons:
  assumes "length (font_data ! unat c) = 16"
  shows "text_img (X + 8) cs (glyph_img X 0 (font_data ! unat c) im) = text_img X (c # cs) im"
proof (rule ext, rule ext)
  fix x' y'
  consider "x' < X" | "X \<le> x'" "x' < X + 8" | d where "x' = X + 8 + d" using le_Suc_ex not_less by blast
  then show "text_img (X + 8) cs (glyph_img X 0 (font_data ! unat c) im) x' y' = text_img X (c # cs) im x' y'"
  proof cases
    case 2
    then have "(x' - X) div 8 = 0" "(x' - X) mod 8 = x' - X" by auto
    with 2 assms show ?thesis by (auto simp: text_img_def glyph_img_def)
  next
    case 3
    then have "x' - (X + 8) = d" "x' - X = d + 8" "(d + 8) div 8 = Suc (d div 8)" "(8 + d) div 8 = Suc (d div 8)"
      by simp_all
    with 3 show ?thesis by (auto simp: text_img_def glyph_img_def)
  qed (auto simp: text_img_def glyph_img_def)
qed

lemma text_loop_spec:
  assumes "L \<le> 40" "j + length cs = L" "\<forall>c \<in> set cs. unat c < 128"
    and "center = (of_nat (160 - 4 * L) :: u32)"
  shows "text_loop center j cs (planar im) = Some (planar (text_img (160 - 4 * L + 8 * j) cs im))"
  using assms(2,3)
proof (induction cs arbitrary: j im)
  case Nil
  have "text_img X [] im = im" for X by (auto simp: text_img_def fun_eq_iff)
  then show ?case by simp
next
  case (Cons c cs)
  have c: "length (font_data ! unat c) = 16" using Cons.prems(2) by (intro font_row_length) simp
  let ?im = "glyph_img (160 - 4 * L + 8 * j) 0 (font_data ! unat c) im"
  have "glyph_loop center j 0 (font_data ! unat c) (planar im) = Some (planar ?im)"
    using Cons.prems(1) c by (intro glyph_loop_spec[OF assms(1) _ _ refl assms(4)]) auto
  moreover have "text_loop center (j + 1) cs (planar ?im) = Some (planar (text_img (160 - 4 * L + 8 * (j + 1)) cs ?im))"
    using Cons.prems by (intro Cons.IH) auto
  moreover have x: "160 - 4 * L + 8 * (j + 1) = 160 - 4 * L + 8 * j + 8" by simp
  ultimately show ?case using Cons.prems(2) unfolding x text_img_Cons[OF c] by simp
qed

section \<open>Properties\<close>

text \<open>A further fact about the same definitions.\<close>
lemma text_to_graphics_draws:
  assumes "length str \<le> 40" "\<forall>c \<in> set str. unat c < 128"
  shows "text_to_graphics bg str = Some (planar (\<lambda>x y. if text_pixel str x y then WHITE else bg))"
proof -
  have d: "320 - int FONT_WIDTH * int (length str) = 2 * int (160 - 4 * length str)"
    using assms(1) by (simp add: FONT_WIDTH_def)
  have c: "word_of_int (sgn (2 * int n) * (\<bar>2 * int n\<bar> div 2)) = (of_nat n :: u32)" for n
    by (cases "n = 0") (simp_all add: sgn_mult)
  have bg: "replicate STATUS_BAR_SIZE bg = planar (\<lambda>_ _. bg)"
    by (rule nth_equalityI) (simp_all add: text_consts planar_def)
  have "text_img (160 - 4 * length str) str (\<lambda>_ _. bg) = (\<lambda>x y. if text_pixel str x y then WHITE else bg)"
    by (auto simp: text_img_def text_pixel_def Let_def fun_eq_iff)
  then show ?thesis
    using text_loop_spec[OF assms(1) _ assms(2) refl, of 0 "\<lambda>_ _. bg"]
    by (simp only: text_to_graphics_def Let_def d c bg) simp
qed

theorem text_to_graphics_draws_witness:
  "\<exists>buf. text_to_graphics 0x20 [0x48, 0x69] = Some buf \<and> length buf = 5760"
  using text_to_graphics_draws[of "[0x48, 0x69]" "0x20"] by simp

end
