(* ===== verification/ModeXVga.thy ===== *)
theory ModeXVga
  imports ModeXView TextGraphics "HOL-Library.Signed_Division"
begin

text \<open>The display side of \<^verbatim>\<open>mp2_rthakk21/modex.c\<close>: the register tables, entering and leaving mode X,
  copying the window and the status bar to video memory.  The specification is what the monitor
  shows: the pixel of a page in video memory, and the start address in the CRT controller.

  \<^verbatim>\<open>perror\<close>, \<^verbatim>\<open>ioperm\<close>, \<^verbatim>\<open>mmap\<close> and \<^verbatim>\<open>munmap\<close> are the operating system's: whether the mapping
  succeeded is a parameter, and so are the bytes the VGA ports deliver, \<^verbatim>\<open>rand\<close>, and the bytes the
  linker puts behind \<^verbatim>\<open>build\<close>.\<close>

section \<open>Register tables\<close>

definition mode_X_seq :: "u16 list" where
  "mode_X_seq =
    [0x0100, 0x2101, 0x0F02, 0x0003, 0x0604]"

definition mode_X_CRTC :: "u16 list" where
  "mode_X_CRTC =
    [0x5F00, 0x4F01, 0x5002, 0x8203, 0x5404, 0x8005, 0xBF06, 0x1F07, 0x0008, 0x0109, 0x000A, 0x000B,
     0x000C, 0x000D, 0x000E, 0x000F, 0x9C10, 0x8E11, 0x8F12, 0x2813, 0x0014, 0x9615, 0xB916, 0xE317,
     0x6B18]"

definition mode_X_attr :: "byte list" where
  "mode_X_attr =
    [0x00, 0x00, 0x01, 0x01, 0x02, 0x02, 0x03, 0x03, 0x04, 0x04, 0x05, 0x05,
     0x06, 0x06, 0x07, 0x07, 0x08, 0x08, 0x09, 0x09, 0x0A, 0x0A, 0x0B, 0x0B,
     0x0C, 0x0C, 0x0D, 0x0D, 0x0E, 0x0E, 0x0F, 0x0F, 0x10, 0x41, 0x11, 0x00,
     0x12, 0x0F, 0x13, 0x00, 0x14, 0x00, 0x15, 0x00]"

definition mode_X_graphics :: "u16 list" where
  "mode_X_graphics =
    [0x0000, 0x0001, 0x0002, 0x0003, 0x0004, 0x4005, 0x0506, 0x0F07, 0xFF08]"

definition text_seq :: "u16 list" where
  "text_seq =
    [0x0100, 0x2001, 0x0302, 0x0003, 0x0204]"

definition text_CRTC :: "u16 list" where
  "text_CRTC =
    [0x5F00, 0x4F01, 0x5002, 0x8203, 0x5504, 0x8105, 0xBF06, 0x1F07, 0x0008, 0x4F09, 0x0D0A, 0x0E0B,
     0x000C, 0x000D, 0x000E, 0x000F, 0x9C10, 0x8E11, 0x8F12, 0x2813, 0x1F14, 0x9615, 0xB916, 0xA317,
     0xFF18]"

definition text_attr :: "byte list" where
  "text_attr =
    [0x00, 0x00, 0x01, 0x01, 0x02, 0x02, 0x03, 0x03, 0x04, 0x04, 0x05, 0x05,
     0x06, 0x06, 0x07, 0x07, 0x08, 0x08, 0x09, 0x09, 0x0A, 0x0A, 0x0B, 0x0B,
     0x0C, 0x0C, 0x0D, 0x0D, 0x0E, 0x0E, 0x0F, 0x0F, 0x10, 0x0C, 0x11, 0x00,
     0x12, 0x0F, 0x13, 0x08, 0x14, 0x00, 0x15, 0x00]"

definition text_graphics :: "u16 list" where
  "text_graphics =
    [0x0000, 0x0001, 0x0002, 0x0003, 0x0004, 0x1005, 0x0E06, 0x0007, 0xFF08]"

definition palette_RGB :: "byte list" where
  "palette_RGB =
    [0x00, 0x00, 0x00, 0x00, 0x00, 0x2A, 0x00, 0x2A, 0x00, 0x00, 0x2A, 0x2A,
     0x2A, 0x00, 0x00, 0x2A, 0x00, 0x2A, 0x2A, 0x15, 0x00, 0x2A, 0x2A, 0x2A,
     0x15, 0x15, 0x15, 0x15, 0x15, 0x3F, 0x15, 0x3F, 0x15, 0x15, 0x3F, 0x3F,
     0x3F, 0x15, 0x15, 0x3F, 0x15, 0x3F, 0x3F, 0x3F, 0x15, 0x3F, 0x3F, 0x3F,
     0x00, 0x00, 0x00, 0x05, 0x05, 0x05, 0x08, 0x08, 0x08, 0x0B, 0x0B, 0x0B,
     0x0E, 0x0E, 0x0E, 0x11, 0x11, 0x11, 0x14, 0x14, 0x14, 0x18, 0x18, 0x18,
     0x1C, 0x1C, 0x1C, 0x20, 0x20, 0x20, 0x24, 0x24, 0x24, 0x28, 0x28, 0x28,
     0x2D, 0x2D, 0x2D, 0x32, 0x32, 0x32, 0x38, 0x38, 0x38, 0x3F, 0x3F, 0x3F,
     0x3F, 0x3F, 0x3F, 0x3F, 0x3F, 0x3F, 0x00, 0x00, 0x3F, 0x00, 0x00, 0x00,
     0x00, 0x00, 0x00, 0x00, 0x00, 0x00, 0x00, 0x00, 0x00, 0x00, 0x00, 0x00,
     0x00, 0x00, 0x00, 0x00, 0x00, 0x00, 0x00, 0x00, 0x00, 0x00, 0x00, 0x00,
     0x00, 0x00, 0x00, 0x00, 0x00, 0x00, 0x00, 0x00, 0x00, 0x00, 0x00, 0x00,
     0x10, 0x08, 0x00, 0x18, 0x0C, 0x00, 0x20, 0x10, 0x00, 0x28, 0x14, 0x00,
     0x30, 0x18, 0x00, 0x38, 0x1C, 0x00, 0x3F, 0x20, 0x00, 0x3F, 0x20, 0x10,
     0x20, 0x18, 0x10, 0x28, 0x1C, 0x10, 0x3F, 0x20, 0x10, 0x38, 0x24, 0x10,
     0x3F, 0x28, 0x10, 0x3F, 0x2C, 0x10, 0x3F, 0x30, 0x10, 0x3F, 0x20, 0x10]"

definition ADDR_WALL :: byte where "ADDR_WALL = 0x22"
definition ADDR_PLAYER_CENTER :: byte where "ADDR_PLAYER_CENTER = 0x20"
definition NUM_RGB_VALUES :: int where "NUM_RGB_VALUES = 64"

section \<open>Setting registers\<close>

definition VGA_blank :: "int \<Rightarrow> byte \<Rightarrow> modex \<Rightarrow> modex" where
  "VGA_blank blank_bit old s =
    (let bit5 = push_bit 5 (word_of_int blank_bit AND 1)
     in OUTB 0x03C0 0x20 (INB 0x03DA (OUTB 0x03C5 ((old AND 0xDF) OR bit5) (INB 0x03C5 (OUTB 0x03C4 0x01 s)))))"

definition set_seq_regs_and_reset :: "u16 list \<Rightarrow> byte \<Rightarrow> modex \<Rightarrow> modex" where
  "set_seq_regs_and_reset table val s = OUTW 0x03C4 0x0300 (OUTB 0x03C2 val (REP_OUTSW 0x03C4 table s))"

definition set_CRTC_registers :: "u16 list \<Rightarrow> modex \<Rightarrow> modex" where
  "set_CRTC_registers table s = REP_OUTSW 0x03D4 table (OUTW 0x03D4 0x0011 s)"

definition set_attr_registers :: "byte list \<Rightarrow> modex \<Rightarrow> modex" where
  "set_attr_registers table s = REP_OUTSB 0x03C0 table (INB 0x03DA s)"

definition set_graphics_registers :: "u16 list \<Rightarrow> modex \<Rightarrow> modex" where
  "set_graphics_registers table s = REP_OUTSW 0x03CE table s"

definition fill_palette :: "modex \<Rightarrow> modex" where
  "fill_palette s = REP_OUTSB 0x03C9 palette_RGB (OUTB 0x03C8 0x00 s)"

text \<open>\<^verbatim>\<open>r\<close>, \<^verbatim>\<open>g\<close> and \<^verbatim>\<open>b\<close> are the three results of \<^verbatim>\<open>rand()\<close>, which are not negative.\<close>

definition fill_palette_wall :: "nat \<Rightarrow> nat \<Rightarrow> nat \<Rightarrow> modex \<Rightarrow> modex" where
  "fill_palette_wall r g b s =
    REP_OUTSB 0x03C9 (map (\<lambda>v. word_of_int (int v mod NUM_RGB_VALUES)) [r, g, b]) (OUTB 0x03C8 ADDR_WALL s)"

definition fill_player_center :: "nat \<Rightarrow> nat \<Rightarrow> nat \<Rightarrow> modex \<Rightarrow> modex" where
  "fill_player_center r g b s =
    REP_OUTSB 0x03C9 (map (\<lambda>v. word_of_int (int v mod NUM_RGB_VALUES)) [r, g, b]) (OUTB 0x03C8 ADDR_PLAYER_CENTER s)"

section \<open>Entering and leaving mode X\<close>

definition memset_vid :: "byte \<Rightarrow> nat \<Rightarrow> modex \<Rightarrow> modex" where
  "memset_vid v n s =
    s\<lparr>vplanes := (\<lambda>p a. if 0 \<le> a \<and> a < int n \<and> odd (wmask s div 2 ^ p) then v else vplanes s p a)\<rparr>"

definition clear_screens :: "modex \<Rightarrow> modex" where
  "clear_screens s = memset_vid 0 MODE_X_MEM_SIZE (SET_WRITE_MASK 0x0F00 s)"

fun set_fence :: "nat \<Rightarrow> (int \<Rightarrow> byte) \<Rightarrow> (int \<Rightarrow> byte)" where
  "set_fence 0 f = f"
| "set_fence (Suc i) f =
    (set_fence i f)(int i := MEM_FENCE_MAGIC, BUILD_BUF_SIZE + MEM_FENCE_WIDTH + int i := MEM_FENCE_MAGIC)"

text \<open>\<^verbatim>\<open>fns\<close> says that both callbacks are given, \<^verbatim>\<open>mapped\<close> that \<^verbatim>\<open>open_memory_and_ports\<close> succeeded; the
  callbacks themselves are arguments of the functions that draw lines.  \<^verbatim>\<open>old\<close> are the two bytes
  read by \<^verbatim>\<open>VGA_blank\<close>.\<close>

definition mode_X_window :: "modex \<Rightarrow> modex" where
  "mode_X_window s =
    s\<lparr>show_x := 0, show_y := 0, img3_off := BUILD_BASE_INIT, img3 := BUILD_BASE_INIT + MEM_FENCE_WIDTH,
      build := set_fence (nat MEM_FENCE_WIDTH) (build s), target_img := 1440\<rparr>"

definition set_mode_X :: "bool \<Rightarrow> bool \<Rightarrow> byte \<times> byte \<Rightarrow> modex \<Rightarrow> int \<times> modex" where
  "set_mode_X fns mapped old s0 =
    (if \<not> fns then (- 1, s0)
     else if \<not> mapped then (- 1, mode_X_window s0)
     else
      (let s1 = VGA_blank 1 (fst old) (mode_X_window s0);
           s2 = set_seq_regs_and_reset mode_X_seq 0x63 s1;
           s3 = set_CRTC_registers mode_X_CRTC s2;
           s4 = set_attr_registers mode_X_attr s3;
           s5 = set_graphics_registers mode_X_graphics s4;
           s6 = fill_palette s5;
           s7 = clear_screens s6
       in (0, VGA_blank 0 (snd old) s7)))"

definition write_font_data :: "modex \<Rightarrow> modex" where
  "write_font_data s =
    (let s1 = fold (\<lambda>(port, v). OUTW port v)
           [(0x3C4, 0x0402), (0x3C4, 0x0704), (0x3CE, 0x0005), (0x3CE, 0x0406), (0x3CE, 0x0204)] s;
         s2 = fold (\<lambda>i. fold (\<lambda>j. vput (int (32 * i + j)) (font_data ! i ! j)) [0..<16]) [0..<256] s1
     in fold (\<lambda>(port, v). OUTW port v)
           [(0x3C4, 0x0302), (0x3C4, 0x0304), (0x3CE, 0x1005), (0x3CE, 0x0E06), (0x3CE, 0x0004)] s2)"

text \<open>The words \<^verbatim>\<open>0x07200720\<close> are stored with the low byte first.\<close>

definition clear_text :: "modex \<Rightarrow> modex" where
  "clear_text s = s\<lparr>txt_img := (\<lambda>a. if a < 4 * 8192 then (if even a then 0x20 else 0x07) else txt_img s a)\<rparr>"

definition set_text_mode_3 :: "bool \<Rightarrow> byte \<times> byte \<Rightarrow> modex \<Rightarrow> modex" where
  "set_text_mode_3 clear_scr old s =
    (let s1 = VGA_blank 1 (fst old) s;
         s2 = set_seq_regs_and_reset text_seq 0x67 s1;
         s3 = set_CRTC_registers text_CRTC s2;
         s4 = set_attr_registers text_attr s3;
         s5 = set_graphics_registers text_graphics s4;
         s6 = fill_palette s5;
         s7 = (if clear_scr then clear_text s6 else s6);
         s8 = write_font_data s7
     in VGA_blank 0 (snd old) s8)"

definition fence_broken :: "int \<Rightarrow> modex \<Rightarrow> bool" where
  "fence_broken base s \<longleftrightarrow> list_ex (\<lambda>i. build s (base + int i) \<noteq> MEM_FENCE_MAGIC) [0..<nat MEM_FENCE_WIDTH]"

definition clear_mode_X :: "byte \<times> byte \<Rightarrow> modex \<Rightarrow> string list \<times> modex" where
  "clear_mode_X old s =
    (let s1 = set_text_mode_3 True old s
     in ((if fence_broken 0 s1 then [''lower build fence was broken''] else []) @
         (if fence_broken (BUILD_BUF_SIZE + MEM_FENCE_WIDTH) s1 then [''upper build fence was broken''] else []), s1))"

section \<open>Copying to video memory\<close>

text \<open>A string move is not bound to the array: it reads what lies behind it, \<^verbatim>\<open>after\<close>, where that is
  mapped.  A plane of the window has 14560 bytes and \<^verbatim>\<open>copy_image\<close> moves 16000, so it does.\<close>

definition img_byte :: "(int \<Rightarrow> byte option) \<Rightarrow> int \<Rightarrow> modex \<Rightarrow> byte option" where
  "img_byte after a s =
    (if a < 0 then None else if a < BUILD_BUF_SIZE + 2 * MEM_FENCE_WIDTH then Some (build s a) else after a)"

fun movsb_vid :: "(int \<Rightarrow> byte option) \<Rightarrow> nat \<Rightarrow> int \<Rightarrow> int \<Rightarrow> modex \<Rightarrow> modex option" where
  "movsb_vid after 0 src dst s = Some s"
| "movsb_vid after (Suc n) src dst s = do {
     b \<leftarrow> img_byte after src s;
     movsb_vid after n (src + 1) (dst + 1) (vput dst b s) }"

definition copy_image :: "(int \<Rightarrow> byte option) \<Rightarrow> int \<Rightarrow> u16 \<Rightarrow> modex \<Rightarrow> modex option" where
  "copy_image after img scr_addr s = movsb_vid after 16000 img (uint scr_addr) s"

text \<open>One round of the loop over the planes.\<close>

definition show_plane :: "(int \<Rightarrow> byte option) \<Rightarrow> int \<Rightarrow> int \<Rightarrow> nat \<Rightarrow> modex \<Rightarrow> modex option" where
  "show_plane after addr p_off i s =
    copy_image after (addr + ((p_off - int i + 4) AND 3) * SCROLL_SIZE + (if p_off < int i then 1 else 0)) (target_img s)
      (SET_WRITE_MASK (push_bit (i + 8) 1) s)"

fun show_planes :: "(int \<Rightarrow> byte option) \<Rightarrow> int \<Rightarrow> int \<Rightarrow> nat list \<Rightarrow> modex \<Rightarrow> modex option" where
  "show_planes after addr p_off [] s = Some s"
| "show_planes after addr p_off (i # is) s = do {
     s1 \<leftarrow> show_plane after addr p_off i s;
     show_planes after addr p_off is s1 }"

definition show_screen :: "(int \<Rightarrow> byte option) \<Rightarrow> modex \<Rightarrow> modex option" where
  "show_screen after s0 =
    (let p_off = 3 - (show_x s0 AND 3);
         s1 = s0\<lparr>target_img := target_img s0 XOR 0x4000\<rparr>;
         addr = img3 s1 + drop_bit 2 (show_x s1) + show_y s1 * SCROLL_X_WIDTH
     in do {
       s2 \<leftarrow> show_planes after addr p_off [0..<4] s1;
       Some (OUTW 0x03D4 (push_bit 8 (target_img s2 AND 0x00FF) OR 0x0D)
              (OUTW 0x03D4 ((target_img s2 AND 0xFF00) OR 0x0C) s2)) })"

fun movsb_list :: "byte list \<Rightarrow> nat \<Rightarrow> nat \<Rightarrow> int \<Rightarrow> modex \<Rightarrow> modex option" where
  "movsb_list buf 0 src dst s = Some s"
| "movsb_list buf (Suc n) src dst s = do {
     b \<leftarrow> rd buf src;
     movsb_list buf n (src + 1) (dst + 1) (vput dst b s) }"

definition copy_status_bar :: "byte list \<Rightarrow> nat \<Rightarrow> u16 \<Rightarrow> modex \<Rightarrow> modex option" where
  "copy_status_bar buf img scr_addr s = movsb_list buf 1440 img (uint scr_addr) s"

fun bar_planes :: "byte list \<Rightarrow> nat list \<Rightarrow> modex \<Rightarrow> modex option" where
  "bar_planes buf [] s = Some s"
| "bar_planes buf (i # is) s = do {
     s1 \<leftarrow> copy_status_bar buf (i * PLANE_SIZE_STATUS) 0 (SET_WRITE_MASK (push_bit (i + 8) 1) s);
     bar_planes buf is s1 }"

section \<open>The status bar\<close>

text \<open>\<^verbatim>\<open>%d\<close>.\<close>

fun dec_nat :: "nat \<Rightarrow> byte list" where
  "dec_nat n = (if n < 10 then [of_nat (0x30 + n)] else dec_nat (n div 10) @ [of_nat (0x30 + n mod 10)])"

declare dec_nat.simps [simp del]

definition dec :: "int \<Rightarrow> byte list" where
  "dec v = (if v < 0 then [0x2D] else []) @ dec_nat (nat \<bar>v\<bar>)"

text \<open>The text: \<^verbatim>\<open>Level %d    %d Fruit%c   %d%d:%d%d\<close>.\<close>

definition status_text :: "int \<Rightarrow> int \<Rightarrow> int \<Rightarrow> byte list" where
  "status_text level time num_fruits =
    (let plural = (if num_fruits \<noteq> 1 then 0x73 else 0x20);
         minute = time sdiv 60; minute_1 = minute smod 10; minute_2 = minute sdiv 10;
         second = time smod 60; second_1 = second smod 10; second_2 = second sdiv 10
     in [0x4C, 0x65, 0x76, 0x65, 0x6C, 0x20] @ dec level @ [0x20, 0x20, 0x20, 0x20] @ dec num_fruits @
        [0x20, 0x46, 0x72, 0x75, 0x69, 0x74, plural, 0x20, 0x20, 0x20] @
        dec minute_2 @ dec minute_1 @ [0x3A] @ dec second_2 @ dec second_1)"

text \<open>\<^verbatim>\<open>str\<close> has 40 bytes; a longer text, with its NUL, is written past it.\<close>

definition image_on_status_bar :: "int \<Rightarrow> int \<Rightarrow> int \<Rightarrow> int \<Rightarrow> modex \<Rightarrow> modex option" where
  "image_on_status_bar level bground_color time num_fruits s =
    (let str = status_text level time num_fruits
     in if length str < 40 then do {
          buf \<leftarrow> text_to_graphics (word_of_int bground_color) str;
          bar_planes buf [0..<4] s }
        else None)"

section \<open>Specification: what the monitor shows\<close>

text \<open>The start address in the CRT controller, registers 0x0C and 0x0D, after a sequence of port
  accesses; and pixel (x, y) of the page that starts at \<^verbatim>\<open>a\<close> in video memory.\<close>

fun crtc_start :: "u16 \<Rightarrow> port_io \<Rightarrow> u16" where
  "crtc_start a (OutW port v) =
    (if port = 0x03D4 \<and> v AND 0x00FF = 0x0C then (v AND 0xFF00) OR (a AND 0x00FF)
     else if port = 0x03D4 \<and> v AND 0x00FF = 0x0D then (a AND 0xFF00) OR drop_bit 8 v
     else a)"
| "crtc_start a _ = a"

definition display_start :: "modex \<Rightarrow> u16" where
  "display_start s = foldl crtc_start 0 (ports s)"

definition page_pixel :: "modex \<Rightarrow> u16 \<Rightarrow> int \<Rightarrow> int \<Rightarrow> byte" where
  "page_pixel s a x y = vplanes s (nat (x mod 4)) (uint a + 80 * y + x div 4)"

section \<open>Facts\<close>

lemma OUTB_fields [simp]:
  "build (OUTB p v s) = build s" "vplanes (OUTB p v s) = vplanes s" "wmask (OUTB p v s) = wmask s"
  "show_x (OUTB p v s) = show_x s" "show_y (OUTB p v s) = show_y s" "img3 (OUTB p v s) = img3 s"
  "img3_off (OUTB p v s) = img3_off s" "target_img (OUTB p v s) = target_img s" "txt_img (OUTB p v s) = txt_img s"
  by (simp_all add: OUTB_def)

lemma INB_fields [simp]:
  "build (INB p s) = build s" "vplanes (INB p s) = vplanes s" "wmask (INB p s) = wmask s"
  "show_x (INB p s) = show_x s" "show_y (INB p s) = show_y s" "img3 (INB p s) = img3 s"
  "img3_off (INB p s) = img3_off s" "target_img (INB p s) = target_img s" "txt_img (INB p s) = txt_img s"
  by (simp_all add: INB_def)

lemma OUTW_fields [simp]:
  "build (OUTW p v s) = build s" "vplanes (OUTW p v s) = vplanes s"
  "show_x (OUTW p v s) = show_x s" "show_y (OUTW p v s) = show_y s" "img3 (OUTW p v s) = img3 s"
  "img3_off (OUTW p v s) = img3_off s" "target_img (OUTW p v s) = target_img s" "txt_img (OUTW p v s) = txt_img s"
  by (simp_all add: OUTW_def)

lemma vput_fields [simp]:
  "build (vput a b s) = build s" "wmask (vput a b s) = wmask s" "ports (vput a b s) = ports s"
  "show_x (vput a b s) = show_x s" "show_y (vput a b s) = show_y s" "img3 (vput a b s) = img3 s"
  "img3_off (vput a b s) = img3_off s" "target_img (vput a b s) = target_img s" "txt_img (vput a b s) = txt_img s"
  by (simp_all add: vput_def)

lemma write_mask_planes:
  assumes "i < 4"
  shows "odd (wmask (SET_WRITE_MASK (push_bit (i + 8) 1) s) div 2 ^ p) = (p = i)"
proof -
  have "i = 0 \<or> i = 1 \<or> i = 2 \<or> i = 3" using assms by auto
  then have "wmask (SET_WRITE_MASK (push_bit (i + 8) 1) s) = 2 ^ i"
    by (elim disjE) (simp_all add: SET_WRITE_MASK_def OUTW_def)
  then show ?thesis by (metis bit_exp_iff bit_iff_odd possible_bit_nat)
qed

lemma set_write_mask_fields [simp]:
  "build (SET_WRITE_MASK m s) = build s" "vplanes (SET_WRITE_MASK m s) = vplanes s"
  "show_x (SET_WRITE_MASK m s) = show_x s" "show_y (SET_WRITE_MASK m s) = show_y s" "img3 (SET_WRITE_MASK m s) = img3 s"
  "img3_off (SET_WRITE_MASK m s) = img3_off s" "target_img (SET_WRITE_MASK m s) = target_img s"
  "txt_img (SET_WRITE_MASK m s) = txt_img s"
  by (simp_all add: SET_WRITE_MASK_def)

text \<open>Fields other than the video memory, the mask and the log of the ports.\<close>

definition same_view :: "modex \<Rightarrow> modex \<Rightarrow> bool" where
  "same_view s s' \<longleftrightarrow> build s' = build s \<and> show_x s' = show_x s \<and> show_y s' = show_y s \<and> img3 s' = img3 s \<and>
     img3_off s' = img3_off s \<and> target_img s' = target_img s"

lemma same_view_refl [simp]: "same_view s s"
  by (simp add: same_view_def)

lemma same_view_trans: "same_view s s1 \<Longrightarrow> same_view s1 s2 \<Longrightarrow> same_view s s2"
  by (simp add: same_view_def)

lemma same_view_facts:
  assumes "same_view s s'"
  shows "view_ok s' = view_ok s" "in_win s' x y = in_win s x y" "pixel s' x y = pixel s x y" "same_fence s s'"
  using assms by (auto simp: same_view_def view_ok_def in_win_def pixel_def pix_addr_def same_fence_def)

text \<open>A string move into the planes of the write mask.\<close>

definition readable :: "(int \<Rightarrow> byte option) \<Rightarrow> bool" where
  "readable after \<longleftrightarrow> (\<forall>a. 78753 \<le> a \<and> a < 79938 \<longrightarrow> after a \<noteq> None)"

definition img_val :: "(int \<Rightarrow> byte option) \<Rightarrow> modex \<Rightarrow> int \<Rightarrow> byte" where
  "img_val after s a = the (img_byte after a s)"

lemma img_byte_Some: "readable after \<Longrightarrow> 0 \<le> a \<Longrightarrow> a < 79938 \<Longrightarrow> img_byte after a s = Some (img_val after s a)"
  by (auto simp: img_byte_def img_val_def readable_def modex_consts)

lemma img_val_build: "0 \<le> a \<Longrightarrow> a < 78753 \<Longrightarrow> img_val after s a = build s a"
  by (simp add: img_byte_def img_val_def modex_consts)

lemma img_val_cong: "build s' = build s \<Longrightarrow> img_val after s' = img_val after s"
  by (simp add: img_byte_def img_val_def fun_eq_iff)

lemma movsb_vid_spec:
  assumes "readable after" "0 \<le> src" "src + int n \<le> 79938"
  shows "\<exists>s'. movsb_vid after n src dst s = Some s' \<and> same_view s s' \<and> wmask s' = wmask s \<and>
    vplanes s' = (\<lambda>p q. if dst \<le> q \<and> q < dst + int n \<and> odd (wmask s div 2 ^ p) then img_val after s (src + (q - dst))
      else vplanes s p q)"
  using assms(2,3)
proof (induction n arbitrary: src dst s)
  case 0
  then show ?case by (auto simp: fun_eq_iff)
next
  case (Suc n)
  let ?s1 = "vput dst (img_val after s src) s"
  have v: "img_val after ?s1 = img_val after s" by (rule img_val_cong) simp
  obtain s' where s': "movsb_vid after n (src + 1) (dst + 1) ?s1 = Some s'" "same_view ?s1 s'" "wmask s' = wmask s"
    "vplanes s' = (\<lambda>p q. if dst + 1 \<le> q \<and> q < dst + 1 + int n \<and> odd (wmask s div 2 ^ p)
       then img_val after s (src + 1 + (q - (dst + 1))) else vplanes ?s1 p q)"
    using Suc.IH[of "src + 1" "dst + 1" ?s1, unfolded vput_fields v] Suc.prems by auto
  have b: "img_byte after src s = Some (img_val after s src)" using Suc.prems assms(1) by (intro img_byte_Some) simp_all
  have "same_view s s'" using s'(2) by (simp add: same_view_def)
  moreover have "vplanes s' = (\<lambda>p q. if dst \<le> q \<and> q < dst + int (Suc n) \<and> odd (wmask s div 2 ^ p)
      then img_val after s (src + (q - dst)) else vplanes s p q)"
    unfolding s'(4) by (intro ext) (auto simp: vput_def)
  ultimately show ?case using b s'(1,3) by auto
qed

text \<open>The loop over the planes: plane \<^verbatim>\<open>i\<close> gets its 16000 bytes.\<close>

definition plane_src :: "int \<Rightarrow> int \<Rightarrow> nat \<Rightarrow> int" where
  "plane_src addr p_off i = addr + ((p_off - int i + 4) AND 3) * 14560 + (if p_off < int i then 1 else 0)"

lemma show_planes_spec:
  assumes "readable after"
    and "\<And>i. i \<in> set is \<Longrightarrow> i < 4 \<and> 0 \<le> plane_src addr p_off i \<and> plane_src addr p_off i + 16000 \<le> 79938"
    and "distinct is"
  shows "\<exists>s'. show_planes after addr p_off is s = Some s' \<and> same_view s s' \<and>
    vplanes s' = (\<lambda>p q. if p \<in> set is \<and> uint (target_img s) \<le> q \<and> q < uint (target_img s) + 16000
      then img_val after s (plane_src addr p_off p + (q - uint (target_img s))) else vplanes s p q)"
  using assms(2,3)
proof (induction "is" arbitrary: s)
  case Nil
  then show ?case by simp
next
  case (Cons i "is")
  define m where "m = SET_WRITE_MASK (push_bit (i + 8) 1) s"
  have i: "i < 4" "0 \<le> plane_src addr p_off i" "plane_src addr p_off i + 16000 \<le> 79938" using Cons.prems(1)[of i] by simp_all
  have m0: "img_val after m = img_val after s" "vplanes m = vplanes s" "odd (wmask m div 2 ^ p) = (p = i)" for p
    using write_mask_planes[OF i(1), of s] img_val_cong[of m s after] by (simp_all add: m_def)
  obtain s1 where s1: "movsb_vid after 16000 (plane_src addr p_off i) (uint (target_img s)) m = Some s1" "same_view m s1"
    "vplanes s1 = (\<lambda>p q. if uint (target_img s) \<le> q \<and> q < uint (target_img s) + 16000 \<and> p = i
       then img_val after s (plane_src addr p_off i + (q - uint (target_img s))) else vplanes s p q)"
    using movsb_vid_spec[OF assms(1), of "plane_src addr p_off i" 16000 "uint (target_img s)" m, unfolded m0] i(2,3) by auto
  have m: "same_view s m" by (simp add: m_def same_view_def)
  have v1: "same_view s s1" using same_view_trans[OF m s1(2)] .
  then have f: "target_img s1 = target_img s" "img_val after s1 = img_val after s"
    using img_val_cong[of s1 s after] by (simp_all add: same_view_def)
  have r: "show_plane after addr p_off i s = Some s1"
    using s1(1) unfolding show_plane_def copy_image_def modex_consts plane_src_def m_def .
  obtain s2 where s2: "show_planes after addr p_off is s1 = Some s2" "same_view s1 s2"
    "vplanes s2 = (\<lambda>p q. if p \<in> set is \<and> uint (target_img s) \<le> q \<and> q < uint (target_img s) + 16000
      then img_val after s (plane_src addr p_off p + (q - uint (target_img s))) else vplanes s1 p q)"
    using Cons.IH[of s1, unfolded f] Cons.prems by auto
  have "vplanes s2 = (\<lambda>p q. if p \<in> set (i # is) \<and> uint (target_img s) \<le> q \<and> q < uint (target_img s) + 16000
      then img_val after s (plane_src addr p_off p + (q - uint (target_img s))) else vplanes s p q)"
    unfolding s2(3) s1(3) using Cons.prems(2) by (intro ext) auto
  then show ?case using r s2(1) same_view_trans[OF v1 s2(2)] by auto
qed

section \<open>Showing the window\<close>

definition window_start :: "modex \<Rightarrow> int" where
  "window_start s = img3 s + show_x s div 4 + 80 * show_y s"

lemma quarter_eq: "0 \<le> e \<Longrightarrow> e < 4 \<Longrightarrow> (4 * n + e) div 4 = n \<and> (4 * n + e) mod 4 = (e :: int)"
  by simp

lemma plane_src_pixel:
  fixes x y :: int
  shows "plane_src (window_start s) (3 - show_x s mod 4) (nat (x mod 4)) + (80 * y + x div 4) =
    pix_addr s (show_x s + x) (show_y s + y)"
proof -
  obtain q r where r: "show_x s = 4 * q + r" "show_x s div 4 = q" "show_x s mod 4 = r" "0 \<le> r" "r \<le> 3" using quarter by metis
  obtain k i where i: "x = 4 * k + i" "x div 4 = k" "x mod 4 = i" "0 \<le> i" "i \<le> 3" using quarter by metis
  have s: "show_x s + x = 4 * (q + k) + (r + i)" using r(1) i(1) by simp
  have n: "int (nat i) = i" using i(4) by simp
  show ?thesis
  proof (cases "r + i < 4")
    case True
    have d: "(show_x s + x) div 4 = q + k" "(show_x s + x) mod 4 = r + i" unfolding s using True r(4) i(4) quarter_eq[of "r + i" "q + k"] by linarith+
    have "3 - r - i + 4 = 4 * 1 + (3 - r - i)" by simp
    then have "(3 - r - i + 4) mod 4 = 3 - r - i" using True r(4) i(4) quarter_eq[of "3 - r - i" 1] by simp
    then show ?thesis
      using True i(4) by (simp add: plane_src_def window_start_def pix_addr_eq r(2,3) i(2,3) d n and_3)
  next
    case False
    then have s': "show_x s + x = 4 * (q + k + 1) + (r + i - 4)" using s by simp
    have d: "(show_x s + x) div 4 = q + k + 1" "(show_x s + x) mod 4 = r + i - 4"
      unfolding s' using False r(5) i(5) quarter_eq[of "r + i - 4" "q + k + 1"] by linarith+
    have "(3 - r - i + 4) mod 4 = 7 - r - i" using False r(4,5) i(4,5) by simp
    then show ?thesis
      using False i(4) by (simp add: plane_src_def window_start_def pix_addr_eq r(2,3) i(2,3) d n and_3)
  qed
qed

lemma plane_src_bounds:
  assumes "i < 4" "0 \<le> r" "r \<le> 3"
  shows "a \<le> plane_src a (3 - r) i" "plane_src a (3 - r) i \<le> a + 43681"
proof -
  have "0 \<le> (3 - r - int i + 4) mod 4" "(3 - r - int i + 4) mod 4 \<le> 3" by simp_all
  then show "a \<le> plane_src a (3 - r) i" "plane_src a (3 - r) i \<le> a + 43681"
    unfolding plane_src_def and_3 by (auto simp del: pos_mod_bound)
qed

text \<open>The two pages.\<close>

definition disp_page :: "u16 \<Rightarrow> bool" where
  "disp_page a \<longleftrightarrow> a = 1440 \<or> a = 17824"

lemma page_flip:
  assumes "disp_page a"
  shows "disp_page (a XOR 0x4000)" "a XOR 0x4000 \<noteq> a" "uint a = 1440 \<or> uint a = 17824"
    "{uint a ..< uint a + 14560} \<inter> {uint (a XOR 0x4000) ..< uint (a XOR 0x4000) + 16000} = {}"
    "1440 \<le> uint (a XOR 0x4000)"
  using assms by (auto simp: disp_page_def)

lemma display_start_OUTW:
  "display_start (OUTW 0x03D4 (push_bit 8 (a AND 0x00FF) OR 0x0D) (OUTW 0x03D4 ((a AND 0xFF00) OR 0x0C) s)) = a"
  if "disp_page a"
  using that by (auto simp: display_start_def OUTW_def disp_page_def bit.conj_disj_distrib2 and.assoc)

lemma show_screen_spec:
  assumes "view_ok s" "readable after" "disp_page (target_img s)"
  shows "\<exists>s'. show_screen after s = Some s' \<and> display_start s' = target_img s' \<and> target_img s' \<noteq> target_img s \<and> disp_page (target_img s') \<and>
    (\<forall>x y. 0 \<le> x \<and> x < 320 \<and> 0 \<le> y \<and> y < 182 \<longrightarrow>
       page_pixel s' (target_img s') x y = pixel s (show_x s + x) (show_y s + y)) \<and>
    (\<forall>p a. a < 1440 \<or> uint (target_img s) \<le> a \<and> a < uint (target_img s) + 14560 \<longrightarrow> vplanes s' p a = vplanes s p a) \<and>
    build s' = build s \<and> show_x s' = show_x s \<and> show_y s' = show_y s \<and> img3 s' = img3 s \<and> img3_off s' = img3_off s"
proof -
  define t where "t = target_img s XOR 0x4000"
  define s1 where "s1 = s\<lparr>target_img := t\<rparr>"
  note pg = page_flip[OF assms(3), folded t_def]
  have w: "256 \<le> window_start s" "window_start s \<le> 20257"
    using assms(1) width_319(2)[of "show_x s"] by (simp_all add: view_ok_def window_start_def)
  have m: "0 \<le> show_x s mod 4" "show_x s mod 4 \<le> 3" by simp_all
  have ps: "i \<in> set [0..<4] \<Longrightarrow> i < 4 \<and> 0 \<le> plane_src (window_start s) (3 - show_x s mod 4) i \<and>
      plane_src (window_start s) (3 - show_x s mod 4) i + 16000 \<le> 79938" for i
    using plane_src_bounds[OF _ m, of i "window_start s"] w by auto
  have f1: "target_img s1 = t" "img_val after s1 = img_val after s" "vplanes s1 = vplanes s" using img_val_cong[of s1 s after] by (simp_all add: s1_def)
  obtain s2 where s2: "show_planes after (window_start s) (3 - show_x s mod 4) [0..<4] s1 = Some s2" "same_view s1 s2"
    "vplanes s2 = (\<lambda>p q. if p \<in> set [0..<4] \<and> uint t \<le> q \<and> q < uint t + 16000
      then img_val after s (plane_src (window_start s) (3 - show_x s mod 4) p + (q - uint t)) else vplanes s p q)"
    using show_planes_spec[OF assms(2), of "[0..<4]" "window_start s" "3 - show_x s mod 4" s1, OF ps, unfolded f1] by auto
  define s3 where "s3 = OUTW 0x03D4 (push_bit 8 (t AND 0x00FF) OR 0x0D) (OUTW 0x03D4 ((t AND 0xFF00) OR 0x0C) s2)"
  have t2: "target_img s2 = t" "build s2 = build s" "show_x s2 = show_x s" "show_y s2 = show_y s" "img3 s2 = img3 s"
    "img3_off s2 = img3_off s" using s2(2) by (simp_all add: same_view_def s1_def)
  have a: "img3 s1 + drop_bit 2 (show_x s1) + show_y s1 * SCROLL_X_WIDTH = window_start s"
    by (simp add: s1_def window_start_def shift_2 modex_consts)
  have run: "show_screen after s = Some s3"
    unfolding show_screen_def Let_def t_def[symmetric] s1_def[symmetric] a and_3 s2(1) Option.bind.bind_lunit t2(1) s3_def ..
  have "page_pixel s3 t x y = pixel s (show_x s + x) (show_y s + y)" if "0 \<le> x" "x < 320" "0 \<le> y" "y < 182" for x y
  proof -
    have k: "0 \<le> 80 * y + x div 4" "80 * y + x div 4 < 16000" "nat (x mod 4) < 4" using that by auto
    have "page_pixel s3 t x y = vplanes s2 (nat (x mod 4)) (uint t + (80 * y + x div 4))"
      by (simp add: page_pixel_def s3_def add.assoc)
    also have "\<dots> = img_val after s (plane_src (window_start s) (3 - show_x s mod 4) (nat (x mod 4)) + (80 * y + x div 4))"
      using k by (simp add: s2(3))
    finally have v: "page_pixel s3 t x y = img_val after s (pix_addr s (show_x s + x) (show_y s + y))"
      unfolding plane_src_pixel .
    have "in_win s (show_x s + x) (show_y s + y)" using that by (simp add: in_win_def)
    note ab = addr_bounds[OF assms(1) this]
    show ?thesis unfolding v pixel_def by (rule img_val_build) (use ab in simp_all)
  qed
  moreover have "vplanes s3 p a = vplanes s p a" if "a < 1440 \<or> uint (target_img s) \<le> a \<and> a < uint (target_img s) + 14560" for p a
  proof -
    have "\<not> (uint t \<le> a \<and> a < uint t + 16000)" using that pg(4,5) by (auto simp: disjoint_iff)
    then show ?thesis by (auto simp: s3_def s2(3))
  qed
  moreover have "display_start s3 = t" unfolding s3_def by (rule display_start_OUTW[OF pg(1)])
  moreover have "target_img s3 = t" "build s3 = build s" "show_x s3 = show_x s" "show_y s3 = show_y s" "img3 s3 = img3 s"
    "img3_off s3 = img3_off s" by (simp_all add: s3_def t2)
  ultimately show ?thesis using run pg(1,2) by auto
qed

text \<open>C16: After show_screen the CRT controller starts at the other display page, and each pixel of
  that page is the pixel of the window, whatever the alignment of the window; the page shown
  before and the status bar are untouched.\<close>
theorem show_screen_displays:
  assumes "view_ok s" "readable after" "disp_page (target_img s)"
  shows "\<exists>s'. show_screen after s = Some s' \<and> display_start s' = target_img s' \<and> target_img s' \<noteq> target_img s \<and> disp_page (target_img s') \<and>
    (\<forall>x y. 0 \<le> x \<and> x < 320 \<and> 0 \<le> y \<and> y < 182 \<longrightarrow>
       page_pixel s' (target_img s') x y = pixel s (show_x s + x) (show_y s + y)) \<and>
    (\<forall>p a. a < 1440 \<or> uint (target_img s) \<le> a \<and> a < uint (target_img s) + 14560 \<longrightarrow> vplanes s' p a = vplanes s p a) \<and>
    build s' = build s \<and> show_x s' = show_x s \<and> show_y s' = show_y s \<and> img3 s' = img3 s \<and> img3_off s' = img3_off s"
  by (rule show_screen_spec[OF assms])

section \<open>Facts: registers and tables\<close>

lemma REP_OUTS_fields [simp]:
  "build (REP_OUTSW p t s) = build s" "vplanes (REP_OUTSW p t s) = vplanes s"
  "show_x (REP_OUTSW p t s) = show_x s" "show_y (REP_OUTSW p t s) = show_y s" "img3 (REP_OUTSW p t s) = img3 s"
  "img3_off (REP_OUTSW p t s) = img3_off s" "target_img (REP_OUTSW p t s) = target_img s"
  "txt_img (REP_OUTSW p t s) = txt_img s"
  "build (REP_OUTSB p b s) = build s" "vplanes (REP_OUTSB p b s) = vplanes s" "wmask (REP_OUTSB p b s) = wmask s"
  "show_x (REP_OUTSB p b s) = show_x s" "show_y (REP_OUTSB p b s) = show_y s" "img3 (REP_OUTSB p b s) = img3 s"
  "img3_off (REP_OUTSB p b s) = img3_off s" "target_img (REP_OUTSB p b s) = target_img s"
  "txt_img (REP_OUTSB p b s) = txt_img s"
  by (induction t arbitrary: s) (simp_all add: REP_OUTSW_def, (induction b arbitrary: s; simp add: REP_OUTSB_def)+)

lemma VGA_blank_fields [simp]:
  "build (VGA_blank b v s) = build s" "vplanes (VGA_blank b v s) = vplanes s" "wmask (VGA_blank b v s) = wmask s"
  "show_x (VGA_blank b v s) = show_x s" "show_y (VGA_blank b v s) = show_y s" "img3 (VGA_blank b v s) = img3 s"
  "img3_off (VGA_blank b v s) = img3_off s" "target_img (VGA_blank b v s) = target_img s"
  "txt_img (VGA_blank b v s) = txt_img s"
  by (simp_all add: VGA_blank_def Let_def)

lemmas register_defs = set_seq_regs_and_reset_def set_CRTC_registers_def set_attr_registers_def set_graphics_registers_def
  fill_palette_def

lemma set_fence_spec:
  "set_fence n f a = (if 0 \<le> a \<and> a < int n \<or> 78497 \<le> a \<and> a < 78497 + int n then MEM_FENCE_MAGIC else f a)"
  by (induction n) (auto simp: modex_consts)

definition fence_ok :: "modex \<Rightarrow> bool" where
  "fence_ok s \<longleftrightarrow> (\<forall>a. 0 \<le> a \<and> a < 256 \<or> 78497 \<le> a \<and> a < 78753 \<longrightarrow> build s a = MEM_FENCE_MAGIC)"

lemma fence_ok_same: "same_fence s s' \<Longrightarrow> fence_ok s \<Longrightarrow> fence_ok s'"
  by (auto simp: same_fence_def fence_ok_def)

lemma fence_broken_iff:
  "fence_broken base s \<longleftrightarrow> (\<exists>a. base \<le> a \<and> a < base + 256 \<and> build s a \<noteq> MEM_FENCE_MAGIC)"
proof -
  have "(\<exists>i < 256. build s (base + int i) \<noteq> MEM_FENCE_MAGIC) = (\<exists>a. base \<le> a \<and> a < base + 256 \<and> build s a \<noteq> MEM_FENCE_MAGIC)"
  proof
    assume "\<exists>a. base \<le> a \<and> a < base + 256 \<and> build s a \<noteq> MEM_FENCE_MAGIC"
    then obtain a where "base \<le> a" "a < base + 256" "build s a \<noteq> MEM_FENCE_MAGIC" by blast
    then show "\<exists>i < 256. build s (base + int i) \<noteq> MEM_FENCE_MAGIC"
      by (intro exI[of _ "nat (a - base)"]) (simp add: nat_less_iff)
  next
    assume "\<exists>i < 256. build s (base + int i) \<noteq> MEM_FENCE_MAGIC"
    then obtain i where "i < 256" "build s (base + int i) \<noteq> MEM_FENCE_MAGIC" by blast
    then show "\<exists>a. base \<le> a \<and> a < base + 256 \<and> build s a \<noteq> MEM_FENCE_MAGIC"
      by (intro exI[of _ "base + int i"]) simp
  qed
  then show ?thesis by (auto simp: fence_broken_def list_ex_iff modex_consts)
qed

lemma fence_ok_iff: "fence_ok s \<longleftrightarrow> \<not> fence_broken 0 s \<and> \<not> fence_broken 78497 s"
  unfolding fence_ok_def fence_broken_iff by auto

lemma fold_OUTW_fields:
  "build (fold (\<lambda>(port, v). OUTW port v) xs s) = build s" "vplanes (fold (\<lambda>(port, v). OUTW port v) xs s) = vplanes s"
  "txt_img (fold (\<lambda>(port, v). OUTW port v) xs s) = txt_img s"
  by (induction xs arbitrary: s) (auto split: prod.splits)

text \<open>The font: the bytes of one character, and of the first \<^verbatim>\<open>m\<close> characters, in the planes of the mask.\<close>

lemma font_char:
  "fold (\<lambda>j. vput (int (b + j)) (f j)) [0..<n] s =
    s\<lparr>vplanes := (\<lambda>p q. if odd (wmask s div 2 ^ p) \<and> int b \<le> q \<and> q < int (b + n) then f (nat q - b) else vplanes s p q)\<rparr>"
proof (induction n)
  case (Suc n)
  have step: "fold (\<lambda>j. vput (int (b + j)) (f j)) [0..<Suc n] s =
      vput (int (b + n)) (f n) (fold (\<lambda>j. vput (int (b + j)) (f j)) [0..<n] s)"
    by simp
  have n: "nat (int b + int n) - b = n" by (simp only: of_nat_add[symmetric] nat_int diff_add_inverse)
  show ?case unfolding step Suc by (rule modex.equality) (auto simp: vput_def fun_eq_iff n)
qed (rule modex.equality; auto simp: fun_eq_iff)

lemma font_chars:
  "fold (\<lambda>i. fold (\<lambda>j. vput (int (32 * i + j)) (f i j)) [0..<16]) [0..<m] s =
    s\<lparr>vplanes := (\<lambda>p q. if odd (wmask s div 2 ^ p) \<and> 0 \<le> q \<and> q < 32 * int m \<and> nat q mod 32 < 16
       then f (nat q div 32) (nat q mod 32) else vplanes s p q)\<rparr>"
proof (induction m)
  case 0
  have "vplanes s = (\<lambda>p q. if odd (wmask s div 2 ^ p) \<and> 0 \<le> q \<and> q < 32 * int 0 \<and> nat q mod 32 < 16
       then f (nat q div 32) (nat q mod 32) else vplanes s p q)"
    by (intro ext) auto
  then show ?case by simp
next
  case (Suc m)
  have "(if odd (wmask s div 2 ^ p) \<and> int (32 * m) \<le> q \<and> q < int (32 * m + 16) then f m (nat q - 32 * m)
      else if odd (wmask s div 2 ^ p) \<and> 0 \<le> q \<and> q < 32 * int m \<and> nat q mod 32 < 16
        then f (nat q div 32) (nat q mod 32) else vplanes s p q) =
    (if odd (wmask s div 2 ^ p) \<and> 0 \<le> q \<and> q < 32 * int (Suc m) \<and> nat q mod 32 < 16
       then f (nat q div 32) (nat q mod 32) else vplanes s p q)" for p q
  proof (cases "int (32 * m) \<le> q \<and> q < int (32 * Suc m)")
    case True
    then obtain k where k: "q = int k" by (metis nonneg_int_cases of_nat_0_le_iff order_trans)
    then have "32 * m \<le> k" "k < 32 * m + 32" using True by simp_all
    then obtain e where e: "nat q = 32 * m + e" "e < 32" "q = int (32 * m + e)"
      using k that[of "k - 32 * m"] by simp
    then have "nat q div 32 = m" "nat q mod 32 = e" by simp_all
    then show ?thesis using e by simp
  next
    case False
    then show ?thesis by auto
  qed
  then have eq: "(\<lambda>p q. if odd (wmask s div 2 ^ p) \<and> int (32 * m) \<le> q \<and> q < int (32 * m + 16) then f m (nat q - 32 * m)
      else if odd (wmask s div 2 ^ p) \<and> 0 \<le> q \<and> q < 32 * int m \<and> nat q mod 32 < 16
        then f (nat q div 32) (nat q mod 32) else vplanes s p q) =
    (\<lambda>p q. if odd (wmask s div 2 ^ p) \<and> 0 \<le> q \<and> q < 32 * int (Suc m) \<and> nat q mod 32 < 16
       then f (nat q div 32) (nat q mod 32) else vplanes s p q)"
    by blast
  have step: "fold (\<lambda>i. fold (\<lambda>j. vput (int (32 * i + j)) (f i j)) [0..<16]) [0..<Suc m] s =
      fold (\<lambda>j. vput (int (32 * m + j)) (f m j)) [0..<16]
        (fold (\<lambda>i. fold (\<lambda>j. vput (int (32 * i + j)) (f i j)) [0..<16]) [0..<m] s)"
    by simp
  show ?case unfolding step Suc by (subst font_char) (rule modex.equality, simp_all add: eq[simplified] cong: if_cong)
qed

section \<open>Entering and leaving mode X: properties\<close>

lemma clear_screens_planes:
  "vplanes (clear_screens s) p a = (if 0 \<le> a \<and> a < 65536 \<and> p < 4 then 0 else vplanes s p a)"
proof -
  have "wmask (SET_WRITE_MASK 0x0F00 s) = mask 4" by (simp add: SET_WRITE_MASK_def OUTW_def mask_eq_exp_minus_1)
  moreover have "odd (mask 4 div 2 ^ p :: nat) = (p < 4)" by (metis bit_iff_odd bit_mask_iff possible_bit_nat)
  ultimately show ?thesis by (auto simp: clear_screens_def memset_vid_def MODE_X_MEM_SIZE_def)
qed

lemma clear_screens_fields [simp]:
  "build (clear_screens s) = build s" "show_x (clear_screens s) = show_x s" "show_y (clear_screens s) = show_y s"
  "img3 (clear_screens s) = img3 s" "img3_off (clear_screens s) = img3_off s" "target_img (clear_screens s) = target_img s"
  by (simp_all add: clear_screens_def memset_vid_def)

text \<open>A further fact about the same definitions.\<close>
lemma set_mode_X_ready:
  "\<exists>s'. set_mode_X True True old s = (0, s') \<and> view_ok s' \<and> in_win s' 0 0 \<and> disp_page (target_img s') \<and> fence_ok s' \<and>
    (\<forall>p a. p < 4 \<and> 0 \<le> a \<and> a < 65536 \<longrightarrow> vplanes s' p a = 0)"
proof -
  obtain s' where s': "set_mode_X True True old s = (0, s')" by (simp add: set_mode_X_def Let_def)
  have e: "s' = VGA_blank 0 (snd old) (clear_screens (fill_palette (set_graphics_registers mode_X_graphics
      (set_attr_registers mode_X_attr (set_CRTC_registers mode_X_CRTC (set_seq_regs_and_reset mode_X_seq 0x63
        (VGA_blank 1 (fst old) (mode_X_window s))))))))"
    using s' by (simp add: set_mode_X_def Let_def)
  have f: "img3_off s' = 10000" "img3 s' = 10256" "show_x s' = 0" "show_y s' = 0" "target_img s' = 1440"
    "build s' = set_fence 256 (build s)"
    by (simp_all add: e register_defs mode_X_window_def modex_consts)
  have "view_ok s'" "in_win s' 0 0" "disp_page (target_img s')" "fence_ok s'"
    by (simp_all add: f view_ok_def in_win_def disp_page_def fence_ok_def set_fence_spec)
  moreover have "vplanes s' p a = 0" if "p < 4" "0 \<le> a" "a < 65536" for p a
    using that by (simp add: e clear_screens_planes)
  ultimately show ?thesis using s' by blast
qed

lemma font_plane_mask:
  "odd (wmask (fold (\<lambda>(port, v). OUTW port v)
     [(0x3C4, 0x0402), (0x3C4, 0x0704), (0x3CE, 0x0005), (0x3CE, 0x0406), (0x3CE, 0x0204)] s) div 2 ^ p) = (p = 2)"
proof -
  have "wmask (fold (\<lambda>(port, v). OUTW port v)
     [(0x3C4, 0x0402), (0x3C4, 0x0704), (0x3CE, 0x0005), (0x3CE, 0x0406), (0x3CE, 0x0204)] s) = 2 ^ 2"
    by (simp add: OUTW_def)
  then show ?thesis by (metis bit_exp_iff bit_iff_odd possible_bit_nat)
qed

lemma write_font_data_spec:
  "build (write_font_data s) = build s" "txt_img (write_font_data s) = txt_img s"
  "vplanes (write_font_data s) = (\<lambda>p q. if p = 2 \<and> 0 \<le> q \<and> q < 8192 \<and> nat q mod 32 < 16
     then font_data ! (nat q div 32) ! (nat q mod 32) else vplanes s p q)"
  unfolding write_font_data_def Let_def fold_OUTW_fields font_chars font_plane_mask
  by (simp_all add: fold_OUTW_fields del: fold.simps cong: if_cong)

text \<open>A further fact about the same definitions.\<close>
lemma clear_mode_X_restores:
  "(fst (clear_mode_X old s) = [] \<longleftrightarrow> fence_ok s) \<and>
   (\<forall>a < 16384. txt_img (snd (clear_mode_X old s)) (2 * a) = 0x20 \<and> txt_img (snd (clear_mode_X old s)) (2 * a + 1) = 0x07) \<and>
   (\<forall>i < 256. \<forall>j < 16. vplanes (snd (clear_mode_X old s)) 2 (int (32 * i + j)) = font_data ! i ! j)"
proof (intro conjI allI impI)
  let ?s = "set_text_mode_3 True old s"
  have b: "build ?s = build s" by (simp add: set_text_mode_3_def Let_def write_font_data_spec clear_text_def register_defs)
  then have "fence_ok ?s = fence_ok s" by (simp add: fence_ok_def)
  then show "fst (clear_mode_X old s) = [] \<longleftrightarrow> fence_ok s"
    by (auto simp: clear_mode_X_def Let_def fence_ok_iff modex_consts)
  show "a < 16384 \<Longrightarrow> txt_img (snd (clear_mode_X old s)) (2 * a) = 0x20"
    "a < 16384 \<Longrightarrow> txt_img (snd (clear_mode_X old s)) (2 * a + 1) = 0x07" for a
    by (simp_all add: clear_mode_X_def set_text_mode_3_def Let_def write_font_data_spec clear_text_def)
  show "vplanes (snd (clear_mode_X old s)) 2 (int (32 * i + j)) = font_data ! i ! j" if "i < 256" "j < 16" for i j
  proof -
    have "nat (int (32 * i + j)) = 32 * i + j" "(32 * i + j) div 32 = i" "(32 * i + j) mod 32 = j" "int (32 * i + j) < 8192"
      using that by simp_all
    then show ?thesis using that
      by (simp only: clear_mode_X_def set_text_mode_3_def Let_def snd_conv VGA_blank_fields write_font_data_spec) simp
  qed
qed

section \<open>The status bar: properties\<close>

lemma movsb_list_spec:
  assumes "src + n \<le> length buf"
  shows "\<exists>s'. movsb_list buf n src dst s = Some s' \<and> same_view s s' \<and> wmask s' = wmask s \<and>
    vplanes s' = (\<lambda>p q. if dst \<le> q \<and> q < dst + int n \<and> odd (wmask s div 2 ^ p) then buf ! (src + nat (q - dst))
      else vplanes s p q)"
  using assms
proof (induction n arbitrary: src dst s)
  case 0
  then show ?case by (auto simp: fun_eq_iff)
next
  case (Suc n)
  let ?s1 = "vput dst (buf ! src) s"
  obtain s' where s': "movsb_list buf n (src + 1) (dst + 1) ?s1 = Some s'" "same_view ?s1 s'" "wmask s' = wmask s"
    "vplanes s' = (\<lambda>p q. if dst + 1 \<le> q \<and> q < dst + 1 + int n \<and> odd (wmask s div 2 ^ p)
       then buf ! (src + 1 + nat (q - (dst + 1))) else vplanes ?s1 p q)"
    using Suc.IH[of "src + 1" "dst + 1" ?s1, unfolded vput_fields] Suc.prems by auto
  have b: "rd buf src = Some (buf ! src)" using Suc.prems by (simp add: rd_def)
  have "same_view s s'" using s'(2) by (simp add: same_view_def)
  moreover have "vplanes s' = (\<lambda>p q. if dst \<le> q \<and> q < dst + int (Suc n) \<and> odd (wmask s div 2 ^ p)
      then buf ! (src + nat (q - dst)) else vplanes s p q)"
  proof (intro ext)
    fix p q
    have n: "nat (q - dst) = Suc (nat (q - (dst + 1)))" if "dst + 1 \<le> q" using that by simp
    then show "vplanes s' p q = (if dst \<le> q \<and> q < dst + int (Suc n) \<and> odd (wmask s div 2 ^ p)
        then buf ! (src + nat (q - dst)) else vplanes s p q)"
      unfolding s'(4) by (cases "dst + 1 \<le> q") (auto simp: vput_def n)
  qed
  ultimately show ?case using b s'(1,3) by auto
qed

lemma bar_planes_spec:
  assumes "length buf = 5760" "\<And>i. i \<in> set is \<Longrightarrow> i < 4" "distinct is"
  shows "\<exists>s'. bar_planes buf is s = Some s' \<and> same_view s s' \<and>
    vplanes s' = (\<lambda>p q. if p \<in> set is \<and> 0 \<le> q \<and> q < 1440 then buf ! (p * 1440 + nat q) else vplanes s p q)"
  using assms(2,3)
proof (induction "is" arbitrary: s)
  case Nil
  then show ?case by simp
next
  case (Cons i "is")
  define m where "m = SET_WRITE_MASK (push_bit (i + 8) 1) s"
  have i: "i < 4" using Cons.prems(1)[of i] by simp
  have m0: "vplanes m = vplanes s" "odd (wmask m div 2 ^ p) = (p = i)" for p
    using write_mask_planes[OF i, of s] by (simp_all add: m_def)
  have "i * 1440 + 1440 \<le> length buf" using i assms(1) by simp
  then obtain s1 where s1: "movsb_list buf 1440 (i * 1440) 0 m = Some s1" "same_view m s1"
    "vplanes s1 = (\<lambda>p q. if 0 \<le> q \<and> q < 1440 \<and> p = i then buf ! (i * 1440 + nat q) else vplanes s p q)"
    using movsb_list_spec[of "i * 1440" 1440 buf 0 m, unfolded m0 diff_zero] by auto
  have m: "same_view s m" by (simp add: m_def same_view_def)
  have v1: "same_view s s1" using same_view_trans[OF m s1(2)] .
  have r: "copy_status_bar buf (i * PLANE_SIZE_STATUS) 0 m = Some s1"
    using s1(1) by (simp add: copy_status_bar_def modex_consts)
  obtain s2 where s2: "bar_planes buf is s1 = Some s2" "same_view s1 s2"
    "vplanes s2 = (\<lambda>p q. if p \<in> set is \<and> 0 \<le> q \<and> q < 1440 then buf ! (p * 1440 + nat q) else vplanes s1 p q)"
    using Cons.IH[of s1] Cons.prems by auto
  have "vplanes s2 = (\<lambda>p q. if p \<in> set (i # is) \<and> 0 \<le> q \<and> q < 1440 then buf ! (p * 1440 + nat q) else vplanes s p q)"
    unfolding s2(3) s1(3) using Cons.prems(2) by (intro ext) auto
  then show ?case using r s2(1) same_view_trans[OF v1 s2(2)] by (auto simp: m_def)
qed

lemma dec_nat_digits: "c \<in> set (dec_nat n) \<Longrightarrow> unat c < 128"
proof (induction n rule: dec_nat.induct)
  case (1 n)
  have d: "unat (of_nat (0x30 + k) :: byte) < 128" if "k < 10" for k
    using that unat_of_nat[of "0x30 + k", where 'a = 8] by (simp add: take_bit_nat_eq_self)
  show ?case
    using 1 d[of n] d[of "n mod 10"] by (subst (asm) (2) dec_nat.simps) (auto split: if_splits)
qed

lemma length_dec_nat: "n < 10 ^ Suc k \<Longrightarrow> length (dec_nat n) \<le> Suc k"
proof (induction k arbitrary: n)
  case 0
  then show ?case by (simp add: dec_nat.simps)
next
  case (Suc k)
  then have "n div 10 < 10 ^ Suc k" by auto
  then show ?case using Suc.IH[of "n div 10"] by (subst dec_nat.simps) auto
qed

lemma length_dec: "0 \<le> v \<Longrightarrow> v < 10 ^ Suc k \<Longrightarrow> length (dec v) \<le> Suc k"
  using length_dec_nat[of "nat v" k] by (simp add: dec_def nat_less_iff)

lemma dec_ascii: "c \<in> set (dec v) \<Longrightarrow> unat c < 128"
  by (auto simp: dec_def dest: dec_nat_digits split: if_splits)

lemma status_text_ascii: "\<forall>c \<in> set (status_text level time n). unat c < 128"
  by (auto simp: status_text_def Let_def dest: dec_ascii)

text \<open>For the values the game has, the text fits.\<close>

lemma status_text_fits:
  assumes "0 \<le> level" "level < 100" "0 \<le> n" "n < 100" "0 \<le> time" "time < 67108864"
  shows "length (status_text level time n) \<le> 34"
proof -
  have q: "time sdiv 60 = time div 60" "time smod 60 = time mod 60"
    using assms(5) by (auto simp: signed_divide_int_def signed_modulo_int_def sgn_if minus_div_mult_eq_mod)
  have q2: "v sdiv 10 = v div 10" "v smod 10 = v mod 10" if "0 \<le> v" for v :: int
    using that by (auto simp: signed_divide_int_def signed_modulo_int_def sgn_if minus_div_mult_eq_mod)
  have m: "0 \<le> time div 60" "time div 60 < 1118482" "0 \<le> time mod 60" "time mod 60 < 60" using assms(5,6) by auto
  have "length (dec (time div 60 div 10)) \<le> Suc 5" by (rule length_dec) (use m in auto)
  moreover have "length (dec (time div 60 mod 10)) \<le> Suc 0" "length (dec (time mod 60 div 10)) \<le> Suc 0"
    "length (dec (time mod 60 mod 10)) \<le> Suc 0" "length (dec level) \<le> Suc 1" "length (dec n) \<le> Suc 1"
    by (rule length_dec; use m assms in auto)+
  ultimately show ?thesis by (simp add: status_text_def Let_def q q2 m)
qed

lemma status_bar_spec:
  assumes "0 \<le> level" "level < 100" "0 \<le> num_fruits" "num_fruits < 100" "0 \<le> time" "time < 67108864"
  shows "\<exists>s'. image_on_status_bar level bground_color time num_fruits s = Some s' \<and> same_view s s' \<and>
    (\<forall>x < 320. \<forall>y < 18. page_pixel s' 0 (int x) (int y) =
       (if text_pixel (status_text level time num_fruits) x y then WHITE else word_of_int bground_color)) \<and>
    (\<forall>p a. a < 0 \<or> 1440 \<le> a \<longrightarrow> vplanes s' p a = vplanes s p a)"
proof -
  define str where "str = status_text level time num_fruits"
  define im where "im = (\<lambda>x y. if text_pixel str x y then WHITE else word_of_int bground_color :: byte)"
  have len: "length str \<le> 34" unfolding str_def by (rule status_text_fits[OF assms])
  then have t: "text_to_graphics (word_of_int bground_color) str = Some (planar im)"
    using text_to_graphics_draws[of str "word_of_int bground_color"] status_text_ascii
    by (simp add: str_def im_def)
  obtain s' where s': "bar_planes (planar im) [0..<4] s = Some s'" "same_view s s'"
    "vplanes s' = (\<lambda>p q. if p \<in> set [0..<4] \<and> 0 \<le> q \<and> q < 1440 then planar im ! (p * 1440 + nat q) else vplanes s p q)"
    using bar_planes_spec[OF length_planar, of "[0..<4]" im s] by auto
  have run: "image_on_status_bar level bground_color time num_fruits s = Some s'"
    using len t s'(1) by (simp add: image_on_status_bar_def str_def[symmetric])
  have "page_pixel s' 0 (int x) (int y) = im x y" if "x < 320" "y < 18" for x y
  proof -
    have n: "nat (int x mod 4) = x mod 4" "nat (80 * int y + int x div 4) = 80 * y + x div 4"
      by (simp_all add: nat_mod_distrib nat_add_distrib nat_mult_distrib nat_div_distrib)
    have "80 * int y + int x div 4 < 1440" using that by linarith
    then have "page_pixel s' 0 (int x) (int y) = planar im ! pix x y"
      by (simp add: page_pixel_def s'(3) n pix_def add.assoc)
    then show ?thesis using planar_at[OF that] by simp
  qed
  moreover have "vplanes s' p a = vplanes s p a" if "a < 0 \<or> 1440 \<le> a" for p a using that by (auto simp: s'(3))
  ultimately show ?thesis using run s'(2) by (auto simp: im_def str_def)
qed

text \<open>C19: For any level below 100, fruit count below 100 and time that 32-bit ticks can reach, the
  status text fits its buffer of 40 bytes, and the 320 by 18 pixels of the status bar show it in
  white on the background colour; nothing else in video memory changes.\<close>
theorem status_bar_shows_text:
  assumes "0 \<le> level" "level < 100" "0 \<le> num_fruits" "num_fruits < 100" "0 \<le> time" "time < 67108864"
  shows "\<exists>s'. image_on_status_bar level bground_color time num_fruits s = Some s' \<and> build s' = build s \<and>
    (\<forall>x < 320. \<forall>y < 18. page_pixel s' 0 (int x) (int y) =
       (if text_pixel (status_text level time num_fruits) x y then WHITE else word_of_int bground_color)) \<and>
    (\<forall>p a. a < 0 \<or> 1440 \<le> a \<longrightarrow> vplanes s' p a = vplanes s p a)"
  using status_bar_spec[OF assms, of bground_color s] by (auto simp: same_view_def)

section \<open>A run of the graphics code\<close>

text \<open>What the game does between \<^verbatim>\<open>set_mode_X\<close> and \<^verbatim>\<open>clear_mode_X\<close>, in any order and with any arguments.  The
  callbacks fill a whole line.\<close>

inductive gfx_step :: "modex \<Rightarrow> modex \<Rightarrow> bool" where
  gfx_window: "set_view_window x y s = Some s' \<Longrightarrow> gfx_step s s'"
| gfx_block: "draw_full_block px py blk s = Some s' \<Longrightarrow> gfx_step s s'"
| gfx_mask: "draw_mask_block px py blk msk (s, u) = Some (s', u') \<Longrightarrow> gfx_step s s'"
| gfx_horiz: "(\<And>a b h. fn a b = Some h \<Longrightarrow> length h = 320) \<Longrightarrow> draw_horiz_line fn y s = Some (r, s') \<Longrightarrow> gfx_step s s'"
| gfx_vert: "(\<And>a b v. fn a b = Some v \<Longrightarrow> length v = 182) \<Longrightarrow> draw_vert_line fn x s = Some (r, s') \<Longrightarrow> gfx_step s s'"
| gfx_show: "show_screen after s = Some s' \<Longrightarrow> gfx_step s s'"
| gfx_bar: "image_on_status_bar level bg time n s = Some s' \<Longrightarrow> gfx_step s s'"
| gfx_wall: "gfx_step s (fill_palette_wall r g b s)"
| gfx_center: "gfx_step s (fill_player_center r g b s)"

definition gfx_inv :: "modex \<Rightarrow> bool" where
  "gfx_inv s \<longleftrightarrow> view_ok s \<and> disp_page (target_img s) \<and> fence_ok s"

lemma painted_inv: "painted g s s' \<Longrightarrow> gfx_inv s \<Longrightarrow> gfx_inv s'"
  by (auto simp: gfx_inv_def painted_fields(5,9) intro: fence_ok_same painted_fields(10))

lemma same_view_inv: "same_view s s' \<Longrightarrow> gfx_inv s \<Longrightarrow> gfx_inv s'"
  using same_view_facts(1,4)[of s s'] fence_ok_same[of s s'] by (simp add: gfx_inv_def) (simp add: same_view_def)

lemma mask_block_painted:
  assumes "view_ok s"
  shows "\<exists>s' u' g. draw_mask_block pos_x pos_y blk msk (s, u) = Some (s', u') \<and> painted g s s'"
proof (cases "off_screen pos_x pos_y s")
  case True
  then show ?thesis using painted_refl by (auto simp: draw_mask_block_def)
next
  case False
  then have on: "pos_x + 12 > show_x s" "pos_x < show_x s + 320" "pos_y + 12 > show_y s" "pos_y < show_y s + 182"
    by (simp_all add: off_screen_def modex_consts)
  obtain l c where x: "clip pos_x (show_x s) 320 = (l, c)" "0 \<le> l" "0 < c" "l + c \<le> 12" "show_x s \<le> pos_x + l"
    "pos_x + l + c \<le> show_x s + 320"
    "\<And>x. show_x s \<le> x \<Longrightarrow> x < show_x s + 320 \<Longrightarrow> (pos_x \<le> x \<and> x < pos_x + 12) = (pos_x + l \<le> x \<and> x < pos_x + l + c)"
    by (rule clip_spec[OF on(1,2)]) auto
  obtain t h where y: "clip pos_y (show_y s) 182 = (t, h)" "0 \<le> t" "0 < h" "t + h \<le> 12" "show_y s \<le> pos_y + t"
    "pos_y + t + h \<le> show_y s + 182"
    "\<And>y. show_y s \<le> y \<Longrightarrow> y < show_y s + 182 \<Longrightarrow> (pos_y \<le> y \<and> y < pos_y + 12) = (pos_y + t \<le> y \<and> y < pos_y + t + h)"
    by (rule clip_spec[OF on(3,4)]) auto
  have "in_win s (pos_x + l + i) (pos_y + t + j)" if "0 \<le> i" "i < int (nat c)" "0 \<le> j" "j < int (nat h)" for i j
    using that x(3,5,6) y(3,5,6) by (simp add: in_win_def)
  then obtain s' u' g where "mask_rows blk msk (nat h) (nat c) (12 - c) (pos_x + l) (pos_y + t) (l + t * 12) 0 (s, u) = Some (s', u')"
    "painted g s s'"
    using mask_rows_painted[OF assms, of "nat c" "nat h" "pos_x + l" "pos_y + t" blk msk "12 - c" "l + t * 12" 0 u] x(3)
    by auto
  moreover have "draw_mask_block pos_x pos_y blk msk (s, u) =
      mask_rows blk msk (nat h) (nat c) (12 - c) (pos_x + l) (pos_y + t) (l + t * 12) 0 (s, u)"
    using False x(1) y(1) by (simp add: draw_mask_block_def modex_consts)
  ultimately show ?thesis by auto
qed

lemma lines_painted:
  assumes "view_ok s"
  shows "(\<And>a b h. fn a b = Some h \<Longrightarrow> length h = 320) \<Longrightarrow> draw_horiz_line fn j s = Some (r, s') \<Longrightarrow> \<exists>g. painted g s s'"
    "(\<And>a b v. gn a b = Some v \<Longrightarrow> length v = 182) \<Longrightarrow> draw_vert_line gn i s = Some (r, s') \<Longrightarrow> \<exists>g. painted g s s'"
proof -
  show "\<exists>g. painted g s s'" if len: "\<And>a b h. fn a b = Some h \<Longrightarrow> length h = 320" and run: "draw_horiz_line fn j s = Some (r, s')"
  proof (cases "0 \<le> j \<and> j < 182")
    case True
    then obtain h where "fn (show_x s) (j + show_y s) = Some h"
      using run by (auto simp: draw_horiz_line_def modex_consts Let_def split: bind_splits)
    then show ?thesis using draw_lines_paint[OF assms, of j fn h] len run True by auto
  next
    case False
    then have "s' = s" using run by (auto simp: draw_horiz_line_def modex_consts)
    then show ?thesis using painted_refl by blast
  qed
  show "\<exists>g. painted g s s'" if len: "\<And>a b v. gn a b = Some v \<Longrightarrow> length v = 182" and run: "draw_vert_line gn i s = Some (r, s')"
  proof (cases "0 \<le> i \<and> i < 320")
    case True
    then obtain v where "gn (i + show_x s) (show_y s) = Some v"
      using run by (auto simp: draw_vert_line_def modex_consts Let_def split: bind_splits)
    then show ?thesis using draw_lines_paint[OF assms, of _ _ _ i gn v] len run True by auto
  next
    case False
    then have "s' = s" using run by (auto simp: draw_vert_line_def modex_consts)
    then show ?thesis using painted_refl by blast
  qed
qed

lemma movsb_vid_same: "movsb_vid after n a d s = Some s' \<Longrightarrow> same_view s s'"
  by (induction n arbitrary: a d s) (fastforce simp: same_view_def split: bind_splits)+

lemma movsb_list_same: "movsb_list buf n a d s = Some s' \<Longrightarrow> same_view s s'"
  by (induction n arbitrary: a d s) (fastforce simp: same_view_def split: bind_splits)+

lemma show_planes_same: "show_planes after a p is s = Some s' \<Longrightarrow> same_view s s'"
proof (induction "is" arbitrary: s)
  case (Cons i "is")
  then obtain s1 where s1: "show_plane after a p i s = Some s1" "show_planes after a p is s1 = Some s'" by (auto split: bind_splits)
  have "same_view (SET_WRITE_MASK (push_bit (i + 8) 1) s) s1"
    using s1(1) movsb_vid_same unfolding show_plane_def copy_image_def by blast
  then have "same_view s s1" by (simp add: same_view_def)
  then show ?case using Cons.IH[OF s1(2)] same_view_trans by blast
qed simp

lemma bar_planes_same: "bar_planes buf is s = Some s' \<Longrightarrow> same_view s s'"
proof (induction "is" arbitrary: s)
  case (Cons i "is")
  then obtain s1 where s1: "copy_status_bar buf (i * PLANE_SIZE_STATUS) 0 (SET_WRITE_MASK (push_bit (i + 8) 1) s) = Some s1"
    "bar_planes buf is s1 = Some s'" by (auto split: bind_splits)
  have "same_view (SET_WRITE_MASK (push_bit (i + 8) 1) s) s1"
    using s1(1) movsb_list_same unfolding copy_status_bar_def by blast
  then have "same_view s s1" by (simp add: same_view_def)
  then show ?case using Cons.IH[OF s1(2)] same_view_trans by blast
qed simp

lemma show_screen_inv:
  assumes "show_screen after s = Some s'" "gfx_inv s"
  shows "gfx_inv s'"
proof -
  let ?s1 = "s\<lparr>target_img := target_img s XOR 0x4000\<rparr>"
  obtain s2 where s2: "same_view ?s1 s2" "same_view s2 s'"
    using assms(1) show_planes_same by (fastforce simp: show_screen_def Let_def same_view_def split: bind_splits)
  have "gfx_inv ?s1"
    using assms(2) page_flip(1)[of "target_img s"] by (simp add: gfx_inv_def view_ok_def fence_ok_def)
  then show ?thesis using same_view_inv[OF s2(2) same_view_inv[OF s2(1)]] by blast
qed

lemma gfx_step_inv: "gfx_step s s' \<Longrightarrow> gfx_inv s \<Longrightarrow> gfx_inv s'"
proof (induction rule: gfx_step.induct)
  case (gfx_window x y s s')
  then show ?case using set_view_window_spec[of s x y] by (auto simp: gfx_inv_def intro: fence_ok_same)
next
  case (gfx_block px py blk s s')
  then show ?case using draw_full_block_paints[of s px py blk] painted_inv by (auto simp: gfx_inv_def)
next
  case (gfx_mask px py blk msk s u s' u')
  then show ?case using mask_block_painted[of s px py blk msk u] painted_inv by (auto simp: gfx_inv_def)
next
  case (gfx_horiz fn y s r s')
  then show ?case using lines_painted(1)[of s fn y r s'] painted_inv unfolding gfx_inv_def by blast
next
  case (gfx_vert fn x s r s')
  then show ?case using lines_painted(2)[of s fn x r s'] painted_inv unfolding gfx_inv_def by blast
next
  case (gfx_show after s s')
  then show ?case using show_screen_inv by blast
next
  case (gfx_bar level bg time n s s')
  then have "same_view s s'" using bar_planes_same by (auto simp: image_on_status_bar_def Let_def split: if_splits bind_splits)
  then show ?case using same_view_inv gfx_bar.prems by blast
qed (auto simp: fill_palette_wall_def fill_player_center_def gfx_inv_def view_ok_def fence_ok_def)

text \<open>The same calls as values, for runs: the arguments, and for show_screen the memory behind the
  build array.\<close>

datatype gfx_call =
    Window int int
  | Block int int "int \<Rightarrow> byte"
  | Mask int int "int \<Rightarrow> byte" "int \<Rightarrow> byte" "int \<Rightarrow> byte"
  | Horiz "int \<Rightarrow> int \<Rightarrow> byte list option" int
  | Vert "int \<Rightarrow> int \<Rightarrow> byte list option" int
  | Show "int \<Rightarrow> byte option"
  | Bar int int int int
  | Wall nat nat nat
  | Center nat nat nat

fun gfx_do :: "gfx_call \<Rightarrow> modex \<Rightarrow> modex option" where
  "gfx_do (Window x y) s = set_view_window x y s"
| "gfx_do (Block px py blk) s = draw_full_block px py blk s"
| "gfx_do (Mask px py blk msk old) s = map_option fst (draw_mask_block px py blk msk (s, old))"
| "gfx_do (Horiz fn y) s = map_option snd (draw_horiz_line fn y s)"
| "gfx_do (Vert fn x) s = map_option snd (draw_vert_line fn x s)"
| "gfx_do (Show after) s = show_screen after s"
| "gfx_do (Bar level bg time n) s = image_on_status_bar level bg time n s"
| "gfx_do (Wall r g b) s = Some (fill_palette_wall r g b s)"
| "gfx_do (Center r g b) s = Some (fill_player_center r g b s)"

text \<open>The C code computes in 32-bit signed ints, whose overflow is undefined: the values of the
  subexpressions of \<^verbatim>\<open>set_view_window\<close>, of the blocks (the largest and smallest where a loop counts)
  and of the lines.\<close>

definition int32 :: "int \<Rightarrow> bool" where
  "int32 v \<longleftrightarrow> - 2147483648 \<le> v \<and> v \<le> 2147483647"

definition window_ints :: "int \<Rightarrow> int \<Rightarrow> modex \<Rightarrow> int list" where
  "window_ints x y s =
    (let sx = max x (show_x s); sy = max y (show_y s); ex = min x (show_x s) + 319; ey = min y (show_y s) + 181
     in [x, y, y * 80, img3_off s + drop_bit 2 x, img3_off s + drop_bit 2 x + y * 80,
         img3_off s + 43680, x + 320, x + 319, img3_off s + 43680 + drop_bit 2 (x + 319), y + 182, y + 181, (y + 181) * 80,
         img3_off s + 43680 + drop_bit 2 (x + 319) + (y + 181) * 80,
         show_x s - 320, show_x s + 320, show_y s - 182, show_y s + 182,
         10000 - drop_bit 2 x, 10000 - drop_bit 2 x - y * 80,
         ex, ey, sy * 80, drop_bit 2 sx + sy * 80, ey * 80, drop_bit 2 ex + ey * 80, drop_bit 2 ex + ey * 80 + 1,
         drop_bit 2 ex + ey * 80 + 1 - (drop_bit 2 sx + sy * 80),
         drop_bit 2 ex + ey * 80 + 1 - (drop_bit 2 sx + sy * 80) + 43680])"

definition block_ints :: "int \<Rightarrow> int \<Rightarrow> modex \<Rightarrow> int list" where
  "block_ints px py s =
    [px, px + 12, show_x s + 320, py, py + 12, show_y s + 182, show_x s - px, show_x s + 320 - px, show_y s - py,
     show_y s + 182 - py, show_y s * 80, (show_y s + 182) * 80]"

definition line_ints :: "int \<Rightarrow> modex \<Rightarrow> int list" where
  "line_ints i s = [i, i + show_x s, i + show_y s, show_y s * 80, (i + show_y s) * 80]"

fun gfx_ints :: "gfx_call \<Rightarrow> modex \<Rightarrow> int list" where
  "gfx_ints (Window x y) s = window_ints x y s"
| "gfx_ints (Block px py blk) s = block_ints px py s"
| "gfx_ints (Mask px py blk msk old) s = block_ints px py s"
| "gfx_ints (Horiz fn y) s = line_ints y s"
| "gfx_ints (Vert fn x) s = line_ints x s"
| "gfx_ints (Show after) s = [show_y s * 80]"
| "gfx_ints (Bar level bg time n) s = [level, time, n]"
| "gfx_ints _ s = []"

text \<open>A run of calls.  It has no result when an access leaves the build buffer or the text of the
  status bar its array, or when an int overflows.\<close>

fun gfx_run :: "gfx_call list \<Rightarrow> modex \<Rightarrow> modex option" where
  "gfx_run [] s = Some s"
| "gfx_run (c # cs) s = (if list_all int32 (gfx_ints c s) then Option.bind (gfx_do c s) (gfx_run cs) else None)"

fun call_ok :: "gfx_call \<Rightarrow> bool" where
  "call_ok (Window x y) \<longleftrightarrow> \<bar>x\<bar> \<le> 1000000 \<and> \<bar>y\<bar> \<le> 1000000"
| "call_ok (Block px py blk) \<longleftrightarrow> \<bar>px\<bar> \<le> 1000000 \<and> \<bar>py\<bar> \<le> 1000000"
| "call_ok (Mask px py blk msk old) \<longleftrightarrow> \<bar>px\<bar> \<le> 1000000 \<and> \<bar>py\<bar> \<le> 1000000"
| "call_ok (Horiz fn y) \<longleftrightarrow> \<bar>y\<bar> \<le> 1000000 \<and> (\<forall>a b. \<exists>h. fn a b = Some h \<and> length h = 320)"
| "call_ok (Vert fn x) \<longleftrightarrow> \<bar>x\<bar> \<le> 1000000 \<and> (\<forall>a b. \<exists>v. fn a b = Some v \<and> length v = 182)"
| "call_ok (Show after) \<longleftrightarrow> readable after"
| "call_ok (Bar level bg time n) \<longleftrightarrow> 0 \<le> level \<and> level < 100 \<and> 0 \<le> n \<and> n < 100 \<and> 0 \<le> time \<and> time < 67108864"
| "call_ok _ \<longleftrightarrow> True"

definition gfx_ready :: "modex \<Rightarrow> bool" where
  "gfx_ready s \<longleftrightarrow> gfx_inv s \<and> \<bar>show_x s\<bar> \<le> 1000000 \<and> \<bar>show_y s\<bar> \<le> 1000000"

lemma int32_list:
  "list_all int32 [] = True"
  "list_all int32 (v # vs) = (- 2147483648 \<le> v \<and> v \<le> 2147483647 \<and> list_all int32 vs)"
  by (simp_all add: int32_def)

lemma img3_off_bound:
  assumes "gfx_ready s"
  shows "\<bar>img3_off s\<bar> \<le> 90000000"
proof -
  have v: "0 \<le> img3_off s + show_x s div 4 + 80 * show_y s"
    "img3_off s + 43680 + (show_x s + 319) div 4 + 80 * show_y s + 14480 < 78241"
    "\<bar>show_x s\<bar> \<le> 1000000" "\<bar>show_y s\<bar> \<le> 1000000"
    using assms by (simp_all add: gfx_ready_def gfx_inv_def view_ok_def)
  have "show_x s div 4 \<le> 1000000" "- 1000000 \<le> (show_x s + 319) div 4" using v(3) by linarith+
  then show ?thesis using v by linarith
qed

lemma drop_2_bound: "\<bar>x\<bar> \<le> 1000319 \<Longrightarrow> \<bar>drop_bit 2 x\<bar> \<le> (1000319 :: int)"
  unfolding shift_2 by linarith

lemma window_ints_fit:
  assumes "gfx_ready s" "\<bar>x\<bar> \<le> 1000000" "\<bar>y\<bar> \<le> 1000000"
  shows "list_all int32 (window_ints x y s)"
proof -
  define sx sy ex ey where "sx = max x (show_x s)" and "sy = max y (show_y s)"
    and "ex = min x (show_x s) + 319" and "ey = min y (show_y s) + 181"
  define o1 where "o1 = img3_off s"
  have w: "\<bar>show_x s\<bar> \<le> 1000000" "\<bar>show_y s\<bar> \<le> 1000000" "\<bar>o1\<bar> \<le> 90000000"
    using assms(1) img3_off_bound by (simp_all add: gfx_ready_def o1_def)
  have e: "\<bar>sx\<bar> \<le> 1000000" "\<bar>sy\<bar> \<le> 1000000" "\<bar>ex\<bar> \<le> 1000319" "\<bar>ey\<bar> \<le> 1000181"
    using w assms(2,3) by (auto simp: sx_def sy_def ex_def ey_def max_def min_def)
  define d1 d2 d3 d4 where "d1 = drop_bit 2 x" and "d2 = drop_bit 2 (x + 319)" and "d3 = drop_bit 2 sx"
    and "d4 = drop_bit 2 ex"
  have d: "\<bar>d1\<bar> \<le> 1000319" "\<bar>d2\<bar> \<le> 1000319" "\<bar>d3\<bar> \<le> 1000319" "\<bar>d4\<bar> \<le> 1000319"
    unfolding d1_def d2_def d3_def d4_def by (rule drop_2_bound; use e assms(2) in linarith)+
  note ab = w e d assms(2,3)
  note b = ab[unfolded abs_le_iff, THEN conjunct1] ab[unfolded abs_le_iff, THEN conjunct2]
  show ?thesis
    unfolding window_ints_def Let_def sx_def[symmetric] sy_def[symmetric] ex_def[symmetric] ey_def[symmetric]
      d1_def[symmetric] d2_def[symmetric] d3_def[symmetric] d4_def[symmetric] o1_def[symmetric] int32_list distrib_right
    by (intro conjI TrueI; use b in linarith)
qed

lemma gfx_ints_fit:
  assumes "gfx_ready s" "call_ok c"
  shows "list_all int32 (gfx_ints c s)"
proof -
  have w: "\<bar>show_x s\<bar> \<le> 1000000" "\<bar>show_y s\<bar> \<le> 1000000" using assms(1) by (simp_all add: gfx_ready_def)
  show ?thesis
    using assms(2) w window_ints_fit[OF assms(1)]
    by (cases c) (simp_all add: block_ints_def line_ints_def abs_le_iff int32_def)
qed

text \<open>One call in range: it has a result, and keeps the invariant.\<close>

lemma same_view_ready: "same_view s s' \<Longrightarrow> gfx_ready s \<Longrightarrow> gfx_ready s'"
  using same_view_inv[of s s'] same_view_facts[of s s'] by (simp add: gfx_ready_def same_view_def)

lemma painted_ready: "painted g s s' \<Longrightarrow> gfx_ready s \<Longrightarrow> gfx_ready s'"
  using painted_inv[of g s s'] painted_fields(1,2)[of g s s'] by (simp add: gfx_ready_def)

lemma gfx_do_ready:
  assumes "gfx_ready s" "call_ok c"
  shows "\<exists>s'. gfx_do c s = Some s' \<and> gfx_ready s'"
proof -
  have v: "view_ok s" "disp_page (target_img s)" "gfx_inv s" using assms(1) by (simp_all add: gfx_ready_def gfx_inv_def)
  show ?thesis
  proof (cases c)
    case (Window x y)
    obtain s' where s': "set_view_window x y s = Some s'" "show_x s' = x" "show_y s' = y"
      using set_view_window_spec[OF v(1)] by blast
    moreover have "gfx_inv s'" by (rule gfx_step_inv[OF gfx_window[OF s'(1)] v(3)])
    ultimately show ?thesis using assms(2) Window by (simp add: gfx_ready_def)
  next
    case (Block px py blk)
    then show ?thesis using draw_full_block_paints[OF v(1), of px py blk] painted_ready assms(1) by auto
  next
    case (Mask px py blk msk old)
    then show ?thesis using mask_block_painted[OF v(1), of px py blk msk old] painted_ready assms(1) by fastforce
  next
    case (Horiz fn y)
    then obtain h where h: "fn (show_x s) (y + show_y s) = Some h" "length h = 320" using assms(2) by auto
    note l = draw_lines_paint[OF v(1), of y fn h 0 "\<lambda>_ _. None" "[]"]
    show ?thesis
    proof (cases "0 \<le> y \<and> y < 182")
      case True
      then obtain s' where "draw_horiz_line fn y s = Some (0, s')" "gfx_ready s'"
        using l h painted_ready[OF _ assms(1)] by blast
      then show ?thesis using Horiz by simp
    qed (use l Horiz assms(1) in auto)
  next
    case (Vert fn x)
    then obtain h where h: "fn (x + show_x s) (show_y s) = Some h" "length h = 182" using assms(2) by auto
    note l = draw_lines_paint[OF v(1), of 0 "\<lambda>_ _. None" "[]" x fn h]
    show ?thesis
    proof (cases "0 \<le> x \<and> x < 320")
      case True
      then obtain s' where "draw_vert_line fn x s = Some (0, s')" "gfx_ready s'"
        using l h painted_ready[OF _ assms(1)] by blast
      then show ?thesis using Vert by simp
    qed (use l Vert assms(1) in auto)
  next
    case (Show after)
    then obtain s' where s': "show_screen after s = Some s'" "show_x s' = show_x s" "show_y s' = show_y s"
      using show_screen_spec[OF v(1) _ v(2)] assms(2) by (metis call_ok.simps(6))
    then show ?thesis using show_screen_inv[OF s'(1) v(3)] assms(1) Show by (simp add: gfx_ready_def)
  next
    case (Bar level bg time n)
    then show ?thesis using status_bar_spec[of level n time bg s] assms same_view_ready by auto
  next
    case (Wall r g b)
    then show ?thesis using gfx_step_inv[OF gfx_wall v(3)] assms(1)
      by (simp add: gfx_ready_def fill_palette_wall_def)
  next
    case (Center r g b)
    then show ?thesis using gfx_step_inv[OF gfx_center v(3)] assms(1)
      by (simp add: gfx_ready_def fill_player_center_def)
  qed
qed

lemma gfx_run_ready:
  "\<forall>c \<in> set cs. call_ok c \<Longrightarrow> gfx_ready s \<Longrightarrow> \<exists>s'. gfx_run cs s = Some s' \<and> gfx_ready s'"
proof (induction cs arbitrary: s)
  case (Cons c cs)
  obtain s1 where s1: "gfx_do c s = Some s1" "gfx_ready s1" using gfx_do_ready[of s c] Cons.prems by auto
  moreover have "list_all int32 (gfx_ints c s)" using gfx_ints_fit[of s c] Cons.prems by simp
  ultimately show ?case using Cons.IH[OF _ s1(2)] Cons.prems(1) by simp
qed simp

text \<open>C17: After set_mode_X, any list of calls of the graphics functions runs to its end: no access to
  the build buffer leaves it, the text of the status bar fits its array, and no value of a
  signed subexpression of set_view_window, of the blocks or of the lines overflows 32 bits;
  afterwards the window lies inside the build buffer, a display page is selected, and
  clear_mode_X finds the memory fences unbroken. The coordinates are within a million of 0 (at
  INT_MAX set_view_window does overflow), the callbacks of the lines fill the whole line, the
  values of the status bar are those of a game (level and fruits below 100, time below 2^26),
  and the up to 1185 bytes that show_screen reads behind the build array are only assumed to be
  readable.\<close>
theorem graphics_run_safe:
  assumes "set_mode_X True True old s0 = (0, s1)" "\<forall>c \<in> set cs. call_ok c"
  shows "\<exists>s. gfx_run cs s1 = Some s \<and> view_ok s \<and> disp_page (target_img s) \<and> fst (clear_mode_X old' s) = []"
proof -
  have "show_x s1 = 0" "show_y s1 = 0" "gfx_inv s1"
    using set_mode_X_ready[of old s0] assms(1)
    by (auto simp: gfx_inv_def set_mode_X_def Let_def register_defs mode_X_window_def)
  then have "gfx_ready s1" by (simp add: gfx_ready_def)
  from gfx_run_ready[OF assms(2) this] obtain s where s: "gfx_run cs s1 = Some s" "gfx_inv s" by (auto simp: gfx_ready_def)
  then show ?thesis using clear_mode_X_restores[of old' s] by (auto simp: gfx_inv_def)
qed

section \<open>Instances\<close>

theorem show_screen_displays_witness:
  "\<exists>s'. show_screen (\<lambda>a. Some 0) demo_modex = Some s' \<and> display_start s' = 17824 \<and> page_pixel s' 17824 5 7 = MEM_FENCE_MAGIC"
proof -
  have "readable (\<lambda>a. Some 0)" "disp_page (target_img demo_modex)"
    by (simp_all add: readable_def disp_page_def demo_modex_ok)
  from show_screen_displays[OF demo_modex_ok(1) this] obtain s' where
    s': "show_screen (\<lambda>a. Some 0) demo_modex = Some s'" "display_start s' = target_img s'" "target_img s' \<noteq> 1440"
      "disp_page (target_img s')"
      "\<forall>x y. 0 \<le> x \<and> x < 320 \<and> 0 \<le> y \<and> y < 182 \<longrightarrow> page_pixel s' (target_img s') x y = MEM_FENCE_MAGIC"
    by (auto simp: demo_modex_ok)
  moreover have "target_img s' = 17824" using s'(3,4) by (simp add: disp_page_def)
  ultimately show ?thesis by auto
qed

theorem status_bar_shows_text_witness:
  "\<exists>s'. image_on_status_bar 3 3 125 1 demo_modex = Some s' \<and> page_pixel s' 0 0 0 = 3"
proof -
  obtain s' where s': "image_on_status_bar 3 3 125 1 demo_modex = Some s'"
    "\<forall>x < 320. \<forall>y < 18. page_pixel s' 0 (int x) (int y) = (if text_pixel (status_text 3 125 1) x y then WHITE else word_of_int 3)"
    using status_bar_shows_text[of 3 1 125 3 demo_modex] by auto
  moreover have "\<not> text_pixel t 0 0" for t by (simp add: text_pixel_def Let_def)
  ultimately show ?thesis using s'(2)[rule_format, of 0 0] by auto
qed

definition demo_calls :: "gfx_call list" where
  "demo_calls = [Window 200 90, Vert (\<lambda>a b. Some (replicate 182 7)) 319, Block 190 80 (\<lambda>i. 1),
     Mask 300 100 (\<lambda>i. 1) (\<lambda>i. 1) (\<lambda>i. 0), Wall 70 1 2, Show (\<lambda>a. Some 0), Bar 3 3 125 1, Window (- 500) 7]"

theorem graphics_run_safe_witness:
  "\<exists>s. gfx_run demo_calls (snd (set_mode_X True True (0, 0) demo_modex)) = Some s \<and> view_ok s \<and> fst (clear_mode_X (0, 0) s) = []"
proof -
  obtain s1 where s1: "set_mode_X True True (0, 0) demo_modex = (0, s1)"
    using set_mode_X_ready[of "(0, 0)" demo_modex] by blast
  have "\<forall>c \<in> set demo_calls. call_ok c" by (simp add: demo_calls_def readable_def)
  from graphics_run_safe[OF s1 this] show ?thesis unfolding s1 snd_conv by blast
qed

end
