(* ===== verification/MazeGame.thy ===== *)
theory MazeGame
  imports MazePlay ModeXVga
begin

text \<open>The game itself, \<^verbatim>\<open>mp2_rthakk21/mazegame.c\<close>: preparing a level, scrolling, moving the player,
  the clock thread with its frames, and the keyboard and controller threads.

  The three threads share the variables of the file, here the record \<^verbatim>\<open>game\<close>.  Between two critical
  sections of the clock thread the other two may take any number of steps; these are given as a list.
  \<^verbatim>\<open>DIR_STOP\<close> is \<^const>\<open>None\<close>.  The world holds what is not C code: the block images of \<^verbatim>\<open>blocks.s\<close> and
  the bytes behind the build buffer.\<close>

section \<open>State\<close>

definition PAN_BORDER :: int where "PAN_BORDER = 5"
definition MAX_LEVEL :: int where "MAX_LEVEL = 10"
definition SHOW_MIN :: int where "SHOW_MIN = 6"
definition TICKS_PER_SEC :: int where "TICKS_PER_SEC = 32"
definition LED_DEFAULT :: u32 where "LED_DEFAULT = 0x040F0000"

definition BACKQUOTE :: byte where "BACKQUOTE = 96"
definition KEY_UP :: byte where "KEY_UP = 65"
definition KEY_DOWN :: byte where "KEY_DOWN = 66"
definition KEY_RIGHT :: byte where "KEY_RIGHT = 67"
definition KEY_LEFT :: byte where "KEY_LEFT = 68"

definition TUX_UP :: byte where "TUX_UP = 0xEF"
definition TUX_DOWN :: byte where "TUX_DOWN = 0xDF"
definition TUX_RIGHT :: byte where "TUX_RIGHT = 0x7F"
definition TUX_LEFT :: byte where "TUX_LEFT = 0xBF"

record world =
  blocks :: "nat \<Rightarrow> int \<Rightarrow> int \<Rightarrow> byte"
  behind_build :: "int \<Rightarrow> byte option"

record game =
  mz :: maze_state
  mx :: modex
  old_value_buf :: "int \<Rightarrow> byte"
  number :: int
  info_x_dim :: int
  info_y_dim :: int
  initial_fruit_count :: int
  time_to_first_fruit :: int
  time_between_fruits :: int
  tick_usec :: int
  map_x :: u32
  map_y :: u32
  play_x :: int
  play_y :: int
  last_dir :: dir_t
  dir :: "dir_t option"
  next_dir :: "dir_t option"
  move_cnt :: int
  buttons :: byte
  buttons_pressed :: bool
  key_state :: nat
  quit_flag :: bool
  winner :: bool
  ticks_total :: int
  goodcount :: int
  badcount :: int
  led_words :: "u32 list"

text \<open>The bytes of a block image, row by row.\<close>

definition block_bytes :: "world \<Rightarrow> nat \<Rightarrow> int \<Rightarrow> byte" where
  "block_bytes W n = (\<lambda>i. blocks W n (i div 12) (i mod 12))"

text \<open>Running an operation of \<^verbatim>\<open>maze.c\<close>: the blocks it asks for are drawn.\<close>

fun draw_blocks :: "world \<Rightarrow> (int \<times> int \<times> nat) list \<Rightarrow> modex \<Rightarrow> modex option" where
  "draw_blocks W [] x = Some x"
| "draw_blocks W ((px, py, n) # ds) x = do {
     x1 \<leftarrow> draw_full_block px py (block_bytes W n) x;
     draw_blocks W ds x1 }"

definition on_maze :: "world \<Rightarrow> (maze_state \<Rightarrow> ('a \<times> maze_state) option) \<Rightarrow> game \<Rightarrow> ('a \<times> game) option" where
  "on_maze W f g = do {
     (r, m) \<leftarrow> f ((mz g)\<lparr>drawn := []\<rparr>);
     x \<leftarrow> draw_blocks W (drawn m) (mx g);
     Some (r, g\<lparr>mz := m\<lparr>drawn := []\<rparr>, mx := x\<rparr>) }"

definition shift_view :: "world \<Rightarrow> game \<Rightarrow> game option" where
  "shift_view W g = do {
     x \<leftarrow> set_view_window (sint (map_x g)) (sint (map_y g)) (mx g);
     Some (g\<lparr>mx := x\<rparr>) }"

definition draw_horiz :: "world \<Rightarrow> int \<Rightarrow> game \<Rightarrow> game option" where
  "draw_horiz W y g = do {
     (r, x) \<leftarrow> draw_horiz_line (\<lambda>x y. fill_horiz_buffer (blocks W) x y (mz g)) y (mx g);
     Some (g\<lparr>mx := x\<rparr>) }"

definition draw_vert :: "world \<Rightarrow> int \<Rightarrow> game \<Rightarrow> game option" where
  "draw_vert W x g = do {
     (r, x1) \<leftarrow> draw_vert_line (\<lambda>x y. fill_vert_buffer (blocks W) x y (mz g)) x (mx g);
     Some (g\<lparr>mx := x1\<rparr>) }"

section \<open>Preparing a level\<close>

fun draw_lines :: "world \<Rightarrow> nat list \<Rightarrow> game \<Rightarrow> game option" where
  "draw_lines W [] g = Some g"
| "draw_lines W (i # is) g = do { g1 \<leftarrow> draw_horiz W (int i) g; draw_lines W is g1 }"

definition level_info :: "int \<Rightarrow> game \<Rightarrow> game" where
  "level_info lev g =
    (let l = lev - 1
     in g\<lparr>number := lev,
          info_x_dim := (if MAZE_MIN_X_DIM + 2 * l > MAZE_MAX_X_DIM then MAZE_MAX_X_DIM else MAZE_MIN_X_DIM + 2 * l),
          info_y_dim := (if MAZE_MIN_Y_DIM + 2 * l > MAZE_MAX_Y_DIM then MAZE_MAX_Y_DIM else MAZE_MIN_Y_DIM + 2 * l),
          initial_fruit_count := (if 1 + l sdiv 2 > 6 then 6 else 1 + l sdiv 2),
          time_to_first_fruit := (if 300 - 30 * l < 120 then 120 else 300 - 30 * l),
          time_between_fruits := (if 300 - 60 * l < 60 then 60 else 300 - 60 * l),
          tick_usec := (if 20000 - 1750 * l < 5000 then 5000 else 20000 - 1750 * l),
          map_x := word_of_int SHOW_MIN, map_y := word_of_int SHOW_MIN\<rparr>)"

definition prepare_maze_level :: "world \<Rightarrow> int \<Rightarrow> game \<Rightarrow> (int \<times> game) option" where
  "prepare_maze_level W lev g = do {
     let g1 = level_info lev g;
     (r, m) \<leftarrow> make_maze (info_x_dim g1) (info_y_dim g1) (initial_fruit_count g1) (mz g1);
     let g2 = g1\<lparr>mz := m\<rparr>;
     if r \<noteq> 0 then Some (- 1, g2)
     else do {
       g3 \<leftarrow> shift_view W g2;
       g4 \<leftarrow> draw_lines W [0..<nat SCROLL_Y_DIM] g3;
       Some (0, g4) } }"

section \<open>Moving and scrolling\<close>

text \<open>The map coordinates are unsigned, so the comparisons are.\<close>

definition move_up :: "world \<Rightarrow> game \<Rightarrow> game option" where
  "move_up W g =
    (let g1 = g\<lparr>play_y := play_y g - 1\<rparr>
     in if word_of_int (play_y g1) < map_y g1 + word_of_int (BLOCK_Y_DIM * PAN_BORDER) \<and> map_y g1 > word_of_int SHOW_MIN
        then do { g2 \<leftarrow> shift_view W (g1\<lparr>map_y := map_y g1 - 1\<rparr>); draw_horiz W 0 g2 }
        else Some g1)"

definition move_right :: "world \<Rightarrow> game \<Rightarrow> game option" where
  "move_right W g =
    (let g1 = g\<lparr>play_x := play_x g + 1\<rparr>
     in if word_of_int (play_x g1) > map_x g1 + word_of_int SCROLL_X_DIM - word_of_int (BLOCK_X_DIM * (PAN_BORDER + 1)) \<and>
           map_x g1 + word_of_int SCROLL_X_DIM < word_of_int ((2 * info_x_dim g1 + 1) * BLOCK_X_DIM - SHOW_MIN)
        then do { g2 \<leftarrow> shift_view W (g1\<lparr>map_x := map_x g1 + 1\<rparr>); draw_vert W (SCROLL_X_DIM - 1) g2 }
        else Some g1)"

definition move_down :: "world \<Rightarrow> game \<Rightarrow> game option" where
  "move_down W g =
    (let g1 = g\<lparr>play_y := play_y g + 1\<rparr>
     in if word_of_int (play_y g1) > map_y g1 + word_of_int SCROLL_Y_DIM - word_of_int (BLOCK_Y_DIM * (PAN_BORDER + 1)) \<and>
           map_y g1 + word_of_int SCROLL_Y_DIM < word_of_int ((2 * info_y_dim g1 + 1) * BLOCK_Y_DIM - SHOW_MIN)
        then do { g2 \<leftarrow> shift_view W (g1\<lparr>map_y := map_y g1 + 1\<rparr>); draw_horiz W (SCROLL_Y_DIM - 1) g2 }
        else Some g1)"

definition move_left :: "world \<Rightarrow> game \<Rightarrow> game option" where
  "move_left W g =
    (let g1 = g\<lparr>play_x := play_x g - 1\<rparr>
     in if word_of_int (play_x g1) < map_x g1 + word_of_int (BLOCK_X_DIM * PAN_BORDER) \<and> map_x g1 > word_of_int SHOW_MIN
        then do { g2 \<leftarrow> shift_view W (g1\<lparr>map_x := map_x g1 - 1\<rparr>); draw_vert W 0 g2 }
        else Some g1)"

section \<open>The player in the maze\<close>

fun unveil_all :: "(int \<times> int) list \<Rightarrow> maze_state \<Rightarrow> maze_state option" where
  "unveil_all [] m = Some m"
| "unveil_all ((x, y) # ps) m = do { m1 \<leftarrow> unveil_space x y m; unveil_all ps m1 }"

definition around :: "int \<Rightarrow> int \<Rightarrow> (int \<times> int) list" where
  "around x y = [(x + i, y + j). i \<leftarrow> [- 1..1], j \<leftarrow> [- 1..1]] @ [(x, y - 2), (x + 2, y), (x, y + 2), (x - 2, y)]"

definition visit :: "int \<Rightarrow> int \<Rightarrow> maze_state \<Rightarrow> (bool \<times> maze_state) option" where
  "visit x y m = do {
     (fruit, m1) \<leftarrow> check_for_fruit x y m;
     m2 \<leftarrow> unveil_all (around x y) m1;
     won \<leftarrow> check_for_win x y m2;
     Some (won, m2) }"

definition unveil_around_player :: "world \<Rightarrow> game \<Rightarrow> (bool \<times> game) option" where
  "unveil_around_player W g = on_maze W (visit (play_x g sdiv BLOCK_X_DIM) (play_y g sdiv BLOCK_Y_DIM)) g"

text \<open>Drawing the player, showing the screen and taking the player off again.\<close>

definition show_player :: "world \<Rightarrow> game \<Rightarrow> game option" where
  "show_player W g = do {
     (x1, u) \<leftarrow> draw_mask_block (play_x g) (play_y g) (block_bytes W (get_player_block (last_dir g)))
       (block_bytes W (get_player_mask (last_dir g))) (mx g, old_value_buf g);
     x2 \<leftarrow> show_screen (behind_build W) x1;
     x3 \<leftarrow> draw_full_block (play_x g) (play_y g) u x2;
     Some (g\<lparr>mx := x3, old_value_buf := u\<rparr>) }"

section \<open>The clock thread\<close>

fun turn_back :: "dir_t option \<Rightarrow> dir_t option \<Rightarrow> bool" where
  "turn_back (Some DIR_UP) (Some DIR_DOWN) = True"
| "turn_back (Some DIR_DOWN) (Some DIR_UP) = True"
| "turn_back (Some DIR_LEFT) (Some DIR_RIGHT) = True"
| "turn_back (Some DIR_RIGHT) (Some DIR_LEFT) = True"
| "turn_back _ _ = False"

definition vertical :: "dir_t \<Rightarrow> bool" where
  "vertical d \<longleftrightarrow> d = DIR_UP \<or> d = DIR_DOWN"

text \<open>Turning back at once.  \<^verbatim>\<open>next_dir\<close> is read for the tests and again for the assignment; the
  controller thread does not take the lock of the clock thread, so the two reads are arguments.\<close>

definition reverse_now :: "dir_t option \<Rightarrow> dir_t option \<Rightarrow> game \<Rightarrow> game" where
  "reverse_now tested assigned g =
    (if tested \<noteq> dir g \<and> turn_back (dir g) tested
     then g\<lparr>move_cnt := (if move_cnt g > 0
              then (if (case dir g of Some d \<Rightarrow> vertical d | None \<Rightarrow> False) then BLOCK_Y_DIM - move_cnt g else BLOCK_X_DIM - move_cnt g)
              else move_cnt g),
            dir := assigned\<rparr>
     else g)"

text \<open>\<^verbatim>\<open>open\<close> has four entries; for \<^verbatim>\<open>DIR_STOP\<close> the code reads the one behind them, \<^verbatim>\<open>junk\<close>.\<close>

definition open_at :: "bool \<Rightarrow> bool list \<Rightarrow> dir_t option \<Rightarrow> bool" where
  "open_at junk op d = (case d of None \<Rightarrow> junk | Some e \<Rightarrow> op ! dir_num e)"

definition choose_dir :: "bool \<Rightarrow> bool list \<Rightarrow> game \<Rightarrow> game" where
  "choose_dir junk op g =
    (let g1 = (if open_at junk op (next_dir g) then g\<lparr>dir := next_dir g\<rparr> else g)
     in case dir g1 of
          None \<Rightarrow> g1
        | Some d \<Rightarrow>
            if \<not> op ! dir_num d then g1\<lparr>dir := None\<rparr>
            else g1\<lparr>move_cnt := (if vertical d then BLOCK_Y_DIM else BLOCK_X_DIM)\<rparr>)"

text \<open>At a new square; the flag says that the level is won.\<close>

definition new_square :: "world \<Rightarrow> bool \<Rightarrow> game \<Rightarrow> (bool \<times> game) option" where
  "new_square W junk g = do {
     (won, g1) \<leftarrow> unveil_around_player W g;
     if won then Some (True, g1)
     else do {
       op \<leftarrow> find_open_directions (play_x g1 sdiv BLOCK_X_DIM) (play_y g1 sdiv BLOCK_Y_DIM) (mz g1);
       Some (False, choose_dir junk op g1) } }"

definition move_player :: "world \<Rightarrow> game \<Rightarrow> game option" where
  "move_player W g =
    (case dir g of
       None \<Rightarrow> Some g
     | Some d \<Rightarrow> do {
         let g1 = g\<lparr>last_dir := d, move_cnt := move_cnt g - 1\<rparr>;
         g2 \<leftarrow> (case d of DIR_UP \<Rightarrow> move_up W g1 | DIR_RIGHT \<Rightarrow> move_right W g1
                | DIR_DOWN \<Rightarrow> move_down W g1 | DIR_LEFT \<Rightarrow> move_left W g1);
         show_player W g2 })"

section \<open>The other two threads\<close>

definition keyboard_key :: "byte \<Rightarrow> game \<Rightarrow> game" where
  "keyboard_key key g =
    (if key = BACKQUOTE then g\<lparr>quit_flag := True\<rparr>
     else if key = 27 then g\<lparr>key_state := 1\<rparr>
     else if key = 91 \<and> key_state g = 1 then g\<lparr>key_state := 2\<rparr>
     else if key \<ge> KEY_UP \<and> key \<le> KEY_LEFT \<and> key_state g = 2
       then g\<lparr>next_dir := Some (if key = KEY_UP then DIR_UP else if key = KEY_DOWN then DIR_DOWN
                                else if key = KEY_RIGHT then DIR_RIGHT else DIR_LEFT), key_state := 0\<rparr>
     else g\<lparr>key_state := 0\<rparr>)"

definition tux_turn :: "game \<Rightarrow> game" where
  "tux_turn g =
    (if \<not> buttons_pressed g then g
     else if buttons g = TUX_UP then g\<lparr>next_dir := Some DIR_UP\<rparr>
     else if buttons g = TUX_DOWN then g\<lparr>next_dir := Some DIR_DOWN\<rparr>
     else if buttons g = TUX_RIGHT then g\<lparr>next_dir := Some DIR_RIGHT\<rparr>
     else if buttons g = TUX_LEFT then g\<lparr>next_dir := Some DIR_LEFT\<rparr>
     else g)"

datatype thread_event = Key byte | Tux

fun thread_step :: "thread_event \<Rightarrow> game \<Rightarrow> game" where
  "thread_step (Key k) g = (if quit_flag g \<or> winner g then g else keyboard_key k g)"
| "thread_step Tux g = tux_turn g"

section \<open>A round\<close>

text \<open>One round of the inner loop: \<^verbatim>\<open>btn\<close> is the byte of the controller, \<^verbatim>\<open>es\<close> are the steps of the other
  threads between the two critical sections, \<^verbatim>\<open>rgb\<close> the random numbers for the colour of the walls.  No
  step falls into a critical section; \<^verbatim>\<open>reverse_now\<close> shows what the controller thread can do there.\<close>

definition game_tick :: "world \<Rightarrow> byte \<Rightarrow> thread_event list \<Rightarrow> bool \<Rightarrow> nat \<times> nat \<times> nat \<Rightarrow> game \<Rightarrow> (bool \<times> game) option" where
  "game_tick W btn es junk rgb g =
    (let g1 = fold thread_step es (g\<lparr>buttons := btn, buttons_pressed := (btn AND 0xFF \<noteq> 0xFF)\<rparr>);
         g2 = reverse_now (next_dir g1) (next_dir g1) g1
     in do {
       (won, g3) \<leftarrow> (if move_cnt g2 = 0 then new_square W junk g2 else Some (False, g2));
       if won then do {
         x \<leftarrow> show_screen (behind_build W) (fill_palette_wall (fst rgb) (fst (snd rgb)) (snd (snd rgb)) (mx g3));
         Some (True, g3\<lparr>mx := x\<rparr>) }
       else do {
         g4 \<leftarrow> show_player W g3;
         g5 \<leftarrow> move_player W g4;
         Some (False, g5) } })"

section \<open>Frames and levels\<close>

definition tux_clock :: "int \<Rightarrow> u32" where
  "tux_clock elapsed_time =
    (let minute = elapsed_time sdiv 60; minute_1 = minute smod 10; minute_2 = minute sdiv 10;
         second = elapsed_time smod 60; second_1 = second smod 10; second_2 = second sdiv 10
     in (((LED_DEFAULT OR word_of_int second_1) OR word_of_int (push_bit 4 second_2)) OR
          word_of_int (push_bit 8 minute_1)) OR word_of_int (push_bit 12 minute_2))"

text \<open>The rounds of a frame: each with the steps of the other threads before it and in it, and its inputs.\<close>

record round =
  between :: "thread_event list"
  r_buttons :: byte
  polled :: "thread_event list"
  r_junk :: bool
  r_rgb :: "nat \<times> nat \<times> nat"

fun tick_loop :: "world \<Rightarrow> nat \<Rightarrow> round list \<Rightarrow> game \<Rightarrow> (bool \<times> game) option" where
  "tick_loop W 0 rs g = Some (False, g)"
| "tick_loop W (Suc n) [] g = None"
| "tick_loop W (Suc n) (r # rs) g = do {
     (won, g1) \<leftarrow> game_tick W (r_buttons r) (polled r) (r_junk r) (r_rgb r) (fold thread_step (between r) g);
     if won then Some (True, g1) else tick_loop W n rs g1 }"

text \<open>One round of the outer loop; \<^verbatim>\<open>data\<close> is the word read from the clock, \<^verbatim>\<open>rgb\<close> for the colour of the
  player.\<close>

definition frame_display :: "u32 \<Rightarrow> nat \<times> nat \<times> nat \<Rightarrow> game \<Rightarrow> game option" where
  "frame_display data rgb g = do {
     let ticks = sint (drop_bit 8 data);
     let num_fruits = GET_FRUITS (mz g);
     let time = ticks_total g sdiv TICKS_PER_SEC;
     x1 \<leftarrow> image_on_status_bar (number g) (number g) time num_fruits (mx g);
     let total = ticks_total g + ticks;
     let x2 = (if total smod 8 = 0 then fill_player_center (fst rgb) (fst (snd rgb)) (snd (snd rgb)) x1 else x1);
     let ticks1 = (if ticks > 8 then 8 else ticks);
     Some (g\<lparr>mx := x2, led_words := led_words g @ [tux_clock time], ticks_total := total,
       badcount := (if ticks1 > 1 then badcount g + 1 else badcount g),
       goodcount := (if ticks1 > 1 then goodcount g else goodcount g + 1)\<rparr>) }"

definition game_frame :: "world \<Rightarrow> u32 \<Rightarrow> nat \<times> nat \<times> nat \<Rightarrow> round list \<Rightarrow> game \<Rightarrow> (bool \<times> game) option" where
  "game_frame W data rgb rs g = do {
     g1 \<leftarrow> frame_display data rgb g;
     let ticks = sint (drop_bit 8 data);
     tick_loop W (nat (if ticks > 8 then 8 else ticks)) rs g1 }"

text \<open>The start of a level; the flag is false when it could not be prepared.\<close>

definition level_start :: "world \<Rightarrow> int \<Rightarrow> game \<Rightarrow> (bool \<times> game) option" where
  "level_start W lev g = do {
     (r, g1) \<leftarrow> prepare_maze_level W lev g;
     if r \<noteq> 0 then Some (False, g1)
     else do {
       let g2 = g1\<lparr>play_x := BLOCK_X_DIM, play_y := BLOCK_Y_DIM, move_cnt := 0, last_dir := DIR_UP, dir := None, next_dir := None\<rparr>;
       (won, g3) \<leftarrow> unveil_around_player W g2;
       g4 \<leftarrow> show_player W g3;
       Some (True, g4\<lparr>ticks_total := 0\<rparr>) } }"

text \<open>The loops of \<^verbatim>\<open>rtc_thread\<close> over frames and levels.  A frame comes with the steps of the other
  threads while the clock thread waits for the interrupt; an empty list is a clock thread still waiting.\<close>

record frame =
  before :: "thread_event list"
  f_data :: u32
  f_rgb :: "nat \<times> nat \<times> nat"
  f_rounds :: "round list"

fun play_level :: "world \<Rightarrow> frame list \<Rightarrow> game \<Rightarrow> (bool \<times> game \<times> frame list) option" where
  "play_level W [] g = Some (False, g, [])"
| "play_level W (f # fs) g =
    (if quit_flag g then Some (False, g, f # fs)
     else do {
       (won, g1) \<leftarrow> game_frame W (f_data f) (f_rgb f) (f_rounds f) (fold thread_step (before f) g);
       if won then Some (True, g1, fs) else play_level W fs g1 })"

function rtc_levels :: "world \<Rightarrow> int \<Rightarrow> frame list \<Rightarrow> game \<Rightarrow> game option" where
  "rtc_levels W level fs g =
    (if level \<le> MAX_LEVEL \<and> \<not> quit_flag g then do {
       (ok, g1) \<leftarrow> level_start W level g;
       if \<not> ok then Some g1
       else do {
         (won, g2, fs') \<leftarrow> play_level W fs g1;
         if won \<or> quit_flag g2 then rtc_levels W (level + 1) fs' g2 else None } }
     else Some g)"
  by pat_completeness auto
termination
  by (relation "measure (\<lambda>(W, level, fs, g). nat (MAX_LEVEL + 1 - level))") auto

definition rtc_thread :: "world \<Rightarrow> frame list \<Rightarrow> game \<Rightarrow> game option" where
  "rtc_thread W fs g = do {
     g1 \<leftarrow> rtc_levels W 1 fs g;
     Some (if quit_flag g1 then g1 else g1\<lparr>winner := True\<rparr>) }"

end
