(* ===== verification/MazeScreen.thy ===== *)
theory MazeScreen
  imports MazeGame
begin

text \<open>The picture of the maze and the window: \<^verbatim>\<open>displays\<close> says that every pixel of the window is the
  pixel of the block of its lattice point.  Drawing the points whose block changes keeps it, and so
  do scrolling by a pixel and showing the player.

  The row of the maze array wraps: the last column of a row and the first of the next are the same
  byte.  The window is never wide enough to show both.\<close>

section \<open>Specification\<close>

definition block_no :: "maze_state \<Rightarrow> int \<Rightarrow> int \<Rightarrow> nat" where
  "block_no m x y = the (find_block x y m)"

definition maze_pixel :: "world \<Rightarrow> maze_state \<Rightarrow> int \<Rightarrow> int \<Rightarrow> byte" where
  "maze_pixel W m x y = blocks W (block_no m (x div 12) (y div 12)) (y mod 12) (x mod 12)"

definition displays :: "world \<Rightarrow> maze_state \<Rightarrow> modex \<Rightarrow> bool" where
  "displays W m x \<longleftrightarrow> (\<forall>px py. in_win x px py \<longrightarrow> pixel x px py = maze_pixel W m px py)"

definition wall :: "byte \<Rightarrow> bool" where
  "wall b \<longleftrightarrow> b AND MAZE_WALL \<noteq> 0"

text \<open>A lattice point with a pixel in the window.\<close>

definition visible :: "modex \<Rightarrow> int \<Rightarrow> int \<Rightarrow> bool" where
  "visible x u v \<longleftrightarrow> (\<exists>px py. in_win x px py \<and> px div 12 = u \<and> py div 12 = v)"

text \<open>The window lies in the maze.\<close>

definition win_in :: "maze_state \<Rightarrow> modex \<Rightarrow> bool" where
  "win_in m x \<longleftrightarrow> 0 \<le> show_x x \<and> show_x x + 320 \<le> 12 * (2 * maze_x_dim m + 1) \<and>
     0 \<le> show_y x \<and> show_y x + 182 \<le> 12 * (2 * maze_y_dim m + 1)"

lemma visible_in_view: "win_in m x \<Longrightarrow> visible x u v \<Longrightarrow> in_view m u v"
  by (auto simp: visible_def win_in_def in_view_def in_win_def intro!: block_le)

section \<open>When the block of a point does not change\<close>

lemma bind_wall:
  assumes "map_option wall a = map_option wall b" "\<And>c d. (c AND MAZE_WALL \<noteq> 0) = (d AND MAZE_WALL \<noteq> 0) \<Longrightarrow> f c = g d"
  shows "a \<bind> f = b \<bind> g"
  using assms by (cases a; cases b) (auto simp: wall_def)

lemma find_block_cong:
  assumes "mget m1 u v = mget m u v" "\<And>p q. map_option wall (mget m1 p q) = map_option wall (mget m p q)"
    and "(n_fruits m1 = 0) = (n_fruits m = 0) \<or> (\<forall>b. mget m u v = Some b \<longrightarrow> b AND MAZE_EXIT = 0)"
  shows "find_block u v m1 = find_block u v m"
proof (cases "mget m u v")
  case None
  then show ?thesis by (simp add: find_block_def assms(1))
next
  case (Some b)
  have n: "(n_fruits m1 = 0 \<and> b AND MAZE_EXIT \<noteq> 0) = (n_fruits m = 0 \<and> b AND MAZE_EXIT \<noteq> 0)" using assms(3) Some by auto
  show ?thesis
    unfolding find_block_def assms(1) Some Option.bind.bind_lunit Let_def n
    by (intro if_cong refl bind_wall assms(2)) auto
qed

section \<open>Points that share a byte\<close>

lemma mget_set_cell:
  assumes "dims_ok m" "in_view m x y"
  shows "mget (set_cell x y b m) p q = (if MAZE_INDEX m p q = MAZE_INDEX m x y then Some b else mget m p q)"
proof -
  have i: "MAZE_INDEX (set_cell x y b m) p q = MAZE_INDEX m p q" by (rule MAZE_INDEX_cong) simp
  have "0 \<le> MAZE_INDEX m x y" "nat (MAZE_INDEX m x y) < length (maze m)"
    using index_bounds[OF assms(1), of x y] assms(2) by (simp_all add: in_view_def nat_less_iff)
  then show ?thesis
    unfolding mget_def i by (auto simp: ird_def rd_def set_cell_def nth_list_update nat_eq_iff)
qed

lemma same_index:
  assumes "dims_ok m" "in_view m u v" "in_view m x y" "MAZE_INDEX m u v = MAZE_INDEX m x y"
  shows "u = x \<and> v = y \<or> u = 0 \<and> x = 2 * maze_x_dim m \<or> u = 2 * maze_x_dim m \<and> x = 0"
proof -
  define w where "w = 2 * maze_x_dim m"
  have w: "0 < w" "0 \<le> u" "u \<le> w" "0 \<le> x" "x \<le> w" using assms(1-3) by (simp_all add: w_def dims_ok_def in_view_def)
  have e: "u - x = (y - v) * w" using assms(4) by (simp add: MAZE_INDEX_def w_def algebra_simps)
  consider "y = v" | "y \<ge> v + 1" | "y \<le> v - 1" by linarith
  then show ?thesis
  proof cases
    case 1
    then show ?thesis using e by simp
  next
    case 2
    then have "1 * w \<le> (y - v) * w" using w(1) by (intro mult_right_mono) simp_all
    then have "w \<le> u - x" using e by simp
    then have "u = w" "x = 0" using w by linarith+
    then show ?thesis by (simp add: w_def)
  next
    case 3
    then have "(y - v) * w \<le> - 1 * w" using w(1) by (intro mult_right_mono) simp_all
    then have "u - x \<le> - w" using e by simp
    then have "u = 0" "x = w" using w by linarith+
    then show ?thesis by (simp add: w_def)
  qed
qed

text \<open>The window does not show the byte of a column a second time.\<close>

definition no_wrap :: "maze_state \<Rightarrow> modex \<Rightarrow> int \<Rightarrow> bool" where
  "no_wrap m x p \<longleftrightarrow> (p = 0 \<longrightarrow> show_x x + 320 \<le> 24 * maze_x_dim m) \<and> (p = 2 * maze_x_dim m \<longrightarrow> 12 \<le> show_x x)"

lemma no_wrap_index:
  assumes "dims_ok m" "win_in m x" "visible x u v" "in_view m p q" "no_wrap m x p" "MAZE_INDEX m u v = MAZE_INDEX m p q"
  shows "u = p \<and> v = q"
proof -
  obtain px where px: "show_x x \<le> px" "px < show_x x + 320" "px div 12 = u"
    using assms(3) by (auto simp: visible_def in_win_def)
  have b: "12 * u \<le> px" "px < 12 * u + 12" using px(3) by auto
  have "1 \<le> maze_x_dim m" using assms(1) by (simp add: dims_ok_def)
  then show ?thesis
    using same_index[OF assms(1) visible_in_view[OF assms(2,3)] assms(4,6)] assms(5) px(1,2) b
    by (auto simp: no_wrap_def)
qed

lemma block_set_cell:
  assumes "dims_ok m" "win_in m x" "in_view m p q" "no_wrap m x p" "wall b = wall (cell m p q)"
    and "visible x u v" "\<not> (u = p \<and> v = q)"
  shows "find_block u v (set_cell p q b m) = find_block u v m"
proof (rule find_block_cong)
  have "MAZE_INDEX m u v \<noteq> MAZE_INDEX m p q" using no_wrap_index[OF assms(1,2,6,3,4)] assms(7) by blast
  then show "mget (set_cell p q b m) u v = mget m u v" by (simp add: mget_set_cell[OF assms(1,3)])
  have c: "mget m p q = Some (cell m p q)" by (rule mget_cell[OF assms(1,3)])
  show "map_option wall (mget (set_cell p q b m) p' q') = map_option wall (mget m p' q')" for p' q'
  proof (cases "MAZE_INDEX m p' q' = MAZE_INDEX m p q")
    case True
    then have "mget m p' q' = Some (cell m p q)" using c by (simp add: mget_def)
    then show ?thesis using True assms(5) by (simp add: mget_set_cell[OF assms(1,3)])
  next
    case False
    then show ?thesis by (simp add: mget_set_cell[OF assms(1,3)])
  qed
qed simp

section \<open>Drawing lattice points\<close>

lemma draw_blocks_append:
  "draw_blocks W (ds @ es) x = (case draw_blocks W ds x of None \<Rightarrow> None | Some x1 \<Rightarrow> draw_blocks W es x1)"
proof (induction ds arbitrary: x)
  case (Cons d ds)
  obtain px py n where "d = (px, py, n)" by (cases d)
  then show ?case using Cons by (cases "draw_full_block px py (block_bytes W n) x") simp_all
qed simp

lemma block_bytes_pixel:
  assumes "12 * u \<le> x" "x < 12 * u + 12"
  shows "block_bytes W n (12 * (y - v * 12) + (x - u * 12)) = blocks W n (y - v * 12) (x mod 12)"
proof -
  have "x = 12 * u + (x - u * 12)" by simp
  then have "x mod 12 = x - u * 12" using assms by (metis grid_index(1) add_increasing2 diff_ge_0_iff_ge diff_less_eq mult.commute add.commute)
  moreover have "(12 * (y - v * 12) + (x - u * 12)) div 12 = y - v * 12" "(12 * (y - v * 12) + (x - u * 12)) mod 12 = x - u * 12"
    by (rule grid_index; use assms in simp)+
  ultimately show ?thesis by (simp add: block_bytes_def)
qed

definition points :: "(int \<Rightarrow> int \<Rightarrow> nat) \<Rightarrow> (int \<times> int) list \<Rightarrow> (int \<times> int \<times> nat) list" where
  "points F P = map (\<lambda>(u, v). (u * 12, v * 12, F u v)) P"

lemma draw_points:
  assumes "view_ok x"
  shows "\<exists>x'. draw_blocks W (points F P) x = Some x' \<and>
    painted (\<lambda>px py. if (px div 12, py div 12) \<in> set P
      then Some (blocks W (F (px div 12) (py div 12)) (py mod 12) (px mod 12)) else None) x x'"
  using assms
proof (induction P arbitrary: x)
  case Nil
  then show ?case using painted_refl by (simp add: points_def)
next
  case (Cons p P)
  obtain u v where p: "p = (u, v)" by (cases p)
  obtain x1 where x1: "draw_full_block (u * 12) (v * 12) (block_bytes W (F u v)) x = Some x1"
    and p1: "painted (\<lambda>a b. if u * 12 \<le> a \<and> a < u * 12 + 12 \<and> v * 12 \<le> b \<and> b < v * 12 + 12
      then Some (block_bytes W (F u v) (12 * (b - v * 12) + (a - u * 12))) else None) x x1"
    using draw_full_block_paints[OF Cons.prems] by blast
  obtain x2 where x2: "draw_blocks W (points F P) x1 = Some x2"
    and p2: "painted (\<lambda>px py. if (px div 12, py div 12) \<in> set P
      then Some (blocks W (F (px div 12) (py div 12)) (py mod 12) (px mod 12)) else None) x1 x2"
    using Cons.IH[of x1] Cons.prems painted_fields(5)[OF p1] by blast
  have "painted (\<lambda>px py. if (px div 12, py div 12) \<in> set (p # P)
      then Some (blocks W (F (px div 12) (py div 12)) (py mod 12) (px mod 12)) else None) x x2"
  proof (rule painted_cong[OF painted_trans[OF p1 p2]])
    fix a b
    have d: "(u * 12 \<le> a \<and> a < u * 12 + 12) = (a div 12 = u)" "(v * 12 \<le> b \<and> b < v * 12 + 12) = (b div 12 = v)" by auto
    have "block_bytes W (F u v) (12 * (b - v * 12) + (a - u * 12)) = blocks W (F u v) (b mod 12) (a mod 12)"
      if "a div 12 = u" "b div 12 = v"
      using that block_bytes_pixel[of u a W "F u v" b v] by (auto simp: minus_div_mult_eq_mod)
    then show "(case if (a div 12, b div 12) \<in> set P then Some (blocks W (F (a div 12) (b div 12)) (b mod 12) (a mod 12)) else None
        of Some c \<Rightarrow> Some c
        | None \<Rightarrow> if u * 12 \<le> a \<and> a < u * 12 + 12 \<and> v * 12 \<le> b \<and> b < v * 12 + 12
            then Some (block_bytes W (F u v) (12 * (b - v * 12) + (a - u * 12))) else None) =
      (if (a div 12, b div 12) \<in> set (p # P) then Some (blocks W (F (a div 12) (b div 12)) (b mod 12) (a mod 12)) else None)"
      using d by (auto simp: p)
  qed
  then show ?case using x1 x2 by (simp add: p points_def)
qed

section \<open>Changes of the maze that keep the picture\<close>

text \<open>The walls and the exit stay, and no fruit is added.\<close>

definition kept :: "maze_state \<Rightarrow> maze_state \<Rightarrow> bool" where
  "kept m m1 \<longleftrightarrow> maze_x_dim m1 = maze_x_dim m \<and> maze_y_dim m1 = maze_y_dim m \<and> exit_x m1 = exit_x m \<and> exit_y m1 = exit_y m \<and>
     length (maze m1) = length (maze m) \<and> n_fruits m1 \<le> n_fruits m \<and>
     (\<forall>i < length (maze m). maze m1 ! i AND MAZE_WALL = maze m ! i AND MAZE_WALL \<and> maze m1 ! i AND MAZE_EXIT = maze m ! i AND MAZE_EXIT)"

lemma kept_refl [simp]: "kept m m"
  by (simp add: kept_def)

lemma kept_trans: "kept m m1 \<Longrightarrow> kept m1 m2 \<Longrightarrow> kept m m2"
  by (simp add: kept_def)

lemma kept_cell:
  assumes "kept m m1" "dims_ok m" "in_view m u v"
  shows "cell m1 u v AND MAZE_WALL = cell m u v AND MAZE_WALL" "cell m1 u v AND MAZE_EXIT = cell m u v AND MAZE_EXIT"
proof -
  have "MAZE_INDEX m1 u v = MAZE_INDEX m u v" by (rule MAZE_INDEX_cong) (use assms(1) in \<open>simp add: kept_def\<close>)
  moreover have "nat (MAZE_INDEX m u v) < length (maze m)"
    using index_bounds[OF assms(2), of u v] assms(3) by (simp add: in_view_def nat_less_iff)
  ultimately show "cell m1 u v AND MAZE_WALL = cell m u v AND MAZE_WALL" "cell m1 u v AND MAZE_EXIT = cell m u v AND MAZE_EXIT"
    using assms(1) by (simp_all add: kept_def cell_def)
qed

lemma kept_set_cell:
  assumes "b AND MAZE_WALL = cell m x y AND MAZE_WALL" "b AND MAZE_EXIT = cell m x y AND MAZE_EXIT"
  shows "kept m (set_cell x y b m)"
  unfolding kept_def
proof (intro conjI allI impI)
  fix i assume "i < length (maze m)"
  then show "maze (set_cell x y b m) ! i AND MAZE_WALL = maze m ! i AND MAZE_WALL"
    "maze (set_cell x y b m) ! i AND MAZE_EXIT = maze m ! i AND MAZE_EXIT"
    using assms by (cases "i = nat (MAZE_INDEX m x y)"; simp add: set_cell_def cell_def)+
qed simp_all

lemma kept_cong: "kept m m1 \<Longrightarrow> maze m2 = maze m1 \<Longrightarrow> maze_x_dim m2 = maze_x_dim m1 \<Longrightarrow> maze_y_dim m2 = maze_y_dim m1 \<Longrightarrow>
    exit_x m2 = exit_x m1 \<Longrightarrow> exit_y m2 = exit_y m1 \<Longrightarrow> n_fruits m2 \<le> n_fruits m1 \<Longrightarrow> kept m m2"
  by (simp add: kept_def)

lemma kept_dims: "kept m m1 \<Longrightarrow> dims_ok m1 = dims_ok m" "kept m m1 \<Longrightarrow> in_view m1 u v = in_view m u v"
  "kept m m1 \<Longrightarrow> win_in m1 x = win_in m x" "kept m m1 \<Longrightarrow> no_wrap m1 x p = no_wrap m x p"
  by (simp_all add: kept_def dims_ok_def in_view_def win_in_def no_wrap_def)

text \<open>The blocks drawn so far bring the window \<^verbatim>\<open>x\<close> to the picture of the maze.\<close>

definition synced :: "world \<Rightarrow> modex \<Rightarrow> maze_state \<Rightarrow> bool" where
  "synced W x m \<longleftrightarrow> (\<exists>x' g. draw_blocks W (drawn m) x = Some x' \<and> painted g x x' \<and> displays W m x')"

lemma in_win_visible: "in_win x px py \<Longrightarrow> visible x (px div 12) (py div 12)"
  by (auto simp: visible_def)

lemma synced_step:
  assumes "synced W x m" "view_ok x" "drawn m1 = drawn m @ points (block_no m1) P"
    and "\<And>u v. visible x u v \<Longrightarrow> (u, v) \<notin> set P \<Longrightarrow> find_block u v m1 = find_block u v m"
  shows "synced W x m1"
proof -
  obtain x1 g where x1: "draw_blocks W (drawn m) x = Some x1" "painted g x x1" "displays W m x1"
    using assms(1) by (auto simp: synced_def)
  note f = painted_fields[OF x1(2)]
  obtain x2 where x2: "draw_blocks W (points (block_no m1) P) x1 = Some x2"
    and p2: "painted (\<lambda>px py. if (px div 12, py div 12) \<in> set P
      then Some (blocks W (block_no m1 (px div 12) (py div 12)) (py mod 12) (px mod 12)) else None) x1 x2"
    using draw_points[of x1] assms(2) f(5) by blast
  have "draw_blocks W (drawn m1) x = Some x2" by (simp add: assms(3) draw_blocks_append x1(1) x2)
  moreover have "displays W m1 x2"
    unfolding displays_def
  proof (intro allI impI)
    fix px py assume "in_win x2 px py"
    then have w: "in_win x1 px py" "in_win x px py" using painted_fields(6)[OF p2] f(6) by simp_all
    have "block_no m1 (px div 12) (py div 12) = block_no m (px div 12) (py div 12)" if "(px div 12, py div 12) \<notin> set P"
      using assms(4)[OF in_win_visible[OF w(2)] that] by (simp add: block_no_def)
    then show "pixel x2 px py = maze_pixel W m1 px py"
      using p2 w(1) x1(3) by (auto simp: painted_def displays_def maze_pixel_def)
  qed
  ultimately show ?thesis using painted_trans[OF x1(2) p2] unfolding synced_def by blast
qed

lemma redraw_points:
  assumes "dims_ok m" "in_view m u v"
  shows "redraw u v m = Some (m\<lparr>drawn := drawn m @ points (block_no m) [(u, v)]\<rparr>)"
  using redraw_fields[OF assms] by (auto simp: points_def block_no_def)

lemma find_block_drawn [simp]: "find_block u v (m\<lparr>drawn := ds\<rparr>) = find_block u v m"
  by (simp add: find_block_def mget_def MAZE_INDEX_def cong: if_cong)

lemma block_no_drawn [simp]: "block_no (m\<lparr>drawn := ds\<rparr>) = block_no m"
  by (simp add: block_no_def fun_eq_iff)

lemma drawn_upd [simp]: "dims_ok (m\<lparr>drawn := ds\<rparr>) = dims_ok m" "in_view (m\<lparr>drawn := ds\<rparr>) u v = in_view m u v"
  "fruit_cells (m\<lparr>drawn := ds\<rparr>) = fruit_cells m" "fruits_ok (m\<lparr>drawn := ds\<rparr>) = fruits_ok m"
  "kept m1 (m\<lparr>drawn := ds\<rparr>) = kept m1 m" "kept (m\<lparr>drawn := ds\<rparr>) m1 = kept m m1" "win_in (m\<lparr>drawn := ds\<rparr>) x = win_in m x"
  "no_wrap (m\<lparr>drawn := ds\<rparr>) x p = no_wrap m x p" "displays W (m\<lparr>drawn := ds\<rparr>) x = displays W m x"
  by (simp_all add: fruits_ok_def dims_ok_def fruit_cells_def kept_def in_view_def win_in_def no_wrap_def displays_def maze_pixel_def)

lemma reach_keeps_bits: "(b OR MAZE_REACH) AND MAZE_WALL = b AND MAZE_WALL" "(b OR MAZE_REACH) AND MAZE_EXIT = b AND MAZE_EXIT"
  "has_fruit (b OR MAZE_REACH) = has_fruit b"
  by (simp_all add: maze_bits has_fruit_def bit.conj_disj_distrib2)

text \<open>Unveiling one point.\<close>

lemma unveil_space_synced:
  assumes "fruits_ok m" "synced W x m" "view_ok x" "win_in m x" "no_wrap m x p"
  shows "\<exists>m1. unveil_space p q m = Some m1 \<and> synced W x m1 \<and> kept m m1 \<and> fruits_ok m1 \<and> n_fruits m1 = n_fruits m"
proof (cases "in_view m p q")
  case False
  then show ?thesis using assms by (auto simp: unveil_space_def in_view_def)
next
  case True
  have ok: "dims_ok m" using assms(1) by (simp add: fruits_ok_def)
  note c = mget_cell[OF ok True]
  show ?thesis
  proof (cases "cell m p q AND MAZE_REACH \<noteq> 0")
    case True
    then show ?thesis using assms c by (auto simp: unveil_space_def)
  next
    case False
    define b where "b = cell m p q OR MAZE_REACH"
    define m1 where "m1 = set_cell p q b m"
    define m2 where "m2 = m1\<lparr>drawn := drawn m1 @ points (block_no m1) [(p, q)]\<rparr>"
    have k: "kept m m1" unfolding m1_def b_def by (rule kept_set_cell) (simp_all add: reach_keeps_bits)
    have "in_view m p q" using \<open>in_view m p q\<close> .
    then have r: "redraw p q m1 = Some m2"
      unfolding m2_def by (intro redraw_points) (simp_all add: kept_dims(1,2)[OF k] ok)
    have "unveil_space p q m = Some m2"
      using True False c mput_cell[OF ok True] r
      by (simp add: unveil_space_def in_view_def b_def[symmetric] m1_def[symmetric] m2_def)
    moreover have "synced W x m2"
    proof (rule synced_step[OF assms(2,3)])
      show "drawn m2 = drawn m @ points (block_no m2) [(p, q)]" by (simp add: m2_def) (simp add: m1_def)
      show "find_block u v m2 = find_block u v m" if "visible x u v" "(u, v) \<notin> set [(p, q)]" for u v
        using block_set_cell[OF ok assms(4) True assms(5) _ that(1), of b] that(2)
        by (simp add: m2_def m1_def b_def wall_def reach_keeps_bits)
    qed
    moreover have "fruits_ok m2"
      using fruit_cells_set_cell[OF ok True, of b] assms(1) by (simp add: m2_def m1_def fruits_ok_def b_def reach_keeps_bits)
    ultimately show ?thesis using k by (simp add: m2_def) (simp add: m1_def)
  qed
qed

lemma unveil_all_synced:
  assumes "fruits_ok m" "synced W x m" "view_ok x" "win_in m x" "\<And>p q. (p, q) \<in> set ps \<Longrightarrow> no_wrap m x p"
  shows "\<exists>m1. unveil_all ps m = Some m1 \<and> synced W x m1 \<and> kept m m1 \<and> fruits_ok m1 \<and> n_fruits m1 = n_fruits m"
  using assms
proof (induction ps arbitrary: m)
  case (Cons pq ps)
  obtain p q where pq: "pq = (p, q)" by (cases pq)
  obtain m1 where m1: "unveil_space p q m = Some m1" "synced W x m1" "kept m m1" "fruits_ok m1" "n_fruits m1 = n_fruits m"
    using unveil_space_synced[OF Cons.prems(1-4), of p q] Cons.prems(5)[of p q] pq by auto
  obtain m2 where m2: "unveil_all ps m1 = Some m2" "synced W x m2" "kept m1 m2" "fruits_ok m2" "n_fruits m2 = n_fruits m1"
    using Cons.IH[OF m1(4,2) Cons.prems(3)] Cons.prems(4,5) kept_dims(3,4)[OF m1(3)] by auto
  show ?case using m1 m2 kept_trans[OF m1(3) m2(3)] by (auto simp: pq)
qed auto

text \<open>Eating a fruit: the point and, after the last fruit, the exit are drawn.\<close>

definition exit_unique :: "maze_state \<Rightarrow> bool" where
  "exit_unique m \<longleftrightarrow> (\<forall>u v. in_view m u v \<and> cell m u v AND MAZE_EXIT \<noteq> 0 \<longrightarrow> u = exit_x m \<and> v = exit_y m)"

lemma exit_unique_kept:
  assumes "kept m m1" "dims_ok m" "exit_unique m"
  shows "exit_unique m1"
proof -
  have "exit_x m1 = exit_x m" "exit_y m1 = exit_y m" using assms(1) by (simp_all add: kept_def)
  then show ?thesis
    using assms(3) kept_cell(2)[OF assms(1,2)] kept_dims(2)[OF assms(1)] unfolding exit_unique_def by metis
qed

lemma find_block_count:
  assumes "dims_ok m" "in_view m u v" "(k = 0) = (n_fruits m = 0) \<or> cell m u v AND MAZE_EXIT = 0"
  shows "find_block u v (m\<lparr>n_fruits := k\<rparr>) = find_block u v m"
  by (rule find_block_cong) (use assms mget_cell[OF assms(1,2)] in \<open>auto simp: mget_def MAZE_INDEX_def\<close>)

lemma check_for_fruit_synced:
  assumes "fruits_ok m" "exit_unique m" "synced W x m" "view_ok x" "win_in m x"
    and "1 \<le> p" "p < 2 * maze_x_dim m" "0 \<le> q" "q < 2 * maze_y_dim m"
  shows "\<exists>r m1. check_for_fruit p q m = Some (r, m1) \<and> synced W x m1 \<and> kept m m1 \<and> fruits_ok m1"
proof -
  have ok: "dims_ok m" using assms(1) by (simp add: fruits_ok_def)
  have v: "in_view m p q" and nw: "no_wrap m x p" using assms(6-9) by (simp_all add: in_view_def no_wrap_def)
  define b where "b = cell m p q"
  note c = mget_cell[OF ok v, folded b_def]
  show ?thesis
  proof (cases "has_fruit b")
    case False
    then show ?thesis using assms c by (auto simp: check_for_fruit_def Let_def fruit_number_0)
  next
    case True
    define m1 where "m1 = set_cell p q (b AND NOT MAZE_FRUIT) m"
    define k where "k = n_fruits m - 1"
    define m2 where "m2 = m1\<lparr>n_fruits := k\<rparr>"
    define P where "P = (if k = 0 then [(exit_x m, exit_y m)] else []) @ [(p, q)]"
    define m3 where "m3 = m2\<lparr>drawn := drawn m @ points (block_no m2) P\<rparr>"
    have count: "fruit_cells m1 + 1 = fruit_cells m"
      using fruit_cells_set_cell[OF ok v, of "b AND NOT MAZE_FRUIT"] True eaten_bits(1)[of b]
      by (simp add: m1_def b_def)
    then have n1: "n_fruits m \<ge> 1" "k = int (fruit_cells m1)" using assms(1) by (simp_all add: fruits_ok_def k_def)
    have wall_b: "(b AND NOT MAZE_FRUIT) AND MAZE_WALL = b AND MAZE_WALL" by (simp add: maze_bits and.assoc)
    have k1: "kept m m1" unfolding m1_def b_def by (rule kept_set_cell) (simp_all add: wall_b[unfolded b_def] eaten_bits(2))
    have k2: "kept m m2" by (rule kept_cong[OF k1]) (simp_all add: m2_def m1_def k_def)
    have d2: "dims_ok m2" "in_view m2 u v = in_view m u v" for u v using kept_dims(1,2)[OF k2] ok by simp_all
    have ex: "in_view m (exit_x m) (exit_y m)" using assms(1) by (simp add: fruits_ok_def in_view_def)
    have ef: "exit_x m2 = exit_x m" "exit_y m2 = exit_y m" "n_fruits m2 = k" "drawn m2 = drawn m"
      by (simp_all add: m2_def m1_def)
    have r1: "redraw (exit_x m) (exit_y m) m2 = Some (m2\<lparr>drawn := drawn m2 @ points (block_no m2) [(exit_x m, exit_y m)]\<rparr>)"
      by (rule redraw_points) (simp_all add: d2 ex)
    have r2: "redraw p q (m2\<lparr>drawn := ds\<rparr>) = Some (m2\<lparr>drawn := ds @ points (block_no m2) [(p, q)]\<rparr>)" for ds
      using redraw_points[of "m2\<lparr>drawn := ds\<rparr>" p q] d2 v by simp
    have r2': "redraw p q m2 = Some (m2\<lparr>drawn := drawn m @ points (block_no m2) [(p, q)]\<rparr>)"
      using redraw_points[OF d2(1), of p q] d2(2) v by (simp add: ef)
    have "check_for_fruit p q m = do {
        s3 \<leftarrow> (if k = 0 then redraw (exit_x m) (exit_y m) m2 else Some m2); s4 \<leftarrow> redraw p q s3; Some (fruit_number b, s4) }"
      using assms(6-9) True c mput_cell[OF ok v]
      by (simp add: check_for_fruit_def Let_def fruit_number_0) (simp add: m2_def m1_def k_def)
    then have run: "check_for_fruit p q m = Some (fruit_number b, m3)"
      by (cases "k = 0") (simp_all add: r1 r2 r2' ef m3_def P_def points_def)
    have "synced W x m3"
    proof (rule synced_step[OF assms(3,4)])
      show "drawn m3 = drawn m @ points (block_no m3) P" by (simp add: m3_def)
      fix u v' assume vis: "visible x u v'" and out: "(u, v') \<notin> set P"
      have uv: "in_view m u v'" by (rule visible_in_view[OF assms(5) vis])
      have "find_block u v' m1 = find_block u v' m"
        unfolding m1_def using out by (intro block_set_cell[OF ok assms(5) v nw _ vis]) (auto simp: wall_def b_def[symmetric] wall_b P_def)
      moreover have "find_block u v' m2 = find_block u v' m1"
        unfolding m2_def
      proof (rule find_block_count)
        show "dims_ok m1" "in_view m1 u v'" using kept_dims(1,2)[OF k1] ok uv by simp_all
        have "cell m1 u v' AND MAZE_EXIT = 0" if "k = 0"
          using kept_cell(2)[OF k1 ok uv] assms(2) uv out that by (auto simp: exit_unique_def P_def)
        moreover have "n_fruits m1 = n_fruits m" by (simp add: m1_def)
        ultimately show "(k = 0) = (n_fruits m1 = 0) \<or> cell m1 u v' AND MAZE_EXIT = 0" using n1(1) by auto
      qed
      ultimately show "find_block u v' m3 = find_block u v' m" by (simp add: m3_def)
    qed
    moreover have "fruits_ok m3"
      using assms(1) n1(2) d2(1) by (simp add: m3_def fruits_ok_def ef) (simp add: m2_def m1_def fruit_cells_def)
    ultimately show ?thesis using run k2 by (auto simp: m3_def)
  qed
qed

section \<open>Visiting a square\<close>

lemma around_columns: "(p, q) \<in> set (around a b) \<Longrightarrow> a - 2 \<le> p \<and> p \<le> a + 2"
  by (auto simp: around_def)

lemma visit_synced:
  assumes "fruits_ok m" "exit_unique m" "synced W x m" "view_ok x" "win_in m x"
    and "1 \<le> a" "a < 2 * maze_x_dim m" "1 \<le> b" "b < 2 * maze_y_dim m"
    and "\<And>p. a - 2 \<le> p \<Longrightarrow> p \<le> a + 2 \<Longrightarrow> no_wrap m x p"
  shows "\<exists>won m1. visit a b m = Some (won, m1) \<and> synced W x m1 \<and> kept m m1 \<and> fruits_ok m1 \<and>
    (won \<longleftrightarrow> n_fruits m1 = 0 \<and> cell m1 a b AND MAZE_EXIT \<noteq> 0)"
proof -
  obtain r m1 where m1: "check_for_fruit a b m = Some (r, m1)" "synced W x m1" "kept m m1" "fruits_ok m1"
    using check_for_fruit_synced[OF assms(1-7) _ assms(9)] assms(8) by auto
  obtain m2 where m2: "unveil_all (around a b) m1 = Some m2" "synced W x m2" "kept m1 m2" "fruits_ok m2"
    using unveil_all_synced[OF m1(4,2) assms(4), of "around a b"] assms(5,10) around_columns kept_dims(3,4)[OF m1(3)] by auto
  have k: "kept m m2" by (rule kept_trans[OF m1(3) m2(3)])
  have d: "dims_ok m2" using m2(4) by (simp add: fruits_ok_def)
  have x: "maze_x_dim m2 = maze_x_dim m" "maze_y_dim m2 = maze_y_dim m" using k by (simp_all add: kept_def)
  have v: "in_view m2 a b" using assms(6-9) x by (simp add: in_view_def)
  have "check_for_win a b m2 = Some (n_fruits m2 = 0 \<and> cell m2 a b AND MAZE_EXIT \<noteq> 0)"
    using assms(6-9) x mget_cell[OF d v] by (simp add: check_for_win_def)
  then show ?thesis using m1(1) m2 k by (simp add: visit_def)
qed

lemma synced_start: "displays W m x \<Longrightarrow> synced W x (m\<lparr>drawn := []\<rparr>)"
  using painted_refl[of x] by (auto simp: synced_def)

lemma on_maze_visit:
  assumes "fruits_ok (mz g)" "exit_unique (mz g)" "displays W (mz g) (mx g)" "view_ok (mx g)" "win_in (mz g) (mx g)"
    and "1 \<le> a" "a < 2 * maze_x_dim (mz g)" "1 \<le> b" "b < 2 * maze_y_dim (mz g)"
    and "\<And>p. a - 2 \<le> p \<Longrightarrow> p \<le> a + 2 \<Longrightarrow> no_wrap (mz g) (mx g) p"
  shows "\<exists>won m1 x1 h. on_maze W (visit a b) g = Some (won, g\<lparr>mz := m1, mx := x1\<rparr>) \<and> painted h (mx g) x1 \<and>
    displays W m1 x1 \<and> kept (mz g) m1 \<and> fruits_ok m1 \<and> (won \<longleftrightarrow> n_fruits m1 = 0 \<and> cell m1 a b AND MAZE_EXIT \<noteq> 0)"
proof -
  let ?m = "(mz g)\<lparr>drawn := []\<rparr>"
  have e: "exit_unique ?m" using assms(2) by (simp add: exit_unique_def)
  obtain won m1 where m1: "visit a b ?m = Some (won, m1)" "synced W (mx g) m1" "kept ?m m1" "fruits_ok m1"
    "won \<longleftrightarrow> n_fruits m1 = 0 \<and> cell m1 a b AND MAZE_EXIT \<noteq> 0"
    using visit_synced[of ?m W "mx g" a b] assms synced_start[OF assms(3)] e by auto
  obtain x1 h where x1: "draw_blocks W (drawn m1) (mx g) = Some x1" "painted h (mx g) x1" "displays W m1 x1"
    using m1(2) by (auto simp: synced_def)
  have "on_maze W (visit a b) g = Some (won, g\<lparr>mz := m1\<lparr>drawn := []\<rparr>, mx := x1\<rparr>)"
    using m1(1) x1(1) by (simp add: on_maze_def)
  moreover have "displays W (m1\<lparr>drawn := []\<rparr>) x1" "kept (mz g) (m1\<lparr>drawn := []\<rparr>)" "fruits_ok (m1\<lparr>drawn := []\<rparr>)"
    "won \<longleftrightarrow> n_fruits (m1\<lparr>drawn := []\<rparr>) = 0 \<and> cell (m1\<lparr>drawn := []\<rparr>) a b AND MAZE_EXIT \<noteq> 0"
    using x1(3) m1(3-5) by simp_all
  ultimately show ?thesis using x1(2) by blast
qed

section \<open>Scrolling\<close>

lemma horiz_buffer:
  assumes "dims_ok m" "0 \<le> x" "0 \<le> y" "x + 320 \<le> 12 * (2 * maze_x_dim m + 1)" "y < 12 * (2 * maze_y_dim m + 1)"
  shows "\<exists>h. fill_horiz_buffer (blocks W) x y m = Some h \<and> length h = 320 \<and> (\<forall>i < 320. h ! i = maze_pixel W m (x + int i) y)"
proof -
  have xb: "x div 12 \<le> 2 * maze_x_dim m" "y div 12 \<le> 2 * maze_y_dim m" using assms(4,5) by (simp_all add: block_le)
  have shift: "(a + b) div 12 = a div 12 + (a mod 12 + b) div 12" for a b :: int
    by (subst div_mult_mod_eq[of a 12, symmetric]) (simp only: add.assoc div_mult_self3 zero_neq_numeral simp_thms)
  have "x = 12 * (x div 12) + x mod 12" by simp
  then have "horiz_loop (blocks W) m 320 (x div 12) (y div 12) (x mod 12) (y mod 12) 0 =
      Some (line_of (\<lambda>k p. blocks W (the (find_block (x div 12 + k) (y div 12) m)) (y mod 12) p) (x mod 12) 320)"
    using horiz_loop_line[of m "y div 12" "x div 12" "x mod 12" 0 320 "blocks W" "y mod 12"] assms xb by simp
  then show ?thesis
    using pixel_block assms(2,3)
    by (simp add: fill_horiz_buffer_def BLOCK_X_DIM_def BLOCK_Y_DIM_def Let_def maze_pixel_def block_no_def
        shift[of x] mod_add_left_eq)
qed

lemma vert_buffer:
  assumes "dims_ok m" "0 \<le> x" "0 \<le> y" "x < 12 * (2 * maze_x_dim m + 1)" "y + 182 \<le> 12 * (2 * maze_y_dim m + 1)"
  shows "\<exists>h. fill_vert_buffer (blocks W) x y m = Some h \<and> length h = 182 \<and> (\<forall>i < 182. h ! i = maze_pixel W m x (y + int i))"
proof -
  have xb: "x div 12 \<le> 2 * maze_x_dim m" "y div 12 \<le> 2 * maze_y_dim m" using assms(4,5) by (simp_all add: block_le)
  have shift: "(a + b) div 12 = a div 12 + (a mod 12 + b) div 12" for a b :: int
    by (subst div_mult_mod_eq[of a 12, symmetric]) (simp only: add.assoc div_mult_self3 zero_neq_numeral simp_thms)
  have "y = 12 * (y div 12) + y mod 12" by simp
  then have "vert_loop (blocks W) m 182 (x div 12) (y div 12) (x mod 12) (y mod 12) 0 =
      Some (line_of (\<lambda>k p. blocks W (the (find_block (x div 12) (y div 12 + k) m)) p (x mod 12)) (y mod 12) 182)"
    using vert_loop_line[of m "x div 12" "y div 12" "y mod 12" 0 182 "blocks W" "x mod 12"] assms xb by simp
  then show ?thesis
    using pixel_block assms(2,3)
    by (simp add: fill_vert_buffer_def BLOCK_X_DIM_def BLOCK_Y_DIM_def Let_def maze_pixel_def block_no_def
        shift[of y] mod_add_left_eq)
qed

lemma draw_horiz_maze:
  assumes "view_ok x" "dims_ok m" "win_in m x" "0 \<le> j" "j < 182"
  shows "\<exists>x'. draw_horiz_line (\<lambda>x y. fill_horiz_buffer (blocks W) x y m) j x = Some (0, x') \<and>
    painted (\<lambda>a b. if b = j + show_y x then Some (maze_pixel W m a b) else None) x x'"
proof -
  obtain h where h: "fill_horiz_buffer (blocks W) (show_x x) (j + show_y x) m = Some h" "length h = 320"
    "\<forall>i < 320. h ! i = maze_pixel W m (show_x x + int i) (j + show_y x)"
    using horiz_buffer[OF assms(2), of "show_x x" "j + show_y x" W] assms(3-5) by (auto simp: win_in_def)
  obtain x' where x': "draw_horiz_line (\<lambda>x y. fill_horiz_buffer (blocks W) x y m) j x = Some (0, x')"
    "painted (row h (show_x x) (j + show_y x)) x x'"
    using draw_lines_paint[OF assms(1), of j "\<lambda>x y. fill_horiz_buffer (blocks W) x y m" h 0 "\<lambda>_ _. None" "[]"] h assms(4,5) by auto
  have "painted (\<lambda>a b. if b = j + show_y x then Some (maze_pixel W m a b) else None) x x'"
  proof (rule painted_cong[OF x'(2)])
    fix a b assume "in_win x a b"
    then have "0 \<le> a - show_x x" "nat (a - show_x x) < 320" by (simp_all add: in_win_def nat_less_iff)
    moreover from this have "h ! nat (a - show_x x) = maze_pixel W m a (j + show_y x)"
      using h(3)[rule_format, of "nat (a - show_x x)"] by simp
    ultimately show "row h (show_x x) (j + show_y x) a b = (if b = j + show_y x then Some (maze_pixel W m a b) else None)"
      using h(2) by (simp add: row_def nat_less_iff)
  qed
  then show ?thesis using x'(1) by blast
qed

lemma draw_vert_maze:
  assumes "view_ok x" "dims_ok m" "win_in m x" "0 \<le> i" "i < 320"
  shows "\<exists>x'. draw_vert_line (\<lambda>x y. fill_vert_buffer (blocks W) x y m) i x = Some (0, x') \<and>
    painted (\<lambda>a b. if a = i + show_x x then Some (maze_pixel W m a b) else None) x x'"
proof -
  obtain h where h: "fill_vert_buffer (blocks W) (i + show_x x) (show_y x) m = Some h" "length h = 182"
    "\<forall>j < 182. h ! j = maze_pixel W m (i + show_x x) (show_y x + int j)"
    using vert_buffer[OF assms(2), of "i + show_x x" "show_y x" W] assms(3-5) by (auto simp: win_in_def)
  obtain x' where x': "draw_vert_line (\<lambda>x y. fill_vert_buffer (blocks W) x y m) i x = Some (0, x')"
    "painted (col h (i + show_x x) (show_y x)) x x'"
    using draw_lines_paint[OF assms(1), of 0 "\<lambda>_ _. None" "[]" i "\<lambda>x y. fill_vert_buffer (blocks W) x y m" h] h assms(4,5) by auto
  have "painted (\<lambda>a b. if a = i + show_x x then Some (maze_pixel W m a b) else None) x x'"
  proof (rule painted_cong[OF x'(2)])
    fix a b assume "in_win x a b"
    then have "0 \<le> b - show_y x" "nat (b - show_y x) < 182" by (simp_all add: in_win_def nat_less_iff)
    moreover from this have "h ! nat (b - show_y x) = maze_pixel W m (i + show_x x) b"
      using h(3)[rule_format, of "nat (b - show_y x)"] by simp
    ultimately show "col h (i + show_x x) (show_y x) a b = (if a = i + show_x x then Some (maze_pixel W m a b) else None)"
      using h(2) by (simp add: col_def nat_less_iff)
  qed
  then show ?thesis using x'(1) by blast
qed

text \<open>What a repaint has to achieve.\<close>

lemma displays_painted:
  assumes "painted g x x'"
    and "\<And>a b. in_win x a b \<Longrightarrow> (case g a b of Some c \<Rightarrow> c | None \<Rightarrow> pixel x a b) = maze_pixel W m a b"
  shows "displays W m x'"
  using assms painted_fields(6)[OF assms(1)] by (auto simp: displays_def painted_def)

text \<open>Scrolling: the new window is painted where it was not visible before.\<close>

lemma scroll_displays:
  assumes "view_ok x" "displays W m x" "set_view_window nx ny x = Some x1" "painted g x1 x2"
    and "\<And>a b. in_win x1 a b \<Longrightarrow> g a b = None \<Longrightarrow> in_win x a b"
    and "\<And>a b c. g a b = Some c \<Longrightarrow> c = maze_pixel W m a b"
  shows "displays W m x2"
proof (rule displays_painted[OF assms(4)])
  obtain x1' where "set_view_window nx ny x = Some x1'"
    "\<forall>a b. in_win x a b \<and> in_win x1' a b \<longrightarrow> pixel x1' a b = pixel x a b"
    using set_view_window_spec[OF assms(1), of nx ny] by blast
  then have old: "in_win x a b \<Longrightarrow> in_win x1 a b \<Longrightarrow> pixel x1 a b = pixel x a b" for a b using assms(3) by simp
  fix a b assume w: "in_win x1 a b"
  show "(case g a b of Some c \<Rightarrow> c | None \<Rightarrow> pixel x1 a b) = maze_pixel W m a b"
    using old[OF assms(5)[OF w] w] assms(2,6) assms(5)[OF w] by (auto simp: displays_def split: option.splits)
qed

section \<open>Showing the player\<close>

text \<open>The picture with the player at (px, py).\<close>

definition player_pixel :: "world \<Rightarrow> game \<Rightarrow> int \<Rightarrow> int \<Rightarrow> byte" where
  "player_pixel W g x y =
    (let i = x - play_x g; j = y - play_y g
     in if 0 \<le> i \<and> i < 12 \<and> 0 \<le> j \<and> j < 12 \<and> blocks W (get_player_mask (last_dir g)) j i = 1
        then blocks W (get_player_block (last_dir g)) j i else maze_pixel W (mz g) x y)"

definition player_in_win :: "game \<Rightarrow> bool" where
  "player_in_win g \<longleftrightarrow> show_x (mx g) \<le> play_x g \<and> play_x g + 12 \<le> show_x (mx g) + 320 \<and>
     show_y (mx g) \<le> play_y g \<and> play_y g + 12 \<le> show_y (mx g) + 182"

text \<open>The page on the monitor shows the window's part of a picture.\<close>

definition monitor :: "modex \<Rightarrow> (int \<Rightarrow> int \<Rightarrow> byte) \<Rightarrow> bool" where
  "monitor x pic \<longleftrightarrow> display_start x = target_img x \<and>
     (\<forall>i j. 0 \<le> i \<and> i < 320 \<and> 0 \<le> j \<and> j < 182 \<longrightarrow> page_pixel x (target_img x) i j = pic (show_x x + i) (show_y x + j))"

lemma show_player_spec:
  assumes "gfx_inv (mx g)" "displays W (mz g) (mx g)" "player_in_win g" "readable (behind_build W)"
  shows "\<exists>x u. show_player W g = Some (g\<lparr>mx := x, old_value_buf := u\<rparr>) \<and> gfx_inv x \<and> displays W (mz g) x \<and>
    show_x x = show_x (mx g) \<and> show_y x = show_y (mx g) \<and> monitor x (player_pixel W g)"
proof -
  let ?px = "play_x g" and ?py = "play_y g" and ?s = "mx g"
  let ?in = "\<lambda>x y. ?px \<le> x \<and> x < ?px + 12 \<and> ?py \<le> y \<and> y < ?py + 12"
  let ?blk = "block_bytes W (get_player_block (last_dir g))" and ?msk = "block_bytes W (get_player_mask (last_dir g))"
  have ok: "view_ok ?s" "disp_page (target_img ?s)" using assms(1) by (simp_all add: gfx_inv_def)
  obtain x1 u where x1: "draw_mask_block ?px ?py ?blk ?msk (?s, old_value_buf g) = Some (x1, u)"
    and p1: "painted (\<lambda>x y. if ?in x y \<and> ?msk (12 * (y - ?py) + (x - ?px)) = 1
        then Some (?blk (12 * (y - ?py) + (x - ?px))) else None) ?s x1"
    and u: "\<forall>x y. ?in x y \<longrightarrow> u (12 * (y - ?py) + (x - ?px)) = pixel ?s x y"
    using mask_block_old[OF ok(1), of ?px ?py ?blk ?msk "old_value_buf g"] assms(3) by (auto simp: player_in_win_def)
  note f1 = painted_fields[OF p1]
  obtain x2 where x2: "show_screen (behind_build W) x1 = Some x2" "display_start x2 = target_img x2" "disp_page (target_img x2)"
    "\<forall>x y. 0 \<le> x \<and> x < 320 \<and> 0 \<le> y \<and> y < 182 \<longrightarrow> page_pixel x2 (target_img x2) x y = pixel x1 (show_x x1 + x) (show_y x1 + y)"
    "build x2 = build x1" "show_x x2 = show_x x1" "show_y x2 = show_y x1" "img3 x2 = img3 x1" "img3_off x2 = img3_off x1"
    using show_screen_spec[of x1 "behind_build W"] ok f1(5,9) assms(4) by auto
  have s2: "view_ok x2" "in_win x2 a b = in_win x1 a b" "pixel x2 a b = pixel x1 a b" for a b
    using ok(1) f1(5) x2 by (simp_all add: view_ok_def in_win_def pixel_def pix_addr_def)
  obtain x3 where x3: "draw_full_block ?px ?py u x2 = Some x3"
    and p3: "painted (\<lambda>x y. if ?in x y then Some (u (12 * (y - ?py) + (x - ?px))) else None) x2 x3"
    using draw_full_block_paints[OF s2(1), of ?px ?py u] by blast
  note f3 = painted_fields[OF p3]
  have run: "show_player W g = Some (g\<lparr>mx := x3, old_value_buf := u\<rparr>)"
    using x1 x2(1) x3 by (simp add: show_player_def)
  have fence: "same_fence ?s x3"
    using f1(10) f3(10) x2(5) by (simp add: same_fence_def)
  have inv: "gfx_inv x3"
    using fence_ok_same[OF fence] assms(1) f3(5,9) s2(1) x2(3) by (simp add: gfx_inv_def)
  have "displays W (mz g) x3"
  proof (rule displays_painted[OF p3])
    fix a b assume w: "in_win x2 a b"
    then have "pixel ?s a b = maze_pixel W (mz g) a b" "in_win ?s a b" using assms(2) s2(2) f1(6) by (simp_all add: displays_def)
    moreover have "pixel x2 a b = pixel ?s a b" if "\<not> ?in a b" using p1 calculation(2) that s2(3) by (auto simp: painted_def)
    ultimately show "(case if ?in a b then Some (u (12 * (b - ?py) + (a - ?px))) else None of Some c \<Rightarrow> c | None \<Rightarrow> pixel x2 a b) =
      maze_pixel W (mz g) a b"
      using u by auto
  qed
  moreover have "monitor x3 (player_pixel W g)"
    unfolding monitor_def
  proof (intro conjI allI impI)
    have v3: "vplanes x3 = vplanes x2" "ports x3 = ports x2" "target_img x3 = target_img x2" using f3(8,9) p3 by (auto simp: painted_def)
    then show "display_start x3 = target_img x3" using x2(2) by (simp add: display_start_def)
    fix i j :: int assume ij: "0 \<le> i \<and> i < 320 \<and> 0 \<le> j \<and> j < 182"
    let ?a = "show_x ?s + i" and ?b = "show_y ?s + j"
    have w: "in_win ?s ?a ?b" using ij by (simp add: in_win_def)
    have "page_pixel x3 (target_img x3) i j = pixel x1 ?a ?b"
      using x2(4) ij f1(1,2) v3 by (simp add: page_pixel_def)
    also have "\<dots> = (if ?in ?a ?b \<and> ?msk (12 * (?b - ?py) + (?a - ?px)) = 1
        then ?blk (12 * (?b - ?py) + (?a - ?px)) else maze_pixel W (mz g) ?a ?b)"
      using p1 w assms(2) by (auto simp: painted_def displays_def)
    also have "\<dots> = player_pixel W g ?a ?b"
    proof -
      have "block_bytes W n (12 * (?b - ?py) + (?a - ?px)) = blocks W n (?b - ?py) (?a - ?px)" if "?in ?a ?b" for n
        using grid_index(1,2)[of "?a - ?px" "?b - ?py"] that by (simp add: block_bytes_def)
      then show ?thesis by (auto simp: player_pixel_def Let_def)
    qed
    finally show "page_pixel x3 (target_img x3) i j = player_pixel W g (show_x x3 + i) (show_y x3 + j)"
      using f3(1,2) x2(6,7) f1(1,2) by simp
  qed
  ultimately show ?thesis using run inv f3(1,2) x2(6,7) f1(1,2) by auto
qed

end
