(* ===== verification/MazeRun.thy ===== *)
theory MazeRun
  imports MazeScreen
begin

text \<open>The game as a whole: an invariant that every round of the clock thread keeps, with the other
  two threads stepping in between.  The window lies in the maze and shows its picture, the player is
  inside the window and stands on an open square or on the way between two.\<close>

section \<open>The invariant\<close>

definition playable :: "maze_state \<Rightarrow> bool" where
  "playable m \<longleftrightarrow> fruits_ok m \<and> exit_unique m \<and> 14 \<le> maze_x_dim m \<and> 8 \<le> maze_y_dim m \<and>
     (\<forall>u v. in_view m u v \<and> (u = 0 \<or> u = 2 * maze_x_dim m \<or> v = 0 \<or> v = 2 * maze_y_dim m) \<longrightarrow> wall (cell m u v))"

definition free :: "maze_state \<Rightarrow> int \<Rightarrow> int \<Rightarrow> bool" where
  "free m a b \<longleftrightarrow> in_view m a b \<and> \<not> wall (cell m a b)"

fun step_x :: "dir_t option \<Rightarrow> int" where
  "step_x (Some DIR_RIGHT) = 1" | "step_x (Some DIR_LEFT) = - 1" | "step_x _ = 0"

fun step_y :: "dir_t option \<Rightarrow> int" where
  "step_y (Some DIR_DOWN) = 1" | "step_y (Some DIR_UP) = - 1" | "step_y _ = 0"

text \<open>The player has \<^verbatim>\<open>k\<close> pixels to go in direction \<^verbatim>\<open>d\<close> to an open square, and comes from an open one.\<close>

definition player_at :: "maze_state \<Rightarrow> int \<Rightarrow> int \<Rightarrow> dir_t option \<Rightarrow> int \<Rightarrow> bool" where
  "player_at m px py d k \<longleftrightarrow> 0 \<le> k \<and> k \<le> 12 \<and>
     (\<exists>a b. free m a b \<and> px = 12 * a - k * step_x d \<and> py = 12 * b - k * step_y d \<and>
        (k > 0 \<longrightarrow> d \<noteq> None \<and> free m (a - step_x d) (b - step_y d)))"

definition view_at :: "game \<Rightarrow> bool" where
  "view_at g \<longleftrightarrow> show_x (mx g) = uint (map_x g) \<and> show_y (mx g) = uint (map_y g) \<and>
     6 \<le> show_x (mx g) \<and> show_x (mx g) + 326 \<le> 12 * (2 * maze_x_dim (mz g) + 1) \<and>
     6 \<le> show_y (mx g) \<and> show_y (mx g) + 188 \<le> 12 * (2 * maze_y_dim (mz g) + 1)"

definition panned :: "game \<Rightarrow> bool" where
  "panned g \<longleftrightarrow>
     (show_x (mx g) = 6 \<or> show_x (mx g) + 60 \<le> play_x g) \<and>
     (show_x (mx g) + 326 = 12 * (2 * maze_x_dim (mz g) + 1) \<or> play_x g \<le> show_x (mx g) + 248) \<and>
     (show_y (mx g) = 6 \<or> show_y (mx g) + 60 \<le> play_y g) \<and>
     (show_y (mx g) + 188 = 12 * (2 * maze_y_dim (mz g) + 1) \<or> play_y g \<le> show_y (mx g) + 110)"

text \<open>Everything but the place of the player.\<close>

definition screen_inv :: "world \<Rightarrow> game \<Rightarrow> bool" where
  "screen_inv W g \<longleftrightarrow> playable (mz g) \<and> info_x_dim g = maze_x_dim (mz g) \<and> info_y_dim g = maze_y_dim (mz g) \<and>
     gfx_inv (mx g) \<and> displays W (mz g) (mx g) \<and> view_at g"

definition game_inv :: "world \<Rightarrow> game \<Rightarrow> bool" where
  "game_inv W g \<longleftrightarrow> screen_inv W g \<and> panned g \<and> player_at (mz g) (play_x g) (play_y g) (dir g) (move_cnt g) \<and>
     move_cnt g < 12 \<and> (next_dir g = None \<longrightarrow> dir g = None)"

section \<open>Facts: unsigned coordinates\<close>

lemma uint_wi: "0 \<le> v \<Longrightarrow> v < 2 ^ 32 \<Longrightarrow> uint (word_of_int v :: u32) = v"
  by (simp add: uint_word_of_int)

lemma wi_less: "0 \<le> a \<Longrightarrow> a < 2 ^ 32 \<Longrightarrow> 0 \<le> b \<Longrightarrow> b < 2 ^ 32 \<Longrightarrow> ((word_of_int a :: u32) < word_of_int b) = (a < b)"
  by (simp only: word_less_def uint_wi)

lemma small_word:
  fixes w :: u32
  assumes "uint w < 2000"
  shows "sint w = uint w" "uint (w + 1) = uint w + 1" "0 < uint w \<Longrightarrow> uint (w - 1) = uint w - 1"
    "0 \<le> p \<Longrightarrow> p < 2000 \<Longrightarrow> 0 \<le> c \<Longrightarrow> c < 1000 \<Longrightarrow> (word_of_int p < w + word_of_int c) = (p < uint w + c)"
    "0 \<le> p \<Longrightarrow> p < 2000 \<Longrightarrow> 0 \<le> c \<Longrightarrow> c < 1000 \<Longrightarrow> 0 \<le> d \<Longrightarrow> d \<le> c \<Longrightarrow>
      (w + word_of_int c - word_of_int d < word_of_int p) = (uint w + c - d < p)"
    "0 \<le> p \<Longrightarrow> p < 2000 \<Longrightarrow> 0 \<le> c \<Longrightarrow> c < 1000 \<Longrightarrow> (w + word_of_int c < word_of_int p) = (uint w + c < p)"
    "0 \<le> p \<Longrightarrow> p < 2000 \<Longrightarrow> (word_of_int p < w) = (p < uint w)"
proof -
  obtain v where v: "w = word_of_int v" "0 \<le> v" "v < 2000" "uint w = v"
    using assms by (intro that[of "uint w"]) simp_all
  have one: "w + 1 = word_of_int (v + 1)" "w - 1 = word_of_int (v - 1)" by (simp_all add: v(1))
  show "uint (w + 1) = uint w + 1" unfolding v(4) one by (rule uint_wi) (use v(2,3) in simp_all)
  show "uint (w - 1) = uint w - 1" if "0 < uint w" unfolding v(4) one by (rule uint_wi) (use v(2-4) that in simp_all)
  show "sint w = uint w" using v(2,3) by (simp add: sint_uint v(4) signed_take_bit_int_eq_self)
  show "(word_of_int p < w + word_of_int c) = (p < uint w + c)" if "0 \<le> p" "p < 2000" "0 \<le> c" "c < 1000"
    using wi_less[of p "v + c"] that v(2,3) unfolding v(4) by (simp add: v(1))
  show "(w + word_of_int c - word_of_int d < word_of_int p) = (uint w + c - d < p)"
    if "0 \<le> p" "p < 2000" "0 \<le> c" "c < 1000" "0 \<le> d" "d \<le> c"
    using wi_less[of "v + c - d" p] that v(2,3) unfolding v(4) by (simp add: v(1))
  show "(w + word_of_int c < word_of_int p) = (uint w + c < p)" if "0 \<le> p" "p < 2000" "0 \<le> c" "c < 1000"
    using wi_less[of "v + c" p] that v(2,3) unfolding v(4) by (simp add: v(1))
  show "(word_of_int p < w) = (p < uint w)" if "0 \<le> p" "p < 2000"
    using wi_less[of p v] that v(2,3) unfolding v(4) by (simp add: v(1))
qed

section \<open>Facts: scrolling by a pixel\<close>

lemma scroll_vertical:
  assumes "gfx_inv x" "displays W m x" "dims_ok m" "ny = show_y x - 1 \<and> j = 0 \<or> ny = show_y x + 1 \<and> j = 181"
    and "0 \<le> show_x x" "show_x x + 320 \<le> 12 * (2 * maze_x_dim m + 1)" "0 \<le> ny" "ny + 182 \<le> 12 * (2 * maze_y_dim m + 1)"
  shows "\<exists>x1 x2. set_view_window (show_x x) ny x = Some x1 \<and>
    draw_horiz_line (\<lambda>x y. fill_horiz_buffer (blocks W) x y m) j x1 = Some (0, x2) \<and>
    gfx_inv x2 \<and> displays W m x2 \<and> show_x x2 = show_x x \<and> show_y x2 = ny"
proof -
  have v: "view_ok x" using assms(1) by (simp add: gfx_inv_def)
  obtain x1 where x1: "set_view_window (show_x x) ny x = Some x1" "view_ok x1" "show_x x1 = show_x x" "show_y x1 = ny"
    using set_view_window_spec[OF v, of "show_x x" ny] by blast
  have "gfx_inv x1" using gfx_step_inv[OF gfx_window[OF x1(1)]] assms(1) by blast
  moreover have "win_in m x1" using assms(5-8) x1(3,4) by (simp add: win_in_def)
  then obtain x2 where x2: "draw_horiz_line (\<lambda>x y. fill_horiz_buffer (blocks W) x y m) j x1 = Some (0, x2)"
    "painted (\<lambda>a b. if b = j + show_y x1 then Some (maze_pixel W m a b) else None) x1 x2"
    using draw_horiz_maze[OF x1(2) assms(3), of j W] assms(4) by auto
  moreover have "displays W m x2"
    by (rule scroll_displays[OF v assms(2) x1(1) x2(2)])
      (use assms(4) x1(3,4) in \<open>auto simp: in_win_def split: if_splits\<close>)
  ultimately show ?thesis using x1 painted_inv[OF x2(2)] painted_fields(1,2)[OF x2(2)] by auto
qed

lemma scroll_sideways:
  assumes "gfx_inv x" "displays W m x" "dims_ok m" "nx = show_x x - 1 \<and> i = 0 \<or> nx = show_x x + 1 \<and> i = 319"
    and "0 \<le> nx" "nx + 320 \<le> 12 * (2 * maze_x_dim m + 1)" "0 \<le> show_y x" "show_y x + 182 \<le> 12 * (2 * maze_y_dim m + 1)"
  shows "\<exists>x1 x2. set_view_window nx (show_y x) x = Some x1 \<and>
    draw_vert_line (\<lambda>x y. fill_vert_buffer (blocks W) x y m) i x1 = Some (0, x2) \<and>
    gfx_inv x2 \<and> displays W m x2 \<and> show_x x2 = nx \<and> show_y x2 = show_y x"
proof -
  have v: "view_ok x" using assms(1) by (simp add: gfx_inv_def)
  obtain x1 where x1: "set_view_window nx (show_y x) x = Some x1" "view_ok x1" "show_x x1 = nx" "show_y x1 = show_y x"
    using set_view_window_spec[OF v, of nx "show_y x"] by blast
  have "gfx_inv x1" using gfx_step_inv[OF gfx_window[OF x1(1)]] assms(1) by blast
  moreover have "win_in m x1" using assms(5-8) x1(3,4) by (simp add: win_in_def)
  then obtain x2 where x2: "draw_vert_line (\<lambda>x y. fill_vert_buffer (blocks W) x y m) i x1 = Some (0, x2)"
    "painted (\<lambda>a b. if a = i + show_x x1 then Some (maze_pixel W m a b) else None) x1 x2"
    using draw_vert_maze[OF x1(2) assms(3), of i W] assms(4) by auto
  moreover have "displays W m x2"
    by (rule scroll_displays[OF v assms(2) x1(1) x2(2)])
      (use assms(4) x1(3,4) in \<open>auto simp: in_win_def split: if_splits\<close>)
  ultimately show ?thesis using x1 painted_inv[OF x2(2)] painted_fields(1,2)[OF x2(2)] by auto
qed

section \<open>Facts: the four moves\<close>

lemma screen_inv_place [simp]:
  "screen_inv W (g\<lparr>play_x := a\<rparr>) = screen_inv W g" "screen_inv W (g\<lparr>play_y := a\<rparr>) = screen_inv W g"
  "screen_inv W (g\<lparr>last_dir := d\<rparr>) = screen_inv W g" "screen_inv W (g\<lparr>move_cnt := k\<rparr>) = screen_inv W g"
  "screen_inv W (g\<lparr>dir := e\<rparr>) = screen_inv W g" "screen_inv W (g\<lparr>next_dir := e\<rparr>) = screen_inv W g"
  "screen_inv W (g\<lparr>old_value_buf := u\<rparr>) = screen_inv W g" "screen_inv W (g\<lparr>buttons := bt\<rparr>) = screen_inv W g"
  "screen_inv W (g\<lparr>buttons_pressed := bp\<rparr>) = screen_inv W g" "screen_inv W (g\<lparr>key_state := ks\<rparr>) = screen_inv W g"
  "screen_inv W (g\<lparr>quit_flag := q\<rparr>) = screen_inv W g"
  by (simp_all add: screen_inv_def view_at_def)

lemma view_bounds:
  assumes "screen_inv W g"
  shows "uint (map_x g) < 2000" "uint (map_y g) < 2000" "maze_x_dim (mz g) \<le> 50" "maze_y_dim (mz g) \<le> 30"
    "14 \<le> maze_x_dim (mz g)" "8 \<le> maze_y_dim (mz g)" "dims_ok (mz g)" "view_ok (mx g)"
  using assms by (auto simp: screen_inv_def playable_def fruits_ok_def dims_ok_def view_at_def gfx_inv_def)

lemma pan_vertical:
  assumes "screen_inv W g" "ny = show_y (mx g) - 1 \<and> j = 0 \<and> w = map_y g - 1 \<or> ny = show_y (mx g) + 1 \<and> j = 181 \<and> w = map_y g + 1"
    and "6 \<le> ny" "ny + 188 \<le> 12 * (2 * maze_y_dim (mz g) + 1)"
  shows "\<exists>x. do { g2 \<leftarrow> shift_view W (g\<lparr>map_y := w\<rparr>); draw_horiz W j g2 } = Some (g\<lparr>map_y := w, mx := x\<rparr>) \<and>
    screen_inv W (g\<lparr>map_y := w, mx := x\<rparr>) \<and> show_x x = show_x (mx g) \<and> show_y x = ny"
proof -
  note b = view_bounds[OF assms(1)]
  have s: "gfx_inv (mx g)" "displays W (mz g) (mx g)" "show_x (mx g) = uint (map_x g)" "show_y (mx g) = uint (map_y g)"
    "6 \<le> show_x (mx g)" "show_x (mx g) + 326 \<le> 12 * (2 * maze_x_dim (mz g) + 1)" "6 \<le> show_y (mx g)"
    using assms(1) by (simp_all add: screen_inv_def view_at_def)
  have w: "uint w = ny" using assms(2) small_word(2,3)[OF b(2)] s(4,7) by auto
  then have sw: "sint w = ny" "sint (map_x g) = show_x (mx g)"
    using small_word(1)[of w] small_word(1)[OF b(1)] assms(4) b(4) s(3) by auto
  have side: "0 \<le> show_x (mx g)" "show_x (mx g) + 320 \<le> 12 * (2 * maze_x_dim (mz g) + 1)" "0 \<le> ny"
    "ny + 182 \<le> 12 * (2 * maze_y_dim (mz g) + 1)" "ny = show_y (mx g) - 1 \<and> j = 0 \<or> ny = show_y (mx g) + 1 \<and> j = 181"
    using s(5,6) assms(2-4) by auto
  obtain x1 x2 where x: "set_view_window (show_x (mx g)) ny (mx g) = Some x1"
    "draw_horiz_line (\<lambda>x y. fill_horiz_buffer (blocks W) x y (mz g)) j x1 = Some (0, x2)"
    "gfx_inv x2" "displays W (mz g) x2" "show_x x2 = show_x (mx g)" "show_y x2 = ny"
    using scroll_vertical[OF s(1,2) b(7) side(5,1-4)] by blast
  then have "do { g2 \<leftarrow> shift_view W (g\<lparr>map_y := w\<rparr>); draw_horiz W j g2 } = Some (g\<lparr>map_y := w, mx := x2\<rparr>)"
    by (simp add: shift_view_def draw_horiz_def sw)
  moreover have "screen_inv W (g\<lparr>map_y := w, mx := x2\<rparr>)"
    using assms x(3-6) w by (simp add: screen_inv_def view_at_def)
  ultimately show ?thesis using x(5,6) by blast
qed

lemma pan_sideways:
  assumes "screen_inv W g" "nx = show_x (mx g) - 1 \<and> i = 0 \<and> w = map_x g - 1 \<or> nx = show_x (mx g) + 1 \<and> i = 319 \<and> w = map_x g + 1"
    and "6 \<le> nx" "nx + 326 \<le> 12 * (2 * maze_x_dim (mz g) + 1)"
  shows "\<exists>x. do { g2 \<leftarrow> shift_view W (g\<lparr>map_x := w\<rparr>); draw_vert W i g2 } = Some (g\<lparr>map_x := w, mx := x\<rparr>) \<and>
    screen_inv W (g\<lparr>map_x := w, mx := x\<rparr>) \<and> show_x x = nx \<and> show_y x = show_y (mx g)"
proof -
  note b = view_bounds[OF assms(1)]
  have s: "gfx_inv (mx g)" "displays W (mz g) (mx g)" "show_x (mx g) = uint (map_x g)" "show_y (mx g) = uint (map_y g)"
    "6 \<le> show_y (mx g)" "show_y (mx g) + 188 \<le> 12 * (2 * maze_y_dim (mz g) + 1)" "6 \<le> show_x (mx g)"
    using assms(1) by (simp_all add: screen_inv_def view_at_def)
  have w: "uint w = nx" using assms(2) small_word(2,3)[OF b(1)] s(3,7) by auto
  then have sw: "sint w = nx" "sint (map_y g) = show_y (mx g)"
    using small_word(1)[of w] small_word(1)[OF b(2)] assms(4) b(3) s(4) by auto
  have side: "0 \<le> nx" "nx + 320 \<le> 12 * (2 * maze_x_dim (mz g) + 1)" "0 \<le> show_y (mx g)"
    "show_y (mx g) + 182 \<le> 12 * (2 * maze_y_dim (mz g) + 1)" "nx = show_x (mx g) - 1 \<and> i = 0 \<or> nx = show_x (mx g) + 1 \<and> i = 319"
    using s(5,6) assms(2-4) by auto
  obtain x1 x2 where x: "set_view_window nx (show_y (mx g)) (mx g) = Some x1"
    "draw_vert_line (\<lambda>x y. fill_vert_buffer (blocks W) x y (mz g)) i x1 = Some (0, x2)"
    "gfx_inv x2" "displays W (mz g) x2" "show_x x2 = nx" "show_y x2 = show_y (mx g)"
    using scroll_sideways[OF s(1,2) b(7) side(5,1-4)] by blast
  then have "do { g2 \<leftarrow> shift_view W (g\<lparr>map_x := w\<rparr>); draw_vert W i g2 } = Some (g\<lparr>map_x := w, mx := x2\<rparr>)"
    by (simp add: shift_view_def draw_vert_def sw)
  moreover have "screen_inv W (g\<lparr>map_x := w, mx := x2\<rparr>)"
    using assms x(3-6) w by (simp add: screen_inv_def view_at_def)
  ultimately show ?thesis using x(5,6) by blast
qed

text \<open>What a move changes.\<close>

definition moved_to :: "int \<Rightarrow> int \<Rightarrow> game \<Rightarrow> game \<Rightarrow> bool" where
  "moved_to px py g g' \<longleftrightarrow> (\<exists>x u v. g' = g\<lparr>mx := x, map_x := u, map_y := v, play_x := px, play_y := py\<rparr>)"

lemma moved_toI:
  "moved_to (play_x g) b g (g\<lparr>play_y := b, map_y := v, mx := x\<rparr>)" "moved_to a (play_y g) g (g\<lparr>play_x := a, map_x := u, mx := x\<rparr>)"
  "moved_to (play_x g) b g (g\<lparr>play_y := b\<rparr>)" "moved_to a (play_y g) g (g\<lparr>play_x := a\<rparr>)"
proof -
  show "moved_to (play_x g) b g (g\<lparr>play_y := b, map_y := v, mx := x\<rparr>)"
    unfolding moved_to_def by (rule exI[of _ x], rule exI[of _ "map_x g"], rule exI[of _ v]) simp
  show "moved_to a (play_y g) g (g\<lparr>play_x := a, map_x := u, mx := x\<rparr>)"
    unfolding moved_to_def by (rule exI[of _ x], rule exI[of _ u], rule exI[of _ "map_y g"]) simp
  show "moved_to (play_x g) b g (g\<lparr>play_y := b\<rparr>)" "moved_to a (play_y g) g (g\<lparr>play_x := a\<rparr>)"
    unfolding moved_to_def by (rule exI[of _ "mx g"], rule exI[of _ "map_x g"], rule exI[of _ "map_y g"], simp)+
qed

lemma move_up_inv:
  assumes "screen_inv W g" "panned g" "1 \<le> play_y g" "play_y g < 2000"
  shows "\<exists>g'. move_up W g = Some g' \<and> screen_inv W g' \<and> panned g' \<and> moved_to (play_x g) (play_y g - 1) g g'"
proof -
  note b = view_bounds[OF assms(1)]
  let ?g = "g\<lparr>play_y := play_y g - 1\<rparr>"
  have s: "show_y (mx g) = uint (map_y g)" using assms(1) by (simp add: screen_inv_def view_at_def)
  have c: "(word_of_int (play_y g - 1) < map_y g + word_of_int (BLOCK_Y_DIM * PAN_BORDER) \<and> map_y g > word_of_int SHOW_MIN) =
      (play_y g - 1 < show_y (mx g) + 60 \<and> 6 < show_y (mx g))"
    using small_word(4)[OF b(2), of "play_y g - 1" 60] small_word(7)[OF b(2), of 6] assms(3,4)
    by (simp add: BLOCK_Y_DIM_def PAN_BORDER_def SHOW_MIN_def s)
  show ?thesis
  proof (cases "play_y g - 1 < show_y (mx g) + 60 \<and> 6 < show_y (mx g)")
    case True
    have "6 \<le> show_y (mx ?g) - 1" "show_y (mx ?g) - 1 + 188 \<le> 12 * (2 * maze_y_dim (mz ?g) + 1)"
      using True assms(1) by (auto simp: screen_inv_def view_at_def)
    then obtain x where x: "do { g2 \<leftarrow> shift_view W (?g\<lparr>map_y := map_y g - 1\<rparr>); draw_horiz W 0 g2 } = Some (?g\<lparr>map_y := map_y g - 1, mx := x\<rparr>)"
      "screen_inv W (?g\<lparr>map_y := map_y g - 1, mx := x\<rparr>)" "show_x x = show_x (mx g)" "show_y x = show_y (mx g) - 1"
      using pan_vertical[of W ?g "show_y (mx g) - 1" 0 "map_y g - 1"] assms(1) by auto
    moreover have "panned (?g\<lparr>map_y := map_y g - 1, mx := x\<rparr>)"
      using assms(2) True x(3,4) by (auto simp: panned_def)
    moreover have "move_up W g = Some (?g\<lparr>map_y := map_y g - 1, mx := x\<rparr>)"
      using True c x(1) by (simp add: move_up_def Let_def)
    ultimately show ?thesis using moved_toI(1) by blast
  next
    case False
    moreover have "panned ?g" using False assms(1,2) by (auto simp: panned_def screen_inv_def view_at_def)
    moreover have "move_up W g = Some ?g" using False c by (auto simp: move_up_def Let_def)
    ultimately show ?thesis using assms(1) moved_toI(3) by force
  qed
qed

lemma move_left_inv:
  assumes "screen_inv W g" "panned g" "1 \<le> play_x g" "play_x g < 2000"
  shows "\<exists>g'. move_left W g = Some g' \<and> screen_inv W g' \<and> panned g' \<and> moved_to (play_x g - 1) (play_y g) g g'"
proof -
  note b = view_bounds[OF assms(1)]
  let ?g = "g\<lparr>play_x := play_x g - 1\<rparr>"
  have s: "show_x (mx g) = uint (map_x g)" using assms(1) by (simp add: screen_inv_def view_at_def)
  have c: "(word_of_int (play_x g - 1) < map_x g + word_of_int (BLOCK_X_DIM * PAN_BORDER) \<and> map_x g > word_of_int SHOW_MIN) =
      (play_x g - 1 < show_x (mx g) + 60 \<and> 6 < show_x (mx g))"
    using small_word(4)[OF b(1), of "play_x g - 1" 60] small_word(7)[OF b(1), of 6] assms(3,4)
    by (simp add: BLOCK_X_DIM_def PAN_BORDER_def SHOW_MIN_def s)
  show ?thesis
  proof (cases "play_x g - 1 < show_x (mx g) + 60 \<and> 6 < show_x (mx g)")
    case True
    have "6 \<le> show_x (mx ?g) - 1" "show_x (mx ?g) - 1 + 326 \<le> 12 * (2 * maze_x_dim (mz ?g) + 1)"
      using True assms(1) by (auto simp: screen_inv_def view_at_def)
    then obtain x where x: "do { g2 \<leftarrow> shift_view W (?g\<lparr>map_x := map_x g - 1\<rparr>); draw_vert W 0 g2 } = Some (?g\<lparr>map_x := map_x g - 1, mx := x\<rparr>)"
      "screen_inv W (?g\<lparr>map_x := map_x g - 1, mx := x\<rparr>)" "show_x x = show_x (mx g) - 1" "show_y x = show_y (mx g)"
      using pan_sideways[of W ?g "show_x (mx g) - 1" 0 "map_x g - 1"] assms(1) by auto
    moreover have "panned (?g\<lparr>map_x := map_x g - 1, mx := x\<rparr>)"
      using assms(2) True x(3,4) by (auto simp: panned_def)
    moreover have "move_left W g = Some (?g\<lparr>map_x := map_x g - 1, mx := x\<rparr>)"
      using True c x(1) by (simp add: move_left_def Let_def)
    ultimately show ?thesis using moved_toI(2) by blast
  next
    case False
    moreover have "panned ?g" using False assms(1,2) by (auto simp: panned_def screen_inv_def view_at_def)
    moreover have "move_left W g = Some ?g" using False c by (auto simp: move_left_def Let_def)
    ultimately show ?thesis using assms(1) moved_toI(4) by force
  qed
qed

lemma move_down_inv:
  assumes "screen_inv W g" "panned g" "0 \<le> play_y g" "play_y g < 1000"
  shows "\<exists>g'. move_down W g = Some g' \<and> screen_inv W g' \<and> panned g' \<and> moved_to (play_x g) (play_y g + 1) g g'"
proof -
  note b = view_bounds[OF assms(1)]
  let ?g = "g\<lparr>play_y := play_y g + 1\<rparr>"
  have s: "show_y (mx g) = uint (map_y g)" "info_y_dim g = maze_y_dim (mz g)" using assms(1) by (simp_all add: screen_inv_def view_at_def)
  have c: "(map_y g + word_of_int SCROLL_Y_DIM - word_of_int (BLOCK_Y_DIM * (PAN_BORDER + 1)) < word_of_int (play_y g + 1) \<and>
        map_y g + word_of_int SCROLL_Y_DIM < word_of_int ((2 * info_y_dim g + 1) * BLOCK_Y_DIM - SHOW_MIN)) =
      (show_y (mx g) + 110 < play_y g + 1 \<and> show_y (mx g) + 182 < 12 * (2 * maze_y_dim (mz g) + 1) - 6)"
    using small_word(5)[OF b(2), of "play_y g + 1" 182 72] small_word(6)[OF b(2), of "(2 * maze_y_dim (mz g) + 1) * 12 - 6" 182]
      assms(3,4) b(4,6)
    by (simp add: BLOCK_Y_DIM_def PAN_BORDER_def SHOW_MIN_def modex_consts s(2) flip: s(1)) linarith
  show ?thesis
  proof (cases "show_y (mx g) + 110 < play_y g + 1 \<and> show_y (mx g) + 182 < 12 * (2 * maze_y_dim (mz g) + 1) - 6")
    case True
    have "6 \<le> show_y (mx ?g) + 1" "show_y (mx ?g) + 1 + 188 \<le> 12 * (2 * maze_y_dim (mz ?g) + 1)"
      using True assms(1) by (auto simp: screen_inv_def view_at_def)
    then obtain x where x: "do { g2 \<leftarrow> shift_view W (?g\<lparr>map_y := map_y g + 1\<rparr>); draw_horiz W 181 g2 } = Some (?g\<lparr>map_y := map_y g + 1, mx := x\<rparr>)"
      "screen_inv W (?g\<lparr>map_y := map_y g + 1, mx := x\<rparr>)" "show_x x = show_x (mx g)" "show_y x = show_y (mx g) + 1"
      using pan_vertical[of W ?g "show_y (mx g) + 1" 181 "map_y g + 1"] assms(1) by auto
    moreover have "panned (?g\<lparr>map_y := map_y g + 1, mx := x\<rparr>)"
      using assms(2) True x(3,4) by (auto simp: panned_def)
    moreover have "move_down W g = Some (?g\<lparr>map_y := map_y g + 1, mx := x\<rparr>)"
      unfolding move_down_def Let_def using True c x(1) by (simp add: modex_consts)
    ultimately show ?thesis using moved_toI(1) by blast
  next
    case False
    moreover have "panned ?g" using False assms(1,2) by (auto simp: panned_def screen_inv_def view_at_def)
    moreover have "move_down W g = Some ?g" using False c by (auto simp: move_down_def Let_def modex_consts)
    ultimately show ?thesis using assms(1) moved_toI(3) by force
  qed
qed

lemma move_right_inv:
  assumes "screen_inv W g" "panned g" "0 \<le> play_x g" "play_x g < 1900"
  shows "\<exists>g'. move_right W g = Some g' \<and> screen_inv W g' \<and> panned g' \<and> moved_to (play_x g + 1) (play_y g) g g'"
proof -
  note b = view_bounds[OF assms(1)]
  let ?g = "g\<lparr>play_x := play_x g + 1\<rparr>"
  have s: "show_x (mx g) = uint (map_x g)" "info_x_dim g = maze_x_dim (mz g)" using assms(1) by (simp_all add: screen_inv_def view_at_def)
  have c: "(map_x g + word_of_int SCROLL_X_DIM - word_of_int (BLOCK_X_DIM * (PAN_BORDER + 1)) < word_of_int (play_x g + 1) \<and>
        map_x g + word_of_int SCROLL_X_DIM < word_of_int ((2 * info_x_dim g + 1) * BLOCK_X_DIM - SHOW_MIN)) =
      (show_x (mx g) + 248 < play_x g + 1 \<and> show_x (mx g) + 320 < 12 * (2 * maze_x_dim (mz g) + 1) - 6)"
    using small_word(5)[OF b(1), of "play_x g + 1" 320 72] small_word(6)[OF b(1), of "(2 * maze_x_dim (mz g) + 1) * 12 - 6" 320]
      assms(3,4) b(3,5)
    by (simp add: BLOCK_X_DIM_def PAN_BORDER_def SHOW_MIN_def modex_consts s(2) flip: s(1)) linarith
  show ?thesis
  proof (cases "show_x (mx g) + 248 < play_x g + 1 \<and> show_x (mx g) + 320 < 12 * (2 * maze_x_dim (mz g) + 1) - 6")
    case True
    have "6 \<le> show_x (mx ?g) + 1" "show_x (mx ?g) + 1 + 326 \<le> 12 * (2 * maze_x_dim (mz ?g) + 1)"
      using True assms(1) by (auto simp: screen_inv_def view_at_def)
    then obtain x where x: "do { g2 \<leftarrow> shift_view W (?g\<lparr>map_x := map_x g + 1\<rparr>); draw_vert W 319 g2 } = Some (?g\<lparr>map_x := map_x g + 1, mx := x\<rparr>)"
      "screen_inv W (?g\<lparr>map_x := map_x g + 1, mx := x\<rparr>)" "show_x x = show_x (mx g) + 1" "show_y x = show_y (mx g)"
      using pan_sideways[of W ?g "show_x (mx g) + 1" 319 "map_x g + 1"] assms(1) by auto
    moreover have "panned (?g\<lparr>map_x := map_x g + 1, mx := x\<rparr>)"
      using assms(2) True x(3,4) by (auto simp: panned_def)
    moreover have "move_right W g = Some (?g\<lparr>map_x := map_x g + 1, mx := x\<rparr>)"
      unfolding move_right_def Let_def using True c x(1) by (simp add: modex_consts)
    ultimately show ?thesis using moved_toI(2) by blast
  next
    case False
    moreover have "panned ?g" using False assms(1,2) by (auto simp: panned_def screen_inv_def view_at_def)
    moreover have "move_right W g = Some ?g" using False c by (auto simp: move_right_def Let_def modex_consts)
    ultimately show ?thesis using assms(1) moved_toI(4) by force
  qed
qed

section \<open>Facts: where the player is\<close>

lemma free_inside:
  assumes "playable m" "free m a b"
  shows "1 \<le> a" "a < 2 * maze_x_dim m" "1 \<le> b" "b < 2 * maze_y_dim m"
proof -
  have "in_view m a b" "a \<noteq> 0 \<and> a \<noteq> 2 * maze_x_dim m \<and> b \<noteq> 0 \<and> b \<noteq> 2 * maze_y_dim m"
    using assms by (auto simp: playable_def free_def)
  then show "1 \<le> a" "a < 2 * maze_x_dim m" "1 \<le> b" "b < 2 * maze_y_dim m" by (auto simp: in_view_def)
qed

lemma step_cases: "step_x d = 0 \<and> step_y d = 0 \<or> step_x d = 0 \<and> step_y d = 1 \<or> step_x d = 0 \<and> step_y d = - 1 \<or>
    step_x d = 1 \<and> step_y d = 0 \<or> step_x d = - 1 \<and> step_y d = 0"
  by (cases d rule: step_x.cases) simp_all

lemma player_between:
  assumes "playable m" "player_at m px py d k"
  shows "12 \<le> px" "px + 12 \<le> 24 * maze_x_dim m" "12 \<le> py" "py + 12 \<le> 24 * maze_y_dim m"
proof -
  obtain a b where ab: "free m a b" "px = 12 * a - k * step_x d" "py = 12 * b - k * step_y d" "0 \<le> k" "k \<le> 12"
    "k > 0 \<longrightarrow> free m (a - step_x d) (b - step_y d)"
    using assms(2) by (auto simp: player_at_def)
  note f = free_inside[OF assms(1)]
  have "12 \<le> px \<and> px + 12 \<le> 24 * maze_x_dim m \<and> 12 \<le> py \<and> py + 12 \<le> 24 * maze_y_dim m"
  proof (cases "k > 0")
    case True
    then show ?thesis using f[OF ab(1)] f[of "a - step_x d" "b - step_y d"] ab(2-6) step_cases[of d] by auto
  next
    case False
    then show ?thesis using f[OF ab(1)] ab(2-4) by simp
  qed
  then show "12 \<le> px" "px + 12 \<le> 24 * maze_x_dim m" "12 \<le> py" "py + 12 \<le> 24 * maze_y_dim m" by auto
qed

lemma player_visible:
  assumes "screen_inv W g" "panned g" "player_at (mz g) (play_x g) (play_y g) d k"
  shows "player_in_win g"
proof -
  have p: "playable (mz g)" using assms(1) by (simp add: screen_inv_def)
  show ?thesis
    using player_between[OF p assms(3)] assms(1,2) by (auto simp: player_in_win_def panned_def screen_inv_def view_at_def)
qed

lemma player_no_wrap:
  assumes "screen_inv W g" "panned g" "play_x g = 12 * a" "1 \<le> a" "a < 2 * maze_x_dim (mz g)" "a - 2 \<le> p" "p \<le> a + 2"
  shows "no_wrap (mz g) (mx g) p"
proof -
  have x: "14 \<le> maze_x_dim (mz g)" by (rule view_bounds(5)[OF assms(1)])
  have s: "show_x (mx g) = 6 \<or> show_x (mx g) + 60 \<le> play_x g"
    "show_x (mx g) + 326 = 12 * (2 * maze_x_dim (mz g) + 1) \<or> play_x g \<le> show_x (mx g) + 248"
    using assms(2) by (simp_all add: panned_def)
  have "show_x (mx g) + 320 \<le> 24 * maze_x_dim (mz g)" if "p = 0" using s(1) x assms(3-6) that by linarith
  moreover have "12 \<le> show_x (mx g)" if "p = 2 * maze_x_dim (mz g)" using s(2)
  proof
    assume "show_x (mx g) + 326 = 12 * (2 * maze_x_dim (mz g) + 1)"
    then show ?thesis using x by simp
  next
    assume "play_x g \<le> show_x (mx g) + 248"
    then show ?thesis using x assms(3,7) that by simp
  qed
  ultimately show ?thesis by (simp add: no_wrap_def)
qed

text \<open>Turning back, arriving and setting out.\<close>

lemma turn_back_step: "turn_back d e \<Longrightarrow> step_x e = - step_x d \<and> step_y e = - step_y d \<and> e \<noteq> None"
  by (cases "(d, e)" rule: turn_back.cases) simp_all

lemma player_turn:
  assumes "player_at m px py d k" "turn_back d e"
  shows "player_at m px py e (if k > 0 then 12 - k else k)"
proof -
  note t = turn_back_step[OF assms(2)]
  obtain a b where ab: "free m a b" "px = 12 * a - k * step_x d" "py = 12 * b - k * step_y d" "0 \<le> k" "k \<le> 12"
    "k > 0 \<longrightarrow> free m (a - step_x d) (b - step_y d)"
    using assms(1) by (auto simp: player_at_def)
  show ?thesis
  proof (cases "k > 0")
    case True
    have "px = 12 * (a - step_x d) - (12 - k) * step_x e" "py = 12 * (b - step_y d) - (12 - k) * step_y e"
      using ab(2,3) t by (simp_all add: algebra_simps)
    then show ?thesis
      unfolding player_at_def using True ab t by (intro conjI exI[of _ "a - step_x d"] exI[of _ "b - step_y d"]) simp_all
  next
    case False
    then have "k = 0" using ab(4) by simp
    then show ?thesis using ab by (auto simp: player_at_def)
  qed
qed

lemma player_start:
  assumes "free m a b" "free m (a + step_x d) (b + step_y d)" "d \<noteq> None"
  shows "player_at m (12 * a) (12 * b) d 12"
  unfolding player_at_def using assms
  by (intro conjI exI[of _ "a + step_x d"] exI[of _ "b + step_y d"]) (simp_all add: algebra_simps)

lemma player_rest: "player_at m px py d 0 \<longleftrightarrow> (\<exists>a b. free m a b \<and> px = 12 * a \<and> py = 12 * b)"
  by (simp add: player_at_def)

lemma player_advance:
  assumes "player_at m px py d k" "k > 0"
  shows "player_at m (px + step_x d) (py + step_y d) d (k - 1)"
proof -
  obtain a b where ab: "free m a b" "px = 12 * a - k * step_x d" "py = 12 * b - k * step_y d" "k \<le> 12"
    "d \<noteq> None" "free m (a - step_x d) (b - step_y d)"
    using assms by (auto simp: player_at_def)
  then show ?thesis
    unfolding player_at_def using assms(2) by (intro conjI exI[of _ a] exI[of _ b]) (simp_all add: algebra_simps)
qed

lemma player_kept:
  assumes "kept m m1" "dims_ok m" "player_at m px py d k"
  shows "player_at m1 px py d k"
proof -
  have "free m1 u v = free m u v" for u v
    using kept_dims(2)[OF assms(1)] kept_cell(1)[OF assms(1,2)] by (auto simp: free_def wall_def)
  then show ?thesis using assms(3) by (simp add: player_at_def)
qed

lemma playable_kept:
  assumes "kept m m1" "fruits_ok m1" "playable m"
  shows "playable m1"
proof -
  have d: "dims_ok m" using assms(3) by (simp add: playable_def fruits_ok_def)
  have x: "maze_x_dim m1 = maze_x_dim m" "maze_y_dim m1 = maze_y_dim m" using assms(1) by (simp_all add: kept_def)
  have "wall (cell m1 u v) = wall (cell m u v)" if "in_view m u v" for u v
    using kept_cell(1)[OF assms(1) d that] by (simp add: wall_def)
  then show ?thesis
    using assms(2,3) exit_unique_kept[OF assms(1) d] x kept_dims(2)[OF assms(1)] by (simp add: playable_def)
qed

lemma open_directions:
  assumes "playable m" "free m a b"
  shows "\<exists>op. find_open_directions a b m = Some op \<and> (\<forall>d. op ! dir_num d = free m (a + step_x (Some d)) (b + step_y (Some d)))"
proof -
  have d: "dims_ok m" using assms(1) by (simp add: playable_def fruits_ok_def)
  note f = free_inside[OF assms]
  have v: "in_view m a (b - 1)" "in_view m (a + 1) b" "in_view m a (b + 1)" "in_view m (a - 1) b"
    using f by (simp_all add: in_view_def)
  note g = mget_cell[OF d v(1)] mget_cell[OF d v(2)] mget_cell[OF d v(3)] mget_cell[OF d v(4)]
  let ?op = "map (\<lambda>d. free m (a + step_x (Some d)) (b + step_y (Some d))) [DIR_UP, DIR_RIGHT, DIR_DOWN, DIR_LEFT]"
  have "find_open_directions a b m = Some ?op" using g v by (simp add: find_open_directions_def free_def wall_def)
  moreover have "?op ! dir_num d = free m (a + step_x (Some d)) (b + step_y (Some d))" for d by (cases d) simp_all
  ultimately show ?thesis by blast
qed

section \<open>Facts: a round of the clock thread\<close>

text \<open>Between the turn of the player and the drawing: he is on his way or stands still.\<close>

definition set_out :: "world \<Rightarrow> game \<Rightarrow> bool" where
  "set_out W g \<longleftrightarrow> screen_inv W g \<and> panned g \<and> player_at (mz g) (play_x g) (play_y g) (dir g) (move_cnt g) \<and>
     (dir g \<noteq> None \<longrightarrow> move_cnt g > 0) \<and> (dir g = None \<longrightarrow> move_cnt g = 0) \<and> (next_dir g = None \<longrightarrow> dir g = None)"

lemma reverse_now_inv:
  assumes "game_inv W g"
  shows "game_inv W (reverse_now (next_dir g) (next_dir g) g)"
proof (cases "next_dir g \<noteq> dir g \<and> turn_back (dir g) (next_dir g)")
  case True
  let ?k = "if move_cnt g > 0 then 12 - move_cnt g else move_cnt g"
  have "reverse_now (next_dir g) (next_dir g) g = g\<lparr>move_cnt := ?k, dir := next_dir g\<rparr>"
    using True by (simp add: reverse_now_def BLOCK_X_DIM_def BLOCK_Y_DIM_def)
  moreover have "player_at (mz g) (play_x g) (play_y g) (next_dir g) ?k"
    by (rule player_turn[of _ _ _ "dir g"]) (use True assms in \<open>simp_all add: game_inv_def\<close>)
  moreover have "?k < 12" using assms by (simp add: game_inv_def)
  ultimately show ?thesis using assms turn_back_step True by (simp add: game_inv_def panned_def)
next
  case False
  then show ?thesis using assms unfolding reverse_now_def by (simp only: if_False)
qed

lemma choose_dir_set_out:
  assumes "game_inv W g" "move_cnt g = 0" "play_x g = 12 * a" "play_y g = 12 * b" "free (mz g) a b"
    and "\<And>d. op ! dir_num d = free (mz g) (a + step_x (Some d)) (b + step_y (Some d))"
  shows "set_out W (choose_dir junk op g)" "mz (choose_dir junk op g) = mz g" "mx (choose_dir junk op g) = mx g"
    "play_x (choose_dir junk op g) = play_x g" "play_y (choose_dir junk op g) = play_y g"
proof -
  define e where "e = (if open_at junk op (next_dir g) then next_dir g else dir g)"
  have g1: "(if open_at junk op (next_dir g) then g\<lparr>dir := next_dir g\<rparr> else g) = g\<lparr>dir := e\<rparr>"
    by (simp add: e_def)
  have e: "next_dir g = None \<longrightarrow> e = None" using assms(1) by (auto simp: e_def game_inv_def)
  have i: "screen_inv W g" "panned g" using assms(1) by (simp_all add: game_inv_def)
  have rest: "player_at (mz g) (play_x g) (play_y g) None 0" using assms(3-5) player_rest by blast
  have "set_out W (choose_dir junk op g) \<and> mz (choose_dir junk op g) = mz g \<and> mx (choose_dir junk op g) = mx g \<and>
    play_x (choose_dir junk op g) = play_x g \<and> play_y (choose_dir junk op g) = play_y g"
  proof (cases e)
    case None
    then show ?thesis
      unfolding choose_dir_def Let_def g1 using i rest assms(2) by (simp add: set_out_def panned_def)
  next
    case (Some d)
    show ?thesis
    proof (cases "op ! dir_num d")
      case False
      then show ?thesis
        unfolding choose_dir_def Let_def g1 using Some i rest assms(2) by (simp add: set_out_def panned_def)
    next
      case True
      then have "player_at (mz g) (play_x g) (play_y g) (Some d) 12"
        unfolding assms(3,4) by (intro player_start) (use assms(5,6) in simp_all)
      then show ?thesis
        unfolding choose_dir_def Let_def g1 using True Some i e
        by (simp add: set_out_def panned_def BLOCK_X_DIM_def BLOCK_Y_DIM_def)
    qed
  qed
  then show "set_out W (choose_dir junk op g)" "mz (choose_dir junk op g) = mz g" "mx (choose_dir junk op g) = mx g"
    "play_x (choose_dir junk op g) = play_x g" "play_y (choose_dir junk op g) = play_y g" by simp_all
qed

lemma visit_inv:
  assumes "game_inv W g" "move_cnt g = 0"
  shows "\<exists>won m1 x1 a b. unveil_around_player W g = Some (won, g\<lparr>mz := m1, mx := x1\<rparr>) \<and>
    game_inv W (g\<lparr>mz := m1, mx := x1\<rparr>) \<and> play_x g = 12 * a \<and> play_y g = 12 * b \<and> free m1 a b \<and> kept (mz g) m1 \<and>
    (won \<longleftrightarrow> n_fruits m1 = 0 \<and> cell m1 a b AND MAZE_EXIT \<noteq> 0)"
proof -
  have s: "screen_inv W g" "panned g" "player_at (mz g) (play_x g) (play_y g) (dir g) 0"
    using assms by (simp_all add: game_inv_def)
  have p: "playable (mz g)" "fruits_ok (mz g)" "exit_unique (mz g)" "dims_ok (mz g)" "gfx_inv (mx g)" "displays W (mz g) (mx g)"
    "view_ok (mx g)" "view_at g"
    using s(1) by (simp_all add: screen_inv_def playable_def fruits_ok_def gfx_inv_def)
  obtain a b where ab: "free (mz g) a b" "play_x g = 12 * a" "play_y g = 12 * b" using s(3) player_rest by blast
  note f = free_inside[OF p(1) ab(1)]
  have win: "win_in (mz g) (mx g)" using p(8) by (simp add: win_in_def view_at_def)
  obtain won m1 x1 h where m: "on_maze W (visit a b) g = Some (won, g\<lparr>mz := m1, mx := x1\<rparr>)" "painted h (mx g) x1"
    "displays W m1 x1" "kept (mz g) m1" "fruits_ok m1" "won \<longleftrightarrow> n_fruits m1 = 0 \<and> cell m1 a b AND MAZE_EXIT \<noteq> 0"
    using on_maze_visit[OF p(2,3,6,7) win f player_no_wrap[OF s(1,2) ab(2) f(1,2)]] by blast
  have dv: "play_x g sdiv BLOCK_X_DIM = a" "play_y g sdiv BLOCK_Y_DIM = b"
    using pixel_block[of "12 * a"] pixel_block[of "12 * b"] f ab(2,3) by (simp_all add: BLOCK_X_DIM_def BLOCK_Y_DIM_def)
  have mm: "maze_x_dim m1 = maze_x_dim (mz g)" "maze_y_dim m1 = maze_y_dim (mz g)" using m(4) by (simp_all add: kept_def)
  have w: "show_x x1 = show_x (mx g)" "show_y x1 = show_y (mx g)" using painted_fields(1,2)[OF m(2)] by simp_all
  have "screen_inv W (g\<lparr>mz := m1, mx := x1\<rparr>)"
    using s(1) playable_kept[OF m(4,5) p(1)] painted_inv[OF m(2) p(5)] m(3) mm w by (simp add: screen_inv_def view_at_def)
  then have "game_inv W (g\<lparr>mz := m1, mx := x1\<rparr>)"
    using assms player_kept[OF m(4) p(4) s(3)] s(2) mm w by (simp add: game_inv_def panned_def)
  moreover have "free m1 a b"
    using player_kept[OF m(4) p(4) s(3)] ab(2,3) by (auto simp: player_rest)
  moreover have "unveil_around_player W g = Some (won, g\<lparr>mz := m1, mx := x1\<rparr>)" unfolding unveil_around_player_def dv by (rule m(1))
  ultimately show ?thesis using m(4,6) ab(2,3) by blast
qed

lemma new_square_inv:
  assumes "game_inv W g" "move_cnt g = 0"
  shows "\<exists>won g'. new_square W junk g = Some (won, g') \<and> kept (mz g) (mz g') \<and>
    (if won then game_inv W g' \<and> n_fruits (mz g') = 0 \<and> cell (mz g') (play_x g' div 12) (play_y g' div 12) AND MAZE_EXIT \<noteq> 0
     else set_out W g')"
proof -
  obtain won m1 x1 a b where v: "unveil_around_player W g = Some (won, g\<lparr>mz := m1, mx := x1\<rparr>)"
    "game_inv W (g\<lparr>mz := m1, mx := x1\<rparr>)" "play_x g = 12 * a" "play_y g = 12 * b" "free m1 a b"
    "won \<longleftrightarrow> n_fruits m1 = 0 \<and> cell m1 a b AND MAZE_EXIT \<noteq> 0" "kept (mz g) m1"
    using visit_inv[OF assms] by blast
  let ?g = "g\<lparr>mz := m1, mx := x1\<rparr>"
  show ?thesis
  proof (cases won)
    case True
    then show ?thesis using v by (auto simp: new_square_def)
  next
    case False
    have p: "playable m1" using v(2) by (simp add: game_inv_def screen_inv_def)
    obtain op where op: "find_open_directions a b m1 = Some op"
      "\<forall>d. op ! dir_num d = free m1 (a + step_x (Some d)) (b + step_y (Some d))"
      using open_directions[OF p v(5)] by blast
    have dv: "play_x ?g sdiv BLOCK_X_DIM = a" "play_y ?g sdiv BLOCK_Y_DIM = b"
      using pixel_block[of "12 * a"] pixel_block[of "12 * b"] free_inside[OF p v(5)] v(3,4)
      by (simp_all add: BLOCK_X_DIM_def BLOCK_Y_DIM_def)
    have "new_square W junk g = Some (False, choose_dir junk op ?g)"
      using v(1) False op(1) dv by (simp add: new_square_def)
    moreover have "set_out W (choose_dir junk op ?g)" "mz (choose_dir junk op ?g) = m1"
      using choose_dir_set_out(1,2)[OF v(2), of a b op junk] assms(2) v(3-5) op(2) by simp_all
    ultimately show ?thesis using v(7) by auto
  qed
qed

lemma show_player_inv:
  assumes "screen_inv W g" "panned g" "player_at (mz g) (play_x g) (play_y g) (dir g) (move_cnt g)" "readable (behind_build W)"
  shows "\<exists>x u. show_player W g = Some (g\<lparr>mx := x, old_value_buf := u\<rparr>) \<and> screen_inv W (g\<lparr>mx := x, old_value_buf := u\<rparr>) \<and>
    panned (g\<lparr>mx := x, old_value_buf := u\<rparr>) \<and> monitor x (player_pixel W g)"
proof -
  have i: "gfx_inv (mx g)" "displays W (mz g) (mx g)" using assms(1) by (simp_all add: screen_inv_def)
  obtain x u where x: "show_player W g = Some (g\<lparr>mx := x, old_value_buf := u\<rparr>)" "gfx_inv x" "displays W (mz g) x"
    "show_x x = show_x (mx g)" "show_y x = show_y (mx g)" "monitor x (player_pixel W g)"
    using show_player_spec[OF i player_visible[OF assms(1-3)] assms(4)] by blast
  have "screen_inv W (g\<lparr>mx := x, old_value_buf := u\<rparr>)" "panned (g\<lparr>mx := x, old_value_buf := u\<rparr>)"
    using assms(1,2) x(2-5) by (simp_all add: screen_inv_def view_at_def panned_def)
  then show ?thesis using x(1,6) by blast
qed

lemma player_pixel_upd [simp]:
  "player_pixel W (g\<lparr>mx := x\<rparr>) = player_pixel W g" "player_pixel W (g\<lparr>old_value_buf := u\<rparr>) = player_pixel W g"
  by (simp_all add: player_pixel_def fun_eq_iff Let_def)

text \<open>The call of the switch statement of \<^verbatim>\<open>rtc_thread\<close>.\<close>

lemma move_inv:
  assumes "screen_inv W g" "panned g" "player_at (mz g) (play_x g) (play_y g) e k"
  shows "\<exists>g'. (case d of DIR_UP \<Rightarrow> move_up W g | DIR_RIGHT \<Rightarrow> move_right W g | DIR_DOWN \<Rightarrow> move_down W g | DIR_LEFT \<Rightarrow> move_left W g) = Some g' \<and>
    screen_inv W g' \<and> panned g' \<and> moved_to (play_x g + step_x (Some d)) (play_y g + step_y (Some d)) g g'"
proof -
  have p: "playable (mz g)" using assms(1) by (simp add: screen_inv_def)
  note b = player_between[OF p assms(3)] view_bounds(3,4)[OF assms(1)]
  have r: "1 \<le> play_x g" "play_x g < 1900" "play_x g < 2000" "0 \<le> play_x g"
    "1 \<le> play_y g" "play_y g < 1000" "play_y g < 2000" "0 \<le> play_y g"
    using b by linarith+
  show ?thesis
    using move_up_inv[OF assms(1,2) r(5,7)] move_right_inv[OF assms(1,2) r(4,2)] move_down_inv[OF assms(1,2) r(8,6)]
      move_left_inv[OF assms(1,2) r(1,3)]
    by (cases d) simp_all
qed

lemma move_player_inv:
  assumes "set_out W g" "readable (behind_build W)" "monitor (mx g) (player_pixel W g)"
  shows "\<exists>g'. move_player W g = Some g' \<and> game_inv W g' \<and> monitor (mx g') (player_pixel W g') \<and> mz g' = mz g"
proof (cases "dir g")
  case None
  then show ?thesis using assms by (auto simp: move_player_def set_out_def game_inv_def)
next
  case (Some d)
  let ?g = "g\<lparr>last_dir := d, move_cnt := move_cnt g - 1\<rparr>"
  have s: "screen_inv W ?g" "panned ?g" "player_at (mz g) (play_x g) (play_y g) (Some d) (move_cnt g)" "move_cnt g > 0"
    "next_dir g \<noteq> None"
    using assms(1) Some by (auto simp: set_out_def panned_def)
  have "player_at (mz ?g) (play_x ?g) (play_y ?g) (Some d) (move_cnt g)" using s(3) by simp
  then obtain g2 where g2: "(case d of DIR_UP \<Rightarrow> move_up W ?g | DIR_RIGHT \<Rightarrow> move_right W ?g | DIR_DOWN \<Rightarrow> move_down W ?g
      | DIR_LEFT \<Rightarrow> move_left W ?g) = Some g2"
    "screen_inv W g2" "panned g2" "moved_to (play_x ?g + step_x (Some d)) (play_y ?g + step_y (Some d)) ?g g2"
    using move_inv[OF s(1,2)] by blast
  have f: "mz g2 = mz g" "dir g2 = Some d" "move_cnt g2 = move_cnt g - 1" "next_dir g2 = next_dir g"
    "play_x g2 = play_x g + step_x (Some d)" "play_y g2 = play_y g + step_y (Some d)"
    using g2(4) Some by (auto simp: moved_to_def)
  have at: "player_at (mz g2) (play_x g2) (play_y g2) (dir g2) (move_cnt g2)"
    unfolding f by (rule player_advance[OF s(3,4)])
  have "move_cnt g \<le> 12" using s(3) by (simp add: player_at_def)
  then have k: "move_cnt g2 < 12" by (simp add: f(3))
  obtain x u where x: "show_player W g2 = Some (g2\<lparr>mx := x, old_value_buf := u\<rparr>)" "screen_inv W (g2\<lparr>mx := x, old_value_buf := u\<rparr>)"
    "panned (g2\<lparr>mx := x, old_value_buf := u\<rparr>)" "monitor x (player_pixel W g2)"
    using show_player_inv[OF g2(2,3) at assms(2)] by blast
  have "game_inv W (g2\<lparr>mx := x, old_value_buf := u\<rparr>)"
    using x(2,3) at k s(5) f(4) by (auto simp: game_inv_def)
  moreover have "move_player W g = Some (g2\<lparr>mx := x, old_value_buf := u\<rparr>)"
    using g2(1) x(1) Some by (simp add: move_player_def Let_def)
  ultimately show ?thesis using x(4) f(1) by simp
qed

lemma panned_place [simp]:
  "panned (g\<lparr>buttons := bt\<rparr>) = panned g" "panned (g\<lparr>buttons_pressed := bp\<rparr>) = panned g" "panned (g\<lparr>key_state := ks\<rparr>) = panned g"
  "panned (g\<lparr>quit_flag := q\<rparr>) = panned g" "panned (g\<lparr>next_dir := e\<rparr>) = panned g"
  by (simp_all add: panned_def)

lemma game_inv_place [simp]:
  "game_inv W (g\<lparr>buttons := bt\<rparr>) = game_inv W g" "game_inv W (g\<lparr>buttons_pressed := bp\<rparr>) = game_inv W g"
  "game_inv W (g\<lparr>key_state := ks\<rparr>) = game_inv W g" "game_inv W (g\<lparr>quit_flag := q\<rparr>) = game_inv W g"
  by (simp_all add: game_inv_def)

lemma game_inv_turn: "game_inv W g \<Longrightarrow> game_inv W (g\<lparr>next_dir := Some d\<rparr>)"
  by (simp add: game_inv_def)

lemma thread_step_inv: "game_inv W g \<Longrightarrow> game_inv W (thread_step e g)"
  using game_inv_turn by (cases e) (auto simp: keyboard_key_def tux_turn_def)

lemma fold_thread_inv: "game_inv W g \<Longrightarrow> game_inv W (fold thread_step es g)"
  by (induction es arbitrary: g) (simp_all add: thread_step_inv)

lemma thread_step_same: "mz (thread_step e g) = mz g" "mx (thread_step e g) = mx g" "play_x (thread_step e g) = play_x g"
  "play_y (thread_step e g) = play_y g" "last_dir (thread_step e g) = last_dir g"
  by (cases e; simp add: keyboard_key_def tux_turn_def)+

lemma fold_thread_mz: "mz (fold thread_step es g) = mz g"
  by (induction es arbitrary: g) (simp_all add: thread_step_same)

text \<open>Showing the maze without the player, after the level is won.\<close>

lemma show_maze_inv:
  assumes "game_inv W g" "readable (behind_build W)"
  shows "\<exists>x. show_screen (behind_build W) (fill_palette_wall r gr b (mx g)) = Some x \<and> game_inv W (g\<lparr>mx := x\<rparr>) \<and>
    monitor x (maze_pixel W (mz g))"
proof -
  let ?s = "fill_palette_wall r gr b (mx g)"
  have i: "gfx_inv (mx g)" "displays W (mz g) (mx g)" using assms(1) by (simp_all add: game_inv_def screen_inv_def)
  have s: "gfx_inv ?s" by (rule gfx_step_inv[OF gfx_wall i(1)])
  have f: "build ?s = build (mx g)" "show_x ?s = show_x (mx g)" "show_y ?s = show_y (mx g)" "img3 ?s = img3 (mx g)"
    "img3_off ?s = img3_off (mx g)"
    by (simp_all add: fill_palette_wall_def)
  obtain x where x: "show_screen (behind_build W) ?s = Some x" "display_start x = target_img x"
    "\<forall>a b. 0 \<le> a \<and> a < 320 \<and> 0 \<le> b \<and> b < 182 \<longrightarrow> page_pixel x (target_img x) a b = pixel ?s (show_x ?s + a) (show_y ?s + b)"
    "build x = build ?s" "show_x x = show_x ?s" "show_y x = show_y ?s" "img3 x = img3 ?s" "img3_off x = img3_off ?s"
    using show_screen_spec[of ?s "behind_build W"] assms(2) s by (auto simp: gfx_inv_def)
  have x_inv: "gfx_inv x" by (rule gfx_step_inv[OF gfx_show[OF x(1)] s])
  have same: "pixel ?s a b = pixel (mx g) a b" "pixel x a b = pixel (mx g) a b" "in_win x a b = in_win (mx g) a b" for a b
    using x f by (simp_all add: pixel_def pix_addr_def in_win_def)
  have "displays W (mz g) x" using i(2) same by (simp add: displays_def)
  then have "game_inv W (g\<lparr>mx := x\<rparr>)"
    using assms(1) x_inv x(5,6) f by (auto simp: game_inv_def screen_inv_def view_at_def panned_def)
  moreover have "monitor x (maze_pixel W (mz g))"
    using x(2,3,5,6) same(1) f i(2) by (simp add: monitor_def displays_def in_win_def)
  ultimately show ?thesis using x(1) by blast
qed

lemma game_tick_inv:
  assumes "game_inv W g" "readable (behind_build W)"
  shows "\<exists>won g'. game_tick W btn es junk rgb g = Some (won, g') \<and> game_inv W g' \<and> kept (mz g) (mz g') \<and>
    (won \<longrightarrow> n_fruits (mz g') = 0 \<and> cell (mz g') (play_x g' div 12) (play_y g' div 12) AND MAZE_EXIT \<noteq> 0) \<and>
    monitor (mx g') (if won then maze_pixel W (mz g') else player_pixel W g')"
proof -
  define g1 where "g1 = fold thread_step es (g\<lparr>buttons := btn, buttons_pressed := (btn AND 0xFF \<noteq> 0xFF)\<rparr>)"
  define g2 where "g2 = reverse_now (next_dir g1) (next_dir g1) g1"
  have "game_inv W g1" using assms(1) fold_thread_inv by (simp add: g1_def)
  then have i: "game_inv W g2" unfolding g2_def by (rule reverse_now_inv)
  have run: "game_tick W btn es junk rgb g = do {
      (won, g3) \<leftarrow> (if move_cnt g2 = 0 then new_square W junk g2 else Some (False, g2));
      if won then do {
        x \<leftarrow> show_screen (behind_build W) (fill_palette_wall (fst rgb) (fst (snd rgb)) (snd (snd rgb)) (mx g3));
        Some (True, g3\<lparr>mx := x\<rparr>) }
      else do { g4 \<leftarrow> show_player W g3; g5 \<leftarrow> move_player W g4; Some (False, g5) } }"
    by (simp only: game_tick_def Let_def g1_def g2_def)
  have "\<exists>won g3. (if move_cnt g2 = 0 then new_square W junk g2 else Some (False, g2)) = Some (won, g3) \<and> kept (mz g2) (mz g3) \<and>
    (if won then game_inv W g3 \<and> n_fruits (mz g3) = 0 \<and> cell (mz g3) (play_x g3 div 12) (play_y g3 div 12) AND MAZE_EXIT \<noteq> 0
     else set_out W g3)"
  proof (cases "move_cnt g2 = 0")
    case True
    then show ?thesis using new_square_inv[OF i True, of junk] by simp
  next
    case False
    then have "set_out W g2" using i by (auto simp: game_inv_def set_out_def player_at_def)
    then show ?thesis using False by (intro exI[of _ False] exI[of _ g2]) simp
  qed
  then obtain won g3 where g3: "(if move_cnt g2 = 0 then new_square W junk g2 else Some (False, g2)) = Some (won, g3)"
    "if won then game_inv W g3 \<and> n_fruits (mz g3) = 0 \<and> cell (mz g3) (play_x g3 div 12) (play_y g3 div 12) AND MAZE_EXIT \<noteq> 0
     else set_out W g3" "kept (mz g2) (mz g3)" by blast
  have k: "kept (mz g) (mz g3)" using g3(3) by (simp add: g2_def g1_def reverse_now_def fold_thread_mz split: if_splits)
  show ?thesis
  proof (cases won)
    case True
    then have "game_inv W g3" using g3(2) by simp
    then obtain x where x: "show_screen (behind_build W) (fill_palette_wall (fst rgb) (fst (snd rgb)) (snd (snd rgb)) (mx g3)) = Some x"
      "game_inv W (g3\<lparr>mx := x\<rparr>)" "monitor x (maze_pixel W (mz g3))"
      using show_maze_inv assms(2) by blast
    have "game_tick W btn es junk rgb g = Some (True, g3\<lparr>mx := x\<rparr>)" unfolding run g3(1) using True x(1) by simp
    then show ?thesis using g3(2) True x(2,3) k by auto
  next
    case False
    then have s: "set_out W g3" using g3(2) by simp
    then obtain x u where x: "show_player W g3 = Some (g3\<lparr>mx := x, old_value_buf := u\<rparr>)" "screen_inv W (g3\<lparr>mx := x, old_value_buf := u\<rparr>)"
      "panned (g3\<lparr>mx := x, old_value_buf := u\<rparr>)" "monitor x (player_pixel W g3)"
      using show_player_inv[of W g3] assms(2) unfolding set_out_def by blast
    have "set_out W (g3\<lparr>mx := x, old_value_buf := u\<rparr>)" using s x(2,3) by (simp add: set_out_def)
    then obtain g5 where g5: "move_player W (g3\<lparr>mx := x, old_value_buf := u\<rparr>) = Some g5" "game_inv W g5" "monitor (mx g5) (player_pixel W g5)" "mz g5 = mz g3"
      using move_player_inv[of W "g3\<lparr>mx := x, old_value_buf := u\<rparr>"] assms(2) x(4) by auto
    have "game_tick W btn es junk rgb g = Some (False, g5)" unfolding run g3(1) using False x(1) g5(1) by simp
    then show ?thesis using g5(2-4) k by auto
  qed
qed

section \<open>Facts: frames\<close>

text \<open>The counters of the clock thread and the outcome, which a round does not touch.\<close>

definition counters :: "game \<Rightarrow> bool \<times> int \<times> int \<times> int \<times> int \<times> u32 list" where
  "counters g = (winner g, number g, ticks_total g, goodcount g, badcount g, led_words g)"

lemma counters_upd [simp]:
  "counters (g\<lparr>mz := m\<rparr>) = counters g" "counters (g\<lparr>mx := x\<rparr>) = counters g" "counters (g\<lparr>old_value_buf := u\<rparr>) = counters g"
  "counters (g\<lparr>map_x := a\<rparr>) = counters g" "counters (g\<lparr>map_y := a\<rparr>) = counters g" "counters (g\<lparr>play_x := b\<rparr>) = counters g"
  "counters (g\<lparr>play_y := b\<rparr>) = counters g" "counters (g\<lparr>last_dir := l\<rparr>) = counters g" "counters (g\<lparr>dir := d\<rparr>) = counters g"
  "counters (g\<lparr>next_dir := d\<rparr>) = counters g" "counters (g\<lparr>move_cnt := b\<rparr>) = counters g" "counters (g\<lparr>buttons := bt\<rparr>) = counters g"
  "counters (g\<lparr>buttons_pressed := p\<rparr>) = counters g" "counters (g\<lparr>key_state := n\<rparr>) = counters g" "counters (g\<lparr>quit_flag := p\<rparr>) = counters g"
  by (simp_all add: counters_def)

lemma counters_view:
  "shift_view W g = Some g' \<Longrightarrow> counters g' = counters g" "draw_horiz W y g = Some g' \<Longrightarrow> counters g' = counters g"
  "draw_vert W x g = Some g' \<Longrightarrow> counters g' = counters g" "show_player W g = Some g' \<Longrightarrow> counters g' = counters g"
  "on_maze W f g = Some (r, g') \<Longrightarrow> counters g' = counters g"
  by (auto simp: shift_view_def draw_horiz_def draw_vert_def show_player_def on_maze_def split: bind_splits)

lemma counters_moves:
  "move_up W g = Some g' \<Longrightarrow> counters g' = counters g" "move_down W g = Some g' \<Longrightarrow> counters g' = counters g"
  "move_left W g = Some g' \<Longrightarrow> counters g' = counters g" "move_right W g = Some g' \<Longrightarrow> counters g' = counters g"
  by (auto simp: move_up_def move_down_def move_left_def move_right_def Let_def dest!: counters_view split: bind_splits if_splits)

lemma counters_threads: "counters (fold thread_step es g) = counters g"
proof (induction es arbitrary: g)
  case (Cons e es)
  have "counters (thread_step e g) = counters g" by (cases e) (auto simp: keyboard_key_def tux_turn_def)
  then show ?case using Cons by simp
qed simp

lemma counters_tick: "game_tick W btn es junk rgb g = Some (won, g') \<Longrightarrow> counters g' = counters g"
  by (auto simp: game_tick_def new_square_def unveil_around_player_def move_player_def choose_dir_def reverse_now_def Let_def
      counters_threads dest!: counters_view counters_moves split: bind_splits if_splits option.splits dir_t.splits)


text \<open>A level being played.\<close>

definition playing :: "world \<Rightarrow> game \<Rightarrow> bool" where
  "playing W g \<longleftrightarrow> game_inv W g \<and> 1 \<le> number g \<and> number g \<le> MAX_LEVEL \<and> n_fruits (mz g) < 100 \<and> 0 \<le> ticks_total g"

lemma tick_loop_inv:
  assumes "playing W g" "readable (behind_build W)" "n \<le> length rs"
  shows "\<exists>won g'. tick_loop W n rs g = Some (won, g') \<and> playing W g' \<and> counters g' = counters g \<and>
    (won \<longrightarrow> n_fruits (mz g') = 0 \<and> cell (mz g') (play_x g' div 12) (play_y g' div 12) AND MAZE_EXIT \<noteq> 0) \<and>
    (0 < n \<longrightarrow> monitor (mx g') (if won then maze_pixel W (mz g') else player_pixel W g'))"
  using assms
proof (induction n arbitrary: g rs)
  case 0
  then show ?case by auto
next
  case (Suc n)
  obtain r rest where rs: "rs = r # rest" "n \<le> length rest" using Suc.prems(3) by (cases rs) auto
  let ?g = "fold thread_step (between r) g"
  have i: "game_inv W ?g" using Suc.prems(1) by (simp add: playing_def fold_thread_inv)
  obtain won g1 where g1: "game_tick W (r_buttons r) (polled r) (r_junk r) (r_rgb r) ?g = Some (won, g1)" "game_inv W g1" "kept (mz ?g) (mz g1)"
    "won \<longrightarrow> n_fruits (mz g1) = 0 \<and> cell (mz g1) (play_x g1 div 12) (play_y g1 div 12) AND MAZE_EXIT \<noteq> 0"
    "monitor (mx g1) (if won then maze_pixel W (mz g1) else player_pixel W g1)"
    using game_tick_inv[OF i Suc.prems(2)] by blast
  have c: "counters g1 = counters g" using counters_tick[OF g1(1)] counters_threads by simp
  then have p: "playing W g1"
    using Suc.prems(1) g1(2,3) fold_thread_mz[of "between r" g] by (simp add: playing_def counters_def kept_def)
  show ?case
  proof (cases won)
    case True
    then show ?thesis using g1 c p by (intro exI[of _ True] exI[of _ g1]) (simp add: rs(1))
  next
    case False
    obtain won' g' where g': "tick_loop W n rest g1 = Some (won', g')" "playing W g'" "counters g' = counters g1"
      "won' \<longrightarrow> n_fruits (mz g') = 0 \<and> cell (mz g') (play_x g' div 12) (play_y g' div 12) AND MAZE_EXIT \<noteq> 0"
      "0 < n \<longrightarrow> monitor (mx g') (if won' then maze_pixel W (mz g') else player_pixel W g')"
      using Suc.IH[OF p Suc.prems(2) rs(2)] by blast
    have "monitor (mx g') (if won' then maze_pixel W (mz g') else player_pixel W g')"
      using g'(1,5) g1(5) False by (cases n) auto
    then show ?thesis using g1(1) False g' c by (intro exI[of _ won'] exI[of _ g']) (simp add: rs(1))
  qed
qed

lemma playing_view:
  assumes "playing W g" "same_view (mx g) x"
  shows "playing W (g\<lparr>mx := x\<rparr>)"
proof -
  have i: "gfx_inv x" using same_view_inv[OF assms(2)] assms(1) by (simp add: playing_def game_inv_def screen_inv_def)
  have f: "show_x x = show_x (mx g)" "show_y x = show_y (mx g)" using assms(2) by (simp_all add: same_view_def)
  have "displays W (mz g) x = displays W (mz g) (mx g)"
    using same_view_facts(2,3)[OF assms(2)] by (simp add: displays_def)
  then show ?thesis
    using assms(1) i f by (auto simp: playing_def game_inv_def screen_inv_def view_at_def panned_def)
qed

lemma frame_display_inv:
  assumes "playing W g" "ticks_total g < 2147483648"
  shows "\<exists>x. frame_display data rgb g = Some (g\<lparr>mx := x, led_words := led_words g @ [tux_clock (ticks_total g div 32)],
      ticks_total := ticks_total g + sint (drop_bit 8 data),
      badcount := (if sint (drop_bit 8 data) > 1 then badcount g + 1 else badcount g),
      goodcount := (if sint (drop_bit 8 data) > 1 then goodcount g else goodcount g + 1)\<rparr>) \<and> same_view (mx g) x \<and>
    (\<forall>i < 320. \<forall>j < 18. page_pixel x 0 (int i) (int j) =
      (if text_pixel (status_text (number g) (ticks_total g div 32) (n_fruits (mz g))) i j then WHITE else word_of_int (number g)))"
proof -
  have n: "0 \<le> number g" "number g < 100" "0 \<le> n_fruits (mz g)" "n_fruits (mz g) < 100" "0 \<le> ticks_total g"
    using assms(1) by (auto simp: playing_def MAX_LEVEL_def game_inv_def screen_inv_def playable_def fruits_ok_def)
  have t: "ticks_total g sdiv TICKS_PER_SEC = ticks_total g div 32" "0 \<le> ticks_total g div 32" "ticks_total g div 32 < 67108864"
    using n(5) assms(2) by (simp_all add: TICKS_PER_SEC_def signed_divide_int_def sgn_if pos_imp_zdiv_nonneg_iff)
  obtain x1 where x1: "image_on_status_bar (number g) (number g) (ticks_total g div 32) (n_fruits (mz g)) (mx g) = Some x1"
    "same_view (mx g) x1" "\<forall>i < 320. \<forall>j < 18. page_pixel x1 0 (int i) (int j) =
      (if text_pixel (status_text (number g) (ticks_total g div 32) (n_fruits (mz g))) i j then WHITE else word_of_int (number g))"
    using status_bar_spec[OF n(1-4) t(2,3), of "number g" "mx g"] by blast
  define x2 where "x2 = (if (ticks_total g + sint (drop_bit 8 data)) smod 8 = 0 then fill_player_center (fst rgb) (fst (snd rgb)) (snd (snd rgb)) x1 else x1)"
  have x2: "same_view x1 x2" "vplanes x2 = vplanes x1" by (simp_all add: x2_def fill_player_center_def same_view_def)
  have "page_pixel x2 0 i j = page_pixel x1 0 i j" for i j by (simp add: page_pixel_def x2(2))
  moreover have "frame_display data rgb g = Some (g\<lparr>mx := x2, led_words := led_words g @ [tux_clock (ticks_total g div 32)],
      ticks_total := ticks_total g + sint (drop_bit 8 data),
      badcount := (if sint (drop_bit 8 data) > 1 then badcount g + 1 else badcount g),
      goodcount := (if sint (drop_bit 8 data) > 1 then goodcount g else goodcount g + 1)\<rparr>)"
    using x1(1) by (simp add: frame_display_def GET_FRUITS_def t(1) Let_def x2_def)
  ultimately show ?thesis using x1(3) same_view_trans[OF x1(2) x2(1)] by auto
qed

lemma clock_ticks:
  fixes data :: u32
  shows "0 \<le> sint (drop_bit 8 data)" "sint (drop_bit 8 data) < 16777216"
proof -
  have u: "uint (drop_bit 8 data) = uint data div 256" 
    using uint_lt2p[of data] by (simp only: unsigned_drop_bit_eq) (simp add: drop_bit_eq_div take_bit_int_eq_self)
  have "uint data < 4294967296" using uint_lt2p[of data] by simp
  then have b: "0 \<le> uint data div 256" "uint data div 256 < 16777216" by (simp_all add: pos_imp_zdiv_nonneg_iff)
  then have "sint (drop_bit 8 data) = uint data div 256" by (simp add: sint_uint u signed_take_bit_int_eq_self)
  then show "0 \<le> sint (drop_bit 8 data)" "sint (drop_bit 8 data) < 16777216" using b by simp_all
qed

lemma game_frame_inv:
  assumes "playing W g" "readable (behind_build W)" "ticks_total g < 2147483648" "8 \<le> length rs"
  shows "\<exists>won g'. game_frame W data rgb rs g = Some (won, g') \<and> playing W g' \<and>
    ticks_total g' = ticks_total g + sint (drop_bit 8 data) \<and> led_words g' = led_words g @ [tux_clock (ticks_total g div 32)] \<and>
    (won \<longrightarrow> n_fruits (mz g') = 0 \<and> cell (mz g') (play_x g' div 12) (play_y g' div 12) AND MAZE_EXIT \<noteq> 0) \<and>
    (0 < sint (drop_bit 8 data) \<longrightarrow> monitor (mx g') (if won then maze_pixel W (mz g') else player_pixel W g'))"
proof -
  let ?t = "sint (drop_bit 8 data)"
  obtain x where x: "frame_display data rgb g = Some (g\<lparr>mx := x, led_words := led_words g @ [tux_clock (ticks_total g div 32)],
      ticks_total := ticks_total g + ?t,
      badcount := (if ?t > 1 then badcount g + 1 else badcount g),
      goodcount := (if ?t > 1 then goodcount g else goodcount g + 1)\<rparr>)" "same_view (mx g) x"
    using frame_display_inv[OF assms(1,3)] by blast
  define g1 where "g1 = g\<lparr>mx := x, led_words := led_words g @ [tux_clock (ticks_total g div 32)],
      ticks_total := ticks_total g + ?t,
      badcount := (if ?t > 1 then badcount g + 1 else badcount g),
      goodcount := (if ?t > 1 then goodcount g else goodcount g + 1)\<rparr>"
  have p: "playing W g1"
    using playing_view[OF assms(1) x(2)] clock_ticks(1)[of data]
    by (auto simp: g1_def playing_def game_inv_def screen_inv_def view_at_def panned_def)
  define n where "n = nat (if ?t > 8 then 8 else ?t)"
  have n: "n \<le> length rs" "0 < ?t \<Longrightarrow> 0 < n" using assms(4) by (auto simp: n_def)
  obtain won g' where g': "tick_loop W n rs g1 = Some (won, g')" "playing W g'" "counters g' = counters g1"
    "won \<longrightarrow> n_fruits (mz g') = 0 \<and> cell (mz g') (play_x g' div 12) (play_y g' div 12) AND MAZE_EXIT \<noteq> 0"
    "0 < n \<longrightarrow> monitor (mx g') (if won then maze_pixel W (mz g') else player_pixel W g')"
    using tick_loop_inv[OF p assms(2) n(1)] by blast
  have "game_frame W data rgb rs g = Some (won, g')"
    using x(1) g'(1) by (simp add: game_frame_def Let_def n_def g1_def)
  moreover have "ticks_total g' = ticks_total g + ?t" "led_words g' = led_words g @ [tux_clock (ticks_total g div 32)]"
    using g'(3) by (simp_all add: counters_def g1_def)
  ultimately show ?thesis using g'(2,4,5) n(2) by blast
qed

section \<open>Facts: the start of a level\<close>

text \<open>Painting the window row by row.\<close>

lemma draw_lines_maze:
  assumes "view_ok (mx g)" "dims_ok (mz g)" "win_in (mz g) (mx g)" "\<forall>i \<in> set is. i < 182"
  shows "\<exists>x. draw_lines W is g = Some (g\<lparr>mx := x\<rparr>) \<and>
    painted (\<lambda>a b. if b \<in> (\<lambda>i. int i + show_y (mx g)) ` set is then Some (maze_pixel W (mz g) a b) else None) (mx g) x"
  using assms
proof (induction "is" arbitrary: g)
  case Nil
  have "g = g\<lparr>mx := mx g\<rparr>" by simp
  then show ?case using painted_refl[of "mx g"] by (auto intro: exI[of _ "mx g"])
next
  case (Cons i js)
  obtain x1 where x1: "draw_horiz_line (\<lambda>x y. fill_horiz_buffer (blocks W) x y (mz g)) (int i) (mx g) = Some (0, x1)"
    "painted (\<lambda>a b. if b = int i + show_y (mx g) then Some (maze_pixel W (mz g) a b) else None) (mx g) x1"
    using draw_horiz_maze[OF Cons.prems(1-3), of "int i" W] Cons.prems(4) by auto
  note f = painted_fields[OF x1(2)]
  let ?g = "g\<lparr>mx := x1\<rparr>"
  have "view_ok (mx ?g)" "dims_ok (mz ?g)" "win_in (mz ?g) (mx ?g)" "\<forall>i \<in> set js. i < 182"
    using Cons.prems f(1,2,5) by (simp_all add: win_in_def)
  then obtain x2 where x2: "draw_lines W js ?g = Some (?g\<lparr>mx := x2\<rparr>)"
    "painted (\<lambda>a b. if b \<in> (\<lambda>i. int i + show_y (mx ?g)) ` set js then Some (maze_pixel W (mz ?g) a b) else None) (mx ?g) x2"
    using Cons.IH[of ?g] by blast
  have "painted (\<lambda>a b. if b \<in> (\<lambda>i. int i + show_y (mx g)) ` set (i # js) then Some (maze_pixel W (mz g) a b) else None) (mx g) x2"
    by (rule painted_cong[OF painted_trans[OF x1(2)]], use x2(2) in simp) (use f(2) in auto)
  then show ?case using x1(1) x2(1) by (auto simp: draw_horiz_def)
qed

end
