(* ===== verification/MazeMake.thy ===== *)
theory MazeMake
  imports MazeRun
begin

text \<open>What \<^verbatim>\<open>make_maze\<close> produces.  While it digs, the boundary stays a wall, nothing but walls and marks
  is in the array and the digging stays at the points inside; in the end every point inside is open,
  the fruits are counted and there is one exit.\<close>

section \<open>The state while digging\<close>

definition border :: "maze_state \<Rightarrow> int \<Rightarrow> int \<Rightarrow> bool" where
  "border s u v \<longleftrightarrow> u = 0 \<or> u = 2 * maze_x_dim s \<or> v = 0 \<or> v = 2 * maze_y_dim s"

definition plain :: "byte \<Rightarrow> bool" where
  "plain b \<longleftrightarrow> b AND (MAZE_FRUIT OR MAZE_EXIT) = 0"

definition clean :: "maze_state \<Rightarrow> bool" where
  "clean s \<longleftrightarrow> dims_ok s \<and> (\<forall>b \<in> set (maze s). plain b) \<and> (\<forall>u v. in_view s u v \<and> border s u v \<longrightarrow> wall (cell s u v))"

text \<open>A location of the maze: the points with two odd coordinates.\<close>

definition location :: "maze_state \<Rightarrow> int \<Rightarrow> int \<Rightarrow> bool" where
  "location s x y \<longleftrightarrow> (\<exists>i j. x = 2 * i + 1 \<and> y = 2 * j + 1 \<and> 0 \<le> i \<and> i < maze_x_dim s \<and> 0 \<le> j \<and> j < maze_y_dim s)"

definition inner :: "maze_state \<Rightarrow> int \<Rightarrow> int \<Rightarrow> bool" where
  "inner s x y \<longleftrightarrow> 1 \<le> x \<and> x < 2 * maze_x_dim s \<and> 1 \<le> y \<and> y < 2 * maze_y_dim s"

text \<open>Only the array and the random numbers have changed.\<close>

definition dug :: "maze_state \<Rightarrow> maze_state \<Rightarrow> bool" where
  "dug s s' \<longleftrightarrow> (\<exists>m rs. s' = s\<lparr>maze := m, rands := rs\<rparr>)"

lemma dug_refl [simp]: "dug s s"
  unfolding dug_def by (rule exI[of _ "maze s"], rule exI[of _ "rands s"]) simp

lemma dug_trans:
  assumes "dug s s1" "dug s1 s2"
  shows "dug s s2"
proof -
  obtain m rs m' rs' where "s1 = s\<lparr>maze := m, rands := rs\<rparr>" "s2 = s1\<lparr>maze := m', rands := rs'\<rparr>"
    using assms by (auto simp: dug_def)
  then have "s2 = s\<lparr>maze := m', rands := rs'\<rparr>" by simp
  then show ?thesis unfolding dug_def by blast
qed

lemma dug_fields:
  assumes "dug s s'"
  shows "maze_x_dim s' = maze_x_dim s" "maze_y_dim s' = maze_y_dim s" "location s' x y = location s x y" "inner s' x y = inner s x y"
    "n_fruits s' = n_fruits s" "drawn s' = drawn s"
  using assms by (auto simp: dug_def location_def inner_def)

lemma dug_set_cell: "dug s (set_cell x y b s)"
  unfolding dug_def set_cell_def by (rule exI, rule exI[of _ "rands s"]) simp

lemma dug_rands: "dug s (s\<lparr>rands := rs\<rparr>)"
  unfolding dug_def by (rule exI[of _ "maze s"], rule exI[of _ rs]) simp

lemma location_inner: "location s x y \<Longrightarrow> inner s x y"
  by (auto simp: location_def inner_def)

lemma inner_view: "inner s x y \<Longrightarrow> in_view s x y"
  by (simp add: inner_def in_view_def)

lemma clean_rands [simp]: "clean (s\<lparr>rands := rs\<rparr>) = clean s"
  by (simp add: clean_def dims_ok_def in_view_def border_def)

lemma clean_dims: "clean s \<Longrightarrow> dims_ok s"
  by (simp add: clean_def)

lemma cell_set_cell_other:
  assumes "dims_ok s" "in_view s u v" "inner s x y" "\<not> (u = x \<and> v = y)"
  shows "cell (set_cell x y b s) u v = cell s u v"
proof -
  have "MAZE_INDEX s u v \<noteq> MAZE_INDEX s x y"
    using same_index[OF assms(1,2) inner_view[OF assms(3)]] assms(3,4) by (auto simp: inner_def)
  moreover have "0 \<le> MAZE_INDEX s u v" "0 \<le> MAZE_INDEX s x y"
    using index_bounds(1)[OF assms(1)] assms(2,3) by (simp_all add: in_view_def inner_def)
  ultimately show ?thesis by (simp add: cell_def set_cell_def MAZE_INDEX_def nat_eq_iff)
qed

lemma clean_set_cell:
  assumes "clean s" "inner s x y" "plain b"
  shows "clean (set_cell x y b s)"
proof -
  have d: "dims_ok s" by (rule clean_dims[OF assms(1)])
  have "wall (cell (set_cell x y b s) u v)" if "in_view s u v" "border s u v" for u v
  proof -
    have "\<not> (u = x \<and> v = y)" using that(2) assms(2) by (auto simp: border_def inner_def)
    then show ?thesis
      using cell_set_cell_other[OF d that(1) assms(2)] assms(1) that by (simp add: clean_def)
  qed
  moreover have "\<forall>c \<in> set (maze (set_cell x y b s)). plain c"
    using assms(1,3) set_update_subset_insert[of "maze s" "nat (MAZE_INDEX s x y)" b] by (auto simp: clean_def set_cell_def)
  ultimately show ?thesis using d by (simp add: clean_def in_view_def border_def)
qed

lemma plain_consts: "plain MAZE_NONE" "plain MAZE_WALL" "plain b \<Longrightarrow> plain (b OR MAZE_REACH)" "plain b \<Longrightarrow> plain (b AND c)"
proof -
  show "plain (b AND c)" if "plain b" using that unfolding plain_def by (metis and.assoc and.commute and_zero_eq)
qed (simp_all add: plain_def maze_bits bit.conj_disj_distrib2)

section \<open>The first phase\<close>

lemma rnd_Some: "rnd n s = Some (r, s') \<Longrightarrow> n \<noteq> 0 \<and> (\<exists>q rs. r = int q mod n \<and> s' = s\<lparr>rands := rs\<rparr>)"
  by (auto simp: rnd_def split: list.splits if_splits)

lemma pick_point_Some:
  assumes "pick_point again s = Some (x, y, s')" "dims_ok s"
  shows "location s x y \<and> \<not> again (cell s x y) \<and> (\<exists>rs. s' = s\<lparr>rands := rs\<rparr>)"
proof -
  let ?P = "\<lambda>again s r. dims_ok s \<longrightarrow> (case r of (x, y, s') \<Rightarrow>
    location s x y \<and> \<not> again (cell s x y) \<and> (\<exists>rs. s' = s\<lparr>rands := rs\<rparr>))"
  have "?P again s (x, y, s')"
  proof (rule pick_point.raw_induct[where P = ?P, OF _ assms(1)], intro impI)
    fix pp again s r
    assume IH: "\<And>again s r. pp again s = Some r \<Longrightarrow> ?P again s r" and ok: "dims_ok s"
      and run: "do { (r1, s1) \<leftarrow> rnd (maze_x_dim s) s; (r2, s2) \<leftarrow> rnd (maze_y_dim s1) s1;
        let x = r1 * 2 + 1; let y = r2 * 2 + 1; b \<leftarrow> mget s2 x y;
        if again b then pp again s2 else Some (x, y, s2) } = Some r"
    obtain q1 q2 rs where rr: "rnd (maze_x_dim s) s = Some (int q1 mod maze_x_dim s, s\<lparr>rands := q2 # rs\<rparr>)"
      using run by (auto simp: rnd_def split: list.splits if_splits bind_splits)
    let ?x = "int q1 mod maze_x_dim s * 2 + 1" and ?y = "int q2 mod maze_y_dim s * 2 + 1"
    have loc: "location s ?x ?y" using ok by (auto simp: location_def dims_ok_def)
    have d: "dims_ok (s\<lparr>rands := rs\<rparr>)" using ok by (simp add: dims_ok_def)
    have "in_view (s\<lparr>rands := rs\<rparr>) ?x ?y" using inner_view[OF location_inner[OF loc]] by (simp add: in_view_def)
    note g = mget_cell[OF d this]
    have r: "(if again (cell s ?x ?y) then pp again (s\<lparr>rands := rs\<rparr>) else Some (?x, ?y, s\<lparr>rands := rs\<rparr>)) = Some r"
      using run ok unfolding rr Option.bind.bind_lunit by (simp add: rnd_def g Let_def dims_ok_def)
    show "case r of (x, y, s') \<Rightarrow> location s x y \<and> \<not> again (cell s x y) \<and> (\<exists>rs. s' = s\<lparr>rands := rs\<rparr>)"
    proof (cases "again (cell s ?x ?y)")
      case True
      then show ?thesis using IH[of again "s\<lparr>rands := rs\<rparr>" r] r d by (auto simp: location_def)
    next
      case False
      then show ?thesis using r loc by auto
    qed
  qed
  then show ?thesis using assms(2) by simp
qed

text \<open>The weights: a direction that leaves the maze has none.\<close>

definition may_go :: "maze_state \<Rightarrow> int \<Rightarrow> int \<Rightarrow> nat \<Rightarrow> bool" where
  "may_go s x y d \<longleftrightarrow> d = 0 \<and> y > 1 \<or> d = 1 \<and> x < maze_x_dim s * 2 - 1 \<or> d = 2 \<and> y < maze_y_dim s * 2 - 1 \<or> d = 3 \<and> x > 1"

lemma add_weight_same: "add_weight False t x y s acc = Some acc"
  by (simp add: add_weight_def)

lemma pick_dir_inside:
  assumes "worm_weights x y p s = Some wt" "pick < wt ! 3"
  shows "may_go s x y (pick_dir pick wt)"
proof -
  obtain w0 w1 w2 w3 where w: "wt = [w0, w1, w2, w3]" "add_weight (y > 1) p x (y - 2) s 0 = Some w0"
    "add_weight (x < maze_x_dim s * 2 - 1) (p + 3) (x + 2) y s w0 = Some w1"
    "add_weight (y < maze_y_dim s * 2 - 1) (p + 2) x (y + 2) s w1 = Some w2"
    "add_weight (x > 1) (p + 1) (x - 2) y s w2 = Some w3"
    using assms(1) by (auto simp: worm_weights_def split: bind_splits)
  have "w0 \<le> pick \<or> y > 1" "w1 \<le> pick \<or> w0 > pick \<or> x < maze_x_dim s * 2 - 1"
    "w2 \<le> pick \<or> w1 > pick \<or> y < maze_y_dim s * 2 - 1" "w2 > pick \<or> x > 1"
    using w(2-5) add_weight_same assms(2) by (auto simp: w(1) add_weight_def split: if_splits)
  then show ?thesis using assms(2) by (auto simp: w(1) may_go_def)
qed
lemma put_inner:
  assumes "clean s" "inner s x y" "plain b"
  shows "mput x y b s = Some (set_cell x y b s)" "clean (set_cell x y b s)" "dug s (set_cell x y b s)"
  using mput_cell[OF clean_dims[OF assms(1)] inner_view[OF assms(2)]] clean_set_cell[OF assms] dug_set_cell by simp_all

lemma get_inner: "clean s \<Longrightarrow> inner s x y \<Longrightarrow> mget s x y = Some (cell s x y)"
  by (intro mget_cell clean_dims inner_view)

text \<open>A step of the worm stays inside.\<close>

definition ahead :: "nat \<Rightarrow> int \<times> int" where
  "ahead d = (if d = 0 then (0, - 1) else if d = 1 then (1, 0) else if d = 2 then (0, 1) else (- 1, 0))"

lemma ahead_inside:
  assumes "location s x y" "may_go s x y d" "ahead d = (dx, dy)"
  shows "inner s (x + dx) (y + dy)" "location s (x + 2 * dx) (y + 2 * dy)"
proof -
  obtain i j where ij: "x = 2 * i + 1" "y = 2 * j + 1" "0 \<le> i" "i < maze_x_dim s" "0 \<le> j" "j < maze_y_dim s"
    using assms(1) by (auto simp: location_def)
  have m: "0 \<le> i + dx" "i + dx < maze_x_dim s" "0 \<le> j + dy" "j + dy < maze_y_dim s"
    using assms(2,3) ij by (auto simp: may_go_def ahead_def split: if_splits)
  show "inner s (x + dx) (y + dy)" using m ij by (simp add: inner_def)
  show "location s (x + 2 * dx) (y + 2 * dy)"
    unfolding location_def using m ij by (intro exI[of _ "i + dx"] exI[of _ "j + dy"]) simp
qed

lemma worm_move_clean:
  assumes "clean s" "location s x y" "may_go s x y d"
  shows "\<exists>dx dy s1. ahead d = (dx, dy) \<and> worm_move d x y remaining s =
      Some (x + 2 * dx, y + 2 * dy, if cell s (x + 2 * dx) (y + 2 * dy) = MAZE_WALL then remaining - 1 else remaining, s1) \<and>
    s1 = set_cell (x + 2 * dx) (y + 2 * dy) MAZE_NONE (set_cell (x + dx) (y + dy) MAZE_NONE s) \<and>
    clean s1 \<and> location s (x + 2 * dx) (y + 2 * dy) \<and> dug s s1"
proof -
  obtain dx dy where a: "ahead d = (dx, dy)" by (cases "ahead d")
  note i = ahead_inside[OF assms(2,3) a]
  let ?s = "set_cell (x + dx) (y + dy) MAZE_NONE s"
  note p1 = put_inner[OF assms(1) i(1) plain_consts(1)]
  have j: "inner ?s (x + 2 * dx) (y + 2 * dy)" using location_inner[OF i(2)] by (simp add: inner_def)
  note p2 = put_inner[OF p1(2) j plain_consts(1)] get_inner[OF p1(2) j]
  have "(x + 2 * dx, y + 2 * dy) \<noteq> (x + dx, y + dy)" using a by (auto simp: ahead_def split: if_splits)
  then have c: "cell ?s (x + 2 * dx) (y + 2 * dy) = cell s (x + 2 * dx) (y + 2 * dy)"
    using cell_set_cell_other[OF clean_dims[OF assms(1)] inner_view[OF location_inner[OF i(2)]] i(1)] by auto
  have "worm_move d x y remaining s =
      Some (x + 2 * dx, y + 2 * dy, if cell s (x + 2 * dx) (y + 2 * dy) = MAZE_WALL then remaining - 1 else remaining,
        set_cell (x + 2 * dx) (y + 2 * dy) MAZE_NONE ?s)"
    unfolding worm_move_def using p1(1) p2(1,4) a c by (simp add: ahead_def Let_def split: if_splits)
  then show ?thesis using a i(2) p2(2) dug_trans[OF p1(3) p2(3)] by blast
qed

lemmas worm_loop_induct = worm_loop.raw_induct[where xa = "((((x, y), p), r), s)", unfolded prod.case] for x y p r s

lemma worm_loop_clean:
  assumes "worm_loop x y p remaining s = Some (x', y', r', s')" "clean s" "location s x y"
  shows "clean s' \<and> location s' x' y' \<and> dug s s'"
proof -
  let ?P = "\<lambda>x y p remaining s (r :: int \<times> int \<times> int \<times> maze_state). clean s \<and> location s x y \<longrightarrow>
    (case r of (x', y', r', s') \<Rightarrow> clean s' \<and> location s' x' y' \<and> dug s s')"
  have "?P x y p remaining s (x', y', r', s')"
  proof (rule worm_loop_induct[where P = ?P, OF _ assms(1)], intro impI)
    fix wl x y p remaining s r
    assume IH: "\<And>x y p remaining s r. wl x y p remaining s = Some r \<Longrightarrow> ?P x y p remaining s r" and pre: "clean s \<and> location s x y"
      and run: "do { wt \<leftarrow> worm_weights x y p s; (pick, s1) \<leftarrow> rnd (int (wt ! 3)) s;
        let dir = pick_dir (nat pick) wt;
        if (dir + 4 - p) mod 4 = 2 then Some (x, y, remaining, s1)
        else do { (x1, y1, rem1, s2) \<leftarrow> worm_move dir x y remaining s1; wl x1 y1 dir rem1 s2 } } = Some r"
    obtain wt pick s1 where w: "worm_weights x y p s = Some wt" "rnd (int (wt ! 3)) s = Some (pick, s1)"
      using run by (auto split: bind_splits)
    obtain q rs where pick: "int (wt ! 3) \<noteq> 0" "pick = int q mod int (wt ! 3)" "s1 = s\<lparr>rands := rs\<rparr>"
      using rnd_Some[OF w(2)] by blast
    have "0 \<le> pick" "pick < int (wt ! 3)" using pick(1,2) by simp_all
    then have go: "may_go s x y (pick_dir (nat pick) wt)" by (intro pick_dir_inside[OF w(1)]) simp
    define d where "d = pick_dir (nat pick) wt"
    have s1: "clean s1" "location s1 x y" "may_go s1 x y d" "dug s s1"
      using pre go dug_rands by (simp_all add: pick(3) location_def may_go_def d_def)
    show "case r of (x', y', r', s') \<Rightarrow> clean s' \<and> location s' x' y' \<and> dug s s'"
    proof (cases "(d + 4 - p) mod 4 = 2")
      case True
      then have "r = (x, y, remaining, s1)" using run w by (simp add: Let_def d_def[symmetric])
      then show ?thesis using s1 by simp
    next
      case False
      obtain x1 y1 r1 s2 where m: "worm_move d x y remaining s1 = Some (x1, y1, r1, s2)" "clean s2" "location s1 x1 y1" "dug s1 s2"
        using worm_move_clean[OF s1(1-3)] by blast
      have "wl x1 y1 d r1 s2 = Some r" using run w m(1) False by (simp add: Let_def d_def[symmetric])
      then have "?P x1 y1 d r1 s2 r" by (rule IH)
      then show ?thesis using m(2-4) s1(4) dug_fields(3)[OF m(4)] dug_trans by blast
    qed
  qed
  then show ?thesis using assms(2,3) by simp
qed

lemma worm_phase_clean:
  assumes "worm_phase remaining s = Some (x', y', s')" "clean s"
  shows "clean s' \<and> location s' x' y' \<and> dug s s'"
proof -
  let ?P = "\<lambda>remaining s (r :: int \<times> int \<times> maze_state). clean s \<longrightarrow> (case r of (x', y', s') \<Rightarrow> clean s' \<and> location s' x' y' \<and> dug s s')"
  have "?P remaining s (x', y', s')"
  proof (rule worm_phase.raw_induct[where P = ?P, OF _ assms(1)], intro impI)
    fix wp remaining s r
    assume IH: "\<And>remaining s r. wp remaining s = Some r \<Longrightarrow> ?P remaining s r" and pre: "clean s"
      and run: "do { (x, y, s1) \<leftarrow> pick_point (\<lambda>b. b AND MAZE_WALL = 0) s; s2 \<leftarrow> mput x y MAZE_NONE s1; (pref_dir, s3) \<leftarrow> rnd 4 s2;
        (x1, y1, rem1, s4) \<leftarrow> worm_loop x y (nat pref_dir) (remaining - 1) s3;
        if rem1 > 0 then wp rem1 s4 else Some (x1, y1, s4) } = Some r"
    obtain x y s1 where p: "pick_point (\<lambda>b. b AND MAZE_WALL = 0) s = Some (x, y, s1)"
      using run by (auto split: bind_splits)
    obtain rs where s1: "location s x y" "s1 = s\<lparr>rands := rs\<rparr>"
      using pick_point_Some[OF p clean_dims[OF pre]] by blast
    have c1: "clean s1" "location s1 x y" "dug s s1" using pre s1 dug_rands by (simp_all add: location_def)
    note m = put_inner[OF c1(1) location_inner[OF c1(2)] plain_consts(1)]
    define s2 where "s2 = set_cell x y MAZE_NONE s1"
    obtain pd s3 where r3: "rnd 4 s2 = Some (pd, s3)" using run p m(1) by (auto simp: s2_def split: bind_splits)
    obtain rs' where s3: "s3 = s2\<lparr>rands := rs'\<rparr>" using rnd_Some[OF r3] by blast
    have c3: "clean s3" "location s3 x y" "dug s s3"
      using m(2,3) c1 dug_trans[OF dug_trans[OF c1(3) m(3)] dug_rands] by (simp_all add: s3 s2_def location_def)
    obtain x1 y1 r1 s4 where w: "worm_loop x y (nat pd) (remaining - 1) s3 = Some (x1, y1, r1, s4)"
      using run p m(1) r3 by (auto simp: s2_def split: bind_splits)
    have c4: "clean s4" "location s4 x1 y1" "dug s s4" using worm_loop_clean[OF w c3(1,2)] dug_trans[OF c3(3)] by blast+
    have fin: "(if r1 > 0 then wp r1 s4 else Some (x1, y1, s4)) = Some r" using run p m(1) r3 w by (simp add: s2_def)
    show "case r of (x', y', s') \<Rightarrow> clean s' \<and> location s' x' y' \<and> dug s s'"
    proof (cases "r1 > 0")
      case True
      then have "?P r1 s4 r" using fin IH by simp
      then show ?thesis using c4 dug_trans by blast
    next
      case False
      then show ?thesis using fin c4 by auto
    qed
  qed
  then show ?thesis using assms(2) by simp
qed

section \<open>The second phase\<close>

lemma clean_walled:
  assumes "clean s"
  shows "walled s"
proof -
  have c: "\<not> is_open (maze s) (MAZE_INDEX s u v)" if "in_view s u v" "border s u v" for u v
    using assms that by (simp add: clean_def is_open_def wall_def cell_def)
  show ?thesis
    using clean_dims[OF assms] unfolding walled_def by (intro conjI ballI c) (auto simp: in_view_def border_def dims_ok_def)
qed

lemma marked_byte: "b \<in> set (marked_at m R) \<Longrightarrow> \<exists>c \<in> set m. b = c \<or> b = c OR MAZE_REACH"
  by (auto simp: marked_at_def)

lemma clean_marked:
  assumes "clean s"
  shows "clean (s\<lparr>maze := marked_at (maze s) R\<rparr>)" "dug s (s\<lparr>maze := marked_at (maze s) R\<rparr>)"
proof -
  let ?s = "s\<lparr>maze := marked_at (maze s) R\<rparr>"
  have d: "dims_ok s" "dims_ok ?s" using clean_dims[OF assms] by (simp_all add: dims_ok_def)
  have "wall (cell ?s u v)" if v: "in_view ?s u v" "border ?s u v" for u v
  proof -
    have w: "in_view s u v" "border s u v" using v by (simp_all add: in_view_def border_def)
    have "wall (cell s u v)" using assms w by (simp add: clean_def)
    moreover have "cell ?s u v = marked_at (maze s) R ! nat (MAZE_INDEX s u v)" by (simp add: cell_def MAZE_INDEX_def)
    ultimately show ?thesis
      using marked_at_bits(1)[of "MAZE_INDEX s u v" "maze s" R] index_bounds[OF d(1)] w(1)
      by (simp add: wall_def in_view_def cell_def)
  qed
  moreover have "plain b" if "b \<in> set (marked_at (maze s) R)" for b
    using marked_byte[OF that] assms plain_consts(3) by (auto simp: clean_def)
  ultimately show "clean ?s" using d(2) by (simp add: clean_def)
  show "dug s ?s" unfolding dug_def by (rule exI, rule exI[of _ "rands s"]) simp
qed

lemma mark_clean:
  assumes "clean s" "location s x y"
  shows "\<exists>n R. mark_maze_area x y s = Some (n, s\<lparr>maze := marked_at (maze s) R\<rparr>)"
proof -
  obtain i j where "x = 2 * i + 1" "y = 2 * j + 1" "0 \<le> i" "i < maze_x_dim s" "0 \<le> j" "j < maze_y_dim s"
    using assms(2) by (auto simp: location_def)
  then show ?thesis using mark_area_spec[OF clean_dims[OF assms(1)] clean_walled[OF assms(1)], of i j] by blast
qed

lemma next_point_clean:
  assumes "clean s" "location s x y" "next_point x y remaining trials s = Some (fr, x', y', t', s')"
  shows "location s x' y' \<and> (\<exists>rs. s' = s\<lparr>rands := rs\<rparr>)"
proof -
  obtain i j where ij: "x = 2 * i + 1" "y = 2 * j + 1" "0 \<le> i" "i < maze_x_dim s" "0 \<le> j" "j < maze_y_dim s"
    using assms(2) by (auto simp: location_def)
  define t where "t = (if remaining < 20 then trials else trials + 1)"
  note run = assms(3)[unfolded next_point_def, folded t_def, unfolded Let_def]
  show ?thesis
  proof (cases "remaining < 20 \<or> t > 100")
    case True
    define i' where "i' = (if i + 1 = maze_x_dim s then 0 else i + 1)"
    define j' where "j' = (if i + 1 = maze_x_dim s then (if j + 1 = maze_y_dim s then 0 else j + 1) else j)"
    have "x' = (if x + 2 > maze_x_dim s * 2 then x + 2 - maze_x_dim s * 2 else x + 2)"
      "y' = (if x + 2 > maze_x_dim s * 2 then (if y + 2 > 2 * maze_y_dim s then y + 2 - 2 * maze_y_dim s else y + 2) else y)" "s' = s"
      using run unfolding if_P[OF True] by (auto split: bind_splits)
    moreover from this have "x' = 2 * i' + 1" "y' = 2 * j' + 1" using ij by (auto simp: i'_def j'_def)
    moreover have "0 \<le> i'" "i' < maze_x_dim s" "0 \<le> j'" "j' < maze_y_dim s" using ij by (auto simp: i'_def j'_def)
    moreover have "s = s\<lparr>rands := rands s\<rparr>" by simp
    ultimately show ?thesis unfolding location_def by metis
  next
    case False
    then have "pick_point (\<lambda>b. b AND MAZE_REACH \<noteq> 0) s = Some (x', y', s')"
      using run unfolding if_not_P[OF False] by (auto split: bind_splits)
    then show ?thesis using pick_point_Some clean_dims[OF assms(1)] by blast
  qed
qed

text \<open>Opening the wall towards a reached location.\<close>

definition reached_at :: "maze_state \<Rightarrow> int \<Rightarrow> int \<Rightarrow> bool" where
  "reached_at s x y \<longleftrightarrow> cell s x y AND MAZE_REACH \<noteq> 0"

lemma try_open_at:
  assumes "clean s" "location s x y" "ahead d = (dx, dy)"
    and "MAZE_INDEX s (x + 2 * dx) (y + 2 * dy) = MAZE_INDEX s x y + c" "MAZE_INDEX s (x + dx) (y + dy) = MAZE_INDEX s x y + w"
  shows "try_open (may_go s x y d) (MAZE_INDEX s x y) c w s =
    Some (if may_go s x y d \<and> reached_at s (x + 2 * dx) (y + 2 * dy) then (True, set_cell (x + dx) (y + dy) MAZE_NONE s) else (False, s))"
proof (cases "may_go s x y d")
  case False
  then show ?thesis by (simp add: try_open_def)
next
  case True
  note i = ahead_inside[OF assms(2) True assms(3)]
  have g: "ird (maze s) (MAZE_INDEX s x y + c) = Some (cell s (x + 2 * dx) (y + 2 * dy))"
    using get_inner[OF assms(1) location_inner[OF i(2)]] by (simp add: mget_def assms(4))
  have p: "mput (x + dx) (y + dy) MAZE_NONE s = Some (set_cell (x + dx) (y + dy) MAZE_NONE s)"
    by (rule put_inner(1)[OF assms(1) i(1) plain_consts(1)])
  show ?thesis
    using True g p by (auto simp: try_open_def reached_def reached_at_def mput_def assms(5) split: bind_splits)
qed

definition opened :: "maze_state \<Rightarrow> int \<Rightarrow> int \<Rightarrow> maze_state \<Rightarrow> bool" where
  "opened s x y s' \<longleftrightarrow> (\<exists>d dx dy. may_go s x y d \<and> ahead d = (dx, dy) \<and> reached_at s (x + 2 * dx) (y + 2 * dy) \<and>
     s' = set_cell (x + dx) (y + dy) MAZE_NONE s)"

definition reachable_from :: "maze_state \<Rightarrow> int \<Rightarrow> int \<Rightarrow> bool" where
  "reachable_from s x y \<longleftrightarrow> (\<exists>d. may_go s x y d \<and> reached_at s (x + 2 * fst (ahead d)) (y + 2 * snd (ahead d)))"

lemma connect_point_spec:
  assumes "clean s" "location s x y"
  shows "\<exists>s'. connect_point x y s = Some (reachable_from s x y, s') \<and> (if reachable_from s x y then opened s x y s' else s' = s)"
proof -
  have m: "(y > 1) = may_go s x y 0" "(x > 1) = may_go s x y 3" "(x < 2 * maze_x_dim s - 1) = may_go s x y 1"
    "(y < 2 * maze_y_dim s - 1) = may_go s x y 2"
    by (auto simp: may_go_def)
  have a: "ahead 0 = (0, - 1)" "ahead 1 = (1, 0)" "ahead 2 = (0, 1)" "ahead 3 = (- 1, 0)" by (simp_all add: ahead_def)
  have t: "try_open (y > 1) (MAZE_INDEX s x y) (- 4 * maze_x_dim s) (- 2 * maze_x_dim s) s =
      Some (if may_go s x y 0 \<and> reached_at s x (y - 2) then (True, set_cell x (y - 1) MAZE_NONE s) else (False, s))"
    "try_open (x > 1) (MAZE_INDEX s x y) (- 2) (- 1) s =
      Some (if may_go s x y 3 \<and> reached_at s (x - 2) y then (True, set_cell (x - 1) y MAZE_NONE s) else (False, s))"
    "try_open (x < 2 * maze_x_dim s - 1) (MAZE_INDEX s x y) 2 1 s =
      Some (if may_go s x y 1 \<and> reached_at s (x + 2) y then (True, set_cell (x + 1) y MAZE_NONE s) else (False, s))"
    "try_open (y < 2 * maze_y_dim s - 1) (MAZE_INDEX s x y) (4 * maze_x_dim s) (2 * maze_x_dim s) s =
      Some (if may_go s x y 2 \<and> reached_at s x (y + 2) then (True, set_cell x (y + 1) MAZE_NONE s) else (False, s))"
    unfolding m
    using try_open_at[OF assms a(1), of "- 4 * maze_x_dim s" "- 2 * maze_x_dim s"] try_open_at[OF assms a(4), of "- 2" "- 1"]
      try_open_at[OF assms a(2), of 2 1] try_open_at[OF assms a(3), of "4 * maze_x_dim s" "2 * maze_x_dim s"]
    by (simp_all add: MAZE_INDEX_def algebra_simps)
  have o: "opened s x y (set_cell x (y - 1) MAZE_NONE s)" if "may_go s x y 0" "reached_at s x (y - 2)"
    unfolding opened_def using that a(1) by (intro exI[of _ 0] exI[of _ "0"] exI[of _ "- 1"]) simp
  have o3: "opened s x y (set_cell (x - 1) y MAZE_NONE s)" if "may_go s x y 3" "reached_at s (x - 2) y"
    unfolding opened_def using that a(4) by (intro exI[of _ 3] exI[of _ "- 1"] exI[of _ "0"]) simp
  have o1: "opened s x y (set_cell (x + 1) y MAZE_NONE s)" if "may_go s x y 1" "reached_at s (x + 2) y"
    unfolding opened_def using that a(2) by (intro exI[of _ 1] exI[of _ "1"] exI[of _ "0"]) simp
  have o2: "opened s x y (set_cell x (y + 1) MAZE_NONE s)" if "may_go s x y 2" "reached_at s x (y + 2)"
    unfolding opened_def using that a(3) by (intro exI[of _ 2] exI[of _ "0"] exI[of _ "1"]) simp
  have d: "may_go s x y e \<Longrightarrow> e = 0 \<or> e = 1 \<or> e = 2 \<or> e = 3" for e by (auto simp: may_go_def)
  have r: "reachable_from s x y \<longleftrightarrow> may_go s x y 0 \<and> reached_at s x (y - 2) \<or> may_go s x y 3 \<and> reached_at s (x - 2) y \<or>
      may_go s x y 1 \<and> reached_at s (x + 2) y \<or> may_go s x y 2 \<and> reached_at s x (y + 2)"
  proof
    assume "reachable_from s x y"
    then obtain e where e: "may_go s x y e" "reached_at s (x + 2 * fst (ahead e)) (y + 2 * snd (ahead e))"
      by (auto simp: reachable_from_def)
    then show "may_go s x y 0 \<and> reached_at s x (y - 2) \<or> may_go s x y 3 \<and> reached_at s (x - 2) y \<or>
      may_go s x y 1 \<and> reached_at s (x + 2) y \<or> may_go s x y 2 \<and> reached_at s x (y + 2)"
      using d[OF e(1)] a by auto
  qed (use a in \<open>force simp: reachable_from_def\<close>)
  show ?thesis
    unfolding connect_point_def Let_def t Option.bind.bind_lunit
    using o o1 o2 o3 r t(2-4) by auto
qed

lemma opened_clean:
  assumes "clean s" "location s x y" "opened s x y s'"
  shows "clean s'" "dug s s'"
proof -
  obtain d dx dy where o: "may_go s x y d" "ahead d = (dx, dy)" "s' = set_cell (x + dx) (y + dy) MAZE_NONE s"
    using assms(3) by (auto simp: opened_def)
  show "clean s'" "dug s s'"
    using put_inner(2,3)[OF assms(1) ahead_inside(1)[OF assms(2) o(1,2)] plain_consts(1)] by (simp_all add: o(3))
qed

text \<open>One round of the second phase: the location it looks at, and the new state.\<close>

definition connect_at :: "bool \<Rightarrow> int \<Rightarrow> int \<Rightarrow> int \<Rightarrow> maze_state \<Rightarrow> (int \<times> maze_state) option" where
  "connect_at fr x1 y1 remaining s1 =
     (if \<not> fr then Some (remaining, s1)
      else do {
        (op, s') \<leftarrow> connect_point x1 y1 s1;
        if op then do { (n, s'') \<leftarrow> mark_maze_area x1 y1 s'; Some (remaining - n, s'') }
        else Some (remaining, s') })"

lemma connect_at_clean:
  assumes "clean s" "location s x y"
  shows "\<exists>r' s'. connect_at fr x y remaining s = Some (r', s') \<and> clean s' \<and> dug s s'"
proof (cases "fr \<and> reachable_from s x y")
  case False
  then show ?thesis using connect_point_spec[OF assms] assms(1) by (auto simp: connect_at_def)
next
  case True
  obtain s1 where s1: "connect_point x y s = Some (True, s1)" "opened s x y s1" using connect_point_spec[OF assms] True by auto
  note c = opened_clean[OF assms s1(2)]
  have "location s1 x y" using dug_fields(3)[OF c(2)] assms(2) by simp
  then obtain n R where m: "mark_maze_area x y s1 = Some (n, s1\<lparr>maze := marked_at (maze s1) R\<rparr>)" using mark_clean[OF c(1)] by blast
  have "connect_at fr x y remaining s = Some (remaining - n, s1\<lparr>maze := marked_at (maze s1) R\<rparr>)"
    using True s1(1) m by (simp add: connect_at_def)
  then show ?thesis using clean_marked[OF c(1), of R] dug_trans[OF c(2)] by blast
qed

lemmas connect_loop_induct = connect_loop.raw_induct[where xa = "((((x, y), p), r), s)", unfolded prod.case] for x y p r s

lemma connect_loop_clean:
  assumes "connect_loop x y remaining trials s = Some s'" "clean s" "location s x y"
  shows "clean s' \<and> dug s s'"
proof -
  let ?P = "\<lambda>x y remaining trials s s'. clean s \<and> location s x y \<longrightarrow> clean s' \<and> dug s s'"
  have "?P x y remaining trials s s'"
  proof (rule connect_loop_induct[where P = ?P, OF _ assms(1)], intro impI)
    fix cl x y remaining trials s r
    assume IH: "\<And>x y remaining trials s r. cl x y remaining trials s = Some r \<Longrightarrow> ?P x y remaining trials s r"
      and pre: "clean s \<and> location s x y"
      and run: "do { (fr, x1, y1, trials1, s1) \<leftarrow> next_point x y remaining trials s;
        (rem2, s2) \<leftarrow> (if \<not> fr then Some (remaining, s1)
          else do { (op, s') \<leftarrow> connect_point x1 y1 s1;
            if op then do { (n, s'') \<leftarrow> mark_maze_area x1 y1 s'; Some (remaining - n, s'') } else Some (remaining, s') });
        if rem2 > 0 then cl x1 y1 rem2 trials1 s2 else Some s2 } = Some r"
    obtain fr x1 y1 t1 s1 where n: "next_point x y remaining trials s = Some (fr, x1, y1, t1, s1)"
      using run by (auto split: bind_splits)
    obtain rs where s1: "location s x1 y1" "s1 = s\<lparr>rands := rs\<rparr>" using next_point_clean[OF _ _ n] pre by blast
    have c1: "clean s1" "location s1 x1 y1" "dug s s1" using pre s1 dug_rands by (simp_all add: location_def)
    obtain r2 s2 where c: "connect_at fr x1 y1 remaining s1 = Some (r2, s2)" "clean s2" "dug s1 s2"
      using connect_at_clean[OF c1(1,2)] by blast
    have fin: "(if r2 > 0 then cl x1 y1 r2 t1 s2 else Some s2) = Some r"
      using run n c(1) by (simp add: connect_at_def)
    have "location s2 x1 y1" using dug_fields(3)[OF c(3)] c1(2) by simp
    then show "clean r \<and> dug s r"
      using fin IH[of x1 y1 r2 t1 s2 r] c(2) dug_trans[OF c1(3) c(3)] dug_trans by (cases "r2 > 0") auto
  qed
  then show ?thesis using assms(2,3) by simp
qed

section \<open>The last phase\<close>

lemma update_points_clean:
  assumes "clean s" "\<forall>(u, v) \<in> set ps. inner s u v" "\<And>b. plain b \<Longrightarrow> plain (f b)"
  shows "\<exists>s'. update_points f ps s = Some s' \<and> clean s' \<and> dug s s' \<and>
    (\<forall>u v c. inner s u v \<and> (\<forall>b. f b = c) \<and> ((u, v) \<in> set ps \<or> cell s u v = c) \<longrightarrow> cell s' u v = c)"
  using assms
proof (induction ps arbitrary: s)
  case (Cons p ps)
  obtain x y where p: "p = (x, y)" by (cases p)
  have i: "inner s x y" using Cons.prems(2) p by simp
  have "plain (cell s x y)"
    using Cons.prems(1) index_bounds[OF clean_dims[OF Cons.prems(1)]] inner_view[OF i]
    by (auto simp: clean_def cell_def in_view_def nat_less_iff)
  then have b: "plain (f (cell s x y))" by (rule Cons.prems(3))
  let ?s = "set_cell x y (f (cell s x y)) s"
  note m = put_inner[OF Cons.prems(1) i b]
  obtain s' where s': "update_points f ps ?s = Some s'" "clean s'" "dug ?s s'"
    "\<forall>u v c. inner ?s u v \<and> (\<forall>b. f b = c) \<and> ((u, v) \<in> set ps \<or> cell ?s u v = c) \<longrightarrow> cell s' u v = c"
    using Cons.IH[OF m(2)] Cons.prems(2,3) dug_fields(4)[OF m(3)] by auto
  have "cell s' u v = c" if "inner s u v" "\<forall>b. f b = c" "(u, v) \<in> set (p # ps) \<or> cell s u v = c" for u v c
  proof -
    have "(u, v) \<in> set ps \<or> cell ?s u v = c"
    proof (cases "u = x \<and> v = y")
      case True
      then show ?thesis using that(2) cell_set_cell[OF clean_dims[OF Cons.prems(1)] inner_view[OF i]] by simp
    next
      case False
      then show ?thesis
        using that(3) p cell_set_cell_other[OF clean_dims[OF Cons.prems(1)] inner_view[OF that(1)] i False] by auto
    qed
    then show ?thesis using s'(4) that(1,2) dug_fields(4)[OF m(3)] by blast
  qed
  then show ?case using s'(1-3) m get_inner[OF Cons.prems(1) i] dug_trans[OF m(3)] by (auto simp: p)
qed auto

text \<open>The arena: open inside, no exit yet.\<close>

definition arena :: "maze_state \<Rightarrow> bool" where
  "arena s \<longleftrightarrow> dims_ok s \<and> n_fruits s = int (fruit_cells s) \<and> (\<forall>b \<in> set (maze s). b AND MAZE_EXIT = 0) \<and>
     (\<forall>u v. in_view s u v \<longrightarrow> wall (cell s u v) = border s u v)"

lemma plain_fruit: "plain b \<Longrightarrow> \<not> has_fruit b \<and> b AND MAZE_EXIT = 0"
  by (auto simp: plain_def has_fruit_def bit.conj_disj_distrib or_eq_0_iff)

lemma clean_arena:
  assumes "clean s" "\<forall>u v. inner s u v \<longrightarrow> cell s u v = MAZE_NONE"
  shows "arena (s\<lparr>n_fruits := 0\<rparr>)"
proof -
  have "fruit_cells s = 0" using assms(1) plain_fruit by (auto simp: fruit_cells_def clean_def filter_empty_conv)
  moreover have "wall (cell s u v) = border s u v" if "in_view s u v" for u v
    using assms that by (cases "border s u v") (auto simp: clean_def border_def inner_def in_view_def wall_def MAZE_NONE_def)
  ultimately show ?thesis
    using assms(1) plain_fruit
    by (auto simp: arena_def clean_def dims_ok_def fruit_cells_def in_view_def border_def)
qed

lemma fruit_byte:
  assumes "0 \<le> k" "k < 7" "b AND MAZE_EXIT = 0"
  shows "(b OR (word_of_int (k + 1) * MAZE_FRUIT_1)) AND MAZE_EXIT = 0"
    "wall (b OR (word_of_int (k + 1) * MAZE_FRUIT_1)) = wall b"
proof -
  have "k \<in> {0, 1, 2, 3, 4, 5, 6}" using assms(1,2) by auto
  then have "(word_of_int (k + 1) * MAZE_FRUIT_1) AND MAZE_EXIT = 0" "(word_of_int (k + 1) * MAZE_FRUIT_1) AND MAZE_WALL = 0"
    by (auto simp: maze_bits)
  then show "(b OR (word_of_int (k + 1) * MAZE_FRUIT_1)) AND MAZE_EXIT = 0"
    "wall (b OR (word_of_int (k + 1) * MAZE_FRUIT_1)) = wall b"
    using assms(3) by (simp_all add: wall_def bit.conj_disj_distrib2)
qed

lemma arena_set_cell:
  assumes "arena s" "inner s x y" "b AND MAZE_EXIT = 0" "\<not> wall b" "\<not> has_fruit (cell s x y)" "has_fruit b"
  shows "arena ((set_cell x y b s)\<lparr>n_fruits := n_fruits s + 1\<rparr>)"
proof -
  let ?s = "(set_cell x y b s)\<lparr>n_fruits := n_fruits s + 1\<rparr>"
  have d: "dims_ok s" using assms(1) by (simp add: arena_def)
  note v = inner_view[OF assms(2)]
  have w: "wall (cell ?s u q) = border ?s u q" if "in_view ?s u q" for u q
  proof -
    have uq: "in_view s u q" "border ?s u q = border s u q" using that by (simp_all add: in_view_def border_def)
    have "wall (cell (set_cell x y b s) u q) = border s u q"
    proof (cases "u = x \<and> q = y")
      case True
      then show ?thesis using assms(2,4) cell_set_cell[OF d v] by (auto simp: border_def inner_def)
    next
      case False
      then show ?thesis using cell_set_cell_other[OF d uq(1) assms(2)] assms(1) uq(1) by (simp add: arena_def)
    qed
    then show ?thesis by (simp add: uq(2))
  qed
  have "\<forall>c \<in> set (maze (set_cell x y b s)). c AND MAZE_EXIT = 0"
    using assms(1,3) set_update_subset_insert[of "maze s" "nat (MAZE_INDEX s x y)" b] by (auto simp: arena_def set_cell_def)
  moreover have "fruit_cells (set_cell x y b s) = fruit_cells s + 1"
    using fruit_cells_set_cell[OF d v, of b] assms(5,6) by simp
  then have "int (fruit_cells ?s) = n_fruits ?s" using assms(1) by (simp add: arena_def fruit_cells_def)
  moreover have "dims_ok ?s" using d by (simp add: dims_ok_def)
  ultimately show ?thesis using w by (simp add: arena_def)
qed

lemma arena_rands [simp]: "arena (s\<lparr>rands := rs\<rparr>) = arena s"
  by (simp add: arena_def dims_ok_def in_view_def border_def fruit_cells_def)

lemma add_fruit_arena:
  assumes "add_a_fruit_internal s = Some s'" "arena s"
  shows "arena s' \<and> n_fruits s' = n_fruits s + 1 \<and> maze_x_dim s' = maze_x_dim s \<and> maze_y_dim s' = maze_y_dim s \<and> drawn s' = drawn s"
proof -
  have d: "dims_ok s" using assms(2) by (simp add: arena_def)
  obtain x y s1 where p: "pick_point (\<lambda>b. b AND MAZE_FRUIT \<noteq> 0) s = Some (x, y, s1)"
    using assms(1) by (auto simp: add_a_fruit_internal_def add_a_fruit_at_def split: bind_splits)
  obtain rs where s1: "location s x y" "cell s x y AND MAZE_FRUIT = 0" "s1 = s\<lparr>rands := rs\<rparr>"
    using pick_point_Some[OF p d] by blast
  obtain r s2 where r: "rnd (int NUM_FRUIT_TYPES) s1 = Some (r, s2)"
    using assms(1) p by (auto simp: add_a_fruit_internal_def add_a_fruit_at_def split: bind_splits)
  obtain q rs' where s2: "r = int q mod 7" "s2 = s\<lparr>rands := rs'\<rparr>"
    using rnd_Some[OF r] s1(3) by (auto simp: NUM_FRUIT_TYPES_def)
  have a2: "arena s2" "dims_ok s2" "inner s2 x y" "cell s2 x y = cell s x y"
    using assms(2) d location_inner[OF s1(1)] by (simp_all add: s2(2) dims_ok_def inner_def)
  define b where "b = cell s2 x y OR (word_of_int (r + 1) * MAZE_FRUIT_1)"
  have rr: "0 \<le> r" "r < 7" by (simp_all add: s2(1))
  have nf: "\<not> has_fruit (cell s2 x y)" using s1(2) a2(4) by (simp add: has_fruit_def)
  have e: "cell s2 x y AND MAZE_EXIT = 0"
    using a2(1) index_bounds[OF a2(2)] inner_view[OF a2(3)]
    by (auto simp: arena_def cell_def in_view_def nat_less_iff)
  have nw: "\<not> wall (cell s2 x y)" using a2(1,3) inner_view[OF a2(3)] by (auto simp: arena_def border_def inner_def)
  have b: "has_fruit b" "b AND MAZE_EXIT = 0" "\<not> wall b"
    using new_fruit(1)[OF rr nf] fruit_byte[OF rr e] nw by (simp_all add: b_def)
  have s': "s' = (set_cell x y b s2)\<lparr>n_fruits := n_fruits s2 + 1\<rparr>"
    using assms(1) p r mget_cell[OF a2(2) inner_view[OF a2(3)]] mput_cell[OF a2(2) inner_view[OF a2(3)], of b]
    by (simp add: add_a_fruit_internal_def add_a_fruit_at_def b_def)
  show ?thesis
    using arena_set_cell[OF a2(1,3) b(2,3) nf b(1)] by (simp add: s' s2(2))
qed

lemma add_fruits_arena:
  "add_fruits n s = Some s' \<Longrightarrow> arena s \<Longrightarrow>
    arena s' \<and> n_fruits s' = n_fruits s + int n \<and> maze_x_dim s' = maze_x_dim s \<and> maze_y_dim s' = maze_y_dim s \<and> drawn s' = drawn s"
proof (induction n arbitrary: s)
  case (Suc n)
  obtain s1 where s1: "add_a_fruit_internal s = Some s1" "add_fruits n s1 = Some s'" using Suc.prems(1) by (auto split: bind_splits)
  show ?case using Suc.IH[OF s1(2)] add_fruit_arena[OF s1(1) Suc.prems(2)] by auto
qed simp

text \<open>The maze of a level: the border is a wall and the inside open, the exit is one of the locations,
  and the fruits are counted.\<close>

definition level_maze :: "maze_state \<Rightarrow> bool" where
  "level_maze s \<longleftrightarrow> fruits_ok s \<and> exit_unique s \<and> location s (exit_x s) (exit_y s) \<and> cell s (exit_x s) (exit_y s) AND MAZE_EXIT \<noteq> 0 \<and>
     (\<forall>u v. in_view s u v \<longrightarrow> wall (cell s u v) = border s u v)"

lemma exit_byte: "wall (b OR MAZE_EXIT) = wall b" "has_fruit (b OR MAZE_EXIT) = has_fruit b" "(b OR MAZE_EXIT) AND MAZE_EXIT \<noteq> 0"
  by (simp_all add: wall_def has_fruit_def maze_bits bit.conj_disj_distrib2)

lemma place_exit_level:
  assumes "place_exit s = Some s'" "arena s"
  shows "level_maze s' \<and> n_fruits s' = n_fruits s \<and> maze_x_dim s' = maze_x_dim s \<and> maze_y_dim s' = maze_y_dim s \<and> drawn s' = drawn s"
proof -
  have d: "dims_ok s" using assms(2) by (simp add: arena_def)
  obtain x y s1 where p: "pick_point (\<lambda>b. b AND MAZE_FRUIT \<noteq> 0) s = Some (x, y, s1)"
    using assms(1) by (auto simp: place_exit_def split: bind_splits)
  obtain rs where s1: "location s x y" "s1 = s\<lparr>rands := rs\<rparr>" using pick_point_Some[OF p d] by blast
  have a1: "arena s1" "dims_ok s1" "inner s1 x y" using assms(2) d location_inner[OF s1(1)] by (simp_all add: s1(2) dims_ok_def inner_def)
  note v = inner_view[OF a1(3)]
  define b where "b = cell s1 x y OR MAZE_EXIT"
  have s': "s' = (set_cell x y b s1)\<lparr>exit_x := x, exit_y := y\<rparr>"
    using assms(1) p mget_cell[OF a1(2) v] mput_cell[OF a1(2) v, of b] by (simp add: place_exit_def b_def)
  have cell': "cell s' u q = cell (set_cell x y b s1) u q" for u q by (simp add: s' cell_def MAZE_INDEX_def)
  have view': "in_view s' u q = in_view s1 u q" "border s' u q = border s1 u q" "location s' u q = location s u q" for u q
    by (simp_all add: s' in_view_def border_def location_def s1(2))
  have at: "cell s' x y = b" using cell_set_cell[OF a1(2) v] cell' by simp
  have off: "cell s' u q = cell s1 u q" if "in_view s1 u q" "\<not> (u = x \<and> q = y)" for u q
    using cell_set_cell_other[OF a1(2) that(1) a1(3) that(2)] cell' by simp
  have "wall (cell s' u q) = border s1 u q" if "in_view s1 u q" for u q
    using at off[OF that] a1(1) that exit_byte(1) by (cases "u = x \<and> q = y") (auto simp: arena_def b_def)
  moreover have "cell s1 u q AND MAZE_EXIT = 0" if "in_view s1 u q" for u q
    using a1(1) index_bounds[OF a1(2)] that by (auto simp: arena_def cell_def in_view_def nat_less_iff)
  then have none: "\<not> (cell s' u q AND MAZE_EXIT \<noteq> 0)" if "in_view s1 u q" "\<not> (u = x \<and> q = y)" for u q
    using off[OF that] that(1) by simp
  have ex: "exit_x s' = x" "exit_y s' = y" by (simp_all add: s')
  have "exit_unique s'" unfolding exit_unique_def ex view'(1) using none by blast
  moreover have "fruit_cells s' = fruit_cells s1"
    using fruit_cells_set_cell[OF a1(2) v, of b] exit_byte(2) by (simp add: s' b_def fruit_cells_def split: if_splits)
  then have "fruits_ok s'"
    using a1(1) a1(2) v by (simp add: fruits_ok_def arena_def s' dims_ok_def in_view_def)
  moreover have "cell s' x y AND MAZE_EXIT \<noteq> 0" using at exit_byte(3) by (simp add: b_def)
  ultimately show ?thesis using s1 view' ex by (simp add: level_maze_def) (simp add: s')
qed

section \<open>The whole\<close>

lemma fresh_clean:
  assumes "1 \<le> x_dim" "x_dim \<le> 50" "1 \<le> y_dim" "y_dim \<le> 30"
  shows "clean (s\<lparr>maze_x_dim := x_dim, maze_y_dim := y_dim, maze := replicate MAZE_SIZE MAZE_WALL\<rparr>)"
proof -
  let ?s = "s\<lparr>maze_x_dim := x_dim, maze_y_dim := y_dim, maze := replicate MAZE_SIZE MAZE_WALL\<rparr>"
  have d: "dims_ok ?s" using assms by (simp add: dims_ok_def)
  have "cell ?s u v = MAZE_WALL" if "in_view ?s u v" for u v
    using index_bounds[OF d, of u v] that by (simp add: in_view_def cell_def nat_less_iff)
  then show ?thesis using d plain_consts(2) by (auto simp: clean_def wall_def MAZE_WALL_def)
qed

lemma odd_points_inner: "\<forall>(u, v) \<in> set (odd_points s). inner s u v"
  by (auto simp: odd_points_def inner_def)

lemma inner_points_inner: "set (inner_points s) = {(u, v). inner s u v}"
  by (auto simp: inner_points_def inner_def)

lemma make_maze_level:
  assumes "make_maze x_dim y_dim start_fruits s = Some (r, s')" "r = 0"
  shows "level_maze s' \<and> maze_x_dim s' = x_dim \<and> maze_y_dim s' = y_dim \<and> n_fruits s' = int (nat start_fruits) \<and> drawn s' = drawn s \<and>
    14 \<le> x_dim \<and> x_dim \<le> 50 \<and> 8 \<le> y_dim \<and> y_dim \<le> 30"
proof -
  have dims: "14 \<le> x_dim" "x_dim \<le> 50" "8 \<le> y_dim" "y_dim \<le> 30"
    using assms by (auto simp: make_maze_def MAZE_MIN_X_DIM_def MAZE_MAX_X_DIM_def MAZE_MIN_Y_DIM_def MAZE_MAX_Y_DIM_def split: if_splits)
  define s0 where "s0 = s\<lparr>maze_x_dim := x_dim, maze_y_dim := y_dim, maze := replicate MAZE_SIZE MAZE_WALL\<rparr>"
  have c0: "clean s0" unfolding s0_def using dims by (intro fresh_clean) simp_all
  have run: "do { (x, y, s1) \<leftarrow> worm_phase (x_dim * y_dim) s0; (n, s2) \<leftarrow> mark_maze_area 1 1 s1;
      s3 \<leftarrow> connect_loop x y (x_dim * y_dim - n) 0 s2;
      s4 \<leftarrow> update_points (\<lambda>b. b AND NOT MAZE_REACH) (odd_points s3) s3;
      s5 \<leftarrow> update_points (\<lambda>b. MAZE_NONE) (inner_points s4) s4;
      s6 \<leftarrow> add_fruits (nat start_fruits) (s5\<lparr>n_fruits := 0\<rparr>);
      s7 \<leftarrow> place_exit s6; Some (0 :: int, s7) } = Some (r, s')"
    using assms by (auto simp: make_maze_def s0_def Let_def split: if_splits)
  obtain x y s1 where w: "worm_phase (x_dim * y_dim) s0 = Some (x, y, s1)" using run by (auto split: bind_splits)
  have c1: "clean s1" "location s1 x y" "dug s0 s1" using worm_phase_clean[OF w c0] by simp_all
  have l1: "location s1 1 1" unfolding location_def using clean_dims[OF c1(1)] by (intro exI[of _ 0]) (simp add: dims_ok_def)
  obtain n R where m: "mark_maze_area 1 1 s1 = Some (n, s1\<lparr>maze := marked_at (maze s1) R\<rparr>)" using mark_clean[OF c1(1) l1] by blast
  let ?s2 = "s1\<lparr>maze := marked_at (maze s1) R\<rparr>"
  note c2 = clean_marked[OF c1(1), of R]
  have l2: "location ?s2 x y" using c1(2) by (simp add: location_def)
  obtain s3 where s3: "connect_loop x y (x_dim * y_dim - n) 0 ?s2 = Some s3" using run w m by (auto split: bind_splits)
  have c3: "clean s3" "dug ?s2 s3" using connect_loop_clean[OF s3 c2(1) l2] by simp_all
  obtain s4 where s4: "update_points (\<lambda>b. b AND NOT MAZE_REACH) (odd_points s3) s3 = Some s4" "clean s4" "dug s3 s4"
    using update_points_clean[OF c3(1) odd_points_inner, of "\<lambda>b. b AND NOT MAZE_REACH"] plain_consts(4) by blast
  have i4: "\<forall>(u, v) \<in> set (inner_points s4). inner s4 u v" by (simp add: inner_points_inner)
  obtain s5 where s5: "update_points (\<lambda>b. MAZE_NONE) (inner_points s4) s4 = Some s5" "clean s5" "dug s4 s5"
    "\<forall>u v c. inner s4 u v \<and> (\<forall>b :: byte. MAZE_NONE = c) \<and> ((u, v) \<in> set (inner_points s4) \<or> cell s4 u v = c) \<longrightarrow> cell s5 u v = c"
    using update_points_clean[OF s4(2) i4, of "\<lambda>b. MAZE_NONE"] plain_consts(1) by blast
  have "\<forall>u v. inner s5 u v \<longrightarrow> cell s5 u v = MAZE_NONE"
    using s5(4) inner_points_inner[of s4] dug_fields(4)[OF s5(3)] by auto
  note a = clean_arena[OF s5(2) this]
  have f5: "maze_x_dim s5 = x_dim" "maze_y_dim s5 = y_dim" "drawn s5 = drawn s"
    using dug_fields[OF dug_trans[OF dug_trans[OF c1(3) c2(2)] dug_trans[OF c3(2) dug_trans[OF s4(3) s5(3)]]]] by (simp_all add: s0_def)
  obtain s6 where s6: "add_fruits (nat start_fruits) (s5\<lparr>n_fruits := 0\<rparr>) = Some s6"
    using run w m s3 s4(1) s5(1) by (auto split: bind_splits)
  note a6 = add_fruits_arena[OF s6 a]
  have "place_exit s6 = Some s'" using run w m s3 s4(1) s5(1) s6 by (auto split: bind_splits)
  then show ?thesis using place_exit_level[of s6 s'] a6 f5 dims by simp
qed

end
