(* ===== verification/MazeSupply.thy ===== *)
theory MazeSupply
  imports MazeMake
begin

text \<open>\<^verbatim>\<open>make_maze\<close> returns: for every allowed size there are random numbers with which all its loops end.
  The loop that joins the areas is the interesting one: it may scan the locations in order, and then
  comes within a round to an unreached location next to a reached one.\<close>

section \<open>Choosing a location\<close>

lemma pick_here:
  assumes "dims_ok s" "0 \<le> i" "i < maze_x_dim s" "0 \<le> j" "j < maze_y_dim s" "\<not> again (cell s (2 * i + 1) (2 * j + 1))"
  shows "pick_point again (s\<lparr>rands := nat i # nat j # rs\<rparr>) = Some (2 * i + 1, 2 * j + 1, s\<lparr>rands := rs\<rparr>)"
proof -
  let ?s = "s\<lparr>rands := nat i # nat j # rs\<rparr>"
  have d: "dims_ok ?s" using assms(1) by (simp add: dims_ok_def)
  have "point_of ?s (nat i, nat j) = (2 * i + 1, 2 * j + 1)" using assms(2-5) by (simp add: point_of_def)
  then show ?thesis using pick_point_step[OF d, of "nat i" "nat j" rs again] assms(6) by (simp add: byte_at_def)
qed

section \<open>The first phase\<close>

lemma add_weight_ex:
  assumes "inside \<Longrightarrow> \<exists>b. mget s x y = Some b"
  shows "\<exists>w. add_weight inside t x y s acc = Some w \<and> acc \<le> w \<and> (inside \<and> t mod 4 = 2 \<longrightarrow> w = acc + 3)"
proof (cases inside)
  case True
  then obtain b where b: "mget s x y = Some b" using assms by blast
  have "t mod 4 = 2 \<longrightarrow> turn_wt ! (t mod 4) ! (if b = MAZE_WALL then 1 else 0) = 3" by (simp add: turn_wt_def)
  then show ?thesis using True b by (simp add: add_weight_def)
qed (simp add: add_weight_def)

lemma worm_weights_ex:
  assumes "clean s" "location s x y"
  shows "\<exists>w0 w1 w2 w3. worm_weights x y p s = Some [w0, w1, w2, w3] \<and> w0 \<le> w1 \<and> w1 \<le> w2 \<and> w2 \<le> w3 \<and>
    (x < maze_x_dim s * 2 - 1 \<and> (p + 3) mod 4 = 2 \<longrightarrow> w1 = w0 + 3) \<and> (x > 1 \<and> (p + 1) mod 4 = 2 \<longrightarrow> w3 = w2 + 3)"
proof -
  have g: "\<exists>b. mget s (x + 2 * dx) (y + 2 * dy) = Some b" if "may_go s x y d" "ahead d = (dx, dy)" for d dx dy
    using get_inner[OF assms(1) location_inner[OF ahead_inside(2)[OF assms(2) that]]] by blast
  have "y > 1 \<Longrightarrow> \<exists>b. mget s x (y - 2) = Some b" using g[of 0 0 "- 1"] by (simp add: may_go_def ahead_def)
  from add_weight_ex[OF this, where t = p and acc = 0]
  obtain w0 where w0: "add_weight (y > 1) p x (y - 2) s 0 = Some w0" by blast
  have "x < maze_x_dim s * 2 - 1 \<Longrightarrow> \<exists>b. mget s (x + 2) y = Some b" using g[of 1 1 0] by (simp add: may_go_def ahead_def)
  from add_weight_ex[OF this, where t = "p + 3" and acc = w0]
  obtain w1 where w1: "add_weight (x < maze_x_dim s * 2 - 1) (p + 3) (x + 2) y s w0 = Some w1" "w0 \<le> w1"
    "x < maze_x_dim s * 2 - 1 \<and> (p + 3) mod 4 = 2 \<longrightarrow> w1 = w0 + 3" by blast
  have "y < maze_y_dim s * 2 - 1 \<Longrightarrow> \<exists>b. mget s x (y + 2) = Some b" using g[of 2 0 1] by (simp add: may_go_def ahead_def)
  from add_weight_ex[OF this, where t = "p + 2" and acc = w1]
  obtain w2 where w2: "add_weight (y < maze_y_dim s * 2 - 1) (p + 2) x (y + 2) s w1 = Some w2" "w1 \<le> w2" by blast
  have "x > 1 \<Longrightarrow> \<exists>b. mget s (x - 2) y = Some b" using g[of 3 "- 1" 0] by (simp add: may_go_def ahead_def)
  from add_weight_ex[OF this, where t = "p + 1" and acc = w2]
  obtain w3 where w3: "add_weight (x > 1) (p + 1) (x - 2) y s w2 = Some w3" "w2 \<le> w3" "x > 1 \<and> (p + 1) mod 4 = 2 \<longrightarrow> w3 = w2 + 3" by blast
  show ?thesis using w0 w1 w2 w3 by (simp add: worm_weights_def)
qed

lemma worm_weights_rands: "worm_weights x y p (s\<lparr>rands := rs\<rparr>) = worm_weights x y p s"
  by (simp add: worm_weights_def add_weight_def mget_def MAZE_INDEX_def cong: if_cong)

text \<open>A worm that turns back at once stops.\<close>

lemma worm_stop:
  assumes "clean s" "location s x y" "2 \<le> maze_x_dim s"
  shows "\<exists>p q. p < 4 \<and> (\<forall>rs. worm_loop x y p remaining (s\<lparr>rands := q # rs\<rparr>) = Some (x, y, remaining, s\<lparr>rands := rs\<rparr>))"
proof (cases "x < maze_x_dim s * 2 - 1")
  case True
  obtain w0 w1 w2 w3 where w: "worm_weights x y 3 s = Some [w0, w1, w2, w3]" "w0 \<le> w1" "w1 \<le> w2" "w2 \<le> w3" "w1 = w0 + 3"
    using worm_weights_ex[OF assms(1,2), of 3] True by auto
  have "worm_loop x y 3 remaining (s\<lparr>rands := w0 # rs\<rparr>) = Some (x, y, remaining, s\<lparr>rands := rs\<rparr>)" for rs
    using w(2-5) by (subst worm_loop.simps) (simp add: worm_weights_rands w(1) rnd_def)
  then show ?thesis by (intro exI[of _ 3] exI[of _ w0]) simp
next
  case False
  then have "x > 1" using assms(2,3) by (auto simp: location_def)
  then obtain w0 w1 w2 w3 where w: "worm_weights x y 1 s = Some [w0, w1, w2, w3]" "w0 \<le> w1" "w1 \<le> w2" "w2 \<le> w3" "w3 = w2 + 3"
    using worm_weights_ex[OF assms(1,2), of 1] by auto
  have "worm_loop x y 1 remaining (s\<lparr>rands := w2 # rs\<rparr>) = Some (x, y, remaining, s\<lparr>rands := rs\<rparr>)" for rs
    using w(2-5) by (subst worm_loop.simps) (simp add: worm_weights_rands w(1) rnd_def del: One_nat_def)
  then show ?thesis by (intro exI[of _ 1] exI[of _ w2]) simp
qed

text \<open>The locations that are still a wall.\<close>

definition solid :: "maze_state \<Rightarrow> (int \<times> int) set" where
  "solid s = {(i, j). 0 \<le> i \<and> i < maze_x_dim s \<and> 0 \<le> j \<and> j < maze_y_dim s \<and> wall (cell s (2 * i + 1) (2 * j + 1))}"

definition unmarked :: "maze_state \<Rightarrow> bool" where
  "unmarked s \<longleftrightarrow> (\<forall>b \<in> set (maze s). b AND MAZE_REACH = 0)"

lemma finite_solid: "finite (solid s)"
  by (rule finite_subset[of _ "{0..<maze_x_dim s} \<times> {0..<maze_y_dim s}"]) (auto simp: solid_def)

lemma unmarked_set_cell: "unmarked s \<Longrightarrow> unmarked (set_cell x y MAZE_NONE s)"
  using set_update_subset_insert[of "maze s" "nat (MAZE_INDEX s x y)" MAZE_NONE]
  by (auto simp: unmarked_def set_cell_def MAZE_NONE_def)

lemma solid_step:
  assumes "clean s" "(i, j) \<in> solid s"
  defines "s1 \<equiv> set_cell (2 * i + 1) (2 * j + 1) MAZE_NONE s"
  shows "location s (2 * i + 1) (2 * j + 1)" "clean s1" "solid s1 = solid s - {(i, j)}"
proof -
  have ij: "0 \<le> i" "i < maze_x_dim s" "0 \<le> j" "j < maze_y_dim s" using assms(2) by (simp_all add: solid_def)
  show l: "location s (2 * i + 1) (2 * j + 1)" unfolding location_def using ij by blast
  note d = clean_dims[OF assms(1)]
  show "clean s1" unfolding s1_def by (rule put_inner(2)[OF assms(1) location_inner[OF l] plain_consts(1)])
  have at: "\<not> wall (cell s1 (2 * i + 1) (2 * j + 1))"
    unfolding s1_def using cell_set_cell[OF d inner_view[OF location_inner[OF l]]] by (simp add: wall_def MAZE_NONE_def)
  have off: "cell s1 (2 * u + 1) (2 * v + 1) = cell s (2 * u + 1) (2 * v + 1)"
    if "0 \<le> u" "u < maze_x_dim s" "0 \<le> v" "v < maze_y_dim s" "\<not> (u = i \<and> v = j)" for u v
    unfolding s1_def using that by (intro cell_set_cell_other[OF d _ location_inner[OF l]]) (auto simp: in_view_def)
  have dims: "maze_x_dim s1 = maze_x_dim s" "maze_y_dim s1 = maze_y_dim s" by (simp_all add: s1_def)
  have "wall (cell s1 (2 * u + 1) (2 * v + 1)) = (wall (cell s (2 * u + 1) (2 * v + 1)) \<and> \<not> (u = i \<and> v = j))"
    if "0 \<le> u" "u < maze_x_dim s" "0 \<le> v" "v < maze_y_dim s" for u v
    using off[OF that] at by (cases "u = i \<and> v = j") auto
  then show "solid s1 = solid s - {(i, j)}" unfolding solid_def dims by auto
qed

lemma worm_phase_step:
  assumes "clean s" "(i, j) \<in> solid s" "2 \<le> maze_x_dim s"
  defines "s1 \<equiv> set_cell (2 * i + 1) (2 * j + 1) MAZE_NONE s"
  shows "\<exists>p q. \<forall>rs. worm_phase remaining (s\<lparr>rands := nat i # nat j # p # q # rs\<rparr>) =
    (if remaining - 1 > 0 then worm_phase (remaining - 1) (s1\<lparr>rands := rs\<rparr>) else Some (2 * i + 1, 2 * j + 1, s1\<lparr>rands := rs\<rparr>))"
proof -
  note st = solid_step[OF assms(1,2), folded s1_def]
  let ?x = "2 * i + 1" and ?y = "2 * j + 1"
  have ij: "0 \<le> i" "i < maze_x_dim s" "0 \<le> j" "j < maze_y_dim s" "wall (cell s ?x ?y)" using assms(2) by (simp_all add: solid_def)
  have "location s1 ?x ?y" "2 \<le> maze_x_dim s1" using st(1) assms(3) by (simp_all add: location_def s1_def)
  then obtain p q where pq: "p < 4" "\<forall>rs. worm_loop ?x ?y p (remaining - 1) (s1\<lparr>rands := q # rs\<rparr>) = Some (?x, ?y, remaining - 1, s1\<lparr>rands := rs\<rparr>)"
    using worm_stop[OF st(2), of ?x ?y "remaining - 1"] by auto
  have "worm_phase remaining (s\<lparr>rands := nat i # nat j # p # q # rs\<rparr>) =
    (if remaining - 1 > 0 then worm_phase (remaining - 1) (s1\<lparr>rands := rs\<rparr>) else Some (2 * i + 1, 2 * j + 1, s1\<lparr>rands := rs\<rparr>))" for rs
  proof -
    have pick: "pick_point (\<lambda>b. b AND MAZE_WALL = 0) (s\<lparr>rands := nat i # nat j # p # q # rs\<rparr>) = Some (?x, ?y, s\<lparr>rands := p # q # rs\<rparr>)"
      by (rule pick_here[OF clean_dims[OF assms(1)] ij(1-4)]) (use ij(5) in \<open>simp add: wall_def\<close>)
    have put: "mput ?x ?y MAZE_NONE (s\<lparr>rands := p # q # rs\<rparr>) = Some (s1\<lparr>rands := p # q # rs\<rparr>)"
      using put_inner(1)[OF assms(1) location_inner[OF st(1)] plain_consts(1)] by (simp add: mput_rands s1_def)
    have r: "rnd 4 (s1\<lparr>rands := p # q # rs\<rparr>) = Some (int p, s1\<lparr>rands := q # rs\<rparr>)" using pq(1) by (simp add: rnd_def)
    show ?thesis by (subst worm_phase.simps) (simp add: pick put r pq(2))
  qed
  then show ?thesis by blast
qed

lemma worm_phase_ex:
  assumes "clean s" "unmarked s" "card (solid s) = Suc n" "2 \<le> maze_x_dim s"
  shows "\<exists>rs x y s'. unmarked s' \<and> (\<forall>tl. worm_phase (int (Suc n)) (s\<lparr>rands := rs @ tl\<rparr>) = Some (x, y, s'\<lparr>rands := tl\<rparr>))"
  using assms
proof (induction n arbitrary: s)
  case (0 s)
  have "solid s \<noteq> {}" using 0 by auto
  then obtain i j where ij: "(i, j) \<in> solid s" by auto
  obtain p q where pq: "\<forall>rs. worm_phase 1 (s\<lparr>rands := nat i # nat j # p # q # rs\<rparr>) =
      Some (2 * i + 1, 2 * j + 1, (set_cell (2 * i + 1) (2 * j + 1) MAZE_NONE s)\<lparr>rands := rs\<rparr>)"
    using worm_phase_step[OF 0(1) ij 0(4), of 1] by auto
  then show ?case
    using unmarked_set_cell[OF 0(2)]
    by (intro exI[of _ "[nat i, nat j, p, q]"] exI[of _ "2 * i + 1"] exI[of _ "2 * j + 1"]
      exI[of _ "set_cell (2 * i + 1) (2 * j + 1) MAZE_NONE s"]) simp
next
  case (Suc n s)
  have "solid s \<noteq> {}" using Suc.prems by auto
  then obtain i j where ij: "(i, j) \<in> solid s" by auto
  let ?s = "set_cell (2 * i + 1) (2 * j + 1) MAZE_NONE s"
  note st = solid_step[OF Suc.prems(1) ij]
  have c: "card (solid ?s) = Suc n" using Suc.prems(3) ij finite_solid[of s] by (simp add: st(3))
  obtain p q where pq: "\<forall>rs. worm_phase (int (Suc (Suc n))) (s\<lparr>rands := nat i # nat j # p # q # rs\<rparr>) =
      worm_phase (int (Suc n)) (?s\<lparr>rands := rs\<rparr>)"
    using worm_phase_step[OF Suc.prems(1) ij Suc.prems(4), of "int (Suc (Suc n))"] by auto
  obtain rs x y s' where rs: "unmarked s'" "\<forall>tl. worm_phase (int (Suc n)) (?s\<lparr>rands := rs @ tl\<rparr>) = Some (x, y, s'\<lparr>rands := tl\<rparr>)"
    using Suc.IH[OF st(2) unmarked_set_cell[OF Suc.prems(2)] c] Suc.prems(4) by auto
  show ?case using pq rs by (intro exI[of _ "nat i # nat j # p # q # rs"] exI[of _ x] exI[of _ y] exI[of _ s']) simp
qed

section \<open>The second phase\<close>

definition unreached :: "maze_state \<Rightarrow> int set" where
  "unreached s = {p \<in> lattice s. \<not> is_marked (maze s) p}"

lemma location_index:
  assumes "clean s" "location s x y"
  shows "MAZE_INDEX s x y \<in> lattice s" "is_marked (maze s) (MAZE_INDEX s x y) = reached_at s x y"
  using assms in_lattice by (auto simp: location_def is_marked_def reached_at_def cell_def)

lemma location_odd: "location s x y \<Longrightarrow> odd x \<and> odd y"
  by (auto simp: location_def)

lemma lattice_location:
  assumes "p \<in> lattice s"
  shows "\<exists>x y. location s x y \<and> p = MAZE_INDEX s x y"
proof -
  obtain i j where "0 \<le> i" "i < maze_x_dim s" "0 \<le> j" "j < maze_y_dim s" "p = MAZE_INDEX s (2 * i + 1) (2 * j + 1)"
    using assms by (auto simp: lattice_def)
  then show ?thesis unfolding location_def by blast
qed

lemma lattice_cong: "maze_x_dim s' = maze_x_dim s \<Longrightarrow> maze_y_dim s' = maze_y_dim s \<Longrightarrow> lattice s' = lattice s"
  by (simp add: lattice_def MAZE_INDEX_def)

lemma finite_unreached: "clean s \<Longrightarrow> finite (unreached s)"
  using card_lattice(1)[OF clean_dims] by (simp add: unreached_def)

lemma lattice_size:
  assumes "clean s"
  shows "int (card (lattice s)) = maze_x_dim s * maze_y_dim s"
proof -
  note d = clean_dims[OF assms]
  have "inj_on (\<lambda>(i, j). MAZE_INDEX s (2 * i + 1) (2 * j + 1)) ({0..<maze_x_dim s} \<times> {0..<maze_y_dim s})"
  proof (rule inj_onI, clarify)
    fix i j k l assume ij: "i \<in> {0..<maze_x_dim s}" "j \<in> {0..<maze_y_dim s}" "k \<in> {0..<maze_x_dim s}" "l \<in> {0..<maze_y_dim s}"
      and e: "MAZE_INDEX s (2 * i + 1) (2 * j + 1) = MAZE_INDEX s (2 * k + 1) (2 * l + 1)"
    have "in_view s (2 * i + 1) (2 * j + 1)" "in_view s (2 * k + 1) (2 * l + 1)" using ij by (auto simp: in_view_def)
    from same_index[OF d this e] show "i = k \<and> j = l" using ij by auto
  qed
  then have "card (lattice s) = card ({0..<maze_x_dim s} \<times> {0..<maze_y_dim s})" unfolding lattice_def by (rule card_image)
  then show ?thesis using d by (simp add: card_cartesian_product dims_ok_def)
qed

text \<open>Marking an area takes its size off the number of unreached locations.\<close>

lemma mark_unreached:
  assumes "clean s" "location s x y" "\<not> reached_at s x y"
  shows "\<exists>n R. mark_maze_area x y s = Some (int n, s\<lparr>maze := marked_at (maze s) R\<rparr>) \<and> 0 < n \<and>
    card (unreached (s\<lparr>maze := marked_at (maze s) R\<rparr>)) + n = card (unreached s) \<and>
    (\<forall>u v. location s u v \<and> (reached_at s u v \<or> u = x \<and> v = y) \<longrightarrow> reached_at (s\<lparr>maze := marked_at (maze s) R\<rparr>) u v)"
proof -
  note d = clean_dims[OF assms(1)]
  obtain i j where ij: "x = 2 * i + 1" "y = 2 * j + 1" "0 \<le> i" "i < maze_x_dim s" "0 \<le> j" "j < maze_y_dim s"
    using assms(2) by (auto simp: location_def)
  let ?a = "MAZE_INDEX s x y"
  define R where "R = {p. connected (maze_x_dim s) (maze s) ?a p}"
  have m: "mark_maze_area x y s = Some (int (card R), s\<lparr>maze := marked_at (maze s) R\<rparr>)" "R \<subseteq> lattice s"
    using mark_area_spec[OF d clean_walled[OF assms(1)] ij(3-6) refl] by (simp_all add: ij(1,2) R_def)
  let ?s = "s\<lparr>maze := marked_at (maze s) R\<rparr>"
  have a: "?a \<in> R" using connected.start by (simp add: R_def)
  have un: "p \<in> unreached s" if "p \<in> R" for p
  proof -
    have "connected (maze_x_dim s) (maze s) ?a p" using that by (simp add: R_def)
    then have "p = ?a \<or> \<not> is_marked (maze s) p" by cases auto
    then show ?thesis using that m(2) assms(3) location_index[OF assms(1,2)] by (auto simp: unreached_def)
  qed
  have fin: "finite R" using finite_subset[OF m(2) card_lattice(1)[OF d]] .
  have in_len: "0 \<le> p \<and> p < int (length (maze s))" if "p \<in> lattice s" for p
    using lattice_location[OF that] index_bounds[OF d] location_inner by (force simp: inner_def)
  have mk: "is_marked (marked_at (maze s) R) p = (p \<in> R \<or> is_marked (maze s) p)" if "p \<in> lattice s" for p
    using marked_at_bits(2)[of p "maze s" R] in_len[OF that] by (simp add: is_marked_def)
  have lat: "lattice ?s = lattice s" by (rule lattice_cong) simp_all
  have "unreached ?s = unreached s - R" unfolding unreached_def lat using mk by auto
  moreover have "R \<subseteq> unreached s" using un by blast
  ultimately have "card (unreached ?s) + card R = card (unreached s)"
    using card_Diff_subset[OF fin] card_mono[OF finite_unreached[OF assms(1)]] by fastforce
  moreover have "0 < card R" using a fin by (auto simp: card_gt_0_iff)
  moreover have "reached_at ?s u v" if "location s u v" "reached_at s u v \<or> u = x \<and> v = y" for u v
  proof -
    have l: "location ?s u v" using that(1) by (simp add: location_def)
    have i: "MAZE_INDEX ?s u v = MAZE_INDEX s u v" by (simp add: MAZE_INDEX_def)
    have "is_marked (marked_at (maze s) R) (MAZE_INDEX s u v)"
      using mk location_index[OF assms(1) that(1)] that(2) a by auto
    then show ?thesis using location_index(2)[OF clean_marked(1)[OF assms(1)] l] by (simp add: i)
  qed
  ultimately show ?thesis using m(1) by blast
qed

text \<open>Opening a wall marks nothing.\<close>

lemma opened_marks:
  assumes "clean s" "location s x y" "opened s x y s'"
  shows "unreached s' = unreached s" "location s u v \<Longrightarrow> reached_at s' u v = reached_at s u v"
proof -
  obtain d dx dy where o: "may_go s x y d" "ahead d = (dx, dy)" "s' = set_cell (x + dx) (y + dy) MAZE_NONE s"
    using assms(3) by (auto simp: opened_def)
  note i = ahead_inside(1)[OF assms(2) o(1,2)]
  have r: "reached_at s' u v = reached_at s u v" if "location s u v" for u v
  proof -
    have "\<not> (u = x + dx \<and> v = y + dy)"
    proof
      assume e: "u = x + dx \<and> v = y + dy"
      have "odd x" "odd y" "odd u" "odd v" using location_odd[OF that] location_odd[OF assms(2)] by simp_all
      then have "even dx" "even dy" using e by simp_all
      then show False using o(2) by (auto simp: ahead_def split: if_splits)
    qed
    then show ?thesis
      using cell_set_cell_other[OF clean_dims[OF assms(1)] inner_view[OF location_inner[OF that]] i] by (simp add: reached_at_def o(3))
  qed
  then show "location s u v \<Longrightarrow> reached_at s' u v = reached_at s u v" .
  note c = opened_clean[OF assms]
  have lat: "lattice s' = lattice s" using dug_fields(1,2)[OF c(2)] by (rule lattice_cong)
  have "is_marked (maze s') p = is_marked (maze s) p" if p: "p \<in> lattice s" for p
  proof -
    obtain u v where uv: "location s u v" "p = MAZE_INDEX s u v" using lattice_location[OF p] by blast
    have "location s' u v" "MAZE_INDEX s' u v = MAZE_INDEX s u v"
      using dug_fields(1,3)[OF c(2)] uv(1) by (simp_all add: MAZE_INDEX_def)
    then show ?thesis using r[OF uv(1)] location_index(2)[OF assms(1) uv(1)] location_index(2)[OF c(1)] uv(2) by metis
  qed
  then show "unreached s' = unreached s" unfolding unreached_def lat by auto
qed

text \<open>The random numbers play no part in joining a location.\<close>

lemma mark_rands:
  "mark_maze_area x y (s\<lparr>rands := rs\<rparr>) = map_option (\<lambda>(n, t). (n, t\<lparr>rands := rs\<rparr>)) (mark_maze_area x y s)"
proof -
  have i: "MAZE_INDEX (s\<lparr>rands := rs\<rparr>) a b = MAZE_INDEX s a b" for s a b by (simp add: MAZE_INDEX_def)
  show ?thesis unfolding mark_maze_area_def mget_def mput_def i by (auto split: option.splits bind_splits)
qed

lemma connect_at_rands:
  "connect_at fr x y remaining (s\<lparr>rands := rs\<rparr>) =
    map_option (\<lambda>(r, t). (r, t\<lparr>rands := rs\<rparr>)) (connect_at fr x y remaining s)"
proof -
  have i: "MAZE_INDEX (s\<lparr>rands := rs\<rparr>) a b = MAZE_INDEX s a b" for s a b by (simp add: MAZE_INDEX_def)
  have t: "try_open p c a b (s\<lparr>rands := rs\<rparr>) = map_option (\<lambda>(f, t). (f, t\<lparr>rands := rs\<rparr>)) (try_open p c a b s)" for p c a b s
    by (cases "ird (maze s) (c + a)"; cases "iwr (maze s) (c + b) MAZE_NONE") (simp_all add: try_open_def reached_def)
  have c: "connect_point x y (s\<lparr>rands := rs\<rparr>) = map_option (\<lambda>(f, t). (f, t\<lparr>rands := rs\<rparr>)) (connect_point x y s)"
    unfolding connect_point_def Let_def i t by (auto split: option.splits bind_splits simp: t)
  show ?thesis unfolding connect_at_def c by (auto simp: mark_rands split: option.splits bind_splits)
qed

lemma connect_progress:
  assumes "clean s" "location s x y" "\<not> reached_at s x y" "reachable_from s x y"
  shows "\<exists>n s'. connect_at True x y remaining s = Some (remaining - int n, s') \<and> clean s' \<and> dug s s' \<and> 0 < n \<and>
    card (unreached s') + n = card (unreached s) \<and> (\<forall>u v. location s u v \<and> reached_at s u v \<longrightarrow> reached_at s' u v)"
proof -
  obtain s1 where s1: "connect_point x y s = Some (True, s1)" "opened s x y s1" using connect_point_spec[OF assms(1,2)] assms(4) by auto
  note c = opened_clean[OF assms(1,2) s1(2)]
  note o = opened_marks[OF assms(1,2) s1(2)]
  have l: "location s1 u v = location s u v" for u v using dug_fields(3)[OF c(2)] .
  obtain n R where m: "mark_maze_area x y s1 = Some (int n, s1\<lparr>maze := marked_at (maze s1) R\<rparr>)" "0 < n"
    "card (unreached (s1\<lparr>maze := marked_at (maze s1) R\<rparr>)) + n = card (unreached s1)"
    "\<forall>u v. location s1 u v \<and> (reached_at s1 u v \<or> u = x \<and> v = y) \<longrightarrow> reached_at (s1\<lparr>maze := marked_at (maze s1) R\<rparr>) u v"
    using mark_unreached[OF c(1), of x y] l assms(2,3) o(2)[OF assms(2)] by blast
  have "connect_at True x y remaining s = Some (remaining - int n, s1\<lparr>maze := marked_at (maze s1) R\<rparr>)"
    using s1(1) m(1) by (simp add: connect_at_def)
  then show ?thesis
    using clean_marked[OF c(1), of R] dug_trans[OF c(2)] m(2-4) o l by (intro exI[of _ n] exI) auto
qed

lemma connect_idle:
  assumes "clean s" "location s x y" "\<not> (fr \<and> reachable_from s x y)"
  shows "connect_at fr x y remaining s = Some (remaining, s)"
  using connect_point_spec[OF assms(1,2)] assms(3) by (auto simp: connect_at_def)

text \<open>While a location is unreached, one of them is next to a reached one.\<close>

lemma next_to_reached:
  assumes "clean s" "reached_at s 1 1" "unreached s \<noteq> {}"
  shows "\<exists>x y. location s x y \<and> \<not> reached_at s x y \<and> reachable_from s x y"
proof (rule ccontr)
  assume none: "\<not> (\<exists>x y. location s x y \<and> \<not> reached_at s x y \<and> reachable_from s x y)"
  have loc: "location s (2 * i + 1) (2 * j + 1)" if "0 \<le> i" "i < maze_x_dim s" "0 \<le> j" "j < maze_y_dim s" for i j
    using that by (auto simp: location_def)
  have left: "\<not> reached_at s (2 * (i - 1) + 1) (2 * j + 1)"
    if "\<not> reached_at s (2 * i + 1) (2 * j + 1)" "0 < i" "i < maze_x_dim s" "0 \<le> j" "j < maze_y_dim s" for i j
  proof
    assume "reached_at s (2 * (i - 1) + 1) (2 * j + 1)"
    then have "reachable_from s (2 * i + 1) (2 * j + 1)"
      unfolding reachable_from_def using that(2) by (intro exI[of _ 3]) (simp add: may_go_def ahead_def)
    then show False using none loc[of i j] that by auto
  qed
  have up: "\<not> reached_at s (2 * i + 1) (2 * (j - 1) + 1)"
    if "\<not> reached_at s (2 * i + 1) (2 * j + 1)" "0 \<le> i" "i < maze_x_dim s" "0 < j" "j < maze_y_dim s" for i j
  proof
    assume "reached_at s (2 * i + 1) (2 * (j - 1) + 1)"
    then have "reachable_from s (2 * i + 1) (2 * j + 1)"
      unfolding reachable_from_def using that(4) by (intro exI[of _ 0]) (simp add: may_go_def ahead_def)
    then show False using none loc[of i j] that by auto
  qed
  obtain p where p: "p \<in> lattice s" "\<not> is_marked (maze s) p" using assms(3) by (auto simp: unreached_def)
  obtain x y where xy: "location s x y" "p = MAZE_INDEX s x y" using lattice_location[OF p(1)] by blast
  obtain i j where ij: "x = 2 * i + 1" "y = 2 * j + 1" "0 \<le> i" "i < maze_x_dim s" "0 \<le> j" "j < maze_y_dim s"
    using xy(1) by (auto simp: location_def)
  have u: "\<not> reached_at s (2 * i + 1) (2 * j + 1)" using p(2) xy(2) location_index(2)[OF assms(1) xy(1)] ij(1,2) by simp
  have row: "\<not> reached_at s (2 * (i - int n) + 1) (2 * j + 1)" if "int n \<le> i" for n
    using that
  proof (induction n)
    case (Suc n)
    then have "\<not> reached_at s (2 * (i - int n - 1) + 1) (2 * j + 1)" using ij by (intro left) auto
    then show ?case by (simp add: algebra_simps)
  qed (use u in simp)
  have u0: "\<not> reached_at s (2 * 0 + 1) (2 * j + 1)" using row[of "nat i"] ij(3) by simp
  have col: "\<not> reached_at s (2 * 0 + 1) (2 * (j - int n) + 1)" if "int n \<le> j" for n
    using that
  proof (induction n)
    case (Suc n)
    then have "\<not> reached_at s (2 * 0 + 1) (2 * (j - int n - 1) + 1)" using ij by (intro up) auto
    then show ?case by (simp add: algebra_simps)
  qed (use u0 in simp)
  show False using col[of "nat j"] ij(5) assms(2) by simp
qed

section \<open>Scanning\<close>

text \<open>The order of the scan, on the numbers of the columns and rows.\<close>

definition scan :: "maze_state \<Rightarrow> int \<times> int \<Rightarrow> int \<times> int" where
  "scan s p = (if fst p + 1 = maze_x_dim s then (0, if snd p + 1 = maze_y_dim s then 0 else snd p + 1) else (fst p + 1, snd p))"

inductive scans_to :: "maze_state \<Rightarrow> int \<times> int \<Rightarrow> int \<times> int \<Rightarrow> bool" for s where
  scan_one: "scan s p = q \<Longrightarrow> scans_to s p q"
| scan_more: "scans_to s (scan s p) q \<Longrightarrow> scans_to s p q"

definition in_grid :: "maze_state \<Rightarrow> int \<times> int \<Rightarrow> bool" where
  "in_grid s p \<longleftrightarrow> 0 \<le> fst p \<and> fst p < maze_x_dim s \<and> 0 \<le> snd p \<and> snd p < maze_y_dim s"

lemma scan_in_grid: "in_grid s p \<Longrightarrow> in_grid s (scan s p)"
  by (auto simp: in_grid_def scan_def)

lemma scans_trans: "scans_to s p q \<Longrightarrow> scans_to s q r \<Longrightarrow> scans_to s p r"
  by (induction rule: scans_to.induct) (auto intro: scans_to.intros)

lemma scans_row: "0 \<le> i \<Longrightarrow> i + 1 + int n < maze_x_dim s \<Longrightarrow> scans_to s (i, j) (i + 1 + int n, j)"
proof (induction n arbitrary: i)
  case 0
  then show ?case by (intro scan_one) (simp add: scan_def)
next
  case (Suc n)
  have "scans_to s (i + 1, j) (i + 1 + 1 + int n, j)" using Suc.prems by (intro Suc.IH) simp_all
  moreover have "scan s (i, j) = (i + 1, j)" using Suc.prems by (simp add: scan_def)
  ultimately have "scans_to s (i, j) (i + 1 + 1 + int n, j)" using scan_more[of s "(i, j)" "(i + 1 + 1 + int n, j)"] by simp
  then show ?case by (simp add: algebra_simps)
qed

lemma scans_next_row:
  assumes "in_grid s (i, j)"
  shows "scans_to s (i, j) (0, if j + 1 = maze_y_dim s then 0 else j + 1)"
proof -
  let ?e = "maze_x_dim s - 1"
  have last_step: "scans_to s (?e, j) (0, if j + 1 = maze_y_dim s then 0 else j + 1)" by (intro scan_one) (simp add: scan_def)
  show ?thesis
  proof (cases "i = ?e")
    case True
    then show ?thesis using last_step by simp
  next
    case False
    then have "scans_to s (i, j) (i + 1 + int (nat (?e - i - 1)), j)" using assms by (intro scans_row) (auto simp: in_grid_def)
    moreover have "i + 1 + int (nat (?e - i - 1)) = ?e" using False assms by (auto simp: in_grid_def)
    ultimately show ?thesis using scans_trans[OF _ last_step] by simp
  qed
qed

lemma scans_rows:
  assumes "1 \<le> maze_x_dim s" "0 \<le> j"
  shows "j + 1 + int n < maze_y_dim s \<Longrightarrow> scans_to s (i, j) (0, j + 1 + int n) \<or> \<not> in_grid s (i, j)"
  using assms
proof (induction n arbitrary: i j)
  case 0
  then show ?case using scans_next_row[of s i j] by auto
next
  case (Suc n)
  have "scans_to s (0, j + 1) (0, j + 1 + 1 + int n) \<or> \<not> in_grid s (0, j + 1)" using Suc.prems by (intro Suc.IH) simp_all
  moreover have "in_grid s (0, j + 1)" using Suc.prems by (simp add: in_grid_def)
  ultimately have "scans_to s (0, j + 1) (0, j + 1 + 1 + int n)" by simp
  moreover have "scans_to s (i, j) (0, j + 1) \<or> \<not> in_grid s (i, j)" using scans_next_row[of s i j] Suc.prems(1) by auto
  ultimately show ?case using scans_trans by (auto simp: algebra_simps)
qed

lemma scans_all:
  assumes "in_grid s p" "in_grid s q"
  shows "scans_to s p q"
proof -
  obtain i j where p: "p = (i, j)" by (cases p)
  obtain k l where q: "q = (k, l)" by (cases q)
  have g: "0 \<le> i" "i < maze_x_dim s" "0 \<le> j" "j < maze_y_dim s" "0 \<le> k" "k < maze_x_dim s" "0 \<le> l" "l < maze_y_dim s"
    using assms by (simp_all add: p q in_grid_def)
  have origin: "in_grid s (0, maze_y_dim s - 1)" "in_grid s (0, 0)" using g by (simp_all add: in_grid_def)
  have "scans_to s p (0, 0)"
  proof (cases "j + 1 = maze_y_dim s")
    case True
    then show ?thesis using scans_next_row[of s i j] assms(1) by (simp add: p)
  next
    case False
    have "scans_to s p (0, j + 1 + int (nat (maze_y_dim s - 2 - j))) \<or> \<not> in_grid s p"
      unfolding p using g False by (intro scans_rows) simp_all
    then have "scans_to s p (0, maze_y_dim s - 1)" using assms(1) g False by simp
    then show ?thesis using scans_trans scans_next_row[OF origin(1)] by fastforce
  qed
  moreover have "l = 0 \<or> scans_to s (0, 0) (0, l)"
    using scans_rows[of s 0 "nat (l - 1)" 0] g origin(2) by (cases "l = 0") simp_all
  then have "scans_to s p (0, l)" using calculation scans_trans by blast
  moreover have "k = 0 \<or> scans_to s (0, l) (k, l)"
    using scans_row[of 0 "nat (k - 1)" s l] g by (cases "k = 0") simp_all
  ultimately show ?thesis unfolding q using scans_trans by blast
qed

section \<open>The second phase ends\<close>

lemma connect_loop_step:
  assumes "next_point x y remaining trials s = Some (fr, x1, y1, t1, s1)" "connect_at fr x1 y1 remaining s1 = Some (r2, s2)"
  shows "connect_loop x y remaining trials s = (if r2 > 0 then connect_loop x1 y1 r2 t1 s2 else Some s2)"
  using assms by (subst connect_loop.simps) (simp add: connect_at_def)

lemma grid_location: "in_grid s (i, j) \<Longrightarrow> location s (2 * i + 1) (2 * j + 1)"
  by (auto simp: in_grid_def location_def)

lemma next_point_scan:
  assumes "clean s" "in_grid s (i, j)" "scan s (i, j) = (k, l)" "remaining < 20 \<or> trials \<ge> 100"
  shows "next_point (2 * i + 1) (2 * j + 1) remaining trials s =
    Some (\<not> reached_at s (2 * k + 1) (2 * l + 1), 2 * k + 1, 2 * l + 1, if remaining < 20 then trials else trials + 1, s)"
proof -
  have kl: "in_grid s (k, l)" using scan_in_grid[OF assms(2)] assms(3) by simp
  note g = get_inner[OF assms(1) location_inner[OF grid_location[OF kl]]]
  define t where "t = (if remaining < 20 then trials else trials + 1)"
  have c: "remaining < 20 \<or> t > 100" using assms(4) by (auto simp: t_def)
  have x: "(if 2 * i + 1 + 2 > maze_x_dim s * 2 then 2 * i + 1 + 2 - maze_x_dim s * 2 else 2 * i + 1 + 2) = 2 * k + 1"
    "(if 2 * i + 1 + 2 > maze_x_dim s * 2 then (if 2 * j + 1 + 2 > 2 * maze_y_dim s then 2 * j + 1 + 2 - 2 * maze_y_dim s
      else 2 * j + 1 + 2) else 2 * j + 1) = 2 * l + 1"
    using assms(2,3) by (auto simp: scan_def in_grid_def split: if_splits)
  show ?thesis
    unfolding next_point_def t_def[symmetric] Let_def if_P[OF c] x g by (simp add: reached_at_def)
qed

text \<open>What a round that joins a location leaves for the next.\<close>

definition joined :: "maze_state \<Rightarrow> nat \<Rightarrow> maze_state \<Rightarrow> bool" where
  "joined s n s' \<longleftrightarrow> clean s' \<and> dug s s' \<and> 0 < n \<and> card (unreached s') + n = card (unreached s) \<and>
     (\<forall>u v. location s u v \<and> reached_at s u v \<longrightarrow> reached_at s' u v)"

lemma rands_id: "s\<lparr>rands := rands s\<rparr> = s" by simp

lemma facts_rands [simp]:
  "location (s\<lparr>rands := rs\<rparr>) x y = location s x y" "reached_at (s\<lparr>rands := rs\<rparr>) x y = reached_at s x y"
  "in_grid (s\<lparr>rands := rs\<rparr>) p = in_grid s p" "scan (s\<lparr>rands := rs\<rparr>) p = scan s p"
  by (simp_all add: location_def reached_at_def in_grid_def scan_def)

lemma connect_scan:
  assumes "scans_to s p q" "clean s" "in_grid s p" "in_grid s q" "\<not> reached_at s (2 * fst q + 1) (2 * snd q + 1)"
    "reachable_from s (2 * fst q + 1) (2 * snd q + 1)" "remaining < 20 \<or> trials \<ge> 100" "remaining > 0"
  shows "\<exists>p' t n s'. in_grid s p' \<and> joined s n s' \<and>
    (\<forall>rs. connect_loop (2 * fst p + 1) (2 * snd p + 1) remaining trials (s\<lparr>rands := rs\<rparr>) =
      (if remaining - int n > 0 then connect_loop (2 * fst p' + 1) (2 * snd p' + 1) (remaining - int n) t (s'\<lparr>rands := rs\<rparr>)
       else Some (s'\<lparr>rands := rs\<rparr>)))"
  using assms
proof (induction arbitrary: trials rule: scans_to.induct)
  case (scan_one p q)
  obtain i j where p: "p = (i, j)" by (cases p)
  obtain k l where q: "q = (k, l)" by (cases q)
  let ?t = "if remaining < 20 then trials else trials + 1"
  obtain n s' where j: "connect_at True (2 * k + 1) (2 * l + 1) remaining s = Some (remaining - int n, s')" "joined s n s'"
    using connect_progress[OF scan_one(2) grid_location, of k l remaining] scan_one(4-6) by (auto simp: q joined_def)
  have "connect_loop (2 * i + 1) (2 * j + 1) remaining trials (s\<lparr>rands := rs\<rparr>) =
      (if remaining - int n > 0 then connect_loop (2 * k + 1) (2 * l + 1) (remaining - int n) ?t (s'\<lparr>rands := rs\<rparr>)
       else Some (s'\<lparr>rands := rs\<rparr>))" for rs
  proof (rule connect_loop_step)
    show "next_point (2 * i + 1) (2 * j + 1) remaining trials (s\<lparr>rands := rs\<rparr>) =
        Some (True, 2 * k + 1, 2 * l + 1, ?t, s\<lparr>rands := rs\<rparr>)"
      using next_point_scan[of "s\<lparr>rands := rs\<rparr>" i j k l remaining trials] scan_one by (simp add: p q)
    show "connect_at True (2 * k + 1) (2 * l + 1) remaining (s\<lparr>rands := rs\<rparr>) = Some (remaining - int n, s'\<lparr>rands := rs\<rparr>)"
      using j(1) by (simp add: connect_at_rands)
  qed
  then show ?case using scan_one(4) j(2) by (intro exI[of _ q] exI[of _ ?t] exI[of _ n] exI[of _ s']) (simp add: p q)
next
  case (scan_more p q)
  obtain i j where p: "p = (i, j)" by (cases p)
  obtain k l where r: "scan s p = (k, l)" by (cases "scan s p")
  have kl: "in_grid s (k, l)" using scan_in_grid[OF scan_more.prems(2)] r by simp
  let ?t = "if remaining < 20 then trials else trials + 1"
  have np: "next_point (2 * i + 1) (2 * j + 1) remaining trials (s\<lparr>rands := rs\<rparr>) =
      Some (\<not> reached_at s (2 * k + 1) (2 * l + 1), 2 * k + 1, 2 * l + 1, ?t, s\<lparr>rands := rs\<rparr>)" for rs
    using next_point_scan[of "s\<lparr>rands := rs\<rparr>" i j k l remaining trials] scan_more.prems r by (simp add: p)
  show ?case
  proof (cases "\<not> reached_at s (2 * k + 1) (2 * l + 1) \<and> reachable_from s (2 * k + 1) (2 * l + 1)")
    case True
    obtain n s' where j: "connect_at True (2 * k + 1) (2 * l + 1) remaining s = Some (remaining - int n, s')" "joined s n s'"
      using connect_progress[OF scan_more.prems(1) grid_location[OF kl], of remaining] True by (auto simp: joined_def)
    have "connect_loop (2 * i + 1) (2 * j + 1) remaining trials (s\<lparr>rands := rs\<rparr>) =
        (if remaining - int n > 0 then connect_loop (2 * k + 1) (2 * l + 1) (remaining - int n) ?t (s'\<lparr>rands := rs\<rparr>)
         else Some (s'\<lparr>rands := rs\<rparr>))" for rs
      by (rule connect_loop_step[OF np[of rs]]) (use j(1) True in \<open>simp add: connect_at_rands\<close>)
    then show ?thesis using kl j(2) by (intro exI[of _ "(k, l)"] exI[of _ ?t] exI[of _ n] exI[of _ s']) (simp add: p)
  next
    case False
    have idle: "connect_at (\<not> reached_at s (2 * k + 1) (2 * l + 1)) (2 * k + 1) (2 * l + 1) remaining s = Some (remaining, s)"
      by (rule connect_idle[OF scan_more.prems(1) grid_location[OF kl] False])
    have step: "connect_loop (2 * i + 1) (2 * j + 1) remaining trials (s\<lparr>rands := rs\<rparr>) =
        connect_loop (2 * k + 1) (2 * l + 1) remaining ?t (s\<lparr>rands := rs\<rparr>)" for rs
      using connect_loop_step[OF np[of rs], of remaining "s\<lparr>rands := rs\<rparr>"] idle scan_more.prems(7) by (simp add: connect_at_rands)
    have t: "remaining < 20 \<or> ?t \<ge> 100" using scan_more.prems(6) by auto
    have "\<exists>p' t n s'. in_grid s p' \<and> joined s n s' \<and>
      (\<forall>rs. connect_loop (2 * fst (scan s p) + 1) (2 * snd (scan s p) + 1) remaining ?t (s\<lparr>rands := rs\<rparr>) =
        (if remaining - int n > 0 then connect_loop (2 * fst p' + 1) (2 * snd p' + 1) (remaining - int n) t (s'\<lparr>rands := rs\<rparr>)
         else Some (s'\<lparr>rands := rs\<rparr>)))"
      by (rule scan_more.IH[OF scan_more.prems(1) _ scan_more.prems(3-5) t scan_more.prems(7)]) (use kl r in simp)
    then show ?thesis unfolding r by (simp only: p fst_conv snd_conv step)
  qed
qed

text \<open>Below the limit of the trials, the next two random numbers can name a location to join.\<close>

lemma connect_pick:
  assumes "clean s" "in_grid s q" "\<not> reached_at s (2 * fst q + 1) (2 * snd q + 1)"
    "reachable_from s (2 * fst q + 1) (2 * snd q + 1)" "remaining \<ge> 20" "trials < 100"
  shows "\<exists>n s'. joined s n s' \<and> (\<forall>rs. connect_loop x y remaining trials (s\<lparr>rands := nat (fst q) # nat (snd q) # rs\<rparr>) =
      (if remaining - int n > 0 then connect_loop (2 * fst q + 1) (2 * snd q + 1) (remaining - int n) (trials + 1) (s'\<lparr>rands := rs\<rparr>)
       else Some (s'\<lparr>rands := rs\<rparr>)))"
proof -
  obtain k l where q: "q = (k, l)" by (cases q)
  have g: "0 \<le> k" "k < maze_x_dim s" "0 \<le> l" "l < maze_y_dim s" using assms(2) by (simp_all add: q in_grid_def)
  obtain n s' where j: "connect_at True (2 * k + 1) (2 * l + 1) remaining s = Some (remaining - int n, s')" "joined s n s'"
    using connect_progress[OF assms(1) grid_location, of k l remaining] assms(2-4) by (auto simp: q joined_def)
  have "connect_loop x y remaining trials (s\<lparr>rands := nat k # nat l # rs\<rparr>) =
      (if remaining - int n > 0 then connect_loop (2 * k + 1) (2 * l + 1) (remaining - int n) (trials + 1) (s'\<lparr>rands := rs\<rparr>)
       else Some (s'\<lparr>rands := rs\<rparr>))" for rs
  proof (rule connect_loop_step)
    have "pick_point (\<lambda>b. b AND MAZE_REACH \<noteq> 0) (s\<lparr>rands := nat k # nat l # rs\<rparr>) = Some (2 * k + 1, 2 * l + 1, s\<lparr>rands := rs\<rparr>)"
      by (rule pick_here[OF clean_dims[OF assms(1)] g]) (use assms(3) in \<open>simp add: reached_at_def q\<close>)
    then show "next_point x y remaining trials (s\<lparr>rands := nat k # nat l # rs\<rparr>) = Some (True, 2 * k + 1, 2 * l + 1, trials + 1, s\<lparr>rands := rs\<rparr>)"
      using assms(5,6) by (simp add: next_point_def)
    show "connect_at True (2 * k + 1) (2 * l + 1) remaining (s\<lparr>rands := rs\<rparr>) = Some (remaining - int n, s'\<lparr>rands := rs\<rparr>)"
      using j(1) by (simp add: connect_at_rands)
  qed
  then show ?thesis using j(2) by (auto simp: q)
qed

lemma connect_loop_ex:
  assumes "clean s" "in_grid s (i, j)" "reached_at s 1 1"
  shows "\<exists>rs s'. \<forall>tl. connect_loop (2 * i + 1) (2 * j + 1) (int (card (unreached s))) trials (s\<lparr>rands := rs @ tl\<rparr>) = Some (s'\<lparr>rands := tl\<rparr>)"
  using assms
proof (induction "card (unreached s)" arbitrary: s i j trials rule: less_induct)
  case less
  let ?N = "int (card (unreached s))"
  have loc1: "location s 1 1" using less.prems(2) unfolding location_def in_grid_def by (intro exI[of _ 0]) auto
  have go: "\<exists>rs r. \<forall>tl. (if ?N - int n > 0 then connect_loop (2 * fst p + 1) (2 * snd p + 1) (?N - int n) t (s'\<lparr>rands := rs @ tl\<rparr>)
      else Some (s'\<lparr>rands := rs @ tl\<rparr>)) = Some (r\<lparr>rands := tl\<rparr>)" if "joined s n s'" "in_grid s p" for p t n s'
  proof -
    have j: "clean s'" "dug s s'" "0 < n" "card (unreached s') + n = card (unreached s)" "reached_at s' 1 1"
      using that(1) loc1 less.prems(3) by (auto simp: joined_def)
    have e: "?N - int n = int (card (unreached s'))" using j(4) by simp
    show ?thesis
    proof (cases "?N - int n > 0")
      case True
      have "in_grid s' (fst p, snd p)" using that(2) dug_fields(1,2)[OF j(2)] by (simp add: in_grid_def)
      then have "\<exists>rs r. \<forall>tl. connect_loop (2 * fst p + 1) (2 * snd p + 1) (int (card (unreached s'))) t (s'\<lparr>rands := rs @ tl\<rparr>) =
          Some (r\<lparr>rands := tl\<rparr>)"
        using less.hyps[OF _ j(1) _ j(5), of "fst p" "snd p" t] j(3,4) by simp
      then show ?thesis using True unfolding e by simp
    next
      case False
      then show ?thesis by (intro exI[of _ "[]"] exI[of _ s']) simp
    qed
  qed
  show ?case
  proof (cases "unreached s = {}")
    case True
    obtain k l where r: "scan s (i, j) = (k, l)" by (cases "scan s (i, j)")
    have kl: "in_grid s (k, l)" using scan_in_grid[OF less.prems(2)] r by simp
    note loc = grid_location[OF kl]
    have re: "reached_at s (2 * k + 1) (2 * l + 1)"
      using True location_index[OF less.prems(1) loc] by (auto simp: unreached_def)
    have "connect_loop (2 * i + 1) (2 * j + 1) ?N trials (s\<lparr>rands := tl\<rparr>) = Some (s\<lparr>rands := tl\<rparr>)" for tl
    proof -
      have np: "next_point (2 * i + 1) (2 * j + 1) ?N trials (s\<lparr>rands := tl\<rparr>) = Some (False, 2 * k + 1, 2 * l + 1, trials, s\<lparr>rands := tl\<rparr>)"
        using next_point_scan[of "s\<lparr>rands := tl\<rparr>" i j k l ?N trials] less.prems True r re by simp
      have "connect_at False (2 * k + 1) (2 * l + 1) ?N (s\<lparr>rands := tl\<rparr>) = Some (?N, s\<lparr>rands := tl\<rparr>)" by (simp add: connect_at_def)
      from connect_loop_step[OF np this] show ?thesis using True by simp
    qed
    then show ?thesis by (intro exI[of _ "[]"] exI[of _ s]) simp
  next
    case False
    then have pos: "?N > 0" using finite_unreached[OF less.prems(1)] by (simp add: card_gt_0_iff)
    obtain x y where xy: "location s x y" "\<not> reached_at s x y" "reachable_from s x y"
      using next_to_reached[OF less.prems(1,3) False] by blast
    obtain k l where kl: "x = 2 * k + 1" "y = 2 * l + 1" "in_grid s (k, l)" using xy(1) by (auto simp: location_def in_grid_def)
    have at: "\<not> reached_at s (2 * fst (k, l) + 1) (2 * snd (k, l) + 1)" "reachable_from s (2 * fst (k, l) + 1) (2 * snd (k, l) + 1)"
      using xy(2,3) kl(1,2) by simp_all
    show ?thesis
    proof (cases "?N < 20 \<or> trials \<ge> 100")
      case True
      obtain p' t n s' where c: "in_grid s p'" "joined s n s'"
        "\<forall>rs. connect_loop (2 * i + 1) (2 * j + 1) ?N trials (s\<lparr>rands := rs\<rparr>) =
          (if ?N - int n > 0 then connect_loop (2 * fst p' + 1) (2 * snd p' + 1) (?N - int n) t (s'\<lparr>rands := rs\<rparr>)
           else Some (s'\<lparr>rands := rs\<rparr>))"
        using connect_scan[OF scans_all[OF less.prems(2) kl(3)] less.prems(1,2) kl(3) at True pos] unfolding fst_conv snd_conv by blast
      show ?thesis using go[OF c(2,1), of t] c(3) by simp
    next
      case False
      obtain n s' where c: "joined s n s'"
        "\<forall>rs. connect_loop (2 * i + 1) (2 * j + 1) ?N trials (s\<lparr>rands := nat k # nat l # rs\<rparr>) =
          (if ?N - int n > 0 then connect_loop (2 * k + 1) (2 * l + 1) (?N - int n) (trials + 1) (s'\<lparr>rands := rs\<rparr>)
           else Some (s'\<lparr>rands := rs\<rparr>))"
        using connect_pick[OF less.prems(1) kl(3) at, of ?N trials "2 * i + 1" "2 * j + 1"] False unfolding fst_conv snd_conv by force
      obtain rs r where "\<forall>tl. (if ?N - int n > 0 then connect_loop (2 * k + 1) (2 * l + 1) (?N - int n) (trials + 1) (s'\<lparr>rands := rs @ tl\<rparr>)
          else Some (s'\<lparr>rands := rs @ tl\<rparr>)) = Some (r\<lparr>rands := tl\<rparr>)"
        using go[OF c(1) kl(3), of "trials + 1"] unfolding fst_conv snd_conv by blast
      then show ?thesis using c(2) by (intro exI[of _ "nat k # nat l # rs"] exI[of _ r]) simp
    qed
  qed
qed

section \<open>Fruits and exit\<close>

text \<open>Each fruit may be put at the next location of the first row.\<close>

lemma add_fruit_ex:
  assumes "arena s" "0 \<le> k" "k < maze_x_dim s" "\<not> has_fruit (cell s (2 * k + 1) 1)"
  shows "\<exists>s'. (\<forall>tl. add_a_fruit_internal (s\<lparr>rands := nat k # 0 # 0 # tl\<rparr>) = Some (s'\<lparr>rands := tl\<rparr>)) \<and>
    (\<forall>i. k < i \<and> i < maze_x_dim s \<longrightarrow> cell s' (2 * i + 1) 1 = cell s (2 * i + 1) 1)"
proof -
  have d: "dims_ok s" using assms(1) by (simp add: arena_def)
  have y: "1 \<le> maze_y_dim s" using d by (simp add: dims_ok_def)
  have i: "inner s (2 * k + 1) 1" using assms(2,3) y by (simp add: inner_def)
  define b where "b = cell s (2 * k + 1) 1 OR MAZE_FRUIT_1"
  define s' where "s' = (set_cell (2 * k + 1) 1 b s)\<lparr>n_fruits := n_fruits s + 1\<rparr>"
  have "add_a_fruit_internal (s\<lparr>rands := nat k # 0 # 0 # tl\<rparr>) = Some (s'\<lparr>rands := tl\<rparr>)" for tl
  proof -
    have p: "pick_point (\<lambda>b. b AND MAZE_FRUIT \<noteq> 0) (s\<lparr>rands := nat k # 0 # 0 # tl\<rparr>) = Some (2 * k + 1, 1, s\<lparr>rands := 0 # tl\<rparr>)"
      using pick_here[OF d assms(2,3), of 0 "\<lambda>b. b AND MAZE_FRUIT \<noteq> 0" "0 # tl"] y assms(4) by (simp add: has_fruit_def)
    have g: "mget (s\<lparr>rands := tl\<rparr>) (2 * k + 1) 1 = Some (cell s (2 * k + 1) 1)"
      using mget_cell[OF d inner_view[OF i]] by (simp add: mget_def MAZE_INDEX_def)
    have m: "mput (2 * k + 1) 1 b (s\<lparr>rands := tl\<rparr>) = Some ((set_cell (2 * k + 1) 1 b s)\<lparr>rands := tl\<rparr>)"
      using mput_cell[OF d inner_view[OF i], of b] by (simp add: mput_rands)
    show ?thesis using p g m
      by (simp add: add_a_fruit_internal_def add_a_fruit_at_def rnd_def NUM_FRUIT_TYPES_def b_def[symmetric] s'_def)
  qed
  moreover have "cell s' (2 * j + 1) 1 = cell s (2 * j + 1) 1" if "k < j" "j < maze_x_dim s" for j
    using that assms(2) y cell_set_cell_other[OF d _ i, of "2 * j + 1" 1 b] by (simp add: s'_def in_view_def)
  ultimately show ?thesis by blast
qed

lemma add_fruits_ex:
  assumes "arena s" "0 \<le> k" "k + int n < maze_x_dim s" "\<forall>i. k \<le> i \<and> i < maze_x_dim s \<longrightarrow> \<not> has_fruit (cell s (2 * i + 1) 1)"
  shows "\<exists>rs s'. (\<forall>tl. add_fruits n (s\<lparr>rands := rs @ tl\<rparr>) = Some (s'\<lparr>rands := tl\<rparr>)) \<and>
    \<not> has_fruit (cell s' (2 * (k + int n) + 1) 1)"
  using assms
proof (induction n arbitrary: k s)
  case 0
  then show ?case by (intro exI[of _ "[]"] exI[of _ s]) simp
next
  case (Suc n)
  have k: "k < maze_x_dim s" "\<not> has_fruit (cell s (2 * k + 1) 1)" using Suc.prems by auto
  obtain s1 where s1: "\<forall>tl. add_a_fruit_internal (s\<lparr>rands := nat k # 0 # 0 # tl\<rparr>) = Some (s1\<lparr>rands := tl\<rparr>)"
    "\<forall>i. k < i \<and> i < maze_x_dim s \<longrightarrow> cell s1 (2 * i + 1) 1 = cell s (2 * i + 1) 1"
    using add_fruit_ex[OF Suc.prems(1,2) k] by blast
  have "arena (s\<lparr>rands := nat k # 0 # 0 # []\<rparr>)" using Suc.prems(1) by simp
  from add_fruit_arena[OF s1(1)[rule_format, of "[]"] this]
  have a: "arena s1" "maze_x_dim s1 = maze_x_dim s" by simp_all
  obtain rs s' where r: "\<forall>tl. add_fruits n (s1\<lparr>rands := rs @ tl\<rparr>) = Some (s'\<lparr>rands := tl\<rparr>)" "\<not> has_fruit (cell s' (2 * (k + 1 + int n) + 1) 1)"
    using Suc.IH[OF a(1), of "k + 1"] Suc.prems a(2) s1(2) by auto
  show ?case
    by (intro exI[of _ "nat k # 0 # 0 # rs"] exI[of _ s']) (use s1(1) r in \<open>simp add: algebra_simps\<close>)
qed

lemma place_exit_ex:
  assumes "dims_ok s" "0 \<le> k" "k < maze_x_dim s" "\<not> has_fruit (cell s (2 * k + 1) 1)"
  shows "\<exists>s'. place_exit (s\<lparr>rands := nat k # 0 # zs\<rparr>) = Some s'"
proof -
  have y: "1 \<le> maze_y_dim s" using assms(1) by (simp add: dims_ok_def)
  have i: "in_view s (2 * k + 1) 1" using assms(2,3) y by (simp add: in_view_def)
  have p: "pick_point (\<lambda>b. b AND MAZE_FRUIT \<noteq> 0) (s\<lparr>rands := nat k # 0 # zs\<rparr>) = Some (2 * k + 1, 1, s\<lparr>rands := zs\<rparr>)"
    using pick_here[OF assms(1-3), of 0 "\<lambda>b. b AND MAZE_FRUIT \<noteq> 0" zs] y assms(4) by (simp add: has_fruit_def)
  have d: "dims_ok (s\<lparr>rands := zs\<rparr>)" "in_view (s\<lparr>rands := zs\<rparr>) (2 * k + 1) 1" using assms(1) i by (simp_all add: dims_ok_def in_view_def)
  show ?thesis using p mget_cell[OF d] mput_cell[OF d] by (simp add: place_exit_def)
qed

lemma update_points_rands:
  "update_points f ps (s\<lparr>rands := rs\<rparr>) = map_option (\<lambda>t. t\<lparr>rands := rs\<rparr>) (update_points f ps s)"
proof (induction ps arbitrary: s)
  case (Cons p ps)
  obtain x y where p: "p = (x, y)" by (cases p)
  have "mget (s\<lparr>rands := rs\<rparr>) x y = mget s x y" by (simp add: mget_def MAZE_INDEX_def)
  then show ?case
    by (cases "mget s x y"; cases "mput x y (f (the (mget s x y))) s") (simp_all add: p mput_rands Cons.IH)
qed simp

section \<open>The whole\<close>

lemma make_maze_ex:
  assumes "14 \<le> x_dim" "x_dim \<le> 50" "8 \<le> y_dim" "y_dim \<le> 30" "start_fruits \<le> 13"
  shows "\<exists>rs s'. make_maze x_dim y_dim start_fruits (s\<lparr>rands := rs\<rparr>) = Some (0, s')"
proof -
  define s0 where "s0 = s\<lparr>maze_x_dim := x_dim, maze_y_dim := y_dim, maze := replicate MAZE_SIZE MAZE_WALL\<rparr>"
  have c0: "clean s0" unfolding s0_def using assms by (intro fresh_clean) simp_all
  note d0 = clean_dims[OF c0]
  have dims: "maze_x_dim s0 = x_dim" "maze_y_dim s0 = y_dim" by (simp_all add: s0_def)
  have u0: "unmarked s0" by (simp add: unmarked_def s0_def maze_bits)
  have wall0: "wall (cell s0 (2 * i + 1) (2 * j + 1))" if "0 \<le> i" "i < x_dim" "0 \<le> j" "j < y_dim" for i j
    using index_bounds[OF d0, of "2 * i + 1" "2 * j + 1"] that dims
    by (simp add: cell_def nat_less_iff) (simp add: s0_def wall_def MAZE_WALL_def)
  then have "solid s0 = {0..<x_dim} \<times> {0..<y_dim}" by (auto simp: solid_def dims)
  then have "card (solid s0) = nat x_dim * nat y_dim" by (simp add: card_cartesian_product)
  moreover define N where "N = nat x_dim * nat y_dim - 1"
  moreover have "0 < nat x_dim * nat y_dim" using assms by simp
  ultimately have card0: "card (solid s0) = Suc N" "int (Suc N) = x_dim * y_dim" using assms by simp_all
  obtain rw x y s1 where w: "unmarked s1" "\<And>tl. worm_phase (x_dim * y_dim) (s0\<lparr>rands := rw @ tl\<rparr>) = Some (x, y, s1\<lparr>rands := tl\<rparr>)"
    using worm_phase_ex[OF c0 u0 card0(1)] assms(1) dims card0(2) by auto
  have c0': "clean (s0\<lparr>rands := rw @ []\<rparr>)" using c0 by simp
  note wc = worm_phase_clean[OF w(2)[of "[]"] c0']
  have g1: "dug (s0\<lparr>rands := rw @ []\<rparr>) (s1\<lparr>rands := []\<rparr>)" using wc by blast
  have c1: "clean s1" "location s1 x y" "maze_x_dim s1 = x_dim" "maze_y_dim s1 = y_dim"
    using wc dug_fields(1,2)[OF g1] dims by simp_all
  have l11: "location s1 1 1" unfolding location_def using c1(3,4) assms by (intro exI[of _ 0]) simp
  have plain1: "\<not> is_marked (maze s1) p" if p: "p \<in> lattice s1" for p
  proof -
    obtain u v where uv: "location s1 u v" "p = MAZE_INDEX s1 u v" using lattice_location[OF p] by blast
    have "nat p < length (maze s1)"
      using index_bounds[OF clean_dims[OF c1(1)], of u v] inner_view[OF location_inner[OF uv(1)]] uv(2) by (simp add: in_view_def nat_less_iff)
    then show ?thesis using w(1) by (simp add: unmarked_def is_marked_def)
  qed
  have "\<not> reached_at s1 1 1" using plain1 location_index[OF c1(1) l11] by blast
  from mark_unreached[OF c1(1) l11 this] obtain n R where m: "mark_maze_area 1 1 s1 = Some (int n, s1\<lparr>maze := marked_at (maze s1) R\<rparr>)"
    "card (unreached (s1\<lparr>maze := marked_at (maze s1) R\<rparr>)) + n = card (unreached s1)"
    "\<forall>u v. location s1 u v \<and> (reached_at s1 u v \<or> u = 1 \<and> v = 1) \<longrightarrow> reached_at (s1\<lparr>maze := marked_at (maze s1) R\<rparr>) u v"
    by blast
  define s2 where "s2 = s1\<lparr>maze := marked_at (maze s1) R\<rparr>"
  have m1: "mark_maze_area 1 1 (s1\<lparr>rands := tl\<rparr>) = Some (int n, s2\<lparr>rands := tl\<rparr>)" for tl
    using m(1) by (simp add: mark_rands s2_def)
  have c2: "clean s2" unfolding s2_def by (rule clean_marked(1)[OF c1(1)])
  have "unreached s1 = lattice s1" using plain1 by (auto simp: unreached_def)
  then have rest: "x_dim * y_dim - int n = int (card (unreached s2))" using lattice_size[OF c1(1)] m(2) c1(3,4) by (simp add: s2_def)
  obtain i j where ij: "x = 2 * i + 1" "y = 2 * j + 1" "in_grid s2 (i, j)" using c1(2) by (auto simp: location_def in_grid_def s2_def)
  have "reached_at s2 1 1" using m(3) l11 by (simp add: s2_def)
  from connect_loop_ex[OF c2 ij(3) this, of 0] obtain rc s3 where
    s3: "\<And>tl. connect_loop x y (x_dim * y_dim - int n) 0 (s2\<lparr>rands := rc @ tl\<rparr>) = Some (s3\<lparr>rands := tl\<rparr>)"
    by (auto simp: rest ij)
  have c3: "clean s3" "maze_x_dim s3 = x_dim" "maze_y_dim s3 = y_dim"
  proof -
    have "clean (s2\<lparr>rands := rc @ []\<rparr>)" "location (s2\<lparr>rands := rc @ []\<rparr>) x y" using c2 grid_location[OF ij(3)] by (simp_all add: ij)
    note cc = connect_loop_clean[OF s3[of "[]"] this]
    have "dug (s2\<lparr>rands := rc @ []\<rparr>) (s3\<lparr>rands := []\<rparr>)" using cc by blast
    from dug_fields(1,2)[OF this] show "clean s3" "maze_x_dim s3 = x_dim" "maze_y_dim s3 = y_dim"
      using cc c1(3,4) by (simp_all add: s2_def)
  qed
  obtain s4 where s4: "update_points (\<lambda>b. b AND NOT MAZE_REACH) (odd_points s3) s3 = Some s4" "clean s4" "dug s3 s4"
    using update_points_clean[OF c3(1) odd_points_inner, of "\<lambda>b. b AND NOT MAZE_REACH"] plain_consts(4) by blast
  have i4: "\<forall>(u, v) \<in> set (inner_points s4). inner s4 u v" by (simp add: inner_points_inner)
  obtain s5 where s5: "update_points (\<lambda>b. MAZE_NONE) (inner_points s4) s4 = Some s5" "clean s5" "dug s4 s5"
    "\<forall>u v c. inner s4 u v \<and> (\<forall>b :: byte. MAZE_NONE = c) \<and> ((u, v) \<in> set (inner_points s4) \<or> cell s4 u v = c) \<longrightarrow> cell s5 u v = c"
    using update_points_clean[OF s4(2) i4, of "\<lambda>b. MAZE_NONE"] plain_consts(1) by blast
  have none: "\<forall>u v. inner s5 u v \<longrightarrow> cell s5 u v = MAZE_NONE"
    using s5(4) inner_points_inner[of s4] dug_fields(4)[OF s5(3)] by auto
  have f5: "maze_x_dim s5 = x_dim" "maze_y_dim s5 = y_dim"
    using dug_fields(1,2)[OF dug_trans[OF s4(3) s5(3)]] c3(2,3) by simp_all
  let ?s6 = "s5\<lparr>n_fruits := 0\<rparr>"
  note a = clean_arena[OF s5(2) none]
  have nf: "\<forall>i. 0 \<le> i \<and> i < maze_x_dim ?s6 \<longrightarrow> \<not> has_fruit (cell ?s6 (2 * i + 1) 1)"
    using none assms(3) f5 by (auto simp: inner_def has_fruit_def MAZE_NONE_def)
  have "0 + int (nat start_fruits) < maze_x_dim ?s6" using assms(1,5) f5 by simp
  from add_fruits_ex[OF a order_refl this nf] obtain rf s7 where
    s7: "\<And>tl. add_fruits (nat start_fruits) (?s6\<lparr>rands := rf @ tl\<rparr>) = Some (s7\<lparr>rands := tl\<rparr>)"
    "\<not> has_fruit (cell s7 (2 * int (nat start_fruits) + 1) 1)" by auto
  have "arena (?s6\<lparr>rands := rf @ []\<rparr>)" using a by simp
  from add_fruits_arena[OF s7(1)[of "[]"] this]
  have a7: "dims_ok s7" "maze_x_dim s7 = x_dim" using f5 by (auto simp: arena_def dims_ok_def)
  have b7: "int (nat start_fruits) < maze_x_dim s7" using assms(1,5) a7(2) by simp
  obtain s8 where s8: "place_exit (s7\<lparr>rands := nat (int (nat start_fruits)) # 0 # []\<rparr>) = Some s8"
    using place_exit_ex[OF a7(1) of_nat_0_le_iff b7 s7(2), of "[]"] by blast
  let ?e = "nat (int (nat start_fruits)) # 0 # []"
  let ?rs = "rw @ rc @ rf @ ?e"
  have odd: "odd_points (s3\<lparr>rands := r\<rparr>) = odd_points s3" "inner_points (s4\<lparr>rands := r\<rparr>) = inner_points s4" for r
    by (simp_all add: odd_points_def inner_points_def)
  have start: "s\<lparr>rands := ?rs, maze_x_dim := x_dim, maze_y_dim := y_dim, maze := replicate MAZE_SIZE MAZE_WALL\<rparr> = s0\<lparr>rands := ?rs\<rparr>"
    by (simp add: s0_def)
  have six: "s5\<lparr>rands := rf @ ?e, n_fruits := 0\<rparr> = ?s6\<lparr>rands := rf @ ?e\<rparr>" by simp
  have "make_maze x_dim y_dim start_fruits (s\<lparr>rands := ?rs\<rparr>) = Some (0, s8)"
    using assms
    by (simp only: make_maze_def MAZE_MIN_X_DIM_def MAZE_MAX_X_DIM_def MAZE_MIN_Y_DIM_def MAZE_MAX_Y_DIM_def Let_def start
        w(2) m1 s3 odd update_points_rands s4(1) s5(1) option.map Option.bind.bind_lunit prod.case six s7(1) s8) simp
  then show ?thesis by blast
qed

end
