(* ===== verification/MazeLevel.thy ===== *)
theory MazeLevel
  imports MazeSupply
begin

text \<open>From the start of a level to its end: \<^verbatim>\<open>prepare_maze_level\<close> paints the whole window and the level
  starts in a state that the rounds of the clock thread keep.  Then the keyboard and the digits sent
  to the controller.\<close>

section \<open>The start of a level\<close>

lemma level_playable:
  assumes "level_maze m" "14 \<le> maze_x_dim m" "8 \<le> maze_y_dim m"
  shows "playable m" "free m 1 1"
proof -
  show "playable m"
    using assms by (auto simp: playable_def level_maze_def border_def)
  have v: "in_view m 1 1" using assms(2,3) by (simp add: in_view_def)
  have "\<not> border m 1 1" using assms(2,3) by (simp add: border_def)
  then show "free m 1 1" using assms(1) v by (simp add: free_def level_maze_def)
qed

text \<open>Everything of \<^verbatim>\<open>level_info\<close> for the levels of the game.\<close>

lemma level_info_bounds:
  assumes "1 \<le> lev" "lev \<le> MAX_LEVEL"
  shows "number (level_info lev g) = lev" "info_x_dim (level_info lev g) = 14 + 2 * (lev - 1)"
    "info_y_dim (level_info lev g) = 8 + 2 * (lev - 1)"
    "1 \<le> initial_fruit_count (level_info lev g)" "initial_fruit_count (level_info lev g) \<le> 6"
    "map_x (level_info lev g) = 6" "map_y (level_info lev g) = 6" "mz (level_info lev g) = mz g" "mx (level_info lev g) = mx g"
    "20000 - 1750 * (lev - 1) \<le> tick_usec (level_info lev g)" "4250 \<le> tick_usec (level_info lev g)"
proof -
  have b: "0 \<le> lev - 1" "lev - 1 \<le> 9" using assms by (simp_all add: MAX_LEVEL_def)
  then have "(lev - 1) sdiv 2 = (lev - 1) div 2" "0 \<le> (lev - 1) div 2"
    by (simp_all add: signed_divide_int_def sgn_if)
  then show "number (level_info lev g) = lev" "info_x_dim (level_info lev g) = 14 + 2 * (lev - 1)"
    "info_y_dim (level_info lev g) = 8 + 2 * (lev - 1)"
    "1 \<le> initial_fruit_count (level_info lev g)" "initial_fruit_count (level_info lev g) \<le> 6"
    "map_x (level_info lev g) = 6" "map_y (level_info lev g) = 6" "mz (level_info lev g) = mz g" "mx (level_info lev g) = mx g"
    "20000 - 1750 * (lev - 1) \<le> tick_usec (level_info lev g)" "4250 \<le> tick_usec (level_info lev g)"
    using b by (simp_all add: level_info_def Let_def MAZE_MIN_X_DIM_def MAZE_MAX_X_DIM_def MAZE_MIN_Y_DIM_def MAZE_MAX_Y_DIM_def SHOW_MIN_def)
qed

lemma prepare_level:
  assumes "gfx_inv (mx g)" "1 \<le> lev" "lev \<le> MAX_LEVEL"
    and "make_maze (14 + 2 * (lev - 1)) (8 + 2 * (lev - 1)) (initial_fruit_count (level_info lev g)) (mz g) = Some (0, m)"
  shows "\<exists>x. prepare_maze_level W lev g = Some (0, (level_info lev g)\<lparr>mz := m, mx := x\<rparr>) \<and>
    screen_inv W ((level_info lev g)\<lparr>mz := m, mx := x\<rparr>) \<and> show_x x = 6 \<and> show_y x = 6"
proof -
  define g1 where "g1 = level_info lev g"
  note l = level_info_bounds[OF assms(2,3), of g, folded g1_def]
  have mm: "level_maze m" "maze_x_dim m = 14 + 2 * (lev - 1)" "maze_y_dim m = 8 + 2 * (lev - 1)"
    using make_maze_level[OF assms(4)] by simp_all
  have d: "14 \<le> maze_x_dim m" "8 \<le> maze_y_dim m" using mm(2,3) assms(2) by simp_all
  note p = level_playable(1)[OF mm(1) d]
  have dims: "dims_ok m" using p by (simp add: playable_def fruits_ok_def)
  have v: "view_ok (mx g)" using assms(1) by (simp add: gfx_inv_def)
  obtain x1 where x1: "set_view_window 6 6 (mx g) = Some x1" "view_ok x1" "show_x x1 = 6" "show_y x1 = 6"
    using set_view_window_spec[OF v, of 6 6] by blast
  have i1: "gfx_inv x1" by (rule gfx_step_inv[OF gfx_window[OF x1(1)] assms(1)])
  let ?g = "g1\<lparr>mz := m, mx := x1\<rparr>"
  have "win_in m x1" using d x1(3,4) by (simp add: win_in_def)
  then have lines: "\<exists>x. draw_lines W [0..<182] ?g = Some (?g\<lparr>mx := x\<rparr>) \<and>
    painted (\<lambda>a b. if b \<in> (\<lambda>i. int i + show_y (mx ?g)) ` set [0..<182] then Some (maze_pixel W (mz ?g) a b) else None) (mx ?g) x"
    by (intro draw_lines_maze) (use x1(2) dims in simp_all)
  obtain x2 where "draw_lines W [0..<182] ?g = Some (?g\<lparr>mx := x2\<rparr>)"
    "painted (\<lambda>a b. if b \<in> (\<lambda>i. int i + show_y (mx ?g)) ` set [0..<182] then Some (maze_pixel W (mz ?g) a b) else None) (mx ?g) x2"
    using lines by blast
  then have x2: "draw_lines W [0..<182] ?g = Some (g1\<lparr>mz := m, mx := x2\<rparr>)"
    "painted (\<lambda>a b. if b \<in> (\<lambda>i. int i + show_y x1) ` {0..<182} then Some (maze_pixel W m a b) else None) x1 x2"
    by (simp_all cong: if_cong)
  have "displays W m x2"
  proof (rule displays_painted[OF x2(2)])
    fix a b assume w: "in_win x1 a b"
    then have "b = int (nat (b - 6)) + show_y x1" "nat (b - 6) \<in> {0..<182}" using x1(4) by (auto simp: in_win_def)
    then have "b \<in> (\<lambda>i. int i + show_y x1) ` {0..<182}" by (rule image_eqI)
    then show "(case if b \<in> (\<lambda>i. int i + show_y x1) ` {0..<182} then Some (maze_pixel W m a b) else None of Some c \<Rightarrow> c
      | None \<Rightarrow> pixel x1 a b) = maze_pixel W m a b" by simp
  qed
  moreover have f: "show_x x2 = 6" "show_y x2 = 6" using painted_fields(1,2)[OF x2(2)] x1(3,4) by simp_all
  ultimately have inv: "screen_inv W (g1\<lparr>mz := m, mx := x2\<rparr>)"
    using p d mm(2,3) l(2,3,6,7) painted_inv[OF x2(2) i1] by (simp add: screen_inv_def view_at_def)
  have "prepare_maze_level W lev g = Some (0, g1\<lparr>mz := m, mx := x2\<rparr>)"
    using assms(4) x1(1) x2(1) l by (simp add: prepare_maze_level_def g1_def[symmetric] shift_view_def modex_consts)
  then show ?thesis using inv f by (auto simp: g1_def)
qed

lemma level_start_spec:
  assumes "gfx_inv (mx g)" "readable (behind_build W)" "1 \<le> lev" "lev \<le> MAX_LEVEL"
    and "make_maze (14 + 2 * (lev - 1)) (8 + 2 * (lev - 1)) (initial_fruit_count (level_info lev g)) (mz g) = Some (0, m)"
  shows "\<exists>g'. level_start W lev g = Some (True, g') \<and> playing W g' \<and> monitor (mx g') (player_pixel W g') \<and>
    number g' = lev \<and> ticks_total g' = 0 \<and> play_x g' = 12 \<and> play_y g' = 12 \<and> n_fruits (mz g') \<le> 6"
proof -
  obtain x where x: "prepare_maze_level W lev g = Some (0, (level_info lev g)\<lparr>mz := m, mx := x\<rparr>)"
    "screen_inv W ((level_info lev g)\<lparr>mz := m, mx := x\<rparr>)" "show_x x = 6" "show_y x = 6"
    using prepare_level[OF assms(1,3-5)] by blast
  define g2 where "g2 = (level_info lev g)\<lparr>mz := m, mx := x, play_x := BLOCK_X_DIM, play_y := BLOCK_Y_DIM, move_cnt := 0,
    last_dir := DIR_UP, dir := None, next_dir := None\<rparr>"
  have mm: "level_maze m" "maze_x_dim m = 14 + 2 * (lev - 1)" "maze_y_dim m = 8 + 2 * (lev - 1)"
    "n_fruits m = int (nat (initial_fruit_count (level_info lev g)))"
    using make_maze_level[OF assms(5)] by simp_all
  have six: "n_fruits m \<le> 6" using mm(4) level_info_bounds(4,5)[OF assms(3,4), of g] by simp
  have fr: "free m 1 1" by (rule level_playable(2)[OF mm(1)]) (use mm(2,3) assms(3) in simp_all)
  have "screen_inv W g2" using x(2) by (simp add: g2_def screen_inv_def view_at_def)
  moreover have "panned g2" using x(3,4) by (simp add: g2_def panned_def BLOCK_X_DIM_def BLOCK_Y_DIM_def)
  moreover have "player_at (mz g2) (play_x g2) (play_y g2) (dir g2) (move_cnt g2)"
    using fr by (simp add: g2_def player_rest BLOCK_X_DIM_def BLOCK_Y_DIM_def)
  ultimately have i2: "game_inv W g2" by (simp add: game_inv_def g2_def)
  have k: "move_cnt g2 = 0" by (simp add: g2_def)
  obtain won m1 x1 where v: "unveil_around_player W g2 = Some (won, g2\<lparr>mz := m1, mx := x1\<rparr>)" "game_inv W (g2\<lparr>mz := m1, mx := x1\<rparr>)"
    "kept (mz g2) m1"
    using visit_inv[OF i2 k] by blast
  let ?g = "g2\<lparr>mz := m1, mx := x1\<rparr>"
  have s: "screen_inv W ?g" "panned ?g" "player_at (mz ?g) (play_x ?g) (play_y ?g) (dir ?g) (move_cnt ?g)"
    using v(2) by (simp_all only: game_inv_def)
  obtain x2 u where x2: "show_player W ?g = Some (?g\<lparr>mx := x2, old_value_buf := u\<rparr>)" "screen_inv W (?g\<lparr>mx := x2, old_value_buf := u\<rparr>)"
    "panned (?g\<lparr>mx := x2, old_value_buf := u\<rparr>)" "monitor x2 (player_pixel W ?g)"
    using show_player_inv[OF s assms(2)] by blast
  let ?e = "?g\<lparr>mx := x2, old_value_buf := u, ticks_total := 0\<rparr>"
  have run: "level_start W lev g = Some (True, ?e)"
    using x(1) v(1) x2(1) by (simp add: level_start_def g2_def Let_def)
  have inv: "game_inv W ?e"
    using x2(2,3) v(2) by (simp add: game_inv_def screen_inv_def view_at_def panned_def)
  have n: "n_fruits m1 \<le> 6" using v(3) six by (simp add: kept_def g2_def)
  have "playing W ?e"
    using inv n assms(3,4) level_info_bounds(1)[OF assms(3,4), of g] by (simp add: playing_def g2_def)
  moreover have "player_pixel W ?e = player_pixel W ?g" by (simp add: player_pixel_def fun_eq_iff Let_def)
  ultimately show ?thesis
    using run x2(4) n level_info_bounds(1)[OF assms(3,4), of g]
    by (intro exI[of _ ?e]) (simp add: g2_def BLOCK_X_DIM_def BLOCK_Y_DIM_def)
qed

section \<open>Playing a level\<close>

definition frame_ticks :: "frame \<Rightarrow> int" where
  "frame_ticks f = sint (drop_bit 8 (f_data f))"

definition enough_rounds :: "frame list \<Rightarrow> bool" where
  "enough_rounds fs \<longleftrightarrow> (\<forall>f \<in> set fs. 8 \<le> length (f_rounds f))"

definition level_won :: "game \<Rightarrow> bool" where
  "level_won g \<longleftrightarrow> n_fruits (mz g) = 0 \<and> cell (mz g) (play_x g div 12) (play_y g div 12) AND MAZE_EXIT \<noteq> 0"

lemma thread_playing: "playing W g \<Longrightarrow> playing W (fold thread_step es g)"
  using fold_thread_inv fold_thread_mz counters_threads by (simp add: playing_def counters_def)

lemma frame_ticks_pos: "0 \<le> frame_ticks f"
  by (simp add: frame_ticks_def clock_ticks)

lemma play_level_inv:
  assumes "playing W g" "readable (behind_build W)" "enough_rounds fs" "ticks_total g + sum_list (map frame_ticks fs) < 2147483648"
  shows "\<exists>won g' rest. play_level W fs g = Some (won, g', rest) \<and> playing W g' \<and> (won \<longrightarrow> level_won g') \<and>
    (\<not> won \<and> \<not> quit_flag g' \<longrightarrow> rest = []) \<and>
    (\<exists>past. fs = past @ rest \<and> ticks_total g' = ticks_total g + sum_list (map frame_ticks past))"
  using assms
proof (induction fs arbitrary: g)
  case Nil
  then show ?case by auto
next
  case (Cons f fs)
  show ?case
  proof (cases "quit_flag g")
    case True
    then show ?thesis using Cons.prems(1) by (intro exI[of _ False] exI[of _ g] exI[of _ "f # fs"]) simp
  next
    case False
    let ?g = "fold thread_step (before f) g"
    have p: "playing W ?g" by (rule thread_playing[OF Cons.prems(1)])
    have t: "ticks_total ?g = ticks_total g" using counters_threads[of "before f" g] by (simp add: counters_def)
    have s: "0 \<le> sum_list (map frame_ticks fs)" using frame_ticks_pos by (intro sum_list_nonneg) auto
    then have b: "ticks_total ?g < 2147483648" using Cons.prems(4) frame_ticks_pos[of f] t by simp
    have e: "8 \<le> length (f_rounds f)" "enough_rounds fs" using Cons.prems(3) by (simp_all add: enough_rounds_def)
    obtain won g1 where g1: "game_frame W (f_data f) (f_rgb f) (f_rounds f) ?g = Some (won, g1)" "playing W g1"
      "ticks_total g1 = ticks_total g + frame_ticks f" "won \<longrightarrow> level_won g1"
      using game_frame_inv[OF p Cons.prems(2) b e(1), of "f_data f" "f_rgb f"] t by (auto simp: frame_ticks_def level_won_def)
    show ?thesis
    proof (cases won)
      case True
      then have "play_level W (f # fs) g = Some (True, g1, fs)" using False g1(1) by simp
      moreover have "f # fs = [f] @ fs" "ticks_total g1 = ticks_total g + sum_list (map frame_ticks [f])" using g1(3) by simp_all
      ultimately show ?thesis using True g1(2,4) by blast
    next
      case nw: False
      have "ticks_total g1 + sum_list (map frame_ticks fs) < 2147483648" using Cons.prems(4) g1(3) by simp
      then obtain won' g' rest dn where r: "play_level W fs g1 = Some (won', g', rest)" "playing W g'" "won' \<longrightarrow> level_won g'"
        "\<not> won' \<and> \<not> quit_flag g' \<longrightarrow> rest = []" "fs = dn @ rest" "ticks_total g' = ticks_total g1 + sum_list (map frame_ticks dn)"
        using Cons.IH[OF g1(2) Cons.prems(2) e(2)] by blast
      have "play_level W (f # fs) g = Some (won', g', rest)" using False nw g1(1) r(1) by simp
      moreover have "f # fs = (f # dn) @ rest" using r(5) by simp
      moreover have "ticks_total g' = ticks_total g + sum_list (map frame_ticks (f # dn))" using r(6) g1(3) by simp
      ultimately show ?thesis using r(2-4) by blast
    qed
  qed
qed

section \<open>The keyboard\<close>

text \<open>The specification looks at the bytes behind the last arrow key, latest byte first.\<close>

definition arrow :: "byte \<Rightarrow> dir_t option" where
  "arrow k = (if k = KEY_UP then Some DIR_UP else if k = KEY_DOWN then Some DIR_DOWN
    else if k = KEY_RIGHT then Some DIR_RIGHT else if k = KEY_LEFT then Some DIR_LEFT else None)"

fun last_arrow :: "byte list \<Rightarrow> dir_t option" where
  "last_arrow (k # b # a # ks) = (if a = 27 \<and> b = 91 \<and> arrow k \<noteq> None then arrow k else last_arrow (b # a # ks))"
| "last_arrow ks = None"

fun escape_state :: "byte list \<Rightarrow> nat" where
  "escape_state [] = 0"
| "escape_state [b] = (if b = 27 then 1 else 0)"
| "escape_state (b # a # ks) = (if b = 27 then 1 else if b = 91 \<and> a = 27 then 2 else 0)"

definition turned :: "byte list \<Rightarrow> game \<Rightarrow> game" where
  "turned ks g = g\<lparr>next_dir := (case last_arrow ks of None \<Rightarrow> next_dir g | Some d \<Rightarrow> Some d), key_state := escape_state ks\<rparr>"

lemma arrow_range: "key \<ge> KEY_UP \<and> key \<le> KEY_LEFT \<longleftrightarrow> arrow key \<noteq> None"
proof -
  have "key \<ge> 65 \<and> key \<le> 68 \<longleftrightarrow> key = 65 \<or> key = 66 \<or> key = 67 \<or> key = 68" for key :: byte
    by (simp add: word_unat_eq_iff word_le_nat_alt) arith
  then show ?thesis by (auto simp: arrow_def KEY_UP_def KEY_DOWN_def KEY_RIGHT_def KEY_LEFT_def)
qed

lemma escape_cases: "escape_state ks = 1 \<longleftrightarrow> (\<exists>r. ks = 27 # r)" "escape_state ks = 2 \<longleftrightarrow> (\<exists>r. ks = 91 # 27 # r)"
  by (cases ks rule: escape_state.cases; simp; fastforce)+

lemma escape_step: "escape_state (k # ks) = (if k = 27 then 1 else if k = 91 \<and> escape_state ks = 1 then 2 else 0)"
  unfolding escape_cases(1) by (cases ks) auto

lemma last_arrow_step: "last_arrow (k # ks) = (if escape_state ks = 2 \<and> arrow k \<noteq> None then arrow k else last_arrow ks)"
  unfolding escape_cases(2) by (cases ks rule: escape_state.cases) auto

lemma arrow_plain: "arrow 27 = None" "arrow 91 = None"
  by (simp_all add: arrow_def KEY_UP_def KEY_DOWN_def KEY_RIGHT_def KEY_LEFT_def)

lemma key_turned:
  assumes "k \<noteq> BACKQUOTE"
  shows "keyboard_key k (turned ks g) = turned (k # ks) g"
proof -
  let ?d = "Some (if k = KEY_UP then DIR_UP else if k = KEY_DOWN then DIR_DOWN else if k = KEY_RIGHT then DIR_RIGHT else DIR_LEFT)"
  have d: "arrow k \<noteq> None \<Longrightarrow> arrow k = ?d" by (auto simp: arrow_def split: if_splits)
  consider "k = 27" | "k = 91" | "k \<noteq> 27" "k \<noteq> 91" by blast
  then show ?thesis
  proof cases
    case 1
    then show ?thesis using assms by (simp add: keyboard_key_def turned_def last_arrow_step escape_step arrow_plain)
  next
    case 2
    have "\<not> (KEY_UP \<le> (91 :: byte) \<and> 91 \<le> KEY_LEFT)" using arrow_range[of 91] arrow_plain(2) by simp
    then have no: "(KEY_UP \<le> (91 :: byte) \<and> 91 \<le> KEY_LEFT \<and> b) = False" for b by blast
    have "(91 :: byte) \<noteq> BACKQUOTE" by (simp add: BACKQUOTE_def)
    then show ?thesis
      unfolding 2 keyboard_key_def no by (cases "escape_state ks = 1") (simp_all add: turned_def last_arrow_step escape_step arrow_plain)
  next
    case 3
    show ?thesis
    proof (cases "escape_state ks = 2 \<and> arrow k \<noteq> None")
      case True
      then have "KEY_UP \<le> k \<and> k \<le> KEY_LEFT" using arrow_range by simp
      then have "keyboard_key k (turned ks g) = (turned ks g)\<lparr>next_dir := ?d, key_state := 0\<rparr>"
        using 3 assms True by (simp add: keyboard_key_def turned_def)
      moreover have "last_arrow (k # ks) = ?d" using True d by (simp only: last_arrow_step) simp
      ultimately show ?thesis using 3 by (simp add: turned_def escape_step)
    next
      case False
      then have "\<not> (KEY_UP \<le> k \<and> k \<le> KEY_LEFT \<and> key_state (turned ks g) = 2)" using arrow_range[of k] by (auto simp: turned_def)
      then have "keyboard_key k (turned ks g) = (turned ks g)\<lparr>key_state := 0\<rparr>"
        using 3 assms unfolding keyboard_key_def by (simp only: if_False simp_thms)
      moreover have "last_arrow (k # ks) = last_arrow ks" using False by (simp only: last_arrow_step if_False)
      ultimately show ?thesis using 3 by (simp add: turned_def escape_step)
    qed
  qed
qed

lemma keys_turned:
  assumes "BACKQUOTE \<notin> set keys" "key_state g = 0"
  shows "fold keyboard_key keys g = turned (rev keys) g"
  using assms(1)
proof (induction keys rule: rev_induct)
  case Nil
  then show ?case using assms(2) by (simp add: turned_def)
next
  case (snoc k keys)
  moreover have "k \<noteq> BACKQUOTE" using snoc.prems by auto
  ultimately show ?case using key_turned[of k "rev keys" g] by simp
qed

lemma threads_keys:
  assumes "BACKQUOTE \<notin> set keys" "\<not> quit_flag g" "\<not> winner g"
  shows "fold (\<lambda>k. thread_step (Key k)) keys g = fold keyboard_key keys g"
  using assms
proof (induction keys arbitrary: g)
  case (Cons k keys)
  have "\<not> quit_flag (keyboard_key k g)" "\<not> winner (keyboard_key k g)" using Cons.prems by (auto simp: keyboard_key_def)
  then show ?case using Cons by simp
qed simp

section \<open>The race of the controller\<close>

text \<open>The controller thread takes another lock, so \<^verbatim>\<open>next_dir\<close> may change between the test and the
  assignment.  A player on his way who is turned to the side is no longer on a line of squares.\<close>

lemma off_multiple:
  fixes k :: int
  assumes "k mod 12 \<noteq> 0" "e = 1 \<or> e = - 1"
  shows "12 * b \<noteq> 12 * a - k * e"
proof
  assume "12 * b = 12 * a - k * e"
  then have "k = 12 * (a - b) \<or> k = 12 * (b - a)" using assms(2) by auto
  then show False using assms(1) by auto
qed

lemma player_off_line:
  assumes "player_at m px py (Some d) k" "0 < k" "k < 12" "vertical d \<noteq> vertical e"
  shows "\<not> player_at m px py (Some e) k'"
proof
  assume "player_at m px py (Some e) k'"
  then obtain a b where e: "px = 12 * a - k' * step_x (Some e)" "py = 12 * b - k' * step_y (Some e)" by (auto simp: player_at_def)
  obtain a' b' where d: "px = 12 * a' - k * step_x (Some d)" "py = 12 * b' - k * step_y (Some d)"
    using assms(1) by (auto simp: player_at_def)
  have k: "k mod 12 \<noteq> 0" using assms(2,3) by (simp add: mod_pos_pos_trivial)
  show False
  proof (cases "vertical d")
    case True
    then have "step_y (Some d) = 1 \<or> step_y (Some d) = - 1" "step_y (Some e) = 0"
      using assms(4) by (cases d; cases e; simp add: vertical_def)+
    then show False using off_multiple[OF k, of "step_y (Some d)" b b'] d(2) e(2) by simp
  next
    case False
    then have "step_x (Some d) = 1 \<or> step_x (Some d) = - 1" "step_x (Some e) = 0"
      using assms(4) by (cases d; cases e; simp add: vertical_def)+
    then show False using off_multiple[OF k, of "step_x (Some d)" a a'] d(1) e(1) by simp
  qed
qed

lemma make_maze_zero:
  assumes "14 \<le> x_dim" "x_dim \<le> 50" "8 \<le> y_dim" "y_dim \<le> 30" "make_maze x_dim y_dim start_fruits s = Some (r, s')"
  shows "r = 0"
proof -
  have "\<not> (x_dim < MAZE_MIN_X_DIM \<or> x_dim > MAZE_MAX_X_DIM \<or> y_dim < MAZE_MIN_Y_DIM \<or> y_dim > MAZE_MAX_Y_DIM)"
    using assms(1-4) by (simp add: MAZE_MIN_X_DIM_def MAZE_MAX_X_DIM_def MAZE_MIN_Y_DIM_def MAZE_MAX_Y_DIM_def)
  note run = assms(5)[unfolded make_maze_def if_not_P[OF this] Let_def]
  show ?thesis using run by (auto split: bind_splits)
qed

lemma level_start_any:
  assumes "gfx_inv (mx g)" "readable (behind_build W)" "1 \<le> lev" "lev \<le> MAX_LEVEL" "level_start W lev g = Some (ok, g')"
  shows "ok \<and> playing W g' \<and> monitor (mx g') (player_pixel W g') \<and> number g' = lev \<and> ticks_total g' = 0 \<and> play_x g' = 12 \<and> play_y g' = 12"
proof -
  let ?f = "initial_fruit_count (level_info lev g)"
  note l = level_info_bounds[OF assms(3,4)]
  have dims: "14 \<le> 14 + 2 * (lev - 1)" "14 + 2 * (lev - 1) \<le> 50" "8 \<le> 8 + 2 * (lev - 1)" "8 + 2 * (lev - 1) \<le> 30"
    using assms(3,4) by (simp_all add: MAX_LEVEL_def)
  obtain r m where mm: "make_maze (14 + 2 * (lev - 1)) (8 + 2 * (lev - 1)) ?f (mz g) = Some (r, m)"
    using assms(5) l[of g] by (auto simp: level_start_def prepare_maze_level_def Let_def split: bind_splits)
  have "r = 0" by (rule make_maze_zero[OF dims mm])
  then show ?thesis using level_start_spec[OF assms(1-4), of m] mm assms(5) by auto
qed

lemma level_start_ex:
  assumes "gfx_inv (mx g)" "readable (behind_build W)" "1 \<le> lev" "lev \<le> MAX_LEVEL"
  shows "\<exists>rs g'. level_start W lev (g\<lparr>mz := (mz g)\<lparr>rands := rs\<rparr>\<rparr>) = Some (True, g')"
proof -
  let ?f = "initial_fruit_count (level_info lev g)"
  note l = level_info_bounds[OF assms(3,4)]
  have dims: "14 \<le> 14 + 2 * (lev - 1)" "14 + 2 * (lev - 1) \<le> 50" "8 \<le> 8 + 2 * (lev - 1)" "8 + 2 * (lev - 1) \<le> 30" "?f \<le> 13"
    using assms(3,4) l(4,5)[of g] by (simp_all add: MAX_LEVEL_def)
  obtain rs m where "make_maze (14 + 2 * (lev - 1)) (8 + 2 * (lev - 1)) ?f ((mz g)\<lparr>rands := rs\<rparr>) = Some (0, m)"
    using make_maze_ex[OF dims, of "mz g"] by blast
  then show ?thesis
    using level_start_spec[of "g\<lparr>mz := (mz g)\<lparr>rands := rs\<rparr>\<rparr>" W lev m] assms by (auto simp: level_info_def Let_def)
qed

section \<open>A game for the instances\<close>

definition demo_world :: world where
  "demo_world = \<lparr>blocks = (\<lambda>n y x. of_nat n), behind_build = (\<lambda>a. Some 0)\<rparr>"

definition demo_game :: game where
  "demo_game = \<lparr>mz = tiny_maze, mx = demo_modex, old_value_buf = (\<lambda>i. 0), number = 0, info_x_dim = 0, info_y_dim = 0,
     initial_fruit_count = 0, time_to_first_fruit = 0, time_between_fruits = 0, tick_usec = 0, map_x = 0, map_y = 0,
     play_x = 0, play_y = 0, last_dir = DIR_UP, dir = None, next_dir = None, move_cnt = 0, buttons = 0, buttons_pressed = False,
     key_state = 0, quit_flag = False, winner = False, ticks_total = 0, goodcount = 0, badcount = 0, led_words = []\<rparr>"

lemma demo_ready: "gfx_inv (mx (demo_game\<lparr>mz := m\<rparr>))" "readable (behind_build demo_world)"
  by (simp_all add: demo_game_def demo_world_def readable_def gfx_inv_def fence_ok_def demo_modex_ok disp_page_def)

section \<open>Properties\<close>

text \<open>C10: For dimensions from 14 by 8 to 50 by 30 and up to 13 fruits, whenever make_maze returns it
  reports success and the maze is one that can be played, with a closed boundary, open odd
  squares and the requested number of fruits; and there are random numbers for which all its
  loops end.\<close>
theorem make_maze_builds_level:
  assumes "14 \<le> x_dim" "x_dim \<le> 50" "8 \<le> y_dim" "y_dim \<le> 30" "0 \<le> start_fruits" "start_fruits \<le> 13"
  shows "(\<forall>r s'. make_maze x_dim y_dim start_fruits s = Some (r, s') \<longrightarrow>
      r = 0 \<and> level_maze s' \<and> maze_x_dim s' = x_dim \<and> maze_y_dim s' = y_dim \<and> n_fruits s' = start_fruits) \<and>
    (\<exists>rs s'. make_maze x_dim y_dim start_fruits (s\<lparr>rands := rs\<rparr>) = Some (0, s'))"
proof -
  have "r = 0 \<and> level_maze s' \<and> maze_x_dim s' = x_dim \<and> maze_y_dim s' = y_dim \<and> n_fruits s' = start_fruits"
    if run: "make_maze x_dim y_dim start_fruits s = Some (r, s')" for r s'
    using make_maze_level[OF run make_maze_zero[OF assms(1-4) run]] make_maze_zero[OF assms(1-4) run] assms(5) by simp
  then show ?thesis using make_maze_ex[OF assms(1-4,6), of s] by blast
qed

theorem make_maze_builds_level_witness:
  "\<exists>rs s'. make_maze 14 8 1 (tiny_maze\<lparr>rands := rs\<rparr>) = Some (0, s') \<and> level_maze s' \<and> n_fruits s' = 1"
proof -
  obtain rs s' where r: "make_maze 14 8 1 (tiny_maze\<lparr>rands := rs\<rparr>) = Some (0, s')"
    using make_maze_builds_level[of 14 8 1 tiny_maze] by auto
  then show ?thesis using make_maze_builds_level[of 14 8 1 "tiny_maze\<lparr>rands := rs\<rparr>"] by auto
qed

text \<open>C13: Whenever the start of one of the ten levels returns, it has succeeded: the game is in its
  invariant with the player at (1,1), the monitor shows the window of the maze with the player,
  and the time is 0; and for suitable random numbers it does return.\<close>
theorem level_starts:
  assumes "gfx_inv (mx g)" "readable (behind_build W)" "1 \<le> lev" "lev \<le> MAX_LEVEL"
  shows "(\<forall>ok g'. level_start W lev g = Some (ok, g') \<longrightarrow> ok \<and> playing W g' \<and> monitor (mx g') (player_pixel W g') \<and>
      number g' = lev \<and> ticks_total g' = 0 \<and> play_x g' = 12 \<and> play_y g' = 12) \<and>
    (\<exists>rs g'. level_start W lev (g\<lparr>mz := (mz g)\<lparr>rands := rs\<rparr>\<rparr>) = Some (True, g'))"
  using level_start_any[OF assms] level_start_ex[OF assms] by blast

theorem level_starts_witness:
  "\<exists>rs g'. level_start demo_world 1 (demo_game\<lparr>mz := tiny_maze\<lparr>rands := rs\<rparr>\<rparr>) = Some (True, g') \<and> playing demo_world g' \<and> number g' = 1"
proof -
  have "gfx_inv (mx demo_game)" using demo_ready(1)[of "mz demo_game"] by simp
  from level_starts[OF this demo_ready(2), of 1] obtain rs g' where
    r: "level_start demo_world 1 (demo_game\<lparr>mz := tiny_maze\<lparr>rands := rs\<rparr>\<rparr>) = Some (True, g')"
    by (auto simp: MAX_LEVEL_def demo_game_def)
  show ?thesis
    using level_starts[OF demo_ready, of 1 "tiny_maze\<lparr>rands := rs\<rparr>"] r by (auto simp: MAX_LEVEL_def)
qed

text \<open>C4: From a level being played, the clock thread plays any sequence of frames without failing,
  whatever keys and buttons the other threads take in between: the player always stands on an
  open square or on its way to one, the window stays inside the maze and the build buffer shows
  the maze, the level ends only on the exit with all fruits eaten or when the player quits, and
  the clock counts every tick of the frames played.\<close>
theorem level_plays:
  assumes "playing W g" "readable (behind_build W)" "enough_rounds fs" "ticks_total g + sum_list (map frame_ticks fs) < 2147483648"
  shows "\<exists>won g' rest. play_level W fs g = Some (won, g', rest) \<and> playing W g' \<and> (won \<longrightarrow> level_won g') \<and>
    (\<not> won \<and> \<not> quit_flag g' \<longrightarrow> rest = []) \<and>
    (\<exists>past. fs = past @ rest \<and> ticks_total g' = ticks_total g + sum_list (map frame_ticks past))"
  by (rule play_level_inv[OF assms])

text \<open>C11: A frame with at least one tick leaves on the monitor exactly the window of the maze with
  the masked player block over it (the bare maze when the level is won), adds its ticks to the
  time and sends the time before it to the LEDs; it keeps the invariant of the game.\<close>
theorem frame_shows_game:
  assumes "playing W g" "readable (behind_build W)" "ticks_total g < 2147483648" "8 \<le> length rs"
  shows "\<exists>won g'. game_frame W data rgb rs g = Some (won, g') \<and> playing W g' \<and>
    ticks_total g' = ticks_total g + sint (drop_bit 8 data) \<and> led_words g' = led_words g @ [tux_clock (ticks_total g div 32)] \<and>
    (won \<longrightarrow> level_won g') \<and>
    (0 < sint (drop_bit 8 data) \<longrightarrow> monitor (mx g') (if won then maze_pixel W (mz g') else player_pixel W g'))"
  using game_frame_inv[OF assms, of data rgb] by (simp add: level_won_def)

text \<open>C24: The state machine of the keyboard thread sets the next direction to the last complete
  escape sequence of an arrow key in what was typed, as a reference definition on the whole
  input finds it, and remembers the part of a sequence at its end.\<close>
theorem keyboard_decodes_arrows:
  assumes "BACKQUOTE \<notin> set keys" "\<not> quit_flag g" "\<not> winner g" "key_state g = 0"
  shows "fold (\<lambda>k. thread_step (Key k)) keys g = turned (rev keys) g"
  using threads_keys[OF assms(1-3)] keys_turned[OF assms(1,4)] by simp

theorem keyboard_decodes_arrows_witness:
  "next_dir (fold (\<lambda>k. thread_step (Key k)) [27, 91, 68, 27, 91, 120, 65] demo_game) = Some DIR_LEFT"
proof -
  have run: "fold (\<lambda>k. thread_step (Key k)) [27, 91, 68, 27, 91, 120, 65] demo_game = turned (rev [27, 91, 68, 27, 91, 120, 65]) demo_game"
    by (rule keyboard_decodes_arrows) (simp_all add: demo_game_def BACKQUOTE_def)
  have "arrow 68 = Some DIR_LEFT" "arrow 120 = None" by (simp_all add: arrow_def KEY_UP_def KEY_DOWN_def KEY_RIGHT_def KEY_LEFT_def)
  then have "last_arrow [65, 120, 91, 27, 68, 91, 27] = Some DIR_LEFT" by simp
  then show ?thesis unfolding run by (simp add: turned_def)
qed

text \<open>C26: If the controller thread replaces the turn back by a turn across after the clock thread has
  tested it and before it assigns it, the player leaves the lines between the squares and the
  invariant of the game is lost; with one value read for both, it is kept.\<close>
theorem late_turn_leaves_line:
  assumes "game_inv W g" "0 < move_cnt g" "dir g = Some d" "turn_back (Some d) tested" "vertical e \<noteq> vertical d"
  shows "\<not> game_inv W (reverse_now tested (Some e) g) \<and> game_inv W (reverse_now (next_dir g) (next_dir g) g)"
proof -
  let ?g = "reverse_now tested (Some e) g"
  have k: "move_cnt g < 12" "player_at (mz g) (play_x g) (play_y g) (Some d) (move_cnt g)"
    using assms(1,3) by (auto simp: game_inv_def)
  have t: "tested \<noteq> Some d" using assms(4) by (cases d; cases tested) auto
  have g: "?g = g\<lparr>move_cnt := 12 - move_cnt g, dir := Some e\<rparr>"
    using assms(2-4) t by (simp add: reverse_now_def BLOCK_Y_DIM_def BLOCK_X_DIM_def)
  have "\<not> player_at (mz g) (play_x g) (play_y g) (Some e) (12 - move_cnt g)"
    by (rule player_off_line[OF k(2) assms(2) k(1)]) (use assms(5) in simp)
  then have "\<not> game_inv W ?g" by (simp add: g game_inv_def)
  then show ?thesis using reverse_now_inv[OF assms(1)] by blast
qed

section \<open>Instances\<close>

text \<open>A first level, and a frame of one tick in which the left arrow key was pressed.\<close>

definition demo_frame :: frame where
  "demo_frame = \<lparr>before = [Key 27, Key 91, Key 67], f_data = 0x100, f_rgb = (1, 2, 3),
     f_rounds = replicate 8 \<lparr>between = [Key 68], r_buttons = 0xEF, polled = [Tux], r_junk = True, r_rgb = (4, 5, 6)\<rparr>\<rparr>"

lemma demo_level: "\<exists>g. playing demo_world g \<and> ticks_total g = 0 \<and> number g = 1"
proof -
  have i: "gfx_inv (mx demo_game)" using demo_ready(1)[of "mz demo_game"] by simp
  obtain rs m where "make_maze 14 8 (initial_fruit_count (level_info 1 demo_game)) (tiny_maze\<lparr>rands := rs\<rparr>) = Some (0, m)"
    using make_maze_ex[of 14 8 "initial_fruit_count (level_info 1 demo_game)" tiny_maze] level_info_bounds(5)[of 1 demo_game]
    by (auto simp: MAX_LEVEL_def)
  then show ?thesis
    using level_start_spec[OF demo_ready, of 1 "tiny_maze\<lparr>rands := rs\<rparr>" m]
    by (auto simp: MAX_LEVEL_def level_info_def Let_def demo_game_def)
qed

theorem level_plays_witness:
  "\<exists>g won g' rest. playing demo_world g \<and> play_level demo_world [demo_frame, demo_frame] g = Some (won, g', rest) \<and> playing demo_world g'"
proof -
  obtain g where g: "playing demo_world g" "ticks_total g = 0" using demo_level by blast
  have "frame_ticks demo_frame = 1" by (simp add: frame_ticks_def demo_frame_def drop_bit_eq_div)
  then have "enough_rounds [demo_frame, demo_frame]" "ticks_total g + sum_list (map frame_ticks [demo_frame, demo_frame]) < 2147483648"
    using g(2) by (simp_all add: enough_rounds_def demo_frame_def)
  from level_plays[OF g(1) demo_ready(2) this] show ?thesis using g(1) by blast
qed

theorem frame_shows_game_witness:
  "\<exists>g won g'. playing demo_world g \<and> game_frame demo_world 0x100 (1, 2, 3) (f_rounds demo_frame) g = Some (won, g') \<and>
    ticks_total g' = 1 \<and> monitor (mx g') (if won then maze_pixel demo_world (mz g') else player_pixel demo_world g')"
proof -
  obtain g where g: "playing demo_world g" "ticks_total g = 0" using demo_level by blast
  have t: "sint (drop_bit 8 (0x100 :: u32)) = 1" by (simp add: drop_bit_eq_div)
  have "ticks_total g < 2147483648" "8 \<le> length (f_rounds demo_frame)" using g(2) by (simp_all add: demo_frame_def)
  from frame_shows_game[OF g(1) demo_ready(2) this, of "0x100" "(1, 2, 3)"]
  obtain won g' where "game_frame demo_world 0x100 (1, 2, 3) (f_rounds demo_frame) g = Some (won, g')" "ticks_total g' = 1"
    "monitor (mx g') (if won then maze_pixel demo_world (mz g') else player_pixel demo_world g')"
    unfolding t g(2) by auto
  then show ?thesis using g(1) by blast
qed

text \<open>A player on his way from the first square to the right.\<close>

theorem late_turn_leaves_line_witness:
  "\<exists>g. game_inv demo_world g \<and> dir g = Some DIR_RIGHT \<and> \<not> game_inv demo_world (reverse_now (Some DIR_LEFT) (Some DIR_UP) g)"
proof -
  have i: "gfx_inv (mx (demo_game\<lparr>mz := tiny_maze\<lparr>rands := rs\<rparr>\<rparr>))" for rs by (rule demo_ready(1))
  obtain rs m where m: "make_maze 14 8 (initial_fruit_count (level_info 1 demo_game)) (tiny_maze\<lparr>rands := rs\<rparr>) = Some (0, m)"
    using make_maze_ex[of 14 8 "initial_fruit_count (level_info 1 demo_game)" tiny_maze] level_info_bounds(5)[of 1 demo_game]
    by (auto simp: MAX_LEVEL_def)
  define g0 where "g0 = demo_game\<lparr>mz := tiny_maze\<lparr>rands := rs\<rparr>\<rparr>"
  have "make_maze (14 + 2 * (1 - 1)) (8 + 2 * (1 - 1)) (initial_fruit_count (level_info 1 g0)) (mz g0) = Some (0, m)"
    using m by (simp add: g0_def level_info_def Let_def)
  then obtain x where x: "screen_inv demo_world ((level_info 1 g0)\<lparr>mz := m, mx := x\<rparr>)" "show_x x = 6" "show_y x = 6"
    using prepare_level[of g0 1 m demo_world] i[of rs] by (auto simp: g0_def MAX_LEVEL_def)
  let ?g1 = "(level_info 1 g0)\<lparr>mz := m, mx := x\<rparr>"
  let ?g = "?g1\<lparr>play_x := 19, play_y := 12, dir := Some DIR_RIGHT, next_dir := Some DIR_LEFT, move_cnt := 5\<rparr>"
  have lm: "level_maze m" "maze_x_dim m = 14" "maze_y_dim m = 8" using make_maze_level[OF m] by simp_all
  have "free m 2 1" "free m 1 1"
    using lm by (simp_all add: free_def level_maze_def in_view_def border_def)
  then have "player_at m 19 12 (Some DIR_RIGHT) 5" unfolding player_at_def by (intro conjI exI[of _ 2] exI[of _ 1]) simp_all
  then have inv: "game_inv demo_world ?g" using x by (simp add: game_inv_def panned_def)
  have "\<not> game_inv demo_world (reverse_now (Some DIR_LEFT) (Some DIR_UP) ?g)"
    using late_turn_leaves_line[OF inv, of DIR_RIGHT "Some DIR_LEFT" DIR_UP] by (simp add: vertical_def)
  then show ?thesis using inv by (intro exI[of _ ?g]) simp
qed

end
