(* ===== verification/TuxRing.thy ===== *)
theory TuxRing
  imports Prelude
begin

text \<open>The line discipline of the Tux controller driver, \<^verbatim>\<open>module/tuxctl-ld.c\<close>: the two
  ring buffers of 64 cells, opening and closing, and the operations that move bytes
  between them and the outside (\<^verbatim>\<open>get\<close>, \<^verbatim>\<open>put\<close>, \<^verbatim>\<open>write_wakeup\<close>).  The contract of a bounded
  queue is the locale \<^verbatim>\<open>bounded_queue\<close>; the loops that fill and drain a buffer are
  proved once for it and used for both directions.\<close>

section \<open>Ring buffers\<close>

definition TUXCTL_BUFSIZE :: nat where "TUXCTL_BUFSIZE = 64"

text \<open>The fields \<^verbatim>\<open>rx_buf, rx_start, rx_end\<close> of the structure form one ring, those of the
  transmit side the other.\<close>

record ring =
  cells :: "byte list"
  ring_start :: nat
  ring_end :: nat

definition buf_used :: "nat \<Rightarrow> nat \<Rightarrow> nat" where
  "buf_used start end' = (if start \<le> end' then end' - start else TUXCTL_BUFSIZE + end' - start)"

definition buf_room :: "nat \<Rightarrow> nat \<Rightarrow> nat" where
  "buf_room start end' = TUXCTL_BUFSIZE - buf_used start end' - 1"

definition buf_empty :: "ring \<Rightarrow> bool" where
  "buf_empty r \<longleftrightarrow> ring_start r = ring_end r"

definition buf_full :: "ring \<Rightarrow> bool" where
  "buf_full r \<longleftrightarrow> (ring_end r + 1) mod TUXCTL_BUFSIZE = ring_start r"

definition buf_incidx :: "nat \<Rightarrow> nat" where
  "buf_incidx idx = (idx + 1) mod TUXCTL_BUFSIZE"

text \<open>The two loop bodies: store at the end, take from the start.\<close>

definition ring_push :: "byte \<Rightarrow> ring \<Rightarrow> ring" where
  "ring_push b r = r\<lparr>cells := (cells r)[ring_end r := b], ring_end := buf_incidx (ring_end r)\<rparr>"

definition ring_pop :: "ring \<Rightarrow> byte \<times> ring" where
  "ring_pop r = (cells r ! ring_start r, r\<lparr>ring_start := buf_incidx (ring_start r)\<rparr>)"

text \<open>The loops: \<^verbatim>\<open>fill\<close> stores until the input ends or the buffer is full and counts what
  is left over, \<^verbatim>\<open>drain\<close> takes up to \<^verbatim>\<open>n\<close> items.\<close>

fun fill :: "('q \<Rightarrow> bool) \<Rightarrow> ('a \<Rightarrow> 'q \<Rightarrow> 'q) \<Rightarrow> 'a list \<Rightarrow> 'q \<Rightarrow> nat \<times> 'q" where
  "fill full push [] q = (0, q)"
| "fill full push (x # xs) q = (if full q then (Suc (length xs), q) else fill full push xs (push x q))"

fun drain :: "('q \<Rightarrow> bool) \<Rightarrow> ('q \<Rightarrow> 'a \<times> 'q) \<Rightarrow> nat \<Rightarrow> 'q \<Rightarrow> 'a list \<times> 'q" where
  "drain isempty pop 0 q = ([], q)"
| "drain isempty pop (Suc n) q =
    (if isempty q then ([], q)
     else let (x, q1) = pop q; (xs, q2) = drain isempty pop n q1 in (x # xs, q2))"

section \<open>The structure and the driver below\<close>

record ldisc =
  rx :: ring
  tx :: ring

text \<open>The serial driver under the discipline is not part of the repository: its two
  entry points are parameters over an own state.  \<^verbatim>\<open>write\<close> reports how many bytes it took.\<close>

record 'd serial =
  write_room :: "'d \<Rightarrow> int"
  serial_write :: "byte list \<Rightarrow> 'd \<Rightarrow> int \<times> 'd"

text \<open>The terminal structure and the file-level variables of both C files.\<close>

record 'd tux =
  disc_data :: "ldisc option"
  drv :: 'd
  ack_flag :: int
  button_val :: byte
  prev_state_leds :: u32
  saved :: "byte list"
  n_saved :: nat

definition tuxctl_ldisc_open :: "ring \<Rightarrow> ring \<Rightarrow> bool \<Rightarrow> 'd tux \<Rightarrow> int \<times> 'd tux" where
  "tuxctl_ldisc_open fresh_rx fresh_tx kmalloc_ok s =
    (if \<not> kmalloc_ok then (- 12, s)
     else (0, s\<lparr>disc_data := Some \<lparr>rx = fresh_rx\<lparr>ring_start := 0, ring_end := 0\<rparr>,
                                   tx = fresh_tx\<lparr>ring_start := 0, ring_end := 0\<rparr>\<rparr>\<rparr>))"

definition tuxctl_ldisc_close :: "'d tux \<Rightarrow> 'd tux" where
  "tuxctl_ldisc_close s = s\<lparr>disc_data := None\<rparr>"

text \<open>Without the structure these three follow a null pointer (\<^const>\<open>None\<close>).\<close>

definition tuxctl_ldisc_write_wakeup :: "'d serial \<Rightarrow> 'd tux \<Rightarrow> 'd tux option" where
  "tuxctl_ldisc_write_wakeup ser s = do {
     data \<leftarrow> disc_data s;
     let room = write_room ser (drv s);
     let (buf, tx1) = drain buf_empty ring_pop (nat (room + 1)) (tx data);
     let (sent, d1) = serial_write ser buf (drv s);
     Some (s\<lparr>disc_data := Some (data\<lparr>tx := tx1\<rparr>), drv := d1\<rparr>) }"

definition tuxctl_ldisc_get :: "nat \<Rightarrow> 'd tux \<Rightarrow> (byte list \<times> 'd tux) option" where
  "tuxctl_ldisc_get n s = do {
     data \<leftarrow> disc_data s;
     let (bs, rx1) = drain buf_empty ring_pop n (rx data);
     Some (bs, s\<lparr>disc_data := Some (data\<lparr>rx := rx1\<rparr>)\<rparr>) }"

definition tuxctl_ldisc_put :: "'d serial \<Rightarrow> byte list \<Rightarrow> 'd tux \<Rightarrow> (nat \<times> 'd tux) option" where
  "tuxctl_ldisc_put ser buf s = do {
     data \<leftarrow> disc_data s;
     let (n, tx1) = fill buf_full ring_push buf (tx data);
     s1 \<leftarrow> tuxctl_ldisc_write_wakeup ser (s\<lparr>disc_data := Some (data\<lparr>tx := tx1\<rparr>)\<rparr>);
     Some (n, s1) }"

section \<open>The contract of a bounded queue\<close>

locale bounded_queue =
  fixes full :: "'q \<Rightarrow> bool" and push :: "'a \<Rightarrow> 'q \<Rightarrow> 'q"
    and isempty :: "'q \<Rightarrow> bool" and pop :: "'q \<Rightarrow> 'a \<times> 'q"
    and ok :: "'q \<Rightarrow> bool" and items :: "'q \<Rightarrow> 'a list" and cap :: nat
  assumes full_iff: "ok q \<Longrightarrow> full q \<longleftrightarrow> length (items q) = cap"
    and within: "ok q \<Longrightarrow> length (items q) \<le> cap"
    and push_items: "ok q \<Longrightarrow> \<not> full q \<Longrightarrow> items (push x q) = items q @ [x]"
    and push_ok: "ok q \<Longrightarrow> \<not> full q \<Longrightarrow> ok (push x q)"
    and empty_iff: "ok q \<Longrightarrow> isempty q \<longleftrightarrow> items q = []"
    and pop_items: "ok q \<Longrightarrow> \<not> isempty q \<Longrightarrow> items q = fst (pop q) # items (snd (pop q))"
    and pop_ok: "ok q \<Longrightarrow> \<not> isempty q \<Longrightarrow> ok (snd (pop q))"
begin

lemma fill_spec:
  assumes "ok q"
  shows "ok (snd (fill full push xs q)) \<and>
    items (snd (fill full push xs q)) = items q @ take (cap - length (items q)) xs \<and>
    fst (fill full push xs q) = length xs - (cap - length (items q))"
  using assms
proof (induction xs arbitrary: q)
  case (Cons x xs)
  show ?case
  proof (cases "full q")
    case True with Cons.prems show ?thesis by (simp add: full_iff)
  next
    case False
    then have "length (items q) < cap"
      using full_iff[OF Cons.prems] within[OF Cons.prems] by linarith
    then obtain n where "cap - length (items q) = Suc n" "cap - Suc (length (items q)) = n"
      by (cases "cap - length (items q)") auto
    with False Cons show ?thesis by (simp add: push_items push_ok)
  qed
qed simp

lemma drain_spec:
  assumes "ok q"
  shows "ok (snd (drain isempty pop n q)) \<and> fst (drain isempty pop n q) = take n (items q) \<and>
    items (snd (drain isempty pop n q)) = drop n (items q)"
  using assms
proof (induction n arbitrary: q)
  case (Suc n)
  show ?case
  proof (cases "isempty q")
    case True with Suc.prems show ?thesis by (simp add: empty_iff)
  next
    case False
    with Suc.IH[OF pop_ok[OF Suc.prems False]] show ?thesis
      by (simp add: case_prod_unfold Let_def pop_items[OF Suc.prems False])
  qed
qed simp

text \<open>Filling and then draining gives back what was stored, oldest first.\<close>

lemma fill_drain:
  assumes "ok q" "length (items q) + length xs \<le> cap"
  shows "fst (drain isempty pop (length (items q) + length xs) (snd (fill full push xs q))) = items q @ xs"
  using fill_spec[OF assms(1), of xs] drain_spec assms(2) by simp

end

section \<open>The rings are bounded queues\<close>

definition ring_ok :: "ring \<Rightarrow> bool" where
  "ring_ok r \<longleftrightarrow> length (cells r) = TUXCTL_BUFSIZE \<and> ring_start r < TUXCTL_BUFSIZE \<and> ring_end r < TUXCTL_BUFSIZE"

definition ring_items :: "ring \<Rightarrow> byte list" where
  "ring_items r = map (\<lambda>i. cells r ! ((ring_start r + i) mod TUXCTL_BUFSIZE)) [0..<buf_used (ring_start r) (ring_end r)]"

lemma mod_64: "a < 128 \<Longrightarrow> a mod 64 = (if a < 64 then a else a - 64)" for a :: nat
  by (simp add: mod_if)

lemma buf_used_inc_end:
  "s < 64 \<Longrightarrow> e < 64 \<Longrightarrow> Suc e mod 64 \<noteq> s \<Longrightarrow> buf_used s (Suc e mod 64) = Suc (buf_used s e)"
  by (cases "e = 63") (auto simp: buf_used_def TUXCTL_BUFSIZE_def)

lemma buf_used_inc_start:
  "s < 64 \<Longrightarrow> e < 64 \<Longrightarrow> s \<noteq> e \<Longrightarrow> buf_used s e = buf_used ((s + 1) mod 64) e + 1"
  by (cases "s = 63") (auto simp: buf_used_def TUXCTL_BUFSIZE_def)

lemma ring_end_at: "s < 64 \<Longrightarrow> e < 64 \<Longrightarrow> (s + buf_used s e) mod 64 = e"
  by (auto simp: buf_used_def TUXCTL_BUFSIZE_def)

lemma ring_slot_free:
  assumes "s < 64" "e < 64" "i < buf_used s e"
  shows "(s + i) mod 64 \<noteq> e"
proof -
  have i: "i < (if s \<le> e then e - s else 64 + e - s)" using assms(3) by (simp add: buf_used_def TUXCTL_BUFSIZE_def split: if_splits)
  then have "s + i < 128" using assms by (auto split: if_splits)
  then show ?thesis using i assms by (auto simp: mod_64 split: if_splits)
qed

interpretation ring_q: bounded_queue buf_full ring_push buf_empty ring_pop ring_ok ring_items 63
proof
  fix q assume ok: "ring_ok q"
  then have r: "ring_start q < 64" "ring_end q < 64" "length (cells q) = 64"
    by (simp_all add: ring_ok_def TUXCTL_BUFSIZE_def)
  show "buf_full q \<longleftrightarrow> length (ring_items q) = 63"
    using r by (auto simp: buf_full_def ring_items_def buf_used_def TUXCTL_BUFSIZE_def mod_if split: if_splits)
  show "length (ring_items q) \<le> 63"
    using r by (auto simp: ring_items_def buf_used_def TUXCTL_BUFSIZE_def)
  show "buf_empty q \<longleftrightarrow> ring_items q = []"
    using r by (auto simp: buf_empty_def ring_items_def buf_used_def TUXCTL_BUFSIZE_def)
  show "ring_items (ring_push x q) = ring_items q @ [x]" if "\<not> buf_full q" for x
  proof -
    have "buf_used (ring_start q) (Suc (ring_end q) mod 64) = Suc (buf_used (ring_start q) (ring_end q))"
      using that r by (intro buf_used_inc_end) (simp_all add: buf_full_def TUXCTL_BUFSIZE_def)
    moreover have "\<forall>i \<in> {0..<buf_used (ring_start q) (ring_end q)}. ring_end q \<noteq> (ring_start q + i) mod 64"
      using ring_slot_free[OF r(1,2)] by fastforce
    ultimately show ?thesis
      using r by (simp add: ring_items_def ring_push_def buf_incidx_def TUXCTL_BUFSIZE_def ring_end_at)
  qed
  show "ring_ok (ring_push x q)" for x
    using r by (simp add: ring_ok_def ring_push_def buf_incidx_def TUXCTL_BUFSIZE_def)
  show "ring_items q = fst (ring_pop q) # ring_items (snd (ring_pop q))" if "\<not> buf_empty q"
  proof -
    have "buf_used (ring_start q) (ring_end q) = Suc (buf_used ((ring_start q + 1) mod 64) (ring_end q))"
      using that r buf_used_inc_start[of "ring_start q" "ring_end q"] by (simp add: buf_empty_def)
    then show ?thesis
      using r by (auto simp: ring_items_def ring_pop_def buf_incidx_def TUXCTL_BUFSIZE_def map_upt_Suc mod_simps
          simp del: upt_Suc)
  qed
  show "ring_ok (snd (ring_pop q))"
    using r by (simp add: ring_ok_def ring_pop_def buf_incidx_def TUXCTL_BUFSIZE_def)
qed

section \<open>Facts: put and write_wakeup\<close>

lemma wakeup_spec:
  assumes "disc_data s = Some d" "ring_ok (tx d)"
  shows "\<exists>t. tuxctl_ldisc_write_wakeup ser s = Some (s\<lparr>disc_data := Some (d\<lparr>tx := t\<rparr>),
      drv := snd (serial_write ser (take (nat (write_room ser (drv s) + 1)) (ring_items (tx d))) (drv s))\<rparr>) \<and>
    ring_ok t \<and> ring_items t = drop (nat (write_room ser (drv s) + 1)) (ring_items (tx d))"
  using ring_q.drain_spec[OF assms(2), of "nat (write_room ser (drv s) + 1)"] assms(1)
  by (cases "drain buf_empty ring_pop (nat (write_room ser (drv s) + 1)) (tx d)")
     (auto simp: tuxctl_ldisc_write_wakeup_def case_prod_unfold)

lemma put_spec:
  fixes s :: "'d tux"
  assumes "disc_data s = Some d" "ring_ok (tx d)"
    and "q = ring_items (tx d) @ take (63 - length (ring_items (tx d))) buf" "m = nat (write_room ser (drv s) + 1)"
  shows "\<exists>t. tuxctl_ldisc_put ser buf s =
      Some (length buf - (63 - length (ring_items (tx d))),
            s\<lparr>disc_data := Some (d\<lparr>tx := t\<rparr>), drv := snd (serial_write ser (take m q) (drv s))\<rparr>) \<and>
    ring_ok t \<and> ring_items t = drop m q"
proof -
  obtain n t1 where f: "fill buf_full ring_push buf (tx d) = (n, t1)" by fastforce
  have t1: "ring_ok t1" "ring_items t1 = q" "n = length buf - (63 - length (ring_items (tx d)))"
    using ring_q.fill_spec[OF assms(2), of buf] f assms(3) by simp_all
  let ?s1 = "s\<lparr>disc_data := Some (d\<lparr>tx := t1\<rparr>)\<rparr>"
  obtain t where "tuxctl_ldisc_write_wakeup ser ?s1 = Some (?s1\<lparr>disc_data := Some (d\<lparr>tx := t\<rparr>),
      drv := snd (serial_write ser (take m q) (drv s))\<rparr>)" "ring_ok t" "ring_items t = drop m q"
    using wakeup_spec[of ?s1 "d\<lparr>tx := t1\<rparr>" ser] t1 assms(4) by auto
  then show ?thesis using assms(1) f t1(3) by (auto simp: tuxctl_ldisc_put_def)
qed

lemma get_spec:
  assumes "disc_data s = Some d" "ring_ok (rx d)"
  shows "\<exists>r. tuxctl_ldisc_get n s = Some (take n (ring_items (rx d)), s\<lparr>disc_data := Some (d\<lparr>rx := r\<rparr>)\<rparr>) \<and>
    ring_ok r \<and> ring_items r = drop n (ring_items (rx d))"
  using ring_q.drain_spec[OF assms(2), of n] assms(1)
  by (cases "drain buf_empty ring_pop n (rx d)") (auto simp: tuxctl_ldisc_get_def)

text \<open>A serial line for the witnesses: it takes one byte per call and keeps what it sent.\<close>

definition slow_line :: "byte list serial" where
  "slow_line = \<lparr>write_room = (\<lambda>d. 1), serial_write = (\<lambda>bs d. (int (min 1 (length bs)), d @ take 1 bs))\<rparr>"

definition empty_ring :: ring where
  "empty_ring = \<lparr>cells = replicate 64 0, ring_start = 0, ring_end = 0\<rparr>"

definition demo_tux :: "ring \<Rightarrow> byte list tux" where
  "demo_tux t = \<lparr>disc_data = Some \<lparr>rx = empty_ring, tx = t\<rparr>, drv = [], ack_flag = 1, button_val = 0,
     prev_state_leds = 0, saved = [0, 0], n_saved = 0\<rparr>"

lemma empty_ring_ok [simp]: "ring_ok empty_ring" "ring_items empty_ring = []"
  by (simp_all add: empty_ring_def ring_ok_def ring_items_def buf_used_def TUXCTL_BUFSIZE_def)

section \<open>Properties\<close>

text \<open>A further fact about the same definitions.\<close>
lemma ring_fifo:
  assumes "ring_ok r" "length (ring_items r) + length bs \<le> 63"
  shows "fst (fill buf_full ring_push bs r) = 0 \<and>
    fst (drain buf_empty ring_pop (length (ring_items r) + length bs) (snd (fill buf_full ring_push bs r))) =
      ring_items r @ bs"
  using ring_q.fill_drain[OF assms] ring_q.fill_spec[OF assms(1), of bs] assms(2) by simp

theorem ring_fifo_witness:
  "fst (drain buf_empty ring_pop 3 (snd (fill buf_full ring_push [7, 8, 9]
     \<lparr>cells = replicate 64 0, ring_start = 62, ring_end = 62\<rparr>))) = [7, 8, 9]"
  using ring_fifo[of "\<lparr>cells = replicate 64 0, ring_start = 62, ring_end = 62\<rparr>" "[7, 8, 9]"]
  by (simp add: ring_ok_def ring_items_def buf_used_def TUXCTL_BUFSIZE_def numeral_3_eq_3
      del: fill.simps drain.simps)

text \<open>A further fact about the same definitions.\<close>
lemma put_queues_and_sends:
  fixes s :: "'d tux"
  assumes "disc_data s = Some d" "ring_ok (tx d)"
    and "q = ring_items (tx d) @ take (63 - length (ring_items (tx d))) buf" "m = nat (write_room ser (drv s) + 1)"
  shows "\<exists>s' t. tuxctl_ldisc_put ser buf s = Some (length buf - (63 - length (ring_items (tx d))), s') \<and>
    disc_data s' = Some (d\<lparr>tx := t\<rparr>) \<and> ring_ok t \<and> ring_items t = drop m q \<and>
    drv s' = snd (serial_write ser (take m q) (drv s))"
  using put_spec[OF assms] by fastforce

theorem put_queues_and_sends_witness:
  "\<exists>s'. tuxctl_ldisc_put slow_line [5, 6, 7] (demo_tux empty_ring) = Some (0, s') \<and> drv s' = [5]"
  using put_queues_and_sends[of "demo_tux empty_ring" "\<lparr>rx = empty_ring, tx = empty_ring\<rparr>" "[5, 6, 7]" "[5, 6, 7]" 2 slow_line]
  by (auto simp: demo_tux_def slow_line_def)

text \<open>C37: When more bytes are queued than the serial driver has room for, write_wakeup takes one byte
  too many from the buffer: the byte after the room is neither sent nor queued any more.\<close>
theorem wakeup_loses_byte:
  assumes "disc_data s = Some d" "ring_ok (tx d)" "0 \<le> room" "write_room ser (drv s) = room"
    and "\<And>bs. sent (snd (serial_write ser bs (drv s))) = sent (drv s) @ take (nat room) bs"
    and "nat room < length (ring_items (tx d))"
  shows "\<exists>s' t. tuxctl_ldisc_write_wakeup ser s = Some s' \<and> disc_data s' = Some (d\<lparr>tx := t\<rparr>) \<and>
    sent (drv s') @ ring_items t =
      sent (drv s) @ take (nat room) (ring_items (tx d)) @ drop (nat room + 1) (ring_items (tx d))"
proof -
  have n: "nat (room + 1) = nat room + 1" using assms(3) by simp
  show ?thesis using wakeup_spec[OF assms(1,2), of ser] assms(4,5) by (auto simp: n)
qed

theorem wakeup_loses_byte_witness:
  "\<exists>s' t. tuxctl_ldisc_write_wakeup slow_line
      (demo_tux (snd (fill buf_full ring_push [5, 6, 7] empty_ring))) = Some s' \<and>
      disc_data s' = Some \<lparr>rx = empty_ring, tx = t\<rparr> \<and> drv s' @ ring_items t = [5, 7]"
proof -
  have f: "ring_ok (snd (fill buf_full ring_push [5, 6, 7] empty_ring))"
    "ring_items (snd (fill buf_full ring_push [5, 6, 7] empty_ring)) = [5, 6, 7]"
    using ring_q.fill_spec[of empty_ring "[5, 6, 7]"] by simp_all
  show ?thesis
    using wakeup_loses_byte[of "demo_tux (snd (fill buf_full ring_push [5, 6, 7] empty_ring))"
        "\<lparr>rx = empty_ring, tx = snd (fill buf_full ring_push [5, 6, 7] empty_ring)\<rparr>" 1 slow_line "\<lambda>d. d"] f
    by (simp add: demo_tux_def slow_line_def del: fill.simps)
qed

end
