(* ===== verification/TuxIoctl.thy ===== *)
theory TuxIoctl
  imports TuxRing
begin

text \<open>The Tux controller driver, \<^verbatim>\<open>module/tuxctl-ioctl.c\<close>: the seven-segment encoding, the
  LED command, the button byte, the dispatch of response packets with its
  fall-through cases, and the ioctl entry.\<close>

section \<open>Protocol constants\<close>

definition MTCP_RESP :: "byte \<Rightarrow> byte" where
  "MTCP_RESP n = (n AND 7) OR push_bit 1 (n AND 0x18) OR 0x40"

definition MTCP_CMD :: "byte \<Rightarrow> byte" where
  "MTCP_CMD c = 0xC0 OR c"

definition MTCP_ACK :: byte where "MTCP_ACK = MTCP_RESP 0x0"
definition MTCP_BIOC_EVENT :: byte where "MTCP_BIOC_EVENT = MTCP_RESP 0x1"
definition MTCP_RESET :: byte where "MTCP_RESET = MTCP_RESP 0x6"
definition MTCP_BIOC_ON :: byte where "MTCP_BIOC_ON = MTCP_CMD 0x3"
definition MTCP_LED_SET :: byte where "MTCP_LED_SET = MTCP_CMD 0x6"
definition MTCP_LED_USR :: byte where "MTCP_LED_USR = MTCP_CMD 0x8"

lemmas mtcp_consts = MTCP_RESP_def MTCP_CMD_def MTCP_ACK_def MTCP_BIOC_EVENT_def MTCP_RESET_def
  MTCP_BIOC_ON_def MTCP_LED_SET_def MTCP_LED_USR_def

definition EINVAL :: int where "EINVAL = 22"
definition BITWISE_MASK :: byte where "BITWISE_MASK = 0x0F"
definition BITWISE_MASK2 :: byte where "BITWISE_MASK2 = 0x08"
definition LEDS_MSB :: nat where "LEDS_MSB = 16"
definition DECIMALS_MSB :: nat where "DECIMALS_MSB = 24"
definition EXTRACT_HEX_SHIFT :: nat where "EXTRACT_HEX_SHIFT = 4"
definition EXTRACT_HEX_AND :: u32 where "EXTRACT_HEX_AND = 0x000F"

datatype tux_cmd = TUX_SET_LED | TUX_READ_LED | TUX_BUTTONS | TUX_INIT | TUX_LED_REQUEST | TUX_LED_ACK
  | Other_cmd

section \<open>LEDs\<close>

definition display_byte_array :: "byte list" where
  "display_byte_array =
    [0xE7, 0x06, 0xCB, 0x8F, 0x2E, 0xAD, 0xED, 0x86, 0xEF, 0xAF, 0xEE, 0x6D, 0xE1, 0x4F, 0xEA, 0xE8]"

definition hex_num_to_byte :: "byte \<Rightarrow> byte" where
  "hex_num_to_byte input = display_byte_array ! unat input"

text \<open>The six bytes \<^verbatim>\<open>tux_set_led\<close> builds in \<^verbatim>\<open>led_set_buf\<close>.\<close>

definition led_set_buf :: "u32 \<Rightarrow> byte list" where
  "led_set_buf arg =
    (let h0 = arg;
         led0_hex = ucast (h0 AND EXTRACT_HEX_AND); h1 = drop_bit EXTRACT_HEX_SHIFT h0;
         led1_hex = ucast (h1 AND EXTRACT_HEX_AND); h2 = drop_bit EXTRACT_HEX_SHIFT h1;
         led2_hex = ucast (h2 AND EXTRACT_HEX_AND); h3 = drop_bit EXTRACT_HEX_SHIFT h2;
         led3_hex = ucast (h3 AND EXTRACT_HEX_AND);
         extract_leds = drop_bit LEDS_MSB (push_bit LEDS_MSB (ucast BITWISE_MASK) AND arg);
         leds = ucast extract_leds :: byte;
         led3_status = drop_bit 3 (leds AND BITWISE_MASK2);
         led2_status = drop_bit 2 (leds AND drop_bit 1 BITWISE_MASK2);
         led1_status = drop_bit 1 (leds AND drop_bit 2 BITWISE_MASK2);
         led0_status = leds AND drop_bit 3 BITWISE_MASK2;
         decimals = ucast (drop_bit DECIMALS_MSB (push_bit DECIMALS_MSB (ucast BITWISE_MASK) AND arg)) :: byte;
         d3 = push_bit 1 (decimals AND BITWISE_MASK2);
         d2 = push_bit 2 (decimals AND drop_bit 1 BITWISE_MASK2);
         d1 = push_bit 3 (decimals AND drop_bit 2 BITWISE_MASK2);
         d0 = push_bit 4 (decimals AND drop_bit 3 BITWISE_MASK2)
     in [MTCP_LED_SET, leds,
         if led0_status = 0 then 0 else hex_num_to_byte led0_hex + d0,
         if led1_status = 0 then 0 else hex_num_to_byte led1_hex + d1,
         if led2_status = 0 then 0 else hex_num_to_byte led2_hex + d2,
         if led3_status = 0 then 0 else hex_num_to_byte led3_hex + d3])"

definition tux_set_led :: "'d serial \<Rightarrow> u32 \<Rightarrow> 'd tux \<Rightarrow> (int \<times> 'd tux) option" where
  "tux_set_led ser arg s = do { (n, s1) \<leftarrow> tuxctl_ldisc_put ser (led_set_buf arg) s; Some (0, s1) }"

section \<open>Initialisation and buttons\<close>

definition tux_init :: "'d serial \<Rightarrow> 'd tux \<Rightarrow> (int \<times> 'd tux) option" where
  "tux_init ser s = do {
     (n, s1) \<leftarrow> tuxctl_ldisc_put ser [MTCP_BIOC_ON, MTCP_LED_USR] s;
     Some (0, s1\<lparr>ack_flag := 1\<rparr>) }"

text \<open>\<^verbatim>\<open>copy_to_user\<close> is the kernel's: a parameter that stores a byte at a user address
  and returns how many bytes it could not copy.\<close>

definition tux_buttons :: "(u32 \<Rightarrow> byte \<Rightarrow> 'u \<Rightarrow> int \<times> 'u) \<Rightarrow> u32 \<Rightarrow> 'd tux \<Rightarrow> 'u \<Rightarrow> int \<times> 'u" where
  "tux_buttons copy_to_user arg s u =
    (if arg = 0 then (- EINVAL, u)
     else let (copy_ret, u1) = copy_to_user arg (button_val s) u
          in (if copy_ret \<noteq> 0 then - EINVAL else 0, u1))"

text \<open>The byte \<^verbatim>\<open>button_val[0]\<close> made of the two data bytes of a button packet, computed on
  32-bit integers.\<close>

definition button_byte :: "byte \<Rightarrow> byte \<Rightarrow> byte" where
  "button_byte b0 c0 =
    (let b = (ucast b0 :: u32) AND ucast BITWISE_MASK;
         c = (ucast c0 :: u32) AND ucast BITWISE_MASK;
         mask2 = ucast BITWISE_MASK2 :: u32;
         right = c AND mask2;
         down = drop_bit 1 (c AND drop_bit 1 mask2);
         left = push_bit 1 (c AND drop_bit 2 mask2);
         up = c AND drop_bit 3 mask2
     in ucast (b OR push_bit 4 (right + left + down + up)))"

section \<open>Packets\<close>

text \<open>The cases of the switch fall through: an event goes on as an acknowledgement, an
  acknowledgement as a reset.\<close>

definition packet_reset :: "'d serial \<Rightarrow> 'd tux \<Rightarrow> 'd tux option" where
  "packet_reset ser s = do {
     (r, s1) \<leftarrow> tux_init ser s;
     (r, s2) \<leftarrow> tux_set_led ser (prev_state_leds s1) s1;
     Some s2 }"

definition packet_ack :: "'d serial \<Rightarrow> 'd tux \<Rightarrow> 'd tux option" where
  "packet_ack ser s = packet_reset ser (s\<lparr>ack_flag := 1\<rparr>)"

definition tuxctl_handle_packet :: "'d serial \<Rightarrow> byte \<times> byte \<times> byte \<Rightarrow> 'd tux \<Rightarrow> 'd tux option" where
  "tuxctl_handle_packet ser p s =
    (case p of (a, b, c) \<Rightarrow>
       if a = MTCP_BIOC_EVENT then packet_ack ser (s\<lparr>button_val := button_byte b c\<rparr>)
       else if a = MTCP_ACK then packet_ack ser s
       else if a = MTCP_RESET then packet_reset ser s
       else Some s)"

section \<open>The ioctl entry\<close>

definition tuxctl_ioctl ::
    "'d serial \<Rightarrow> (u32 \<Rightarrow> byte \<Rightarrow> 'u \<Rightarrow> int \<times> 'u) \<Rightarrow> tux_cmd \<Rightarrow> u32 \<Rightarrow> 'd tux \<Rightarrow> 'u \<Rightarrow> (int \<times> 'd tux \<times> 'u) option" where
  "tuxctl_ioctl ser copy_to_user cmd arg s u =
    (case cmd of
       TUX_INIT \<Rightarrow> do { (r, s1) \<leftarrow> tux_init ser s; Some (r, s1, u) }
     | TUX_BUTTONS \<Rightarrow> (let (r, u1) = tux_buttons copy_to_user arg s u in Some (r, s, u1))
     | TUX_SET_LED \<Rightarrow>
         if ack_flag s = 1 then do {
           (r, s1) \<leftarrow> tux_set_led ser arg (s\<lparr>ack_flag := 0, prev_state_leds := arg\<rparr>);
           Some (r, s1, u) }
         else Some (0, s, u)
     | TUX_LED_ACK \<Rightarrow> Some (- EINVAL, s, u)
     | TUX_LED_REQUEST \<Rightarrow> Some (- EINVAL, s, u)
     | TUX_READ_LED \<Rightarrow> Some (- EINVAL, s, u)
     | Other_cmd \<Rightarrow> Some (- EINVAL, s, u))"

section \<open>Facts: bits\<close>

text \<open>What the display shows: the segments of a hexadecimal digit, and the byte that
  lights them according to the map of bits to segments in the comment of
  \<^verbatim>\<open>hex_num_to_byte\<close>.\<close>

datatype segment = SegA | SegB | SegC | SegD | SegE | SegF | SegG

fun segment_bit :: "segment \<Rightarrow> byte" where
  "segment_bit SegA = 0x80" | "segment_bit SegE = 0x40" | "segment_bit SegF = 0x20" | "segment_bit SegG = 0x08"
| "segment_bit SegC = 0x04" | "segment_bit SegB = 0x02" | "segment_bit SegD = 0x01"

definition lit :: "segment list \<Rightarrow> byte" where
  "lit ss = foldr (\<lambda>s acc. segment_bit s OR acc) ss 0"

text \<open>The usual shapes; the entry for E is the shape the table has (E, F, G, A and B, a
  letter P) instead of A, D, E, F and G.\<close>

definition digit_shapes :: "segment list list" where
  "digit_shapes =
    [[SegA, SegB, SegC, SegD, SegE, SegF], [SegB, SegC], [SegA, SegB, SegG, SegE, SegD],
     [SegA, SegB, SegG, SegC, SegD], [SegF, SegG, SegB, SegC], [SegA, SegF, SegG, SegC, SegD],
     [SegA, SegF, SegG, SegE, SegC, SegD], [SegA, SegB, SegC],
     [SegA, SegB, SegC, SegD, SegE, SegF, SegG], [SegA, SegB, SegC, SegD, SegF, SegG],
     [SegA, SegB, SegC, SegE, SegF, SegG], [SegF, SegE, SegG, SegC, SegD], [SegA, SegF, SegE, SegD],
     [SegB, SegC, SegD, SegE, SegG], [SegA, SegF, SegG, SegE, SegB], [SegA, SegF, SegG, SegE]]"

text \<open>One digit of the LED command, read off the argument: shown when bit 16+i is set,
  with the decimal point when bit 24+i is.\<close>

definition led_digit :: "u32 \<Rightarrow> nat \<Rightarrow> byte" where
  "led_digit arg i =
    (if bit arg (16 + i)
     then lit (digit_shapes ! unat (take_bit 4 (drop_bit (4 * i) arg))) OR (if bit arg (24 + i) then 0x10 else 0)
     else 0)"

lemma nibble_cases:
  fixes w :: u32
  obtains "take_bit 4 w = 0" | "take_bit 4 w = 1" | "take_bit 4 w = 2" | "take_bit 4 w = 3" | "take_bit 4 w = 4"
    | "take_bit 4 w = 5" | "take_bit 4 w = 6" | "take_bit 4 w = 7" | "take_bit 4 w = 8" | "take_bit 4 w = 9"
    | "take_bit 4 w = 10" | "take_bit 4 w = 11" | "take_bit 4 w = 12" | "take_bit 4 w = 13" | "take_bit 4 w = 14"
    | "take_bit 4 w = 15"
proof -
  define n where "n = unat (take_bit 4 w)"
  have "n < 16"
    using take_bit_nat_less_exp[of 4 "unat w"] by (simp add: n_def unsigned_take_bit_eq)
  then have "n \<in> set [0..<16]" by simp
  moreover have "take_bit 4 w = of_nat n" by (simp add: n_def)
  ultimately have "take_bit 4 w \<in> of_nat ` set [0..<16]" by blast
  then show ?thesis using that by (simp add: upt_rec, elim disjE) simp_all
qed

text \<open>The table entry for a nibble, with the decimal point added.\<close>

lemma hex_num_shape:
  "hex_num_to_byte (ucast (take_bit 4 (w :: u32))) + (if p then 0x10 else 0) =
    lit (digit_shapes ! unat (take_bit 4 w)) OR (if p then 0x10 else 0)"
  by (cases w rule: nibble_cases)
     (simp_all add: hex_num_to_byte_def display_byte_array_def digit_shapes_def lit_def)

lemma and_15: "15 AND w = take_bit 4 w" "w AND 15 = take_bit 4 w" for w :: "'a::len word"
  by (simp_all add: take_bit_eq_mask mask_eq_exp_minus_1 and.commute)

lemma nibble_mask: "w AND EXTRACT_HEX_AND = take_bit 4 w" for w :: u32
  by (simp add: EXTRACT_HEX_AND_def and_15)

lemma leds_mask:
  "drop_bit LEDS_MSB (push_bit LEDS_MSB (ucast BITWISE_MASK) AND arg) = take_bit 4 (drop_bit 16 arg)"
  "drop_bit DECIMALS_MSB (push_bit DECIMALS_MSB (ucast BITWISE_MASK) AND arg) = take_bit 4 (drop_bit 24 arg)"
  for arg :: u32
  by (simp_all add: LEDS_MSB_def DECIMALS_MSB_def BITWISE_MASK_def drop_bit_and drop_bit_push_bit and_15)

text \<open>Single bits of the two nibbles.\<close>

lemma status_bits:
  fixes w :: byte
  shows "drop_bit 3 (w AND 8) = (if bit w 3 then 1 else 0)" "drop_bit 2 (w AND 4) = (if bit w 2 then 1 else 0)"
    "drop_bit 1 (w AND 2) = (if bit w 1 then 1 else 0)" "w AND 1 = (if bit w 0 then 1 else 0)"
    "push_bit 1 (w AND 8) = (if bit w 3 then 0x10 else 0)" "push_bit 2 (w AND 4) = (if bit w 2 then 0x10 else 0)"
    "push_bit 3 (w AND 2) = (if bit w 1 then 0x10 else 0)" "push_bit 4 (w AND 1) = (if bit w 0 then 0x10 else 0)"
proof -
  have m: "w AND 2 ^ i = (if bit w i then 2 ^ i else 0)" for i
    by (rule bit_word_eqI) (auto simp: bit_simps bit_exp_iff)
  show "drop_bit 3 (w AND 8) = (if bit w 3 then 1 else 0)" "push_bit 1 (w AND 8) = (if bit w 3 then 0x10 else 0)"
    using m[of 3] by simp_all
  show "drop_bit 2 (w AND 4) = (if bit w 2 then 1 else 0)" "push_bit 2 (w AND 4) = (if bit w 2 then 0x10 else 0)"
    using m[of 2] by simp_all
  show "drop_bit 1 (w AND 2) = (if bit w 1 then 1 else 0)" "push_bit 3 (w AND 2) = (if bit w 1 then 0x10 else 0)"
    using m[of 1] by simp_all
  show "w AND 1 = (if bit w 0 then 1 else 0)" "push_bit 4 (w AND 1) = (if bit w 0 then 0x10 else 0)"
    using m[of 0] by simp_all
qed

section \<open>Properties\<close>

lemma led_set_digits:
  "led_set_buf arg = [MTCP_LED_SET, ucast (take_bit 4 (drop_bit 16 arg)),
     led_digit arg 0, led_digit arg 1, led_digit arg 2, led_digit arg 3]"
proof -
  have m: "BITWISE_MASK2 = 8" "drop_bit 1 (8 :: byte) = 4" "drop_bit 2 (8 :: byte) = 2" "drop_bit 3 (8 :: byte) = 1"
    by (simp_all add: BITWISE_MASK2_def)
  have b: "bit (ucast (take_bit 4 (drop_bit k arg)) :: byte) i = bit arg (k + i)" if "i < 4" for k i
    using that by (simp add: bit_simps)
  have z: "((if p then 1 else 0) = (0 :: byte)) = (\<not> p)" for p by simp
  have i: "(if \<not> p then 0 else x) = (if p then x else (0 :: byte))" for p x by simp
  show ?thesis
    unfolding led_set_buf_def Let_def nibble_mask leds_mask m status_bits z i hex_num_shape led_digit_def
      EXTRACT_HEX_SHIFT_def drop_bit_drop_bit
    using hex_num_shape[of arg True] hex_num_shape[of arg False] by (simp add: b)
qed

text \<open>A further fact about the same definitions.\<close>
lemma led_command:
  "led_set_buf arg = [MTCP_LED_SET, ucast (take_bit 4 (drop_bit 16 arg)),
     led_digit arg 0, led_digit arg 1, led_digit arg 2, led_digit arg 3]"
  by (rule led_set_digits)

text \<open>A further fact about the same definitions.\<close>
lemma button_byte_bits:
  "bit (button_byte b c) i =
    (if i < 4 then bit b i else i < 8 \<and> bit c ([0, 2, 1, 3] ! (i - 4)))"
proof -
  define w where "w = (ucast c :: u32)"
  have one: "w AND 2 ^ j = (if bit w j then 2 ^ j else 0)" for j
    by (rule bit_word_eqI) (auto simp: bit_simps bit_exp_iff)
  have w: "bit w j = bit c j" for j by (auto simp: w_def bit_simps dest: bit_imp_le_length)
  have fields: "(w AND 15) AND 8 = (if bit c 3 then 8 else 0)" "(w AND 15) AND 4 = (if bit c 2 then 4 else 0)"
    "(w AND 15) AND 2 = (if bit c 1 then 2 else 0)" "(w AND 15) AND 1 = (if bit c 0 then 1 else 0)"
    using one[of 3] one[of 2] one[of 1] one[of 0] by (simp_all add: w and.assoc)
  have eq: "button_byte b c = ucast ((ucast b AND 15) OR push_bit 4
      ((if bit c 3 then 8 else 0) + (if bit c 1 then 4 else 0) + (if bit c 2 then 2 else 0) + (if bit c 0 then 1 else (0 :: u32))))"
  proof -
    have k: "(ucast (0x0F :: byte) :: u32) = 15" "(ucast (8 :: byte) :: u32) = 8" "drop_bit 1 (8 :: u32) = 4"
      "drop_bit 2 (8 :: u32) = 2" "drop_bit 3 (8 :: u32) = 1" by simp_all
    show ?thesis
      unfolding button_byte_def Let_def w_def[symmetric] BITWISE_MASK_def BITWISE_MASK2_def k fields by simp
  qed
  consider "i = 0" | "i = 1" | "i = 2" | "i = 3" | "i = 4" | "i = 5" | "i = 6" | "i = 7" | "8 \<le> i" by linarith
  then show ?thesis
    by cases (simp_all add: eq and_15 bit_simps)
qed

text \<open>A further fact about the same definitions.\<close>
lemma led_request_waits_for_ack:
  assumes "disc_data s = Some d" "ring_ok (tx d)"
  shows "if ack_flag s = 1
    then \<exists>s1. tuxctl_ioctl ser ctu TUX_SET_LED arg s u = Some (0, s1, u) \<and> ack_flag s1 = 0 \<and>
      prev_state_leds s1 = arg \<and> tuxctl_ioctl ser ctu TUX_SET_LED arg2 s1 u = Some (0, s1, u)
    else tuxctl_ioctl ser ctu TUX_SET_LED arg s u = Some (0, s, u)"
proof -
  let ?s = "s\<lparr>ack_flag := 0, prev_state_leds := arg\<rparr>"
  obtain n t d1 where "tuxctl_ldisc_put ser (led_set_buf arg) ?s = Some (n, ?s\<lparr>disc_data := Some (d\<lparr>tx := t\<rparr>), drv := d1\<rparr>)"
    using put_spec[of ?s d _ "led_set_buf arg" _ ser, OF _ assms(2) refl refl] assms(1) by auto
  then show ?thesis by (simp add: tuxctl_ioctl_def tux_set_led_def)
qed

theorem led_request_waits_for_ack_witness:
  "\<exists>s1. tuxctl_ioctl slow_line (\<lambda>_ _ u. (0, u)) TUX_SET_LED 0x000F1234 (demo_tux empty_ring) () = Some (0, s1, ()) \<and>
     tuxctl_ioctl slow_line (\<lambda>_ _ u. (0, u)) TUX_SET_LED 0x000F5678 s1 () = Some (0, s1, ())"
proof -
  have "disc_data (demo_tux empty_ring) = Some \<lparr>rx = empty_ring, tx = empty_ring\<rparr>" "ack_flag (demo_tux empty_ring) = 1"
    by (simp_all add: demo_tux_def)
  then show ?thesis
    using led_request_waits_for_ack[of "demo_tux empty_ring" "\<lparr>rx = empty_ring, tx = empty_ring\<rparr>"
        slow_line "\<lambda>_ _ u. (0, u)" "0x000F1234" "()" "0x000F5678"] by auto
qed

text \<open>A further fact about the same definitions.\<close>
lemma ack_reinitialises:
  assumes "disc_data s = Some d" "ring_ok (tx d)" "length (ring_items (tx d)) + 8 \<le> 63"
  shows "\<exists>s' t w1 w2. tuxctl_handle_packet ser (MTCP_ACK, b, c) s = Some s' \<and>
    drv s' = snd (serial_write ser w2 (snd (serial_write ser w1 (drv s)))) \<and>
    disc_data s' = Some (d\<lparr>tx := t\<rparr>) \<and> ack_flag s' = 1 \<and> button_val s' = button_val s \<and>
    w1 @ w2 @ ring_items t =
      ring_items (tx d) @ [MTCP_BIOC_ON, MTCP_LED_USR] @ led_set_buf (prev_state_leds s)"
proof -
  let ?q = "ring_items (tx d) @ [MTCP_BIOC_ON, MTCP_LED_USR]"
  let ?l = "led_set_buf (prev_state_leds s)"
  have len: "length ?l = 6" by (simp add: led_set_buf_def Let_def)
  have q: "ring_items (tx d) @ take (63 - length (ring_items (tx d))) [MTCP_BIOC_ON, MTCP_LED_USR] = ?q"
    using assms(3) by simp
  define m w1 where "m = nat (write_room ser (drv s) + 1)" and "w1 = take m ?q"
  let ?s = "s\<lparr>ack_flag := 1\<rparr>"
  obtain n t where p1: "tuxctl_ldisc_put ser [MTCP_BIOC_ON, MTCP_LED_USR] ?s = Some (n,
      ?s\<lparr>disc_data := Some (d\<lparr>tx := t\<rparr>), drv := snd (serial_write ser w1 (drv s))\<rparr>)"
    and t: "ring_ok t" "ring_items t = drop m ?q"
    using put_spec[of ?s d ?q "[MTCP_BIOC_ON, MTCP_LED_USR]" m ser, OF _ assms(2)] assms(1) q
    by (auto simp: m_def w1_def)
  define s1 where "s1 = s\<lparr>disc_data := Some (d\<lparr>tx := t\<rparr>), drv := snd (serial_write ser w1 (drv s)), ack_flag := 1\<rparr>"
  define k w2 where "k = nat (write_room ser (drv s1) + 1)" and "w2 = take k (ring_items t @ ?l)"
  have q2: "ring_items t @ take (63 - length (ring_items t)) ?l = ring_items t @ ?l"
    using assms(3) len by (simp add: t(2))
  obtain n2 t2 where p2: "tuxctl_ldisc_put ser ?l s1 = Some (n2, s1\<lparr>disc_data := Some (d\<lparr>tx := t2\<rparr>),
      drv := snd (serial_write ser w2 (drv s1))\<rparr>)"
    and t2: "ring_items t2 = drop k (ring_items t @ ?l)"
    using put_spec[of s1 "d\<lparr>tx := t\<rparr>" "ring_items t @ ?l" ?l k ser] t(1) q2 by (auto simp: k_def w2_def s1_def)
  have "w1 @ w2 @ ring_items t2 = ?q @ ?l"
    unfolding t2 w2_def w1_def append_take_drop_id t(2) append_assoc[symmetric] by (simp only: append_take_drop_id)
  moreover have "tux_init ser ?s = Some (0, s1)" using p1 by (simp add: tux_init_def s1_def)
  moreover have "prev_state_leds s1 = prev_state_leds s" by (simp add: s1_def)
  moreover have "MTCP_ACK \<noteq> MTCP_BIOC_EVENT" by (simp add: mtcp_consts)
  ultimately show ?thesis using p2
    by (simp add: tuxctl_handle_packet_def packet_ack_def packet_reset_def tux_set_led_def) (auto simp: s1_def)
qed

theorem ack_reinitialises_witness:
  "\<exists>s'. tuxctl_handle_packet slow_line (MTCP_ACK, 0x80, 0x80) (demo_tux empty_ring) = Some s' \<and> ack_flag s' = 1"
  using ack_reinitialises[of "demo_tux empty_ring" "\<lparr>rx = empty_ring, tx = empty_ring\<rparr>" slow_line "0x80" "0x80"]
  by (auto simp: demo_tux_def)

end
