(* ===== verification/TuxPackets.thy ===== *)
theory TuxPackets
  imports TuxIoctl
begin

text \<open>The receiving side of \<^verbatim>\<open>module/tuxctl-ld.c\<close>: \<^verbatim>\<open>tuxctl_ldisc_rcv_buf\<close> stores the bytes of
  the serial line, \<^verbatim>\<open>tuxctl_ldisc_data_callback\<close> looks for packets among them, with up
  to two bytes saved from one call to the next.  The specification is a parser of
  the whole byte stream.\<close>

section \<open>The scan\<close>

definition framed :: "byte \<Rightarrow> byte \<Rightarrow> byte \<Rightarrow> bool" where
  "framed p0 p1 p2 \<longleftrightarrow> p0 AND 0x80 = 0 \<and> p1 AND 0x80 \<noteq> 0 \<and> p2 AND 0x80 \<noteq> 0"

function scan_packets :: "'d serial \<Rightarrow> byte list \<Rightarrow> nat \<Rightarrow> nat \<Rightarrow> 'd tux \<Rightarrow> (nat \<times> 'd tux) option" where
  "scan_packets ser packet n i s =
    (if i + 2 < n then
       (if framed (packet ! i) (packet ! (i + 1)) (packet ! (i + 2)) then do {
          s1 \<leftarrow> tuxctl_handle_packet ser (packet ! i, packet ! (i + 1), packet ! (i + 2)) s;
          scan_packets ser packet n (i + 3) s1 }
        else scan_packets ser packet n (i + 1) s)
     else Some (i, s))"
  by pat_completeness auto
termination by (relation "measure (\<lambda>(ser, packet, n, i, s). n - i)") auto

declare scan_packets.simps [simp del]

text \<open>The array \<^verbatim>\<open>saved\<close> has two bytes; storing more would be out of bounds (\<^const>\<open>None\<close>).\<close>

definition tuxctl_ldisc_data_callback :: "'d serial \<Rightarrow> 'd tux \<Rightarrow> 'd tux option" where
  "tuxctl_ldisc_data_callback ser s = do {
     (got, s1) \<leftarrow> tuxctl_ldisc_get (12 - n_saved s) s;
     let packet = take (n_saved s) (saved s) @ got;
     let n = n_saved s + length got;
     (i, s2) \<leftarrow> scan_packets ser packet n 0 s1;
     let left = drop i (take n packet);
     if length left \<le> length (saved s2)
     then Some (s2\<lparr>n_saved := n - i, saved := left @ drop (length left) (saved s2)\<rparr>)
     else None }"

text \<open>\<^verbatim>\<open>cp\<close> holds the \<^verbatim>\<open>count\<close> bytes received.\<close>

definition tuxctl_ldisc_rcv_buf :: "'d serial \<Rightarrow> byte list \<Rightarrow> 'd tux \<Rightarrow> 'd tux option" where
  "tuxctl_ldisc_rcv_buf ser cp s =
    (case disc_data s of
       None \<Rightarrow> Some s
     | Some data \<Rightarrow>
         (let (c, rx1) = fill buf_full ring_push cp (rx data)
          in tuxctl_ldisc_data_callback ser (s\<lparr>disc_data := Some (data\<lparr>rx := rx1\<rparr>)\<rparr>)))"

section \<open>Specification: parsing the stream\<close>

text \<open>Packets and the bytes (at most two) that may still begin one.\<close>

fun parse :: "byte list \<Rightarrow> (byte \<times> byte \<times> byte) list \<times> byte list" where
  "parse (a # b # c # bs) =
    (if framed a b c then (let (ps, left) = parse bs in ((a, b, c) # ps, left)) else parse (b # c # bs))"
| "parse bs = ([], bs)"

fun handle_all :: "'d serial \<Rightarrow> (byte \<times> byte \<times> byte) list \<Rightarrow> 'd tux \<Rightarrow> 'd tux option" where
  "handle_all ser [] s = Some s"
| "handle_all ser (p # ps) s = do { s1 \<leftarrow> tuxctl_handle_packet ser p s; handle_all ser ps s1 }"

fun rcv_all :: "'d serial \<Rightarrow> byte list list \<Rightarrow> 'd tux \<Rightarrow> 'd tux option" where
  "rcv_all ser [] s = Some s"
| "rcv_all ser (c # cs) s = do { s1 \<leftarrow> tuxctl_ldisc_rcv_buf ser c s; rcv_all ser cs s1 }"

lemma parse_left: "length (snd (parse bs)) \<le> 2"
  by (induction bs rule: parse.induct) (auto simp: case_prod_unfold Let_def)

lemma parse_suffix: "\<exists>xs. bs = xs @ snd (parse bs)"
proof (induction bs rule: parse.induct)
  case (1 a b c bs)
  show ?case
  proof (cases "framed a b c")
    case True
    then obtain xs where "bs = xs @ snd (parse bs)" using 1(1) by blast
    then have "a # b # c # bs = (a # b # c # xs) @ snd (parse bs)" by simp
    with True show ?thesis by (metis (no_types, lifting) parse.simps(1) case_prod_unfold snd_conv)
  next
    case False
    then obtain xs where "b # c # bs = xs @ snd (parse (b # c # bs))" using 1(2) by blast
    then have "a # b # c # bs = (a # xs) @ snd (parse (b # c # bs))" by simp
    with False show ?thesis by (metis parse.simps(1))
  qed
qed auto

text \<open>Parsing may stop and resume anywhere.\<close>

lemma parse_append:
  "parse (xs @ ys) =
    (fst (parse xs) @ fst (parse (snd (parse xs) @ ys)), snd (parse (snd (parse xs) @ ys)))"
  by (induction xs rule: parse.induct) (auto simp: case_prod_unfold Let_def)

lemma handle_all_append:
  "handle_all ser (ps @ qs) s = do { s1 \<leftarrow> handle_all ser ps s; handle_all ser qs s1 }"
proof (induction ps arbitrary: s)
  case (Cons p ps) then show ?case by (cases "tuxctl_handle_packet ser p s") auto
qed simp

lemma scan_parse:
  assumes "n = length packet" "i \<le> n"
  shows "scan_packets ser packet n i s =
    (case parse (drop i packet) of (ps, left) \<Rightarrow>
       do { s1 \<leftarrow> handle_all ser ps s; Some (n - length left, s1) })"
  using assms
proof (induction ser packet n i s rule: scan_packets.induct)
  case (1 ser packet n i s)
  show ?case
  proof (cases "i + 2 < n")
    case True
    have d: "drop i packet = packet ! i # packet ! (i + 1) # packet ! (i + 2) # drop (i + 3) packet"
      using True 1(3) by (simp add: Cons_nth_drop_Suc numeral_eq_Suc)
    have d1: "drop (i + 1) packet = packet ! (i + 1) # packet ! (i + 2) # drop (i + 3) packet"
      using True 1(3) by (simp add: Cons_nth_drop_Suc numeral_eq_Suc)
    show ?thesis
    proof (cases "framed (packet ! i) (packet ! (i + 1)) (packet ! (i + 2))")
      case fr: True
      have "scan_packets ser packet n (i + 3) s1 =
        (case parse (drop (i + 3) packet) of (ps, left) \<Rightarrow>
           do { s2 \<leftarrow> handle_all ser ps s1; Some (n - length left, s2) })"
        if "tuxctl_handle_packet ser (packet ! i, packet ! (i + 1), packet ! (i + 2)) s = Some s1" for s1
        using 1(1)[OF True fr that] 1(3) True by simp
      then show ?thesis using True fr d
        by (subst scan_packets.simps)
          (cases "tuxctl_handle_packet ser (packet ! i, packet ! (i + 1), packet ! (i + 2)) s",
           simp_all add: case_prod_unfold Let_def)
    next
      case False
      have "scan_packets ser packet n (i + 1) s =
        (case parse (drop (i + 1) packet) of (ps, left) \<Rightarrow>
           do { s2 \<leftarrow> handle_all ser ps s; Some (n - length left, s2) })"
        using 1(2)[OF True False] 1(3) True by auto
      then show ?thesis using True False d d1 by (subst scan_packets.simps) simp
    qed
  next
    case False
    then have "length (drop i packet) \<le> 2" using 1(3) by simp
    then have "parse (drop i packet) = ([], drop i packet)"
      by (cases "drop i packet" rule: parse.cases) auto
    with False 1(3,4) show ?thesis by (subst scan_packets.simps) simp
  qed
qed

section \<open>Facts: packets do not touch the receiving side\<close>

definition rxs :: "ring \<Rightarrow> byte list \<Rightarrow> nat \<Rightarrow> 'd tux \<Rightarrow> 'd tux" where
  "rxs r sv k s = s\<lparr>disc_data := map_option (\<lambda>d. d\<lparr>rx := r\<rparr>) (disc_data s), saved := sv, n_saved := k\<rparr>"

lemma rxs_rxs [simp]: "rxs r sv k (rxs r' sv' k' s) = rxs r sv k s"
  by (cases "disc_data s") (simp_all add: rxs_def)

lemma rxs_fields [simp]:
  "ack_flag (rxs r sv k s) = ack_flag s" "prev_state_leds (rxs r sv k s) = prev_state_leds s"
  "drv (rxs r sv k s) = drv s" "saved (rxs r sv k s) = sv" "n_saved (rxs r sv k s) = k"
  "disc_data (rxs r sv k s) = map_option (\<lambda>d. d\<lparr>rx := r\<rparr>) (disc_data s)"
  by (simp_all add: rxs_def)

lemma rxs_updates:
  "(rxs r sv k s)\<lparr>ack_flag := a\<rparr> = rxs r sv k (s\<lparr>ack_flag := a\<rparr>)"
  "(rxs r sv k s)\<lparr>button_val := b\<rparr> = rxs r sv k (s\<lparr>button_val := b\<rparr>)"
  by (simp_all add: rxs_def)

lemma put_rxs:
  "tuxctl_ldisc_put ser buf (rxs r sv k s) = map_option (map_prod id (rxs r sv k)) (tuxctl_ldisc_put ser buf s)"
  by (cases "disc_data s")
     (auto simp: tuxctl_ldisc_put_def tuxctl_ldisc_write_wakeup_def rxs_def case_prod_unfold Let_def)

lemma reset_rxs: "packet_reset ser (rxs r sv k s) = map_option (rxs r sv k) (packet_reset ser s)"
proof (cases "tuxctl_ldisc_put ser [MTCP_BIOC_ON, MTCP_LED_USR] s")
  case (Some x)
  obtain n s1 where x: "x = (n, s1)" by (cases x)
  show ?thesis
    using Some x put_rxs[of ser "led_set_buf (prev_state_leds s1)" r sv k "s1\<lparr>ack_flag := 1\<rparr>"]
    by (cases "tuxctl_ldisc_put ser (led_set_buf (prev_state_leds s1)) (s1\<lparr>ack_flag := 1\<rparr>)")
       (auto simp: packet_reset_def tux_init_def tux_set_led_def put_rxs rxs_updates case_prod_unfold)
qed (simp add: packet_reset_def tux_init_def put_rxs)

lemma packet_rxs:
  "tuxctl_handle_packet ser p (rxs r sv k s) = map_option (rxs r sv k) (tuxctl_handle_packet ser p s)"
  by (cases p) (simp add: tuxctl_handle_packet_def packet_ack_def rxs_updates reset_rxs)

lemma handle_all_rxs: "handle_all ser ps (rxs r sv k s) = map_option (rxs r sv k) (handle_all ser ps s)"
proof (induction ps arbitrary: s)
  case (Cons p ps) then show ?case by (cases "tuxctl_handle_packet ser p s") (simp_all add: packet_rxs)
qed simp

text \<open>A packet is always handled, and only the transmit side of the structure changes.\<close>

definition tx_only :: "'d tux \<Rightarrow> 'd tux \<Rightarrow> bool" where
  "tx_only s s' \<longleftrightarrow> (\<exists>d t. disc_data s = Some d \<and> disc_data s' = Some (d\<lparr>tx := t\<rparr>) \<and> ring_ok t) \<and>
     saved s' = saved s \<and> n_saved s' = n_saved s"

lemma tx_only_trans: "tx_only s s' \<Longrightarrow> tx_only s' s'' \<Longrightarrow> tx_only s s''"
  by (fastforce simp: tx_only_def)

lemma put_tx_only:
  assumes "disc_data s = Some d" "ring_ok (tx d)"
  shows "\<exists>n s'. tuxctl_ldisc_put ser buf s = Some (n, s') \<and> tx_only s s'"
  using put_spec[OF assms refl refl, of ser buf] assms(1) by (fastforce simp: tx_only_def)

lemma reset_tx_only:
  assumes "disc_data s = Some d" "ring_ok (tx d)"
  shows "\<exists>s'. packet_reset ser s = Some s' \<and> tx_only s s'"
proof -
  obtain n s1 where p1: "tuxctl_ldisc_put ser [MTCP_BIOC_ON, MTCP_LED_USR] s = Some (n, s1)" "tx_only s s1"
    using put_tx_only[OF assms] by blast
  let ?s1 = "s1\<lparr>ack_flag := 1\<rparr>"
  obtain t where d1: "disc_data ?s1 = Some (d\<lparr>tx := t\<rparr>)" "ring_ok t"
    using p1(2) assms(1) by (auto simp: tx_only_def)
  obtain n2 s2 where p2: "tuxctl_ldisc_put ser (led_set_buf (prev_state_leds s1)) ?s1 = Some (n2, s2)" "tx_only ?s1 s2"
    using put_tx_only[OF d1(1), of ser "led_set_buf (prev_state_leds s1)"] d1(2) by auto
  have "tx_only s ?s1" using p1(2) by (auto simp: tx_only_def)
  then have "tx_only s s2" using p2(2) by (rule tx_only_trans)
  with p1 p2 show ?thesis by (simp add: packet_reset_def tux_init_def tux_set_led_def)
qed

lemma packet_tx_only:
  assumes "disc_data s = Some d" "ring_ok (tx d)"
  shows "\<exists>s'. tuxctl_handle_packet ser p s = Some s' \<and> tx_only s s'"
proof -
  obtain a b c where p: "p = (a, b, c)" by (cases p)
  have "\<exists>s'. packet_reset ser s1 = Some s' \<and> tx_only s s'"
    if "disc_data s1 = disc_data s" "saved s1 = saved s" "n_saved s1 = n_saved s" for s1
    using reset_tx_only[of s1 d ser] assms that by (auto simp: tx_only_def)
  moreover have "tx_only s s" using assms by (auto simp: tx_only_def intro: exI[of _ "tx d"])
  ultimately show ?thesis by (simp add: p tuxctl_handle_packet_def packet_ack_def)
qed

lemma handle_all_tx_only:
  assumes "disc_data s = Some d" "ring_ok (tx d)"
  shows "\<exists>s'. handle_all ser ps s = Some s' \<and> tx_only s s'"
  using assms
proof (induction ps arbitrary: s d)
  case Nil then show ?case by (auto simp: tx_only_def intro: exI[of _ "tx d"])
next
  case (Cons p ps)
  obtain s1 where s1: "tuxctl_handle_packet ser p s = Some s1" "tx_only s s1"
    using packet_tx_only[OF Cons.prems] by blast
  then obtain t where "disc_data s1 = Some (d\<lparr>tx := t\<rparr>)" "ring_ok t" using Cons.prems by (auto simp: tx_only_def)
  then obtain s2 where "handle_all ser ps s1 = Some s2" "tx_only s1 s2" using Cons.IH by fastforce
  with s1 show ?case by (auto intro: tx_only_trans)
qed

section \<open>Facts: the callback\<close>

definition rcv_ready :: "'d tux \<Rightarrow> bool" where
  "rcv_ready s \<longleftrightarrow> (\<exists>d. disc_data s = Some d \<and> ring_ok (rx d) \<and> ring_ok (tx d)) \<and>
     length (saved s) = 2 \<and> n_saved s \<le> 2"

lemma rcv_readyE:
  assumes "rcv_ready s"
  obtains d where "disc_data s = Some d" "ring_ok (rx d)" "ring_ok (tx d)" "length (saved s) = 2" "n_saved s \<le> 2"
  using assms by (auto simp: rcv_ready_def)

lemma callback_spec:
  assumes "rcv_ready s" "disc_data s = Some d"
    and "pk = take (n_saved s) (saved s) @ take (12 - n_saved s) (ring_items (rx d))"
  shows "\<exists>r sv k. tuxctl_ldisc_data_callback ser s = map_option (rxs r sv k) (handle_all ser (fst (parse pk)) s) \<and>
    ring_ok r \<and> ring_items r = drop (12 - n_saved s) (ring_items (rx d)) \<and>
    take k sv = snd (parse pk) \<and> length sv = 2 \<and> k \<le> 2"
proof -
  have ok: "ring_ok (rx d)" "ring_ok (tx d)" "length (saved s) = 2" "n_saved s \<le> 2"
    using assms(1,2) by (auto simp: rcv_ready_def)
  obtain r where g: "tuxctl_ldisc_get (12 - n_saved s) s =
      Some (take (12 - n_saved s) (ring_items (rx d)), s\<lparr>disc_data := Some (d\<lparr>rx := r\<rparr>)\<rparr>)"
    and r: "ring_ok r" "ring_items r = drop (12 - n_saved s) (ring_items (rx d))"
    using get_spec[OF assms(2) ok(1), of "12 - n_saved s"] by blast
  let ?s1 = "s\<lparr>disc_data := Some (d\<lparr>rx := r\<rparr>)\<rparr>"
  have s1: "?s1 = rxs r (saved s) (n_saved s) s" using assms(2) by (simp add: rxs_def)
  obtain s' where h: "handle_all ser (fst (parse pk)) s = Some s'" "tx_only s s'"
    using handle_all_tx_only[OF assms(2) ok(2)] by blast
  define l where "l = snd (parse pk)"
  have l: "length l \<le> 2" unfolding l_def by (rule parse_left)
  have len: "n_saved s + length (take (12 - n_saved s) (ring_items (rx d))) = length pk"
    using ok by (simp add: assms(3))
  have sc: "scan_packets ser pk (length pk) 0 ?s1 = Some (length pk - length l, rxs r (saved s) (n_saved s) s')"
    using scan_parse[of "length pk" pk 0 ser ?s1] h(1) unfolding s1
    by (simp add: case_prod_unfold handle_all_rxs l_def)
  obtain xs where pk: "pk = xs @ l" using parse_suffix[of pk] by (auto simp: l_def)
  then have left: "drop (length pk - length l) pk = l" and n: "length pk - (length pk - length l) = length l" by simp_all
  have "tuxctl_ldisc_data_callback ser s = Some (rxs r (l @ drop (length l) (saved s)) (length l) s')"
    unfolding tuxctl_ldisc_data_callback_def
    by (simp only: g bind.bind_lunit prod.case Let_def len assms(3)[symmetric] sc take_all[OF order_refl] left n)
      (use l ok(3) in \<open>simp add: rxs_def\<close>)
  then show ?thesis using h r l ok(3)
    by (intro exI[of _ r] exI[of _ "l @ drop (length l) (saved s)"] exI[of _ "length l"]) (simp add: l_def)
qed

text \<open>One arrival with an empty buffer, then any number of them.\<close>

lemma rcv_buf_spec:
  assumes "rcv_ready s" "disc_data s = Some d" "ring_items (rx d) = []" "length cp \<le> 10"
    and "pk = take (n_saved s) (saved s) @ cp"
  shows "\<exists>r sv k. tuxctl_ldisc_rcv_buf ser cp s = map_option (rxs r sv k) (handle_all ser (fst (parse pk)) s) \<and>
    ring_ok r \<and> ring_items r = [] \<and> take k sv = snd (parse pk) \<and> length sv = 2 \<and> k \<le> 2"
proof -
  have ok: "ring_ok (rx d)" "ring_ok (tx d)" "length (saved s) = 2" "n_saved s \<le> 2"
    using assms(1,2) by (auto simp: rcv_ready_def)
  obtain c r1 where f: "fill buf_full ring_push cp (rx d) = (c, r1)" by fastforce
  then have r1: "ring_ok r1" "ring_items r1 = cp"
    using ring_q.fill_spec[OF ok(1), of cp] assms(3,4) by simp_all
  let ?s1 = "s\<lparr>disc_data := Some (d\<lparr>rx := r1\<rparr>)\<rparr>"
  have s1: "?s1 = rxs r1 (saved s) (n_saved s) s" using assms(2) by (simp add: rxs_def)
  have rdy: "rcv_ready ?s1" using ok r1(1) by (simp add: rcv_ready_def)
  have pk: "pk = take (n_saved ?s1) (saved ?s1) @ take (12 - n_saved ?s1) (ring_items (rx (d\<lparr>rx := r1\<rparr>)))"
    using assms(4,5) ok(4) r1(2) by simp
  obtain r sv k where c: "tuxctl_ldisc_data_callback ser ?s1 =
      map_option (rxs r sv k) (handle_all ser (fst (parse pk)) ?s1)" "ring_ok r"
      "ring_items r = drop (12 - n_saved ?s1) (ring_items (rx (d\<lparr>rx := r1\<rparr>)))"
      "take k sv = snd (parse pk)" "length sv = 2" "k \<le> 2"
    using callback_spec[OF rdy _ pk, of ser] by auto
  have "ring_items r = []" using c(3) r1(2) assms(4) ok(4) by simp
  moreover have "tuxctl_ldisc_rcv_buf ser cp s = map_option (rxs r sv k) (handle_all ser (fst (parse pk)) s)"
    unfolding tuxctl_ldisc_rcv_buf_def using assms(2) f c(1)
    by (simp add: s1 handle_all_rxs option.map_comp comp_def)
  ultimately show ?thesis using c by blast
qed

lemma rcv_all_spec:
  assumes "rcv_ready s" "disc_data s = Some d" "ring_items (rx d) = []" "\<forall>c \<in> set cs. length c \<le> 10"
    and "pk = take (n_saved s) (saved s) @ concat cs"
  shows "\<exists>r sv k. rcv_all ser cs s = map_option (rxs r sv k) (handle_all ser (fst (parse pk)) s) \<and>
    ring_items r = [] \<and> take k sv = snd (parse pk)"
  using assms
proof (induction cs arbitrary: s d pk)
  case Nil
  then have "length pk \<le> 2" by (simp add: rcv_ready_def)
  then have "parse pk = ([], pk)" by (cases pk rule: parse.cases) auto
  moreover have "s = rxs (rx d) (saved s) (n_saved s) s" using Nil.prems(2) by (simp add: rxs_def)
  ultimately show ?case using Nil.prems(3,5) by (intro exI[of _ "rx d"] exI[of _ "saved s"] exI[of _ "n_saved s"]) simp
next
  case (Cons c cs)
  define p1 where "p1 = take (n_saved s) (saved s) @ c"
  obtain r sv k where b: "tuxctl_ldisc_rcv_buf ser c s = map_option (rxs r sv k) (handle_all ser (fst (parse p1)) s)"
      "ring_ok r" "ring_items r = []" "take k sv = snd (parse p1)" "length sv = 2" "k \<le> 2"
    using rcv_buf_spec[OF Cons.prems(1-3) _ p1_def, of ser] Cons.prems(4) by auto
  obtain s' where h: "handle_all ser (fst (parse p1)) s = Some s'" "tx_only s s'"
    using handle_all_tx_only[of s d] Cons.prems(1,2) by (auto simp: rcv_ready_def)
  then obtain t where d': "disc_data s' = Some (d\<lparr>tx := t\<rparr>)" "ring_ok t" using Cons.prems(2) by (auto simp: tx_only_def)
  let ?s1 = "rxs r sv k s'"
  define p2 where "p2 = snd (parse p1) @ concat cs"
  have "rcv_ready ?s1" using b d' by (simp add: rcv_ready_def)
  then obtain r2 sv2 k2 where i: "rcv_all ser cs ?s1 = map_option (rxs r2 sv2 k2) (handle_all ser (fst (parse p2)) ?s1)"
      "ring_items r2 = []" "take k2 sv2 = snd (parse p2)"
    using Cons.IH[of ?s1 "d\<lparr>tx := t, rx := r\<rparr>" p2] Cons.prems(4) d'(1) b(3,4) by (auto simp: p2_def)
  have pk: "parse pk = (fst (parse p1) @ fst (parse p2), snd (parse p2))"
    using parse_append[of p1 "concat cs"] by (simp add: Cons.prems(5) p1_def p2_def)
  have "rcv_all ser (c # cs) s = map_option (rxs r2 sv2 k2) (handle_all ser (fst (parse pk)) s)"
    using b(1) h(1) i(1) by (simp add: pk handle_all_append handle_all_rxs option.map_comp comp_def)
  with i pk show ?case by auto
qed

section \<open>Properties\<close>

text \<open>C9: However the bytes from the controller are split into arrivals of at most ten bytes, the
  driver handles exactly the packets of the whole stream, in order, and keeps the at most two
  bytes that may still begin a packet.\<close>
theorem packets_of_stream:
  assumes "rcv_ready s" "disc_data s = Some d" "ring_items (rx d) = []" "\<forall>c \<in> set cs. length c \<le> 10"
    and "parse (take (n_saved s) (saved s) @ concat cs) = (ps, left)"
  shows "\<exists>s0 s'. handle_all ser ps s = Some s0 \<and> rcv_all ser cs s = Some s' \<and>
    drv s' = drv s0 \<and> ack_flag s' = ack_flag s0 \<and> button_val s' = button_val s0 \<and>
    prev_state_leds s' = prev_state_leds s0 \<and> tx (the (disc_data s')) = tx (the (disc_data s0)) \<and>
    ring_items (rx (the (disc_data s'))) = [] \<and> take (n_saved s') (saved s') = left"
proof -
  obtain r sv k where r: "rcv_all ser cs s = map_option (rxs r sv k) (handle_all ser ps s)"
    "ring_items r = []" "take k sv = left"
    using rcv_all_spec[OF assms(1-4) refl, of ser] assms(5) by auto
  obtain s0 where h: "handle_all ser ps s = Some s0" "tx_only s s0"
    using handle_all_tx_only[of s d] assms(1,2) by (auto simp: rcv_ready_def)
  then obtain t where "disc_data s0 = Some (d\<lparr>tx := t\<rparr>)" using assms(2) by (auto simp: tx_only_def)
  with r h show ?thesis by (simp add: rxs_def)
qed

theorem packets_of_stream_witness:
  "\<exists>s'. rcv_all slow_line [[0x33, 0x41, 0x8F], [0x81]] (demo_tux empty_ring) = Some s' \<and>
     button_val s' = 0x1F \<and> take (n_saved s') (saved s') = []"
proof -
  have fr: "\<not> framed 0x33 0x41 0x8F" "framed 0x41 0x8F 0x81" by (simp_all add: framed_def)
  have p: "parse [0x33, 0x41, 0x8F, 0x81] = ([(0x41, 0x8F, 0x81)], [])" by (simp add: fr)
  have d: "disc_data (demo_tux empty_ring) = Some \<lparr>rx = empty_ring, tx = empty_ring\<rparr>" by (simp add: demo_tux_def)
  have rdy: "rcv_ready (demo_tux empty_ring)" by (simp add: rcv_ready_def demo_tux_def)
  obtain s0 s' where s: "handle_all slow_line [(0x41, 0x8F, 0x81)] (demo_tux empty_ring) = Some s0"
    "rcv_all slow_line [[0x33, 0x41, 0x8F], [0x81]] (demo_tux empty_ring) = Some s'"
    "button_val s' = button_val s0" "take (n_saved s') (saved s') = []"
    using packets_of_stream[OF rdy d, of "[[0x33, 0x41, 0x8F], [0x81]]" "[(0x41, 0x8F, 0x81)]" "[]" slow_line] p
    by (auto simp: demo_tux_def)
  have "button_val s0 = 0x1F"
    using s(1) by (auto simp: tuxctl_handle_packet_def mtcp_consts packet_ack_def packet_reset_def tux_init_def
        tux_set_led_def tuxctl_ldisc_put_def tuxctl_ldisc_write_wakeup_def button_byte_def BITWISE_MASK_def
        BITWISE_MASK2_def option_bind_Some_iff case_prod_unfold demo_tux_def Let_def)
  with s show ?thesis by auto
qed

text \<open>A further fact about the same definitions.\<close>
lemma receive_keeps_ready:
  assumes "rcv_ready s" "disc_data s = Some d"
  shows "\<exists>s' d'. tuxctl_ldisc_rcv_buf ser cp s = Some s' \<and> rcv_ready s' \<and> disc_data s' = Some d' \<and>
    ring_items (rx d') =
      drop (12 - n_saved s) (ring_items (rx d) @ take (63 - length (ring_items (rx d))) cp)"
proof -
  have ok: "ring_ok (rx d)" "ring_ok (tx d)" using assms by (auto simp: rcv_ready_def)
  obtain c r1 where f: "fill buf_full ring_push cp (rx d) = (c, r1)" by fastforce
  then have r1: "ring_ok r1" "ring_items r1 = ring_items (rx d) @ take (63 - length (ring_items (rx d))) cp"
    using ring_q.fill_spec[OF ok(1), of cp] by simp_all
  let ?s1 = "s\<lparr>disc_data := Some (d\<lparr>rx := r1\<rparr>)\<rparr>"
  have "rcv_ready ?s1" using assms r1(1) by (simp add: rcv_ready_def)
  then obtain r sv k ps where c: "tuxctl_ldisc_data_callback ser ?s1 = map_option (rxs r sv k) (handle_all ser ps ?s1)"
      "ring_ok r" "ring_items r = drop (12 - n_saved s) (ring_items r1)" "length sv = 2" "k \<le> 2"
    using callback_spec[of ?s1 "d\<lparr>rx := r1\<rparr>" _ ser, OF _ _ refl] by fastforce
  obtain s0 t where h: "handle_all ser ps ?s1 = Some s0" "disc_data s0 = Some (d\<lparr>rx := r1, tx := t\<rparr>)" "ring_ok t"
    using handle_all_tx_only[of ?s1 "d\<lparr>rx := r1\<rparr>" ser ps] ok by (auto simp: tx_only_def)
  have "tuxctl_ldisc_rcv_buf ser cp s = Some (rxs r sv k s0)"
    using assms(2) f c(1) h(1) by (simp add: tuxctl_ldisc_rcv_buf_def)
  then show ?thesis using c h r1 by (simp add: rcv_ready_def)
qed

theorem receive_keeps_ready_witness:
  "\<exists>s' d'. tuxctl_ldisc_rcv_buf slow_line (replicate 20 0) (demo_tux empty_ring) = Some s' \<and>
     disc_data s' = Some d' \<and> ring_items (rx d') = replicate 8 0"
proof -
  have "rcv_ready (demo_tux empty_ring)" "disc_data (demo_tux empty_ring) = Some \<lparr>rx = empty_ring, tx = empty_ring\<rparr>"
    "n_saved (demo_tux empty_ring) = 0"
    by (simp_all add: rcv_ready_def demo_tux_def)
  then show ?thesis
    using receive_keeps_ready[of "demo_tux empty_ring" "\<lparr>rx = empty_ring, tx = empty_ring\<rparr>" slow_line "replicate 20 0"]
    by fastforce
qed

end
