(* ===== verification/MazeClock.thy ===== *)
theory MazeClock
  imports MazeLevel TuxPackets
begin

text \<open>The time on the controller: the word the game computes, \<^verbatim>\<open>tux_clock\<close> of \<^verbatim>\<open>mazegame.c\<close>, and the
  command the driver makes of it.\<close>

section \<open>Facts: the digits of the word\<close>

text \<open>Four numbers below 16 put side by side below the default bits.\<close>

definition four_digits :: "nat \<Rightarrow> nat \<Rightarrow> nat \<Rightarrow> nat \<Rightarrow> u32" where
  "four_digits a b c d = (((LED_DEFAULT OR of_nat a) OR push_bit 4 (of_nat b)) OR push_bit 8 (of_nat c)) OR push_bit 12 (of_nat d)"

lemma below_16:
  assumes "a < 16"
  shows "a \<in> {0, 1, 2, 3, 4, 5, 6, 7, 8, 9, 10, 11, 12, 13, 14, 15 :: nat}"
proof -
  have "a \<in> set [0..<16]" using assms by simp
  then show ?thesis by (simp add: upt_rec, elim disjE) simp_all
qed

lemma digit_parts:
  assumes "a < 16"
  shows "take_bit 4 (of_nat a :: u32) = of_nat a" "drop_bit 4 (of_nat a :: u32) = 0" "drop_bit 8 (of_nat a :: u32) = 0"
    "drop_bit 12 (of_nat a :: u32) = 0" "drop_bit 16 (of_nat a :: u32) = 0"
    "take_bit 4 (push_bit 4 (of_nat a :: u32)) = 0" "take_bit 4 (push_bit 8 (of_nat a :: u32)) = 0" "take_bit 4 (push_bit 12 (of_nat a :: u32)) = 0"
    "drop_bit 4 (push_bit 4 (of_nat a :: u32)) = of_nat a" "drop_bit 8 (push_bit 4 (of_nat a :: u32)) = 0"
    "drop_bit 12 (push_bit 4 (of_nat a :: u32)) = 0" "drop_bit 16 (push_bit 4 (of_nat a :: u32)) = 0"
    "drop_bit 4 (push_bit 8 (of_nat a :: u32)) = push_bit 4 (of_nat a)" "drop_bit 8 (push_bit 8 (of_nat a :: u32)) = of_nat a"
    "drop_bit 12 (push_bit 8 (of_nat a :: u32)) = 0" "drop_bit 16 (push_bit 8 (of_nat a :: u32)) = 0"
    "drop_bit 4 (push_bit 12 (of_nat a :: u32)) = push_bit 8 (of_nat a)" "drop_bit 8 (push_bit 12 (of_nat a :: u32)) = push_bit 4 (of_nat a)"
    "drop_bit 12 (push_bit 12 (of_nat a :: u32)) = of_nat a" "drop_bit 16 (push_bit 12 (of_nat a :: u32)) = 0"
  using below_16[OF assms] by auto

lemma four_digits_nibble:
  assumes "a < 16" "b < 16" "c < 16" "d < 16"
  shows "take_bit 4 (four_digits a b c d) = of_nat a" "take_bit 4 (drop_bit 4 (four_digits a b c d)) = of_nat b"
    "take_bit 4 (drop_bit 8 (four_digits a b c d)) = of_nat c" "take_bit 4 (drop_bit 12 (four_digits a b c d)) = of_nat d"
    "drop_bit 16 (four_digits a b c d) = 0x040F"
proof -
  have l: "take_bit 4 LED_DEFAULT = 0" "take_bit 4 (drop_bit 4 LED_DEFAULT) = 0" "take_bit 4 (drop_bit 8 LED_DEFAULT) = 0"
    "take_bit 4 (drop_bit 12 LED_DEFAULT) = 0" "drop_bit 16 LED_DEFAULT = 0x040F"
    by (simp_all add: LED_DEFAULT_def)
  show "take_bit 4 (four_digits a b c d) = of_nat a" "take_bit 4 (drop_bit 4 (four_digits a b c d)) = of_nat b"
    "take_bit 4 (drop_bit 8 (four_digits a b c d)) = of_nat c" "take_bit 4 (drop_bit 12 (four_digits a b c d)) = of_nat d"
    "drop_bit 16 (four_digits a b c d) = 0x040F"
    unfolding four_digits_def take_bit_or drop_bit_or l
      digit_parts[OF assms(1)] digit_parts[OF assms(2)] digit_parts[OF assms(3)] digit_parts[OF assms(4)]
    by simp_all
qed

lemma four_digits_led:
  assumes "a < 16" "b < 16" "c < 16" "d < 16"
  shows "led_set_buf (four_digits a b c d) =
    [MTCP_LED_SET, 15, lit (digit_shapes ! a), lit (digit_shapes ! b), lit (digit_shapes ! c) OR 0x10, lit (digit_shapes ! d)]"
proof -
  note n = four_digits_nibble[OF assms]
  have top: "bit (four_digits a b c d) (16 + i) = bit (0x040F :: u32) i" for i
    using n(5) by (metis bit_drop_bit_eq comp_apply)
  have b: "bit (four_digits a b c d) 16" "bit (four_digits a b c d) 17" "bit (four_digits a b c d) 18" "bit (four_digits a b c d) 19"
    "\<not> bit (four_digits a b c d) 24" "\<not> bit (four_digits a b c d) 25" "bit (four_digits a b c d) 26" "\<not> bit (four_digits a b c d) 27"
    using top[of 0] top[of 1] top[of 2] top[of 3] top[of 8] top[of 9] top[of 10] top[of 11] by (simp_all add: numeral_eq_Suc)
  have u: "unat (of_nat k :: u32) = k" if "k < 16" for k using that by (simp add: unat_of_nat)
  have s: "ucast (take_bit 4 (drop_bit 16 (four_digits a b c d))) = (15 :: byte)" by (simp add: n(5))
  have led: "led_digit (four_digits a b c d) 0 = lit (digit_shapes ! a)" "led_digit (four_digits a b c d) 1 = lit (digit_shapes ! b)"
    "led_digit (four_digits a b c d) 2 = lit (digit_shapes ! c) OR 0x10" "led_digit (four_digits a b c d) 3 = lit (digit_shapes ! d)"
    using b n(1-4) u[OF assms(1)] u[OF assms(2)] u[OF assms(3)] u[OF assms(4)] by (simp_all add: led_digit_def)
  show ?thesis unfolding led_set_digits s led by (rule refl)
qed

lemma tux_clock_digits:
  assumes "0 \<le> t" "t < 9600"
  shows "tux_clock t = four_digits (nat (t mod 60 mod 10)) (nat (t mod 60 div 10)) (nat (t div 60 mod 10)) (nat (t div 600))"
proof -
  have m: "t sdiv 60 = t div 60" "t smod 60 = t mod 60" "0 \<le> t div 60" "0 \<le> t mod 60"
    using assms by (simp_all add: signed_divide_int_def signed_modulo_int_def sgn_if pos_imp_zdiv_nonneg_iff minus_div_mult_eq_mod)
  have q: "v sdiv 10 = v div 10" "v smod 10 = v mod 10" if "0 \<le> v" for v :: int
    using that by (simp_all add: signed_divide_int_def signed_modulo_int_def sgn_if minus_div_mult_eq_mod)
  have d: "t div 60 div 10 = t div 600" using zdiv_zmult2_eq[of 10 t 60] by simp
  have w: "word_of_int (push_bit k v) = push_bit k (of_nat (nat v) :: u32)" "word_of_int v = (of_nat (nat v) :: u32)" if "0 \<le> v" for v k
    using that by (simp_all add: push_bit_eq_mult)
  have p: "0 \<le> t mod 60 mod 10" "0 \<le> t mod 60 div 10" "0 \<le> t div 60 mod 10" "0 \<le> t div 600"
    using assms(1) by (simp_all add: pos_imp_zdiv_nonneg_iff)
  show ?thesis
    unfolding tux_clock_def Let_def m(1,2) q[OF m(3)] q[OF m(4)] d four_digits_def w(1)[OF p(2)] w(1)[OF p(3)] w(1)[OF p(4)] w(2)[OF p(1)]
    by (rule refl)
qed

section \<open>Properties\<close>

text \<open>C25: For any time below 160 minutes, the word that tux_clock sends shows on the four LEDs the
  minutes, a point and the seconds; from 100 minutes on the first one is a hexadecimal letter.\<close>
theorem clock_on_leds:
  assumes "0 \<le> t" "t < 9600"
  shows "led_set_buf (tux_clock t) =
    [MTCP_LED_SET, 15, lit (digit_shapes ! nat (t mod 60 mod 10)), lit (digit_shapes ! nat (t mod 60 div 10)),
     lit (digit_shapes ! nat (t div 60 mod 10)) OR 0x10, lit (digit_shapes ! nat (t div 600))]"
proof -
  have "nat (t mod 60 mod 10) < 16" "nat (t mod 60 div 10) < 16" "nat (t div 60 mod 10) < 16" "nat (t div 600) < 16"
    using assms pos_mod_bound[of 60 t] by (simp_all add: nat_less_iff pos_imp_zdiv_nonneg_iff)
  then show ?thesis unfolding tux_clock_digits[OF assms] by (rule four_digits_led)
qed

theorem clock_on_leds_witness:
  "led_set_buf (tux_clock 754) = [MTCP_LED_SET, 15, lit (digit_shapes ! 4), lit (digit_shapes ! 3), lit (digit_shapes ! 2) OR 0x10, lit (digit_shapes ! 1)]"
  using clock_on_leds[of 754] by simp

end
