(* ===== verification/Input.thy ===== *)
theory Input
  imports MazeClock
begin

text \<open>The input module \<^verbatim>\<open>mp2_rthakk21/input.c\<close> with its test program: the terminal's mode, the commands
  that the keys give, and the words sent to the LEDs.  \<^verbatim>\<open>USE_TUX_CONTROLLER\<close> is a parameter, as the
  file can be compiled both ways; it is set to 1, which leaves out the arrow keys.\<close>

section \<open>State\<close>

text \<open>The parts of \<^verbatim>\<open>struct termios\<close> that the code touches, and the others.\<close>

record termios =
  c_lflag :: u32
  c_cc :: "byte list"
  other_flags :: "u32 list"

definition ICANON :: u32 where "ICANON = 2"
definition ECHO :: u32 where "ECHO = 8"
definition VTIME :: nat where "VTIME = 5"
definition VMIN :: nat where "VMIN = 6"

text \<open>Directions and commands are numbers: 0 to 3 up, right, down, left, and none, right, back, left.\<close>

definition DIR_STOP :: int where "DIR_STOP = 4"
definition NUM_TURNS :: int where "NUM_TURNS = 4"
definition TURN_NONE :: int where "TURN_NONE = 0"
definition CMD_QUIT :: int where "CMD_QUIT = NUM_TURNS"

text \<open>The statics of \<^verbatim>\<open>get_command\<close>, the terminal, the characters that wait in \<^verbatim>\<open>stdin\<close>, the words sent to
  the controller and the lines printed.\<close>

record input =
  prev_cur :: int
  pushed :: int
  fsm :: nat
  tio :: termios
  tio_orig :: termios
  nonblocking :: bool
  stdin_q :: "byte list"
  led_sent :: "u32 list"
  printed :: "string list"

section \<open>Operations\<close>

text \<open>No line buffering and no echo, and a read returns with the first character.\<close>

definition raw_mode :: "termios \<Rightarrow> termios" where
  "raw_mode t =
    (let t1 = t\<lparr>c_lflag := c_lflag t AND NOT (ICANON OR ECHO)\<rparr>;
         t2 = t1\<lparr>c_cc := (c_cc t1)[VMIN := 1]\<rparr>
     in t2\<lparr>c_cc := (c_cc t2)[VTIME := 0]\<rparr>)"

text \<open>The three flags say which of the calls on the terminal succeed.\<close>

definition init_input :: "bool \<Rightarrow> bool \<Rightarrow> bool \<Rightarrow> input \<Rightarrow> int \<times> input" where
  "init_input fcntl_ok get_ok set_ok s =
    (if \<not> fcntl_ok then (- 1, s)
     else
       (let s1 = s\<lparr>nonblocking := True\<rparr>
        in if \<not> get_ok then (- 1, s1)
           else
             (let s2 = s1\<lparr>tio_orig := tio s1\<rparr>;
                  tio_new = raw_mode (tio_orig s2)
              in if \<not> set_ok then (- 1, s2) else (0, s2\<lparr>tio := tio_new\<rparr>))))"

definition shutdown_input :: "bool \<Rightarrow> input \<Rightarrow> input" where
  "shutdown_input set_ok s = (if set_ok then s\<lparr>tio := tio_orig s\<rparr> else s)"

text \<open>One character of the arrow keys' sequences.\<close>

definition fsm_step :: "byte \<Rightarrow> input \<Rightarrow> input" where
  "fsm_step ch s =
    (if ch = 27 then s\<lparr>fsm := 1\<rparr>
     else if ch = 91 \<and> fsm s = 1 then s\<lparr>fsm := 2\<rparr>
     else
       (let s1 = (if fsm s = 2 \<and> ch \<ge> 0x41 \<and> ch \<le> 0x44
                  then s\<lparr>pushed := (if ch = 0x41 then 0 else if ch = 0x42 then 2 else if ch = 0x43 then 1 else 3)\<rparr>
                  else s)
        in s1\<lparr>fsm := 0\<rparr>))"

fun read_keys :: "bool \<Rightarrow> byte list \<Rightarrow> input \<Rightarrow> bool \<times> input" where
  "read_keys use_tux [] s = (False, s\<lparr>stdin_q := []\<rparr>)"
| "read_keys use_tux (ch # chs) s =
    (if ch = 0x60 then (True, s\<lparr>stdin_q := chs\<rparr>)
     else read_keys use_tux chs (if use_tux then s else fsm_step ch s))"

definition get_command :: "bool \<Rightarrow> int \<Rightarrow> input \<Rightarrow> int \<times> input" where
  "get_command use_tux cur_dir s =
    (let s1 = (if prev_cur s \<noteq> cur_dir then s\<lparr>pushed := DIR_STOP, prev_cur := cur_dir\<rparr> else s);
         (quit, s2) = read_keys use_tux (stdin_q s1) s1
     in if quit then (CMD_QUIT, s2)
        else if pushed s2 = DIR_STOP then (TURN_NONE, s2)
        else ((pushed s2 - cur_dir + NUM_TURNS) mod NUM_TURNS, s2))"

definition display_time_on_tux :: "int \<Rightarrow> input \<Rightarrow> input" where "display_time_on_tux num_seconds s = s"

definition test_spamming :: "int \<Rightarrow> input \<Rightarrow> input" where
  "test_spamming elapsed_time s =
    (let minute = elapsed_time sdiv 60; minute_1 = minute smod 10; minute_2 = minute sdiv 10;
         second = elapsed_time smod 60; second_1 = second smod 10; second_2 = second sdiv 10;
         v0 = 0x040F0000 :: u32;
         v1 = v0 OR word_of_int second_1;
         v2 = v1 OR word_of_int (push_bit 4 second_2);
         v3 = v2 OR word_of_int (push_bit 8 minute_1);
         v4 = v3 OR word_of_int (push_bit 12 minute_2)
     in s\<lparr>led_sent := led_sent s @ [v4]\<rparr>)"

text \<open>The test program.  What is typed arrives in batches, one before each call of \<^verbatim>\<open>get_command\<close>; \<^const>\<open>None\<close>
  when the batches are used up and it still waits.\<close>

definition print_line :: "string \<Rightarrow> input \<Rightarrow> input" where "print_line t s = s\<lparr>printed := printed s @ [t]\<rparr>"

definition cmd_name :: "string list" where "cmd_name = [''none'', ''right'', ''back'', ''left'']"
definition dir_names :: "string list" where "dir_names = [''up'', ''right'', ''down'', ''left'']"

fun wait_command :: "bool \<Rightarrow> int \<Rightarrow> byte list list \<Rightarrow> input \<Rightarrow> (int \<times> byte list list \<times> input) option" where
  "wait_command use_tux heading [] s = None"
| "wait_command use_tux heading (b # bs) s =
    (let (cmd, s1) = get_command use_tux heading (s\<lparr>stdin_q := stdin_q s @ b\<rparr>)
     in if cmd = TURN_NONE then wait_command use_tux heading bs s1 else Some (cmd, bs, s1))"

partial_function (option) command_loop ::
    "bool \<Rightarrow> int \<Rightarrow> byte list list \<Rightarrow> input \<Rightarrow> (int \<times> byte list list \<times> input) option" where
  "command_loop use_tux heading bs s = do {
     (cmd, bs1, s1) \<leftarrow> wait_command use_tux heading bs (print_line (''CURRENT DIRECTION IS '' @ dir_names ! nat heading) s);
     if cmd = CMD_QUIT then Some (heading, bs1, s1)
     else command_loop use_tux ((heading + cmd) mod 4) bs1 (print_line (cmd_name ! nat cmd) (display_time_on_tux 83 s1)) }"

definition input_main :: "bool \<Rightarrow> bool \<Rightarrow> bool \<times> bool \<times> bool \<Rightarrow> bool \<Rightarrow> byte list list \<Rightarrow> input \<Rightarrow> (int \<times> input) option" where
  "input_main use_tux ioperm_ok tty_ok set_ok bs s =
    (if \<not> ioperm_ok then Some (3, s)
     else do {
       let s1 = fold (\<lambda>i. test_spamming (int i)) [0..<2000] s;
       let s2 = print_line ''Done'' s1;
       let s3 = (case tty_ok of (a, b, c) \<Rightarrow> snd (init_input a b c s2));
       (heading, bs1, s4) \<leftarrow> command_loop use_tux 0 bs s3;
       Some (0, shutdown_input set_ok s4) })"

section \<open>Facts: the arrow keys\<close>

text \<open>The same decoding as in the keyboard thread of the game: \<^const>\<open>last_arrow\<close> and \<^const>\<open>escape_state\<close> on
  what was typed, the latest character first.\<close>

definition decoded :: "byte list \<Rightarrow> input \<Rightarrow> input" where
  "decoded ks s = s\<lparr>pushed := (case last_arrow ks of None \<Rightarrow> pushed s | Some d \<Rightarrow> int (dir_num d)), fsm := escape_state ks\<rparr>"

lemma fsm_decodes: "fsm_step k (decoded ks s) = decoded (k # ks) s"
proof -
  have a: "arrow k = (if k = 0x41 then Some DIR_UP else if k = 0x42 then Some DIR_DOWN else if k = 0x43 then Some DIR_RIGHT
      else if k = 0x44 then Some DIR_LEFT else None)"
    by (simp add: arrow_def KEY_UP_def KEY_DOWN_def KEY_RIGHT_def KEY_LEFT_def)
  have r: "(k \<ge> 0x41 \<and> k \<le> 0x44) = (arrow k \<noteq> None)"
    using arrow_range[of k] by (simp add: KEY_UP_def KEY_LEFT_def)
  have f: "fsm (decoded ks s) = escape_state ks" by (simp add: decoded_def)
  consider "k = 27" | "k = 91" | "k \<noteq> 27" "k \<noteq> 91" by blast
  then show ?thesis
  proof cases
    case 1
    then show ?thesis by (simp add: fsm_step_def decoded_def last_arrow_step escape_step arrow_plain)
  next
    case 2
    have "arrow 91 = None" by (rule arrow_plain)
    then show ?thesis using r f unfolding 2
      by (cases "escape_state ks = 1") (simp_all add: fsm_step_def decoded_def last_arrow_step escape_step Let_def)
  next
    case 3
    then show ?thesis
      using a by (simp only: fsm_step_def f r Let_def) (auto simp: decoded_def last_arrow_step escape_step)
  qed
qed

lemma read_keys_decodes:
  "0x60 \<notin> set keys \<Longrightarrow> read_keys False keys (decoded ks s) = (False, (decoded (rev keys @ ks) s)\<lparr>stdin_q := []\<rparr>)"
proof (induction keys arbitrary: ks)
  case (Cons k keys)
  then have "read_keys False (k # keys) (decoded ks s) = read_keys False keys (decoded (k # ks) s)" by (simp add: fsm_decodes)
  then show ?case using Cons by simp
qed simp

lemma decoded_start: "fsm s = 0 \<Longrightarrow> decoded [] s = s"
  by (simp add: decoded_def)

section \<open>Facts: compiled for the controller\<close>

lemma read_keys_tux: "read_keys True keys s =
    (0x60 \<in> set keys, s\<lparr>stdin_q := (if 0x60 \<in> set keys then tl (dropWhile (\<lambda>c. c \<noteq> 0x60) keys) else [])\<rparr>)"
  by (induction keys) auto

lemma get_command_tux:
  assumes "pushed s = DIR_STOP"
  shows "\<exists>s1. get_command True heading s = (if 0x60 \<in> set (stdin_q s) then CMD_QUIT else TURN_NONE, s1) \<and> pushed s1 = DIR_STOP \<and>
    (0x60 \<notin> set (stdin_q s) \<longrightarrow> stdin_q s1 = []) \<and>
    tio s1 = tio s \<and> tio_orig s1 = tio_orig s \<and> led_sent s1 = led_sent s \<and> printed s1 = printed s"
  using assms by (simp add: get_command_def read_keys_tux Let_def)

lemma wait_command_tux:
  assumes "pushed s = DIR_STOP" "stdin_q s = []" "\<And>b. b \<in> set bs \<Longrightarrow> 0x60 \<notin> set b"
  shows "wait_command True heading bs s = None"
    "0x60 \<in> set final_keys \<Longrightarrow> \<exists>s1. wait_command True heading (bs @ final_keys # rest) s = Some (CMD_QUIT, rest, s1) \<and>
       tio s1 = tio s \<and> tio_orig s1 = tio_orig s \<and> led_sent s1 = led_sent s \<and> printed s1 = printed s"
  using assms
proof (induction bs arbitrary: s)
  case Nil
  {
    case 1 then show ?case by simp
  next
    case 2
    then show ?case using get_command_tux[of "s\<lparr>stdin_q := final_keys\<rparr>" heading] by (auto simp: CMD_QUIT_def NUM_TURNS_def TURN_NONE_def)
  }
next
  case (Cons b bs)
  {
    case 1
    obtain s1 where "get_command True heading (s\<lparr>stdin_q := b\<rparr>) = (TURN_NONE, s1)" "pushed s1 = DIR_STOP" "stdin_q s1 = []"
      using get_command_tux[of "s\<lparr>stdin_q := b\<rparr>" heading] 1 by auto
    then show ?case using Cons.IH(1)[of s1] 1 by simp
  next
    case 2
    obtain s1 where "get_command True heading (s\<lparr>stdin_q := b\<rparr>) = (TURN_NONE, s1)" "pushed s1 = DIR_STOP" "stdin_q s1 = []"
      "tio s1 = tio s" "tio_orig s1 = tio_orig s" "led_sent s1 = led_sent s" "printed s1 = printed s"
      using get_command_tux[of "s\<lparr>stdin_q := b\<rparr>" heading] 2 by auto
    then show ?case using Cons.IH(2)[of s1] 2 by simp
  }
qed

text \<open>The words for the LEDs are the ones the game computes.\<close>

lemma spamming_clock: "test_spamming i s = s\<lparr>led_sent := led_sent s @ [tux_clock i]\<rparr>"
  by (simp add: test_spamming_def tux_clock_def LED_DEFAULT_def Let_def)

lemma spamming_clocks: "fold (\<lambda>i. test_spamming (int i)) ks s = s\<lparr>led_sent := led_sent s @ map (\<lambda>i. tux_clock (int i)) ks\<rparr>"
  by (induction ks arbitrary: s) (simp_all add: spamming_clock)

lemma get_command_reads:
  assumes "s1 = (if prev_cur s \<noteq> cur then s\<lparr>pushed := DIR_STOP, prev_cur := cur\<rparr> else s)"
    and "read_keys use_tux (stdin_q s1) s1 = (False, s2)"
  shows "get_command use_tux cur s =
    (if pushed s2 = DIR_STOP then TURN_NONE else (pushed s2 - cur + NUM_TURNS) mod NUM_TURNS, s2)"
  unfolding get_command_def assms(1)[symmetric] by (simp add: assms(2) Let_def)

lemma turn_reaches:
  assumes "0 \<le> c" "c < 4" "0 \<le> p" "p < 4"
  shows "(c + (p - c + NUM_TURNS) mod NUM_TURNS) mod 4 = (p :: int)"
proof -
  have "(c + (p - c + 4) mod 4) mod 4 = (c + (p - c + 4)) mod 4" by (rule mod_add_right_eq)
  also have "\<dots> = p" using assms(3,4) by simp
  finally show ?thesis by (simp add: NUM_TURNS_def)
qed

section \<open>Properties\<close>

text \<open>A further fact about the same definitions.\<close>
lemma keys_give_turns:
  assumes "0x60 \<notin> set (stdin_q s)" "fsm s = 0" "0 \<le> cur" "cur < 4" "0 \<le> pushed s" "pushed s \<le> DIR_STOP"
  shows "\<exists>cmd s'. get_command False cur s = (cmd, s') \<and> stdin_q s' = [] \<and> fsm s' = escape_state (rev (stdin_q s)) \<and>
    pushed s' = (case last_arrow (rev (stdin_q s)) of Some d \<Rightarrow> int (dir_num d)
                 | None \<Rightarrow> if prev_cur s = cur then pushed s else DIR_STOP) \<and>
    (if pushed s' = DIR_STOP then cmd = TURN_NONE else 0 \<le> cmd \<and> cmd < CMD_QUIT \<and> (cur + cmd) mod 4 = pushed s')"
proof -
  let ?s1 = "if prev_cur s \<noteq> cur then s\<lparr>pushed := DIR_STOP, prev_cur := cur\<rparr> else s"
  have s1: "fsm ?s1 = 0" "stdin_q ?s1 = stdin_q s" "pushed ?s1 = (if prev_cur s = cur then pushed s else DIR_STOP)" using assms(2) by simp_all
  define s2 where "s2 = (decoded (rev (stdin_q s)) ?s1)\<lparr>stdin_q := []\<rparr>"
  have r: "read_keys False (stdin_q ?s1) ?s1 = (False, s2)"
    using read_keys_decodes[OF assms(1), of "[]" ?s1] s1(2) by (simp only: decoded_start[OF s1(1)] append_Nil2 s2_def)
  have p: "pushed s2 = (case last_arrow (rev (stdin_q s)) of Some d \<Rightarrow> int (dir_num d)
       | None \<Rightarrow> if prev_cur s = cur then pushed s else DIR_STOP)" and f: "fsm s2 = escape_state (rev (stdin_q s))" "stdin_q s2 = []"
    unfolding decoded_def s1(3) s2_def by (simp_all split: option.splits)
  have d: "dir_num d < 4" for d by (cases d) simp_all
  have "0 \<le> pushed s2" "pushed s2 \<le> DIR_STOP" using assms(5,6) d unfolding p by (auto simp: DIR_STOP_def less_imp_le split: option.splits)
  then have "pushed s2 \<noteq> DIR_STOP \<Longrightarrow> (cur + (pushed s2 - cur + NUM_TURNS) mod NUM_TURNS) mod 4 = pushed s2"
    by (intro turn_reaches assms(3,4)) (simp_all add: DIR_STOP_def)
  moreover have "get_command False cur s =
      (if pushed s2 = DIR_STOP then TURN_NONE else (pushed s2 - cur + NUM_TURNS) mod NUM_TURNS, s2)"
    by (rule get_command_reads[OF refl r])
  ultimately show ?thesis
    using p f by (cases "pushed s2 = DIR_STOP") (simp_all add: CMD_QUIT_def NUM_TURNS_def del: ex_simps)
qed

text \<open>C33: Compiled for the controller, as it is, the test program of the input module takes no turn
  from any key or button: it waits until a backquote is typed, then restores the terminal and
  returns 0, having sent the word for each of the first 2000 seconds to the LEDs.\<close>
theorem input_main_quits:
  assumes "\<And>b. b \<in> set bs \<Longrightarrow> 0x60 \<notin> set b" "pushed s = DIR_STOP" "stdin_q s = []"
  shows "input_main True True (True, True, True) True bs s = None \<and>
    (0x60 \<in> set final_keys \<longrightarrow>
      (\<exists>s'. input_main True True (True, True, True) True (bs @ final_keys # rest) s = Some (0, s') \<and> tio s' = tio s \<and>
        led_sent s' = led_sent s @ map (\<lambda>i. tux_clock (int i)) [0..<2000] \<and>
        printed s' = printed s @ [''Done'', ''CURRENT DIRECTION IS up'']))"
proof -
  define s1 where "s1 = print_line ''CURRENT DIRECTION IS up'' (snd (init_input True True True (print_line ''Done''
     (s\<lparr>led_sent := led_sent s @ map (\<lambda>i. tux_clock (int i)) [0..<2000]\<rparr>))))"
  have s1: "pushed s1 = DIR_STOP" "stdin_q s1 = []" "tio_orig s1 = tio s"
    "led_sent s1 = led_sent s @ map (\<lambda>i. tux_clock (int i)) [0..<2000]" "printed s1 = printed s @ [''Done'', ''CURRENT DIRECTION IS up'']"
    using assms(2,3) by (simp_all add: s1_def print_line_def init_input_def Let_def)
  have m: "input_main True True (True, True, True) True xs s = do { (d, ys, s4) \<leftarrow> (do {
      (cmd, bs1, s2) \<leftarrow> wait_command True 0 xs s1;
      if cmd = CMD_QUIT then Some (0, bs1, s2)
      else command_loop True ((0 + cmd) mod 4) bs1 (print_line (cmd_name ! nat cmd) (display_time_on_tux 83 s2)) });
      Some (0, shutdown_input True s4) }" for xs
    unfolding input_main_def spamming_clocks s1_def by (subst command_loop.simps) (simp add: dir_names_def Let_def)
  have "wait_command True 0 bs s1 = None" by (rule wait_command_tux(1)[OF s1(1,2)]) (use assms(1) in blast)
  moreover have "\<exists>s2. wait_command True 0 (bs @ final_keys # rest) s1 = Some (CMD_QUIT, rest, s2) \<and>
       tio s2 = tio s1 \<and> tio_orig s2 = tio_orig s1 \<and> led_sent s2 = led_sent s1 \<and> printed s2 = printed s1" if "0x60 \<in> set final_keys"
    by (rule wait_command_tux(2)[OF s1(1,2) _ that]) (use assms(1) in blast)
  ultimately show ?thesis unfolding m using s1 by (auto simp: shutdown_input_def)
qed

text \<open>A state for the witnesses.\<close>

definition demo_input :: input where
  "demo_input = \<lparr>prev_cur = DIR_STOP, pushed = DIR_STOP, fsm = 0, tio = \<lparr>c_lflag = 0x8A3B, c_cc = replicate 32 4, other_flags = []\<rparr>,
     tio_orig = \<lparr>c_lflag = 0, c_cc = [], other_flags = []\<rparr>, nonblocking = False, stdin_q = [], led_sent = [], printed = []\<rparr>"

theorem keys_give_turns_witness:
  "fst (get_command False 1 (demo_input\<lparr>stdin_q := [27, 91, 65, 120]\<rparr>)) = 3"
proof -
  let ?s = "demo_input\<lparr>stdin_q := [27, 91, 65, 120]\<rparr>"
  have q: "0x60 \<notin> set (stdin_q ?s)" "fsm ?s = 0" "0 \<le> pushed ?s" "pushed ?s \<le> DIR_STOP" by (simp_all add: demo_input_def DIR_STOP_def)
  have "last_arrow (rev (stdin_q ?s)) = Some DIR_UP"
    by (simp add: arrow_def KEY_UP_def KEY_DOWN_def KEY_RIGHT_def KEY_LEFT_def)
  then obtain cmd s' where c: "get_command False 1 ?s = (cmd, s')" "pushed s' = 0" "0 \<le> cmd" "cmd < CMD_QUIT" "(1 + cmd) mod 4 = 0"
    using keys_give_turns[OF q(1,2) _ _ q(3,4), of 1] by (auto simp: DIR_STOP_def)
  have "cmd = 0 \<or> cmd = 1 \<or> cmd = 2 \<or> cmd = 3" using c(3,4) by (simp add: CMD_QUIT_def NUM_TURNS_def) linarith
  then show ?thesis using c(1,5) by auto
qed

theorem input_main_quits_witness:
  "\<exists>s'. input_main True True (True, True, True) True [[27, 91, 65], [], [0x60]] demo_input = Some (0, s') \<and> tio s' = tio demo_input"
proof -
  have "0x60 \<notin> set b" if "b \<in> set [[27, 91, 65], []]" for b :: "byte list" using that by auto
  moreover have "pushed demo_input = DIR_STOP" "stdin_q demo_input = []" by (simp_all add: demo_input_def)
  ultimately have "0x60 \<in> set [0x60 :: byte] \<longrightarrow> (\<exists>s'. input_main True True (True, True, True) True ([[27, 91, 65], []] @ [0x60] # []) demo_input =
      Some (0, s') \<and> tio s' = tio demo_input \<and> led_sent s' = led_sent demo_input @ map (\<lambda>i. tux_clock (int i)) [0..<2000] \<and>
      printed s' = printed demo_input @ [''Done'', ''CURRENT DIRECTION IS up''])"
    using input_main_quits[of "[[27, 91, 65], []]" demo_input "[0x60]" "[]"] by blast
  then show ?thesis by auto
qed

end
