(* ===== verification/VgaText.thy ===== *)
theory VgaText
  imports ModeXVga
begin

text \<open>The text mode that \<^verbatim>\<open>set_text_mode_3\<close> of \<^verbatim>\<open>mp2_rthakk21/modex.c\<close> leaves, read from the device's
  side: what a VGA holds after a sequence of port accesses.\<close>

section \<open>Specification: the registers of a VGA\<close>

text \<open>The sequencer (0x3C4), the CRT controller (0x3D4) and the graphics controller (0x3CE) have an
  index and a data port; a word carries both.  The attribute controller (0x3C0) takes index and
  data in turns, which a read of 0x3DA starts again.  The colours are written to 0x3C9, one byte
  for each component, from the entry set at 0x3C8.\<close>

record vga =
  selected :: "u16 \<Rightarrow> byte"
  indexed :: "u16 \<times> byte \<Rightarrow> byte"
  attr_data :: bool
  attr_index :: byte
  attrs :: "byte \<Rightarrow> byte"
  misc_output :: byte
  dac_at :: nat
  dac :: "nat \<Rightarrow> byte"

definition indexed_port :: "u16 \<Rightarrow> bool" where
  "indexed_port p \<longleftrightarrow> p = 0x3C4 \<or> p = 0x3D4 \<or> p = 0x3CE"

fun vga_step :: "port_io \<Rightarrow> vga \<Rightarrow> vga" where
  "vga_step (OutW p v) g =
    (if indexed_port p then g\<lparr>selected := (selected g)(p := ucast v), indexed := (indexed g)((p, ucast v) := ucast (drop_bit 8 v))\<rparr>
     else g)"
| "vga_step (OutB p v) g =
    (if indexed_port p then g\<lparr>selected := (selected g)(p := v)\<rparr>
     else if indexed_port (p - 1) then g\<lparr>indexed := (indexed g)((p - 1, selected g (p - 1)) := v)\<rparr>
     else if p = 0x3C0 then
       (if attr_data g then g\<lparr>attr_data := False, attrs := (attrs g)(attr_index g AND 0x1F := v)\<rparr>
        else g\<lparr>attr_data := True, attr_index := v\<rparr>)
     else if p = 0x3C2 then g\<lparr>misc_output := v\<rparr>
     else if p = 0x3C8 then g\<lparr>dac_at := 3 * unat v\<rparr>
     else if p = 0x3C9 then g\<lparr>dac := (dac g)(dac_at g := v), dac_at := dac_at g + 1\<rparr>
     else g)"
| "vga_step (InB p) g = (if p = 0x3DA then g\<lparr>attr_data := False\<rparr> else g)"

definition vga_after :: "port_io list \<Rightarrow> vga \<Rightarrow> vga" where
  "vga_after log g = fold vga_step log g"

text \<open>Component \<^verbatim>\<open>k\<close> of the sixteen colours of a text screen: red, green, blue and intensity bits, and
  brown for dark yellow.\<close>

definition text_colour :: "nat \<Rightarrow> nat \<Rightarrow> byte" where
  "text_colour c k =
    (if c = 6 \<and> k = 1 then 0x15
     else (if odd (c div 2 ^ (2 - k)) then 0x2A else 0) + (if 8 \<le> c then 0x15 else 0))"

text \<open>Text mode 3, 80 columns and 25 rows of characters of 16 lines: characters and attributes in
  planes 0 and 1 at 0xB8000 (graphics registers 5 and 6, sequencer registers 2 and 4), the page at
  offset 0 (CRT controller 0x0C and 0x0D) and the timing of the mode; the display enabled.
  \<^verbatim>\<open>old\<close> is what the sequencer's register 1 read.  Register 4 of the sequencer is 0x03 and not the
  table's 0x02, because the font is written last.\<close>

definition text_mode_3 :: "byte \<Rightarrow> vga \<Rightarrow> bool" where
  "text_mode_3 old g \<longleftrightarrow>
     misc_output g = 0x67 \<and>
     map (\<lambda>i. indexed g (0x3C4, i)) [0, 1, 2, 3, 4] = [0x03, old AND 0xDF, 0x03, 0x00, 0x03] \<and>
     map (\<lambda>i. indexed g (0x3D4, i)) [0, 1, 2, 3, 4, 5, 6, 7, 8, 9, 10, 11, 12, 13, 14, 15, 16, 17, 18, 19, 20, 21, 22, 23, 24] =
       [0x5F, 0x4F, 0x50, 0x82, 0x55, 0x81, 0xBF, 0x1F, 0x00, 0x4F, 0x0D, 0x0E, 0x00, 0x00, 0x00, 0x00,
        0x9C, 0x8E, 0x8F, 0x28, 0x1F, 0x96, 0xB9, 0xA3, 0xFF] \<and>
     map (\<lambda>i. indexed g (0x3CE, i)) [0, 1, 2, 3, 4, 5, 6, 7, 8] = [0, 0, 0, 0, 0, 0x10, 0x0E, 0, 0xFF] \<and>
     map (attrs g) [0, 1, 2, 3, 4, 5, 6, 7, 8, 9, 10, 11, 12, 13, 14, 15] = [0, 1, 2, 3, 4, 5, 6, 7, 8, 9, 10, 11, 12, 13, 14, 15] \<and>
     map (attrs g) [16, 17, 18, 19, 20] = [0x0C, 0x00, 0x0F, 0x08, 0x00] \<and>
     attr_index g = 0x20 \<and>
     (\<forall>c < 16. \<forall>k < 3. dac g (3 * c + k) = text_colour c k)"

section \<open>Facts: the log of a switch to text mode\<close>

lemma fold_log:
  "ports (fold (OUTW p) ws s) = ports s @ map (OutW p) ws"
  "ports (fold (OUTB p) bs s) = ports s @ map (OutB p) bs"
  "ports (fold (\<lambda>(p, v). OUTW p v) pvs s) = ports s @ map (\<lambda>(p, v). OutW p v) pvs"
proof -
  show "ports (fold (OUTW p) ws s) = ports s @ map (OutW p) ws" by (induction ws arbitrary: s) (simp_all add: OUTW_def)
  show "ports (fold (OUTB p) bs s) = ports s @ map (OutB p) bs" by (induction bs arbitrary: s) (simp_all add: OUTB_def)
  show "ports (fold (\<lambda>(p, v). OUTW p v) pvs s) = ports s @ map (\<lambda>(p, v). OutW p v) pvs"
    by (induction pvs arbitrary: s) (auto simp: OUTW_def)
qed

lemma ports_log:
  "ports (OUTW p w s) = ports s @ [OutW p w]" "ports (OUTB p b s) = ports s @ [OutB p b]" "ports (INB p s) = ports s @ [InB p]"
  "ports (clear_text s) = ports s"
  by (simp_all add: OUTW_def OUTB_def INB_def clear_text_def)

lemma ports_vput: "ports (fold (\<lambda>j. vput (a j) (f j)) js s) = ports s"
  by (induction js arbitrary: s) simp_all

lemma ports_font: "ports (fold (\<lambda>i. fold (\<lambda>j. vput (a i j) (f i j)) js) is s) = ports s"
  by (induction "is" arbitrary: s) (simp_all add: ports_vput)

definition blank_log :: "byte \<Rightarrow> port_io list" where
  "blank_log v = [OutB 0x3C4 0x01, InB 0x3C5, OutB 0x3C5 v, InB 0x3DA, OutB 0x3C0 0x20]"

definition text_log :: "byte \<times> byte \<Rightarrow> port_io list" where
  "text_log old = blank_log ((fst old AND 0xDF) OR 0x20) @ map (OutW 0x3C4) text_seq @ [OutB 0x3C2 0x67, OutW 0x3C4 0x0300] @
     OutW 0x3D4 0x0011 # map (OutW 0x3D4) text_CRTC @ InB 0x3DA # map (OutB 0x3C0) text_attr @
     map (OutW 0x3CE) text_graphics @ OutB 0x3C8 0 # map (OutB 0x3C9) palette_RGB @
     map (\<lambda>(p, v). OutW p v) [(0x3C4, 0x0402), (0x3C4, 0x0704), (0x3CE, 0x0005), (0x3CE, 0x0406), (0x3CE, 0x0204)] @
     map (\<lambda>(p, v). OutW p v) [(0x3C4, 0x0302), (0x3C4, 0x0304), (0x3CE, 0x1005), (0x3CE, 0x0E06), (0x3CE, 0x0004)] @
     blank_log (snd old AND 0xDF)"

lemma text_mode_log: "ports (set_text_mode_3 True old s) = ports s @ text_log old"
  by (simp add: set_text_mode_3_def Let_def VGA_blank_def set_seq_regs_and_reset_def set_CRTC_registers_def set_attr_registers_def
      set_graphics_registers_def fill_palette_def REP_OUTSW_def REP_OUTSB_def write_font_data_def text_log_def blank_log_def
      fold_log ports_log ports_font del: fold.simps list.map)

section \<open>Facts: what the device holds after the log\<close>

text \<open>A table of words: the last word for a register counts.\<close>

definition table_value :: "u16 list \<Rightarrow> byte \<Rightarrow> byte option" where
  "table_value ws i = map_of (rev (map (\<lambda>w. (ucast w, ucast (drop_bit 8 w))) ws)) i"

lemma words_step:
  assumes "indexed_port p"
  shows "indexed (fold vga_step (map (OutW p) ws) g) (q, i) =
      (if q = p then (case table_value ws i of Some v \<Rightarrow> v | None \<Rightarrow> indexed g (q, i)) else indexed g (q, i))"
    "attr_data (fold vga_step (map (OutW p) ws) g) = attr_data g" "attr_index (fold vga_step (map (OutW p) ws) g) = attr_index g"
    "attrs (fold vga_step (map (OutW p) ws) g) = attrs g" "misc_output (fold vga_step (map (OutW p) ws) g) = misc_output g"
    "dac (fold vga_step (map (OutW p) ws) g) = dac g"
proof -
  show "indexed (fold vga_step (map (OutW p) ws) g) (q, i) =
      (if q = p then (case table_value ws i of Some v \<Rightarrow> v | None \<Rightarrow> indexed g (q, i)) else indexed g (q, i))"
    by (induction ws arbitrary: g) (use assms in \<open>auto simp: table_value_def map_add_def split: option.splits\<close>)
qed (use assms in \<open>induction ws arbitrary: g; simp\<close>)+

lemma attr_step:
  assumes "\<not> attr_data g"
  shows "fold vga_step (map (OutB 0x3C0) [a, v]) g = g\<lparr>attr_index := a, attrs := (attrs g)(a AND 0x1F := v)\<rparr>"
  using assms by (cases g) (simp add: indexed_port_def)

lemma dac_step:
  "dac (fold vga_step (map (OutB 0x3C9) bs) g) n =
     (if dac_at g \<le> n \<and> n < dac_at g + length bs then bs ! (n - dac_at g) else dac g n)"
  "indexed (fold vga_step (map (OutB 0x3C9) bs) g) = indexed g" "attrs (fold vga_step (map (OutB 0x3C9) bs) g) = attrs g"
  "attr_data (fold vga_step (map (OutB 0x3C9) bs) g) = attr_data g"
  "misc_output (fold vga_step (map (OutB 0x3C9) bs) g) = misc_output g"
proof -
  show "dac (fold vga_step (map (OutB 0x3C9) bs) g) n =
     (if dac_at g \<le> n \<and> n < dac_at g + length bs then bs ! (n - dac_at g) else dac g n)"
    by (induction bs arbitrary: g) (auto simp: indexed_port_def nth_Cons' le_Suc_eq Suc_diff_le)
qed (induction bs arbitrary: g; simp add: indexed_port_def)+

lemma blank_step:
  "indexed (fold vga_step (blank_log b) g) = (indexed g)((0x3C4, 1) := b)"
  "attrs (fold vga_step (blank_log b) g) = attrs g" "attr_index (fold vga_step (blank_log b) g) = 0x20"
  "misc_output (fold vga_step (blank_log b) g) = misc_output g" "dac (fold vga_step (blank_log b) g) = dac g"
  by (simp_all add: blank_log_def indexed_port_def)

lemma attrs_text:
  assumes "\<not> attr_data g"
  shows "attrs (fold vga_step (map (OutB 0x3C0) text_attr) g) = fold (\<lambda>(a, v) f. f(a := v))
      (zip [0, 1, 2, 3, 4, 5, 6, 7, 8, 9, 10, 11, 12, 13, 14, 15, 16, 17, 18, 19, 20, 21]
        [0, 1, 2, 3, 4, 5, 6, 7, 8, 9, 10, 11, 12, 13, 14, 15, 0x0C, 0, 0x0F, 0x08, 0, 0]) (attrs g)"
    "indexed (fold vga_step (map (OutB 0x3C0) text_attr) g) = indexed g"
    "misc_output (fold vga_step (map (OutB 0x3C0) text_attr) g) = misc_output g"
  using assms by (simp_all add: text_attr_def indexed_port_def)

lemma text_device_dac: "c < 16 \<Longrightarrow> k < 3 \<Longrightarrow> palette_RGB ! (3 * c + k) = text_colour c k"
proof -
  have "\<forall>c \<in> set [0..<16]. \<forall>k \<in> set [0..<3]. palette_RGB ! (3 * c + k) = text_colour c k"
    by (simp add: palette_RGB_def text_colour_def upt_rec)
  then show "c < 16 \<Longrightarrow> k < 3 \<Longrightarrow> palette_RGB ! (3 * c + k) = text_colour c k" by simp
qed

lemma text_mode_device: "text_mode_3 (snd old) (vga_after (ports (set_text_mode_3 True old s)) g)"
proof -
  have p: "indexed_port 0x3C4" "indexed_port 0x3D4" "indexed_port 0x3CE" by (simp_all add: indexed_port_def)
  define g0 where "g0 = fold vga_step (blank_log ((fst old AND 0xDF) OR 0x20)) (fold vga_step (ports s) g)"
  define g1 where "g1 = fold vga_step (map (OutW 0x3C4) text_seq) g0"
  define g2 where "g2 = vga_step (OutW 0x3D4 0x0011) (vga_step (OutW 0x3C4 0x0300) (vga_step (OutB 0x3C2 0x67) g1))"
  define g3 where "g3 = vga_step (InB 0x3DA) (fold vga_step (map (OutW 0x3D4) text_CRTC) g2)"
  define g4 where "g4 = fold vga_step (map (OutB 0x3C0) text_attr) g3"
  define g5 where "g5 = vga_step (OutB 0x3C8 0) (fold vga_step (map (OutW 0x3CE) text_graphics) g4)"
  define g6 where "g6 = fold vga_step (map (OutB 0x3C9) palette_RGB) g5"
  define g7 where "g7 = fold vga_step (map (\<lambda>(p, v). OutW p v)
      [(0x3C4, 0x0402), (0x3C4, 0x0704), (0x3CE, 0x0005), (0x3CE, 0x0406), (0x3CE, 0x0204)]) g6"
  define g8 where "g8 = fold vga_step (map (\<lambda>(p, v). OutW p v)
      [(0x3C4, 0x0302), (0x3C4, 0x0304), (0x3CE, 0x1005), (0x3CE, 0x0E06), (0x3CE, 0x0004)]) g7"
  define h where "h = fold vga_step (blank_log (snd old AND 0xDF)) g8"
  have e: "vga_after (ports (set_text_mode_3 True old s)) g = h"
    unfolding vga_after_def text_mode_log text_log_def fold_append o_apply h_def g8_def g7_def g6_def g5_def g4_def g3_def g2_def
      g1_def g0_def fold_Cons fold_Nil append.append_Cons append.append_Nil id_apply ..
  have d3: "\<not> attr_data g3" by (simp add: g3_def)
  have sq: "indexed g3 (0x3C4, i) = (if i = 0 then 3 else case table_value text_seq i of Some v \<Rightarrow> v | None \<Rightarrow> indexed g0 (0x3C4, i))" for i
    by (simp add: g3_def words_step[OF p(2)] g2_def p g1_def words_step[OF p(1)] indexed_port_def)
  have cr: "indexed g3 (0x3D4, i) = (case table_value text_CRTC i of Some v \<Rightarrow> v | None \<Rightarrow> indexed g2 (0x3D4, i))" for i
    by (simp add: g3_def words_step[OF p(2)])
  have gr: "indexed g5 (0x3CE, i) = (case table_value text_graphics i of Some v \<Rightarrow> v | None \<Rightarrow> indexed g4 (0x3CE, i))" for i
    by (simp add: g5_def words_step[OF p(3)] indexed_port_def)
  have g5: "indexed g5 (0x3C4, i) = indexed g3 (0x3C4, i)" "indexed g5 (0x3D4, i) = indexed g3 (0x3D4, i)" for i
    by (simp_all add: g5_def words_step[OF p(3)] g4_def attrs_text[OF d3] indexed_port_def)
  have n: "(0x0402 :: byte) = 2" "(0x0704 :: byte) = 4" "(0x0406 :: byte) = 6" "(0x0302 :: byte) = 2" "(0x0304 :: byte) = 4"
    "(0x1005 :: byte) = 5" "(0x0E06 :: byte) = 6"
    by simp_all
  have ix: "indexed h = (indexed g5)((0x3C4, 2) := 3, (0x3C4, 4) := 3, (0x3CE, 5) := 0x10, (0x3CE, 6) := 0x0E, (0x3CE, 4) := 0,
      (0x3C4, 1) := snd old AND 0xDF)"
    by (simp add: h_def blank_step g8_def g7_def g6_def dac_step indexed_port_def n) (simp add: fun_eq_iff)
  have m3: "misc_output g3 = 0x67" by (simp add: g3_def words_step[OF p(2)] g2_def indexed_port_def)
  have at: "attrs h = attrs g4" "attr_index h = 0x20" "misc_output h = 0x67" "dac h = dac g6"
    by (simp_all add: h_def blank_step g8_def g7_def g6_def dac_step g5_def words_step[OF p(3)] g4_def attrs_text[OF d3]
        m3 indexed_port_def)
  have "map (\<lambda>i. indexed h (0x3C4, i)) [0, 1, 2, 3, 4] = [0x03, snd old AND 0xDF, 0x03, 0x00, 0x03]"
    by (simp add: ix g5 sq table_value_def text_seq_def)
  moreover have "map (\<lambda>i. indexed h (0x3D4, i))
      [0, 1, 2, 3, 4, 5, 6, 7, 8, 9, 10, 11, 12, 13, 14, 15, 16, 17, 18, 19, 20, 21, 22, 23, 24] =
       [0x5F, 0x4F, 0x50, 0x82, 0x55, 0x81, 0xBF, 0x1F, 0x00, 0x4F, 0x0D, 0x0E, 0x00, 0x00, 0x00, 0x00,
        0x9C, 0x8E, 0x8F, 0x28, 0x1F, 0x96, 0xB9, 0xA3, 0xFF]"
    by (simp add: ix g5 cr table_value_def text_CRTC_def)
  moreover have "map (\<lambda>i. indexed h (0x3CE, i)) [0, 1, 2, 3, 4, 5, 6, 7, 8] = [0, 0, 0, 0, 0, 0x10, 0x0E, 0, 0xFF]"
    by (simp add: ix gr table_value_def text_graphics_def)
  moreover have "map (attrs h) [0, 1, 2, 3, 4, 5, 6, 7, 8, 9, 10, 11, 12, 13, 14, 15] = [0, 1, 2, 3, 4, 5, 6, 7, 8, 9, 10, 11, 12, 13, 14, 15]"
    "map (attrs h) [16, 17, 18, 19, 20] = [0x0C, 0x00, 0x0F, 0x08, 0x00]"
    by (simp_all add: at g4_def attrs_text[OF d3])
  moreover have "dac h (3 * c + k) = text_colour c k" if "c < 16" "k < 3" for c k
  proof -
    have "dac_at g5 = 0" "length palette_RGB = 192" by (simp_all add: g5_def indexed_port_def palette_RGB_def)
    then show ?thesis using that by (simp add: at g6_def dac_step text_device_dac)
  qed
  ultimately show ?thesis unfolding e text_mode_3_def using at by blast
qed

end
