(* ===== verification/MazeMain.thy ===== *)
theory MazeMain
  imports Input VgaText
begin

text \<open>The main function of \<^verbatim>\<open>mp2_rthakk21/mazegame.c\<close>: it sets up clock, terminal, display and controller,
  runs the three threads, waits for the clock and the keyboard thread and prints the outcome.  The
  calls on the two devices are a log.\<close>

section \<open>State\<close>

datatype dev_call = Rtc_open | Rtc_rate int | Rtc_on | Tux_open | Set_ldisc | Tux_init | Rtc_close | Tux_close

record session =
  sn_game :: game
  sn_tty :: termios
  sn_orig :: termios
  sn_nonblocking :: bool
  sn_devices :: "dev_call list"
  sn_out :: "string list"
  sn_err :: "string list"

section \<open>Operations\<close>

definition MAZE_FRUIT_3 :: nat where "MAZE_FRUIT_3 = 8"
definition LAST_MAZE_FRUIT_BIT :: nat where "LAST_MAZE_FRUIT_BIT = MAZE_FRUIT_3"

definition sanity_check :: "int \<times> string list" where
  "sanity_check =
    (if (2 * LAST_MAZE_FRUIT_BIT) div unat MAZE_FRUIT_1 < NUM_FRUIT_TYPES + 1
     then (- 1, [''You need to allocate more bits in maze_bit_t to encode fruit.'']) else (0, []))"

definition perror :: "string \<Rightarrow> session \<Rightarrow> session" where
  "perror t s = s\<lparr>sn_err := sn_err s @ [t]\<rparr>"

definition devices :: "dev_call list \<Rightarrow> session \<Rightarrow> session" where
  "devices cs s = s\<lparr>sn_devices := sn_devices s @ cs\<rparr>"

definition outcome_text :: "game \<Rightarrow> string" where
  "outcome_text g =
    (if winner g then ''You win the game! CONGRATULATIONS!'' else if quit_flag g then ''Quitter!'' else ''Sorry, you lose...'')"

text \<open>The keyboard: the result is 0 or what main returns.\<close>

definition keyboard_setup :: "bool \<times> bool \<times> bool \<Rightarrow> session \<Rightarrow> int \<times> session" where
  "keyboard_setup tty_ok s =
    (case tty_ok of (fcntl_ok, get_ok, set_ok) \<Rightarrow>
       if \<not> fcntl_ok then (- 1, perror ''fcntl to make stdin non-blocking'' s)
       else
         (let s1 = s\<lparr>sn_nonblocking := True\<rparr>
          in if \<not> get_ok then (- 1, perror ''tcgetattr to read stdin terminal settings'' s1)
             else
               (let s2 = s1\<lparr>sn_orig := sn_tty s1\<rparr>
                in if \<not> set_ok then (- 1, perror ''tcsetattr to set stdin terminal settings'' s2)
                   else (0, s2\<lparr>sn_tty := raw_mode (sn_orig s2)\<rparr>))))"

text \<open>\<^verbatim>\<open>tty_ok\<close> and \<^verbatim>\<open>restore_ok\<close> say which calls on the terminal succeed, \<^verbatim>\<open>mapped\<close> whether the video memory
  can be mapped.  \<^verbatim>\<open>late\<close> are the steps of the other threads after the clock thread has ended.  The
  keyboard thread ends only when the game is won or quit: otherwise the wait for it does not end.\<close>

definition mazegame_main ::
    "world \<Rightarrow> bool \<times> bool \<times> bool \<Rightarrow> bool \<Rightarrow> bool \<Rightarrow> byte \<times> byte \<Rightarrow> byte \<times> byte \<Rightarrow> frame list \<Rightarrow> thread_event list \<Rightarrow>
     session \<Rightarrow> (int \<times> session) option" where
  "mazegame_main W tty_ok mapped restore_ok old1 old2 fs late s =
    (let (r, s1) = keyboard_setup tty_ok (devices [Rtc_open, Rtc_rate 32, Rtc_on] s)
     in if r \<noteq> 0 then Some (r, s1)
        else if fst sanity_check \<noteq> 0 then Some (3, s1\<lparr>sn_out := sn_out s1 @ snd sanity_check\<rparr>)
        else
          (let (r, x) = set_mode_X True mapped old1 (mx (sn_game s1));
               s2 = s1\<lparr>sn_game := (sn_game s1)\<lparr>mx := x\<rparr>\<rparr>
           in if r \<noteq> 0 then Some (3, s2)
              else do {
                let s3 = devices [Tux_open, Set_ldisc, Tux_init] s2;
                g1 \<leftarrow> rtc_thread W fs (sn_game s3);
                let g2 = fold thread_step late g1;
                if \<not> winner g2 \<and> \<not> quit_flag g2 then None
                else do {
                  let (msgs, x1) = clear_mode_X old2 (mx g2);
                  let s4 = s3\<lparr>sn_game := g2\<lparr>mx := x1\<rparr>, sn_out := sn_out s3 @ msgs\<rparr>;
                  let s5 = (if restore_ok then s4\<lparr>sn_tty := sn_orig s4\<rparr> else s4);
                  let s6 = devices [Rtc_close, Tux_close] s5;
                  Some (0, s6\<lparr>sn_out := sn_out s6 @ [outcome_text (sn_game s6)]\<rparr>) } }))"

declare rtc_levels.simps [simp del]

section \<open>Facts: the outcome\<close>

text \<open>Only the end of the clock thread sets \<^const>\<open>winner\<close>, and only the start of a level \<^const>\<open>number\<close>.\<close>

lemma winner_counters: "counters g' = counters g \<Longrightarrow> winner g' = winner g \<and> number g' = number g"
  by (simp add: counters_def)

lemma winner_threads: "winner (fold thread_step es g) = winner g" "number (fold thread_step es g) = number g"
  using winner_counters[OF counters_threads] by blast+

lemma winner_ticks: "tick_loop W n rs g = Some (won, g') \<Longrightarrow> winner g' = winner g \<and> number g' = number g"
proof (induction n arbitrary: rs g)
  case (Suc n)
  then show ?case
    by (cases rs) (auto simp: winner_threads dest!: winner_counters[OF counters_tick] split: bind_splits if_splits)
qed simp

lemma winner_frame: "game_frame W data rgb rs g = Some (won, g') \<Longrightarrow> winner g' = winner g \<and> number g' = number g"
  by (auto simp: game_frame_def frame_display_def Let_def dest!: winner_ticks split: bind_splits)

lemma winner_level: "play_level W fs g = Some (won, g', rest) \<Longrightarrow> winner g' = winner g \<and> number g' = number g"
proof (induction fs arbitrary: g)
  case (Cons f fs)
  then show ?case by (auto simp: winner_threads dest!: winner_frame split: bind_splits if_splits)
qed simp

lemma winner_lines: "draw_lines W ks g = Some g' \<Longrightarrow> winner g' = winner g"
proof (induction ks arbitrary: g)
  case (Cons k ks)
  then show ?case by (auto dest!: winner_counters[OF counters_view(2)] split: bind_splits)
qed simp

lemma winner_prepare:
  assumes "prepare_maze_level W lev g = Some (r, g')"
  shows "winner g' = winner g"
proof -
  have i: "winner (level_info lev g) = winner g" by (simp add: level_info_def Let_def)
  show ?thesis
    using assms i unfolding prepare_maze_level_def Let_def
    by (auto dest!: winner_lines winner_counters[OF counters_view(1)] split: bind_splits if_splits)
qed

lemma winner_start:
  assumes "level_start W lev g = Some (ok, g')"
  shows "winner g' = winner g"
proof -
  obtain r g1 where g1: "prepare_maze_level W lev g = Some (r, g1)" using assms by (auto simp: level_start_def split: bind_splits)
  show ?thesis
  proof (cases "r = 0")
    case True
    let ?g = "g1\<lparr>play_x := BLOCK_X_DIM, play_y := BLOCK_Y_DIM, move_cnt := 0, last_dir := DIR_UP, dir := None, next_dir := None\<rparr>"
    obtain won g3 g4 where g4: "unveil_around_player W ?g = Some (won, g3)" "show_player W g3 = Some g4" "g' = g4\<lparr>ticks_total := 0\<rparr>"
      using assms True by (auto simp: level_start_def g1 Let_def split: bind_splits)
    have "counters g3 = counters ?g" by (rule counters_view(5)[OF g4(1)[unfolded unveil_around_player_def]])
    then have "winner g4 = winner ?g" using counters_view(4)[OF g4(2)] by (simp add: counters_def)
    then show ?thesis using winner_prepare[OF g1] by (simp add: g4(3))
  next
    case False
    then show ?thesis using assms g1 winner_prepare[OF g1] by (simp add: level_start_def)
  qed
qed

text \<open>The levels: the display stays in order, and a game that is not quit has won the last level.\<close>

lemma rtc_levels_run:
  assumes "readable (behind_build W)"
  shows "rtc_levels W lev fs g = Some g' \<Longrightarrow> gfx_inv (mx g) \<Longrightarrow> 1 \<le> lev \<Longrightarrow> lev \<le> MAX_LEVEL + 1 \<Longrightarrow> enough_rounds fs \<Longrightarrow>
    sum_list (map frame_ticks fs) < 2147483648 \<Longrightarrow> quit_flag g \<or> lev = 1 \<or> number g = lev - 1 \<and> level_won g \<Longrightarrow>
    gfx_inv (mx g') \<and> winner g' = winner g \<and> (quit_flag g' \<or> number g' = MAX_LEVEL \<and> level_won g')"
proof (induction "nat (MAX_LEVEL + 1 - lev)" arbitrary: lev fs g rule: less_induct)
  case less
  show ?case
  proof (cases "lev \<le> MAX_LEVEL \<and> \<not> quit_flag g")
    case False
    then have "rtc_levels W lev fs g = Some g" unfolding rtc_levels.simps[of W lev fs g] by (rule if_not_P)
    then have "g' = g" using less(2) by simp
    moreover have "quit_flag g \<or> lev = MAX_LEVEL + 1" using False less(5) by auto
    ultimately show ?thesis using less(3,8) by (auto simp: MAX_LEVEL_def)
  next
    case True
    note run = less(2)[unfolded rtc_levels.simps[of W lev fs g] if_P[OF True]]
    obtain ok g1 where g1: "level_start W lev g = Some (ok, g1)" using run by (auto split: bind_splits)
    have s: "ok" "playing W g1" "number g1 = lev" "ticks_total g1 = 0"
      using level_start_any[OF less(3) assms less(4) _ g1] True by simp_all
    obtain won g2 rest past where p: "play_level W fs g1 = Some (won, g2, rest)" "playing W g2" "won \<longrightarrow> level_won g2" "fs = past @ rest"
      using play_level_inv[OF s(2) assms less(6)] less(7) s(4) by auto
    have c: "won \<or> quit_flag g2" "rtc_levels W (lev + 1) rest g2 = Some g'"
      using run g1 s(1) p(1) by (auto split: if_splits)
    have n: "number g2 = lev" "winner g2 = winner g" using winner_level[OF p(1)] winner_start[OF g1] s(3) by simp_all
    have x: "gfx_inv (mx g2)" using p(2) by (simp add: playing_def game_inv_def screen_inv_def)
    have "0 \<le> sum_list (map frame_ticks past)" using frame_ticks_pos by (intro sum_list_nonneg) auto
    then have r: "enough_rounds rest" "sum_list (map frame_ticks rest) < 2147483648"
      using less(6,7) by (simp_all add: p(4) enough_rounds_def)
    have "gfx_inv (mx g') \<and> winner g' = winner g2 \<and> (quit_flag g' \<or> number g' = MAX_LEVEL \<and> level_won g')"
    proof (rule less(1)[OF _ c(2) x _ _ r])
      show "nat (MAX_LEVEL + 1 - (lev + 1)) < nat (MAX_LEVEL + 1 - lev)" "1 \<le> lev + 1" "lev + 1 \<le> MAX_LEVEL + 1"
        using True less(4) by simp_all
      show "quit_flag g2 \<or> lev + 1 = 1 \<or> number g2 = lev + 1 - 1 \<and> level_won g2" using c(1) p(3) n(1) by auto
    qed
    then show ?thesis using n(2) by simp
  qed
qed

lemma rtc_thread_run:
  assumes "readable (behind_build W)" "rtc_thread W fs g = Some g'" "gfx_inv (mx g)" "enough_rounds fs"
    "sum_list (map frame_ticks fs) < 2147483648" "\<not> winner g"
  shows "gfx_inv (mx g') \<and> winner g' = (\<not> quit_flag g') \<and> (winner g' \<longrightarrow> number g' = MAX_LEVEL \<and> level_won g')"
proof -
  obtain g1 where g1: "rtc_levels W 1 fs g = Some g1" "g' = (if quit_flag g1 then g1 else g1\<lparr>winner := True\<rparr>)"
    using assms(2) by (auto simp: rtc_thread_def split: bind_splits)
  have "gfx_inv (mx g1) \<and> winner g1 = winner g \<and> (quit_flag g1 \<or> number g1 = MAX_LEVEL \<and> level_won g1)"
    by (rule rtc_levels_run[OF assms(1) g1(1) assms(3) _ _ assms(4,5)]) (simp_all add: MAX_LEVEL_def)
  then show ?thesis using assms(6) by (auto simp: g1(2) level_won_def)
qed

text \<open>After the end of the game the other threads only change the next direction.\<close>

lemma late_threads:
  assumes "winner g \<or> quit_flag g"
  shows "\<exists>b. fold thread_step es g = g\<lparr>next_dir := b\<rparr>"
  using assms
proof (induction es arbitrary: g)
  case Nil
  have "fold thread_step [] g = g\<lparr>next_dir := next_dir g\<rparr>" by simp
  then show ?case by blast
next
  case (Cons e es)
  have "\<exists>b. thread_step e g = g\<lparr>next_dir := b\<rparr>"
  proof (cases e)
    case (Key k)
    have "thread_step e g = g\<lparr>next_dir := next_dir g\<rparr>" using Key Cons.prems by auto
    then show ?thesis by blast
  next
    case Tux
    have "tux_turn g = g \<or> (\<exists>b. tux_turn g = g\<lparr>next_dir := b\<rparr>)" by (cases "buttons_pressed g") (auto simp: tux_turn_def)
    moreover have "g = g\<lparr>next_dir := next_dir g\<rparr>" by simp
    ultimately show ?thesis unfolding Tux thread_step.simps by metis
  qed
  then obtain b where b: "thread_step e g = g\<lparr>next_dir := b\<rparr>" by blast
  then show ?case using Cons.IH[of "thread_step e g"] Cons.prems by auto
qed

text \<open>A player who quits in the first frame.\<close>

definition quit_frame :: frame where
  "quit_frame = \<lparr>before = [Key BACKQUOTE], f_data = 0, f_rgb = (0, 0, 0),
     f_rounds = replicate 8 \<lparr>between = [], r_buttons = 0, polled = [], r_junk = False, r_rgb = (0, 0, 0)\<rparr>\<rparr>"

lemma quit_level:
  assumes "playing W g" "\<not> winner g" "ticks_total g = 0"
  shows "\<exists>g' rest. play_level W [quit_frame] g = Some (False, g', rest) \<and> quit_flag g'"
proof (cases "quit_flag g")
  case False
  let ?q = "g\<lparr>quit_flag := True\<rparr>"
  have k: "thread_step (Key BACKQUOTE) g = ?q" using False assms(2) by (simp add: keyboard_key_def)
  have "playing W ?q" using thread_playing[OF assms(1), of "[Key BACKQUOTE]"] k by simp
  then obtain g2 where "frame_display 0 (0, 0, 0) ?q = Some g2" "quit_flag g2"
    using frame_display_inv[of W ?q 0 "(0, 0, 0)"] assms(3) by auto
  then show ?thesis using False k by (simp add: quit_frame_def game_frame_def)
qed simp

lemma quit_game:
  assumes "level_start W 1 g = Some (True, g1)" "playing W g1" "ticks_total g1 = 0" "\<not> winner g" "\<not> quit_flag g"
  shows "\<exists>g'. rtc_thread W [quit_frame] g = Some g' \<and> quit_flag g'"
proof -
  have "\<not> winner g1" using winner_start[OF assms(1)] assms(4) by simp
  then obtain g2 rest where g2: "play_level W [quit_frame] g1 = Some (False, g2, rest)" "quit_flag g2"
    using quit_level[OF assms(2) _ assms(3)] by blast
  have "rtc_levels W (1 + 1) rest g2 = Some g2" using g2(2) by (subst rtc_levels.simps) simp
  then have "rtc_levels W 1 [quit_frame] g = Some g2"
    using assms(1,5) g2 by (subst rtc_levels.simps) (simp add: MAX_LEVEL_def)
  then show ?thesis using g2(2) by (simp add: rtc_thread_def)
qed

section \<open>Properties\<close>

text \<open>The terminal, the devices and the text screen after a run: the text and its attributes, the font
  in plane 2, and the registers and colours of text mode, whatever the VGA held before.\<close>

definition text_screen :: "byte \<times> byte \<Rightarrow> modex \<Rightarrow> bool" where
  "text_screen old x \<longleftrightarrow>
     (\<forall>a < 16384. txt_img x (2 * a) = 0x20 \<and> txt_img x (2 * a + 1) = 0x07) \<and>
     (\<forall>i < 256. \<forall>j < 16. vplanes x 2 (int (32 * i + j)) = font_data ! i ! j) \<and>
     (\<forall>g. text_mode_3 (snd old) (vga_after (ports x) g))"

definition tidy :: "byte \<times> byte \<Rightarrow> session \<Rightarrow> session \<Rightarrow> bool" where
  "tidy old s s' \<longleftrightarrow> sn_tty s' = sn_tty s \<and> sn_err s' = sn_err s \<and>
     sn_devices s' = sn_devices s @ [Rtc_open, Rtc_rate 32, Rtc_on, Tux_open, Set_ldisc, Tux_init, Rtc_close, Tux_close] \<and>
     text_screen old (mx (sn_game s'))"

lemma cleared_text_screen: "text_screen old (snd (clear_mode_X old x))"
  using clear_mode_X_restores[of old x] text_mode_device[of old x] by (simp add: text_screen_def clear_mode_X_def Let_def)

lemma sane: "fst sanity_check = 0"
  by (simp add: sanity_check_def LAST_MAZE_FRUIT_BIT_def MAZE_FRUIT_3_def MAZE_FRUIT_1_def NUM_FRUIT_TYPES_def)

lemma main_steps:
  "\<exists>x. set_mode_X True True old1 (mx (sn_game s)) = (0, x) \<and> gfx_inv x \<and>
    mazegame_main W (True, True, True) True True old1 old2 fs late s = do {
      g1 \<leftarrow> rtc_thread W fs ((sn_game s)\<lparr>mx := x\<rparr>);
      let g2 = fold thread_step late g1;
      if \<not> winner g2 \<and> \<not> quit_flag g2 then None
      else Some (0, s\<lparr>sn_game := g2\<lparr>mx := snd (clear_mode_X old2 (mx g2))\<rparr>, sn_orig := sn_tty s, sn_nonblocking := True,
        sn_devices := sn_devices s @ [Rtc_open, Rtc_rate 32, Rtc_on, Tux_open, Set_ldisc, Tux_init, Rtc_close, Tux_close],
        sn_out := sn_out s @ fst (clear_mode_X old2 (mx g2)) @ [outcome_text g2]\<rparr>) }"
proof -
  obtain x where x: "set_mode_X True True old1 (mx (sn_game s)) = (0, x)" "gfx_inv x"
    using set_mode_X_ready[of old1 "mx (sn_game s)"] by (auto simp: gfx_inv_def)
  have o: "outcome_text (g\<lparr>mx := y\<rparr>) = outcome_text g" for g y by (simp add: outcome_text_def)
  show ?thesis
    using x(2) by (intro exI[of _ x] conjI x(1), simp, cases "rtc_thread W fs ((sn_game s)\<lparr>mx := x\<rparr>)")
      (simp_all add: mazegame_main_def keyboard_setup_def devices_def sane x(1) o case_prod_unfold Let_def cong: if_cong)
qed

lemma main_outcome:
  assumes "readable (behind_build W)" "enough_rounds fs" "sum_list (map frame_ticks fs) < 2147483648" "\<not> winner (sn_game s)"
    and "mazegame_main W (True, True, True) True True old1 old2 fs late s = Some (r, s')"
  shows "r = 0 \<and> tidy old2 s s' \<and> sn_nonblocking s' \<and> winner (sn_game s') = (\<not> quit_flag (sn_game s')) \<and>
    (winner (sn_game s') \<longrightarrow> number (sn_game s') = MAX_LEVEL \<and> level_won (sn_game s')) \<and>
    sn_out s' = sn_out s @ [if quit_flag (sn_game s') then ''Quitter!'' else ''You win the game! CONGRATULATIONS!'']"
proof -
  obtain x where x: "gfx_inv x" "mazegame_main W (True, True, True) True True old1 old2 fs late s = do {
      g1 \<leftarrow> rtc_thread W fs ((sn_game s)\<lparr>mx := x\<rparr>);
      let g2 = fold thread_step late g1;
      if \<not> winner g2 \<and> \<not> quit_flag g2 then None
      else Some (0, s\<lparr>sn_game := g2\<lparr>mx := snd (clear_mode_X old2 (mx g2))\<rparr>, sn_orig := sn_tty s, sn_nonblocking := True,
        sn_devices := sn_devices s @ [Rtc_open, Rtc_rate 32, Rtc_on, Tux_open, Set_ldisc, Tux_init, Rtc_close, Tux_close],
        sn_out := sn_out s @ fst (clear_mode_X old2 (mx g2)) @ [outcome_text g2]\<rparr>) }"
    using main_steps by blast
  obtain g1 where g1: "rtc_thread W fs ((sn_game s)\<lparr>mx := x\<rparr>) = Some g1" using assms(5) x(2) by (auto split: bind_splits)
  have t: "gfx_inv (mx g1)" "winner g1 = (\<not> quit_flag g1)" "winner g1 \<longrightarrow> number g1 = MAX_LEVEL \<and> level_won g1"
    using rtc_thread_run[OF assms(1) g1 _ assms(2,3)] x(1) assms(4) by simp_all
  have w: "winner g1 \<or> quit_flag g1" using t(2) by simp
  obtain b where b: "fold thread_step late g1 = g1\<lparr>next_dir := b\<rparr>" using late_threads[OF w] by blast
  have f: "fst (clear_mode_X old2 (mx g1)) = []" using clear_mode_X_restores[of old2 "mx g1"] t(1) by (simp add: gfx_inv_def)
  have r: "r = 0" "s' = s\<lparr>sn_game := g1\<lparr>next_dir := b, mx := snd (clear_mode_X old2 (mx g1))\<rparr>, sn_orig := sn_tty s,
      sn_nonblocking := True,
      sn_devices := sn_devices s @ [Rtc_open, Rtc_rate 32, Rtc_on, Tux_open, Set_ldisc, Tux_init, Rtc_close, Tux_close],
      sn_out := sn_out s @ [outcome_text (g1\<lparr>next_dir := b\<rparr>)]\<rparr>"
    using assms(5) w unfolding x(2) g1 by (simp_all add: b f(1) Let_def split: if_splits)
  show ?thesis using t(2,3) cleared_text_screen by (simp add: r tidy_def outcome_text_def level_won_def)
qed

lemma main_quits:
  assumes "readable (behind_build W)" "\<not> winner (sn_game s)" "\<not> quit_flag (sn_game s)"
  shows "\<exists>rs s'. mazegame_main W (True, True, True) True True old1 old2 [quit_frame] late
      (s\<lparr>sn_game := (sn_game s)\<lparr>mz := (mz (sn_game s))\<lparr>rands := rs\<rparr>\<rparr>\<rparr>) = Some (0, s')"
proof -
  let ?s = "\<lambda>rs. s\<lparr>sn_game := (sn_game s)\<lparr>mz := (mz (sn_game s))\<lparr>rands := rs\<rparr>\<rparr>\<rparr>"
  obtain x where x0: "set_mode_X True True old1 (mx (sn_game s)) = (0, x)" "gfx_inv x" using main_steps[of old1 s] by blast
  define g where "g = (sn_game s)\<lparr>mx := x\<rparr>"
  have "gfx_inv (mx g)" using x0(2) by (simp add: g_def)
  then obtain rs g1 where g1: "level_start W 1 (g\<lparr>mz := (mz g)\<lparr>rands := rs\<rparr>\<rparr>) = Some (True, g1)"
    using level_start_ex[OF _ assms(1), of g 1] by (auto simp: MAX_LEVEL_def)
  let ?g = "g\<lparr>mz := (mz g)\<lparr>rands := rs\<rparr>\<rparr>"
  have "playing W g1" "ticks_total g1 = 0"
    using level_start_any[OF _ assms(1) _ _ g1] x0(2) by (simp_all add: MAX_LEVEL_def g_def)
  then obtain g' where g': "rtc_thread W [quit_frame] ?g = Some g'" "quit_flag g'"
    using quit_game[OF g1] assms(2,3) by (auto simp: g_def)
  obtain b where b: "fold thread_step late g' = g'\<lparr>next_dir := b\<rparr>" using late_threads[of g'] g'(2) by blast
  obtain y where y: "set_mode_X True True old1 (mx (sn_game (?s rs))) = (0, y)"
    "mazegame_main W (True, True, True) True True old1 old2 [quit_frame] late (?s rs) = do {
      g1 \<leftarrow> rtc_thread W [quit_frame] ((sn_game (?s rs))\<lparr>mx := y\<rparr>);
      let g2 = fold thread_step late g1;
      if \<not> winner g2 \<and> \<not> quit_flag g2 then None
      else Some (0, (?s rs)\<lparr>sn_game := g2\<lparr>mx := snd (clear_mode_X old2 (mx g2))\<rparr>, sn_orig := sn_tty (?s rs), sn_nonblocking := True,
        sn_devices := sn_devices (?s rs) @ [Rtc_open, Rtc_rate 32, Rtc_on, Tux_open, Set_ldisc, Tux_init, Rtc_close, Tux_close],
        sn_out := sn_out (?s rs) @ fst (clear_mode_X old2 (mx g2)) @ [outcome_text g2]\<rparr>) }"
    using main_steps[of old1 "?s rs" W old2 "[quit_frame]" late] by blast
  have "y = x" using y(1) x0(1) by simp
  then have "(sn_game (?s rs))\<lparr>mx := y\<rparr> = ?g" by (simp add: g_def)
  then have "\<exists>s'. mazegame_main W (True, True, True) True True old1 old2 [quit_frame] late (?s rs) = Some (0, s')"
    unfolding y(2) by (simp add: g' b Let_def)
  then show ?thesis by blast
qed

text \<open>C14: Whatever frames a whole game takes in and whatever keys and buttons the other threads
  handle between the critical sections of the clock thread: when main returns, the result is 0,
  the settings of the terminal are the ones before, all devices are closed, and the text screen
  is back, with blank characters of attribute 7, the font in plane 2 and, in a VGA that takes
  the accesses logged, all registers and the sixteen colours of text mode 3, with the display
  enabled; but standard input stays non-blocking, which nothing undoes. Both memory fences are
  unbroken, and main prints either that the player quits or, after all ten levels have been won,
  that the player wins: the message for a lost game is never printed; a player who quits in the
  first frame does get back. When the video memory cannot be mapped, the result is 3 and the
  terminal stays without echo. A controller thread that writes next_dir inside a critical
  section of the clock thread, as its other mutex allows, is not covered here.\<close>
theorem game_main_ends:
  assumes "readable (behind_build W)" "enough_rounds fs" "sum_list (map frame_ticks fs) < 2147483648" "\<not> winner (sn_game s)"
  shows "(\<forall>r s'. mazegame_main W (True, True, True) True True old1 old2 fs late s = Some (r, s') \<longrightarrow>
      r = 0 \<and> tidy old2 s s' \<and> sn_nonblocking s' \<and> winner (sn_game s') = (\<not> quit_flag (sn_game s')) \<and>
      (winner (sn_game s') \<longrightarrow> number (sn_game s') = MAX_LEVEL \<and> level_won (sn_game s')) \<and>
      sn_out s' = sn_out s @ [if quit_flag (sn_game s') then ''Quitter!'' else ''You win the game! CONGRATULATIONS!'']) \<and>
    (\<not> quit_flag (sn_game s) \<longrightarrow> (\<exists>rs s'. mazegame_main W (True, True, True) True True old1 old2 [quit_frame] late
        (s\<lparr>sn_game := (sn_game s)\<lparr>mz := (mz (sn_game s))\<lparr>rands := rs\<rparr>\<rparr>\<rparr>) = Some (0, s'))) \<and>
    (\<exists>s'. mazegame_main W (True, True, True) False True old1 old2 fs late s = Some (3, s') \<and> sn_tty s' = raw_mode (sn_tty s))"
proof (intro conjI allI impI)
  show "\<exists>s'. mazegame_main W (True, True, True) False True old1 old2 fs late s = Some (3, s') \<and> sn_tty s' = raw_mode (sn_tty s)"
    by (simp add: mazegame_main_def keyboard_setup_def devices_def sane set_mode_X_def Let_def)
qed (use main_outcome[OF assms] main_quits[OF assms(1,4)] in blast)+

text \<open>A session before the game.\<close>

definition demo_session :: session where
  "demo_session = \<lparr>sn_game = demo_game, sn_tty = tio demo_input, sn_orig = tio_orig demo_input, sn_nonblocking = False,
     sn_devices = [], sn_out = [], sn_err = []\<rparr>"

theorem game_main_ends_witness:
  "\<exists>rs s'. mazegame_main demo_world (True, True, True) True True (0, 0) (0, 0) [quit_frame] []
      (demo_session\<lparr>sn_game := demo_game\<lparr>mz := tiny_maze\<lparr>rands := rs\<rparr>\<rparr>\<rparr>) = Some (0, s') \<and> sn_tty s' = tio demo_input \<and>
     text_screen (0, 0) (mx (sn_game s')) \<and> sn_nonblocking s'"
proof -
  let ?s = "\<lambda>rs. demo_session\<lparr>sn_game := demo_game\<lparr>mz := tiny_maze\<lparr>rands := rs\<rparr>\<rparr>\<rparr>"
  have q: "enough_rounds [quit_frame]" "sum_list (map frame_ticks [quit_frame]) < 2147483648"
    by (simp_all add: enough_rounds_def frame_ticks_def quit_frame_def)
  have w: "\<not> winner (sn_game (?s rs))" "\<not> quit_flag (sn_game demo_session)" for rs by (simp_all add: demo_session_def demo_game_def)
  have s: "demo_session\<lparr>sn_game := (sn_game demo_session)\<lparr>mz := (mz (sn_game demo_session))\<lparr>rands := rs\<rparr>\<rparr>\<rparr> = ?s rs" for rs
    by (simp add: demo_session_def demo_game_def)
  have "\<not> winner (sn_game demo_session)" by (simp add: demo_session_def demo_game_def)
  then obtain rs s' where r: "mazegame_main demo_world (True, True, True) True True (0, 0) (0, 0) [quit_frame] [] (?s rs) = Some (0, s')"
    using game_main_ends[OF demo_ready(2) q, of demo_session "(0, 0)" "(0, 0)" "[]"] w(2) unfolding s by blast
  have "tidy (0, 0) (?s rs) s' \<and> sn_nonblocking s'" using game_main_ends[OF demo_ready(2) q w(1), of "(0, 0)" "(0, 0)" "[]" rs] r by blast
  then show ?thesis using r by (auto simp: tidy_def demo_session_def)
qed

end
