(* ===== verification/Fish.thy ===== *)
theory Fish
  imports Prelude
begin

text \<open>The demonstration \<^verbatim>\<open>mp3_group_59/fish\<close>: \<^verbatim>\<open>fish.c\<close> and the list of blinking characters of \<^verbatim>\<open>blink.S\<close>
  that it drives.  The structures live in an array; a pointer is an index plus one, 0 is the null pointer.
  The screen is the video memory by its offset.  A file is the bytes that reads of one byte deliver,
  and a read of the clock is one run of the tasklet.\<close>

section \<open>State\<close>

record blink =
  bl_location :: u16
  on_char :: byte
  off_char :: byte
  on_length :: u16
  off_length :: u16
  bl_countdown :: u16
  bl_status :: u16
  bl_next :: nat

record fish =
  blink_array :: "blink list"
  mp1_list_head :: nat
  screen :: "nat \<Rightarrow> byte"
  closed_files :: "nat list"

definition no_blink :: blink where
  "no_blink = \<lparr>bl_location = 0, on_char = 0, off_char = 0, on_length = 0, off_length = 0, bl_countdown = 0, bl_status = 0, bl_next = 0\<rparr>"

definition get_blink :: "fish \<Rightarrow> nat \<Rightarrow> blink option" where
  "get_blink f p = (if p = 0 then None else rd (blink_array f) (p - 1))"

definition set_blink :: "nat \<Rightarrow> blink \<Rightarrow> fish \<Rightarrow> fish" where
  "set_blink p b f = f\<lparr>blink_array := (blink_array f)[p - 1 := b]\<rparr>"

section \<open>Memory\<close>

fun ece391_memset :: "nat \<Rightarrow> byte \<Rightarrow> nat \<Rightarrow> mem \<Rightarrow> mem" where
  "ece391_memset a c 0 m = m"
| "ece391_memset a c (Suc n) m = ece391_memset (a + 1) c n (m(a := c))"

fun ece391_memcpy :: "nat \<Rightarrow> nat \<Rightarrow> nat \<Rightarrow> mem \<Rightarrow> mem" where
  "ece391_memcpy d s 0 m = m"
| "ece391_memcpy d s (Suc n) m = ece391_memcpy (d + 1) (s + 1) n (m(d := m s))"

fun malloc_scan :: "blink list \<Rightarrow> nat \<Rightarrow> nat" where
  "malloc_scan [] i = 0"
| "malloc_scan (b # bs) i = (if bl_location b = 0 then i + 1 else malloc_scan bs (i + 1))"

definition mp1_malloc :: "fish \<Rightarrow> nat" where "mp1_malloc f = malloc_scan (blink_array f) 0"
definition mp1_free :: "nat \<Rightarrow> fish \<Rightarrow> fish" where "mp1_free p f = set_blink p no_blink f"

section \<open>The list of blinking characters\<close>

definition mp1_poke :: "byte \<Rightarrow> nat \<Rightarrow> fish \<Rightarrow> fish" where "mp1_poke c off f = f\<lparr>screen := (screen f)(off := c)\<rparr>"

text \<open>One element of the tasklet's loop; the comparison is signed.\<close>

definition blink_tick :: "nat \<Rightarrow> blink \<Rightarrow> fish \<Rightarrow> fish" where
  "blink_tick p b f =
    (let b1 = b\<lparr>bl_countdown := bl_countdown b - 1\<rparr>; at = 2 * unat (bl_location b)
     in if sint (bl_countdown b1) > 0 then set_blink p b1 f
        else if bl_status b AND 1 \<noteq> 0
        then set_blink p (b1\<lparr>bl_countdown := off_length b, bl_status := bl_status b XOR 1\<rparr>) (mp1_poke (off_char b) at f)
        else set_blink p (b1\<lparr>bl_countdown := on_length b, bl_status := bl_status b XOR 1\<rparr>) (mp1_poke (on_char b) at f))"

partial_function (option) tasklet_loop :: "nat \<Rightarrow> fish \<Rightarrow> fish option" where
  "tasklet_loop p f =
    (if p = 0 then Some f
     else do { b \<leftarrow> get_blink f p; tasklet_loop (bl_next b) (blink_tick p b f) })"

definition mp1_rtc_tasklet :: "fish \<Rightarrow> fish option" where "mp1_rtc_tasklet f = tasklet_loop (mp1_list_head f) f"

definition mp1_ioctl_add :: "blink \<Rightarrow> fish \<Rightarrow> int \<times> fish" where
  "mp1_ioctl_add u f =
    (if bl_location u \<ge> 80 * 25 then (- 1, f)
     else
       (let t = u\<lparr>bl_status := 1, bl_countdown := on_length u\<rparr>; p = mp1_malloc f
        in if p = 0 then (- 1, f)
           else
             (let f1 = set_blink p t f;
                  f2 = set_blink p (t\<lparr>bl_next := mp1_list_head f1\<rparr>) f1;
                  f3 = f2\<lparr>mp1_list_head := p\<rparr>
              in (0, mp1_poke (on_char t) (2 * unat (bl_location t)) f3))))"

partial_function (option) mp1_find_loop :: "u16 \<Rightarrow> nat \<Rightarrow> fish \<Rightarrow> nat option" where
  "mp1_find_loop loc p f =
    (if p = 0 then Some 0
     else do { b \<leftarrow> get_blink f p; if bl_location b = loc then Some p else mp1_find_loop loc (bl_next b) f })"

definition mp1_find_helper :: "u16 \<Rightarrow> fish \<Rightarrow> nat option" where
  "mp1_find_helper loc f = mp1_find_loop loc (mp1_list_head f) f"

text \<open>The place that holds the pointer to \<^verbatim>\<open>p\<close>: 0 for the head of the list, else the element before it.\<close>

partial_function (option) find_prev :: "nat \<Rightarrow> nat \<Rightarrow> fish \<Rightarrow> nat option" where
  "find_prev p place f = do {
     here \<leftarrow> (if place = 0 then Some (mp1_list_head f) else map_option bl_next (get_blink f place));
     if here = p then Some place else if here = 0 then None else find_prev p here f }"

definition mp1_ioctl_remove :: "u16 \<Rightarrow> fish \<Rightarrow> (int \<times> fish) option" where
  "mp1_ioctl_remove loc f = do {
     p \<leftarrow> mp1_find_helper loc f;
     if p = 0 then Some (- 1, f)
     else do {
       place \<leftarrow> find_prev p 0 f;
       b \<leftarrow> get_blink f p;
       f1 \<leftarrow> (if place = 0 then Some (f\<lparr>mp1_list_head := bl_next b\<rparr>)
              else do { q \<leftarrow> get_blink f place; Some (set_blink place (q\<lparr>bl_next := bl_next b\<rparr>) f) });
       Some (0, mp1_free p f1) } }"

text \<open>\<^verbatim>\<open>cmovl\<close> follows a test that clears the sign and the overflow flag, so it never moves: the
  character shown is always the one for off.\<close>

definition mp1_ioctl_sync :: "u32 \<Rightarrow> fish \<Rightarrow> (int \<times> fish) option" where
  "mp1_ioctl_sync arg f = do {
     p \<leftarrow> mp1_find_helper (ucast (drop_bit 16 arg)) f;
     if p = 0 then Some (- 1, f)
     else do {
       q \<leftarrow> mp1_find_helper (ucast (arg AND 0xFFFF)) f;
       if q = 0 then Some (- 1, f)
       else do {
         a \<leftarrow> get_blink f p;
         b \<leftarrow> get_blink f q;
         let b1 = b\<lparr>on_length := on_length a, off_length := off_length a, bl_countdown := bl_countdown a, bl_status := bl_status a\<rparr>;
         Some (0, mp1_poke (off_char b) (2 * unat (bl_location b)) (set_blink q b1 f)) } } }"

definition mp1_ioctl_find :: "u16 \<Rightarrow> fish \<Rightarrow> (int \<times> blink option) option" where
  "mp1_ioctl_find loc f = do {
     p \<leftarrow> mp1_find_helper loc f;
     if p = 0 then Some (- 1, None) else do { b \<leftarrow> get_blink f p; Some (0, Some b) } }"

section \<open>The frames\<close>

definition NL :: byte where "NL = 0x0A"
definition SP :: byte where "SP = 0x20"

text \<open>The structure on the stack; \<^verbatim>\<open>junk\<close> are the fields that the code leaves uninitialised.\<close>

definition frame_blink :: "blink \<Rightarrow> byte \<Rightarrow> byte \<Rightarrow> nat \<Rightarrow> blink" where
  "frame_blink junk c0 c1 loc = junk\<lparr>on_length := 15, off_length := 15, on_char := (if c0 = NL then SP else c0),
     off_char := (if c1 = NL then SP else c1), bl_location := of_nat loc\<rparr>"

text \<open>The read of one byte for a file whose row is not over.\<close>

definition fetch :: "byte \<times> byte list \<times> bool \<Rightarrow> byte \<times> byte list \<times> bool" where
  "fetch s = (case s of (c, xs, eof) \<Rightarrow>
     if c \<noteq> NL then (case xs of [] \<Rightarrow> (NL, [], True) | x # xs' \<Rightarrow> (x, xs', eof)) else (c, xs, eof))"

type_synonym source = "byte \<times> byte list \<times> bool"

partial_function (option) frame_row_loop :: "blink \<Rightarrow> nat \<Rightarrow> nat \<Rightarrow> source \<Rightarrow> source \<Rightarrow> fish \<Rightarrow> (source \<times> source \<times> fish) option" where
  "frame_row_loop junk row col s0 s1 f =
    (let t0 = fetch s0; t1 = fetch s1; c0 = fst t0; c1 = fst t1
     in if c0 = NL \<and> c1 = NL then Some (t0, t1, f)
        else frame_row_loop junk row (col + 1) t0 t1
          (if c0 \<noteq> SP \<and> c0 \<noteq> NL \<or> c1 \<noteq> SP \<and> c1 \<noteq> NL
           then snd (mp1_ioctl_add (frame_blink junk c0 c1 (row * 80 + col + 40)) f) else f))"

text \<open>Behind a row a file that has ended is closed (again in every later row).\<close>

definition row_end :: "nat \<Rightarrow> source \<Rightarrow> fish \<Rightarrow> source \<times> fish" where
  "row_end fd s f = (case s of (c, xs, eof) \<Rightarrow>
     if eof then ((NL, xs, eof), f\<lparr>closed_files := closed_files f @ [fd]\<rparr>) else ((0x30, xs, eof), f))"

partial_function (option) rows_loop :: "blink \<Rightarrow> nat \<Rightarrow> source \<Rightarrow> source \<Rightarrow> fish \<Rightarrow> fish option" where
  "rows_loop junk row s0 s1 f =
    (if \<not> snd (snd s0) \<or> \<not> snd (snd s1) then do {
       (t0, t1, f1) \<leftarrow> frame_row_loop junk row 0 s0 s1 f;
       let (u0, f2) = row_end 0 t0 f1;
       let (u1, f3) = row_end 1 t1 f2;
       rows_loop junk (row + 1) u0 u1 f3 }
     else Some f)"

text \<open>The result says whether both files could be opened; otherwise the program halts.\<close>

definition add_frames :: "blink \<Rightarrow> byte list option \<Rightarrow> byte list option \<Rightarrow> fish \<Rightarrow> (bool \<times> fish) option" where
  "add_frames junk file0 file1 f =
    (if file0 = None \<or> file1 = None then Some (False, f)
     else do { f1 \<leftarrow> rows_loop junk 0 (0x30, the file0, False) (0x30, the file1, False) f; Some (True, f1) })"

fun ticks :: "nat \<Rightarrow> fish \<Rightarrow> fish option" where
  "ticks 0 f = Some f"
| "ticks (Suc n) f = do { f1 \<leftarrow> mp1_rtc_tasklet f; ticks n f1 }"

text \<open>The exit code; \<^verbatim>\<open>halt(-1)\<close> gives 255.\<close>

definition fish_main :: "blink \<Rightarrow> bool \<Rightarrow> byte list option \<Rightarrow> byte list option \<Rightarrow> fish \<Rightarrow> (int \<times> fish) option" where
  "fish_main junk vid_ok file0 file1 f =
    (let f0 = f\<lparr>blink_array := replicate (80 * 25) no_blink\<rparr>
     in if \<not> vid_ok then Some (- 1, f0)
        else do {
          (ok, f1) \<leftarrow> add_frames junk file0 file1 f0;
          if \<not> ok then Some (255, f1)
          else do {
            f2 \<leftarrow> ticks 100 f1;
            let u = junk\<lparr>on_char := 0x49, off_char := 0x4D, on_length := 7, off_length := 6, bl_location := 6 * 80 + 60\<rparr>;
            let (r, f3) = mp1_ioctl_add u f2;
            f4 \<leftarrow> ticks 100 f3;
            (r, f5) \<leftarrow> mp1_ioctl_sync (push_bit 16 40 OR (6 * 80 + 60)) f4;
            f6 \<leftarrow> ticks 100 f5;
            (r, f7) \<leftarrow> mp1_ioctl_remove (6 * 80 + 60) f6;
            f8 \<leftarrow> ticks 100 f7;
            Some (0, f8) } })"

section \<open>Facts: memory\<close>

lemma memset_put: "ece391_memset a c n m = put_bytes m a (replicate n c)"
  by (induction n arbitrary: a m) (simp_all add: put_bytes_Cons)

lemma memcpy_put: "d + n \<le> s \<or> s + n \<le> d \<Longrightarrow> ece391_memcpy d s n m = put_bytes m d (bytes_of m s n)"
proof (induction n arbitrary: d s m)
  case (Suc n)
  have "bytes_of (m(d := m s)) (Suc s) n = bytes_of m (Suc s) n" by (rule bytes_of_cong) (use Suc.prems in auto)
  then show ?case using Suc.IH[of "Suc d" "Suc s" "m(d := m s)"] Suc.prems by (auto simp: put_bytes_Cons bytes_of_Suc upd_fold)
qed simp

section \<open>Facts: one tick\<close>

text \<open>What a tick does to an element, and whether it shows a character.\<close>

definition ticked :: "blink \<Rightarrow> blink" where
  "ticked b =
    (if sint (bl_countdown b - 1) > 0 then b\<lparr>bl_countdown := bl_countdown b - 1\<rparr>
     else b\<lparr>bl_countdown := (if bl_status b AND 1 \<noteq> 0 then off_length b else on_length b), bl_status := bl_status b XOR 1\<rparr>)"

definition expires :: "blink \<Rightarrow> bool" where "expires b \<longleftrightarrow> \<not> sint (bl_countdown b - 1) > 0"

definition next_char :: "blink \<Rightarrow> byte" where
  "next_char b = (if bl_status b AND 1 \<noteq> 0 then off_char b else on_char b)"

definition place :: "blink \<Rightarrow> nat" where "place b = 2 * unat (bl_location b)"

lemma blink_tick_alt:
  "blink_tick p b f = f\<lparr>blink_array := (blink_array f)[p - 1 := ticked b],
     screen := (if expires b then (screen f)(place b := next_char b) else screen f)\<rparr>"
  by (simp add: blink_tick_def ticked_def expires_def next_char_def place_def set_blink_def mp1_poke_def Let_def)

lemma ticked_next [simp]: "bl_next (ticked b) = bl_next b" by (simp add: ticked_def)

text \<open>The pointers of a list, in its order.\<close>

fun linked :: "blink list \<Rightarrow> nat \<Rightarrow> nat list \<Rightarrow> bool" where
  "linked bs p [] \<longleftrightarrow> p = 0"
| "linked bs p (q # qs) \<longleftrightarrow> p = q \<and> 0 < q \<and> q \<le> length bs \<and> linked bs (bl_next (bs ! (q - 1))) qs"

abbreviation elem :: "fish \<Rightarrow> nat \<Rightarrow> blink" where "elem f q \<equiv> blink_array f ! (q - 1)"

lemma linked_upd: "p \<notin> set qs \<Longrightarrow> 0 < p \<Longrightarrow> linked (bs[p - 1 := b]) r qs = linked bs r qs"
proof (induction qs arbitrary: r)
  case (Cons q qs)
  show ?case
  proof (cases "0 < q")
    case True
    then have "p - 1 \<noteq> q - 1" using Cons.prems by auto
    then have "bs[p - 1 := b] ! (q - 1) = bs ! (q - 1)" by simp
    then show ?thesis using Cons by auto
  qed simp
qed simp

lemma linked_range: "linked bs p qs \<Longrightarrow> q \<in> set qs \<Longrightarrow> 0 < q \<and> q \<le> length bs"
  by (induction qs arbitrary: p) auto

lemma tasklet_loop_spec:
  assumes "linked (blink_array f) p qs" "distinct qs" "distinct (map (\<lambda>q. place (elem f q)) qs)"
  shows "\<exists>f'. tasklet_loop p f = Some f' \<and> mp1_list_head f' = mp1_list_head f \<and> length (blink_array f') = length (blink_array f) \<and>
    (\<forall>i. blink_array f' ! i = (if Suc i \<in> set qs then ticked (blink_array f ! i) else blink_array f ! i)) \<and>
    (\<forall>a. a \<notin> (\<lambda>q. place (elem f q)) ` set qs \<longrightarrow> screen f' a = screen f a) \<and>
    (\<forall>q \<in> set qs. screen f' (place (elem f q)) =
      (if expires (elem f q) then next_char (elem f q) else screen f (place (elem f q))))"
  using assms
proof (induction qs arbitrary: p f)
  case Nil
  then show ?case by (subst tasklet_loop.simps) simp
next
  case (Cons q qs)
  let ?b = "elem f q"
  define g where "g = blink_tick q ?b f"
  have q: "p = q" "0 < q" "q \<le> length (blink_array f)" "linked (blink_array f) (bl_next ?b) qs" "q \<notin> set qs" "distinct qs"
    using Cons.prems(1,2) by auto
  have gb: "get_blink f q = Some ?b" using q by (simp add: get_blink_def rd_def)
  have f: "mp1_list_head g = mp1_list_head f" "length (blink_array g) = length (blink_array f)"
    "blink_array g = (blink_array f)[q - 1 := ticked ?b]"
    "screen g = (if expires ?b then (screen f)(place ?b := next_char ?b) else screen f)" by (simp_all add: g_def blink_tick_alt)
  have same: "elem g r = elem f r" if "r \<in> set qs" for r
  proof -
    have "r \<noteq> q" "0 < r" using linked_range[OF q(4) that] q(5) that by auto
    then have "r - 1 \<noteq> q - 1" using q(2) by arith
    then show ?thesis by (simp add: f(3))
  qed
  have img: "(\<lambda>q. place (elem g q)) ` set qs = (\<lambda>q. place (elem f q)) ` set qs" using same by auto
  have "linked (blink_array g) (bl_next ?b) qs" using q linked_upd by (simp add: f(3))
  moreover have m: "map (\<lambda>q. place (elem g q)) qs = map (\<lambda>q. place (elem f q)) qs" using same by simp
  have "distinct (map (\<lambda>q. place (elem g q)) qs)" unfolding m using Cons.prems(3) by simp
  ultimately obtain f' where f': "tasklet_loop (bl_next ?b) g = Some f'" "mp1_list_head f' = mp1_list_head g"
    "length (blink_array f') = length (blink_array g)"
    "\<And>i. blink_array f' ! i = (if Suc i \<in> set qs then ticked (blink_array g ! i) else blink_array g ! i)"
    "\<And>a. a \<notin> (\<lambda>q. place (elem f q)) ` set qs \<Longrightarrow> screen f' a = screen g a"
    "\<And>r. r \<in> set qs \<Longrightarrow> screen f' (place (elem g r)) =
      (if expires (elem g r) then next_char (elem g r) else screen g (place (elem g r)))"
    using Cons.IH[of g "bl_next ?b"] q(6) unfolding img by blast
  have run: "tasklet_loop p f = Some f'" using q(1,2) gb f'(1) by (subst tasklet_loop.simps) (simp add: g_def)
  have new: "place ?b \<notin> (\<lambda>q. place (elem f q)) ` set qs" using Cons.prems(3) by simp
  have arr: "blink_array f' ! i = (if Suc i \<in> set (q # qs) then ticked (blink_array f ! i) else blink_array f ! i)" for i
  proof (cases "Suc i = q")
    case True
    then show ?thesis using f'(4)[of i] q(3,5) f(3) by auto
  next
    case False
    then have "blink_array g ! i = blink_array f ! i" using q(2) f(3) by (cases "i = q - 1") auto
    then show ?thesis using f'(4)[of i] False by simp
  qed
  have out: "screen f' a = screen f a" if "a \<notin> (\<lambda>q. place (elem f q)) ` set (q # qs)" for a
    using that f'(5)[of a] f(4) by auto
  have sc: "screen f' (place (elem f r)) = (if expires (elem f r) then next_char (elem f r) else screen f (place (elem f r)))"
    if "r \<in> set (q # qs)" for r
  proof (cases "r = q")
    case True
    then show ?thesis using f'(5)[OF new] f(4) by simp
  next
    case False
    then have r: "r \<in> set qs" using that by simp
    then have "place (elem f r) \<noteq> place ?b" using new by (metis imageI)
    then have "screen g (place (elem f r)) = screen f (place (elem f r))" using f(4) by simp
    then show ?thesis using f'(6)[OF r] same[OF r] by simp
  qed
  have h: "mp1_list_head f' = mp1_list_head f" "length (blink_array f') = length (blink_array f)" using f'(2,3) f(1,2) by simp_all
  show ?case using run h arr out sc by blast
qed

section \<open>Facts: the phase of a blink\<close>

text \<open>After \<^verbatim>\<open>n\<close> ticks an element has its first character for \<^const>\<open>on_length\<close> ticks of each period, then
  the second one.\<close>

definition period :: "blink \<Rightarrow> nat" where "period b = unat (on_length b) + unat (off_length b)"

definition char_after :: "nat \<Rightarrow> blink \<Rightarrow> byte" where
  "char_after n b = (if n mod period b < unat (on_length b) then on_char b else off_char b)"

definition lengths_ok :: "blink \<Rightarrow> bool" where
  "lengths_ok b \<longleftrightarrow> 0 < unat (on_length b) \<and> unat (on_length b) < 32768 \<and> 0 < unat (off_length b) \<and> unat (off_length b) < 32768"

definition phase :: "nat \<Rightarrow> blink \<Rightarrow> bool" where
  "phase n b \<longleftrightarrow> unat (bl_countdown b) = (if n mod period b < unat (on_length b) then unat (on_length b) else period b) - n mod period b \<and>
     (bl_status b AND 1 \<noteq> 0) = (n mod period b < unat (on_length b))"

lemma sint_u16_pos: "0 < unat c \<Longrightarrow> unat c < 32768 \<Longrightarrow> (0 < sint (c - 1)) = (1 < unat c)" for c :: u16
proof -
  assume c: "0 < unat c" "unat c < 32768"
  then have "c \<noteq> 0" by auto
  then have u: "unat (c - 1) = unat c - 1" by (simp add: unat_minus_one)
  then have "unat (c - 1) < 32768" using c by simp
  then have "int (unat (c - 1)) < 32768" by linarith
  moreover have "sint (c - 1) = sint (word_of_int (int (unat (c - 1))) :: u16)" by simp
  ultimately have s: "sint (c - 1) = int (unat (c - 1))" unfolding int_word_sint by simp
  show ?thesis unfolding s u of_nat_0_less_iff by arith
qed

lemma flip_bit: "((s XOR 1) AND 1 \<noteq> 0) = (s AND 1 = 0)" for s :: u16
  by (simp add: and_one_eq flip: even_iff_mod_2_eq_zero) (simp flip: bit_0 add: bit_xor_iff, simp add: bit_0)

lemma phase_tick:
  assumes "lengths_ok b" "phase n b"
  shows "phase (n + 1) (ticked b)" "(if expires b then next_char b else char_after n b) = char_after (n + 1) b"
proof -
  define r where "r = n mod period b"
  define x where "x = unat (on_length b)"
  define y where "y = unat (off_length b)"
  have l: "0 < x" "x < 32768" "0 < y" "y < 32768" "period b = x + y"
    using assms(1) by (simp_all add: lengths_ok_def x_def y_def period_def)
  have r: "r < x + y" using l by (simp add: r_def)
  have c: "unat (bl_countdown b) = (if r < x then x else x + y) - r" "(bl_status b AND 1 \<noteq> 0) = (r < x)"
    using assms(2) unfolding phase_def r_def[symmetric] x_def[symmetric] by (simp_all add: l(5))
  have cr: "0 < unat (bl_countdown b)" "unat (bl_countdown b) < 32768" using c(1) r l by auto
  have e: "expires b = (unat (bl_countdown b) = 1)" using sint_u16_pos[OF cr] cr(1) by (auto simp: expires_def)
  have d: "unat (bl_countdown b - 1) = unat (bl_countdown b) - 1" using cr(1) by (intro unat_minus_one) auto
  have m: "(n + 1) mod (x + y) = (if r + 1 = x + y then 0 else r + 1)" using l(5) by (simp add: r_def mod_Suc)
  have t: "period (ticked b) = x + y" "on_length (ticked b) = on_length b" by (simp_all add: ticked_def l(5)[symmetric] period_def)
  have tc: "bl_countdown (ticked b) = (if expires b then if r < x then off_length b else on_length b else bl_countdown b - 1)"
    "bl_status (ticked b) = (if expires b then bl_status b XOR 1 else bl_status b)"
    using c(2) by (simp_all add: ticked_def expires_def)
  show "phase (n + 1) (ticked b)"
  proof (cases "expires b")
    case True
    then have "r + 1 = (if r < x then x else x + y)" using c(1) e r by (auto split: if_splits)
    then show ?thesis using True l c(2) flip_bit[of "bl_status b"] unfolding phase_def t tc m x_def[symmetric]
      by (cases "r < x") (simp_all flip: x_def y_def)
  next
    case False
    then have "r + 1 \<noteq> (if r < x then x else x + y)" using c(1) e r by auto
    then show ?thesis using False l c d r unfolding phase_def t tc m x_def[symmetric] by auto
  qed
  show "(if expires b then next_char b else char_after n b) = char_after (n + 1) b"
    unfolding char_after_def l(5) m r_def[symmetric, unfolded l(5)] x_def[symmetric] next_char_def c(2)
    using c(1) e r l by auto
qed

section \<open>Facts: the list on the screen\<close>

definition static :: "blink \<Rightarrow> u16 \<times> byte \<times> byte \<times> u16 \<times> u16" where
  "static b = (bl_location b, on_char b, off_char b, on_length b, off_length b)"

lemma static_cong:
  "static b = static u \<Longrightarrow> place b = place u \<and> lengths_ok b = lengths_ok u \<and> char_after n b = char_after n u \<and> bl_location b = bl_location u"
  by (simp add: static_def place_def lengths_ok_def char_after_def period_def)

lemma static_ticked [simp]: "static (ticked b) = static b" by (simp add: static_def ticked_def)

text \<open>The list at \<^verbatim>\<open>ps\<close> holds the elements \<^verbatim>\<open>us\<close>, \<^verbatim>\<open>n\<close> ticks old, and the screen shows them; all other
  places of the array are free.\<close>

definition element :: "nat \<Rightarrow> fish \<Rightarrow> nat \<Rightarrow> blink \<Rightarrow> bool" where
  "element n f q u \<longleftrightarrow> static (elem f q) = static u \<and> lengths_ok u \<and> bl_location u \<noteq> 0 \<and> bl_location u < 2000 \<and>
     phase n (elem f q) \<and> screen f (place u) = char_after n u"

definition listed :: "fish \<Rightarrow> nat list \<Rightarrow> bool" where
  "listed f ps \<longleftrightarrow> length (blink_array f) = 2000 \<and> linked (blink_array f) (mp1_list_head f) ps \<and> distinct ps \<and>
     (\<forall>i < 2000. bl_location (blink_array f ! i) \<noteq> 0 \<longrightarrow> Suc i \<in> set ps)"

definition showing :: "nat \<Rightarrow> blink list \<Rightarrow> fish \<Rightarrow> bool" where
  "showing n us f \<longleftrightarrow> (\<exists>ps. listed f ps \<and> distinct (map bl_location us) \<and> list_all2 (element n f) ps us)"

lemma distinct_places: "distinct (map bl_location us) \<Longrightarrow> distinct (map place us)"
  by (simp add: distinct_map inj_on_def place_def flip: word_unat_eq_iff)

lemma linked_cong:
  "(\<And>q. q \<in> set qs \<Longrightarrow> bl_next (bs' ! (q - 1)) = bl_next (bs ! (q - 1))) \<Longrightarrow> length bs' = length bs \<Longrightarrow>
    linked bs' p qs = linked bs p qs"
  by (induction qs arbitrary: p) auto

lemma showing_tick:
  assumes "showing n us f"
  shows "\<exists>f'. mp1_rtc_tasklet f = Some f' \<and> showing (n + 1) us f' \<and> (\<forall>a. a \<notin> place ` set us \<longrightarrow> screen f' a = screen f a)"
proof -
  obtain ps where ps: "listed f ps" "distinct (map bl_location us)" "list_all2 (element n f) ps us"
    using assms by (auto simp: showing_def)
  have l: "length (blink_array f) = 2000" "linked (blink_array f) (mp1_list_head f) ps" "distinct ps"
    using ps(1) by (simp_all add: listed_def)
  have pl: "map (\<lambda>q. place (elem f q)) ps = map place us"
    using ps(3) by (induction rule: list_all2_induct) (auto simp: element_def dest: static_cong)
  have dp: "distinct (map (\<lambda>q. place (elem f q)) ps)" unfolding pl by (rule distinct_places[OF ps(2)])
  have img: "(\<lambda>q. place (elem f q)) ` set ps = place ` set us" using arg_cong[OF pl, of set] by simp
  obtain f' where f': "tasklet_loop (mp1_list_head f) f = Some f'" "mp1_list_head f' = mp1_list_head f"
    "length (blink_array f') = length (blink_array f)"
    "\<And>i. blink_array f' ! i = (if Suc i \<in> set ps then ticked (blink_array f ! i) else blink_array f ! i)"
    "\<And>a. a \<notin> place ` set us \<Longrightarrow> screen f' a = screen f a"
    "\<And>q. q \<in> set ps \<Longrightarrow> screen f' (place (elem f q)) = (if expires (elem f q) then next_char (elem f q) else screen f (place (elem f q)))"
    using tasklet_loop_spec[OF l(2,3) dp] unfolding img by blast
  have el: "elem f' q = ticked (elem f q)" if "q \<in> set ps" for q using linked_range[OF l(2) that] that f'(4)[of "q - 1"] by simp
  have "linked (blink_array f') (mp1_list_head f') ps"
    unfolding f'(2) using l(2) linked_cong[OF _ f'(3), of ps] el by simp
  moreover have "bl_location (blink_array f' ! i) = bl_location (blink_array f ! i)" for i
    using f'(4)[of i] by (simp add: ticked_def)
  ultimately have "listed f' ps" using ps(1) f'(3) by (simp add: listed_def)
  moreover have "list_all2 (element (n + 1) f') ps us"
  proof (rule list.rel_mono_strong[OF ps(3)])
    fix q u assume q: "q \<in> set ps" "u \<in> set us" "element n f q u"
    define e where "e = elem f q"
    have c: "static e = static u" "phase n e" "lengths_ok u" "bl_location u \<noteq> 0" "bl_location u < 2000" "screen f (place u) = char_after n u"
      using q(3) by (simp_all add: element_def e_def)
    have st: "place e = place u" "lengths_ok e" "char_after m e = char_after m u" for m
      using static_cong[OF c(1)] c(3) by simp_all
    have "screen f' (place u) = (if expires e then next_char e else char_after n e)"
      using f'(6)[OF q(1), folded e_def] unfolding st(1) c(6) st(3)[of n, symmetric] .
    then have "screen f' (place u) = char_after (n + 1) u" unfolding phase_tick(2)[OF st(2) c(2)] by (simp only: st(3))
    then show "element (n + 1) f' q u"
      unfolding element_def el[OF q(1)] e_def[symmetric] using c phase_tick(1)[OF st(2) c(2)] by simp
  qed
  ultimately show ?thesis using f'(1,5) ps(2) unfolding mp1_rtc_tasklet_def showing_def by blast
qed

lemma malloc_scan_free:
  "i < length bs \<Longrightarrow> bl_location (bs ! i) = 0 \<Longrightarrow> \<exists>j < length bs. bl_location (bs ! j) = 0 \<and> malloc_scan bs k = k + j + 1"
proof (induction bs arbitrary: i k)
  case (Cons b bs)
  show ?case
  proof (cases "bl_location b = 0")
    case False
    then have "0 < i" using Cons.prems(2) by (cases i) auto
    then have "i - 1 < length bs" "bl_location (bs ! (i - 1)) = 0" using Cons.prems by (simp_all add: nth_Cons')
    then obtain j where "j < length bs" "bl_location (bs ! j) = 0" "malloc_scan bs (k + 1) = k + 1 + j + 1"
      using Cons.IH[of "i - 1" "k + 1"] by blast
    then show ?thesis using False by (intro exI[of _ "Suc j"]) simp
  qed auto
qed simp

lemma free_place:
  assumes "listed f ps" "distinct (map bl_location us)" "list_all2 (element n f) ps us"
  shows "\<exists>i < 2000. bl_location (blink_array f ! i) = 0"
proof (rule ccontr)
  assume "\<not> ?thesis"
  then have "\<And>i. i < 2000 \<Longrightarrow> Suc i \<in> set ps" using assms(1) by (simp add: listed_def)
  then have "Suc ` {0..<2000} \<subseteq> set ps" by (intro image_subsetI) simp
  then have "card (Suc ` {0..<2000 :: nat}) \<le> card (set ps)" by (intro card_mono) simp_all
  then have "2000 \<le> length ps" using card_length[of ps] by (simp add: card_image)
  moreover have "\<forall>u \<in> set us. bl_location u \<noteq> 0 \<and> bl_location u < 2000"
    using assms(3) by (induction rule: list_all2_induct) (auto simp: element_def)
  then have sub: "set (map (unat \<circ> bl_location) us) \<subseteq> {1..<2000}"
    by (auto simp: word_less_nat_alt unat_gt_0 Suc_le_eq)
  have "distinct (map (unat \<circ> bl_location) us)" using assms(2) by (simp add: distinct_map inj_on_def flip: word_unat_eq_iff)
  then have "length us \<le> card {1..<2000 :: nat}" using card_mono[OF _ sub] distinct_card[of "map (unat \<circ> bl_location) us"] by simp
  moreover have "length ps = length us" using assms(3) by (rule list_all2_lengthD)
  ultimately show False by simp
qed

lemma showing_add:
  assumes "showing 0 us f" "bl_location u \<noteq> 0" "bl_location u < 2000" "lengths_ok u" "bl_location u \<notin> bl_location ` set us"
  shows "fst (mp1_ioctl_add u f) = 0 \<and> showing 0 (u # us) (snd (mp1_ioctl_add u f)) \<and>
    (\<forall>a. a \<noteq> place u \<longrightarrow> screen (snd (mp1_ioctl_add u f)) a = screen f a)"
proof -
  obtain ps where ps: "listed f ps" "distinct (map bl_location us)" "list_all2 (element 0 f) ps us"
    using assms(1) by (auto simp: showing_def)
  obtain i where "i < 2000" "bl_location (blink_array f ! i) = 0" using free_place[OF ps] by blast
  then obtain j where j: "j < 2000" "bl_location (blink_array f ! j) = 0" "mp1_malloc f = Suc j"
    using malloc_scan_free[of i "blink_array f" 0] ps(1) by (auto simp: mp1_malloc_def listed_def)
  define t where "t = u\<lparr>bl_status := 1, bl_countdown := on_length u, bl_next := mp1_list_head f\<rparr>"
  define f' where "f' = f\<lparr>blink_array := (blink_array f)[j := t], mp1_list_head := Suc j, screen := (screen f)(place u := on_char u)\<rparr>"
  have run: "mp1_ioctl_add u f = (0, f')"
    using assms(3) j(3) by (simp add: mp1_ioctl_add_def Let_def set_blink_def mp1_poke_def f'_def t_def place_def not_le[symmetric])
  have l: "length (blink_array f) = 2000" "linked (blink_array f) (mp1_list_head f) ps" "distinct ps"
    using ps(1) by (simp_all add: listed_def)
  have loc: "bl_location (elem f q) \<noteq> 0" if "q \<in> set ps" for q
    using ps(3) that by (induction rule: list_all2_induct) (auto simp: element_def static_def)
  have new: "Suc j \<notin> set ps" using loc[of "Suc j"] j(2) by auto
  have same: "elem f' q = elem f q" if "q \<in> set ps" for q
  proof -
    have "q - 1 \<noteq> j" using linked_range[OF l(2) that] new that by (metis One_nat_def Suc_pred)
    then show ?thesis by (simp add: f'_def)
  qed
  have "linked (blink_array f') (mp1_list_head f') (Suc j # ps)"
    using j(1) l new linked_upd[of "Suc j" ps "blink_array f" t "mp1_list_head f"] by (simp add: f'_def t_def)
  then have "listed f' (Suc j # ps)" using ps(1) new by (auto simp: listed_def f'_def nth_list_update)
  moreover have "element 0 f' (Suc j) u"
    using assms(2-4) j(1) l(1) by (simp add: element_def f'_def t_def static_def phase_def char_after_def period_def lengths_ok_def)
  moreover have "list_all2 (element 0 f') ps us"
  proof (rule list.rel_mono_strong[OF ps(3)])
    fix q v assume q: "q \<in> set ps" "v \<in> set us" "element 0 f q v"
    have "bl_location v \<noteq> bl_location u" using assms(5) q(2) by (metis imageI)
    then have "place v \<noteq> place u" by (simp add: place_def flip: word_unat_eq_iff)
    then show "element 0 f' q v" using q(3) same[OF q(1)] by (simp add: element_def) (simp add: f'_def)
  qed
  ultimately have "showing 0 (u # us) f'"
    using ps(2) assms(5) unfolding showing_def by (intro exI[of _ "Suc j # ps"]) simp
  then show ?thesis by (simp add: run) (simp add: f'_def)
qed

section \<open>Facts: reading the rows\<close>

text \<open>A text with rows still to come, or one that has ended; its present row, the rows behind it, and
  the character at a row and a column.\<close>

fun line :: "byte list option \<Rightarrow> byte list" where
  "line None = []"
| "line (Some x) = takeWhile (\<lambda>c. c \<noteq> NL) x"

fun next_rows :: "byte list option \<Rightarrow> byte list option" where
  "next_rows None = None"
| "next_rows (Some x) = (if NL \<in> set x then Some (drop 1 (dropWhile (\<lambda>c. c \<noteq> NL) x)) else None)"

definition nth_or :: "byte list \<Rightarrow> nat \<Rightarrow> byte" where "nth_or l c = (if c < length l then l ! c else SP)"

fun text_char :: "byte list option \<Rightarrow> nat \<Rightarrow> nat \<Rightarrow> byte" where
  "text_char t 0 c = nth_or (line t) c"
| "text_char t (Suc r) c = text_char (next_rows t) r c"

function row_blinks :: "blink \<Rightarrow> nat \<Rightarrow> byte list \<Rightarrow> byte list \<Rightarrow> blink list" where
  "row_blinks J at l0 l1 =
    (if l0 = [] \<and> l1 = [] then []
     else (if nth_or l0 0 \<noteq> SP \<or> nth_or l1 0 \<noteq> SP then [frame_blink J (nth_or l0 0) (nth_or l1 0) at] else []) @
          row_blinks J (at + 1) (tl l0) (tl l1))"
  by pat_completeness auto
termination
proof (relation "measure (\<lambda>(J, at, l0, l1). length l0 + length l1)")
  fix J :: blink and at and l0 l1 :: "byte list"
  assume "\<not> (l0 = [] \<and> l1 = [])"
  then show "((J, at + 1, tl l0, tl l1), J, at, l0, l1) \<in> measure (\<lambda>(J, at, l0, l1). length l0 + length l1)"
    by (cases l0; cases l1) simp_all
qed simp

declare row_blinks.simps [simp del]

function frame_blinks :: "blink \<Rightarrow> nat \<Rightarrow> byte list option \<Rightarrow> byte list option \<Rightarrow> blink list" where
  "frame_blinks J row t0 t1 =
    (if t0 = None \<and> t1 = None then []
     else row_blinks J (row * 80 + 40) (line t0) (line t1) @ frame_blinks J (row + 1) (next_rows t0) (next_rows t1))"
  by pat_completeness auto

definition text_size :: "byte list option \<Rightarrow> nat" where
  "text_size t = (case t of None \<Rightarrow> 0 | Some x \<Rightarrow> Suc (length x))"

lemma next_rows_size: "text_size (next_rows t) \<le> text_size t" "t \<noteq> None \<Longrightarrow> text_size (next_rows t) < text_size t"
proof -
  have "text_size (next_rows (Some x)) < text_size (Some x)" for x
    using length_dropWhile_le[of "\<lambda>c. c \<noteq> NL" x] by (cases x) (auto simp: text_size_def)
  then show "t \<noteq> None \<Longrightarrow> text_size (next_rows t) < text_size t" by (cases t) auto
  then show "text_size (next_rows t) \<le> text_size t" by (cases t) (simp_all add: less_imp_le)
qed

termination frame_blinks
proof (relation "measure (\<lambda>(J, row, t0, t1). text_size t0 + text_size t1)")
  fix J :: blink and row and t0 t1 :: "byte list option"
  assume "\<not> (t0 = None \<and> t1 = None)"
  then show "((J, row + 1, next_rows t0, next_rows t1), J, row, t0, t1) \<in> measure (\<lambda>(J, row, t0, t1). text_size t0 + text_size t1)"
    using next_rows_size[of t0] next_rows_size[of t1] by (cases "t0 = None") auto
qed simp

declare frame_blinks.simps [simp del]

lemma nth_or_tl: "nth_or (tl l) c = nth_or l (Suc c)"
  by (cases l) (auto simp: nth_or_def)

lemma row_blinks_in:
  "u \<in> set (row_blinks J at l0 l1) \<longleftrightarrow> (\<exists>c. (nth_or l0 c \<noteq> SP \<or> nth_or l1 c \<noteq> SP) \<and> u = frame_blink J (nth_or l0 c) (nth_or l1 c) (at + c))"
proof (induction J at l0 l1 rule: row_blinks.induct)
  case (1 J at l0 l1)
  show ?case
  proof (cases "l0 = [] \<and> l1 = []")
    case True
    then show ?thesis by (simp add: row_blinks.simps[of J at] nth_or_def)
  next
    case False
    let ?P = "\<lambda>c. (nth_or l0 c \<noteq> SP \<or> nth_or l1 c \<noteq> SP) \<and> u = frame_blink J (nth_or l0 c) (nth_or l1 c) (at + c)"
    have "u \<in> set (row_blinks J (at + 1) (tl l0) (tl l1)) \<longleftrightarrow> (\<exists>c. ?P (Suc c))"
      using 1[OF False] by (simp add: nth_or_tl)
    then have "u \<in> set (row_blinks J at l0 l1) \<longleftrightarrow> ?P 0 \<or> (\<exists>c. ?P (Suc c))"
      unfolding row_blinks.simps[of J at l0 l1] if_not_P[OF False] by auto
    also have "\<dots> \<longleftrightarrow> (\<exists>c. ?P c)" by (metis not0_implies_Suc)
    finally show ?thesis .
  qed
qed

lemma text_char_None: "text_char None r c = SP"
  by (induction r) (simp_all add: nth_or_def)

lemma frame_blinks_in:
  "u \<in> set (frame_blinks J row t0 t1) \<longleftrightarrow> (\<exists>r c. (text_char t0 r c \<noteq> SP \<or> text_char t1 r c \<noteq> SP) \<and>
     u = frame_blink J (text_char t0 r c) (text_char t1 r c) ((row + r) * 80 + 40 + c))"
proof (induction J row t0 t1 rule: frame_blinks.induct)
  case (1 J row t0 t1)
  show ?case
  proof (cases "t0 = None \<and> t1 = None")
    case True
    then show ?thesis by (simp add: frame_blinks.simps[of J row] text_char_None)
  next
    case False
    let ?P = "\<lambda>r. \<exists>c. (text_char t0 r c \<noteq> SP \<or> text_char t1 r c \<noteq> SP) \<and>
     u = frame_blink J (text_char t0 r c) (text_char t1 r c) ((row + r) * 80 + 40 + c)"
    have "u \<in> set (frame_blinks J (row + 1) (next_rows t0) (next_rows t1)) \<longleftrightarrow> (\<exists>r. ?P (Suc r))"
      using 1[OF False] by (simp add: algebra_simps)
    moreover have "u \<in> set (row_blinks J (row * 80 + 40) (line t0) (line t1)) \<longleftrightarrow> ?P 0" by (simp add: row_blinks_in)
    ultimately have "u \<in> set (frame_blinks J row t0 t1) \<longleftrightarrow> ?P 0 \<or> (\<exists>r. ?P (Suc r))"
      unfolding frame_blinks.simps[of J row t0 t1] if_not_P[OF False] by simp
    also have "\<dots> \<longleftrightarrow> (\<exists>r. ?P r)" by (metis not0_implies_Suc)
    finally show ?thesis .
  qed
qed

text \<open>A file within a row: what the row still gives, and the file when both rows are over.\<close>

definition src_line :: "source \<Rightarrow> byte list" where
  "src_line s = (case s of (c, xs, eof) \<Rightarrow> if c = NL then [] else takeWhile (\<lambda>c. c \<noteq> NL) xs)"

definition src_after :: "source \<Rightarrow> source" where
  "src_after s = (case s of (c, xs, eof) \<Rightarrow>
     if c = NL then (NL, xs, eof) else (NL, drop 1 (dropWhile (\<lambda>c. c \<noteq> NL) xs), eof \<or> NL \<notin> set xs))"

lemma fetch_end: "src_line s = [] \<Longrightarrow> fetch s = src_after s \<and> fst (fetch s) = NL"
  by (cases s) (auto simp: src_line_def fetch_def src_after_def split: if_splits list.splits)

lemma src_after_twice: "src_line (src_after s) = []" "src_after (src_after s) = src_after s"
  by (auto simp: src_line_def src_after_def split: prod.splits)

lemma fetch_more:
  assumes "src_line s \<noteq> []"
  shows "fst (fetch s) = hd (src_line s)" "fst (fetch s) \<noteq> NL" "src_line (fetch s) = tl (src_line s)" "src_after (fetch s) = src_after s"
proof -
  obtain c xs eof where s: "s = (c, xs, eof)" by (cases s)
  obtain x ys where x: "xs = x # ys" "c \<noteq> NL" "x \<noteq> NL" using assms by (cases xs) (auto simp: s src_line_def split: if_splits)
  show "fst (fetch s) = hd (src_line s)" "fst (fetch s) \<noteq> NL" "src_line (fetch s) = tl (src_line s)" "src_after (fetch s) = src_after s"
    using x by (auto simp: s src_line_def fetch_def src_after_def)
qed

text \<open>Both cases in one.\<close>

lemma fetch_step:
  "src_line (fetch s) = tl (src_line s)" "src_after (fetch s) = src_after s" "(fst (fetch s) = NL) = (src_line s = [])"
  "(if fst (fetch s) = NL then SP else fst (fetch s)) = nth_or (src_line s) 0"
proof -
  have e: "src_line s = [] \<Longrightarrow> fetch s = src_after s \<and> fst (src_after s) = NL" using fetch_end[of s] by auto
  note m = fetch_more[of s]
  show "src_line (fetch s) = tl (src_line s)" using e m(3) src_after_twice[of s] by (cases "src_line s = []") simp_all
  show "src_after (fetch s) = src_after s" using e m(4) src_after_twice[of s] by (cases "src_line s = []") simp_all
  show "(fst (fetch s) = NL) = (src_line s = [])" using e m(2) by (cases "src_line s = []") simp_all
  show "(if fst (fetch s) = NL then SP else fst (fetch s)) = nth_or (src_line s) 0"
    using e m(1,2) by (cases "src_line s = []") (simp_all add: nth_or_def hd_conv_nth)
qed

definition adds :: "blink list \<Rightarrow> fish \<Rightarrow> fish" where
  "adds us f = fold (\<lambda>u f. snd (mp1_ioctl_add u f)) us f"

lemma frame_blink_SP: "frame_blink J c0 c1 at = frame_blink J (if c0 = NL then SP else c0) (if c1 = NL then SP else c1) at"
  by (simp add: frame_blink_def)

lemma frame_row_loop_spec:
  "frame_row_loop J row col s0 s1 f = Some (src_after s0, src_after s1, adds (row_blinks J (row * 80 + col + 40) (src_line s0) (src_line s1)) f)"
proof (induction "length (src_line s0) + length (src_line s1)" arbitrary: s0 s1 f col rule: less_induct)
  case less
  show ?case
  proof (cases "src_line s0 = [] \<and> src_line s1 = []")
    case True
    then have "fetch s0 = src_after s0" "fst (src_after s0) = NL" "fetch s1 = src_after s1" "fst (src_after s1) = NL"
      using fetch_end[of s0] fetch_end[of s1] by auto
    then show ?thesis using True
      by (subst frame_row_loop.simps) (simp add: row_blinks.simps[of J _ "[]" "[]"] adds_def Let_def)
  next
    case False
    let ?a = "nth_or (src_line s0) 0" and ?b = "nth_or (src_line s1) 0"
    have nl: "\<not> (fst (fetch s0) = NL \<and> fst (fetch s1) = NL)" using False by (simp add: fetch_step(3))
    have c: "(fst (fetch s) \<noteq> SP \<and> fst (fetch s) \<noteq> NL) = (nth_or (src_line s) 0 \<noteq> SP)" for s
      using fetch_step(4)[of s] by (auto split: if_splits)
    have b: "frame_blink J (fst (fetch s0)) (fst (fetch s1)) at = frame_blink J ?a ?b at" for at
      using frame_blink_SP[of J "fst (fetch s0)" "fst (fetch s1)" at] by (simp only: fetch_step(4))
    define g where "g = (if ?a \<noteq> SP \<or> ?b \<noteq> SP then snd (mp1_ioctl_add (frame_blink J ?a ?b (row * 80 + col + 40)) f) else f)"
    have run: "frame_row_loop J row col s0 s1 f = frame_row_loop J row (col + 1) (fetch s0) (fetch s1) g"
      unfolding frame_row_loop.simps[of J row col s0 s1 f] Let_def if_not_P[OF nl] c b g_def ..
    have "length (src_line (fetch s0)) + length (src_line (fetch s1)) < length (src_line s0) + length (src_line s1)"
      using False unfolding fetch_step(1) by (cases "src_line s0"; cases "src_line s1") simp_all
    from less[OF this, of "col + 1" g]
    have "frame_row_loop J row col s0 s1 f = Some (src_after s0, src_after s1,
        adds (row_blinks J (row * 80 + (col + 1) + 40) (tl (src_line s0)) (tl (src_line s1))) g)"
      unfolding run fetch_step(1,2) .
    moreover have "adds (row_blinks J (row * 80 + col + 40) (src_line s0) (src_line s1)) f =
        adds (row_blinks J (row * 80 + col + 40 + 1) (tl (src_line s0)) (tl (src_line s1))) g"
      unfolding row_blinks.simps[of J _ "src_line s0" "src_line s1"] if_not_P[OF False] by (simp add: adds_def g_def)
    moreover have "row * 80 + (col + 1) + 40 = row * 80 + col + 40 + 1" by simp
    ultimately show ?thesis by metis
  qed
qed

lemma add_closed: "mp1_ioctl_add u (f\<lparr>closed_files := l\<rparr>) = (fst (mp1_ioctl_add u f), (snd (mp1_ioctl_add u f))\<lparr>closed_files := l\<rparr>)"
  by (simp add: mp1_ioctl_add_def mp1_malloc_def set_blink_def mp1_poke_def Let_def)

lemma adds_closed: "adds us (f\<lparr>closed_files := l\<rparr>) = (adds us f)\<lparr>closed_files := l\<rparr>"
  unfolding adds_def by (induction us arbitrary: f) (simp_all add: add_closed)

fun row_start :: "byte list option \<Rightarrow> source" where
  "row_start None = (NL, [], True)"
| "row_start (Some x) = (0x30, x, False)"

lemma row_start_line: "src_line (row_start t) = line t"
  by (cases t) (simp_all add: src_line_def NL_def)

lemma row_start_end: "\<exists>l. row_end fd (src_after (row_start t)) f = (row_start (next_rows t), f\<lparr>closed_files := l\<rparr>)"
proof (cases t)
  case None
  then show ?thesis by (auto simp: src_after_def row_end_def)
next
  case (Some x)
  show ?thesis
  proof (cases "NL \<in> set x")
    case True
    then have "row_end fd (src_after (row_start t)) f = (row_start (next_rows t), f\<lparr>closed_files := closed_files f\<rparr>)"
      by (simp add: Some src_after_def row_end_def) (simp add: NL_def)
    then show ?thesis by blast
  next
    case False
    then have "\<forall>c \<in> set x. c \<noteq> NL" by metis
    then have d: "drop 1 (dropWhile (\<lambda>c. c \<noteq> NL) x) = []" by (simp only: dropWhile_eq_Nil_conv[THEN iffD2] drop_Nil)
    have n: "(0x30 :: byte) \<noteq> NL" by (simp add: NL_def)
    have "src_after (row_start t) = (NL, [], True)" unfolding Some src_after_def using n d False by simp
    then show ?thesis using False by (auto simp: Some row_end_def)
  qed
qed

lemma rows_loop_spec:
  "\<exists>l. rows_loop J row (row_start t0) (row_start t1) f = Some ((adds (frame_blinks J row t0 t1) f)\<lparr>closed_files := l\<rparr>)"
proof (induction J row t0 t1 arbitrary: f rule: frame_blinks.induct)
  case (1 J row t0 t1)
  have stop: "snd (snd (row_start t)) = (t = None)" for t by (cases t) simp_all
  show ?case
  proof (cases "t0 = None \<and> t1 = None")
    case True
    then have "rows_loop J row (row_start t0) (row_start t1) f = Some ((adds [] f)\<lparr>closed_files := closed_files f\<rparr>)"
      by (subst rows_loop.simps) (simp add: adds_def)
    moreover have "frame_blinks J row t0 t1 = []" using True by (subst frame_blinks.simps) (rule if_P)
    ultimately show ?thesis by metis
  next
    case False
    define g where "g = adds (row_blinks J (row * 80 + 40) (line t0) (line t1)) f"
    have row: "frame_row_loop J row 0 (row_start t0) (row_start t1) f = Some (src_after (row_start t0), src_after (row_start t1), g)"
      using frame_row_loop_spec[of J row 0 "row_start t0" "row_start t1" f] by (simp add: row_start_line g_def)
    obtain l0 where e0: "row_end 0 (src_after (row_start t0)) g = (row_start (next_rows t0), g\<lparr>closed_files := l0\<rparr>)"
      using row_start_end by blast
    obtain l1 where e1: "row_end 1 (src_after (row_start t1)) (g\<lparr>closed_files := l0\<rparr>) = (row_start (next_rows t1), g\<lparr>closed_files := l0, closed_files := l1\<rparr>)"
      using row_start_end by blast
    have "rows_loop J row (row_start t0) (row_start t1) f =
        rows_loop J (row + 1) (row_start (next_rows t0)) (row_start (next_rows t1)) (g\<lparr>closed_files := l1\<rparr>)"
      using False row e0 e1 by (subst rows_loop.simps) (simp add: stop Let_def)
    moreover obtain l where "rows_loop J (row + 1) (row_start (next_rows t0)) (row_start (next_rows t1)) (g\<lparr>closed_files := l1\<rparr>) =
        Some ((adds (frame_blinks J (row + 1) (next_rows t0) (next_rows t1)) (g\<lparr>closed_files := l1\<rparr>))\<lparr>closed_files := l\<rparr>)"
      using 1[OF False] by blast
    moreover have "adds (frame_blinks J row t0 t1) f = adds (frame_blinks J (row + 1) (next_rows t0) (next_rows t1)) g"
      unfolding frame_blinks.simps[of J row t0 t1] if_not_P[OF False] by (simp add: adds_def g_def)
    ultimately show ?thesis by (auto simp: adds_closed)
  qed
qed

section \<open>Facts: the frames on the screen\<close>

lemma small_loc: "m < 2000 \<Longrightarrow> n < 2000 \<Longrightarrow> (of_nat m :: u16) = of_nat n \<Longrightarrow> m = n"
proof -
  assume a: "m < 2000" "n < 2000" "(of_nat m :: u16) = of_nat n"
  have "unat (of_nat m :: u16) = m" "unat (of_nat n :: u16) = n" by (rule unat_of_nat_small, use a(1,2) in simp)+
  then show ?thesis using a(3) by metis
qed

lemma frame_blink_loc: "bl_location (frame_blink J a b n) = of_nat n"
  by (simp add: frame_blink_def)

lemma row_blinks_loc:
  "u \<in> set (row_blinks J at l0 l1) \<Longrightarrow> \<exists>c. (nth_or l0 c \<noteq> SP \<or> nth_or l1 c \<noteq> SP) \<and> bl_location u = of_nat (at + c)"
  unfolding row_blinks_in using frame_blink_loc by blast

lemma frame_blinks_loc:
  "u \<in> set (frame_blinks J row t0 t1) \<Longrightarrow>
    \<exists>r c. (text_char t0 r c \<noteq> SP \<or> text_char t1 r c \<noteq> SP) \<and> bl_location u = of_nat ((row + r) * 80 + 40 + c)"
  unfolding frame_blinks_in using frame_blink_loc by blast

text \<open>The characters of both texts lie on the screen and no row reaches the next one.\<close>

definition fits_from :: "nat \<Rightarrow> byte list option \<Rightarrow> byte list option \<Rightarrow> bool" where
  "fits_from row t0 t1 \<longleftrightarrow> (\<forall>r c. text_char t0 r c \<noteq> SP \<or> text_char t1 r c \<noteq> SP \<longrightarrow> c < 80 \<and> (row + r) * 80 + 40 + c < 2000)"

lemma row_blinks_distinct:
  assumes "\<And>c. nth_or l0 c \<noteq> SP \<or> nth_or l1 c \<noteq> SP \<Longrightarrow> at + c < 2000"
  shows "distinct (map bl_location (row_blinks J at l0 l1))"
  using assms
proof (induction J at l0 l1 rule: row_blinks.induct)
  case (1 J at l0 l1)
  show ?case
  proof (cases "l0 = [] \<and> l1 = []")
    case True
    then show ?thesis by (simp add: row_blinks.simps[of J at])
  next
    case False
    have d: "distinct (map bl_location (row_blinks J (at + 1) (tl l0) (tl l1)))"
      using 1(1)[OF False] 1(2)[of "Suc c" for c] by (simp add: nth_or_tl)
    have "of_nat at \<notin> bl_location ` set (row_blinks J (at + 1) (tl l0) (tl l1))" if "nth_or l0 0 \<noteq> SP \<or> nth_or l1 0 \<noteq> SP"
    proof
      assume "of_nat at \<in> bl_location ` set (row_blinks J (at + 1) (tl l0) (tl l1))"
      then obtain v where v: "v \<in> set (row_blinks J (at + 1) (tl l0) (tl l1))" "(of_nat at :: u16) = bl_location v" by blast
      obtain c where "nth_or l0 (Suc c) \<noteq> SP \<or> nth_or l1 (Suc c) \<noteq> SP" "bl_location v = of_nat (at + 1 + c)"
        using row_blinks_loc[OF v(1)] unfolding nth_or_tl by blast
      note c = this(1) v(2)[unfolded this(2)]
      have "at + 0 < 2000" by (rule 1(2)[OF that])
      moreover have "at + Suc c < 2000" by (rule 1(2)[OF c(1)])
      ultimately have "at = at + 1 + c" by (intro small_loc[OF _ _ c(2)]) simp_all
      then show False by simp
    qed
    then show ?thesis using d unfolding row_blinks.simps[of J at l0 l1] if_not_P[OF False] by (simp add: frame_blink_def)
  qed
qed

lemma fits_next: "fits_from row t0 t1 \<Longrightarrow> fits_from (row + 1) (next_rows t0) (next_rows t1)"
proof -
  assume f: "fits_from row t0 t1"
  have "c < 80 \<and> (row + 1 + r) * 80 + 40 + c < 2000"
    if "text_char (next_rows t0) r c \<noteq> SP \<or> text_char (next_rows t1) r c \<noteq> SP" for r c
    using f[unfolded fits_from_def, rule_format, of "Suc r" c] that by simp
  then show ?thesis by (simp add: fits_from_def)
qed

lemma frame_blinks_distinct:
  "fits_from row t0 t1 \<Longrightarrow> distinct (map bl_location (frame_blinks J row t0 t1))"
proof (induction J row t0 t1 rule: frame_blinks.induct)
  case (1 J row t0 t1)
  show ?case
  proof (cases "t0 = None \<and> t1 = None")
    case True
    then have "frame_blinks J row t0 t1 = []" by (subst frame_blinks.simps) (rule if_P)
    then show ?thesis by simp
  next
    case False
    note f = 1(2)[unfolded fits_from_def, rule_format]
    note g = fits_next[OF 1(2)]
    have r: "c < 80 \<and> row * 80 + 40 + c < 2000" if "nth_or (line t0) c \<noteq> SP \<or> nth_or (line t1) c \<noteq> SP" for c
      using f[of 0 c] that by simp
    have "distinct (map bl_location (row_blinks J (row * 80 + 40) (line t0) (line t1)))" by (rule row_blinks_distinct) (use r in blast)
    moreover have "distinct (map bl_location (frame_blinks J (row + 1) (next_rows t0) (next_rows t1)))" by (rule 1(1)[OF False g])
    moreover have "bl_location u \<noteq> bl_location v"
      if u: "u \<in> set (row_blinks J (row * 80 + 40) (line t0) (line t1))" and v: "v \<in> set (frame_blinks J (row + 1) (next_rows t0) (next_rows t1))" for u v
    proof
      assume e: "bl_location u = bl_location v"
      obtain c where c: "nth_or (line t0) c \<noteq> SP \<or> nth_or (line t1) c \<noteq> SP" "bl_location u = of_nat (row * 80 + 40 + c)"
        using row_blinks_loc[OF u] by blast
      obtain r' c' where d: "text_char (next_rows t0) r' c' \<noteq> SP \<or> text_char (next_rows t1) r' c' \<noteq> SP"
        "bl_location v = of_nat ((row + 1 + r') * 80 + 40 + c')"
        using frame_blinks_loc[OF v] by blast
      have "row * 80 + 40 + c = (row + 1 + r') * 80 + 40 + c'"
      proof (rule small_loc)
        show "row * 80 + 40 + c < 2000" using r[OF c(1)] by simp
        show "(row + 1 + r') * 80 + 40 + c' < 2000" using g[unfolded fits_from_def, rule_format, OF d(1)] by blast
        show "(of_nat (row * 80 + 40 + c) :: u16) = of_nat ((row + 1 + r') * 80 + 40 + c')" using e unfolding c(2) d(2) .
      qed
      then show False using r[OF c(1)] by simp
    qed
    ultimately show ?thesis
      unfolding frame_blinks.simps[of J row t0 t1] if_not_P[OF False] by auto
  qed
qed

lemma showing_closed: "showing n us (f\<lparr>closed_files := l\<rparr>) = showing n us f"
proof -
  have "element n (f\<lparr>closed_files := l\<rparr>) = element n f" by (intro ext) (simp add: element_def)
  then show ?thesis by (simp add: showing_def listed_def)
qed

lemma showing_adds:
  assumes "showing 0 vs f" "\<And>u. u \<in> set us \<Longrightarrow> bl_location u \<noteq> 0 \<and> bl_location u < 2000 \<and> lengths_ok u" "distinct (map bl_location (us @ vs))"
  shows "showing 0 (rev us @ vs) (adds us f) \<and> (\<forall>a. a \<notin> place ` set us \<longrightarrow> screen (adds us f) a = screen f a)"
  using assms
proof (induction us arbitrary: f vs)
  case (Cons u us)
  let ?f = "snd (mp1_ioctl_add u f)"
  have a: "showing 0 (u # vs) ?f \<and> (\<forall>a. a \<noteq> place u \<longrightarrow> screen ?f a = screen f a)"
    using showing_add[of vs f u] Cons.prems by auto
  have "showing 0 (rev us @ u # vs) (adds us ?f) \<and> (\<forall>a. a \<notin> place ` set us \<longrightarrow> screen (adds us ?f) a = screen ?f a)"
    by (rule Cons.IH) (use a Cons.prems in auto)
  then show ?case using a by (auto simp: adds_def)
qed (simp add: adds_def)

lemma showing_ticks:
  assumes "showing m us f"
  shows "\<exists>f'. ticks n f = Some f' \<and> showing (m + n) us f' \<and> (\<forall>a. a \<notin> place ` set us \<longrightarrow> screen f' a = screen f a)"
  using assms
proof (induction n arbitrary: m f)
  case (Suc n)
  obtain f1 where f1: "mp1_rtc_tasklet f = Some f1" "showing (m + 1) us f1" "\<forall>a. a \<notin> place ` set us \<longrightarrow> screen f1 a = screen f a"
    using showing_tick[OF Suc.prems] by blast
  obtain f2 where f2: "ticks n f1 = Some f2" "showing (m + 1 + n) us f2" "\<forall>a. a \<notin> place ` set us \<longrightarrow> screen f2 a = screen f1 a"
    using Suc.IH[OF f1(2)] by blast
  then show ?case using f1 by (intro exI[of _ f2]) simp
qed simp

lemma showing_char: "showing n us f \<Longrightarrow> u \<in> set us \<Longrightarrow> screen f (place u) = char_after n u"
proof -
  assume s: "showing n us f" and u: "u \<in> set us"
  obtain ps where "list_all2 (element n f) ps us" using s by (auto simp: showing_def)
  then show ?thesis using u by (induction rule: list_all2_induct) (auto simp: element_def)
qed

lemma no_line_feed: "NL \<notin> set l \<Longrightarrow> nth_or l c \<noteq> NL"
proof (cases "c < length l")
  case True
  assume "NL \<notin> set l"
  then show ?thesis unfolding nth_or_def if_P[OF True] using nth_mem[OF True] by metis
qed (simp add: nth_or_def NL_def SP_def)

lemma text_char_plain: "text_char t r c \<noteq> NL"
proof (induction r arbitrary: t)
  case 0
  have "NL \<notin> set (line t)" by (cases t) (auto dest: set_takeWhileD)
  then show ?case by (simp add: no_line_feed)
qed simp

text \<open>An element that points to itself.\<close>

lemma tasklet_stuck:
  assumes "tasklet_loop p f = Some r"
  shows "\<not> (p = 1 \<and> blink_array f \<noteq> [] \<and> bl_next (blink_array f ! 0) = 1)"
  using assms
proof (rule tasklet_loop.raw_induct[rotated])
  fix loop p f r
  assume IH: "\<And>p f r. loop p f = Some r \<Longrightarrow> \<not> (p = 1 \<and> blink_array f \<noteq> [] \<and> bl_next (blink_array f ! 0) = 1)"
    and body: "(if p = 0 then Some f else do { b \<leftarrow> get_blink f p; loop (bl_next b) (blink_tick p b f) }) = Some (r :: fish)"
  show "\<not> (p = 1 \<and> blink_array f \<noteq> [] \<and> bl_next (blink_array f ! 0) = 1)"
  proof
    assume c: "p = 1 \<and> blink_array f \<noteq> [] \<and> bl_next (blink_array f ! 0) = 1"
    then have g: "get_blink f p = Some (blink_array f ! 0)" by (simp add: get_blink_def rd_def)
    then have "loop 1 (blink_tick 1 (blink_array f ! 0) f) = Some r" using body c by simp
    from IH[OF this] c show False by (simp add: blink_tick_alt)
  qed
qed

text \<open>A character in the upper left corner has the location 0, by which free places are recognised: the
  next one is given the same place, and the list becomes a cycle.\<close>

lemma corner_blink_loops:
  assumes "blink_array f = replicate 2000 no_blink" "mp1_list_head f = 0" "bl_location u = 0" "bl_location v < 2000"
  shows "\<exists>f1 f2. mp1_ioctl_add u f = (0, f1) \<and> mp1_ioctl_add v f1 = (0, f2) \<and> mp1_rtc_tasklet f2 = None"
proof -
  define rest where "rest = replicate 1999 no_blink"
  have f: "blink_array f = no_blink # rest" unfolding assms(1) rest_def by (simp flip: replicate_Suc)
  define f1 where "f1 = snd (mp1_ioctl_add u f)"
  have m: "mp1_malloc f = 1" by (simp add: mp1_malloc_def f no_blink_def)
  have f1: "mp1_ioctl_add u f = (0, f1)" "mp1_list_head f1 = 1" "\<exists>b. blink_array f1 = b # rest \<and> bl_location b = 0"
    using assms(3) by (simp_all add: f1_def mp1_ioctl_add_def m set_blink_def mp1_poke_def f Let_def)
  define f2 where "f2 = snd (mp1_ioctl_add v f1)"
  obtain b where b: "blink_array f1 = b # rest" "bl_location b = 0" using f1(3) by blast
  have m1: "mp1_malloc f1 = 1" by (simp add: mp1_malloc_def b)
  have ok: "\<not> bl_location v \<ge> 80 * 25" using assms(4) by simp
  have f2: "mp1_ioctl_add v f1 = (0, f2)" "mp1_list_head f2 = 1" "\<exists>b. blink_array f2 = b # rest \<and> bl_next b = 1"
    using ok by (simp_all add: f2_def mp1_ioctl_add_def m1 set_blink_def mp1_poke_def b(1) f1(2) Let_def)
  have "mp1_rtc_tasklet f2 = None"
  proof (cases "mp1_rtc_tasklet f2")
    case (Some r)
    then have "tasklet_loop 1 f2 = Some r" using f2(2) by (simp add: mp1_rtc_tasklet_def)
    from tasklet_stuck[OF this] f2(3) show ?thesis by auto
  qed
  then show ?thesis using f1(1) f2(1) by blast
qed

section \<open>Properties\<close>

text \<open>C23: When both frames fit on the screen, the fish program reads them to their ends, and after
  any number of ticks each place of the screen that is not blank in both shows the character of
  the first frame for the first 15 of each 30 ticks and that of the second frame for the others;
  nothing else on the screen changes.\<close>
theorem frames_alternate:
  assumes "blink_array f = replicate 2000 no_blink" "mp1_list_head f = 0" "fits_from 0 (Some x0) (Some x1)"
  shows "\<exists>f1. add_frames J (Some x0) (Some x1) f = Some (True, f1) \<and> (\<forall>n. \<exists>f2. ticks n f1 = Some f2 \<and>
    (\<forall>r c. text_char (Some x0) r c \<noteq> SP \<or> text_char (Some x1) r c \<noteq> SP \<longrightarrow>
      screen f2 (2 * (r * 80 + 40 + c)) = (if n mod 30 < 15 then text_char (Some x0) r c else text_char (Some x1) r c)) \<and>
    (\<forall>a. (\<forall>r c. text_char (Some x0) r c \<noteq> SP \<or> text_char (Some x1) r c \<noteq> SP \<longrightarrow> a \<noteq> 2 * (r * 80 + 40 + c)) \<longrightarrow>
      screen f2 a = screen f a))"
proof -
  let ?t0 = "Some x0" and ?t1 = "Some x1"
  let ?lit = "\<lambda>r c. text_char ?t0 r c \<noteq> SP \<or> text_char ?t1 r c \<noteq> SP"
  let ?u = "\<lambda>r c. frame_blink J (text_char ?t0 r c) (text_char ?t1 r c) (r * 80 + 40 + c)"
  define us where "us = frame_blinks J 0 ?t0 ?t1"
  have us: "u \<in> set us \<longleftrightarrow> (\<exists>r c. ?lit r c \<and> u = ?u r c)" for u by (simp add: us_def frame_blinks_in)
  have in_screen: "r * 80 + 40 + c < 2000" if "?lit r c" for r c
    using assms(3)[unfolded fits_from_def, rule_format, OF that] by simp
  have loc: "unat (bl_location (?u r c)) = r * 80 + 40 + c" if "?lit r c" for r c
    unfolding frame_blink_loc by (rule unat_of_nat_small) (use in_screen[OF that] in simp)
  have len: "lengths_ok (?u r c)" for r c by (simp add: frame_blink_def lengths_ok_def)
  have per: "char_after n (?u r c) = (if n mod 30 < 15 then text_char ?t0 r c else text_char ?t1 r c)" for n r c
    using text_char_plain by (simp add: char_after_def period_def frame_blink_def)
  have pl: "place (?u r c) = 2 * (r * 80 + 40 + c)" if "?lit r c" for r c unfolding place_def loc[OF that] ..
  have "bl_location u \<noteq> 0 \<and> bl_location u < 2000 \<and> lengths_ok u" if "u \<in> set us" for u
  proof -
    obtain r c where rc: "?lit r c" "u = ?u r c" using \<open>u \<in> set us\<close> us by blast
    have "unat (bl_location u) < 2000" "0 < unat (bl_location u)" using loc[OF rc(1)] in_screen[OF rc(1)] rc(2) by simp_all
    then show ?thesis using len rc(2) by (simp add: word_less_nat_alt unat_gt_0)
  qed
  moreover have "showing 0 [] f"
    using assms(1,2) unfolding showing_def by (intro exI[of _ "[]"]) (simp add: listed_def no_blink_def)
  ultimately have s: "showing 0 (rev us @ []) (adds us f) \<and> (\<forall>a. a \<notin> place ` set us \<longrightarrow> screen (adds us f) a = screen f a)"
    using frame_blinks_distinct[OF assms(3), of J] by (intro showing_adds) (simp_all add: us_def)
  obtain l where l: "rows_loop J 0 (row_start ?t0) (row_start ?t1) f = Some ((adds us f)\<lparr>closed_files := l\<rparr>)"
    using rows_loop_spec unfolding us_def by blast
  define f1 where "f1 = (adds us f)\<lparr>closed_files := l\<rparr>"
  have f1: "showing 0 (rev us) f1" "\<And>a. a \<notin> place ` set us \<Longrightarrow> screen f1 a = screen f a"
    using s by (simp_all add: f1_def showing_closed)
  have "add_frames J ?t0 ?t1 f = Some (True, f1)" using l by (simp add: add_frames_def f1_def)
  moreover have "\<exists>f2. ticks n f1 = Some f2 \<and>
    (\<forall>r c. ?lit r c \<longrightarrow> screen f2 (2 * (r * 80 + 40 + c)) = (if n mod 30 < 15 then text_char ?t0 r c else text_char ?t1 r c)) \<and>
    (\<forall>a. (\<forall>r c. ?lit r c \<longrightarrow> a \<noteq> 2 * (r * 80 + 40 + c)) \<longrightarrow> screen f2 a = screen f a)" for n
  proof -
    obtain f2 where f2: "ticks n f1 = Some f2" "showing n (rev us) f2" "\<And>a. a \<notin> place ` set us \<Longrightarrow> screen f2 a = screen f1 a"
      using showing_ticks[OF f1(1), of n] by auto
    have "screen f2 (2 * (r * 80 + 40 + c)) = (if n mod 30 < 15 then text_char ?t0 r c else text_char ?t1 r c)" if "?lit r c" for r c
    proof -
      have "?u r c \<in> set (rev us)" using us that by auto
      from showing_char[OF f2(2) this] show ?thesis unfolding pl[OF that] per .
    qed
    moreover have "screen f2 a = screen f a" if "\<forall>r c. ?lit r c \<longrightarrow> a \<noteq> 2 * (r * 80 + 40 + c)" for a
    proof -
      have "a \<noteq> place u" if u: "u \<in> set us" for u
      proof -
        obtain r c where rc: "?lit r c" "u = ?u r c" using u us by blast
        show ?thesis unfolding rc(2) pl[OF rc(1)] using \<open>\<forall>r c. ?lit r c \<longrightarrow> a \<noteq> 2 * (r * 80 + 40 + c)\<close> rc(1) by blast
      qed
      then have "a \<notin> place ` set us" by blast
      then show ?thesis using f2(3) f1(2) by simp
    qed
    ultimately show ?thesis using f2(1) by blast
  qed
  ultimately show ?thesis by blast
qed

theorem frames_alternate_witness:
  "\<exists>f1. add_frames no_blink (Some [0x61]) (Some [0x62]) \<lparr>blink_array = replicate 2000 no_blink, mp1_list_head = 0, screen = (\<lambda>a. 0),
       closed_files = []\<rparr> = Some (True, f1) \<and>
     (\<exists>f2. ticks 14 f1 = Some f2 \<and> screen f2 80 = 0x61) \<and> (\<exists>f2. ticks 15 f1 = Some f2 \<and> screen f2 80 = 0x62)"
proof -
  let ?f = "\<lparr>blink_array = replicate 2000 no_blink, mp1_list_head = 0, screen = (\<lambda>a. 0), closed_files = []\<rparr>"
  have t: "text_char (Some [b]) r c = (if r = 0 \<and> c = 0 then b else SP)" if "b \<noteq> NL" for b r c
    using that by (cases r) (simp_all add: text_char_None nth_or_def)
  have ch: "(0x61 :: byte) \<noteq> NL" "(0x62 :: byte) \<noteq> NL" "(0x61 :: byte) \<noteq> SP" by (simp_all add: NL_def SP_def)
  have "fits_from 0 (Some [0x61]) (Some [0x62])" by (simp add: fits_from_def t[OF ch(1)] t[OF ch(2)])
  then obtain f1 where f1: "add_frames no_blink (Some [0x61]) (Some [0x62]) ?f = Some (True, f1)"
    "\<And>n. \<exists>f2. ticks n f1 = Some f2 \<and> (\<forall>r c. text_char (Some [0x61]) r c \<noteq> SP \<or> text_char (Some [0x62]) r c \<noteq> SP \<longrightarrow>
      screen f2 (2 * (r * 80 + 40 + c)) = (if n mod 30 < 15 then text_char (Some [0x61]) r c else text_char (Some [0x62]) r c))"
    using frames_alternate[of ?f "[0x61]" "[0x62]" no_blink, simplified blink.simps fish.simps] by blast
  have "\<exists>f2. ticks n f1 = Some f2 \<and> screen f2 80 = (if n mod 30 < 15 then 0x61 else 0x62)" for n
  proof -
    obtain f2 where f2: "ticks n f1 = Some f2" "\<And>r c. text_char (Some [0x61]) r c \<noteq> SP \<or> text_char (Some [0x62]) r c \<noteq> SP \<Longrightarrow>
      screen f2 (2 * (r * 80 + 40 + c)) = (if n mod 30 < 15 then text_char (Some [0x61]) r c else text_char (Some [0x62]) r c)"
      using f1(2) by blast
    have z: "text_char (Some [0x61]) 0 0 = 0x61" "text_char (Some [0x62]) 0 0 = 0x62" unfolding t[OF ch(1)] t[OF ch(2)] by simp_all
    have "screen f2 (2 * (0 * 80 + 40 + 0)) = (if n mod 30 < 15 then 0x61 else 0x62)"
      using f2(2)[of 0 0] ch(3) unfolding z by blast
    then show ?thesis using f2(1) by simp
  qed
  from this[of 14] this[of 15] f1(1) show ?thesis by auto
qed

end
