(* ===== verification/Spec2Isabelle.thy ===== *)
theory Spec2Isabelle
  imports ListProg CountProg Syserr Emulate Boot Cleanup MazeMain Fish
begin

text \<open>
  A verification library for two programs of this repository: the operating system of
  mp3_group_59 (a teaching kernel for x86 with three terminals and up to five processes) and the
  maze game of mp2_rthakk21 with its driver for the Tux controller.

  The kernel (src/mp3_group_59/student-distrib).
  A user program enters the kernel through the gate for vector 0x80 and asks for one of the system
  calls. Execute splits the command, looks the program up in the file system, loads it into the
  frame of the new process, maps that frame and enters user code; halt undoes this and returns to
  the parent. Files, directories, the clock and the terminal are reached through descriptors with
  an operations table. The keyboard interrupt edits the line that a read from the terminal waits
  for. The theories and what they model:

  Lib: lib.c, the string and memory functions. Memory is a function from addresses to bytes. The
  assembly copies are modelled with their alignment loop, double-word loop, tail and direction
  flag.
  Console: lib.c, the text screen: cursor, scrolling, putc, puts and printf over video memory.
  Pic: i8259.c, the two interrupt controllers: shadow masks and the port writes they lead to.
  Rtc: rtc.c, the clock: rates, handler and the read that waits for the next tick.
  Paging: paging.c, the page directory and tables. The walk of the processor is the specification
  against which the safety property is stated: after any sequence of the paging operations it gives
  exactly the memory map.
  Idt: IDT.c and x86_desc.h, the gates and the handlers of the exceptions.
  Filesystem: filesystem.c, the read-only image in memory and the operations on files and
  directories. The abstract file is the list of its bytes; readable_source is the interface of
  anything read in chunks, interpreted for files.
  Keyboard and Terminal: keyboard.c and terminal_driver.c, from scan codes to the line buffer,
  switching of terminals, reading a line and writing. The abstract line editor is the
  specification that the interrupt handler refines, for every key but Alt with F1 to F3, which are
  switches of the terminal; Tab is in it as the code does it.
  Syscall and Processes: syscall.c. Control transfers (iret, the return through a saved frame, the
  restart of the base shell) are values of a datatype, so every path of execute and halt is a
  branch of the model.

  ProcessStack: the abstract machine is a stack of processes, each with its page, descriptors and
  control block; a step is a system call, an exception, an interrupt or a store of the user program.
  Every step of the kernel refines one of the machine: execute pushes, halt pops, all else changes
  the top only. From this follows the bracket of call and return over any nesting of programs. A
  key that shows a terminal for the first time is a push too (the handler executes a shell), and an
  execute with all five process numbers taken, which leaves the number -99, changes the top only.
  Two kinds of steps are labelled and excluded by the hypotheses of the properties: Stray, a read or
  getargs into a buffer below 128 MB, which the code does not refuse although it may overwrite the
  control blocks, and Lost, the end of the base shell when its restart fails. One operation is one
  step: an interrupt within a system call is modelled only where a read waits. A step exists where
  the model of the operation has a value: none for the 129th typed character, which the code stores
  past the line buffer. The image is one of well-formed programs (programs_ok).
  Boot: kernel.c with multiboot.h, from the loader to the halt loop: the lines printed about the
  loader's information, the descriptors of the local table and the task state, and the
  initialisation of the devices in its order. Composed with the process stack, it gives runs of
  the whole kernel; that no process is active and that every key which would start a shell faults
  is a property too.

  UserLib, UserProgs, ListProg, CountProg: mp3_group_59/syscalls, the programs that run on the
  kernel: cat, ls, grep, hello, testprint, counter and the shell. They are functions on the kernel
  state that call the modelled system calls, so the properties of cat, ls and counter go through
  descriptors, file system, terminal and screen. The conversion of numbers in the support library
  is equivalent to the one of lib.c.
  Syserr: ece391syserr.c, the tests of the error cases of the system calls, entered through the
  number test and the jump table of systemcall_handler.S.
  Emulate: ece391emulate.c, the same calls emulated on Linux to try the programs out: splitting a
  command into words, putting the arguments together, and the directory as a file of names.
  Fish: mp3_group_59/fish, the demonstration with two alternating frames and the list of blinking
  characters of blink.S, whose elements live in an array; the list of their addresses is the
  abstraction.

  The maze game (src/mp2_rthakk21).
  TuxRing, TuxPackets: module/tuxctl-ld.c, the line discipline: two ring buffers, the queueing of
  output and the search for packets in the input. Each operation runs under the spin lock of its
  buffer and is one step. bounded_queue is the interface of a ring, interpreted for the rings of
  the code.
  TuxIoctl: module/tuxctl-ioctl.c, the driver that talks to the controller in packets: the
  acknowledgement flag, the buttons and the commands for the LEDs.
  TextFont, TextGraphics: text.c, the font and the drawing of a line of text in the planar format
  of mode X. The planar image is the abstraction under which the drawing is exact.
  ModeX, ModeXView: modex.c, the build buffer with its four planes, the view window, blocks and
  lines. The picture of the window (a function of pixel coordinates) is the abstraction: moving the
  window keeps it, the drawing operations paint exactly their pixels.
  ModeXVga: modex.c, the register tables, entering and leaving mode X, the two display pages and
  the status bar. gfx_run runs a list of calls of the graphics functions; it has no value when an
  access leaves the build buffer or a signed int overflows, and the calls of a game, with
  coordinates up to a million, have one: the window stays in the build buffer and the memory fences
  intact. The functions themselves compute in unbounded integers; window_ints, block_ints and
  line_ints list the C subexpressions that must fit.
  VgaText: the registers and colours that a VGA holds after the port accesses of set_text_mode_3.
  Maze, MazeReach, MazePlay: maze.c, the generation of a maze, fruits, the choice of blocks and
  lines for the display, and the breadth-first marking with its queue of fixed size. Connected
  locations are an inductive relation; the invariant of the game is that the counter is the number
  of cells with a fruit.

  MazeGame: mazegame.c. The record game holds what the three threads share. The clock thread is
  modelled frame by frame and tick by tick; the steps of the keyboard and controller threads stand
  between its critical sections as lists of events, so the properties hold for every interleaving
  at that grain, and late_turn_leaves_line shows what a step inside such a section can do.
  MazeScreen: what the operations of maze.c draw is what the maze then shows, so drawing the blocks
  they ask for keeps the build buffer equal to the picture of the maze.
  MazeRun: the invariant of the game (the player on the lattice lines between open squares, the
  window around it, the build buffer showing the maze) is kept by every step of every thread, up to
  whole frames, and what the monitor shows after a frame.
  MazeMake, MazeSupply: whatever make_maze returns is a level that can be played; and each of its
  loops ends for some supply of random numbers.
  MazeLevel: the start of a level and playing it, from make_maze to the monitor; the reference
  definition of the arrow keys. MazeClock: the time from tux_clock to the LEDs of the controller.
  MazeMain: main of mazegame.c, from the set-up of terminal and display over the levels to the
  outcome; it composes set_mode_X, the clock thread with the steps of the other threads, and
  clear_mode_X. The text screen is given back in full, but standard input stays non-blocking.
  Cleanup: assert.c, the stack of cleanup functions as linked cells in a heap, and the signals that
  run it. What the system does with a signal is the specification deliver.
  Input: input.c, the terminal's mode, commands from keys, and the test program.

  Loops. A loop with a bound in the code is a structural or well-founded recursion. A loop that
  may run forever (waiting for a tick or for the enter key, the phases of make_maze that draw
  random numbers, the queue of mark_maze_area) is a partial function into option or takes the
  interrupts that happen as a list; None stands for not returning. The properties state that the
  result is Some where the code returns, without fuel.

  Parameters. The contents of random(), the pictures of the maze blocks, the addresses of the
  interrupt stubs, the space reported by the serial driver and the bytes in memory before boot are
  arguments of the definitions that use them; so are the bytes that the VGA
  ports deliver and the bytes that the linker puts behind the build buffer, which copy_image reads.

  Not modelled: the assembly that saves registers, loads tables and runs before entry (boot.S,
  assembly_linkage.S, assembly_paging.S, x86_desc.S), which is outside C; tests.c, whose tests are
  all commented out; the opening of the clock, the controller and the ports, which the model of
  main only logs; the mapping of video memory, the text restore program of modex.c and the threads
  library; pingpong, which never ends, and sigtest, whose signals the kernel does not have; the
  mapping of physical memory in the emulation; the unused draft file.c and the assembly module of
  mp1.
\<close>

end
